(* ===== verification/Ubx_Prelude.thy ===== *)
theory Ubx_Prelude
  imports Main "HOL-Library.Word" "HOL-Library.Signed_Division" "HOL-Library.Monad_Syntax"
begin

text \<open>
  The prelude of the development: names for the machine types of the C sources, signed C
  arithmetic whose overflow is undefined behaviour, C strings, the options used as the
  ``defined behaviour'' monad, and the lemma collections the component theories extend.

  Conventions shared by all theories:
  \<^item> a C expression whose evaluation is undefined behaviour (a NULL or dangling pointer is
    dereferenced, a signed operation overflows, a divisor is zero, memory outside an object
    is touched) evaluates to \<^term>\<open>None\<close>; a defined evaluation is \<^term>\<open>Some r\<close>;
  \<^item> unsigned integers are words of their width, \<open>int\<close> and \<open>long\<close> are \<^typ>\<open>int\<close> with
    the range written out where the code can leave it;
  \<^item> the platform is LP64 (\<open>long\<close> and pointers have 64 bits) and little-endian words are
    only relied on where the code does.
\<close>

section \<open>Lemma collections\<close>

named_theorems ubx_defs \<open>definitions of the operations, for symbolic execution\<close>
named_theorems inv_intro \<open>preservation lemmas of the invariants\<close>

section \<open>Machine types\<close>

type_synonym u8 = "8 word"
type_synonym u16 = "16 word"
type_synonym u32 = "32 word"
type_synonym u64 = "64 word"

type_synonym addr = nat
  \<comment> \<open>the address of a heap object\<close>
type_synonym ptr = "nat option"
  \<comment> \<open>a pointer: \<open>None\<close> is NULL\<close>
type_synonym fptr = nat
  \<comment> \<open>the address of a function\<close>

section \<open>Signed arithmetic of type \<open>long\<close>\<close>

definition LONG_MAX :: int where
  "LONG_MAX = 9223372036854775807"

definition in_long :: "int \<Rightarrow> bool" where
  "in_long x \<longleftrightarrow> - LONG_MAX - 1 \<le> x \<and> x \<le> LONG_MAX"

definition long_chk :: "int \<Rightarrow> int option" where
  "long_chk x = (if in_long x then Some x else None)"

lemma long_chk_Some [simp]: "long_chk x = Some y \<longleftrightarrow> in_long x \<and> y = x"
  by (auto simp: long_chk_def)

lemma long_chk_None [simp]: "long_chk x = None \<longleftrightarrow> \<not> in_long x"
  by (simp add: long_chk_def)

lemma long_chk_in_long: "in_long x \<Longrightarrow> long_chk x = Some x"
  by simp

lemma in_longI: "\<bar>x\<bar> \<le> 9223372036854775807 \<Longrightarrow> in_long x"
  by (auto simp: in_long_def LONG_MAX_def)

lemma smod_pos: "0 \<le> a \<Longrightarrow> 0 < b \<Longrightarrow> a smod b = a mod (b :: int)"
  by (simp add: smod_int_alt_def sgn_if)

lemma sdiv_pos: "0 \<le> a \<Longrightarrow> 0 < b \<Longrightarrow> a sdiv b = a div (b :: int)"
  by (auto simp: signed_divide_int_def sgn_if)

lemma sdiv_neg: "a \<le> 0 \<Longrightarrow> 0 < b \<Longrightarrow> a sdiv b = - (- a div (b :: int))"
  by (auto simp: signed_divide_int_def sgn_if)

lemma smod_neg: "a \<le> 0 \<Longrightarrow> b \<noteq> 0 \<Longrightarrow> a smod b = - (- a mod \<bar>b :: int\<bar>)"
  by (auto simp: smod_int_alt_def sgn_if)

text \<open>Conversion of a signed value to an unsigned 64-bit type.\<close>

lemma uint_word_of_int_id:
  assumes "0 \<le> x" "x < 2 ^ LENGTH('a)"
  shows "uint (word_of_int x :: 'a::len word) = x"
  using assms by (simp add: uint_word_of_int take_bit_int_eq_self)

section \<open>C strings\<close>

text \<open>
  A C string is the list of its characters before the terminating NUL byte. \<open>strncpy\<close>
  into a zeroed buffer of \<open>n + 1\<close> bytes keeps the first \<open>n\<close> characters, and \<open>strncmp\<close>
  with bound \<open>n\<close> compares the first \<open>n\<close>.
\<close>

definition strncpy :: "nat \<Rightarrow> string \<Rightarrow> string" where
  "strncpy n s = take n s"

definition strncmp_eq :: "string \<Rightarrow> string \<Rightarrow> nat \<Rightarrow> bool" where
  "strncmp_eq a b n \<longleftrightarrow> take n a = take n b"

lemma strncpy_id [simp]: "length s \<le> n \<Longrightarrow> strncpy n s = s"
  by (simp add: strncpy_def)

lemma length_strncpy: "length (strncpy n s) \<le> n"
  by (simp add: strncpy_def)

lemma strncmp_eq_short:
  "length a \<le> n \<Longrightarrow> length b \<le> n \<Longrightarrow> strncmp_eq a b n \<longleftrightarrow> a = b"
  by (simp add: strncmp_eq_def)

section \<open>Options\<close>

lemma bind_Some_iff [simp]:
  "Option.bind m f = Some r \<longleftrightarrow> (\<exists>x. m = Some x \<and> f x = Some r)"
  by (rule Option.bind_eq_Some_conv)

section \<open>Lists\<close>

lemma distinct_map_filter: "distinct (map f xs) \<Longrightarrow> distinct (map f (filter P xs))"
  by (induction xs) auto

lemma map_of_filter_neq:
  "map_of (filter (\<lambda>(k, v). k \<noteq> x) xs) = (map_of xs)(x := None)"
  by (induction xs) (auto simp: fun_eq_iff)

end
