(* ===== verification/Ubx_Rtlog.thy ===== *)
theory Ubx_Rtlog
  imports Ubx_Prelude "HOL-Library.Sublist"
begin

text \<open>
  The real-time log: the writer side of \<^verbatim>\<open>libubx/rtlog.c\<close> (a node writes fixed-size frames into
  a shared-memory ring), the reader side of \<^verbatim>\<open>libubx/rtlog_client.c\<close>, and the layout of
  \<^verbatim>\<open>libubx/internal/rtlog_common.h\<close>. The offsets are \<open>uint32_t\<close> and the comparisons with
  \<open>sizeof\<close> are made at 64 bits, as in the code. The system of one writer and one reader is a
  step relation; its invariant relates the wrap/offset pairs to the numbers of frames
  written and read.
\<close>

section \<open>Layout\<close>

definition LOG_BUFFER_DEPTH :: u32 where
  "LOG_BUFFER_DEPTH = 10000"

definition LOGC_SEEK_OLDEST_CRUSH_ZONE :: u32 where
  "LOGC_SEEK_OLDEST_CRUSH_ZONE = 100"

text \<open>\<open>sizeof(log_wrap_off_t)\<close>, \<open>sizeof(log_buf_t)\<close> and \<open>sizeof(struct ubx_log_msg)\<close> on
  LP64: \<open>2 * 4\<close>; a spinlock of 4 bytes, padding and the former; \<open>4 + 4 + 16 + 64 + 128\<close>.\<close>

definition sizeof_log_wrap_off :: u32 where
  "sizeof_log_wrap_off = 8"

definition sizeof_log_buf :: u64 where
  "sizeof_log_buf = 16"

definition sizeof_log_msg :: u32 where
  "sizeof_log_msg = 216"

lemmas log_sizes = LOG_BUFFER_DEPTH_def LOGC_SEEK_OLDEST_CRUSH_ZONE_def sizeof_log_wrap_off_def
  sizeof_log_buf_def sizeof_log_msg_def

record log_wrap_off =
  wrap :: u32
  off :: u32

record log_buf =
  lb_w :: log_wrap_off
  lb_data :: "u8 list"

record log_shm_inf =
  inf_shm_size :: u32
  inf_frame_size :: u32
  inf_buf :: log_buf

record logc_info =
  lc_r :: log_wrap_off
  lc_frame_size :: u32
  lc_shm_size :: int

datatype read_status = NO_DATA | NEW_DATA | OVERRUN | ERROR

text \<open>\<open>memcpy\<close> into and out of the data area; outside of it, undefined behaviour.\<close>

definition mem_write :: "u8 list \<Rightarrow> nat \<Rightarrow> u8 list \<Rightarrow> u8 list option" where
  "mem_write buf o' bs =
     (if o' + length bs \<le> length buf
      then Some (take o' buf @ bs @ drop (o' + length bs) buf) else None)"

definition mem_read :: "u8 list \<Rightarrow> nat \<Rightarrow> nat \<Rightarrow> u8 list option" where
  "mem_read buf o' n = (if o' + n \<le> length buf then Some (take n (drop o' buf)) else None)"

section \<open>Writer\<close>

definition log_inc_woff :: "log_shm_inf \<Rightarrow> u32 \<Rightarrow> log_shm_inf" where
  "log_inc_woff lg inc =
     (let next = (lb_w (inf_buf lg))\<lparr>off := off (lb_w (inf_buf lg)) + inc\<rparr>;
          next' = (if (ucast (off next) :: u64) >
                        ucast (inf_shm_size lg - inf_frame_size lg) - sizeof_log_buf
                   then next\<lparr>off := 0, wrap := wrap next + 1\<rparr> else next)
      in lg\<lparr>inf_buf := (inf_buf lg)\<lparr>lb_w := next'\<rparr>\<rparr>)"

definition ubx_log_shm :: "log_shm_inf \<Rightarrow> u8 list \<Rightarrow> log_shm_inf option" where
  "ubx_log_shm lg msg = do {
     d \<leftarrow> mem_write (lb_data (inf_buf lg)) (unat (off (lb_w (inf_buf lg)))) msg;
     Some (log_inc_woff (lg\<lparr>inf_buf := (inf_buf lg)\<lparr>lb_data := d\<rparr>\<rparr>) (inf_frame_size lg))
   }"

text \<open>
  \<open>ubx_log_init\<close> with its four system calls as inputs: whether \<open>shm_open\<close>, \<open>fstat\<close>,
  \<open>ftruncate\<close> and \<open>mmap\<close> succeed, and the file found (its size and contents). A file of another
  size is truncated or zero-extended. The result is the return code and, on success, the
  attached log; the shared file keeps its write offset.
\<close>

definition log_shm_size :: u32 where
  "log_shm_size = sizeof_log_wrap_off + sizeof_log_msg * LOG_BUFFER_DEPTH"

record shm_env =
  shm_open_ok :: bool
  fstat_ok :: bool
  ftruncate_ok :: bool
  mmap_ok :: bool
  shm_st_size :: int
  shm_content :: log_buf

definition shm_resize :: "nat \<Rightarrow> log_buf \<Rightarrow> log_buf" where
  "shm_resize n b = b\<lparr>lb_data := take n (lb_data b) @ replicate (n - length (lb_data b)) 0\<rparr>"

definition ubx_log_init :: "shm_env \<Rightarrow> int \<times> log_shm_inf option" where
  "ubx_log_init e =
     (if \<not> shm_open_ok e then (-1, None)
      else if \<not> fstat_ok e then (-1, None)
      else if shm_st_size e \<noteq> uint log_shm_size \<and> \<not> ftruncate_ok e then (-1, None)
      else if \<not> mmap_ok e then (-1, None)
      else (0, Some \<lparr>inf_shm_size = log_shm_size, inf_frame_size = sizeof_log_msg,
              inf_buf = (if shm_st_size e \<noteq> uint log_shm_size
                         then shm_resize (unat log_shm_size - unat sizeof_log_buf) (shm_content e)
                         else shm_content e)\<rparr>))"

section \<open>Reader\<close>

definition logc_reset_read :: "logc_info \<Rightarrow> log_buf \<Rightarrow> logc_info" where
  "logc_reset_read lg b = lg\<lparr>lc_r := lb_w b\<rparr>"

definition logc_wrap_limit :: "logc_info \<Rightarrow> u64" where
  "logc_wrap_limit lg = ucast (word_of_int (lc_shm_size lg) - lc_frame_size lg :: u32) - sizeof_log_buf"

definition logc_seek_to_oldest :: "logc_info \<Rightarrow> log_buf \<Rightarrow> logc_info" where
  "logc_seek_to_oldest lg b =
     (let w = lb_w b;
          new = w\<lparr>off := off w + LOGC_SEEK_OLDEST_CRUSH_ZONE * lc_frame_size lg\<rparr>;
          new' = (if (ucast (off new) :: u64) > logc_wrap_limit lg
                  then new\<lparr>off := ucast ((ucast (off new - word_of_int (lc_shm_size lg)) :: u64)
                                          + sizeof_log_buf)\<rparr>
                  else if wrap new = 0 then new\<lparr>off := 0\<rparr>
                  else new\<lparr>wrap := wrap new - 1\<rparr>)
      in lg\<lparr>lc_r := new'\<rparr>)"

definition logc_init :: "int \<Rightarrow> u32 \<Rightarrow> log_buf \<Rightarrow> logc_info" where
  "logc_init shm_sz frame_sz b =
     logc_reset_read \<lparr>lc_r = \<lparr>wrap = 0, off = 0\<rparr>, lc_frame_size = frame_sz, lc_shm_size = shm_sz\<rparr> b"

definition calc_next_roff :: "logc_info \<Rightarrow> log_wrap_off" where
  "calc_next_roff lg =
     (let new = (lc_r lg)\<lparr>off := off (lc_r lg) + lc_frame_size lg\<rparr>
      in if (ucast (off new) :: u64) > logc_wrap_limit lg
         then new\<lparr>off := 0, wrap := wrap new + 1\<rparr> else new)"

definition logc_has_data :: "logc_info \<Rightarrow> log_buf \<Rightarrow> read_status" where
  "logc_has_data lg b =
     (let w = lb_w b; r = lc_r lg
      in if off w = off r \<and> wrap w = wrap r then NO_DATA
         else if (off w > off r \<and> wrap w = wrap r) \<or> (off w < off r \<and> wrap w - wrap r = 1)
         then NEW_DATA
         else if wrap w - wrap r \<ge> 2 \<or> (off w \<ge> off r \<and> wrap w - wrap r = 1) then OVERRUN
         else ERROR)"

text \<open>\<open>logc_read_frame\<close> returns the status, the offset of the frame it hands out, and the
  advanced reader. \<open>logc_frame_bytes\<close> is what a client then finds at that address.\<close>

definition logc_read_frame ::
  "logc_info \<Rightarrow> log_buf \<Rightarrow> read_status \<times> u32 option \<times> logc_info" where
  "logc_read_frame lg b =
     (let ret = logc_has_data lg b
      in if ret \<noteq> NEW_DATA then (ret, None, lg)
         else (ret, Some (off (lc_r lg)), lg\<lparr>lc_r := calc_next_roff lg\<rparr>))"

definition logc_frame_bytes :: "logc_info \<Rightarrow> log_buf \<Rightarrow> u32 \<Rightarrow> u8 list option" where
  "logc_frame_bytes lg b o' = mem_read (lb_data b) (unat o') (unat (lc_frame_size lg))"

section \<open>Slots\<close>

text \<open>With the sizes of the code the ring has 9999 slots of 216 bytes.\<close>

definition slot_ok :: "log_wrap_off \<Rightarrow> bool" where
  "slot_ok p \<longleftrightarrow> unat (off p) mod 216 = 0 \<and> unat (off p) div 216 < 9999"

definition pos :: "log_wrap_off \<Rightarrow> nat" where
  "pos p = unat (wrap p) * 9999 + unat (off p) div 216"

definition pos_limit :: nat where
  "pos_limit = 42945377992704"

definition geom_w :: "log_shm_inf \<Rightarrow> bool" where
  "geom_w i \<longleftrightarrow> inf_shm_size i = log_shm_size \<and> inf_frame_size i = sizeof_log_msg
     \<and> length (lb_data (inf_buf i)) = 2159992"

definition geom_r :: "logc_info \<Rightarrow> bool" where
  "geom_r i \<longleftrightarrow> lc_shm_size i = uint log_shm_size \<and> lc_frame_size i = sizeof_log_msg"

lemma log_shm_size_val: "log_shm_size = 2160008"
  by (simp add: log_shm_size_def log_sizes)

lemma slot_off: "slot_ok p \<Longrightarrow> unat (off p) = 216 * (pos p mod 9999)"
  by (auto simp: slot_ok_def pos_def)

lemma slot_wrap: "slot_ok p \<Longrightarrow> unat (wrap p) = pos p div 9999"
  by (auto simp: slot_ok_def pos_def)

lemma slot_bound: "slot_ok p \<Longrightarrow> unat (off p) \<le> 2159568"
  by (auto simp: slot_ok_def)


definition slot_advance :: "log_wrap_off \<Rightarrow> log_wrap_off" where
  "slot_advance p =
     (if (ucast (off p + 216) :: u64) > 2159776
      then p\<lparr>off := 0, wrap := wrap p + 1\<rparr> else p\<lparr>off := off p + 216\<rparr>)"

lemma unat_off_add:
  assumes "unat (x :: u32) \<le> 2159568" "unat (y :: u32) \<le> 2000000000"
  shows "unat (x + y) = unat x + unat y"
  using assms by (simp add: unat_word_ariths)

lemma unat_ucast_off: "unat (ucast (x :: u32) :: u64) = unat x"
proof -
  have "unat x < 2 ^ 64" using unsigned_less [of x, where ?'a = nat] by simp
  then show ?thesis by (simp add: unsigned_ucast_eq take_bit_nat_eq_self)
qed

lemma slot_okE:
  assumes "slot_ok p"
  obtains k where "unat (off p) = 216 * k" "k < 9999"
  using assms mult_div_mod_eq [of 216 "unat (off p)"] by (auto simp: slot_ok_def)

lemma slot_advance_pos:
  assumes "slot_ok p" "pos p + 1 < pos_limit"
  shows "slot_ok (slot_advance p) \<and> pos (slot_advance p) = pos p + 1"
proof -
  have b: "unat (off p + 216) = unat (off p) + 216"
    using unat_off_add [OF slot_bound [OF assms(1)], of 216] by simp
  have w: "unat (wrap p + 1) = unat (wrap p) + 1" if "unat (off p) = 2159568"
  proof -
    from assms that have "unat (wrap p) + 1 < 4294967296"
      by (simp add: pos_def pos_limit_def)
    then show ?thesis by (simp add: unat_word_ariths)
  qed
  have c: "((ucast (off p + 216) :: u64) > 2159776) = (unat (off p) + 216 > 2159776)"
    by (simp add: word_less_nat_alt unat_ucast_off b)
  show ?thesis
  proof (cases "unat (off p) = 2159568")
    case True
    with w c show ?thesis by (simp add: slot_advance_def slot_ok_def pos_def)
  next
    case False
    obtain k where k: "unat (off p) = 216 * k" "k < 9999"
      using assms(1) by (rule slot_okE)
    with False have "k < 9998" by simp
    with k b c show ?thesis
      by (simp add: slot_advance_def slot_ok_def pos_def)
  qed
qed

lemma log_inc_woff_advance:
  assumes "geom_w i"
  shows "log_inc_woff i (inf_frame_size i) =
    i\<lparr>inf_buf := (inf_buf i)\<lparr>lb_w := slot_advance (lb_w (inf_buf i))\<rparr>\<rparr>"
  using assms
  by (simp add: log_inc_woff_def slot_advance_def geom_w_def log_shm_size_val log_sizes Let_def)

lemma logc_wrap_limit_val: "geom_r c \<Longrightarrow> logc_wrap_limit c = 2159776"
  by (simp add: logc_wrap_limit_def geom_r_def log_shm_size_val log_sizes)

lemma calc_next_roff_advance: "geom_r c \<Longrightarrow> calc_next_roff c = slot_advance (lc_r c)"
  by (simp add: calc_next_roff_def slot_advance_def logc_wrap_limit_val Let_def)
    (simp add: geom_r_def log_sizes)

lemma logc_has_data_pos:
  assumes w: "slot_ok (lb_w b)" and r: "slot_ok (lc_r c)" and le: "pos (lc_r c) \<le> pos (lb_w b)"
  shows "logc_has_data c b =
    (if pos (lb_w b) = pos (lc_r c) then NO_DATA
     else if pos (lb_w b) - pos (lc_r c) < 9999 then NEW_DATA else OVERRUN)"
proof -
  let ?a = "unat (wrap (lb_w b))" and ?a' = "unat (wrap (lc_r c))"
  obtain k where k: "unat (off (lb_w b)) = 216 * k" "k < 9999"
    using w by (rule slot_okE)
  obtain l where l: "unat (off (lc_r c)) = 216 * l" "l < 9999"
    using r by (rule slot_okE)
  have pw: "pos (lb_w b) = ?a * 9999 + k" and pr: "pos (lc_r c) = ?a' * 9999 + l"
    using k l by (simp_all add: pos_def)
  from le pw pr k l have aa: "?a' \<le> ?a" by linarith
  then have sub: "unat (wrap (lb_w b) - wrap (lc_r c)) = ?a - ?a'"
    by (simp add: unat_sub word_le_nat_alt)
  have eqs: "(off (lb_w b) = off (lc_r c)) = (k = l)" "(wrap (lb_w b) = wrap (lc_r c)) = (?a = ?a')"
    "(off (lb_w b) > off (lc_r c)) = (k > l)" "(off (lb_w b) < off (lc_r c)) = (k < l)"
    "(off (lb_w b) \<ge> off (lc_r c)) = (k \<ge> l)"
    "(wrap (lb_w b) - wrap (lc_r c) = 1) = (?a - ?a' = 1)"
    "(wrap (lb_w b) - wrap (lc_r c) \<ge> 2) = (?a - ?a' \<ge> 2)"
    using k l sub by (auto simp: word_less_nat_alt word_le_nat_alt word_unat_eq_iff)
  show ?thesis
  proof (cases "?a = ?a'")
    case True
    with le k l show ?thesis unfolding logc_has_data_def Let_def eqs pw pr by auto
  next
    case False
    with aa consider "?a = ?a' + 1" | "?a \<ge> ?a' + 2" by linarith
    then show ?thesis
    proof cases
      case 1
      with k l show ?thesis unfolding logc_has_data_def Let_def eqs pw pr by auto
    next
      case 2
      then have "?a * 9999 + k - (?a' * 9999 + l) \<ge> 9999" "?a * 9999 + k \<noteq> ?a' * 9999 + l"
        using l by linarith+
      moreover from 2 have "?a - ?a' \<ge> 2" "?a - ?a' \<noteq> 1" by linarith+
      ultimately show ?thesis using False unfolding logc_has_data_def Let_def eqs pw pr by auto
    qed
  qed
qed

section \<open>Memory\<close>

lemma mem_write_length: "mem_write m o' bs = Some m' \<Longrightarrow> length m' = length m"
  by (auto simp: mem_write_def split: if_splits)

lemma mem_read_write_same: "mem_write m o' bs = Some m' \<Longrightarrow> mem_read m' o' (length bs) = Some bs"
  by (auto simp: mem_write_def mem_read_def split: if_splits)

lemma mem_read_write_other:
  assumes "mem_write m o' bs = Some m'" "p + n \<le> o' \<or> o' + length bs \<le> p"
  shows "mem_read m' p n = mem_read m p n"
proof -
  from assms(1) have m': "m' = take o' m @ bs @ drop (o' + length bs) m"
    and le: "o' + length bs \<le> length m"
    by (auto simp: mem_write_def split: if_splits)
  have nth: "m' ! j = m ! j" if "j < length m" "j < o' \<or> o' + length bs \<le> j" for j
  proof (cases "j < o'")
    case False
    with that have "\<not> j - o' < length bs" by linarith
    with False that le show ?thesis by (simp add: m' nth_append)
  qed (use le in \<open>simp add: m' nth_append\<close>)
  have "take n (drop p m') = take n (drop p m)" if "p + n \<le> length m"
  proof (rule nth_equalityI)
    fix i assume "i < length (take n (drop p m'))"
    then have "i < n" by simp
    with that assms(2) nth [of "p + i"] mem_write_length [OF assms(1)]
    show "take n (drop p m') ! i = take n (drop p m) ! i" by auto
  qed (use that mem_write_length [OF assms(1)] in simp)
  with assms(1) show ?thesis by (simp add: mem_read_def mem_write_length)
qed


section \<open>One writer and one reader\<close>

text \<open>
  The steps of a node that logs and a client that reads, each atomic: the writer holds the
  spinlock for a frame, the reader loads the wrap/offset pair in one access. \<open>hist\<close> and \<open>got\<close>
  are ghosts: all frames ever written and all frames the client obtained, oldest first.
\<close>

record log_sys =
  sys_w :: log_shm_inf
  sys_r :: logc_info
  hist :: "u8 list list"
  got :: "u8 list list"

inductive log_step :: "log_sys \<Rightarrow> log_sys \<Rightarrow> bool" where
  ls_write: "length msg = unat sizeof_log_msg \<Longrightarrow> ubx_log_shm (sys_w s) msg = Some w' \<Longrightarrow>
    log_step s (s\<lparr>sys_w := w', hist := hist s @ [msg]\<rparr>)"
| ls_read: "logc_read_frame (sys_r s) (inf_buf (sys_w s)) = (NEW_DATA, Some o', r') \<Longrightarrow>
    logc_frame_bytes (sys_r s) (inf_buf (sys_w s)) o' = Some f \<Longrightarrow>
    log_step s (s\<lparr>sys_r := r', got := got s @ [f]\<rparr>)"
| ls_reset: "log_step s (s\<lparr>sys_r := logc_reset_read (sys_r s) (inf_buf (sys_w s))\<rparr>)"

definition fresh_shm :: shm_env where
  "fresh_shm = \<lparr>shm_open_ok = True, fstat_ok = True, ftruncate_ok = True, mmap_ok = True,
     shm_st_size = 0, shm_content = \<lparr>lb_w = \<lparr>wrap = 0, off = 0\<rparr>, lb_data = []\<rparr>\<rparr>"

definition log_start :: log_sys where
  "log_start = (let w = the (snd (ubx_log_init fresh_shm))
     in \<lparr>sys_w = w, sys_r = logc_init (uint (inf_shm_size w)) (inf_frame_size w) (inf_buf w),
         hist = [], got = []\<rparr>)"

inductive log_reach :: "log_sys \<Rightarrow> bool" where
  lr_start: "log_reach log_start"
| lr_step: "log_reach s \<Longrightarrow> log_step s t \<Longrightarrow> log_reach t"

definition frames_stored :: "u8 list \<Rightarrow> u8 list list \<Rightarrow> bool" where
  "frames_stored d h \<longleftrightarrow> (\<forall>i < length h. length h \<le> i + 9999 \<longrightarrow>
     mem_read d (216 * (i mod 9999)) 216 = Some (h ! i))"

definition log_inv :: "log_sys \<Rightarrow> bool" where
  "log_inv s \<longleftrightarrow> geom_w (sys_w s) \<and> geom_r (sys_r s)
     \<and> slot_ok (lb_w (inf_buf (sys_w s))) \<and> slot_ok (lc_r (sys_r s))
     \<and> pos (lb_w (inf_buf (sys_w s))) = length (hist s)
     \<and> pos (lc_r (sys_r s)) \<le> length (hist s)
     \<and> frames_stored (lb_data (inf_buf (sys_w s))) (hist s)
     \<and> subseq (got s) (take (pos (lc_r (sys_r s))) (hist s))"

lemma log_start_inv: "log_inv log_start"
  by (simp add: log_inv_def log_start_def ubx_log_init_def fresh_shm_def log_shm_size_val geom_w_def
      geom_r_def logc_init_def logc_reset_read_def slot_ok_def pos_def frames_stored_def
      shm_resize_def log_sizes)

lemma mod_neq_in_window:
  assumes "i < n" "n < i + m" shows "i mod m \<noteq> n mod (m :: nat)"
proof
  assume "i mod m = n mod m"
  with mod_eq_dvd_iff_nat [of i n m] assms have "m dvd n - i" by simp
  with assms show False by (auto dest!: dvd_imp_le)
qed

lemma frames_stored_write:
  assumes st: "frames_stored d h" and wr: "mem_write d (216 * (length h mod 9999)) msg = Some d'"
    and len: "length msg = 216"
  shows "frames_stored d' (h @ [msg])"
  unfolding frames_stored_def
proof (intro allI impI)
  fix i assume i: "i < length (h @ [msg])" "length (h @ [msg]) \<le> i + 9999"
  show "mem_read d' (216 * (i mod 9999)) 216 = Some ((h @ [msg]) ! i)"
  proof (cases "i = length h")
    case True
    with mem_read_write_same [OF wr] len show ?thesis by simp
  next
    case False
    with i have lt: "i < length h" "length h < i + 9999" by auto
    let ?a = "i mod 9999" and ?b = "length h mod 9999"
    from mod_neq_in_window [OF lt] have "?a < ?b \<or> ?b < ?a" by (simp add: nat_neq_iff)
    then have "216 * ?a + 216 \<le> 216 * ?b \<or> 216 * ?b + length msg \<le> 216 * ?a"
      unfolding len by linarith
    with mem_read_write_other [OF wr] st lt show ?thesis
      by (simp add: frames_stored_def nth_append)
  qed
qed

lemma ubx_log_shm_write:
  assumes "ubx_log_shm w msg = Some w'" "geom_w w" "slot_ok (lb_w (inf_buf w))"
    "pos (lb_w (inf_buf w)) + 1 < pos_limit"
  shows "geom_w w' \<and> slot_ok (lb_w (inf_buf w')) \<and>
    pos (lb_w (inf_buf w')) = pos (lb_w (inf_buf w)) + 1 \<and>
    mem_write (lb_data (inf_buf w)) (216 * (pos (lb_w (inf_buf w)) mod 9999)) msg
      = Some (lb_data (inf_buf w'))"
proof -
  from assms(1) obtain d where
    d: "mem_write (lb_data (inf_buf w)) (unat (off (lb_w (inf_buf w)))) msg = Some d"
    and w': "w' = log_inc_woff (w\<lparr>inf_buf := (inf_buf w)\<lparr>lb_data := d\<rparr>\<rparr>) (inf_frame_size w)"
    by (auto simp: ubx_log_shm_def)
  have g: "geom_w (w\<lparr>inf_buf := (inf_buf w)\<lparr>lb_data := d\<rparr>\<rparr>)"
    using assms(2) mem_write_length [OF d] by (simp add: geom_w_def)
  note adv = log_inc_woff_advance [OF g, simplified]
  have w'': "w' = w\<lparr>inf_buf := \<lparr>lb_w = slot_advance (lb_w (inf_buf w)), lb_data = d\<rparr>\<rparr>"
    using adv w' by simp
  show ?thesis
    using slot_advance_pos [OF assms(3,4)] g d slot_off [OF assms(3)]
    by (simp add: w'' geom_w_def)
qed

lemma logc_read_frame_new:
  assumes "geom_r c"
  shows "logc_read_frame c b = (NEW_DATA, Some o', c') \<longleftrightarrow>
    logc_has_data c b = NEW_DATA \<and> o' = off (lc_r c) \<and> c' = c\<lparr>lc_r := slot_advance (lc_r c)\<rparr>"
  using assms by (auto simp: logc_read_frame_def Let_def calc_next_roff_advance)

lemma logc_frame_bytes_slot:
  assumes "log_inv s" "pos (lc_r (sys_r s)) < length (hist s)"
    "length (hist s) \<le> pos (lc_r (sys_r s)) + 9999"
  shows "logc_frame_bytes (sys_r s) (inf_buf (sys_w s)) (off (lc_r (sys_r s)))
    = Some (hist s ! pos (lc_r (sys_r s)))"
  using assms
  by (simp add: log_inv_def logc_frame_bytes_def geom_r_def slot_off frames_stored_def log_sizes)

lemma log_inv_status:
  assumes "log_inv s"
  shows "logc_has_data (sys_r s) (inf_buf (sys_w s)) =
    (if length (hist s) = pos (lc_r (sys_r s)) then NO_DATA
     else if length (hist s) - pos (lc_r (sys_r s)) < 9999 then NEW_DATA else OVERRUN)"
  using assms logc_has_data_pos [of "inf_buf (sys_w s)" "sys_r s"] by (simp add: log_inv_def)

lemma log_inv_read:
  assumes inv: "log_inv s" and lim: "length (hist s) < pos_limit"
    and new: "logc_has_data (sys_r s) (inf_buf (sys_w s)) = NEW_DATA"
  shows "log_inv (s\<lparr>sys_r := (sys_r s)\<lparr>lc_r := slot_advance (lc_r (sys_r s))\<rparr>,
           got := got s @ [hist s ! pos (lc_r (sys_r s))]\<rparr>)"
    and "pos (slot_advance (lc_r (sys_r s))) = pos (lc_r (sys_r s)) + 1"
proof -
  let ?r = "lc_r (sys_r s)"
  from new log_inv_status [OF inv] inv have lt: "pos ?r < length (hist s)"
    by (auto simp: log_inv_def split: if_splits)
  with inv lim slot_advance_pos [of ?r]
  have adv: "slot_ok (slot_advance ?r)" "pos (slot_advance ?r) = pos ?r + 1"
    by (auto simp: log_inv_def)
  then show "pos (slot_advance ?r) = pos ?r + 1" by simp
  show "log_inv (s\<lparr>sys_r := (sys_r s)\<lparr>lc_r := slot_advance ?r\<rparr>,
           got := got s @ [hist s ! pos ?r]\<rparr>)"
    using inv adv lt by (simp add: log_inv_def geom_r_def take_Suc_conv_app_nth)
qed

lemma subseq_take: "subseq xs (take n ys) \<Longrightarrow> subseq xs ys"
  using list_emb_prefix [of "(=)" xs "take n ys" "drop n ys"] by simp

lemma log_step_inv:
  assumes "log_step s t" "log_inv s" "length (hist t) < pos_limit"
  shows "log_inv t"
  using assms
proof (cases rule: log_step.cases)
  case (ls_write msg w')
  from assms(3) ls_write(1) have lim: "length (hist s) + 1 < pos_limit" by simp
  with ubx_log_shm_write [OF ls_write(3)] assms(2)
  have w': "geom_w w'" "slot_ok (lb_w (inf_buf w'))"
    "pos (lb_w (inf_buf w')) = length (hist s) + 1"
    "mem_write (lb_data (inf_buf (sys_w s))) (216 * (length (hist s) mod 9999)) msg
      = Some (lb_data (inf_buf w'))"
    by (auto simp: log_inv_def)
  with frames_stored_write [OF _ w'(4)] ls_write(2) assms(2)
  have "frames_stored (lb_data (inf_buf w')) (hist s @ [msg])"
    by (simp add: log_inv_def log_sizes)
  with w' assms(2) ls_write(1) show ?thesis by (simp add: log_inv_def)
next
  case (ls_read o' r' f)
  from assms(2) have g: "geom_r (sys_r s)" by (simp add: log_inv_def)
  from ls_read(2) have new: "logc_has_data (sys_r s) (inf_buf (sys_w s)) = NEW_DATA"
    and o': "o' = off (lc_r (sys_r s))" "r' = (sys_r s)\<lparr>lc_r := slot_advance (lc_r (sys_r s))\<rparr>"
    by (simp_all add: logc_read_frame_new [OF g])
  from new log_inv_status [OF assms(2)]
  have "pos (lc_r (sys_r s)) < length (hist s)" "length (hist s) \<le> pos (lc_r (sys_r s)) + 9999"
    using assms(2) by (auto simp: log_inv_def split: if_splits)
  from logc_frame_bytes_slot [OF assms(2) this] ls_read(3) o'
  have "f = hist s ! pos (lc_r (sys_r s))" by simp
  with log_inv_read(1) [OF assms(2) _ new] ls_read(1) o' assms(3) show ?thesis by simp
next
  case ls_reset
  with assms(2) show ?thesis
    by (auto simp: log_inv_def logc_reset_read_def geom_r_def dest: subseq_take)
qed

lemma log_step_hist: "log_step s t \<Longrightarrow> length (hist s) \<le> length (hist t)"
  by (cases rule: log_step.cases) auto

lemma log_reach_inv: "log_reach s \<Longrightarrow> length (hist s) < pos_limit \<Longrightarrow> log_inv s"
proof (induction rule: log_reach.induct)
  case (lr_step s t)
  then show ?case using log_step_hist [OF lr_step(2)] log_step_inv [OF lr_step(2)] by simp
qed (rule log_start_inv)


section \<open>Seeking to the oldest frame\<close>

lemma logc_seek_off:
  assumes "geom_r c" "unat (off (lb_w b)) = 216 * k" "k < 9999"
  shows "unat (off (lb_w b) + LOGC_SEEK_OLDEST_CRUSH_ZONE * lc_frame_size c) = 216 * k + 21600"
    and "((ucast (off (lb_w b) + LOGC_SEEK_OLDEST_CRUSH_ZONE * lc_frame_size c) :: u64)
      > logc_wrap_limit c) = (9899 \<le> k)"
proof -
  show u: "unat (off (lb_w b) + LOGC_SEEK_OLDEST_CRUSH_ZONE * lc_frame_size c) = 216 * k + 21600"
    using assms by (simp add: geom_r_def log_sizes unat_word_ariths)
  show "((ucast (off (lb_w b) + LOGC_SEEK_OLDEST_CRUSH_ZONE * lc_frame_size c) :: u64)
      > logc_wrap_limit c) = (9899 \<le> k)"
    unfolding word_less_nat_alt unat_ucast_off u logc_wrap_limit_val [OF assms(1)] by simp arith
qed

lemma logc_seek_nowrap:
  assumes "geom_r c" "slot_ok (lb_w b)" "unat (off (lb_w b)) < 2138184" "wrap (lb_w b) \<noteq> 0"
  shows "slot_ok (lc_r (logc_seek_to_oldest c b))
    \<and> pos (lc_r (logc_seek_to_oldest c b)) + 9899 = pos (lb_w b)"
proof -
  obtain k where k: "unat (off (lb_w b)) = 216 * k" "k < 9999"
    using assms(2) by (rule slot_okE)
  from k assms(3) have k': "k < 9899" by simp
  have w: "unat (wrap (lb_w b) - 1) + 1 = unat (wrap (lb_w b))"
  proof -
    from assms(4) have "unat (wrap (lb_w b)) \<noteq> 0" by (simp add: unat_eq_0)
    then have "(1 :: u32) \<le> wrap (lb_w b)" by (simp add: word_le_nat_alt)
    then show ?thesis using \<open>unat (wrap (lb_w b)) \<noteq> 0\<close> by (simp add: unat_sub)
  qed
  note so = logc_seek_off [OF assms(1) k]
  have "lc_r (logc_seek_to_oldest c b) =
    (lb_w b)\<lparr>off := off (lb_w b) + LOGC_SEEK_OLDEST_CRUSH_ZONE * lc_frame_size c,
             wrap := wrap (lb_w b) - 1\<rparr>"
    using so(2) k' assms(4) by (simp add: logc_seek_to_oldest_def Let_def)
  moreover have "216 * k + 21600 = 216 * (k + 100)" by simp
  ultimately show ?thesis using so(1) w k k'
    by (simp add: slot_ok_def pos_def)
qed

lemma ucast_add16: "(ucast ((ucast (x :: u32) :: u64) + 16) :: u32) = x + 16"
proof -
  have lt: "unat x < 4294967296" using unsigned_less [of x, where ?'a = nat] by simp
  then have "unat ((ucast x :: u64) + 16) = unat x + 16"
    by (simp add: unat_word_ariths unat_ucast_off)
  then show ?thesis
    by (simp add: word_unat_eq_iff unsigned_ucast_eq unat_word_ariths take_bit_eq_mod)
qed

lemma logc_seek_wrapped_off:
  assumes "geom_r c" "unat (off (lb_w b)) = 216 * k" "9899 \<le> k" "k < 9999"
  shows "off (lc_r (logc_seek_to_oldest c b)) = word_of_int (216 * int k - 2138392)"
proof -
  have o': "off (lb_w b) = word_of_int (216 * int k)"
    using assms(2) uint_nat [of "off (lb_w b)"] word_of_int_uint [of "off (lb_w b)"] by simp
  have "off (lc_r (logc_seek_to_oldest c b)) =
    ucast ((ucast (off (lb_w b) + LOGC_SEEK_OLDEST_CRUSH_ZONE * lc_frame_size c
      - word_of_int (lc_shm_size c)) :: u64) + sizeof_log_buf)"
    using logc_seek_off(2) [OF assms(1,2,4)] assms(3)
    by (simp add: logc_seek_to_oldest_def Let_def)
  also have "\<dots> = ucast ((ucast (off (lb_w b) - 2138408 :: u32) :: u64) + 16)"
    using assms(1) by (simp add: geom_r_def log_shm_size_val log_sizes)
  also have "\<dots> = (off (lb_w b) - 2138408) + 16"
    by (rule ucast_add16)
  also have "\<dots> = word_of_int (216 * int k - 2138392)"
    by (simp add: o')
  finally show ?thesis .
qed

section \<open>Properties\<close>

text \<open>C25: in every state reachable by logging, reading and resetting, the status \<open>logc_has_data\<close>
  reports is exact: no data when the reader has caught up, new data when it is less than the
  9999 slots of the ring behind, overrun otherwise, and never ERROR. The bound on the history
  is where the 32-bit wrap counter itself wraps.\<close>

theorem logc_has_data_exact:
  assumes "log_reach s" "length (hist s) < pos_limit"
  shows "pos (lc_r (sys_r s)) \<le> length (hist s) \<and>
    logc_has_data (sys_r s) (inf_buf (sys_w s)) =
    (if length (hist s) = pos (lc_r (sys_r s)) then NO_DATA
     else if length (hist s) - pos (lc_r (sys_r s)) < 9999 then NEW_DATA else OVERRUN)"
  using log_inv_status [OF log_reach_inv [OF assms]] log_reach_inv [OF assms]
  by (simp add: log_inv_def)

theorem logc_has_data_exact_witness:
  "log_reach log_start \<and> length (hist log_start) < pos_limit
    \<and> logc_has_data (sys_r log_start) (inf_buf (sys_w log_start)) = NO_DATA"
proof -
  have h: "log_reach log_start" "length (hist log_start) < pos_limit"
    by (rule log_reach.intros) (simp add: log_start_def pos_limit_def Let_def)
  moreover have "pos (lc_r (sys_r log_start)) = 0"
    by (simp add: log_start_def pos_def ubx_log_init_def fresh_shm_def log_shm_size_val
        logc_init_def logc_reset_read_def shm_resize_def)
  moreover have "hist log_start = []" by (simp add: log_start_def Let_def)
  ultimately show ?thesis using logc_has_data_exact [OF h] by simp
qed

text \<open>C24: whenever new data is reported, reading hands out, unmodified by any later write, the
  frame after the last one handed out, and advances by one; the frames a client has
  obtained are, in order, a subsequence of the frames written, whatever the interleaving of
  writes, reads and resets.\<close>

theorem logc_read_frame_exact:
  assumes "log_reach s" "length (hist s) < pos_limit"
  shows "subseq (got s) (hist s) \<and>
    (logc_has_data (sys_r s) (inf_buf (sys_w s)) = NEW_DATA \<longrightarrow>
     (\<exists>o' r'. logc_read_frame (sys_r s) (inf_buf (sys_w s)) = (NEW_DATA, Some o', r')
       \<and> logc_frame_bytes (sys_r s) (inf_buf (sys_w s)) o' = Some (hist s ! pos (lc_r (sys_r s)))
       \<and> pos (lc_r r') = pos (lc_r (sys_r s)) + 1))"
proof -
  from log_reach_inv [OF assms] have inv: "log_inv s" .
  then have g: "geom_r (sys_r s)" and sub: "subseq (got s) (hist s)"
    by (auto simp: log_inv_def dest: subseq_take)
  moreover have "?thesis" if new: "logc_has_data (sys_r s) (inf_buf (sys_w s)) = NEW_DATA"
  proof -
    from new log_inv_status [OF inv] inv
    have "pos (lc_r (sys_r s)) < length (hist s)" "length (hist s) \<le> pos (lc_r (sys_r s)) + 9999"
      by (auto simp: log_inv_def split: if_splits)
    from logc_frame_bytes_slot [OF inv this] log_inv_read(2) [OF inv assms(2) new] sub new
    show ?thesis by (simp add: logc_read_frame_new [OF g])
  qed
  ultimately show ?thesis by blast
qed

theorem logc_read_frame_exact_witness:
  "\<exists>s. log_reach s \<and> length (hist s) < pos_limit
    \<and> logc_has_data (sys_r s) (inf_buf (sys_w s)) = NEW_DATA \<and> hist s = [replicate 216 7]
    \<and> (\<exists>o'. logc_frame_bytes (sys_r s) (inf_buf (sys_w s)) o' = Some (replicate 216 7))"
proof -
  have inv: "log_inv log_start" by (rule log_start_inv)
  obtain w' where w': "ubx_log_shm (sys_w log_start) (replicate 216 7) = Some w'"
    by (auto simp: ubx_log_shm_def mem_write_def log_start_def ubx_log_init_def fresh_shm_def
        log_shm_size_val shm_resize_def log_sizes)
  define s where "s = log_start\<lparr>sys_w := w', hist := [replicate 216 7]\<rparr>"
  have "log_step log_start s"
    using ls_write [of "replicate 216 7" log_start w'] w'
    by (simp add: s_def log_sizes log_start_def Let_def)
  then have r: "log_reach s" by (blast intro: log_reach.intros)
  moreover have l: "length (hist s) < pos_limit" by (simp add: s_def pos_limit_def)
  moreover have "pos (lc_r (sys_r s)) = 0"
    by (simp add: s_def log_start_def pos_def ubx_log_init_def fresh_shm_def log_shm_size_val
        logc_init_def logc_reset_read_def shm_resize_def)
  moreover from this have "logc_has_data (sys_r s) (inf_buf (sys_w s)) = NEW_DATA"
    using log_inv_status [OF log_reach_inv [OF r l]] by (simp add: s_def)
  moreover have "hist s = [replicate 216 7]" by (simp add: s_def)
  ultimately show ?thesis using logc_read_frame_exact [OF r l] by (intro exI [of _ s]) auto
qed

text \<open>Seeking to the oldest frame. From a write position of at most slot 9898 in a ring
  that has wrapped, \<open>logc_seek_to_oldest\<close> goes to a frame boundary, 9899 frames behind the
  writer, so the frame found there is intact and readable.\<close>

theorem logc_seek_to_oldest_safe:
  assumes "geom_r c" "slot_ok (lb_w b)" "unat (off (lb_w b)) < 2138184" "wrap (lb_w b) \<noteq> 0"
  shows "slot_ok (lc_r (logc_seek_to_oldest c b))
    \<and> pos (lc_r (logc_seek_to_oldest c b)) + 9899 = pos (lb_w b)
    \<and> logc_has_data (logc_seek_to_oldest c b) b = NEW_DATA"
proof -
  from logc_seek_nowrap [OF assms]
  have s: "slot_ok (lc_r (logc_seek_to_oldest c b))"
    "pos (lc_r (logc_seek_to_oldest c b)) + 9899 = pos (lb_w b)" by auto
  with logc_has_data_pos [OF assms(2) s(1)] show ?thesis by simp
qed

theorem logc_seek_to_oldest_safe_witness:
  "let c = \<lparr>lc_r = \<lparr>wrap = 0, off = 0\<rparr>, lc_frame_size = 216, lc_shm_size = 2160008\<rparr>;
       b = \<lparr>lb_w = \<lparr>wrap = 3, off = 432\<rparr>, lb_data = []\<rparr>
   in geom_r c \<and> slot_ok (lb_w b) \<and> logc_has_data (logc_seek_to_oldest c b) b = NEW_DATA"
proof -
  let ?c = "\<lparr>lc_r = \<lparr>wrap = 0, off = 0\<rparr>, lc_frame_size = 216, lc_shm_size = 2160008\<rparr>"
  let ?b = "\<lparr>lb_w = \<lparr>wrap = 3, off = 432\<rparr>, lb_data = []\<rparr>"
  have "geom_r ?c" "slot_ok (lb_w ?b)"
    by (simp_all add: geom_r_def log_shm_size_val log_sizes slot_ok_def)
  with logc_seek_to_oldest_safe [of ?c ?b] show ?thesis by (simp add: Let_def)
qed

text \<open>From the last hundred slots, where seeking has to wrap, the offset is computed from
  the size of the mapping instead of the last slot: the result is 8 bytes past a frame boundary
  (so every frame read until the next wrap is torn), and from slot 9899 it lies about 4 GB behind
  the mapping, where reading a frame is undefined.\<close>

theorem logc_seek_to_oldest_misaligned:
  assumes "geom_r c" "slot_ok (lb_w b)" "2138184 \<le> unat (off (lb_w b))"
    "length (lb_data b) = 2159992"
  shows "if unat (off (lb_w b)) = 2138184
    then logc_frame_bytes (logc_seek_to_oldest c b) b (off (lc_r (logc_seek_to_oldest c b))) = None
    else unat (off (lc_r (logc_seek_to_oldest c b))) mod 216 = 8"
proof -
  obtain k where k: "unat (off (lb_w b)) = 216 * k" "k < 9999"
    using assms(2) by (rule slot_okE)
  with assms(3) have k': "9899 \<le> k" by simp
  note o' = logc_seek_wrapped_off [OF assms(1) k(1) k' k(2)]
  show ?thesis
  proof (cases "k = 9899")
    case True
    then have "unat (off (lc_r (logc_seek_to_oldest c b))) = 4294967088"
      by (simp add: o')
    with True k assms(1,4) show ?thesis
      by (simp add: logc_frame_bytes_def mem_read_def logc_seek_to_oldest_def Let_def geom_r_def
          log_sizes)
  next
    case False
    have "unat (off (lc_r (logc_seek_to_oldest c b))) = nat (216 * int k - 2138392)"
      unfolding o' unat_eq_nat_uint
      by (subst uint_word_of_int_id) (use k(2) k' False in simp_all)
    also have "\<dots> = 216 * (k - 9900) + 8" using k' False by linarith
    finally have "unat (off (lc_r (logc_seek_to_oldest c b))) = 216 * (k - 9900) + 8" .
    with False k show ?thesis by simp
  qed
qed

theorem logc_seek_to_oldest_misaligned_witness:
  "let c = \<lparr>lc_r = \<lparr>wrap = 0, off = 0\<rparr>, lc_frame_size = 216, lc_shm_size = 2160008\<rparr>;
       b = \<lparr>lb_w = \<lparr>wrap = 3, off = 2149200\<rparr>, lb_data = replicate 2159992 0\<rparr>
   in geom_r c \<and> slot_ok (lb_w b) \<and> unat (off (lc_r (logc_seek_to_oldest c b))) mod 216 = 8"
proof -
  let ?c = "\<lparr>lc_r = \<lparr>wrap = 0, off = 0\<rparr>, lc_frame_size = 216, lc_shm_size = 2160008\<rparr>"
  let ?b = "\<lparr>lb_w = \<lparr>wrap = 3, off = 2149200\<rparr>, lb_data = replicate 2159992 0\<rparr>"
  have "geom_r ?c" "slot_ok (lb_w ?b)"
    by (simp_all add: geom_r_def log_shm_size_val log_sizes slot_ok_def)
  with logc_seek_to_oldest_misaligned [of ?c ?b] show ?thesis by (simp add: Let_def)
qed

end
