(* ===== verification/Ubx_Time.thy ===== *)
theory Ubx_Time
  imports Ubx_Prelude
begin

text \<open>
  Time handling, \<^verbatim>\<open>libubx/ubx_time.c\<close>: \<open>struct ubx_timespec\<close> and the operations on it.
  Both fields are C \<open>long\<close>; an operation whose signed arithmetic overflows is undefined
  behaviour (\<^term>\<open>None\<close>). The lemmas give the exact value of every operation in
  nanoseconds, the canonical form of a normalised timespec, and that \<open>ubx_ts_cmp\<close>
  orders canonical timespecs by value.
\<close>

section \<open>Definitions\<close>

record ubx_timespec =
  sec :: int
  nsec :: int

definition NSEC_PER_SEC :: int where
  "NSEC_PER_SEC = 1000000000"

definition USEC_PER_SEC :: int where
  "USEC_PER_SEC = 1000000"

definition NSEC_PER_USEC :: int where
  "NSEC_PER_USEC = 1000"

lemmas time_consts = NSEC_PER_SEC_def USEC_PER_SEC_def NSEC_PER_USEC_def

definition ubx_ts_cmp :: "ubx_timespec \<Rightarrow> ubx_timespec \<Rightarrow> int" where
  "ubx_ts_cmp ts1 ts2 =
     (if sec ts1 > sec ts2 then 1
      else if sec ts1 < sec ts2 then -1
      else if nsec ts1 > nsec ts2 then 1
      else if nsec ts1 < nsec ts2 then -1
      else 0)"

text \<open>The four statements of \<open>ubx_ts_norm\<close>, in order.\<close>

definition ts_norm_carry :: "ubx_timespec \<Rightarrow> ubx_timespec option" where
  "ts_norm_carry ts =
     (if nsec ts \<ge> NSEC_PER_SEC
      then do {
        s \<leftarrow> long_chk (sec ts + nsec ts sdiv NSEC_PER_SEC);
        Some \<lparr>sec = s, nsec = nsec ts smod NSEC_PER_SEC\<rparr>
      }
      else Some ts)"

definition ts_norm_borrow :: "ubx_timespec \<Rightarrow> ubx_timespec option" where
  "ts_norm_borrow ts =
     (if nsec ts \<le> - NSEC_PER_SEC
      then do {
        s \<leftarrow> long_chk (sec ts + nsec ts sdiv NSEC_PER_SEC);
        Some \<lparr>sec = s, nsec = nsec ts smod (- NSEC_PER_SEC)\<rparr>
      }
      else Some ts)"

definition ts_norm_pos :: "ubx_timespec \<Rightarrow> ubx_timespec" where
  "ts_norm_pos ts =
     (if sec ts > 0 \<and> nsec ts < 0
      then \<lparr>sec = sec ts - 1, nsec = nsec ts + NSEC_PER_SEC\<rparr> else ts)"

definition ts_norm_neg :: "ubx_timespec \<Rightarrow> ubx_timespec" where
  "ts_norm_neg ts =
     (if sec ts < 0 \<and> nsec ts > 0
      then \<lparr>sec = sec ts + 1, nsec = nsec ts - NSEC_PER_SEC\<rparr> else ts)"

definition ubx_ts_norm :: "ubx_timespec \<Rightarrow> ubx_timespec option" where
  "ubx_ts_norm ts = do {
     ts1 \<leftarrow> ts_norm_carry ts;
     ts2 \<leftarrow> ts_norm_borrow ts1;
     Some (ts_norm_neg (ts_norm_pos ts2))
   }"

definition ubx_ts_sub :: "ubx_timespec \<Rightarrow> ubx_timespec \<Rightarrow> ubx_timespec option" where
  "ubx_ts_sub ts1 ts2 = do {
     s \<leftarrow> long_chk (sec ts1 - sec ts2);
     n \<leftarrow> long_chk (nsec ts1 - nsec ts2);
     ubx_ts_norm \<lparr>sec = s, nsec = n\<rparr>
   }"

definition ubx_ts_add :: "ubx_timespec \<Rightarrow> ubx_timespec \<Rightarrow> ubx_timespec option" where
  "ubx_ts_add ts1 ts2 = do {
     s \<leftarrow> long_chk (sec ts1 + sec ts2);
     n \<leftarrow> long_chk (nsec ts1 + nsec ts2);
     ubx_ts_norm \<lparr>sec = s, nsec = n\<rparr>
   }"

definition ubx_ts_div :: "ubx_timespec \<Rightarrow> int \<Rightarrow> ubx_timespec option" where
  "ubx_ts_div ts dv = do {
     m \<leftarrow> long_chk (sec ts * NSEC_PER_SEC);
     tmp_nsec \<leftarrow> long_chk (m + nsec ts);
     (if dv = 0 then None else do {
        tmp \<leftarrow> long_chk (tmp_nsec sdiv dv);
        Some \<lparr>sec = tmp sdiv NSEC_PER_SEC, nsec = tmp smod NSEC_PER_SEC\<rparr>
      })
   }"

definition ubx_ts_to_ns :: "ubx_timespec \<Rightarrow> u64" where
  "ubx_ts_to_ns ts = word_of_int (sec ts) * word_of_int NSEC_PER_SEC + word_of_int (nsec ts)"

definition ubx_ts_to_us :: "ubx_timespec \<Rightarrow> u64" where
  "ubx_ts_to_us ts =
     word_of_int (sec ts) * word_of_int USEC_PER_SEC + word_of_int (nsec ts sdiv NSEC_PER_USEC)"

section \<open>Value and canonical form\<close>

definition ts_val :: "ubx_timespec \<Rightarrow> int" where
  "ts_val ts = sec ts * NSEC_PER_SEC + nsec ts"

definition ts_canon :: "ubx_timespec \<Rightarrow> bool" where
  "ts_canon ts \<longleftrightarrow> \<bar>nsec ts\<bar> < NSEC_PER_SEC
     \<and> (0 < sec ts \<longrightarrow> 0 \<le> nsec ts) \<and> (sec ts < 0 \<longrightarrow> nsec ts \<le> 0)"

lemma ts_norm_carry_val: "ts_norm_carry ts = Some t \<Longrightarrow> ts_val t = ts_val ts \<and> nsec t < NSEC_PER_SEC"
  by (auto simp: ts_norm_carry_def ts_val_def smod_pos sdiv_pos time_consts
      split: if_splits)

lemma sdiv_smod_val: "a sdiv c * c + a smod (- c) = (a :: int)"
proof -
  have "a smod (- c) = a smod c" by (simp add: smod_int_alt_def)
  then show ?thesis by (simp add: sdiv_mult_smod_eq)
qed

lemma ts_norm_borrow_val:
  assumes "ts_norm_borrow ts = Some t" and "nsec ts < NSEC_PER_SEC"
  shows "ts_val t = ts_val ts \<and> \<bar>nsec t\<bar> < NSEC_PER_SEC"
proof (cases "nsec ts \<le> - NSEC_PER_SEC")
  case True
  have rng: "nsec ts smod (- NSEC_PER_SEC) \<in> {- \<bar>NSEC_PER_SEC\<bar> + 1..\<bar>NSEC_PER_SEC\<bar> - 1}"
    using smod_int_range [of "- NSEC_PER_SEC" "nsec ts"] by (simp add: time_consts)
  from True assms(1) have t: "sec t = sec ts + nsec ts sdiv NSEC_PER_SEC"
      "nsec t = nsec ts smod (- NSEC_PER_SEC)"
    by (auto simp: ts_norm_borrow_def)
  have "ts_val t = ts_val ts"
    using sdiv_smod_val [of "nsec ts" NSEC_PER_SEC] by (simp add: ts_val_def t distrib_right)
  with rng t show ?thesis by (auto simp: time_consts)
qed (use assms in \<open>auto simp: ts_norm_borrow_def\<close>)

lemma ts_norm_signs:
  assumes "\<bar>nsec ts\<bar> < NSEC_PER_SEC"
  shows "ts_val (ts_norm_neg (ts_norm_pos ts)) = ts_val ts \<and> ts_canon (ts_norm_neg (ts_norm_pos ts))"
  using assms by (auto simp: ts_norm_neg_def ts_norm_pos_def ts_val_def ts_canon_def time_consts)

lemma ubx_ts_norm_Some:
  assumes "ubx_ts_norm ts = Some t"
  shows "ts_val t = ts_val ts \<and> ts_canon t"
proof -
  from assms obtain t1 t2 where t1: "ts_norm_carry ts = Some t1"
    and t2: "ts_norm_borrow t1 = Some t2" and t: "t = ts_norm_neg (ts_norm_pos t2)"
    by (auto simp: ubx_ts_norm_def)
  from t1 have "ts_val t1 = ts_val ts" "nsec t1 < NSEC_PER_SEC"
    by (auto dest: ts_norm_carry_val)
  moreover from this t2 have "ts_val t2 = ts_val t1" "\<bar>nsec t2\<bar> < NSEC_PER_SEC"
    by (auto dest: ts_norm_borrow_val)
  ultimately show ?thesis using ts_norm_signs t by simp
qed


lemma ubx_ts_norm_defined:
  assumes "\<bar>sec ts\<bar> \<le> 9000000000000000000" and "in_long (nsec ts)"
  shows "\<exists>t. ubx_ts_norm ts = Some t"
proof -
  have d: "- 9223372037 \<le> nsec ts sdiv NSEC_PER_SEC \<and> nsec ts sdiv NSEC_PER_SEC \<le> 9223372037"
    using assms(2)
    by (cases "0 \<le> nsec ts") (auto simp: sdiv_pos sdiv_neg time_consts in_long_def LONG_MAX_def)
  have c: "\<exists>t1. ts_norm_carry ts = Some t1 \<and> (t1 = ts \<or> 0 \<le> nsec t1)"
    using assms(1) d by (auto simp: ts_norm_carry_def smod_pos time_consts intro!: in_longI)
  then obtain t1 where t1: "ts_norm_carry ts = Some t1" "t1 = ts \<or> 0 \<le> nsec t1" by blast
  from assms(1) d t1(2) have "\<exists>t2. ts_norm_borrow t1 = Some t2"
    by (auto simp: ts_norm_borrow_def time_consts intro!: in_longI)
  with t1(1) show ?thesis by (auto simp: ubx_ts_norm_def)
qed

lemma ts_canon_cmp_sgn:
  assumes "ts_canon a" "ts_canon b"
  shows "ubx_ts_cmp a b = sgn (ts_val a - ts_val b)"
  using assms unfolding ubx_ts_cmp_def ts_canon_def ts_val_def time_consts sgn_if
  by auto

lemma ubx_ts_cmp_eq0: "ubx_ts_cmp a b = 0 \<Longrightarrow> a = b"
  by (rule ubx_timespec.equality) (auto simp: ubx_ts_cmp_def split: if_splits)

lemma ts_canon_val_inj:
  "ts_canon a \<Longrightarrow> ts_canon b \<Longrightarrow> ts_val a = ts_val b \<Longrightarrow> a = b"
  by (rule ubx_ts_cmp_eq0) (simp add: ts_canon_cmp_sgn)

lemma ubx_ts_add_Some: "ubx_ts_add a b = Some t \<Longrightarrow> ts_val t = ts_val a + ts_val b \<and> ts_canon t"
  by (auto simp: ubx_ts_add_def dest!: ubx_ts_norm_Some) (simp add: ts_val_def algebra_simps)

lemma ubx_ts_sub_Some: "ubx_ts_sub a b = Some t \<Longrightarrow> ts_val t = ts_val a - ts_val b \<and> ts_canon t"
  by (auto simp: ubx_ts_sub_def dest!: ubx_ts_norm_Some) (simp add: ts_val_def algebra_simps)

text \<open>The arguments for which the sum or difference of two canonical timespecs is defined.\<close>

definition ts_small :: "ubx_timespec \<Rightarrow> bool" where
  "ts_small ts \<longleftrightarrow> ts_canon ts \<and> \<bar>sec ts\<bar> \<le> 4000000000000000000"

lemma ts_small_nsec: "ts_small ts \<Longrightarrow> \<bar>nsec ts\<bar> < 1000000000"
  by (simp add: ts_small_def ts_canon_def time_consts)

lemma ubx_ts_add_defined:
  assumes "ts_small a" "ts_small b"
  shows "\<exists>t. ubx_ts_add a b = Some t"
proof -
  note ts_small_nsec [OF assms(1)] ts_small_nsec [OF assms(2)]
  moreover from assms have "\<bar>sec a\<bar> \<le> 4000000000000000000" "\<bar>sec b\<bar> \<le> 4000000000000000000"
    by (auto simp: ts_small_def)
  ultimately have "in_long (sec a + sec b)" "in_long (nsec a + nsec b)"
    "\<bar>sec a + sec b\<bar> \<le> 9000000000000000000"
    by (auto intro!: in_longI)
  with ubx_ts_norm_defined [of "\<lparr>sec = sec a + sec b, nsec = nsec a + nsec b\<rparr>"] show ?thesis
    by (simp add: ubx_ts_add_def)
qed

lemma ubx_ts_sub_defined:
  assumes "ts_small a" "ts_small b"
  shows "\<exists>t. ubx_ts_sub a b = Some t"
proof -
  note ts_small_nsec [OF assms(1)] ts_small_nsec [OF assms(2)]
  moreover from assms have "\<bar>sec a\<bar> \<le> 4000000000000000000" "\<bar>sec b\<bar> \<le> 4000000000000000000"
    by (auto simp: ts_small_def)
  ultimately have "in_long (sec a - sec b)" "in_long (nsec a - nsec b)"
    "\<bar>sec a - sec b\<bar> \<le> 9000000000000000000"
    by (auto intro!: in_longI)
  with ubx_ts_norm_defined [of "\<lparr>sec = sec a - sec b, nsec = nsec a - nsec b\<rparr>"] show ?thesis
    by (simp add: ubx_ts_sub_def)
qed

lemma ts_canon_sdiv_smod: "ts_canon \<lparr>sec = x sdiv NSEC_PER_SEC, nsec = x smod NSEC_PER_SEC\<rparr>"
proof (cases "0 \<le> x")
  case True
  then show ?thesis
    by (auto simp: ts_canon_def sdiv_pos smod_pos time_consts)
next
  case False
  then show ?thesis
    using pos_mod_bound [of "1000000000" "- x"] pos_mod_sign [of "1000000000" "- x"]
    by (auto simp: ts_canon_def sdiv_neg smod_neg time_consts)
qed

lemma ubx_ts_div_Some:
  "ubx_ts_div ts d = Some t \<Longrightarrow> d \<noteq> 0 \<and> ts_val t = ts_val ts sdiv d \<and> ts_canon t"
  by (auto simp: ubx_ts_div_def ts_canon_sdiv_smod split: if_splits)
    (simp add: ts_val_def sdiv_mult_smod_eq)

lemma ubx_ts_to_ns_val:
  assumes "0 \<le> ts_val ts" "ts_val ts < 18446744073709551616"
  shows "uint (ubx_ts_to_ns ts) = ts_val ts"
proof -
  have "ubx_ts_to_ns ts = word_of_int (ts_val ts)"
    by (simp add: ubx_ts_to_ns_def ts_val_def)
  with assms show ?thesis by (simp add: uint_word_of_int_id)
qed

lemma ts_val_us:
  assumes "ts_canon ts" "0 \<le> ts_val ts"
  shows "ts_val ts div 1000 = sec ts * 1000000 + nsec ts div 1000" "0 \<le> sec ts" "0 \<le> nsec ts"
  using assms by (auto simp: ts_canon_def ts_val_def time_consts)

lemma ubx_ts_to_us_val:
  assumes "ts_canon ts" "0 \<le> ts_val ts" "ts_val ts < 18446744073709551616"
  shows "uint (ubx_ts_to_us ts) = ts_val ts div 1000"
proof -
  note us = ts_val_us [OF assms(1,2)]
  then have "ubx_ts_to_us ts = word_of_int (ts_val ts div 1000)"
    by (simp add: ubx_ts_to_us_def sdiv_pos time_consts)
  with assms(2,3) show ?thesis
    by (simp add: uint_word_of_int_id div_le_dividend order.strict_trans1 del: us(1))
qed

section \<open>Properties\<close>

text \<open>\<open>ubx_ts_norm\<close> returns on every timespec whose seconds are not within \<open>2.3e17\<close>
  of the limits of \<open>long\<close>; the result denotes the same number of nanoseconds and is the
  only canonical timespec (\<open>|nsec| < 1e9\<close>, equal signs) that does.\<close>

theorem ubx_ts_norm_canonical:
  assumes "\<bar>sec ts\<bar> \<le> 9000000000000000000" and "in_long (nsec ts)"
  shows "\<exists>t. ubx_ts_norm ts = Some t \<and> ts_val t = ts_val ts \<and> ts_canon t
    \<and> (\<forall>u. ts_canon u \<and> ts_val u = ts_val ts \<longrightarrow> u = t)"
  using ubx_ts_norm_defined [OF assms] ubx_ts_norm_Some ts_canon_val_inj by metis

theorem ubx_ts_norm_canonical_witness:
  "\<bar>3 :: int\<bar> \<le> 9000000000000000000 \<and> in_long (- 2500000000)
    \<and> (\<exists>t. ubx_ts_norm \<lparr>sec = 3, nsec = - 2500000000\<rparr> = Some t \<and> ts_val t = 500000000)"
proof -
  have "in_long (- 2500000000)" by (simp add: in_long_def LONG_MAX_def)
  with ubx_ts_norm_canonical [of "\<lparr>sec = 3, nsec = - 2500000000\<rparr>"]
  show ?thesis by (auto simp: ts_val_def time_consts)
qed

text \<open>C35: on canonical timespecs \<open>ubx_ts_add\<close> and \<open>ubx_ts_sub\<close> compute the exact sum and
  difference in nanoseconds, in canonical form, and \<open>ubx_ts_cmp\<close> of two canonical
  timespecs is the sign of their difference.\<close>

theorem ubx_ts_arith:
  assumes "ts_small a" "ts_small b"
  shows "\<exists>s d. ubx_ts_add a b = Some s \<and> ubx_ts_sub a b = Some d
    \<and> ts_val s = ts_val a + ts_val b \<and> ts_val d = ts_val a - ts_val b
    \<and> ts_canon s \<and> ts_canon d \<and> ubx_ts_cmp a b = sgn (ts_val d)"
proof -
  from ubx_ts_add_defined [OF assms] ubx_ts_sub_defined [OF assms] obtain s d
    where sd: "ubx_ts_add a b = Some s" "ubx_ts_sub a b = Some d" by blast
  note ubx_ts_add_Some [OF sd(1)] ubx_ts_sub_Some [OF sd(2)]
  moreover have "ubx_ts_cmp a b = sgn (ts_val a - ts_val b)"
    using assms by (simp add: ts_small_def ts_canon_cmp_sgn)
  ultimately show ?thesis using sd by auto
qed

theorem ubx_ts_arith_witness:
  "ts_small \<lparr>sec = 1, nsec = 900000000\<rparr> \<and> ts_small \<lparr>sec = 2, nsec = 200000000\<rparr>
    \<and> (\<exists>s d. ubx_ts_add \<lparr>sec = 1, nsec = 900000000\<rparr> \<lparr>sec = 2, nsec = 200000000\<rparr> = Some s
        \<and> ubx_ts_sub \<lparr>sec = 1, nsec = 900000000\<rparr> \<lparr>sec = 2, nsec = 200000000\<rparr> = Some d
        \<and> ts_val s = 4100000000 \<and> ts_val d = - 300000000)"
proof -
  have h: "ts_small \<lparr>sec = 1, nsec = 900000000\<rparr>" "ts_small \<lparr>sec = 2, nsec = 200000000\<rparr>"
    by (simp_all add: ts_small_def ts_canon_def time_consts)
  with ubx_ts_arith [OF h] show ?thesis by (auto simp: ts_val_def time_consts)
qed

text \<open>For a canonical, non-negative timespec below 584 years, \<open>ubx_ts_to_ns\<close> is the exact
  number of nanoseconds, no 64-bit wrap-around happens, and \<open>ubx_ts_to_us\<close> is that number
  divided by 1000, rounded down.\<close>

theorem ubx_ts_conversions:
  assumes "ts_canon ts" "0 \<le> ts_val ts" "ts_val ts < 18446744073709551616"
  shows "uint (ubx_ts_to_ns ts) = ts_val ts \<and> uint (ubx_ts_to_us ts) = ts_val ts div 1000"
  using ubx_ts_to_us_val [OF assms] ubx_ts_to_ns_val [OF assms(2,3)] by simp

theorem ubx_ts_conversions_witness:
  "ts_canon \<lparr>sec = 2, nsec = 1999\<rparr> \<and> uint (ubx_ts_to_ns \<lparr>sec = 2, nsec = 1999\<rparr>) = 2000001999
    \<and> uint (ubx_ts_to_us \<lparr>sec = 2, nsec = 1999\<rparr>) = 2000001"
proof -
  have h: "ts_canon \<lparr>sec = 2, nsec = 1999\<rparr>" by (simp add: ts_canon_def time_consts)
  with ubx_ts_conversions [OF h] show ?thesis by (simp add: ts_val_def time_consts)
qed

end
