(* ===== verification/Ubx_Tstat.thy ===== *)
theory Ubx_Tstat
  imports Ubx_Time
begin

text \<open>
  Timing statistics, the first part of \<^verbatim>\<open>libubx/trig_utils.c\<close> and \<open>struct ubx_tstat\<close>
  (\<^verbatim>\<open>std_types/stdtypes/types/tstat.h\<close>), and the name of the statistics file. The lemmas show that minimum,
  maximum, total and the reported average are exact.
\<close>

section \<open>Definitions\<close>

record ubx_tstat =
  ts_id :: string
  ts_min :: ubx_timespec
  ts_max :: ubx_timespec
  ts_total :: ubx_timespec
  ts_cnt :: u64

definition UBX_TSTAT_ID_MAXLEN :: nat where "UBX_TSTAT_ID_MAXLEN = 63"

text \<open>\<open>snprintf\<close> with size \<open>n\<close> keeps the first \<open>n - 1\<close> characters.\<close>

definition snprintf :: "nat \<Rightarrow> string \<Rightarrow> string" where
  "snprintf n t = take (n - 1) t"

definition tstat_init2 :: "string \<Rightarrow> string option \<Rightarrow> ubx_tstat" where
  "tstat_init2 block_name chain_id =
     \<lparr>ts_id = snprintf UBX_TSTAT_ID_MAXLEN ((case chain_id of None \<Rightarrow> '''' | Some c \<Rightarrow> c @ '','') @ block_name),
      ts_min = \<lparr>sec = LONG_MAX, nsec = LONG_MAX\<rparr>, ts_max = \<lparr>sec = 0, nsec = 0\<rparr>, ts_total = \<lparr>sec = 0, nsec = 0\<rparr>,
      ts_cnt = 0\<rparr>"

definition tstat_init :: "string \<Rightarrow> ubx_tstat" where
  "tstat_init block_name = tstat_init2 block_name None"

definition tstat_update :: "ubx_tstat \<Rightarrow> ubx_timespec \<Rightarrow> ubx_timespec \<Rightarrow> ubx_tstat option" where
  "tstat_update stats start fin = do {
     dur \<leftarrow> ubx_ts_sub fin start;
     let stats = (if ubx_ts_cmp dur (ts_min stats) = -1 then stats\<lparr>ts_min := dur\<rparr> else stats);
     let stats = (if ubx_ts_cmp dur (ts_max stats) = 1 then stats\<lparr>ts_max := dur\<rparr> else stats);
     total \<leftarrow> ubx_ts_add (ts_total stats) dur;
     Some (stats\<lparr>ts_total := total, ts_cnt := ts_cnt stats + 1\<rparr>) }"

text \<open>A line of the statistics file: id, number of measurements, and minimum, maximum and average in microseconds, or the
  note that there are no measurements. A file is the list of its lines.\<close>

datatype tstat_line = Stat_line string u64 u64 u64 u64 | No_stats_line string

type_synonym tstat_file = "tstat_line list"

definition tstat_fwrite :: "tstat_file \<Rightarrow> ubx_tstat \<Rightarrow> tstat_file option" where
  "tstat_fwrite fp stats =
     (if ts_cnt stats > 0 then do {
        avg \<leftarrow> ubx_ts_div (ts_total stats) (sint (ts_cnt stats));
        Some (fp @ [Stat_line (ts_id stats) (ts_cnt stats) (ubx_ts_to_us (ts_min stats)) (ubx_ts_to_us (ts_max stats)) (ubx_ts_to_us avg)]) }
      else Some (fp @ [No_stats_line (ts_id stats)]))"

text \<open>\<open>char_replace\<close> of \<^verbatim>\<open>libubx/ubx_utils.c\<close>, and the file name. The copy of the name and the file name are
  allocated: \<open>a1\<close> and \<open>a2\<close> say whether that works.\<close>

definition char_replace :: "string \<Rightarrow> char \<Rightarrow> char \<Rightarrow> string" where
  "char_replace s fnd rep = map (\<lambda>c. if c = fnd then rep else c) s"

definition tstats_build_filename :: "bool \<Rightarrow> bool \<Rightarrow> string \<Rightarrow> string \<Rightarrow> string option" where
  "tstats_build_filename a1 a2 name profile_path =
     (if \<not> a1 then None
      else
        let n = char_replace name (CHR ''/'') (CHR ''-'');
            len = length profile_path + 1 + length n + length ''.tstats''
        in if \<not> a2 then None else Some (snprintf len (profile_path @ ''/'' @ n @ ''.tstats'')))"

section \<open>Exactness\<close>

text \<open>Measurements: start and end times.\<close>

type_synonym measurements = "(ubx_timespec \<times> ubx_timespec) list"

fun tstat_run :: "ubx_tstat \<Rightarrow> measurements \<Rightarrow> ubx_tstat option" where
  "tstat_run ts [] = Some ts"
| "tstat_run ts ((a, b) # ms) = do { ts \<leftarrow> tstat_update ts a b; tstat_run ts ms }"

definition dur :: "ubx_timespec \<times> ubx_timespec \<Rightarrow> int" where
  "dur m = ts_val (snd m) - ts_val (fst m)"

text \<open>The specification.\<close>

definition tstat_spec :: "int list \<Rightarrow> ubx_tstat \<Rightarrow> bool" where
  "tstat_spec ds ts \<longleftrightarrow> ts_cnt ts = of_nat (length ds) \<and> ts_canon (ts_total ts) \<and> ts_val (ts_total ts) = sum_list ds \<and>
     ts_canon (ts_max ts) \<and> ts_val (ts_max ts) = fold max ds 0 \<and>
     (if ds = [] then ts_min ts = \<lparr>sec = LONG_MAX, nsec = LONG_MAX\<rparr>
      else ts_canon (ts_min ts) \<and> ts_val (ts_min ts) = fold min ds (hd ds))"

lemma ts_small_val:
  assumes "ts_canon ts" "\<bar>ts_val ts\<bar> \<le> 4000000000000000000000000000"
  shows "ts_small ts"
  using assms by (auto simp: ts_small_def ts_canon_def ts_val_def time_consts)

lemma ts_small_bound: "ts_small ts \<Longrightarrow> \<bar>ts_val ts\<bar> < 4000000000000000001000000000"
  by (auto simp: ts_small_def ts_canon_def ts_val_def time_consts)

lemma fold_max_snoc: "fold max (xs @ [x]) a = max x (fold max xs (a :: int))"
  by (induction xs arbitrary: a) auto

lemma cmp_init_min:
  assumes "ts_small t"
  shows "ubx_ts_cmp t \<lparr>sec = LONG_MAX, nsec = LONG_MAX\<rparr> = -1"
  using assms by (auto simp: ubx_ts_cmp_def ts_small_def LONG_MAX_def)

lemma tstat_update_spec:
  assumes spec: "tstat_spec ds ts" and m: "ts_small a" "ts_small b" "\<bar>dur (a, b)\<bar> \<le> 3000000000000000000000000000"
    and sum: "\<bar>sum_list ds\<bar> \<le> 3000000000000000000000000000"
  shows "\<exists>ts'. tstat_update ts a b = Some ts' \<and> ts_id ts' = ts_id ts \<and> tstat_spec (ds @ [dur (a, b)]) ts'"
proof -
  from ubx_ts_sub_defined [OF m(2,1)] obtain d where d: "ubx_ts_sub b a = Some d" by blast
  from ubx_ts_sub_Some [OF d] have dv: "ts_val d = dur (a, b)" "ts_canon d" by (auto simp: dur_def)
  have ds: "ts_small d" using dv m(3) by (intro ts_small_val) auto
  have "ts_small (ts_total ts)" using spec sum by (intro ts_small_val) (auto simp: tstat_spec_def)
  from ubx_ts_add_defined [OF this ds] obtain t where t: "ubx_ts_add (ts_total ts) d = Some t" by blast
  from ubx_ts_add_Some [OF t] spec dv have tv: "ts_val t = sum_list ds + dur (a, b)" "ts_canon t" by (auto simp: tstat_spec_def)
  have mx: "ubx_ts_cmp d (ts_max ts) = sgn (dur (a, b) - fold max ds 0)"
    using spec dv by (simp add: ts_canon_cmp_sgn tstat_spec_def)
  have mn: "ds \<noteq> [] \<Longrightarrow> ubx_ts_cmp d (ts_min ts) = sgn (dur (a, b) - fold min ds (hd ds))"
    using spec dv by (simp add: ts_canon_cmp_sgn tstat_spec_def)
  let ?ts = "\<lparr>ts_id = ts_id ts, ts_min = (if ubx_ts_cmp d (ts_min ts) = -1 then d else ts_min ts),
    ts_max = (if ubx_ts_cmp d (ts_max ts) = 1 then d else ts_max ts), ts_total = t, ts_cnt = ts_cnt ts + 1\<rparr>"
  have u: "tstat_update ts a b = Some ?ts" using d t by (auto simp: tstat_update_def Let_def)
  have c: "ts_canon (ts_max ?ts)" "ts_val (ts_max ?ts) = fold max (ds @ [dur (a, b)]) 0"
    using spec mx dv by (auto simp: tstat_spec_def sgn_if fold_max_snoc split: if_splits)
  have e: "ts_canon (ts_min ?ts) \<and> ts_val (ts_min ?ts) = fold min (ds @ [dur (a, b)]) (hd (ds @ [dur (a, b)]))"
  proof (cases "ds = []")
    case True
    with spec cmp_init_min [OF ds] dv show ?thesis by (simp add: tstat_spec_def)
  next
    case False
    with spec mn dv show ?thesis by (auto simp: tstat_spec_def sgn_if hd_append split: if_splits)
  qed
  from c e tv spec have "tstat_spec (ds @ [dur (a, b)]) ?ts"
    by (auto simp: tstat_spec_def)
  with u show ?thesis by auto
qed

lemma tstat_run_spec:
  assumes "tstat_spec ds ts" "\<forall>(a, b) \<in> set ms. ts_small a \<and> ts_small b" "\<forall>m \<in> set ms. 0 \<le> dur m" "0 \<le> sum_list ds"
    "sum_list ds + sum_list (map dur ms) \<le> 3000000000000000000000000000"
  shows "\<exists>ts'. tstat_run ts ms = Some ts' \<and> ts_id ts' = ts_id ts \<and> tstat_spec (ds @ map dur ms) ts'"
  using assms
proof (induction ms arbitrary: ds ts)
  case (Cons m ms)
  obtain a b where m: "m = (a, b)" by (cases m)
  have nn: "0 \<le> sum_list (map dur ms)" using Cons.prems(3) by (intro sum_list_nonneg) auto
  have p: "ts_small a" "ts_small b" "0 \<le> dur (a, b)" using Cons.prems(2,3) m by auto
  have d: "\<bar>dur (a, b)\<bar> \<le> 3000000000000000000000000000" "\<bar>sum_list ds\<bar> \<le> 3000000000000000000000000000"
    using Cons.prems(4,5) nn p(3) m by auto
  from tstat_update_spec [OF Cons.prems(1) p(1,2) d] obtain t where
    t: "tstat_update ts a b = Some t" "ts_id t = ts_id ts" "tstat_spec (ds @ [dur (a, b)]) t" by blast
  have "\<exists>ts'. tstat_run t ms = Some ts' \<and> ts_id ts' = ts_id t \<and> tstat_spec ((ds @ [dur (a, b)]) @ map dur ms) ts'"
    by (rule Cons.IH [OF t(3)]) (use Cons.prems(2-5) m p in auto)
  with t m show ?case by simp
qed simp

lemma tstat_init_spec: "tstat_spec [] (tstat_init2 n c)"
  by (simp add: tstat_spec_def tstat_init2_def ts_canon_def ts_val_def time_consts)

lemma fold_max_Max: "ds \<noteq> [] \<Longrightarrow> \<forall>d \<in> set ds. 0 \<le> d \<Longrightarrow> fold max ds 0 = Max (set ds :: int set)"
proof (cases ds)
  case (Cons x xs)
  assume "\<forall>d \<in> set ds. 0 \<le> d"
  with Cons have "max x 0 = x" by simp
  with Cons show ?thesis by (simp only: fold_simps o_apply Max.set_eq_fold max.commute)
qed simp

lemma fold_min_Min: "ds \<noteq> [] \<Longrightarrow> fold min ds (hd ds) = Min (set ds :: int set)"
  by (cases ds) (simp_all only: fold_simps o_apply Min.set_eq_fold list.sel min.idem, simp)

lemma int_div_le: "0 \<le> a \<Longrightarrow> 0 < b \<Longrightarrow> a div b \<le> (a :: int)"
  using zdiv_mono2 [of a 1 b] by simp

lemma ts_total_div:
  assumes "ts_canon t" "0 \<le> ts_val t" "ts_val t \<le> LONG_MAX" "0 < n"
  shows "\<exists>avg. ubx_ts_div t n = Some avg \<and> ts_canon avg \<and> ts_val avg = ts_val t div n"
proof -
  have n: "0 \<le> nsec t" "0 \<le> sec t" using ts_val_us [OF assms(1,2)] by auto
  have v: "sec t * NSEC_PER_SEC + nsec t = ts_val t" by (simp add: ts_val_def)
  have lm: "ts_val t \<le> 9223372036854775807" using assms(3) by (simp add: LONG_MAX_def)
  have "in_long (ts_val t)" using assms(2) lm by (intro in_longI) auto
  moreover have "in_long (sec t * NSEC_PER_SEC)" using n v lm by (intro in_longI) (auto simp: time_consts)
  moreover have q: "ts_val t sdiv n = ts_val t div n" using assms(2,4) by (simp add: sdiv_pos)
  moreover have "in_long (ts_val t div n)"
  proof (rule in_longI)
    have "ts_val t div n \<le> ts_val t" using assms(2,4) by (rule int_div_le)
    moreover have "0 \<le> ts_val t div n" using assms(2,4) by (simp add: pos_imp_zdiv_nonneg_iff)
    ultimately show "\<bar>ts_val t div n\<bar> \<le> 9223372036854775807" using lm by simp
  qed
  ultimately have "\<exists>avg. ubx_ts_div t n = Some avg" using assms(4) by (simp add: ubx_ts_div_def v)
  with ubx_ts_div_Some q show ?thesis by metis
qed

text \<open>The size passed to \<open>snprintf\<close> has no room for the terminating NUL, so the name of every statistics file
  loses its last character: it ends in \<open>.tstat\<close>, not in the documented \<open>.tstats\<close>. Slashes in the block name are
  replaced by dashes.\<close>

lemma tstats_build_filename_short:
  "tstats_build_filename True True name path = Some (path @ ''/'' @ char_replace name (CHR ''/'') (CHR ''-'') @ ''.tstat'')"
proof -
  let ?n = "char_replace name (CHR ''/'') (CHR ''-'')"
  have "path @ ''/'' @ ?n @ ''.tstats'' = (path @ ''/'' @ ?n @ ''.tstat'') @ ''s''" by simp
  moreover have "length path + 1 + length ?n + length ''.tstats'' - 1 = length (path @ ''/'' @ ?n @ ''.tstat'')" by simp
  ultimately have "take (length path + 1 + length ?n + length ''.tstats'' - 1) (path @ ''/'' @ ?n @ ''.tstats'') = path @ ''/'' @ ?n @ ''.tstat''"
    by (metis append_eq_conv_conj)
  then show ?thesis by (simp only: tstats_build_filename_def snprintf_def Let_def if_True if_False not_True_eq_False)
qed

section \<open>Properties\<close>

text \<open>C31: a statistics record that was initialised and updated with any sequence of measurements, each ending after it
  began and together shorter than 292 years, is written to the statistics file with the exact number of measurements and the
  exact minimum, maximum and average duration, in microseconds rounded down.\<close>

theorem tstat_report_exact:
  assumes "\<forall>(a, b) \<in> set ms. ts_small a \<and> ts_small b" "\<forall>m \<in> set ms. 0 \<le> dur m" "ds = map dur ms" "ds \<noteq> []"
    "sum_list ds \<le> LONG_MAX" "length ms \<le> 9223372036854775807"
  shows "\<exists>ts mn mx av. tstat_run (tstat_init2 name chain) ms = Some ts \<and>
    tstat_fwrite fp ts = Some (fp @ [Stat_line (ts_id (tstat_init2 name chain)) (of_nat (length ms)) mn mx av]) \<and>
    uint mn = Min (set ds) div 1000 \<and> uint mx = Max (set ds) div 1000 \<and>
    uint av = (sum_list ds div int (length ms)) div 1000"
proof -
  have nn: "\<forall>d \<in> set ds. 0 \<le> d" using assms(2,3) by auto
  have s: "sum_list [] + sum_list (map dur ms) \<le> 3000000000000000000000000000"
    using assms(3,5) by (simp add: LONG_MAX_def)
  from tstat_run_spec [OF tstat_init_spec assms(1,2) _ s, of name chain] obtain ts where
    ts: "tstat_run (tstat_init2 name chain) ms = Some ts" "ts_id ts = ts_id (tstat_init2 name chain)" "tstat_spec ds ts"
    using assms(3) by auto
  have sum: "0 \<le> sum_list ds" using nn by (auto intro: sum_list_nonneg)
  let ?n = "length ms"
  have len: "0 < ?n" "length ds = ?n" using assms(3,4) by auto
  have mm: "Min (set ds) \<in> set ds" "Max (set ds) \<in> set ds" using assms(4) by auto
  have up: "d \<le> sum_list ds" if "d \<in> set ds" for d using that nn by (simp add: member_le_sum_list)
  have cnt: "ts_cnt ts = of_nat ?n" using ts(3) len by (simp add: tstat_spec_def)
  have sc: "sint (ts_cnt ts) = int ?n"
    using assms(6) by (simp add: cnt signed_of_nat signed_take_bit_int_eq_self)
  have uc: "uint (ts_cnt ts) = int ?n" using assms(6) by (simp add: cnt unsigned_of_nat take_bit_nat_eq_self)
  then have pos: "ts_cnt ts > 0" using len(1) by (simp add: word_less_def)
  have spec: "ts_canon (ts_total ts)" "ts_val (ts_total ts) = sum_list ds" "ts_canon (ts_min ts)" "ts_val (ts_min ts) = Min (set ds)"
    "ts_canon (ts_max ts)" "ts_val (ts_max ts) = Max (set ds)"
    using ts(3) assms(4) nn by (simp_all add: tstat_spec_def fold_max_Max fold_min_Min)
  from ts_total_div [of "ts_total ts" "int ?n"] spec(1,2) sum assms(5) len(1) obtain avg where
    avg: "ubx_ts_div (ts_total ts) (int ?n) = Some avg" "ts_canon avg" "ts_val avg = sum_list ds div int ?n" by auto
  have ag: "0 \<le> ts_val avg" "ts_val avg \<le> sum_list ds"
    using avg(3) sum len(1) int_div_le [OF sum, of "int ?n"] by (simp_all add: pos_imp_zdiv_nonneg_iff)
  have us: "uint (ubx_ts_to_us t) = ts_val t div 1000" if "ts_canon t" "0 \<le> ts_val t" "ts_val t \<le> sum_list ds" for t
    using ubx_ts_to_us_val [of t] that assms(5) by (simp add: LONG_MAX_def)
  have "tstat_fwrite fp ts = Some (fp @ [Stat_line (ts_id ts) (of_nat ?n) (ubx_ts_to_us (ts_min ts)) (ubx_ts_to_us (ts_max ts)) (ubx_ts_to_us avg)])"
    using pos sc avg(1) cnt by (simp add: tstat_fwrite_def)
  with ts(1,2) us [OF avg(2) ag] us [OF spec(3)] us [OF spec(5)] mm nn up avg(3) spec(4,6) show ?thesis by auto
qed

theorem tstat_report_exact_witness:
  "\<exists>ts. tstat_run (tstat_init2 ''b'' (Some ''chain0''))
      [(\<lparr>sec = 1, nsec = 0\<rparr>, \<lparr>sec = 1, nsec = 5000\<rparr>), (\<lparr>sec = 2, nsec = 999999000\<rparr>, \<lparr>sec = 3, nsec = 0\<rparr>)] = Some ts \<and>
    (\<exists>mn mx av. tstat_fwrite [] ts = Some [Stat_line ''chain0,b'' 2 mn mx av] \<and> uint mn = 1 \<and> uint mx = 5 \<and> uint av = 3)"
  using tstat_report_exact [of "[(\<lparr>sec = 1, nsec = 0\<rparr>, \<lparr>sec = 1, nsec = 5000\<rparr>), (\<lparr>sec = 2, nsec = 999999000\<rparr>, \<lparr>sec = 3, nsec = 0\<rparr>)]"
      "[5000, 1000]" "''b''" "Some ''chain0''" "[]"]
  by (auto simp: dur_def ts_val_def time_consts ts_small_def ts_canon_def LONG_MAX_def tstat_init2_def snprintf_def
      UBX_TSTAT_ID_MAXLEN_def)

end
