(* ===== verification/Ubx_Types.thy ===== *)
theory Ubx_Types
  imports Ubx_Prelude
begin

text \<open>
  The data model of the core, \<^verbatim>\<open>libubx/ubx_types.h\<close> and the prototype structs of
  \<^verbatim>\<open>libubx/ubx.h\<close>: error codes, attributes, and one record per C struct. Objects live in an
  explicit store: a map from addresses per kind of object, so that aliasing (ports that share an
  iblock, configs that share a \<open>ubx_data_t\<close>) and dangling pointers are part of the model. The
  \<open>utlist\<close> lists of ports and configs are lists of addresses; the three \<open>uthash\<close> tables of a node
  are lists of key/address pairs in insertion order (\<^verbatim>\<open>Ubx_Ut\<close>). Hook functions are
  function addresses, interpreted by the record \<open>hooks\<close> that the operations take as an argument.
\<close>

section \<open>Constants\<close>

definition UBX_NODE_NAME_MAXLEN :: nat where "UBX_NODE_NAME_MAXLEN = 63"
definition UBX_BLOCK_NAME_MAXLEN :: nat where "UBX_BLOCK_NAME_MAXLEN = 63"
definition UBX_PORT_NAME_MAXLEN :: nat where "UBX_PORT_NAME_MAXLEN = 39"
definition UBX_CONFIG_NAME_MAXLEN :: nat where "UBX_CONFIG_NAME_MAXLEN = 39"
definition UBX_TYPE_NAME_MAXLEN :: nat where "UBX_TYPE_NAME_MAXLEN = 63"
definition UBX_TYPE_HASH_LEN :: nat where "UBX_TYPE_HASH_LEN = 16"
definition UBX_TYPE_HASHSTR_LEN :: nat where "UBX_TYPE_HASHSTR_LEN = 32"

lemmas maxlens = UBX_NODE_NAME_MAXLEN_def UBX_BLOCK_NAME_MAXLEN_def UBX_PORT_NAME_MAXLEN_def
  UBX_CONFIG_NAME_MAXLEN_def UBX_TYPE_NAME_MAXLEN_def UBX_TYPE_HASH_LEN_def
  UBX_TYPE_HASHSTR_LEN_def

text \<open>The error codes: consecutive from \<open>-32767\<close>.\<close>

definition EINVALID_BLOCK :: int where [simp]: "EINVALID_BLOCK = -32767"
definition EINVALID_PORT :: int where [simp]: "EINVALID_PORT = -32766"
definition EINVALID_CONFIG :: int where [simp]: "EINVALID_CONFIG = -32765"
definition EINVALID_TYPE :: int where [simp]: "EINVALID_TYPE = -32764"
definition EINVALID_BLOCK_TYPE :: int where [simp]: "EINVALID_BLOCK_TYPE = -32763"
definition EINVALID_PORT_TYPE :: int where [simp]: "EINVALID_PORT_TYPE = -32762"
definition EINVALID_CONFIG_TYPE :: int where [simp]: "EINVALID_CONFIG_TYPE = -32761"
definition EINVALID_CONFIG_LEN :: int where [simp]: "EINVALID_CONFIG_LEN = -32760"
definition EINVALID_DATA_LEN :: int where [simp]: "EINVALID_DATA_LEN = -32759"
definition EINVALID_PORT_DIR :: int where [simp]: "EINVALID_PORT_DIR = -32758"
definition EINVALID_PORT_LEN :: int where [simp]: "EINVALID_PORT_LEN = -32757"
definition EINVALID_ARG :: int where [simp]: "EINVALID_ARG = -32756"
definition EWRONG_STATE :: int where [simp]: "EWRONG_STATE = -32755"
definition ENOSUCHENT :: int where [simp]: "ENOSUCHENT = -32754"
definition EENTEXISTS :: int where [simp]: "EENTEXISTS = -32753"
definition EALREADY_REGISTERED :: int where [simp]: "EALREADY_REGISTERED = -32752"
definition ETYPE_MISMATCH :: int where [simp]: "ETYPE_MISMATCH = -32751"
definition EOUTOFMEM :: int where [simp]: "EOUTOFMEM = -32750"

definition PORT_ATTR_CLONED :: u32 where "PORT_ATTR_CLONED = 1"
definition CONFIG_ATTR_CLONED :: u32 where "CONFIG_ATTR_CLONED = 1"
definition CONFIG_ATTR_CHECKLATE :: u32 where "CONFIG_ATTR_CHECKLATE = 2"

definition BLOCK_TYPE_COMPUTATION :: u16 where "BLOCK_TYPE_COMPUTATION = 1"
definition BLOCK_TYPE_INTERACTION :: u16 where "BLOCK_TYPE_INTERACTION = 2"

definition BLOCK_STATE_PREINIT :: u16 where "BLOCK_STATE_PREINIT = 0"
definition BLOCK_STATE_INACTIVE :: u16 where "BLOCK_STATE_INACTIVE = 1"
definition BLOCK_STATE_ACTIVE :: u16 where "BLOCK_STATE_ACTIVE = 2"

lemmas block_states = BLOCK_STATE_PREINIT_def BLOCK_STATE_INACTIVE_def BLOCK_STATE_ACTIVE_def
lemmas block_types = BLOCK_TYPE_COMPUTATION_def BLOCK_TYPE_INTERACTION_def

definition UBX_LOGLEVEL_ERR :: int where "UBX_LOGLEVEL_ERR = 3"
definition UBX_LOGLEVEL_INFO :: int where "UBX_LOGLEVEL_INFO = 6"

section \<open>Structs\<close>

record ubx_type =
  t_name :: "string option"
  t_class :: u32
  t_size :: int
  t_nd :: bool
  t_seqid :: u64
  t_hash :: "u8 list"

text \<open>A heap buffer that only one pointer refers to: NULL, its bytes, or a dangling pointer.\<close>

datatype buf = Buf_null | Buf "u8 list" | Buf_freed

record ubx_data =
  d_refcnt :: int
  d_type :: ptr
  d_len :: int
  d_data :: buf

record ubx_port =
  p_name :: string
  p_doc :: "string option"
  p_attrs :: u32
  p_block :: addr
  p_in_type :: ptr
  p_out_type :: ptr
  p_in_data_len :: int
  p_out_data_len :: int
  p_in_interaction :: "addr list option"
  p_out_interaction :: "addr list option"

text \<open>\<open>in_interaction\<close> and \<open>out_interaction\<close> are NULL or a NULL-terminated array of
  pointers to iblocks.\<close>

record ubx_config =
  c_name :: string
  c_doc :: "string option"
  c_attrs :: u32
  c_block :: addr
  c_type :: ptr
  c_value :: ptr
  c_min :: u16
  c_max :: u16

text \<open>The anonymous union of \<open>struct ubx_block\<close>: a computation block has a step hook and a
  counter, an interaction block a read and a write hook and two counters.\<close>

datatype block_ops =
    Ops_none
  | Ops_comp "fptr option" u64
  | Ops_inter "fptr option" "fptr option" u64 u64

record ubx_block =
  b_name :: string
  b_meta_data :: "string option"
  b_attrs :: u32
  b_type :: u16
  b_state :: u16
  b_ports :: "addr list"
  b_configs :: "addr list"
  b_prototype :: ptr
  b_nd :: bool
  b_loglevel :: ptr
  b_init :: "fptr option"
  b_start :: "fptr option"
  b_stop :: "fptr option"
  b_cleanup :: "fptr option"
  b_ops :: block_ops

text \<open>\<open>handle\<close> is what \<open>dlopen\<close> returned.\<close>

record ubx_module =
  m_id :: string
  m_handle :: nat
  m_init :: fptr
  m_cleanup :: fptr
  m_spdx :: "nat option"

record ubx_proto_port =
  pp_name :: string
  pp_attrs :: u32
  pp_out_type_name :: "string option"
  pp_out_data_len :: int
  pp_in_type_name :: "string option"
  pp_in_data_len :: int
  pp_doc :: "string option"

record ubx_proto_config =
  pc_name :: string
  pc_type_name :: "string option"
  pc_attrs :: u32
  pc_min :: u16
  pc_max :: u16
  pc_doc :: "string option"

record ubx_proto_block =
  pb_name :: string
  pb_meta_data :: "string option"
  pb_attrs :: u32
  pb_type :: u16
  pb_configs :: "ubx_proto_config list"
  pb_ports :: "ubx_proto_port list"
  pb_init :: "fptr option"
  pb_start :: "fptr option"
  pb_stop :: "fptr option"
  pb_cleanup :: "fptr option"
  pb_step :: "fptr option"
  pb_read :: "fptr option"
  pb_write :: "fptr option"

section \<open>The node and the store\<close>

text \<open>
  The state: the node (\<open>struct ubx_node\<close>; its hash tables map names to addresses), the objects
  of each kind, the static type pointers of
  the generated accessor functions (by function name), the allocator (\<open>next_addr\<close>; \<open>oom\<close> lists for the coming allocations whether
  each fails, allocations past the list succeed), and \<open>world\<close>, everything the hooks own:
  private data of the blocks, devices, files.
\<close>

record 'w ubx =
  nd_name :: string
  nd_blocks :: "(string \<times> addr) list"
  nd_types :: "(string \<times> addr) list"
  nd_modules :: "(string \<times> addr) list"
  nd_cur_seqid :: u64
  nd_attrs :: u32
  nd_loglevel :: int
  blks :: "addr \<Rightarrow> ubx_block option"
  prts :: "addr \<Rightarrow> ubx_port option"
  cfgs :: "addr \<Rightarrow> ubx_config option"
  typs :: "addr \<Rightarrow> ubx_type option"
  dats :: "addr \<Rightarrow> ubx_data option"
  mods :: "addr \<Rightarrow> ubx_module option"
  static_type :: "string \<Rightarrow> ptr"
  next_addr :: addr
  oom :: "bool list"
  world :: 'w

text \<open>The functions a block's function pointers refer to. A read hook also returns the data it
  filled in through the store.\<close>

record 'w hooks =
  hk_init :: "fptr \<Rightarrow> addr \<Rightarrow> 'w ubx \<Rightarrow> (int \<times> 'w ubx) option"
  hk_start :: "fptr \<Rightarrow> addr \<Rightarrow> 'w ubx \<Rightarrow> (int \<times> 'w ubx) option"
  hk_stop :: "fptr \<Rightarrow> addr \<Rightarrow> 'w ubx \<Rightarrow> 'w ubx option"
  hk_cleanup :: "fptr \<Rightarrow> addr \<Rightarrow> 'w ubx \<Rightarrow> 'w ubx option"
  hk_step :: "fptr \<Rightarrow> addr \<Rightarrow> 'w ubx \<Rightarrow> 'w ubx option"
  hk_read :: "fptr \<Rightarrow> addr \<Rightarrow> addr \<Rightarrow> 'w ubx \<Rightarrow> (int \<times> 'w ubx) option"
  hk_write :: "fptr \<Rightarrow> addr \<Rightarrow> addr \<Rightarrow> 'w ubx \<Rightarrow> 'w ubx option"

section \<open>Allocation and field updates\<close>

definition calloc :: "'w ubx \<Rightarrow> ptr \<times> 'w ubx" where
  "calloc s =
     (if oom s \<noteq> [] \<and> hd (oom s) then (None, s\<lparr>oom := tl (oom s)\<rparr>)
      else (Some (next_addr s), s\<lparr>next_addr := Suc (next_addr s), oom := tl (oom s)\<rparr>))"

text \<open>\<open>strdup\<close> and \<open>realloc\<close> of a buffer the model keeps by value: only success matters.\<close>

definition mem_alloc :: "'w ubx \<Rightarrow> bool \<times> 'w ubx" where
  "mem_alloc s = (\<not> (oom s \<noteq> [] \<and> hd (oom s)), s\<lparr>oom := tl (oom s)\<rparr>)"

definition upd_blk :: "addr \<Rightarrow> (ubx_block \<Rightarrow> ubx_block) \<Rightarrow> 'w ubx \<Rightarrow> 'w ubx option" where
  "upd_blk a f s = do { b \<leftarrow> blks s a; Some (s\<lparr>blks := (blks s)(a \<mapsto> f b)\<rparr>) }"

definition upd_prt :: "addr \<Rightarrow> (ubx_port \<Rightarrow> ubx_port) \<Rightarrow> 'w ubx \<Rightarrow> 'w ubx option" where
  "upd_prt a f s = do { p \<leftarrow> prts s a; Some (s\<lparr>prts := (prts s)(a \<mapsto> f p)\<rparr>) }"

text \<open>
  The logging macros \<open>ubx_err(b, ...)\<close> expand to a test of \<open>*b->loglevel\<close>, or of
  \<open>b->nd->loglevel\<close> when the block has no level of its own. The messages are not modelled,
  but the pointers the macro follows are: a block that is not attached to a node yet, or whose
  loglevel config is gone, must not log.
\<close>

definition ubx_block_log :: "ubx_block \<Rightarrow> 'w ubx \<Rightarrow> unit option" where
  "ubx_block_log b s =
     (case b_loglevel b of
        Some d \<Rightarrow> if dats s d = None then None else Some ()
      | None \<Rightarrow> if b_nd b then Some () else None)"

end
