(* ===== verification/Ubx_Ut.thy ===== *)
theory Ubx_Ut
  imports Ubx_Types
begin

text \<open>
  The container macros of the external packages \<open>uthash\<close> and \<open>utlist\<close>. They are not part of
  the repository, so they are a parameter of every definition that uses them, a value of the
  record \<open>ut_lib\<close>, and the locale \<open>ut_laws\<close> states what their documentation promises and the
  code relies on. The data they work on are structs of the repository: a table is represented
  by its elements in the order of the \<open>hh.next\<close> pointers (application order), each with its key,
  and a doubly linked list by the addresses in the order of the \<open>next\<close> pointers. \<open>HASH_ITER\<close> and
  \<open>DL_FOREACH\<close> only follow these pointers.
\<close>

section \<open>The parameter\<close>

type_synonym htab = "(string \<times> addr) list"

record ut_lib =
  ut_find :: "htab \<Rightarrow> string \<Rightarrow> ptr"
    \<comment> \<open>\<open>HASH_FIND_STR\<close>\<close>
  ut_add :: "htab \<Rightarrow> string \<Rightarrow> addr \<Rightarrow> htab"
    \<comment> \<open>\<open>HASH_ADD_KEYPTR\<close>\<close>
  ut_del :: "htab \<Rightarrow> addr \<Rightarrow> htab"
    \<comment> \<open>\<open>HASH_DEL\<close>\<close>
  ut_count :: "htab \<Rightarrow> nat"
    \<comment> \<open>\<open>HASH_COUNT\<close>\<close>
  dl_append :: "addr list \<Rightarrow> addr \<Rightarrow> addr list"
    \<comment> \<open>\<open>DL_APPEND\<close>\<close>
  dl_delete :: "addr list \<Rightarrow> addr \<Rightarrow> addr list"
    \<comment> \<open>\<open>DL_DELETE\<close>\<close>

text \<open>A table whose keys are distinct; the documentation makes no promise about others.\<close>

definition keys :: "htab \<Rightarrow> string list" where "keys t = map fst t"
definition elems :: "htab \<Rightarrow> addr list" where "elems t = map snd t"

definition htab_ok :: "htab \<Rightarrow> bool" where
  "htab_ok t \<longleftrightarrow> distinct (keys t) \<and> distinct (elems t)"

text \<open>What the code relies on: a lookup finds exactly the element with the key, an element with
  a new key is added at the end, deleting an element of the table removes it and keeps the
  order of the others; the same for the lists.\<close>

locale ut_laws =
  fixes U :: ut_lib
  assumes find_law: "htab_ok t \<Longrightarrow> ut_find U t k = map_of t k"
    and add_law: "htab_ok t \<Longrightarrow> k \<notin> set (keys t) \<Longrightarrow> a \<notin> set (elems t) \<Longrightarrow> ut_add U t k a = t @ [(k, a)]"
    and del_law: "htab_ok t \<Longrightarrow> a \<in> set (elems t) \<Longrightarrow> ut_del U t a = filter (\<lambda>e. snd e \<noteq> a) t"
    and count_law: "htab_ok t \<Longrightarrow> ut_count U t = length t"
    and append_law: "distinct l \<Longrightarrow> a \<notin> set l \<Longrightarrow> dl_append U l a = l @ [a]"
    and delete_law: "distinct l \<Longrightarrow> a \<in> set l \<Longrightarrow> dl_delete U l a = remove1 a l"

section \<open>Lemmas on tables\<close>

lemma htab_ok_Nil [simp]: "htab_ok []"
  by (simp add: htab_ok_def keys_def elems_def)

lemma htab_ok_snoc [simp]:
  "htab_ok (t @ [(k, a)]) \<longleftrightarrow> htab_ok t \<and> k \<notin> set (keys t) \<and> a \<notin> set (elems t)"
  by (auto simp: htab_ok_def keys_def elems_def)

lemma htab_ok_filter [simp]: "htab_ok t \<Longrightarrow> htab_ok (filter P t)"
  by (simp add: htab_ok_def keys_def elems_def distinct_map_filter)

lemma keys_append [simp]: "keys (t @ u) = keys t @ keys u"
  by (simp add: keys_def)

lemma elems_append [simp]: "elems (t @ u) = elems t @ elems u"
  by (simp add: elems_def)

lemma keys_Nil [simp]: "keys [] = []" and keys_Cons [simp]: "keys (e # t) = fst e # keys t"
  by (simp_all add: keys_def)

lemma elems_Nil [simp]: "elems [] = []" and elems_Cons [simp]: "elems (e # t) = snd e # elems t"
  by (simp_all add: elems_def)

lemma elems_filter: "elems (filter (\<lambda>e. snd e \<noteq> a) t) = filter (\<lambda>x. x \<noteq> a) (elems t)"
  by (induction t) (auto simp: elems_def)

lemma map_of_keys: "map_of t k = None \<longleftrightarrow> k \<notin> set (keys t)"
  by (simp add: keys_def map_of_eq_None_iff)

lemma htab_ok_map_of_iff: "htab_ok t \<Longrightarrow> map_of t k = Some a \<longleftrightarrow> (k, a) \<in> set t"
  by (simp add: htab_ok_def keys_def)

lemma map_of_elems: "map_of t k = Some a \<Longrightarrow> a \<in> set (elems t)"
  by (force simp: elems_def dest: map_of_SomeD)

lemma htab_ok_inj: "htab_ok t \<Longrightarrow> (k, a) \<in> set t \<Longrightarrow> (k', a) \<in> set t \<Longrightarrow> k = k'"
proof (induction t)
  case (Cons e t)
  then show ?case
    by (auto simp: htab_ok_def keys_def elems_def image_iff)
qed simp

lemma filter_elem_key:
  assumes "htab_ok t" "(k, a) \<in> set t"
  shows "filter (\<lambda>e. snd e \<noteq> a) t = filter (\<lambda>e. fst e \<noteq> k) t"
proof (rule filter_cong [OF refl])
  fix e assume "e \<in> set t"
  with assms show "(snd e \<noteq> a) = (fst e \<noteq> k)"
    using htab_ok_inj [OF assms(1)] eq_key_imp_eq_value [of t k]
    by (cases e) (auto simp: htab_ok_def keys_def)
qed

lemma map_of_filter_key: "map_of (filter (\<lambda>e. fst e \<noteq> k) t) = (map_of t)(k := None)"
  by (induction t) (auto simp: fun_eq_iff)

section \<open>The contract the clients use\<close>

context ut_laws
begin

lemma find_iff: "htab_ok t \<Longrightarrow> ut_find U t k = Some a \<longleftrightarrow> (k, a) \<in> set t"
  by (simp add: find_law htab_ok_map_of_iff)

lemma find_None: "htab_ok t \<Longrightarrow> ut_find U t k = None \<longleftrightarrow> k \<notin> set (keys t)"
  by (simp add: find_law map_of_keys)

lemma add_ok:
  assumes "htab_ok t" "ut_find U t k = None" "a \<notin> set (elems t)"
  shows "htab_ok (ut_add U t k a)" "ut_find U (ut_add U t k a) k' = (if k' = k then Some a else ut_find U t k')"
    "set (ut_add U t k a) = insert (k, a) (set t)"
proof -
  from assms(1,2) have k: "k \<notin> set (keys t)" by (simp add: find_None)
  then have e: "ut_add U t k a = t @ [(k, a)]" using assms by (simp add: add_law)
  show ok: "htab_ok (ut_add U t k a)" using assms k by (simp add: e)
  show "set (ut_add U t k a) = insert (k, a) (set t)" by (simp add: e)
  from k have "map_of t k = None" by (simp add: map_of_keys)
  with ok show "ut_find U (ut_add U t k a) k' = (if k' = k then Some a else ut_find U t k')"
    by (auto simp: find_law assms(1) e map_add_def split: option.split)
qed

lemma del_ok:
  assumes "htab_ok t" "ut_find U t k = Some a"
  shows "htab_ok (ut_del U t a)" "ut_find U (ut_del U t a) k' = (if k' = k then None else ut_find U t k')"
    "ut_del U t a = filter (\<lambda>e. fst e \<noteq> k) t"
proof -
  from assms have ka: "(k, a) \<in> set t" by (simp add: find_iff)
  then have "a \<in> set (elems t)" by (force simp: elems_def)
  with assms have e: "ut_del U t a = filter (\<lambda>e. snd e \<noteq> a) t" by (simp add: del_law)
  from e ka assms show e2: "ut_del U t a = filter (\<lambda>e. fst e \<noteq> k) t" by (simp add: filter_elem_key)
  from assms show ok: "htab_ok (ut_del U t a)" by (simp add: e)
  from ok assms(1) show "ut_find U (ut_del U t a) k' = (if k' = k then None else ut_find U t k')"
    by (simp add: find_law e2 map_of_filter_key)
qed

end

section \<open>An instance\<close>

text \<open>The laws are satisfiable: the functions that compute on the representation what the
  documentation describes. The witnesses run the model on this instance.\<close>

definition ut_ref :: ut_lib where
  "ut_ref = \<lparr>ut_find = map_of, ut_add = (\<lambda>t k a. t @ [(k, a)]),
     ut_del = (\<lambda>t a. filter (\<lambda>e. snd e \<noteq> a) t), ut_count = length,
     dl_append = (\<lambda>l a. l @ [a]), dl_delete = (\<lambda>l a. remove1 a l)\<rparr>"

interpretation ref: ut_laws ut_ref
  by unfold_locales (simp_all add: ut_ref_def)

lemma ut_ref_sel [simp]:
  "ut_find ut_ref = map_of" "ut_add ut_ref = (\<lambda>t k a. t @ [(k, a)])"
  "ut_del ut_ref = (\<lambda>t a. filter (\<lambda>e. snd e \<noteq> a) t)" "ut_count ut_ref = length"
  "dl_append ut_ref = (\<lambda>l a. l @ [a])" "dl_delete ut_ref = (\<lambda>l a. remove1 a l)"
  by (simp_all add: ut_ref_def)

section \<open>\<open>HASH_ITER\<close>\<close>

text \<open>
  The loop of \<open>HASH_ITER(hh, head, el, tmp)\<close>: \<open>tmp\<close> is read from \<open>el->hh.next\<close> before the body
  runs, the body may remove \<open>el\<close>, and the loop goes on at \<open>tmp\<close>. An element that is no longer in
  the table when the loop reaches it has been freed: following it is undefined. The loop need not
  end when the body keeps adding elements.
\<close>

fun hash_next :: "htab \<Rightarrow> addr \<Rightarrow> ptr option" where
  "hash_next [] a = None"
| "hash_next (e # t) a =
     (if snd e = a then Some (case t of [] \<Rightarrow> None | e' # _ \<Rightarrow> Some (snd e')) else hash_next t a)"

partial_function (option) hash_iter ::
  "('s \<Rightarrow> htab) \<Rightarrow> (addr \<Rightarrow> 's \<Rightarrow> 's option) \<Rightarrow> ptr \<Rightarrow> 's \<Rightarrow> 's option" where
  "hash_iter tab body el s =
     (case el of
        None \<Rightarrow> Some s
      | Some a \<Rightarrow> do { tmp \<leftarrow> hash_next (tab s) a; s \<leftarrow> body a s; hash_iter tab body tmp s })"

definition hash_head :: "htab \<Rightarrow> ptr" where
  "hash_head t = (case t of [] \<Rightarrow> None | e # _ \<Rightarrow> Some (snd e))"

lemma hash_next_mid:
  "a \<notin> set (elems t) \<Longrightarrow> snd e = a \<Longrightarrow> hash_next (t @ e # u) a = Some (hash_head u)"
  by (induction t) (auto simp: hash_head_def split: list.splits)

lemma hash_iter_None [simp]: "hash_iter tab body None s = Some s"
  by (simp add: hash_iter.simps)

lemma hash_iter_Some:
  "hash_iter tab body (Some a) s =
     do { tmp \<leftarrow> hash_next (tab s) a; s \<leftarrow> body a s; hash_iter tab body tmp s }"
  by (subst hash_iter.simps) simp

text \<open>The rule for loops whose body keeps the elements it has not reached yet: an invariant
  indexed by the rest of the table.\<close>

lemma hash_iter_rule:
  assumes "\<And>rest s. I rest s \<Longrightarrow> \<exists>done. tab s = done @ rest \<and> distinct (elems (done @ rest))"
    and "\<And>e rest s. I (e # rest) s \<Longrightarrow> \<exists>s'. body (snd e) s = Some s' \<and> I rest s'"
  shows "I rest s \<Longrightarrow> \<exists>s'. hash_iter tab body (hash_head rest) s = Some s' \<and> I [] s'"
proof (induction rest arbitrary: s)
  case Nil
  then show ?case by (simp add: hash_head_def)
next
  case (Cons e rest)
  from assms(1) [OF Cons.prems] obtain d where d: "tab s = d @ e # rest" "distinct (elems (d @ e # rest))"
    by blast
  then have n: "hash_next (tab s) (snd e) = Some (hash_head rest)"
    by (simp add: hash_next_mid)
  from assms(2) [OF Cons.prems] obtain s1 where s1: "body (snd e) s = Some s1" "I rest s1" by blast
  from Cons.IH [OF s1(2)] obtain s2 where "hash_iter tab body (hash_head rest) s1 = Some s2" "I [] s2"
    by blast
  with n s1 show ?case by (simp add: hash_head_def hash_iter_Some)
qed

end
