(* ===== verification/Ubx_MD5.thy ===== *)
theory Ubx_MD5
  imports Ubx_Prelude
begin

text \<open>
  The MD5 fingerprint of a type name, \<^verbatim>\<open>libubx/md5.c\<close>: the incremental code (a context with a
  64-byte input buffer and a 64-bit bit count in two words) and, for comparison, the algorithm as
  RFC 1321 states it (pad the whole message, then fold a table-driven compression over its
  blocks). The lemmas show that the unrolled rounds are the table-driven ones, that a context
  always represents exactly the bytes it has been fed, however they were split, and that the
  digest is the one of the RFC and does not depend on the uninitialised bytes of the context.
\<close>

unbundle bit_operations_syntax

section \<open>Definitions\<close>

type_synonym quad = "u32 \<times> u32 \<times> u32 \<times> u32"

record md5_context =
  ctx_buf :: quad
  ctx_bits0 :: u32
  ctx_bits1 :: u32
  ctx_in :: "u8 list"

text \<open>\<open>byteReverse\<close> replaces each group of four bytes by the word it denotes, least
  significant byte first; the same call turns the four result words into bytes.\<close>

definition word_of_bytes :: "u8 \<Rightarrow> u8 \<Rightarrow> u8 \<Rightarrow> u8 \<Rightarrow> u32" where
  "word_of_bytes b0 b1 b2 b3 =
     push_bit 16 (push_bit 8 (ucast b3) OR ucast b2) OR (push_bit 8 (ucast b1) OR ucast b0)"

fun byteReverse :: "u8 list \<Rightarrow> u32 list" where
  "byteReverse (b0 # b1 # b2 # b3 # bs) = word_of_bytes b0 b1 b2 b3 # byteReverse bs"
| "byteReverse _ = []"

definition bytes_of_word :: "u32 \<Rightarrow> u8 list" where
  "bytes_of_word w = [ucast w, ucast (drop_bit 8 w), ucast (drop_bit 16 w), ucast (drop_bit 24 w)]"

definition MD5Init :: "md5_context \<Rightarrow> md5_context" where
  "MD5Init ctx = ctx\<lparr>ctx_buf := (0x67452301, 0xefcdab89, 0x98badcfe, 0x10325476),
     ctx_bits0 := 0, ctx_bits1 := 0\<rparr>"

text \<open>The four core functions.\<close>

definition F1 :: "u32 \<Rightarrow> u32 \<Rightarrow> u32 \<Rightarrow> u32" where "F1 x y z = z XOR (x AND (y XOR z))"
definition F2 :: "u32 \<Rightarrow> u32 \<Rightarrow> u32 \<Rightarrow> u32" where "F2 x y z = F1 z x y"
definition F3 :: "u32 \<Rightarrow> u32 \<Rightarrow> u32 \<Rightarrow> u32" where "F3 x y z = x XOR y XOR z"
definition F4 :: "u32 \<Rightarrow> u32 \<Rightarrow> u32 \<Rightarrow> u32" where "F4 x y z = y XOR (x OR NOT z)"

definition MD5STEP ::
  "(u32 \<Rightarrow> u32 \<Rightarrow> u32 \<Rightarrow> u32) \<Rightarrow> u32 \<Rightarrow> u32 \<Rightarrow> u32 \<Rightarrow> u32 \<Rightarrow> u32 \<Rightarrow> nat \<Rightarrow> u32" where
  "MD5STEP f w x y z data s =
     (let w = w + (f x y z + data); w = push_bit s w OR drop_bit (32 - s) w in w + x)"

definition md5_round1 :: "u32 list \<Rightarrow> quad \<Rightarrow> quad" where
  "md5_round1 m = (\<lambda>(a, b, c, d).
     let a = MD5STEP F1 a b c d (m ! 0 + 0xd76aa478) 7;
         d = MD5STEP F1 d a b c (m ! 1 + 0xe8c7b756) 12;
         c = MD5STEP F1 c d a b (m ! 2 + 0x242070db) 17;
         b = MD5STEP F1 b c d a (m ! 3 + 0xc1bdceee) 22;
         a = MD5STEP F1 a b c d (m ! 4 + 0xf57c0faf) 7;
         d = MD5STEP F1 d a b c (m ! 5 + 0x4787c62a) 12;
         c = MD5STEP F1 c d a b (m ! 6 + 0xa8304613) 17;
         b = MD5STEP F1 b c d a (m ! 7 + 0xfd469501) 22;
         a = MD5STEP F1 a b c d (m ! 8 + 0x698098d8) 7;
         d = MD5STEP F1 d a b c (m ! 9 + 0x8b44f7af) 12;
         c = MD5STEP F1 c d a b (m ! 10 + 0xffff5bb1) 17;
         b = MD5STEP F1 b c d a (m ! 11 + 0x895cd7be) 22;
         a = MD5STEP F1 a b c d (m ! 12 + 0x6b901122) 7;
         d = MD5STEP F1 d a b c (m ! 13 + 0xfd987193) 12;
         c = MD5STEP F1 c d a b (m ! 14 + 0xa679438e) 17;
         b = MD5STEP F1 b c d a (m ! 15 + 0x49b40821) 22
     in (a, b, c, d))"

definition md5_round2 :: "u32 list \<Rightarrow> quad \<Rightarrow> quad" where
  "md5_round2 m = (\<lambda>(a, b, c, d).
     let a = MD5STEP F2 a b c d (m ! 1 + 0xf61e2562) 5;
         d = MD5STEP F2 d a b c (m ! 6 + 0xc040b340) 9;
         c = MD5STEP F2 c d a b (m ! 11 + 0x265e5a51) 14;
         b = MD5STEP F2 b c d a (m ! 0 + 0xe9b6c7aa) 20;
         a = MD5STEP F2 a b c d (m ! 5 + 0xd62f105d) 5;
         d = MD5STEP F2 d a b c (m ! 10 + 0x02441453) 9;
         c = MD5STEP F2 c d a b (m ! 15 + 0xd8a1e681) 14;
         b = MD5STEP F2 b c d a (m ! 4 + 0xe7d3fbc8) 20;
         a = MD5STEP F2 a b c d (m ! 9 + 0x21e1cde6) 5;
         d = MD5STEP F2 d a b c (m ! 14 + 0xc33707d6) 9;
         c = MD5STEP F2 c d a b (m ! 3 + 0xf4d50d87) 14;
         b = MD5STEP F2 b c d a (m ! 8 + 0x455a14ed) 20;
         a = MD5STEP F2 a b c d (m ! 13 + 0xa9e3e905) 5;
         d = MD5STEP F2 d a b c (m ! 2 + 0xfcefa3f8) 9;
         c = MD5STEP F2 c d a b (m ! 7 + 0x676f02d9) 14;
         b = MD5STEP F2 b c d a (m ! 12 + 0x8d2a4c8a) 20
     in (a, b, c, d))"

definition md5_round3 :: "u32 list \<Rightarrow> quad \<Rightarrow> quad" where
  "md5_round3 m = (\<lambda>(a, b, c, d).
     let a = MD5STEP F3 a b c d (m ! 5 + 0xfffa3942) 4;
         d = MD5STEP F3 d a b c (m ! 8 + 0x8771f681) 11;
         c = MD5STEP F3 c d a b (m ! 11 + 0x6d9d6122) 16;
         b = MD5STEP F3 b c d a (m ! 14 + 0xfde5380c) 23;
         a = MD5STEP F3 a b c d (m ! 1 + 0xa4beea44) 4;
         d = MD5STEP F3 d a b c (m ! 4 + 0x4bdecfa9) 11;
         c = MD5STEP F3 c d a b (m ! 7 + 0xf6bb4b60) 16;
         b = MD5STEP F3 b c d a (m ! 10 + 0xbebfbc70) 23;
         a = MD5STEP F3 a b c d (m ! 13 + 0x289b7ec6) 4;
         d = MD5STEP F3 d a b c (m ! 0 + 0xeaa127fa) 11;
         c = MD5STEP F3 c d a b (m ! 3 + 0xd4ef3085) 16;
         b = MD5STEP F3 b c d a (m ! 6 + 0x04881d05) 23;
         a = MD5STEP F3 a b c d (m ! 9 + 0xd9d4d039) 4;
         d = MD5STEP F3 d a b c (m ! 12 + 0xe6db99e5) 11;
         c = MD5STEP F3 c d a b (m ! 15 + 0x1fa27cf8) 16;
         b = MD5STEP F3 b c d a (m ! 2 + 0xc4ac5665) 23
     in (a, b, c, d))"

definition md5_round4 :: "u32 list \<Rightarrow> quad \<Rightarrow> quad" where
  "md5_round4 m = (\<lambda>(a, b, c, d).
     let a = MD5STEP F4 a b c d (m ! 0 + 0xf4292244) 6;
         d = MD5STEP F4 d a b c (m ! 7 + 0x432aff97) 10;
         c = MD5STEP F4 c d a b (m ! 14 + 0xab9423a7) 15;
         b = MD5STEP F4 b c d a (m ! 5 + 0xfc93a039) 21;
         a = MD5STEP F4 a b c d (m ! 12 + 0x655b59c3) 6;
         d = MD5STEP F4 d a b c (m ! 3 + 0x8f0ccc92) 10;
         c = MD5STEP F4 c d a b (m ! 10 + 0xffeff47d) 15;
         b = MD5STEP F4 b c d a (m ! 1 + 0x85845dd1) 21;
         a = MD5STEP F4 a b c d (m ! 8 + 0x6fa87e4f) 6;
         d = MD5STEP F4 d a b c (m ! 15 + 0xfe2ce6e0) 10;
         c = MD5STEP F4 c d a b (m ! 6 + 0xa3014314) 15;
         b = MD5STEP F4 b c d a (m ! 13 + 0x4e0811a1) 21;
         a = MD5STEP F4 a b c d (m ! 4 + 0xf7537e82) 6;
         d = MD5STEP F4 d a b c (m ! 11 + 0xbd3af235) 10;
         c = MD5STEP F4 c d a b (m ! 2 + 0x2ad7d2bb) 15;
         b = MD5STEP F4 b c d a (m ! 9 + 0xeb86d391) 21
     in (a, b, c, d))"

definition MD5Transform :: "quad \<Rightarrow> u32 list \<Rightarrow> quad" where
  "MD5Transform buf m =
     (case buf of (a0, b0, c0, d0) \<Rightarrow>
      case md5_round4 m (md5_round3 m (md5_round2 m (md5_round1 m buf))) of (a, b, c, d) \<Rightarrow>
        (a0 + a, b0 + b, c0 + c, d0 + d))"

text \<open>\<open>memmove\<close> of \<open>bs\<close> to the start of the buffer, or to offset \<open>n\<close>.\<close>

definition put_in :: "u8 list \<Rightarrow> nat \<Rightarrow> u8 list \<Rightarrow> u8 list" where
  "put_in buf n bs = take n buf @ bs @ drop (n + length bs) buf"

text \<open>The \<open>while (len >= 64)\<close> loop of \<open>MD5Update\<close>, and the copy of the rest after it.\<close>

function md5_update_loop :: "quad \<Rightarrow> u8 list \<Rightarrow> u8 list \<Rightarrow> quad \<times> u8 list" where
  "md5_update_loop q inb buf =
     (if length buf \<ge> 64
      then md5_update_loop (MD5Transform q (byteReverse (put_in inb 0 (take 64 buf))))
             (put_in inb 0 (take 64 buf)) (drop 64 buf)
      else (q, put_in inb 0 buf))"
  by pat_completeness auto
termination
  by (relation "measure (\<lambda>(q, inb, buf). length buf)") auto

declare md5_update_loop.simps [simp del]

definition MD5Update :: "md5_context \<Rightarrow> u8 list \<Rightarrow> md5_context" where
  "MD5Update ctx buf =
     (let len = word_of_nat (length buf) :: u32;
          t = ctx_bits0 ctx;
          bits0 = t + push_bit 3 len;
          bits1 = (if bits0 < t then ctx_bits1 ctx + 1 else ctx_bits1 ctx) + drop_bit 29 len;
          ctx = ctx\<lparr>ctx_bits0 := bits0, ctx_bits1 := bits1\<rparr>;
          t = unat (drop_bit 3 t AND 0x3f)
      in if t \<noteq> 0
         then if length buf < 64 - t then ctx\<lparr>ctx_in := put_in (ctx_in ctx) t buf\<rparr>
              else (let inb = put_in (ctx_in ctx) t (take (64 - t) buf);
                        q = MD5Transform (ctx_buf ctx) (byteReverse inb);
                        (q, inb) = md5_update_loop q inb (drop (64 - t) buf)
                    in ctx\<lparr>ctx_buf := q, ctx_in := inb\<rparr>)
         else (let (q, inb) = md5_update_loop (ctx_buf ctx) (ctx_in ctx) buf
               in ctx\<lparr>ctx_buf := q, ctx_in := inb\<rparr>))"

definition MD5Final :: "md5_context \<Rightarrow> u8 list" where
  "MD5Final ctx =
     (let count = unat (drop_bit 3 (ctx_bits0 ctx) AND 0x3f);
          inb = put_in (ctx_in ctx) count [0x80];
          p = count + 1;
          count = 64 - 1 - count;
          (q, inb) =
            (if count < 8
             then (let inb = put_in inb p (replicate count 0);
                       q = MD5Transform (ctx_buf ctx) (byteReverse inb)
                   in (q, put_in inb 0 (replicate 56 0)))
             else (ctx_buf ctx, put_in inb p (replicate (count - 8) 0)));
          in32 = byteReverse (take 56 inb) @ [ctx_bits0 ctx, ctx_bits1 ctx];
          (a, b, c, d) = MD5Transform q in32
      in bytes_of_word a @ bytes_of_word b @ bytes_of_word c @ bytes_of_word d)"

text \<open>\<open>md5\<close> on a context whose bytes are whatever the stack held.\<close>

definition md5 :: "md5_context \<Rightarrow> u8 list \<Rightarrow> u8 list" where
  "md5 context input = MD5Final (MD5Update (MD5Init context) input)"

section \<open>The algorithm of RFC 1321\<close>

definition rfc_T :: "u32 list" where
  "rfc_T = [0xd76aa478, 0xe8c7b756, 0x242070db, 0xc1bdceee,
    0xf57c0faf, 0x4787c62a, 0xa8304613, 0xfd469501,
    0x698098d8, 0x8b44f7af, 0xffff5bb1, 0x895cd7be,
    0x6b901122, 0xfd987193, 0xa679438e, 0x49b40821,
    0xf61e2562, 0xc040b340, 0x265e5a51, 0xe9b6c7aa,
    0xd62f105d, 0x02441453, 0xd8a1e681, 0xe7d3fbc8,
    0x21e1cde6, 0xc33707d6, 0xf4d50d87, 0x455a14ed,
    0xa9e3e905, 0xfcefa3f8, 0x676f02d9, 0x8d2a4c8a,
    0xfffa3942, 0x8771f681, 0x6d9d6122, 0xfde5380c,
    0xa4beea44, 0x4bdecfa9, 0xf6bb4b60, 0xbebfbc70,
    0x289b7ec6, 0xeaa127fa, 0xd4ef3085, 0x04881d05,
    0xd9d4d039, 0xe6db99e5, 0x1fa27cf8, 0xc4ac5665,
    0xf4292244, 0x432aff97, 0xab9423a7, 0xfc93a039,
    0x655b59c3, 0x8f0ccc92, 0xffeff47d, 0x85845dd1,
    0x6fa87e4f, 0xfe2ce6e0, 0xa3014314, 0x4e0811a1,
    0xf7537e82, 0xbd3af235, 0x2ad7d2bb, 0xeb86d391]"

definition rfc_f :: "nat \<Rightarrow> u32 \<Rightarrow> u32 \<Rightarrow> u32 \<Rightarrow> u32" where
  "rfc_f i x y z =
     (if i < 16 then (x AND y) OR (NOT x AND z)
      else if i < 32 then (x AND z) OR (y AND NOT z)
      else if i < 48 then x XOR y XOR z
      else y XOR (x OR NOT z))"

definition rfc_k :: "nat \<Rightarrow> nat" where
  "rfc_k i = (if i < 16 then i else if i < 32 then (5 * i + 1) mod 16
     else if i < 48 then (3 * i + 5) mod 16 else (7 * i) mod 16)"

definition rfc_s :: "nat \<Rightarrow> nat" where
  "rfc_s i = [[7, 12, 17, 22], [5, 9, 14, 20], [4, 11, 16, 23], [6, 10, 15, 21]] ! (i div 16) ! (i mod 4)"

definition rfc_step :: "u32 list \<Rightarrow> nat \<Rightarrow> quad \<Rightarrow> quad" where
  "rfc_step m i = (\<lambda>(a, b, c, d).
     (d, b + word_rotl (rfc_s i) (a + rfc_f i b c d + m ! rfc_k i + rfc_T ! i), b, c))"

definition rfc_compress :: "quad \<Rightarrow> u32 list \<Rightarrow> quad" where
  "rfc_compress q m =
     (case q of (a0, b0, c0, d0) \<Rightarrow> case fold (rfc_step m) [0..<64] q of (a, b, c, d) \<Rightarrow>
        (a0 + a, b0 + b, c0 + c, d0 + d))"

fun rfc_blocks :: "quad \<Rightarrow> u32 list \<Rightarrow> quad" where
  "rfc_blocks q ws = (if length ws < 16 then q else rfc_blocks (rfc_compress q (take 16 ws)) (drop 16 ws))"

declare rfc_blocks.simps [simp del]

definition rfc_pad :: "u8 list \<Rightarrow> u8 list" where
  "rfc_pad msg = msg @ [0x80] @ replicate ((119 - length msg mod 64) mod 64) 0"

definition rfc_md5 :: "u8 list \<Rightarrow> u8 list" where
  "rfc_md5 msg =
     (let bits = word_of_nat (8 * length msg) :: u64;
          (a, b, c, d) = rfc_blocks (0x67452301, 0xefcdab89, 0x98badcfe, 0x10325476)
             (byteReverse (rfc_pad msg) @ [ucast bits, ucast (drop_bit 32 bits)])
      in bytes_of_word a @ bytes_of_word b @ bytes_of_word c @ bytes_of_word d)"

section \<open>The unrolled rounds\<close>

lemma rotl_shift:
  assumes "0 < s" "s < 32"
  shows "push_bit s w OR drop_bit (32 - s) w = word_rotl s (w :: u32)"
proof (rule bit_word_eqI)
  fix n assume n: "n < LENGTH(32)"
  show "bit (push_bit s w OR drop_bit (32 - s) w) n = bit (word_rotl s w) n"
  proof (cases "s \<le> n")
    case True
    with assms n have "(n + (32 - s)) mod 32 = n - s" by (simp add: mod_if) 
    with True n assms show ?thesis
      by (auto simp: bit_word_rotl_iff bit_or_iff bit_push_bit_iff bit_drop_bit_eq dest: bit_imp_le_length)
  next
    case False
    with assms n have "(n + (32 - s)) mod 32 = (32 - s) + n" by simp
    with False n assms show ?thesis
      by (simp add: bit_word_rotl_iff bit_or_iff bit_push_bit_iff bit_drop_bit_eq)
  qed
qed

lemma F_rfc:
  "i < 16 \<Longrightarrow> rfc_f i x y z = F1 x y z"
  "16 \<le> i \<Longrightarrow> i < 32 \<Longrightarrow> rfc_f i x y z = F2 x y z"
  "32 \<le> i \<Longrightarrow> i < 48 \<Longrightarrow> rfc_f i x y z = F3 x y z"
  "48 \<le> i \<Longrightarrow> rfc_f i x y z = F4 x y z"
  by (auto simp: rfc_f_def F1_def F2_def F3_def F4_def bit_simps intro!: bit_eqI)

lemma MD5STEP_rotl:
  "0 < s \<Longrightarrow> s < 32 \<Longrightarrow> MD5STEP f w x y z data s = x + word_rotl s (w + f x y z + data)"
  by (simp add: MD5STEP_def Let_def rotl_shift ac_simps)

lemma rfc_s_range: "i < 64 \<Longrightarrow> 0 < rfc_s i \<and> rfc_s i < 32"
proof -
  have "\<forall>i \<in> set [0..<64]. 0 < rfc_s i \<and> rfc_s i < 32" by code_simp
  then show "i < 64 \<Longrightarrow> 0 < rfc_s i \<and> rfc_s i < 32" by simp
qed

lemma rfc_step_code:
  assumes "i < 64" "\<And>x y z. rfc_f i x y z = f x y z" "m ! rfc_k i + rfc_T ! i = e" "rfc_s i = s"
  shows "fold (rfc_step m) (i # is) (a, b, c, d) =
    (let n = MD5STEP f a b c d e s in fold (rfc_step m) is (d, n, b, c))"
  using assms(2-) rfc_s_range [OF assms(1)]
  by (simp add: MD5STEP_rotl rfc_step_def Let_def ac_simps flip: assms(3))

lemma rfc_T_nth:
  shows "rfc_T ! 0 = 0xd76aa478"
    "rfc_T ! 1 = 0xe8c7b756"
    "rfc_T ! 2 = 0x242070db"
    "rfc_T ! 3 = 0xc1bdceee"
    "rfc_T ! 4 = 0xf57c0faf"
    "rfc_T ! 5 = 0x4787c62a"
    "rfc_T ! 6 = 0xa8304613"
    "rfc_T ! 7 = 0xfd469501"
    "rfc_T ! 8 = 0x698098d8"
    "rfc_T ! 9 = 0x8b44f7af"
    "rfc_T ! 10 = 0xffff5bb1"
    "rfc_T ! 11 = 0x895cd7be"
    "rfc_T ! 12 = 0x6b901122"
    "rfc_T ! 13 = 0xfd987193"
    "rfc_T ! 14 = 0xa679438e"
    "rfc_T ! 15 = 0x49b40821"
    "rfc_T ! 16 = 0xf61e2562"
    "rfc_T ! 17 = 0xc040b340"
    "rfc_T ! 18 = 0x265e5a51"
    "rfc_T ! 19 = 0xe9b6c7aa"
    "rfc_T ! 20 = 0xd62f105d"
    "rfc_T ! 21 = 0x02441453"
    "rfc_T ! 22 = 0xd8a1e681"
    "rfc_T ! 23 = 0xe7d3fbc8"
    "rfc_T ! 24 = 0x21e1cde6"
    "rfc_T ! 25 = 0xc33707d6"
    "rfc_T ! 26 = 0xf4d50d87"
    "rfc_T ! 27 = 0x455a14ed"
    "rfc_T ! 28 = 0xa9e3e905"
    "rfc_T ! 29 = 0xfcefa3f8"
    "rfc_T ! 30 = 0x676f02d9"
    "rfc_T ! 31 = 0x8d2a4c8a"
    "rfc_T ! 32 = 0xfffa3942"
    "rfc_T ! 33 = 0x8771f681"
    "rfc_T ! 34 = 0x6d9d6122"
    "rfc_T ! 35 = 0xfde5380c"
    "rfc_T ! 36 = 0xa4beea44"
    "rfc_T ! 37 = 0x4bdecfa9"
    "rfc_T ! 38 = 0xf6bb4b60"
    "rfc_T ! 39 = 0xbebfbc70"
    "rfc_T ! 40 = 0x289b7ec6"
    "rfc_T ! 41 = 0xeaa127fa"
    "rfc_T ! 42 = 0xd4ef3085"
    "rfc_T ! 43 = 0x04881d05"
    "rfc_T ! 44 = 0xd9d4d039"
    "rfc_T ! 45 = 0xe6db99e5"
    "rfc_T ! 46 = 0x1fa27cf8"
    "rfc_T ! 47 = 0xc4ac5665"
    "rfc_T ! 48 = 0xf4292244"
    "rfc_T ! 49 = 0x432aff97"
    "rfc_T ! 50 = 0xab9423a7"
    "rfc_T ! 51 = 0xfc93a039"
    "rfc_T ! 52 = 0x655b59c3"
    "rfc_T ! 53 = 0x8f0ccc92"
    "rfc_T ! 54 = 0xffeff47d"
    "rfc_T ! 55 = 0x85845dd1"
    "rfc_T ! 56 = 0x6fa87e4f"
    "rfc_T ! 57 = 0xfe2ce6e0"
    "rfc_T ! 58 = 0xa3014314"
    "rfc_T ! 59 = 0x4e0811a1"
    "rfc_T ! 60 = 0xf7537e82"
    "rfc_T ! 61 = 0xbd3af235"
    "rfc_T ! 62 = 0x2ad7d2bb"
    "rfc_T ! 63 = 0xeb86d391"
  by (simp_all add: rfc_T_def)

lemma rfc_k_nth:
  shows "rfc_k 0 = 0"
    "rfc_k 1 = 1"
    "rfc_k 2 = 2"
    "rfc_k 3 = 3"
    "rfc_k 4 = 4"
    "rfc_k 5 = 5"
    "rfc_k 6 = 6"
    "rfc_k 7 = 7"
    "rfc_k 8 = 8"
    "rfc_k 9 = 9"
    "rfc_k 10 = 10"
    "rfc_k 11 = 11"
    "rfc_k 12 = 12"
    "rfc_k 13 = 13"
    "rfc_k 14 = 14"
    "rfc_k 15 = 15"
    "rfc_k 16 = 1"
    "rfc_k 17 = 6"
    "rfc_k 18 = 11"
    "rfc_k 19 = 0"
    "rfc_k 20 = 5"
    "rfc_k 21 = 10"
    "rfc_k 22 = 15"
    "rfc_k 23 = 4"
    "rfc_k 24 = 9"
    "rfc_k 25 = 14"
    "rfc_k 26 = 3"
    "rfc_k 27 = 8"
    "rfc_k 28 = 13"
    "rfc_k 29 = 2"
    "rfc_k 30 = 7"
    "rfc_k 31 = 12"
    "rfc_k 32 = 5"
    "rfc_k 33 = 8"
    "rfc_k 34 = 11"
    "rfc_k 35 = 14"
    "rfc_k 36 = 1"
    "rfc_k 37 = 4"
    "rfc_k 38 = 7"
    "rfc_k 39 = 10"
    "rfc_k 40 = 13"
    "rfc_k 41 = 0"
    "rfc_k 42 = 3"
    "rfc_k 43 = 6"
    "rfc_k 44 = 9"
    "rfc_k 45 = 12"
    "rfc_k 46 = 15"
    "rfc_k 47 = 2"
    "rfc_k 48 = 0"
    "rfc_k 49 = 7"
    "rfc_k 50 = 14"
    "rfc_k 51 = 5"
    "rfc_k 52 = 12"
    "rfc_k 53 = 3"
    "rfc_k 54 = 10"
    "rfc_k 55 = 1"
    "rfc_k 56 = 8"
    "rfc_k 57 = 15"
    "rfc_k 58 = 6"
    "rfc_k 59 = 13"
    "rfc_k 60 = 4"
    "rfc_k 61 = 11"
    "rfc_k 62 = 2"
    "rfc_k 63 = 9"
  by (simp_all add: rfc_k_def)

lemma rfc_s_nth:
  shows "rfc_s 0 = 7"
    "rfc_s 1 = 12"
    "rfc_s 2 = 17"
    "rfc_s 3 = 22"
    "rfc_s 4 = 7"
    "rfc_s 5 = 12"
    "rfc_s 6 = 17"
    "rfc_s 7 = 22"
    "rfc_s 8 = 7"
    "rfc_s 9 = 12"
    "rfc_s 10 = 17"
    "rfc_s 11 = 22"
    "rfc_s 12 = 7"
    "rfc_s 13 = 12"
    "rfc_s 14 = 17"
    "rfc_s 15 = 22"
    "rfc_s 16 = 5"
    "rfc_s 17 = 9"
    "rfc_s 18 = 14"
    "rfc_s 19 = 20"
    "rfc_s 20 = 5"
    "rfc_s 21 = 9"
    "rfc_s 22 = 14"
    "rfc_s 23 = 20"
    "rfc_s 24 = 5"
    "rfc_s 25 = 9"
    "rfc_s 26 = 14"
    "rfc_s 27 = 20"
    "rfc_s 28 = 5"
    "rfc_s 29 = 9"
    "rfc_s 30 = 14"
    "rfc_s 31 = 20"
    "rfc_s 32 = 4"
    "rfc_s 33 = 11"
    "rfc_s 34 = 16"
    "rfc_s 35 = 23"
    "rfc_s 36 = 4"
    "rfc_s 37 = 11"
    "rfc_s 38 = 16"
    "rfc_s 39 = 23"
    "rfc_s 40 = 4"
    "rfc_s 41 = 11"
    "rfc_s 42 = 16"
    "rfc_s 43 = 23"
    "rfc_s 44 = 4"
    "rfc_s 45 = 11"
    "rfc_s 46 = 16"
    "rfc_s 47 = 23"
    "rfc_s 48 = 6"
    "rfc_s 49 = 10"
    "rfc_s 50 = 15"
    "rfc_s 51 = 21"
    "rfc_s 52 = 6"
    "rfc_s 53 = 10"
    "rfc_s 54 = 15"
    "rfc_s 55 = 21"
    "rfc_s 56 = 6"
    "rfc_s 57 = 10"
    "rfc_s 58 = 15"
    "rfc_s 59 = 21"
    "rfc_s 60 = 6"
    "rfc_s 61 = 10"
    "rfc_s 62 = 15"
    "rfc_s 63 = 21"
  by (simp_all add: rfc_s_def)

lemmas rfc_tables = rfc_T_nth rfc_k_nth rfc_s_nth

lemma rfc_step_round1:
  assumes "i < 16"
  shows "fold (rfc_step m) (i # is) (a, b, c, d) =
    (let n = MD5STEP F1 a b c d (m ! rfc_k i + rfc_T ! i) (rfc_s i)
     in fold (rfc_step m) is (d, n, b, c))"
  by (rule rfc_step_code) (use assms in \<open>simp_all add: F_rfc\<close>)

lemma rfc_step_round2:
  assumes "16 \<le> i" "i < 32"
  shows "fold (rfc_step m) (i # is) (a, b, c, d) =
    (let n = MD5STEP F2 a b c d (m ! rfc_k i + rfc_T ! i) (rfc_s i)
     in fold (rfc_step m) is (d, n, b, c))"
  by (rule rfc_step_code) (use assms in \<open>simp_all add: F_rfc\<close>)

lemma rfc_step_round3:
  assumes "32 \<le> i" "i < 48"
  shows "fold (rfc_step m) (i # is) (a, b, c, d) =
    (let n = MD5STEP F3 a b c d (m ! rfc_k i + rfc_T ! i) (rfc_s i)
     in fold (rfc_step m) is (d, n, b, c))"
  by (rule rfc_step_code) (use assms in \<open>simp_all add: F_rfc\<close>)

lemma rfc_step_round4:
  assumes "48 \<le> i" "i < 64"
  shows "fold (rfc_step m) (i # is) (a, b, c, d) =
    (let n = MD5STEP F4 a b c d (m ! rfc_k i + rfc_T ! i) (rfc_s i)
     in fold (rfc_step m) is (d, n, b, c))"
  by (rule rfc_step_code) (use assms in \<open>simp_all add: F_rfc\<close>)

lemma lt_16: "(0 :: nat) < 16" "(1 :: nat) < 16"
  by simp_all

lemma md5_round1_rfc: "md5_round1 m q = fold (rfc_step m) [0, 1, 2, 3, 4, 5, 6, 7, 8, 9, 10, 11, 12, 13, 14, 15] q"
  by (cases q) (simp only: md5_round1_def split_conv rfc_step_round1 rfc_tables fold_simps(1) numeral_less_iff numeral_le_iff le_num_simps less_num_simps lt_16 simp_thms)

lemma md5_round2_rfc: "md5_round2 m q = fold (rfc_step m) [16, 17, 18, 19, 20, 21, 22, 23, 24, 25, 26, 27, 28, 29, 30, 31] q"
  by (cases q) (simp only: md5_round2_def split_conv rfc_step_round2 rfc_tables fold_simps(1) numeral_less_iff numeral_le_iff le_num_simps less_num_simps lt_16 simp_thms)

lemma md5_round3_rfc: "md5_round3 m q = fold (rfc_step m) [32, 33, 34, 35, 36, 37, 38, 39, 40, 41, 42, 43, 44, 45, 46, 47] q"
  by (cases q) (simp only: md5_round3_def split_conv rfc_step_round3 rfc_tables fold_simps(1) numeral_less_iff numeral_le_iff le_num_simps less_num_simps lt_16 simp_thms)

lemma md5_round4_rfc: "md5_round4 m q = fold (rfc_step m) [48, 49, 50, 51, 52, 53, 54, 55, 56, 57, 58, 59, 60, 61, 62, 63] q"
  by (cases q) (simp only: md5_round4_def split_conv rfc_step_round4 rfc_tables fold_simps(1) numeral_less_iff numeral_le_iff le_num_simps less_num_simps lt_16 simp_thms)

lemma MD5Transform_rfc: "MD5Transform q m = rfc_compress q m"
proof -
  have "[0..<64] = [0, 1, 2, 3, 4, 5, 6, 7, 8, 9, 10, 11, 12, 13, 14, 15]
    @ [16, 17, 18, 19, 20, 21, 22, 23, 24, 25, 26, 27, 28, 29, 30, 31]
    @ [32, 33, 34, 35, 36, 37, 38, 39, 40, 41, 42, 43, 44, 45, 46, 47]
    @ [48, 49, 50, 51, 52, 53, 54, 55, 56, 57, 58, 59, 60, 61, 62, 63 :: nat]"
    by code_simp
  then have "fold (rfc_step m) [0..<64] q
    = md5_round4 m (md5_round3 m (md5_round2 m (md5_round1 m q)))"
    unfolding md5_round1_rfc md5_round2_rfc md5_round3_rfc md5_round4_rfc
    by (simp only: fold_append o_apply)
  then show ?thesis by (simp only: MD5Transform_def rfc_compress_def)
qed

section \<open>Blocks of a message\<close>

function md5_chunks :: "quad \<Rightarrow> u8 list \<Rightarrow> quad \<times> u8 list" where
  "md5_chunks q m =
     (if length m \<ge> 64 then md5_chunks (MD5Transform q (byteReverse (take 64 m))) (drop 64 m)
      else (q, m))"
  by pat_completeness auto
termination
  by (relation "measure (\<lambda>(q, m). length m)") auto

declare md5_chunks.simps [simp del]

lemma md5_chunks_short: "length m < 64 \<Longrightarrow> md5_chunks q m = (q, m)"
  by (subst md5_chunks.simps) simp

lemma md5_chunks_step:
  "length a = 64 \<Longrightarrow> md5_chunks q (a @ b) = md5_chunks (MD5Transform q (byteReverse a)) b"
  by (subst md5_chunks.simps) simp

lemma md5_chunks_rest: "length (snd (md5_chunks q m)) = length m mod 64"
proof (induction q m rule: md5_chunks.induct)
  case (1 q m)
  show ?case
  proof (cases "length m \<ge> 64")
    case True
    with 1 have "length (snd (md5_chunks q m)) = (length m - 64) mod 64"
      by (subst md5_chunks.simps) simp
    with True show ?thesis by (simp add: le_mod_geq)
  qed (simp add: md5_chunks_short)
qed

lemma md5_chunks_append:
  "md5_chunks q (a @ b) = (case md5_chunks q a of (q', r) \<Rightarrow> md5_chunks q' (r @ b))"
proof (induction q a rule: md5_chunks.induct)
  case (1 q a)
  show ?case
  proof (cases "length a \<ge> 64")
    case True
    have "md5_chunks q (a @ b) = md5_chunks q (take 64 a @ drop 64 a @ b)"
      by (simp add: append_assoc [symmetric] del: append_assoc)
    also have "\<dots> = md5_chunks (MD5Transform q (byteReverse (take 64 a))) (drop 64 a @ b)"
      using True by (simp add: md5_chunks_step)
    also have "\<dots> = (case md5_chunks q a of (q', r) \<Rightarrow> md5_chunks q' (r @ b))"
      using 1 True by (simp add: md5_chunks.simps [of q a])
    finally show ?thesis .
  qed (simp add: md5_chunks_short)
qed

lemma put_in_full: "length b = 64 \<Longrightarrow> length inb = 64 \<Longrightarrow> put_in inb 0 b = b"
  by (simp add: put_in_def)

lemma length_put_in: "n + length b \<le> length inb \<Longrightarrow> length (put_in inb n b) = length inb"
  by (simp add: put_in_def)

lemma take_put_in:
  "n + length b \<le> length inb \<Longrightarrow> take (n + length b) (put_in inb n b) = take n inb @ b"
  by (simp add: put_in_def)

lemma md5_update_loop_chunks:
  assumes "length inb = 64"
  shows "\<exists>inb'. md5_update_loop q inb buf = (fst (md5_chunks q buf), inb') \<and> length inb' = 64
    \<and> take (length (snd (md5_chunks q buf))) inb' = snd (md5_chunks q buf)"
  using assms
proof (induction q inb buf rule: md5_update_loop.induct)
  case (1 q inb buf)
  show ?case
  proof (cases "length buf \<ge> 64")
    case True
    with 1 show ?thesis
      by (simp add: put_in_full md5_update_loop.simps [of q inb buf] md5_chunks.simps [of q buf])
  next
    case False
    with 1 length_put_in [of 0 buf inb] take_put_in [of 0 buf inb] show ?thesis
      by (simp add: md5_update_loop.simps [of q inb buf] md5_chunks_short)
  qed
qed

section \<open>What a context represents\<close>

abbreviation md5_iv :: quad where
  "md5_iv \<equiv> (0x67452301, 0xefcdab89, 0x98badcfe, 0x10325476)"

definition represents :: "md5_context \<Rightarrow> u8 list \<Rightarrow> bool" where
  "represents c m \<longleftrightarrow> ctx_buf c = fst (md5_chunks md5_iv m) \<and> length (ctx_in c) = 64
     \<and> take (length m mod 64) (ctx_in c) = snd (md5_chunks md5_iv m)
     \<and> ctx_bits0 c = word_of_nat (8 * length m)
     \<and> ctx_bits1 c = word_of_nat (8 * length m div 4294967296)"

lemma represents_init: "length (ctx_in c) = 64 \<Longrightarrow> represents (MD5Init c) []"
  by (simp add: represents_def MD5Init_def md5_chunks_short)

lemma unat_and_63: "unat ((x :: u32) AND 63) = unat x mod 64"
proof -
  have e: "x AND 63 = take_bit 6 x" by (simp add: take_bit_eq_mask mask_eq_exp_minus_1)
  show ?thesis unfolding e unsigned_take_bit_eq by (simp add: take_bit_eq_mod)
qed

lemma unat_nat32: "unat (word_of_nat x :: u32) = x mod 4294967296"
  by (simp add: unat_of_nat)

lemma bits_count: "unat (drop_bit 3 (word_of_nat (8 * n) :: u32) AND 63) = n mod 64"
proof -
  have "unat (drop_bit 3 (word_of_nat (8 * n) :: u32)) = 8 * n mod 4294967296 div 8"
    unfolding unsigned_drop_bit_eq unat_nat32 by (simp add: drop_bit_eq_div take_bit_eq_mod)
  also have "\<dots> = n mod 536870912"
    using mult_mod_right [of 8 n 536870912] by simp
  finally show ?thesis by (simp add: unat_and_63 mod_mod_cancel)
qed

lemma bits_update:
  assumes "L < 4294967296"
  shows "(word_of_nat (8 * l) :: u32) + push_bit 3 (word_of_nat L) = word_of_nat (8 * (l + L))"
    and "(if (word_of_nat (8 * l) :: u32) + push_bit 3 (word_of_nat L) < word_of_nat (8 * l)
          then word_of_nat (8 * l div 4294967296) + 1 else word_of_nat (8 * l div 4294967296))
         + drop_bit 29 (word_of_nat L :: u32) = word_of_nat (8 * (l + L) div 4294967296)"
proof -
  have p: "push_bit 3 (word_of_nat L :: u32) = word_of_nat (8 * L)"
    by (simp add: push_bit_eq_mult)
  then show s: "(word_of_nat (8 * l) :: u32) + push_bit 3 (word_of_nat L) = word_of_nat (8 * (l + L))"
    by (simp add: distrib_left)
  let ?a = "8 * l mod 4294967296" and ?b = "8 * L mod 4294967296"
  have u: "8 * (l + L) mod 4294967296 = (?a + ?b) mod 4294967296"
    by (simp only: distrib_left mod_add_eq)
  have lt: "(word_of_nat (8 * (l + L)) < (word_of_nat (8 * l) :: u32)) = (?a + ?b \<ge> 4294967296)"
  proof -
    have "?a < 4294967296" "?b < 4294967296" by simp_all
    then have "((?a + ?b) mod 4294967296 < ?a) = (?a + ?b \<ge> 4294967296)"
      by (cases "?a + ?b \<ge> 4294967296") (simp_all add: le_mod_geq)
    then show ?thesis unfolding word_less_nat_alt unat_nat32 u .
  qed
  have d: "drop_bit 29 (word_of_nat L :: u32) = word_of_nat (8 * L div 4294967296)"
  proof -
    have "8 * L div 4294967296 = L div 536870912" by simp
    moreover have "unat (drop_bit 29 (word_of_nat L :: u32)) = L div 536870912"
      unfolding unsigned_drop_bit_eq unat_nat32 using assms
      by (simp add: drop_bit_eq_div take_bit_eq_mod)
    ultimately show ?thesis using assms unfolding word_unat_eq_iff unat_nat32 by simp
  qed
  have dv: "8 * (l + L) div 4294967296 = 8 * l div 4294967296 + 8 * L div 4294967296
      + (if ?a + ?b \<ge> 4294967296 then 1 else 0)"
  proof -
    have "(?a + ?b) div 4294967296 = (if ?a + ?b \<ge> 4294967296 then 1 else 0)"
      using mod_less_divisor [of 4294967296 "8 * l"] mod_less_divisor [of 4294967296 "8 * L"]
      by (auto simp: div_if)
    then show ?thesis by (simp only: distrib_left div_add1_eq [of "8 * l" "8 * L"])
  qed
  show "(if (word_of_nat (8 * l) :: u32) + push_bit 3 (word_of_nat L) < word_of_nat (8 * l)
          then word_of_nat (8 * l div 4294967296) + 1 else word_of_nat (8 * l div 4294967296))
         + drop_bit 29 (word_of_nat L :: u32) = word_of_nat (8 * (l + L) div 4294967296)"
    unfolding s lt d dv by simp
qed

section \<open>The operations keep the representation\<close>

lemma MD5Update_bits_code:
  "ctx_bits0 (MD5Update c b) = ctx_bits0 c + push_bit 3 (word_of_nat (length b))"
  "ctx_bits1 (MD5Update c b) =
     (if ctx_bits0 c + push_bit 3 (word_of_nat (length b)) < ctx_bits0 c
      then ctx_bits1 c + 1 else ctx_bits1 c) + drop_bit 29 (word_of_nat (length b))"
  unfolding MD5Update_def Let_def by (simp_all split: prod.split)

lemma MD5Update_bits:
  assumes rep: "represents c m" and len: "length b < 4294967296"
  shows "ctx_bits0 (MD5Update c b) = word_of_nat (8 * length (m @ b))"
    and "ctx_bits1 (MD5Update c b) = word_of_nat (8 * length (m @ b) div 4294967296)"
proof -
  from rep have c: "ctx_bits0 c = word_of_nat (8 * length m)"
    "ctx_bits1 c = word_of_nat (8 * length m div 4294967296)" by (simp_all add: represents_def)
  show "ctx_bits0 (MD5Update c b) = word_of_nat (8 * length (m @ b))"
    and "ctx_bits1 (MD5Update c b) = word_of_nat (8 * length (m @ b) div 4294967296)"
    unfolding MD5Update_bits_code c length_append by (rule bits_update [OF len])+
qed

lemma MD5Update_represents:
  assumes rep: "represents c m" and len: "length b < 4294967296"
  shows "represents (MD5Update c b) (m @ b)"
proof -
  obtain q r where ch: "md5_chunks md5_iv m = (q, r)" by (cases "md5_chunks md5_iv m")
  let ?t = "length m mod 64"
  have r: "length r = ?t" using md5_chunks_rest [of md5_iv m] ch by simp
  from rep ch have c: "ctx_buf c = q" "length (ctx_in c) = 64" "take ?t (ctx_in c) = r"
    "ctx_bits0 c = word_of_nat (8 * length m)"
    by (auto simp: represents_def)
  have t: "unat (drop_bit 3 (ctx_bits0 c) AND 63) = ?t" unfolding c(4) by (rule bits_count)
  have app: "md5_chunks md5_iv (m @ b) = md5_chunks q (r @ b)"
    using md5_chunks_append [of md5_iv m b] ch by simp
  have rest: "length (m @ b) mod 64 = length (snd (md5_chunks q (r @ b)))"
    using md5_chunks_rest [of md5_iv "m @ b"] app by simp
  have "ctx_buf (MD5Update c b) = fst (md5_chunks q (r @ b)) \<and> length (ctx_in (MD5Update c b)) = 64
    \<and> take (length (snd (md5_chunks q (r @ b)))) (ctx_in (MD5Update c b)) = snd (md5_chunks q (r @ b))"
  proof (cases "?t = 0")
    case True
    with r have "r = []" by simp
    with True c(1,2) t md5_update_loop_chunks [of "ctx_in c" q b] show ?thesis
      by (auto simp: MD5Update_def Let_def)
  next
    case False
    show ?thesis
    proof (cases "length b < 64 - ?t")
      case True
      with r have "length (r @ b) < 64" by simp
      with True False c t r length_put_in [of ?t b "ctx_in c"] take_put_in [of ?t b "ctx_in c"]
      show ?thesis by (simp add: MD5Update_def Let_def md5_chunks_short)
    next
      case ge: False
      let ?h = "take (64 - ?t) b"
      have lh: "?t + length ?h = 64" using ge by simp
      from lh take_put_in [of ?t ?h "ctx_in c"] length_put_in [of ?t ?h "ctx_in c"] c
      have pi: "put_in (ctx_in c) ?t ?h = r @ ?h" by simp
      have ch2: "md5_chunks q (r @ b) =
          md5_chunks (MD5Transform q (byteReverse (r @ ?h))) (drop (64 - ?t) b)"
        using md5_chunks_step [of "r @ ?h" q "drop (64 - ?t) b"] lh r by simp
      have "length (r @ ?h) = 64" using lh r by simp
      from md5_update_loop_chunks [OF this, of "MD5Transform q (byteReverse (r @ ?h))"
          "drop (64 - ?t) b"] False ge c t pi ch2
      show ?thesis by (auto simp: MD5Update_def Let_def)
    qed
  qed
  with app rest MD5Update_bits [OF rep len] show ?thesis by (simp add: represents_def)
qed

lemma length_byteReverse: "length (byteReverse bs) = length bs div 4"
  by (induction bs rule: byteReverse.induct) auto

lemma byteReverse_append:
  "length a mod 4 = 0 \<Longrightarrow> byteReverse (a @ b) = byteReverse a @ byteReverse b"
  by (induction a rule: byteReverse.induct) auto

lemma rfc_blocks_chunks:
  "rfc_blocks q (byteReverse m @ ws) =
    (case md5_chunks q m of (q', r) \<Rightarrow> rfc_blocks q' (byteReverse r @ ws))"
proof (induction q m rule: md5_chunks.induct)
  case (1 q m)
  show ?case
  proof (cases "length m \<ge> 64")
    case True
    let ?a = "byteReverse (take 64 m)" and ?b = "byteReverse (drop 64 m) @ ws"
    have "byteReverse m = ?a @ byteReverse (drop 64 m)"
      using byteReverse_append [of "take 64 m" "drop 64 m"] True by simp
    moreover have l: "length ?a = 16" using True by (simp add: length_byteReverse)
    moreover have "rfc_blocks q (?a @ ?b) = rfc_blocks (rfc_compress q ?a) ?b"
      using l by (subst rfc_blocks.simps) simp
    ultimately have "rfc_blocks q (byteReverse m @ ws) = rfc_blocks (rfc_compress q ?a) ?b" by simp
    with 1 True show ?thesis
      by (simp add: MD5Transform_rfc md5_chunks.simps [of q m])
  qed (simp add: md5_chunks_short)
qed

lemma rfc_blocks_one: "length ws = 16 \<Longrightarrow> rfc_blocks q ws = rfc_compress q ws"
  by (subst rfc_blocks.simps, simp, subst rfc_blocks.simps, simp)

lemma rfc_bits:
  "ucast (word_of_nat n :: u64) = (word_of_nat n :: u32)"
  "ucast (drop_bit 32 (word_of_nat n :: u64)) = (word_of_nat (n div 4294967296) :: u32)"
proof -
  have e: "unat (word_of_nat n :: u64) = n mod 18446744073709551616" by (simp add: unat_of_nat)
  show "ucast (word_of_nat n :: u64) = (word_of_nat n :: u32)"
    unfolding word_unat_eq_iff unsigned_ucast_eq e unat_nat32
    by (simp add: take_bit_eq_mod mod_mod_cancel)
  have "n mod 18446744073709551616 div 4294967296 = n div 4294967296 mod 4294967296"
    using div_mult2_eq mod_mult2_eq [of n 4294967296 4294967296] by simp
  then show "ucast (drop_bit 32 (word_of_nat n :: u64)) = (word_of_nat (n div 4294967296) :: u32)"
    unfolding word_unat_eq_iff unsigned_ucast_eq unsigned_drop_bit_eq e unat_nat32
    by (simp add: take_bit_eq_mod drop_bit_eq_div)
qed

lemma MD5Final_rfc:
  assumes rep: "represents c m"
  shows "MD5Final c = rfc_md5 m"
proof -
  obtain q r where ch: "md5_chunks md5_iv m = (q, r)" by (cases "md5_chunks md5_iv m")
  let ?t = "length m mod 64" and ?w = "[ctx_bits0 c, ctx_bits1 c]"
  have r: "length r = ?t" using md5_chunks_rest [of md5_iv m] ch by simp
  from rep ch have c: "ctx_buf c = q" "length (ctx_in c) = 64" "take ?t (ctx_in c) = r"
    "ctx_bits0 c = word_of_nat (8 * length m)" "ctx_bits1 c = word_of_nat (8 * length m div 4294967296)"
    by (auto simp: represents_def)
  have t: "unat (drop_bit 3 (ctx_bits0 c) AND 63) = ?t" unfolding c(4) by (rule bits_count)
  have lt: "?t < 64" by simp
  have n63: "64 - 1 - ?t = 63 - ?t" by simp
  let ?i1 = "put_in (ctx_in c) ?t [0x80]"
  have i1: "length ?i1 = 64" "take (?t + 1) ?i1 = r @ [0x80]"
    using length_put_in [of ?t "[0x80]" "ctx_in c"] take_put_in [of ?t "[0x80]" "ctx_in c"] c lt
    by simp_all
  have dig: "rfc_blocks md5_iv (byteReverse (rfc_pad m) @ ?w) =
    (case md5_chunks q (r @ [0x80] @ replicate ((119 - ?t) mod 64) 0) of (q', s) \<Rightarrow>
       rfc_blocks q' (byteReverse s @ ?w))"
    using rfc_blocks_chunks [of md5_iv "rfc_pad m" ?w] md5_chunks_append [of md5_iv m] ch
    by (simp add: rfc_pad_def)
  show ?thesis
  proof (cases "63 - ?t < 8")
    case True
    let ?z = "63 - ?t"
    have b: "put_in ?i1 (?t + 1) (replicate ?z 0) = r @ [0x80] @ replicate ?z 0"
      using take_put_in [of "?t + 1" "replicate ?z 0" ?i1] length_put_in [of "?t + 1" "replicate ?z 0" ?i1]
        i1 lt by simp
    have "(119 - ?t) mod 64 = ?z + 56" using True lt by simp
    then have e: "r @ [0x80] @ replicate ((119 - ?t) mod 64) (0 :: u8)
        = (r @ [0x80] @ replicate ?z 0) @ replicate 56 0"
      by (simp only: replicate_add append_assoc)
    have l: "length (r @ [0x80] @ replicate ?z (0 :: u8)) = 64" using r lt by simp
    let ?q' = "MD5Transform q (byteReverse (r @ [0x80] @ replicate ?z 0))"
    have "md5_chunks q (r @ [0x80] @ replicate ((119 - ?t) mod 64) 0) = (?q', replicate 56 0)"
      unfolding e md5_chunks_step [OF l] by (rule md5_chunks_short) simp
    then have d: "rfc_blocks md5_iv (byteReverse (rfc_pad m) @ ?w) =
        MD5Transform ?q' (byteReverse (replicate 56 0) @ ?w)"
      unfolding dig by (simp add: rfc_blocks_one length_byteReverse MD5Transform_rfc)
    have z: "take 56 (put_in (r @ [0x80] @ replicate ?z 0) 0 (replicate 56 0)) = replicate 56 0"
      by (simp add: put_in_def)
    show ?thesis
      using True d unfolding MD5Final_def rfc_md5_def Let_def t n63 c(1) b rfc_bits
      by (simp only: if_True split_conv prod.case z c(4,5))
  next
    case False
    let ?z = "55 - ?t"
    have "119 - ?t = ?z + 64" using False by simp
    then have z: "63 - ?t - 8 = ?z" "(119 - ?t) mod 64 = ?z" by (simp_all only: mod_add_self2) simp_all
    have b: "take 56 (put_in ?i1 (?t + 1) (replicate ?z 0)) = r @ [0x80] @ replicate ?z 0"
      using take_put_in [of "?t + 1" "replicate ?z 0" ?i1] i1 False by simp
    have l: "length (r @ [0x80] @ replicate ?z (0 :: u8)) = 56" using r False by simp
    then have "md5_chunks q (r @ [0x80] @ replicate ?z 0) = (q, r @ [0x80] @ replicate ?z 0)"
      by (simp add: md5_chunks_short)
    then have d: "rfc_blocks md5_iv (byteReverse (rfc_pad m) @ ?w) =
        MD5Transform q (byteReverse (r @ [0x80] @ replicate ?z 0) @ ?w)"
      unfolding dig z using l by (simp add: rfc_blocks_one length_byteReverse MD5Transform_rfc)
    show ?thesis
      using False d unfolding MD5Final_def rfc_md5_def Let_def t n63 c(1) rfc_bits
      by (simp only: if_False split_conv prod.case z b c(4,5))
  qed
qed


text \<open>The same for other theories: the digest, and its length.\<close>

lemma md5_eq_rfc:
  "length (ctx_in c) = 64 \<Longrightarrow> length msg < 2147483648 \<Longrightarrow> md5 c msg = rfc_md5 msg"
  unfolding md5_def
  using MD5Final_rfc [OF MD5Update_represents [OF represents_init], of c msg]
  by simp

lemma length_rfc_md5 [simp]: "length (rfc_md5 msg) = 16"
  by (simp add: rfc_md5_def bytes_of_word_def Let_def split: prod.splits)

section \<open>Properties\<close>

text \<open>C23: \<open>md5\<close> computes the MD5 digest as RFC 1321 defines it, for every message of a length
  its \<open>int\<close> argument can hold and whatever bytes the uninitialised context holds.\<close>

theorem md5_is_rfc1321:
  assumes "length (ctx_in c) = 64" "length msg < 2147483648"
  shows "md5 c msg = rfc_md5 msg"
  using assms by (rule md5_eq_rfc)

theorem md5_is_rfc1321_witness:
  "let c = \<lparr>ctx_buf = (1, 2, 3, 4), ctx_bits0 = 5, ctx_bits1 = 6, ctx_in = replicate 64 7\<rparr>
   in length (ctx_in c) = 64 \<and> md5 c [97, 98, 99] = rfc_md5 [97, 98, 99]"
  using md5_is_rfc1321 [of "\<lparr>ctx_buf = (1, 2, 3, 4), ctx_bits0 = 5, ctx_bits1 = 6,
    ctx_in = replicate 64 7\<rparr>" "[97, 98, 99]"]
  by (simp add: Let_def)

text \<open>Feeding a message in pieces to \<open>MD5Update\<close> gives the digest of the whole message,
  for any context that represents what it has been fed, which an initialised one does.\<close>

theorem md5_incremental:
  assumes "represents c m" "length a + length b < 4294967296"
  shows "MD5Final (MD5Update (MD5Update c a) b) = MD5Final (MD5Update c (a @ b))"
proof -
  from assms(2) have la: "length a < 4294967296" and lb: "length b < 4294967296"
    and lab: "length (a @ b) < 4294967296" by simp_all
  from MD5Update_represents [OF MD5Update_represents [OF assms(1) la] lb]
    MD5Update_represents [OF assms(1) lab]
  show ?thesis by (simp add: MD5Final_rfc)
qed

theorem md5_incremental_witness:
  "let c = MD5Init \<lparr>ctx_buf = (1, 2, 3, 4), ctx_bits0 = 5, ctx_bits1 = 6, ctx_in = replicate 64 7\<rparr>
   in represents c [] \<and> MD5Final (MD5Update (MD5Update c [97]) [98, 99]) = MD5Final (MD5Update c [97, 98, 99])"
proof -
  let ?c = "MD5Init \<lparr>ctx_buf = (1, 2, 3, 4), ctx_bits0 = 5, ctx_bits1 = 6, ctx_in = replicate 64 7\<rparr>"
  have r: "represents ?c []" by (rule represents_init) simp
  from md5_incremental [OF r, of "[97]" "[98, 99]"] r show ?thesis by (simp add: Let_def)
qed

end
