(* ===== verification/Ubx_Typereg.thy ===== *)
theory Ubx_Typereg
  imports Ubx_Ut Ubx_MD5
begin

text \<open>
  The type registry of a node, the functions \<open>ubx_type_*\<close> of \<^verbatim>\<open>libubx/ubx.c\<close>:
  registration (which fingerprints the name with MD5), removal, lookup by name, by binary hash and
  by hash string. The registry invariant says that the table maps every name to the one live type of
  this name, that fingerprints are the RFC 1321 digests of the names, and that the sequence
  numbers increase in registration order.
\<close>

section \<open>Logging to a node\<close>

text \<open>\<open>ubx_log(level, nd, ...)\<close> evaluates its arguments only when the node's level admits the
  message; \<open>ok\<close> says whether that evaluation is defined.\<close>

definition UBX_LOGLEVEL_WARN :: int where "UBX_LOGLEVEL_WARN = 4"

definition nd_log :: "int \<Rightarrow> 'w ubx \<Rightarrow> bool \<Rightarrow> unit option" where
  "nd_log level s ok = (if level \<le> nd_loglevel s \<and> \<not> ok then None else Some ())"

lemma nd_log_ok [simp]: "nd_log level s True = Some ()"
  by (simp add: nd_log_def)

section \<open>Operations\<close>

definition bytes_of_string :: "string \<Rightarrow> u8 list" where
  "bytes_of_string = map of_char"

text \<open>The context of \<open>md5\<close> is an uninitialised local; \<open>md5_eq_rfc\<close> shows its content is
  irrelevant.\<close>

definition md5_local :: md5_context where
  "md5_local = \<lparr>ctx_buf = (0, 0, 0, 0), ctx_bits0 = 0, ctx_bits1 = 0, ctx_in = replicate 64 0\<rparr>"

definition ubx_type_register :: "ut_lib \<Rightarrow> ptr \<Rightarrow> 'w ubx \<Rightarrow> (int \<times> 'w ubx) option" where
  "ubx_type_register U type s =
     (case type of
        None \<Rightarrow> Some (EINVALID_TYPE, s)
      | Some a \<Rightarrow> do {
          t \<leftarrow> typs s a;
          case t_name t of
            None \<Rightarrow> Some (EINVALID_TYPE, s)
          | Some n \<Rightarrow>
              if length n > UBX_TYPE_NAME_MAXLEN then Some (EINVALID_TYPE, s)
              else (case ut_find U (nd_types s) n of
                  Some tmp \<Rightarrow> do {
                    _ \<leftarrow> nd_log UBX_LOGLEVEL_WARN s (typs s tmp \<noteq> None);
                    Some (EALREADY_REGISTERED, s) }
                | None \<Rightarrow>
                    Some (0, s\<lparr>nd_cur_seqid := nd_cur_seqid s + 1,
                      typs := (typs s)(a \<mapsto> t\<lparr>t_seqid := nd_cur_seqid s, t_nd := True,
                                t_hash := md5 md5_local (bytes_of_string n)\<rparr>),
                      nd_types := ut_add U (nd_types s) n a\<rparr>))
        })"

definition ubx_type_unregister :: "ut_lib \<Rightarrow> string \<Rightarrow> 'w ubx \<Rightarrow> ptr \<times> 'w ubx" where
  "ubx_type_unregister U name s =
     (case ut_find U (nd_types s) name of
        None \<Rightarrow> (None, s)
      | Some a \<Rightarrow> (Some a, s\<lparr>nd_types := ut_del U (nd_types s) a\<rparr>))"

definition ubx_type_get :: "ut_lib \<Rightarrow> 'w ubx \<Rightarrow> string option \<Rightarrow> ptr" where
  "ubx_type_get U s name = (case name of None \<Rightarrow> None | Some n \<Rightarrow> ut_find U (nd_types s) n)"

text \<open>\<open>strncmp\<close> on the binary hashes: it stops at the first byte that is NUL in both.\<close>

fun strncmp_eq0 :: "u8 list \<Rightarrow> u8 list \<Rightarrow> nat \<Rightarrow> bool" where
  "strncmp_eq0 xs ys 0 \<longleftrightarrow> True"
| "strncmp_eq0 (x # xs) (y # ys) (Suc n) \<longleftrightarrow> x = y \<and> (x = 0 \<or> strncmp_eq0 xs ys n)"
| "strncmp_eq0 _ _ (Suc n) \<longleftrightarrow> False"

fun type_by_hash_loop :: "'w ubx \<Rightarrow> htab \<Rightarrow> u8 list \<Rightarrow> ptr option" where
  "type_by_hash_loop s [] hash = Some None"
| "type_by_hash_loop s (e # es) hash = do {
     t \<leftarrow> typs s (snd e);
     if strncmp_eq0 (t_hash t) hash UBX_TYPE_HASH_LEN then Some (Some (snd e))
     else type_by_hash_loop s es hash }"

definition ubx_type_get_by_hash :: "'w ubx \<Rightarrow> u8 list \<Rightarrow> ptr option" where
  "ubx_type_get_by_hash s hash = type_by_hash_loop s (nd_types s) hash"

text \<open>\<open>strtoul(s, NULL, 16)\<close> of the C library: leading white space, a sign, an optional
  \<open>0x\<close> before a digit, then the longest run of hexadecimal digits; a value out of range is
  \<open>ULONG_MAX\<close>, and a minus sign negates in the unsigned type.\<close>

definition hexval :: "char \<Rightarrow> nat option" where
  "hexval c = (let n = of_char c :: nat in
     if 48 \<le> n \<and> n \<le> 57 then Some (n - 48)
     else if 97 \<le> n \<and> n \<le> 102 then Some (n - 87)
     else if 65 \<le> n \<and> n \<le> 70 then Some (n - 55) else None)"

fun hex_digits :: "nat \<Rightarrow> string \<Rightarrow> nat" where
  "hex_digits acc [] = acc"
| "hex_digits acc (c # cs) = (case hexval c of None \<Rightarrow> acc | Some d \<Rightarrow> hex_digits (16 * acc + d) cs)"

definition isspace :: "char \<Rightarrow> bool" where
  "isspace c = (let n = of_char c :: nat in n = 32 \<or> 9 \<le> n \<and> n \<le> 13)"

definition skip_0x :: "string \<Rightarrow> string" where
  "skip_0x cs = (case cs of
       c0 # c1 # c2 # r \<Rightarrow>
         if c0 = CHR ''0'' \<and> (c1 = CHR ''x'' \<or> c1 = CHR ''X'') \<and> hexval c2 \<noteq> None then c2 # r else cs
     | _ \<Rightarrow> cs)"

definition strtoul16 :: "string \<Rightarrow> u64" where
  "strtoul16 str =
     (let cs = dropWhile isspace str;
          neg = (cs \<noteq> [] \<and> hd cs = CHR ''-'');
          cs = (if cs \<noteq> [] \<and> (hd cs = CHR ''-'' \<or> hd cs = CHR ''+'') then tl cs else cs);
          v = hex_digits 0 (skip_0x cs)
      in if v \<ge> 2 ^ 64 then - 1 else if neg then - word_of_nat v else word_of_nat v)"

fun hash_of_str :: "nat \<Rightarrow> string \<Rightarrow> u8 list" where
  "hash_of_str (Suc n) (c0 # c1 # cs) = ucast (strtoul16 [c0, c1]) # hash_of_str n cs"
| "hash_of_str _ _ = []"

definition ubx_type_get_by_hashstr :: "'w ubx \<Rightarrow> string \<Rightarrow> ptr option" where
  "ubx_type_get_by_hashstr s hashstr =
     (if length hashstr \<noteq> UBX_TYPE_HASHSTR_LEN then Some None
      else ubx_type_get_by_hash s (hash_of_str UBX_TYPE_HASH_LEN hashstr @ [0]))"

text \<open>\<open>sprintf("%02x")\<close>\<close>

definition hexchar :: "nat \<Rightarrow> char" where
  "hexchar n = char_of (if n < 10 then n + 48 else n + 87)"

definition sprintf_02x :: "u8 \<Rightarrow> string" where
  "sprintf_02x b = [hexchar (unat b div 16), hexchar (unat b mod 16)]"

definition ubx_type_hashstr :: "ubx_type \<Rightarrow> string" where
  "ubx_type_hashstr t = concat (map sprintf_02x (t_hash t))"

section \<open>The registry invariant\<close>

definition type_entry_ok :: "(addr \<Rightarrow> ubx_type option) \<Rightarrow> string \<times> addr \<Rightarrow> bool" where
  "type_entry_ok ty e \<longleftrightarrow>
     (case ty (snd e) of None \<Rightarrow> False
      | Some t \<Rightarrow> t_name t = Some (fst e) \<and> length (fst e) \<le> UBX_TYPE_NAME_MAXLEN \<and> t_nd t
                 \<and> t_hash t = rfc_md5 (bytes_of_string (fst e)))"

definition seqid_of :: "(addr \<Rightarrow> ubx_type option) \<Rightarrow> addr \<Rightarrow> u64" where
  "seqid_of ty a = (case ty a of None \<Rightarrow> 0 | Some t \<Rightarrow> t_seqid t)"

definition types_ok :: "htab \<Rightarrow> (addr \<Rightarrow> ubx_type option) \<Rightarrow> u64 \<Rightarrow> bool" where
  "types_ok tab ty seq \<longleftrightarrow> htab_ok tab \<and> list_all (type_entry_ok ty) tab
     \<and> sorted_wrt (<) (map (seqid_of ty) (elems tab))
     \<and> list_all (\<lambda>a. seqid_of ty a < seq) (elems tab)"

lemma types_okD:
  assumes "types_ok tab ty seq"
  shows "htab_ok tab" "(k, a) \<in> set tab \<Longrightarrow> \<exists>t. ty a = Some t \<and> t_name t = Some k \<and> length k \<le> 63
      \<and> t_hash t = rfc_md5 (bytes_of_string k)"
  using assms
  by (auto simp: types_ok_def list_all_iff type_entry_ok_def UBX_TYPE_NAME_MAXLEN_def
      split: option.splits)

lemma types_ok_Nil [simp]: "types_ok [] ty seq"
  by (simp add: types_ok_def)

lemma types_ok_filter:
  assumes "types_ok tab ty seq"
  shows "types_ok (filter P tab) ty seq"
proof -
  from assms have "sorted_wrt (<) (map (\<lambda>e. seqid_of ty (snd e)) tab)"
    by (simp add: types_ok_def elems_def comp_def)
  then have "sorted_wrt (<) (map (\<lambda>e. seqid_of ty (snd e)) (filter P tab))"
    by (simp add: sorted_wrt_map sorted_wrt_filter)
  with assms show ?thesis
    by (auto simp: types_ok_def list_all_iff elems_def comp_def)
qed

text \<open>A type that is not in the table may change: its name would be in the table.\<close>

lemma seqid_of_upd [simp]: "seqid_of (ty(a \<mapsto> t)) b = (if b = a then t_seqid t else seqid_of ty b)"
  by (simp add: seqid_of_def)

lemma less_succ_word:
  assumes "(x :: u64) \<noteq> - 1"
  shows "x < x + 1"
proof -
  have "x \<noteq> - 1 \<longleftrightarrow> unat x \<noteq> 18446744073709551615"
    by (simp add: word_unat_eq_iff unsigned_minus_1_eq_mask mask_eq_exp_minus_1)
  moreover have "unat x < 18446744073709551616" using unsigned_less [of x] by simp
  ultimately show ?thesis using assms
    by (simp add: word_less_nat_alt unat_word_ariths)
qed

lemma types_ok_snoc:
  assumes ok: "types_ok tab ty seq" and k: "k \<notin> set (keys tab)" and a: "a \<notin> set (elems tab)"
    and t: "t_name t = Some k" "length k \<le> 63" "t_nd t" "t_hash t = rfc_md5 (bytes_of_string k)" "t_seqid t = seq"
    and seq: "seq \<noteq> - 1"
  shows "types_ok (tab @ [(k, a)]) (ty(a \<mapsto> t)) (seq + 1)"
proof -
  have lt: "seq < seq + 1" by (rule less_succ_word [OF seq])
  from a have e: "e \<in> set tab \<Longrightarrow> snd e \<noteq> a" for e by (auto simp: elems_def)
  from ok have "list_all (type_entry_ok (ty(a \<mapsto> t))) tab"
    by (auto simp: types_ok_def list_all_iff type_entry_ok_def dest: e split: option.splits)
  moreover have "map (seqid_of (ty(a \<mapsto> t))) (elems tab) = map (seqid_of ty) (elems tab)"
    using a by (intro map_cong) auto
  then have "sorted_wrt (<) (map (seqid_of (ty(a \<mapsto> t))) (elems tab))"
    using ok by (simp only: types_ok_def)
  moreover from ok lt have "list_all (\<lambda>b. seqid_of (ty(a \<mapsto> t)) b < seq + 1) (elems tab)"
    using a by (auto simp: types_ok_def list_all_iff)
  ultimately show ?thesis using ok k a t lt
    by (auto simp: types_ok_def type_entry_ok_def sorted_wrt_append UBX_TYPE_NAME_MAXLEN_def list_all_iff)
qed

text \<open>The type a node may be given: not in the table under another name.\<close>

lemma types_ok_elem_name:
  assumes "types_ok tab ty seq" "ty a = Some t" "t_name t = Some n" "n \<notin> set (keys tab)"
  shows "a \<notin> set (elems tab)"
proof
  assume "a \<in> set (elems tab)"
  then obtain k where k: "(k, a) \<in> set tab" by (auto simp: elems_def)
  with types_okD(2) [OF assms(1) k] assms(2,3) have "k = n" by auto
  with k assms(4) show False by (force simp: keys_def)
qed

lemma length_bytes_of_string [simp]: "length (bytes_of_string n) = length n"
  by (simp add: bytes_of_string_def)

lemma md5_local_rfc: "length n \<le> 63 \<Longrightarrow> md5 md5_local (bytes_of_string n) = rfc_md5 (bytes_of_string n)"
  by (rule md5_eq_rfc) (simp_all add: md5_local_def)

section \<open>Correctness of the operations\<close>

context ut_laws
begin

lemma type_get_iff:
  "types_ok (nd_types s) ty q \<Longrightarrow> ubx_type_get U s (Some n) = Some a \<longleftrightarrow> (n, a) \<in> set (nd_types s)"
  by (simp add: ubx_type_get_def find_iff types_ok_def)

lemma register_spec:
  assumes ok: "types_ok (nd_types s) (typs s) (nd_cur_seqid s)"
    and t: "typs s a = Some t" "t_name t = Some n"
  shows "ubx_type_register U (Some a) s =
    (if length n > 63 then Some (EINVALID_TYPE, s)
     else if n \<in> set (keys (nd_types s)) then Some (EALREADY_REGISTERED, s)
     else Some (0, s\<lparr>nd_cur_seqid := nd_cur_seqid s + 1,
            typs := (typs s)(a \<mapsto> t\<lparr>t_seqid := nd_cur_seqid s, t_nd := True,
                                  t_hash := rfc_md5 (bytes_of_string n)\<rparr>),
            nd_types := nd_types s @ [(n, a)]\<rparr>))"
proof -
  note h = types_okD(1) [OF ok]
  show ?thesis
  proof (cases "ut_find U (nd_types s) n")
    case None
    then have k: "n \<notin> set (keys (nd_types s))" using h by (simp add: find_None)
    from types_ok_elem_name [OF ok t k] have a: "a \<notin> set (elems (nd_types s))" .
    show ?thesis using None k t add_law [OF h k a]
      by (simp add: ubx_type_register_def UBX_TYPE_NAME_MAXLEN_def md5_local_rfc)
  next
    case (Some tmp)
    then have m: "(n, tmp) \<in> set (nd_types s)" using h by (simp add: find_iff)
    then have k: "n \<in> set (keys (nd_types s))" by (force simp: keys_def)
    from types_okD(2) [OF ok m] obtain t' where "typs s tmp = Some t'" by blast
    with Some k t show ?thesis
      by (simp add: ubx_type_register_def UBX_TYPE_NAME_MAXLEN_def)
  qed
qed

lemma register_ok:
  assumes ok: "types_ok (nd_types s) (typs s) (nd_cur_seqid s)" and seq: "nd_cur_seqid s \<noteq> - 1"
    and r: "ubx_type_register U (Some a) s = Some (r, s')"
  shows "types_ok (nd_types s') (typs s') (nd_cur_seqid s')"
proof -
  from r obtain t where t: "typs s a = Some t" by (auto simp: ubx_type_register_def)
  show ?thesis
  proof (cases "t_name t")
    case None
    with r t ok show ?thesis by (auto simp: ubx_type_register_def)
  next
    case (Some n)
    note e = register_spec [OF ok t Some]
    consider "s' = s" | "length n \<le> 63" "n \<notin> set (keys (nd_types s))"
      "s' = s\<lparr>nd_cur_seqid := nd_cur_seqid s + 1,
            typs := (typs s)(a \<mapsto> t\<lparr>t_seqid := nd_cur_seqid s, t_nd := True,
                                  t_hash := rfc_md5 (bytes_of_string n)\<rparr>),
            nd_types := nd_types s @ [(n, a)]\<rparr>"
      using r e by (auto split: if_splits)
    then show ?thesis
    proof cases
      case 2
      from types_ok_elem_name [OF ok t Some 2(2)] have "a \<notin> set (elems (nd_types s))" .
      from types_ok_snoc [OF ok 2(2) this, of "t\<lparr>t_seqid := nd_cur_seqid s, t_nd := True,
          t_hash := rfc_md5 (bytes_of_string n)\<rparr>"] 2 Some seq show ?thesis by simp
    qed (simp add: ok)
  qed
qed

lemma unregister_spec:
  assumes "htab_ok (nd_types s)"
  shows "ubx_type_unregister U n s =
    (ut_find U (nd_types s) n, s\<lparr>nd_types := filter (\<lambda>e. fst e \<noteq> n) (nd_types s)\<rparr>)"
proof (cases "ut_find U (nd_types s) n")
  case None
  with assms have "n \<notin> set (keys (nd_types s))" by (simp add: find_None)
  then have "filter (\<lambda>e. fst e \<noteq> n) (nd_types s) = nd_types s"
    by (intro filter_True) (auto simp: keys_def)
  with None show ?thesis by (simp add: ubx_type_unregister_def)
next
  case (Some a)
  from del_ok(3) [OF assms Some] Some show ?thesis by (simp add: ubx_type_unregister_def)
qed

lemma unregister_ok:
  assumes "types_ok (nd_types s) (typs s) q"
  shows "types_ok (nd_types (snd (ubx_type_unregister U n s))) (typs s) q"
  using assms by (simp add: unregister_spec types_ok_filter types_okD(1))

end

section \<open>Hash strings\<close>

lemma of_char_hexchar: "d < 16 \<Longrightarrow> (of_char (hexchar d) :: nat) = (if d < 10 then d + 48 else d + 87)"
  by (simp add: hexchar_def)

lemma hexval_hexchar: "d < 16 \<Longrightarrow> hexval (hexchar d) = Some d"
  by (auto simp: hexval_def of_char_hexchar Let_def)

lemma hexchar_no_space: "d < 16 \<Longrightarrow> \<not> isspace (hexchar d)"
  by (auto simp: isspace_def of_char_hexchar Let_def)

lemma hexchar_no_sign: "d < 16 \<Longrightarrow> hexchar d \<noteq> CHR ''-'' \<and> hexchar d \<noteq> CHR ''+''"
  using of_char_hexchar [of d] by (auto split: if_splits)

lemma strtoul16_sprintf: "ucast (strtoul16 (sprintf_02x b)) = b"
proof -
  let ?h = "unat b div 16" and ?l = "unat b mod 16"
  have b: "unat b < 256" using unsigned_less [of b] by simp
  then have h: "?h < 16" "?l < 16" by auto
  note facts = hexval_hexchar [OF h(1)] hexval_hexchar [OF h(2)] hexchar_no_space [OF h(1)]
    hexchar_no_sign [OF h(1)]
  have s: "skip_0x (sprintf_02x b) = sprintf_02x b"
    by (simp add: skip_0x_def sprintf_02x_def)
  have d: "hex_digits 0 (sprintf_02x b) = unat b"
    by (simp add: sprintf_02x_def facts)
  have w: "dropWhile isspace (sprintf_02x b) = sprintf_02x b"
    by (simp add: sprintf_02x_def facts)
  have "strtoul16 (sprintf_02x b) = word_of_nat (unat b)"
    unfolding strtoul16_def w Let_def using b
    by (simp add: s d) (simp add: sprintf_02x_def facts)
  then show ?thesis by (intro bit_word_eqI) (simp add: bit_simps)
qed

lemma hash_of_hashstr: "hash_of_str (length h) (concat (map sprintf_02x h)) = h"
proof (induction h)
  case (Cons b h)
  then show ?case using strtoul16_sprintf [of b] by (simp add: sprintf_02x_def)
qed simp

lemma length_hashstr: "length (concat (map sprintf_02x h)) = 2 * length h"
  by (induction h) (simp_all add: sprintf_02x_def)

lemma strncmp_eq0_refl: "length h = n \<Longrightarrow> strncmp_eq0 h (h @ r) n"
  by (induction h "h @ r" n rule: strncmp_eq0.induct) auto

lemma strncmp_eq0_noNUL:
  "strncmp_eq0 g (h @ r) n \<Longrightarrow> length g = n \<Longrightarrow> length h = n \<Longrightarrow> 0 \<notin> set h \<Longrightarrow> g = h"
proof (induction n arbitrary: g h)
  case (Suc n)
  then show ?case by (cases g; cases h) auto
qed simp

lemma type_by_hash_loop_find:
  assumes "\<forall>e \<in> set tab. typs s (snd e) \<noteq> None"
  shows "type_by_hash_loop s tab hash = Some (map_option snd
    (find (\<lambda>e. strncmp_eq0 (t_hash (the (typs s (snd e)))) hash 16) tab))"
  using assms by (induction tab) (auto simp: UBX_TYPE_HASH_LEN_def)

text \<open>A lookup by hash string is a search of the table with the binary hash.\<close>

lemma get_by_hashstr_find:
  assumes "types_ok (nd_types s) (typs s) q" "length (t_hash t) = 16"
  shows "ubx_type_get_by_hashstr s (ubx_type_hashstr t) = Some (map_option snd
    (find (\<lambda>e. strncmp_eq0 (t_hash (the (typs s (snd e)))) (t_hash t @ [0]) 16) (nd_types s)))"
proof -
  have "\<forall>e \<in> set (nd_types s). typs s (snd e) \<noteq> None"
    using types_okD(2) [OF assms(1)] by fastforce
  note f = type_by_hash_loop_find [OF this, of "t_hash t @ [0]"]
  have l: "length (ubx_type_hashstr t) = UBX_TYPE_HASHSTR_LEN"
    by (simp add: ubx_type_hashstr_def length_hashstr assms(2) UBX_TYPE_HASHSTR_LEN_def)
  have h: "hash_of_str UBX_TYPE_HASH_LEN (ubx_type_hashstr t) = t_hash t"
    using hash_of_hashstr [of "t_hash t"]
    unfolding ubx_type_hashstr_def assms(2) UBX_TYPE_HASH_LEN_def .
  show ?thesis
    unfolding ubx_type_get_by_hashstr_def ubx_type_get_by_hash_def h f using l by simp
qed

lemma find_unique:
  assumes "x \<in> set xs" "P x" "\<And>y. y \<in> set xs \<Longrightarrow> P y \<Longrightarrow> y = x"
  shows "find P xs = Some x"
proof (cases "find P xs")
  case None
  with assms(1,2) show ?thesis by (auto simp: find_None_iff)
next
  case (Some y)
  then have "y \<in> set xs" "P y" by (auto simp: find_Some_iff)
  with assms(3) Some show ?thesis by simp
qed

section \<open>Sequences of registry operations\<close>

inductive type_step :: "ut_lib \<Rightarrow> 'w ubx \<Rightarrow> 'w ubx \<Rightarrow> bool" for U where
  type_register: "ubx_type_register U type s = Some (r, s') \<Longrightarrow> nd_cur_seqid s \<noteq> - 1 \<Longrightarrow> type_step U s s'"
| type_unregister: "ubx_type_unregister U n s = (r, s') \<Longrightarrow> type_step U s s'"

inductive_cases type_stepE: "type_step U s s'"

lemma type_step_ok:
  assumes "ut_laws U" "type_step U s s'" "types_ok (nd_types s) (typs s) (nd_cur_seqid s)"
  shows "types_ok (nd_types s') (typs s') (nd_cur_seqid s')"
  using assms(2)
proof cases
  case (type_register type r)
  show ?thesis
  proof (cases type)
    case None
    with type_register assms(3) show ?thesis by (simp add: ubx_type_register_def)
  next
    case (Some a)
    with type_register ut_laws.register_ok [OF assms(1,3)] show ?thesis by blast
  qed
next
  case (type_unregister n r)
  with ut_laws.unregister_ok [OF assms(1,3), of n] ut_laws.unregister_spec [OF assms(1), of s n]
    types_okD(1) [OF assms(3)]
  show ?thesis by auto
qed

lemma type_steps_ok:
  assumes "ut_laws U"
  shows "(type_step U)\<^sup>*\<^sup>* s s' \<Longrightarrow> types_ok (nd_types s) (typs s) (nd_cur_seqid s) \<Longrightarrow>
    types_ok (nd_types s') (typs s') (nd_cur_seqid s')"
  by (induction rule: rtranclp_induct) (auto intro: type_step_ok [OF assms])

section \<open>Properties\<close>

text \<open>A node with no blocks, types or modules, for the witnesses.\<close>

definition empty_node :: "unit ubx" where
  "empty_node = \<lparr>nd_name = ''n'', nd_blocks = [], nd_types = [], nd_modules = [], nd_cur_seqid = 0,
     nd_attrs = 0, nd_loglevel = 6, blks = Map.empty, prts = Map.empty, cfgs = Map.empty,
     typs = Map.empty, dats = Map.empty, mods = Map.empty, static_type = (\<lambda>_. None), next_addr = 100, oom = [], world = ()\<rparr>"

definition mk_type :: "string \<Rightarrow> int \<Rightarrow> ubx_type" where
  "mk_type n sz = \<lparr>t_name = Some n, t_class = 1, t_size = sz, t_nd = False, t_seqid = 0, t_hash = replicate 16 0\<rparr>"

text \<open>C21: after any sequence of registrations and removals, failing ones included, that starts
  with an empty registry, a lookup by name returns exactly the registered type of this name, whose
  fingerprint is the RFC 1321 digest of the name; no two names share a type, and types registered later have
  larger sequence numbers, as long as the 64-bit counter does not wrap.\<close>

theorem type_registry_correct:
  assumes "ut_laws U" "nd_types s0 = []" "(type_step U)\<^sup>*\<^sup>* s0 s"
  shows "(\<forall>n a. ubx_type_get U s (Some n) = Some a \<longleftrightarrow> (n, a) \<in> set (nd_types s)) \<and>
    (\<forall>(n, a) \<in> set (nd_types s). \<exists>t. typs s a = Some t \<and> t_name t = Some n \<and> length n \<le> 63
           \<and> t_hash t = rfc_md5 (bytes_of_string n) \<and> t_seqid t < nd_cur_seqid s) \<and>
    distinct (map fst (nd_types s)) \<and> distinct (map snd (nd_types s)) \<and>
    sorted_wrt (<) (map (\<lambda>e. seqid_of (typs s) (snd e)) (nd_types s))"
proof -
  have ok: "types_ok (nd_types s) (typs s) (nd_cur_seqid s)"
    by (rule type_steps_ok [OF assms(1,3)]) (simp add: assms(2))
  have "\<exists>t. typs s a = Some t \<and> t_name t = Some n \<and> length n \<le> 63
           \<and> t_hash t = rfc_md5 (bytes_of_string n) \<and> t_seqid t < nd_cur_seqid s"
    if n: "(n, a) \<in> set (nd_types s)" for n a
  proof -
    from n have "seqid_of (typs s) a < nd_cur_seqid s"
      using ok by (force simp: types_ok_def list_all_iff elems_def)
    with types_okD(2) [OF ok n] show ?thesis by (auto simp: seqid_of_def)
  qed
  with ok ut_laws.type_get_iff [OF assms(1) ok] show ?thesis
    by (auto simp: types_ok_def htab_ok_def keys_def elems_def comp_def case_prod_beta)
qed

theorem type_registry_correct_witness:
  "\<exists>s. (type_step ut_ref)\<^sup>*\<^sup>* (empty_node\<lparr>typs := [1 \<mapsto> mk_type ''int'' 4, 2 \<mapsto> mk_type ''mj'' 8]\<rparr>) s \<and>
     ubx_type_get ut_ref s (Some ''mj'') = Some 2 \<and> ubx_type_get ut_ref s (Some ''int'') = None"
proof -
  let ?s0 = "empty_node\<lparr>typs := [1 \<mapsto> mk_type ''int'' 4, 2 \<mapsto> mk_type ''mj'' 8]\<rparr>"
  obtain s1 where s1: "ubx_type_register ut_ref (Some 1) ?s0 = Some (0, s1)" "nd_types s1 = [(''int'', 1)]"
      "nd_cur_seqid s1 = 1" "typs s1 2 = Some (mk_type ''mj'' 8)"
    by (simp add: ubx_type_register_def empty_node_def mk_type_def UBX_TYPE_NAME_MAXLEN_def)
  obtain s2 where s2: "ubx_type_register ut_ref (Some 2) s1 = Some (0, s2)"
      "nd_types s2 = [(''int'', 1), (''mj'', 2)]"
    using s1 by (simp add: ubx_type_register_def mk_type_def UBX_TYPE_NAME_MAXLEN_def)
  obtain s3 where s3: "ubx_type_unregister ut_ref ''int'' s2 = (Some 1, s3)" "nd_types s3 = [(''mj'', 2)]"
    using s2 by (simp add: ubx_type_unregister_def)
  have q: "nd_cur_seqid ?s0 \<noteq> - 1" by (simp add: empty_node_def)
  have t1: "type_step ut_ref ?s0 s1" by (rule type_register [OF s1(1) q])
  have t2: "type_step ut_ref s1 s2" by (rule type_register [OF s2(1)]) (simp add: s1)
  have t3: "type_step ut_ref s2 s3" by (rule type_unregister [OF s3(1)])
  from t1 t2 t3 have r: "(type_step ut_ref)\<^sup>*\<^sup>* ?s0 s3"
    by (meson rtranclp.rtrancl_into_rtrancl rtranclp.rtrancl_refl)
  from type_registry_correct [OF ref.ut_laws_axioms _ r] s3
  have "\<forall>n a. ubx_type_get ut_ref s3 (Some n) = Some a \<longleftrightarrow> (n, a) \<in> set (nd_types s3)"
    by (simp add: empty_node_def)
  with s3 r show ?thesis by (intro exI [of _ s3]) (auto simp: ubx_type_get_def)
qed

text \<open>Registering a live type: rejected without any change of the state when it has no name, a
  name of more than 63 characters or a name that is taken; otherwise the node finds it under its
  name, keeps every other type, and has stored the digest of the name and the next sequence number in it.\<close>

theorem ubx_type_register_correct:
  assumes "ut_laws U" "types_ok (nd_types s) (typs s) (nd_cur_seqid s)" "typs s a = Some t"
  shows "\<exists>r s'. ubx_type_register U (Some a) s = Some (r, s') \<and>
    (r = 0 \<longleftrightarrow> (\<exists>n. t_name t = Some n \<and> length n \<le> 63 \<and> ubx_type_get U s (Some n) = None)) \<and>
    (r \<noteq> 0 \<longrightarrow> s' = s \<and> r \<in> {EINVALID_TYPE, EALREADY_REGISTERED}) \<and>
    (r = 0 \<longrightarrow> (\<forall>m. ubx_type_get U s' (Some m) =
        (if Some m = t_name t then Some a else ubx_type_get U s (Some m))) \<and>
      typs s' = (typs s)(a \<mapsto> t\<lparr>t_seqid := nd_cur_seqid s, t_nd := True,
        t_hash := rfc_md5 (bytes_of_string (the (t_name t)))\<rparr>))"
proof (cases "t_name t")
  case None
  with assms(3) show ?thesis by (auto simp: ubx_type_register_def)
next
  case (Some n)
  note h = types_okD(1) [OF assms(2)]
  have g: "ubx_type_get U s (Some m) = None \<longleftrightarrow> m \<notin> set (keys (nd_types s))" for m
    using ut_laws.find_None [OF assms(1) h] by (simp add: ubx_type_get_def)
  note spec = ut_laws.register_spec [OF assms Some]
  show ?thesis
  proof (cases "length n \<le> 63 \<and> n \<notin> set (keys (nd_types s))")
    case True
    from types_ok_elem_name [OF assms(2,3) Some] True have e: "a \<notin> set (elems (nd_types s))" by simp
    have u: "ut_find U (nd_types s) n = None" using True g [of n] by (simp add: ubx_type_get_def)
    have "nd_types s @ [(n, a)] = ut_add U (nd_types s) n a"
      using ut_laws.add_law [OF assms(1) h _ e, of n] True by simp
    then have "ubx_type_get U (s\<lparr>nd_cur_seqid := q, typs := ty, nd_types := nd_types s @ [(n, a)]\<rparr>) (Some m) =
        (if m = n then Some a else ubx_type_get U s (Some m))" for m q ty
      using ut_laws.add_ok(2) [OF assms(1) h u e, of m] by (simp add: ubx_type_get_def)
    with True spec g Some show ?thesis by simp
  qed (use spec g Some in auto)
qed

theorem ubx_type_register_correct_witness:
  "\<exists>s'. ubx_type_register ut_ref (Some 1) (empty_node\<lparr>typs := [1 \<mapsto> mk_type ''int'' 4]\<rparr>) = Some (0, s') \<and>
     ubx_type_get ut_ref s' (Some ''int'') = Some 1"
  using ubx_type_register_correct [OF ref.ut_laws_axioms,
      of "empty_node\<lparr>typs := [1 \<mapsto> mk_type ''int'' 4]\<rparr>" 1 "mk_type ''int'' 4"]
  by (auto simp: empty_node_def mk_type_def ubx_type_get_def)

text \<open>The hash string of a registered type is 32 characters, and looking it up returns a type
  whose binary hash agrees with it as \<open>strncmp\<close> compares, up to the first NUL byte; it is the type
  itself when no byte of the digest is NUL and no other registered name has the same digest.\<close>

theorem ubx_type_hashstr_roundtrip:
  assumes "ut_laws U" "types_ok (nd_types s) (typs s) q" "(n, a) \<in> set (nd_types s)" "typs s a = Some t"
  shows "length (ubx_type_hashstr t) = 32 \<and>
    (\<exists>b t'. ubx_type_get_by_hashstr s (ubx_type_hashstr t) = Some (Some b) \<and> b \<in> snd ` set (nd_types s)
       \<and> typs s b = Some t' \<and> strncmp_eq0 (t_hash t') (t_hash t @ [0]) 16) \<and>
    (0 \<notin> set (t_hash t) \<and>
      (\<forall>(m, b) \<in> set (nd_types s). rfc_md5 (bytes_of_string m) = rfc_md5 (bytes_of_string n) \<longrightarrow> m = n) \<longrightarrow>
     ubx_type_get_by_hashstr s (ubx_type_hashstr t) = Some (Some a))"
proof -
  note D = types_okD(2) [OF assms(2)]
  have h: "t_hash t = rfc_md5 (bytes_of_string n)" using D [OF assms(3)] assms(4) by simp
  then have l: "length (t_hash t) = 16" by simp
  let ?P = "\<lambda>e. strncmp_eq0 (t_hash (the (typs s (snd e)))) (t_hash t @ [0]) 16"
  note g = get_by_hashstr_find [OF assms(2) l]
  have Pa: "?P (n, a)" using assms(4) strncmp_eq0_refl [OF l, of "[0]"] by simp
  then have "find ?P (nd_types s) \<noteq> None" using assms(3) by (auto simp only: find_None_iff not_not)
  then obtain e where e: "find ?P (nd_types s) = Some e" by blast
  then have e2: "e \<in> set (nd_types s)" "?P e" by (auto simp: find_Some_iff)
  moreover obtain te where "typs s (snd e) = Some te" using D [of "fst e" "snd e"] e2(1) by auto
  moreover have "find ?P (nd_types s) = Some (n, a)"
    if z: "0 \<notin> set (t_hash t)"
      and inj: "\<forall>(m, b) \<in> set (nd_types s). rfc_md5 (bytes_of_string m) = rfc_md5 (bytes_of_string n) \<longrightarrow> m = n"
  proof (rule find_unique [where P = ?P, OF assms(3) Pa])
    fix x assume x: "x \<in> set (nd_types s)" "?P x"
    obtain tx where tx: "typs s (snd x) = Some tx" "t_hash tx = rfc_md5 (bytes_of_string (fst x))"
      using D [of "fst x" "snd x"] x(1) by auto
    with x(2) have "t_hash tx = t_hash t" using strncmp_eq0_noNUL [of "t_hash tx" "t_hash t" "[0]" 16] z l by simp
    with tx h inj x(1) have "fst x = n" by (cases x) auto
    with x(1) assms(3) types_okD(1) [OF assms(2)] eq_key_imp_eq_value [of "nd_types s" n a "snd x"]
    show "x = (n, a)" by (cases x) (auto simp: htab_ok_def keys_def)
  qed
  ultimately show ?thesis
    using g [unfolded ubx_type_hashstr_def]
    by (auto simp: e length_hashstr l ubx_type_hashstr_def)
qed

text \<open>Registering two types in an empty node, for the next two witnesses.\<close>

definition hash_of :: "string \<Rightarrow> u8 list" where
  "hash_of n = rfc_md5 (bytes_of_string n)"

definition reg_type :: "string \<Rightarrow> u64 \<Rightarrow> ubx_type" where
  "reg_type n q = (mk_type n 4)\<lparr>t_seqid := q, t_nd := True, t_hash := hash_of n\<rparr>"

definition two_types :: "string \<Rightarrow> string \<Rightarrow> unit ubx" where
  "two_types n m = empty_node\<lparr>nd_types := [(n, 1), (m, 2)], nd_cur_seqid := 2,
     typs := [1 \<mapsto> reg_type n 0, 2 \<mapsto> reg_type m 1]\<rparr>"

lemma two_types_ok:
  "n \<noteq> m \<Longrightarrow> length n \<le> 63 \<Longrightarrow> length m \<le> 63 \<Longrightarrow>
    types_ok (nd_types (two_types n m)) (typs (two_types n m)) (nd_cur_seqid (two_types n m))"
  by (simp add: types_ok_def two_types_def empty_node_def reg_type_def mk_type_def hash_of_def
      type_entry_ok_def UBX_TYPE_NAME_MAXLEN_def seqid_of_def htab_ok_def)

lemma hash_int: "hash_of ''int'' = [250, 113, 83, 247, 237, 28, 182, 192, 252, 242, 255, 178, 250, 194, 23, 72]"
  unfolding hash_of_def by code_simp

lemma hash_mj: "hash_of ''mj'' = [0, 125, 233, 106, 223, 168, 179, 109, 194, 200, 221, 38, 141, 3, 145, 41]"
  unfolding hash_of_def by code_simp

lemma hash_oq: "hash_of ''oq'' = [0, 85, 199, 79, 18, 144, 206, 107, 58, 83, 219, 9, 91, 236, 31, 189]"
  unfolding hash_of_def by code_simp

theorem ubx_type_hashstr_roundtrip_witness:
  "ubx_type_get_by_hashstr (two_types ''int'' ''mj'') (ubx_type_hashstr (reg_type ''int'' 0)) = Some (Some 1)"
proof -
  let ?s = "two_types ''int'' ''mj''"
  have ok: "types_ok (nd_types ?s) (typs ?s) (nd_cur_seqid ?s)" by (rule two_types_ok) simp_all
  have m: "(''int'', 1) \<in> set (nd_types ?s)" "typs ?s 1 = Some (reg_type ''int'' 0)"
    by (simp_all add: two_types_def)
  have z: "0 \<notin> set (t_hash (reg_type ''int'' 0))" by (simp add: reg_type_def hash_int)
  have i: "\<forall>(m, b) \<in> set (nd_types ?s). rfc_md5 (bytes_of_string m) = rfc_md5 (bytes_of_string ''int'')
      \<longrightarrow> m = ''int''"
    using hash_int hash_mj by (simp add: two_types_def hash_of_def)
  from ubx_type_hashstr_roundtrip [OF ref.ut_laws_axioms ok m] z i show ?thesis by blast
qed

text \<open>The comparison of binary hashes with \<open>strncmp\<close> confuses types: when the digests of two
  registered names both start with a NUL byte, the hash string of the later one finds a
  type registered before it, however much the digests differ.\<close>

theorem ubx_type_get_by_hash_confuses:
  assumes "types_ok (nd_types s) (typs s) q" "nd_types s = pre @ (n, a) # mid @ (m, b) # post"
    "typs s a = Some ta" "typs s b = Some tb" "hd (t_hash ta) = 0" "hd (t_hash tb) = 0"
  shows "\<exists>c. ubx_type_get_by_hashstr s (ubx_type_hashstr tb) = Some (Some c) \<and> c \<noteq> b"
proof -
  have "(n, a) \<in> set (nd_types s)" "(m, b) \<in> set (nd_types s)" using assms(2) by auto
  with types_okD(2) [OF assms(1)] assms(3,4)
  have l: "length (t_hash ta) = 16" "length (t_hash tb) = 16" by fastforce+
  let ?P = "\<lambda>e. strncmp_eq0 (t_hash (the (typs s (snd e)))) (t_hash tb @ [0]) 16"
  have Pa: "?P (n, a)" using l assms(3,5,6)
    by (cases "t_hash ta"; cases "t_hash tb") (auto simp: numeral_eq_Suc)
  have "find ?P (pre @ [(n, a)]) \<noteq> None"
  proof
    assume "find ?P (pre @ [(n, a)]) = None"
    then have "\<not> ?P (n, a)" unfolding find_None_iff by fastforce
    with Pa show False by contradiction
  qed
  then obtain e where e: "find ?P (pre @ [(n, a)]) = Some e" by blast
  have app: "find P xs = Some y \<Longrightarrow> find P (xs @ ys) = Some y" for P :: "string \<times> addr \<Rightarrow> bool" and xs ys y
    by (induction xs) (auto split: if_splits)
  from app [OF e, of "mid @ (m, b) # post"] have f: "find ?P (nd_types s) = Some e" by (simp add: assms(2))
  from e have "e \<in> set (pre @ [(n, a)])" unfolding find_Some_iff by (metis nth_mem)
  moreover have "distinct (elems (nd_types s))" using assms(1) by (simp add: types_ok_def htab_ok_def)
  ultimately have "snd e \<noteq> b" by (force simp: assms(2) elems_def)
  with get_by_hashstr_find [OF assms(1) l(2)] f show ?thesis by simp
qed

theorem ubx_type_get_by_hash_confuses_witness:
  "\<exists>c. ubx_type_get_by_hashstr (two_types ''mj'' ''oq'') (ubx_type_hashstr (reg_type ''oq'' 1)) = Some (Some c)
     \<and> c \<noteq> 2 \<and> hash_of ''mj'' \<noteq> hash_of ''oq''"
proof -
  let ?s = "two_types ''mj'' ''oq''"
  have ok: "types_ok (nd_types ?s) (typs ?s) (nd_cur_seqid ?s)" by (rule two_types_ok) simp_all
  have m: "nd_types ?s = [] @ (''mj'', 1) # [] @ (''oq'', 2) # []" "typs ?s 1 = Some (reg_type ''mj'' 0)"
    "typs ?s 2 = Some (reg_type ''oq'' 1)"
    by (simp_all add: two_types_def)
  from ubx_type_get_by_hash_confuses [OF ok m] show ?thesis by (simp add: reg_type_def hash_mj hash_oq)
qed

end
