(* ===== verification/Ubx_Data.thy ===== *)
theory Ubx_Data
  imports Ubx_Typereg
begin

text \<open>
  Typed, reference counted data (\<open>ubx_data_t\<close>): allocation, resizing, release and size, from
  \<^verbatim>\<open>libubx/ubx.c\<close>. A value carries its type, its array length and a heap buffer; \<open>data_wf\<close> says that
  the buffer has room for the elements the length promises. \<open>num_refs = refcnt + 1\<close>.
\<close>

section \<open>The C allocator\<close>

text \<open>\<open>calloc(n, sz)\<close> of a buffer: fails when the product exceeds \<open>SIZE_MAX\<close>.\<close>

definition buf_calloc :: "nat \<Rightarrow> nat \<Rightarrow> 'w ubx \<Rightarrow> buf \<times> 'w ubx" where
  "buf_calloc n sz s =
     (let (ok, s) = mem_alloc s
      in if ok \<and> n * sz < 2 ^ 64 then (Buf (replicate (n * sz) 0), s) else (Buf_null, s))"

text \<open>\<open>realloc(p, n)\<close> of the GNU C library: with a size of zero it frees a non-NULL block and
  returns NULL. The result is the old pointer's new target and the returned pointer. The bytes a
  larger block gains are indeterminate in C; the model picks zero and no lemma relies on it.\<close>

definition buf_realloc :: "buf \<Rightarrow> nat \<Rightarrow> 'w ubx \<Rightarrow> (buf \<times> buf \<times> 'w ubx) option" where
  "buf_realloc p n s =
     (let (ok, s) = mem_alloc s in
      case p of
        Buf_freed \<Rightarrow> None
      | Buf_null \<Rightarrow> Some (Buf_null, if ok then Buf (replicate n 0) else Buf_null, s)
      | Buf bs \<Rightarrow>
          if n = 0 then Some (Buf_freed, Buf_null, s)
          else if ok then Some (Buf_freed, Buf (take n bs @ replicate (n - length bs) 0), s)
          else Some (Buf bs, Buf_null, s))"

definition buf_free :: "buf \<Rightarrow> unit option" where
  "buf_free p = (if p = Buf_freed then None else Some ())"

definition buf_write :: "buf \<Rightarrow> u8 list \<Rightarrow> buf option" where
  "buf_write p val =
     (if val = [] then Some p
      else case p of Buf bs \<Rightarrow>
          if length val \<le> length bs then Some (Buf (val @ drop (length val) bs)) else None
        | _ \<Rightarrow> None)"

section \<open>Operations\<close>

text \<open>\<open>__ubx_data_alloc\<close>, with the type resolved, and \<open>ubx_data_alloc\<close>.\<close>

definition ubx_data_alloc_t :: "ptr \<Rightarrow> int \<Rightarrow> 'w ubx \<Rightarrow> (ptr \<times> 'w ubx) option" where
  "ubx_data_alloc_t typ array_len s =
     (case typ of
        None \<Rightarrow> Some (None, s)
      | Some ta \<Rightarrow>
          (case calloc s of
             (None, s) \<Rightarrow> Some (None, s)
           | (Some a, s) \<Rightarrow>
               if array_len > 0 then do {
                 t \<leftarrow> typs s ta;
                 let (data, s) = buf_calloc (nat array_len) (unat (word_of_int (t_size t) :: u64)) s;
                 if data = Buf_null then Some (None, s)
                 else Some (Some a, s\<lparr>dats := (dats s)(a \<mapsto>
                   \<lparr>d_refcnt = 0, d_type = Some ta, d_len = array_len, d_data = data\<rparr>)\<rparr>) }
               else Some (Some a, s\<lparr>dats := (dats s)(a \<mapsto>
                   \<lparr>d_refcnt = 0, d_type = Some ta, d_len = array_len, d_data = Buf_null\<rparr>)\<rparr>)))"

definition ubx_data_alloc ::
  "ut_lib \<Rightarrow> bool \<Rightarrow> string option \<Rightarrow> int \<Rightarrow> 'w ubx \<Rightarrow> (ptr \<times> 'w ubx) option" where
  "ubx_data_alloc U nd typname array_len s =
     (if \<not> nd then Some (None, s)
      else case ubx_type_get U s typname of
          None \<Rightarrow> Some (None, s)
        | Some t \<Rightarrow> ubx_data_alloc_t (Some t) array_len s)"

definition ubx_data_resize :: "addr \<Rightarrow> int \<Rightarrow> 'w ubx \<Rightarrow> (int \<times> 'w ubx) option" where
  "ubx_data_resize d newlen s = do {
     dat \<leftarrow> dats s d;
     ta \<leftarrow> d_type dat;
     t \<leftarrow> typs s ta;
     sz \<leftarrow> long_chk (newlen * t_size t);
     let newsz = (word_of_int sz :: u32);
     (old, p, s) \<leftarrow> buf_realloc (d_data dat) (unat newsz) s;
     if p = Buf_null then Some (EOUTOFMEM, s\<lparr>dats := (dats s)(d \<mapsto> dat\<lparr>d_data := old\<rparr>)\<rparr>)
     else Some (0, s\<lparr>dats := (dats s)(d \<mapsto> dat\<lparr>d_data := p, d_len := newlen\<rparr>)\<rparr>) }"

definition ubx_data_free :: "addr \<Rightarrow> 'w ubx \<Rightarrow> 'w ubx option" where
  "ubx_data_free d s = do {
     dat \<leftarrow> dats s d;
     let dat = dat\<lparr>d_refcnt := d_refcnt dat - 1\<rparr>;
     if d_refcnt dat < 0 then do { _ \<leftarrow> buf_free (d_data dat); Some (s\<lparr>dats := (dats s)(d := None)\<rparr>) }
     else Some (s\<lparr>dats := (dats s)(d \<mapsto> dat)\<rparr>) }"

definition data_size :: "ptr \<Rightarrow> 'w ubx \<Rightarrow> int option" where
  "data_size d s =
     (case d of
        None \<Rightarrow> Some EINVALID_TYPE
      | Some a \<Rightarrow> do {
          dat \<leftarrow> dats s a;
          case d_type dat of
            None \<Rightarrow> Some EINVALID_TYPE
          | Some ta \<Rightarrow> do { t \<leftarrow> typs s ta; long_chk (d_len dat * t_size t) } })"

definition get_typename :: "ptr \<Rightarrow> 'w ubx \<Rightarrow> string option option" where
  "get_typename d s =
     (case d of
        None \<Rightarrow> Some None
      | Some a \<Rightarrow> do {
          dat \<leftarrow> dats s a;
          case d_type dat of None \<Rightarrow> Some None | Some ta \<Rightarrow> do { t \<leftarrow> typs s ta; Some (t_name t) } })"

section \<open>Well-formed data\<close>

text \<open>The buffer holds the elements the length promises; without elements there is nothing to
  point to, but never a dangling pointer.\<close>

definition data_wf :: "(addr \<Rightarrow> ubx_type option) \<Rightarrow> ubx_data \<Rightarrow> bool" where
  "data_wf ty d \<longleftrightarrow>
     (case d_type d of None \<Rightarrow> False
      | Some ta \<Rightarrow> (case ty ta of None \<Rightarrow> False
          | Some t \<Rightarrow> 0 < t_size t \<and> 0 \<le> d_len d \<and> d_len d * t_size t \<le> LONG_MAX \<and>
              (case d_data d of Buf bs \<Rightarrow> d_len d * t_size t \<le> int (length bs)
               | Buf_null \<Rightarrow> d_len d = 0 | Buf_freed \<Rightarrow> False)))"

lemma data_wfE:
  assumes "data_wf ty d"
  obtains ta t where "d_type d = Some ta" "ty ta = Some t" "0 < t_size t" "0 \<le> d_len d"
    "d_len d * t_size t \<le> LONG_MAX" "d_data d \<noteq> Buf_freed"
    "0 < d_len d \<Longrightarrow> \<exists>bs. d_data d = Buf bs \<and> d_len d * t_size t \<le> int (length bs)"
  using assms by (fastforce simp: data_wf_def split: option.splits buf.splits)

definition fresh_from :: "addr \<Rightarrow> (addr \<Rightarrow> 'a option) \<Rightarrow> bool" where
  "fresh_from n m \<longleftrightarrow> (\<forall>a\<ge>n. m a = None)"

lemma fresh_fromD: "fresh_from n m \<Longrightarrow> n \<le> a \<Longrightarrow> m a = None"
  by (simp add: fresh_from_def)

lemma fresh_from_upd [simp]: "fresh_from n m \<Longrightarrow> a < n \<Longrightarrow> fresh_from n (m(a \<mapsto> x))"
  by (simp add: fresh_from_def)

lemma fresh_from_del [simp]: "fresh_from n m \<Longrightarrow> fresh_from n (m(a := None))"
  by (simp add: fresh_from_def)

lemma fresh_from_mono: "fresh_from n m \<Longrightarrow> n \<le> n' \<Longrightarrow> fresh_from n' m"
  by (simp add: fresh_from_def)

lemma fresh_from_lt: "fresh_from n m \<Longrightarrow> m a = Some x \<Longrightarrow> a < n"
  using fresh_fromD [of n m a] by (cases "a < n") auto

text \<open>The allocator functions only touch the allocator.\<close>

lemma calloc_cases:
  obtains (fail) "calloc s = (None, s\<lparr>oom := tl (oom s)\<rparr>)"
  | (ok) "calloc s = (Some (next_addr s), s\<lparr>next_addr := Suc (next_addr s), oom := tl (oom s)\<rparr>)"
proof (cases "oom s \<noteq> [] \<and> hd (oom s)")
  case True
  then show ?thesis by (intro fail) (simp add: calloc_def)
next
  case False
  then show ?thesis by (intro ok) (simp only: calloc_def if_False)
qed

lemma mem_alloc_cases:
  obtains (ok) "mem_alloc s = (True, s\<lparr>oom := tl (oom s)\<rparr>)"
  | (fail) "mem_alloc s = (False, s\<lparr>oom := tl (oom s)\<rparr>)"
proof (cases "oom s \<noteq> [] \<and> hd (oom s)")
  case True
  then show ?thesis by (intro fail) (simp add: mem_alloc_def)
next
  case False
  then show ?thesis by (intro ok) (simp only: mem_alloc_def not_False_eq_True)
qed

section \<open>Allocation and resizing\<close>

lemma data_alloc_t_cases:
  assumes "ubx_data_alloc_t (Some ta) n s = Some (r, s')" "typs s ta = Some t" "0 < t_size t"
    "0 \<le> n" "n * t_size t \<le> LONG_MAX"
  obtains q k where "r = None" "s' = s\<lparr>next_addr := k, oom := q\<rparr>" "next_addr s \<le> k"
  | q d where "r = Some (next_addr s)"
      "s' = s\<lparr>next_addr := Suc (next_addr s), oom := q, dats := (dats s)(next_addr s \<mapsto> d)\<rparr>"
      "d_type d = Some ta" "d_refcnt d = 0" "d_len d = n" "data_wf (typs s) d"
proof -
  have lt: "t_size t \<le> LONG_MAX" if "0 < n" using assms(3,5) that
    by (smt (verit) mult_less_cancel_right1 zero_less_mult_iff mult_le_cancel_right1)
  have u: "nat n * unat (word_of_int (t_size t) :: u64) = nat (n * t_size t)"
      "nat (n * t_size t) < 2 ^ 64" if "0 < n"
  proof -
    have "unat (word_of_int (t_size t) :: u64) = nat (t_size t)"
      using lt [OF that] assms(3)
      by (simp add: unat_eq_nat_uint uint_word_of_int_id LONG_MAX_def)
    then show "nat n * unat (word_of_int (t_size t) :: u64) = nat (n * t_size t)"
      using assms(4) by (simp add: nat_mult_distrib)
    show "nat (n * t_size t) < 2 ^ 64" using assms(5) by (simp add: LONG_MAX_def)
  qed
  have "d_wf": "data_wf (typs s) \<lparr>d_refcnt = 0, d_type = Some ta, d_len = n, d_data = b\<rparr>"
    if "n = 0 \<and> b = Buf_null \<or> b = Buf (replicate (nat (n * t_size t)) 0)" for b
    using that assms(2-5) by (auto simp: data_wf_def LONG_MAX_def)
  let ?s1 = "s\<lparr>next_addr := Suc (next_addr s), oom := tl (oom s)\<rparr>"
  let ?s2 = "s\<lparr>next_addr := Suc (next_addr s), oom := tl (tl (oom s))\<rparr>"
  show ?thesis
  proof (cases s rule: calloc_cases)
    case fail
    with assms(1) that(1) [where k = "next_addr s" and q = "tl (oom s)"] show ?thesis
      by (simp add: ubx_data_alloc_t_def)
  next
    case ok
    show ?thesis
    proof (cases "0 < n")
      case False
      with assms(4) have "n = 0" by simp
      with assms(1) ok d_wf [of Buf_null] show ?thesis
        by (intro that(2) [where q = "tl (oom s)" and d = "\<lparr>d_refcnt = 0, d_type = Some ta, d_len = n, d_data = Buf_null\<rparr>"])
          (simp_all add: ubx_data_alloc_t_def)
    next
      case True
      show ?thesis
      proof (cases ?s1 rule: mem_alloc_cases)
        case m: ok
        then have "buf_calloc (nat n) (unat (word_of_int (t_size t) :: u64)) ?s1 =
            (Buf (replicate (nat (n * t_size t)) 0), ?s2)"
          using u [OF \<open>0 < n\<close>] by (simp add: buf_calloc_def)
        with assms(1,2) ok \<open>0 < n\<close> d_wf [of "Buf (replicate (nat (n * t_size t)) 0)"]
        show ?thesis
          by (intro that(2) [where q = "tl (tl (oom s))" and d = "\<lparr>d_refcnt = 0, d_type = Some ta, d_len = n,
              d_data = Buf (replicate (nat (n * t_size t)) 0)\<rparr>"]) (simp_all add: ubx_data_alloc_t_def)
      next
        case m: fail
        then have "buf_calloc (nat n) k ?s1 = (Buf_null, ?s2)" for k
          by (simp add: buf_calloc_def)
        with assms(1,2) ok \<open>0 < n\<close> that(1) [where k = "Suc (next_addr s)" and q = "tl (tl (oom s))"]
        show ?thesis by (simp add: ubx_data_alloc_t_def)
      qed
    qed
  qed
qed

lemma resize_spec:
  assumes "dats s d = Some dat" "data_wf (typs s) dat" "0 < n"
    and t: "typs s (the (d_type dat)) = Some t" and lim: "n * t_size t < 2 ^ 32"
    and mem: "oom s = [] \<or> \<not> hd (oom s)"
  shows "\<exists>dat' s'. ubx_data_resize d n s = Some (0, s') \<and> s' = s\<lparr>oom := tl (oom s), dats := (dats s)(d \<mapsto> dat')\<rparr> \<and>
    data_wf (typs s) dat' \<and> d_len dat' = n \<and> d_type dat' = d_type dat \<and> d_refcnt dat' = d_refcnt dat \<and>
    (\<forall>bs bs'. d_data dat = Buf bs \<and> d_data dat' = Buf bs' \<longrightarrow> take (length bs) bs' = take (length bs') bs)"
proof -
  from assms(2) obtain ta where ta: "d_type dat = Some ta" "typs s ta = Some t" "0 < t_size t"
      "d_data dat \<noteq> Buf_freed"
    by (rule data_wfE) (use t in auto)
  let ?b = "nat (n * t_size t)"
  have b: "0 < n * t_size t" using assms(3) ta(3) by simp
  have n: "unat (word_of_int (n * t_size t) :: u32) = ?b"
    unfolding unat_eq_nat_uint using lim b by (subst uint_word_of_int_id) simp_all
  have l: "in_long (n * t_size t)" using lim b by (intro in_longI) simp
  have m: "mem_alloc s = (True, s\<lparr>oom := tl (oom s)\<rparr>)" using mem by (auto simp: mem_alloc_def)
  show ?thesis
  proof (cases "d_data dat")
    case (Buf bs)
    then have r: "buf_realloc (d_data dat) ?b s =
        Some (Buf_freed, Buf (take ?b bs @ replicate (?b - length bs) 0), s\<lparr>oom := tl (oom s)\<rparr>)"
      using m b by (simp add: buf_realloc_def)
    have w: "data_wf (typs s) (dat\<lparr>d_data := Buf (take ?b bs @ replicate (?b - length bs) 0), d_len := n\<rparr>)"
      using ta b lim assms(3) by (auto simp: data_wf_def LONG_MAX_def)
    have "ubx_data_resize d n s = Some (0, s\<lparr>oom := tl (oom s), dats := (dats s)(d \<mapsto>
        dat\<lparr>d_data := Buf (take ?b bs @ replicate (?b - length bs) 0), d_len := n\<rparr>)\<rparr>)"
      using r assms(1) ta l by (simp add: ubx_data_resize_def n del: of_int_mult)
    moreover have "take (length bs) (take ?b bs @ replicate (?b - length bs) 0) =
        take (length (take ?b bs @ replicate (?b - length bs) (0 :: u8))) bs"
      by (cases "?b \<le> length bs") (simp_all add: min_def)
    ultimately show ?thesis using w ta(1) Buf
      by (intro exI [of _ "dat\<lparr>d_data := Buf (take ?b bs @ replicate (?b - length bs) 0), d_len := n\<rparr>"]) auto
  next
    case Buf_null
    then have r: "buf_realloc (d_data dat) ?b s = Some (Buf_null, Buf (replicate ?b 0), s\<lparr>oom := tl (oom s)\<rparr>)"
      using m by (simp add: buf_realloc_def)
    have w: "data_wf (typs s) (dat\<lparr>d_data := Buf (replicate ?b 0), d_len := n\<rparr>)"
      using ta b lim assms(3) by (auto simp: data_wf_def LONG_MAX_def)
    have "ubx_data_resize d n s = Some (0, s\<lparr>oom := tl (oom s), dats := (dats s)(d \<mapsto>
        dat\<lparr>d_data := Buf (replicate ?b 0), d_len := n\<rparr>)\<rparr>)"
      using r assms(1) ta l by (simp add: ubx_data_resize_def n del: of_int_mult)
    with w ta(1) Buf_null show ?thesis by auto
  qed (use ta in simp)
qed

section \<open>Properties\<close>

text \<open>Resizing a well-formed value to a positive length whose byte size fits in 32 bits, with
  memory available, succeeds, keeps it well-formed, sets its length and keeps the type, the reference
  count and, in place, as much of the content as both sizes have room for.\<close>

theorem ubx_data_resize_correct:
  assumes "dats s d = Some dat" "data_wf (typs s) dat" "typs s (the (d_type dat)) = Some t"
    "0 < n" "n * t_size t < 2 ^ 32" "oom s = [] \<or> \<not> hd (oom s)"
  shows "\<exists>dat'. ubx_data_resize d n s = Some (0, s\<lparr>oom := tl (oom s), dats := (dats s)(d \<mapsto> dat')\<rparr>) \<and>
    data_wf (typs s) dat' \<and> d_len dat' = n \<and> d_type dat' = d_type dat \<and> d_refcnt dat' = d_refcnt dat \<and>
    (\<forall>bs bs'. d_data dat = Buf bs \<and> d_data dat' = Buf bs' \<longrightarrow> take (length bs) bs' = take (length bs') bs)"
  using resize_spec [OF assms(1,2,4,3,5,6)] by blast

text \<open>An \<open>int\<close> value in a node with one type, for the witnesses.\<close>

definition data_node :: "ubx_data \<Rightarrow> unit ubx" where
  "data_node d = empty_node\<lparr>typs := [1 \<mapsto> reg_type ''int'' 0], dats := [2 \<mapsto> d]\<rparr>"

definition int_data :: "int \<Rightarrow> buf \<Rightarrow> ubx_data" where
  "int_data n b = \<lparr>d_refcnt = 0, d_type = Some 1, d_len = n, d_data = b\<rparr>"

theorem ubx_data_resize_correct_witness:
  "\<exists>s'. ubx_data_resize 2 3 (data_node (int_data 1 (Buf [7, 0, 0, 0]))) = Some (0, s')"
  using ubx_data_resize_correct [of "data_node (int_data 1 (Buf [7, 0, 0, 0]))" 2
      "int_data 1 (Buf [7, 0, 0, 0])" "reg_type ''int'' 0" 3]
  by (auto simp: data_node_def int_data_def reg_type_def mk_type_def data_wf_def empty_node_def LONG_MAX_def)

text \<open>The byte size is computed in an \<open>unsigned int\<close>. When it exceeds 32 bits and is not a multiple of
  \<open>2 ^ 32\<close>, resizing reports success but leaves a buffer shorter than the length it records.\<close>

theorem ubx_data_resize_truncates:
  assumes "dats s d = Some dat" "d_data dat \<noteq> Buf_freed" "d_type dat = Some ta" "typs s ta = Some t"
    "2 ^ 32 \<le> n * t_size t" "n * t_size t \<le> LONG_MAX" "n * t_size t mod 2 ^ 32 \<noteq> 0" "oom s = []"
  shows "\<exists>s' dat'. ubx_data_resize d n s = Some (0, s') \<and> dats s' d = Some dat' \<and> d_len dat' = n \<and>
    \<not> data_wf (typs s') dat'"
proof -
  let ?m = "nat (n * t_size t mod 2 ^ 32)"
  have pos: "0 \<le> n * t_size t" using assms(5) by simp
  have n: "unat (word_of_int (n * t_size t) :: u32) = ?m"
    unfolding unat_eq_nat_uint by (simp add: uint_word_of_int del: of_int_mult)
  have m0: "0 < ?m" "int ?m < n * t_size t"
    using assms(5,7) pos_mod_bound [of "2 ^ 32" "n * t_size t"] pos_mod_sign [of "2 ^ 32" "n * t_size t"]
    by (simp_all del: pos_mod_bound pos_mod_sign)
  have l: "in_long (n * t_size t)" using assms(6) pos by (intro in_longI) (simp add: LONG_MAX_def)
  have m: "mem_alloc s = (True, s)" using assms(8) by (simp add: mem_alloc_def)
  have "\<exists>old b. buf_realloc (d_data dat) ?m s = Some (old, Buf b, s) \<and> length b = ?m"
    using m m0 assms(2) by (cases "d_data dat") (auto simp: buf_realloc_def min_def)
  then obtain old b where r: "buf_realloc (d_data dat) ?m s = Some (old, Buf b, s)" "length b = ?m" by blast
  have "ubx_data_resize d n s = Some (0, s\<lparr>dats := (dats s)(d \<mapsto> dat\<lparr>d_data := Buf b, d_len := n\<rparr>)\<rparr>)"
    using r assms(1-4) l by (simp add: ubx_data_resize_def n del: of_int_mult)
  moreover have "\<not> data_wf (typs s) (dat\<lparr>d_data := Buf b, d_len := n\<rparr>)"
    using assms(3,4) m0 r(2) by (auto simp: data_wf_def)
  ultimately show ?thesis by auto
qed

theorem ubx_data_resize_truncates_witness:
  "\<exists>s' dat'. ubx_data_resize 2 1073741825 (data_node (int_data 0 Buf_null)) = Some (0, s') \<and>
     dats s' 2 = Some dat' \<and> d_len dat' = 1073741825 \<and> \<not> data_wf (typs s') dat'"
  by (rule ubx_data_resize_truncates [of _ _ "int_data 0 Buf_null" 1 "reg_type ''int'' 0"])
    (simp_all add: data_node_def int_data_def reg_type_def mk_type_def empty_node_def LONG_MAX_def)

text \<open>Resizing a non-empty value to length 0 frees the buffer without clearing the pointer to it:
  the call reports \<open>EOUTOFMEM\<close>, and releasing the value, as removing the config or the block that owns it
  does, then frees the buffer twice.\<close>

theorem ubx_data_resize_zero_dangles:
  assumes "dats s d = Some dat" "d_data dat = Buf bs" "d_type dat = Some ta" "typs s ta = Some t"
    "d_refcnt dat = 0"
  shows "\<exists>s'. ubx_data_resize d 0 s = Some (EOUTOFMEM, s') \<and> ubx_data_free d s' = None"
  using assms
  by (auto simp: ubx_data_resize_def buf_realloc_def mem_alloc_def ubx_data_free_def buf_free_def
      in_long_def LONG_MAX_def Let_def)

theorem ubx_data_resize_zero_dangles_witness:
  "\<exists>s'. ubx_data_resize 2 0 (data_node (int_data 1 (Buf [7, 0, 0, 0]))) = Some (EOUTOFMEM, s') \<and>
     ubx_data_free 2 s' = None"
  by (rule ubx_data_resize_zero_dangles [of _ _ "int_data 1 (Buf [7, 0, 0, 0])" "[7, 0, 0, 0]" 1 "reg_type ''int'' 0"])
    (simp_all add: data_node_def int_data_def)

end
