(* ===== verification/Ubx_Config.thy ===== *)
theory Ubx_Config
  imports Ubx_Data
begin

text \<open>
  Block configurations, the functions \<open>ubx_config_*\<close>, \<open>check_minmax\<close> of \<^verbatim>\<open>libubx/ubx.c\<close> and
  the accessors \<open>cfg_getptr_*\<close> and \<open>cfg_set_*\<close> that \<^verbatim>\<open>libubx/typemacros.h\<close> generates per type.
  A config belongs to the list of its block and shares its value with whoever else holds a reference.
\<close>

section \<open>Lookup\<close>

definition CONFIG_LEN_MAX :: u16 where "CONFIG_LEN_MAX = 65535"

definition cfg_is_cloned :: "ubx_config \<Rightarrow> bool" where
  "cfg_is_cloned c \<longleftrightarrow> c_attrs c AND CONFIG_ATTR_CLONED \<noteq> 0"

definition cfg_is_dyn :: "ubx_config \<Rightarrow> bool" where "cfg_is_dyn c \<longleftrightarrow> \<not> cfg_is_cloned c"

fun config_find :: "'w ubx \<Rightarrow> addr list \<Rightarrow> string \<Rightarrow> ptr option" where
  "config_find s [] name = Some None"
| "config_find s (c # cs) name = do {
     cfg \<leftarrow> cfgs s c;
     if strncmp_eq (c_name cfg) name UBX_CONFIG_NAME_MAXLEN then Some (Some c) else config_find s cs name }"

definition ubx_config_get :: "ptr \<Rightarrow> string option \<Rightarrow> 'w ubx \<Rightarrow> ptr option" where
  "ubx_config_get b name s =
     (case b of
        None \<Rightarrow> Some None
      | Some ba \<Rightarrow> do {
          blk \<leftarrow> blks s ba;
          case name of
            None \<Rightarrow> do { _ \<leftarrow> ubx_block_log blk s; Some None }
          | Some n \<Rightarrow> config_find s (b_configs blk) n })"

definition ubx_config_get_data :: "ptr \<Rightarrow> string option \<Rightarrow> 'w ubx \<Rightarrow> ptr option" where
  "ubx_config_get_data b name s = do {
     conf \<leftarrow> ubx_config_get b name s;
     case conf of None \<Rightarrow> Some None | Some c \<Rightarrow> do { cfg \<leftarrow> cfgs s c; Some (c_value cfg) } }"

text \<open>The length, and the buffer that \<open>*ptr\<close> is set to (the data object that owns it) if any.\<close>

definition ubx_config_get_data_ptr :: "ptr \<Rightarrow> string option \<Rightarrow> 'w ubx \<Rightarrow> (int \<times> ptr) option" where
  "ubx_config_get_data_ptr b name s = do {
     d \<leftarrow> ubx_config_get_data b name s;
     case d of
       None \<Rightarrow> Some (EINVALID_CONFIG, None)
     | Some da \<Rightarrow> do { dat \<leftarrow> dats s da; Some (d_len dat, if d_len dat > 0 then Some da else None) } }"

definition ubx_config_data_len :: "ptr \<Rightarrow> string option \<Rightarrow> 'w ubx \<Rightarrow> int option" where
  "ubx_config_data_len b name s = do {
     d \<leftarrow> ubx_config_get_data b name s;
     case d of None \<Rightarrow> Some (- 1) | Some da \<Rightarrow> do { dat \<leftarrow> dats s da; Some (d_len dat) } }"

section \<open>Adding and removing\<close>

definition zero_cfg :: ubx_config where
  "zero_cfg = \<lparr>c_name = '''', c_doc = None, c_attrs = 0, c_block = 0, c_type = None, c_value = None,
     c_min = 0, c_max = 0\<rparr>"

definition cfg_max :: "u16 \<Rightarrow> u16 \<Rightarrow> u16" where
  "cfg_max mn mx = (if mx = 0 \<and> mn > 0 then CONFIG_LEN_MAX else mx)"

text \<open>\<open>__ubx_config_add\<close>. With an impossible range the new object is not freed (it stays in the
  store, in no list), and the result of the allocation of the value is not checked.\<close>

definition ubx_config_add_t ::
  "ut_lib \<Rightarrow> addr \<Rightarrow> string \<Rightarrow> string option \<Rightarrow> ptr \<Rightarrow> u16 \<Rightarrow> u16 \<Rightarrow> u32 \<Rightarrow> 'w ubx \<Rightarrow> (int \<times> 'w ubx) option" where
  "ubx_config_add_t U b name doc type mn mx attrs s = do {
     blk \<leftarrow> blks s b;
     c \<leftarrow> ubx_config_get (Some b) (Some name) s;
     if c \<noteq> None then do { _ \<leftarrow> ubx_block_log blk s; Some (EENTEXISTS, s) }
     else (case calloc s of
         (None, s) \<Rightarrow> do { _ \<leftarrow> ubx_block_log blk s; Some (EOUTOFMEM, s) }
       | (Some a, s) \<Rightarrow>
           if length name > UBX_CONFIG_NAME_MAXLEN
           then do { _ \<leftarrow> ubx_block_log blk s; Some (EINVALID_CONFIG, s) }
           else (let cnew = zero_cfg\<lparr>c_name := strncpy UBX_CONFIG_NAME_MAXLEN name, c_min := mn,
                              c_max := cfg_max mn mx, c_attrs := attrs\<rparr> in
             if c_max cnew < c_min cnew
             then do { _ \<leftarrow> ubx_block_log blk s; Some (EINVALID_CONFIG, s\<lparr>cfgs := (cfgs s)(a \<mapsto> cnew)\<rparr>) }
             else (let (docok, s) = (if doc = None then (True, s) else mem_alloc s) in
               if \<not> docok then do { _ \<leftarrow> ubx_block_log blk s; Some (EOUTOFMEM, s) }
               else do {
                 (value, s) \<leftarrow> ubx_data_alloc_t type 0 s;
                 let cnew = cnew\<lparr>c_doc := doc, c_type := type, c_value := value, c_block := b\<rparr>;
                 Some (0, s\<lparr>cfgs := (cfgs s)(a \<mapsto> cnew),
                   blks := (blks s)(b \<mapsto> blk\<lparr>b_configs := dl_append U (b_configs blk) a\<rparr>)\<rparr>) }))) }"

definition ubx_config_add2 ::
  "ut_lib \<Rightarrow> ptr \<Rightarrow> string option \<Rightarrow> string option \<Rightarrow> string option \<Rightarrow> u16 \<Rightarrow> u16 \<Rightarrow> u32 \<Rightarrow> 'w ubx \<Rightarrow>
     (int \<times> 'w ubx) option" where
  "ubx_config_add2 U b name doc type_name mn mx attrs s =
     (case b of
        None \<Rightarrow> Some (EINVALID_BLOCK, s)
      | Some ba \<Rightarrow> do {
          blk \<leftarrow> blks s ba;
          case name of
            None \<Rightarrow> do { _ \<leftarrow> ubx_block_log blk s; Some (EINVALID_ARG, s) }
          | Some n \<Rightarrow>
              if \<not> b_nd blk then None
              else (case ubx_type_get U s type_name of
                  None \<Rightarrow> do { _ \<leftarrow> ubx_block_log blk s; Some (EINVALID_TYPE, s) }
                | Some t \<Rightarrow> ubx_config_add_t U ba n doc (Some t) mn mx attrs s) })"

definition ubx_config_add ::
  "ut_lib \<Rightarrow> ptr \<Rightarrow> string option \<Rightarrow> string option \<Rightarrow> string option \<Rightarrow> 'w ubx \<Rightarrow> (int \<times> 'w ubx) option" where
  "ubx_config_add U b name doc type_name s = ubx_config_add2 U b name doc type_name 0 0 0 s"

definition ubx_config_free :: "addr \<Rightarrow> 'w ubx \<Rightarrow> 'w ubx option" where
  "ubx_config_free c s = do {
     cfg \<leftarrow> cfgs s c;
     s \<leftarrow> (case c_value cfg of None \<Rightarrow> Some s | Some d \<Rightarrow> ubx_data_free d s);
     Some (s\<lparr>cfgs := (cfgs s)(c := None)\<rparr>) }"

definition ubx_config_rm :: "ut_lib \<Rightarrow> ptr \<Rightarrow> string option \<Rightarrow> 'w ubx \<Rightarrow> (int \<times> 'w ubx) option" where
  "ubx_config_rm U b name s =
     (case (b, name) of
        (Some ba, Some n) \<Rightarrow> do {
          blk \<leftarrow> blks s ba;
          c \<leftarrow> ubx_config_get (Some ba) (Some n) s;
          case c of
            None \<Rightarrow> do { _ \<leftarrow> ubx_block_log blk s; Some (ENOSUCHENT, s) }
          | Some a \<Rightarrow> do {
              let s = s\<lparr>blks := (blks s)(ba \<mapsto> blk\<lparr>b_configs := dl_delete U (b_configs blk) a\<rparr>)\<rparr>;
              s \<leftarrow> ubx_config_free a s;
              Some (0, s) } }
      | _ \<Rightarrow> Some (EINVALID_ARG, s))"

section \<open>Values\<close>

text \<open>The new value's reference count is only incremented after the old value is released.\<close>

definition ubx_config_assign :: "addr \<Rightarrow> addr \<Rightarrow> 'w ubx \<Rightarrow> (int \<times> 'w ubx) option" where
  "ubx_config_assign c d s = do {
     cfg \<leftarrow> cfgs s c;
     dat \<leftarrow> dats s d;
     if c_type cfg \<noteq> d_type dat then Some (ETYPE_MISMATCH, s)
     else do {
       s \<leftarrow> (case c_value cfg of None \<Rightarrow> Some s | Some v \<Rightarrow> ubx_data_free v s);
       dat \<leftarrow> dats s d;
       Some (0, s\<lparr>dats := (dats s)(d \<mapsto> dat\<lparr>d_refcnt := d_refcnt dat + 1\<rparr>),
                 cfgs := (cfgs s)(c \<mapsto> cfg\<lparr>c_value := Some d\<rparr>)\<rparr>) } }"

fun check_minmax_loop :: "ubx_block \<Rightarrow> bool \<Rightarrow> addr list \<Rightarrow> int \<Rightarrow> 'w ubx \<Rightarrow> int option" where
  "check_minmax_loop blk checklate [] ret s = Some ret"
| "check_minmax_loop blk checklate (a # cs) ret s = do {
     c \<leftarrow> cfgs s a;
     if c_min c = 0 \<and> c_max c = 0 then check_minmax_loop blk checklate cs ret s
     else if (c_attrs c AND CONFIG_ATTR_CHECKLATE \<noteq> 0 \<and> \<not> checklate) \<or>
             (c_attrs c AND CONFIG_ATTR_CHECKLATE = 0 \<and> checklate)
     then check_minmax_loop blk checklate cs ret s
     else do {
       d \<leftarrow> c_value c;
       dat \<leftarrow> dats s d;
       if d_len dat = 0 \<and> c_min c > 0
       then do { _ \<leftarrow> ubx_block_log blk s; check_minmax_loop blk checklate cs EINVALID_CONFIG_LEN s }
       else if d_len dat < uint (c_min c) \<or> d_len dat > uint (c_max c)
       then do { _ \<leftarrow> ubx_block_log blk s; check_minmax_loop blk checklate cs EINVALID_CONFIG_LEN s }
       else check_minmax_loop blk checklate cs ret s } }"

definition check_minmax :: "addr \<Rightarrow> bool \<Rightarrow> 'w ubx \<Rightarrow> int option" where
  "check_minmax b checklate s = do {
     blk \<leftarrow> blks s b; check_minmax_loop blk checklate (b_configs blk) 0 s }"

section \<open>The generated accessors\<close>

text \<open>Every accessor function has a \<open>static\<close> pointer to its type: the argument \<open>cache\<close> and the last
  component of the result. \<open>ubx_err(b, ...)\<close> of a NULL block is a NULL dereference.\<close>

definition cfg_type_check ::
  "ut_lib \<Rightarrow> string \<Rightarrow> ptr \<Rightarrow> ptr \<Rightarrow> string option \<Rightarrow> 'w ubx \<Rightarrow> ((int + addr) \<times> ptr) option" where
  "cfg_type_check U tname cache b name s = do {
     c \<leftarrow> ubx_config_get b name s;
     ba \<leftarrow> b;
     blk \<leftarrow> blks s ba;
     case c of
       None \<Rightarrow> do { _ \<leftarrow> ubx_block_log blk s; Some (Inl EINVALID_CONFIG, cache) }
     | Some a \<Rightarrow> do {
         cfg \<leftarrow> cfgs s a;
         if c_type cfg = cache then Some (Inr a, cache)
         else if \<not> b_nd blk then None
         else (case ubx_type_get U s (Some tname) of
             None \<Rightarrow> do { _ \<leftarrow> ubx_block_log blk s; Some (Inl EINVALID_TYPE, None) }
           | Some t \<Rightarrow>
               if c_type cfg \<noteq> Some t then do {
                 ct \<leftarrow> c_type cfg; _ \<leftarrow> typs s ct; _ \<leftarrow> ubx_block_log blk s; Some (Inl ETYPE_MISMATCH, Some t) }
               else Some (Inr a, Some t)) } }"

definition cfg_getptr ::
  "ut_lib \<Rightarrow> string \<Rightarrow> ptr \<Rightarrow> ptr \<Rightarrow> string option \<Rightarrow> 'w ubx \<Rightarrow> (int \<times> ptr \<times> ptr) option" where
  "cfg_getptr U tname cache b name s = do {
     (r, cache) \<leftarrow> cfg_type_check U tname cache b name s;
     case r of
       Inl e \<Rightarrow> Some (e, None, cache)
     | Inr a \<Rightarrow> do { (len, p) \<leftarrow> ubx_config_get_data_ptr b name s; Some (len, p, cache) } }"

text \<open>\<open>val\<close> are the bytes of the \<open>len\<close> elements of the C type.\<close>

definition cfg_set ::
  "ut_lib \<Rightarrow> string \<Rightarrow> ptr \<Rightarrow> ptr \<Rightarrow> string option \<Rightarrow> u8 list \<Rightarrow> int \<Rightarrow> 'w ubx \<Rightarrow> (int \<times> ptr \<times> 'w ubx) option" where
  "cfg_set U tname cache b name val len s = do {
     (r, cache) \<leftarrow> cfg_type_check U tname cache b name s;
     case r of
       Inl e \<Rightarrow> Some (e, cache, s)
     | Inr a \<Rightarrow> do {
         cfg \<leftarrow> cfgs s a;
         d \<leftarrow> c_value cfg;
         (ret, s) \<leftarrow> ubx_data_resize d len s;
         if ret \<noteq> 0 then do { ba \<leftarrow> b; blk \<leftarrow> blks s ba; _ \<leftarrow> ubx_block_log blk s; Some (ret, cache, s) }
         else do {
           dat \<leftarrow> dats s d;
           p \<leftarrow> buf_write (d_data dat) val;
           Some (0, cache, s\<lparr>dats := (dats s)(d \<mapsto> dat\<lparr>d_data := p\<rparr>)\<rparr>) } } }"

section \<open>Reference counting\<close>

text \<open>\<open>rc_fun D n\<close>: every live value has as many references as \<open>n\<close> says, at least one, and its
  \<open>refcnt\<close> is one less; nothing refers to other addresses.\<close>

definition rc_fun :: "(addr \<Rightarrow> ubx_data option) \<Rightarrow> (addr \<Rightarrow> nat) \<Rightarrow> bool" where
  "rc_fun D n \<longleftrightarrow> (\<forall>d. case D d of None \<Rightarrow> n d = 0 | Some dat \<Rightarrow> 0 < n d \<and> d_refcnt dat = int (n d) - 1)"

definition no_dangling :: "(addr \<Rightarrow> ubx_data option) \<Rightarrow> bool" where
  "no_dangling D \<longleftrightarrow> (\<forall>d dat. D d = Some dat \<longrightarrow> d_data dat \<noteq> Buf_freed)"

lemma rc_fun_live: "rc_fun D n \<Longrightarrow> 0 < n d \<Longrightarrow> \<exists>dat. D d = Some dat \<and> d_refcnt dat = int (n d) - 1"
  by (auto simp: rc_fun_def split: option.splits dest!: spec [of _ d])

lemma rc_fun_dead: "rc_fun D n \<Longrightarrow> D d = None \<Longrightarrow> n d = 0"
  by (auto simp: rc_fun_def dest!: spec [of _ d])

lemma rc_fun_upd:
  "rc_fun D n \<Longrightarrow> 0 < k \<Longrightarrow> d_refcnt dat = int k - 1 \<Longrightarrow> rc_fun (D(d \<mapsto> dat)) (n(d := k))"
  unfolding rc_fun_def by (intro allI, rename_tac x, drule_tac x = x in spec) (auto split: option.splits)

lemma rc_fun_del: "rc_fun D n \<Longrightarrow> rc_fun (D(d := None)) (n(d := 0))"
  unfolding rc_fun_def by (intro allI, rename_tac x, drule_tac x = x in spec) (auto split: option.splits)

lemma data_free_rc:
  assumes rc: "rc_fun (dats s) n" and nd: "no_dangling (dats s)" and d: "0 < n d"
  shows "\<exists>D. ubx_data_free d s = Some (s\<lparr>dats := D\<rparr>) \<and> rc_fun D (n(d := n d - 1)) \<and> no_dangling D \<and>
    (fresh_from m (dats s) \<longrightarrow> fresh_from m D) \<and> (\<forall>x. x \<noteq> d \<longrightarrow> D x = dats s x) \<and>
    (\<forall>dat. D d = Some dat \<longrightarrow> (\<exists>dat0. dats s d = Some dat0 \<and> d_type dat = d_type dat0 \<and> d_len dat = d_len dat0))"
proof -
  from rc_fun_live [OF rc d] obtain dat where
    dat: "dats s d = Some dat" "d_refcnt dat = int (n d) - 1" by blast
  show ?thesis
  proof (cases "n d = 1")
    case True
    with dat nd have "ubx_data_free d s = Some (s\<lparr>dats := (dats s)(d := None)\<rparr>)"
      by (auto simp: ubx_data_free_def Let_def buf_free_def no_dangling_def)
    moreover have "no_dangling ((dats s)(d := None))" using nd by (simp add: no_dangling_def)
    ultimately show ?thesis using rc_fun_del [OF rc, of d] True
      by (intro exI [of _ "(dats s)(d := None)"]) simp
  next
    case False
    let ?dat = "dat\<lparr>d_refcnt := d_refcnt dat - 1\<rparr>"
    have "ubx_data_free d s = Some (s\<lparr>dats := (dats s)(d \<mapsto> ?dat)\<rparr>)"
      using dat d False by (simp add: ubx_data_free_def Let_def)
    moreover have "rc_fun ((dats s)(d \<mapsto> ?dat)) (n(d := n d - 1))"
      using rc by (rule rc_fun_upd) (use d False dat in auto)
    moreover have "no_dangling ((dats s)(d \<mapsto> ?dat))"
      using nd dat by (auto simp: no_dangling_def)
    moreover have "fresh_from m (dats s) \<Longrightarrow> fresh_from m ((dats s)(d \<mapsto> ?dat))" for m
      using dat by (auto simp: fresh_from_def)
    ultimately show ?thesis using dat by (intro exI [of _ "(dats s)(d \<mapsto> ?dat)"]) simp
  qed
qed

text \<open>The references held by configs.\<close>

definition vrefs :: "(addr \<Rightarrow> ubx_config option) \<Rightarrow> addr \<Rightarrow> addr set" where
  "vrefs C d = {c. \<exists>cfg. C c = Some cfg \<and> c_value cfg = Some d}"

lemma vrefs_sub: "vrefs C d \<subseteq> dom C"
  by (auto simp: vrefs_def)

lemma finite_vrefs: "finite (dom C) \<Longrightarrow> finite (vrefs C d)"
  using vrefs_sub finite_subset by blast

lemma vrefs_none_upd:
  "C c = None \<Longrightarrow> vrefs (C(c \<mapsto> cfg)) d = (if c_value cfg = Some d then insert c (vrefs C d) else vrefs C d)"
  by (auto simp: vrefs_def)

lemma vrefs_upd:
  "vrefs (C(c \<mapsto> cfg)) d = (if c_value cfg = Some d then insert c (vrefs C d) else vrefs C d - {c})"
  by (auto simp: vrefs_def)

lemma vrefs_del: "vrefs (C(c := None)) d = vrefs C d - {c}"
  by (auto simp: vrefs_def)

lemma vrefs_mem: "C c = Some cfg \<Longrightarrow> c \<in> vrefs C d \<longleftrightarrow> c_value cfg = Some d"
  by (simp add: vrefs_def)

lemma vrefs_not_mem: "C c = None \<Longrightarrow> c \<notin> vrefs C d"
  by (simp add: vrefs_def)

definition nrefs :: "(addr \<Rightarrow> ubx_config option) \<Rightarrow> (addr \<Rightarrow> nat) \<Rightarrow> addr \<Rightarrow> nat" where
  "nrefs C ext d = card (vrefs C d) + ext d"

lemma nrefs_add:
  assumes "finite (dom C)" "C c = None"
  shows "nrefs (C(c \<mapsto> cfg)) ext = (case c_value cfg of None \<Rightarrow> nrefs C ext
     | Some d \<Rightarrow> (nrefs C ext)(d := nrefs C ext d + 1))"
  using assms finite_vrefs [OF assms(1)] vrefs_not_mem [where C = C and c = c, OF assms(2)]
  by (auto simp: nrefs_def vrefs_none_upd fun_eq_iff split: option.split)

lemma nrefs_del:
  assumes "finite (dom C)" "C c = Some cfg"
  shows "nrefs (C(c := None)) ext = (case c_value cfg of None \<Rightarrow> nrefs C ext
     | Some d \<Rightarrow> (nrefs C ext)(d := nrefs C ext d - 1))"
proof -
  have "card (vrefs C d - {c}) + ext d = card (vrefs C d) + ext d - (if c_value cfg = Some d then 1 else 0)" for d
  proof (cases "c_value cfg = Some d")
    case True
    with assms(2) have "c \<in> vrefs C d" by (simp add: vrefs_def)
    with finite_vrefs [OF assms(1), of d] have "Suc (card (vrefs C d - {c})) = card (vrefs C d)"
      by (intro card_Suc_Diff1)
    with True show ?thesis by simp
  next
    case False
    with assms(2) have "c \<notin> vrefs C d" by (simp add: vrefs_def)
    with False show ?thesis by simp
  qed
  then show ?thesis by (auto simp: nrefs_def vrefs_del fun_eq_iff split: option.split)
qed

lemma nrefs_pos: "finite (dom C) \<Longrightarrow> C c = Some cfg \<Longrightarrow> c_value cfg = Some d \<Longrightarrow> 0 < nrefs C ext d"
  using finite_vrefs [of C d] by (auto simp: nrefs_def card_gt_0_iff vrefs_def)

lemma nrefs_value_upd:
  assumes "finite (dom C)" "C c = Some cfg"
  shows "nrefs (C(c \<mapsto> cfg\<lparr>c_value := Some d\<rparr>)) ext =
    (let n = nrefs (C(c := None)) ext in n(d := n d + 1))"
proof -
  have "nrefs ((C(c := None))(c \<mapsto> cfg\<lparr>c_value := Some d\<rparr>)) ext =
    (nrefs (C(c := None)) ext)(d := nrefs (C(c := None)) ext d + 1)"
    using assms by (subst nrefs_add) auto
  then show ?thesis by (simp add: Let_def)
qed

lemma nrefs_same_values:
  assumes "\<And>c. map_option c_value (C c) = map_option c_value (C' c)"
  shows "nrefs C ext = nrefs C' ext"
proof -
  have "(\<exists>cfg. C c = Some cfg \<and> c_value cfg = Some d) = (\<exists>cfg. C' c = Some cfg \<and> c_value cfg = Some d)" for c d
    using assms [of c] by (cases "C c"; cases "C' c") auto
  then show ?thesis by (simp add: nrefs_def vrefs_def fun_eq_iff)
qed

text \<open>The invariant: \<open>ext d\<close> is the number of references clients hold to \<open>d\<close>.\<close>

definition rc_inv :: "'w ubx \<Rightarrow> (addr \<Rightarrow> nat) \<Rightarrow> bool" where
  "rc_inv s ext \<longleftrightarrow> finite (dom (cfgs s)) \<and> fresh_from (next_addr s) (cfgs s) \<and>
     fresh_from (next_addr s) (dats s) \<and> no_dangling (dats s) \<and> rc_fun (dats s) (nrefs (cfgs s) ext)"

lemma rc_inv_cong:
  "rc_inv s ext \<Longrightarrow> cfgs s' = cfgs s \<Longrightarrow> dats s' = dats s \<Longrightarrow> next_addr s \<le> next_addr s' \<Longrightarrow> rc_inv s' ext"
  by (auto simp: rc_inv_def intro: fresh_from_mono)

lemma rc_inv_new_data:
  assumes "rc_inv s ext" "a = next_addr s" "next_addr s' = Suc a" "cfgs s' = cfgs s"
    "dats s' = (dats s)(a \<mapsto> d)" "d_refcnt d = 0" "d_data d \<noteq> Buf_freed"
  shows "rc_inv s' (ext(a := 1))" "nrefs (cfgs s) ext a = 0"
proof -
  from assms(1,2) have dead: "dats s a = None" by (simp add: rc_inv_def fresh_from_def)
  with assms(1) show z: "nrefs (cfgs s) ext a = 0" by (auto simp: rc_inv_def intro: rc_fun_dead)
  then have "nrefs (cfgs s) (ext(a := 1)) = (nrefs (cfgs s) ext)(a := 1)"
    by (auto simp: nrefs_def fun_eq_iff)
  moreover have "rc_fun ((dats s)(a \<mapsto> d)) ((nrefs (cfgs s) ext)(a := 1))"
    using assms(1) by (intro rc_fun_upd) (simp_all add: rc_inv_def assms(6))
  ultimately show "rc_inv s' (ext(a := 1))"
    using assms by (auto simp: rc_inv_def fresh_from_def no_dangling_def)
qed

lemma rc_inv_free:
  assumes "rc_inv s ext" "0 < ext d"
  shows "\<exists>s'. ubx_data_free d s = Some s' \<and> rc_inv s' (ext(d := ext d - 1))"
proof -
  have p: "0 < nrefs (cfgs s) ext d" using assms(2) by (simp add: nrefs_def)
  have n: "nrefs (cfgs s) (ext(d := ext d - 1)) = (nrefs (cfgs s) ext)(d := nrefs (cfgs s) ext d - 1)"
    using assms(2) by (auto simp: nrefs_def fun_eq_iff)
  from data_free_rc [where s = s and m = "next_addr s" and n = "nrefs (cfgs s) ext", OF _ _ p] assms(1)
  obtain D where D: "ubx_data_free d s = Some (s\<lparr>dats := D\<rparr>)"
    "rc_fun D ((nrefs (cfgs s) ext)(d := nrefs (cfgs s) ext d - 1))" "no_dangling D" "fresh_from (next_addr s) D"
    by (auto simp: rc_inv_def)
  with assms(1) n show ?thesis by (auto simp: rc_inv_def)
qed

lemma rc_inv_config_free:
  assumes "rc_inv s ext" "cfgs s c = Some cfg"
  shows "\<exists>D. ubx_config_free c s = Some (s\<lparr>dats := D, cfgs := (cfgs s)(c := None)\<rparr>) \<and>
    rc_inv (s\<lparr>dats := D, cfgs := (cfgs s)(c := None)\<rparr>) ext \<and>
    (\<forall>x. c_value cfg \<noteq> Some x \<longrightarrow> D x = dats s x)"
proof (cases "c_value cfg")
  case None
  with assms nrefs_del [where C = "cfgs s" and c = c, OF _ assms(2), of ext] show ?thesis
    by (intro exI [of _ "dats s"]) (auto simp: ubx_config_free_def rc_inv_def)
next
  case (Some d)
  have fin: "finite (dom (cfgs s))" using assms(1) by (simp add: rc_inv_def)
  from nrefs_pos [where C = "cfgs s" and c = c and ext = ext, OF fin assms(2) Some] have p: "0 < nrefs (cfgs s) ext d" .
  from data_free_rc [where s = s and m = "next_addr s" and n = "nrefs (cfgs s) ext", OF _ _ p] assms(1)
  obtain D where D: "ubx_data_free d s = Some (s\<lparr>dats := D\<rparr>)"
    "rc_fun D ((nrefs (cfgs s) ext)(d := nrefs (cfgs s) ext d - 1))" "no_dangling D"
    "fresh_from (next_addr s) D" "\<forall>x. x \<noteq> d \<longrightarrow> D x = dats s x"
    by (auto simp: rc_inv_def)
  have n: "nrefs ((cfgs s)(c := None)) ext = (nrefs (cfgs s) ext)(d := nrefs (cfgs s) ext d - 1)"
    using nrefs_del [where C = "cfgs s" and c = c, OF fin assms(2), of ext] Some by simp
  with D assms Some show ?thesis
    by (intro exI [of _ D]) (auto simp: ubx_config_free_def rc_inv_def)
qed

lemma rc_inv_assign:
  assumes inv: "rc_inv s ext" and c: "cfgs s c = Some cfg" and d: "dats s d = Some dat"
    and ok: "c_value cfg \<noteq> Some d \<or> 0 < d_refcnt dat"
  shows "\<exists>r s'. ubx_config_assign c d s = Some (r, s') \<and> rc_inv s' ext \<and>
    (r = (if c_type cfg = d_type dat then 0 else ETYPE_MISMATCH)) \<and> (r \<noteq> 0 \<longrightarrow> s' = s) \<and>
    (r = 0 \<longrightarrow> cfgs s' = (cfgs s)(c \<mapsto> cfg\<lparr>c_value := Some d\<rparr>))"
proof (cases "c_type cfg = d_type dat")
  case False
  with inv c d show ?thesis by (simp add: ubx_config_assign_def)
next
  case True
  have fin: "finite (dom (cfgs s))" using inv by (simp add: rc_inv_def)
  let ?n = "nrefs ((cfgs s)(c := None)) ext"
  have "\<exists>D. (case c_value cfg of None \<Rightarrow> Some s | Some v \<Rightarrow> ubx_data_free v s) = Some (s\<lparr>dats := D\<rparr>) \<and>
      rc_fun D ?n \<and> no_dangling D \<and> fresh_from (next_addr s) D \<and> D d \<noteq> None"
  proof (cases "c_value cfg")
    case None
    with inv d nrefs_del [where C = "cfgs s" and c = c, OF fin c, of ext] show ?thesis
      by (intro exI [of _ "dats s"]) (auto simp: rc_inv_def)
  next
    case (Some v)
    from nrefs_pos [where C = "cfgs s" and c = c and ext = ext, OF fin c Some] have p: "0 < nrefs (cfgs s) ext v" .
    have n: "?n = (nrefs (cfgs s) ext)(v := nrefs (cfgs s) ext v - 1)"
      using nrefs_del [where C = "cfgs s" and c = c, OF fin c, of ext] Some by simp
    from data_free_rc [where s = s and m = "next_addr s" and n = "nrefs (cfgs s) ext", OF _ _ p] inv
    obtain D where D: "ubx_data_free v s = Some (s\<lparr>dats := D\<rparr>)" "rc_fun D ?n" "no_dangling D"
      "fresh_from (next_addr s) D" "\<forall>x. x \<noteq> v \<longrightarrow> D x = dats s x"
      by (auto simp: rc_inv_def n)
    have "D d \<noteq> None"
    proof (cases "v = d")
      case False
      with D(5) d show ?thesis by simp
    next
      case True
      have "rc_fun (dats s) (nrefs (cfgs s) ext)" using inv by (simp add: rc_inv_def)
      from rc_fun_live [OF this p] d True have "d_refcnt dat = int (nrefs (cfgs s) ext d) - 1" by simp
      with ok Some True have "0 < ?n d" by (simp add: n)
      from rc_fun_live [OF D(2) this] show ?thesis by auto
    qed
    with D Some show ?thesis by auto
  qed
  then obtain D dat1 where D: "(case c_value cfg of None \<Rightarrow> Some s | Some v \<Rightarrow> ubx_data_free v s) = Some (s\<lparr>dats := D\<rparr>)"
    "rc_fun D ?n" "no_dangling D" "fresh_from (next_addr s) D" "D d = Some dat1" by auto
  let ?s' = "s\<lparr>dats := D(d \<mapsto> dat1\<lparr>d_refcnt := d_refcnt dat1 + 1\<rparr>), cfgs := (cfgs s)(c \<mapsto> cfg\<lparr>c_value := Some d\<rparr>)\<rparr>"
  have "ubx_config_assign c d s = Some (0, ?s')"
    using c d True D(1,5) by (simp add: ubx_config_assign_def)
  moreover have "rc_fun (D(d \<mapsto> dat1\<lparr>d_refcnt := d_refcnt dat1 + 1\<rparr>)) (?n(d := ?n d + 1))"
  proof (rule rc_fun_upd [OF D(2)])
    from D(2,5) have "d_refcnt dat1 = int (?n d) - 1"
      by (auto simp: rc_fun_def split: option.splits dest!: spec [of _ d])
    then show "d_refcnt (dat1\<lparr>d_refcnt := d_refcnt dat1 + 1\<rparr>) = int (?n d + 1) - 1" by simp
  qed simp
  moreover have "no_dangling (D(d \<mapsto> dat1\<lparr>d_refcnt := d_refcnt dat1 + 1\<rparr>))"
    using D(3,5) by (auto simp: no_dangling_def)
  moreover have "fresh_from (next_addr s) (D(d \<mapsto> dat1\<lparr>d_refcnt := d_refcnt dat1 + 1\<rparr>))"
    using fresh_from_lt [OF D(4,5)] D(4) by (auto simp: fresh_from_def)
  moreover have "fresh_from (next_addr s) ((cfgs s)(c \<mapsto> cfg\<lparr>c_value := Some d\<rparr>))"
    using inv c by (auto simp: rc_inv_def fresh_from_def)
  ultimately show ?thesis
    using fin True nrefs_value_upd [where C = "cfgs s" and c = c and d = d and ext = ext, OF fin c] by (auto simp: rc_inv_def Let_def)
qed

section \<open>What adding a config does\<close>

lemma data_alloc_t_0:
  obtains (fail) "ubx_data_alloc_t (Some ta) 0 s = Some (None, s\<lparr>oom := tl (oom s)\<rparr>)"
  | (ok) "ubx_data_alloc_t (Some ta) 0 s = Some (Some (next_addr s), s\<lparr>next_addr := Suc (next_addr s), oom := tl (oom s),
        dats := (dats s)(next_addr s \<mapsto> \<lparr>d_refcnt = 0, d_type = Some ta, d_len = 0, d_data = Buf_null\<rparr>)\<rparr>)"
proof (cases s rule: calloc_cases)
  case fail
  then show ?thesis by (intro that(1)) (simp add: ubx_data_alloc_t_def)
next
  case ok
  then show ?thesis by (intro that(2)) (simp add: ubx_data_alloc_t_def)
qed

definition new_cfg :: "addr \<Rightarrow> string \<Rightarrow> string option \<Rightarrow> ptr \<Rightarrow> u16 \<Rightarrow> u16 \<Rightarrow> u32 \<Rightarrow> ptr \<Rightarrow> ubx_config" where
  "new_cfg b name doc type mn mx attrs v = \<lparr>c_name = name, c_doc = doc, c_attrs = attrs, c_block = b,
     c_type = type, c_value = v, c_min = mn, c_max = cfg_max mn mx\<rparr>"

lemma new_cfg_sel [simp]:
  "c_name (new_cfg b name doc type mn mx attrs v) = name" "c_value (new_cfg b name doc type mn mx attrs v) = v"
  "c_block (new_cfg b name doc type mn mx attrs v) = b" "c_type (new_cfg b name doc type mn mx attrs v) = type"
  "c_min (new_cfg b name doc type mn mx attrs v) = mn" "c_max (new_cfg b name doc type mn mx attrs v) = cfg_max mn mx"
  "c_attrs (new_cfg b name doc type mn mx attrs v) = attrs"
  by (simp_all add: new_cfg_def)

lemma config_add_t_cases:
  assumes r: "ubx_config_add_t U b name doc (Some ta) mn mx attrs s = Some (r, s')" and b: "blks s b = Some blk"
  obtains (fail) k q where "r \<in> {EENTEXISTS, EOUTOFMEM, EINVALID_CONFIG}"
      "s' = s\<lparr>next_addr := k, oom := q\<rparr>" "next_addr s \<le> k"
  | (leak) q c where "r = EINVALID_CONFIG" "c_value c = None"
      "s' = s\<lparr>next_addr := Suc (next_addr s), oom := q, cfgs := (cfgs s)(next_addr s \<mapsto> c)\<rparr>"
  | (ok) k q v D where "r = 0" "ubx_config_get (Some b) (Some name) s = Some None" "length name \<le> 39"
      "mn \<le> cfg_max mn mx"
      "s' = s\<lparr>next_addr := k, oom := q, dats := D,
         cfgs := (cfgs s)(next_addr s \<mapsto> new_cfg b name doc (Some ta) mn mx attrs v),
         blks := (blks s)(b \<mapsto> blk\<lparr>b_configs := dl_append U (b_configs blk) (next_addr s)\<rparr>)\<rparr>"
      "v = None \<and> D = dats s \<and> k = Suc (next_addr s) \<or>
       v = Some (Suc (next_addr s)) \<and> k = Suc (Suc (next_addr s)) \<and>
       D = (dats s)(Suc (next_addr s) \<mapsto> \<lparr>d_refcnt = 0, d_type = Some ta, d_len = 0, d_data = Buf_null\<rparr>)"
proof -
  from r b obtain c where c: "ubx_config_get (Some b) (Some name) s = Some c"
    by (auto simp: ubx_config_add_t_def)
  note u = ubx_config_add_t_def
  show ?thesis
  proof (cases c)
    case (Some a)
    with r b c show ?thesis by (intro fail [where k = "next_addr s" and q = "oom s"]) (auto simp: u)
  next
    case None
    let ?s1 = "s\<lparr>next_addr := Suc (next_addr s), oom := tl (oom s)\<rparr>"
    show ?thesis
    proof (cases s rule: calloc_cases)
      case al: fail
      with r b c None show ?thesis by (intro fail [where k = "next_addr s" and q = "tl (oom s)"]) (auto simp: u)
    next
      case al: ok
      consider "39 < length name" | "length name \<le> 39" "cfg_max mn mx < mn"
        | "length name \<le> 39" "mn \<le> cfg_max mn mx" by force
      then show ?thesis
      proof cases
        case 1
        with r b c None al show ?thesis
          by (intro fail [where k = "Suc (next_addr s)" and q = "tl (oom s)"]) (auto simp: u UBX_CONFIG_NAME_MAXLEN_def)
      next
        case 2
        with r b c None al show ?thesis
          by (intro leak [where c = "zero_cfg\<lparr>c_name := name, c_min := mn, c_max := cfg_max mn mx, c_attrs := attrs\<rparr>" and q = "tl (oom s)"])
            (auto simp: u UBX_CONFIG_NAME_MAXLEN_def zero_cfg_def)
      next
        case 4: 3
        then have nl: "\<not> cfg_max mn mx < mn" by simp
        obtain docok q where m: "(if doc = None then (True, ?s1) else mem_alloc ?s1) = (docok, s\<lparr>next_addr := Suc (next_addr s), oom := q\<rparr>)"
        proof (cases "doc = None")
          case True
          then show thesis by (intro that [of True "tl (oom s)"]) simp
        next
          case False
          then show thesis
            by (intro that [where docok = "fst (mem_alloc ?s1)" and q = "tl (tl (oom s))"])
              (auto simp: mem_alloc_def)
        qed
        let ?s2 = "s\<lparr>next_addr := Suc (next_addr s), oom := q\<rparr>"
        show ?thesis
        proof (cases docok)
          case False
          with r b c None al 4 nl m show ?thesis
            by (intro fail [where k = "Suc (next_addr s)" and q = q]) (auto simp: u UBX_CONFIG_NAME_MAXLEN_def Let_def)
        next
          case True
          have cfg: "zero_cfg\<lparr>c_name := name, c_min := mn, c_max := cfg_max mn mx, c_attrs := attrs,
              c_doc := doc, c_type := Some ta, c_value := v, c_block := b\<rparr> = new_cfg b name doc (Some ta) mn mx attrs v" for v
            by (simp add: zero_cfg_def new_cfg_def)
          show ?thesis
          proof (cases rule: data_alloc_t_0 [where s = ?s2 and ta = ta])
            case 5: fail
            with r b c None al 4 nl m True cfg [of None] show ?thesis
              by (intro ok [where v = None and D = "dats s" and q = "tl q" and k = "Suc (next_addr s)"])
                (auto simp: u UBX_CONFIG_NAME_MAXLEN_def Let_def)
          next
            case 5: ok
            with r b c None al 4 nl m True cfg [of "Some (Suc (next_addr s))"] show ?thesis
              by (intro ok [where v = "Some (Suc (next_addr s))" and q = "tl q" and k = "Suc (Suc (next_addr s))"])
                (auto simp: u UBX_CONFIG_NAME_MAXLEN_def Let_def)
          qed
        qed
      qed
    qed
  qed
qed

lemma rc_inv_config_add_t:
  assumes inv: "rc_inv s ext" and b: "blks s b = Some blk"
    and r: "ubx_config_add_t U b name doc (Some ta) mn mx attrs s = Some (r, s')"
  shows "rc_inv s' ext"
  using r b
proof (cases rule: config_add_t_cases)
  case (fail k q)
  with inv show ?thesis by (auto intro: rc_inv_cong)
next
  case (leak q c)
  from inv have "cfgs s (next_addr s) = None" by (simp add: rc_inv_def fresh_from_def)
  with inv leak nrefs_add [where C = "cfgs s" and c = "next_addr s" and cfg = c and ext = ext]
  show ?thesis by (auto simp: rc_inv_def fresh_from_def)
next
  case (ok k q v D)
  from inv have c: "cfgs s (next_addr s) = None" and fin: "finite (dom (cfgs s))"
    and fr: "fresh_from (next_addr s) (cfgs s)" "fresh_from (next_addr s) (dats s)"
    by (simp_all add: rc_inv_def fresh_from_def)
  note n = nrefs_add [where C = "cfgs s" and c = "next_addr s"
      and cfg = "new_cfg b name doc (Some ta) mn mx attrs v" and ext = ext, OF fin c]
  from ok(6) show ?thesis
  proof
    assume v: "v = None \<and> D = dats s \<and> k = Suc (next_addr s)"
    with ok(5) inv n show ?thesis by (auto simp: rc_inv_def fresh_from_def)
  next
    let ?d = "Suc (next_addr s)" and ?dat = "\<lparr>d_refcnt = 0, d_type = Some ta, d_len = 0, d_data = Buf_null\<rparr>"
    assume v: "v = Some ?d \<and> k = Suc ?d \<and> D = (dats s)(?d \<mapsto> ?dat)"
    have "dats s ?d = None" using fr by (simp add: fresh_from_def)
    then have z: "nrefs (cfgs s) ext ?d = 0" using inv by (auto simp: rc_inv_def intro: rc_fun_dead)
    have "rc_fun ((dats s)(?d \<mapsto> ?dat)) ((nrefs (cfgs s) ext)(?d := 1))"
      using inv by (intro rc_fun_upd) (auto simp: rc_inv_def)
    with v ok(5) inv n z fr show ?thesis
      by (auto simp: rc_inv_def no_dangling_def fresh_from_def)
  qed
qed

section \<open>Sequences of operations on values\<close>

text \<open>Clients allocate values of any length, resize them, release the references they hold, assign values to configs and add and
  remove configs. A client must not assign to a config the value the config already has unless it is referenced otherwise, and not
  resize a value to a size that is zero at the width of \<open>newsz\<close>: \<open>realloc\<close> then frees the buffer and the value keeps the pointer.\<close>

inductive value_step :: "ut_lib \<Rightarrow> 'w ubx \<times> (addr \<Rightarrow> nat) \<Rightarrow> 'w ubx \<times> (addr \<Rightarrow> nat) \<Rightarrow> bool" for U where
  alloc: "ubx_data_alloc_t (Some ta) n s = Some (r, s') \<Longrightarrow>
      value_step U (s, ext) (s', case r of None \<Rightarrow> ext | Some d \<Rightarrow> ext(d := 1))"
| resize: "dats s d = Some dat \<Longrightarrow> d_type dat = Some ta \<Longrightarrow> typs s ta = Some t \<Longrightarrow>
      (word_of_int (n * t_size t) :: u32) \<noteq> 0 \<Longrightarrow> ubx_data_resize d n s = Some (r, s') \<Longrightarrow> value_step U (s, ext) (s', ext)"
| release: "0 < ext d \<Longrightarrow> ubx_data_free d s = Some s' \<Longrightarrow> value_step U (s, ext) (s', ext(d := ext d - 1))"
| assign: "dats s d = Some dat \<Longrightarrow> cfgs s c = Some cfg \<Longrightarrow> c_value cfg \<noteq> Some d \<or> 0 < d_refcnt dat \<Longrightarrow>
      ubx_config_assign c d s = Some (r, s') \<Longrightarrow> value_step U (s, ext) (s', ext)"
| config_add: "ubx_config_add2 U (Some b) name doc tn mn mx attrs s = Some (r, s') \<Longrightarrow> value_step U (s, ext) (s', ext)"
| config_rm: "ubx_config_rm U (Some b) name s = Some (r, s') \<Longrightarrow> value_step U (s, ext) (s', ext)"

inductive_cases value_stepE: "value_step U (s, ext) p"

lemma config_add2_rc:
  assumes "rc_inv s ext" "ubx_config_add2 U (Some b) name doc tn mn mx attrs s = Some (r, s')"
  shows "rc_inv s' ext"
  using assms
  by (auto simp: ubx_config_add2_def split: option.splits if_splits dest: rc_inv_config_add_t)

lemma config_rm_rc:
  assumes "rc_inv s ext" "ubx_config_rm U (Some b) name s = Some (r, s')"
  shows "rc_inv s' ext"
proof -
  have step: "rc_inv t' ext" if "rc_inv t ext" "ubx_config_free a t = Some t'" for a t t'
  proof -
    from that(2) obtain cfg where "cfgs t a = Some cfg" by (auto simp: ubx_config_free_def)
    from rc_inv_config_free [OF that(1) this] that(2) show ?thesis by auto
  qed
  have "rc_inv (s\<lparr>blks := B\<rparr>) ext" for B using assms(1) by (rule rc_inv_cong) simp_all
  with assms step show ?thesis
    by (fastforce simp: ubx_config_rm_def Let_def split: option.splits)
qed

lemma data_alloc_t_any:
  assumes "ubx_data_alloc_t (Some ta) n s = Some (r, s')"
  obtains (fail) k q where "r = None" "s' = s\<lparr>next_addr := k, oom := q\<rparr>" "next_addr s \<le> k"
  | (ok) d q where "r = Some (next_addr s)" "d_refcnt d = 0" "d_data d \<noteq> Buf_freed"
      "s' = s\<lparr>next_addr := Suc (next_addr s), oom := q, dats := (dats s)(next_addr s \<mapsto> d)\<rparr>"
proof (cases s rule: calloc_cases)
  case fail
  with assms that(1) [where k = "next_addr s" and q = "tl (oom s)"] show ?thesis by (simp add: ubx_data_alloc_t_def)
next
  case ok
  let ?s1 = "s\<lparr>next_addr := Suc (next_addr s), oom := tl (oom s)\<rparr>"
  show ?thesis
  proof (cases "0 < n")
    case False
    with assms ok show ?thesis
      by (intro that(2) [where d = "\<lparr>d_refcnt = 0, d_type = Some ta, d_len = n, d_data = Buf_null\<rparr>" and q = "tl (oom s)"])
        (simp_all add: ubx_data_alloc_t_def)
  next
    case True
    with assms ok obtain t where t: "typs s ta = Some t" by (auto simp: ubx_data_alloc_t_def bind_eq_Some_conv)
    let ?k = "unat (word_of_int (t_size t) :: u64)"
    have "\<exists>b q. buf_calloc (nat n) ?k ?s1 = (b, ?s1\<lparr>oom := q\<rparr>) \<and> b \<noteq> Buf_freed"
      by (intro exI [of _ "fst (buf_calloc (nat n) ?k ?s1)"] exI [of _ "tl (tl (oom s))"], cases ?s1 rule: mem_alloc_cases)
        (simp_all add: buf_calloc_def)
    then obtain b q where b: "buf_calloc (nat n) ?k ?s1 = (b, ?s1\<lparr>oom := q\<rparr>)" "b \<noteq> Buf_freed" by blast
    show ?thesis
    proof (cases "b = Buf_null")
      case True
      with assms ok t b \<open>0 < n\<close> that(1) [where k = "Suc (next_addr s)" and q = q] show ?thesis by (simp add: ubx_data_alloc_t_def)
    next
      case False
      with assms ok t b \<open>0 < n\<close> show ?thesis
        by (intro that(2) [where d = "\<lparr>d_refcnt = 0, d_type = Some ta, d_len = n, d_data = b\<rparr>" and q = q])
          (simp_all add: ubx_data_alloc_t_def)
    qed
  qed
qed

lemma buf_realloc_live:
  assumes "buf_realloc b n s = Some (old, p, s')" "n \<noteq> 0"
  obtains q where "s' = s\<lparr>oom := q\<rparr>" "p \<noteq> Buf_freed" "b \<noteq> Buf_freed" "p = Buf_null \<Longrightarrow> old = b"
proof (cases s rule: mem_alloc_cases)
  case ok
  with assms that [of "tl (oom s)"] show ?thesis by (auto simp: buf_realloc_def split: buf.splits)
next
  case fail
  with assms that [of "tl (oom s)"] show ?thesis by (auto simp: buf_realloc_def split: buf.splits)
qed

lemma data_resize_any:
  assumes "ubx_data_resize d n s = Some (r, s')" "dats s d = Some dat" "d_type dat = Some ta" "typs s ta = Some t"
    "(word_of_int (n * t_size t) :: u32) \<noteq> 0"
  obtains dat' q where "s' = s\<lparr>oom := q, dats := (dats s)(d \<mapsto> dat')\<rparr>" "d_refcnt dat' = d_refcnt dat" "d_data dat' \<noteq> Buf_freed"
proof -
  let ?z = "unat (word_of_int (n * t_size t) :: u32)"
  let ?r = "\<lambda>old p s1. s1\<lparr>dats := (dats s1)(d \<mapsto> if p = Buf_null then dat\<lparr>d_data := old\<rparr> else dat\<lparr>d_data := p, d_len := n\<rparr>)\<rparr>"
  have lc: "long_chk (n * t_size t) = Some (n * t_size t)" using assms(1-4) by (simp add: ubx_data_resize_def long_chk_def split: if_splits)
  obtain old p s1 where re: "buf_realloc (d_data dat) ?z s = Some (old, p, s1)"
  proof (cases "buf_realloc (d_data dat) ?z s")
    case None
    with assms(1-4) lc show ?thesis by (simp add: ubx_data_resize_def)
  qed (metis prod_cases3 that)
  have s': "s' = ?r old p s1" using assms(1-4) lc re by (simp add: ubx_data_resize_def split: if_splits)
  from assms(5) have "unat (word_of_int (n * t_size t) :: u32) \<noteq> 0" by (simp add: unat_eq_0)
  from buf_realloc_live [OF re this] obtain q where
    "s1 = s\<lparr>oom := q\<rparr>" "p \<noteq> Buf_freed" "d_data dat \<noteq> Buf_freed" "p = Buf_null \<Longrightarrow> old = d_data dat" by metis
  with s' show ?thesis
    by (intro that [where q = q and dat' = "if p = Buf_null then dat\<lparr>d_data := old\<rparr> else dat\<lparr>d_data := p, d_len := n\<rparr>"]) auto
qed

lemma rc_inv_same_refs:
  assumes "rc_inv s ext" "dats s d = Some dat" "d_refcnt dat' = d_refcnt dat" "d_data dat' \<noteq> Buf_freed"
    "s' = s\<lparr>oom := q, dats := (dats s)(d \<mapsto> dat')\<rparr>"
  shows "rc_inv s' ext"
proof -
  have "rc_fun ((dats s)(d \<mapsto> dat')) (nrefs (cfgs s) ext)"
    using assms(1-3) rc_fun_upd [of "dats s" "nrefs (cfgs s) ext" "nrefs (cfgs s) ext d" dat' d]
    by (auto simp: rc_inv_def rc_fun_def dest: spec [of _ d])
  then show ?thesis using assms fresh_from_lt [of "next_addr s" "dats s" d dat]
    by (auto simp: rc_inv_def no_dangling_def)
qed

lemma value_step_rc:
  assumes "value_step U p p'" "rc_inv (fst p) (snd p)"
  shows "rc_inv (fst p') (snd p')"
  using assms
proof (induction rule: value_step.induct)
  case (alloc ta n s r s' ext)
  from alloc(1) show ?case
  proof (cases rule: data_alloc_t_any)
    case (fail k q)
    with alloc show ?thesis by (auto intro: rc_inv_cong)
  next
    case (ok d q)
    with alloc rc_inv_new_data(1) [of s ext "next_addr s" s' d] show ?thesis by (simp add: fun_upd_def)
  qed
next
  case (resize s d dat ta t n r s' ext)
  from data_resize_any [OF resize(5,1-4)] obtain dat' q where
    "s' = s\<lparr>oom := q, dats := (dats s)(d \<mapsto> dat')\<rparr>" "d_refcnt dat' = d_refcnt dat" "d_data dat' \<noteq> Buf_freed" .
  with resize rc_inv_same_refs [of s ext d dat dat'] show ?case by simp
next
  case (release ext d s s')
  with rc_inv_free [of s ext d] show ?case by (auto simp: fun_upd_def)
next
  case (assign s d dat c cfg r s' ext)
  from rc_inv_assign [OF _ assign(2,1,3), of ext] assign(4,5) show ?case by auto
next
  case (config_add b name doc tn mn mx attrs s r s' ext)
  then show ?case by (auto intro: config_add2_rc)
next
  case (config_rm b name s r s' ext)
  then show ?case by (auto intro: config_rm_rc)
qed

lemma value_steps_rc:
  "(value_step U)\<^sup>*\<^sup>* p p' \<Longrightarrow> rc_inv (fst p) (snd p) \<Longrightarrow> rc_inv (fst p') (snd p')"
  by (induction rule: rtranclp_induct) (auto intro: value_step_rc)

section \<open>Checking the ranges\<close>

definition late :: "ubx_config \<Rightarrow> bool" where
  "late c \<longleftrightarrow> c_attrs c AND CONFIG_ATTR_CHECKLATE \<noteq> 0"

definition unconstrained :: "ubx_config \<Rightarrow> bool" where
  "unconstrained c \<longleftrightarrow> c_min c = 0 \<and> c_max c = 0"

definition len_in_range :: "'w ubx \<Rightarrow> ubx_config \<Rightarrow> bool" where
  "len_in_range s c \<longleftrightarrow> (case c_value c of None \<Rightarrow> False
     | Some d \<Rightarrow> (case dats s d of None \<Rightarrow> False
        | Some dat \<Rightarrow> uint (c_min c) \<le> d_len dat \<and> d_len dat \<le> uint (c_max c)))"

definition has_value :: "'w ubx \<Rightarrow> addr \<Rightarrow> bool" where
  "has_value s a \<longleftrightarrow> (\<exists>c d. cfgs s a = Some c \<and> c_value c = Some d \<and> dats s d \<noteq> None)"

lemma check_minmax_loop_spec:
  assumes "ubx_block_log blk s = Some ()" "\<forall>a \<in> set cs. has_value s a"
  shows "check_minmax_loop blk checklate cs ret s = Some
    (if \<forall>a \<in> set cs. \<forall>c. cfgs s a = Some c \<longrightarrow> late c = checklate \<longrightarrow> unconstrained c \<or> len_in_range s c
     then ret else EINVALID_CONFIG_LEN)"
  using assms(2)
proof (induction cs arbitrary: ret)
  case (Cons a cs)
  from Cons.prems obtain c d dat where c: "cfgs s a = Some c" "c_value c = Some d" "dats s d = Some dat"
    by (auto simp: has_value_def)
  have IH: "check_minmax_loop blk checklate cs r s = Some
    (if \<forall>a \<in> set cs. \<forall>c. cfgs s a = Some c \<longrightarrow> late c = checklate \<longrightarrow> unconstrained c \<or> len_in_range s c
     then r else EINVALID_CONFIG_LEN)" for r
    using Cons by simp
  let ?P = "\<lambda>a. \<forall>c. cfgs s a = Some c \<longrightarrow> late c = checklate \<longrightarrow> unconstrained c \<or> len_in_range s c"
  consider "?P a" "unconstrained c \<or> late c \<noteq> checklate"
    | "?P a" "\<not> unconstrained c" "late c = checklate" "len_in_range s c"
    | "\<not> ?P a" "\<not> unconstrained c" "late c = checklate" "\<not> len_in_range s c"
    using c(1) by auto
  then show ?case
  proof cases
    case 1
    then have "check_minmax_loop blk checklate (a # cs) ret s = check_minmax_loop blk checklate cs ret s"
      using c(1) by (auto simp: unconstrained_def late_def)
    with 1(1) show ?thesis by (simp add: IH)
  next
    case 2
    then have "uint (c_min c) \<le> d_len dat" "d_len dat \<le> uint (c_max c)"
      using c by (simp_all add: len_in_range_def)
    moreover from this(1) have "\<not> (d_len dat = 0 \<and> 0 < c_min c)" by (auto simp: word_less_def)
    ultimately have "check_minmax_loop blk checklate (a # cs) ret s = check_minmax_loop blk checklate cs ret s"
      using c 2 by (auto simp: unconstrained_def late_def)
    with 2(1) show ?thesis by (simp add: IH)
  next
    case 3
    then have "d_len dat < uint (c_min c) \<or> uint (c_max c) < d_len dat"
      using c by (auto simp: len_in_range_def)
    then have "check_minmax_loop blk checklate (a # cs) ret s =
        check_minmax_loop blk checklate cs EINVALID_CONFIG_LEN s"
      using c 3 assms(1) by (auto simp: unconstrained_def late_def)
    moreover have "check_minmax_loop blk checklate cs EINVALID_CONFIG_LEN s = Some EINVALID_CONFIG_LEN"
      by (simp add: IH)
    moreover have "\<not> (\<forall>a \<in> set (a # cs). ?P a)" using 3(1) by simp
    ultimately show ?thesis by (simp only: if_False)
  qed
qed simp

section \<open>Lists of configs\<close>

definition cfg_list_ok :: "'w ubx \<Rightarrow> addr list \<Rightarrow> bool" where
  "cfg_list_ok s cs \<longleftrightarrow> distinct cs \<and> (\<forall>c \<in> set cs. \<exists>cfg. cfgs s c = Some cfg \<and> length (c_name cfg) \<le> 39)"

definition cfg_named :: "'w ubx \<Rightarrow> string \<Rightarrow> addr \<Rightarrow> bool" where
  "cfg_named s n c \<longleftrightarrow> (case cfgs s c of None \<Rightarrow> False | Some cfg \<Rightarrow> c_name cfg = take 39 n)"

lemma config_find_eq:
  "cfg_list_ok s cs \<Longrightarrow> config_find s cs n = Some (find (cfg_named s n) cs)"
  by (induction cs)
    (auto simp: cfg_list_ok_def cfg_named_def strncmp_eq_def UBX_CONFIG_NAME_MAXLEN_def)

lemma config_get_eq:
  "blks s b = Some blk \<Longrightarrow> cfg_list_ok s (b_configs blk) \<Longrightarrow>
    ubx_config_get (Some b) (Some n) s = Some (find (cfg_named s n) (b_configs blk))"
  by (simp add: ubx_config_get_def config_find_eq)

lemma find_append: "find P (xs @ ys) = (case find P xs of None \<Rightarrow> find P ys | Some x \<Rightarrow> Some x)"
  by (induction xs) auto

lemma find_cong_set: "(\<And>x. x \<in> set xs \<Longrightarrow> P x = Q x) \<Longrightarrow> find P xs = find Q xs"
  by (induction xs) auto

context ut_laws
begin

lemma config_add_t_get:
  assumes r: "ubx_config_add_t U b n doc (Some ta) mn mx attrs s = Some (0, s')"
    and b: "blks s b = Some blk" and l: "cfg_list_ok s (b_configs blk)"
    and fr: "fresh_from (next_addr s) (cfgs s)"
  obtains v where "blks s' = (blks s)(b \<mapsto> blk\<lparr>b_configs := b_configs blk @ [next_addr s]\<rparr>)"
    "cfgs s' = (cfgs s)(next_addr s \<mapsto> new_cfg b n doc (Some ta) mn mx attrs v)"
    "cfg_list_ok s' (b_configs blk @ [next_addr s])"
    "ubx_config_get (Some b) (Some m) s' =
      (if take 39 m = n then Some (Some (next_addr s)) else ubx_config_get (Some b) (Some m) s)"
  using r b
proof (cases rule: config_add_t_cases)
  case (ok k q v D)
  let ?a = "next_addr s"
  from fr have a: "cfgs s ?a = None" by (simp add: fresh_from_def)
  with l have na: "?a \<notin> set (b_configs blk)" by (auto simp: cfg_list_ok_def)
  from l have d: "dl_append U (b_configs blk) ?a = b_configs blk @ [?a]"
    using append_law na by (simp add: cfg_list_ok_def)
  have b': "blks s' = (blks s)(b \<mapsto> blk\<lparr>b_configs := b_configs blk @ [?a]\<rparr>)" by (simp add: ok d)
  have c': "cfgs s' = (cfgs s)(?a \<mapsto> new_cfg b n doc (Some ta) mn mx attrs v)" by (simp add: ok)
  have l': "cfg_list_ok s' (b_configs blk @ [?a])"
    using l na ok(3) by (auto simp: cfg_list_ok_def c')
  have same: "find (cfg_named s' m) (b_configs blk) = find (cfg_named s m) (b_configs blk)"
    using na by (intro find_cong_set) (auto simp: cfg_named_def c')
  have none: "find (cfg_named s n) (b_configs blk) = None"
    using ok(2) config_get_eq [OF b l, of n] by simp
  have none': "find (cfg_named s m) (b_configs blk) = None" if "take 39 m = n"
  proof -
    from that have e: "take 39 m = take 39 n" by auto
    have "cfg_named s m = cfg_named s n" unfolding cfg_named_def e ..
    with none show ?thesis by simp
  qed
  have nm: "cfg_named s' m ?a \<longleftrightarrow> take 39 m = n" by (auto simp: cfg_named_def c')
  have "ubx_config_get (Some b) (Some m) s' = Some (find (cfg_named s' m) (b_configs blk @ [?a]))"
    using config_get_eq [of s' b "blk\<lparr>b_configs := b_configs blk @ [?a]\<rparr>" m] by (simp add: b' l')
  also have "\<dots> = (if take 39 m = n then Some (Some ?a) else ubx_config_get (Some b) (Some m) s)"
    using config_get_eq [OF b l, of m] none' nm
    by (auto simp: find_append same split: option.split)
  finally show ?thesis using that b' c' l' by blast
qed simp_all

end

section \<open>Properties\<close>

text \<open>C3: whatever clients do with values and configs (allocating values of any length, resizing, releasing and assigning them,
  adding and removing configs, with allocations that fail; but neither resizing a value to a size that is zero at the width of
  \<open>newsz\<close> nor assigning a config the value to which it holds the only reference), a value is in memory exactly as long as a
  config or a client refers to it, its \<open>refcnt\<close> is the number of these references less one, its buffer
  is not dangling, and giving up a reference a client holds never touches freed memory.\<close>

theorem value_refcount_exact:
  assumes "(value_step U)\<^sup>*\<^sup>* (s0, \<lambda>_. 0) (s, ext)"
    "cfgs s0 = Map.empty" "dats s0 = Map.empty"
  shows "(\<forall>d. dats s d = None \<longleftrightarrow> ext d = 0 \<and> (\<forall>c cfg. cfgs s c = Some cfg \<longrightarrow> c_value cfg \<noteq> Some d)) \<and>
    (\<forall>d dat. dats s d = Some dat \<longrightarrow> d_data dat \<noteq> Buf_freed \<and>
       d_refcnt dat + 1 = int (card {c. \<exists>cfg. cfgs s c = Some cfg \<and> c_value cfg = Some d} + ext d)) \<and>
    (\<forall>d. 0 < ext d \<longrightarrow> ubx_data_free d s \<noteq> None)"
proof -
  have "rc_inv s0 (\<lambda>_. 0)" using assms(2,3)
    by (simp add: rc_inv_def fresh_from_def no_dangling_def rc_fun_def nrefs_def vrefs_def)
  with value_steps_rc [OF assms(1)] have inv: "rc_inv s ext" by simp
  then have rc: "rc_fun (dats s) (nrefs (cfgs s) ext)" and fin: "finite (dom (cfgs s))" by (simp_all add: rc_inv_def)
  have "dats s d = None \<longleftrightarrow> nrefs (cfgs s) ext d = 0" for d
    using rc by (auto simp: rc_fun_def split: option.splits dest!: spec [of _ d])
  moreover have "nrefs (cfgs s) ext d = 0 \<longleftrightarrow> ext d = 0 \<and> (\<forall>c cfg. cfgs s c = Some cfg \<longrightarrow> c_value cfg \<noteq> Some d)" for d
    using finite_vrefs [OF fin, of d] by (auto simp: nrefs_def vrefs_def)
  moreover have "d_refcnt dat + 1 = int (nrefs (cfgs s) ext d)" if "dats s d = Some dat" for d dat
    using rc that by (auto simp: rc_fun_def split: option.splits dest!: spec [of _ d])
  moreover have "ubx_data_free d s \<noteq> None" if "0 < ext d" for d
    using rc_inv_free [OF inv that] by auto
  ultimately show ?thesis using inv by (auto simp: rc_inv_def no_dangling_def nrefs_def vrefs_def)
qed

text \<open>A block without ports, configs or hooks, for the witnesses.\<close>

definition mk_blk :: "string \<Rightarrow> u16 \<Rightarrow> addr list \<Rightarrow> ubx_block" where
  "mk_blk n ty cs = \<lparr>b_name = n, b_meta_data = None, b_attrs = 0, b_type = ty, b_state = 0, b_ports = [],
     b_configs = cs, b_prototype = Some 1, b_nd = True, b_loglevel = None, b_init = None, b_start = None,
     b_stop = None, b_cleanup = None,
     b_ops = (if ty = BLOCK_TYPE_COMPUTATION then Ops_comp None 0 else Ops_inter None None 0 0)\<rparr>"

definition cfg_node :: "unit ubx" where
  "cfg_node = (two_types ''int'' ''mj'')\<lparr>blks := [10 \<mapsto> mk_blk ''b'' 1 []]\<rparr>"

theorem value_refcount_exact_witness:
  "\<exists>s ext dat. (value_step ut_ref)\<^sup>*\<^sup>* (cfg_node, \<lambda>_. 0) (s, ext) \<and> dats s 100 = Some dat \<and> d_len dat = 5 \<and>
     d_data dat = Buf (replicate 20 0) \<and>
     d_refcnt dat + 1 = int (card {c. \<exists>cfg. cfgs s c = Some cfg \<and> c_value cfg = Some 100} + ext 100)"
proof -
  define d3 where "d3 = \<lparr>d_refcnt = 0, d_type = Some 1, d_len = 3, d_data = Buf (replicate 12 0)\<rparr>"
  define d5 where "d5 = d3\<lparr>d_len := 5, d_data := Buf (replicate 20 0)\<rparr>"
  define s1 where "s1 = cfg_node\<lparr>next_addr := 101, oom := [], dats := [100 \<mapsto> d3]\<rparr>"
  define s2 where "s2 = cfg_node\<lparr>next_addr := 101, oom := [], dats := [100 \<mapsto> d5]\<rparr>"
  have t: "typs cfg_node (Suc 0) = Some (reg_type ''int'' 0)" "t_size (reg_type ''int'' 0) = 4"
    "next_addr cfg_node = 100" "oom cfg_node = []" "dats cfg_node = Map.empty" "cfgs cfg_node = Map.empty"
    by (simp_all add: cfg_node_def two_types_def empty_node_def reg_type_def mk_type_def)
  have a: "ubx_data_alloc_t (Some 1) 3 cfg_node = Some (Some 100, s1)"
    by (simp add: ubx_data_alloc_t_def calloc_def buf_calloc_def mem_alloc_def Let_def t s1_def d3_def)
  have r: "ubx_data_resize 100 5 s1 = Some (0, s2)"
    by (simp add: ubx_data_resize_def s1_def s2_def d3_def d5_def t long_chk_def in_long_def buf_realloc_def mem_alloc_def Let_def
        LONG_MAX_def take_replicate flip: replicate_add)
  have "value_step ut_ref (cfg_node, \<lambda>_. 0) (s1, (\<lambda>_. 0)(100 := 1))" using alloc [OF a, of ut_ref "\<lambda>_. 0"] by simp
  moreover have "value_step ut_ref (s1, (\<lambda>_. 0)(100 := 1)) (s2, (\<lambda>_. 0)(100 := 1))"
    by (rule resize [OF _ _ _ _ r, of d3 1 "reg_type ''int'' 0"]) (simp_all add: s1_def d3_def t)
  ultimately have st: "(value_step ut_ref)\<^sup>*\<^sup>* (cfg_node, \<lambda>_. 0) (s2, (\<lambda>_. 0)(100 := 1))" by (meson r_into_rtranclp rtranclp_trans)
  have e: "cfgs cfg_node = Map.empty" "dats cfg_node = Map.empty" by (simp_all add: t)
  have d: "dats s2 100 = Some d5" by (simp add: s2_def)
  from value_refcount_exact [OF st e] d
  have "d_refcnt d5 + 1 = int (card {c. \<exists>cfg. cfgs s2 c = Some cfg \<and> c_value cfg = Some 100} + ((\<lambda>_. 0)(100 := 1 :: nat)) (100 :: nat))" by blast
  with st d show ?thesis
    by (intro exI [of _ s2] exI [of _ "(\<lambda>_. 0)(100 := 1)"] exI [of _ d5]) (simp add: d5_def)
qed

text \<open>Assigning to a config the value it already has, when nobody else refers to it, frees the value
  and then increments the reference count in the freed memory.\<close>

theorem ubx_config_assign_self_uaf:
  assumes "cfgs s c = Some cfg" "c_value cfg = Some d" "dats s d = Some dat" "d_refcnt dat = 0"
    "d_type dat = c_type cfg"
  shows "ubx_config_assign c d s = None"
  using assms by (simp add: ubx_config_assign_def ubx_data_free_def Let_def buf_free_def)

theorem ubx_config_assign_self_uaf_witness:
  "ubx_config_assign 5 2 ((data_node (int_data 1 (Buf [7, 0, 0, 0])))
     \<lparr>cfgs := [5 \<mapsto> new_cfg 10 ''c'' None (Some 1) 0 0 0 (Some 2)]\<rparr>) = None"
  by (rule ubx_config_assign_self_uaf [of _ _ "new_cfg 10 ''c'' None (Some 1) 0 0 0 (Some 2)" 2
        "int_data 1 (Buf [7, 0, 0, 0])"]) (simp_all add: data_node_def int_data_def)

text \<open>C32: \<open>check_minmax\<close> on a block whose configs have values and which can log accepts exactly when
  every config that is due for this check (\<open>CONFIG_ATTR_CHECKLATE\<close> ones in start, the others in init)
  and constrained has a length within its bounds, and otherwise reports \<open>EINVALID_CONFIG_LEN\<close>. This is not what its
  comment says: there a minimum \<open>N > 0\<close> with the maximum unset means ``zero to many'', but, the maximum then being
  \<open>CONFIG_LEN_MAX\<close>, the code rejects a block with a due config of this kind that is empty.\<close>

theorem check_minmax_ranges:
  assumes "blks s b = Some blk" "ubx_block_log blk s = Some ()" "\<forall>a \<in> set (b_configs blk). has_value s a"
  shows "check_minmax b checklate s = Some
    (if \<forall>a \<in> set (b_configs blk). \<forall>c. cfgs s a = Some c \<longrightarrow> late c = checklate \<longrightarrow>
          unconstrained c \<or> len_in_range s c
     then 0 else EINVALID_CONFIG_LEN) \<and>
    (\<forall>a \<in> set (b_configs blk). \<forall>c d dat. cfgs s a = Some c \<and> late c = checklate \<and> 0 < c_min c \<and> c_max c = cfg_max (c_min c) 0 \<and>
       c_value c = Some d \<and> dats s d = Some dat \<and> d_len dat = 0 \<longrightarrow> check_minmax b checklate s = Some EINVALID_CONFIG_LEN)"
proof -
  have sp: "check_minmax b checklate s = Some
    (if \<forall>a \<in> set (b_configs blk). \<forall>c. cfgs s a = Some c \<longrightarrow> late c = checklate \<longrightarrow> unconstrained c \<or> len_in_range s c
     then 0 else EINVALID_CONFIG_LEN)"
    using check_minmax_loop_spec [OF assms(2,3), of checklate 0] assms(1) by (simp add: check_minmax_def)
  have "check_minmax b checklate s = Some EINVALID_CONFIG_LEN"
    if "a \<in> set (b_configs blk)" "cfgs s a = Some c" "late c = checklate" "0 < c_min c" "c_value c = Some d" "dats s d = Some dat"
      "d_len dat = 0" for a c d dat
  proof -
    from that(4) have "\<not> unconstrained c" "0 < uint (c_min c)" by (auto simp: unconstrained_def word_less_def)
    with that have "\<not> (\<forall>a \<in> set (b_configs blk). \<forall>c. cfgs s a = Some c \<longrightarrow> late c = checklate \<longrightarrow> unconstrained c \<or> len_in_range s c)"
      by (fastforce simp: len_in_range_def)
    then show ?thesis by (simp only: sp if_False)
  qed
  with sp show ?thesis by blast
qed

definition minmax_node :: "u16 \<Rightarrow> u16 \<Rightarrow> u32 \<Rightarrow> unit ubx" where
  "minmax_node mn mx attrs = (data_node (int_data 1 (Buf [7, 0, 0, 0])))
     \<lparr>blks := [10 \<mapsto> mk_blk ''b'' 1 [5]], cfgs := [5 \<mapsto> new_cfg 10 ''c'' None (Some 1) mn mx attrs (Some 2)]\<rparr>"

theorem check_minmax_ranges_witness:
  "check_minmax 10 False (minmax_node 1 2 0) = Some 0 \<and> check_minmax 10 False (minmax_node 2 2 0) = Some EINVALID_CONFIG_LEN \<and>
   check_minmax 10 False (minmax_node 2 2 CONFIG_ATTR_CHECKLATE) = Some 0 \<and>
   check_minmax 10 False ((minmax_node 3 0 0)\<lparr>dats := [2 \<mapsto> (int_data 0 Buf_null)]\<rparr>) = Some EINVALID_CONFIG_LEN"
proof -
  have n: "blks (minmax_node mn mx at) 10 = Some (mk_blk ''b'' 1 [5])"
    "ubx_block_log (mk_blk ''b'' 1 [5]) (minmax_node mn mx at) = Some ()"
    "\<forall>a \<in> set (b_configs (mk_blk ''b'' 1 [5])). has_value (minmax_node mn mx at) a" for mn mx at
    by (simp_all add: minmax_node_def mk_blk_def ubx_block_log_def has_value_def data_node_def)
  let ?s = "(minmax_node 3 0 0)\<lparr>dats := [2 \<mapsto> (int_data 0 Buf_null)]\<rparr>"
  have e: "blks ?s 10 = Some (mk_blk ''b'' 1 [5])" "ubx_block_log (mk_blk ''b'' 1 [5]) ?s = Some ()"
    "\<forall>a \<in> set (b_configs (mk_blk ''b'' 1 [5])). has_value ?s a"
    by (simp_all add: minmax_node_def mk_blk_def ubx_block_log_def has_value_def data_node_def)
  have "check_minmax 10 False ?s = Some EINVALID_CONFIG_LEN"
    using check_minmax_ranges [OF e, of False]
    by (auto simp: mk_blk_def minmax_node_def late_def int_data_def data_node_def cfg_max_def)
  then show ?thesis
    by (simp only: check_minmax_ranges [OF n, of False, THEN conjunct1])
      (simp add: mk_blk_def minmax_node_def late_def unconstrained_def len_in_range_def data_node_def
        int_data_def cfg_max_def CONFIG_ATTR_CHECKLATE_def)
qed

text \<open>A config that is added with a minimum \<open>N > 0\<close> and no maximum must have at least \<open>N\<close> and at most
  65535 elements; it is not the ``zero to many'' the documentation of \<open>check_minmax\<close> promises.\<close>

theorem unset_max_means_at_least:
  assumes "cfgs s a = Some (new_cfg b name doc (Some ta) mn 0 attrs (Some d))" "dats s d = Some dat" "0 < mn"
    "blks s b = Some blk" "ubx_block_log blk s = Some ()" "b_configs blk = [a]"
    "attrs AND CONFIG_ATTR_CHECKLATE = 0"
  shows "check_minmax b False s = Some (if uint mn \<le> d_len dat \<and> d_len dat \<le> 65535 then 0 else EINVALID_CONFIG_LEN)"
proof -
  have h: "\<forall>a \<in> set [a]. has_value s a" using assms(1,2) by (simp add: has_value_def)
  from assms(3) have "mn \<noteq> 0" by auto
  with check_minmax_loop_spec [OF assms(5) h, of False 0] assms show ?thesis
    by (simp add: check_minmax_def late_def unconstrained_def len_in_range_def cfg_max_def CONFIG_LEN_MAX_def)
qed

theorem unset_max_means_at_least_witness:
  "check_minmax 10 False (minmax_node 2 0 0) = Some EINVALID_CONFIG_LEN"
  using unset_max_means_at_least [of "minmax_node 2 0 0" 5 10 "''c''" None 1 2 0 2 "int_data 1 (Buf [7, 0, 0, 0])"
      "mk_blk ''b'' 1 [5]"]
  by (simp add: minmax_node_def data_node_def mk_blk_def ubx_block_log_def int_data_def)

text \<open>After a config was added it is found under its name (names are compared up to 39 characters, and a
  new name has at most 39), with the type, range, attributes and owner that were asked for, and every other
  name still gives the config it gave before.\<close>

theorem ubx_config_add_get:
  assumes "ut_laws U" "ubx_config_add2 U (Some b) (Some n) doc tn mn mx attrs s = Some (0, s')"
    "blks s b = Some blk" "cfg_list_ok s (b_configs blk)" "fresh_from (next_addr s) (cfgs s)"
  shows "\<exists>a cfg ta. length n \<le> 39 \<and> ubx_type_get U s tn = Some ta \<and>
    (\<forall>m. ubx_config_get (Some b) (Some m) s' =
       (if take 39 m = n then Some (Some a) else ubx_config_get (Some b) (Some m) s)) \<and>
    cfgs s' = (cfgs s)(a \<mapsto> cfg) \<and> cfgs s a = None \<and> c_name cfg = n \<and> c_type cfg = Some ta \<and> c_block cfg = b \<and>
    c_min cfg = mn \<and> c_max cfg = cfg_max mn mx \<and> c_attrs cfg = attrs"
proof -
  from assms(2,3) obtain ta where ta: "ubx_type_get U s tn = Some ta"
    "ubx_config_add_t U b n doc (Some ta) mn mx attrs s = Some (0, s')"
    by (auto simp: ubx_config_add2_def split: if_splits option.splits)
  have len: "length n \<le> 39" using ta(2) assms(3) by (cases rule: config_add_t_cases) simp_all
  have a: "cfgs s (next_addr s) = None" using assms(5) by (simp add: fresh_from_def)
  note g = ut_laws.config_add_t_get [OF assms(1) ta(2) assms(3,4,5)]
  obtain v where v: "cfgs s' = (cfgs s)(next_addr s \<mapsto> new_cfg b n doc (Some ta) mn mx attrs v)"
    by (rule g)
  have "ubx_config_get (Some b) (Some m) s' =
       (if take 39 m = n then Some (Some (next_addr s)) else ubx_config_get (Some b) (Some m) s)" for m
    by (rule g [of m])
  with len ta(1) v a show ?thesis
    by (intro exI [of _ "next_addr s"] exI [of _ "new_cfg b n doc (Some ta) mn mx attrs v"] exI [of _ ta]) simp
qed

theorem ubx_config_add_get_witness:
  "\<exists>s' a. ubx_config_add2 ut_ref (Some 10) (Some ''c'') None (Some ''int'') 2 0 0 cfg_node = Some (0, s') \<and>
     ubx_config_get (Some 10) (Some ''c'') s' = Some (Some a)"
proof -
  obtain s where s: "ubx_config_add2 ut_ref (Some 10) (Some ''c'') None (Some ''int'') 2 0 0 cfg_node = Some (0, s)"
    by (simp add: cfg_node_def ubx_config_add2_def ubx_config_add_t_def ubx_config_get_def mk_blk_def
        two_types_def empty_node_def ubx_type_get_def calloc_def UBX_CONFIG_NAME_MAXLEN_def
        ubx_data_alloc_t_def cfg_max_def Let_def zero_cfg_def CONFIG_LEN_MAX_def)
  have "blks cfg_node 10 = Some (mk_blk ''b'' 1 [])" "cfg_list_ok cfg_node (b_configs (mk_blk ''b'' 1 []))"
    "fresh_from (next_addr cfg_node) (cfgs cfg_node)"
    by (simp_all add: cfg_node_def mk_blk_def cfg_list_ok_def fresh_from_def two_types_def empty_node_def)
  from ubx_config_add_get [OF ref.ut_laws_axioms s this] s show ?thesis by auto
qed

end
