(* ===== verification/Ubx_Port.thy ===== *)
theory Ubx_Port
  imports Ubx_Config "HOL-Library.Multiset"
begin

text \<open>
  Ports and connections, from \<^verbatim>\<open>libubx/ubx.c\<close>: adding, finding, resizing and removing the ports of
  a block, the NULL-terminated arrays of iblocks a port is connected to, and connecting and
  disconnecting ports. An array is \<open>None\<close> (NULL) or the list of its elements before the terminator.
\<close>

section \<open>Predicates\<close>

definition port_is_out :: "ubx_port \<Rightarrow> bool" where "port_is_out p \<longleftrightarrow> p_out_type p \<noteq> None"
definition port_is_in :: "ubx_port \<Rightarrow> bool" where "port_is_in p \<longleftrightarrow> p_in_type p \<noteq> None"
definition port_is_inout :: "ubx_port \<Rightarrow> bool" where "port_is_inout p \<longleftrightarrow> port_is_out p \<and> port_is_in p"
definition port_is_cloned :: "ubx_port \<Rightarrow> bool" where "port_is_cloned p \<longleftrightarrow> p_attrs p AND PORT_ATTR_CLONED \<noteq> 0"
definition port_is_dyn :: "ubx_port \<Rightarrow> bool" where "port_is_dyn p \<longleftrightarrow> \<not> port_is_cloned p"

section \<open>Lookup, adding, removing\<close>

fun port_find :: "'w ubx \<Rightarrow> addr list \<Rightarrow> string \<Rightarrow> ptr option" where
  "port_find s [] name = Some None"
| "port_find s (p # ps) name = do {
     port \<leftarrow> prts s p;
     if strncmp_eq (p_name port) name UBX_PORT_NAME_MAXLEN then Some (Some p) else port_find s ps name }"

definition ubx_port_get :: "ptr \<Rightarrow> string option \<Rightarrow> 'w ubx \<Rightarrow> ptr option" where
  "ubx_port_get b name s =
     (case b of
        None \<Rightarrow> Some None
      | Some ba \<Rightarrow> do {
          blk \<leftarrow> blks s ba;
          case name of
            None \<Rightarrow> do { _ \<leftarrow> ubx_block_log blk s; Some None }
          | Some n \<Rightarrow> port_find s (b_ports blk) n })"

definition new_port ::
  "addr \<Rightarrow> string \<Rightarrow> string option \<Rightarrow> u32 \<Rightarrow> ptr \<Rightarrow> int \<Rightarrow> ptr \<Rightarrow> int \<Rightarrow> ubx_port" where
  "new_port b name doc attrs in_type in_len out_type out_len =
     \<lparr>p_name = strncpy UBX_PORT_NAME_MAXLEN name, p_doc = doc, p_attrs = attrs, p_block = b,
      p_in_type = in_type, p_out_type = out_type,
      p_in_data_len = (if in_len = 0 then 1 else in_len), p_out_data_len = (if out_len = 0 then 1 else out_len),
      p_in_interaction = None, p_out_interaction = None\<rparr>"

text \<open>\<open>__ubx_port_add\<close>\<close>

definition ubx_port_add_t ::
  "ut_lib \<Rightarrow> addr \<Rightarrow> string \<Rightarrow> string option \<Rightarrow> u32 \<Rightarrow> ptr \<Rightarrow> int \<Rightarrow> ptr \<Rightarrow> int \<Rightarrow> 'w ubx \<Rightarrow>
     (int \<times> 'w ubx) option" where
  "ubx_port_add_t U b name doc attrs in_type in_len out_type out_len s = do {
     blk \<leftarrow> blks s b;
     p \<leftarrow> ubx_port_get (Some b) (Some name) s;
     if p \<noteq> None then do { _ \<leftarrow> ubx_block_log blk s; Some (EENTEXISTS, s) }
     else (case calloc s of
         (None, s) \<Rightarrow> do { _ \<leftarrow> ubx_block_log blk s; Some (EOUTOFMEM, s) }
       | (Some a, s) \<Rightarrow>
           if length name > UBX_PORT_NAME_MAXLEN
           then do { _ \<leftarrow> ubx_block_log blk s; Some (EINVALID_PORT, s) }
           else (let (docok, s) = (if doc = None then (True, s) else mem_alloc s) in
             if \<not> docok then do { _ \<leftarrow> ubx_block_log blk s; Some (EOUTOFMEM, s) }
             else Some (0, s\<lparr>prts := (prts s)(a \<mapsto> new_port b name doc attrs in_type in_len out_type out_len),
                    blks := (blks s)(b \<mapsto> blk\<lparr>b_ports := dl_append U (b_ports blk) a\<rparr>)\<rparr>))) }"

text \<open>Resolving an optional type name: \<open>Inl\<close> when the node does not know it.\<close>

definition resolve_type :: "ut_lib \<Rightarrow> 'w ubx \<Rightarrow> string option \<Rightarrow> unit + ptr" where
  "resolve_type U s tn =
     (case tn of None \<Rightarrow> Inr None
      | Some n \<Rightarrow> (case ubx_type_get U s (Some n) of None \<Rightarrow> Inl () | Some t \<Rightarrow> Inr (Some t)))"

definition ubx_port_add ::
  "ut_lib \<Rightarrow> ptr \<Rightarrow> string option \<Rightarrow> string option \<Rightarrow> u32 \<Rightarrow> string option \<Rightarrow> int \<Rightarrow> string option \<Rightarrow> int \<Rightarrow>
     'w ubx \<Rightarrow> (int \<times> 'w ubx) option" where
  "ubx_port_add U b name doc attrs in_tn in_len out_tn out_len s =
     (case b of
        None \<Rightarrow> Some (EINVALID_BLOCK, s)
      | Some ba \<Rightarrow> do {
          blk \<leftarrow> blks s ba;
          if (in_tn \<noteq> None \<or> out_tn \<noteq> None) \<and> \<not> b_nd blk then None
          else (case resolve_type U s in_tn of
              Inl _ \<Rightarrow> do { _ \<leftarrow> ubx_block_log blk s; Some (EINVALID_TYPE, s) }
            | Inr in_type \<Rightarrow>
                (case resolve_type U s out_tn of
                   Inl _ \<Rightarrow> do { _ \<leftarrow> ubx_block_log blk s; Some (EINVALID_TYPE, s) }
                 | Inr out_type \<Rightarrow> do {
                     n \<leftarrow> name;
                     ubx_port_add_t U ba n doc attrs in_type in_len out_type out_len s })) })"

definition ubx_outport_add ::
  "ut_lib \<Rightarrow> ptr \<Rightarrow> string option \<Rightarrow> string option \<Rightarrow> u32 \<Rightarrow> string option \<Rightarrow> int \<Rightarrow> 'w ubx \<Rightarrow> (int \<times> 'w ubx) option" where
  "ubx_outport_add U b name doc attrs out_tn out_len s = ubx_port_add U b name doc attrs None 0 out_tn out_len s"

definition ubx_inport_add ::
  "ut_lib \<Rightarrow> ptr \<Rightarrow> string option \<Rightarrow> string option \<Rightarrow> u32 \<Rightarrow> string option \<Rightarrow> int \<Rightarrow> 'w ubx \<Rightarrow> (int \<times> 'w ubx) option" where
  "ubx_inport_add U b name doc attrs in_tn in_len s = ubx_port_add U b name doc attrs in_tn in_len None 0 s"

definition ubx_port_free :: "addr \<Rightarrow> 'w ubx \<Rightarrow> 'w ubx option" where
  "ubx_port_free p s = do { _ \<leftarrow> prts s p; Some (s\<lparr>prts := (prts s)(p := None)\<rparr>) }"

definition ubx_port_rm :: "ut_lib \<Rightarrow> ptr \<Rightarrow> string option \<Rightarrow> 'w ubx \<Rightarrow> (int \<times> 'w ubx) option" where
  "ubx_port_rm U b name s =
     (case (b, name) of
        (Some ba, Some n) \<Rightarrow> do {
          blk \<leftarrow> blks s ba;
          p \<leftarrow> ubx_port_get (Some ba) (Some n) s;
          case p of
            None \<Rightarrow> do { _ \<leftarrow> ubx_block_log blk s; Some (ENOSUCHENT, s) }
          | Some a \<Rightarrow> do {
              let s = s\<lparr>blks := (blks s)(ba \<mapsto> blk\<lparr>b_ports := dl_delete U (b_ports blk) a\<rparr>)\<rparr>;
              s \<leftarrow> ubx_port_free a s;
              Some (0, s) } }
      | _ \<Rightarrow> Some (EINVALID_ARG, s))"

definition ubx_inport_resize :: "addr \<Rightarrow> int \<Rightarrow> 'w ubx \<Rightarrow> (int \<times> 'w ubx) option" where
  "ubx_inport_resize p len s = do {
     port \<leftarrow> prts s p; blk \<leftarrow> blks s (p_block port);
     if b_state blk \<noteq> BLOCK_STATE_PREINIT then do { _ \<leftarrow> ubx_block_log blk s; Some (- 1, s) }
     else Some (0, s\<lparr>prts := (prts s)(p \<mapsto> port\<lparr>p_in_data_len := len\<rparr>)\<rparr>) }"

definition ubx_outport_resize :: "addr \<Rightarrow> int \<Rightarrow> 'w ubx \<Rightarrow> (int \<times> 'w ubx) option" where
  "ubx_outport_resize p len s = do {
     port \<leftarrow> prts s p; blk \<leftarrow> blks s (p_block port);
     if b_state blk \<noteq> BLOCK_STATE_PREINIT then do { _ \<leftarrow> ubx_block_log blk s; Some (- 1, s) }
     else Some (0, s\<lparr>prts := (prts s)(p \<mapsto> port\<lparr>p_out_data_len := len\<rparr>)\<rparr>) }"

section \<open>Arrays of connected iblocks\<close>

text \<open>When \<open>realloc\<close> fails its result NULL has replaced the only pointer to the old array.\<close>

definition array_block_add :: "addr list option \<Rightarrow> addr \<Rightarrow> 'w ubx \<Rightarrow> int \<times> addr list option \<times> 'w ubx" where
  "array_block_add arr newblock s =
     (let (ok, s) = mem_alloc s
      in if ok then (0, Some ((case arr of None \<Rightarrow> [] | Some xs \<Rightarrow> xs) @ [newblock]), s)
         else (EOUTOFMEM, None, s))"

text \<open>The loop of \<open>array_block_rm\<close>: the last index that holds \<open>rmblock\<close>, or \<open>-1\<close>.\<close>

fun array_match :: "addr list \<Rightarrow> addr \<Rightarrow> int \<Rightarrow> int \<Rightarrow> int" where
  "array_match [] rmblock cnt match = match"
| "array_match (x # xs) rmblock cnt match =
     array_match xs rmblock (cnt + 1) (if x = rmblock then cnt else match)"

definition array_block_rm :: "addr list option \<Rightarrow> addr \<Rightarrow> (int \<times> addr list option) option" where
  "array_block_rm arr rmblock = do {
     xs \<leftarrow> arr;
     let match = array_match xs rmblock 0 (- 1);
     let cnt = int (length xs);
     if match = - 1 then Some (- 1, Some xs)
     else if match = cnt - 1 then Some (0, Some (butlast xs))
     else Some (0, Some (butlast (xs[nat match := last xs]))) }"

definition ubx_port_connect_out :: "addr \<Rightarrow> addr \<Rightarrow> 'w ubx \<Rightarrow> (int \<times> 'w ubx) option" where
  "ubx_port_connect_out p iblock s = do {
     port \<leftarrow> prts s p;
     if port_is_out port
     then (let (ret, arr, s) = array_block_add (p_out_interaction port) iblock s
           in Some (ret, s\<lparr>prts := (prts s)(p \<mapsto> port\<lparr>p_out_interaction := arr\<rparr>)\<rparr>))
     else Some (EINVALID_PORT_DIR, s) }"

definition ubx_port_connect_in :: "addr \<Rightarrow> addr \<Rightarrow> 'w ubx \<Rightarrow> (int \<times> 'w ubx) option" where
  "ubx_port_connect_in p iblock s = do {
     port \<leftarrow> prts s p;
     if port_is_in port
     then (let (ret, arr, s) = array_block_add (p_in_interaction port) iblock s
           in Some (ret, s\<lparr>prts := (prts s)(p \<mapsto> port\<lparr>p_in_interaction := arr\<rparr>)\<rparr>))
     else Some (EINVALID_PORT_DIR, s) }"

definition type_live :: "'w ubx \<Rightarrow> ptr \<Rightarrow> bool" where
  "type_live s t \<longleftrightarrow> (case t of None \<Rightarrow> False | Some a \<Rightarrow> typs s a \<noteq> None)"

definition ubx_ports_connect :: "ptr \<Rightarrow> ptr \<Rightarrow> ptr \<Rightarrow> 'w ubx \<Rightarrow> (int \<times> 'w ubx) option" where
  "ubx_ports_connect out_port in_port iblock s =
     (case iblock of
        None \<Rightarrow> Some (EINVALID_BLOCK_TYPE, s)
      | Some ib \<Rightarrow> do {
          iblk \<leftarrow> blks s ib;
          case out_port of
            None \<Rightarrow> if b_nd iblk then Some (EINVALID_PORT, s) else None
          | Some op \<Rightarrow>
          (case in_port of
            None \<Rightarrow> if b_nd iblk then Some (EINVALID_PORT, s) else None
          | Some ip \<Rightarrow> do {
              outp \<leftarrow> prts s op;
              inp \<leftarrow> prts s ip;
              if p_in_type inp \<noteq> p_out_type outp
              then if b_nd iblk
                then do {
                  _ \<leftarrow> nd_log UBX_LOGLEVEL_ERR s (type_live s (p_in_type inp) \<and> type_live s (p_out_type inp));
                  Some (ETYPE_MISMATCH, s) }
                else None
              else if p_in_data_len inp \<noteq> p_out_data_len outp \<and> \<not> b_nd iblk then None
              else if b_type iblk \<noteq> BLOCK_TYPE_INTERACTION
              then if b_nd iblk then Some (EINVALID_BLOCK_TYPE, s) else None
              else do {
                (ret, s) \<leftarrow> ubx_port_connect_out op ib s;
                if ret \<noteq> 0 then Some (ret, s) else ubx_port_connect_in ip ib s } }) })"

definition ubx_port_disconnect_out :: "addr \<Rightarrow> addr \<Rightarrow> 'w ubx \<Rightarrow> (int \<times> 'w ubx) option" where
  "ubx_port_disconnect_out p iblock s = do {
     port \<leftarrow> prts s p;
     if port_is_out port
     then do {
       (ret, arr) \<leftarrow> array_block_rm (p_out_interaction port) iblock;
       Some (ret, s\<lparr>prts := (prts s)(p \<mapsto> port\<lparr>p_out_interaction := arr\<rparr>)\<rparr>) }
     else do { iblk \<leftarrow> blks s iblock; if b_nd iblk then Some (EINVALID_PORT_TYPE, s) else None } }"

definition ubx_port_disconnect_in :: "addr \<Rightarrow> addr \<Rightarrow> 'w ubx \<Rightarrow> (int \<times> 'w ubx) option" where
  "ubx_port_disconnect_in p iblock s = do {
     port \<leftarrow> prts s p;
     if port_is_in port
     then do {
       (ret, arr) \<leftarrow> array_block_rm (p_in_interaction port) iblock;
       Some (ret, s\<lparr>prts := (prts s)(p \<mapsto> port\<lparr>p_in_interaction := arr\<rparr>)\<rparr>) }
     else do { iblk \<leftarrow> blks s iblock; if b_nd iblk then Some (EINVALID_PORT_TYPE, s) else None } }"

definition ubx_ports_disconnect :: "ptr \<Rightarrow> ptr \<Rightarrow> ptr \<Rightarrow> 'w ubx \<Rightarrow> (int \<times> 'w ubx) option" where
  "ubx_ports_disconnect out_port in_port iblock s =
     (case iblock of
        None \<Rightarrow> Some (EINVALID_BLOCK, s)
      | Some ib \<Rightarrow> do {
          iblk \<leftarrow> blks s ib;
          case (out_port, in_port) of
            (Some op, Some ip) \<Rightarrow>
              if b_type iblk \<noteq> BLOCK_TYPE_INTERACTION
              then if b_nd iblk then Some (EINVALID_BLOCK_TYPE, s) else None
              else do {
                (ret, s) \<leftarrow> ubx_port_disconnect_out op ib s;
                if ret \<noteq> 0 then Some (ret, s) else ubx_port_disconnect_in ip ib s }
          | _ \<Rightarrow> if b_nd iblk then Some (EINVALID_PORT, s) else None })"

section \<open>Arrays\<close>

lemma array_match_notin: "r \<notin> set xs \<Longrightarrow> array_match xs r c m = m"
  by (induction xs arbitrary: c m) auto

lemma array_match_last:
  "r \<notin> set zs \<Longrightarrow> array_match (ys @ r # zs) r c m = c + int (length ys)"
  by (induction ys arbitrary: c m) (auto simp: array_match_notin)

lemma array_block_rm_notin: "r \<notin> set xs \<Longrightarrow> array_block_rm (Some xs) r = Some (- 1, Some xs)"
  by (simp add: array_block_rm_def array_match_notin Let_def)

lemma array_block_rm_in:
  assumes "r \<notin> set zs"
  shows "array_block_rm (Some (ys @ r # zs)) r =
    Some (0, Some (if zs = [] then ys else ys @ last zs # butlast zs))"
proof -
  have m: "array_match (ys @ r # zs) r 0 (- 1) = int (length ys)"
    using array_match_last [OF assms, of ys 0 "- 1"] by simp
  show ?thesis
  proof (cases "zs = []")
    case True
    then show ?thesis using m by (simp add: array_block_rm_def Let_def butlast_append)
  next
    case False
    then have "length zs \<noteq> 0" by simp
    then have ne: "int (length ys) \<noteq> int (length (ys @ r # zs)) - 1" by simp
    have "(ys @ r # zs)[length ys := last zs] = ys @ last zs # zs" by (simp add: list_update_append)
    moreover have "last (ys @ r # zs) = last zs" using False by simp
    ultimately show ?thesis using m ne False
      by (simp add: array_block_rm_def Let_def butlast_append)
  qed
qed

lemma array_block_rm_mset:
  "array_block_rm (Some xs) r = Some (if r \<in> set xs then 0 else - 1, snd (the (array_block_rm (Some xs) r))) \<and>
   (\<exists>ys. snd (the (array_block_rm (Some xs) r)) = Some ys \<and> mset ys = mset xs - {#r#})"
proof (cases "r \<in> set xs")
  case True
  then obtain ys zs where x: "xs = ys @ r # zs" "r \<notin> set zs" by (meson split_list_last)
  show ?thesis
  proof (cases "zs = []")
    case False
    then have "mset zs = mset (butlast zs @ [last zs])" by simp
    then have "mset zs = add_mset (last zs) (mset (butlast zs))" by (simp del: append_butlast_last_id)
    with False x array_block_rm_in [OF x(2), of ys] show ?thesis by simp
  qed (use x array_block_rm_in [OF x(2), of ys] in simp)
next
  case False
  with array_block_rm_notin [OF False] show ?thesis by (simp add: diff_single_trivial)
qed

section \<open>Connecting\<close>

text \<open>The channel that reads from, or writes to, an iblock.\<close>

definition elems_of :: "addr list option \<Rightarrow> addr list" where
  "elems_of arr = (case arr of None \<Rightarrow> [] | Some xs \<Rightarrow> xs)"

lemma elems_of_simps [simp]: "elems_of None = []" "elems_of (Some xs) = xs"
  by (simp_all add: elems_of_def)

lemma array_block_add_ok:
  "oom s = [] \<Longrightarrow> array_block_add arr b s = (0, Some (elems_of arr @ [b]), s)"
  by (simp add: array_block_add_def mem_alloc_def elems_of_def)

lemma array_add_rm: "array_block_rm (Some (xs @ [b])) b = Some (0, Some xs)"
  using array_block_rm_in [of b "[]" xs] by simp

lemma connect_out_ok:
  "oom s = [] \<Longrightarrow> prts s p = Some port \<Longrightarrow> port_is_out port \<Longrightarrow> ubx_port_connect_out p ib s =
     Some (0, s\<lparr>prts := (prts s)(p \<mapsto> port\<lparr>p_out_interaction := Some (elems_of (p_out_interaction port) @ [ib])\<rparr>)\<rparr>)"
  by (simp add: ubx_port_connect_out_def array_block_add_ok)

lemma connect_in_ok:
  "oom s = [] \<Longrightarrow> prts s p = Some port \<Longrightarrow> port_is_in port \<Longrightarrow> ubx_port_connect_in p ib s =
     Some (0, s\<lparr>prts := (prts s)(p \<mapsto> port\<lparr>p_in_interaction := Some (elems_of (p_in_interaction port) @ [ib])\<rparr>)\<rparr>)"
  by (simp add: ubx_port_connect_in_def array_block_add_ok)

definition connect_result :: "addr \<Rightarrow> addr \<Rightarrow> addr \<Rightarrow> (addr \<Rightarrow> ubx_port option) \<Rightarrow> ubx_port \<Rightarrow> ubx_port \<Rightarrow>
    addr \<Rightarrow> ubx_port option" where
  "connect_result ib op ip pm outp inp = pm(op \<mapsto> outp\<lparr>p_out_interaction := Some (elems_of (p_out_interaction outp) @ [ib])\<rparr>,
     ip \<mapsto> inp\<lparr>p_in_interaction := Some (elems_of (p_in_interaction inp) @ [ib])\<rparr>)"

lemma connect_ok:
  assumes "oom s = []" "blks s ib = Some iblk" "b_type iblk = BLOCK_TYPE_INTERACTION" "b_nd iblk"
    "prts s op = Some outp" "prts s ip = Some inp" "p_in_type inp = p_out_type outp" "port_is_out outp" "op \<noteq> ip"
  shows "ubx_ports_connect (Some op) (Some ip) (Some ib) s =
    Some (0, s\<lparr>prts := connect_result ib op ip (prts s) outp inp\<rparr>)"
proof -
  have i: "port_is_in inp" using assms(7,8) by (simp add: port_is_in_def port_is_out_def)
  let ?s1 = "s\<lparr>prts := (prts s)(op \<mapsto> outp\<lparr>p_out_interaction := Some (elems_of (p_out_interaction outp) @ [ib])\<rparr>)\<rparr>"
  have 1: "ubx_port_connect_out op ib s = Some (0, ?s1)" by (rule connect_out_ok [OF assms(1,5,8)])
  have 2: "ubx_port_connect_in ip ib ?s1 = Some (0, ?s1\<lparr>prts := (prts ?s1)(ip \<mapsto>
      inp\<lparr>p_in_interaction := Some (elems_of (p_in_interaction inp) @ [ib])\<rparr>)\<rparr>)"
    by (rule connect_in_ok) (use assms i in auto)
  from 1 2 assms(2-7) show ?thesis
    by (simp add: ubx_ports_connect_def connect_result_def)
qed

lemma disconnect_connected:
  assumes "blks s ib = Some iblk" "b_type iblk = BLOCK_TYPE_INTERACTION"
    "prts s op = Some outp" "prts s ip = Some inp" "port_is_in inp" "port_is_out outp" "op \<noteq> ip"
    "p_out_interaction outp = Some (xs @ [ib])" "p_in_interaction inp = Some (ys @ [ib])"
  shows "ubx_ports_disconnect (Some op) (Some ip) (Some ib) s = Some (0, s\<lparr>prts := (prts s)
    (op \<mapsto> outp\<lparr>p_out_interaction := Some xs\<rparr>, ip \<mapsto> inp\<lparr>p_in_interaction := Some ys\<rparr>)\<rparr>)"
  using assms
  by (simp add: ubx_ports_disconnect_def ubx_port_disconnect_out_def ubx_port_disconnect_in_def array_add_rm)

section \<open>Properties\<close>

text \<open>Removing an iblock from a connection array keeps every other connection, once per connection:
  the result is \<open>0\<close> and one occurrence is gone if the block was connected, \<open>-1\<close> and nothing changes if not.
  (The order of the rest is not kept: the last element fills the gap.)\<close>

theorem array_block_rm_correct:
  "\<exists>r ys. array_block_rm (Some xs) b = Some (r, Some ys) \<and> mset ys = mset xs - {#b#} \<and>
     (r = 0 \<longleftrightarrow> b \<in> set xs) \<and> (r \<noteq> 0 \<longrightarrow> r = - 1 \<and> ys = xs)"
proof (cases "b \<in> set xs")
  case True
  then show ?thesis using array_block_rm_mset [of xs b] by (metis prod.collapse)
next
  case False
  then show ?thesis using array_block_rm_notin [OF False] by (simp add: diff_single_trivial)
qed

theorem array_block_rm_correct_witness:
  "\<exists>ys. array_block_rm (Some [3, 5, 3, 7]) 3 = Some (0, Some ys) \<and> mset ys = {#3, 5, 7#}"
  using array_block_rm_correct [of "[3, 5, 3, 7]" 3] by auto

text \<open>C33: connecting an out-port to an in-port of the same type through an interaction block succeeds when memory is
  available, adds the iblock at the end of both ports' arrays and changes nothing else; disconnecting them again
  gives back both arrays.\<close>

theorem ubx_ports_connect_disconnect:
  assumes "oom s = []" "blks s ib = Some iblk" "b_type iblk = BLOCK_TYPE_INTERACTION" "b_nd iblk"
    "prts s op = Some outp" "prts s ip = Some inp" "p_in_type inp = p_out_type outp" "port_is_out outp" "op \<noteq> ip"
  shows "\<exists>s'. ubx_ports_connect (Some op) (Some ip) (Some ib) s = Some (0, s') \<and>
    s' = s\<lparr>prts := connect_result ib op ip (prts s) outp inp\<rparr> \<and>
    ubx_ports_disconnect (Some op) (Some ip) (Some ib) s' = Some (0, s\<lparr>prts := (prts s)
      (op \<mapsto> outp\<lparr>p_out_interaction := Some (elems_of (p_out_interaction outp))\<rparr>,
       ip \<mapsto> inp\<lparr>p_in_interaction := Some (elems_of (p_in_interaction inp))\<rparr>)\<rparr>)"
proof -
  have i: "port_is_in inp" using assms(7,8) by (simp add: port_is_in_def port_is_out_def)
  let ?s' = "s\<lparr>prts := connect_result ib op ip (prts s) outp inp\<rparr>"
  have "ubx_ports_disconnect (Some op) (Some ip) (Some ib) ?s' = Some (0, ?s'\<lparr>prts := (prts ?s')
      (op \<mapsto> (outp\<lparr>p_out_interaction := Some (elems_of (p_out_interaction outp) @ [ib])\<rparr>)\<lparr>p_out_interaction := Some (elems_of (p_out_interaction outp))\<rparr>,
       ip \<mapsto> (inp\<lparr>p_in_interaction := Some (elems_of (p_in_interaction inp) @ [ib])\<rparr>)\<lparr>p_in_interaction := Some (elems_of (p_in_interaction inp))\<rparr>)\<rparr>)"
    by (rule disconnect_connected [OF _ assms(3)])
      (use assms i in \<open>auto simp: connect_result_def port_is_in_def port_is_out_def\<close>)
  with connect_ok [OF assms] assms(9) show ?thesis
    by (simp add: connect_result_def fun_upd_twist)
qed

definition mk_port :: "addr \<Rightarrow> ptr \<Rightarrow> ptr \<Rightarrow> ubx_port" where
  "mk_port b in_t out_t = new_port b ''p'' None 0 in_t 1 out_t 1"

definition port_node :: "ptr \<Rightarrow> unit ubx" where
  "port_node in_t = (two_types ''int'' ''mj'')\<lparr>blks := [10 \<mapsto> (mk_blk ''b'' 1 [])\<lparr>b_ports := [20]\<rparr>,
     11 \<mapsto> (mk_blk ''c'' 1 [])\<lparr>b_ports := [21]\<rparr>, 12 \<mapsto> mk_blk ''i'' 2 []],
     prts := [20 \<mapsto> mk_port 10 None (Some 1), 21 \<mapsto> mk_port 11 in_t None]\<rparr>"

theorem ubx_ports_connect_disconnect_witness:
  "\<exists>s' s''. ubx_ports_connect (Some 20) (Some 21) (Some 12) (port_node (Some 1)) = Some (0, s') \<and>
     ubx_ports_disconnect (Some 20) (Some 21) (Some 12) s' = Some (0, s'')"
  using ubx_ports_connect_disconnect [of "port_node (Some 1)" 12 "mk_blk ''i'' 2 []" 20 "mk_port 10 None (Some 1)" 21
      "mk_port 11 (Some 1) None"]
  by (auto simp: port_node_def two_types_def empty_node_def mk_blk_def mk_port_def new_port_def
      BLOCK_TYPE_INTERACTION_def port_is_out_def)

text \<open>A type mismatch between an out-port and a pure in-port is not reported but dereferences NULL, as soon
  as errors are logged at all: the message asks for the name of the in-port's output type.\<close>

theorem ubx_ports_connect_mismatch_null:
  assumes "blks s ib = Some iblk" "prts s op = Some outp" "prts s ip = Some inp"
    "p_in_type inp \<noteq> p_out_type outp" "p_out_type inp = None" "UBX_LOGLEVEL_ERR \<le> nd_loglevel s"
  shows "ubx_ports_connect (Some op) (Some ip) (Some ib) s = None"
  using assms by (simp add: ubx_ports_connect_def nd_log_def type_live_def)

theorem ubx_ports_connect_mismatch_null_witness:
  "ubx_ports_connect (Some 20) (Some 21) (Some 12) (port_node (Some 2)) = None"
  by (rule ubx_ports_connect_mismatch_null [of _ _ "mk_blk ''i'' 2 []" _ "mk_port 10 None (Some 1)" _ "mk_port 11 (Some 2) None"])
    (simp_all add: port_node_def two_types_def empty_node_def mk_port_def new_port_def UBX_LOGLEVEL_ERR_def)

text \<open>Disconnecting a port that was never connected dereferences the NULL array instead of reporting an error.\<close>

theorem ubx_ports_disconnect_unconnected_null:
  assumes "blks s ib = Some iblk" "b_type iblk = BLOCK_TYPE_INTERACTION" "prts s op = Some outp"
    "port_is_out outp" "p_out_interaction outp = None"
  shows "ubx_ports_disconnect (Some op) (Some ip) (Some ib) s = None"
  using assms by (simp add: ubx_ports_disconnect_def ubx_port_disconnect_out_def array_block_rm_def)

theorem ubx_ports_disconnect_unconnected_null_witness:
  "ubx_ports_disconnect (Some 20) (Some 21) (Some 12) (port_node (Some 1)) = None"
  by (rule ubx_ports_disconnect_unconnected_null [of _ _ "mk_blk ''i'' 2 []" _ "mk_port 10 None (Some 1)"])
    (simp_all add: port_node_def two_types_def empty_node_def mk_port_def new_port_def mk_blk_def
      BLOCK_TYPE_INTERACTION_def port_is_out_def)

text \<open>When growing the array of a connected port runs out of memory, the call reports it but all connections the
  port had are lost.\<close>

theorem ubx_port_connect_oom_loses:
  assumes "oom s = True # q" "prts s p = Some port" "port_is_out port" "p_out_interaction port = Some xs"
  shows "\<exists>s' port'. ubx_port_connect_out p ib s = Some (EOUTOFMEM, s') \<and> prts s' p = Some port' \<and>
    p_out_interaction port' = None"
  using assms by (simp add: ubx_port_connect_out_def array_block_add_def mem_alloc_def)

theorem ubx_port_connect_oom_loses_witness:
  "\<exists>s' port'. ubx_port_connect_out 20 12 ((port_node (Some 1))\<lparr>oom := [True],
      prts := [20 \<mapsto> (mk_port 10 None (Some 1))\<lparr>p_out_interaction := Some [12]\<rparr>]\<rparr>) = Some (EOUTOFMEM, s') \<and>
     prts s' 20 = Some port' \<and> p_out_interaction port' = None"
  by (rule ubx_port_connect_oom_loses [of _ "[]" _ "(mk_port 10 None (Some 1))\<lparr>p_out_interaction := Some [12]\<rparr>" "[12]"])
    (simp_all add: mk_port_def new_port_def port_is_out_def)

end
