(* ===== verification/Ubx_Block.thy ===== *)
theory Ubx_Block
  imports Ubx_Port
begin

text \<open>
  Blocks, from \<^verbatim>\<open>libubx/ubx.c\<close>: registering prototypes, creating instances by cloning, removing them,
  and the life cycle preinit, inactive, active with the hooks \<open>init\<close>, \<open>start\<close>, \<open>stop\<close>, \<open>cleanup\<close> and
  \<open>step\<close>. The hooks are the functions of the argument \<open>H\<close>.
\<close>

section \<open>Predicates and names\<close>

definition blk_is_proto :: "ubx_block \<Rightarrow> bool" where "blk_is_proto b \<longleftrightarrow> b_prototype b = None"
definition blk_is_instance :: "ubx_block \<Rightarrow> bool" where "blk_is_instance b \<longleftrightarrow> \<not> blk_is_proto b"

text \<open>The bound is \<open>sizeof(block_states)\<close>, the size of an array of three pointers in bytes, not 3:
  states from 3 to 23 read past the end of the array.\<close>

definition block_states_names :: "string list" where
  "block_states_names = [''preinit'', ''inactive'', ''active'']"

definition block_state_tostr :: "u32 \<Rightarrow> string option" where
  "block_state_tostr st =
     (if unat st \<ge> 8 * length block_states_names then Some ''invalid''
      else if unat st < length block_states_names then Some (block_states_names ! unat st)
      else None)"

section \<open>Registration\<close>

definition ubx_block_check :: "ptr \<Rightarrow> 'w ubx \<Rightarrow> int option" where
  "ubx_block_check b s =
     (case b of
        None \<Rightarrow> Some EINVALID_BLOCK
      | Some a \<Rightarrow> do {
          blk \<leftarrow> blks s a;
          if b_type blk \<noteq> BLOCK_TYPE_COMPUTATION \<and> b_type blk \<noteq> BLOCK_TYPE_INTERACTION
          then Some EINVALID_BLOCK else Some 0 })"

text \<open>\<open>__block_register\<close>\<close>

definition block_register_t :: "ut_lib \<Rightarrow> addr \<Rightarrow> 'w ubx \<Rightarrow> (int \<times> 'w ubx) option" where
  "block_register_t U a s = do {
     chk \<leftarrow> ubx_block_check (Some a) s;
     blk \<leftarrow> blks s a;
     if chk \<noteq> 0 then Some (- 1, s)
     else if ut_find U (nd_blocks s) (b_name blk) \<noteq> None then Some (- 1, s)
     else Some (0, s\<lparr>nd_blocks := ut_add U (nd_blocks s) (b_name blk) a,
                     blks := (blks s)(a \<mapsto> blk\<lparr>b_nd := True\<rparr>)\<rparr>) }"

text \<open>\<open>ubx_block_free\<close>: both loops read the successor before they unlink an element.\<close>

fun free_configs :: "ut_lib \<Rightarrow> addr \<Rightarrow> addr list \<Rightarrow> 'w ubx \<Rightarrow> 'w ubx option" where
  "free_configs U b [] s = Some s"
| "free_configs U b (c # cs) s = do {
     blk \<leftarrow> blks s b;
     let s = s\<lparr>blks := (blks s)(b \<mapsto> blk\<lparr>b_configs := dl_delete U (b_configs blk) c\<rparr>)\<rparr>;
     s \<leftarrow> ubx_config_free c s;
     free_configs U b cs s }"

fun free_ports :: "ut_lib \<Rightarrow> addr \<Rightarrow> addr list \<Rightarrow> 'w ubx \<Rightarrow> 'w ubx option" where
  "free_ports U b [] s = Some s"
| "free_ports U b (p # ps) s = do {
     blk \<leftarrow> blks s b;
     let s = s\<lparr>blks := (blks s)(b \<mapsto> blk\<lparr>b_ports := dl_delete U (b_ports blk) p\<rparr>)\<rparr>;
     s \<leftarrow> ubx_port_free p s;
     free_ports U b ps s }"

definition ubx_block_free :: "ut_lib \<Rightarrow> addr \<Rightarrow> 'w ubx \<Rightarrow> 'w ubx option" where
  "ubx_block_free U b s = do {
     blk \<leftarrow> blks s b;
     s \<leftarrow> free_configs U b (b_configs blk) s;
     s \<leftarrow> free_ports U b (b_ports blk) s;
     Some (s\<lparr>blks := (blks s)(b := None)\<rparr>) }"

definition proto_ops :: "u16 \<Rightarrow> fptr option \<Rightarrow> fptr option \<Rightarrow> fptr option \<Rightarrow> block_ops" where
  "proto_ops ty stp rd wr =
     (if ty = BLOCK_TYPE_COMPUTATION then Ops_comp stp 0
      else if ty = BLOCK_TYPE_INTERACTION then Ops_inter rd wr 0 0 else Ops_none)"

text \<open>The fields the new prototype gets.\<close>

definition register_new :: "ubx_proto_block \<Rightarrow> bool \<Rightarrow> ubx_block" where
  "register_new prot metaok =
     \<lparr>b_name = strncpy UBX_BLOCK_NAME_MAXLEN (pb_name prot),
      b_meta_data = (if metaok then pb_meta_data prot else None),
      b_attrs = pb_attrs prot, b_type = pb_type prot, b_state = BLOCK_STATE_PREINIT,
      b_ports = [], b_configs = [], b_prototype = None, b_nd = True, b_loglevel = None,
      b_init = pb_init prot, b_start = pb_start prot, b_stop = pb_stop prot,
      b_cleanup = pb_cleanup prot,
      b_ops = proto_ops (pb_type prot) (pb_step prot) (pb_read prot) (pb_write prot)\<rparr>"

fun register_ports :: "ut_lib \<Rightarrow> addr \<Rightarrow> ubx_proto_port list \<Rightarrow> 'w ubx \<Rightarrow> (int \<times> 'w ubx) option" where
  "register_ports U b [] s = Some (0, s)"
| "register_ports U b (p # ps) s = do {
     (ret, s) \<leftarrow> ubx_port_add U (Some b) (Some (pp_name p)) (pp_doc p) (pp_attrs p OR PORT_ATTR_CLONED)
                   (pp_in_type_name p) (pp_in_data_len p) (pp_out_type_name p) (pp_out_data_len p) s;
     if ret \<noteq> 0 then Some (ret, s) else register_ports U b ps s }"

fun register_configs :: "ut_lib \<Rightarrow> addr \<Rightarrow> ubx_proto_config list \<Rightarrow> 'w ubx \<Rightarrow> (int \<times> 'w ubx) option" where
  "register_configs U b [] s = Some (0, s)"
| "register_configs U b (c # cs) s = do {
     (ret, s) \<leftarrow> ubx_config_add2 U (Some b) (Some (pc_name c)) (pc_doc c) (pc_type_name c)
                   (pc_min c) (pc_max c) (pc_attrs c OR CONFIG_ATTR_CLONED) s;
     if ret \<noteq> 0 then Some (ret, s) else register_configs U b cs s }"

definition ubx_block_register :: "ut_lib \<Rightarrow> ubx_proto_block \<Rightarrow> 'w ubx \<Rightarrow> (int \<times> 'w ubx) option" where
  "ubx_block_register U prot s =
     (case calloc s of
        (None, s) \<Rightarrow> Some (EOUTOFMEM, s)
      | (Some a, s) \<Rightarrow>
          if length (pb_name prot) > UBX_BLOCK_NAME_MAXLEN then Some (EINVALID_BLOCK, s)
          else (let
              (metaok, s) = (if pb_meta_data prot = None then (True, s) else mem_alloc s);
              s = s\<lparr>blks := (blks s)(a \<mapsto> register_new prot metaok)\<rparr>
            in do {
              (ret, s) \<leftarrow> register_ports U a (pb_ports prot) s;
              if ret \<noteq> 0 then do { s \<leftarrow> ubx_block_free U a s; Some (ret, s) }
              else do {
                (ret, s) \<leftarrow> register_configs U a (pb_configs prot) s;
                if ret \<noteq> 0 then do { s \<leftarrow> ubx_block_free U a s; Some (ret, s) }
                else block_register_t U a s } }))"

definition ubx_block_get :: "ut_lib \<Rightarrow> 'w ubx \<Rightarrow> string option \<Rightarrow> ptr" where
  "ubx_block_get U s name = (case name of None \<Rightarrow> None | Some n \<Rightarrow> ut_find U (nd_blocks s) n)"

definition ubx_block_unregister :: "ut_lib \<Rightarrow> string \<Rightarrow> 'w ubx \<Rightarrow> (int \<times> 'w ubx) option" where
  "ubx_block_unregister U name s =
     (case ut_find U (nd_blocks s) name of
        None \<Rightarrow> Some (- 1, s)
      | Some a \<Rightarrow> do {
          _ \<leftarrow> blks s a;
          s \<leftarrow> ubx_block_free U a (s\<lparr>nd_blocks := ut_del U (nd_blocks s) a\<rparr>);
          Some (0, s) })"

section \<open>Cloning\<close>

fun clone_configs :: "ut_lib \<Rightarrow> addr \<Rightarrow> addr list \<Rightarrow> 'w ubx \<Rightarrow> (int \<times> 'w ubx) option" where
  "clone_configs U b [] s = Some (0, s)"
| "clone_configs U b (c # cs) s = do {
     csrc \<leftarrow> cfgs s c;
     (ret, s) \<leftarrow> ubx_config_add_t U b (c_name csrc) None (c_type csrc) (c_min csrc) (c_max csrc)
                   (c_attrs csrc OR CONFIG_ATTR_CLONED) s;
     if ret \<noteq> 0 then Some (ret, s) else clone_configs U b cs s }"

fun clone_ports :: "ut_lib \<Rightarrow> addr \<Rightarrow> addr list \<Rightarrow> 'w ubx \<Rightarrow> (int \<times> 'w ubx) option" where
  "clone_ports U b [] s = Some (0, s)"
| "clone_ports U b (p # ps) s = do {
     psrc \<leftarrow> prts s p;
     (ret, s) \<leftarrow> ubx_port_add_t U b (p_name psrc) None (p_attrs psrc OR PORT_ATTR_CLONED)
                   (p_in_type psrc) (p_in_data_len psrc) (p_out_type psrc) (p_out_data_len psrc) s;
     if ret \<noteq> 0 then Some (ret, s) else clone_ports U b ps s }"

definition clone_ops :: "u16 \<Rightarrow> block_ops \<Rightarrow> block_ops" where
  "clone_ops ty ops =
     (case ops of
        Ops_comp stp _ \<Rightarrow> if ty = BLOCK_TYPE_COMPUTATION then Ops_comp stp 0 else Ops_none
      | Ops_inter rd wr _ _ \<Rightarrow> if ty = BLOCK_TYPE_INTERACTION then Ops_inter rd wr 0 0 else Ops_none
      | Ops_none \<Rightarrow> Ops_none)"

definition clone_new :: "addr \<Rightarrow> string \<Rightarrow> ubx_block \<Rightarrow> ubx_block" where
  "clone_new prot name pb =
     \<lparr>b_name = strncpy UBX_BLOCK_NAME_MAXLEN name, b_meta_data = None, b_attrs = b_attrs pb,
      b_type = b_type pb, b_state = BLOCK_STATE_PREINIT, b_ports = [], b_configs = [],
      b_prototype = Some prot, b_nd = False, b_loglevel = None, b_init = b_init pb,
      b_start = b_start pb, b_stop = b_stop pb, b_cleanup = b_cleanup pb,
      b_ops = clone_ops (b_type pb) (b_ops pb)\<rparr>"

text \<open>The new block is not attached to a node while it is built (\<open>b_nd\<close> is false): logging an error on
  the way dereferences NULL.\<close>

definition ubx_block_clone :: "ut_lib \<Rightarrow> addr \<Rightarrow> string \<Rightarrow> 'w ubx \<Rightarrow> (ptr \<times> 'w ubx) option" where
  "ubx_block_clone U prot name s = do {
     pb \<leftarrow> blks s prot;
     case calloc s of
       (None, s) \<Rightarrow> if b_nd pb then Some (None, s) else None
     | (Some a, s) \<Rightarrow> do {
         let s = s\<lparr>blks := (blks s)(a \<mapsto> clone_new prot name pb)\<rparr>;
         (ret, s) \<leftarrow> clone_configs U a (b_configs pb) s;
         if ret \<noteq> 0 then do { s \<leftarrow> ubx_block_free U a s; Some (None, s) }
         else do {
           (ret, s) \<leftarrow> clone_ports U a (b_ports pb) s;
           if ret \<noteq> 0 then do { s \<leftarrow> ubx_block_free U a s; Some (None, s) }
           else Some (Some a, s) } } }"

text \<open>When registering fails the block is freed, but the function still returns the pointer to it.\<close>

definition ubx_block_create :: "ut_lib \<Rightarrow> string \<Rightarrow> string option \<Rightarrow> 'w ubx \<Rightarrow> (ptr \<times> 'w ubx) option" where
  "ubx_block_create U type name s =
     (case name of
        None \<Rightarrow> Some (None, s)
      | Some n \<Rightarrow>
          (case ut_find U (nd_blocks s) type of
             None \<Rightarrow> Some (None, s)
           | Some prot \<Rightarrow> do {
               _ \<leftarrow> blks s prot;
               if ut_find U (nd_blocks s) n \<noteq> None then Some (None, s)
               else do {
                 (newb, s) \<leftarrow> ubx_block_clone U prot n s;
                 case newb of
                   None \<Rightarrow> Some (None, s)
                 | Some a \<Rightarrow> do {
                     (ret, s) \<leftarrow> block_register_t U a s;
                     if ret \<noteq> 0 then do { s \<leftarrow> ubx_block_free U a s; Some (Some a, s) }
                     else Some (Some a, s) } } }))"

definition ubx_block_rm :: "ut_lib \<Rightarrow> string option \<Rightarrow> 'w ubx \<Rightarrow> (int \<times> 'w ubx) option" where
  "ubx_block_rm U name s =
     (case name of
        None \<Rightarrow> Some (ENOSUCHENT, s)
      | Some n \<Rightarrow>
          (case ubx_block_get U s (Some n) of
             None \<Rightarrow> Some (ENOSUCHENT, s)
           | Some a \<Rightarrow> do {
               blk \<leftarrow> blks s a;
               if b_prototype blk = None then Some (EINVALID_BLOCK_TYPE, s)
               else if b_state blk \<noteq> BLOCK_STATE_PREINIT then Some (EWRONG_STATE, s)
               else do { (ret, s) \<leftarrow> ubx_block_unregister U n s; Some (0, s) } }))"

section \<open>Life cycle\<close>

definition state_err :: "addr \<Rightarrow> 'w ubx \<Rightarrow> unit option" where
  "state_err b s = do {
     blk \<leftarrow> blks s b; _ \<leftarrow> ubx_block_log blk s; _ \<leftarrow> block_state_tostr (ucast (b_state blk)); Some () }"

definition set_state :: "addr \<Rightarrow> u16 \<Rightarrow> 'w ubx \<Rightarrow> 'w ubx option" where
  "set_state b st s = upd_blk b (\<lambda>blk. blk\<lparr>b_state := st\<rparr>) s"

text \<open>The first lines of \<open>ubx_block_init\<close>: the block's own log level, if it has a config for it.\<close>

definition init_loglevel :: "ut_lib \<Rightarrow> addr \<Rightarrow> 'w ubx \<Rightarrow> 'w ubx option" where
  "init_loglevel U b s = do {
     c \<leftarrow> ubx_config_get (Some b) (Some ''loglevel'') s;
     case c of
       None \<Rightarrow> upd_blk b (\<lambda>blk. blk\<lparr>b_loglevel := None\<rparr>) s
     | Some _ \<Rightarrow> do {
         (len, p, cache) \<leftarrow> cfg_getptr U ''int'' (static_type s ''cfg_getptr_int'') (Some b) (Some ''loglevel'') s;
         let s = s\<lparr>static_type := (static_type s)(''cfg_getptr_int'' := cache)\<rparr>;
         if len \<le> 0 then upd_blk b (\<lambda>blk. blk\<lparr>b_loglevel := None\<rparr>) s
         else upd_blk b (\<lambda>blk. blk\<lparr>b_loglevel := p\<rparr>) s } }"

definition ubx_block_init :: "ut_lib \<Rightarrow> 'w hooks \<Rightarrow> ptr \<Rightarrow> 'w ubx \<Rightarrow> (int \<times> 'w ubx) option" where
  "ubx_block_init U H b s =
     (case b of
        None \<Rightarrow> Some (EINVALID_BLOCK, s)
      | Some a \<Rightarrow> do {
          s \<leftarrow> init_loglevel U a s;
          blk \<leftarrow> blks s a;
          if b_state blk \<noteq> BLOCK_STATE_PREINIT then do { _ \<leftarrow> state_err a s; Some (EWRONG_STATE, s) }
          else do {
            ret \<leftarrow> check_minmax a False s;
            if ret < 0 then Some (ret, s)
            else (case b_init blk of
                None \<Rightarrow> do { s \<leftarrow> set_state a BLOCK_STATE_INACTIVE s; Some (0, s) }
              | Some f \<Rightarrow> do {
                  (ret, s) \<leftarrow> hk_init H f a s;
                  if ret \<noteq> 0 then do { blk \<leftarrow> blks s a; _ \<leftarrow> ubx_block_log blk s; Some (ret, s) }
                  else do { s \<leftarrow> set_state a BLOCK_STATE_INACTIVE s; Some (0, s) } }) } })"

definition ubx_block_start :: "'w hooks \<Rightarrow> ptr \<Rightarrow> 'w ubx \<Rightarrow> (int \<times> 'w ubx) option" where
  "ubx_block_start H b s =
     (case b of
        None \<Rightarrow> Some (EINVALID_BLOCK, s)
      | Some a \<Rightarrow> do {
          blk \<leftarrow> blks s a;
          if b_state blk \<noteq> BLOCK_STATE_INACTIVE then do { _ \<leftarrow> state_err a s; Some (EWRONG_STATE, s) }
          else do {
            ret \<leftarrow> check_minmax a True s;
            if ret < 0 then Some (ret, s)
            else do {
              s \<leftarrow> set_state a BLOCK_STATE_ACTIVE s;
              case b_start blk of
                None \<Rightarrow> Some (0, s)
              | Some f \<Rightarrow> do {
                  (ret, s) \<leftarrow> hk_start H f a s;
                  if ret \<noteq> 0 then do {
                    s \<leftarrow> set_state a BLOCK_STATE_INACTIVE s;
                    blk \<leftarrow> blks s a; _ \<leftarrow> ubx_block_log blk s;
                    Some (ret, s) }
                  else Some (0, s) } } } })"

definition ubx_block_stop :: "'w hooks \<Rightarrow> ptr \<Rightarrow> 'w ubx \<Rightarrow> (int \<times> 'w ubx) option" where
  "ubx_block_stop H b s =
     (case b of
        None \<Rightarrow> Some (EINVALID_BLOCK, s)
      | Some a \<Rightarrow> do {
          blk \<leftarrow> blks s a;
          if b_state blk \<noteq> BLOCK_STATE_ACTIVE then do { _ \<leftarrow> state_err a s; Some (EWRONG_STATE, s) }
          else do {
            s \<leftarrow> (case b_stop blk of None \<Rightarrow> Some s | Some f \<Rightarrow> hk_stop H f a s);
            s \<leftarrow> set_state a BLOCK_STATE_INACTIVE s;
            Some (0, s) } })"

definition ubx_block_cleanup :: "'w hooks \<Rightarrow> ptr \<Rightarrow> 'w ubx \<Rightarrow> (int \<times> 'w ubx) option" where
  "ubx_block_cleanup H b s =
     (case b of
        None \<Rightarrow> Some (EINVALID_BLOCK, s)
      | Some a \<Rightarrow> do {
          blk \<leftarrow> blks s a;
          if b_state blk \<noteq> BLOCK_STATE_INACTIVE then do { _ \<leftarrow> state_err a s; Some (EWRONG_STATE, s) }
          else do {
            s \<leftarrow> (case b_cleanup blk of None \<Rightarrow> Some s | Some f \<Rightarrow> hk_cleanup H f a s);
            s \<leftarrow> set_state a BLOCK_STATE_PREINIT s;
            Some (0, s) } })"

definition count_step :: "ubx_block \<Rightarrow> ubx_block option" where
  "count_step blk = (case b_ops blk of Ops_comp f n \<Rightarrow> Some (blk\<lparr>b_ops := Ops_comp f (n + 1)\<rparr>) | _ \<Rightarrow> None)"

definition ubx_cblock_step :: "'w hooks \<Rightarrow> ptr \<Rightarrow> 'w ubx \<Rightarrow> (int \<times> 'w ubx) option" where
  "ubx_cblock_step H b s =
     (case b of
        None \<Rightarrow> Some (EINVALID_BLOCK, s)
      | Some a \<Rightarrow> do {
          blk \<leftarrow> blks s a;
          if b_type blk \<noteq> BLOCK_TYPE_COMPUTATION
          then do { _ \<leftarrow> ubx_block_log blk s; Some (EINVALID_BLOCK_TYPE, s) }
          else if b_state blk \<noteq> BLOCK_STATE_ACTIVE
          then do { _ \<leftarrow> ubx_block_log blk s; Some (EWRONG_STATE, s) }
          else (case b_ops blk of
              Ops_comp None _ \<Rightarrow> Some (0, s)
            | Ops_comp (Some f) _ \<Rightarrow> do {
                s \<leftarrow> hk_step H f a s;
                blk \<leftarrow> blks s a;
                blk \<leftarrow> count_step blk;
                Some (0, s\<lparr>blks := (blks s)(a \<mapsto> blk)\<rparr>) }
            | _ \<Rightarrow> None) })"

section \<open>The life cycle as an automaton\<close>

text \<open>
  The promise of the life cycle is an automaton over the hook calls of one block. The hooks of
  \<open>trace_hooks pol\<close> record every call in the world, and return what the policy \<open>pol\<close>, an arbitrary
  function of everything that was called before, says.
\<close>

datatype lc_ev = E_init int | E_start int | E_stop | E_cleanup | E_step

datatype lc_st = L_preinit | L_inactive | L_active

fun lc_next :: "lc_st \<Rightarrow> lc_ev \<Rightarrow> lc_st option" where
  "lc_next L_preinit (E_init r) = Some (if r = 0 then L_inactive else L_preinit)"
| "lc_next L_inactive (E_start r) = Some (if r = 0 then L_active else L_inactive)"
| "lc_next L_inactive E_cleanup = Some L_preinit"
| "lc_next L_active E_stop = Some L_inactive"
| "lc_next L_active E_step = Some L_active"
| "lc_next _ _ = None"

fun lc_run :: "lc_st \<Rightarrow> lc_ev list \<Rightarrow> lc_st option" where
  "lc_run q [] = Some q"
| "lc_run q (e # es) = Option.bind (lc_next q e) (\<lambda>q. lc_run q es)"

lemma lc_run_snoc: "lc_run q (es @ [e]) = Option.bind (lc_run q es) (\<lambda>q. lc_next q e)"
  by (induction es arbitrary: q) (auto split: option.splits simp: bind_assoc)

definition lc_code :: "lc_st \<Rightarrow> u16" where
  "lc_code q = (case q of L_preinit \<Rightarrow> BLOCK_STATE_PREINIT | L_inactive \<Rightarrow> BLOCK_STATE_INACTIVE
     | L_active \<Rightarrow> BLOCK_STATE_ACTIVE)"

lemma lc_code_iff [simp]:
  "lc_code q = BLOCK_STATE_PREINIT \<longleftrightarrow> q = L_preinit" "lc_code q = BLOCK_STATE_INACTIVE \<longleftrightarrow> q = L_inactive"
  "lc_code q = BLOCK_STATE_ACTIVE \<longleftrightarrow> q = L_active"
  by (cases q; simp add: lc_code_def block_states)+

lemma lc_code_sel [simp]:
  "lc_code L_preinit = BLOCK_STATE_PREINIT" "lc_code L_inactive = BLOCK_STATE_INACTIVE"
  "lc_code L_active = BLOCK_STATE_ACTIVE"
  by (simp_all add: lc_code_def)

type_synonym trace = "(addr \<times> lc_ev) list"

definition emit :: "addr \<Rightarrow> lc_ev \<Rightarrow> trace ubx \<Rightarrow> trace ubx" where
  "emit a e s = s\<lparr>world := world s @ [(a, e)]\<rparr>"

definition trace_hooks :: "(trace \<Rightarrow> int) \<Rightarrow> trace hooks" where
  "trace_hooks pol = \<lparr>hk_init = (\<lambda>f a s. let r = pol (world s) in Some (r, emit a (E_init r) s)),
     hk_start = (\<lambda>f a s. let r = pol (world s) in Some (r, emit a (E_start r) s)),
     hk_stop = (\<lambda>f a s. Some (emit a E_stop s)), hk_cleanup = (\<lambda>f a s. Some (emit a E_cleanup s)),
     hk_step = (\<lambda>f a s. Some (emit a E_step s)),
     hk_read = (\<lambda>f a d s. Some (0, s)), hk_write = (\<lambda>f a d s. Some s)\<rparr>"

definition events_of :: "addr \<Rightarrow> trace \<Rightarrow> lc_ev list" where
  "events_of a tr = map snd (filter (\<lambda>e. fst e = a) tr)"

lemma events_of_emit:
  "events_of a (world (emit b e s)) = (if b = a then events_of a (world s) @ [e] else events_of a (world s))"
  by (simp add: events_of_def emit_def)

lemma emit_sel [simp]: "blks (emit a e s) = blks s" "cfgs (emit a e s) = cfgs s" "dats (emit a e s) = dats s"
  by (simp_all add: emit_def)

definition hooks_full :: "ubx_block \<Rightarrow> bool" where
  "hooks_full b \<longleftrightarrow> b_init b \<noteq> None \<and> b_start b \<noteq> None \<and> b_stop b \<noteq> None \<and> b_cleanup b \<noteq> None \<and>
     (\<exists>f n. b_ops b = Ops_comp (Some f) n)"

text \<open>The block follows the automaton.\<close>

definition lc_ok :: "addr \<Rightarrow> trace ubx \<Rightarrow> bool" where
  "lc_ok a s \<longleftrightarrow> (\<exists>blk q. blks s a = Some blk \<and> hooks_full blk \<and> lc_run L_preinit (events_of a (world s)) = Some q \<and>
     b_state blk = lc_code q)"

lemma lc_ok_frame: "lc_ok a s \<Longrightarrow> blks s' a = blks s a \<Longrightarrow> events_of a (world s') = events_of a (world s) \<Longrightarrow> lc_ok a s'"
  by (simp add: lc_ok_def)

inductive lc_step :: "ut_lib \<Rightarrow> (trace \<Rightarrow> int) \<Rightarrow> trace ubx \<Rightarrow> trace ubx \<Rightarrow> bool" for U pol where
  lc_init: "ubx_block_init U (trace_hooks pol) b s = Some (r, s') \<Longrightarrow> lc_step U pol s s'"
| lc_start: "ubx_block_start (trace_hooks pol) b s = Some (r, s') \<Longrightarrow> lc_step U pol s s'"
| lc_stop: "ubx_block_stop (trace_hooks pol) b s = Some (r, s') \<Longrightarrow> lc_step U pol s s'"
| lc_cleanup: "ubx_block_cleanup (trace_hooks pol) b s = Some (r, s') \<Longrightarrow> lc_step U pol s s'"
| lc_cstep: "ubx_cblock_step (trace_hooks pol) b s = Some (r, s') \<Longrightarrow> lc_step U pol s s'"

lemma upd_blk_iff:
  "upd_blk b f s = Some s' \<longleftrightarrow> (\<exists>blk. blks s b = Some blk \<and> s' = s\<lparr>blks := (blks s)(b \<mapsto> f blk)\<rparr>)"
  by (auto simp: upd_blk_def)

lemma init_loglevel_cases:
  assumes "init_loglevel U b s = Some s'"
  obtains blk l k where "blks s b = Some blk"
    "s' = s\<lparr>static_type := k, blks := (blks s)(b \<mapsto> blk\<lparr>b_loglevel := l\<rparr>)\<rparr>"
proof -
  from assms obtain c where c: "ubx_config_get (Some b) (Some ''loglevel'') s = Some c"
    unfolding init_loglevel_def bind_Some_iff by blast
  show ?thesis
  proof (cases c)
    case None
    with assms c have "upd_blk b (\<lambda>blk. blk\<lparr>b_loglevel := None\<rparr>) s = Some s'" by (simp add: init_loglevel_def)
    then obtain blk where "blks s b = Some blk" "s' = s\<lparr>blks := (blks s)(b \<mapsto> blk\<lparr>b_loglevel := None\<rparr>)\<rparr>"
      unfolding upd_blk_iff by blast
    then show ?thesis by (intro that [where k = "static_type s" and l = None and blk = blk]) simp_all
  next
    case (Some x)
    then obtain len p k where g: "cfg_getptr U ''int'' (static_type s ''cfg_getptr_int'') (Some b) (Some ''loglevel'') s = Some (len, p, k)"
      using assms c by (cases "cfg_getptr U ''int'' (static_type s ''cfg_getptr_int'') (Some b) (Some ''loglevel'') s")
        (auto simp: init_loglevel_def)
    with assms c Some have "upd_blk b (\<lambda>blk. blk\<lparr>b_loglevel := if len \<le> 0 then None else p\<rparr>) (s\<lparr>static_type := (static_type s)(''cfg_getptr_int'' := k)\<rparr>) = Some s'"
      by (simp add: init_loglevel_def Let_def split: if_splits)
    then show ?thesis using that [where k = "(static_type s)(''cfg_getptr_int'' := k)"] unfolding upd_blk_iff by auto
  qed
qed

lemma set_state_iff:
  "set_state b st s = Some s' \<longleftrightarrow> (\<exists>blk. blks s b = Some blk \<and> s' = s\<lparr>blks := (blks s)(b \<mapsto> blk\<lparr>b_state := st\<rparr>)\<rparr>)"
  by (auto simp: set_state_def upd_blk_def)

text \<open>One call moves the block along one edge of the automaton, or records nothing and leaves its state.\<close>

lemma lc_ok_edge:
  assumes "lc_ok a s" "blks s a = Some blk" "b_state blk = lc_code q" "lc_next q e = Some q'"
    "blks s' a = Some blk'" "b_state blk' = lc_code q'" "hooks_full blk'"
    "events_of a (world s') = events_of a (world s) @ [e]"
  shows "lc_ok a s'"
proof -
  have inj: "lc_code x = lc_code y \<longleftrightarrow> x = y" for x y by (cases y) auto
  from assms show ?thesis by (auto simp: lc_ok_def lc_run_snoc inj)
qed

lemma init_lc:
  assumes ok: "lc_ok a s" and r: "ubx_block_init U (trace_hooks pol) b s = Some (r, s')"
  shows "lc_ok a s'"
proof (cases b)
  case None
  with ok r show ?thesis by (simp add: ubx_block_init_def)
next
  case (Some c)
  with r obtain s1 where s1: "init_loglevel U c s = Some s1" by (auto simp: ubx_block_init_def)
  from this obtain blk l k where "blks s c = Some blk"
    "s1 = s\<lparr>static_type := k, blks := (blks s)(c \<mapsto> blk\<lparr>b_loglevel := l\<rparr>)\<rparr>"
    by (rule init_loglevel_cases)
  then have fr: "world s1 = world s" "blks s c = Some blk"
    "blks s1 = (blks s)(c \<mapsto> blk\<lparr>b_loglevel := l\<rparr>)" by simp_all
  have ok1: "lc_ok a s1" using ok fr by (auto simp: lc_ok_def hooks_full_def)
  show ?thesis
  proof (cases "c = a")
    case False
    have "blks s' a = blks s1 a \<and> events_of a (world s') = events_of a (world s1)"
      using r Some s1 False
      by (auto simp: ubx_block_init_def trace_hooks_def Let_def set_state_iff events_of_emit split: if_splits option.splits)
    with ok1 show ?thesis by (auto intro: lc_ok_frame)
  next
    case True
    let ?blk = "blk\<lparr>b_loglevel := l\<rparr>"
    have b1: "blks s1 a = Some ?blk" using fr True by simp
    show ?thesis
    proof (cases "s' = s1")
      case False
      from ok1 b1 obtain f where f: "b_init ?blk = Some f" and full: "hooks_full ?blk"
        by (auto simp: lc_ok_def hooks_full_def)
      from r Some s1 b1 True f False have st: "b_state ?blk = lc_code L_preinit"
        by (auto simp: ubx_block_init_def Let_def split: if_splits)
      obtain q where s': "events_of a (world s') = events_of a (world s1) @ [E_init q]"
        "blks s' a = Some (if q = 0 then ?blk\<lparr>b_state := lc_code L_inactive\<rparr> else ?blk)"
        using r Some s1 b1 True f False st
        by (auto simp: ubx_block_init_def trace_hooks_def Let_def set_state_iff events_of_emit split: if_splits)
      show ?thesis
        by (rule lc_ok_edge [OF ok1 b1 st, of "E_init q" "if q = 0 then L_inactive else L_preinit" s'
              "if q = 0 then ?blk\<lparr>b_state := lc_code L_inactive\<rparr> else ?blk"])
          (use s' full st in \<open>simp_all add: hooks_full_def\<close>)
    qed (use ok1 in simp)
  qed
qed

lemma count_step_iff:
  "count_step blk = Some blk' \<longleftrightarrow> (\<exists>f n. b_ops blk = Ops_comp f n \<and> blk' = blk\<lparr>b_ops := Ops_comp f (n + 1)\<rparr>)"
  by (auto simp: count_step_def split: block_ops.splits)

lemma block_start_cases:
  assumes r: "ubx_block_start H (Some a) s = Some (r, s')"
  obtains (refused) "s' = s" "r \<noteq> 0"
  | (nohook) blk where "blks s a = Some blk" "b_state blk = BLOCK_STATE_INACTIVE" "b_start blk = None" "r = 0"
      "s' = s\<lparr>blks := (blks s)(a \<mapsto> blk\<lparr>b_state := BLOCK_STATE_ACTIVE\<rparr>)\<rparr>"
  | (started) blk f where "blks s a = Some blk" "b_state blk = BLOCK_STATE_INACTIVE" "b_start blk = Some f" "r = 0"
      "hk_start H f a (s\<lparr>blks := (blks s)(a \<mapsto> blk\<lparr>b_state := BLOCK_STATE_ACTIVE\<rparr>)\<rparr>) = Some (0, s')"
  | (failed) blk f s2 blk2 where "blks s a = Some blk" "b_state blk = BLOCK_STATE_INACTIVE" "b_start blk = Some f" "r \<noteq> 0"
      "hk_start H f a (s\<lparr>blks := (blks s)(a \<mapsto> blk\<lparr>b_state := BLOCK_STATE_ACTIVE\<rparr>)\<rparr>) = Some (r, s2)"
      "blks s2 a = Some blk2" "s' = s2\<lparr>blks := (blks s2)(a \<mapsto> blk2\<lparr>b_state := BLOCK_STATE_INACTIVE\<rparr>)\<rparr>"
proof -
  from r obtain blk where blk: "blks s a = Some blk"
    unfolding ubx_block_start_def option.case bind_Some_iff by blast
  let ?s1 = "s\<lparr>blks := (blks s)(a \<mapsto> blk\<lparr>b_state := BLOCK_STATE_ACTIVE\<rparr>)\<rparr>"
  have s1: "set_state a BLOCK_STATE_ACTIVE s = Some ?s1" using blk by (simp add: set_state_def upd_blk_def)
  show ?thesis
  proof (cases "b_state blk = BLOCK_STATE_INACTIVE")
    case False
    with r blk refused show ?thesis by (auto simp: ubx_block_start_def)
  next
    case st: True
    with r blk obtain c where c: "check_minmax a True s = Some c" by (auto simp: ubx_block_start_def)
    show ?thesis
    proof (cases "c < 0")
      case True
      with r blk st c refused show ?thesis by (simp add: ubx_block_start_def)
    next
      case False
      show ?thesis
      proof (cases "b_start blk")
        case None
        with r blk st c False s1 nohook show ?thesis by (simp add: ubx_block_start_def)
      next
        case (Some f)
        with r blk st c False s1 obtain ret s2 where h: "hk_start H f a ?s1 = Some (ret, s2)"
          by (auto simp: ubx_block_start_def)
        show ?thesis
        proof (cases "ret = 0")
          case True
          with r blk st c False s1 Some h started show ?thesis by (simp add: ubx_block_start_def)
        next
          case ne: False
          with r blk st c False s1 Some h obtain blk2 where "blks s2 a = Some blk2" "r = ret"
            "s' = s2\<lparr>blks := (blks s2)(a \<mapsto> blk2\<lparr>b_state := BLOCK_STATE_INACTIVE\<rparr>)\<rparr>"
            by (auto simp: ubx_block_start_def set_state_def upd_blk_def)
          with blk st Some h ne failed show ?thesis by simp
        qed
      qed
    qed
  qed
qed

lemma start_lc:
  assumes ok: "lc_ok a s" and r: "ubx_block_start (trace_hooks pol) b s = Some (r, s')"
  shows "lc_ok a s'"
proof (cases b)
  case None
  with ok r show ?thesis by (simp add: ubx_block_start_def)
next
  case (Some c)
  have ev: "hk_start (trace_hooks pol) f c t = Some (q, t') \<longleftrightarrow> q = pol (world t) \<and> t' = emit c (E_start q) t" for f c t q t'
    by (auto simp: trace_hooks_def Let_def)
  from r [unfolded Some] show ?thesis
  proof (cases rule: block_start_cases)
    case refused
    with ok show ?thesis by simp
  next
    case (nohook blk)
    then show ?thesis using ok by (cases "c = a") (auto simp: lc_ok_def hooks_full_def)
  next
    case (started blk f)
    show ?thesis
    proof (cases "c = a")
      case False
      with ok show ?thesis using started(5) by (auto simp: ev events_of_emit elim!: lc_ok_frame)
    next
      case True
      have "hooks_full blk" using ok started(1) True by (simp add: lc_ok_def)
      with started True show ?thesis
        by (intro lc_ok_edge [OF ok, of blk L_inactive "E_start 0" L_active s' "blk\<lparr>b_state := BLOCK_STATE_ACTIVE\<rparr>"])
          (auto simp: ev events_of_emit hooks_full_def)
    qed
  next
    case (failed blk f s2 blk2)
    show ?thesis
    proof (cases "c = a")
      case False
      with ok show ?thesis using failed(5,7) by (auto simp: ev events_of_emit elim!: lc_ok_frame)
    next
      case True
      have "hooks_full blk" using ok failed(1) True by (simp add: lc_ok_def)
      with failed True show ?thesis
        by (intro lc_ok_edge [OF ok, of blk L_inactive "E_start r" L_inactive s' "blk2\<lparr>b_state := BLOCK_STATE_INACTIVE\<rparr>"])
          (auto simp: ev events_of_emit hooks_full_def)
    qed
  qed
qed

lemma stop_lc:
  assumes ok: "lc_ok a s" and r: "ubx_block_stop (trace_hooks pol) b s = Some (r, s')"
  shows "lc_ok a s'"
proof (cases "b = Some a")
  case False
  have "blks s' a = blks s a \<and> events_of a (world s') = events_of a (world s)"
    using r False
    by (auto simp: ubx_block_stop_def trace_hooks_def Let_def set_state_def upd_blk_def events_of_emit split: if_splits option.splits)
  with ok show ?thesis by (auto intro: lc_ok_frame)
next
  case b: True
  show ?thesis
  proof (cases "s' = s")
    case False
    from ok obtain blk f where blk: "blks s a = Some blk" "b_stop blk = Some f" and full: "hooks_full blk"
      by (auto simp: lc_ok_def hooks_full_def)
    from r b blk False have st: "b_state blk = lc_code L_active"
      by (auto simp: ubx_block_stop_def Let_def split: if_splits)
    have s': "events_of a (world s') = events_of a (world s) @ [E_stop]"
      "blks s' a = Some (blk\<lparr>b_state := lc_code L_inactive\<rparr>)"
      using r b blk False st
      by (auto simp: ubx_block_stop_def trace_hooks_def Let_def set_state_def upd_blk_def events_of_emit split: if_splits)
    show ?thesis
      by (rule lc_ok_edge [OF ok blk(1) st, of E_stop L_inactive s' "blk\<lparr>b_state := lc_code L_inactive\<rparr>"])
        (use s' full in \<open>simp_all add: hooks_full_def\<close>)
  qed (use ok in simp)
qed

lemma cleanup_lc:
  assumes ok: "lc_ok a s" and r: "ubx_block_cleanup (trace_hooks pol) b s = Some (r, s')"
  shows "lc_ok a s'"
proof (cases "b = Some a")
  case False
  have "blks s' a = blks s a \<and> events_of a (world s') = events_of a (world s)"
    using r False
    by (auto simp: ubx_block_cleanup_def trace_hooks_def Let_def set_state_def upd_blk_def events_of_emit split: if_splits option.splits)
  with ok show ?thesis by (auto intro: lc_ok_frame)
next
  case b: True
  show ?thesis
  proof (cases "s' = s")
    case False
    from ok obtain blk f where blk: "blks s a = Some blk" "b_cleanup blk = Some f" and full: "hooks_full blk"
      by (auto simp: lc_ok_def hooks_full_def)
    from r b blk False have st: "b_state blk = lc_code L_inactive"
      by (auto simp: ubx_block_cleanup_def Let_def split: if_splits)
    have s': "events_of a (world s') = events_of a (world s) @ [E_cleanup]"
      "blks s' a = Some (blk\<lparr>b_state := lc_code L_preinit\<rparr>)"
      using r b blk False st
      by (auto simp: ubx_block_cleanup_def trace_hooks_def Let_def set_state_def upd_blk_def events_of_emit split: if_splits)
    show ?thesis
      by (rule lc_ok_edge [OF ok blk(1) st, of E_cleanup L_preinit s' "blk\<lparr>b_state := lc_code L_preinit\<rparr>"])
        (use s' full in \<open>simp_all add: hooks_full_def\<close>)
  qed (use ok in simp)
qed

lemma step_lc:
  assumes ok: "lc_ok a s" and r: "ubx_cblock_step (trace_hooks pol) b s = Some (r, s')"
  shows "lc_ok a s'"
proof (cases "b = Some a")
  case False
  have "blks s' a = blks s a \<and> events_of a (world s') = events_of a (world s)"
    using r False
    by (auto simp: ubx_cblock_step_def trace_hooks_def Let_def count_step_iff events_of_emit
        split: if_splits option.splits block_ops.splits)
  with ok show ?thesis by (auto intro: lc_ok_frame)
next
  case b: True
  show ?thesis
  proof (cases "s' = s")
    case False
    from ok obtain blk f n where blk: "blks s a = Some blk" "b_ops blk = Ops_comp (Some f) n" and full: "hooks_full blk"
      by (auto simp: lc_ok_def hooks_full_def)
    from r b blk False have st: "b_state blk = lc_code L_active"
      by (auto simp: ubx_cblock_step_def Let_def split: if_splits)
    have s': "events_of a (world s') = events_of a (world s) @ [E_step]"
      "blks s' a = Some (blk\<lparr>b_ops := Ops_comp (Some f) (n + 1)\<rparr>)"
      using r b blk False st
      by (auto simp: ubx_cblock_step_def trace_hooks_def Let_def count_step_iff events_of_emit split: if_splits)
    show ?thesis
      by (rule lc_ok_edge [OF ok blk(1) st, of E_step L_active s' "blk\<lparr>b_ops := Ops_comp (Some f) (n + 1)\<rparr>"])
        (use s' full st in \<open>simp_all add: hooks_full_def\<close>)
  qed (use ok in simp)
qed

lemmas lc_ops = init_lc start_lc stop_lc cleanup_lc step_lc

lemma lc_steps_ok: "(lc_step U pol)\<^sup>*\<^sup>* s s' \<Longrightarrow> lc_ok a s \<Longrightarrow> lc_ok a s'"
  by (induction rule: rtranclp_induct) (auto elim!: lc_step.cases intro: lc_ops)

section \<open>Properties of the life cycle\<close>

text \<open>C1: whatever clients call in whatever order, on any blocks, and whatever the hooks return, the hook calls a
  computation block sees are a run of the life-cycle automaton, and its state is the automaton's: \<open>init\<close> only from
  preinit, \<open>start\<close> and \<open>cleanup\<close> only when inactive, \<open>step\<close> and \<open>stop\<close> only when active, and a failing
  \<open>init\<close> or \<open>start\<close> leaves the state.\<close>

theorem life_cycle_automaton:
  assumes "(lc_step U pol)\<^sup>*\<^sup>* s0 s" "world s0 = []" "blks s0 a = Some blk0" "hooks_full blk0"
    "b_state blk0 = BLOCK_STATE_PREINIT"
  shows "\<exists>blk q. blks s a = Some blk \<and> lc_run L_preinit (events_of a (world s)) = Some q \<and> b_state blk = lc_code q"
proof -
  have "lc_ok a s0" using assms(2-5)
    by (auto simp: lc_ok_def events_of_def intro!: exI [of _ L_preinit])
  from lc_steps_ok [OF assms(1) this] show ?thesis by (auto simp: lc_ok_def)
qed

definition hooked_blk :: ubx_block where
  "hooked_blk = (mk_blk ''b'' 1 [])\<lparr>b_init := Some 1, b_start := Some 2, b_stop := Some 3, b_cleanup := Some 4,
     b_ops := Ops_comp (Some 5) 0\<rparr>"

definition trace_node :: "trace ubx" where
  "trace_node = \<lparr>nd_name = ''n'', nd_blocks = [(''b'', 10)], nd_types = [], nd_modules = [], nd_cur_seqid = 0,
     nd_attrs = 0, nd_loglevel = 6, blks = [10 \<mapsto> hooked_blk], prts = Map.empty, cfgs = Map.empty,
     typs = Map.empty, dats = Map.empty, mods = Map.empty, static_type = (\<lambda>_. None), next_addr = 100, oom = [], world = []\<rparr>"

theorem life_cycle_automaton_witness:
  "\<exists>s blk. (lc_step ut_ref (\<lambda>tr. int (length tr)))\<^sup>*\<^sup>* trace_node s \<and> blks s 10 = Some blk \<and>
     b_state blk = BLOCK_STATE_INACTIVE \<and> events_of 10 (world s) = [E_init 0, E_start 1]"
proof -
  let ?pol = "\<lambda>tr :: trace. int (length tr)"
  obtain s1 where s1: "ubx_block_init ut_ref (trace_hooks ?pol) (Some 10) trace_node = Some (0, s1)"
    "blks s1 10 = Some (hooked_blk\<lparr>b_state := BLOCK_STATE_INACTIVE\<rparr>)" "world s1 = [(10, E_init 0)]" "nd_loglevel s1 = 6"
    by (simp add: ubx_block_init_def init_loglevel_def trace_node_def hooked_blk_def mk_blk_def ubx_config_get_def
        upd_blk_def BLOCK_STATE_PREINIT_def check_minmax_def trace_hooks_def Let_def emit_def set_state_def)
  obtain s2 where s2: "ubx_block_start (trace_hooks ?pol) (Some 10) s1 = Some (1, s2)" "world s2 = [(10, E_init 0), (10, E_start 1)]"
    using s1 by (simp add: ubx_block_start_def hooked_blk_def mk_blk_def upd_blk_def check_minmax_def
        trace_hooks_def Let_def emit_def set_state_def ubx_block_log_def)
  have st: "(lc_step ut_ref ?pol)\<^sup>*\<^sup>* trace_node s2"
    using lc_init [OF s1(1)] lc_start [OF s2(1)]
    by (meson rtranclp.rtrancl_into_rtrancl rtranclp.rtrancl_refl)
  have b: "world trace_node = []" "blks trace_node 10 = Some hooked_blk" "hooks_full hooked_blk"
    "b_state hooked_blk = BLOCK_STATE_PREINIT"
    by (simp_all add: trace_node_def hooked_blk_def hooks_full_def mk_blk_def BLOCK_STATE_PREINIT_def)
  from life_cycle_automaton [OF st b] s2(2) st show ?thesis
    by (auto simp: events_of_def lc_code_def)
qed

text \<open>An operation called in a wrong state is rejected with \<open>EWRONG_STATE\<close>, calls no hook and changes nothing,
  for all hooks, on a block that can log and has one of the three states.\<close>

theorem life_cycle_rejects:
  assumes "blks s a = Some blk" "ubx_block_log blk s = Some ()" "b_state blk = lc_code q"
  shows "(q \<noteq> L_inactive \<longrightarrow> ubx_block_start H (Some a) s = Some (EWRONG_STATE, s)) \<and>
    (q \<noteq> L_active \<longrightarrow> ubx_block_stop H (Some a) s = Some (EWRONG_STATE, s)) \<and>
    (q \<noteq> L_inactive \<longrightarrow> ubx_block_cleanup H (Some a) s = Some (EWRONG_STATE, s)) \<and>
    (q \<noteq> L_active \<longrightarrow> b_type blk = BLOCK_TYPE_COMPUTATION \<longrightarrow> ubx_cblock_step H (Some a) s = Some (EWRONG_STATE, s)) \<and>
    (q \<noteq> L_preinit \<longrightarrow> b_configs blk = [] \<longrightarrow> b_loglevel blk = None \<longrightarrow>
       ubx_block_init U H (Some a) s = Some (EWRONG_STATE, s))"
proof -
  have "state_err a s = Some ()"
    using assms by (cases q) (simp_all add: state_err_def block_state_tostr_def block_states block_states_names_def)
  moreover have "init_loglevel U a s = Some s" if "b_configs blk = []" "b_loglevel blk = None"
  proof -
    have e: "blk\<lparr>b_loglevel := None\<rparr> = blk" using that(2) by simp
    have f: "(blks s)(a \<mapsto> blk) = blks s" using assms(1) by (intro fun_upd_idem)
    have "upd_blk a (\<lambda>blk. blk\<lparr>b_loglevel := None\<rparr>) s = Some s"
      unfolding upd_blk_def assms(1) Option.bind.bind_lunit e f by simp
    with assms(1) that(1) show ?thesis by (simp add: init_loglevel_def ubx_config_get_def)
  qed
  ultimately show ?thesis using assms
    by (auto simp: ubx_block_start_def ubx_block_stop_def ubx_block_cleanup_def ubx_cblock_step_def
        ubx_block_init_def)
qed

theorem life_cycle_rejects_witness:
  "ubx_block_stop (trace_hooks (\<lambda>_. 0)) (Some 10) trace_node = Some (EWRONG_STATE, trace_node)"
  using life_cycle_rejects [of trace_node 10 hooked_blk L_preinit "trace_hooks (\<lambda>_. 0)" ut_ref]
  by (simp add: trace_node_def hooked_blk_def mk_blk_def ubx_block_log_def BLOCK_STATE_PREINIT_def)

text \<open>The bounds check of \<open>block_state_tostr\<close> compares with the size of the table in bytes: it names the three states,
  and reads past the end of the table for every state from 3 to 23 instead of saying ``invalid''.\<close>

theorem block_state_tostr_overread:
  "block_state_tostr st =
     (if st = 0 then Some ''preinit'' else if st = 1 then Some ''inactive'' else if st = 2 then Some ''active''
      else if st < 24 then None else Some ''invalid'')"
proof -
  consider "st = 0" | "st = 1" | "st = 2" | "3 \<le> unat st"
  proof -
    have "unat st = 0 \<or> unat st = 1 \<or> unat st = 2 \<or> 3 \<le> unat st" by arith
    then show thesis using that by (auto simp: word_unat_eq_iff)
  qed
  then show ?thesis
    by cases (auto simp: block_state_tostr_def block_states_names_def word_less_nat_alt word_unat_eq_iff)
qed

end
