(* ===== verification/Ubx_Wf.thy ===== *)
theory Ubx_Wf
  imports Ubx_Block
begin

text \<open>
  The invariant of the core: the block table maps names to live blocks, every live block owns the live
  ports and configs in its lists, the values obey the reference count invariant, and addresses the
  allocator has not handed out are unused. The lemmas show what freeing, registering and removing blocks do
  to it; \<^verbatim>\<open>Ubx_Node\<close> builds on them.
\<close>

section \<open>The invariant\<close>

definition blk_wf :: "(addr \<Rightarrow> ubx_port option) \<Rightarrow> (addr \<Rightarrow> ubx_config option) \<Rightarrow> addr \<Rightarrow> ubx_block \<Rightarrow> bool" where
  "blk_wf P C a blk \<longleftrightarrow>
     distinct (b_ports blk) \<and> (\<forall>p \<in> set (b_ports blk). \<exists>port. P p = Some port \<and> p_block port = a) \<and>
     distinct (b_configs blk) \<and> (\<forall>c \<in> set (b_configs blk). \<exists>cfg. C c = Some cfg \<and> c_block cfg = a \<and> c_type cfg \<noteq> None)"

definition tab_wf :: "htab \<Rightarrow> (addr \<Rightarrow> ubx_block option) \<Rightarrow> bool" where
  "tab_wf t B \<longleftrightarrow> htab_ok t \<and> (\<forall>e \<in> set t. \<exists>blk. B (snd e) = Some blk \<and> b_name blk = fst e)"

definition core_wf :: "'w ubx \<Rightarrow> bool" where
  "core_wf s \<longleftrightarrow> (\<exists>ext. rc_inv s ext) \<and> tab_wf (nd_blocks s) (blks s) \<and>
     (\<forall>a blk. blks s a = Some blk \<longrightarrow> blk_wf (prts s) (cfgs s) a blk) \<and>
     fresh_from (next_addr s) (blks s) \<and> fresh_from (next_addr s) (prts s)"

lemma core_wfD:
  assumes "core_wf s"
  shows "htab_ok (nd_blocks s)" "(n, a) \<in> set (nd_blocks s) \<Longrightarrow> \<exists>blk. blks s a = Some blk \<and> b_name blk = n"
    "blks s a = Some blk \<Longrightarrow> blk_wf (prts s) (cfgs s) a blk"
  using assms by (auto simp: core_wf_def tab_wf_def)

lemma core_wf_upd:
  assumes "core_wf s" "blks s a = Some b" "b_name b' = b_name b" "b_ports b' = b_ports b" "b_configs b' = b_configs b"
  shows "core_wf (s\<lparr>blks := (blks s)(a \<mapsto> b')\<rparr>)"
proof -
  from assms(1) obtain ext where "rc_inv s ext" by (auto simp: core_wf_def)
  then have "rc_inv (s\<lparr>blks := (blks s)(a \<mapsto> b')\<rparr>) ext" by (rule rc_inv_cong) simp_all
  moreover have "tab_wf (nd_blocks s) ((blks s)(a \<mapsto> b'))" using assms by (auto simp: core_wf_def tab_wf_def)
  moreover have "blk_wf (prts s) (cfgs s) a b'"
    using core_wfD(3) [OF assms(1,2)] assms(4,5) by (simp add: blk_wf_def)
  moreover have "a < next_addr s" using assms(1,2) by (auto simp: core_wf_def intro: fresh_from_lt)
  ultimately show ?thesis using assms(1) by (auto simp: core_wf_def)
qed

lemma core_wf_world: "core_wf (s\<lparr>world := w\<rparr>) = core_wf s"
proof -
  have "rc_inv (s\<lparr>world := w\<rparr>) ext = rc_inv s ext" for ext by (auto simp: rc_inv_def)
  then show ?thesis by (simp add: core_wf_def)
qed

section \<open>Freeing a block\<close>

text \<open>Everything but the heap objects of a block is as before.\<close>

definition heap_only :: "'w ubx \<Rightarrow> 'w ubx \<Rightarrow> bool" where
  "heap_only s s' \<longleftrightarrow> nd_name s' = nd_name s \<and> nd_blocks s' = nd_blocks s \<and> nd_types s' = nd_types s \<and> nd_modules s' = nd_modules s \<and>
     nd_cur_seqid s' = nd_cur_seqid s \<and> nd_attrs s' = nd_attrs s \<and> nd_loglevel s' = nd_loglevel s \<and> typs s' = typs s \<and>
     mods s' = mods s \<and> static_type s' = static_type s \<and> next_addr s' = next_addr s \<and> oom s' = oom s \<and>
     world s' = world s"

lemma heap_only_refl [simp]: "heap_only s s"
  by (simp add: heap_only_def)

lemma heap_only_trans: "heap_only s t \<Longrightarrow> heap_only t u \<Longrightarrow> heap_only s u"
  by (simp add: heap_only_def)

lemma heap_onlyD:
  assumes "heap_only s s'"
  shows "nd_blocks s' = nd_blocks s" "next_addr s' = next_addr s" "typs s' = typs s" "nd_types s' = nd_types s"
    "oom s' = oom s" "world s' = world s"
  using assms by (simp_all add: heap_only_def)

context ut_laws
begin

lemma free_configs_ok:
  assumes "rc_inv s ext" "blks s a = Some blk" "b_configs blk = cs" "distinct cs"
    "\<forall>c \<in> set cs. cfgs s c \<noteq> None"
  shows "\<exists>s'. free_configs U a cs s = Some s' \<and> rc_inv s' ext \<and> heap_only s s' \<and> prts s' = prts s \<and>
    cfgs s' = (\<lambda>c. if c \<in> set cs then None else cfgs s c) \<and>
    blks s' = (blks s)(a \<mapsto> blk\<lparr>b_configs := []\<rparr>)"
  using assms
proof (induction cs arbitrary: s blk)
  case Nil
  then have "blk\<lparr>b_configs := []\<rparr> = blk" by simp
  with Nil show ?case by (auto simp: fun_upd_idem)
next
  case (Cons c cs)
  let ?s1 = "s\<lparr>blks := (blks s)(a \<mapsto> blk\<lparr>b_configs := cs\<rparr>)\<rparr>"
  have d: "dl_delete U (b_configs blk) c = cs" using Cons.prems(3,4) by (simp add: delete_law)
  from Cons.prems(1) have rc1: "rc_inv ?s1 ext" by (rule rc_inv_cong) simp_all
  from Cons.prems(5) obtain cfg where c: "cfgs ?s1 c = Some cfg" by auto
  from rc_inv_config_free [OF rc1 c] obtain D where
    D: "ubx_config_free c ?s1 = Some (?s1\<lparr>dats := D, cfgs := (cfgs ?s1)(c := None)\<rparr>)"
    "rc_inv (?s1\<lparr>dats := D, cfgs := (cfgs ?s1)(c := None)\<rparr>) ext" by blast
  let ?s2 = "?s1\<lparr>dats := D, cfgs := (cfgs ?s1)(c := None)\<rparr>"
  have "\<exists>s'. free_configs U a cs ?s2 = Some s' \<and> rc_inv s' ext \<and> heap_only ?s2 s' \<and> prts s' = prts ?s2 \<and>
    cfgs s' = (\<lambda>x. if x \<in> set cs then None else cfgs ?s2 x) \<and>
    blks s' = (blks ?s2)(a \<mapsto> (blk\<lparr>b_configs := cs\<rparr>)\<lparr>b_configs := []\<rparr>)"
    by (rule Cons.IH [OF D(2)]) (use Cons.prems(4,5) in auto)
  then obtain s' where s': "free_configs U a cs ?s2 = Some s'" "rc_inv s' ext" "heap_only ?s2 s'" "prts s' = prts s"
    "cfgs s' = (\<lambda>x. if x \<in> set cs then None else cfgs ?s2 x)" "blks s' = (blks s)(a \<mapsto> blk\<lparr>b_configs := []\<rparr>)"
    by auto
  have "free_configs U a (c # cs) s = Some s'"
    using Cons.prems(2) D(1) s'(1) d by (simp add: Let_def)
  moreover have "heap_only s s'" using s'(3) by (simp add: heap_only_def)
  moreover have "cfgs s' = (\<lambda>x. if x \<in> set (c # cs) then None else cfgs s x)"
    using s'(5) by (auto simp: fun_eq_iff)
  ultimately show ?case using s' by blast
qed

lemma free_ports_ok:
  assumes "rc_inv s ext" "blks s a = Some blk" "b_ports blk = ps" "distinct ps"
    "\<forall>p \<in> set ps. prts s p \<noteq> None"
  shows "\<exists>s'. free_ports U a ps s = Some s' \<and> rc_inv s' ext \<and> heap_only s s' \<and> cfgs s' = cfgs s \<and>
    prts s' = (\<lambda>p. if p \<in> set ps then None else prts s p) \<and>
    blks s' = (blks s)(a \<mapsto> blk\<lparr>b_ports := []\<rparr>)"
  using assms
proof (induction ps arbitrary: s blk)
  case Nil
  then have "blk\<lparr>b_ports := []\<rparr> = blk" by simp
  with Nil show ?case by (auto simp: fun_upd_idem)
next
  case (Cons p ps)
  let ?s2 = "s\<lparr>blks := (blks s)(a \<mapsto> blk\<lparr>b_ports := ps\<rparr>), prts := (prts s)(p := None)\<rparr>"
  have d: "dl_delete U (b_ports blk) p = ps" using Cons.prems(3,4) by (simp add: delete_law)
  from Cons.prems(1) have rc2: "rc_inv ?s2 ext" by (rule rc_inv_cong) simp_all
  have "\<exists>s'. free_ports U a ps ?s2 = Some s' \<and> rc_inv s' ext \<and> heap_only ?s2 s' \<and> cfgs s' = cfgs ?s2 \<and>
    prts s' = (\<lambda>x. if x \<in> set ps then None else prts ?s2 x) \<and>
    blks s' = (blks ?s2)(a \<mapsto> (blk\<lparr>b_ports := ps\<rparr>)\<lparr>b_ports := []\<rparr>)"
    by (rule Cons.IH [OF rc2]) (use Cons.prems(4,5) in auto)
  then obtain s' where s': "free_ports U a ps ?s2 = Some s'" "rc_inv s' ext" "heap_only ?s2 s'" "cfgs s' = cfgs s"
    "prts s' = (\<lambda>x. if x \<in> set ps then None else prts ?s2 x)" "blks s' = (blks s)(a \<mapsto> blk\<lparr>b_ports := []\<rparr>)"
    by auto
  have "free_ports U a (p # ps) s = Some s'"
    using Cons.prems(2,5) s'(1) d by (auto simp: Let_def ubx_port_free_def)
  moreover have "heap_only s s'" using s'(3) by (simp add: heap_only_def)
  moreover have "prts s' = (\<lambda>x. if x \<in> set (p # ps) then None else prts s x)"
    using s'(5) by (auto simp: fun_eq_iff)
  ultimately show ?case using s' by blast
qed

lemma block_free_ok:
  assumes rc: "rc_inv s ext" and b: "blks s a = Some blk" and wf: "blk_wf (prts s) (cfgs s) a blk"
  shows "\<exists>s'. ubx_block_free U a s = Some s' \<and> rc_inv s' ext \<and> heap_only s s' \<and> blks s' = (blks s)(a := None) \<and>
    cfgs s' = (\<lambda>c. if c \<in> set (b_configs blk) then None else cfgs s c) \<and>
    prts s' = (\<lambda>p. if p \<in> set (b_ports blk) then None else prts s p)"
proof -
  from wf have w: "distinct (b_configs blk)" "\<forall>c \<in> set (b_configs blk). cfgs s c \<noteq> None"
    "distinct (b_ports blk)" "\<forall>p \<in> set (b_ports blk). prts s p \<noteq> None"
    by (auto simp: blk_wf_def)
  from free_configs_ok [OF rc b refl w(1,2)] obtain s1 where
    s1: "free_configs U a (b_configs blk) s = Some s1" "rc_inv s1 ext" "heap_only s s1" "prts s1 = prts s"
      "cfgs s1 = (\<lambda>c. if c \<in> set (b_configs blk) then None else cfgs s c)"
      "blks s1 = (blks s)(a \<mapsto> blk\<lparr>b_configs := []\<rparr>)" by blast
  have "\<exists>s'. free_ports U a (b_ports blk) s1 = Some s' \<and> rc_inv s' ext \<and> heap_only s1 s' \<and> cfgs s' = cfgs s1 \<and>
    prts s' = (\<lambda>p. if p \<in> set (b_ports blk) then None else prts s1 p) \<and>
    blks s' = (blks s1)(a \<mapsto> (blk\<lparr>b_configs := []\<rparr>)\<lparr>b_ports := []\<rparr>)"
    by (rule free_ports_ok [OF s1(2)]) (use w s1(4,6) in auto)
  then obtain s2 where s2: "free_ports U a (b_ports blk) s1 = Some s2" "rc_inv s2 ext" "heap_only s1 s2" "cfgs s2 = cfgs s1"
    "prts s2 = (\<lambda>p. if p \<in> set (b_ports blk) then None else prts s1 p)"
    "blks s2 = (blks s)(a \<mapsto> (blk\<lparr>b_configs := []\<rparr>)\<lparr>b_ports := []\<rparr>)" using s1(6) by auto
  let ?s3 = "s2\<lparr>blks := (blks s2)(a := None)\<rparr>"
  have "ubx_block_free U a s = Some ?s3"
    using b s1(1) s2(1) by (simp add: ubx_block_free_def)
  moreover have "rc_inv ?s3 ext" using s2(2) by (rule rc_inv_cong) simp_all
  moreover have "heap_only s ?s3" using s1(3) s2(3) by (simp add: heap_only_def)
  moreover note s2(5) [unfolded s1(4)]
  ultimately show ?thesis using s1 s2 by (intro exI [of _ ?s3]) simp
qed

text \<open>Freeing a block that is not in the table keeps the invariant: the objects it owns belong to no other
  block.\<close>

lemma block_free_wf:
  assumes wf: "core_wf s" and b: "blks s a = Some blk" and na: "a \<notin> set (elems (nd_blocks s))"
  shows "\<exists>s'. ubx_block_free U a s = Some s' \<and> core_wf s' \<and> heap_only s s' \<and> blks s' = (blks s)(a := None)"
proof -
  from wf obtain ext where rc: "rc_inv s ext" by (auto simp: core_wf_def)
  from block_free_ok [OF rc b core_wfD(3) [OF wf b]] obtain s' where
    s': "ubx_block_free U a s = Some s'" "rc_inv s' ext" "heap_only s s'" "blks s' = (blks s)(a := None)"
    "cfgs s' = (\<lambda>c. if c \<in> set (b_configs blk) then None else cfgs s c)"
    "prts s' = (\<lambda>p. if p \<in> set (b_ports blk) then None else prts s p)" by blast
  have own: "c_block cfg = a" if "c \<in> set (b_configs blk)" "cfgs s c = Some cfg" for c cfg
    using core_wfD(3) [OF wf b] that by (auto simp: blk_wf_def)
  have ownp: "p_block port = a" if "p \<in> set (b_ports blk)" "prts s p = Some port" for p port
    using core_wfD(3) [OF wf b] that by (auto simp: blk_wf_def)
  have "blk_wf (prts s') (cfgs s') x bx" if "blks s' x = Some bx" for x bx
  proof -
    from that s'(4) have x: "x \<noteq> a" "blks s x = Some bx" by (auto split: if_splits)
    from core_wfD(3) [OF wf x(2)] x(1) show ?thesis
      unfolding blk_wf_def s'(5,6) by (auto dest: own ownp)
  qed
  moreover have "tab_wf (nd_blocks s') (blks s')"
    using wf na s'(4) heap_onlyD(1) [OF s'(3)] by (force simp: core_wf_def tab_wf_def elems_def)
  moreover have "fresh_from (next_addr s') (blks s')" "fresh_from (next_addr s') (prts s')"
    using wf heap_onlyD(2) [OF s'(3)] s'(4,6) by (auto simp: core_wf_def fresh_from_def)
  ultimately have "core_wf s'" using s'(2) by (auto simp: core_wf_def)
  with s' show ?thesis by blast
qed

lemma core_wf_filter:
  assumes "core_wf s"
  shows "core_wf (s\<lparr>nd_blocks := filter P (nd_blocks s)\<rparr>)"
proof -
  from assms obtain ext where "rc_inv s ext" by (auto simp: core_wf_def)
  then have "rc_inv (s\<lparr>nd_blocks := filter P (nd_blocks s)\<rparr>) ext" by (rule rc_inv_cong) simp_all
  with assms show ?thesis by (auto simp: core_wf_def tab_wf_def)
qed

lemma block_unregister_wf:
  assumes wf: "core_wf s" and n: "(n, a) \<in> set (nd_blocks s)"
  shows "\<exists>s'. ubx_block_unregister U n s = Some (0, s') \<and> core_wf s' \<and>
    nd_blocks s' = filter (\<lambda>e. fst e \<noteq> n) (nd_blocks s) \<and> blks s' = (blks s)(a := None) \<and>
    heap_only (s\<lparr>nd_blocks := filter (\<lambda>e. fst e \<noteq> n) (nd_blocks s)\<rparr>) s'"
proof -
  note h = core_wfD(1) [OF wf]
  from core_wfD(2) [OF wf n] obtain blk where b: "blks s a = Some blk" by blast
  have f: "ut_find U (nd_blocks s) n = Some a" using n h by (simp add: find_iff)
  let ?s1 = "s\<lparr>nd_blocks := filter (\<lambda>e. fst e \<noteq> n) (nd_blocks s)\<rparr>"
  have na: "a \<notin> set (elems (nd_blocks ?s1))"
    using htab_ok_inj [OF h n] by (auto simp: elems_def)
  from block_free_wf [of ?s1 a blk] core_wf_filter [OF wf] b na obtain s' where
    s': "ubx_block_free U a ?s1 = Some s'" "core_wf s'" "heap_only ?s1 s'" "blks s' = (blks s)(a := None)"
    by auto
  have "ubx_block_unregister U n s = Some (0, s')"
    using f b s'(1) del_ok(3) [OF h f] by (simp add: ubx_block_unregister_def)
  with s' heap_onlyD(1) [OF s'(3)] show ?thesis by auto
qed

lemma block_rm_wf:
  assumes wf: "core_wf s" and n: "(n, a) \<in> set (nd_blocks s)" and b: "blks s a = Some blk"
    and st: "b_state blk = BLOCK_STATE_PREINIT" and inst: "b_prototype blk \<noteq> None"
  shows "\<exists>s'. ubx_block_rm U (Some n) s = Some (0, s') \<and> core_wf s' \<and>
    nd_blocks s' = filter (\<lambda>e. fst e \<noteq> n) (nd_blocks s) \<and> blks s' = (blks s)(a := None) \<and>
    heap_only (s\<lparr>nd_blocks := filter (\<lambda>e. fst e \<noteq> n) (nd_blocks s)\<rparr>) s'"
proof -
  have "ut_find U (nd_blocks s) n = Some a" using n core_wfD(1) [OF wf] by (simp add: find_iff)
  with block_unregister_wf [OF wf n] b st inst show ?thesis
    by (auto simp: ubx_block_rm_def ubx_block_get_def)
qed

end

end
