(* ===== verification/Ubx_Node.thy ===== *)
theory Ubx_Node
  imports Ubx_Wf
begin

text \<open>
  Modules and the node, from \<^verbatim>\<open>libubx/ubx.c\<close>: loading and unloading of modules, initialising a node,
  clearing it of its block instances, cleaning it up and removing it. The dynamic linker and the functions of the
  loaded libraries are the parameter \<open>M\<close>.
\<close>

section \<open>Modules\<close>

text \<open>
  \<open>dlopen\<close> (NULL is \<open>None\<close>; running the constructors of the library may change the world), \<open>dlsym\<close>
  (\<open>None\<close> when \<open>dlerror\<close> reports an error), \<open>dlclose\<close>, and the module functions the symbols
  refer to.
\<close>

record 'w mod_env =
  dl_open :: "string \<Rightarrow> 'w \<Rightarrow> nat option \<times> 'w"
  dl_sym :: "nat \<Rightarrow> string \<Rightarrow> nat option"
  dl_close :: "nat \<Rightarrow> 'w \<Rightarrow> 'w"
  mod_init :: "fptr \<Rightarrow> 'w ubx \<Rightarrow> (int \<times> 'w ubx) option"
  mod_cleanup :: "fptr \<Rightarrow> 'w ubx \<Rightarrow> 'w ubx option"

text \<open>The label \<open>out_err_close\<close>: close the library, free the id and the module.\<close>

definition load_fail_close :: "'w mod_env \<Rightarrow> nat \<Rightarrow> addr \<Rightarrow> 'w ubx \<Rightarrow> int \<times> 'w ubx" where
  "load_fail_close M h a s = (- 1, s\<lparr>world := dl_close M h (world s), mods := (mods s)(a := None)\<rparr>)"

definition ubx_module_load :: "ut_lib \<Rightarrow> 'w mod_env \<Rightarrow> string \<Rightarrow> 'w ubx \<Rightarrow> (int \<times> 'w ubx) option" where
  "ubx_module_load U M lib s =
     (if ut_find U (nd_modules s) lib \<noteq> None then Some (- 1, s)
      else (case calloc s of
        (None, s) \<Rightarrow> Some (- 1, s)
      | (Some a, s) \<Rightarrow>
          (let (idok, s) = mem_alloc s in
           if \<not> idok then Some (- 1, s)
           else (let (h, w) = dl_open M lib (world s); s = s\<lparr>world := w\<rparr> in
             case h of
               None \<Rightarrow> Some (- 1, s)
             | Some h \<Rightarrow>
                 (case dl_sym M h ''__ubx_initialize_module'' of
                    None \<Rightarrow> Some (load_fail_close M h a s)
                  | Some fi \<Rightarrow>
                      (case dl_sym M h ''__ubx_cleanup_module'' of
                         None \<Rightarrow> Some (load_fail_close M h a s)
                       | Some fc \<Rightarrow>
                           (let m = \<lparr>m_id = lib, m_handle = h, m_init = fi, m_cleanup = fc,
                                  m_spdx = dl_sym M h ''__ubx_module_license_spdx''\<rparr>;
                                s = s\<lparr>mods := (mods s)(a \<mapsto> m)\<rparr>
                            in do {
                              (ret, s) \<leftarrow> mod_init M fi s;
                              if ret \<noteq> 0 then Some (load_fail_close M h a s)
                              else Some (0, s\<lparr>nd_modules := ut_add U (nd_modules s) lib a\<rparr>) })))))))"

definition ubx_module_get :: "ut_lib \<Rightarrow> 'w ubx \<Rightarrow> string \<Rightarrow> ptr" where
  "ubx_module_get U s lib = ut_find U (nd_modules s) lib"

definition ubx_module_cleanup :: "ut_lib \<Rightarrow> 'w mod_env \<Rightarrow> string \<Rightarrow> 'w ubx \<Rightarrow> 'w ubx option" where
  "ubx_module_cleanup U M lib s =
     (case ut_find U (nd_modules s) lib of
        None \<Rightarrow> Some s
      | Some a \<Rightarrow> do { m \<leftarrow> mods s a; mod_cleanup M (m_cleanup m) s })"

definition ubx_module_close :: "ut_lib \<Rightarrow> 'w mod_env \<Rightarrow> string \<Rightarrow> 'w ubx \<Rightarrow> 'w ubx option" where
  "ubx_module_close U M lib s =
     (case ut_find U (nd_modules s) lib of
        None \<Rightarrow> Some s
      | Some a \<Rightarrow> do {
          m \<leftarrow> mods s a;
          Some (s\<lparr>nd_modules := ut_del U (nd_modules s) a,
                  world := dl_close M (m_handle m) (world s),
                  mods := (mods s)(a := None)\<rparr>) })"

definition ubx_module_unload :: "ut_lib \<Rightarrow> 'w mod_env \<Rightarrow> string \<Rightarrow> 'w ubx \<Rightarrow> 'w ubx option" where
  "ubx_module_unload U M lib s = do { s \<leftarrow> ubx_module_cleanup U M lib s; ubx_module_close U M lib s }"

definition ubx_num_blocks :: "ut_lib \<Rightarrow> 'w ubx \<Rightarrow> nat" where "ubx_num_blocks U s = ut_count U (nd_blocks s)"
definition ubx_num_types :: "ut_lib \<Rightarrow> 'w ubx \<Rightarrow> nat" where "ubx_num_types U s = ut_count U (nd_types s)"
definition ubx_num_modules :: "ut_lib \<Rightarrow> 'w ubx \<Rightarrow> nat" where "ubx_num_modules U s = ut_count U (nd_modules s)"

section \<open>The node\<close>

definition ND_MLOCK_ALL :: u32 where "ND_MLOCK_ALL = 1"
definition ND_DUMPABLE :: u32 where "ND_DUMPABLE = 2"
definition UBX_LOGLEVEL_DEFAULT :: int where "UBX_LOGLEVEL_DEFAULT = UBX_LOGLEVEL_INFO"

text \<open>What initialisation learns from its environment: the result of \<open>ubx_log_init\<close> (for shared memory,
  \<^verbatim>\<open>Ubx_Rtlog\<close>) and whether \<open>prctl\<close> and \<open>mlockall\<close> succeed.\<close>

record node_env =
  env_log_init :: int
  env_prctl :: int
  env_mlockall :: int

definition ubx_node_init :: "node_env \<Rightarrow> string option \<Rightarrow> u32 \<Rightarrow> 'w ubx \<Rightarrow> int \<times> 'w ubx" where
  "ubx_node_init e name attrs s =
     (let s = s\<lparr>nd_loglevel := (if nd_loglevel s = 0 then UBX_LOGLEVEL_DEFAULT else nd_loglevel s)\<rparr> in
      if env_log_init e \<noteq> 0 then (- 1, s)
      else case name of
        None \<Rightarrow> (- 1, s)
      | Some n \<Rightarrow>
          (let s = s\<lparr>nd_name := strncpy UBX_NODE_NAME_MAXLEN n\<rparr> in
           if attrs AND ND_DUMPABLE \<noteq> 0 \<and> env_prctl e \<noteq> 0 then (- 1, s)
           else if attrs AND ND_MLOCK_ALL \<noteq> 0 \<and> env_mlockall e \<noteq> 0 then (- 1, s)
           else (0, s\<lparr>nd_attrs := attrs, nd_blocks := [], nd_types := [], nd_modules := [],
                      nd_cur_seqid := 0\<rparr>)))"

text \<open>The bodies of the three loops of \<open>ubx_node_clear\<close>. What the calls return is only logged.\<close>

definition clear_stop :: "'w hooks \<Rightarrow> addr \<Rightarrow> 'w ubx \<Rightarrow> 'w ubx option" where
  "clear_stop H a s = do {
     b \<leftarrow> blks s a;
     if b_state b = BLOCK_STATE_ACTIVE
     then do { (ret, s) \<leftarrow> ubx_block_stop H (Some a) s; Some s } else Some s }"

definition clear_cleanup :: "'w hooks \<Rightarrow> addr \<Rightarrow> 'w ubx \<Rightarrow> 'w ubx option" where
  "clear_cleanup H a s = do {
     b \<leftarrow> blks s a;
     if b_state b = BLOCK_STATE_INACTIVE
     then do { (ret, s) \<leftarrow> ubx_block_cleanup H (Some a) s; Some s } else Some s }"

definition clear_rm :: "ut_lib \<Rightarrow> addr \<Rightarrow> 'w ubx \<Rightarrow> 'w ubx option" where
  "clear_rm U a s = do {
     b \<leftarrow> blks s a;
     if b_state b = BLOCK_STATE_PREINIT \<and> blk_is_instance b
     then do { (ret, s) \<leftarrow> ubx_block_rm U (Some (b_name b)) s; Some s } else Some s }"

definition ubx_node_clear :: "ut_lib \<Rightarrow> 'w hooks \<Rightarrow> 'w ubx \<Rightarrow> 'w ubx option" where
  "ubx_node_clear U H s = do {
     s \<leftarrow> hash_iter nd_blocks (clear_stop H) (hash_head (nd_blocks s)) s;
     s \<leftarrow> hash_iter nd_blocks (clear_cleanup H) (hash_head (nd_blocks s)) s;
     hash_iter nd_blocks (clear_rm U) (hash_head (nd_blocks s)) s }"

text \<open>The bodies of the two module loops.\<close>

definition node_mod_cleanup :: "ut_lib \<Rightarrow> 'w mod_env \<Rightarrow> addr \<Rightarrow> 'w ubx \<Rightarrow> 'w ubx option" where
  "node_mod_cleanup U M a s = do { m \<leftarrow> mods s a; ubx_module_cleanup U M (m_id m) s }"

definition node_mod_close :: "ut_lib \<Rightarrow> 'w mod_env \<Rightarrow> addr \<Rightarrow> 'w ubx \<Rightarrow> 'w ubx option" where
  "node_mod_close U M a s = do { m \<leftarrow> mods s a; ubx_module_close U M (m_id m) s }"

definition ubx_node_cleanup :: "ut_lib \<Rightarrow> 'w hooks \<Rightarrow> 'w mod_env \<Rightarrow> 'w ubx \<Rightarrow> 'w ubx option" where
  "ubx_node_cleanup U H M s = do {
     s \<leftarrow> ubx_node_clear U H s;
     s \<leftarrow> hash_iter nd_modules (node_mod_cleanup U M) (hash_head (nd_modules s)) s;
     s \<leftarrow> hash_iter nd_modules (node_mod_close U M) (hash_head (nd_modules s)) s;
     Some (s\<lparr>nd_cur_seqid := 0\<rparr>) }"

definition ubx_node_rm :: "ut_lib \<Rightarrow> 'w hooks \<Rightarrow> 'w mod_env \<Rightarrow> 'w ubx \<Rightarrow> 'w ubx option" where
  "ubx_node_rm U H M s = do { s \<leftarrow> ubx_node_cleanup U H M s; Some (s\<lparr>nd_name := []\<rparr>) }"

section \<open>Clearing a node\<close>

text \<open>What the loops need to know of the blocks: their states and prototypes.\<close>

definition states :: "'w ubx \<Rightarrow> addr \<Rightarrow> u16 option" where "states s a = map_option b_state (blks s a)"
definition protos :: "'w ubx \<Rightarrow> addr \<Rightarrow> ptr option" where "protos s a = map_option b_prototype (blks s a)"

text \<open>A hook that keeps to its own business: it may configure, read and write whatever it likes, but it keeps the
  invariant, the tables of blocks and modules, and the states and prototypes of all blocks.\<close>

definition same_mods :: "'w ubx \<Rightarrow> 'w ubx \<Rightarrow> bool" where
  "same_mods s s' \<longleftrightarrow> nd_modules s' = nd_modules s \<and> mods s' = mods s"

lemma same_mods_refl [simp]: "same_mods s s"
  by (simp add: same_mods_def)

lemma same_mods_trans: "same_mods s t \<Longrightarrow> same_mods t u \<Longrightarrow> same_mods s u"
  by (simp add: same_mods_def)

definition hook_frame :: "'w ubx \<Rightarrow> 'w ubx \<Rightarrow> bool" where
  "hook_frame s s' \<longleftrightarrow> core_wf s' \<and> nd_blocks s' = nd_blocks s \<and> states s' = states s \<and> protos s' = protos s \<and>
     same_mods s s'"

locale framed_hooks = ut_laws U for U :: ut_lib +
  fixes H :: "'w hooks"
  assumes stop_frame: "core_wf s \<Longrightarrow> blks s a \<noteq> None \<Longrightarrow> \<exists>s'. hk_stop H f a s = Some s' \<and> hook_frame s s'"
    and cleanup_frame: "core_wf s \<Longrightarrow> blks s a \<noteq> None \<Longrightarrow> \<exists>s'. hk_cleanup H f a s = Some s' \<and> hook_frame s s'"

lemma set_state_wf:
  assumes "core_wf s" "blks s a = Some b"
  shows "\<exists>s'. set_state a x s = Some s' \<and> core_wf s' \<and> nd_blocks s' = nd_blocks s \<and> protos s' = protos s \<and>
    same_mods s s' \<and> states s' = (states s)(a \<mapsto> x)"
  using assms core_wf_upd [OF assms, of "b\<lparr>b_state := x\<rparr>"]
  by (auto simp: set_state_def upd_blk_def protos_def states_def same_mods_def fun_eq_iff)

text \<open>A loop body that moves one block from state \<open>x\<close> to state \<open>y\<close>.\<close>

definition moves :: "(addr \<Rightarrow> 'w ubx \<Rightarrow> 'w ubx option) \<Rightarrow> u16 \<Rightarrow> u16 \<Rightarrow> bool" where
  "moves body x y \<longleftrightarrow> (\<forall>s a. core_wf s \<longrightarrow> a \<in> set (elems (nd_blocks s)) \<longrightarrow>
     (\<exists>s'. body a s = Some s' \<and> core_wf s' \<and> nd_blocks s' = nd_blocks s \<and> protos s' = protos s \<and>
       same_mods s s' \<and> states s' = (states s)(a := if states s a = Some x then Some y else states s a)))"

lemma core_wf_elem: "core_wf s \<Longrightarrow> a \<in> set (elems (nd_blocks s)) \<Longrightarrow> \<exists>b. blks s a = Some b"
  by (auto simp: core_wf_def tab_wf_def elems_def)

lemma distinct_elems: "core_wf s \<Longrightarrow> distinct (elems (nd_blocks s))"
  by (simp add: core_wf_def tab_wf_def htab_ok_def)

lemma moves_loop:
  fixes s :: "'w ubx"
  assumes m: "moves body x y" and wf: "core_wf s" and xy: "x \<noteq> y"
  shows "\<exists>s'. hash_iter nd_blocks body (hash_head (nd_blocks s)) s = Some s' \<and> core_wf s' \<and> nd_blocks s' = nd_blocks s \<and>
    protos s' = protos s \<and> same_mods s s' \<and>
    (\<forall>a \<in> set (elems (nd_blocks s)). states s' a = (if states s a = Some x then Some y else states s a))"
proof -
  let ?T = "nd_blocks s"
  define I :: "htab \<Rightarrow> 'w ubx \<Rightarrow> bool" where "I rest t \<longleftrightarrow> core_wf t \<and> nd_blocks t = ?T \<and> protos t = protos s \<and> same_mods s t \<and>
    (\<exists>d. ?T = d @ rest \<and> (\<forall>a \<in> set (elems rest). states t a = states s a) \<and>
      (\<forall>a \<in> set (elems d). states t a = (if states s a = Some x then Some y else states s a)))" for rest t
  have "\<exists>s'. hash_iter nd_blocks body (hash_head ?T) s = Some s' \<and> I [] s'"
  proof (rule hash_iter_rule [where I = I])
    show "I ?T s" using wf by (simp add: I_def)
  next
    fix rest t assume "I rest t"
    then show "\<exists>done. nd_blocks t = done @ rest \<and> distinct (elems (done @ rest))"
      using distinct_elems [OF wf] by (auto simp: I_def)
  next
    fix e rest t assume I: "I (e # rest) t"
    then obtain d where d: "?T = d @ e # rest" "\<forall>a \<in> set (elems (e # rest)). states t a = states s a"
      "\<forall>a \<in> set (elems d). states t a = (if states s a = Some x then Some y else states s a)"
      and t: "core_wf t" "nd_blocks t = ?T" "protos t = protos s" "same_mods s t" by (auto simp: I_def)
    have "snd e \<in> set (elems (nd_blocks t))" using d(1) t(2) by simp
    with m t(1) obtain t' where t': "body (snd e) t = Some t'" "core_wf t'" "nd_blocks t' = nd_blocks t" "protos t' = protos t" "same_mods t t'"
      "states t' = (states t)(snd e := if states t (snd e) = Some x then Some y else states t (snd e))"
      unfolding moves_def by blast
    have "distinct (elems (d @ e # rest))" using distinct_elems [OF wf] d(1) by metis
    then have "snd e \<notin> set (elems d)" "snd e \<notin> set (elems rest)" by auto
    then have "I rest t'" using d t t' same_mods_trans [OF t(4) t'(5)] unfolding I_def
      by (intro conjI exI [of _ "d @ [e]"]) (auto split: if_splits)
    with t' show "\<exists>s'. body (snd e) t = Some s' \<and> I rest s'" by blast
  qed
  then show ?thesis by (auto simp: I_def)
qed

text \<open>Hooks whose calls can be read off the world, and that leave the hooks of the blocks alone.\<close>

definition hook_ptrs :: "'w ubx \<Rightarrow> addr \<Rightarrow> (ptr \<times> ptr) option" where
  "hook_ptrs s a = map_option (\<lambda>b. (b_stop b, b_cleanup b)) (blks s a)"

definition has_stop :: "'w ubx \<Rightarrow> addr \<Rightarrow> bool" where
  "has_stop s a = (case hook_ptrs s a of None \<Rightarrow> False | Some (f, g) \<Rightarrow> f \<noteq> None)"

definition has_cleanup :: "'w ubx \<Rightarrow> addr \<Rightarrow> bool" where
  "has_cleanup s a = (case hook_ptrs s a of None \<Rightarrow> False | Some (f, g) \<Rightarrow> g \<noteq> None)"

definition records :: "'w hooks \<Rightarrow> ('w \<Rightarrow> trace) \<Rightarrow> bool" where
  "records H rec \<longleftrightarrow>
     (\<forall>f a s s'. hk_stop H f a s = Some s' \<longrightarrow> rec (world s') = rec (world s) @ [(a, E_stop)] \<and> hook_ptrs s' = hook_ptrs s) \<and>
     (\<forall>f a s s'. hk_cleanup H f a s = Some s' \<longrightarrow> rec (world s') = rec (world s) @ [(a, E_cleanup)] \<and> hook_ptrs s' = hook_ptrs s)"

lemma moves_loop_calls:
  fixes s :: "'w ubx" and tr :: "'w ubx \<Rightarrow> trace"
  assumes m: "moves body x y" and wf: "core_wf s"
    and step: "\<And>a t t'. body a t = Some t' \<Longrightarrow> tr t' = tr t @ (if states t a = Some x \<and> has t a then [(a, ev)] else []) \<and> hp t' = hp t"
    and has: "\<And>a t. hp t = hp s \<Longrightarrow> has t a = has s a"
    and run: "hash_iter nd_blocks body (hash_head (nd_blocks s)) s = Some s'"
  shows "tr s' = tr s @ map (\<lambda>a. (a, ev)) (filter (\<lambda>a. states s a = Some x \<and> has s a) (elems (nd_blocks s))) \<and> hp s' = hp s"
proof -
  let ?T = "nd_blocks s" and ?P = "\<lambda>a. states s a = Some x \<and> has s a"
  define I :: "htab \<Rightarrow> 'w ubx \<Rightarrow> bool" where "I rest t \<longleftrightarrow> core_wf t \<and> nd_blocks t = ?T \<and> hp t = hp s \<and>
    (\<exists>d. ?T = d @ rest \<and> (\<forall>a \<in> set (elems rest). states t a = states s a) \<and>
      tr t = tr s @ map (\<lambda>a. (a, ev)) (filter ?P (elems d)))" for rest t
  have "\<exists>s'. hash_iter nd_blocks body (hash_head ?T) s = Some s' \<and> I [] s'"
  proof (rule hash_iter_rule [where I = I])
    show "I ?T s" using wf by (simp add: I_def elems_def)
  next
    fix rest t assume "I rest t"
    then show "\<exists>done. nd_blocks t = done @ rest \<and> distinct (elems (done @ rest))"
      using distinct_elems [OF wf] by (auto simp: I_def)
  next
    fix e rest t assume "I (e # rest) t"
    then obtain d where d: "?T = d @ e # rest" "\<forall>a \<in> set (elems (e # rest)). states t a = states s a"
      "tr t = tr s @ map (\<lambda>a. (a, ev)) (filter ?P (elems d))" and t: "core_wf t" "nd_blocks t = ?T" "hp t = hp s" by (auto simp: I_def)
    have "snd e \<in> set (elems (nd_blocks t))" using d(1) t(2) by simp
    with m t(1) obtain t' where t': "body (snd e) t = Some t'" "core_wf t'" "nd_blocks t' = nd_blocks t"
      "states t' = (states t)(snd e := if states t (snd e) = Some x then Some y else states t (snd e))"
      unfolding moves_def by blast
    have "distinct (elems (d @ e # rest))" using distinct_elems [OF wf] d(1) by metis
    then have n: "snd e \<notin> set (elems rest)" by auto
    have "tr t' = tr s @ map (\<lambda>a. (a, ev)) (filter ?P (elems (d @ [e])))"
      using step [OF t'(1)] d(2,3) has [OF t(3)] by (simp add: elems_def)
    moreover have "\<forall>a \<in> set (elems rest). states t' a = states s a" using d(2) n t'(4) by auto
    ultimately have "I rest t'" using d(1) t t'(2,3) step [OF t'(1)] unfolding I_def
      by (intro conjI exI [of _ "d @ [e]"]) simp_all
    with t'(1) show "\<exists>s'. body (snd e) t = Some s' \<and> I rest s'" by blast
  qed
  with run show ?thesis by (auto simp: I_def)
qed

lemma filter_not_elem: "a \<notin> set (elems t) \<Longrightarrow> filter (\<lambda>x. snd x \<noteq> a) t = t"
  by (auto simp: elems_def intro!: filter_True)

text \<open>The bodies of the first two loops: if the block is in state \<open>x\<close>, call a hook that keeps the frame, and set
  the state to \<open>y\<close>.\<close>

lemma moves_hook:
  fixes hook :: "ubx_block \<Rightarrow> addr \<Rightarrow> 'w ubx \<Rightarrow> 'w ubx option"
  assumes frame: "\<And>s a b. core_wf s \<Longrightarrow> blks s a = Some b \<Longrightarrow> \<exists>t. hook b a s = Some t \<and> hook_frame s t"
    and body: "\<And>s a b. blks s a = Some b \<Longrightarrow>
      body a s = (if b_state b = x then do { t \<leftarrow> hook b a s; set_state a y t } else Some s)"
  shows "moves body x y"
  unfolding moves_def
proof (intro allI impI)
  fix s :: "'w ubx" and a
  assume wf: "core_wf s" and a: "a \<in> set (elems (nd_blocks s))"
  from core_wf_elem [OF this] obtain b where b: "blks s a = Some b" by blast
  show "\<exists>s'. body a s = Some s' \<and> core_wf s' \<and> nd_blocks s' = nd_blocks s \<and> protos s' = protos s \<and>
    same_mods s s' \<and> states s' = (states s)(a := if states s a = Some x then Some y else states s a)"
  proof (cases "b_state b = x")
    case True
    from frame [OF wf b] obtain t where t: "hook b a s = Some t" "hook_frame s t" by blast
    then have "states t a = states s a" by (simp add: hook_frame_def)
    with b obtain b' where b': "blks t a = Some b'" by (cases "blks t a") (auto simp: states_def)
    have "core_wf t" using t by (simp add: hook_frame_def)
    from set_state_wf [OF this b', of y] t b True body [OF b] show ?thesis
      by (auto simp: hook_frame_def states_def [of s a] intro: same_mods_trans)
  next
    case False
    with b body [OF b] wf show ?thesis by (auto simp: states_def)
  qed
qed

context framed_hooks
begin

lemma moves_stop: "moves (clear_stop H) BLOCK_STATE_ACTIVE BLOCK_STATE_INACTIVE"
proof (rule moves_hook)
  fix s :: "'w ubx" and a b assume "core_wf s" "blks s a = Some b"
  then show "\<exists>t. (case b_stop b of None \<Rightarrow> Some s | Some f \<Rightarrow> hk_stop H f a s) = Some t \<and> hook_frame s t"
    using stop_frame [of s a] by (cases "b_stop b") (auto simp: hook_frame_def)
qed (auto simp: clear_stop_def ubx_block_stop_def split: option.splits)

lemma moves_cleanup: "moves (clear_cleanup H) BLOCK_STATE_INACTIVE BLOCK_STATE_PREINIT"
proof (rule moves_hook)
  fix s :: "'w ubx" and a b assume "core_wf s" "blks s a = Some b"
  then show "\<exists>t. (case b_cleanup b of None \<Rightarrow> Some s | Some f \<Rightarrow> hk_cleanup H f a s) = Some t \<and> hook_frame s t"
    using cleanup_frame [of s a] by (cases "b_cleanup b") (auto simp: hook_frame_def)
qed (auto simp: clear_cleanup_def ubx_block_cleanup_def split: option.splits)

text \<open>The third loop removes the instances and keeps the prototypes.\<close>

lemma rm_body:
  assumes wf: "core_wf s" and e: "e \<in> set (nd_blocks s)" and st: "states s (snd e) = Some BLOCK_STATE_PREINIT"
  shows "\<exists>s'. clear_rm U (snd e) s = Some s' \<and> core_wf s' \<and> same_mods s s' \<and>
    (if protos s (snd e) = Some None then s' = s
     else nd_blocks s' = filter (\<lambda>x. snd x \<noteq> snd e) (nd_blocks s) \<and> blks s' = (blks s)(snd e := None)) \<and> world s' = world s \<and> nd_types s' = nd_types s"
proof -
  obtain n a where ea: "e = (n, a)" by (cases e)
  from core_wfD(2) [OF wf, of n a] e ea obtain b where b: "blks s a = Some b" "b_name b = n" by auto
  have st: "b_state b = BLOCK_STATE_PREINIT" using st b ea by (simp add: states_def)
  show ?thesis
  proof (cases "b_prototype b = None")
    case True
    with wf b ea show ?thesis by (simp add: clear_rm_def blk_is_instance_def blk_is_proto_def protos_def)
  next
    case False
    from block_rm_wf [OF wf _ b(1) st False, of n] e ea obtain s' where
      s': "ubx_block_rm U (Some n) s = Some (0, s')" "core_wf s'"
      "nd_blocks s' = filter (\<lambda>e. fst e \<noteq> n) (nd_blocks s)" "blks s' = (blks s)(a := None)" "same_mods s s'" "world s' = world s" "nd_types s' = nd_types s"
      by (auto simp: same_mods_def heap_only_def)
    have "filter (\<lambda>x. snd x \<noteq> a) (nd_blocks s) = filter (\<lambda>x. fst x \<noteq> n) (nd_blocks s)"
      using filter_elem_key [OF core_wfD(1) [OF wf], of n a] e ea by simp
    with s' b st False ea show ?thesis
      by (auto simp: clear_rm_def blk_is_instance_def blk_is_proto_def protos_def)
  qed
qed

lemma rm_loop:
  fixes s :: "'w ubx"
  assumes wf: "core_wf s" and st: "\<forall>a \<in> set (elems (nd_blocks s)). states s a = Some BLOCK_STATE_PREINIT"
  shows "\<exists>s'. hash_iter nd_blocks (clear_rm U) (hash_head (nd_blocks s)) s = Some s' \<and> core_wf s' \<and> same_mods s s' \<and> world s' = world s \<and> nd_types s' = nd_types s \<and>
    nd_blocks s' = filter (\<lambda>e. protos s (snd e) = Some None) (nd_blocks s) \<and>
    blks s' = (\<lambda>a. if a \<in> set (elems (nd_blocks s)) \<and> protos s a \<noteq> Some None then None else blks s a)"
proof -
  let ?T = "nd_blocks s" and ?P = "\<lambda>e. protos s (snd e) = Some None"
  define I :: "htab \<Rightarrow> 'w ubx \<Rightarrow> bool" where "I rest t \<longleftrightarrow> core_wf t \<and> same_mods s t \<and> world t = world s \<and> nd_types t = nd_types s \<and> (\<exists>d. ?T = d @ rest \<and> nd_blocks t = filter ?P d @ rest \<and>
      blks t = (\<lambda>a. if a \<in> set (elems d) \<and> protos s a \<noteq> Some None then None else blks s a))" for rest t
  have "\<exists>s'. hash_iter nd_blocks (clear_rm U) (hash_head ?T) s = Some s' \<and> I [] s'"
  proof (rule hash_iter_rule [where I = I])
    show "I ?T s" using wf by (auto simp: I_def)
  next
    fix rest t assume "I rest t"
    then show "\<exists>done. nd_blocks t = done @ rest \<and> distinct (elems (done @ rest))"
      using distinct_elems [of t] by (auto simp: I_def)
  next
    fix e rest t assume I: "I (e # rest) t"
    then obtain d where d: "?T = d @ e # rest" "nd_blocks t = filter ?P d @ e # rest" "core_wf t" "same_mods s t"
      "blks t = (\<lambda>a. if a \<in> set (elems d) \<and> protos s a \<noteq> Some None then None else blks s a)" by (auto simp: I_def)
    have dist: "snd e \<notin> set (elems d)" using distinct_elems [OF wf] d(1) by (simp add: elems_def)
    have dist': "snd e \<notin> set (elems (filter ?P d))" "snd e \<notin> set (elems rest)"
      using distinct_elems [OF d(3)] d(2) by auto
    from dist d(5) have bt: "blks t (snd e) = blks s (snd e)" by simp
    have "states s (snd e) = Some BLOCK_STATE_PREINIT" using st d(1) by simp
    with bt have "states t (snd e) = Some BLOCK_STATE_PREINIT" by (simp add: states_def)
    from rm_body [OF d(3) _ this] d(2) bt obtain t' where t': "clear_rm U (snd e) t = Some t'" "core_wf t'" "same_mods t t'"
      "if ?P e then t' = t
       else nd_blocks t' = filter (\<lambda>x. snd x \<noteq> snd e) (nd_blocks t) \<and> blks t' = (blks t)(snd e := None)" "world t' = world t" "nd_types t' = nd_types t"
      by (auto simp: protos_def)
    have "filter (\<lambda>x. snd x \<noteq> snd e) (nd_blocks t) = filter ?P d @ rest"
      unfolding d(2) filter_append filter.simps filter_not_elem [OF dist'(1)] filter_not_elem [OF dist'(2)] by simp
    moreover have "world t' = world s" "nd_types t' = nd_types s" using t'(5,6) I by (simp_all add: I_def)
    ultimately have "I rest t'" using d(1,2,5) t'(1-4) dist same_mods_trans [OF d(4) t'(3)] unfolding I_def
      by (intro conjI exI [of _ "d @ [e]"]) (auto simp: fun_eq_iff split: if_splits)
    with t' show "\<exists>s'. clear_rm U (snd e) t = Some s' \<and> I rest s'" by blast
  qed
  then show ?thesis by (auto simp: I_def)
qed

text \<open>With hooks that are recorded, the loops call them for exactly the blocks in the state they look for.\<close>

lemma records_stop:
  assumes "records H rec" "clear_stop H a s = Some s'"
  shows "rec (world s') = rec (world s) @ (if states s a = Some BLOCK_STATE_ACTIVE \<and> has_stop s a then [(a, E_stop)] else []) \<and>
    hook_ptrs s' = hook_ptrs s"
proof -
  from assms(2) obtain b where b: "blks s a = Some b" by (auto simp: clear_stop_def)
  show ?thesis
  proof (cases "b_state b = BLOCK_STATE_ACTIVE")
    case True
    with assms(2) b obtain t where t: "(case b_stop b of None \<Rightarrow> Some s | Some f \<Rightarrow> hk_stop H f a s) = Some t"
      "set_state a BLOCK_STATE_INACTIVE t = Some s'" by (auto simp: clear_stop_def ubx_block_stop_def bind_eq_Some_conv)
    from t(2) have "world s' = world t" "hook_ptrs s' = hook_ptrs t"
      by (auto simp: set_state_def upd_blk_iff hook_ptrs_def fun_eq_iff)
    moreover have "rec (world t) = rec (world s) @ (if b_stop b = None then [] else [(a, E_stop)]) \<and> hook_ptrs t = hook_ptrs s"
      using t(1) assms(1) by (cases "b_stop b") (auto simp: records_def)
    ultimately show ?thesis using True b by (simp add: states_def has_stop_def hook_ptrs_def)
  next
    case False
    with assms(2) b show ?thesis by (simp add: clear_stop_def states_def)
  qed
qed

lemma records_cleanup:
  assumes "records H rec" "clear_cleanup H a s = Some s'"
  shows "rec (world s') = rec (world s) @ (if states s a = Some BLOCK_STATE_INACTIVE \<and> has_cleanup s a then [(a, E_cleanup)] else []) \<and>
    hook_ptrs s' = hook_ptrs s"
proof -
  from assms(2) obtain b where b: "blks s a = Some b" by (auto simp: clear_cleanup_def)
  show ?thesis
  proof (cases "b_state b = BLOCK_STATE_INACTIVE")
    case True
    with assms(2) b obtain t where t: "(case b_cleanup b of None \<Rightarrow> Some s | Some f \<Rightarrow> hk_cleanup H f a s) = Some t"
      "set_state a BLOCK_STATE_PREINIT t = Some s'" by (auto simp: clear_cleanup_def ubx_block_cleanup_def bind_eq_Some_conv)
    from t(2) have "world s' = world t" "hook_ptrs s' = hook_ptrs t"
      by (auto simp: set_state_def upd_blk_iff hook_ptrs_def fun_eq_iff)
    moreover have "rec (world t) = rec (world s) @ (if b_cleanup b = None then [] else [(a, E_cleanup)]) \<and> hook_ptrs t = hook_ptrs s"
      using t(1) assms(1) by (cases "b_cleanup b") (auto simp: records_def)
    ultimately show ?thesis using True b by (simp add: states_def has_cleanup_def hook_ptrs_def)
  next
    case False
    with assms(2) b show ?thesis by (simp add: clear_cleanup_def states_def)
  qed
qed

text \<open>In a node without instances that were ever initialised the loops call nothing, and the types stay.\<close>

lemma hash_iter_skip:
  fixes s :: "'v ubx"
  assumes "core_wf s" "\<And>a. a \<in> set (elems (nd_blocks s)) \<Longrightarrow> body a s = Some s"
  shows "hash_iter nd_blocks body (hash_head (nd_blocks s)) s = Some s"
proof -
  have "\<exists>s'. hash_iter nd_blocks body (hash_head (nd_blocks s)) s = Some s' \<and> s' = s \<and> (\<exists>d. nd_blocks s = d @ [])"
    by (rule hash_iter_rule [where I = "\<lambda>rest t. t = s \<and> (\<exists>d. nd_blocks s = d @ rest)"])
      (use assms distinct_elems [OF assms(1)] in auto)
  then show ?thesis by auto
qed

lemma node_clear_types:
  assumes wf: "core_wf s" and st: "\<forall>a \<in> set (elems (nd_blocks s)). states s a = Some BLOCK_STATE_PREINIT"
    and r: "ubx_node_clear U H s = Some s'"
  shows "nd_types s' = nd_types s"
proof -
  have "clear_stop H a s = Some s" "clear_cleanup H a s = Some s" if "a \<in> set (elems (nd_blocks s))" for a
  proof -
    from st that obtain b where "blks s a = Some b" "b_state b = BLOCK_STATE_PREINIT" by (auto simp: states_def)
    then show "clear_stop H a s = Some s" "clear_cleanup H a s = Some s" by (simp_all add: clear_stop_def clear_cleanup_def block_states)
  qed
  then have "hash_iter nd_blocks (clear_stop H) (hash_head (nd_blocks s)) s = Some s"
    "hash_iter nd_blocks (clear_cleanup H) (hash_head (nd_blocks s)) s = Some s"
    using hash_iter_skip [OF wf] by blast+
  with r rm_loop [OF wf st] show ?thesis by (auto simp: ubx_node_clear_def)
qed

lemma node_clear_ok:
  assumes wf: "core_wf s" and st: "\<forall>a \<in> set (elems (nd_blocks s)). states s a \<in> Some ` range lc_code"
  shows "\<exists>s'. ubx_node_clear U H s = Some s' \<and> core_wf s' \<and> same_mods s s' \<and>
    nd_blocks s' = filter (\<lambda>e. protos s (snd e) = Some None) (nd_blocks s) \<and>
    (\<forall>a \<in> set (elems (nd_blocks s')). states s' a = Some BLOCK_STATE_PREINIT) \<and>
    (\<forall>a \<in> set (elems (nd_blocks s)). protos s a \<noteq> Some None \<longrightarrow> blks s' a = None) \<and>
    (\<forall>rec. records H rec \<longrightarrow> rec (world s') = rec (world s) @
       map (\<lambda>a. (a, E_stop)) (filter (\<lambda>a. states s a = Some BLOCK_STATE_ACTIVE \<and> has_stop s a) (elems (nd_blocks s))) @
       map (\<lambda>a. (a, E_cleanup)) (filter (\<lambda>a. states s a \<noteq> Some BLOCK_STATE_PREINIT \<and> has_cleanup s a) (elems (nd_blocks s))))"
proof -
  have r: "range lc_code = {BLOCK_STATE_PREINIT, BLOCK_STATE_INACTIVE, BLOCK_STATE_ACTIVE}"
    by (auto simp: lc_code_def image_iff split: lc_st.splits)
  from moves_loop [OF moves_stop wf] obtain s1 where
    s1: "hash_iter nd_blocks (clear_stop H) (hash_head (nd_blocks s)) s = Some s1" "core_wf s1" "nd_blocks s1 = nd_blocks s"
    "protos s1 = protos s" "same_mods s s1" "\<forall>a \<in> set (elems (nd_blocks s)). states s1 a =
      (if states s a = Some BLOCK_STATE_ACTIVE then Some BLOCK_STATE_INACTIVE else states s a)"
    by (auto simp: block_states)
  from moves_loop [OF moves_cleanup s1(2)] obtain s2 where
    s2: "hash_iter nd_blocks (clear_cleanup H) (hash_head (nd_blocks s1)) s1 = Some s2" "core_wf s2" "nd_blocks s2 = nd_blocks s1"
    "protos s2 = protos s1" "same_mods s1 s2" "\<forall>a \<in> set (elems (nd_blocks s)). states s2 a =
      (if states s1 a = Some BLOCK_STATE_INACTIVE then Some BLOCK_STATE_PREINIT else states s1 a)"
    using s1(3) by (auto simp: block_states)
  have p: "\<forall>a \<in> set (elems (nd_blocks s2)). states s2 a = Some BLOCK_STATE_PREINIT"
    using s1(3,6) s2(3,6) st r by auto
  from rm_loop [OF s2(2) this] obtain s3 where
    s3: "hash_iter nd_blocks (clear_rm U) (hash_head (nd_blocks s2)) s2 = Some s3" "core_wf s3" "same_mods s2 s3" "world s3 = world s2"
    "nd_blocks s3 = filter (\<lambda>e. protos s2 (snd e) = Some None) (nd_blocks s2)"
    "blks s3 = (\<lambda>a. if a \<in> set (elems (nd_blocks s2)) \<and> protos s2 a \<noteq> Some None then None else blks s2 a)" by blast
  have "states s3 a = Some BLOCK_STATE_PREINIT" if "a \<in> set (elems (nd_blocks s3))" for a
    using that p s3(5,6) by (auto simp: states_def elems_def)
  moreover have "rec (world s3) = rec (world s) @
       map (\<lambda>a. (a, E_stop)) (filter (\<lambda>a. states s a = Some BLOCK_STATE_ACTIVE \<and> has_stop s a) (elems (nd_blocks s))) @
       map (\<lambda>a. (a, E_cleanup)) (filter (\<lambda>a. states s a \<noteq> Some BLOCK_STATE_PREINIT \<and> has_cleanup s a) (elems (nd_blocks s)))"
    if rec: "records H rec" for rec
  proof -
    from moves_loop_calls [OF moves_stop wf, of "\<lambda>t. rec (world t)" has_stop E_stop hook_ptrs, OF _ _ s1(1)] records_stop [OF rec]
    have a: "rec (world s1) = rec (world s) @
        map (\<lambda>a. (a, E_stop)) (filter (\<lambda>a. states s a = Some BLOCK_STATE_ACTIVE \<and> has_stop s a) (elems (nd_blocks s)))"
      "hook_ptrs s1 = hook_ptrs s" by (auto simp: has_stop_def)
    from moves_loop_calls [OF moves_cleanup s1(2), of "\<lambda>t. rec (world t)" has_cleanup E_cleanup hook_ptrs, OF _ _ s2(1)] records_cleanup [OF rec]
    have b: "rec (world s2) = rec (world s1) @
        map (\<lambda>a. (a, E_cleanup)) (filter (\<lambda>a. states s1 a = Some BLOCK_STATE_INACTIVE \<and> has_cleanup s1 a) (elems (nd_blocks s)))"
      using s1(3) by (auto simp: has_cleanup_def)
    have "filter (\<lambda>a. states s1 a = Some BLOCK_STATE_INACTIVE \<and> has_cleanup s1 a) (elems (nd_blocks s)) =
        filter (\<lambda>a. states s a \<noteq> Some BLOCK_STATE_PREINIT \<and> has_cleanup s a) (elems (nd_blocks s))"
    proof (rule filter_cong)
      fix x assume x: "x \<in> set (elems (nd_blocks s))"
      have "has_cleanup s1 x = has_cleanup s x" by (simp add: has_cleanup_def a(2))
      moreover have "states s1 x = Some BLOCK_STATE_INACTIVE \<longleftrightarrow> states s x \<noteq> Some BLOCK_STATE_PREINIT"
        using s1(6) st r x by (auto simp: block_states)
      ultimately show "(states s1 x = Some BLOCK_STATE_INACTIVE \<and> has_cleanup s1 x) = (states s x \<noteq> Some BLOCK_STATE_PREINIT \<and> has_cleanup s x)"
        by simp
    qed simp
    with a(1) b show ?thesis by (simp add: s3(4))
  qed
  ultimately show ?thesis using s1(1-5) s2(1-5) s3 by (auto simp: ubx_node_clear_def intro: same_mods_trans)
qed

end

section \<open>Cleaning up a node\<close>

text \<open>The module table maps the ids of live modules to them.\<close>

definition mods_wf :: "'w ubx \<Rightarrow> bool" where
  "mods_wf s \<longleftrightarrow> htab_ok (nd_modules s) \<and> (\<forall>e \<in> set (nd_modules s). \<exists>m. mods s (snd e) = Some m \<and> m_id m = fst e)"

lemma mods_wf_same: "mods_wf s \<Longrightarrow> same_mods s t \<Longrightarrow> mods_wf t"
  by (simp add: mods_wf_def same_mods_def)

text \<open>The contract of a module's cleanup function: it unregisters the blocks the module owns, by name, and keeps the
  invariant and the modules.\<close>

locale node_laws = framed_hooks U H for U :: ut_lib and H :: "'w hooks" +
  fixes M :: "'w mod_env" and owns :: "fptr \<Rightarrow> string set"
  assumes mod_cleanup_law: "core_wf s \<Longrightarrow> \<exists>s'. mod_cleanup M f s = Some s' \<and> core_wf s' \<and> same_mods s s' \<and>
    nd_blocks s' = filter (\<lambda>e. fst e \<notin> owns f) (nd_blocks s)"

definition mod_owns :: "(fptr \<Rightarrow> string set) \<Rightarrow> 'w ubx \<Rightarrow> string \<times> addr \<Rightarrow> string set" where
  "mod_owns owns s e = owns (m_cleanup (the (mods s (snd e))))"

text \<open>Cleanup functions that also unregister the types their modules own.\<close>

definition type_law :: "'w mod_env \<Rightarrow> (fptr \<Rightarrow> string set) \<Rightarrow> bool" where
  "type_law M towns \<longleftrightarrow> (\<forall>f s s'. core_wf s \<and> htab_ok (nd_types s) \<and> mod_cleanup M f s = Some s' \<longrightarrow>
     nd_types s' = filter (\<lambda>e. fst e \<notin> towns f) (nd_types s))"

context node_laws
begin

lemma find_module: "mods_wf s \<Longrightarrow> e \<in> set (nd_modules s) \<Longrightarrow>
  \<exists>m. mods s (snd e) = Some m \<and> m_id m = fst e \<and> ut_find U (nd_modules s) (fst e) = Some (snd e)"
  by (cases e) (auto simp: mods_wf_def find_iff)

lemma mods_cleanup_loop:
  fixes s :: "'w ubx"
  assumes wf: "core_wf s" and mw: "mods_wf s"
  shows "\<exists>s'. hash_iter nd_modules (node_mod_cleanup U M) (hash_head (nd_modules s)) s = Some s' \<and> core_wf s' \<and>
    same_mods s s' \<and> nd_blocks s' = filter (\<lambda>e. \<forall>x \<in> set (nd_modules s). fst e \<notin> mod_owns owns s x) (nd_blocks s) \<and>
    (type_law M towns \<and> htab_ok (nd_types s) \<longrightarrow>
      nd_types s' = filter (\<lambda>e. \<forall>x \<in> set (nd_modules s). fst e \<notin> mod_owns towns s x) (nd_types s))"
proof -
  let ?T = "nd_modules s"
  define I :: "htab \<Rightarrow> 'w ubx \<Rightarrow> bool" where "I rest t \<longleftrightarrow> core_wf t \<and> same_mods s t \<and>
    (\<exists>d. ?T = d @ rest \<and> nd_blocks t = filter (\<lambda>e. \<forall>x \<in> set d. fst e \<notin> mod_owns owns s x) (nd_blocks s) \<and>
      (type_law M towns \<and> htab_ok (nd_types s) \<longrightarrow> nd_types t = filter (\<lambda>e. \<forall>x \<in> set d. fst e \<notin> mod_owns towns s x) (nd_types s)))" for rest t
  have "\<exists>s'. hash_iter nd_modules (node_mod_cleanup U M) (hash_head ?T) s = Some s' \<and> I [] s'"
  proof (rule hash_iter_rule [where I = I])
    show "I ?T s" using wf by (auto simp: I_def)
  next
    fix rest t assume "I rest t"
    then show "\<exists>done. nd_modules t = done @ rest \<and> distinct (elems (done @ rest))"
      using mw by (auto simp: I_def same_mods_def mods_wf_def htab_ok_def)
  next
    fix e rest t assume "I (e # rest) t"
    then obtain d where d: "?T = d @ e # rest" "core_wf t" "same_mods s t"
      "nd_blocks t = filter (\<lambda>e. \<forall>x \<in> set d. fst e \<notin> mod_owns owns s x) (nd_blocks s)"
      and ty: "type_law M towns \<and> htab_ok (nd_types s) \<longrightarrow> nd_types t = filter (\<lambda>e. \<forall>x \<in> set d. fst e \<notin> mod_owns towns s x) (nd_types s)"
      by (auto simp: I_def)
    have tm: "nd_modules t = ?T" "mods t = mods s" using d(3) by (simp_all add: same_mods_def)
    with find_module [OF mods_wf_same [OF mw d(3)], of e] d(1) obtain m where
      m: "mods s (snd e) = Some m" "m_id m = fst e" "ut_find U (nd_modules t) (fst e) = Some (snd e)" by auto
    from mod_cleanup_law [OF d(2), of "m_cleanup m"] obtain t' where
      t': "mod_cleanup M (m_cleanup m) t = Some t'" "core_wf t'" "same_mods t t'"
      "nd_blocks t' = filter (\<lambda>e. fst e \<notin> owns (m_cleanup m)) (nd_blocks t)" by blast
    have "node_mod_cleanup U M (snd e) t = Some t'"
      using m tm t'(1) by (simp add: node_mod_cleanup_def ubx_module_cleanup_def)
    moreover have "nd_types t' = filter (\<lambda>x. \<forall>y \<in> set (d @ [e]). fst x \<notin> mod_owns towns s y) (nd_types s)"
      if "type_law M towns \<and> htab_ok (nd_types s)"
    proof -
      from that ty have nt: "nd_types t = filter (\<lambda>e. \<forall>x \<in> set d. fst e \<notin> mod_owns towns s x) (nd_types s)" by blast
      with that have "htab_ok (nd_types t)" by (simp add: htab_ok_filter)
      with that t'(1) d(2) have "nd_types t' = filter (\<lambda>e. fst e \<notin> towns (m_cleanup m)) (nd_types t)" by (auto simp: type_law_def)
      with nt m(1) show ?thesis by (auto simp: mod_owns_def conj_commute intro!: filter_cong)
    qed
    moreover have "nd_blocks t' = filter (\<lambda>x. \<forall>y \<in> set (d @ [e]). fst x \<notin> mod_owns owns s y) (nd_blocks s)"
      using d(4) t'(4) m(1) by (auto simp: mod_owns_def conj_commute intro!: filter_cong)
    ultimately have "node_mod_cleanup U M (snd e) t = Some t'" "I rest t'"
      using d(1) t'(2) same_mods_trans [OF d(3) t'(3)] unfolding I_def by (blast, intro conjI exI [of _ "d @ [e]"]) simp_all
    then show "\<exists>s'. node_mod_cleanup U M (snd e) t = Some s' \<and> I rest s'" by blast
  qed
  then show ?thesis by (auto simp: I_def)
qed

lemma mods_close_loop:
  fixes s :: "'w ubx"
  assumes mw: "mods_wf s"
  shows "\<exists>s'. hash_iter nd_modules (node_mod_close U M) (hash_head (nd_modules s)) s = Some s' \<and>
    nd_modules s' = [] \<and> nd_blocks s' = nd_blocks s \<and> nd_types s' = nd_types s \<and> blks s' = blks s \<and> (\<forall>a \<in> set (elems (nd_modules s)). mods s' a = None)"
proof -
  let ?T = "nd_modules s"
  define I :: "htab \<Rightarrow> 'w ubx \<Rightarrow> bool" where "I rest t \<longleftrightarrow> nd_modules t = rest \<and> mods_wf t \<and> nd_blocks t = nd_blocks s \<and> nd_types t = nd_types s \<and>
    blks t = blks s \<and> (\<exists>d. ?T = d @ rest \<and> (\<forall>a \<in> set (elems d). mods t a = None))" for rest t
  have "\<exists>s'. hash_iter nd_modules (node_mod_close U M) (hash_head ?T) s = Some s' \<and> I [] s'"
  proof (rule hash_iter_rule [where I = I])
    show "I ?T s" using mw by (auto simp: I_def)
  next
    fix rest t assume "I rest t"
    then show "\<exists>done. nd_modules t = done @ rest \<and> distinct (elems (done @ rest))"
      by (intro exI [of _ "[]"]) (auto simp: I_def mods_wf_def htab_ok_def)
  next
    fix e rest t assume "I (e # rest) t"
    then obtain d where d: "nd_modules t = e # rest" "mods_wf t" "nd_blocks t = nd_blocks s" "blks t = blks s"
      "?T = d @ e # rest" "\<forall>a \<in> set (elems d). mods t a = None" "nd_types t = nd_types s" by (auto simp: I_def)
    from find_module [OF d(2), of e] d(1) obtain m where
      m: "mods t (snd e) = Some m" "m_id m = fst e" "ut_find U (nd_modules t) (fst e) = Some (snd e)" by auto
    have ne: "snd e \<notin> set (elems rest)" "fst e \<notin> set (keys rest)" using d(1,2) by (auto simp: mods_wf_def htab_ok_def)
    have "filter (\<lambda>x. fst x \<noteq> fst e) rest = rest" using ne(2) by (intro filter_True) (metis keys_def image_eqI list.set_map)
    then have del: "ut_del U (nd_modules t) (snd e) = rest"
      using del_ok(3) [OF _ m(3)] d(1,2) by (simp add: mods_wf_def)
    let ?t = "t\<lparr>nd_modules := rest, world := dl_close M (m_handle m) (world t), mods := (mods t)(snd e := None)\<rparr>"
    have "node_mod_close U M (snd e) t = Some ?t"
      using m del by (simp add: node_mod_close_def ubx_module_close_def)
    moreover have "mods_wf ?t" using d(1,2) ne by (auto simp: mods_wf_def htab_ok_def elems_def)
    then have "I rest ?t" using d unfolding I_def by (auto intro!: exI [of _ "d @ [e]"])
    ultimately show "\<exists>s'. node_mod_close U M (snd e) t = Some s' \<and> I rest s'" by blast
  qed
  then show ?thesis by (auto simp: I_def)
qed

lemma node_cleanup_all:
  assumes wf: "core_wf s" and mw: "mods_wf s"
    and st: "\<forall>a \<in> set (elems (nd_blocks s)). states s a \<in> Some ` range lc_code"
    and own: "\<forall>e \<in> set (nd_blocks s). protos s (snd e) = Some None \<longrightarrow> (\<exists>x \<in> set (nd_modules s). fst e \<in> mod_owns owns s x)"
  shows "\<exists>s'. ubx_node_cleanup U H M s = Some s' \<and> nd_blocks s' = [] \<and> nd_modules s' = [] \<and> nd_cur_seqid s' = 0 \<and>
    (\<forall>a \<in> set (elems (nd_modules s)). mods s' a = None) \<and>
    (type_law M towns \<and> htab_ok (nd_types s) \<and> (\<forall>a \<in> set (elems (nd_blocks s)). states s a = Some BLOCK_STATE_PREINIT) \<longrightarrow>
      nd_types s' = filter (\<lambda>e. \<forall>x \<in> set (nd_modules s). fst e \<notin> mod_owns towns s x) (nd_types s))"
proof -
  from node_clear_ok [OF wf st] obtain s1 where s1: "ubx_node_clear U H s = Some s1" "core_wf s1" "same_mods s s1"
    "nd_blocks s1 = filter (\<lambda>e. protos s (snd e) = Some None) (nd_blocks s)" by blast
  have mo: "nd_modules s1 = nd_modules s" "mod_owns owns s1 = mod_owns owns s" "mod_owns towns s1 = mod_owns towns s"
    using s1(3) by (auto simp: same_mods_def mod_owns_def fun_eq_iff)
  from mods_cleanup_loop [OF s1(2) mods_wf_same [OF mw s1(3)]] obtain s2 where
    s2: "hash_iter nd_modules (node_mod_cleanup U M) (hash_head (nd_modules s1)) s1 = Some s2" "same_mods s1 s2"
    "nd_blocks s2 = filter (\<lambda>e. \<forall>x \<in> set (nd_modules s1). fst e \<notin> mod_owns owns s1 x) (nd_blocks s1)"
    "type_law M towns \<and> htab_ok (nd_types s1) \<longrightarrow>
      nd_types s2 = filter (\<lambda>e. \<forall>x \<in> set (nd_modules s1). fst e \<notin> mod_owns towns s1 x) (nd_types s1)" by blast
  have "nd_blocks s2 = []" using own unfolding s2(3) s1(4) mo by (auto simp: filter_empty_conv)
  moreover obtain s3 where s3: "hash_iter nd_modules (node_mod_close U M) (hash_head (nd_modules s2)) s2 = Some s3"
    "nd_modules s3 = []" "nd_blocks s3 = nd_blocks s2" "nd_types s3 = nd_types s2" "\<forall>a \<in> set (elems (nd_modules s2)). mods s3 a = None"
    using mods_close_loop [OF mods_wf_same [OF mods_wf_same [OF mw s1(3)] s2(2)]] by blast
  moreover have "ubx_node_cleanup U H M s = Some (s3\<lparr>nd_cur_seqid := 0\<rparr>)"
    using s1(1) s2(1) s3(1) by (simp add: ubx_node_cleanup_def)
  moreover have "nd_types s3 = filter (\<lambda>e. \<forall>x \<in> set (nd_modules s). fst e \<notin> mod_owns towns s x) (nd_types s)"
    if "type_law M towns \<and> htab_ok (nd_types s) \<and> (\<forall>a \<in> set (elems (nd_blocks s)). states s a = Some BLOCK_STATE_PREINIT)"
    using node_clear_types [OF wf _ s1(1)] that s2(4) s3(4) mo by simp
  moreover have "nd_modules s2 = nd_modules s" using s1(3) s2(2) by (simp add: same_mods_def)
  ultimately show ?thesis by (intro exI [of _ "s3\<lparr>nd_cur_seqid := 0\<rparr>"]) simp
qed

lemmas node_cleanup_ok = node_cleanup_all [where towns = "\<lambda>_. {}"]

end

section \<open>The contracts hold of the model\<close>

text \<open>Hooks that only record their calls keep the frame, and a cleanup function that does what those of the standard
  block modules do, unregister the prototypes of the module one by one, obeys the contract.\<close>

lemma hook_frame_emit: "core_wf s \<Longrightarrow> hook_frame s (emit a e s)"
  by (auto simp: hook_frame_def emit_def core_wf_world states_def protos_def same_mods_def fun_eq_iff)

interpretation traced: framed_hooks ut_ref "trace_hooks pol"
  by unfold_locales (auto simp: trace_hooks_def intro: hook_frame_emit)

fun unregister_all :: "ut_lib \<Rightarrow> string list \<Rightarrow> 'w ubx \<Rightarrow> 'w ubx option" where
  "unregister_all U [] s = Some s"
| "unregister_all U (n # ns) s = do { (ret, s) \<leftarrow> ubx_block_unregister U n s; unregister_all U ns s }"

definition unreg_env :: "ut_lib \<Rightarrow> (fptr \<Rightarrow> string list) \<Rightarrow> 'w mod_env" where
  "unreg_env U names = \<lparr>dl_open = (\<lambda>lib w. (Some (length lib), w)), dl_sym = (\<lambda>h n. Some h), dl_close = (\<lambda>h w. w),
     mod_init = (\<lambda>f s. Some (0, s)), mod_cleanup = (\<lambda>f. unregister_all U (names f))\<rparr>"

context ut_laws
begin

lemma unregister_all_ok:
  "core_wf s \<Longrightarrow> \<exists>s'. unregister_all U ns s = Some s' \<and> core_wf s' \<and> same_mods s s' \<and>
     nd_blocks s' = filter (\<lambda>e. fst e \<notin> set ns) (nd_blocks s)"
proof (induction ns arbitrary: s)
  case (Cons n ns)
  have "\<exists>r t. ubx_block_unregister U n s = Some (r, t) \<and> core_wf t \<and> same_mods s t \<and>
    nd_blocks t = filter (\<lambda>e. fst e \<noteq> n) (nd_blocks s)"
  proof (cases "n \<in> set (keys (nd_blocks s))")
    case True
    then obtain a where "(n, a) \<in> set (nd_blocks s)" by (auto simp: keys_def)
    from block_unregister_wf [OF Cons.prems this] show ?thesis by (auto simp: heap_only_def same_mods_def)
  next
    case False
    then have "filter (\<lambda>e. fst e \<noteq> n) (nd_blocks s) = nd_blocks s" by (auto simp: keys_def intro!: filter_True)
    with False find_None [OF core_wfD(1) [OF Cons.prems], of n] Cons.prems show ?thesis
      by (simp add: ubx_block_unregister_def)
  qed
  then obtain r t where t: "ubx_block_unregister U n s = Some (r, t)" "core_wf t" "same_mods s t"
    "nd_blocks t = filter (\<lambda>e. fst e \<noteq> n) (nd_blocks s)" by blast
  from Cons.IH [OF t(2)] t show ?case by (auto simp: conj_commute intro: same_mods_trans)
qed simp

end

interpretation unreg: node_laws ut_ref "trace_hooks pol" "unreg_env ut_ref names" "\<lambda>f. set (names f)"
  by unfold_locales (use ref.unregister_all_ok in \<open>auto simp: unreg_env_def\<close>)

section \<open>Properties\<close>

text \<open>C6: \<open>ubx_node_clear\<close> terminates without undefined behaviour in every well-formed node whose hooks keep
  their frame, whatever the states of the blocks; afterwards exactly the prototypes are left, in their order, all blocks are
  in state preinit, the instances are freed and the node is well-formed. On the way there, whatever record the hooks keep of
  their calls shows that the stop hook of every active block was called once, and then the cleanup hook of every block that
  was active or inactive, both in the order of the table, and no other.\<close>

theorem node_clear_leaves_prototypes:
  assumes "framed_hooks U H" "core_wf s" "\<forall>a \<in> set (elems (nd_blocks s)). states s a \<in> Some ` range lc_code"
  shows "\<exists>s'. ubx_node_clear U H s = Some s' \<and> core_wf s' \<and>
    nd_blocks s' = filter (\<lambda>e. protos s (snd e) = Some None) (nd_blocks s) \<and>
    (\<forall>a \<in> set (elems (nd_blocks s')). states s' a = Some BLOCK_STATE_PREINIT) \<and>
    (\<forall>a \<in> set (elems (nd_blocks s)). protos s a \<noteq> Some None \<longrightarrow> blks s' a = None) \<and>
    (\<forall>rec. records H rec \<longrightarrow> rec (world s') = rec (world s) @
       map (\<lambda>a. (a, E_stop)) (filter (\<lambda>a. states s a = Some BLOCK_STATE_ACTIVE \<and> has_stop s a) (elems (nd_blocks s))) @
       map (\<lambda>a. (a, E_cleanup)) (filter (\<lambda>a. states s a \<noteq> Some BLOCK_STATE_PREINIT \<and> has_cleanup s a) (elems (nd_blocks s))))"
  using framed_hooks.node_clear_ok [OF assms] by blast

text \<open>A node with a prototype, an active and an inactive instance of it.\<close>

definition inst_blk :: "string \<Rightarrow> u16 \<Rightarrow> ubx_block" where
  "inst_blk n st = hooked_blk\<lparr>b_name := n, b_state := st, b_prototype := Some 10\<rparr>"

definition busy_node :: "trace ubx" where
  "busy_node = trace_node\<lparr>nd_blocks := [(''b'', 10), (''i'', 11), (''j'', 12)], nd_modules := [(''m'', 20)],
     blks := [10 \<mapsto> hooked_blk\<lparr>b_prototype := None\<rparr>, 11 \<mapsto> inst_blk ''i'' BLOCK_STATE_ACTIVE, 12 \<mapsto> inst_blk ''j'' BLOCK_STATE_INACTIVE],
     mods := [20 \<mapsto> \<lparr>m_id = ''m'', m_handle = 1, m_init = 1, m_cleanup = 2, m_spdx = None\<rparr>]\<rparr>"

lemma busy_node_wf: "core_wf busy_node" "mods_wf busy_node"
proof -
  have b: "b_ports hooked_blk = []" "b_configs hooked_blk = []" "b_name hooked_blk = ''b''"
    by (simp_all add: hooked_blk_def mk_blk_def)
  have "rc_inv busy_node (\<lambda>_. 0)"
    by (simp add: rc_inv_def busy_node_def trace_node_def fresh_from_def rc_fun_def no_dangling_def nrefs_def vrefs_def)
  moreover have "tab_wf (nd_blocks busy_node) (blks busy_node)"
    by (simp add: tab_wf_def busy_node_def htab_ok_def keys_def elems_def inst_blk_def b)
  moreover have "blk_wf P C a blk" if "blks busy_node a = Some blk" for P C a blk
    using that b by (auto simp: busy_node_def blk_wf_def inst_blk_def split: if_splits)
  ultimately show "core_wf busy_node"
    by (auto simp: core_wf_def busy_node_def trace_node_def fresh_from_def)
  show "mods_wf busy_node" by (simp add: mods_wf_def busy_node_def htab_ok_def keys_def elems_def)
qed

lemma busy_node_states:
  "\<forall>a \<in> set (elems (nd_blocks busy_node)). states busy_node a \<in> Some ` range lc_code"
proof -
  have "BLOCK_STATE_PREINIT \<in> range lc_code" "BLOCK_STATE_INACTIVE \<in> range lc_code" "BLOCK_STATE_ACTIVE \<in> range lc_code"
    by (metis rangeI lc_code_sel(1)) (metis rangeI lc_code_sel(2), metis rangeI lc_code_sel(3))
  then show ?thesis
    by (simp add: busy_node_def elems_def states_def inst_blk_def hooked_blk_def mk_blk_def block_states)
qed

theorem node_clear_leaves_prototypes_witness:
  "\<exists>s'. ubx_node_clear ut_ref (trace_hooks (\<lambda>_. 0)) busy_node = Some s' \<and> nd_blocks s' = [(''b'', 10)] \<and>
     blks s' 11 = None \<and> blks s' 12 = None \<and> world s' = [(11, E_stop), (11, E_cleanup), (12, E_cleanup)]"
proof -
  have rec: "records (trace_hooks (\<lambda>_. 0)) (\<lambda>w. w)"
    by (auto simp: records_def trace_hooks_def emit_def hook_ptrs_def)
  have h: "world busy_node = []" "states busy_node 10 = Some BLOCK_STATE_PREINIT" "states busy_node 11 = Some BLOCK_STATE_ACTIVE"
    "states busy_node 12 = Some BLOCK_STATE_INACTIVE" "has_stop busy_node 11" "has_cleanup busy_node 11" "has_cleanup busy_node 12"
    by (simp_all add: busy_node_def trace_node_def states_def has_stop_def has_cleanup_def hook_ptrs_def inst_blk_def hooked_blk_def
        mk_blk_def BLOCK_STATE_PREINIT_def)
  have p: "protos busy_node 10 = Some None" "protos busy_node 11 = Some (Some 10)" "protos busy_node 12 = Some (Some 10)"
    "nd_blocks busy_node = [(''b'', 10), (''i'', 11), (''j'', 12)]"
    by (simp_all add: protos_def busy_node_def inst_blk_def hooked_blk_def mk_blk_def)
  then have f: "filter (\<lambda>e. protos busy_node (snd e) = Some None) (nd_blocks busy_node) = [(''b'', 10)]"
    "set (elems (nd_blocks busy_node)) = {10, 11, 12}" by (simp_all add: elems_def)
  obtain s' where s': "ubx_node_clear ut_ref (trace_hooks (\<lambda>_. 0)) busy_node = Some s'" "nd_blocks s' = [(''b'', 10)]"
    "\<forall>a \<in> {10, 11, 12}. protos busy_node a \<noteq> Some None \<longrightarrow> blks s' a = None"
    "world s' = world busy_node @
       map (\<lambda>a. (a, E_stop)) (filter (\<lambda>a. states busy_node a = Some BLOCK_STATE_ACTIVE \<and> has_stop busy_node a) (elems (nd_blocks busy_node))) @
       map (\<lambda>a. (a, E_cleanup)) (filter (\<lambda>a. states busy_node a \<noteq> Some BLOCK_STATE_PREINIT \<and> has_cleanup busy_node a) (elems (nd_blocks busy_node)))"
    using node_clear_leaves_prototypes [OF traced.framed_hooks_axioms [where pol = "\<lambda>_. 0"] busy_node_wf(1) busy_node_states, unfolded f] rec by blast
  have "elems (nd_blocks busy_node) = [10, 11, 12]" by (simp add: p(4) elems_def)
  with s'(4) have "world s' = [(11, E_stop), (11, E_cleanup), (12, E_cleanup)]" by (simp add: h) (simp add: block_states)
  with s' p(2,3) show ?thesis by (intro exI [of _ s']) simp
qed

text \<open>C4: \<open>ubx_node_cleanup\<close> does what its comment says: if every prototype is owned by a loaded module, whose
  cleanup function unregisters it, the call terminates without undefined behaviour and leaves an empty node, no blocks and
  no modules, with every module freed and the sequence number reset.\<close>

theorem node_cleanup_empties:
  assumes "node_laws U H M owns" "core_wf s" "mods_wf s"
    "\<forall>a \<in> set (elems (nd_blocks s)). states s a \<in> Some ` range lc_code"
    "\<forall>e \<in> set (nd_blocks s). protos s (snd e) = Some None \<longrightarrow> (\<exists>x \<in> set (nd_modules s). fst e \<in> mod_owns owns s x)"
  shows "\<exists>s'. ubx_node_cleanup U H M s = Some s' \<and> nd_blocks s' = [] \<and> nd_modules s' = [] \<and> nd_cur_seqid s' = 0 \<and>
    (\<forall>a \<in> set (elems (nd_modules s)). mods s' a = None)"
  using node_laws.node_cleanup_ok [OF assms] by blast

theorem node_cleanup_empties_witness:
  "\<exists>s'. ubx_node_cleanup ut_ref (trace_hooks (\<lambda>_. 0)) (unreg_env ut_ref (\<lambda>f. [''b''])) busy_node = Some s' \<and>
     nd_blocks s' = [] \<and> nd_modules s' = [] \<and> mods s' 20 = None"
proof -
  have p: "protos busy_node 10 = Some None" "protos busy_node 11 = Some (Some 10)" "protos busy_node 12 = Some (Some 10)"
    "nd_blocks busy_node = [(''b'', 10), (''i'', 11), (''j'', 12)]" "nd_modules busy_node = [(''m'', 20)]"
    by (simp_all add: protos_def busy_node_def inst_blk_def hooked_blk_def mk_blk_def)
  from node_cleanup_empties [OF unreg.node_laws_axioms [where pol = "\<lambda>_. 0" and names = "\<lambda>_. [''b'']"] busy_node_wf busy_node_states] p
  show ?thesis by (auto simp: elems_def mod_owns_def)
qed

text \<open>The module's init function may register types and blocks, but keeps the modules.\<close>

definition init_framed :: "'w mod_env \<Rightarrow> bool" where
  "init_framed M \<longleftrightarrow> (\<forall>f s r s'. mod_init M f s = Some (r, s') \<longrightarrow> same_mods s s')"

lemma map_upd_fresh: "m a = None \<Longrightarrow> m(a := None) = m"
  by auto

lemma module_load_cases:
  assumes "ubx_module_load U M lib s = Some (r, s')" "init_framed M" "fresh_from (next_addr s) (mods s)"
  obtains (fail) "r \<noteq> 0" "r = - 1" "same_mods s s'"
  | (ok) h a fi fc where "r = 0" "ut_find U (nd_modules s) lib = None" "a = next_addr s"
      "dl_sym M h ''__ubx_initialize_module'' = Some fi" "dl_sym M h ''__ubx_cleanup_module'' = Some fc"
      "nd_modules s' = ut_add U (nd_modules s) lib a"
      "mods s' = (mods s)(a \<mapsto> \<lparr>m_id = lib, m_handle = h, m_init = fi, m_cleanup = fc,
         m_spdx = dl_sym M h ''__ubx_module_license_spdx''\<rparr>)"
proof -
  have fr: "(mods s)(next_addr s := None) = mods s" using assms(3) by (simp add: map_upd_fresh fresh_from_def)
  show ?thesis
  proof (cases "ut_find U (nd_modules s) lib")
    case (Some b)
    with assms(1) show ?thesis by (intro fail) (simp_all add: ubx_module_load_def)
  next
    case None
    show ?thesis
    proof (cases s rule: calloc_cases)
      case c: fail
      with assms(1) None show ?thesis by (intro fail) (auto simp: ubx_module_load_def same_mods_def)
    next
      case c: ok
      let ?s1 = "s\<lparr>next_addr := Suc (next_addr s), oom := tl (oom s)\<rparr>"
      show ?thesis
      proof (cases ?s1 rule: mem_alloc_cases)
        case m: fail
        with assms(1) None c show ?thesis by (intro fail) (auto simp: ubx_module_load_def same_mods_def)
      next
        case m: ok
        obtain h w where o: "dl_open M lib (world s) = (h, w)" by (cases "dl_open M lib (world s)")
        show ?thesis
        proof (cases "h = None \<or> dl_sym M (the h) ''__ubx_initialize_module'' = None \<or>
              dl_sym M (the h) ''__ubx_cleanup_module'' = None")
          case True
          with assms(1) None c m o fr show ?thesis
            by (intro fail) (auto simp: ubx_module_load_def load_fail_close_def same_mods_def Let_def split: option.splits)
        next
          case False
          then obtain h' fi fc where h: "h = Some h'" "dl_sym M h' ''__ubx_initialize_module'' = Some fi"
            "dl_sym M h' ''__ubx_cleanup_module'' = Some fc" by auto
          let ?m = "\<lparr>m_id = lib, m_handle = h', m_init = fi, m_cleanup = fc,
            m_spdx = dl_sym M h' ''__ubx_module_license_spdx''\<rparr>"
          let ?s2 = "s\<lparr>next_addr := Suc (next_addr s), oom := tl (tl (oom s)), world := w,
            mods := (mods s)(next_addr s \<mapsto> ?m)\<rparr>"
          from assms(1) None c m o h obtain q t where q: "mod_init M fi ?s2 = Some (q, t)"
            "(r, s') = (if q \<noteq> 0 then load_fail_close M h' (next_addr s) t
              else (0, t\<lparr>nd_modules := ut_add U (nd_modules t) lib (next_addr s)\<rparr>))"
            by (auto simp: ubx_module_load_def Let_def split: if_splits)
          from assms(2) q(1) have t: "same_mods ?s2 t" unfolding init_framed_def by blast
          show ?thesis
          proof (cases "q = 0")
            case True
            with q(2) t h None show ?thesis by (intro ok [of "next_addr s" h' fi fc]) (simp_all add: same_mods_def)
          next
            case False
            with q(2) t fr show ?thesis by (intro fail) (simp_all add: load_fail_close_def same_mods_def)
          qed
        qed
      qed
    qed
  qed
qed

text \<open>C34: loading a module, on every path: it succeeds only if no module of that name was loaded, and then the new module is
  found under its name, with the functions of the library, and all others as before; or it fails with \<open>-1\<close>, and no module
  was added or removed.\<close>

theorem ubx_module_load_correct:
  assumes "ut_laws U" "mods_wf s" "fresh_from (next_addr s) (mods s)" "init_framed M"
    "ubx_module_load U M lib s = Some (r, s')"
  shows "mods_wf s' \<and> (r = 0 \<or> r = - 1) \<and> (r \<noteq> 0 \<longrightarrow> same_mods s s') \<and>
    (r = 0 \<longrightarrow> ubx_module_get U s lib = None \<and>
       (\<exists>a m. ubx_module_get U s' lib = Some a \<and> mods s' a = Some m \<and> m_id m = lib \<and>
          dl_sym M (m_handle m) ''__ubx_initialize_module'' = Some (m_init m) \<and>
          dl_sym M (m_handle m) ''__ubx_cleanup_module'' = Some (m_cleanup m)) \<and>
       (\<forall>l. l \<noteq> lib \<longrightarrow> ubx_module_get U s' l = ubx_module_get U s l))"
proof -
  have h: "htab_ok (nd_modules s)" using assms(2) by (simp add: mods_wf_def)
  from assms(5,4,3) show ?thesis
  proof (cases rule: module_load_cases)
    case fail
    with assms(2) show ?thesis by (simp add: mods_wf_same)
  next
    case (ok hd a fi fc)
    have dead: "mods s a = None" using assms(3) ok(3) by (simp add: fresh_from_def)
    then have a: "a \<notin> set (elems (nd_modules s))" using assms(2) by (auto simp: mods_wf_def elems_def)
    from ut_laws.add_ok [OF assms(1) h ok(2) a] ok dead assms(2) show ?thesis
      by (auto simp: mods_wf_def ubx_module_get_def)
  qed
qed

theorem ubx_module_load_correct_witness:
  "\<exists>s' a. ubx_module_load ut_ref (unreg_env ut_ref (\<lambda>_. [])) ''std'' busy_node = Some (0, s') \<and>
     ubx_module_get ut_ref s' ''std'' = Some a \<and> ubx_module_get ut_ref s' ''m'' = Some 20"
proof -
  let ?M = "unreg_env ut_ref (\<lambda>_. []) :: trace mod_env"
  obtain s' where s': "ubx_module_load ut_ref ?M ''std'' busy_node = Some (0, s')"
    by (simp add: ubx_module_load_def busy_node_def trace_node_def calloc_def mem_alloc_def unreg_env_def)
  have "init_framed ?M" by (simp add: init_framed_def unreg_env_def)
  moreover have "fresh_from (next_addr busy_node) (mods busy_node)"
    by (simp add: busy_node_def trace_node_def fresh_from_def)
  ultimately show ?thesis
    using ubx_module_load_correct [OF ref.ut_laws_axioms busy_node_wf(2) _ _ s'] s'
    by (auto simp: ubx_module_get_def busy_node_def)
qed

end
