(* ===== verification/Ubx_Core.thy ===== *)
theory Ubx_Core
  imports Ubx_Node
begin

text \<open>
  The operations of the core preserve its invariant \<open>core_wf\<close>: one lemma per operation, a step relation
  that collects them, and what creating a block from a prototype gives.
\<close>

section \<open>Extending the heap\<close>

lemma blk_wf_mono: "blk_wf P C a blk \<Longrightarrow> P \<subseteq>\<^sub>m P' \<Longrightarrow> C \<subseteq>\<^sub>m C' \<Longrightarrow> blk_wf P' C' a blk"
  unfolding blk_wf_def map_le_def by (metis domI)

lemma core_wf_ext:
  assumes wf: "core_wf s" and rc: "rc_inv s' ext" and t: "nd_blocks s' = nd_blocks s"
    and P: "prts s \<subseteq>\<^sub>m prts s'" and C: "cfgs s \<subseteq>\<^sub>m cfgs s'" and fr: "fresh_from (next_addr s') (prts s')"
    and n: "next_addr s \<le> next_addr s'" and B: "blks s b = Some blk" "blks s' = (blks s)(b \<mapsto> blk')"
    and nm: "b_name blk' = b_name blk" and bw: "blk_wf (prts s') (cfgs s') b blk'"
  shows "core_wf s'"
proof -
  have "blk_wf (prts s') (cfgs s') a x" if "blks s' a = Some x" for a x
    using that bw B(2) blk_wf_mono [OF core_wfD(3) [OF wf] P C] by (auto split: if_splits)
  moreover have "tab_wf (nd_blocks s') (blks s')" using wf B nm t by (auto simp: core_wf_def tab_wf_def)
  moreover have "b < next_addr s" using wf B(1) by (auto simp: core_wf_def intro: fresh_from_lt)
  then have "fresh_from (next_addr s') (blks s')"
    using fresh_from_mono [OF _ n, of "blks s"] wf n B(2) by (simp add: core_wf_def)
  ultimately show ?thesis using rc fr by (auto simp: core_wf_def)
qed

lemma core_wf_alloc: "core_wf s \<Longrightarrow> next_addr s \<le> k \<Longrightarrow> core_wf (s\<lparr>next_addr := k, oom := q\<rparr>)"
proof -
  assume wf: "core_wf s" and k: "next_addr s \<le> k"
  then obtain ext where "rc_inv s ext" by (auto simp: core_wf_def)
  then have "rc_inv (s\<lparr>next_addr := k, oom := q\<rparr>) ext" by (rule rc_inv_cong) (use k in simp_all)
  with wf k show ?thesis by (auto simp: core_wf_def intro: fresh_from_mono)
qed

lemma fresh_map_le: "fresh_from n m \<Longrightarrow> n \<le> a \<Longrightarrow> m \<subseteq>\<^sub>m m(a \<mapsto> x)"
  by (simp add: map_le_def fresh_from_def) (metis domIff)

section \<open>Building a block\<close>

text \<open>What adding ports and configs to a block does to the rest of the core: only the lists of that block grow.\<close>

definition grow :: "addr \<Rightarrow> 'w ubx \<Rightarrow> 'w ubx \<Rightarrow> bool" where
  "grow b s s' \<longleftrightarrow> nd_blocks s' = nd_blocks s \<and> next_addr s \<le> next_addr s' \<and> prts s \<subseteq>\<^sub>m prts s' \<and> cfgs s \<subseteq>\<^sub>m cfgs s' \<and>
     (\<forall>x. x \<noteq> b \<longrightarrow> blks s' x = blks s x) \<and>
     (\<forall>blk. blks s b = Some blk \<longrightarrow> (\<exists>ps cs. blks s' b = Some (blk\<lparr>b_ports := ps, b_configs := cs\<rparr>)))"

lemma grow_keep:
  assumes "nd_blocks s' = nd_blocks s" "next_addr s \<le> next_addr s'" "prts s \<subseteq>\<^sub>m prts s'" "cfgs s \<subseteq>\<^sub>m cfgs s'" "blks s' = blks s"
  shows "grow b s s'"
proof -
  have "\<exists>ps cs. blk = blk\<lparr>b_ports := ps, b_configs := cs\<rparr>" for blk :: ubx_block
    by (intro exI [of _ "b_ports blk"] exI [of _ "b_configs blk"]) simp
  with assms show ?thesis by (auto simp: grow_def)
qed

lemma grow_refl [simp]: "grow b s s"
  by (rule grow_keep) simp_all

lemma grow_trans: "grow b s t \<Longrightarrow> grow b t u \<Longrightarrow> grow b s u"
  unfolding grow_def by (fastforce intro: map_le_trans)

lemma grow_live: "grow b s t \<Longrightarrow> blks s b = Some blk \<Longrightarrow> \<exists>blk'. blks t b = Some blk'"
  by (auto simp: grow_def)

lemma grow_ports:
  assumes "nd_blocks s' = nd_blocks s" "next_addr s \<le> next_addr s'" "prts s \<subseteq>\<^sub>m prts s'" "cfgs s \<subseteq>\<^sub>m cfgs s'"
    "blks s b = Some blk" "blks s' = (blks s)(b \<mapsto> blk\<lparr>b_ports := ps\<rparr>)"
  shows "grow b s s'"
proof -
  have "blk\<lparr>b_ports := ps\<rparr> = blk\<lparr>b_ports := ps, b_configs := b_configs blk\<rparr>" by simp
  with assms show ?thesis unfolding grow_def by (metis fun_upd_apply option.inject)
qed

lemma grow_configs:
  assumes "nd_blocks s' = nd_blocks s" "next_addr s \<le> next_addr s'" "prts s \<subseteq>\<^sub>m prts s'" "cfgs s \<subseteq>\<^sub>m cfgs s'"
    "blks s b = Some blk" "blks s' = (blks s)(b \<mapsto> blk\<lparr>b_configs := cs\<rparr>)"
  shows "grow b s s'"
proof -
  have "blk\<lparr>b_configs := cs\<rparr> = blk\<lparr>b_ports := b_ports blk, b_configs := cs\<rparr>" by simp
  with assms show ?thesis unfolding grow_def by (metis fun_upd_apply option.inject)
qed

lemma port_add_t_cases:
  assumes r: "ubx_port_add_t U b name doc attrs it il ot ol s = Some (r, s')" and b: "blks s b = Some blk"
  obtains (fail) k q where "r \<noteq> 0" "s' = s\<lparr>next_addr := k, oom := q\<rparr>" "next_addr s \<le> k"
  | (ok) q where "r = 0" "length name \<le> 39"
      "s' = s\<lparr>next_addr := Suc (next_addr s), oom := q, prts := (prts s)(next_addr s \<mapsto> new_port b name doc attrs it il ot ol),
         blks := (blks s)(b \<mapsto> blk\<lparr>b_ports := dl_append U (b_ports blk) (next_addr s)\<rparr>)\<rparr>"
proof -
  note u = ubx_port_add_t_def
  from r b obtain p where p: "ubx_port_get (Some b) (Some name) s = Some p" by (auto simp: u)
  show ?thesis
  proof (cases p)
    case (Some a)
    with r b p show ?thesis by (intro fail [where k = "next_addr s" and q = "oom s"]) (auto simp: u)
  next
    case None
    show ?thesis
    proof (cases s rule: calloc_cases)
      case c: fail
      with r b p None show ?thesis by (intro fail [where k = "next_addr s" and q = "tl (oom s)"]) (auto simp: u)
    next
      case c: ok
      let ?s1 = "s\<lparr>next_addr := Suc (next_addr s), oom := tl (oom s)\<rparr>"
      obtain docok q where m: "(if doc = None then (True, ?s1) else mem_alloc ?s1) = (docok, s\<lparr>next_addr := Suc (next_addr s), oom := q\<rparr>)"
      proof (cases "doc = None")
        case True
        then show thesis by (intro that [of True "tl (oom s)"]) simp
      next
        case False
        then show thesis
          by (intro that [where docok = "fst (mem_alloc ?s1)" and q = "tl (tl (oom s))"]) (auto simp: mem_alloc_def)
      qed
      consider "39 < length name \<or> \<not> docok" | "length name \<le> 39" docok by force
      then show ?thesis
      proof cases
        case 1
        have "(r = EINVALID_PORT \<and> s' = ?s1) \<or> (r = EOUTOFMEM \<and> s' = s\<lparr>next_addr := Suc (next_addr s), oom := q\<rparr>)"
          using 1 r b p None c m by (auto simp: u UBX_PORT_NAME_MAXLEN_def Let_def split: if_splits)
        then show ?thesis
        proof (elim disjE conjE)
          assume "r = EINVALID_PORT" "s' = ?s1"
          then show ?thesis by (intro fail [where k = "Suc (next_addr s)" and q = "tl (oom s)"]) simp_all
        next
          assume "r = EOUTOFMEM" "s' = s\<lparr>next_addr := Suc (next_addr s), oom := q\<rparr>"
          then show ?thesis by (intro fail [where k = "Suc (next_addr s)" and q = q]) simp_all
        qed
      next
        case 2
        with r b p None c m show ?thesis
          by (intro ok [where q = q]) (auto simp: u UBX_PORT_NAME_MAXLEN_def Let_def)
      qed
    qed
  qed
qed

context ut_laws
begin

lemma config_add_t_wf:
  assumes wf: "core_wf s" and b: "blks s b = Some blk"
    and r: "ubx_config_add_t U b name doc (Some ta) mn mx attrs s = Some (r, s')"
  shows "core_wf s' \<and> grow b s s'"
proof -
  from wf obtain ext where rc: "rc_inv s ext" by (auto simp: core_wf_def)
  note rc' = rc_inv_config_add_t [OF rc b r]
  note bw = core_wfD(3) [OF wf b]
  have fr: "fresh_from (next_addr s) (cfgs s)" "fresh_from (next_addr s) (prts s)"
    using rc wf by (simp_all add: rc_inv_def core_wf_def)
  note le = fresh_map_le [OF fr(1) order_refl]
  from r b show ?thesis
  proof (cases rule: config_add_t_cases)
    case (fail k q)
    with wf show ?thesis by (auto simp: core_wf_alloc intro!: grow_keep)
  next
    case (leak q c)
    have s: "nd_blocks s' = nd_blocks s" "prts s' = prts s" "cfgs s \<subseteq>\<^sub>m cfgs s'" "next_addr s \<le> next_addr s'"
      "blks s' = (blks s)(b \<mapsto> blk)" "fresh_from (next_addr s') (prts s')"
      using leak(3) le b fr(2) by (auto simp: fresh_from_def)
    have "core_wf s'"
      by (rule core_wf_ext [OF wf rc' s(1) _ s(3) s(6) s(4) b s(5)]) (use s(2,3) bw in \<open>auto intro: blk_wf_mono\<close>)
    with s b show ?thesis by (auto intro!: grow_keep simp: fun_upd_idem)
  next
    case (ok k q v D)
    let ?a = "next_addr s" and ?blk = "blk\<lparr>b_configs := b_configs blk @ [next_addr s]\<rparr>"
    have na: "?a \<notin> set (b_configs blk)" using bw fr(1) by (auto simp: blk_wf_def fresh_from_def)
    then have ap: "dl_append U (b_configs blk) ?a = b_configs blk @ [?a]" using bw by (simp add: append_law blk_wf_def)
    have s: "nd_blocks s' = nd_blocks s" "prts s' = prts s" "cfgs s \<subseteq>\<^sub>m cfgs s'" "next_addr s \<le> next_addr s'"
      "blks s' = (blks s)(b \<mapsto> ?blk)" "fresh_from (next_addr s') (prts s')"
      using ok le fr(2) ap by (auto simp: fresh_from_def)
    have "blk_wf (prts s') (cfgs s') b blk" using blk_wf_mono [OF bw _ s(3)] s(2) by simp
    then have bw': "blk_wf (prts s') (cfgs s') b ?blk"
      using na ok(5) by (simp add: blk_wf_def)
    have "core_wf s'"
      by (rule core_wf_ext [OF wf rc' s(1) _ s(3) s(6) s(4) b s(5) _ bw']) (use s(2) in simp_all)
    with s show ?thesis by (auto intro!: grow_configs [OF _ _ _ _ b])
  qed
qed

lemma port_add_t_wf:
  assumes wf: "core_wf s" and b: "blks s b = Some blk"
    and r: "ubx_port_add_t U b name doc attrs it il ot ol s = Some (r, s')"
  shows "core_wf s' \<and> grow b s s'"
proof -
  from wf obtain ext where rc: "rc_inv s ext" by (auto simp: core_wf_def)
  note bw = core_wfD(3) [OF wf b]
  have fr: "fresh_from (next_addr s) (prts s)" using wf by (simp add: core_wf_def)
  from r b show ?thesis
  proof (cases rule: port_add_t_cases)
    case (fail k q)
    with wf show ?thesis by (auto simp: core_wf_alloc intro!: grow_keep)
  next
    case (ok q)
    let ?a = "next_addr s" and ?blk = "blk\<lparr>b_ports := b_ports blk @ [next_addr s]\<rparr>"
    have na: "?a \<notin> set (b_ports blk)" using bw fr by (auto simp: blk_wf_def fresh_from_def)
    then have ap: "dl_append U (b_ports blk) ?a = b_ports blk @ [?a]" using bw by (simp add: append_law blk_wf_def)
    have s: "nd_blocks s' = nd_blocks s" "cfgs s' = cfgs s" "prts s \<subseteq>\<^sub>m prts s'" "next_addr s \<le> next_addr s'"
      "blks s' = (blks s)(b \<mapsto> ?blk)" "fresh_from (next_addr s') (prts s')"
      using ok fresh_map_le [OF fr order_refl] fr ap by (auto simp: fresh_from_def)
    have rc': "rc_inv s' ext" using rc by (rule rc_inv_cong) (use ok in simp_all)
    have "blk_wf (prts s') (cfgs s') b blk" using blk_wf_mono [OF bw s(3)] s(2) by simp
    then have bw': "blk_wf (prts s') (cfgs s') b ?blk"
      using na ok(3) by (simp add: blk_wf_def new_port_def)
    have "core_wf s'"
      by (rule core_wf_ext [OF wf rc' s(1) s(3) _ s(6) s(4) b s(5) _ bw']) (use s(2) in simp_all)
    with s show ?thesis by (auto intro!: grow_ports [OF _ _ _ _ b])
  qed
qed

lemma config_add2_cases:
  assumes "ubx_config_add2 U (Some b) name doc tn mn mx attrs s = Some (r, s')"
  obtains (err) "s' = s" "r \<noteq> 0"
  | (add) blk n ta where "blks s b = Some blk" "name = Some n" "ubx_type_get U s tn = Some ta"
      "ubx_config_add_t U b n doc (Some ta) mn mx attrs s = Some (r, s')"
proof -
  from assms obtain blk where b: "blks s b = Some blk" by (auto simp: ubx_config_add2_def)
  show ?thesis
  proof (cases name)
    case None
    with assms b err show ?thesis by (auto simp: ubx_config_add2_def)
  next
    case (Some n)
    then show ?thesis
      using assms b err add by (cases "ubx_type_get U s tn") (auto simp: ubx_config_add2_def split: if_splits)
  qed
qed

lemma config_add2_wf:
  assumes "core_wf s" "ubx_config_add2 U (Some b) name doc tn mn mx attrs s = Some (r, s')"
  shows "core_wf s' \<and> grow b s s'"
  using assms(2)
proof (cases rule: config_add2_cases)
  case err
  with assms(1) show ?thesis by simp
next
  case (add blk n ta)
  from config_add_t_wf [OF assms(1) add(1,4)] show ?thesis .
qed

lemma port_add_wf:
  assumes "core_wf s" "ubx_port_add U (Some b) name doc attrs itn il otn ol s = Some (r, s')"
  shows "core_wf s' \<and> grow b s s'"
  using assms by (auto simp: ubx_port_add_def split: option.splits if_splits sum.splits dest: port_add_t_wf)


lemma register_ports_wf:
  assumes "core_wf s" "register_ports U b ps s = Some (r, s')"
  shows "core_wf s' \<and> grow b s s'"
  using assms
proof (induction ps arbitrary: s)
  case (Cons p ps)
  from Cons.prems(2) obtain r1 s1 where
    r1: "ubx_port_add U (Some b) (Some (pp_name p)) (pp_doc p) (pp_attrs p OR PORT_ATTR_CLONED)
       (pp_in_type_name p) (pp_in_data_len p) (pp_out_type_name p) (pp_out_data_len p) s = Some (r1, s1)"
    "(r, s') = (r1, s1) \<or> register_ports U b ps s1 = Some (r, s')"
    unfolding register_ports.simps bind_Some_iff by (auto split: if_splits)
  from port_add_wf [OF Cons.prems(1) r1(1)] have s1: "core_wf s1" "grow b s s1" by auto
  from r1(2) Cons.IH [OF s1(1)] s1 show ?case by (auto intro: grow_trans)
qed simp

lemma register_configs_wf:
  assumes "core_wf s" "register_configs U b cs s = Some (r, s')"
  shows "core_wf s' \<and> grow b s s'"
  using assms
proof (induction cs arbitrary: s)
  case (Cons c cs)
  from Cons.prems(2) obtain r1 s1 where
    r1: "ubx_config_add2 U (Some b) (Some (pc_name c)) (pc_doc c) (pc_type_name c)
       (pc_min c) (pc_max c) (pc_attrs c OR CONFIG_ATTR_CLONED) s = Some (r1, s1)"
    "(r, s') = (r1, s1) \<or> register_configs U b cs s1 = Some (r, s')"
    unfolding register_configs.simps bind_Some_iff by (auto split: if_splits)
  from config_add2_wf [OF Cons.prems(1) r1(1)] have s1: "core_wf s1" "grow b s s1" by auto
  from r1(2) Cons.IH [OF s1(1)] s1 show ?case by (auto intro: grow_trans)
qed simp

text \<open>Cloning copies from a list of live ports or configs, which stay live while the block grows.\<close>

lemma clone_ports_wf:
  assumes "core_wf s" "blks s b = Some blk" "clone_ports U b ps s = Some (r, s')"
  shows "core_wf s' \<and> grow b s s'"
  using assms
proof (induction ps arbitrary: s blk)
  case (Cons p ps)
  from Cons.prems(3) obtain q r1 s1 where q: "prts s p = Some q"
    "ubx_port_add_t U b (p_name q) None (p_attrs q OR PORT_ATTR_CLONED) (p_in_type q) (p_in_data_len q)
       (p_out_type q) (p_out_data_len q) s = Some (r1, s1)"
    "(r, s') = (r1, s1) \<or> clone_ports U b ps s1 = Some (r, s')" by (auto split: if_splits)
  from port_add_t_wf [OF Cons.prems(1,2) q(2)] have s1: "core_wf s1" "grow b s s1" by auto
  from grow_live [OF s1(2) Cons.prems(2)] obtain blk1 where "blks s1 b = Some blk1" by blast
  with Cons.IH [OF s1(1)] q(3) s1 show ?case by (auto intro: grow_trans)
qed simp

lemma clone_configs_wf:
  assumes "core_wf s" "blks s b = Some blk" "\<forall>c \<in> set cs. \<exists>cfg. cfgs s c = Some cfg \<and> c_type cfg \<noteq> None"
    "clone_configs U b cs s = Some (r, s')"
  shows "core_wf s' \<and> grow b s s'"
  using assms
proof (induction cs arbitrary: s blk)
  case (Cons c cs)
  from Cons.prems(3) obtain q ta where q: "cfgs s c = Some q" "c_type q = Some ta" by auto
  with Cons.prems(4) obtain r1 s1 where r1:
    "ubx_config_add_t U b (c_name q) None (Some ta) (c_min q) (c_max q) (c_attrs q OR CONFIG_ATTR_CLONED) s = Some (r1, s1)"
    "(r, s') = (r1, s1) \<or> clone_configs U b cs s1 = Some (r, s')" by (auto split: if_splits)
  from config_add_t_wf [OF Cons.prems(1,2) r1(1)] have s1: "core_wf s1" "grow b s s1" by auto
  from grow_live [OF s1(2) Cons.prems(2)] obtain blk1 where blk1: "blks s1 b = Some blk1" by blast
  have "cfgs s \<subseteq>\<^sub>m cfgs s1" using s1(2) by (simp add: grow_def)
  then have "\<forall>c \<in> set cs. \<exists>cfg. cfgs s1 c = Some cfg \<and> c_type cfg \<noteq> None"
    using Cons.prems(3) by (auto simp: map_le_def) (metis domI)
  from Cons.IH [OF s1(1) blk1 this] r1(2) s1 show ?case by (auto intro: grow_trans)
qed simp

section \<open>Registering and creating blocks\<close>

text \<open>A block that is allocated but not yet in the table.\<close>

lemma fresh_addr:
  assumes "core_wf s"
  shows "blks s (next_addr s) = None" "next_addr s \<notin> set (elems (nd_blocks s))"
  using assms by (auto simp: core_wf_def fresh_from_def tab_wf_def elems_def)

lemma core_wf_new_blk:
  assumes wf: "core_wf s" and e: "b_ports nb = []" "b_configs nb = []"
  shows "core_wf (s\<lparr>next_addr := Suc (next_addr s), oom := q, blks := (blks s)(next_addr s \<mapsto> nb)\<rparr>)"
    (is "core_wf ?t")
proof -
  from wf obtain ext where "rc_inv s ext" by (auto simp: core_wf_def)
  then have "rc_inv ?t ext" by (rule rc_inv_cong) simp_all
  moreover have "tab_wf (nd_blocks s) ((blks s)(next_addr s \<mapsto> nb))"
    using wf fresh_addr(2) [OF wf] by (auto simp: core_wf_def tab_wf_def elems_def image_iff)
  moreover have "blk_wf P C a nb" for P C a using e by (simp add: blk_wf_def)
  moreover have "fresh_from (Suc (next_addr s)) ((blks s)(next_addr s \<mapsto> nb))" "fresh_from (Suc (next_addr s)) (prts s)"
    using wf by (auto simp: core_wf_def fresh_from_def)
  ultimately show ?thesis using wf by (auto simp: core_wf_def)
qed

lemma block_register_t_wf:
  assumes wf: "core_wf s" and na: "a \<notin> set (elems (nd_blocks s))" and r: "block_register_t U a s = Some (r, s')"
  shows "core_wf s' \<and> (r \<noteq> 0 \<longrightarrow> s' = s)"
proof (cases "r = 0")
  case False
  with r wf show ?thesis by (auto simp: block_register_t_def split: if_splits)
next
  case True
  with r obtain blk where b: "blks s a = Some blk" "ut_find U (nd_blocks s) (b_name blk) = None"
    "s' = s\<lparr>nd_blocks := ut_add U (nd_blocks s) (b_name blk) a, blks := (blks s)(a \<mapsto> blk\<lparr>b_nd := True\<rparr>)\<rparr>"
    by (auto simp: block_register_t_def split: if_splits)
  note h = core_wfD(1) [OF wf]
  let ?s1 = "s\<lparr>blks := (blks s)(a \<mapsto> blk\<lparr>b_nd := True\<rparr>)\<rparr>"
  from wf obtain ext where "rc_inv s ext" by (auto simp: core_wf_def)
  then have rc: "rc_inv s' ext" by (rule rc_inv_cong) (simp_all add: b(3))
  have "tab_wf (nd_blocks s') (blks s')"
    using add_ok(1,3) [OF h b(2) na] wf b by (auto simp: core_wf_def tab_wf_def)
  moreover have "fresh_from (next_addr s') (blks s')"
    using wf b(1,3) fresh_from_lt [of "next_addr s" "blks s" a blk] by (simp add: core_wf_def)
  moreover have "blk_wf (prts s') (cfgs s') x bx" if "blks s' x = Some bx" for x bx
    using that core_wfD(3) [OF wf] b by (auto simp: blk_wf_def split: if_splits)
  ultimately show ?thesis using wf rc True b(3) by (auto simp: core_wf_def)
qed

lemma grow_table: "grow b s s' \<Longrightarrow> nd_blocks s' = nd_blocks s"
  by (simp add: grow_def)

lemma block_free_wf':
  assumes "core_wf s" "a \<notin> set (elems (nd_blocks s))" "ubx_block_free U a s = Some s'"
  shows "core_wf s'"
proof -
  from assms(3) obtain blk where "blks s a = Some blk" by (auto simp: ubx_block_free_def)
  from block_free_wf [OF assms(1) this assms(2)] assms(3) show ?thesis by auto
qed

lemma block_register_wf:
  assumes wf: "core_wf s" and r: "ubx_block_register U prot s = Some (r, s')"
  shows "core_wf s'"
proof (cases s rule: calloc_cases)
  case fail
  with core_wf_alloc [OF wf, of "next_addr s"] r show ?thesis by (auto simp: ubx_block_register_def)
next
  case c: ok
  let ?a = "next_addr s" and ?s1 = "s\<lparr>next_addr := Suc (next_addr s), oom := tl (oom s)\<rparr>"
  note na = fresh_addr(2) [OF wf]
  show ?thesis
  proof (cases "length (pb_name prot) > UBX_BLOCK_NAME_MAXLEN")
    case True
    with core_wf_alloc [OF wf, of "Suc ?a" "tl (oom s)"] r c show ?thesis by (auto simp: ubx_block_register_def)
  next
    case False
    obtain mok q where m: "(if pb_meta_data prot = None then (True, ?s1) else mem_alloc ?s1) =
        (mok, s\<lparr>next_addr := Suc ?a, oom := q\<rparr>)"
      by (cases "pb_meta_data prot = None") (simp_all add: mem_alloc_def)
    let ?s2 = "s\<lparr>next_addr := Suc ?a, oom := q\<rparr>"
    let ?s3 = "?s2\<lparr>blks := (blks ?s2)(?a \<mapsto> register_new prot mok)\<rparr>"
    from r c False m have r: "(do {
              (ret, s) \<leftarrow> register_ports U ?a (pb_ports prot) ?s3;
              if ret \<noteq> 0 then do { s \<leftarrow> ubx_block_free U ?a s; Some (ret, s) }
              else do {
                (ret, s) \<leftarrow> register_configs U ?a (pb_configs prot) s;
                if ret \<noteq> 0 then do { s \<leftarrow> ubx_block_free U ?a s; Some (ret, s) }
                else block_register_t U ?a s } }) = Some (r, s')"
      by (simp add: ubx_block_register_def Let_def)
    have wf3: "core_wf ?s3" using core_wf_new_blk [OF wf, of "register_new prot mok" q] by (simp add: register_new_def)
    from r obtain r4 s4 where s4: "register_ports U ?a (pb_ports prot) ?s3 = Some (r4, s4)" by auto
    from register_ports_wf [OF wf3 s4] have w4: "core_wf s4" "nd_blocks s4 = nd_blocks s" by (auto simp: grow_def)
    show ?thesis
    proof (cases "r4 = 0")
      case False
      with r s4 w4 na show ?thesis by (auto intro: block_free_wf')
    next
      case True
      with r s4 obtain r5 s5 where s5: "register_configs U ?a (pb_configs prot) s4 = Some (r5, s5)" by auto
      from register_configs_wf [OF w4(1) s5] w4(2) have "core_wf s5" "nd_blocks s5 = nd_blocks s" by (auto simp: grow_def)
      with r s4 s5 True na show ?thesis by (auto split: if_splits intro: block_free_wf' dest: block_register_t_wf)
    qed
  qed
qed

lemma block_clone_do:
  assumes "blks s prot = Some pb" "calloc s = (Some a, s\<lparr>next_addr := k, oom := q\<rparr>)"
  shows "ubx_block_clone U prot name s = do {
     (ret, s) \<leftarrow> clone_configs U a (b_configs pb) (s\<lparr>next_addr := k, oom := q, blks := (blks s)(a \<mapsto> clone_new prot name pb)\<rparr>);
     if ret \<noteq> 0 then do { s \<leftarrow> ubx_block_free U a s; Some (None, s) }
     else do {
       (ret, s) \<leftarrow> clone_ports U a (b_ports pb) s;
       if ret \<noteq> 0 then do { s \<leftarrow> ubx_block_free U a s; Some (None, s) }
       else Some (Some a, s) } }"
  using assms by (simp add: ubx_block_clone_def Let_def)

text \<open>Cloning, on success, gives a new block outside the table.\<close>

lemma block_clone_wf:
  assumes wf: "core_wf s" and r: "ubx_block_clone U prot name s = Some (p, s')"
  shows "core_wf s' \<and> nd_blocks s' = nd_blocks s \<and> (\<forall>a. p = Some a \<longrightarrow> a \<notin> set (elems (nd_blocks s)))"
proof -
  from r obtain pb where pb: "blks s prot = Some pb" by (auto simp: ubx_block_clone_def)
  show ?thesis
  proof (cases s rule: calloc_cases)
    case fail
    with core_wf_alloc [OF wf, of "next_addr s"] r pb show ?thesis
      by (auto simp: ubx_block_clone_def split: if_splits)
  next
    case c: ok
    let ?a = "next_addr s" and ?s1 = "s\<lparr>next_addr := Suc (next_addr s), oom := tl (oom s)\<rparr>"
    note na = fresh_addr(2) [OF wf]
    let ?nb = "clone_new prot name pb" and ?s2 = "s\<lparr>next_addr := Suc (next_addr s), oom := tl (oom s), blks := (blks s)(?a \<mapsto> clone_new prot name pb)\<rparr>"
    note r = r [unfolded block_clone_do [OF pb c]]
    have wf2: "core_wf ?s2" using core_wf_new_blk [OF wf, of ?nb "tl (oom s)"] by (simp add: clone_new_def)
    have b2: "blks ?s2 ?a = Some ?nb" by simp
    have live: "\<forall>c \<in> set (b_configs pb). \<exists>cfg. cfgs ?s2 c = Some cfg \<and> c_type cfg \<noteq> None"
      using core_wfD(3) [OF wf pb] by (auto simp: blk_wf_def)
    from r obtain r3 s3 where s3: "clone_configs U ?a (b_configs pb) ?s2 = Some (r3, s3)" by auto
    from clone_configs_wf [OF wf2 b2 live s3] have w3: "core_wf s3" "grow ?a ?s2 s3" by auto
    from grow_live [OF w3(2) b2] grow_table [OF w3(2)] obtain b3 where
      b3: "blks s3 ?a = Some b3" "nd_blocks s3 = nd_blocks s" by auto
    show ?thesis
    proof (cases "r3 = 0")
      case False
      with r s3 obtain s4 where "ubx_block_free U ?a s3 = Some s4" "p = None" "s' = s4" by auto
      with block_free_wf [OF w3(1) b3(1)] na b3(2) show ?thesis by (auto dest: heap_onlyD(1))
    next
      case True
      with r s3 obtain r4 s4 where s4: "clone_ports U ?a (b_ports pb) s3 = Some (r4, s4)" by auto
      from clone_ports_wf [OF w3(1) b3(1) s4] have w4: "core_wf s4" "grow ?a s3 s4" by auto
      from grow_live [OF w4(2) b3(1)] grow_table [OF w4(2)] b3(2) obtain b4 where
        b4: "blks s4 ?a = Some b4" "nd_blocks s4 = nd_blocks s" by auto
      show ?thesis
      proof (cases "r4 = 0")
        case False
        with r s3 s4 True obtain s5 where "ubx_block_free U ?a s4 = Some s5" "p = None" "s' = s5" by auto
        with block_free_wf [OF w4(1) b4(1)] na b4(2) show ?thesis by (auto dest: heap_onlyD(1))
      next
        case z: True
        with r s3 s4 True w4 b4 na show ?thesis by auto
      qed
    qed
  qed
qed

lemma block_create_wf:
  assumes wf: "core_wf s" and r: "ubx_block_create U type name s = Some (p, s')"
  shows "core_wf s'"
proof (cases name)
  case None
  with wf r show ?thesis by (simp add: ubx_block_create_def)
next
  case (Some n)
  show ?thesis
  proof (cases "ut_find U (nd_blocks s) type")
    case None
    with wf r Some show ?thesis by (simp add: ubx_block_create_def)
  next
    case f: (Some prot)
    show ?thesis
    proof (cases "ut_find U (nd_blocks s) n")
      case nx: None
      with r f Some obtain q s1 where s1: "ubx_block_clone U prot n s = Some (q, s1)"
        by (auto simp: ubx_block_create_def)
      note w1 = block_clone_wf [OF wf s1]
      show ?thesis
      proof (cases q)
        case None
        with r f Some nx s1 w1 show ?thesis by (auto simp: ubx_block_create_def)
      next
        case (Some a)
        with r f \<open>name = Some n\<close> nx s1 obtain r2 s2 where s2: "block_register_t U a s1 = Some (r2, s2)"
          by (auto simp: ubx_block_create_def)
        from w1 Some have na: "a \<notin> set (elems (nd_blocks s1))" by simp
        have w2: "core_wf s2" "r2 \<noteq> 0 \<Longrightarrow> s2 = s1" using block_register_t_wf [OF _ na s2] w1 by auto
        with r f \<open>name = Some n\<close> nx s1 Some s2 na show ?thesis
          by (auto simp: ubx_block_create_def split: if_splits intro: block_free_wf')
      qed
    qed (use wf r Some f in \<open>auto simp: ubx_block_create_def\<close>)
  qed
qed

end

section \<open>Removing ports and configs, connecting\<close>

text \<open>A block loses objects it owns.\<close>

lemma core_wf_shrink:
  assumes wf: "core_wf s" and rc: "rc_inv s' ext" and t: "nd_blocks s' = nd_blocks s" "next_addr s' = next_addr s"
    and P: "\<And>p. prts s' p = prts s p \<or> prts s' p = None \<and> (\<exists>port. prts s p = Some port \<and> p_block port = b)"
    and C: "\<And>c. cfgs s' c = cfgs s c \<or> cfgs s' c = None \<and> (\<exists>cfg. cfgs s c = Some cfg \<and> c_block cfg = b)"
    and B: "blks s b = Some blk" "blks s' = (blks s)(b \<mapsto> blk')"
    and nm: "b_name blk' = b_name blk" and bw: "blk_wf (prts s') (cfgs s') b blk'"
  shows "core_wf s'"
proof -
  have "blk_wf (prts s') (cfgs s') a x" if ax: "blks s' a = Some x" for a x
  proof (cases "a = b")
    case True
    with ax B(2) bw show ?thesis by simp
  next
    case False
    with ax B(2) have w: "blk_wf (prts s) (cfgs s) a x" using core_wfD(3) [OF wf] by simp
    have "\<exists>port. prts s' p = Some port \<and> p_block port = a" if "p \<in> set (b_ports x)" for p
      using w that P [of p] False by (auto simp: blk_wf_def)
    moreover have "\<exists>cfg. cfgs s' c = Some cfg \<and> c_block cfg = a \<and> c_type cfg \<noteq> None" if "c \<in> set (b_configs x)" for c
      using w that C [of c] False by (auto simp: blk_wf_def)
    ultimately show ?thesis using w by (simp add: blk_wf_def)
  qed
  moreover have "tab_wf (nd_blocks s') (blks s')" using wf B nm t by (auto simp: core_wf_def tab_wf_def)
  moreover have "fresh_from (next_addr s') (blks s')"
    using wf B t fresh_from_lt [of "next_addr s" "blks s" b blk] by (simp add: core_wf_def)
  moreover have "fresh_from (next_addr s') (prts s')"
    unfolding fresh_from_def t(2)
  proof (intro allI impI)
    fix a assume "next_addr s \<le> a"
    with wf have "prts s a = None" by (simp add: core_wf_def fresh_from_def)
    with P [of a] show "prts s' a = None" by auto
  qed
  ultimately show ?thesis using rc by (auto simp: core_wf_def)
qed

lemma port_find_mem: "port_find s ps n = Some (Some a) \<Longrightarrow> a \<in> set ps"
  by (induction ps) (auto split: if_splits)

lemma config_find_mem: "config_find s cs n = Some (Some a) \<Longrightarrow> a \<in> set cs"
  by (induction cs) (auto split: if_splits)

text \<open>Operations on the connections and lengths of ports.\<close>

definition port_frame :: "'w ubx \<Rightarrow> 'w ubx \<Rightarrow> bool" where
  "port_frame s s' \<longleftrightarrow> nd_blocks s' = nd_blocks s \<and> blks s' = blks s \<and> cfgs s' = cfgs s \<and> dats s' = dats s \<and>
     next_addr s' = next_addr s \<and> (\<forall>p. map_option p_block (prts s' p) = map_option p_block (prts s p))"

lemma port_frame_refl [simp]: "port_frame s s"
  by (simp add: port_frame_def)

lemma port_frame_trans: "port_frame s t \<Longrightarrow> port_frame t u \<Longrightarrow> port_frame s u"
  by (simp add: port_frame_def)

lemma port_frame_wf:
  assumes wf: "core_wf s" and f: "port_frame s s'"
  shows "core_wf s'"
proof -
  from wf obtain ext where "rc_inv s ext" by (auto simp: core_wf_def)
  then have rc: "rc_inv s' ext" by (rule rc_inv_cong) (use f in \<open>simp_all add: port_frame_def\<close>)
  have live: "(\<exists>port. prts s' p = Some port \<and> p_block port = a) \<longleftrightarrow> (\<exists>port. prts s p = Some port \<and> p_block port = a)" for p a
  proof -
    have "map_option p_block (prts s' p) = map_option p_block (prts s p)" using f by (simp add: port_frame_def)
    then show ?thesis by (cases "prts s p"; cases "prts s' p") auto
  qed
  have none: "prts s' p = None \<longleftrightarrow> prts s p = None" for p
  proof -
    have "map_option p_block (prts s' p) = map_option p_block (prts s p)" using f by (simp add: port_frame_def)
    then show ?thesis by (cases "prts s p"; cases "prts s' p") auto
  qed
  from wf rc f show ?thesis
    by (auto simp: core_wf_def port_frame_def blk_wf_def live fresh_from_def none)
qed

lemma array_block_add_frame: "array_block_add arr ib s = (r, arr', s') \<Longrightarrow> port_frame s s' \<and> prts s' = prts s"
  by (auto simp: array_block_add_def mem_alloc_def port_frame_def Let_def split: if_splits)

lemma port_frame_upd:
  "port_frame s t \<Longrightarrow> prts t = prts s \<Longrightarrow> prts s p = Some port \<Longrightarrow> p_block port' = p_block port \<Longrightarrow>
    port_frame s (t\<lparr>prts := (prts t)(p \<mapsto> port')\<rparr>)"
  by (simp add: port_frame_def)

lemma connect_out_frame: "ubx_port_connect_out p ib s = Some (r, s') \<Longrightarrow> port_frame s s'"
  by (auto simp: ubx_port_connect_out_def split: if_splits prod.splits dest!: array_block_add_frame intro!: port_frame_upd)

lemma connect_in_frame: "ubx_port_connect_in p ib s = Some (r, s') \<Longrightarrow> port_frame s s'"
  by (auto simp: ubx_port_connect_in_def split: if_splits prod.splits dest!: array_block_add_frame intro!: port_frame_upd)

lemma disconnect_out_frame: "ubx_port_disconnect_out p ib s = Some (r, s') \<Longrightarrow> port_frame s s'"
  by (auto simp: ubx_port_disconnect_out_def split: if_splits intro!: port_frame_upd)

lemma disconnect_in_frame: "ubx_port_disconnect_in p ib s = Some (r, s') \<Longrightarrow> port_frame s s'"
  by (auto simp: ubx_port_disconnect_in_def split: if_splits intro!: port_frame_upd)

text \<open>What a computation keeps, whatever branch it takes: rules to walk along the code.\<close>

definition keeps :: "('w ubx \<Rightarrow> 'w ubx \<Rightarrow> bool) \<Rightarrow> 'w ubx \<Rightarrow> (int \<times> 'w ubx) option \<Rightarrow> bool" where
  "keeps R s m \<longleftrightarrow> (\<forall>r s'. m = Some (r, s') \<longrightarrow> R s s')"

lemma keeps_Some: "R s s' \<Longrightarrow> keeps R s (Some (r, s'))"
  by (simp add: keeps_def)

lemma keeps_None: "keeps R s None"
  by (simp add: keeps_def)

lemma keeps_bind: "(\<And>x. m = Some x \<Longrightarrow> keeps R s (f x)) \<Longrightarrow> keeps R s (Option.bind m f)"
  by (auto simp: keeps_def)

lemma keeps_if: "(c \<Longrightarrow> keeps R s m) \<Longrightarrow> (\<not> c \<Longrightarrow> keeps R s n) \<Longrightarrow> keeps R s (if c then m else n)"
  by simp

lemma keeps_opt:
  "(p = None \<Longrightarrow> keeps R s m) \<Longrightarrow> (\<And>x. p = Some x \<Longrightarrow> keeps R s (f x)) \<Longrightarrow>
    keeps R s (case p of None \<Rightarrow> m | Some x \<Rightarrow> f x)"
  by (simp split: option.split)

lemma keeps_prod: "(\<And>a b. p = (a, b) \<Longrightarrow> keeps R s (g a b)) \<Longrightarrow> keeps R s (case p of (a, b) \<Rightarrow> g a b)"
  by (simp split: prod.split)

lemmas keeps_intros = keeps_Some keeps_None keeps_bind keeps_if keeps_opt keeps_prod

lemma connect_keeps: "keeps port_frame s (ubx_ports_connect op ip ib s)"
  unfolding ubx_ports_connect_def
  by (intro keeps_intros port_frame_refl) (auto dest: connect_out_frame connect_in_frame intro: port_frame_trans keeps_intros simp: keeps_def)

lemma disconnect_keeps: "keeps port_frame s (ubx_ports_disconnect op ip ib s)"
  unfolding ubx_ports_disconnect_def
  by (intro keeps_intros port_frame_refl) (auto dest: disconnect_out_frame disconnect_in_frame intro: port_frame_trans simp: keeps_def)

lemma connect_frame: "ubx_ports_connect op ip ib s = Some (r, s') \<Longrightarrow> port_frame s s'"
  and disconnect_frame: "ubx_ports_disconnect op ip ib s = Some (r, s') \<Longrightarrow> port_frame s s'"
  using connect_keeps disconnect_keeps unfolding keeps_def by blast+

lemma inport_resize_frame:
  assumes "ubx_inport_resize p len s = Some (r, s')" shows "port_frame s s'"
proof -
  from assms obtain port blk where "prts s p = Some port" "blks s (p_block port) = Some blk"
    unfolding ubx_inport_resize_def bind_Some_iff by blast
  with assms show ?thesis
    by (cases "b_state blk = BLOCK_STATE_PREINIT") (auto simp: ubx_inport_resize_def port_frame_def)
qed

lemma outport_resize_frame:
  assumes "ubx_outport_resize p len s = Some (r, s')" shows "port_frame s s'"
proof -
  from assms obtain port blk where "prts s p = Some port" "blks s (p_block port) = Some blk"
    unfolding ubx_outport_resize_def bind_Some_iff by blast
  with assms show ?thesis
    by (cases "b_state blk = BLOCK_STATE_PREINIT") (auto simp: ubx_outport_resize_def port_frame_def)
qed

context ut_laws
begin

lemma config_rm_wf:
  assumes wf: "core_wf s" and r: "ubx_config_rm U b name s = Some (r, s')"
  shows "core_wf s'"
proof (cases "\<exists>ba n. b = Some ba \<and> name = Some n")
  case False
  with wf r show ?thesis by (auto simp: ubx_config_rm_def split: option.splits)
next
  case True
  then obtain ba n where bn: "b = Some ba" "name = Some n" by blast
  from r bn obtain blk p where b: "blks s ba = Some blk" "ubx_config_get (Some ba) (Some n) s = Some p"
    by (auto simp: ubx_config_rm_def)
  show ?thesis
  proof (cases p)
    case None
    with wf r bn b show ?thesis by (auto simp: ubx_config_rm_def)
  next
    case (Some c)
    with b have mem: "c \<in> set (b_configs blk)" by (auto simp: ubx_config_get_def dest: config_find_mem)
    note bw = core_wfD(3) [OF wf b(1)]
    from bw mem obtain cfg where c: "cfgs s c = Some cfg" "c_block cfg = ba" by (auto simp: blk_wf_def)
    let ?blk = "blk\<lparr>b_configs := remove1 c (b_configs blk)\<rparr>"
    let ?s1 = "s\<lparr>blks := (blks s)(ba \<mapsto> ?blk)\<rparr>"
    have d: "dl_delete U (b_configs blk) c = remove1 c (b_configs blk)" using bw mem by (simp add: delete_law blk_wf_def)
    from wf obtain ext where "rc_inv s ext" by (auto simp: core_wf_def)
    then have "rc_inv ?s1 ext" by (rule rc_inv_cong) simp_all
    from rc_inv_config_free [OF this, of c cfg] c obtain D where
      D: "ubx_config_free c ?s1 = Some (?s1\<lparr>dats := D, cfgs := (cfgs ?s1)(c := None)\<rparr>)"
      "rc_inv (?s1\<lparr>dats := D, cfgs := (cfgs ?s1)(c := None)\<rparr>) ext" by auto
    let ?s2 = "?s1\<lparr>dats := D, cfgs := (cfgs ?s1)(c := None)\<rparr>"
    have s': "s' = ?s2" using r bn b Some d D(1) by (simp add: ubx_config_rm_def Let_def)
    have "blk_wf (prts ?s2) (cfgs ?s2) ba ?blk" using bw by (auto simp: blk_wf_def)
    then have "core_wf ?s2"
      by (intro core_wf_shrink [OF wf D(2), where b = ba and blk = blk and blk' = ?blk]) (use c b(1) in auto)
    then show ?thesis by (simp add: s')
  qed
qed

lemma port_rm_wf:
  assumes wf: "core_wf s" and r: "ubx_port_rm U b name s = Some (r, s')"
  shows "core_wf s'"
proof (cases "\<exists>ba n. b = Some ba \<and> name = Some n")
  case False
  with wf r show ?thesis by (auto simp: ubx_port_rm_def split: option.splits)
next
  case True
  then obtain ba n where bn: "b = Some ba" "name = Some n" by blast
  from r bn obtain blk q where b: "blks s ba = Some blk" "ubx_port_get (Some ba) (Some n) s = Some q"
    by (auto simp: ubx_port_rm_def)
  show ?thesis
  proof (cases q)
    case None
    with wf r bn b show ?thesis by (auto simp: ubx_port_rm_def)
  next
    case (Some p)
    with b have mem: "p \<in> set (b_ports blk)" by (auto simp: ubx_port_get_def dest: port_find_mem)
    note bw = core_wfD(3) [OF wf b(1)]
    from bw mem obtain port where c: "prts s p = Some port" "p_block port = ba" by (auto simp: blk_wf_def)
    let ?blk = "blk\<lparr>b_ports := remove1 p (b_ports blk)\<rparr>"
    let ?s2 = "s\<lparr>blks := (blks s)(ba \<mapsto> ?blk), prts := (prts s)(p := None)\<rparr>"
    have d: "dl_delete U (b_ports blk) p = remove1 p (b_ports blk)" using bw mem by (simp add: delete_law blk_wf_def)
    from wf obtain ext where "rc_inv s ext" by (auto simp: core_wf_def)
    then have rc: "rc_inv ?s2 ext" by (rule rc_inv_cong) simp_all
    have s': "s' = ?s2" using r bn b Some d c by (simp add: ubx_port_rm_def ubx_port_free_def Let_def)
    have "blk_wf (prts ?s2) (cfgs ?s2) ba ?blk" using bw by (auto simp: blk_wf_def)
    then have "core_wf ?s2"
      by (intro core_wf_shrink [OF wf rc, where b = ba and blk = blk and blk' = ?blk]) (use c b(1) in auto)
    then show ?thesis by (simp add: s')
  qed
qed

lemma block_unregister_wf':
  assumes wf: "core_wf s" and r: "ubx_block_unregister U n s = Some (r, s')"
  shows "core_wf s'"
proof (cases "ut_find U (nd_blocks s) n")
  case None
  with wf r show ?thesis by (simp add: ubx_block_unregister_def)
next
  case (Some a)
  then have "(n, a) \<in> set (nd_blocks s)" using core_wfD(1) [OF wf] by (simp add: find_iff)
  from block_unregister_wf [OF wf this] r show ?thesis by auto
qed

lemma block_rm_wf':
  assumes wf: "core_wf s" and r: "ubx_block_rm U name s = Some (r, s')"
  shows "core_wf s'"
proof -
  consider "s' = s" | n q where "ubx_block_unregister U n s = Some (q, s')"
    using r by (auto simp: ubx_block_rm_def split: option.splits if_splits)
  then show ?thesis by cases (use wf block_unregister_wf' in auto)
qed

end

lemma data_free_frame: "ubx_data_free d s = Some s' \<Longrightarrow> \<exists>D. s' = s\<lparr>dats := D\<rparr>"
  unfolding ubx_data_free_def bind_Some_iff by (auto simp: Let_def split: if_splits)

lemma config_assign_frame:
  assumes "ubx_config_assign c d s = Some (r, s')"
  shows "nd_blocks s' = nd_blocks s \<and> blks s' = blks s \<and> prts s' = prts s \<and> next_addr s' = next_addr s"
proof -
  from assms obtain cfg dat where "cfgs s c = Some cfg" "dats s d = Some dat" by (auto simp: ubx_config_assign_def)
  with assms show ?thesis
    by (cases "c_value cfg") (auto simp: ubx_config_assign_def split: if_splits dest!: data_free_frame)
qed

lemma config_assign_wf:
  assumes wf: "core_wf s" and ok: "c_value cfg \<noteq> Some d \<or> 0 < d_refcnt dat"
    and c: "cfgs s c = Some cfg" and d: "dats s d = Some dat" and r: "ubx_config_assign c d s = Some (r, s')"
  shows "core_wf s'"
proof -
  from wf obtain ext where rc: "rc_inv s ext" by (auto simp: core_wf_def)
  from rc_inv_assign [OF rc c d ok] r have a: "rc_inv s' ext" "r \<noteq> 0 \<longrightarrow> s' = s"
    "r = 0 \<longrightarrow> cfgs s' = (cfgs s)(c \<mapsto> cfg\<lparr>c_value := Some d\<rparr>)" by auto
  show ?thesis
  proof (cases "r = 0")
    case False
    with wf a show ?thesis by simp
  next
    case True
    have fr: "nd_blocks s' = nd_blocks s" "blks s' = blks s" "prts s' = prts s" "next_addr s' = next_addr s"
      using config_assign_frame [OF r] by simp_all
    have "blk_wf (prts s') (cfgs s') x bx" if "blks s x = Some bx" for x bx
      using core_wfD(3) [OF wf that] a(3) True c unfolding fr by (auto simp: blk_wf_def)
    with wf a(1) fr show ?thesis by (auto simp: core_wf_def)
  qed
qed

section \<open>The life cycle\<close>

text \<open>Hooks may do anything that keeps the invariant.\<close>

locale wf_hooks =
  fixes H :: "'w hooks"
  assumes init_wf: "core_wf s \<Longrightarrow> hk_init H f a s = Some (r, s') \<Longrightarrow> core_wf s'"
    and start_wf: "core_wf s \<Longrightarrow> hk_start H f a s = Some (r, s') \<Longrightarrow> core_wf s'"
    and stop_wf: "core_wf s \<Longrightarrow> hk_stop H f a s = Some s' \<Longrightarrow> core_wf s'"
    and cleanup_wf: "core_wf s \<Longrightarrow> hk_cleanup H f a s = Some s' \<Longrightarrow> core_wf s'"
    and step_wf: "core_wf s \<Longrightarrow> hk_step H f a s = Some s' \<Longrightarrow> core_wf s'"

lemma set_state_core_wf: "core_wf s \<Longrightarrow> set_state a x s = Some s' \<Longrightarrow> core_wf s'"
  by (auto simp: set_state_iff intro: core_wf_upd)

lemma core_wf_cache: "core_wf (s\<lparr>static_type := k\<rparr>) = core_wf s"
proof -
  have "rc_inv (s\<lparr>static_type := k\<rparr>) ext = rc_inv s ext" for ext by (auto simp: rc_inv_def)
  then show ?thesis by (simp add: core_wf_def)
qed

lemma init_loglevel_wf:
  assumes "core_wf s" "init_loglevel U b s = Some s'" shows "core_wf s'"
  using assms(2)
proof (cases rule: init_loglevel_cases)
  case (1 blk l k)
  have "core_wf (s\<lparr>static_type := k\<rparr>)" using assms(1) by (simp add: core_wf_cache)
  from core_wf_upd [OF this, of b blk "blk\<lparr>b_loglevel := l\<rparr>"] 1 show ?thesis by simp
qed

text \<open>The invariant as a relation for the rules of \<open>keeps\<close>.\<close>

abbreviation keeps_wf :: "'w ubx \<Rightarrow> (int \<times> 'w ubx) option \<Rightarrow> bool" where
  "keeps_wf s m \<equiv> keeps (\<lambda>_ t. core_wf t) s m"

context wf_hooks
begin

lemma block_init_wf: "core_wf s \<Longrightarrow> keeps_wf s (ubx_block_init U H b s)"
  unfolding ubx_block_init_def
  by (intro keeps_intros) (auto, (metis init_loglevel_wf init_wf set_state_core_wf)+)

lemma block_start_wf: "core_wf s \<Longrightarrow> keeps_wf s (ubx_block_start H b s)"
  unfolding ubx_block_start_def
  by (intro keeps_intros) (auto, (metis start_wf set_state_core_wf)+)

lemma block_stop_wf: "core_wf s \<Longrightarrow> keeps_wf s (ubx_block_stop H b s)"
  unfolding ubx_block_stop_def
  by (intro keeps_intros) (auto split: option.splits dest: stop_wf set_state_core_wf)

lemma block_cleanup_wf: "core_wf s \<Longrightarrow> keeps_wf s (ubx_block_cleanup H b s)"
  unfolding ubx_block_cleanup_def
  by (intro keeps_intros) (auto split: option.splits dest: cleanup_wf set_state_core_wf)

lemma count_step_wf: "core_wf s \<Longrightarrow> blks s a = Some blk \<Longrightarrow> count_step blk = Some blk' \<Longrightarrow>
    core_wf (s\<lparr>blks := (blks s)(a \<mapsto> blk')\<rparr>)"
  by (auto simp: count_step_iff intro: core_wf_upd)

lemma cblock_step_wf:
  assumes wf: "core_wf s" and r: "ubx_cblock_step H b s = Some (r, s')"
  shows "core_wf s'"
proof (cases "s' = s")
  case False
  from r obtain a blk where "b = Some a" "blks s a = Some blk"
    using False by (cases b) (auto simp: ubx_cblock_step_def)
  with r False obtain f s1 blk1 blk2 where "hk_step H f a s = Some s1" "blks s1 a = Some blk1" "count_step blk1 = Some blk2"
    "s' = s1\<lparr>blks := (blks s1)(a \<mapsto> blk2)\<rparr>"
    by (auto simp: ubx_cblock_step_def split: if_splits block_ops.splits option.splits)
  with wf show ?thesis by (auto intro: count_step_wf step_wf)
qed (use wf in simp)

end

lemma core_wf_emit: "core_wf s \<Longrightarrow> core_wf (emit a e s)"
  by (simp add: emit_def core_wf_world)

interpretation traced: wf_hooks "trace_hooks pol"
  by unfold_locales (auto simp: trace_hooks_def Let_def intro: core_wf_emit)

section \<open>All operations\<close>

inductive core_step :: "ut_lib \<Rightarrow> 'w hooks \<Rightarrow> 'w ubx \<Rightarrow> 'w ubx \<Rightarrow> bool" for U H where
  register: "ubx_block_register U prot s = Some (r, s') \<Longrightarrow> core_step U H s s'"
| create: "ubx_block_create U type name s = Some (p, s') \<Longrightarrow> core_step U H s s'"
| unregister: "ubx_block_unregister U n s = Some (r, s') \<Longrightarrow> core_step U H s s'"
| rm: "ubx_block_rm U name s = Some (r, s') \<Longrightarrow> core_step U H s s'"
| port_add: "ubx_port_add U (Some b) name doc attrs itn il otn ol s = Some (r, s') \<Longrightarrow> core_step U H s s'"
| port_rm: "ubx_port_rm U bp name s = Some (r, s') \<Longrightarrow> core_step U H s s'"
| connect: "ubx_ports_connect op ip ib s = Some (r, s') \<Longrightarrow> core_step U H s s'"
| disconnect: "ubx_ports_disconnect op ip ib s = Some (r, s') \<Longrightarrow> core_step U H s s'"
| in_resize: "ubx_inport_resize q len s = Some (r, s') \<Longrightarrow> core_step U H s s'"
| out_resize: "ubx_outport_resize q len s = Some (r, s') \<Longrightarrow> core_step U H s s'"
| config_add: "ubx_config_add2 U (Some b) name doc tn mn mx attrs s = Some (r, s') \<Longrightarrow> core_step U H s s'"
| config_rm: "ubx_config_rm U bp name s = Some (r, s') \<Longrightarrow> core_step U H s s'"
| config_assign: "cfgs s c = Some cfg \<Longrightarrow> dats s d = Some dat \<Longrightarrow> c_value cfg \<noteq> Some d \<or> 0 < d_refcnt dat \<Longrightarrow>
    ubx_config_assign c d s = Some (r, s') \<Longrightarrow> core_step U H s s'"
| init: "ubx_block_init U H bp s = Some (r, s') \<Longrightarrow> core_step U H s s'"
| start: "ubx_block_start H bp s = Some (r, s') \<Longrightarrow> core_step U H s s'"
| stop: "ubx_block_stop H bp s = Some (r, s') \<Longrightarrow> core_step U H s s'"
| cleanup: "ubx_block_cleanup H bp s = Some (r, s') \<Longrightarrow> core_step U H s s'"
| cstep: "ubx_cblock_step H bp s = Some (r, s') \<Longrightarrow> core_step U H s s'"

lemma keeps_wfD: "keeps_wf s m \<Longrightarrow> m = Some (r, s') \<Longrightarrow> core_wf s'"
  by (simp add: keeps_def)

lemma core_step_wf:
  assumes U: "ut_laws U" and H: "wf_hooks H" and st: "core_step U H s s'" and wf: "core_wf s"
  shows "core_wf s'"
  using st
proof cases
  case (register prot r)
  then show ?thesis by (rule ut_laws.block_register_wf [OF U wf])
next
  case (create type name p)
  then show ?thesis by (rule ut_laws.block_create_wf [OF U wf])
next
  case (unregister n r)
  then show ?thesis by (rule ut_laws.block_unregister_wf' [OF U wf])
next
  case (rm name r)
  then show ?thesis by (rule ut_laws.block_rm_wf' [OF U wf])
next
  case (port_add b name doc attrs itn il otn ol r)
  with ut_laws.port_add_wf [OF U wf] show ?thesis by blast
next
  case (port_rm bp name r)
  then show ?thesis by (rule ut_laws.port_rm_wf [OF U wf])
next
  case (config_add b name doc tn mn mx attrs r)
  with ut_laws.config_add2_wf [OF U wf] show ?thesis by blast
next
  case (config_rm bp name r)
  then show ?thesis by (rule ut_laws.config_rm_wf [OF U wf])
next
  case (config_assign c cfg d dat r)
  then show ?thesis by (intro config_assign_wf [OF wf])
next
  case (init bp r)
  then show ?thesis by (rule keeps_wfD [OF wf_hooks.block_init_wf [OF H wf]])
next
  case (start bp r)
  then show ?thesis by (rule keeps_wfD [OF wf_hooks.block_start_wf [OF H wf]])
next
  case (stop bp r)
  then show ?thesis by (rule keeps_wfD [OF wf_hooks.block_stop_wf [OF H wf]])
next
  case (cleanup bp r)
  then show ?thesis by (rule keeps_wfD [OF wf_hooks.block_cleanup_wf [OF H wf]])
next
  case (cstep bp r)
  then show ?thesis by (rule wf_hooks.cblock_step_wf [OF H wf])
qed (auto intro: port_frame_wf [OF wf] connect_frame disconnect_frame inport_resize_frame outport_resize_frame)

section \<open>What creating a block gives\<close>

text \<open>A port or config that was copied from another one into block \<open>b\<close>.\<close>

definition copied_port :: "'w ubx \<Rightarrow> 'w ubx \<Rightarrow> addr \<Rightarrow> addr \<Rightarrow> addr \<Rightarrow> bool" where
  "copied_port s s' b p p' \<longleftrightarrow> (\<exists>q. prts s p = Some q \<and> prts s' p' = Some (new_port b (p_name q) None
     (p_attrs q OR PORT_ATTR_CLONED) (p_in_type q) (p_in_data_len q) (p_out_type q) (p_out_data_len q)))"

definition copied_cfg :: "'w ubx \<Rightarrow> 'w ubx \<Rightarrow> addr \<Rightarrow> addr \<Rightarrow> addr \<Rightarrow> bool" where
  "copied_cfg s s' b c c' \<longleftrightarrow> (\<exists>q v. cfgs s c = Some q \<and> cfgs s' c' = Some (new_cfg b (c_name q) None (c_type q)
     (c_min q) (c_max q) (c_attrs q OR CONFIG_ATTR_CLONED) v))"

lemma map_leD: "m \<subseteq>\<^sub>m m' \<Longrightarrow> m x = Some y \<Longrightarrow> m' x = Some y"
  by (metis domI map_le_def)

text \<open>Every value is as before, and so is everything in the node but its blocks and their ports and configs.\<close>

definition kept :: "'w ubx \<Rightarrow> 'w ubx \<Rightarrow> bool" where
  "kept s s' \<longleftrightarrow> dats s \<subseteq>\<^sub>m dats s' \<and> nd_name s' = nd_name s \<and> nd_types s' = nd_types s \<and> nd_modules s' = nd_modules s \<and>
     nd_cur_seqid s' = nd_cur_seqid s \<and> nd_attrs s' = nd_attrs s \<and> nd_loglevel s' = nd_loglevel s \<and> typs s' = typs s \<and>
     mods s' = mods s \<and> static_type s' = static_type s \<and> world s' = world s"

lemma kept_refl [simp]: "kept s s"
  by (simp add: kept_def)

lemma kept_trans: "kept s t \<Longrightarrow> kept t u \<Longrightarrow> kept s u"
  by (auto simp: kept_def intro: map_le_trans)

lemma port_add_t_kept:
  "ubx_port_add_t U b name doc attrs it il ot ol s = Some (r, s') \<Longrightarrow> blks s b = Some blk \<Longrightarrow> kept s s'"
  by (erule port_add_t_cases, assumption) (simp_all add: kept_def)

lemma config_add_t_kept:
  assumes "core_wf s" "blks s b = Some blk" "ubx_config_add_t U b name doc (Some ta) mn mx attrs s = Some (r, s')"
  shows "kept s s'"
proof -
  have "fresh_from (next_addr s) (dats s)" using assms(1) by (auto simp: core_wf_def rc_inv_def)
  then have le: "dats s \<subseteq>\<^sub>m (dats s)(Suc (next_addr s) \<mapsto> x)" for x by (rule fresh_map_le) simp
  from assms(3,2) show ?thesis by (cases rule: config_add_t_cases) (use le in \<open>auto simp: kept_def\<close>)
qed

context ut_laws
begin

lemma clone_ports_copy:
  assumes "core_wf s" "blks s b = Some blk" "\<forall>p \<in> set ps. prts s p \<noteq> None" "clone_ports U b ps s = Some (0, s')"
  shows "\<exists>ps'. blks s' b = Some (blk\<lparr>b_ports := b_ports blk @ ps'\<rparr>) \<and> list_all2 (copied_port s s' b) ps ps' \<and>
    cfgs s' = cfgs s \<and> prts s \<subseteq>\<^sub>m prts s' \<and> kept s s' \<and>
    (\<forall>p. p \<notin> set ps' \<longrightarrow> prts s' p = prts s p) \<and> (\<forall>p \<in> set ps'. prts s p = None)"
  using assms
proof (induction ps arbitrary: s blk)
  case Nil
  then show ?case by (auto intro!: exI [of _ "[]"])
next
  case (Cons p ps)
  let ?a = "next_addr s"
  from Cons.prems(3) obtain q where q: "prts s p = Some q" by auto
  with Cons.prems(4) obtain s1 where s1: "ubx_port_add_t U b (p_name q) None (p_attrs q OR PORT_ATTR_CLONED) (p_in_type q)
      (p_in_data_len q) (p_out_type q) (p_out_data_len q) s = Some (0, s1)" "clone_ports U b ps s1 = Some (0, s')"
    by (auto split: if_splits)
  note bw = core_wfD(3) [OF Cons.prems(1,2)]
  have fr: "fresh_from ?a (prts s)" using Cons.prems(1) by (simp add: core_wf_def)
  then have "?a \<notin> set (b_ports blk)" using bw by (auto simp: blk_wf_def fresh_from_def)
  then have ap: "dl_append U (b_ports blk) ?a = b_ports blk @ [?a]" using bw by (simp add: append_law blk_wf_def)
  let ?np = "new_port b (p_name q) None (p_attrs q OR PORT_ATTR_CLONED) (p_in_type q) (p_in_data_len q) (p_out_type q) (p_out_data_len q)"
  from s1(1) Cons.prems(2) have t: "prts s1 = (prts s)(?a \<mapsto> ?np)" "cfgs s1 = cfgs s"
    "blks s1 b = Some (blk\<lparr>b_ports := b_ports blk @ [?a]\<rparr>)"
    by (cases rule: port_add_t_cases; simp add: ap)+
  have le: "prts s \<subseteq>\<^sub>m prts s1" using fresh_map_le [OF fr order_refl] t(1) by simp
  have live: "\<forall>p \<in> set ps. prts s1 p \<noteq> None" using Cons.prems(3) t(1) by simp
  from port_add_t_wf [OF Cons.prems(1,2) s1(1)] have wf1: "core_wf s1" by blast
  from Cons.IH [OF wf1 t(3) live s1(2)] obtain ps' where
    ps': "blks s' b = Some (blk\<lparr>b_ports := b_ports blk @ ?a # ps'\<rparr>)" "list_all2 (copied_port s1 s' b) ps ps'"
      "cfgs s' = cfgs s" "prts s1 \<subseteq>\<^sub>m prts s'" "kept s1 s'" "\<forall>p. p \<notin> set ps' \<longrightarrow> prts s' p = prts s1 p"
      "\<forall>p \<in> set ps'. prts s1 p = None" using t(2) by auto
  have k: "kept s s'" using kept_trans [OF port_add_t_kept [OF s1(1) Cons.prems(2)] ps'(5)] .
  have off: "\<forall>p. p \<notin> set (?a # ps') \<longrightarrow> prts s' p = prts s p" "\<forall>p \<in> set (?a # ps'). prts s p = None"
    using ps'(6,7) t(1) fr by (auto simp: fresh_from_def split: if_splits)
  have "copied_port s s' b p ?a" using q t(1) map_leD [OF ps'(4), of ?a] by (simp add: copied_port_def)
  moreover have "list_all2 (copied_port s s' b) ps ps'"
    using ps'(2)
  proof (rule list.rel_mono_strong)
    fix x y assume "x \<in> set ps" "copied_port s1 s' b x y"
    moreover from \<open>x \<in> set ps\<close> Cons.prems(3) obtain z where "prts s x = Some z" by auto
    ultimately show "copied_port s s' b x y" using map_leD [OF le] by (auto simp: copied_port_def)
  qed
  ultimately show ?case using ps'(1-4) map_le_trans [OF le ps'(4)] k off by (intro exI [of _ "?a # ps'"]) simp
qed

lemma clone_configs_copy:
  assumes "core_wf s" "blks s b = Some blk" "\<forall>c \<in> set cs. \<exists>cfg. cfgs s c = Some cfg \<and> c_type cfg \<noteq> None"
    "clone_configs U b cs s = Some (0, s')"
  shows "\<exists>cs'. blks s' b = Some (blk\<lparr>b_configs := b_configs blk @ cs'\<rparr>) \<and> list_all2 (copied_cfg s s' b) cs cs' \<and>
    prts s' = prts s \<and> cfgs s \<subseteq>\<^sub>m cfgs s' \<and> kept s s' \<and>
    (\<forall>c. c \<notin> set cs' \<longrightarrow> cfgs s' c = cfgs s c) \<and> (\<forall>c \<in> set cs'. cfgs s c = None)"
  using assms
proof (induction cs arbitrary: s blk)
  case Nil
  then show ?case by (auto intro!: exI [of _ "[]"])
next
  case (Cons c cs)
  let ?a = "next_addr s"
  from Cons.prems(3) obtain q ta where q: "cfgs s c = Some q" "c_type q = Some ta" by auto
  with Cons.prems(4) obtain s1 where s1: "ubx_config_add_t U b (c_name q) None (Some ta) (c_min q) (c_max q)
      (c_attrs q OR CONFIG_ATTR_CLONED) s = Some (0, s1)" "clone_configs U b cs s1 = Some (0, s')"
    by (auto split: if_splits)
  note bw = core_wfD(3) [OF Cons.prems(1,2)]
  have fr: "fresh_from ?a (cfgs s)" using Cons.prems(1) by (auto simp: core_wf_def rc_inv_def)
  then have "?a \<notin> set (b_configs blk)" using bw by (auto simp: blk_wf_def fresh_from_def)
  then have ap: "dl_append U (b_configs blk) ?a = b_configs blk @ [?a]" using bw by (simp add: append_law blk_wf_def)
  let ?nc = "new_cfg b (c_name q) None (Some ta) (c_min q) (c_max q) (c_attrs q OR CONFIG_ATTR_CLONED)"
  from s1(1) Cons.prems(2) obtain v where t: "cfgs s1 = (cfgs s)(?a \<mapsto> ?nc v)" "prts s1 = prts s"
    "blks s1 b = Some (blk\<lparr>b_configs := b_configs blk @ [?a]\<rparr>)"
    by (cases rule: config_add_t_cases) (auto simp: ap)
  have le: "cfgs s \<subseteq>\<^sub>m cfgs s1" using fresh_map_le [OF fr order_refl] t(1) by simp
  have live: "\<forall>c \<in> set cs. \<exists>cfg. cfgs s1 c = Some cfg \<and> c_type cfg \<noteq> None"
    using Cons.prems(3) map_leD [OF le] by fastforce
  from config_add_t_wf [OF Cons.prems(1,2) s1(1)] have wf1: "core_wf s1" by blast
  from Cons.IH [OF wf1 t(3) live s1(2)] obtain cs' where
    cs': "blks s' b = Some (blk\<lparr>b_configs := b_configs blk @ ?a # cs'\<rparr>)" "list_all2 (copied_cfg s1 s' b) cs cs'"
      "prts s' = prts s" "cfgs s1 \<subseteq>\<^sub>m cfgs s'" "kept s1 s'" "\<forall>c. c \<notin> set cs' \<longrightarrow> cfgs s' c = cfgs s1 c"
      "\<forall>c \<in> set cs'. cfgs s1 c = None" using t(2) by auto
  have k: "kept s s'" using kept_trans [OF config_add_t_kept [OF Cons.prems(1,2) s1(1)] cs'(5)] .
  have off: "\<forall>c. c \<notin> set (?a # cs') \<longrightarrow> cfgs s' c = cfgs s c" "\<forall>c \<in> set (?a # cs'). cfgs s c = None"
    using cs'(6,7) t(1) fr by (auto simp: fresh_from_def split: if_splits)
  have "copied_cfg s s' b c ?a" using q t(1) map_leD [OF cs'(4), of ?a] by (auto simp: copied_cfg_def)
  moreover have "list_all2 (copied_cfg s s' b) cs cs'"
    using cs'(2)
  proof (rule list.rel_mono_strong)
    fix x y assume "x \<in> set cs" "copied_cfg s1 s' b x y"
    moreover from \<open>x \<in> set cs\<close> Cons.prems(3) obtain z where "cfgs s x = Some z" by auto
    ultimately show "copied_cfg s s' b x y" using map_leD [OF le] by (auto simp: copied_cfg_def)
  qed
  ultimately show ?case using cs'(1-4) map_le_trans [OF le cs'(4)] k off by (intro exI [of _ "?a # cs'"]) simp
qed

lemma block_clone_copy:
  assumes wf: "core_wf s" and pb: "blks s prot = Some pb" and r: "ubx_block_clone U prot name s = Some (Some a, s')"
  shows "a \<notin> set (elems (nd_blocks s)) \<and> blks s a = None \<and> kept s s' \<and> (\<exists>ps cs.
    (\<forall>p. p \<notin> set ps \<longrightarrow> prts s' p = prts s p) \<and> (\<forall>p \<in> set ps. prts s p = None) \<and>
    (\<forall>c. c \<notin> set cs \<longrightarrow> cfgs s' c = cfgs s c) \<and> (\<forall>c \<in> set cs. cfgs s c = None) \<and>
    blks s' = (blks s)(a \<mapsto> (clone_new prot name pb)\<lparr>b_ports := ps, b_configs := cs\<rparr>) \<and>
    list_all2 (copied_port s s' a) (b_ports pb) ps \<and> list_all2 (copied_cfg s s' a) (b_configs pb) cs)"
proof (cases s rule: calloc_cases)
  case fail
  with r pb show ?thesis by (auto simp: ubx_block_clone_def split: if_splits)
next
  case c: ok
  let ?a = "next_addr s" and ?nb = "clone_new prot name pb"
  let ?s2 = "s\<lparr>next_addr := Suc (next_addr s), oom := tl (oom s), blks := (blks s)(?a \<mapsto> ?nb)\<rparr>"
  have wf2: "core_wf ?s2" using core_wf_new_blk [OF wf, of ?nb "tl (oom s)"] by (simp add: clone_new_def)
  have e: "b_ports ?nb = []" "b_configs ?nb = []" by (simp_all add: clone_new_def)
  note bw = core_wfD(3) [OF wf pb]
  note r = r [unfolded block_clone_do [OF pb c]]
  from r obtain r3 s3 where s3': "clone_configs U ?a (b_configs pb) ?s2 = Some (r3, s3)" by auto
  have "r3 = 0" by (rule ccontr) (use r s3' in auto)
  with s3' have s3: "clone_configs U ?a (b_configs pb) ?s2 = Some (0, s3)" by simp
  from r s3 obtain r4 s4 where s4': "clone_ports U ?a (b_ports pb) s3 = Some (r4, s4)" by auto
  have "r4 = 0" by (rule ccontr) (use r s3 s4' in auto)
  with s4' have s4: "clone_ports U ?a (b_ports pb) s3 = Some (0, s4)" by simp
  from r s3 s4 have a: "a = ?a" "s' = s4" by auto
  have b2: "blks ?s2 ?a = Some ?nb" by simp
  have "\<forall>c \<in> set (b_configs pb). \<exists>cfg. cfgs ?s2 c = Some cfg \<and> c_type cfg \<noteq> None" using bw by (auto simp: blk_wf_def)
  from clone_configs_copy [OF wf2 b2 this s3] clone_configs_wf [OF wf2 b2 this s3] e obtain cs where
    cs: "blks s3 ?a = Some (?nb\<lparr>b_configs := cs\<rparr>)" "list_all2 (copied_cfg ?s2 s3 ?a) (b_configs pb) cs"
    "prts s3 = prts s" "core_wf s3" "grow ?a ?s2 s3" "kept ?s2 s3"
    "\<forall>c. c \<notin> set cs \<longrightarrow> cfgs s3 c = cfgs s c" "\<forall>c \<in> set cs. cfgs s c = None" by auto
  have "\<forall>p \<in> set (b_ports pb). prts s3 p \<noteq> None" using bw cs(3) by (auto simp: blk_wf_def)
  from clone_ports_copy [OF cs(4,1) this s4] clone_ports_wf [OF cs(4,1) s4] e obtain ps where
    ps: "blks s4 ?a = Some (?nb\<lparr>b_configs := cs, b_ports := ps\<rparr>)" "list_all2 (copied_port s3 s4 ?a) (b_ports pb) ps"
    "cfgs s4 = cfgs s3" "grow ?a s3 s4" "kept s3 s4" "\<forall>p. p \<notin> set ps \<longrightarrow> prts s4 p = prts s3 p" "\<forall>p \<in> set ps. prts s3 p = None" by auto
  have "kept s ?s2" by (simp add: kept_def)
  with cs(6) ps(5) have k: "kept s s4" using kept_trans by blast
  have off: "\<forall>p. p \<notin> set ps \<longrightarrow> prts s4 p = prts s p" "\<forall>p \<in> set ps. prts s p = None"
    "\<forall>c. c \<notin> set cs \<longrightarrow> cfgs s4 c = cfgs s c" "\<forall>c \<in> set cs. cfgs s c = None"
    using ps(3,6,7) cs(3,7,8) by auto
  have "blks s4 x = blks s x" if "x \<noteq> ?a" for x using that cs(5) ps(4) by (simp add: grow_def)
  then have "blks s4 = (blks s)(?a \<mapsto> ?nb\<lparr>b_ports := ps, b_configs := cs\<rparr>)" using ps(1) by (auto simp: fun_eq_iff)
  moreover have "list_all2 (copied_port s s4 ?a) (b_ports pb) ps" using ps(2) by (rule list.rel_mono_strong) (simp add: copied_port_def cs(3))
  moreover have "list_all2 (copied_cfg s s4 ?a) (b_configs pb) cs" using cs(2) by (rule list.rel_mono_strong) (simp add: copied_cfg_def ps(3))
  ultimately show ?thesis using fresh_addr [OF wf] a k off by blast
qed

end

lemma block_create_spec:
  assumes U: "ut_laws U" and wf: "core_wf s" and r: "ubx_block_create U type (Some n) s = Some (Some a, s')"
    and n: "length n \<le> 63" and prot: "ubx_block_get U s (Some type) = Some prot" "blks s prot = Some pb"
    and ty: "b_type pb = BLOCK_TYPE_COMPUTATION \<or> b_type pb = BLOCK_TYPE_INTERACTION"
  shows "ubx_block_get U s (Some n) = None \<and>
    (\<forall>m. ubx_block_get U s' (Some m) = (if m = n then Some a else ubx_block_get U s (Some m))) \<and>
    (\<forall>x. x \<noteq> a \<longrightarrow> blks s' x = blks s x) \<and> blks s a = None \<and> kept s s' \<and>
    (\<exists>ps cs. (\<forall>p. p \<notin> set ps \<longrightarrow> prts s' p = prts s p) \<and> (\<forall>p \<in> set ps. prts s p = None) \<and>
     (\<forall>c. c \<notin> set cs \<longrightarrow> cfgs s' c = cfgs s c) \<and> (\<forall>c \<in> set cs. cfgs s c = None) \<and> blks s' a = Some \<lparr>b_name = n, b_meta_data = None, b_attrs = b_attrs pb, b_type = b_type pb,
       b_state = BLOCK_STATE_PREINIT, b_ports = ps, b_configs = cs, b_prototype = Some prot, b_nd = True, b_loglevel = None,
       b_init = b_init pb, b_start = b_start pb, b_stop = b_stop pb, b_cleanup = b_cleanup pb,
       b_ops = clone_ops (b_type pb) (b_ops pb)\<rparr> \<and>
     list_all2 (copied_port s s' a) (b_ports pb) ps \<and> list_all2 (copied_cfg s s' a) (b_configs pb) cs)"
proof -
  have f: "ut_find U (nd_blocks s) type = Some prot" using prot(1) by (simp add: ubx_block_get_def)
  from r f prot(2) have nx: "ut_find U (nd_blocks s) n = None" by (auto simp: ubx_block_create_def split: if_splits)
  from r f prot(2) nx obtain b s1 r2 s2 where s1: "ubx_block_clone U prot n s = Some (Some b, s1)"
    and s2: "block_register_t U b s1 = Some (r2, s2)" and a: "a = b"
      "if r2 \<noteq> 0 then ubx_block_free U b s2 = Some s' else s' = s2"
    by (auto simp: ubx_block_create_def split: option.splits if_splits)
  from ut_laws.block_clone_copy [OF U wf prot(2) s1] obtain ps cs where
    c: "b \<notin> set (elems (nd_blocks s))" "blks s1 = (blks s)(b \<mapsto> (clone_new prot n pb)\<lparr>b_ports := ps, b_configs := cs\<rparr>)"
    "list_all2 (copied_port s s1 b) (b_ports pb) ps" "list_all2 (copied_cfg s s1 b) (b_configs pb) cs"
    "blks s b = None" "kept s s1" and off: "\<forall>p. p \<notin> set ps \<longrightarrow> prts s1 p = prts s p" "\<forall>p \<in> set ps. prts s p = None"
    "\<forall>c. c \<notin> set cs \<longrightarrow> cfgs s1 c = cfgs s c" "\<forall>c \<in> set cs. cfgs s c = None" by blast
  have nb: "nd_blocks s1 = nd_blocks s" using ut_laws.block_clone_wf [OF U wf s1] by blast
  have s2': "s2 = s1\<lparr>nd_blocks := ut_add U (nd_blocks s) n b,
      blks := (blks s1)(b \<mapsto> (clone_new prot n pb)\<lparr>b_ports := ps, b_configs := cs, b_nd := True\<rparr>)\<rparr>" "r2 = 0"
    using s2 c(2) nb nx ty n by (auto simp: block_register_t_def ubx_block_check_def clone_new_def UBX_BLOCK_NAME_MAXLEN_def)
  have s': "s' = s2" using a(2) s2'(2) by simp
  note add = ut_laws.add_ok(2) [OF U core_wfD(1) [OF wf] nx c(1)]
  have "copied_port s s' a = copied_port s s1 b" "copied_cfg s s' a = copied_cfg s s1 b"
    by (simp_all add: s' s2' a(1) copied_port_def copied_cfg_def fun_eq_iff)
  with c(3,4) have "list_all2 (copied_port s s' a) (b_ports pb) ps" "list_all2 (copied_cfg s s' a) (b_configs pb) cs"
    by simp_all
  moreover have "kept s s'" using c(6) by (simp add: s' s2' kept_def)
  moreover have "prts s' = prts s1" "cfgs s' = cfgs s1" by (simp_all add: s' s2')
  ultimately show ?thesis using nx add c(2,5) n off
    by (intro conjI exI [of _ ps] exI [of _ cs])
      (auto simp: s' s2' a(1) ubx_block_get_def clone_new_def UBX_BLOCK_NAME_MAXLEN_def)
qed

section \<open>Properties\<close>

text \<open>C2: the invariant of the core holds in every state that any sequence of operations reaches, successful or not, with
  allocation failing at any point: registering, creating, removing and unregistering blocks, adding and removing ports and
  configs, assigning values, connecting, and the life cycle with hooks that keep the invariant. In particular a name in the
  block table denotes a live block of that name, whose ports and configs are live, distinct and its own, and no value that a
  config refers to is freed.\<close>

theorem core_invariant:
  assumes "ut_laws U" "wf_hooks H" "(core_step U H)\<^sup>*\<^sup>* s0 s" "core_wf s0"
  shows "core_wf s \<and> (\<forall>n a. ubx_block_get U s (Some n) = Some a \<longrightarrow>
    (\<exists>blk. blks s a = Some blk \<and> b_name blk = n \<and> blk_wf (prts s) (cfgs s) a blk \<and>
       (\<forall>c \<in> set (b_configs blk). \<forall>cfg d. cfgs s c = Some cfg \<longrightarrow> c_value cfg = Some d \<longrightarrow> dats s d \<noteq> None)))"
proof -
  from assms(3,4) have wf: "core_wf s"
    by (induction rule: rtranclp_induct) (auto intro: core_step_wf [OF assms(1,2)])
  then obtain ext where rc: "rc_inv s ext" by (auto simp: core_wf_def)
  have live: "dats s d \<noteq> None" if "cfgs s c = Some cfg" "c_value cfg = Some d" for c cfg d
  proof -
    have "0 < nrefs (cfgs s) ext d" using rc that by (intro nrefs_pos [where c = c]) (auto simp: rc_inv_def)
    moreover have "rc_fun (dats s) (nrefs (cfgs s) ext)" using rc by (simp add: rc_inv_def)
    ultimately show ?thesis using rc_fun_live by blast
  qed
  have "\<exists>blk. blks s a = Some blk \<and> b_name blk = n \<and> blk_wf (prts s) (cfgs s) a blk"
    if "ubx_block_get U s (Some n) = Some a" for n a
  proof -
    from that have "(n, a) \<in> set (nd_blocks s)"
      using ut_laws.find_iff [OF assms(1) core_wfD(1) [OF wf]] by (simp add: ubx_block_get_def)
    with core_wfD(2,3) [OF wf] show ?thesis by blast
  qed
  with wf live show ?thesis by blast
qed

theorem core_invariant_witness:
  "\<exists>s'. ubx_block_stop (trace_hooks (\<lambda>_. 0)) (Some 11) busy_node = Some (0, s') \<and> core_wf s'"
proof -
  obtain s' where s': "ubx_block_stop (trace_hooks (\<lambda>_. 0)) (Some 11) busy_node = Some (0, s')"
    by (simp add: ubx_block_stop_def busy_node_def inst_blk_def hooked_blk_def mk_blk_def trace_hooks_def Let_def emit_def
        set_state_def upd_blk_def)
  then have "(core_step ut_ref (trace_hooks (\<lambda>_. 0)))\<^sup>*\<^sup>* busy_node s'"
    by (intro r_into_rtranclp core_step.stop)
  from core_invariant [OF ref.ut_laws_axioms traced.wf_hooks_axioms [where pol = "\<lambda>_. 0"] this busy_node_wf(1)] s'
  show ?thesis by blast
qed

text \<open>C7: when \<open>ubx_block_create\<close> returns a block for a name that fits, of a prototype with a valid block type, the block
  is found under its name and nothing else in the table changes; it is an inactive (preinit) instance of the prototype with
  its hooks and a zero step counter, and has a copy of each port and config of the prototype, in order, marked as cloned. These
  are new objects; all other blocks, ports and configs, in particular those of the prototype, all values, types and
  modules and the rest of the node are as before.\<close>

theorem ubx_block_create_correct:
  assumes U: "ut_laws U" and wf: "core_wf s" and r: "ubx_block_create U type (Some n) s = Some (Some a, s')"
    and n: "length n \<le> 63" and prot: "ubx_block_get U s (Some type) = Some prot" "blks s prot = Some pb"
    and ty: "b_type pb = BLOCK_TYPE_COMPUTATION \<or> b_type pb = BLOCK_TYPE_INTERACTION"
  shows "ubx_block_get U s (Some n) = None \<and>
    (\<forall>m. ubx_block_get U s' (Some m) = (if m = n then Some a else ubx_block_get U s (Some m))) \<and>
    (\<forall>x. x \<noteq> a \<longrightarrow> blks s' x = blks s x) \<and> blks s a = None \<and> kept s s' \<and>
    (\<exists>ps cs. (\<forall>p. p \<notin> set ps \<longrightarrow> prts s' p = prts s p) \<and> (\<forall>p \<in> set ps. prts s p = None) \<and>
     (\<forall>c. c \<notin> set cs \<longrightarrow> cfgs s' c = cfgs s c) \<and> (\<forall>c \<in> set cs. cfgs s c = None) \<and> blks s' a = Some \<lparr>b_name = n, b_meta_data = None, b_attrs = b_attrs pb, b_type = b_type pb,
       b_state = BLOCK_STATE_PREINIT, b_ports = ps, b_configs = cs, b_prototype = Some prot, b_nd = True, b_loglevel = None,
       b_init = b_init pb, b_start = b_start pb, b_stop = b_stop pb, b_cleanup = b_cleanup pb,
       b_ops = clone_ops (b_type pb) (b_ops pb)\<rparr> \<and>
     list_all2 (copied_port s s' a) (b_ports pb) ps \<and> list_all2 (copied_cfg s s' a) (b_configs pb) cs)"
  using assms by (rule block_create_spec)

theorem ubx_block_create_correct_witness:
  "\<exists>s'. ubx_block_create ut_ref ''b'' (Some ''new'') busy_node = Some (Some 100, s') \<and>
     ubx_block_get ut_ref s' (Some ''new'') = Some 100 \<and> ubx_block_get ut_ref s' (Some ''i'') = Some 11"
proof -
  obtain s' where s': "ubx_block_create ut_ref ''b'' (Some ''new'') busy_node = Some (Some 100, s')"
    by (simp add: ubx_block_create_def busy_node_def trace_node_def hooked_blk_def mk_blk_def ubx_block_clone_def calloc_def
        clone_new_def block_register_t_def ubx_block_check_def UBX_BLOCK_NAME_MAXLEN_def BLOCK_TYPE_COMPUTATION_def)
  have p: "ubx_block_get ut_ref busy_node (Some ''b'') = Some 10" "blks busy_node 10 = Some (hooked_blk\<lparr>b_prototype := None\<rparr>)"
    "ubx_block_get ut_ref busy_node (Some ''i'') = Some 11"
    by (simp_all add: busy_node_def ubx_block_get_def)
  from ubx_block_create_correct [OF ref.ut_laws_axioms busy_node_wf(1) s' _ p(1,2)] s' p(3)
  show ?thesis by (simp add: hooked_blk_def mk_blk_def BLOCK_TYPE_COMPUTATION_def)
qed

text \<open>C40: a name that is too long is silently cut to 63 characters. If a block with the shortened name exists, then, whenever
  cloning the prototype succeeds, registering the new block fails and frees it, but \<open>ubx_block_create\<close> returns the pointer
  to it all the same: the caller gets a pointer to freed memory instead of NULL, and the table is as before.\<close>

theorem ubx_block_create_dangling:
  assumes U: "ut_laws U" and wf: "core_wf s" and prot: "ubx_block_get U s (Some type) = Some prot"
    and clone: "ubx_block_clone U prot n s = Some (Some b, s1)"
    and long: "ubx_block_get U s (Some n) = None" "ubx_block_get U s (Some (take 63 n)) \<noteq> None"
  shows "\<exists>s'. ubx_block_create U type (Some n) s = Some (Some b, s') \<and> blks s' b = None \<and> nd_blocks s' = nd_blocks s"
proof -
  from clone obtain pb where pb: "blks s prot = Some pb" by (auto simp: ubx_block_clone_def)
  note w1 = ut_laws.block_clone_wf [OF U wf clone]
  from ut_laws.block_clone_copy [OF U wf pb clone] obtain ps cs where
    c: "blks s1 = (blks s)(b \<mapsto> (clone_new prot n pb)\<lparr>b_ports := ps, b_configs := cs\<rparr>)" by blast
  have reg: "block_register_t U b s1 = Some (- 1, s1)"
    using c w1 long(2) by (auto simp: block_register_t_def ubx_block_check_def clone_new_def strncpy_def
        UBX_BLOCK_NAME_MAXLEN_def ubx_block_get_def)
  from c have "blks s1 b \<noteq> None" by simp
  then obtain bb where bb: "blks s1 b = Some bb" by blast
  from w1 have na: "core_wf s1" "b \<notin> set (elems (nd_blocks s1))" by auto
  from ut_laws.block_free_wf [OF U na(1) bb na(2)] obtain s' where
    s': "ubx_block_free U b s1 = Some s'" "heap_only s1 s'" "blks s' = (blks s1)(b := None)" by blast
  from clone reg s'(1) prot long(1) pb have "ubx_block_create U type (Some n) s = Some (Some b, s')"
    by (simp add: ubx_block_create_def ubx_block_get_def)
  with s' w1 show ?thesis by (auto dest: heap_onlyD(1))
qed

definition long_name :: string where "long_name = replicate 64 (CHR ''a'')"

definition long_node :: "trace ubx" where
  "long_node = trace_node\<lparr>nd_blocks := [(''b'', 10), (take 63 long_name, 11)],
     blks := [10 \<mapsto> hooked_blk, 11 \<mapsto> inst_blk (take 63 long_name) BLOCK_STATE_PREINIT]\<rparr>"

lemma long_node_wf: "core_wf long_node"
proof -
  have b: "b_ports hooked_blk = []" "b_configs hooked_blk = []" "b_name hooked_blk = ''b''"
    by (simp_all add: hooked_blk_def mk_blk_def)
  have ln: "take 63 long_name \<noteq> ''b''" by (simp add: long_name_def eval_nat_numeral)
  have "rc_inv long_node (\<lambda>_. 0)"
    by (simp add: rc_inv_def long_node_def trace_node_def fresh_from_def rc_fun_def no_dangling_def nrefs_def vrefs_def)
  moreover have "tab_wf (nd_blocks long_node) (blks long_node)"
    using ln by (auto simp: tab_wf_def long_node_def htab_ok_def keys_def elems_def inst_blk_def b)
  moreover have "blk_wf P C a blk" if "blks long_node a = Some blk" for P C a blk
    using that b by (auto simp: long_node_def blk_wf_def inst_blk_def split: if_splits)
  ultimately show ?thesis by (auto simp: core_wf_def long_node_def trace_node_def fresh_from_def)
qed

theorem ubx_block_create_dangling_witness:
  "\<exists>s'. ubx_block_create ut_ref ''b'' (Some long_name) long_node = Some (Some 100, s') \<and> blks s' 100 = None"
proof -
  have ln: "take 63 long_name \<noteq> ''b''" "long_name \<noteq> ''b''" "long_name \<noteq> take 63 long_name"
    by (simp_all add: long_name_def eval_nat_numeral)
  obtain s1 where s1: "ubx_block_clone ut_ref 10 long_name long_node = Some (Some 100, s1)"
    by (simp add: long_node_def trace_node_def hooked_blk_def mk_blk_def ubx_block_clone_def calloc_def clone_new_def)
  have p: "ubx_block_get ut_ref long_node (Some ''b'') = Some 10" "ubx_block_get ut_ref long_node (Some long_name) = None"
    "ubx_block_get ut_ref long_node (Some (take 63 long_name)) \<noteq> None"
    using ln by (simp_all add: long_node_def ubx_block_get_def)
  from ubx_block_create_dangling [OF ref.ut_laws_axioms long_node_wf p(1) s1 p(2,3)] show ?thesis by blast
qed

end
