(* ===== verification/Ubx_Rw.thy ===== *)
theory Ubx_Rw
  imports Ubx_Core
begin

text \<open>
  Reading and writing ports, \<open>__port_read\<close> and \<open>__port_write\<close> of \<^verbatim>\<open>libubx/ubx.c\<close>, and the typed
  accessors that \<^verbatim>\<open>libubx/typemacros.h\<close> generates per type. Data goes through the interaction blocks a port
  is connected to: a write is passed to every active one, a read asks them in turn until one has data.
\<close>

section \<open>Reading and writing\<close>

text \<open>The hooks return \<open>long\<close>, but \<open>__port_read\<close> keeps the result in an \<open>int\<close>.\<close>

definition c_int :: "int \<Rightarrow> int" where
  "c_int r = sint (word_of_int r :: 32 word)"

text \<open>A step of the two statistics counters of an interaction block.\<close>

definition count_read :: "addr \<Rightarrow> 'w ubx \<Rightarrow> 'w ubx option" where
  "count_read ib s = do {
     blk \<leftarrow> blks s ib;
     case b_ops blk of
       Ops_inter rd wr nr nw \<Rightarrow> Some (s\<lparr>blks := (blks s)(ib \<mapsto> blk\<lparr>b_ops := Ops_inter rd wr (nr + 1) nw\<rparr>)\<rparr>)
     | _ \<Rightarrow> None }"

definition count_write :: "addr \<Rightarrow> 'w ubx \<Rightarrow> 'w ubx option" where
  "count_write ib s = do {
     blk \<leftarrow> blks s ib;
     case b_ops blk of
       Ops_inter rd wr nr nw \<Rightarrow> Some (s\<lparr>blks := (blks s)(ib \<mapsto> blk\<lparr>b_ops := Ops_inter rd wr nr (nw + 1)\<rparr>)\<rparr>)
     | _ \<Rightarrow> None }"

definition read_fun :: "ubx_block \<Rightarrow> fptr option" where
  "read_fun blk = (case b_ops blk of Ops_inter rd _ _ _ \<Rightarrow> rd | _ \<Rightarrow> None)"

definition write_fun :: "ubx_block \<Rightarrow> fptr option" where
  "write_fun blk = (case b_ops blk of Ops_inter _ wr _ _ \<Rightarrow> wr | _ \<Rightarrow> None)"

text \<open>
  The loops over the NULL-terminated arrays. \<open>iaptr\<close> points into the array while the hooks run: if a hook changes the
  connections of the port, the array may have moved under the loop. The model gives such an execution no meaning
  (\<open>None\<close>).
\<close>

fun read_loop :: "'w hooks \<Rightarrow> addr \<Rightarrow> addr \<Rightarrow> addr list \<Rightarrow> int \<Rightarrow> 'w ubx \<Rightarrow> (int \<times> 'w ubx) option" where
  "read_loop H p d [] ret s = Some (ret, s)"
| "read_loop H p d (ib # ibs) ret s = do {
     blk \<leftarrow> blks s ib;
     if b_state blk = BLOCK_STATE_ACTIVE then do {
       f \<leftarrow> read_fun blk;
       port \<leftarrow> prts s p;
       (r, s) \<leftarrow> hk_read H f ib d s;
       if c_int r > 0 then do { s \<leftarrow> count_read ib s; Some (c_int r, s) }
       else if map_option p_in_interaction (prts s p) \<noteq> Some (p_in_interaction port) then None
       else read_loop H p d ibs (c_int r) s }
     else read_loop H p d ibs ret s }"

definition port_read :: "'w hooks \<Rightarrow> ptr \<Rightarrow> ptr \<Rightarrow> 'w ubx \<Rightarrow> (int \<times> 'w ubx) option" where
  "port_read H port data s =
     (case port of
        None \<Rightarrow> Some (EINVALID_PORT, s)
      | Some p \<Rightarrow>
     (case data of
        None \<Rightarrow> Some (EINVALID_ARG, s)
      | Some d \<Rightarrow> do {
          dat \<leftarrow> dats s d;
          if d_len dat \<le> 0 then Some (EINVALID_ARG, s)
          else do {
            prt \<leftarrow> prts s p;
            if \<not> port_is_in prt then Some (EINVALID_PORT_DIR, s)
            else if p_in_type prt \<noteq> d_type dat then do {
              blk \<leftarrow> blks s (p_block prt);
              _ \<leftarrow> ubx_block_log blk s;
              Some (ETYPE_MISMATCH, s) }
            else (case p_in_interaction prt of
                None \<Rightarrow> Some (0, s)
              | Some ibs \<Rightarrow> read_loop H p d ibs 0 s) } }))"

fun write_loop :: "'w hooks \<Rightarrow> addr \<Rightarrow> addr \<Rightarrow> addr list \<Rightarrow> 'w ubx \<Rightarrow> 'w ubx option" where
  "write_loop H p d [] s = Some s"
| "write_loop H p d (ib # ibs) s = do {
     blk \<leftarrow> blks s ib;
     if b_state blk = BLOCK_STATE_ACTIVE then do {
       f \<leftarrow> write_fun blk;
       port \<leftarrow> prts s p;
       s \<leftarrow> hk_write H f ib d s;
       s \<leftarrow> count_write ib s;
       if map_option p_out_interaction (prts s p) \<noteq> Some (p_out_interaction port) then None
       else write_loop H p d ibs s }
     else write_loop H p d ibs s }"

definition port_write :: "'w hooks \<Rightarrow> ptr \<Rightarrow> addr \<Rightarrow> 'w ubx \<Rightarrow> 'w ubx option" where
  "port_write H port d s =
     (case port of
        None \<Rightarrow> Some s
      | Some p \<Rightarrow> do {
          prt \<leftarrow> prts s p;
          if \<not> port_is_out prt then do {
            blk \<leftarrow> blks s (p_block prt); _ \<leftarrow> ubx_block_log blk s; Some s }
          else do {
            dat \<leftarrow> dats s d;
            if p_out_type prt \<noteq> d_type dat then do {
              blk \<leftarrow> blks s (p_block prt); _ \<leftarrow> ubx_block_log blk s; Some s }
            else (case p_out_interaction prt of
                None \<Rightarrow> Some s
              | Some ibs \<Rightarrow> write_loop H p d ibs s) } })"

section \<open>The generated accessors\<close>

text \<open>
  \<open>fn\<close> is the name of the generated function, \<open>tn\<close> the name of its type: every function has a static type pointer of its
  own. The \<open>ubx_data_t\<close> the accessors pass down is a local variable whose data pointer is the caller's buffer: the model
  gives it a fresh address for the duration of the call. (Its reference count is uninitialised in C; no operation on a port
  reads it.) Besides the return value a reader returns the contents of the buffer.
\<close>

definition local_data :: "ptr \<Rightarrow> int \<Rightarrow> u8 list \<Rightarrow> ubx_data" where
  "local_data ty len bs = \<lparr>d_refcnt = 0, d_type = ty, d_len = len, d_data = Buf bs\<rparr>"

definition set_static :: "string \<Rightarrow> ptr \<Rightarrow> 'w ubx \<Rightarrow> 'w ubx" where
  "set_static fn t s = s\<lparr>static_type := (static_type s)(fn := t)\<rparr>"

text \<open>The first checks, shared by readers and writers: the type of the port against the static or looked-up type.\<close>

definition acc_type :: "ut_lib \<Rightarrow> string \<Rightarrow> string \<Rightarrow> addr \<Rightarrow> ptr \<Rightarrow> 'w ubx \<Rightarrow> (int \<times> 'w ubx) option" where
  "acc_type U fn tn b pty s =
     (if pty = static_type s fn then Some (0, s)
      else do {
        blk \<leftarrow> blks s b;
        if \<not> b_nd blk then None
        else (case ubx_type_get U s (Some tn) of
            None \<Rightarrow> do { _ \<leftarrow> ubx_block_log blk s; Some (EINVALID_TYPE, set_static fn None s) }
          | Some t \<Rightarrow>
              if pty \<noteq> Some t then do { _ \<leftarrow> ubx_block_log blk s; Some (ETYPE_MISMATCH, set_static fn (Some t) s) }
              else Some (0, set_static fn (Some t) s)) })"

definition read_array ::
  "ut_lib \<Rightarrow> 'w hooks \<Rightarrow> string \<Rightarrow> string \<Rightarrow> ptr \<Rightarrow> u8 list \<Rightarrow> int \<Rightarrow> 'w ubx \<Rightarrow> (int \<times> u8 list \<times> 'w ubx) option" where
  "read_array U H fn tn port val len s =
     (case port of
        None \<Rightarrow> Some (EINVALID_PORT, val, s)
      | Some p \<Rightarrow> do {
          prt \<leftarrow> prts s p;
          blk \<leftarrow> blks s (p_block prt);
          if p_in_type prt = None then do { _ \<leftarrow> ubx_block_log blk s; Some (EINVALID_PORT_DIR, val, s) }
          else do {
            (chk, s) \<leftarrow> acc_type U fn tn (p_block prt) (p_in_type prt) s;
            if chk \<noteq> 0 then Some (chk, val, s)
            else if len > p_in_data_len prt
            then do { _ \<leftarrow> ubx_block_log blk s; Some (EINVALID_DATA_LEN, val, s) }
            else do {
              let d = next_addr s;
              let s = s\<lparr>next_addr := Suc d, dats := (dats s)(d \<mapsto> local_data (static_type s fn) len val)\<rparr>;
              (ret, s) \<leftarrow> port_read H port (Some d) s;
              dat \<leftarrow> dats s d;
              bs \<leftarrow> (case d_data dat of Buf bs \<Rightarrow> Some bs | _ \<Rightarrow> None);
              Some (ret, bs, s\<lparr>dats := (dats s)(d := None)\<rparr>) } } })"

definition write_array ::
  "ut_lib \<Rightarrow> 'w hooks \<Rightarrow> string \<Rightarrow> string \<Rightarrow> ptr \<Rightarrow> u8 list \<Rightarrow> int \<Rightarrow> 'w ubx \<Rightarrow> (int \<times> 'w ubx) option" where
  "write_array U H fn tn port val len s =
     (case port of
        None \<Rightarrow> Some (EINVALID_PORT, s)
      | Some p \<Rightarrow> do {
          prt \<leftarrow> prts s p;
          blk \<leftarrow> blks s (p_block prt);
          if p_out_type prt = None then do { _ \<leftarrow> ubx_block_log blk s; Some (EINVALID_PORT_DIR, s) }
          else do {
            (chk, s) \<leftarrow> acc_type U fn tn (p_block prt) (p_out_type prt) s;
            if chk \<noteq> 0 then Some (chk, s)
            else if len > p_out_data_len prt
            then do { _ \<leftarrow> ubx_block_log blk s; Some (EINVALID_DATA_LEN, s) }
            else do {
              let d = next_addr s;
              let s = s\<lparr>next_addr := Suc d, dats := (dats s)(d \<mapsto> local_data (static_type s fn) len val)\<rparr>;
              s \<leftarrow> port_write H port d s;
              Some (0, s\<lparr>dats := (dats s)(d := None)\<rparr>) } } })"

text \<open>The types \<^verbatim>\<open>libubx/accessors.c\<close> instantiates the accessors for, by suffix.\<close>

definition accessor_types :: "(string \<times> string) list" where
  "accessor_types = [(''char'', ''char''), (''int'', ''int''), (''uint'', ''unsigned int''), (''long'', ''long''),
     (''ulong'', ''unsigned long''), (''uint8'', ''uint8_t''), (''uint16'', ''uint16_t''), (''uint32'', ''uint32_t''),
     (''uint64'', ''uint64_t''), (''int8'', ''int8_t''), (''int16'', ''int16_t''), (''int32'', ''int32_t''),
     (''int64'', ''int64_t''), (''size_t'', ''size_t''), (''float'', ''float''), (''double'', ''double'')]"

text \<open>\<open>read_SUFFIX\<close>, \<open>write_SUFFIX\<close> and \<open>cfg_getptr_SUFFIX\<close>.\<close>

definition read_one :: "ut_lib \<Rightarrow> 'w hooks \<Rightarrow> string \<Rightarrow> ptr \<Rightarrow> u8 list \<Rightarrow> 'w ubx \<Rightarrow> (int \<times> u8 list \<times> 'w ubx) option" where
  "read_one U H suf port val s = do {
     tn \<leftarrow> map_of accessor_types suf; read_array U H (''read_'' @ suf) tn port val 1 s }"

definition write_one :: "ut_lib \<Rightarrow> 'w hooks \<Rightarrow> string \<Rightarrow> ptr \<Rightarrow> u8 list \<Rightarrow> 'w ubx \<Rightarrow> (int \<times> 'w ubx) option" where
  "write_one U H suf port val s = do {
     tn \<leftarrow> map_of accessor_types suf; write_array U H (''write_'' @ suf) tn port val 1 s }"

definition getptr :: "ut_lib \<Rightarrow> string \<Rightarrow> string \<Rightarrow> addr \<Rightarrow> string \<Rightarrow> 'w ubx \<Rightarrow> (int \<times> ptr \<times> 'w ubx) option" where
  "getptr U suf tn b name s = do {
     (len, p, k) \<leftarrow> cfg_getptr U tn (static_type s (''cfg_getptr_'' @ suf)) (Some b) (Some name) s;
     Some (len, p, set_static (''cfg_getptr_'' @ suf) k s) }"

text \<open>Reading a C value through a pointer to a data buffer.\<close>

definition le_word :: "u8 list \<Rightarrow> nat" where
  "le_word bs = foldr (\<lambda>b n. unat b + 256 * n) bs 0"

definition load_bytes :: "ptr \<Rightarrow> nat \<Rightarrow> 'w ubx \<Rightarrow> u8 list option" where
  "load_bytes p n s = do {
     d \<leftarrow> p; dat \<leftarrow> dats s d;
     case d_data dat of Buf bs \<Rightarrow> if n \<le> length bs then Some (take n bs) else None | _ \<Rightarrow> None }"

definition load_u32 :: "ptr \<Rightarrow> 'w ubx \<Rightarrow> int option" where
  "load_u32 p s = map_option (\<lambda>bs. int (le_word bs)) (load_bytes p 4 s)"

definition load_int :: "ptr \<Rightarrow> 'w ubx \<Rightarrow> int option" where
  "load_int p s = map_option (\<lambda>bs. c_int (int (le_word bs))) (load_bytes p 4 s)"

definition load_u64 :: "ptr \<Rightarrow> 'w ubx \<Rightarrow> u64 option" where
  "load_u64 p s = map_option (\<lambda>bs. of_nat (le_word bs)) (load_bytes p 8 s)"

definition load_long :: "ptr \<Rightarrow> 'w ubx \<Rightarrow> int option" where
  "load_long p s = map_option sint (load_u64 p s)"

text \<open>A string: the bytes before the first NUL, which must be inside the buffer.\<close>

definition load_string :: "ptr \<Rightarrow> 'w ubx \<Rightarrow> string option" where
  "load_string p s = do {
     d \<leftarrow> p; dat \<leftarrow> dats s d;
     case d_data dat of
       Buf bs \<Rightarrow> if 0 \<in> set bs then Some (map (\<lambda>b. char_of (unat b)) (takeWhile (\<lambda>b. b \<noteq> 0) bs)) else None
     | _ \<Rightarrow> None }"

section \<open>The contract of interaction blocks\<close>

text \<open>Only the statistics of blocks changed, and memory that was allocated.\<close>

definition stat_frame :: "'w ubx \<Rightarrow> 'w ubx \<Rightarrow> bool" where
  "stat_frame s s' \<longleftrightarrow> prts s' = prts s \<and> cfgs s' = cfgs s \<and> typs s' = typs s \<and> nd_blocks s' = nd_blocks s \<and>
     nd_types s' = nd_types s \<and> next_addr s \<le> next_addr s' \<and>
     (\<forall>a. blks s' a = blks s a \<or> (\<exists>blk rd wr nr nw nr' nw'. blks s a = Some blk \<and> b_ops blk = Ops_inter rd wr nr nw \<and>
        blks s' a = Some (blk\<lparr>b_ops := Ops_inter rd wr nr' nw'\<rparr>)))"

text \<open>What the framework itself relies on: fresh addresses are unused, blocks can log, and ports belong to a block.\<close>

definition node_ok :: "'w ubx \<Rightarrow> bool" where
  "node_ok s \<longleftrightarrow> fresh_from (next_addr s) (dats s) \<and>
     (\<forall>a blk. blks s a = Some blk \<longrightarrow> b_nd blk \<and> (\<forall>d. b_loglevel blk = Some d \<longrightarrow> dats s d \<noteq> None)) \<and>
     (\<forall>p prt. prts s p = Some prt \<longrightarrow> blks s (p_block prt) \<noteq> None)"

text \<open>
  What a port relies on when it passes samples to the iblocks \<open>own\<close>: in states that satisfy \<open>iok\<close>, for samples
  that fit, reading and writing are defined, are functions \<open>rd\<close> and \<open>wr\<close> of the sample and of the private data of
  the iblocks (the world), keep the frame and the invariant, and reading keeps the sample a fitting one.
\<close>

locale io_hooks =
  fixes H :: "'w hooks" and own :: "addr set" and iok :: "'w ubx \<Rightarrow> bool" and fits :: "ubx_data \<Rightarrow> bool"
    and rd :: "addr \<Rightarrow> ubx_data \<Rightarrow> 'w \<Rightarrow> int \<times> ubx_data \<times> 'w"
    and wr :: "addr \<Rightarrow> ubx_data \<Rightarrow> 'w \<Rightarrow> 'w"
  assumes inv_node: "iok s \<Longrightarrow> node_ok s"
    and inv_frame: "iok s \<Longrightarrow> stat_frame s s' \<Longrightarrow> node_ok s' \<Longrightarrow> world s' = world s \<Longrightarrow> iok s'"
    and io_block: "iok s \<Longrightarrow> ib \<in> own \<Longrightarrow> \<exists>blk f g. blks s ib = Some blk \<and> read_fun blk = Some f \<and> write_fun blk = Some g"
    and read_law: "iok s \<Longrightarrow> ib \<in> own \<Longrightarrow> dats s d = Some dat \<Longrightarrow> fits dat \<Longrightarrow> blks s ib = Some blk \<Longrightarrow> read_fun blk = Some f \<Longrightarrow>
      rd ib dat (world s) = (r, dat', w') \<Longrightarrow>
      \<exists>s'. hk_read H f ib d s = Some (r, s') \<and> stat_frame s s' \<and> dats s' = (dats s)(d \<mapsto> dat') \<and> world s' = w' \<and> iok s' \<and> fits dat'"
    and write_law: "iok s \<Longrightarrow> ib \<in> own \<Longrightarrow> dats s d = Some dat \<Longrightarrow> fits dat \<Longrightarrow> blks s ib = Some blk \<Longrightarrow> write_fun blk = Some f \<Longrightarrow>
      \<exists>s'. hk_write H f ib d s = Some s' \<and> stat_frame s s' \<and> dats s' = dats s \<and> world s' = wr ib dat (world s) \<and> iok s'"

text \<open>The active iblocks of an array.\<close>

definition active :: "'w ubx \<Rightarrow> addr list \<Rightarrow> addr list" where
  "active s ibs = filter (\<lambda>ib. map_option b_state (blks s ib) = Some BLOCK_STATE_ACTIVE) ibs"

text \<open>Asking iblocks in turn, as a function of the sample and the world.\<close>

type_synonym 'w reader = "addr \<Rightarrow> ubx_data \<Rightarrow> 'w \<Rightarrow> int \<times> ubx_data \<times> 'w"

fun ask :: "'w reader \<Rightarrow> addr list \<Rightarrow> int \<Rightarrow> ubx_data \<Rightarrow> 'w \<Rightarrow> int \<times> ubx_data \<times> 'w" where
  "ask rd [] ret dat w = (ret, dat, w)"
| "ask rd (ib # A) ret dat w =
     (case rd ib dat w of (r, dat, w) \<Rightarrow> if c_int r > 0 then (c_int r, dat, w) else ask rd A (c_int r) dat w)"

text \<open>The sample and the world after the first \<open>k\<close> iblocks were asked, and what iblock \<open>j\<close> answers when those before it
  were.\<close>

fun asked :: "'w reader \<Rightarrow> addr list \<Rightarrow> nat \<Rightarrow> ubx_data \<Rightarrow> 'w \<Rightarrow> ubx_data \<times> 'w" where
  "asked rd [] k dat w = (dat, w)"
| "asked rd (ib # A) 0 dat w = (dat, w)"
| "asked rd (ib # A) (Suc k) dat w = (case rd ib dat w of (_, dat, w) \<Rightarrow> asked rd A k dat w)"

definition answer :: "'w reader \<Rightarrow> addr list \<Rightarrow> nat \<Rightarrow> ubx_data \<Rightarrow> 'w \<Rightarrow> int" where
  "answer rd A j dat w = (case asked rd A j dat w of (dat, w) \<Rightarrow> c_int (fst (rd (A ! j) dat w)))"

lemma answer_0: "answer rd (ib # A) 0 dat w = c_int (fst (rd ib dat w))"
  by (simp add: answer_def)

lemma answer_Suc: "rd ib dat w = (r, dat', w') \<Longrightarrow> answer rd (ib # A) (Suc j) dat w = answer rd A j dat' w'"
  by (simp add: answer_def)

lemma asked_0 [simp]: "asked rd A 0 dat w = (dat, w)"
  by (cases A) auto

lemma ask_spec:
  assumes "ask rd A ret dat w = (r, dat', w')"
  shows "\<exists>k \<le> length A. (dat', w') = asked rd A k dat w \<and> (\<forall>j < k. 0 < answer rd A j dat w \<longrightarrow> j = k - 1) \<and>
    (if k = 0 then r = ret else r = answer rd A (k - 1) dat w) \<and> (k < length A \<longrightarrow> 0 < r)"
  using assms
proof (induction A arbitrary: ret dat w)
  case (Cons ib A)
  obtain q d1 w1 where q: "rd ib dat w = (q, d1, w1)" by (metis prod_cases3)
  show ?case
  proof (cases "c_int q > 0")
    case True
    with Cons.prems q show ?thesis by (intro exI [of _ 1]) (simp add: answer_0)
  next
    case False
    with Cons.prems q have "ask rd A (c_int q) d1 w1 = (r, dat', w')" by simp
    from Cons.IH [OF this] obtain k where k: "k \<le> length A" "(dat', w') = asked rd A k d1 w1"
      "\<forall>j < k. 0 < answer rd A j d1 w1 \<longrightarrow> j = k - 1"
      "if k = 0 then r = c_int q else r = answer rd A (k - 1) d1 w1" "k < length A \<longrightarrow> 0 < r" by blast
    have "\<forall>j < Suc k. 0 < answer rd (ib # A) j dat w \<longrightarrow> j = Suc k - 1"
    proof (intro allI impI)
      fix j assume j: "j < Suc k" "0 < answer rd (ib # A) j dat w"
      then show "j = Suc k - 1"
        using False k(3) q by (cases j) (auto simp: answer_0 answer_Suc)
    qed
    moreover have "r = answer rd (ib # A) (Suc k - 1) dat w"
      using k(4) q by (cases k) (auto simp: answer_0 answer_Suc)
    ultimately show ?thesis using k(1,2,5) q by (intro exI [of _ "Suc k"]) simp
  qed
qed simp

lemma stat_frame_refl [simp]: "stat_frame s s"
  by (simp add: stat_frame_def)

lemma stat_frame_trans:
  assumes "stat_frame s t" "stat_frame t u"
  shows "stat_frame s u"
  unfolding stat_frame_def
proof (intro conjI allI)
  fix a
  from assms(1) consider "blks t a = blks s a"
    | blk rd wr nr nw nr' nw' where "blks s a = Some blk" "b_ops blk = Ops_inter rd wr nr nw"
        "blks t a = Some (blk\<lparr>b_ops := Ops_inter rd wr nr' nw'\<rparr>)" unfolding stat_frame_def by blast
  then show "blks u a = blks s a \<or> (\<exists>blk rd wr nr nw nr' nw'. blks s a = Some blk \<and> b_ops blk = Ops_inter rd wr nr nw \<and>
        blks u a = Some (blk\<lparr>b_ops := Ops_inter rd wr nr' nw'\<rparr>))"
  proof cases
    case 1
    with assms(2) show ?thesis unfolding stat_frame_def by metis
  next
    case (2 blk rd wr nr nw nr' nw')
    from assms(2) have "blks u a = blks t a \<or> (\<exists>b rd wr nr nw nr' nw'. blks t a = Some b \<and> b_ops b = Ops_inter rd wr nr nw \<and>
        blks u a = Some (b\<lparr>b_ops := Ops_inter rd wr nr' nw'\<rparr>))" by (simp add: stat_frame_def)
    with 2 show ?thesis by auto
  qed
qed (use assms in \<open>simp_all add: stat_frame_def\<close>)

lemma stat_frame_blkD:
  assumes "stat_frame s t"
  shows "blks t a = blks s a \<or> (\<exists>blk rd wr nr nw nr' nw'. blks s a = Some blk \<and> b_ops blk = Ops_inter rd wr nr nw \<and>
        blks t a = Some (blk\<lparr>b_ops := Ops_inter rd wr nr' nw'\<rparr>))"
  using assms unfolding stat_frame_def by blast

lemma stat_frame_block:
  assumes "stat_frame s t"
  shows "map_option b_state (blks t a) = map_option b_state (blks s a)"
    "map_option read_fun (blks t a) = map_option read_fun (blks s a)"
    "map_option write_fun (blks t a) = map_option write_fun (blks s a)"
proof -
  from assms have c: "blks t a = blks s a \<or> (\<exists>blk rd wr nr nw nr' nw'. blks s a = Some blk \<and> b_ops blk = Ops_inter rd wr nr nw \<and>
        blks t a = Some (blk\<lparr>b_ops := Ops_inter rd wr nr' nw'\<rparr>))" by (simp add: stat_frame_def)
  then show "map_option b_state (blks t a) = map_option b_state (blks s a)" by auto
  from c show "map_option read_fun (blks t a) = map_option read_fun (blks s a)" by (auto simp: read_fun_def)
  from c show "map_option write_fun (blks t a) = map_option write_fun (blks s a)" by (auto simp: write_fun_def)
qed

lemma active_Cons:
  "active s (ib # ibs) = (if map_option b_state (blks s ib) = Some BLOCK_STATE_ACTIVE then [ib] else []) @ active s ibs"
  by (simp add: active_def)

lemma active_frame: "stat_frame s t \<Longrightarrow> active t ibs = active s ibs"
  by (simp add: active_def stat_frame_block(1))

lemma stat_frame_upd:
  assumes "blks s ib = Some blk" "b_ops blk = Ops_inter rd wr nr nw"
  shows "stat_frame s (s\<lparr>blks := (blks s)(ib \<mapsto> blk\<lparr>b_ops := Ops_inter rd wr nr' nw'\<rparr>)\<rparr>)"
  unfolding stat_frame_def
proof (intro conjI allI)
  fix a
  show "blks (s\<lparr>blks := (blks s)(ib \<mapsto> blk\<lparr>b_ops := Ops_inter rd wr nr' nw'\<rparr>)\<rparr>) a = blks s a \<or>
    (\<exists>blk' rd' wr' nr nw nr'' nw''. blks s a = Some blk' \<and> b_ops blk' = Ops_inter rd' wr' nr nw \<and>
      blks (s\<lparr>blks := (blks s)(ib \<mapsto> blk\<lparr>b_ops := Ops_inter rd wr nr' nw'\<rparr>)\<rparr>) a = Some (blk'\<lparr>b_ops := Ops_inter rd' wr' nr'' nw''\<rparr>))"
    using assms by (cases "a = ib") auto
qed simp_all

lemma count_write_frame:
  assumes "blks s ib = Some blk" "write_fun blk = Some f"
  shows "\<exists>s'. count_write ib s = Some s' \<and> stat_frame s s' \<and> world s' = world s \<and> dats s' = dats s"
proof -
  from assms(2) obtain rd nr nw where "b_ops blk = Ops_inter rd (Some f) nr nw"
    by (auto simp: write_fun_def split: block_ops.splits)
  with stat_frame_upd [OF assms(1) this, of nr "nw + 1"] assms(1) show ?thesis by (simp add: count_write_def)
qed

lemma count_read_frame:
  assumes "blks s ib = Some blk" "read_fun blk = Some f"
  shows "\<exists>s'. count_read ib s = Some s' \<and> stat_frame s s' \<and> world s' = world s \<and> dats s' = dats s"
proof -
  from assms(2) obtain wr nr nw where "b_ops blk = Ops_inter (Some f) wr nr nw"
    by (auto simp: read_fun_def split: block_ops.splits)
  with stat_frame_upd [OF assms(1) this, of "nr + 1" nw] assms(1) show ?thesis by (simp add: count_read_def)
qed

lemma stat_frame_cases:
  assumes "stat_frame s t" "blks t a = Some b"
  obtains b' where "blks s a = Some b'" "b_nd b = b_nd b'" "b_loglevel b = b_loglevel b'"
proof -
  from stat_frame_blkD [OF assms(1), of a] assms(2) that show ?thesis by fastforce
qed

lemma stat_frame_live:
  assumes "stat_frame s t"
  shows "blks t a = None \<longleftrightarrow> blks s a = None"
proof -
  from stat_frame_blkD [OF assms(1), of a] show ?thesis by auto
qed

lemma node_ok_frame:
  assumes "node_ok s" "stat_frame s t" "dom (dats t) = dom (dats s)"
  shows "node_ok t"
  unfolding node_ok_def
proof (intro conjI allI impI)
  have nx: "next_addr s \<le> next_addr t" "prts t = prts s" using assms(2) by (simp_all add: stat_frame_def)
  have d: "dats t a = None \<longleftrightarrow> dats s a = None" for a using assms(3) by (metis domIff)
  show "fresh_from (next_addr t) (dats t)" using assms(1) nx(1) d by (auto simp: node_ok_def fresh_from_def)
  fix a blk assume b: "blks t a = Some blk"
  from stat_frame_cases [OF assms(2) b] obtain b' where
    b': "blks s a = Some b'" "b_nd blk = b_nd b'" "b_loglevel blk = b_loglevel b'" .
  with assms(1) show "b_nd blk" by (simp add: node_ok_def)
  fix l assume "b_loglevel blk = Some l"
  with assms(1) b' have "dats s l \<noteq> None" by (simp add: node_ok_def)
  with d [of l] show "dats t l \<noteq> None" by blast
next
  fix p prt assume "prts t p = Some prt"
  with assms(1,2) have "blks s (p_block prt) \<noteq> None" by (simp add: node_ok_def stat_frame_def)
  then show "blks t (p_block prt) \<noteq> None" using stat_frame_live [OF assms(2)] by simp
qed

lemma node_ok_log:
  assumes "node_ok s" "blks s a = Some blk"
  shows "b_nd blk" "ubx_block_log blk s = Some ()"
proof -
  from assms have n: "b_nd blk" "\<forall>d. b_loglevel blk = Some d \<longrightarrow> dats s d \<noteq> None" unfolding node_ok_def by blast+
  then show "b_nd blk" by simp
  from n show "ubx_block_log blk s = Some ()" by (cases "b_loglevel blk") (simp_all add: ubx_block_log_def)
qed

lemma node_ok_port: "node_ok s \<Longrightarrow> prts s p = Some prt \<Longrightarrow> \<exists>blk. blks s (p_block prt) = Some blk"
  unfolding node_ok_def by blast

text \<open>The local variable of an accessor.\<close>

definition with_local :: "ubx_data \<Rightarrow> 'w ubx \<Rightarrow> 'w ubx" where
  "with_local dat s = s\<lparr>next_addr := Suc (next_addr s), dats := (dats s)(next_addr s \<mapsto> dat)\<rparr>"

lemma with_local_frame: "stat_frame s (with_local dat s)"
  by (simp add: with_local_def stat_frame_def)

lemma node_ok_local: "node_ok s \<Longrightarrow> node_ok (with_local dat s)"
  by (auto simp: node_ok_def with_local_def fresh_from_def)

lemma node_ok_static: "node_ok (set_static fn t s) = node_ok s"
  by (simp add: node_ok_def set_static_def)

lemma set_static_frame: "stat_frame s (set_static fn t s)"
  by (simp add: set_static_def stat_frame_def)

lemma stat_frame_undats: "stat_frame s t \<Longrightarrow> stat_frame s (t\<lparr>dats := D\<rparr>)"
  by (simp add: stat_frame_def)

lemma fun_upd_back: "fresh_from (next_addr s) (dats s) \<Longrightarrow> ((dats s)(next_addr s \<mapsto> x))(next_addr s := None) = dats s"
  by (auto simp: fresh_from_def fun_eq_iff)

lemma acc_type_ok:
  assumes "node_ok s" "blks s b = Some blk"
  shows "\<exists>r t. acc_type U fn tn b pty s = Some (r, set_static fn t s)"
proof (cases "pty = static_type s fn")
  case True
  then have "set_static fn pty s = s" by (simp add: set_static_def)
  with True show ?thesis by (metis acc_type_def)
next
  case False
  with assms(2) node_ok_log [OF assms] show ?thesis by (auto simp: acc_type_def split: option.splits)
qed

lemma acc_type_pass:
  assumes "node_ok s" "blks s b = Some blk" "ut_find U (nd_types s) tn = Some t"
  shows "acc_type U fn tn b (Some t) s = Some (0, set_static fn (Some t) s)"
proof (cases "Some t = static_type s fn")
  case True
  then have "set_static fn (Some t) s = s" by (simp add: set_static_def)
  with True show ?thesis by (simp add: acc_type_def)
next
  case False
  with assms node_ok_log [OF assms(1,2)] show ?thesis by (simp add: acc_type_def ubx_type_get_def)
qed

context io_hooks
begin

lemma iok_same: "iok s \<Longrightarrow> stat_frame s s' \<Longrightarrow> world s' = world s \<Longrightarrow> dats s' = dats s \<Longrightarrow> iok s'"
  using inv_frame node_ok_frame inv_node by metis

lemma write_loop_ok:
  assumes "iok s" "dats s d = Some dat" "fits dat" "prts s p \<noteq> None" "set ibs \<subseteq> own"
  shows "\<exists>s'. write_loop H p d ibs s = Some s' \<and> stat_frame s s' \<and> dats s' = dats s \<and> iok s' \<and>
    world s' = fold (\<lambda>ib. wr ib dat) (active s ibs) (world s)"
  using assms
proof (induction ibs arbitrary: s)
  case Nil
  then show ?case by (simp add: active_def)
next
  case (Cons ib ibs)
  from Cons.prems(1,5) io_block obtain blk f where b: "blks s ib = Some blk" "write_fun blk = Some f" by fastforce
  from Cons.prems(4) obtain port where port: "prts s p = Some port" by blast
  have own: "ib \<in> own" "set ibs \<subseteq> own" using Cons.prems(5) by auto
  show ?case
  proof (cases "b_state blk = BLOCK_STATE_ACTIVE")
    case False
    with Cons.IH [OF Cons.prems(1-4) own(2)] b show ?thesis by (simp add: active_Cons)
  next
    case True
    from write_law [OF Cons.prems(1) own(1) Cons.prems(2,3) b] obtain s1 where
      s1: "hk_write H f ib d s = Some s1" "stat_frame s s1" "dats s1 = dats s" "world s1 = wr ib dat (world s)" "iok s1" by blast
    from io_block [OF s1(5) own(1)] obtain blk1 g where "blks s1 ib = Some blk1" "write_fun blk1 = Some g" by blast
    from count_write_frame [OF this] obtain s2 where
      s2: "count_write ib s1 = Some s2" "stat_frame s1 s2" "world s2 = world s1" "dats s2 = dats s1" by blast
    note fr = stat_frame_trans [OF s1(2) s2(2)]
    have i2: "iok s2" using iok_same [OF s1(5) s2(2-4)] .
    have p2: "prts s2 = prts s" using fr by (simp add: stat_frame_def)
    have pre: "dats s2 d = Some dat" "prts s2 p \<noteq> None" using Cons.prems(2) port p2 s1(3) s2(4) by simp_all
    from Cons.IH [OF i2 pre(1) Cons.prems(3) pre(2) own(2)] obtain s3 where
      s3: "write_loop H p d ibs s2 = Some s3" "stat_frame s2 s3" "dats s3 = dats s2" "iok s3"
        "world s3 = fold (\<lambda>ib. wr ib dat) (active s2 ibs) (world s2)" by blast
    have "write_loop H p d (ib # ibs) s = Some s3" using b True s1(1) s2(1) s3(1) port p2 by simp
    moreover have "active s (ib # ibs) = ib # active s2 ibs"
      using b True active_frame [OF fr, of ibs] by (simp add: active_Cons)
    ultimately show ?thesis
      using s1(3,4) s2(3,4) s3(3-5) stat_frame_trans [OF fr s3(2)] by (intro exI [of _ s3]) simp
  qed
qed

lemma read_loop_ok:
  assumes "iok s" "dats s d = Some dat" "fits dat" "prts s p \<noteq> None" "set ibs \<subseteq> own"
  shows "\<exists>r s' dat'. read_loop H p d ibs ret s = Some (r, s') \<and> stat_frame s s' \<and> dats s' = (dats s)(d \<mapsto> dat') \<and> iok s' \<and>
    fits dat' \<and> ask rd (active s ibs) ret dat (world s) = (r, dat', world s')"
  using assms
proof (induction ibs arbitrary: s ret dat)
  case Nil
  then show ?case by (auto simp: active_def fun_upd_idem intro!: exI [of _ dat])
next
  case (Cons ib ibs)
  from Cons.prems(1,5) io_block obtain blk f where b: "blks s ib = Some blk" "read_fun blk = Some f" by fastforce
  from Cons.prems(4) obtain port where port: "prts s p = Some port" by blast
  have own: "ib \<in> own" "set ibs \<subseteq> own" using Cons.prems(5) by auto
  show ?case
  proof (cases "b_state blk = BLOCK_STATE_ACTIVE")
    case False
    with Cons.IH [OF Cons.prems(1-4) own(2), of ret] b show ?thesis by (simp add: active_Cons)
  next
    case True
    obtain q dat1 w1 where q: "rd ib dat (world s) = (q, dat1, w1)" by (metis prod_cases3)
    from read_law [OF Cons.prems(1) own(1) Cons.prems(2,3) b q] obtain s1 where
      s1: "hk_read H f ib d s = Some (q, s1)" "stat_frame s s1" "dats s1 = (dats s)(d \<mapsto> dat1)" "world s1 = w1" "iok s1"
        "fits dat1" by blast
    have A: "active s (ib # ibs) = ib # active s1 ibs"
      using b True active_frame [OF s1(2), of ibs] by (simp add: active_Cons)
    have p1: "prts s1 = prts s" using s1(2) by (simp add: stat_frame_def)
    show ?thesis
    proof (cases "c_int q > 0")
      case pos: True
      from io_block [OF s1(5) own(1)] obtain blk1 g where "blks s1 ib = Some blk1" "read_fun blk1 = Some g" by blast
      from count_read_frame [OF this] obtain s2 where
        s2: "count_read ib s1 = Some s2" "stat_frame s1 s2" "world s2 = world s1" "dats s2 = dats s1" by blast
      have i2: "iok s2" using iok_same [OF s1(5) s2(2-4)] .
      have "read_loop H p d (ib # ibs) ret s = Some (c_int q, s2)" using b True s1(1) s2(1) port pos by simp
      with s1 s2(3,4) stat_frame_trans [OF s1(2) s2(2)] A q pos i2 show ?thesis
        by (intro exI [of _ "c_int q"] exI [of _ s2] exI [of _ dat1]) simp
    next
      case npos: False
      have "dats s1 d = Some dat1" "prts s1 p \<noteq> None" using port p1 s1(3) by simp_all
      from Cons.IH [OF s1(5) this(1) s1(6) this(2) own(2), of "c_int q"] obtain r s3 dat3 where
        s3: "read_loop H p d ibs (c_int q) s1 = Some (r, s3)" "stat_frame s1 s3" "dats s3 = (dats s1)(d \<mapsto> dat3)" "iok s3"
          "fits dat3" "ask rd (active s1 ibs) (c_int q) dat1 (world s1) = (r, dat3, world s3)" by blast
      have "read_loop H p d (ib # ibs) ret s = Some (r, s3)" using b True s1(1) s3(1) port p1 npos by simp
      with s1(3,4) s3(3-6) stat_frame_trans [OF s1(2) s3(2)] A q npos show ?thesis
        by (intro exI [of _ r] exI [of _ s3] exI [of _ dat3]) simp
    qed
  qed
qed

lemma port_write_ok:
  assumes "iok s" "prts s p = Some prt" "p_out_type prt \<noteq> None" "dats s d = Some dat" "d_type dat = p_out_type prt" "fits dat"
    "p_out_interaction prt = Some ibs" "set ibs \<subseteq> own"
  shows "\<exists>s'. port_write H (Some p) d s = Some s' \<and> stat_frame s s' \<and> dats s' = dats s \<and> iok s' \<and>
    world s' = fold (\<lambda>ib. wr ib dat) (active s ibs) (world s)"
proof -
  have "prts s p \<noteq> None" using assms(2) by simp
  from write_loop_ok [OF assms(1,4,6) this assms(8)] assms(2-7) show ?thesis
    by (auto simp: port_write_def port_is_out_def)
qed

lemma port_read_ok:
  assumes "iok s" "prts s p = Some prt" "p_in_type prt \<noteq> None" "dats s d = Some dat" "d_type dat = p_in_type prt" "fits dat"
    "0 < d_len dat" "p_in_interaction prt = Some ibs" "set ibs \<subseteq> own"
  shows "\<exists>r s' dat'. port_read H (Some p) (Some d) s = Some (r, s') \<and> stat_frame s s' \<and> dats s' = (dats s)(d \<mapsto> dat') \<and> iok s' \<and>
    fits dat' \<and> ask rd (active s ibs) 0 dat (world s) = (r, dat', world s')"
proof -
  have "prts s p \<noteq> None" using assms(2) by simp
  from read_loop_ok [OF assms(1,4,6) this assms(9), of 0] assms(2-8) show ?thesis
    by (auto simp: port_read_def port_is_in_def)
qed

lemma with_local_iok:
  assumes "iok s"
  shows "iok (with_local dat (set_static fn t s))"
proof -
  let ?s = "with_local dat (set_static fn t s)"
  have "stat_frame s ?s" using stat_frame_trans [OF set_static_frame with_local_frame] .
  moreover have "node_ok ?s" using inv_node [OF assms] by (simp add: node_ok_local node_ok_static)
  moreover have "world ?s = world s" by (simp add: with_local_def set_static_def)
  ultimately show ?thesis by (rule inv_frame [OF assms])
qed

lemma without_local:
  assumes "iok s" "stat_frame s u" "iok u" "dats u = (dats s)(next_addr s \<mapsto> x)"
  shows "iok (u\<lparr>dats := (dats u)(next_addr s := None)\<rparr>)" "(dats u)(next_addr s := None) = dats s"
proof -
  have fr: "fresh_from (next_addr s) (dats s)" using inv_node [OF assms(1)] by (simp add: node_ok_def)
  show e: "(dats u)(next_addr s := None) = dats s" using assms(4) fun_upd_back [OF fr] by simp
  have "node_ok (u\<lparr>dats := dats s\<rparr>)"
    using inv_node [OF assms(1)] stat_frame_undats [OF assms(2)] by (rule node_ok_frame) simp
  moreover have "stat_frame u (u\<lparr>dats := dats s\<rparr>)" by (simp add: stat_frame_undats)
  ultimately show "iok (u\<lparr>dats := (dats u)(next_addr s := None)\<rparr>)" using inv_frame [OF assms(3)] e by simp
qed

lemma write_array_ok:
  assumes "iok s" "prts s p = Some prt" "p_out_type prt = Some t" "ut_find U (nd_types s) tn = Some t" "len \<le> p_out_data_len prt"
    "fits (local_data (Some t) len val)" "p_out_interaction prt = Some ibs" "set ibs \<subseteq> own"
  shows "\<exists>s'. write_array U H fn tn (Some p) val len s = Some (0, s') \<and> stat_frame s s' \<and> dats s' = dats s \<and> iok s' \<and>
    world s' = fold (\<lambda>ib. wr ib (local_data (Some t) len val)) (active s ibs) (world s)"
proof -
  note n = inv_node [OF assms(1)]
  from node_ok_port [OF n assms(2)] obtain blk where b: "blks s (p_block prt) = Some blk" ..
  let ?s0 = "set_static fn (Some t) s" and ?dat = "local_data (Some t) len val"
  let ?s1 = "with_local ?dat ?s0"
  note i1 = with_local_iok [OF assms(1), of ?dat fn "Some t"]
  have s1: "prts ?s1 p = Some prt" "dats ?s1 (next_addr s) = Some ?dat" "active ?s1 ibs = active s ibs" "world ?s1 = world s"
    using assms(2) by (simp_all add: with_local_def set_static_def active_def)
  have "p_out_type prt \<noteq> None" "d_type ?dat = p_out_type prt" using assms(3) by (simp_all add: local_data_def)
  from port_write_ok [OF i1 s1(1) this(1) s1(2) this(2) assms(6-8)] obtain u where
    u: "port_write H (Some p) (next_addr s) ?s1 = Some u" "stat_frame ?s1 u" "dats u = dats ?s1" "iok u"
      "world u = fold (\<lambda>ib. wr ib ?dat) (active ?s1 ibs) (world ?s1)" by blast
  have du: "dats u = (dats s)(next_addr s \<mapsto> ?dat)" using u(3) by (simp add: with_local_def set_static_def)
  have fr: "stat_frame s u" by (rule stat_frame_trans [OF stat_frame_trans [OF set_static_frame with_local_frame] u(2)])
  note w = without_local [OF assms(1) fr u(4) du]
  have "write_array U H fn tn (Some p) val len s = Some (0, u\<lparr>dats := (dats u)(next_addr s := None)\<rparr>)"
    using assms(2,3,5) b acc_type_pass [OF n b assms(4), of fn] u(1)
    by (simp add: write_array_def Let_def with_local_def set_static_def)
  with w u(5) s1(3,4) stat_frame_undats [OF fr] show ?thesis by simp
qed

lemma read_array_ok:
  assumes "iok s" "prts s p = Some prt" "p_in_type prt = Some t" "ut_find U (nd_types s) tn = Some t" "len \<le> p_in_data_len prt"
    "fits (local_data (Some t) len val)" "0 < len" "p_in_interaction prt = Some ibs" "set ibs \<subseteq> own"
    "ask rd (active s ibs) 0 (local_data (Some t) len val) (world s) = (r, dat', w')" "d_data dat' = Buf bs"
  shows "\<exists>s'. read_array U H fn tn (Some p) val len s = Some (r, bs, s') \<and> stat_frame s s' \<and> dats s' = dats s \<and> iok s' \<and>
    world s' = w'"
proof -
  note n = inv_node [OF assms(1)]
  from node_ok_port [OF n assms(2)] obtain blk where b: "blks s (p_block prt) = Some blk" ..
  let ?s0 = "set_static fn (Some t) s" and ?dat = "local_data (Some t) len val"
  let ?s1 = "with_local ?dat ?s0"
  note i1 = with_local_iok [OF assms(1), of ?dat fn "Some t"]
  have s1: "prts ?s1 p = Some prt" "dats ?s1 (next_addr s) = Some ?dat" "active ?s1 ibs = active s ibs" "world ?s1 = world s"
    using assms(2) by (simp_all add: with_local_def set_static_def active_def)
  have "p_in_type prt \<noteq> None" "d_type ?dat = p_in_type prt" "0 < d_len ?dat" using assms(3,7) by (simp_all add: local_data_def)
  from port_read_ok [OF i1 s1(1) this(1) s1(2) this(2) assms(6) this(3) assms(8,9)] s1(3,4) assms(10) obtain u where
    u: "port_read H (Some p) (Some (next_addr s)) ?s1 = Some (r, u)" "stat_frame ?s1 u" "dats u = (dats ?s1)(next_addr s \<mapsto> dat')"
      "iok u" "world u = w'" by auto
  have du: "dats u = (dats s)(next_addr s \<mapsto> dat')" using u(3) by (simp add: with_local_def set_static_def)
  have fr: "stat_frame s u" by (rule stat_frame_trans [OF stat_frame_trans [OF set_static_frame with_local_frame] u(2)])
  note w = without_local [OF assms(1) fr u(4) du]
  have "read_array U H fn tn (Some p) val len s = Some (r, bs, u\<lparr>dats := (dats u)(next_addr s := None)\<rparr>)"
    using assms(2,3,5,11) b acc_type_pass [OF n b assms(4), of fn] u(1) du
    by (simp add: read_array_def Let_def with_local_def set_static_def)
  with w u(5) stat_frame_undats [OF fr] show ?thesis by simp
qed

end

text \<open>A port that is not connected.\<close>

lemma write_array_unconnected:
  assumes "node_ok s" "prts s p = Some prt" "p_out_interaction prt = None"
  shows "\<exists>r s'. write_array U H fn tn (Some p) val len s = Some (r, s') \<and> stat_frame s s' \<and> dats s' = dats s \<and> world s' = world s"
proof -
  from node_ok_port [OF assms(1,2)] obtain blk where b: "blks s (p_block prt) = Some blk" ..
  from acc_type_ok [OF assms(1) b] obtain r t where
    a: "acc_type U fn tn (p_block prt) (p_out_type prt) s = Some (r, set_static fn t s)" by blast
  note lg = node_ok_log(2) [OF assms(1) b]
  let ?s0 = "set_static fn t s" and ?dat = "local_data t len val"
  let ?s1 = "with_local ?dat ?s0"
  have s0: "ubx_block_log blk ?s0 = Some ()" using lg by (cases "b_loglevel blk") (simp_all add: ubx_block_log_def set_static_def split: if_splits)
  have "node_ok ?s1" "blks ?s1 (p_block prt) = Some blk"
    using assms(1) b node_ok_local [of ?s0] by (simp_all add: node_ok_static) (simp add: with_local_def set_static_def)
  then have "ubx_block_log blk ?s1 = Some ()" by (rule node_ok_log(2))
  then have w: "port_write H (Some p) (next_addr s) ?s1 = Some ?s1"
    using assms(2,3) b by (simp add: port_write_def with_local_def set_static_def)
  have fr: "fresh_from (next_addr s) (dats s)" using assms(1) by (simp add: node_ok_def)
  consider "p_out_type prt = None" | "p_out_type prt \<noteq> None" "r \<noteq> 0" | "p_out_type prt \<noteq> None" "r = 0" "len > p_out_data_len prt"
    | "p_out_type prt \<noteq> None" "r = 0" "len \<le> p_out_data_len prt" by fastforce
  then show ?thesis
  proof cases
    case 1
    with assms b lg show ?thesis by (simp add: write_array_def)
  next
    case 2
    with assms b a have "write_array U H fn tn (Some p) val len s = Some (r, ?s0)" by (auto simp: write_array_def)
    then show ?thesis using set_static_frame [of s fn t] by (simp add: set_static_def)
  next
    case 3
    with assms b a s0 have "write_array U H fn tn (Some p) val len s = Some (EINVALID_DATA_LEN, ?s0)"
      by (simp add: write_array_def)
    then show ?thesis using set_static_frame [of s fn t] by (simp add: set_static_def)
  next
    case 4
    with assms b a w have "write_array U H fn tn (Some p) val len s = Some (0, ?s1\<lparr>dats := (dats ?s1)(next_addr s := None)\<rparr>)"
      by (simp add: write_array_def Let_def with_local_def set_static_def)
    moreover have "stat_frame s (?s1\<lparr>dats := (dats ?s1)(next_addr s := None)\<rparr>)"
      by (rule stat_frame_undats [OF stat_frame_trans [OF set_static_frame with_local_frame]])
    moreover have "(dats ?s1)(next_addr s := None) = dats s"
      using fun_upd_back [OF fr] by (simp add: with_local_def set_static_def)
    ultimately show ?thesis by (simp add: with_local_def set_static_def)
  qed
qed

end
