(* ===== verification/Ubx_Chain.thy ===== *)
theory Ubx_Chain
  imports Ubx_Tstat Ubx_Rw
begin

text \<open>
  Trigger chains, the rest of \<^verbatim>\<open>libubx/trig_utils.c\<close>: a chain is a list of blocks that a trigger block steps in
  order, with a rate divider and a repetition per block, and timing statistics. The lemmas show that a trigger steps exactly
  the blocks that are due, in every statistics mode, and how often a block runs in a sequence of triggers.
\<close>

section \<open>Data\<close>

text \<open>\<open>struct ubx_triggee\<close> (\<^verbatim>\<open>std_types/stdtypes/types/triggee.h\<close>).\<close>

record ubx_triggee =
  tg_b :: ptr
  tg_every :: u32
  tg_num_steps :: int

text \<open>The array of statistics: NULL, allocated, or a dangling pointer.\<close>

datatype tstat_buf = TB_null | TB "ubx_tstat list" | TB_freed

text \<open>\<open>struct ubx_chain\<close>. The array of triggees is the value of a config; \<open>triggees_len\<close> is its length.\<close>

record ubx_chain =
  ch_triggees :: "ubx_triggee list"
  ch_tstats_mode :: int
  ch_skip_first :: u32
  ch_p_tstats :: ptr
  ch_every_cnt :: u32
  ch_global :: ubx_tstat
  ch_blk_tstats :: tstat_buf
  ch_rate :: u64
  ch_last_msg :: u64
  ch_idx :: int

definition TSTATS_DISABLED :: int where "TSTATS_DISABLED = 0"
definition TSTATS_GLOBAL :: int where "TSTATS_GLOBAL = 1"
definition TSTATS_PERBLOCK :: int where "TSTATS_PERBLOCK = 2"

lemmas tstats_modes = TSTATS_DISABLED_def TSTATS_GLOBAL_def TSTATS_PERBLOCK_def

text \<open>
  What a chain uses of its surroundings: the hash tables, the hooks of the blocks, the clock (\<open>ubx_gettime\<close>; it may
  change the world) and the bytes of a \<open>struct ubx_tstat\<close> in memory.
\<close>

record 'w chain_env =
  ce_ut :: ut_lib
  ce_hooks :: "'w hooks"
  ce_clock :: "'w \<Rightarrow> ubx_timespec \<times> 'w"
  ce_bytes :: "ubx_tstat \<Rightarrow> u8 list"

definition ubx_gettime :: "'w chain_env \<Rightarrow> 'w ubx \<Rightarrow> ubx_timespec \<times> 'w ubx" where
  "ubx_gettime E s = (case ce_clock E (world s) of (t, w) \<Rightarrow> (t, s\<lparr>world := w\<rparr>))"

section \<open>Initialisation\<close>

definition default_one :: "ubx_triggee \<Rightarrow> ubx_triggee" where
  "default_one t =
     (let t = t\<lparr>tg_num_steps := (if tg_num_steps t = 0 then 1 else tg_num_steps t)\<rparr>
      in t\<lparr>tg_every := (if tg_every t = 0 then 1 else tg_every t)\<rparr>)"

fun init_blk_tstats :: "ubx_triggee list \<Rightarrow> string option \<Rightarrow> 'w ubx \<Rightarrow> ubx_tstat list option" where
  "init_blk_tstats [] chain_id s = Some []"
| "init_blk_tstats (t # ts) chain_id s = do {
     b \<leftarrow> tg_b t; blk \<leftarrow> blks s b;
     rest \<leftarrow> init_blk_tstats ts chain_id s;
     Some (tstat_init2 (b_name blk) chain_id # rest) }"

text \<open>\<open>realloc\<close> to \<open>n\<close> elements: of a dangling pointer it is undefined; of an array to no elements it frees the
  array and returns NULL; of NULL to no elements it is \<open>malloc(0)\<close>, which returns a pointer.\<close>

definition realloc_tstats :: "tstat_buf \<Rightarrow> nat \<Rightarrow> 'w ubx \<Rightarrow> (bool \<times> 'w ubx) option" where
  "realloc_tstats p n s =
     (case p of
        TB_freed \<Rightarrow> None
      | TB_null \<Rightarrow> Some (mem_alloc s)
      | TB xs \<Rightarrow> if n = 0 then Some (False, s) else Some (mem_alloc s))"

text \<open>\<open>rate\<close> is the output rate converted to nanoseconds, \<open>tstats_output_rate * NSEC_PER_SEC\<close>.\<close>

definition ubx_chain_init ::
  "ubx_chain \<Rightarrow> string option \<Rightarrow> u64 \<Rightarrow> 'w ubx \<Rightarrow> (int \<times> ubx_chain \<times> 'w ubx) option" where
  "ubx_chain_init chain chain_id rate s = do {
     let chain = chain\<lparr>ch_rate := rate, ch_last_msg := 0, ch_idx := 0, ch_global := tstat_init2 ''#total#'' chain_id\<rparr>;
     (ok, chain, s) \<leftarrow> (if ch_tstats_mode chain \<ge> 2 then do {
         (ok, s) \<leftarrow> realloc_tstats (ch_blk_tstats chain) (length (ch_triggees chain)) s;
         if \<not> ok then Some (False, chain\<lparr>ch_blk_tstats := TB_null\<rparr>, s)
         else do {
           xs \<leftarrow> init_blk_tstats (ch_triggees chain) chain_id s;
           Some (True, chain\<lparr>ch_blk_tstats := TB xs\<rparr>, s) } }
       else Some (True, chain, s));
     if \<not> ok then Some (EOUTOFMEM, chain, s)
     else Some (0, chain\<lparr>ch_every_cnt := 0, ch_triggees := map default_one (ch_triggees chain)\<rparr>, s) }"

text \<open>\<open>free\<close>, of a dangling pointer undefined; the pointer is not reset.\<close>

definition ubx_chain_cleanup :: "ubx_chain \<Rightarrow> ubx_chain option" where
  "ubx_chain_cleanup chain =
     (case ch_blk_tstats chain of
        TB_null \<Rightarrow> Some chain
      | TB xs \<Rightarrow> Some (chain\<lparr>ch_blk_tstats := TB_freed\<rparr>)
      | TB_freed \<Rightarrow> None)"

section \<open>Triggering\<close>

definition blk_tstat :: "ubx_chain \<Rightarrow> nat \<Rightarrow> ubx_tstat option" where
  "blk_tstat chain i = (case ch_blk_tstats chain of TB xs \<Rightarrow> if i < length xs then Some (xs ! i) else None | _ \<Rightarrow> None)"

definition write_tstat :: "'w chain_env \<Rightarrow> ptr \<Rightarrow> ubx_tstat \<Rightarrow> 'w ubx \<Rightarrow> (int \<times> 'w ubx) option" where
  "write_tstat E p ts s = write_array (ce_ut E) (ce_hooks E) ''write_tstat'' ''struct ubx_tstat'' p (ce_bytes E ts) 1 s"

definition tstats_output_throttled :: "'w chain_env \<Rightarrow> ubx_chain \<Rightarrow> u64 \<Rightarrow> 'w ubx \<Rightarrow> (ubx_chain \<times> 'w ubx) option" where
  "tstats_output_throttled E chain now s =
     (if ch_p_tstats chain = None then Some (chain, s)
      else if now \<le> ch_last_msg chain + ch_rate chain then Some (chain, s)
      else do {
        (chain, s) \<leftarrow> (if ch_tstats_mode chain = TSTATS_GLOBAL then do {
            (_, s) \<leftarrow> write_tstat E (ch_p_tstats chain) (ch_global chain) s;
            Some (chain, s) }
          else do {
            let len = int (length (ch_triggees chain));
            ts \<leftarrow> (if ch_idx chain < len
                   then if ch_idx chain < 0 then None else blk_tstat chain (nat (ch_idx chain))
                   else Some (ch_global chain));
            (_, s) \<leftarrow> write_tstat E (ch_p_tstats chain) ts s;
            Some (chain\<lparr>ch_idx := (ch_idx chain + 1) smod (len + 1)\<rparr>, s) });
        Some (chain\<lparr>ch_last_msg := now\<rparr>, s) })"

fun step_loop :: "'w hooks \<Rightarrow> ptr \<Rightarrow> nat \<Rightarrow> 'w ubx \<Rightarrow> (int \<times> 'w ubx) option" where
  "step_loop H b 0 s = Some (0, s)"
| "step_loop H b (Suc n) s = do {
     (ret, s) \<leftarrow> ubx_cblock_step H b s;
     if ret \<noteq> 0 then Some (ret, s) else step_loop H b n s }"

definition trig_single_block :: "'w chain_env \<Rightarrow> ubx_triggee \<Rightarrow> 'w ubx \<Rightarrow> (int \<times> 'w ubx) option" where
  "trig_single_block E t s = step_loop (ce_hooks E) (tg_b t) (nat (tg_num_steps t)) s"

text \<open>The loops over the triggees, without and with statistics per block. \<open>every_cnt % every\<close> is undefined for 0.\<close>

fun trig_loop :: "'w chain_env \<Rightarrow> u32 \<Rightarrow> ubx_triggee list \<Rightarrow> int \<Rightarrow> 'w ubx \<Rightarrow> (int \<times> 'w ubx) option" where
  "trig_loop E cnt [] ret s = Some (ret, s)"
| "trig_loop E cnt (t # ts) ret s =
     (if tg_every t = 0 then None
      else if cnt mod tg_every t \<noteq> 0 then trig_loop E cnt ts ret s
      else do {
        (r, s) \<leftarrow> trig_single_block E t s;
        trig_loop E cnt ts (if r \<noteq> 0 then -1 else ret) s })"

fun trig_loop_stats ::
  "'w chain_env \<Rightarrow> u32 \<Rightarrow> ubx_triggee list \<Rightarrow> nat \<Rightarrow> ubx_tstat list \<Rightarrow> int \<Rightarrow> 'w ubx \<Rightarrow> (int \<times> ubx_tstat list \<times> 'w ubx) option" where
  "trig_loop_stats E cnt [] i xs ret s = Some (ret, xs, s)"
| "trig_loop_stats E cnt (t # ts) i xs ret s =
     (if tg_every t = 0 then None
      else if cnt mod tg_every t \<noteq> 0 then trig_loop_stats E cnt ts (Suc i) xs ret s
      else do {
        let (blk_ts_start, s) = ubx_gettime E s;
        (r, s) \<leftarrow> trig_single_block E t s;
        let (blk_ts_end, s) = ubx_gettime E s;
        if i < length xs then do {
          x \<leftarrow> tstat_update (xs ! i) blk_ts_start blk_ts_end;
          trig_loop_stats E cnt ts (Suc i) (xs[i := x]) (if r \<noteq> 0 then -1 else ret) s }
        else None })"

text \<open>The end of the two functions with statistics: the global measurement and the output.\<close>

definition trig_finish :: "'w chain_env \<Rightarrow> ubx_timespec \<Rightarrow> ubx_chain \<Rightarrow> 'w ubx \<Rightarrow> (ubx_chain \<times> 'w ubx) option" where
  "trig_finish E ts_start chain s = do {
     let (ts_end, s) = ubx_gettime E s;
     g \<leftarrow> tstat_update (ch_global chain) ts_start ts_end;
     let chain = chain\<lparr>ch_global := g\<rparr>;
     if ch_rate chain \<noteq> 0 then tstats_output_throttled E chain (ubx_ts_to_ns ts_end) s else Some (chain, s) }"

definition trig_stats_perblock :: "'w chain_env \<Rightarrow> ubx_chain \<Rightarrow> 'w ubx \<Rightarrow> (int \<times> ubx_chain \<times> 'w ubx) option" where
  "trig_stats_perblock E chain s = do {
     let (ts_start, s) = ubx_gettime E s;
     (ret, chain, s) \<leftarrow> (case ch_blk_tstats chain of
         TB xs \<Rightarrow> do {
           (ret, xs, s) \<leftarrow> trig_loop_stats E (ch_every_cnt chain) (ch_triggees chain) 0 xs 0 s;
           Some (ret, chain\<lparr>ch_blk_tstats := TB xs\<rparr>, s) }
       | _ \<Rightarrow> do {
           (ret, xs, s) \<leftarrow> trig_loop_stats E (ch_every_cnt chain) (ch_triggees chain) 0 [] 0 s;
           Some (ret, chain, s) });
     (chain, s) \<leftarrow> trig_finish E ts_start chain s;
     Some (ret, chain, s) }"

definition trig_stats_global :: "'w chain_env \<Rightarrow> ubx_chain \<Rightarrow> 'w ubx \<Rightarrow> (int \<times> ubx_chain \<times> 'w ubx) option" where
  "trig_stats_global E chain s = do {
     let (ts_start, s) = ubx_gettime E s;
     (ret, s) \<leftarrow> trig_loop E (ch_every_cnt chain) (ch_triggees chain) 0 s;
     (chain, s) \<leftarrow> trig_finish E ts_start chain s;
     Some (ret, chain, s) }"

definition trig_stats_disabled :: "'w chain_env \<Rightarrow> ubx_chain \<Rightarrow> 'w ubx \<Rightarrow> (int \<times> ubx_chain \<times> 'w ubx) option" where
  "trig_stats_disabled E chain s = do {
     (ret, s) \<leftarrow> trig_loop E (ch_every_cnt chain) (ch_triggees chain) 0 s;
     Some (ret, chain, s) }"

definition ubx_chain_trigger :: "'w chain_env \<Rightarrow> ubx_chain \<Rightarrow> 'w ubx \<Rightarrow> (int \<times> ubx_chain \<times> 'w ubx) option" where
  "ubx_chain_trigger E chain s = do {
     (ret, chain, s) \<leftarrow> (if ch_skip_first chain > 0
         then trig_stats_disabled E (chain\<lparr>ch_skip_first := ch_skip_first chain - 1\<rparr>) s
       else if ch_tstats_mode chain = TSTATS_DISABLED then trig_stats_disabled E chain s
       else if ch_tstats_mode chain = TSTATS_GLOBAL then trig_stats_global E chain s
       else if ch_tstats_mode chain = TSTATS_PERBLOCK then trig_stats_perblock E chain s
       else Some (-1, chain, s));
     Some (ret, chain\<lparr>ch_every_cnt := ch_every_cnt chain + 1\<rparr>, s) }"

section \<open>Output\<close>

fun log_list :: "ubx_block \<Rightarrow> ubx_tstat list \<Rightarrow> 'w ubx \<Rightarrow> unit option" where
  "log_list b [] s = Some ()"
| "log_list b (x # xs) s = do {
     _ \<leftarrow> (if ts_cnt x = 0 then ubx_block_log b s
          else do { _ \<leftarrow> ubx_ts_div (ts_total x) (sint (ts_cnt x)); ubx_block_log b s });
     log_list b xs s }"

fun output_list :: "'w chain_env \<Rightarrow> ptr \<Rightarrow> ubx_tstat list \<Rightarrow> 'w ubx \<Rightarrow> 'w ubx option" where
  "output_list E p [] s = Some s"
| "output_list E p (x # xs) s = do { (_, s) \<leftarrow> write_tstat E p x s; output_list E p xs s }"

fun fwrite_list :: "tstat_file \<Rightarrow> ubx_tstat list \<Rightarrow> tstat_file option" where
  "fwrite_list fp [] = Some fp"
| "fwrite_list fp (x # xs) = do { fp \<leftarrow> tstat_fwrite fp x; fwrite_list fp xs }"

text \<open>The statistics that a mode reports: those of the blocks and then the global ones, the global ones only, or none.
  \<open>None\<close> for an invalid mode.\<close>

definition reported :: "ubx_chain \<Rightarrow> ubx_tstat list option option" where
  "reported chain =
     (if ch_tstats_mode chain = TSTATS_DISABLED then Some (Some [])
      else if ch_tstats_mode chain = TSTATS_PERBLOCK then do {
        xs \<leftarrow> those (map (blk_tstat chain) [0..<length (ch_triggees chain)]);
        Some (Some (xs @ [ch_global chain])) }
      else if ch_tstats_mode chain = TSTATS_GLOBAL then Some (Some [ch_global chain])
      else Some None)"

definition ubx_chain_tstats_log :: "addr \<Rightarrow> ubx_chain \<Rightarrow> 'w ubx \<Rightarrow> unit option" where
  "ubx_chain_tstats_log b chain s = do {
     blk \<leftarrow> blks s b; r \<leftarrow> reported chain;
     case r of None \<Rightarrow> ubx_block_log blk s | Some xs \<Rightarrow> log_list blk xs s }"

definition ubx_chain_tstats_output :: "'w chain_env \<Rightarrow> addr \<Rightarrow> ubx_chain \<Rightarrow> 'w ubx \<Rightarrow> 'w ubx option" where
  "ubx_chain_tstats_output E b chain s = do {
     r \<leftarrow> reported chain;
     case r of
       None \<Rightarrow> do { blk \<leftarrow> blks s b; _ \<leftarrow> ubx_block_log blk s; Some s }
     | Some xs \<Rightarrow> output_list E (ch_p_tstats chain) xs s }"

definition ubx_chain_tstats_fwrite :: "addr \<Rightarrow> tstat_file \<Rightarrow> ubx_chain \<Rightarrow> 'w ubx \<Rightarrow> (int \<times> tstat_file) option" where
  "ubx_chain_tstats_fwrite b fp chain s = do {
     r \<leftarrow> reported chain;
     case r of
       None \<Rightarrow> do { blk \<leftarrow> blks s b; _ \<leftarrow> ubx_block_log blk s; Some (-1, fp) }
     | Some xs \<Rightarrow> do { fp \<leftarrow> fwrite_list fp xs; Some (0, fp) } }"

section \<open>What a trigger does\<close>

text \<open>The steps that are due at a value of the counter, in order.\<close>

definition due :: "u32 \<Rightarrow> ubx_triggee list \<Rightarrow> addr list" where
  "due cnt ts = concat (map (\<lambda>t. if cnt mod tg_every t = 0 then replicate (nat (tg_num_steps t)) (the (tg_b t)) else []) ts)"

text \<open>
  What a chain relies on: blocks \<open>own\<close> whose steps succeed, a clock below 31 years, and an output port that can be
  written. \<open>tr\<close> is the part of the world the steps work on, by \<open>stp\<close>; reading the clock and writing statistics do
  not touch it.
\<close>

definition clock_max :: int where "clock_max = 1000000000000000000"

locale chain_laws =
  fixes E :: "'w chain_env" and own :: "addr set" and port :: ptr and iok :: "'w ubx \<Rightarrow> bool" and tr :: "'w \<Rightarrow> 'x"
    and stp :: "addr \<Rightarrow> 'x \<Rightarrow> 'x"
  assumes step_law: "iok s \<Longrightarrow> b \<in> own \<Longrightarrow>
      \<exists>s'. ubx_cblock_step (ce_hooks E) (Some b) s = Some (0, s') \<and> iok s' \<and> tr (world s') = stp b (tr (world s))"
    and clock_law: "iok s \<Longrightarrow> ubx_gettime E s = (t, s') \<Longrightarrow>
      iok s' \<and> tr (world s') = tr (world s) \<and> ts_canon t \<and> 0 \<le> ts_val t \<and> ts_val t \<le> clock_max"
    and output_law: "iok s \<Longrightarrow> port \<noteq> None \<Longrightarrow>
      \<exists>r s'. write_tstat E port x s = Some (r, s') \<and> iok s' \<and> tr (world s') = tr (world s)"

definition triggees_ok :: "addr set \<Rightarrow> ubx_triggee list \<Rightarrow> bool" where
  "triggees_ok own ts \<longleftrightarrow> (\<forall>t \<in> set ts. tg_every t \<noteq> 0 \<and> (\<exists>b \<in> own. tg_b t = Some b))"

text \<open>There is room for \<open>k\<close> more measurements before the total overflows.\<close>

definition stat_room :: "nat \<Rightarrow> ubx_tstat \<Rightarrow> bool" where
  "stat_room k x \<longleftrightarrow> ts_canon (ts_total x) \<and> \<bar>ts_val (ts_total x)\<bar> + int k * clock_max \<le> 3000000000000000000000000000"

definition chain_ok :: "addr set \<Rightarrow> ptr \<Rightarrow> nat \<Rightarrow> ubx_chain \<Rightarrow> bool" where
  "chain_ok own port k c \<longleftrightarrow> triggees_ok own (ch_triggees c) \<and> ch_p_tstats c = port \<and>
     ch_tstats_mode c \<in> {TSTATS_DISABLED, TSTATS_GLOBAL, TSTATS_PERBLOCK} \<and> stat_room k (ch_global c) \<and>
     0 \<le> ch_idx c \<and> ch_idx c \<le> int (length (ch_triggees c)) \<and>
     (ch_tstats_mode c = TSTATS_PERBLOCK \<longrightarrow>
       (\<exists>xs. ch_blk_tstats c = TB xs \<and> length xs = length (ch_triggees c) \<and> (\<forall>x \<in> set xs. stat_room k x)))"

lemma stat_room_less: "stat_room (Suc k) x \<Longrightarrow> stat_room k x"
  by (auto simp: stat_room_def clock_max_def)

lemma tstat_update_room:
  assumes "stat_room (Suc k) x" "ts_canon a" "ts_canon b" "0 \<le> ts_val a" "ts_val a \<le> clock_max" "0 \<le> ts_val b" "ts_val b \<le> clock_max"
  shows "\<exists>x'. tstat_update x a b = Some x' \<and> stat_room k x'"
proof -
  have sm: "ts_small a" "ts_small b" using assms(2-7) by (auto intro!: ts_small_val simp: clock_max_def)
  from ubx_ts_sub_defined [OF sm(2,1)] obtain d where d: "ubx_ts_sub b a = Some d" by blast
  from ubx_ts_sub_Some [OF d] assms(4-7) have dv: "ts_canon d" "\<bar>ts_val d\<bar> \<le> clock_max" by auto
  have "ts_small d" using dv by (intro ts_small_val) (auto simp: clock_max_def)
  moreover have "ts_small (ts_total x)" using assms(1) by (intro ts_small_val) (auto simp: stat_room_def clock_max_def)
  ultimately obtain t where t: "ubx_ts_add (ts_total x) d = Some t" using ubx_ts_add_defined by blast
  from ubx_ts_add_Some [OF t] assms(1) dv have "ts_canon t" "\<bar>ts_val t\<bar> + int k * clock_max \<le> 3000000000000000000000000000"
    by (auto simp: stat_room_def algebra_simps)
  with d t show ?thesis by (auto simp: tstat_update_def Let_def stat_room_def)
qed

lemma due_Cons:
  "due cnt (t # ts) = (if cnt mod tg_every t = 0 then replicate (nat (tg_num_steps t)) (the (tg_b t)) else []) @ due cnt ts"
  by (simp add: due_def)

lemma triggees_ok_Cons: "triggees_ok own (t # ts) \<longleftrightarrow> tg_every t \<noteq> 0 \<and> (\<exists>b \<in> own. tg_b t = Some b) \<and> triggees_ok own ts"
  by (auto simp: triggees_ok_def)

fun chain_run :: "'w chain_env \<Rightarrow> nat \<Rightarrow> ubx_chain \<Rightarrow> 'w ubx \<Rightarrow> (ubx_chain \<times> 'w ubx) option" where
  "chain_run E 0 c s = Some (c, s)"
| "chain_run E (Suc n) c s = do {
     (r, c, s) \<leftarrow> ubx_chain_trigger E c s;
     if r \<noteq> 0 then None else chain_run E n c s }"

context chain_laws
begin

lemma step_loop_ok:
  assumes "iok s" "b \<in> own"
  shows "\<exists>s'. step_loop (ce_hooks E) (Some b) n s = Some (0, s') \<and> iok s' \<and> tr (world s') = fold stp (replicate n b) (tr (world s))"
  using assms(1)
proof (induction n arbitrary: s)
  case (Suc n)
  from step_law [OF Suc.prems assms(2)] obtain s1 where
    s1: "ubx_cblock_step (ce_hooks E) (Some b) s = Some (0, s1)" "iok s1" "tr (world s1) = stp b (tr (world s))" by blast
  from Suc.IH [OF s1(2)] s1 show ?case by simp
qed simp

lemma single_ok:
  assumes "iok s" "tg_b t = Some b" "b \<in> own"
  shows "\<exists>s'. trig_single_block E t s = Some (0, s') \<and> iok s' \<and>
    tr (world s') = fold stp (replicate (nat (tg_num_steps t)) (the (tg_b t))) (tr (world s))"
  using step_loop_ok [OF assms(1,3)] assms(2) by (simp add: trig_single_block_def)

lemma trig_loop_ok:
  assumes "iok s" "triggees_ok own ts"
  shows "\<exists>s'. trig_loop E cnt ts ret s = Some (ret, s') \<and> iok s' \<and> tr (world s') = fold stp (due cnt ts) (tr (world s))"
  using assms
proof (induction ts arbitrary: s)
  case Nil
  then show ?case by (simp add: due_def)
next
  case (Cons t ts)
  from Cons.prems(2) obtain b where t: "tg_every t \<noteq> 0" "tg_b t = Some b" "b \<in> own" "triggees_ok own ts"
    by (auto simp: triggees_ok_Cons)
  show ?case
  proof (cases "cnt mod tg_every t = 0")
    case False
    with Cons.IH [OF Cons.prems(1) t(4)] t(1) show ?thesis by (simp add: due_Cons)
  next
    case True
    from single_ok [OF Cons.prems(1) t(2,3)] obtain s1 where
      s1: "trig_single_block E t s = Some (0, s1)" "iok s1"
        "tr (world s1) = fold stp (replicate (nat (tg_num_steps t)) (the (tg_b t))) (tr (world s))" by blast
    from Cons.IH [OF s1(2) t(4)] True t(1) s1 show ?thesis by (simp add: due_Cons)
  qed
qed

lemma trig_loop_stats_ok:
  assumes "iok s" "triggees_ok own ts" "i + length ts \<le> length xs"
    "\<forall>x \<in> set xs. stat_room k x" "\<forall>x \<in> set (drop i xs). stat_room (Suc k) x"
  shows "\<exists>xs' s'. trig_loop_stats E cnt ts i xs ret s = Some (ret, xs', s') \<and> iok s' \<and> length xs' = length xs \<and>
    (\<forall>x \<in> set xs'. stat_room k x) \<and> tr (world s') = fold stp (due cnt ts) (tr (world s))"
  using assms
proof (induction ts arbitrary: s i xs)
  case Nil
  then show ?case by (simp add: due_def)
next
  case (Cons t ts)
  from Cons.prems(2) obtain b where t: "tg_every t \<noteq> 0" "tg_b t = Some b" "b \<in> own" "triggees_ok own ts"
    by (auto simp: triggees_ok_Cons)
  have i: "i < length xs" "Suc i + length ts \<le> length xs" using Cons.prems(3) by auto
  have later: "\<forall>x \<in> set (drop (Suc i) xs). stat_room (Suc k) x"
    using Cons.prems(5) set_drop_subset_set_drop [of i "Suc i" xs] by auto
  have this_room: "stat_room (Suc k) (xs ! i)" using Cons.prems(5) i(1) by (metis Cons_nth_drop_Suc list.set_intros(1))
  show ?case
  proof (cases "cnt mod tg_every t = 0")
    case False
    from Cons.IH [OF Cons.prems(1) t(4) i(2) Cons.prems(4) later] False t(1) show ?thesis by (simp add: due_Cons)
  next
    case True
    obtain a s1 where g1: "ubx_gettime E s = (a, s1)" by (cases "ubx_gettime E s")
    note c1 = clock_law [OF Cons.prems(1) g1]
    from single_ok [OF _ t(2,3), of s1] c1 obtain s2 where
      s2: "trig_single_block E t s1 = Some (0, s2)" "iok s2"
        "tr (world s2) = fold stp (replicate (nat (tg_num_steps t)) (the (tg_b t))) (tr (world s1))" by blast
    obtain z s3 where g3: "ubx_gettime E s2 = (z, s3)" by (cases "ubx_gettime E s2")
    note c3 = clock_law [OF s2(2) g3]
    from tstat_update_room [OF this_room, of a z] c1 c3 obtain x where x: "tstat_update (xs ! i) a z = Some x" "stat_room k x" by blast
    have "\<forall>y \<in> set (xs[i := x]). stat_room k y" using Cons.prems(4) x(2) set_update_subset_insert [of xs i x] by auto
    moreover have "\<forall>y \<in> set (drop (Suc i) (xs[i := x])). stat_room (Suc k) y" using later by simp
    moreover have "Suc i + length ts \<le> length (xs[i := x])" using i(2) by simp
    ultimately have "\<exists>xs' s'. trig_loop_stats E cnt ts (Suc i) (xs[i := x]) ret s3 = Some (ret, xs', s') \<and> iok s' \<and>
        length xs' = length (xs[i := x]) \<and> (\<forall>x \<in> set xs'. stat_room k x) \<and> tr (world s') = fold stp (due cnt ts) (tr (world s3))"
      using Cons.IH [of s3 "Suc i" "xs[i := x]"] c3 t(4) by blast
    with True t(1) g1 s2 g3 x c1 c3 i(1) show ?thesis by (simp add: due_Cons)
  qed
qed

lemma throttled_ok:
  assumes "iok s" "chain_ok own port k c" "ch_tstats_mode c \<noteq> TSTATS_DISABLED"
  shows "\<exists>c' s'. tstats_output_throttled E c now s = Some (c', s') \<and> iok s' \<and> chain_ok own port k c' \<and>
    ch_every_cnt c' = ch_every_cnt c \<and> ch_triggees c' = ch_triggees c \<and> ch_skip_first c' = ch_skip_first c \<and>
    tr (world s') = tr (world s)"
proof (cases "port = None \<or> now \<le> ch_last_msg c + ch_rate c")
  case True
  with assms show ?thesis by (auto simp: tstats_output_throttled_def chain_ok_def)
next
  case False
  then have p: "port \<noteq> None" "ch_p_tstats c = port" using assms(2) by (auto simp: chain_ok_def)
  let ?len = "int (length (ch_triggees c))"
  have idx: "0 \<le> ch_idx c" "ch_idx c \<le> ?len" using assms(2) by (auto simp: chain_ok_def)
  have nx: "0 \<le> (ch_idx c + 1) smod (?len + 1)" "(ch_idx c + 1) smod (?len + 1) \<le> ?len"
    using idx pos_mod_bound [of "?len + 1" "ch_idx c + 1"] by (simp_all add: smod_pos)
  have out: "\<exists>r s'. write_tstat E port x s = Some (r, s') \<and> iok s' \<and> tr (world s') = tr (world s)" for x
    using output_law [OF assms(1) p(1)] .
  show ?thesis
  proof (cases "ch_tstats_mode c = TSTATS_GLOBAL")
    case True
    from out [of "ch_global c"] obtain r s1 where
      "write_tstat E port (ch_global c) s = Some (r, s1)" "iok s1" "tr (world s1) = tr (world s)" by blast
    with True False p assms(2) show ?thesis by (auto simp: tstats_output_throttled_def chain_ok_def)
  next
    case per: False
    then have m: "ch_tstats_mode c = TSTATS_PERBLOCK" using assms(2,3) by (auto simp: chain_ok_def)
    with assms(2) obtain xs where xs: "ch_blk_tstats c = TB xs" "length xs = length (ch_triggees c)" by (auto simp: chain_ok_def)
    define x where "x = (if ch_idx c < ?len then xs ! nat (ch_idx c) else ch_global c)"
    have sel: "(if ch_idx c < ?len then if ch_idx c < 0 then None else blk_tstat c (nat (ch_idx c)) else Some (ch_global c)) = Some x"
      using idx xs by (auto simp: x_def blk_tstat_def)
    from out [of x] obtain r s1 where "write_tstat E port x s = Some (r, s1)" "iok s1" "tr (world s1) = tr (world s)" by blast
    with False p assms(2) per sel nx show ?thesis
      by (auto simp: tstats_output_throttled_def Let_def chain_ok_def simp del: if_split split del: if_split)
  qed
qed

lemma finish_ok:
  assumes "iok s" "chain_ok own port k (c\<lparr>ch_global := g\<rparr>)" "stat_room (Suc k) (ch_global c)" "ch_tstats_mode c \<noteq> TSTATS_DISABLED"
    "ts_canon a" "0 \<le> ts_val a" "ts_val a \<le> clock_max"
  shows "\<exists>c' s'. trig_finish E a c s = Some (c', s') \<and> iok s' \<and> chain_ok own port k c' \<and>
    ch_every_cnt c' = ch_every_cnt c \<and> ch_triggees c' = ch_triggees c \<and> ch_skip_first c' = ch_skip_first c \<and>
    tr (world s') = tr (world s)"
proof -
  obtain z s1 where g: "ubx_gettime E s = (z, s1)" by (cases "ubx_gettime E s")
  note c1 = clock_law [OF assms(1) g]
  from tstat_update_room [OF assms(3,5), of z] c1 assms(6,7) obtain x where
    x: "tstat_update (ch_global c) a z = Some x" "stat_room k x" by blast
  have ok: "chain_ok own port k (c\<lparr>ch_global := x\<rparr>)" using assms(2) x(2) by (simp add: chain_ok_def)
  from throttled_ok [OF _ ok, of s1 "ubx_ts_to_ns z"] c1 assms(4) ok g x show ?thesis
    by (auto simp: trig_finish_def Let_def)
qed

lemma chain_ok_less: "chain_ok own port (Suc k) c \<Longrightarrow> chain_ok own port k c"
  using stat_room_less unfolding chain_ok_def by metis

lemma trigger_ok:
  assumes "iok s" "chain_ok own port (Suc k) c"
  shows "\<exists>c' s'. ubx_chain_trigger E c s = Some (0, c', s') \<and> iok s' \<and> chain_ok own port k c' \<and>
    ch_every_cnt c' = ch_every_cnt c + 1 \<and> ch_triggees c' = ch_triggees c \<and>
    tr (world s') = fold stp (due (ch_every_cnt c) (ch_triggees c)) (tr (world s))"
proof -
  have ts: "triggees_ok own (ch_triggees c)" using assms(2) by (simp add: chain_ok_def)
  have lift: "?thesis" if "\<exists>c1 s1. (if ch_skip_first c > 0 then trig_stats_disabled E (c\<lparr>ch_skip_first := ch_skip_first c - 1\<rparr>) s
       else if ch_tstats_mode c = TSTATS_DISABLED then trig_stats_disabled E c s
       else if ch_tstats_mode c = TSTATS_GLOBAL then trig_stats_global E c s
       else if ch_tstats_mode c = TSTATS_PERBLOCK then trig_stats_perblock E c s
       else Some (-1, c, s)) = Some (0, c1, s1) \<and> iok s1 \<and> chain_ok own port k c1 \<and>
    ch_every_cnt c1 = ch_every_cnt c \<and> ch_triggees c1 = ch_triggees c \<and>
    tr (world s1) = fold stp (due (ch_every_cnt c) (ch_triggees c)) (tr (world s))"
    using that by (auto simp: ubx_chain_trigger_def chain_ok_def split del: if_split)
  from trig_loop_ok [OF assms(1) ts, of "ch_every_cnt c" 0] obtain s1 where
    s1: "trig_loop E (ch_every_cnt c) (ch_triggees c) 0 s = Some (0, s1)" "iok s1"
      "tr (world s1) = fold stp (due (ch_every_cnt c) (ch_triggees c)) (tr (world s))" by blast
  note ok = chain_ok_less [OF assms(2)]
  obtain a s2 where g: "ubx_gettime E s = (a, s2)" by (cases "ubx_gettime E s")
  note c1 = clock_law [OF assms(1) g]
  from trig_loop_ok [OF _ ts, of s2 "ch_every_cnt c" 0] c1 obtain s3 where
    s3: "trig_loop E (ch_every_cnt c) (ch_triggees c) 0 s2 = Some (0, s3)" "iok s3"
      "tr (world s3) = fold stp (due (ch_every_cnt c) (ch_triggees c)) (tr (world s))" by auto
  have room: "stat_room (Suc k) (ch_global c)" using assms(2) by (simp add: chain_ok_def)
  consider "ch_skip_first c > 0" | "\<not> ch_skip_first c > 0" "ch_tstats_mode c = TSTATS_DISABLED"
    | "\<not> ch_skip_first c > 0" "ch_tstats_mode c = TSTATS_GLOBAL" | "\<not> ch_skip_first c > 0" "ch_tstats_mode c = TSTATS_PERBLOCK"
    using assms(2) by (auto simp: chain_ok_def)
  then show ?thesis
  proof cases
    case 1
    with s1 ok show ?thesis by (intro lift) (simp add: trig_stats_disabled_def chain_ok_def)
  next
    case 2
    with s1 ok show ?thesis by (intro lift) (simp add: trig_stats_disabled_def)
  next
    case 3
    have nd: "ch_tstats_mode c \<noteq> TSTATS_DISABLED" using 3(2) by (simp add: tstats_modes)
    have "chain_ok own port k (c\<lparr>ch_global := ch_global c\<rparr>)" using ok by simp
    from finish_ok [OF s3(2) this room nd, of a] c1 obtain c' s' where
      "trig_finish E a c s3 = Some (c', s')" "iok s'" "chain_ok own port k c'" "ch_every_cnt c' = ch_every_cnt c"
      "ch_triggees c' = ch_triggees c" "tr (world s') = tr (world s3)" by blast
    with 3 nd g s3 show ?thesis by (intro lift) (simp add: trig_stats_global_def)
  next
    case 4
    have nd: "ch_tstats_mode c \<noteq> TSTATS_DISABLED" "ch_tstats_mode c \<noteq> TSTATS_GLOBAL" using 4(2) by (simp_all add: tstats_modes)
    from assms(2) 4(2) obtain xs where xs: "ch_blk_tstats c = TB xs" "length xs = length (ch_triggees c)"
      "\<forall>x \<in> set xs. stat_room (Suc k) x" by (auto simp: chain_ok_def)
    have "\<forall>x \<in> set xs. stat_room k x" "\<forall>x \<in> set (drop 0 xs). stat_room (Suc k) x" using xs(3) stat_room_less by auto
    from trig_loop_stats_ok [OF _ ts _ this, of s2 "ch_every_cnt c" 0] c1 xs(2) obtain xs' s4 where
      s4: "trig_loop_stats E (ch_every_cnt c) (ch_triggees c) 0 xs 0 s2 = Some (0, xs', s4)" "iok s4" "length xs' = length xs"
        "\<forall>x \<in> set xs'. stat_room k x" "tr (world s4) = fold stp (due (ch_every_cnt c) (ch_triggees c)) (tr (world s))" by auto
    let ?c = "c\<lparr>ch_blk_tstats := TB xs'\<rparr>"
    have "chain_ok own port k (?c\<lparr>ch_global := ch_global ?c\<rparr>)" using ok s4(3,4) xs(2) by (simp add: chain_ok_def)
    from finish_ok [OF s4(2) this _ _, of a] c1 room nd obtain c' s' where
      "trig_finish E a ?c s4 = Some (c', s')" "iok s'" "chain_ok own port k c'" "ch_every_cnt c' = ch_every_cnt c"
      "ch_triggees c' = ch_triggees c" "tr (world s') = tr (world s4)" by auto
    with 4 nd g s4 xs(1) show ?thesis by (intro lift) (simp add: trig_stats_perblock_def)
  qed
qed

lemma run_ok:
  assumes "iok s" "chain_ok own port n c"
  shows "\<exists>c' s'. chain_run E n c s = Some (c', s') \<and> iok s' \<and>
    tr (world s') = fold stp (concat (map (\<lambda>j. due (ch_every_cnt c + of_nat j) (ch_triggees c)) [0..<n])) (tr (world s))"
  using assms
proof (induction n arbitrary: s c)
  case (Suc n)
  from trigger_ok [OF Suc.prems] obtain c1 s1 where
    c1: "ubx_chain_trigger E c s = Some (0, c1, s1)" "iok s1" "chain_ok own port n c1" "ch_every_cnt c1 = ch_every_cnt c + 1"
      "ch_triggees c1 = ch_triggees c" "tr (world s1) = fold stp (due (ch_every_cnt c) (ch_triggees c)) (tr (world s))" by blast
  have "map (\<lambda>j. due (ch_every_cnt c + of_nat j) (ch_triggees c)) [0..<Suc n] =
      due (ch_every_cnt c) (ch_triggees c) # map (\<lambda>j. due (ch_every_cnt c1 + of_nat j) (ch_triggees c1)) [0..<n]"
    by (simp add: map_upt_Suc c1(4,5) add.assoc del: upt_Suc)
  with Suc.IH [OF c1(2,3)] c1 show ?case by (simp del: upt_Suc)
qed simp

end

section \<open>How often a block runs\<close>

lemma count_due:
  assumes "filter (\<lambda>u. tg_b u = Some b) ts = [t]" "triggees_ok own ts"
  shows "count_list (due cnt ts) b = (if cnt mod tg_every t = 0 then nat (tg_num_steps t) else 0)"
  using assms
proof (induction ts)
  case (Cons u ts)
  have rep: "count_list (replicate n x) y = (if x = y then n else 0)" for n and x y :: addr by (induction n) auto
  have none: "count_list (due cnt vs) b = 0" if "filter (\<lambda>u. tg_b u = Some b) vs = []" "triggees_ok own vs" for vs
    using that by (induction vs) (auto simp: due_def triggees_ok_Cons rep split: if_splits)
  show ?case
  proof (cases "tg_b u = Some b")
    case True
    with Cons.prems none [of ts] show ?thesis by (auto simp: due_Cons triggees_ok_Cons rep)
  next
    case False
    with Cons show ?thesis by (auto simp: due_Cons triggees_ok_Cons rep)
  qed
qed simp

lemma ceil_div_Suc: "0 < e \<Longrightarrow> (Suc n + e - 1) div e = (n + e - 1) div e + (if e dvd n then 1 else (0 :: nat))"
proof -
  assume e: "0 < e"
  obtain m where m: "e = Suc m" using e by (cases e) auto
  have "Suc (n + m) div Suc m = (n + m) div Suc m + (if Suc (n + m) mod Suc m = 0 then 1 else 0)" by (simp only: div_Suc) simp
  moreover have "Suc (n + m) mod Suc m = n mod Suc m" by (metis add_Suc_right mod_add_self2)
  ultimately show ?thesis by (simp add: m dvd_eq_mod_eq_0)
qed

lemma count_dues:
  assumes "filter (\<lambda>u. tg_b u = Some b) ts = [t]" "triggees_ok own ts" "n \<le> 2 ^ 32"
  shows "count_list (concat (map (\<lambda>j. due (of_nat j) ts) [0..<n])) b =
    nat (tg_num_steps t) * ((n + unat (tg_every t) - 1) div unat (tg_every t))"
  using assms(3)
proof (induction n)
  case 0
  then show ?case by (cases "unat (tg_every t)") simp_all
next
  case (Suc n)
  have "t \<in> set (filter (\<lambda>u. tg_b u = Some b) ts)" using assms(1) by simp
  with assms(2) have e: "0 < unat (tg_every t)" by (auto simp: triggees_ok_def unat_gt_0)
  have "unat (of_nat n :: u32) = n" using Suc.prems by (simp add: unsigned_of_nat take_bit_nat_eq_self)
  then have "(of_nat n mod tg_every t = 0) = (unat (tg_every t) dvd n)"
    by (simp add: unat_mod_distrib dvd_eq_mod_eq_0 flip: unat_eq_zero)
  with Suc.IH Suc.prems count_due [OF assms(1,2), of "of_nat n"] ceil_div_Suc [OF e, of n] show ?case
    by (simp add: algebra_simps)
qed

section \<open>A node whose blocks log their steps\<close>

text \<open>The world: a clock in seconds, and the blocks that were stepped. The output port, if any, is not connected.\<close>

type_synonym step_log = "nat \<times> addr list"

definition log_hooks :: "step_log hooks" where
  "log_hooks = \<lparr>hk_init = (\<lambda>f b s. Some (0, s)), hk_start = (\<lambda>f b s. Some (0, s)), hk_stop = (\<lambda>f b. Some),
     hk_cleanup = (\<lambda>f b. Some), hk_step = (\<lambda>f b s. Some (s\<lparr>world := (fst (world s), snd (world s) @ [b])\<rparr>)),
     hk_read = (\<lambda>f b d s. Some (0, s)), hk_write = (\<lambda>f b d. Some)\<rparr>"

definition log_env :: "step_log chain_env" where
  "log_env = \<lparr>ce_ut = ut_ref, ce_hooks = log_hooks,
     ce_clock = (\<lambda>(n, l). (\<lparr>sec = int (n mod 1000000000), nsec = 0\<rparr>, (Suc n, l))), ce_bytes = (\<lambda>x. [])\<rparr>"

definition log_ok :: "addr set \<Rightarrow> ptr \<Rightarrow> 'w ubx \<Rightarrow> bool" where
  "log_ok own port s \<longleftrightarrow> node_ok s \<and> (\<forall>b \<in> own. \<exists>blk f n. blks s b = Some blk \<and> b_type blk = BLOCK_TYPE_COMPUTATION \<and>
     b_state blk = BLOCK_STATE_ACTIVE \<and> b_ops blk = Ops_comp (Some f) n) \<and>
     (\<forall>p. port = Some p \<longrightarrow> (\<exists>prt. prts s p = Some prt \<and> p_out_interaction prt = None))"

lemma log_ok_blk:
  assumes "log_ok own port s" "b \<in> own"
  obtains blk f n where "blks s b = Some blk" "b_type blk = BLOCK_TYPE_COMPUTATION" "b_state blk = BLOCK_STATE_ACTIVE"
    "b_ops blk = Ops_comp (Some f) n"
  using assms unfolding log_ok_def by blast

lemma log_ok_frame:
  assumes "log_ok own port s" "stat_frame s s'" "dats s' = dats s"
  shows "log_ok own port s'"
proof -
  have p: "prts s' = prts s" using assms(2) by (simp add: stat_frame_def)
  have b: "blks s' a = blks s a" if "a \<in> own" for a
  proof -
    from log_ok_blk [OF assms(1) that] obtain blk f n where "blks s a = Some blk" "b_ops blk = Ops_comp (Some f) n" .
    with stat_frame_blkD [OF assms(2), of a] show ?thesis by auto
  qed
  have "node_ok s'" using assms(1) by (intro node_ok_frame [OF _ assms(2)]) (simp_all add: log_ok_def assms(3))
  with assms(1) b p show ?thesis by (simp add: log_ok_def)
qed

lemma log_step:
  assumes "log_ok own port s" "b \<in> own"
  shows "\<exists>s'. ubx_cblock_step log_hooks (Some b) s = Some (0, s') \<and> log_ok own port s' \<and> snd (world s') = snd (world s) @ [b]"
proof -
  from log_ok_blk [OF assms] obtain blk f n where
    b: "blks s b = Some blk" "b_type blk = BLOCK_TYPE_COMPUTATION" "b_state blk = BLOCK_STATE_ACTIVE" "b_ops blk = Ops_comp (Some f) n" .
  let ?s = "s\<lparr>world := (fst (world s), snd (world s) @ [b]), blks := (blks s)(b \<mapsto> blk\<lparr>b_ops := Ops_comp (Some f) (n + 1)\<rparr>)\<rparr>"
  have st: "ubx_cblock_step log_hooks (Some b) s = Some (0, ?s)"
    using b by (simp add: ubx_cblock_step_def log_hooks_def count_step_def)
  have "node_ok ?s" using assms(1) b(1) unfolding log_ok_def node_ok_def by auto
  moreover have "\<exists>blk f n. blks ?s a = Some blk \<and> b_type blk = BLOCK_TYPE_COMPUTATION \<and>
     b_state blk = BLOCK_STATE_ACTIVE \<and> b_ops blk = Ops_comp (Some f) n" if "a \<in> own" for a
  proof -
    from log_ok_blk [OF assms(1) that] obtain blk' f' n' where "blks s a = Some blk'" "b_type blk' = BLOCK_TYPE_COMPUTATION"
      "b_state blk' = BLOCK_STATE_ACTIVE" "b_ops blk' = Ops_comp (Some f') n'" .
    with b show ?thesis by (cases "a = b") auto
  qed
  ultimately have "log_ok own port ?s" using assms(1) by (simp add: log_ok_def)
  with st show ?thesis by auto
qed

lemma log_clock:
  assumes "log_ok own port s" "ubx_gettime log_env s = (t, s')"
  shows "log_ok own port s'" "snd (world s') = snd (world s)" "ts_canon t" "0 \<le> ts_val t" "ts_val t \<le> clock_max"
proof -
  obtain n l where w: "world s = (n, l)" by (cases "world s")
  have r: "t = \<lparr>sec = int (n mod 1000000000), nsec = 0\<rparr>" "s' = s\<lparr>world := (Suc n, l)\<rparr>"
    using assms(2) w by (simp_all add: ubx_gettime_def log_env_def)
  show "log_ok own port s'" using assms(1) unfolding r(2) by (simp add: log_ok_def node_ok_def)
  show "snd (world s') = snd (world s)" "ts_canon t" "0 \<le> ts_val t"
    using w by (simp_all add: r ts_canon_def ts_val_def time_consts)
  have "n mod 1000000000 < 1000000000" by simp
  then show "ts_val t \<le> clock_max" by (simp add: r ts_val_def time_consts clock_max_def)
qed

lemma log_output:
  assumes "log_ok own port s" "port \<noteq> None"
  shows "\<exists>r s'. write_tstat log_env port x s = Some (r, s') \<and> log_ok own port s' \<and> snd (world s') = snd (world s)"
proof -
  from assms obtain p prt where p: "port = Some p" "prts s p = Some prt" "p_out_interaction prt = None" "node_ok s"
    unfolding log_ok_def by blast
  from write_array_unconnected [OF p(4,2,3)] p(1) obtain r s' where
    "write_tstat log_env port x s = Some (r, s')" "stat_frame s s'" "dats s' = dats s" "world s' = world s"
    unfolding write_tstat_def by blast
  with log_ok_frame [OF assms(1)] show ?thesis by auto
qed

interpretation logged: chain_laws log_env own port "log_ok own port" snd "\<lambda>b xs. xs @ [b]"
proof
  fix s :: "step_log ubx" and b
  assume "log_ok own port s" "b \<in> own"
  from log_step [OF this]
  show "\<exists>s'. ubx_cblock_step (ce_hooks log_env) (Some b) s = Some (0, s') \<and> log_ok own port s' \<and>
    snd (world s') = snd (world s) @ [b]" by (simp add: log_env_def)
next
  fix s s' :: "step_log ubx" and t
  assume "log_ok own port s" "ubx_gettime log_env s = (t, s')"
  from log_clock [OF this]
  show "log_ok own port s' \<and> snd (world s') = snd (world s) \<and> ts_canon t \<and> 0 \<le> ts_val t \<and> ts_val t \<le> clock_max" by blast
qed (rule log_output)

definition log_blk :: ubx_block where
  "log_blk = (mk_blk ''b'' BLOCK_TYPE_COMPUTATION [])\<lparr>b_state := BLOCK_STATE_ACTIVE, b_ops := Ops_comp (Some 1) 0\<rparr>"

definition log_node :: "step_log ubx" where
  "log_node = \<lparr>nd_name = ''n'', nd_blocks = [], nd_types = [], nd_modules = [], nd_cur_seqid = 0, nd_attrs = 0, nd_loglevel = 6,
     blks = [1 \<mapsto> log_blk, 2 \<mapsto> log_blk], prts = Map.empty, cfgs = Map.empty, typs = Map.empty, dats = Map.empty,
     mods = Map.empty, static_type = (\<lambda>_. None), next_addr = 100, oom = [], world = (0, [])\<rparr>"

definition log_chain :: "int \<Rightarrow> ubx_chain" where
  "log_chain mode = \<lparr>ch_triggees = [\<lparr>tg_b = Some 1, tg_every = 1, tg_num_steps = 1\<rparr>, \<lparr>tg_b = Some 2, tg_every = 3, tg_num_steps = 2\<rparr>],
     ch_tstats_mode = mode, ch_skip_first = 0, ch_p_tstats = None, ch_every_cnt = 0, ch_global = tstat_init ''#total#'',
     ch_blk_tstats = TB [tstat_init ''b'', tstat_init ''b''], ch_rate = 0, ch_last_msg = 0, ch_idx = 0\<rparr>"

lemma log_node_ok: "log_ok {1, 2} None log_node"
proof -
  have "node_ok log_node"
    by (auto simp: node_ok_def log_node_def fresh_from_def log_blk_def mk_blk_def split: if_splits)
  moreover have "blks log_node 1 = Some log_blk" "blks log_node 2 = Some log_blk" by (simp_all add: log_node_def)
  moreover have "b_type log_blk = BLOCK_TYPE_COMPUTATION" "b_state log_blk = BLOCK_STATE_ACTIVE" "b_ops log_blk = Ops_comp (Some 1) 0"
    by (simp_all add: log_blk_def mk_blk_def)
  ultimately show ?thesis by (simp add: log_ok_def)
qed

lemma log_chain_ok: "mode \<in> {TSTATS_DISABLED, TSTATS_GLOBAL, TSTATS_PERBLOCK} \<Longrightarrow> n \<le> 1000000000 \<Longrightarrow> chain_ok {1, 2} None n (log_chain mode)"
  by (auto simp: chain_ok_def log_chain_def triggees_ok_def stat_room_def tstat_init_def tstat_init2_def ts_canon_def ts_val_def
      clock_max_def time_consts)

section \<open>Properties\<close>

text \<open>C27: whatever the statistics mode, the steps still to skip and the state of the output, triggering a chain steps exactly
  the blocks that are due at the current count, in the order of the chain, each \<open>num_steps\<close> times and nothing else, returns
  \<open>0\<close>, and increments the count. The chain stays ready for the next trigger.\<close>

theorem chain_trigger_due:
  assumes "chain_laws E own port iok tr stp" "iok s" "chain_ok own port (Suc k) c"
  shows "\<exists>c' s'. ubx_chain_trigger E c s = Some (0, c', s') \<and> iok s' \<and> chain_ok own port k c' \<and>
    ch_every_cnt c' = ch_every_cnt c + 1 \<and> ch_triggees c' = ch_triggees c \<and>
    tr (world s') = fold stp (due (ch_every_cnt c) (ch_triggees c)) (tr (world s))"
  using assms by (rule chain_laws.trigger_ok)

theorem chain_trigger_due_witness:
  "\<exists>c' s'. ubx_chain_trigger log_env (log_chain TSTATS_PERBLOCK) log_node = Some (0, c', s') \<and> snd (world s') = [1, 2, 2]"
proof -
  have "chain_ok {1, 2} None (Suc 0) (log_chain TSTATS_PERBLOCK)" by (rule log_chain_ok) simp_all
  from chain_trigger_due [OF logged.chain_laws_axioms log_node_ok this] show ?thesis
    by (auto simp: log_chain_def due_def log_node_def numeral_2_eq_2)
qed

text \<open>C28: in the first \<open>n\<close> triggers of a freshly initialised chain, for \<open>n\<close> up to 2^32, a block that is in the chain once
  with divider \<open>e\<close> and \<open>m\<close> steps is stepped exactly \<open>m\<close> times in every \<open>e\<close>-th trigger, beginning with the
  first: \<open>m\<close> times the quotient \<open>n / e\<close>, rounded up.\<close>

theorem chain_rate:
  assumes "chain_laws E own port iok tr (\<lambda>b xs. xs @ [b])" "iok s" "chain_ok own port n c" "ch_every_cnt c = 0"
    "filter (\<lambda>u. tg_b u = Some b) (ch_triggees c) = [t]" "n \<le> 2 ^ 32" "e = unat (tg_every t)" "m = nat (tg_num_steps t)"
  shows "\<exists>c' s'. chain_run E n c s = Some (c', s') \<and>
    count_list (tr (world s')) b = count_list (tr (world s)) b + m * ((n + e - 1) div e)"
proof -
  have fl: "fold (\<lambda>b xs. xs @ [b]) ys zs = zs @ ys" for ys zs :: "addr list" by (induction ys arbitrary: zs) simp_all
  have ok: "triggees_ok own (ch_triggees c)" using assms(3) by (simp add: chain_ok_def)
  from chain_laws.run_ok [OF assms(1-3)] obtain c' s' where
    r: "chain_run E n c s = Some (c', s')" "tr (world s') = tr (world s) @ concat (map (\<lambda>j. due (of_nat j) (ch_triggees c)) [0..<n])"
    by (auto simp: fl assms(4))
  with count_dues [OF assms(5) ok assms(6)] assms(7,8) show ?thesis by simp
qed

theorem chain_rate_witness:
  "\<exists>c' s'. chain_run log_env 1000 (log_chain TSTATS_GLOBAL) log_node = Some (c', s') \<and> count_list (snd (world s')) 2 = 668"
proof -
  have c: "chain_ok {1, 2} None 1000 (log_chain TSTATS_GLOBAL)" by (rule log_chain_ok) simp_all
  from chain_rate [OF logged.chain_laws_axioms log_node_ok c _ _ _ refl refl, of 2 "\<lparr>tg_b = Some 2, tg_every = 3, tg_num_steps = 2\<rparr>"]
  show ?thesis by (simp add: log_chain_def log_node_def)
qed

text \<open>The counter is 32 bits wide and a divider need not divide 2^32: when the counter wraps around the rate is not kept.
  A block with \<open>every = 3\<close> runs in the last trigger before the wrap-around and in the first after it.\<close>

theorem every_wraps:
  assumes "chain_laws E own port iok tr stp" "iok s" "chain_ok own port 2 c" "ch_every_cnt c = 2 ^ 32 - 1"
    "ch_triggees c = [\<lparr>tg_b = Some b, tg_every = 3, tg_num_steps = 1\<rparr>]"
  shows "\<exists>c' s'. chain_run E 2 c s = Some (c', s') \<and> tr (world s') = stp b (stp b (tr (world s)))"
proof -
  have "concat (map (\<lambda>j. due (ch_every_cnt c + of_nat j) (ch_triggees c)) [0..<2]) = [b, b]"
    by (simp add: upt_rec due_def assms(4,5))
  with chain_laws.run_ok [OF assms(1-3)] show ?thesis by auto
qed

theorem every_wraps_witness:
  "\<exists>c c' s'. chain_run log_env 2 c log_node = Some (c', s') \<and> ch_every_cnt c = 2 ^ 32 - 1 \<and> snd (world s') = [2, 2]"
proof -
  let ?c = "(log_chain TSTATS_DISABLED)\<lparr>ch_every_cnt := 2 ^ 32 - 1, ch_triggees := [\<lparr>tg_b = Some 2, tg_every = 3, tg_num_steps = 1\<rparr>]\<rparr>"
  have "chain_ok {1, 2} None 2 ?c"
    using log_chain_ok [of TSTATS_DISABLED 2] by (simp add: chain_ok_def tstats_modes log_chain_def triggees_ok_def)
  from every_wraps [OF logged.chain_laws_axioms log_node_ok this] have
    "\<exists>c' s'. chain_run log_env 2 ?c log_node = Some (c', s') \<and> snd (world s') = [2, 2]" by (simp add: log_node_def)
  moreover have "ch_every_cnt ?c = 2 ^ 32 - 1" by simp
  ultimately show ?thesis by blast
qed

end
