(* ===== verification/Ubx_Cyclic.thy ===== *)
theory Ubx_Cyclic
  imports Ubx_Rw
begin

text \<open>
  The standard interaction block, \<^verbatim>\<open>std_blocks/lfds_buffers/lfds_cyclic.c\<close>: a bounded queue of samples of one
  type in which a write to a full queue replaces the oldest sample. The lock-free ring buffer it is built on is the external
  library \<open>liblfds\<close>, a parameter restricted by the locale \<open>ring_laws\<close>. The lemmas show that the block
  refines a bounded queue, that it obeys the contract \<open>io_hooks\<close> of interaction blocks, and that a port connection through
  it is a first-in first-out pipe.
\<close>

section \<open>The ring buffer library\<close>

text \<open>
  \<open>lfds611_ringbuffer_new\<close> with the elements its callback initialises (\<open>None\<close> when memory is exhausted),
  \<open>..._get_write_element\<close> with the flag that an unread element was taken, \<open>..._put_write_element\<close>,
  \<open>..._get_read_element\<close> and \<open>..._put_read_element\<close>.
\<close>

record 'q rb_lib =
  rb_new :: "nat \<Rightarrow> ('q \<times> nat list) option"
  rb_get_write :: "'q \<Rightarrow> nat \<times> bool \<times> 'q"
  rb_put_write :: "nat \<Rightarrow> 'q \<Rightarrow> 'q"
  rb_get_read :: "'q \<Rightarrow> nat option \<times> 'q"
  rb_put_read :: "nat \<Rightarrow> 'q \<Rightarrow> 'q"

text \<open>
  What the documentation promises to one writer and one reader that do not interrupt each other: a fixed set of elements,
  some of them queued and at most one in the hands of the client. A write takes an unused element, or the oldest queued one if
  there is none; reads take the oldest.
\<close>

locale ring_laws =
  fixes R :: "'q rb_lib" and rok :: "'q \<Rightarrow> bool" and rall :: "'q \<Rightarrow> nat set" and queue :: "'q \<Rightarrow> nat list"
    and held :: "'q \<Rightarrow> nat option"
  assumes ring_wf: "rok q \<Longrightarrow> distinct (queue q) \<and> set (queue q) \<subseteq> rall q \<and> finite (rall q)"
    and new_law: "rb_new R n = Some (q, es) \<Longrightarrow> rok q \<and> queue q = [] \<and> held q = None \<and> rall q = set es \<and> card (set es) = n"
    and get_write_law: "rok q \<Longrightarrow> held q = None \<Longrightarrow> rall q \<noteq> {} \<Longrightarrow> rb_get_write R q = (e, over, q') \<Longrightarrow>
      rok q' \<and> rall q' = rall q \<and> e \<in> rall q \<and> held q' = Some e \<and> e \<notin> set (queue q') \<and>
      over = (length (queue q) = card (rall q)) \<and> queue q' = (if over then tl (queue q) else queue q)"
    and put_write_law: "rok q \<Longrightarrow> held q = Some e \<Longrightarrow> e \<in> rall q \<Longrightarrow> e \<notin> set (queue q) \<Longrightarrow>
      rok (rb_put_write R e q) \<and> rall (rb_put_write R e q) = rall q \<and> held (rb_put_write R e q) = None \<and>
      queue (rb_put_write R e q) = queue q @ [e]"
    and get_read_law: "rok q \<Longrightarrow> held q = None \<Longrightarrow> rb_get_read R q = (p, q') \<Longrightarrow>
      rok q' \<and> rall q' = rall q \<and> held q' = p \<and> queue q' = tl (queue q) \<and>
      p = (case queue q of [] \<Rightarrow> None | e # _ \<Rightarrow> Some e)"
    and put_read_law: "rok q \<Longrightarrow> held q = Some e \<Longrightarrow>
      rok (rb_put_read R e q) \<and> rall (rb_put_read R e q) = rall q \<and> held (rb_put_read R e q) = None \<and>
      queue (rb_put_read R e q) = queue q"

subsection \<open>An instance\<close>

record ring =
  r_all :: "nat list"
  r_queue :: "nat list"
  r_held :: "nat option"

definition ring_ref :: "ring rb_lib" where
  "ring_ref = \<lparr>rb_new = (\<lambda>n. Some (\<lparr>r_all = [0..<n], r_queue = [], r_held = None\<rparr>, [0..<n])),
     rb_get_write = (\<lambda>q. case filter (\<lambda>e. e \<notin> set (r_queue q)) (r_all q) of
         e # _ \<Rightarrow> (e, False, q\<lparr>r_held := Some e\<rparr>)
       | [] \<Rightarrow> (hd (r_queue q), True, q\<lparr>r_held := Some (hd (r_queue q)), r_queue := tl (r_queue q)\<rparr>)),
     rb_put_write = (\<lambda>e q. q\<lparr>r_queue := r_queue q @ [e], r_held := None\<rparr>),
     rb_get_read = (\<lambda>q. case r_queue q of [] \<Rightarrow> (None, q) | e # es \<Rightarrow> (Some e, q\<lparr>r_queue := es, r_held := Some e\<rparr>)),
     rb_put_read = (\<lambda>e q. q\<lparr>r_held := None\<rparr>)\<rparr>"

definition ring_ok :: "ring \<Rightarrow> bool" where
  "ring_ok q \<longleftrightarrow> distinct (r_queue q) \<and> set (r_queue q) \<subseteq> set (r_all q)"

lemma full_iff:
  assumes "distinct xs" "set xs \<subseteq> set ys"
  shows "length xs = card (set ys) \<longleftrightarrow> filter (\<lambda>e. e \<notin> set xs) ys = []"
proof -
  have "length xs = card (set xs)" using assms(1) by (simp add: distinct_card)
  then have "length xs = card (set ys) \<longleftrightarrow> set xs = set ys"
    using assms(2) card_subset_eq [of "set ys" "set xs"] by auto
  then show ?thesis using assms(2) by (auto simp: filter_empty_conv)
qed

lemma ring_get_write:
  assumes "ring_ok q" "r_all q \<noteq> []" "rb_get_write ring_ref q = (e, over, q')"
  shows "ring_ok q' \<and> r_all q' = r_all q \<and> e \<in> set (r_all q) \<and> r_held q' = Some e \<and> e \<notin> set (r_queue q') \<and>
    over = (length (r_queue q) = card (set (r_all q))) \<and> r_queue q' = (if over then tl (r_queue q) else r_queue q)"
proof (cases "filter (\<lambda>e. e \<notin> set (r_queue q)) (r_all q)")
  case Nil
  then have "set (r_all q) \<subseteq> set (r_queue q)" by (auto simp: filter_empty_conv)
  with assms(2) obtain x xs where "r_queue q = x # xs" by (cases "r_queue q") auto
  with assms Nil full_iff [of "r_queue q" "r_all q"] show ?thesis by (auto simp: ring_ref_def ring_ok_def)
next
  case (Cons x xs)
  then have "x \<in> set (filter (\<lambda>e. e \<notin> set (r_queue q)) (r_all q))" by simp
  then have "x \<in> set (r_all q)" "x \<notin> set (r_queue q)" by simp_all
  with assms Cons full_iff [of "r_queue q" "r_all q"] show ?thesis by (auto simp: ring_ref_def ring_ok_def)
qed

interpretation ref_ring: ring_laws ring_ref ring_ok "\<lambda>q. set (r_all q)" r_queue r_held
proof (unfold_locales, goal_cases)
  case (3 q e over q')
  then show ?case using ring_get_write [of q e over q'] by auto
next
  case (5 q p q')
  then show ?case by (cases "r_queue q") (auto simp: ring_ref_def ring_ok_def)
qed (auto simp: ring_ref_def ring_ok_def)

section \<open>The block\<close>

record elem_hdr =
  hd_len :: int
  hd_data :: "u8 list"

text \<open>\<open>struct cyclic_block_info\<close>, with the user data of the ring's elements.\<close>

record 'q cyclic_info =
  ci_type :: ptr
  ci_data_len :: int
  ci_buffer_len :: int
  ci_rbs :: 'q
  ci_elems :: "nat \<Rightarrow> elem_hdr option"
  ci_allow_partial :: int
  ci_overruns :: u64
  ci_p_overruns :: addr
  ci_loglevel :: int

text \<open>The private data of the blocks.\<close>

type_synonym 'q cyc_world = "addr \<Rightarrow> 'q cyclic_info option"

definition set_ci :: "addr \<Rightarrow> 'q cyclic_info option \<Rightarrow> 'q cyc_world ubx \<Rightarrow> 'q cyc_world ubx" where
  "set_ci i bi s = s\<lparr>world := (world s)(i := bi)\<rparr>"

definition UBX_LOGLEVEL_NOTICE :: int where "UBX_LOGLEVEL_NOTICE = 5"
definition UBX_LOGLEVEL_DEBUG :: int where "UBX_LOGLEVEL_DEBUG = 7"

text \<open>\<open>cyclic_data_elem_init\<close>: a zeroed element with room for a sample.\<close>

definition elem_init :: "int \<Rightarrow> int \<Rightarrow> elem_hdr" where
  "elem_init data_len sz = \<lparr>hd_len = 0, hd_data = replicate (nat (data_len * sz)) 0\<rparr>"

text \<open>A config with at most one value: \<open>(len > 0) ? *val : dflt\<close>. The assertion \<open>len >= 0\<close> aborts.\<close>

definition cfg_or :: "(ptr \<Rightarrow> 'w ubx \<Rightarrow> int option) \<Rightarrow> int \<Rightarrow> int \<times> ptr \<times> 'w ubx \<Rightarrow> (int \<times> 'w ubx) option" where
  "cfg_or load dflt r =
     (case r of (len, p, s) \<Rightarrow>
        if len < 0 then None
        else if len > 0 then do { v \<leftarrow> load p s; Some (v, s) } else Some (dflt, s))"

text \<open>The failure path frees the private data; the first allocation may fail as well.\<close>

definition cyclic_fail :: "addr \<Rightarrow> int \<Rightarrow> 'q cyc_world ubx \<Rightarrow> (int \<times> 'q cyc_world ubx) option" where
  "cyclic_fail i e s = Some (e, set_ci i None s)"

definition cyclic_mk ::
  "ut_lib \<Rightarrow> 'q rb_lib \<Rightarrow> addr \<Rightarrow> int \<Rightarrow> int \<Rightarrow> int \<Rightarrow> string \<Rightarrow> 'q cyc_world ubx \<Rightarrow> (int \<times> 'q cyc_world ubx) option" where
  "cyclic_mk U R i loglevel buffer_len data_len type_name s = do {
     blk \<leftarrow> blks s i;
     if \<not> b_nd blk then None
     else (case ubx_type_get U s (Some type_name) of
         None \<Rightarrow> do { _ \<leftarrow> ubx_block_log blk s; cyclic_fail i EINVALID_CONFIG s }
       | Some t \<Rightarrow> do {
           ty \<leftarrow> typs s t;
           (case rb_new R (nat buffer_len) of
               None \<Rightarrow> do { _ \<leftarrow> ubx_block_log blk s; cyclic_fail i EOUTOFMEM s }
             | Some qe \<Rightarrow> do {
                 r \<leftarrow> getptr U ''int'' ''int'' i ''allow_partial'' s;
                 (allow_partial, s) \<leftarrow> cfg_or load_int 0 r;
                 p \<leftarrow> ubx_port_get (Some i) (Some ''overruns'') s;
                 p_overruns \<leftarrow> p;
                 Some (0, set_ci i (Some \<lparr>ci_type = Some t, ci_data_len = data_len, ci_buffer_len = buffer_len, ci_rbs = fst qe,
                   ci_elems = (\<lambda>e. if e \<in> set (snd qe) then Some (elem_init data_len (t_size ty)) else None),
                   ci_allow_partial = allow_partial, ci_overruns = 0, ci_p_overruns = p_overruns,
                   ci_loglevel = loglevel\<rparr>) s) }) }) }"

definition cyclic_lens ::
  "ut_lib \<Rightarrow> 'q rb_lib \<Rightarrow> addr \<Rightarrow> int \<Rightarrow> int \<Rightarrow> 'q cyc_world ubx \<Rightarrow> (int \<times> 'q cyc_world ubx) option" where
  "cyclic_lens U R i loglevel buffer_len s = do {
     r \<leftarrow> getptr U ''uint32'' ''uint32_t'' i ''data_len'' s;
     if fst r < 0 then cyclic_fail i (- 1) (snd (snd r))
     else do {
       (data_len, s) \<leftarrow> cfg_or load_u32 1 r;
       (len, p, s) \<leftarrow> getptr U ''char'' ''char'' i ''type_name'' s;
       if len \<le> 0 then None
       else do {
         type_name \<leftarrow> load_string p s;
         cyclic_mk U R i loglevel buffer_len data_len type_name s } } }"

definition cyclic_init :: "ut_lib \<Rightarrow> 'q rb_lib \<Rightarrow> addr \<Rightarrow> 'q cyc_world ubx \<Rightarrow> (int \<times> 'q cyc_world ubx) option" where
  "cyclic_init U R i s = do {
     blk \<leftarrow> blks s i;
     let (ok, s) = mem_alloc s;
     if \<not> ok then do { _ \<leftarrow> ubx_block_log blk s; Some (EOUTOFMEM, set_ci i None s) }
     else do {
       r \<leftarrow> getptr U ''int'' ''int'' i ''loglevel_overruns'' s;
       (loglevel, s) \<leftarrow> cfg_or load_int UBX_LOGLEVEL_NOTICE r;
       if loglevel < - 1 \<or> loglevel > UBX_LOGLEVEL_DEBUG
       then do { _ \<leftarrow> ubx_block_log blk s; cyclic_fail i EINVALID_CONFIG s }
       else do {
         r \<leftarrow> getptr U ''uint32'' ''uint32_t'' i ''buffer_len'' s;
         (buffer_len, s) \<leftarrow> cfg_or load_u32 1 r;
         if buffer_len = 0 then do { _ \<leftarrow> ubx_block_log blk s; cyclic_fail i EINVALID_CONFIG s }
         else cyclic_lens U R i loglevel buffer_len s } } }"

definition cyclic_cleanup :: "addr \<Rightarrow> 'q cyc_world ubx \<Rightarrow> 'q cyc_world ubx option" where
  "cyclic_cleanup i s = do { inf \<leftarrow> world s i; Some (set_ci i None s) }"

text \<open>\<open>memcpy(dst, src, n)\<close>\<close>

definition memcpy :: "u8 list \<Rightarrow> u8 list \<Rightarrow> int \<Rightarrow> u8 list option" where
  "memcpy dst src n =
     (if 0 \<le> n \<and> nat n \<le> length dst \<and> nat n \<le> length src then Some (take (nat n) src @ drop (nat n) dst) else None)"

definition buf_bytes :: "buf \<Rightarrow> u8 list option" where
  "buf_bytes b = (case b of Buf bs \<Rightarrow> Some bs | _ \<Rightarrow> None)"

definition bytes_of_u64 :: "u64 \<Rightarrow> u8 list" where
  "bytes_of_u64 w = map (\<lambda>k. ucast (drop_bit (8 * k) w)) [0..<8]"

text \<open>Counting and reporting an overrun. \<open>H\<close> are the hooks of the blocks the port \<open>overruns\<close> is connected to.\<close>

definition cyclic_overrun :: "ut_lib \<Rightarrow> 'q cyc_world hooks \<Rightarrow> addr \<Rightarrow> 'q cyc_world ubx \<Rightarrow> 'q cyc_world ubx option" where
  "cyclic_overrun U H i s = do {
     inf \<leftarrow> world s i;
     let n = ci_overruns inf + 1;
     let s = set_ci i (Some (inf\<lparr>ci_overruns := n\<rparr>)) s;
     (r, s) \<leftarrow> write_one U H ''ulong'' (Some (ci_p_overruns inf)) (bytes_of_u64 n) s;
     inf \<leftarrow> world s i;
     if ci_loglevel inf \<ge> 0 then do { blk \<leftarrow> blks s i; _ \<leftarrow> ubx_block_log blk s; Some s } else Some s }"

definition cyclic_write ::
  "ut_lib \<Rightarrow> 'q rb_lib \<Rightarrow> 'q cyc_world hooks \<Rightarrow> addr \<Rightarrow> addr \<Rightarrow> 'q cyc_world ubx \<Rightarrow> 'q cyc_world ubx option" where
  "cyclic_write U R H i d s = do {
     inf \<leftarrow> world s i;
     dat \<leftarrow> dats s d;
     blk \<leftarrow> blks s i;
     if ci_type inf \<noteq> d_type dat then do { _ \<leftarrow> ubx_block_log blk s; Some s }
     else if (if ci_allow_partial inf \<noteq> 0 then d_len dat > ci_data_len inf else d_len dat \<noteq> ci_data_len inf)
     then do { _ \<leftarrow> ubx_block_log blk s; Some s }
     else do {
       let (e, over, q) = rb_get_write R (ci_rbs inf);
       let s = set_ci i (Some (inf\<lparr>ci_rbs := q\<rparr>)) s;
       s \<leftarrow> (if over then cyclic_overrun U H i s else Some s);
       inf \<leftarrow> world s i;
       hdr \<leftarrow> ci_elems inf e;
       dat \<leftarrow> dats s d;
       len \<leftarrow> data_size (Some d) s;
       src \<leftarrow> buf_bytes (d_data dat);
       bs \<leftarrow> memcpy (hd_data hdr) src len;
       Some (set_ci i (Some (inf\<lparr>ci_elems := (ci_elems inf)(e \<mapsto> \<lparr>hd_len = d_len dat, hd_data = bs\<rparr>),
         ci_rbs := rb_put_write R e (ci_rbs inf)\<rparr>)) s) } }"

definition cyclic_read ::
  "ut_lib \<Rightarrow> 'q rb_lib \<Rightarrow> addr \<Rightarrow> addr \<Rightarrow> 'q cyc_world ubx \<Rightarrow> (int \<times> 'q cyc_world ubx) option" where
  "cyclic_read U R i d s = do {
     inf \<leftarrow> world s i;
     dat \<leftarrow> dats s d;
     blk \<leftarrow> blks s i;
     if ci_type inf \<noteq> d_type dat then do { _ \<leftarrow> ubx_block_log blk s; Some (EINVALID_TYPE, s) }
     else (case rb_get_read R (ci_rbs inf) of
         (None, q) \<Rightarrow> Some (0, set_ci i (Some (inf\<lparr>ci_rbs := q\<rparr>)) s)
       | (Some e, q) \<Rightarrow> do {
           hdr \<leftarrow> ci_elems inf e;
           _ \<leftarrow> (if d_len dat < hd_len hdr then ubx_block_log blk s else Some ());
           let readlen = min (d_len dat) (hd_len hdr);
           t \<leftarrow> ci_type inf;
           ty \<leftarrow> typs s t;
           dst \<leftarrow> buf_bytes (d_data dat);
           bs \<leftarrow> memcpy dst (hd_data hdr) (t_size ty * readlen);
           Some (readlen, set_ci i (Some (inf\<lparr>ci_rbs := rb_put_read R e q\<rparr>))
             (s\<lparr>dats := (dats s)(d \<mapsto> dat\<lparr>d_data := Buf bs\<rparr>)\<rparr>)) }) }"

text \<open>The hooks of a node whose interaction blocks are all of this type.\<close>

definition cyclic_hooks :: "ut_lib \<Rightarrow> 'q rb_lib \<Rightarrow> 'q cyc_world hooks \<Rightarrow> 'q cyc_world hooks" where
  "cyclic_hooks U R H = \<lparr>hk_init = (\<lambda>f. cyclic_init U R), hk_start = hk_start H, hk_stop = hk_stop H,
     hk_cleanup = (\<lambda>f. cyclic_cleanup), hk_step = hk_step H, hk_read = (\<lambda>f. cyclic_read U R),
     hk_write = (\<lambda>f. cyclic_write U R H)\<rparr>"

section \<open>The queue of samples\<close>

text \<open>The abstract specification: a queue of at most \<open>n\<close> samples that drops the oldest when it is full.\<close>

definition bq_write :: "nat \<Rightarrow> 'a \<Rightarrow> 'a list \<Rightarrow> 'a list" where
  "bq_write n x xs = (if length xs = n then tl xs else xs) @ [x]"

text \<open>What a write and a read do to the private data, for samples of elements of size \<open>sz\<close>.\<close>

definition ci_write :: "'q rb_lib \<Rightarrow> int \<Rightarrow> ubx_data \<Rightarrow> 'q cyclic_info \<Rightarrow> 'q cyclic_info" where
  "ci_write R sz dat bi =
     (case rb_get_write R (ci_rbs bi) of (e, over, q) \<Rightarrow>
        let n = nat (d_len dat * sz); src = (case d_data dat of Buf bs \<Rightarrow> bs | _ \<Rightarrow> [])
        in bi\<lparr>ci_rbs := rb_put_write R e q, ci_overruns := (if over then ci_overruns bi + 1 else ci_overruns bi),
              ci_elems := (ci_elems bi)(e \<mapsto> \<lparr>hd_len = d_len dat,
                hd_data = take n src @ drop n (hd_data (the (ci_elems bi e)))\<rparr>)\<rparr>)"

definition ci_read :: "'q rb_lib \<Rightarrow> int \<Rightarrow> ubx_data \<Rightarrow> 'q cyclic_info \<Rightarrow> int \<times> ubx_data \<times> 'q cyclic_info" where
  "ci_read R sz dat bi =
     (case rb_get_read R (ci_rbs bi) of
        (None, q) \<Rightarrow> (0, dat, bi\<lparr>ci_rbs := q\<rparr>)
      | (Some e, q) \<Rightarrow>
          let h = the (ci_elems bi e); m = min (d_len dat) (hd_len h); n = nat (sz * m);
              dst = (case d_data dat of Buf bs \<Rightarrow> bs | _ \<Rightarrow> [])
          in (m, dat\<lparr>d_data := Buf (take n (hd_data h) @ drop n dst)\<rparr>, bi\<lparr>ci_rbs := rb_put_read R e q\<rparr>))"

definition payload :: "int \<Rightarrow> elem_hdr \<Rightarrow> int \<times> u8 list" where
  "payload sz h = (hd_len h, take (nat (hd_len h * sz)) (hd_data h))"

text \<open>A sample of \<open>n\<close> elements of type \<open>t\<close>, of size \<open>sz\<close>.\<close>

definition fits :: "addr \<Rightarrow> int \<Rightarrow> int \<Rightarrow> ubx_data \<Rightarrow> bool" where
  "fits t sz n dat \<longleftrightarrow> d_type dat = Some t \<and> d_len dat = n \<and> (\<exists>bs. d_data dat = Buf bs \<and> length bs = nat (n * sz))"

definition sample_bytes :: "ubx_data \<Rightarrow> u8 list" where
  "sample_bytes dat = (case d_data dat of Buf bs \<Rightarrow> bs | _ \<Rightarrow> [])"

lemma fits_bytes: "fits t sz n dat \<Longrightarrow> d_data dat = Buf (sample_bytes dat) \<and> length (sample_bytes dat) = nat (n * sz)"
  by (auto simp: fits_def sample_bytes_def)

text \<open>Every element is a sample of the full length.\<close>

definition elems_ok :: "nat set \<Rightarrow> int \<Rightarrow> int \<Rightarrow> (nat \<Rightarrow> elem_hdr option) \<Rightarrow> bool" where
  "elems_ok es sz n m \<longleftrightarrow> (\<forall>e \<in> es. \<exists>h. m e = Some h \<and> length (hd_data h) = nat (n * sz))"

text \<open>
  The samples a block holds, oldest first, how many it can hold, and its invariant, in terms of the abstraction
  functions \<open>queue\<close>, \<open>rall\<close> and \<open>held\<close> of the ring buffer.
\<close>

definition ring_contents :: "('q \<Rightarrow> nat list) \<Rightarrow> int \<Rightarrow> 'q cyclic_info \<Rightarrow> (int \<times> u8 list) list" where
  "ring_contents queue sz bi = map (\<lambda>e. payload sz (the (ci_elems bi e))) (queue (ci_rbs bi))"

definition ring_capacity :: "('q \<Rightarrow> nat set) \<Rightarrow> 'q cyclic_info \<Rightarrow> nat" where
  "ring_capacity rall bi = card (rall (ci_rbs bi))"

definition ring_block_ok ::
  "('q \<Rightarrow> bool) \<Rightarrow> ('q \<Rightarrow> nat set) \<Rightarrow> ('q \<Rightarrow> nat list) \<Rightarrow> ('q \<Rightarrow> nat option) \<Rightarrow> addr \<Rightarrow> int \<Rightarrow> int \<Rightarrow> 'q cyclic_info \<Rightarrow> bool" where
  "ring_block_ok rok rall queue held t sz n bi \<longleftrightarrow> ci_type bi = Some t \<and> ci_data_len bi = n \<and> rok (ci_rbs bi) \<and>
     held (ci_rbs bi) = None \<and> rall (ci_rbs bi) \<noteq> {} \<and> elems_ok (rall (ci_rbs bi)) sz n (ci_elems bi) \<and>
     (\<forall>e \<in> set (queue (ci_rbs bi)). hd_len (the (ci_elems bi e)) = n)"

context ring_laws
begin

abbreviation contents where "contents \<equiv> ring_contents queue"
abbreviation capacity where "capacity \<equiv> ring_capacity rall"
abbreviation ci_ok where "ci_ok \<equiv> ring_block_ok rok rall queue held"

lemmas contents_def = ring_contents_def
lemmas capacity_def = ring_capacity_def
lemmas ci_ok_def = ring_block_ok_def

lemma ci_write_contents:
  assumes ok: "ci_ok t sz n bi" and fit: "fits t sz n dat"
  shows "ci_ok t sz n (ci_write R sz dat bi) \<and> capacity (ci_write R sz dat bi) = capacity bi \<and>
    ci_overruns (ci_write R sz dat bi) = (if length (contents sz bi) = capacity bi then ci_overruns bi + 1 else ci_overruns bi) \<and>
    contents sz (ci_write R sz dat bi) = bq_write (capacity bi) (n, sample_bytes dat) (contents sz bi)"
proof -
  obtain e over q where g: "rb_get_write R (ci_rbs bi) = (e, over, q)" by (metis prod_cases3)
  from ok have w: "rok (ci_rbs bi)" "held (ci_rbs bi) = None" "rall (ci_rbs bi) \<noteq> {}" by (simp_all add: ci_ok_def)
  note gw = get_write_law [OF w g]
  from gw have "rok q" "held q = Some e" "e \<in> rall q" "e \<notin> set (queue q)" by auto
  note pw = put_write_law [OF this]
  from ok gw obtain h where h: "ci_elems bi e = Some h" "length (hd_data h) = nat (n * sz)"
    by (auto simp: ci_ok_def elems_ok_def)
  from fits_bytes [OF fit] fit have b: "d_data dat = Buf (sample_bytes dat)" "length (sample_bytes dat) = nat (n * sz)" "d_len dat = n"
    by (auto simp: fits_def)
  let ?h = "\<lparr>hd_len = n, hd_data = sample_bytes dat\<rparr>"
  have r: "ci_rbs (ci_write R sz dat bi) = rb_put_write R e q" "ci_elems (ci_write R sz dat bi) = (ci_elems bi)(e \<mapsto> ?h)"
    "ci_type (ci_write R sz dat bi) = ci_type bi" "ci_data_len (ci_write R sz dat bi) = ci_data_len bi"
    using g b h by (simp_all add: ci_write_def Let_def)
  have sub: "set (queue q) \<subseteq> set (queue (ci_rbs bi))" using gw by (cases "queue (ci_rbs bi)") (auto split: if_splits)
  have "ci_ok t sz n (ci_write R sz dat bi)"
    using ok gw pw sub b(2) by (auto simp: ci_ok_def r elems_ok_def)
  moreover have "contents sz (ci_write R sz dat bi) = bq_write (capacity bi) (n, sample_bytes dat) (contents sz bi)"
  proof -
    have "map (\<lambda>x. payload sz (the (((ci_elems bi)(e \<mapsto> ?h)) x))) (queue q) = map (\<lambda>x. payload sz (the (ci_elems bi x))) (queue q)"
      using gw by (auto intro!: map_cong)
    moreover have "payload sz ?h = (n, sample_bytes dat)" using b(2) by (simp add: payload_def)
    ultimately show ?thesis using gw pw by (auto simp: contents_def r bq_write_def capacity_def map_tl [symmetric])
  qed
  moreover have "capacity (ci_write R sz dat bi) = capacity bi" using gw pw by (simp add: capacity_def r)
  moreover have "ci_overruns (ci_write R sz dat bi) = (if length (contents sz bi) = capacity bi then ci_overruns bi + 1 else ci_overruns bi)"
    using gw g by (simp add: ci_write_def Let_def contents_def capacity_def)
  ultimately show ?thesis by blast
qed

lemma ci_read_contents:
  assumes ok: "ci_ok t sz n bi" and fit: "fits t sz n dat" and n: "0 < n" "0 < sz"
  shows "case ci_read R sz dat bi of (r, dat', bi') \<Rightarrow> ci_ok t sz n bi' \<and> fits t sz n dat' \<and> capacity bi' = capacity bi \<and>
    contents sz bi' = tl (contents sz bi) \<and>
    (case contents sz bi of [] \<Rightarrow> r = 0 \<and> dat' = dat | x # _ \<Rightarrow> r = n \<and> x = (n, sample_bytes dat'))"
proof -
  obtain p q where g: "rb_get_read R (ci_rbs bi) = (p, q)" by (cases "rb_get_read R (ci_rbs bi)")
  from ok have w: "rok (ci_rbs bi)" "held (ci_rbs bi) = None" by (simp_all add: ci_ok_def)
  note gr = get_read_law [OF w g]
  show ?thesis
  proof (cases "queue (ci_rbs bi)")
    case Nil
    with gr g ok fit show ?thesis by (auto simp: ci_read_def ci_ok_def contents_def capacity_def)
  next
    case (Cons e es)
    with gr have p: "p = Some e" "held q = Some e" "queue q = es" "rall q = rall (ci_rbs bi)" "rok q" by auto
    note pr = put_read_law [OF p(5,2)]
    from ring_wf [OF w(1)] Cons have "e \<in> rall (ci_rbs bi)" by auto
    with ok obtain h where h: "ci_elems bi e = Some h" "length (hd_data h) = nat (n * sz)" by (auto simp: ci_ok_def elems_ok_def)
    have hl: "hd_len h = n" using ok Cons h by (simp add: ci_ok_def)
    from fits_bytes [OF fit] fit have b: "d_data dat = Buf (sample_bytes dat)" "length (sample_bytes dat) = nat (n * sz)" "d_len dat = n"
      by (auto simp: fits_def)
    let ?dat = "dat\<lparr>d_data := Buf (hd_data h)\<rparr>" and ?bi = "bi\<lparr>ci_rbs := rb_put_read R e q\<rparr>"
    have r: "ci_read R sz dat bi = (n, ?dat, ?bi)"
      using g p(1) h b hl by (simp add: ci_read_def Let_def mult.commute)
    have "ci_ok t sz n ?bi" using ok Cons pr p by (auto simp: ci_ok_def)
    moreover have "fits t sz n ?dat" using fit h(2) by (simp add: fits_def)
    moreover have "contents sz bi = (n, hd_data h) # contents sz ?bi"
      using Cons pr p h hl by (simp add: contents_def payload_def)
    ultimately show ?thesis using r pr p by (simp add: capacity_def sample_bytes_def)
  qed
qed

end

section \<open>The block in the framework\<close>

text \<open>Blocks \<open>own\<close> of this type, for samples of \<open>n\<close> elements of type \<open>t\<close>, whose \<open>overruns\<close> ports are not
  connected.\<close>

definition cyc_ok :: "('q cyclic_info \<Rightarrow> bool) \<Rightarrow> addr set \<Rightarrow> addr \<Rightarrow> int \<Rightarrow> int \<Rightarrow> 'q cyc_world ubx \<Rightarrow> bool" where
  "cyc_ok good own t sz n s \<longleftrightarrow> node_ok s \<and> 0 < n \<and> 0 < sz \<and> in_long (n * sz) \<and>
     (\<exists>ty. typs s t = Some ty \<and> t_size ty = sz) \<and>
     (\<forall>i \<in> own. (\<exists>blk. blks s i = Some blk \<and> read_fun blk \<noteq> None \<and> write_fun blk \<noteq> None) \<and>
        (\<exists>bi. world s i = Some bi \<and> good bi \<and> (\<exists>prt. prts s (ci_p_overruns bi) = Some prt \<and> p_out_interaction prt = None)))"

lemma cyc_okD:
  assumes "cyc_ok good own t sz n s"
  shows "node_ok s" "0 < n" "0 < sz" "in_long (n * sz)" "\<exists>ty. typs s t = Some ty \<and> t_size ty = sz"
    "i \<in> own \<Longrightarrow> \<exists>blk f g. blks s i = Some blk \<and> read_fun blk = Some f \<and> write_fun blk = Some g"
    "i \<in> own \<Longrightarrow> \<exists>bi prt. world s i = Some bi \<and> good bi \<and> prts s (ci_p_overruns bi) = Some prt \<and> p_out_interaction prt = None"
proof -
  from assms show "node_ok s" "0 < n" "0 < sz" "in_long (n * sz)" "\<exists>ty. typs s t = Some ty \<and> t_size ty = sz"
    by (simp_all add: cyc_ok_def)
  assume i: "i \<in> own"
  with assms obtain blk where "blks s i = Some blk" "read_fun blk \<noteq> None" "write_fun blk \<noteq> None" unfolding cyc_ok_def by blast
  then show "\<exists>blk f g. blks s i = Some blk \<and> read_fun blk = Some f \<and> write_fun blk = Some g" by blast
  from assms i show "\<exists>bi prt. world s i = Some bi \<and> good bi \<and> prts s (ci_p_overruns bi) = Some prt \<and> p_out_interaction prt = None"
    unfolding cyc_ok_def by blast
qed

lemma cyc_ok_step:
  assumes "cyc_ok good own t sz n s" "stat_frame s s'" "node_ok s'"
    "world s' = world s \<or> (\<exists>i bi bi'. world s i = Some bi \<and> good bi' \<and> ci_p_overruns bi' = ci_p_overruns bi \<and>
      world s' = (world s)(i \<mapsto> bi'))"
  shows "cyc_ok good own t sz n s'"
proof -
  have p: "prts s' = prts s" "typs s' = typs s" using assms(2) by (simp_all add: stat_frame_def)
  have b: "\<exists>blk. blks s' i = Some blk \<and> read_fun blk \<noteq> None \<and> write_fun blk \<noteq> None" if "i \<in> own" for i
  proof -
    from cyc_okD(6) [OF assms(1) that] obtain blk f g where "blks s i = Some blk" "read_fun blk = Some f" "write_fun blk = Some g"
      by blast
    with stat_frame_block(2,3) [OF assms(2), of i] show ?thesis by auto
  qed
  have w: "\<exists>bi. world s' i = Some bi \<and> good bi \<and> (\<exists>prt. prts s' (ci_p_overruns bi) = Some prt \<and> p_out_interaction prt = None)"
    if "i \<in> own" for i
    using cyc_okD(7) [OF assms(1) that] assms(4) p(1) by auto
  from cyc_okD(1-5) [OF assms(1)] b w assms(3) p(2) show ?thesis by (simp add: cyc_ok_def)
qed

lemma set_ci_frame: "stat_frame s (set_ci i x s)"
  by (simp add: set_ci_def stat_frame_def)

lemma node_ok_set_ci [simp]: "node_ok (set_ci i x s) = node_ok s"
  by (simp add: set_ci_def node_ok_def)

lemma set_ci_simps [simp]:
  "world (set_ci i x s) = (world s)(i := x)" "blks (set_ci i x s) = blks s" "prts (set_ci i x s) = prts s"
  "dats (set_ci i x s) = dats s" "typs (set_ci i x s) = typs s" "nd_types (set_ci i x s) = nd_types s"
  by (simp_all add: set_ci_def)

lemma cyclic_overrun_ok:
  assumes "node_ok s" "blks s i = Some blk" "world s i = Some bi" "prts s (ci_p_overruns bi) = Some prt" "p_out_interaction prt = None"
  shows "\<exists>s'. cyclic_overrun U H i s = Some s' \<and> stat_frame s s' \<and> dats s' = dats s \<and>
    world s' = (world s)(i \<mapsto> bi\<lparr>ci_overruns := ci_overruns bi + 1\<rparr>)"
proof -
  let ?bi = "bi\<lparr>ci_overruns := ci_overruns bi + 1\<rparr>"
  let ?s1 = "set_ci i (Some ?bi) s"
  have "node_ok ?s1" "prts ?s1 (ci_p_overruns bi) = Some prt" using assms(1,4) by simp_all
  from write_array_unconnected [OF this assms(5)] obtain r s2 where
    s2: "write_one U H ''ulong'' (Some (ci_p_overruns bi)) (bytes_of_u64 (ci_overruns bi + 1)) ?s1 = Some (r, s2)"
      "stat_frame ?s1 s2" "dats s2 = dats ?s1" "world s2 = world ?s1"
    by (simp add: write_one_def accessor_types_def) blast
  have fr: "stat_frame s s2" by (rule stat_frame_trans [OF set_ci_frame s2(2)])
  have n2: "node_ok s2" using assms(1) fr by (rule node_ok_frame) (simp add: s2(3))
  from assms(2) stat_frame_live [OF fr, of i] obtain blk2 where b2: "blks s2 i = Some blk2" by auto
  have "cyclic_overrun U H i s = Some s2"
    using assms(3) s2(1,4) b2 node_ok_log(2) [OF n2 b2] by (simp add: cyclic_overrun_def Let_def)
  with fr s2(3,4) show ?thesis by simp
qed

text \<open>What a read and a write do to the private data, as functions on the world.\<close>

definition cyc_rd :: "'q rb_lib \<Rightarrow> int \<Rightarrow> 'q cyc_world reader" where
  "cyc_rd R sz i dat w =
     (case w i of None \<Rightarrow> (0, dat, w) | Some bi \<Rightarrow> (case ci_read R sz dat bi of (r, dat', bi') \<Rightarrow> (r, dat', w(i \<mapsto> bi'))))"

definition cyc_wr :: "'q rb_lib \<Rightarrow> int \<Rightarrow> addr \<Rightarrow> ubx_data \<Rightarrow> 'q cyc_world \<Rightarrow> 'q cyc_world" where
  "cyc_wr R sz i dat w = w(i := map_option (ci_write R sz dat) (w i))"

lemma memcpy_all: "length src = nat n \<Longrightarrow> length dst = nat n \<Longrightarrow> 0 \<le> n \<Longrightarrow> memcpy dst src n = Some src"
  by (simp add: memcpy_def)

context ring_laws
begin

lemma cyclic_write_ok:
  assumes ok: "cyc_ok (ci_ok t sz n) own t sz n s" and i: "i \<in> own" and d: "dats s d = Some dat" and fit: "fits t sz n dat"
  shows "\<exists>s'. cyclic_write U R H i d s = Some s' \<and> stat_frame s s' \<and> dats s' = dats s \<and> world s' = cyc_wr R sz i dat (world s) \<and>
    cyc_ok (ci_ok t sz n) own t sz n s'"
proof -
  note D = cyc_okD [OF ok]
  from D(6) [OF i] D(7) [OF i] obtain blk bi prt where
    b: "blks s i = Some blk" "world s i = Some bi" "ci_ok t sz n bi" "prts s (ci_p_overruns bi) = Some prt"
      "p_out_interaction prt = None" by blast
  from D(5) obtain ty where ty: "typs s t = Some ty" "t_size ty = sz" by blast
  obtain e over q where g: "rb_get_write R (ci_rbs bi) = (e, over, q)" by (metis prod_cases3)
  from b(3) have w: "rok (ci_rbs bi)" "held (ci_rbs bi) = None" "rall (ci_rbs bi) \<noteq> {}" by (simp_all add: ci_ok_def)
  from get_write_law [OF w g] b(3) obtain h where h: "ci_elems bi e = Some h" "length (hd_data h) = nat (n * sz)"
    by (auto simp: ci_ok_def elems_ok_def)
  from fits_bytes [OF fit] fit have bt: "d_data dat = Buf (sample_bytes dat)" "length (sample_bytes dat) = nat (n * sz)" "d_len dat = n"
    "d_type dat = Some t" by (auto simp: fits_def)
  have pos: "0 \<le> n * sz" using D(2,3) by simp
  define bi1 where "bi1 = bi\<lparr>ci_rbs := q\<rparr>"
  define bi2 where "bi2 = (if over then bi1\<lparr>ci_overruns := ci_overruns bi1 + 1\<rparr> else bi1)"
  let ?s1 = "set_ci i (Some bi1) s"
  have pre: "node_ok ?s1" "blks ?s1 i = Some blk" "world ?s1 i = Some bi1" "prts ?s1 (ci_p_overruns bi1) = Some prt"
    using D(1) b by (simp_all add: bi1_def)
  have "\<exists>s2. (if over then cyclic_overrun U H i ?s1 else Some ?s1) = Some s2 \<and> stat_frame ?s1 s2 \<and> dats s2 = dats ?s1 \<and>
    world s2 = (world s)(i \<mapsto> bi2)"
  proof (cases over)
    case True
    with cyclic_overrun_ok [OF pre b(5), of U H] show ?thesis by (simp add: bi2_def)
  qed (simp add: bi2_def)
  then obtain s2 where s2: "(if over then cyclic_overrun U H i ?s1 else Some ?s1) = Some s2" "stat_frame ?s1 s2"
    "dats s2 = dats s" "world s2 = (world s)(i \<mapsto> bi2)" by auto
  have fr: "stat_frame s s2" by (rule stat_frame_trans [OF set_ci_frame s2(2)])
  have t2: "typs s2 t = Some ty" using fr ty by (simp add: stat_frame_def)
  have sz: "data_size (Some d) s2 = Some (n * sz)" using s2(3) d bt t2 ty D(4) by (simp add: data_size_def)
  have w2: "world s2 i = Some bi2" "ci_elems bi2 = ci_elems bi" "ci_rbs bi2 = q"
    using s2(4) by (simp_all add: bi2_def bi1_def)
  let ?bi' = "ci_write R sz dat bi"
  have bi': "bi2\<lparr>ci_elems := (ci_elems bi2)(e \<mapsto> \<lparr>hd_len = n, hd_data = sample_bytes dat\<rparr>), ci_rbs := rb_put_write R e q\<rparr> = ?bi'"
    using g bt h by (simp add: ci_write_def Let_def bi2_def bi1_def)
  have ty': "ci_type bi = Some t" "d_type dat = Some t" using b(3) bt(4) by (simp_all add: ci_ok_def)
  have len: "\<not> (if ci_allow_partial bi \<noteq> 0 then d_len dat > ci_data_len bi else d_len dat \<noteq> ci_data_len bi)"
    using b(3) bt(3) by (simp add: ci_ok_def)
  have "cyclic_write U R H i d s = Some (set_ci i (Some ?bi') s2)"
    by (simp add: cyclic_write_def Let_def b(1,2) d ty' len g s2(1) [unfolded bi1_def] w2 h sz bt(1) buf_bytes_def
        memcpy_all [OF bt(2) h(2) pos] s2(3) bt(3) bi' [unfolded w2] split del: if_split)
  moreover have "world (set_ci i (Some ?bi') s2) = cyc_wr R sz i dat (world s)" using s2(4) b(2) by (simp add: cyc_wr_def)
  moreover have f': "stat_frame s (set_ci i (Some ?bi') s2)" by (rule stat_frame_trans [OF fr set_ci_frame])
  moreover have "cyc_ok (ci_ok t sz n) own t sz n (set_ci i (Some ?bi') s2)"
  proof (rule cyc_ok_step [OF ok f'])
    show "node_ok (set_ci i (Some ?bi') s2)" using D(1) f' by (rule node_ok_frame) (simp add: s2(3))
    have "ci_p_overruns ?bi' = ci_p_overruns bi" using bi' [symmetric] by (simp add: bi2_def bi1_def)
    with ci_write_contents [OF b(3) fit] b(2) s2(4)
    show "world (set_ci i (Some ?bi') s2) = world s \<or> (\<exists>j bj bi'. world s j = Some bj \<and> ci_ok t sz n bi' \<and>
      ci_p_overruns bi' = ci_p_overruns bj \<and> world (set_ci i (Some ?bi') s2) = (world s)(j \<mapsto> bi'))" by auto
  qed
  ultimately show ?thesis using s2(3) by auto
qed

lemma cyclic_read_ok:
  assumes ok: "cyc_ok (ci_ok t sz n) own t sz n s" and i: "i \<in> own" and d: "dats s d = Some dat" and fit: "fits t sz n dat"
    and rd: "cyc_rd R sz i dat (world s) = (r, dat', w')"
  shows "\<exists>s'. cyclic_read U R i d s = Some (r, s') \<and> stat_frame s s' \<and> dats s' = (dats s)(d \<mapsto> dat') \<and> world s' = w' \<and>
    cyc_ok (ci_ok t sz n) own t sz n s' \<and> fits t sz n dat'"
proof -
  note D = cyc_okD [OF ok]
  from D(6) [OF i] D(7) [OF i] obtain blk bi where b: "blks s i = Some blk" "world s i = Some bi" "ci_ok t sz n bi" by blast
  from D(5) obtain ty where ty: "typs s t = Some ty" "t_size ty = sz" by blast
  obtain p q where g: "rb_get_read R (ci_rbs bi) = (p, q)" by (cases "rb_get_read R (ci_rbs bi)")
  obtain bi' where cr: "ci_read R sz dat bi = (r, dat', bi')" "w' = (world s)(i \<mapsto> bi')"
    using rd b(2) by (auto simp: cyc_rd_def split: prod.splits)
  have good: "ci_ok t sz n bi'" "fits t sz n dat'" using ci_read_contents [OF b(3) fit D(2,3)] cr(1) by simp_all
  have ty': "ci_type bi = Some t" "d_type dat = Some t" using b(3) fit by (simp_all add: ci_ok_def fits_def)
  let ?s' = "set_ci i (Some bi') (s\<lparr>dats := (dats s)(d \<mapsto> dat')\<rparr>)"
  have "cyclic_read U R i d s = Some (r, ?s') \<and> ci_p_overruns bi' = ci_p_overruns bi"
  proof (cases p)
    case None
    have "s\<lparr>dats := (dats s)(d \<mapsto> dat)\<rparr> = s" using d by (simp add: fun_upd_idem)
    with None g cr(1) ty'(2) show ?thesis by (auto simp: cyclic_read_def b d ty'(1) ci_read_def)
  next
    case (Some e)
    have w: "rok (ci_rbs bi)" "held (ci_rbs bi) = None" using b(3) by (simp_all add: ci_ok_def)
    from get_read_law [OF w g] Some have q: "e \<in> set (queue (ci_rbs bi))" by (cases "queue (ci_rbs bi)") auto
    with ring_wf [OF w(1)] have "e \<in> rall (ci_rbs bi)" by blast
    with b(3) obtain h where h: "ci_elems bi e = Some h" "length (hd_data h) = nat (n * sz)" by (auto simp: ci_ok_def elems_ok_def)
    have hl: "hd_len h = n" using q h(1) b(3) by (auto simp: ci_ok_def)
    from fits_bytes [OF fit] fit have bt: "d_data dat = Buf (sample_bytes dat)" "length (sample_bytes dat) = nat (n * sz)" "d_len dat = n"
      by (auto simp: fits_def)
    have pos: "0 \<le> n * sz" using D(2,3) by simp
    have c: "dat\<lparr>d_data := Buf (hd_data h)\<rparr> = dat'" "bi\<lparr>ci_rbs := rb_put_read R e q\<rparr> = bi'" "r = n"
      using cr(1) g Some h hl bt by (auto simp: ci_read_def Let_def mult.commute)
    have m: "memcpy (sample_bytes dat) (hd_data h) (t_size ty * n) = Some (hd_data h)"
      using memcpy_all [OF h(2) bt(2) pos] ty(2) by (simp add: mult.commute)
    have "cyclic_read U R i d s = Some (r, ?s')"
      using hl bt(3) c(3) ty'(2)
      by (simp add: cyclic_read_def Let_def b d ty'(1) g Some h(1) ty(1) bt(1) buf_bytes_def m c(1,2))
    moreover have "ci_p_overruns bi' = ci_p_overruns bi" using c(2) by auto
    ultimately show ?thesis by simp
  qed
  moreover have fr: "stat_frame s ?s'"
    by (rule stat_frame_trans [OF stat_frame_undats [OF stat_frame_refl] set_ci_frame])
  moreover have "cyc_ok (ci_ok t sz n) own t sz n ?s'"
  proof (rule cyc_ok_step [OF ok fr])
    show "node_ok ?s'" using D(1) fr by (rule node_ok_frame) (use d in auto)
    from good(1) calculation(1) b(2)
    show "world ?s' = world s \<or> (\<exists>j bj bi'. world s j = Some bj \<and> ci_ok t sz n bi' \<and>
      ci_p_overruns bi' = ci_p_overruns bj \<and> world ?s' = (world s)(j \<mapsto> bi'))" by auto
  qed
  ultimately show ?thesis using good cr(2) by auto
qed

text \<open>The block obeys the contract of iblocks.\<close>

lemma cyclic_io_hooks:
  "io_hooks (cyclic_hooks U R H) own (cyc_ok (ci_ok t sz n) own t sz n) (fits t sz n) (cyc_rd R sz) (cyc_wr R sz)"
proof
  fix s s' :: "'q cyc_world ubx"
  assume "cyc_ok (ci_ok t sz n) own t sz n s" "stat_frame s s'" "node_ok s'" "world s' = world s"
  then show "cyc_ok (ci_ok t sz n) own t sz n s'" using cyc_ok_step disjI1 by blast
next
  fix s :: "'q cyc_world ubx" and ib
  assume "cyc_ok (ci_ok t sz n) own t sz n s" "ib \<in> own"
  then show "\<exists>blk f g. blks s ib = Some blk \<and> read_fun blk = Some f \<and> write_fun blk = Some g" by (rule cyc_okD)
next
  fix s :: "'q cyc_world ubx" and ib d dat blk f
  assume "cyc_ok (ci_ok t sz n) own t sz n s" "ib \<in> own" "dats s d = Some dat" "fits t sz n dat"
  note ok = this
  from cyclic_write_ok [OF ok, of U H]
  show "\<exists>s'. hk_write (cyclic_hooks U R H) f ib d s = Some s' \<and> stat_frame s s' \<and> dats s' = dats s \<and>
    world s' = cyc_wr R sz ib dat (world s) \<and> cyc_ok (ci_ok t sz n) own t sz n s'"
    by (simp add: cyclic_hooks_def)
  fix r dat' w' assume "cyc_rd R sz ib dat (world s) = (r, dat', w')"
  from cyclic_read_ok [OF ok this]
  show "\<exists>s'. hk_read (cyclic_hooks U R H) f ib d s = Some (r, s') \<and> stat_frame s s' \<and> dats s' = (dats s)(d \<mapsto> dat') \<and>
    world s' = w' \<and> cyc_ok (ci_ok t sz n) own t sz n s' \<and> fits t sz n dat'"
    by (simp add: cyclic_hooks_def)
qed (rule cyc_okD(1))

end

interpretation cyc: io_hooks "cyclic_hooks ut_ref ring_ref H" own
  "cyc_ok (ring_block_ok ring_ok (\<lambda>q. set (r_all q)) r_queue r_held t sz n) own t sz n" "fits t sz n"
  "cyc_rd ring_ref sz" "cyc_wr ring_ref sz"
  by (rule ref_ring.cyclic_io_hooks)

section \<open>Initialisation\<close>

lemma cfg_or_u32: "cfg_or load_u32 d r = Some (v, s) \<Longrightarrow> 0 \<le> d \<Longrightarrow> 0 \<le> v"
  by (auto simp: cfg_or_def load_u32_def bind_Some_iff split: prod.splits if_splits)

text \<open>An empty queue of the configured length.\<close>

definition fresh_queue ::
  "('q \<Rightarrow> bool) \<Rightarrow> ('q \<Rightarrow> nat set) \<Rightarrow> ('q \<Rightarrow> nat list) \<Rightarrow> ('q \<Rightarrow> nat option) \<Rightarrow> addr \<Rightarrow> 'q cyc_world ubx \<Rightarrow> bool" where
  "fresh_queue rok rall queue held i s \<longleftrightarrow> (\<exists>bi t ty. world s i = Some bi \<and> typs s t = Some ty \<and>
     ring_block_ok rok rall queue held t (t_size ty) (ci_data_len bi) bi \<and> ring_contents queue (t_size ty) bi = [] \<and>
     ci_overruns bi = 0 \<and> 0 < ci_buffer_len bi \<and> int (ring_capacity rall bi) = ci_buffer_len bi)"

lemma getptr_typs: "getptr U suf tn b name s = Some (len, p, s') \<Longrightarrow> typs s' = typs s"
  by (auto simp: getptr_def bind_Some_iff set_static_def)

lemma cfg_or_state: "cfg_or load d (len, p, s) = Some (v, s') \<Longrightarrow> s' = s"
  by (auto simp: cfg_or_def bind_Some_iff split: if_splits)

context ring_laws
begin


lemma cyclic_mk_result:
  assumes "cyclic_mk U R i l b n tn s = Some (r, s')" "0 < b"
  shows "if r = 0 then fresh_queue rok rall queue held i s' else world s' i = None"
proof -
  have e: "EINVALID_CONFIG \<noteq> 0" "EOUTOFMEM \<noteq> 0" by (simp_all add: EINVALID_CONFIG_def EOUTOFMEM_def)
  from assms(1) obtain blk where "blks s i = Some blk" "b_nd blk"
    by (auto simp: cyclic_mk_def bind_Some_iff split: if_splits)
  with assms(1) e consider "r \<noteq> 0" "world s' i = None"
    | t ty q es p a r0 s1 where "typs s t = Some ty" "rb_new R (nat b) = Some (q, es)" "r = 0"
      "getptr U ''int'' ''int'' i ''allow_partial'' s = Some r0" "cfg_or load_int 0 r0 = Some (a, s1)"
      "s' = set_ci i (Some \<lparr>ci_type = Some t, ci_data_len = n, ci_buffer_len = b, ci_rbs = q,
                   ci_elems = (\<lambda>e. if e \<in> set es then Some (elem_init n (t_size ty)) else None),
                   ci_allow_partial = a, ci_overruns = 0, ci_p_overruns = p, ci_loglevel = l\<rparr>) s1"
    by (fastforce simp: cyclic_mk_def bind_Some_iff cyclic_fail_def split: option.splits)
  then show ?thesis
  proof cases
    case (2 t ty q es p a r0 s1)
    obtain len p s0 where r0: "r0 = (len, p, s0)" by (cases r0)
    have ty: "typs s1 = typs s" using getptr_typs 2(4) cfg_or_state 2(5) r0 by metis
    from new_law [OF 2(2)] have q: "rok q" "queue q = []" "held q = None" "rall q = set es" "card (set es) = nat b" by auto
    with assms(2) have "set es \<noteq> {}" by auto
    with q 2 ty assms(2) show ?thesis
      by (auto simp: fresh_queue_def ring_block_ok_def ring_contents_def ring_capacity_def elems_ok_def elem_init_def
          intro!: exI [of _ t] exI [of _ ty])
  qed simp
qed

lemma cyclic_lens_result:
  assumes "cyclic_lens U R i l b s = Some (r, s')" "0 < b"
  shows "if r = 0 then fresh_queue rok rall queue held i s' else world s' i = None"
  using assms by (auto simp: cyclic_lens_def bind_Some_iff cyclic_fail_def split: if_splits dest!: cyclic_mk_result)

lemma cyclic_init_result:
  assumes "cyclic_init U R i s = Some (r, s')"
  shows "if r = 0 then fresh_queue rok rall queue held i s' else world s' i = None"
proof -
  have e: "EINVALID_CONFIG \<noteq> 0" "EOUTOFMEM \<noteq> 0" by (simp_all add: EINVALID_CONFIG_def EOUTOFMEM_def)
  have fin: "?thesis" if "cyclic_lens U R i l b s1 = Some (r, s')" "cfg_or load_u32 1 r0 = Some (b, s0)" "b \<noteq> 0" for l b s0 s1 r0
  proof -
    from cfg_or_u32 [OF that(2)] that(3) have "0 < b" by simp
    with that(1) show ?thesis by (rule cyclic_lens_result)
  qed
  obtain ok s1 where m: "mem_alloc s = (ok, s1)" by (cases "mem_alloc s")
  from assms m e consider "r \<noteq> 0" "world s' i = None"
    | l b s0 s2 r0 where "cfg_or load_u32 1 (r0 :: int \<times> ptr \<times> 'q cyc_world ubx) = Some (b, s0)" "b \<noteq> 0" "cyclic_lens U R i l b s2 = Some (r, s')"
    by (auto simp: cyclic_init_def bind_Some_iff cyclic_fail_def split: if_splits)
  then show ?thesis using fin by cases auto
qed

end

section \<open>A connection as a pipe\<close>

text \<open>A run of writes to the out-port \<open>po\<close> and reads from the in-port \<open>pi\<close>; \<open>Get\<close> carries what the reader's buffer
  holds before. The result lists what the reads return.\<close>

datatype pipe_op = Put "u8 list" | Get "u8 list"

fun pipe_run ::
  "ut_lib \<Rightarrow> 'w hooks \<Rightarrow> string \<Rightarrow> addr \<Rightarrow> addr \<Rightarrow> int \<Rightarrow> pipe_op list \<Rightarrow> 'w ubx \<Rightarrow> ((int \<times> u8 list) list \<times> 'w ubx) option" where
  "pipe_run U H tn po pi n [] s = Some ([], s)"
| "pipe_run U H tn po pi n (Put bs # ops) s = do {
     (r, s) \<leftarrow> write_array U H ''write'' tn (Some po) bs n s;
     if r \<noteq> 0 then None else pipe_run U H tn po pi n ops s }"
| "pipe_run U H tn po pi n (Get val # ops) s = do {
     (r, bs, s) \<leftarrow> read_array U H ''read'' tn (Some pi) val n s;
     (rs, s) \<leftarrow> pipe_run U H tn po pi n ops s;
     Some ((r, bs) # rs, s) }"

text \<open>What the bounded queue returns.\<close>

fun queue_run :: "nat \<Rightarrow> int \<Rightarrow> pipe_op list \<Rightarrow> u8 list list \<Rightarrow> (int \<times> u8 list) list" where
  "queue_run cap n [] q = []"
| "queue_run cap n (Put bs # ops) q = queue_run cap n ops (bq_write cap bs q)"
| "queue_run cap n (Get val # ops) q =
     (case q of [] \<Rightarrow> (0, val) # queue_run cap n ops [] | x # q \<Rightarrow> (n, x) # queue_run cap n ops q)"

fun op_bytes :: "pipe_op \<Rightarrow> u8 list" where
  "op_bytes (Put bs) = bs"
| "op_bytes (Get bs) = bs"

text \<open>The two ports are connected by the active iblock \<open>i\<close> and carry \<open>n\<close> elements of the type named \<open>tn\<close>.\<close>

definition pipe_ok :: "ut_lib \<Rightarrow> string \<Rightarrow> addr \<Rightarrow> int \<Rightarrow> addr \<Rightarrow> addr \<Rightarrow> addr \<Rightarrow> 'w ubx \<Rightarrow> bool" where
  "pipe_ok U tn t n po pi i s \<longleftrightarrow> ut_find U (nd_types s) tn = Some t \<and> active s [i] = [i] \<and>
     (\<exists>prt. prts s po = Some prt \<and> p_out_type prt = Some t \<and> n \<le> p_out_data_len prt \<and> p_out_interaction prt = Some [i]) \<and>
     (\<exists>prt. prts s pi = Some prt \<and> p_in_type prt = Some t \<and> n \<le> p_in_data_len prt \<and> p_in_interaction prt = Some [i])"

lemma pipe_ok_frame: "pipe_ok U tn t n po pi i s \<Longrightarrow> stat_frame s s' \<Longrightarrow> pipe_ok U tn t n po pi i s'"
  using active_frame [of s s' "[i]"] by (simp add: pipe_ok_def stat_frame_def)

lemma map_snd_bq: "map snd (bq_write c (n, x) xs) = bq_write c x (map snd xs)"
  by (simp add: bq_write_def map_tl)

context ring_laws
begin

lemma pipe_run_ok:
  assumes "cyc_ok (ci_ok t sz n) own t sz n s" "i \<in> own" "pipe_ok U tn t n po pi i s" "world s i = Some bi"
    "\<forall>x \<in> set ops. length (op_bytes x) = nat (n * sz)" "c_int n = n"
  shows "\<exists>s'. pipe_run U (cyclic_hooks U R H) tn po pi n ops s =
      Some (queue_run (capacity bi) n ops (map snd (contents sz bi)), s') \<and> cyc_ok (ci_ok t sz n) own t sz n s'"
  using assms(1,3-5)
proof (induction ops arbitrary: s bi)
  case Nil
  then show ?case by simp
next
  case (Cons x ops)
  note io = cyclic_io_hooks [of U H own t sz n]
  from Cons.prems(2) obtain po' pi' where p: "prts s po = Some po'" "p_out_type po' = Some t" "n \<le> p_out_data_len po'"
    "p_out_interaction po' = Some [i]" "prts s pi = Some pi'" "p_in_type pi' = Some t" "n \<le> p_in_data_len pi'"
    "p_in_interaction pi' = Some [i]" and tn: "ut_find U (nd_types s) tn = Some t" and act: "active s [i] = [i]"
    unfolding pipe_ok_def by blast
  have own: "set [i] \<subseteq> own" using assms(2) by simp
  have n: "0 < n" "0 < sz" using cyc_okD(2,3) [OF Cons.prems(1)] by simp_all
  from cyc_okD(7) [OF Cons.prems(1) assms(2)] Cons.prems(3) have good: "ci_ok t sz n bi" by auto
  have ops: "\<forall>x \<in> set ops. length (op_bytes x) = nat (n * sz)" using Cons.prems(4) by simp
  have fit: "fits t sz n (local_data (Some t) n (op_bytes x))" using Cons.prems(4) by (simp add: fits_def local_data_def)
  have sb: "sample_bytes (local_data (Some t) n (op_bytes x)) = op_bytes x" by (simp add: sample_bytes_def local_data_def)
  show ?case
  proof (cases x)
    case (Put bs)
    from fit Put have fit': "fits t sz n (local_data (Some t) n bs)" by simp
    from io_hooks.write_array_ok [OF io Cons.prems(1) p(1,2) tn p(3) fit' p(4) own, where fn = "''write''"] act obtain s1 where
      s1: "write_array U (cyclic_hooks U R H) ''write'' tn (Some po) bs n s = Some (0, s1)" "stat_frame s s1"
        "cyc_ok (ci_ok t sz n) own t sz n s1" "world s1 = cyc_wr R sz i (local_data (Some t) n bs) (world s)"
      by auto
    let ?bi = "ci_write R sz (local_data (Some t) n bs) bi"
    have w1: "world s1 i = Some ?bi" using s1(4) Cons.prems(3) by (simp add: cyc_wr_def)
    from Cons.IH [OF s1(3) pipe_ok_frame [OF Cons.prems(2) s1(2)] w1 ops] obtain s' where
      s': "pipe_run U (cyclic_hooks U R H) tn po pi n ops s1 = Some (queue_run (capacity ?bi) n ops (map snd (contents sz ?bi)), s')"
        "cyc_ok (ci_ok t sz n) own t sz n s'" by blast
    with s1(1) Put ci_write_contents [OF good fit'] sb show ?thesis by (simp add: map_snd_bq)
  next
    case (Get val)
    from fit Get have fit': "fits t sz n (local_data (Some t) n val)" by simp
    obtain r dat' bi' where cr: "ci_read R sz (local_data (Some t) n val) bi = (r, dat', bi')" by (metis prod_cases3)
    from ci_read_contents [OF good fit' n] cr have c: "fits t sz n dat'" "capacity bi' = capacity bi"
      "contents sz bi' = tl (contents sz bi)"
      "case contents sz bi of [] \<Rightarrow> r = 0 \<and> dat' = local_data (Some t) n val | x # _ \<Rightarrow> r = n \<and> x = (n, sample_bytes dat')" by auto
    have cr': "c_int r = r" using c(4) assms(6) by (cases "contents sz bi") (auto simp: c_int_def)
    have ask: "ask (cyc_rd R sz) (active s [i]) 0 (local_data (Some t) n val) (world s) = (r, dat', (world s)(i \<mapsto> bi'))"
      using cr cr' Cons.prems(3) by (simp add: act cyc_rd_def)
    from io_hooks.read_array_ok [OF io Cons.prems(1) p(5,6) tn p(7) fit' n(1) p(8) own ask, where bs = "sample_bytes dat'" and fn = "''read''"]
      fits_bytes [OF c(1)] obtain s1 where
      s1: "read_array U (cyclic_hooks U R H) ''read'' tn (Some pi) val n s = Some (r, sample_bytes dat', s1)" "stat_frame s s1"
        "cyc_ok (ci_ok t sz n) own t sz n s1" "world s1 = (world s)(i \<mapsto> bi')" by auto
    have w1: "world s1 i = Some bi'" using s1(4) by simp
    from Cons.IH [OF s1(3) pipe_ok_frame [OF Cons.prems(2) s1(2)] w1 ops] obtain s' where
      s': "pipe_run U (cyclic_hooks U R H) tn po pi n ops s1 = Some (queue_run (capacity bi') n ops (map snd (contents sz bi')), s')"
        "cyc_ok (ci_ok t sz n) own t sz n s'" by blast
    show ?thesis
    proof (cases "contents sz bi")
      case Nil
      with s1(1) s' Get c sb show ?thesis by simp
    next
      case (Cons y ys)
      with s1(1) s' Get c show ?thesis by auto
    qed
  qed
qed

end

section \<open>A node with a connection\<close>

text \<open>Writer 4 and reader 6, connected by the iblock 5 that holds one integer; port 12 reports its overruns.\<close>

definition no_hooks :: "'w hooks" where
  "no_hooks = \<lparr>hk_init = (\<lambda>f b s. Some (0, s)), hk_start = (\<lambda>f b s. Some (0, s)), hk_stop = (\<lambda>f b. Some),
     hk_cleanup = (\<lambda>f b. Some), hk_step = (\<lambda>f b. Some), hk_read = (\<lambda>f b d s. Some (0, s)), hk_write = (\<lambda>f b d. Some)\<rparr>"

definition wire :: "addr \<Rightarrow> ptr \<Rightarrow> ptr \<Rightarrow> addr list option \<Rightarrow> addr list option \<Rightarrow> ubx_port" where
  "wire b it ot ii oi = \<lparr>p_name = ''p'', p_doc = None, p_attrs = 0, p_block = b, p_in_type = it, p_out_type = ot,
     p_in_data_len = 1, p_out_data_len = 1, p_in_interaction = ii, p_out_interaction = oi\<rparr>"

definition pipe_blk :: "string \<Rightarrow> addr list \<Rightarrow> block_ops \<Rightarrow> ubx_block" where
  "pipe_blk n ps ops = (inst_blk n BLOCK_STATE_ACTIVE)\<lparr>b_ports := ps, b_ops := ops\<rparr>"

definition pipe_info :: "ring cyclic_info" where
  "pipe_info = \<lparr>ci_type = Some 1, ci_data_len = 1, ci_buffer_len = 1, ci_rbs = fst (the (rb_new ring_ref 1)),
     ci_elems = [0 \<mapsto> elem_init 1 4], ci_allow_partial = 0, ci_overruns = 0, ci_p_overruns = 12, ci_loglevel = 5\<rparr>"

definition pipe_node :: "ring cyc_world ubx" where
  "pipe_node = \<lparr>nd_name = ''n'', nd_blocks = [], nd_types = [(''int'', 1)], nd_modules = [], nd_cur_seqid = 0,
     nd_attrs = 0, nd_loglevel = 6,
     blks = [4 \<mapsto> pipe_blk ''w'' [10] (Ops_comp None 0), 5 \<mapsto> pipe_blk ''q'' [12] (Ops_inter (Some 1) (Some 2) 0 0),
       6 \<mapsto> pipe_blk ''r'' [11] (Ops_comp None 0)],
     prts = [10 \<mapsto> wire 4 None (Some 1) None (Some [5]), 11 \<mapsto> wire 6 (Some 1) None (Some [5]) None,
       12 \<mapsto> wire 5 None (Some 1) None None],
     cfgs = Map.empty, typs = [1 \<mapsto> mk_type ''int'' 4], dats = [20 \<mapsto> local_data (Some 1) 1 [7, 0, 0, 0]], mods = Map.empty,
     static_type = (\<lambda>_. None), next_addr = 100, oom = [], world = [5 \<mapsto> pipe_info]\<rparr>"

abbreviation ring_info_ok :: "addr \<Rightarrow> int \<Rightarrow> int \<Rightarrow> ring cyclic_info \<Rightarrow> bool" where
  "ring_info_ok \<equiv> ring_block_ok ring_ok (\<lambda>q. set (r_all q)) r_queue r_held"

lemma pipe_node_blk: "b_nd (pipe_blk n ps ops)" "b_loglevel (pipe_blk n ps ops) = None" "b_state (pipe_blk n ps ops) = BLOCK_STATE_ACTIVE"
  "b_ops (pipe_blk n ps ops) = ops"
  by (simp_all add: pipe_blk_def inst_blk_def hooked_blk_def mk_blk_def)

lemma pipe_info_ok: "ring_info_ok 1 4 1 pipe_info"
  by (simp add: ring_block_ok_def pipe_info_def ring_ref_def ring_ok_def elems_ok_def elem_init_def)

lemma pipe_node_ok: "node_ok pipe_node"
  by (auto simp: node_ok_def pipe_node_def fresh_from_def pipe_node_blk wire_def split: if_splits)

lemma pipe_node_cyc: "cyc_ok (ring_info_ok 1 4 1) {5} 1 4 1 pipe_node"
proof -
  have "typs pipe_node 1 = Some (mk_type ''int'' 4)" "world pipe_node 5 = Some pipe_info"
    "blks pipe_node 5 = Some (pipe_blk ''q'' [12] (Ops_inter (Some 1) (Some 2) 0 0))" "prts pipe_node 12 = Some (wire 5 None (Some 1) None None)"
    by (simp_all add: pipe_node_def)
  with pipe_node_ok pipe_info_ok show ?thesis
    by (simp add: cyc_ok_def in_long_def LONG_MAX_def mk_type_def read_fun_def write_fun_def pipe_node_blk wire_def pipe_info_def)
qed

lemma pipe_node_pipe: "pipe_ok ut_ref ''int'' 1 1 10 11 5 pipe_node"
  by (simp add: pipe_ok_def pipe_node_def active_def pipe_node_blk wire_def)

section \<open>Properties\<close>

text \<open>C12: \<open>__port_write\<close> on an out-port, with data of the port's type, passes the data exactly once to every active
  iblock the port is connected to, in the order of the connections, skips the others, and changes nothing else but the
  statistics of the blocks.\<close>

theorem port_write_all:
  assumes "io_hooks H own iok fitting rd wr" "iok s" "prts s p = Some prt" "p_out_type prt \<noteq> None" "dats s d = Some dat"
    "d_type dat = p_out_type prt" "fitting dat" "p_out_interaction prt = Some ibs" "set ibs \<subseteq> own"
  shows "\<exists>s'. port_write H (Some p) d s = Some s' \<and> stat_frame s s' \<and> dats s' = dats s \<and> iok s' \<and>
    world s' = fold (\<lambda>ib. wr ib dat) (active s ibs) (world s)"
  using assms by (rule io_hooks.port_write_ok)

theorem port_write_all_witness:
  "\<exists>s'. port_write (cyclic_hooks ut_ref ring_ref no_hooks) (Some 10) 20 pipe_node = Some s' \<and>
     world s' = cyc_wr ring_ref 4 5 (local_data (Some 1) 1 [7, 0, 0, 0]) (world pipe_node)"
proof -
  have a: "active pipe_node [5] = [5]" using pipe_node_pipe by (simp add: pipe_ok_def)
  from port_write_all [OF cyc.io_hooks_axioms pipe_node_cyc, of 10 "wire 4 None (Some 1) None (Some [5])" 20
      "local_data (Some 1) 1 [7, 0, 0, 0]" "[5]" no_hooks] a show ?thesis
    by (auto simp: pipe_node_def wire_def local_data_def fits_def)
qed

text \<open>C13: \<open>__port_read\<close> on an in-port, with a sample of the port's type, asks the active iblocks in the order of the
  connections and stops at the first that returns a positive value, which is the result; if none does, the result is what the
  last one returned (an earlier error is lost), or \<open>0\<close> if none is active. \<open>asked k\<close> is what is left of the sample and
  the world after the first \<open>k\<close>.\<close>

theorem port_read_first:
  assumes "io_hooks H own iok fitting rd wr" "iok s" "prts s p = Some prt" "p_in_type prt \<noteq> None" "dats s d = Some dat"
    "d_type dat = p_in_type prt" "fitting dat" "0 < d_len dat" "p_in_interaction prt = Some ibs" "set ibs \<subseteq> own" "A = active s ibs"
  shows "\<exists>r s' dat' k. port_read H (Some p) (Some d) s = Some (r, s') \<and> stat_frame s s' \<and> dats s' = (dats s)(d \<mapsto> dat') \<and>
    k \<le> length A \<and> (dat', world s') = asked rd A k dat (world s) \<and>
    (\<forall>j < k. 0 < answer rd A j dat (world s) \<longrightarrow> j = k - 1) \<and>
    (if k = 0 then r = 0 else r = answer rd A (k - 1) dat (world s)) \<and> (k < length A \<longrightarrow> 0 < r)"
proof -
  from io_hooks.port_read_ok [OF assms(1-10)] assms(11) obtain r s' dat' where
    r: "port_read H (Some p) (Some d) s = Some (r, s')" "stat_frame s s'" "dats s' = (dats s)(d \<mapsto> dat')"
    "ask rd A 0 dat (world s) = (r, dat', world s')" by blast
  with ask_spec [OF r(4)] show ?thesis by blast
qed

theorem port_read_first_witness:
  "\<exists>s'. port_read (cyclic_hooks ut_ref ring_ref no_hooks) (Some 11) (Some 20) pipe_node = Some (0, s')"
proof -
  have a: "active pipe_node [5] = [5]" using pipe_node_pipe by (simp add: pipe_ok_def)
  have q: "cyc_rd ring_ref 4 5 (local_data (Some 1) 1 [7, 0, 0, 0]) (world pipe_node) =
      (0, local_data (Some 1) 1 [7, 0, 0, 0], [5 \<mapsto> pipe_info])"
    by (simp add: cyc_rd_def pipe_node_def ci_read_def pipe_info_def ring_ref_def)
  from port_read_first [OF cyc.io_hooks_axioms pipe_node_cyc, of 11 "wire 6 (Some 1) None (Some [5]) None" 20
      "local_data (Some 1) 1 [7, 0, 0, 0]" "[5]" "[5]" no_hooks] a obtain r s' k where
    r: "port_read (cyclic_hooks ut_ref ring_ref no_hooks) (Some 11) (Some 20) pipe_node = Some (r, s')" "k \<le> 1"
      "if k = 0 then r = 0 else r = answer (cyc_rd ring_ref 4) [5] (k - 1) (local_data (Some 1) 1 [7, 0, 0, 0]) (world pipe_node)"
    by (auto simp: pipe_node_def wire_def local_data_def fits_def)
  from r(2,3) q have "r = 0" by (cases k) (auto simp: answer_0 c_int_def)
  with r(1) show ?thesis by blast
qed


text \<open>C11: \<open>lfds_cyclic\<close> refines a bounded queue that drops its oldest sample when it is full. For any ring buffer library
  with the documented laws, writing a sample to the block appends it to the samples the block holds, drops the oldest and counts
  an overrun exactly when it held as many as it can; reading takes the oldest sample, or returns \<open>0\<close> and leaves the reader's
  buffer alone when there is none. Both are defined, keep the invariant and change nothing else but statistics.\<close>

theorem cyclic_refines_queue:
  assumes "ring_laws R rok rall queue held" "ok = ring_block_ok rok rall queue held t sz n" "cyc_ok ok own t sz n s" "i \<in> own"
    "dats s d = Some dat" "fits t sz n dat" "world s i = Some bi" "q = ring_contents queue sz bi" "c = ring_capacity rall bi"
  shows "(\<exists>s' bi'. cyclic_write U R H i d s = Some s' \<and> stat_frame s s' \<and> cyc_ok ok own t sz n s' \<and>
      dats s' = dats s \<and> world s' = (world s)(i \<mapsto> bi') \<and> ring_capacity rall bi' = c \<and>
      ring_contents queue sz bi' = bq_write c (n, sample_bytes dat) q \<and>
      ci_overruns bi' = (if length q = c then ci_overruns bi + 1 else ci_overruns bi)) \<and>
    (\<exists>r s' bi' dat'. cyclic_read U R i d s = Some (r, s') \<and> stat_frame s s' \<and> cyc_ok ok own t sz n s' \<and>
      dats s' = (dats s)(d \<mapsto> dat') \<and> world s' = (world s)(i \<mapsto> bi') \<and> ring_capacity rall bi' = c \<and>
      ring_contents queue sz bi' = tl q \<and>
      (case q of [] \<Rightarrow> r = 0 \<and> dat' = dat | x # _ \<Rightarrow> r = n \<and> x = (n, sample_bytes dat')))"
proof -
  note ok = assms(3) [unfolded assms(2)]
  from cyc_okD(7) [OF ok assms(4)] assms(7) have good: "ring_block_ok rok rall queue held t sz n bi" by auto
  obtain r dat' bi' where cr: "ci_read R sz dat bi = (r, dat', bi')" by (metis prod_cases3)
  then have rd: "cyc_rd R sz i dat (world s) = (r, dat', (world s)(i \<mapsto> bi'))" using assms(7) by (simp add: cyc_rd_def)
  note w = ring_laws.cyclic_write_ok [OF assms(1) ok assms(4-6), of U H]
    ring_laws.ci_write_contents [OF assms(1) good assms(6)]
  note r = ring_laws.cyclic_read_ok [OF assms(1) ok assms(4-6) rd, of U]
    ring_laws.ci_read_contents [OF assms(1) good assms(6) cyc_okD(2,3) [OF ok], unfolded cr prod.case]
  show ?thesis
    unfolding assms(2,8,9)
    using w r assms(7) by (intro conjI) (auto simp: cyc_wr_def)
qed

theorem cyclic_refines_queue_witness:
  "\<exists>s'. cyclic_write ut_ref ring_ref no_hooks 5 20 pipe_node = Some s' \<and>
     map_option (ring_contents r_queue 4) (world s' 5) = Some [(1, [7, 0, 0, 0])]"
proof -
  have d: "dats pipe_node 20 = Some (local_data (Some 1) 1 [7, 0, 0, 0])" "fits 1 4 1 (local_data (Some 1) 1 [7, 0, 0, 0])"
    "world pipe_node 5 = Some pipe_info"
    by (simp_all add: pipe_node_def local_data_def fits_def)
  from cyclic_refines_queue [OF ref_ring.ring_laws_axioms refl pipe_node_cyc _ d refl refl, of ut_ref no_hooks]
  show ?thesis by (auto simp: ring_contents_def pipe_info_def ring_ref_def bq_write_def ring_capacity_def sample_bytes_def local_data_def)
qed

text \<open>C10: a connection through \<open>lfds_cyclic\<close> is a first-in first-out pipe between the accessors of the two blocks: for every
  sequence of writes to the out-port and reads from the in-port, all calls are defined, all writes succeed, and the reads return
  exactly what a bounded queue that drops its oldest sample returns, byte for byte.\<close>

theorem cyclic_pipe:
  assumes "ring_laws R rok rall queue held" "cyc_ok (ring_block_ok rok rall queue held t sz n) own t sz n s" "i \<in> own"
    "pipe_ok U tn t n po pi i s" "world s i = Some bi" "\<forall>x \<in> set ops. length (op_bytes x) = nat (n * sz)" "n < 2 ^ 31"
  shows "\<exists>s'. pipe_run U (cyclic_hooks U R H) tn po pi n ops s =
    Some (queue_run (ring_capacity rall bi) n ops (map snd (ring_contents queue sz bi)), s')"
proof -
  have "sint (word_of_int n :: 32 word) = n"
    using cyc_okD(2) [OF assms(2)] assms(7) by (simp add: signed_of_int signed_take_bit_int_eq_self)
  then have "c_int n = n" by (simp add: c_int_def)
  from ring_laws.pipe_run_ok [OF assms(1-6) this] show ?thesis by blast
qed

theorem cyclic_pipe_witness:
  "\<exists>s'. pipe_run ut_ref (cyclic_hooks ut_ref ring_ref no_hooks) ''int'' 10 11 1
     [Get [9, 9, 9, 9], Put [1, 0, 0, 0], Put [2, 0, 0, 0], Get [9, 9, 9, 9]] pipe_node = Some ([(0, [9, 9, 9, 9]), (1, [2, 0, 0, 0])], s')"
proof -
  have w: "world pipe_node 5 = Some pipe_info" by (simp add: pipe_node_def)
  from cyclic_pipe [OF ref_ring.ring_laws_axioms pipe_node_cyc _ pipe_node_pipe w,
      of "[Get [9, 9, 9, 9], Put [1, 0, 0, 0], Put [2, 0, 0, 0], Get [9, 9, 9, 9]]" no_hooks]
  show ?thesis by (simp add: ring_contents_def ring_capacity_def pipe_info_def ring_ref_def bq_write_def)
qed

text \<open>Initialising a block of type \<open>lfds_cyclic\<close>, whatever its configuration and whatever memory it gets: if
  \<open>cyclic_init\<close> reports success, the block holds an empty queue with room for exactly \<open>buffer_len\<close> samples, at
  least one, of \<open>data_len\<close> elements; otherwise its private data is released.\<close>

theorem cyclic_init_empty:
  assumes "ring_laws R rok rall queue held" "cyclic_init U R i s = Some (r, s')"
  shows "if r = 0 then fresh_queue rok rall queue held i s' else world s' i = None"
  using ring_laws.cyclic_init_result [OF assms] .

definition init_cfg :: "string \<Rightarrow> addr \<Rightarrow> addr \<Rightarrow> ubx_config" where
  "init_cfg n t v = \<lparr>c_name = n, c_doc = None, c_attrs = 0, c_block = 5, c_type = Some t, c_value = Some v, c_min = 0, c_max = 1\<rparr>"

definition init_blk :: ubx_block where
  "init_blk = (pipe_blk ''q'' [12] (Ops_inter (Some 1) (Some 2) 0 0))\<lparr>b_configs := [30, 31, 32, 33, 34]\<rparr>"

definition init_node :: "ring cyc_world ubx" where
  "init_node = pipe_node\<lparr>nd_types := [(''int'', 1), (''uint32_t'', 2), (''char'', 3)],
     blks := [5 \<mapsto> init_blk],
     cfgs := [30 \<mapsto> init_cfg ''type_name'' 3 40, 31 \<mapsto> init_cfg ''data_len'' 2 41, 32 \<mapsto> init_cfg ''buffer_len'' 2 42,
       33 \<mapsto> init_cfg ''allow_partial'' 1 43, 34 \<mapsto> init_cfg ''loglevel_overruns'' 1 44],
     prts := [12 \<mapsto> (wire 5 None (Some 1) None None)\<lparr>p_name := ''overruns''\<rparr>],
     dats := [40 \<mapsto> local_data (Some 3) 4 [105, 110, 116, 0], 41 \<mapsto> (local_data (Some 2) 0 [])\<lparr>d_data := Buf_null\<rparr>,
       42 \<mapsto> local_data (Some 2) 1 [3, 0, 0, 0], 43 \<mapsto> (local_data (Some 1) 0 [])\<lparr>d_data := Buf_null\<rparr>,
       44 \<mapsto> (local_data (Some 1) 0 [])\<lparr>d_data := Buf_null\<rparr>],
     world := Map.empty\<rparr>"

lemma getptr_eval:
  assumes "blks s b = Some blk" "b_nd blk" "config_find s (b_configs blk) name = Some (Some c)" "cfgs s c = Some cfg"
    "ut_find U (nd_types s) tn = Some t" "c_type cfg = Some t" "c_value cfg = Some v" "dats s v = Some dat"
  shows "getptr U suf tn b name s =
    Some (d_len dat, if d_len dat > 0 then Some v else None, set_static (''cfg_getptr_'' @ suf) (Some t) s)"
proof -
  have "cfg_type_check U tn k (Some b) (Some name) s = Some (Inr c, Some t)" for k
    using assms by (simp add: cfg_type_check_def ubx_config_get_def ubx_type_get_def)
  with assms show ?thesis
    by (simp add: getptr_def cfg_getptr_def ubx_config_get_data_ptr_def ubx_config_get_data_def ubx_config_get_def)
qed

lemma init_blk: "b_nd init_blk" "b_configs init_blk = [30, 31, 32, 33, 34]" "b_ports init_blk = [12]"
  by (simp_all add: init_blk_def pipe_blk_def inst_blk_def hooked_blk_def mk_blk_def)

definition in_init_node :: "ring cyc_world ubx \<Rightarrow> bool" where
  "in_init_node s \<longleftrightarrow> blks s 5 = Some init_blk \<and> nd_types s = [(''int'', 1), (''uint32_t'', 2), (''char'', 3)] \<and>
     cfgs s = cfgs init_node \<and> dats s = dats init_node \<and> typs s = typs init_node \<and> prts s = prts init_node"

lemma in_init_node_static [simp]: "in_init_node (set_static fn t s) = in_init_node s"
  by (simp add: in_init_node_def set_static_def)

lemma init_node_cfgs:
  "cfgs init_node 30 = Some (init_cfg ''type_name'' 3 40)" "cfgs init_node 31 = Some (init_cfg ''data_len'' 2 41)"
  "cfgs init_node 32 = Some (init_cfg ''buffer_len'' 2 42)" "cfgs init_node 33 = Some (init_cfg ''allow_partial'' 1 43)"
  "cfgs init_node 34 = Some (init_cfg ''loglevel_overruns'' 1 44)"
  by (simp_all add: init_node_def)

lemma init_node_dats:
  "dats init_node 40 = Some (local_data (Some 3) 4 [105, 110, 116, 0])"
  "dats init_node 41 = Some ((local_data (Some 2) 0 [])\<lparr>d_data := Buf_null\<rparr>)"
  "dats init_node 42 = Some (local_data (Some 2) 1 [3, 0, 0, 0])"
  "dats init_node 43 = Some ((local_data (Some 1) 0 [])\<lparr>d_data := Buf_null\<rparr>)"
  "dats init_node 44 = Some ((local_data (Some 1) 0 [])\<lparr>d_data := Buf_null\<rparr>)"
  by (simp_all add: init_node_def)

lemma init_node_find:
  assumes "in_init_node s"
  shows "config_find s [30, 31, 32, 33, 34] ''type_name'' = Some (Some 30)"
    "config_find s [30, 31, 32, 33, 34] ''data_len'' = Some (Some 31)"
    "config_find s [30, 31, 32, 33, 34] ''buffer_len'' = Some (Some 32)"
    "config_find s [30, 31, 32, 33, 34] ''allow_partial'' = Some (Some 33)"
    "config_find s [30, 31, 32, 33, 34] ''loglevel_overruns'' = Some (Some 34)"
  using assms by (simp_all add: in_init_node_def init_node_cfgs init_cfg_def strncmp_eq_def UBX_CONFIG_NAME_MAXLEN_def)

lemma init_node_getptr:
  assumes "in_init_node s"
  shows "getptr ut_ref ''int'' ''int'' 5 ''loglevel_overruns'' s = Some (0, None, set_static ''cfg_getptr_int'' (Some 1) s)"
    "getptr ut_ref ''int'' ''int'' 5 ''allow_partial'' s = Some (0, None, set_static ''cfg_getptr_int'' (Some 1) s)"
    "getptr ut_ref ''uint32'' ''uint32_t'' 5 ''buffer_len'' s = Some (1, Some 42, set_static ''cfg_getptr_uint32'' (Some 2) s)"
    "getptr ut_ref ''uint32'' ''uint32_t'' 5 ''data_len'' s = Some (0, None, set_static ''cfg_getptr_uint32'' (Some 2) s)"
    "getptr ut_ref ''char'' ''char'' 5 ''type_name'' s = Some (4, Some 40, set_static ''cfg_getptr_char'' (Some 3) s)"
proof -
  note s = assms [unfolded in_init_node_def]
  note e = getptr_eval [where s = s and b = 5 and blk = init_blk and U = ut_ref]
  note simps = init_node_cfgs init_node_dats init_blk init_cfg_def local_data_def init_node_find [OF assms]
  show "getptr ut_ref ''int'' ''int'' 5 ''loglevel_overruns'' s = Some (0, None, set_static ''cfg_getptr_int'' (Some 1) s)"
    using e [where c = 34 and tn = "''int''" and t = 1] s by (simp add: simps del: config_find.simps)
  show "getptr ut_ref ''int'' ''int'' 5 ''allow_partial'' s = Some (0, None, set_static ''cfg_getptr_int'' (Some 1) s)"
    using e [where c = 33 and tn = "''int''" and t = 1] s by (simp add: simps del: config_find.simps)
  show "getptr ut_ref ''uint32'' ''uint32_t'' 5 ''buffer_len'' s = Some (1, Some 42, set_static ''cfg_getptr_uint32'' (Some 2) s)"
    using e [where c = 32 and tn = "''uint32_t''" and t = 2] s by (simp add: simps del: config_find.simps)
  show "getptr ut_ref ''uint32'' ''uint32_t'' 5 ''data_len'' s = Some (0, None, set_static ''cfg_getptr_uint32'' (Some 2) s)"
    using e [where c = 31 and tn = "''uint32_t''" and t = 2] s by (simp add: simps del: config_find.simps)
  show "getptr ut_ref ''char'' ''char'' 5 ''type_name'' s = Some (4, Some 40, set_static ''cfg_getptr_char'' (Some 3) s)"
    using e [where c = 30 and tn = "''char''" and t = 3] s by (simp add: simps del: config_find.simps)
qed

lemma init_node_init:
  "\<exists>s'. cyclic_init ut_ref ring_ref 5 init_node = Some (0, s')"
proof -
  let ?s1 = "init_node\<lparr>oom := []\<rparr>"
  have m: "mem_alloc init_node = (True, ?s1)" by (simp add: mem_alloc_def init_node_def pipe_node_def)
  have ini: "in_init_node ?s1" "blks init_node 5 = Some init_blk"
    by (simp_all add: in_init_node_def) (simp_all add: init_node_def)
  have ch: "char_of (105 :: nat) = CHR ''i''" "char_of (110 :: nat) = CHR ''n''" "char_of (116 :: nat) = CHR ''t''" by code_simp+
  have l: "load_u32 (Some 42) s = Some 3" "load_string (Some 40) s = Some ''int''" if "in_init_node s" for s
    using that by (simp_all add: in_init_node_def load_u32_def load_bytes_def load_string_def init_node_dats local_data_def le_word_def ch)
  have p: "ubx_port_get (Some 5) (Some ''overruns'') s = Some (Some 12)" if "in_init_node s" for s
    using that by (simp add: in_init_node_def ubx_port_get_def init_blk init_node_def wire_def strncmp_eq_def)
  have ty: "typs s 1 = Some (mk_type ''int'' 4)" "ubx_type_get ut_ref s (Some ''int'') = Some 1" if "in_init_node s" for s
    using that by (simp_all add: in_init_node_def ubx_type_get_def) (simp add: init_node_def pipe_node_def)
  have mk: "\<exists>s'. cyclic_mk ut_ref ring_ref 5 l 3 1 ''int'' s = Some (0, s')" if "in_init_node s" for s l
  proof -
    have b: "blks s 5 = Some init_blk" using that by (simp add: in_init_node_def)
    show ?thesis
      using that b by (simp add: cyclic_mk_def init_node_getptr ty [OF that, unfolded One_nat_def] p init_blk ring_ref_def cfg_or_def)
  qed
  have len: "\<exists>s'. cyclic_lens ut_ref ring_ref 5 l 3 s = Some (0, s')" if "in_init_node s" for s l
    using that mk l by (simp add: cyclic_lens_def init_node_getptr cfg_or_def)
  show ?thesis using m ini len l
    by (simp add: cyclic_init_def init_node_getptr cfg_or_def UBX_LOGLEVEL_NOTICE_def UBX_LOGLEVEL_DEBUG_def)
qed

theorem cyclic_init_empty_witness:
  "\<exists>s'. cyclic_init ut_ref ring_ref 5 init_node = Some (0, s') \<and>
     fresh_queue ring_ok (\<lambda>q. set (r_all q)) r_queue r_held 5 s'"
proof -
  from init_node_init obtain s' where i: "cyclic_init ut_ref ring_ref 5 init_node = Some (0, s')" ..
  with cyclic_init_empty [OF ref_ring.ring_laws_axioms i] show ?thesis by auto
qed

end
