(* ===== verification/Ubx_Trig.thy ===== *)
theory Ubx_Trig
  imports Ubx_Chain Ubx_Cyclic
begin

text \<open>
  The trigger block \<open>ubx/trig\<close>, \<^verbatim>\<open>std_blocks/trig/common.c\<close> and \<^verbatim>\<open>std_blocks/trig/trig.c\<close>: it reads
  its chains from configs it adds to itself, triggers the active one when it is stepped, and reports the statistics when it is
  stopped. The lemmas show that the active chain is always an existing one, what the statistics file holds, and what happens
  when the block is started a second time.
\<close>

section \<open>Data\<close>

text \<open>\<open>struct block_info\<close> of \<^verbatim>\<open>trig.c\<close>; \<open>chains\<close> is NULL or an array.\<close>

record trig_info =
  ti_chains :: "ubx_chain list option"
  ti_num_chains :: int
  ti_actchain :: int
  ti_p_actchain :: ptr

text \<open>The world of a node with trigger blocks: their private data, the statistics files that were closed (each with the lines
  after the header), and the rest.\<close>

record 'r trig_world =
  tw_info :: "addr \<Rightarrow> trig_info option"
  tw_files :: "(string \<times> tstat_file) list"
  tw_rest :: 'r

text \<open>
  The surroundings: those of a chain, whether \<open>fopen\<close> succeeds, the memory layout of \<open>struct ubx_triggee\<close>, the
  conversion of a \<open>double\<close> in seconds to nanoseconds, and what an uninitialised \<open>int\<close> on the stack holds.
\<close>

record 'r trig_env =
  te_chain :: "'r trig_world chain_env"
  te_fopen :: "string \<Rightarrow> bool"
  te_triggees :: "u8 list \<Rightarrow> ubx_triggee list"
  te_triggee_bytes :: "ubx_triggee list \<Rightarrow> u8 list"
  te_rate_ns :: "u8 list \<Rightarrow> u64"
  te_junk :: "u8 list"

definition te_ut :: "'r trig_env \<Rightarrow> ut_lib" where "te_ut E = ce_ut (te_chain E)"

definition set_info :: "addr \<Rightarrow> trig_info option \<Rightarrow> 'r trig_world ubx \<Rightarrow> 'r trig_world ubx" where
  "set_info b i s = s\<lparr>world := (world s)\<lparr>tw_info := (tw_info (world s))(b := i)\<rparr>\<rparr>"

definition zero_ts :: ubx_timespec where "zero_ts = \<lparr>sec = 0, nsec = 0\<rparr>"

definition zero_chain :: ubx_chain where
  "zero_chain = \<lparr>ch_triggees = [], ch_tstats_mode = 0, ch_skip_first = 0, ch_p_tstats = None, ch_every_cnt = 0,
     ch_global = \<lparr>ts_id = '''', ts_min = zero_ts, ts_max = zero_ts, ts_total = zero_ts, ts_cnt = 0\<rparr>,
     ch_blk_tstats = TB_null, ch_rate = 0, ch_last_msg = 0, ch_idx = 0\<rparr>"

text \<open>\<open>chain%i\<close>\<close>

fun dec :: "nat \<Rightarrow> string" where
  "dec n = (if n < 10 then [char_of (48 + n)] else dec (n div 10) @ [char_of (48 + n mod 10)])"

declare dec.simps [simp del]

definition chain_name :: "nat \<Rightarrow> string" where
  "chain_name i = snprintf UBX_BLOCK_NAME_MAXLEN (''chain'' @ dec i)"

section \<open>Reporting\<close>

fun common_log_stats :: "addr \<Rightarrow> ubx_chain list \<Rightarrow> 'w ubx \<Rightarrow> unit option" where
  "common_log_stats b [] s = Some ()"
| "common_log_stats b (c # cs) s = do { _ \<leftarrow> ubx_chain_tstats_log b c s; common_log_stats b cs s }"

fun common_output_stats :: "'w chain_env \<Rightarrow> addr \<Rightarrow> ubx_chain list \<Rightarrow> 'w ubx \<Rightarrow> 'w ubx option" where
  "common_output_stats E b [] s = Some s"
| "common_output_stats E b (c # cs) s = do { s \<leftarrow> ubx_chain_tstats_output E b c s; common_output_stats E b cs s }"

text \<open>\<open>ubx_tstats_fopen\<close>: the name of the opened file, or NULL.\<close>

definition ubx_tstats_fopen :: "'r trig_env \<Rightarrow> addr \<Rightarrow> string \<Rightarrow> 'w ubx \<Rightarrow> (string option \<times> 'w ubx) option" where
  "ubx_tstats_fopen E b profile_path s = do {
     blk \<leftarrow> blks s b;
     let (a1, s) = mem_alloc s;
     let (a2, s) = (if a1 then mem_alloc s else (True, s));
     (case tstats_build_filename a1 a2 (b_name blk) profile_path of
         None \<Rightarrow> do { _ \<leftarrow> ubx_block_log blk s; Some (None, s) }
       | Some f \<Rightarrow>
           if te_fopen E f then Some (Some f, s)
           else do { _ \<leftarrow> ubx_block_log blk s; Some (None, s) }) }"

text \<open>The loop passes \<open>chains\<close>, the first chain, in every iteration. An error returns without closing the file.\<close>

fun write_loop_stats :: "addr \<Rightarrow> ubx_chain list \<Rightarrow> nat \<Rightarrow> tstat_file \<Rightarrow> 'w ubx \<Rightarrow> (bool \<times> tstat_file) option" where
  "write_loop_stats b chs 0 fp s = Some (True, fp)"
| "write_loop_stats b chs (Suc n) fp s = do {
     c \<leftarrow> (case chs of [] \<Rightarrow> None | c # _ \<Rightarrow> Some c);
     (r, fp) \<leftarrow> ubx_chain_tstats_fwrite b fp c s;
     if r \<noteq> 0 then Some (False, fp) else write_loop_stats b chs n fp s }"

definition common_write_stats ::
  "'r trig_env \<Rightarrow> addr \<Rightarrow> ubx_chain list \<Rightarrow> int \<Rightarrow> 'r trig_world ubx \<Rightarrow> (int \<times> 'r trig_world ubx) option" where
  "common_write_stats E b chs num s = do {
     (len, p, s) \<leftarrow> getptr (te_ut E) ''char'' ''char'' b ''tstats_profile_path'' s;
     if len < 0 then do { blk \<leftarrow> blks s b; _ \<leftarrow> ubx_block_log blk s; Some (-1, s) }
     else if len = 0 then Some (0, s)
     else do {
       path \<leftarrow> load_string p s;
       (f, s) \<leftarrow> ubx_tstats_fopen E b path s;
       case f of
         None \<Rightarrow> Some (-1, s)
       | Some name \<Rightarrow> do {
           (ok, fp) \<leftarrow> write_loop_stats b chs (nat num) [] s;
           if \<not> ok then Some (-1, s)
           else Some (0, s\<lparr>world := (world s)\<lparr>tw_files := tw_files (world s) @ [(name, fp)]\<rparr>\<rparr>) } } }"

section \<open>Setting up and tearing down\<close>

text \<open>\<open>DL_FOREACH_SAFE\<close> over the configs.\<close>

fun rm_dyn_configs :: "ut_lib \<Rightarrow> addr \<Rightarrow> addr list \<Rightarrow> 'w ubx \<Rightarrow> 'w ubx option" where
  "rm_dyn_configs U b [] s = Some s"
| "rm_dyn_configs U b (c # cs) s = do {
     cfg \<leftarrow> cfgs s c;
     s \<leftarrow> (if cfg_is_dyn cfg then do { (_, s) \<leftarrow> ubx_config_rm U (Some b) (Some (c_name cfg)) s; Some s } else Some s);
     rm_dyn_configs U b cs s }"

text \<open>\<open>common_cleanup\<close>; the pointer to the array becomes NULL.\<close>

definition common_cleanup :: "ut_lib \<Rightarrow> addr \<Rightarrow> 'w ubx \<Rightarrow> 'w ubx option" where
  "common_cleanup U b s = do { blk \<leftarrow> blks s b; rm_dyn_configs U b (b_configs blk) s }"

fun add_chain_configs :: "ut_lib \<Rightarrow> addr \<Rightarrow> nat list \<Rightarrow> 'w ubx \<Rightarrow> (int \<times> 'w ubx) option" where
  "add_chain_configs U b [] s = Some (0, s)"
| "add_chain_configs U b (i # is) s = do {
     (ret, s) \<leftarrow> ubx_config_add U (Some b) (Some (chain_name i)) None (Some ''struct ubx_triggee'') s;
     if ret \<noteq> 0 then Some (ret, s) else add_chain_configs U b is s }"

text \<open>The result, and the array \<open>*chain\<close>.\<close>

definition common_init_chains :: "ut_lib \<Rightarrow> addr \<Rightarrow> 'w ubx \<Rightarrow> (int \<times> ubx_chain list option \<times> 'w ubx) option" where
  "common_init_chains U b s = do {
     blk \<leftarrow> blks s b;
     r \<leftarrow> getptr U ''int'' ''int'' b ''num_chains'' s;
     (num_chains, s) \<leftarrow> cfg_or load_int 1 r;
     if num_chains < 1 then do { _ \<leftarrow> ubx_block_log blk s; s \<leftarrow> common_cleanup U b s; Some (-1, None, s) }
     else do {
       let (ok, s) = mem_alloc s;
       if \<not> ok then do { _ \<leftarrow> ubx_block_log blk s; s \<leftarrow> common_cleanup U b s; Some (-1, None, s) }
       else do {
         (ret, s) \<leftarrow> add_chain_configs U b [0..<nat num_chains] s;
         if ret \<noteq> 0 then do { s \<leftarrow> common_cleanup U b s; Some (ret, None, s) }
         else Some (num_chains, Some (replicate (nat num_chains) zero_chain), s) } } }"

text \<open>The triggees of a config: \<open>len\<close> structs at the pointer. \<open>ubx_chain_init\<close> changes them in place.\<close>

definition load_triggees :: "'r trig_env \<Rightarrow> ptr \<Rightarrow> int \<Rightarrow> 'w ubx \<Rightarrow> ubx_triggee list option" where
  "load_triggees E p len s =
     (if len = 0 then Some []
      else do {
        d \<leftarrow> p; dat \<leftarrow> dats s d;
        case d_data dat of
          Buf bs \<Rightarrow> let ts = te_triggees E bs in if nat len \<le> length ts then Some (take (nat len) ts) else None
        | _ \<Rightarrow> None })"

definition store_triggees :: "'r trig_env \<Rightarrow> ptr \<Rightarrow> ubx_triggee list \<Rightarrow> 'w ubx \<Rightarrow> 'w ubx option" where
  "store_triggees E p ts s =
     (if ts = [] then Some s
      else do {
        d \<leftarrow> p; dat \<leftarrow> dats s d;
        Some (s\<lparr>dats := (dats s)(d \<mapsto> dat\<lparr>d_data := Buf (te_triggee_bytes E ts)\<rparr>)\<rparr>) })"

fun unconfig_list :: "ubx_chain list \<Rightarrow> ubx_chain list option" where
  "unconfig_list [] = Some []"
| "unconfig_list (c # cs) = do { c \<leftarrow> ubx_chain_cleanup c; cs \<leftarrow> unconfig_list cs; Some (c # cs) }"

text \<open>Configuring chain \<open>i\<close> and those after it; \<open>done\<close> are the chains before it, which are cleaned up on failure.\<close>

record chain_cfg =
  cc_mode :: int
  cc_rate :: u64
  cc_skip :: u32
  cc_port :: ptr

fun config_loop ::
  "'r trig_env \<Rightarrow> addr \<Rightarrow> chain_cfg \<Rightarrow> ubx_chain list \<Rightarrow> ubx_chain list \<Rightarrow> 'r trig_world ubx \<Rightarrow>
     (int \<times> ubx_chain list \<times> 'r trig_world ubx) option" where
  "config_loop E b k dn [] s = Some (0, dn, s)"
| "config_loop E b k dn (c # cs) s = do {
     let c = c\<lparr>ch_tstats_mode := cc_mode k, ch_skip_first := cc_skip k, ch_p_tstats := cc_port k\<rparr>;
     let chain_id = chain_name (length dn);
     (len, p, s) \<leftarrow> getptr (te_ut E) ''triggee'' ''struct ubx_triggee'' b chain_id s;
     if len < 0 then None
     else do {
       ts \<leftarrow> load_triggees E p len s;
       (ret, c, s) \<leftarrow> ubx_chain_init (c\<lparr>ch_triggees := ts\<rparr>) (Some chain_id) (cc_rate k) s;
       if ret \<noteq> 0 then do {
         blk \<leftarrow> blks s b; _ \<leftarrow> ubx_block_log blk s;
         dn \<leftarrow> unconfig_list dn;
         Some (-1, dn @ c # cs, s) }
       else do {
         s \<leftarrow> store_triggees E p (ch_triggees c) s;
         config_loop E b k (dn @ [c]) cs s } } }"

definition load_double :: "ptr \<Rightarrow> 'w ubx \<Rightarrow> u8 list option" where
  "load_double p s = load_bytes p 8 s"

definition common_config_chains ::
  "'r trig_env \<Rightarrow> addr \<Rightarrow> ubx_chain list \<Rightarrow> 'r trig_world ubx \<Rightarrow> (int \<times> ubx_chain list \<times> 'r trig_world ubx) option" where
  "common_config_chains E b chs s = do {
     r \<leftarrow> getptr (te_ut E) ''int'' ''int'' b ''tstats_mode'' s;
     (mode, s) \<leftarrow> cfg_or load_int 0 r;
     (len, p, s) \<leftarrow> getptr (te_ut E) ''double'' ''double'' b ''tstats_output_rate'' s;
     if len < 0 then None
     else do {
       rate \<leftarrow> (if len > 0 then map_option (te_rate_ns E) (load_double p s) else Some 0);
       r \<leftarrow> getptr (te_ut E) ''int'' ''int'' b ''tstats_skip_first'' s;
       (skip, s) \<leftarrow> cfg_or load_int 0 r;
       p \<leftarrow> ubx_port_get (Some b) (Some ''tstats'') s;
       if p = None then None
       else config_loop E b \<lparr>cc_mode = mode, cc_rate = rate, cc_skip = word_of_int skip, cc_port = p\<rparr> [] chs s } }"

text \<open>The value of the active chain after reading its port; the error message reads the name of the port.\<close>

definition common_read_actchain ::
  "'r trig_env \<Rightarrow> addr \<Rightarrow> ptr \<Rightarrow> int \<Rightarrow> int \<Rightarrow> 'r trig_world ubx \<Rightarrow> (int \<times> 'r trig_world ubx) option" where
  "common_read_actchain E b p_actchain num_chains actchain s = do {
     (ret, bs, s) \<leftarrow> read_one (te_ut E) (ce_hooks (te_chain E)) ''int'' p_actchain (te_junk E) s;
     let ret = c_int ret;
     if ret = 0 then Some (actchain, s)
     else do {
       blk \<leftarrow> blks s b;
       if ret \<le> 0 then do { p \<leftarrow> p_actchain; _ \<leftarrow> prts s p; _ \<leftarrow> ubx_block_log blk s; Some (actchain, s) }
       else do {
         let tmp = c_int (int (le_word (take 4 bs)));
         if tmp < 0 \<or> tmp \<ge> num_chains then do { _ \<leftarrow> ubx_block_log blk s; Some (actchain, s) }
         else do {
           _ \<leftarrow> (if actchain \<noteq> tmp then ubx_block_log blk s else Some ());
           Some (tmp, s) } } } }"

section \<open>The hooks\<close>

definition trig_step :: "'r trig_env \<Rightarrow> addr \<Rightarrow> 'r trig_world ubx \<Rightarrow> 'r trig_world ubx option" where
  "trig_step E b s = do {
     inf \<leftarrow> tw_info (world s) b;
     (act, s) \<leftarrow> common_read_actchain E b (ti_p_actchain inf) (ti_num_chains inf) (ti_actchain inf) s;
     let inf = inf\<lparr>ti_actchain := act\<rparr>;
     let s = set_info b (Some inf) s;
     chs \<leftarrow> ti_chains inf;
     if act < 0 \<or> nat act \<ge> length chs then None
     else do {
       (ret, c, s) \<leftarrow> ubx_chain_trigger (te_chain E) (chs ! nat act) s;
       let s = set_info b (Some (inf\<lparr>ti_chains := Some (chs[nat act := c])\<rparr>)) s;
       if ret \<noteq> 0 then do { blk \<leftarrow> blks s b; _ \<leftarrow> ubx_block_log blk s; Some s } else Some s } }"

definition trig_init :: "'r trig_env \<Rightarrow> addr \<Rightarrow> 'r trig_world ubx \<Rightarrow> (int \<times> 'r trig_world ubx) option" where
  "trig_init E b s = do {
     blk \<leftarrow> blks s b;
     let (ok, s) = mem_alloc s;
     if \<not> ok then do { _ \<leftarrow> ubx_block_log blk s; Some (EOUTOFMEM, set_info b None s) }
     else do {
       (num, chs, s) \<leftarrow> common_init_chains (te_ut E) b s;
       let s = set_info b (Some \<lparr>ti_chains = chs, ti_num_chains = num, ti_actchain = 0, ti_p_actchain = None\<rparr>) s;
       if num \<le> 0 then Some (-1, s) else Some (0, s) } }"

definition trig_start :: "'r trig_env \<Rightarrow> addr \<Rightarrow> 'r trig_world ubx \<Rightarrow> (int \<times> 'r trig_world ubx) option" where
  "trig_start E b s = do {
     inf \<leftarrow> tw_info (world s) b;
     p \<leftarrow> ubx_port_get (Some b) (Some ''active_chain'') s;
     if p = None then None
     else do {
       chs \<leftarrow> ti_chains inf;
       (ret, chs, s) \<leftarrow> common_config_chains E b chs s;
       Some (ret, set_info b (Some (inf\<lparr>ti_p_actchain := p, ti_chains := Some chs\<rparr>)) s) } }"

definition trig_stop :: "'r trig_env \<Rightarrow> addr \<Rightarrow> 'r trig_world ubx \<Rightarrow> 'r trig_world ubx option" where
  "trig_stop E b s = do {
     inf \<leftarrow> tw_info (world s) b;
     chs \<leftarrow> ti_chains inf;
     s \<leftarrow> common_output_stats (te_chain E) b chs s;
     _ \<leftarrow> common_log_stats b chs s;
     (_, s) \<leftarrow> common_write_stats E b chs (ti_num_chains inf) s;
     chs \<leftarrow> unconfig_list chs;
     Some (set_info b (Some (inf\<lparr>ti_chains := Some chs\<rparr>)) s) }"

definition trig_cleanup :: "'r trig_env \<Rightarrow> addr \<Rightarrow> 'r trig_world ubx \<Rightarrow> 'r trig_world ubx option" where
  "trig_cleanup E b s = do {
     inf \<leftarrow> tw_info (world s) b;
     s \<leftarrow> common_cleanup (te_ut E) b s;
     Some (set_info b None s) }"

section \<open>The active chain\<close>

text \<open>The private data of a running trigger block: as many chains as configured, at least one, and the active one is one of
  them.\<close>

definition trig_inv :: "addr \<Rightarrow> 'r trig_world ubx \<Rightarrow> bool" where
  "trig_inv b s \<longleftrightarrow> (\<exists>info chs. tw_info (world s) b = Some info \<and> ti_chains info = Some chs \<and> int (length chs) = ti_num_chains info \<and>
     0 \<le> ti_actchain info \<and> ti_actchain info < ti_num_chains info)"

lemma set_info_simps [simp]:
  "tw_info (world (set_info b i s)) = (tw_info (world s))(b := i)" "blks (set_info b i s) = blks s" "dats (set_info b i s) = dats s"
  by (simp_all add: set_info_def)

lemma unconfig_length: "unconfig_list cs = Some cs' \<Longrightarrow> length cs' = length cs"
  by (induction cs arbitrary: cs') auto

lemma config_loop_length: "config_loop E b k dn cs s = Some (r, cs', s') \<Longrightarrow> length cs' = length dn + length cs"
proof (induction cs arbitrary: dn s)
  case (Cons c cs)
  then show ?case
    by (auto simp: Let_def split: if_splits dest: unconfig_length dest!: Cons.IH)
qed simp

lemma config_add_t_ret:
  assumes "ubx_config_add_t U b n d t mn mx at s = Some (r, s')"
  shows "r \<le> 0"
proof -
  obtain x s1 where c: "calloc s = (x, s1)" by (cases "calloc s")
  obtain ok s2 where m: "mem_alloc s1 = (ok, s2)" by (cases "mem_alloc s1")
  have e: "EENTEXISTS \<le> 0" "EOUTOFMEM \<le> 0" "EINVALID_CONFIG \<le> 0"
    by (simp_all add: EENTEXISTS_def EOUTOFMEM_def EINVALID_CONFIG_def)
  from assms show ?thesis
    by (auto simp: ubx_config_add_t_def c m e Let_def split: option.splits if_splits)
qed

lemma config_add_ret:
  assumes "ubx_config_add U b n d t s = Some (r, s')"
  shows "r \<le> 0"
proof -
  have e: "EINVALID_BLOCK \<le> 0" "EINVALID_ARG \<le> 0" "EINVALID_TYPE \<le> 0"
    by (simp_all add: EINVALID_BLOCK_def EINVALID_ARG_def EINVALID_TYPE_def)
  from assms show ?thesis
    by (cases b; cases n; cases "ubx_type_get U s t")
      (auto simp: ubx_config_add_def ubx_config_add2_def e split: if_splits dest: config_add_t_ret)
qed

lemma add_chain_configs_ret: "add_chain_configs U b is s = Some (r, s') \<Longrightarrow> r \<le> 0"
  by (induction "is" arbitrary: s) (auto split: if_splits dest: config_add_ret)

lemma init_chains_ok:
  assumes "common_init_chains U b s = Some (num, chs, s')" "0 < num"
  shows "\<exists>cs. chs = Some cs \<and> int (length cs) = num"
  using assms by (auto simp: common_init_chains_def Let_def split: prod.splits if_splits dest: add_chain_configs_ret)

lemma read_actchain_range:
  assumes "common_read_actchain E b p num act s = Some (act', s')" "0 \<le> act" "act < num"
  shows "0 \<le> act' \<and> act' < num"
  using assms by (auto simp: common_read_actchain_def Let_def split: if_splits)

inductive trig_reach :: "'r trig_env \<Rightarrow> addr \<Rightarrow> 'r trig_world ubx \<Rightarrow> bool" for E b where
  r_init: "trig_init E b s = Some (0, s') \<Longrightarrow> trig_reach E b s'"
| r_start: "trig_reach E b s \<Longrightarrow> trig_start E b s = Some (r, s') \<Longrightarrow> trig_reach E b s'"
| r_step: "trig_reach E b s \<Longrightarrow> trig_step E b s = Some s' \<Longrightarrow> trig_reach E b s'"
| r_stop: "trig_reach E b s \<Longrightarrow> trig_stop E b s = Some s' \<Longrightarrow> trig_reach E b s'"
| r_other: "trig_reach E b s \<Longrightarrow> tw_info (world s') b = tw_info (world s) b \<Longrightarrow> trig_reach E b s'"

text \<open>The block can write a message.\<close>

definition can_log :: "addr \<Rightarrow> 'w ubx \<Rightarrow> bool" where
  "can_log b s \<longleftrightarrow> (\<exists>blk. blks s b = Some blk \<and> ubx_block_log blk s = Some ())"

text \<open>The index a step uses: the integer the port delivered, if it is a chain, otherwise the last one.\<close>

definition picked :: "int \<Rightarrow> u8 list \<Rightarrow> int \<Rightarrow> int \<Rightarrow> int" where
  "picked ret bs num act =
     (let v = c_int (int (le_word (take 4 bs))) in if 0 < c_int ret \<and> 0 \<le> v \<and> v < num then v else act)"

lemma read_actchain_picked:
  assumes "read_one (te_ut E) (ce_hooks (te_chain E)) ''int'' (Some p) (te_junk E) s = Some (ret, bs, s1)" "can_log b s1" "prts s1 p \<noteq> None"
  shows "common_read_actchain E b (Some p) num act s = Some (picked ret bs num act, s1)"
  using assms by (auto simp: common_read_actchain_def picked_def can_log_def Let_def)

lemma trig_step_inv: "trig_inv b s \<Longrightarrow> trig_step E b s = Some s' \<Longrightarrow> trig_inv b s'"
  by (auto simp: trig_inv_def trig_step_def Let_def split: if_splits dest!: read_actchain_range)

lemma trig_step_defined:
  assumes "trig_inv b s" "tw_info (world s) b = Some info" "ti_p_actchain info = Some p"
    "read_one (te_ut E) (ce_hooks (te_chain E)) ''int'' (Some p) (te_junk E) s = Some (ret, bs, s1)" "can_log b s1" "prts s1 p \<noteq> None"
    "act = picked ret bs (ti_num_chains info) (ti_actchain info)"
  shows "\<exists>chs. ti_chains info = Some chs \<and> 0 \<le> act \<and> act < int (length chs) \<and>
    (\<forall>r c s2. ubx_chain_trigger (te_chain E) (chs ! nat act) (set_info b (Some (info\<lparr>ti_actchain := act\<rparr>)) s1) = Some (r, c, s2) \<longrightarrow>
       r = 0 \<or> can_log b s2 \<longrightarrow>
       (\<exists>s'. trig_step E b s = Some s' \<and> tw_info (world s') b = Some (info\<lparr>ti_actchain := act, ti_chains := Some (chs[nat act := c])\<rparr>)))"
proof -
  from assms(1,2) obtain chs where i: "ti_chains info = Some chs" "int (length chs) = ti_num_chains info" "0 \<le> ti_actchain info"
    "ti_actchain info < ti_num_chains info" unfolding trig_inv_def by auto
  note rd = read_actchain_picked [OF assms(4-6), of "ti_num_chains info" "ti_actchain info", folded assms(7)]
  from read_actchain_range [OF rd i(3,4)] i(2) have r: "0 \<le> act" "act < int (length chs)" by auto
  have log: "ubx_block_log blk (set_info b x s2) = ubx_block_log blk s2" for blk x and s2 :: "'a trig_world ubx"
    by (cases "b_loglevel blk") (simp_all add: ubx_block_log_def)
  have "\<exists>s'. trig_step E b s = Some s' \<and> tw_info (world s') b = Some (info\<lparr>ti_actchain := act, ti_chains := Some (chs[nat act := c])\<rparr>)"
    if "ubx_chain_trigger (te_chain E) (chs ! nat act) (set_info b (Some (info\<lparr>ti_actchain := act\<rparr>)) s1) = Some (k, c, s2)"
      "k = 0 \<or> can_log b s2" for k c s2
    using that assms(2,3) rd i(1) r by (auto simp: trig_step_def Let_def can_log_def log)
  with i(1) r show ?thesis by blast
qed

lemma trig_reach_inv: "trig_reach E b s \<Longrightarrow> trig_inv b s"
proof (induction rule: trig_reach.induct)
  case (r_init s s')
  obtain ok s1 where m: "mem_alloc s = (ok, s1)" by (cases "mem_alloc s")
  from r_init show ?case
    by (auto simp: trig_init_def m Let_def trig_inv_def split: if_splits dest!: init_chains_ok)
next
  case (r_start s r s')
  then show ?case
    by (auto simp: trig_start_def trig_inv_def common_config_chains_def split: if_splits dest!: config_loop_length)
next
  case (r_step s s')
  then show ?case by (blast intro: trig_step_inv)
next
  case (r_stop s s')
  then show ?case
    by (auto simp: trig_stop_def trig_inv_def dest!: unconfig_length)
next
  case (r_other s s')
  then show ?case by (simp add: trig_inv_def)
qed

section \<open>Stopping and starting again\<close>

lemma unconfig_freed: "ch_blk_tstats c = TB_freed \<Longrightarrow> unconfig_list (c # cs) = None"
  by (simp add: ubx_chain_cleanup_def)

lemma unconfig_frees:
  assumes "unconfig_list (c # cs) = Some cs'" "ch_blk_tstats c = TB xs"
  shows "\<exists>c' r. cs' = c' # r \<and> ch_blk_tstats c' = TB_freed"
  using assms by (auto simp: ubx_chain_cleanup_def)

lemma chain_init_freed:
  assumes "ubx_chain_init c n rate s = Some (r, c', s')" "ch_blk_tstats c = TB_freed"
  shows "ch_blk_tstats c' = TB_freed"
  using assms by (auto simp: ubx_chain_init_def Let_def realloc_tstats_def split: if_splits)

lemma config_loop_freed:
  assumes "config_loop E b k (c # dn) cs s = Some (r, cs', s')" "ch_blk_tstats c = TB_freed"
  shows "\<exists>c' q. cs' = c' # q \<and> ch_blk_tstats c' = TB_freed"
  using assms
proof (induction cs arbitrary: dn s)
  case (Cons d cs)
  then show ?case
    by (auto simp: Let_def ubx_chain_cleanup_def split: if_splits dest!: Cons.IH)
qed auto

lemma config_loop_freed_first:
  assumes "config_loop E b k [] (c # cs) s = Some (r, cs', s')" "ch_blk_tstats c = TB_freed"
  shows "\<exists>c' q. cs' = c' # q \<and> ch_blk_tstats c' = TB_freed"
  using assms
  by (auto simp: Let_def split: if_splits dest!: config_loop_freed chain_init_freed)

lemma trig_stop_freed:
  assumes "tw_info (world s) b = Some info" "ti_chains info = Some (c # cs)" "ch_blk_tstats c = TB_freed"
  shows "trig_stop E b s = None"
proof (cases "trig_stop E b s")
  case (Some s')
  with assms(1,2) have "\<exists>chs. unconfig_list (c # cs) = Some chs" unfolding trig_stop_def by (auto simp del: unconfig_list.simps)
  with unconfig_freed [OF assms(3)] show ?thesis by simp
qed

lemma trig_start_freed:
  assumes "tw_info (world s) b = Some info" "ti_chains info = Some (c # cs)" "ch_blk_tstats c = TB_freed" "trig_start E b s = Some (r, s')"
  shows "\<exists>info c cs. tw_info (world s') b = Some info \<and> ti_chains info = Some (c # cs) \<and> ch_blk_tstats c = TB_freed"
  using assms(1,2,4)
  by (auto simp: trig_start_def common_config_chains_def simp del: config_loop.simps split: if_splits dest!: config_loop_freed_first [OF _ assms(3)])

section \<open>The statistics file\<close>

lemma getptr_frame:
  assumes "getptr U suf tn b name s = Some (len, p, s')"
  shows "world s' = world s" "blks s' = blks s" "oom s' = oom s" "dats s' = dats s"
  using assms by (auto simp: getptr_def set_static_def)

lemma fwrite_append: "fwrite_list (fp @ fq) xs = map_option (\<lambda>r. fp @ r) (fwrite_list fq xs)"
proof (induction xs arbitrary: fq)
  case (Cons x xs)
  have "tstat_fwrite (fp @ fq) x = map_option (\<lambda>r. fp @ r) (tstat_fwrite fq x)"
    by (cases "ubx_ts_div (ts_total x) (sint (ts_cnt x))") (auto simp: tstat_fwrite_def)
  then show ?case using Cons.IH by (cases "tstat_fwrite fq x") auto
qed simp

lemma write_loop_first:
  assumes "reported c = Some (Some xs)" "fwrite_list [] xs = Some ls"
  shows "write_loop_stats b (c # cs) n fp s = Some (True, fp @ concat (replicate n ls))"
proof (induction n arbitrary: fp)
  case (Suc n)
  have "fwrite_list fp xs = Some (fp @ ls)" using fwrite_append [of fp "[]" xs] assms(2) by simp
  with assms(1) Suc.IH show ?case by (simp add: ubx_chain_tstats_fwrite_def)
qed simp

section \<open>A node with a trigger block\<close>

definition trig_cfg :: "string \<Rightarrow> addr \<Rightarrow> addr \<Rightarrow> ubx_config" where
  "trig_cfg n t v = \<lparr>c_name = n, c_doc = None, c_attrs = CONFIG_ATTR_CLONED, c_block = 7, c_type = Some t, c_value = Some v, c_min = 0, c_max = 1\<rparr>"

definition trig_blk :: ubx_block where
  "trig_blk = (mk_blk ''trig/1'' BLOCK_TYPE_COMPUTATION [30, 31])\<lparr>b_state := BLOCK_STATE_INACTIVE\<rparr>"

definition empty_data :: "addr \<Rightarrow> ubx_data" where
  "empty_data t = (local_data (Some t) 0 [])\<lparr>d_data := Buf_null\<rparr>"

text \<open>\<open>path\<close> is the value of \<open>tstats_profile_path\<close>, \<open>info\<close> the private data of the block 7.\<close>

definition trig_node :: "ubx_data \<Rightarrow> trig_info option \<Rightarrow> unit trig_world ubx" where
  "trig_node path info = \<lparr>nd_name = ''n'', nd_blocks = [], nd_types = [(''int'', 1), (''char'', 3), (''struct ubx_triggee'', 4)],
     nd_modules = [], nd_cur_seqid = 0, nd_attrs = 0, nd_loglevel = 6, blks = [7 \<mapsto> trig_blk], prts = Map.empty,
     cfgs = [30 \<mapsto> trig_cfg ''num_chains'' 1 40, 31 \<mapsto> trig_cfg ''tstats_profile_path'' 3 41],
     typs = [1 \<mapsto> mk_type ''int'' 4, 3 \<mapsto> mk_type ''char'' 1, 4 \<mapsto> mk_type ''struct ubx_triggee'' 16],
     dats = [40 \<mapsto> empty_data 1, 41 \<mapsto> path], mods = Map.empty, static_type = (\<lambda>_. None), next_addr = 100, oom = [],
     world = \<lparr>tw_info = (\<lambda>_. None)(7 := info), tw_files = [], tw_rest = ()\<rparr>\<rparr>"

definition trig_env1 :: "unit trig_env" where
  "trig_env1 = \<lparr>te_chain = \<lparr>ce_ut = ut_ref, ce_hooks = no_hooks, ce_clock = (\<lambda>w. (\<lparr>sec = 0, nsec = 0\<rparr>, w)), ce_bytes = (\<lambda>x. [])\<rparr>,
     te_fopen = (\<lambda>f. True), te_triggees = (\<lambda>bs. []), te_triggee_bytes = (\<lambda>ts. []), te_rate_ns = (\<lambda>bs. 0), te_junk = [0, 0, 0, 0]\<rparr>"

definition idle_chain :: ubx_chain where
  "idle_chain = zero_chain\<lparr>ch_tstats_mode := TSTATS_PERBLOCK, ch_blk_tstats := TB [], ch_global := tstat_init2 ''#total#'' (Some ''chain0'')\<rparr>"

definition idle_info :: trig_info where
  "idle_info = \<lparr>ti_chains = Some [idle_chain, idle_chain\<lparr>ch_global := tstat_init2 ''#total#'' (Some ''chain1'')\<rparr>], ti_num_chains = 2,
     ti_actchain = 0, ti_p_actchain = None\<rparr>"

lemma trig_blk: "b_nd trig_blk" "b_loglevel trig_blk = None" "b_configs trig_blk = [30, 31]" "b_name trig_blk = ''trig/1''"
  by (simp_all add: trig_blk_def mk_blk_def)

lemma trig_node_simps:
  "blks (trig_node path info) = [7 \<mapsto> trig_blk]" "dats (trig_node path info) = [40 \<mapsto> empty_data 1, 41 \<mapsto> path]"
  "cfgs (trig_node path info) = [30 \<mapsto> trig_cfg ''num_chains'' 1 40, 31 \<mapsto> trig_cfg ''tstats_profile_path'' 3 41]"
  "tw_info (world (trig_node path info)) 7 = info" "oom (trig_node path info) = []"
  "nd_types (trig_node path info) = [(''int'', 1), (''char'', 3), (''struct ubx_triggee'', 4)]"
  "tw_files (world (trig_node path info)) = []"
  by (simp_all add: trig_node_def)

lemma trig_node_find:
  assumes "cfgs s = cfgs (trig_node path info)"
  shows "config_find s [30, 31] ''num_chains'' = Some (Some 30)" "config_find s [30, 31] ''tstats_profile_path'' = Some (Some 31)"
    "config_find s [30, 31] ''chain0'' = Some None"
  using assms by (simp_all add: trig_node_simps trig_cfg_def strncmp_eq_def UBX_CONFIG_NAME_MAXLEN_def)

lemma trig_node_path:
  assumes "cfgs s = cfgs (trig_node path info)" "blks s = [7 \<mapsto> trig_blk]" "nd_types s = nd_types (trig_node path info)"
    "dats s = dats (trig_node path info)"
  shows "getptr ut_ref ''char'' ''char'' 7 ''tstats_profile_path'' s =
      Some (d_len path, if d_len path > 0 then Some 41 else None, set_static ''cfg_getptr_char'' (Some 3) s)"
    "getptr ut_ref ''int'' ''int'' 7 ''num_chains'' s = Some (0, None, set_static ''cfg_getptr_int'' (Some 1) s)"
proof -
  note e = getptr_eval [where s = s and b = 7 and blk = trig_blk and U = ut_ref]
  note simps = trig_node_simps trig_blk trig_cfg_def trig_node_find [OF assms(1)] empty_data_def local_data_def
  show "getptr ut_ref ''char'' ''char'' 7 ''tstats_profile_path'' s =
      Some (d_len path, if d_len path > 0 then Some 41 else None, set_static ''cfg_getptr_char'' (Some 3) s)"
    using e [where c = 31 and tn = "''char''" and t = 3] assms by (simp add: simps del: config_find.simps)
  show "getptr ut_ref ''int'' ''int'' 7 ''num_chains'' s = Some (0, None, set_static ''cfg_getptr_int'' (Some 1) s)"
    using e [where c = 30 and tn = "''int''" and t = 1] assms by (simp add: simps del: config_find.simps)
qed

lemma trig_node_init:
  "\<exists>s' info. trig_init trig_env1 7 (trig_node (empty_data 3) None) = Some (0, s') \<and> tw_info (world s') 7 = Some info \<and>
    ti_chains info = Some [zero_chain] \<and> ti_num_chains info = 1 \<and> ti_actchain info = 0 \<and> ti_p_actchain info = None \<and>
    (\<exists>blk. blks s' 7 = Some blk \<and> b_nd blk \<and> b_loglevel blk = None)"
proof -
  let ?s = "trig_node (empty_data 3) None"
  define s1 where "s1 = set_static ''cfg_getptr_int'' (Some 1) ?s"
  have m: "mem_alloc ?s = (True, ?s)" "mem_alloc s1 = (True, s1)"
    by (simp_all add: mem_alloc_def s1_def set_static_def trig_node_def)
  have g: "getptr ut_ref ''int'' ''int'' 7 ''num_chains'' ?s = Some (0, None, s1)"
    using trig_node_path(2) [of ?s "empty_data 3" None] by (simp add: trig_node_simps s1_def)
  have s1: "cfgs s1 = cfgs ?s" "blks s1 = [7 \<mapsto> trig_blk]" "oom s1 = []" "next_addr s1 = 100" "dats s1 = dats ?s"
    "typs s1 4 = Some (mk_type ''struct ubx_triggee'' 16)" "nd_types s1 = nd_types ?s"
    by (simp_all add: s1_def set_static_def trig_node_def)
  have z: "char_of (48 :: nat) = CHR ''0''" by code_simp
  have n: "chain_name 0 = ''chain0''"
    by (simp add: chain_name_def snprintf_def UBX_BLOCK_NAME_MAXLEN_def dec.simps z)
  have f: "config_find s1 [30, 31] ''chain0'' = Some None" by (rule trig_node_find(3)) (rule s1(1))
  have "\<exists>s2. ubx_config_add ut_ref (Some 7) (Some ''chain0'') None (Some ''struct ubx_triggee'') s1 = Some (0, s2) \<and>
      (\<exists>blk. blks s2 7 = Some blk \<and> b_nd blk \<and> b_loglevel blk = None)"
    using f by (simp add: ubx_config_add_def ubx_config_add2_def ubx_config_add_t_def ubx_config_get_def s1 trig_blk trig_node_simps
        ubx_type_get_def calloc_def UBX_CONFIG_NAME_MAXLEN_def cfg_max_def ubx_data_alloc_t_def Let_def zero_cfg_def
        del: config_find.simps)
  then obtain s2 blk where s2: "ubx_config_add ut_ref (Some 7) (Some ''chain0'') None (Some ''struct ubx_triggee'') s1 = Some (0, s2)"
    "blks s2 7 = Some blk" "b_nd blk" "b_loglevel blk = None" by blast
  have ut: "te_ut trig_env1 = ut_ref" by (simp add: te_ut_def trig_env1_def)
  have c: "common_init_chains ut_ref 7 ?s = Some (1, Some [zero_chain], s2)"
    using s2(1) by (simp add: common_init_chains_def trig_node_simps g cfg_or_def m(2) n)
  show ?thesis
    using s2(2-4) ut by (simp add: trig_init_def trig_node_simps m(1) c Let_def)
qed

subsection \<open>Started, with a port that delivers -1\<close>

text \<open>Block 7 has the ports 20 and 21; the second is connected to the iblock 5, whose read function gives the integer -1.\<close>

definition run_blk :: ubx_block where
  "run_blk = trig_blk\<lparr>b_ports := [20, 21], b_configs := [32, 33, 34, 35]\<rparr>"

definition neg_hooks :: "'w hooks" where
  "neg_hooks = no_hooks\<lparr>hk_read := (\<lambda>f b d s. do {
     dat \<leftarrow> dats s d; Some (1, s\<lparr>dats := (dats s)(d \<mapsto> dat\<lparr>d_data := Buf [255, 255, 255, 255]\<rparr>)\<rparr>) })\<rparr>"

definition trig_env2 :: "unit trig_env" where
  "trig_env2 = trig_env1\<lparr>te_chain := (te_chain trig_env1)\<lparr>ce_hooks := neg_hooks\<rparr>\<rparr>"

definition run_chain :: ubx_chain where
  "run_chain = zero_chain\<lparr>ch_p_tstats := Some 20, ch_global := tstat_init2 ''#total#'' (Some ''chain0'')\<rparr>"

definition run_node :: "trig_info option \<Rightarrow> unit trig_world ubx" where
  "run_node info = (trig_node (empty_data 3) info)\<lparr>
     nd_types := [(''int'', 1), (''char'', 3), (''struct ubx_triggee'', 4), (''double'', 5)],
     blks := [7 \<mapsto> run_blk, 5 \<mapsto> pipe_blk ''o'' [] (Ops_inter (Some 1) (Some 2) 0 0)],
     prts := [20 \<mapsto> (wire 7 None (Some 1) None None)\<lparr>p_name := ''tstats''\<rparr>,
       21 \<mapsto> (wire 7 (Some 1) None (Some [5]) None)\<lparr>p_name := ''active_chain''\<rparr>],
     cfgs := [32 \<mapsto> trig_cfg ''tstats_mode'' 1 40, 33 \<mapsto> trig_cfg ''tstats_output_rate'' 5 42,
       34 \<mapsto> trig_cfg ''tstats_skip_first'' 1 40, 35 \<mapsto> trig_cfg ''chain0'' 4 43],
     dats := [40 \<mapsto> empty_data 1, 42 \<mapsto> empty_data 5, 43 \<mapsto> empty_data 4]\<rparr>"

lemma run_blk: "b_nd run_blk" "b_loglevel run_blk = None" "b_configs run_blk = [32, 33, 34, 35]" "b_ports run_blk = [20, 21]"
  by (simp_all add: run_blk_def trig_blk_def mk_blk_def)

lemma run_node_simps:
  "blks (run_node info) = [7 \<mapsto> run_blk, 5 \<mapsto> pipe_blk ''o'' [] (Ops_inter (Some 1) (Some 2) 0 0)]"
  "prts (run_node info) = [20 \<mapsto> (wire 7 None (Some 1) None None)\<lparr>p_name := ''tstats''\<rparr>,
     21 \<mapsto> (wire 7 (Some 1) None (Some [5]) None)\<lparr>p_name := ''active_chain''\<rparr>]"
  "cfgs (run_node info) = [32 \<mapsto> trig_cfg ''tstats_mode'' 1 40, 33 \<mapsto> trig_cfg ''tstats_output_rate'' 5 42,
     34 \<mapsto> trig_cfg ''tstats_skip_first'' 1 40, 35 \<mapsto> trig_cfg ''chain0'' 4 43]"
  "dats (run_node info) = [40 \<mapsto> empty_data 1, 42 \<mapsto> empty_data 5, 43 \<mapsto> empty_data 4]"
  "nd_types (run_node info) = [(''int'', 1), (''char'', 3), (''struct ubx_triggee'', 4), (''double'', 5)]"
  "tw_info (world (run_node info)) 7 = info" "oom (run_node info) = []" "next_addr (run_node info) = 100"
  "static_type (run_node info) = (\<lambda>_. None)"
  by (simp_all add: run_node_def trig_node_def)

lemma run_node_getptr:
  assumes "blks s = blks (run_node info)" "cfgs s = cfgs (run_node info)" "dats s = dats (run_node info)" "nd_types s = nd_types (run_node info)"
  shows "getptr ut_ref ''int'' ''int'' 7 ''tstats_mode'' s = Some (0, None, set_static ''cfg_getptr_int'' (Some 1) s)"
    "getptr ut_ref ''double'' ''double'' 7 ''tstats_output_rate'' s = Some (0, None, set_static ''cfg_getptr_double'' (Some 5) s)"
    "getptr ut_ref ''int'' ''int'' 7 ''tstats_skip_first'' s = Some (0, None, set_static ''cfg_getptr_int'' (Some 1) s)"
    "getptr ut_ref ''triggee'' ''struct ubx_triggee'' 7 ''chain0'' s = Some (0, None, set_static ''cfg_getptr_triggee'' (Some 4) s)"
proof -
  have f: "config_find s [32, 33, 34, 35] ''tstats_mode'' = Some (Some 32)"
    "config_find s [32, 33, 34, 35] ''tstats_output_rate'' = Some (Some 33)"
    "config_find s [32, 33, 34, 35] ''tstats_skip_first'' = Some (Some 34)"
    "config_find s [32, 33, 34, 35] ''chain0'' = Some (Some 35)"
    using assms(2) by (simp_all add: run_node_simps trig_cfg_def strncmp_eq_def UBX_CONFIG_NAME_MAXLEN_def)
  note e = getptr_eval [where s = s and b = 7 and blk = run_blk and U = ut_ref]
  note simps = run_node_simps run_blk trig_cfg_def f empty_data_def local_data_def
  show "getptr ut_ref ''int'' ''int'' 7 ''tstats_mode'' s = Some (0, None, set_static ''cfg_getptr_int'' (Some 1) s)"
    using e [where c = 32 and tn = "''int''" and t = 1] assms by (simp add: simps del: config_find.simps)
  show "getptr ut_ref ''double'' ''double'' 7 ''tstats_output_rate'' s = Some (0, None, set_static ''cfg_getptr_double'' (Some 5) s)"
    using e [where c = 33 and tn = "''double''" and t = 5] assms by (simp add: simps del: config_find.simps)
  show "getptr ut_ref ''int'' ''int'' 7 ''tstats_skip_first'' s = Some (0, None, set_static ''cfg_getptr_int'' (Some 1) s)"
    using e [where c = 34 and tn = "''int''" and t = 1] assms by (simp add: simps del: config_find.simps)
  show "getptr ut_ref ''triggee'' ''struct ubx_triggee'' 7 ''chain0'' s = Some (0, None, set_static ''cfg_getptr_triggee'' (Some 4) s)"
    using e [where c = 35 and tn = "''struct ubx_triggee''" and t = 4] assms by (simp add: simps del: config_find.simps)
qed

lemma set_static_fields [simp]:
  "blks (set_static fn t s) = blks s" "cfgs (set_static fn t s) = cfgs s" "dats (set_static fn t s) = dats s"
  "nd_types (set_static fn t s) = nd_types s" "prts (set_static fn t s) = prts s" "world (set_static fn t s) = world s"
  by (simp_all add: set_static_def)

lemma run_node_start:
  assumes "ti_chains info = Some [zero_chain]" "ti_num_chains info = 1" "ti_actchain info = 0"
  shows "\<exists>s'. trig_start trig_env2 7 (run_node (Some info)) = Some (0, s') \<and>
    tw_info (world s') 7 = Some (info\<lparr>ti_p_actchain := Some 21, ti_chains := Some [run_chain]\<rparr>)"
proof -
  have ut: "te_ut trig_env2 = ut_ref" by (simp add: te_ut_def trig_env2_def trig_env1_def)
  have pf: "port_find s [20, 21] ''active_chain'' = Some (Some 21)" "port_find s [20, 21] ''tstats'' = Some (Some 20)"
    if "prts s = prts (run_node (Some info))" for s :: "unit trig_world ubx"
    using that by (simp_all add: run_node_simps wire_def strncmp_eq_def UBX_PORT_NAME_MAXLEN_def)
  have z: "char_of (48 :: nat) = CHR ''0''" by code_simp
  have n: "chain_name 0 = ''chain0''" by (simp add: chain_name_def snprintf_def UBX_BLOCK_NAME_MAXLEN_def dec.simps z)
  show ?thesis
    using assms
    by (simp add: trig_start_def common_config_chains_def run_node_simps ubx_port_get_def pf run_blk run_node_getptr [where info = "Some info"] ut
        cfg_or_def n load_triggees_def ubx_chain_init_def store_triggees_def run_chain_def Let_def tstats_modes zero_chain_def
        del: port_find.simps)
qed

lemma run_node_read:
  "\<exists>s1. read_one ut_ref neg_hooks ''int'' (Some 21) [0, 0, 0, 0] (run_node info) = Some (1, [255, 255, 255, 255], s1) \<and>
     can_log 7 s1 \<and> prts s1 21 \<noteq> None"
proof -
  let ?s = "run_node info"
  define s0 where "s0 = set_static ''read_int'' (Some 1) ?s"
  define s1 where "s1 = s0\<lparr>next_addr := 101, dats := (dats s0)(100 \<mapsto> local_data (Some 1) 1 [0, 0, 0, 0])\<rparr>"
  have ty: "acc_type ut_ref ''read_int'' ''int'' 7 (Some 1) ?s = Some (0, s0)"
    by (simp add: acc_type_def run_node_simps ubx_type_get_def run_blk s0_def)
  have s1: "blks s1 = blks ?s" "prts s1 = prts ?s" "dats s1 100 = Some (local_data (Some 1) 1 [0, 0, 0, 0])"
    by (simp_all add: s1_def s0_def)
  have "\<exists>s2. port_read neg_hooks (Some 21) (Some 100) s1 = Some (1, s2) \<and> blks s2 7 = Some run_blk \<and> prts s2 = prts ?s \<and>
      dats s2 100 = Some ((local_data (Some 1) 1 [0, 0, 0, 0])\<lparr>d_data := Buf [255, 255, 255, 255]\<rparr>)"
    by (simp add: port_read_def s1 run_node_simps wire_def port_is_in_def local_data_def neg_hooks_def pipe_blk_def inst_blk_def
        hooked_blk_def mk_blk_def read_fun_def count_read_def c_int_def)
  then obtain s2 where s2: "port_read neg_hooks (Some 21) (Some 100) s1 = Some (1, s2)" "blks s2 7 = Some run_blk" "prts s2 = prts ?s"
      "dats s2 100 = Some ((local_data (Some 1) 1 [0, 0, 0, 0])\<lparr>d_data := Buf [255, 255, 255, 255]\<rparr>)" by blast
  have na: "next_addr s0 = 100" "static_type s0 ''read_int'' = Some 1" by (simp_all add: s0_def set_static_def run_node_simps)
  have "read_one ut_ref neg_hooks ''int'' (Some 21) [0, 0, 0, 0] ?s = Some (1, [255, 255, 255, 255], s2\<lparr>dats := (dats s2)(100 := None)\<rparr>)"
    using ty s2 na by (simp add: read_one_def accessor_types_def read_array_def run_node_simps(1,2) wire_def Let_def s1_def local_data_def)
  moreover have "can_log 7 (s2\<lparr>dats := (dats s2)(100 := None)\<rparr>)" using s2(2) by (simp add: can_log_def ubx_block_log_def run_blk)
  ultimately show ?thesis using s2(3) by (simp add: run_node_simps)
qed

lemma trig_env2_reach:
  "\<exists>s info. trig_reach trig_env2 7 s \<and> tw_info (world s) 7 = Some info \<and> ti_p_actchain info = Some 21 \<and> ti_num_chains info = 1 \<and>
     ti_actchain info = 0 \<and> ti_chains info = Some [run_chain] \<and> s = run_node (Some info)"
proof -
  have i: "trig_init trig_env2 b s = trig_init trig_env1 b s" for b s
  proof -
    have "te_ut trig_env2 = te_ut trig_env1" by (simp add: te_ut_def trig_env2_def)
    then show ?thesis by (simp only: trig_init_def)
  qed
  obtain s0 info where s: "trig_init trig_env2 7 (trig_node (empty_data 3) None) = Some (0, s0)" "tw_info (world s0) 7 = Some info"
    "ti_chains info = Some [zero_chain]" "ti_num_chains info = 1" "ti_actchain info = 0" "ti_p_actchain info = None"
    using trig_node_init unfolding i by blast
  let ?i = "info\<lparr>ti_p_actchain := Some 21, ti_chains := Some [run_chain]\<rparr>"
  from r_init [OF s(1)] have "trig_reach trig_env2 7 (run_node (Some info))"
    by (rule r_other) (simp add: s(2) run_node_simps)
  with run_node_start [OF s(3-5)] obtain s1 where "trig_reach trig_env2 7 s1" "tw_info (world s1) 7 = Some ?i"
    by (blast intro: r_start)
  then have "trig_reach trig_env2 7 (run_node (Some ?i))" by (auto intro: r_other simp: run_node_simps)
  moreover have "tw_info (world (run_node (Some ?i))) 7 = Some ?i" by (simp add: run_node_simps)
  ultimately show ?thesis using s(4,5) by (intro exI [of _ "run_node (Some ?i)"] exI [of _ ?i]) simp
qed

section \<open>Properties\<close>

text \<open>C29: a step never fails because of the number of the chain. Take a state that a successful \<open>trig_init\<close> and any
  sequence of starts, steps and stops of the block lead to, interleaved with anything that leaves its private data alone. Whatever
  reading the port \<open>active_chain\<close> gives, an error, nothing, or any integer, negative or too large ones included: the index the
  step uses is within the array of chains, it is the integer read if that is a chain and the last index otherwise, and if
  triggering this chain is defined then so is the step, and it changes this chain and the index and nothing else of the private
  data.\<close>

theorem trig_chain_in_range:
  assumes "trig_reach E b s" "tw_info (world s) b = Some info" "ti_p_actchain info = Some p"
    "read_one (te_ut E) (ce_hooks (te_chain E)) ''int'' (Some p) (te_junk E) s = Some (ret, bs, s1)" "can_log b s1" "prts s1 p \<noteq> None"
    "act = picked ret bs (ti_num_chains info) (ti_actchain info)"
  shows "\<exists>chs. ti_chains info = Some chs \<and> 0 \<le> act \<and> act < int (length chs) \<and>
    (\<forall>r c s2. ubx_chain_trigger (te_chain E) (chs ! nat act) (set_info b (Some (info\<lparr>ti_actchain := act\<rparr>)) s1) = Some (r, c, s2) \<longrightarrow>
       r = 0 \<or> can_log b s2 \<longrightarrow>
       (\<exists>s'. trig_step E b s = Some s' \<and> tw_info (world s') b = Some (info\<lparr>ti_actchain := act, ti_chains := Some (chs[nat act := c])\<rparr>)))"
  using trig_step_defined [OF trig_reach_inv [OF assms(1)] assms(2-7)] .

theorem trig_chain_in_range_witness:
  "\<exists>s s1 s' info. trig_reach trig_env2 7 s \<and> ti_p_actchain info = Some 21 \<and> tw_info (world s) 7 = Some info \<and>
     read_one ut_ref neg_hooks ''int'' (Some 21) [0, 0, 0, 0] s = Some (1, [255, 255, 255, 255], s1) \<and>
     c_int (int (le_word (take 4 [255, 255, 255, 255]))) = - 1 \<and>
     trig_step trig_env2 7 s = Some s' \<and> map_option ti_actchain (tw_info (world s') 7) = Some 0"
proof -
  obtain s info where s: "trig_reach trig_env2 7 s" "tw_info (world s) 7 = Some info" "ti_p_actchain info = Some 21"
    "ti_num_chains info = 1" "ti_actchain info = 0" "ti_chains info = Some [run_chain]"
    "s = run_node (Some info)" using trig_env2_reach by blast
  from run_node_read [of "Some info"] obtain s1 where
    r: "read_one ut_ref neg_hooks ''int'' (Some 21) [0, 0, 0, 0] s = Some (1, [255, 255, 255, 255], s1)" "can_log 7 s1" "prts s1 21 \<noteq> None"
    unfolding s(7) by blast
  have e: "te_ut trig_env2 = ut_ref" "ce_hooks (te_chain trig_env2) = neg_hooks" "te_junk trig_env2 = [0, 0, 0, 0]"
    by (simp_all add: te_ut_def trig_env2_def trig_env1_def)
  have v: "c_int (int (le_word (take 4 [255, 255, 255, 255 :: u8]))) = - 1" by (simp add: le_word_def c_int_def signed_of_int)
  then have p: "0 = picked 1 [255, 255, 255, 255] (ti_num_chains info) (ti_actchain info)" using s(5) by (simp add: picked_def)
  have t: "\<exists>c. ubx_chain_trigger E run_chain x = Some (0, c, x)" for E and x :: "unit trig_world ubx"
    by (simp add: ubx_chain_trigger_def run_chain_def zero_chain_def trig_stats_disabled_def tstats_modes)
  from trig_chain_in_range [OF s(1-3) _ r(2,3) p, unfolded e, OF r(1)] s(6) t
  obtain s' c where "trig_step trig_env2 7 s = Some s'"
    "tw_info (world s') 7 = Some (info\<lparr>ti_actchain := 0, ti_chains := Some ([run_chain][nat 0 := c])\<rparr>)" by fastforce
  with s(1-3) r(1) v show ?thesis by fastforce
qed

text \<open>C36: \<open>common_unconfig\<close> frees the per-block statistics but keeps the pointers. When a trigger block whose first chain has
  per-block statistics has been stopped, stopping it again is undefined (a double free), and a start is either undefined itself
  (\<open>realloc\<close> of the dangling pointer, in per-block mode) or leaves a block that cannot be stopped.\<close>

theorem trig_restart_dangling:
  assumes "tw_info (world s) b = Some info" "ti_chains info = Some (c # cs)" "ch_blk_tstats c = TB xs" "trig_stop E b s = Some s1"
  shows "trig_stop E b s1 = None \<and> (\<forall>r s2. trig_start E b s1 = Some (r, s2) \<longrightarrow> trig_stop E b s2 = None)"
proof -
  from assms(1,2,4) obtain chs where u: "unconfig_list (c # cs) = Some chs" "tw_info (world s1) b = Some (info\<lparr>ti_chains := Some chs\<rparr>)"
    by (auto simp: trig_stop_def simp del: unconfig_list.simps)
  from unconfig_frees [OF u(1) assms(3)] obtain c' q where f: "chs = c' # q" "ch_blk_tstats c' = TB_freed" by blast
  have i: "tw_info (world s1) b = Some (info\<lparr>ti_chains := Some chs\<rparr>)" "ti_chains (info\<lparr>ti_chains := Some chs\<rparr>) = Some (c' # q)"
    using u(2) f(1) by simp_all
  from trig_stop_freed [OF i f(2)] trig_start_freed [OF i f(2)] trig_stop_freed show ?thesis by metis
qed

theorem trig_restart_dangling_witness:
  "\<exists>s1. trig_stop trig_env1 7 (trig_node (empty_data 3) (Some idle_info)) = Some s1 \<and> trig_stop trig_env1 7 s1 = None"
proof -
  let ?s = "trig_node (empty_data 3) (Some idle_info)"
  have rep: "reported idle_chain = Some (Some [ch_global idle_chain])"
    "reported (idle_chain\<lparr>ch_global := g\<rparr>) = Some (Some [g])" for g
    by (simp_all add: reported_def idle_chain_def zero_chain_def tstats_modes)
  have cnt: "ts_cnt (tstat_init2 n c) = 0" for n c by (simp add: tstat_init2_def)
  have log: "ubx_block_log trig_blk t = Some ()" for t :: "unit trig_world ubx" by (simp add: ubx_block_log_def trig_blk)
  have w: "common_write_stats trig_env1 7 chs 2 ?s = Some (0, set_static ''cfg_getptr_char'' (Some 3) ?s)" for chs
    using trig_node_path(1) [of ?s "empty_data 3" "Some idle_info"]
    by (simp add: common_write_stats_def te_ut_def trig_env1_def trig_node_simps empty_data_def local_data_def)
  let ?c1 = "idle_chain\<lparr>ch_global := tstat_init2 ''#total#'' (Some ''chain1'')\<rparr>"
  have ch: "tw_info (world ?s) 7 = Some idle_info" "ti_chains idle_info = Some [idle_chain, ?c1]" "ti_num_chains idle_info = 2"
    by (simp_all add: trig_node_simps idle_info_def)
  have g: "ts_cnt (ch_global idle_chain) = 0" "ts_cnt (tstat_init2 ''#total#'' (Some ''chain1'')) = 0" "ch_p_tstats idle_chain = None"
    by (simp_all add: idle_chain_def zero_chain_def cnt)
  have o: "common_output_stats (te_chain trig_env1) 7 [idle_chain, ?c1] ?s = Some ?s"
    by (simp add: ubx_chain_tstats_output_def rep g write_tstat_def write_array_def)
  have l: "common_log_stats 7 [idle_chain, ?c1] ?s = Some ()"
    using log by (simp add: ubx_chain_tstats_log_def rep g trig_node_simps)
  have u: "\<exists>cs. unconfig_list [idle_chain, ?c1] = Some cs" by (simp add: ubx_chain_cleanup_def idle_chain_def)
  have "\<exists>s1. trig_stop trig_env1 7 ?s = Some s1"
    using u by (auto simp: trig_stop_def ch o l w simp del: common_output_stats.simps common_log_stats.simps unconfig_list.simps)
  then obtain s1 where s1: "trig_stop trig_env1 7 ?s = Some s1" ..
  have i: "tw_info (world ?s) 7 = Some idle_info"
    "ti_chains idle_info = Some (idle_chain # [idle_chain\<lparr>ch_global := tstat_init2 ''#total#'' (Some ''chain1'')\<rparr>])"
    "ch_blk_tstats idle_chain = TB []"
    by (simp_all add: trig_node_simps idle_info_def idle_chain_def)
  from trig_restart_dangling [OF i s1] s1 show ?thesis by blast
qed

text \<open>\<open>common_write_stats\<close> passes the first chain in every iteration: the statistics file of a block with \<open>num\<close>
  chains holds \<open>num\<close> copies of the lines of chain 0 and nothing of the others. The file is named after the profile path
  and the block, without the final \<open>s\<close> of \<open>.tstats\<close>.\<close>

theorem common_write_stats_repeats:
  assumes "getptr (te_ut E) ''char'' ''char'' b ''tstats_profile_path'' s = Some (len, p, s1)" "0 < len" "load_string p s1 = Some path"
    "blks s b = Some blk" "oom s = []" "name = path @ ''/'' @ char_replace (b_name blk) (CHR ''/'') (CHR ''-'') @ ''.tstat''"
    "te_fopen E name" "reported c = Some (Some xs)" "fwrite_list [] xs = Some ls"
  shows "\<exists>s'. common_write_stats E b (c # cs) num s = Some (0, s') \<and>
    tw_files (world s') = tw_files (world s) @ [(name, concat (replicate (nat num) ls))]"
proof -
  note fr = getptr_frame [OF assms(1)]
  have m: "mem_alloc s1 = (True, s1)" using fr(3) assms(5) by (simp add: mem_alloc_def)
  from assms(4,6,7) fr(2) m have "ubx_tstats_fopen E b path s1 = Some (Some name, s1)"
    by (simp add: ubx_tstats_fopen_def tstats_build_filename_short)
  with assms(1-3) write_loop_first [OF assms(8,9), of b cs "nat num" "[]" s1] fr(1) show ?thesis by (simp add: common_write_stats_def)
qed

theorem common_write_stats_repeats_witness:
  "\<exists>s'. common_write_stats trig_env1 7 [idle_chain, idle_chain\<lparr>ch_global := tstat_init2 ''#total#'' (Some ''chain1'')\<rparr>] 2
      (trig_node (local_data (Some 3) 2 [112, 0]) None) = Some (0, s') \<and>
    tw_files (world s') = [(''p/trig-1.tstat'', [No_stats_line ''chain0,#total#'', No_stats_line ''chain0,#total#''])]"
proof -
  let ?s = "trig_node (local_data (Some 3) 2 [112, 0]) None"
  have g: "getptr (te_ut trig_env1) ''char'' ''char'' 7 ''tstats_profile_path'' ?s = Some (2, Some 41, set_static ''cfg_getptr_char'' (Some 3) ?s)"
    using trig_node_path(1) [of ?s "local_data (Some 3) 2 [112, 0]" None]
    by (simp add: te_ut_def trig_env1_def trig_node_simps local_data_def)
  have ch: "char_of (112 :: nat) = CHR ''p''" by code_simp
  have l: "load_string (Some 41) (set_static ''cfg_getptr_char'' (Some 3) ?s) = Some ''p''"
    by (simp add: load_string_def set_static_def trig_node_simps local_data_def ch)
  have r: "reported idle_chain = Some (Some [ch_global idle_chain])"
    by (simp add: reported_def idle_chain_def zero_chain_def tstats_modes)
  have f: "fwrite_list [] [ch_global idle_chain] = Some [No_stats_line ''chain0,#total#'']"
    by (simp add: tstat_fwrite_def idle_chain_def tstat_init2_def snprintf_def UBX_TSTAT_ID_MAXLEN_def)
  have b: "blks ?s 7 = Some trig_blk" "oom ?s = []" by (simp_all add: trig_node_simps)
  have o: "te_fopen trig_env1 (''p'' @ ''/'' @ char_replace (b_name trig_blk) (CHR ''/'') (CHR ''-'') @ ''.tstat'')"
    by (simp add: trig_env1_def)
  from common_write_stats_repeats [OF g _ l b refl o r f, of "[idle_chain\<lparr>ch_global := tstat_init2 ''#total#'' (Some ''chain1'')\<rparr>]" 2]
  show ?thesis by (simp add: trig_node_simps trig_blk char_replace_def numeral_2_eq_2)
qed

end
