(* ===== verification/Ubx_Ptrig.thy ===== *)
theory Ubx_Ptrig
  imports Ubx_Trig
begin

text \<open>
  The periodic trigger block \<open>ubx/ptrig\<close>, \<^verbatim>\<open>std_blocks/trig/ptrig.c\<close>: a thread of its own triggers the
  active chain, the hooks of the block, which run in the main thread, start and stop it over two variables, a mutex and a
  condition variable. The two threads are interleaved at the granularity of their accesses to shared data. The lemmas show that
  a stopped block does not trigger, and what the timeout of the stop hook does.
\<close>

section \<open>Data\<close>

definition THREAD_INACTIVE :: u32 where "THREAD_INACTIVE = 0"
definition THREAD_ACTIVE :: u32 where "THREAD_ACTIVE = 1"
definition THREAD_STOP_RETRIES :: nat where "THREAD_STOP_RETRIES = 20"

definition SCHED_OTHER :: int where "SCHED_OTHER = 0"
definition SCHED_FIFO :: int where "SCHED_FIFO = 1"
definition SCHED_RR :: int where "SCHED_RR = 2"

record ptrig_period =
  pp_sec :: u64
  pp_usec :: u64

datatype who = Main | Thr

text \<open>\<open>struct ptrig_inf\<close>; \<open>pi_mutex\<close> says who holds the mutex. \<open>period\<close> points to the value of a config.\<close>

record ptrig_inf =
  pi_state :: u32
  pi_thread_state :: u32
  pi_mutex :: "who option"
  pi_period :: ptrig_period
  pi_chains :: "ubx_chain list"
  pi_num_chains :: int
  pi_actchain :: int
  pi_autostop :: int
  pi_p_actchain :: ptr

definition block_state32 :: "u16 \<Rightarrow> u32" where "block_state32 st = ucast st"

definition zero_inf :: ptrig_inf where
  "zero_inf = \<lparr>pi_state = 0, pi_thread_state = 0, pi_mutex = None, pi_period = \<lparr>pp_sec = 0, pp_usec = 0\<rparr>, pi_chains = [],
     pi_num_chains = 0, pi_actchain = 0, pi_autostop = 0, pi_p_actchain = None\<rparr>"

text \<open>The results of the pthread functions: whether they succeed.\<close>

record pthread_env =
  pe_stack_min :: int
  pe_setstacksize :: "int \<Rightarrow> bool"
  pe_setschedparam :: "int \<Rightarrow> int \<Rightarrow> bool"
  pe_setschedpolicy :: "int \<Rightarrow> bool"
  pe_setinheritsched :: bool
  pe_create :: bool
  pe_setname :: bool
  pe_setaffinity :: bool

section \<open>Initialisation\<close>

definition load_period :: "ptr \<Rightarrow> 'w ubx \<Rightarrow> ptrig_period option" where
  "load_period p s = map_option (\<lambda>bs. \<lparr>pp_sec = of_nat (le_word (take 8 bs)), pp_usec = of_nat (le_word (drop 8 bs))\<rparr>)
     (load_bytes p 16 s)"

text \<open>The characters before the NUL or the end of the \<open>len\<close> characters, whichever comes first: what \<open>strncmp\<close> reads.\<close>

definition load_chars :: "ptr \<Rightarrow> int \<Rightarrow> 'w ubx \<Rightarrow> string option" where
  "load_chars p len s = map_option (\<lambda>bs. map (\<lambda>b. char_of (unat b)) (takeWhile (\<lambda>b. b \<noteq> 0) bs)) (load_bytes p (nat len) s)"

definition sched_of :: "string \<Rightarrow> nat \<Rightarrow> int option" where
  "sched_of str len =
     (if strncmp_eq str ''SCHED_OTHER'' len then Some SCHED_OTHER
      else if strncmp_eq str ''SCHED_FIFO'' len then Some SCHED_FIFO
      else if strncmp_eq str ''SCHED_RR'' len then Some SCHED_RR
      else None)"

text \<open>The scheduling part of \<open>ptrig_handle_config\<close>.\<close>

definition handle_sched :: "'r trig_env \<Rightarrow> pthread_env \<Rightarrow> addr \<Rightarrow> 'r trig_world ubx \<Rightarrow> (int \<times> 'r trig_world ubx) option" where
  "handle_sched E P b s = do {
     blk \<leftarrow> blks s b;
     (len, p, s) \<leftarrow> getptr (te_ut E) ''char'' ''char'' b ''sched_policy'' s;
     if len < 0 then None
     else do {
       pol \<leftarrow> (if len > 0 then do { str \<leftarrow> load_chars p len s; Some (sched_of str (nat len)) } else Some (Some SCHED_OTHER));
       case pol of
         None \<Rightarrow> do { _ \<leftarrow> load_string p s; _ \<leftarrow> ubx_block_log blk s; Some (- EINVALID_CONFIG, s) }
       | Some schedpol \<Rightarrow> do {
           _ \<leftarrow> (if pe_setschedpolicy P schedpol then Some () else ubx_block_log blk s);
           _ \<leftarrow> (if pe_setinheritsched P then Some () else ubx_block_log blk s);
           r \<leftarrow> getptr (te_ut E) ''int'' ''int'' b ''sched_priority'' s;
           (prio, s) \<leftarrow> cfg_or load_int 0 r;
           _ \<leftarrow> (if (schedpol = SCHED_FIFO \<or> schedpol = SCHED_RR) \<and> prio = 0 \<or> schedpol = SCHED_OTHER \<and> prio > 0
                then ubx_block_log blk s else Some ());
           _ \<leftarrow> ubx_block_log blk s;
           Some (if pe_setschedparam P schedpol prio then 0 else EINVALID_CONFIG, s) } } }"

definition ptrig_handle_config ::
  "'r trig_env \<Rightarrow> pthread_env \<Rightarrow> addr \<Rightarrow> ptrig_inf \<Rightarrow> 'r trig_world ubx \<Rightarrow> (int \<times> ptrig_inf \<times> 'r trig_world ubx) option" where
  "ptrig_handle_config E P b i s = do {
     blk \<leftarrow> blks s b;
     (len, p, s) \<leftarrow> getptr (te_ut E) ''int64'' ''int64_t'' b ''autostop_steps'' s;
     if len < 0 then None
     else do {
       steps \<leftarrow> (if len > 0 then map_option sint (load_u64 p s) else Some (-1));
       let i = i\<lparr>pi_autostop := steps\<rparr>;
       (len, p, s) \<leftarrow> getptr (te_ut E) ''ptrig_period'' ''struct ptrig_period'' b ''period'' s;
       if len < 0 then None
       else if len = 0 then do { _ \<leftarrow> ubx_block_log blk s; Some (- EINVALID_CONFIG, i, s) }
       else do {
         period \<leftarrow> load_period p s;
         let i = i\<lparr>pi_period := period\<rparr>;
         (len, p, s) \<leftarrow> getptr (te_ut E) ''size_t'' ''size_t'' b ''stacksize'' s;
         if len < 0 then None
         else do {
           ok \<leftarrow> (if len > 0 then do {
                    sz \<leftarrow> map_option uint (load_u64 p s);
                    Some (sz \<ge> pe_stack_min P \<and> pe_setstacksize P sz) }
                  else Some True);
           if \<not> ok then do { _ \<leftarrow> ubx_block_log blk s; Some (- EINVALID_CONFIG, i, s) }
           else do { (ret, s) \<leftarrow> handle_sched E P b s; Some (ret, i, s) } } } } }"

text \<open>The end of \<open>ptrig_init\<close>, after the thread was created: its name and its CPU affinity.\<close>

definition init_attrs :: "'r trig_env \<Rightarrow> pthread_env \<Rightarrow> addr \<Rightarrow> 'r trig_world ubx \<Rightarrow> (int \<times> 'r trig_world ubx) option" where
  "init_attrs E P b s = do {
     blk \<leftarrow> blks s b;
     (len, p, s) \<leftarrow> getptr (te_ut E) ''char'' ''char'' b ''thread_name'' s;
     if len < 0 then None
     else do {
       name \<leftarrow> (if len > 0 then load_string p s else Some (b_name blk));
       _ \<leftarrow> (if pe_setname P then Some () else ubx_block_log blk s);
       (len, p, s) \<leftarrow> getptr (te_ut E) ''int'' ''int'' b ''affinity'' s;
       if len < 0 then None
       else if len = 0 then do { _ \<leftarrow> ubx_block_log blk s; Some (0, s) }
       else do {
         _ \<leftarrow> load_bytes p (nat (4 * len)) s;
         _ \<leftarrow> ubx_block_log blk s;
         Some (if pe_setaffinity P then 0 else -1, s) } } }"

text \<open>\<open>ptrig_init\<close>: the result, the private data (\<open>None\<close> when it is freed) and whether the thread was created.\<close>

definition ptrig_init ::
  "'r trig_env \<Rightarrow> pthread_env \<Rightarrow> addr \<Rightarrow> 'r trig_world ubx \<Rightarrow> (int \<times> ptrig_inf option \<times> bool \<times> 'r trig_world ubx) option" where
  "ptrig_init E P b s = do {
     blk \<leftarrow> blks s b;
     let (ok, s) = mem_alloc s;
     if \<not> ok then do { _ \<leftarrow> ubx_block_log blk s; Some (EOUTOFMEM, None, False, s) }
     else do {
       p \<leftarrow> ubx_port_get (Some b) (Some ''active_chain'') s;
       if p = None then None
       else do {
         (num, chs, s) \<leftarrow> common_init_chains (te_ut E) b s;
         if num \<le> 0 then Some (EOUTOFMEM, None, False, s)
         else do {
           cs \<leftarrow> chs;
           let i = zero_inf\<lparr>pi_p_actchain := p, pi_num_chains := num, pi_chains := cs, pi_thread_state := THREAD_INACTIVE,
             pi_state := block_state32 BLOCK_STATE_INACTIVE\<rparr>;
           (ret, i, s) \<leftarrow> ptrig_handle_config E P b i s;
           if ret \<noteq> 0 then Some (EINVALID_CONFIG, None, False, s)
           else if \<not> pe_create P then do { blk \<leftarrow> blks s b; _ \<leftarrow> ubx_block_log blk s; Some (1, None, False, s) }
           else do {
             (ret, s) \<leftarrow> init_attrs E P b s;
             if ret \<noteq> 0 then Some (-1, None, True, s) else Some (0, Some i, True, s) } } } } }"

section \<open>The two threads\<close>

text \<open>
  Where the thread is: starting, about to lock, in the inner loop with the mutex, waiting for the condition, before
  \<open>ubx_gettime\<close>, before reading the active chain, before the trigger, after it, in \<open>__ptrig_stop\<close>, sleeping, gone.
\<close>

datatype thread_pc = T_start | T_lock | T_check | T_wait | T_time | T_read | T_trigger | T_next | T_stop | T_sleep | T_exit

text \<open>Where the main thread is: outside of the hooks, in \<open>ptrig_start\<close> after the chains were configured, in the loop of
  \<open>ptrig_stop\<close> with \<open>n\<close> more retries, or in \<open>ptrig_cleanup\<close> after the cancellation.\<close>

datatype main_pc = M_idle | M_signal | M_poll nat | M_join | M_done

record 'r ptrig_sys =
  py_inf :: "ptrig_inf option"
  py_store :: "'r trig_world ubx"
  py_pc :: thread_pc
  py_period :: ubx_timespec
  py_next :: ubx_timespec
  py_main :: main_pc

definition upd_inf :: "(ptrig_inf \<Rightarrow> ptrig_inf) \<Rightarrow> 'r ptrig_sys \<Rightarrow> 'r ptrig_sys" where
  "upd_inf f x = x\<lparr>py_inf := map_option f (py_inf x)\<rparr>"

text \<open>The body of the inner loop: report the statistics; then the thread is inactive and waits.\<close>

definition thread_report :: "'r trig_env \<Rightarrow> addr \<Rightarrow> ptrig_inf \<Rightarrow> 'r trig_world ubx \<Rightarrow> 'r trig_world ubx option" where
  "thread_report E b i s = do {
     s \<leftarrow> common_output_stats (te_chain E) b (pi_chains i) s;
     _ \<leftarrow> common_log_stats b (pi_chains i) s;
     (ret, s) \<leftarrow> common_write_stats E b (pi_chains i) (pi_num_chains i) s;
     if ret \<noteq> 0 then do { blk \<leftarrow> blks s b; _ \<leftarrow> ubx_block_log blk s; Some s } else Some s }"

text \<open>The thread can run unless it waits for a mutex that is held. Waiting for the condition may end at any time
  (POSIX allows spurious wake-ups).\<close>

definition thread_enabled :: "'r ptrig_sys \<Rightarrow> bool" where
  "thread_enabled x \<longleftrightarrow> py_pc x \<noteq> T_exit \<and>
     (py_pc x \<in> {T_lock, T_wait, T_stop} \<longrightarrow> (case py_inf x of None \<Rightarrow> True | Some i \<Rightarrow> pi_mutex i = None))"

text \<open>One step of \<open>thread_startup\<close>. \<open>None\<close> is undefined behaviour, like an access to freed private data.\<close>

definition thread_step :: "'r trig_env \<Rightarrow> addr \<Rightarrow> 'r ptrig_sys \<Rightarrow> 'r ptrig_sys option" where
  "thread_step E b x = do {
     i \<leftarrow> py_inf x;
     let s = py_store x;
     case py_pc x of
       T_start \<Rightarrow> Some (x\<lparr>py_period := \<lparr>sec = sint (pp_sec (pi_period i)), nsec = sint (pp_usec (pi_period i) * word_of_int NSEC_PER_USEC)\<rparr>,
                     py_pc := T_lock\<rparr>)
     | T_lock \<Rightarrow> Some (x\<lparr>py_inf := Some (i\<lparr>pi_mutex := Some Thr\<rparr>), py_pc := T_check\<rparr>)
     | T_check \<Rightarrow>
         if pi_state i \<noteq> block_state32 BLOCK_STATE_ACTIVE then do {
           s \<leftarrow> thread_report E b i s;
           Some (x\<lparr>py_inf := Some (i\<lparr>pi_thread_state := THREAD_INACTIVE, pi_mutex := None\<rparr>), py_store := s, py_pc := T_wait\<rparr>) }
         else Some (x\<lparr>py_inf := Some (i\<lparr>pi_thread_state := THREAD_ACTIVE, pi_mutex := None\<rparr>), py_pc := T_time\<rparr>)
     | T_wait \<Rightarrow> Some (x\<lparr>py_inf := Some (i\<lparr>pi_mutex := Some Thr\<rparr>), py_pc := T_check\<rparr>)
     | T_time \<Rightarrow> (case ubx_gettime (te_chain E) s of (t, s) \<Rightarrow> Some (x\<lparr>py_next := t, py_store := s, py_pc := T_read\<rparr>))
     | T_read \<Rightarrow> do {
         (act, s) \<leftarrow> common_read_actchain E b (pi_p_actchain i) (pi_num_chains i) (pi_actchain i) s;
         Some (x\<lparr>py_inf := Some (i\<lparr>pi_actchain := act\<rparr>), py_store := s, py_pc := T_trigger\<rparr>) }
     | T_trigger \<Rightarrow>
         if pi_actchain i < 0 \<or> nat (pi_actchain i) \<ge> length (pi_chains i) then None
         else do {
           (ret, c, s) \<leftarrow> ubx_chain_trigger (te_chain E) (pi_chains i ! nat (pi_actchain i)) s;
           _ \<leftarrow> (if ret \<noteq> 0 then do { blk \<leftarrow> blks s b; ubx_block_log blk s } else Some ());
           Some (x\<lparr>py_inf := Some (i\<lparr>pi_chains := (pi_chains i)[nat (pi_actchain i) := c]\<rparr>), py_store := s, py_pc := T_next\<rparr>) }
     | T_next \<Rightarrow> do {
         t \<leftarrow> ubx_ts_add (py_next x) (py_period x);
         if pi_autostop i > 0 then
           (if pi_autostop i - 1 = 0 then do {
              blk \<leftarrow> blks s b; _ \<leftarrow> ubx_block_log blk s;
              Some (x\<lparr>py_inf := Some (i\<lparr>pi_autostop := 0\<rparr>), py_next := t, py_pc := T_stop\<rparr>) }
            else Some (x\<lparr>py_inf := Some (i\<lparr>pi_autostop := pi_autostop i - 1\<rparr>), py_next := t, py_pc := T_sleep\<rparr>))
         else Some (x\<lparr>py_next := t, py_pc := T_sleep\<rparr>) }
     | T_stop \<Rightarrow> do {
         s \<leftarrow> upd_blk b (\<lambda>blk. blk\<lparr>b_state := BLOCK_STATE_INACTIVE\<rparr>) s;
         Some (x\<lparr>py_inf := Some (i\<lparr>pi_state := block_state32 BLOCK_STATE_INACTIVE\<rparr>), py_store := s, py_pc := T_lock\<rparr>) }
     | T_sleep \<Rightarrow> Some (x\<lparr>py_pc := T_lock\<rparr>)
     | T_exit \<Rightarrow> Some x }"

definition mutex_free :: "'r ptrig_sys \<Rightarrow> bool" where
  "mutex_free x \<longleftrightarrow> (case py_inf x of None \<Rightarrow> False | Some i \<Rightarrow> pi_mutex i = None)"

text \<open>The hooks of the main thread, one definition per segment between two accesses to shared data.\<close>

definition start_config :: "'r trig_env \<Rightarrow> addr \<Rightarrow> 'r ptrig_sys \<Rightarrow> 'r ptrig_sys option" where
  "start_config E b x = do {
     i \<leftarrow> py_inf x;
     (ret, cs, s) \<leftarrow> common_config_chains E b (pi_chains i) (py_store x);
     Some (x\<lparr>py_inf := Some (i\<lparr>pi_chains := cs\<rparr>), py_store := s, py_main := (if ret \<noteq> 0 then M_idle else M_signal)\<rparr>) }"

definition start_signal :: "'r ptrig_sys \<Rightarrow> 'r ptrig_sys" where
  "start_signal x = (upd_inf (\<lambda>i. i\<lparr>pi_state := block_state32 BLOCK_STATE_ACTIVE\<rparr>) x)\<lparr>py_main := M_idle\<rparr>"

definition stop_request :: "'r ptrig_sys \<Rightarrow> 'r ptrig_sys" where
  "stop_request x =
     (upd_inf (\<lambda>i. i\<lparr>pi_state := block_state32 BLOCK_STATE_INACTIVE\<rparr>) x)\<lparr>py_main := M_poll THREAD_STOP_RETRIES\<rparr>"

text \<open>One iteration of the loop. After the last one: a warning, and \<open>common_unconfig\<close>.\<close>

definition stop_poll :: "addr \<Rightarrow> nat \<Rightarrow> 'r ptrig_sys \<Rightarrow> 'r ptrig_sys option" where
  "stop_poll b n x = do {
     i \<leftarrow> py_inf x;
     if pi_thread_state i = THREAD_INACTIVE then Some (x\<lparr>py_main := M_idle\<rparr>)
     else if n > 0 then Some (x\<lparr>py_main := M_poll (n - 1)\<rparr>)
     else do {
       blk \<leftarrow> blks (py_store x) b; _ \<leftarrow> ubx_block_log blk (py_store x);
       cs \<leftarrow> unconfig_list (pi_chains i);
       Some (x\<lparr>py_inf := Some (i\<lparr>pi_chains := cs\<rparr>), py_main := M_idle\<rparr>) } }"

definition cleanup_cancel :: "'r ptrig_sys \<Rightarrow> 'r ptrig_sys" where
  "cleanup_cancel x = (upd_inf (\<lambda>i. i\<lparr>pi_state := block_state32 BLOCK_STATE_PREINIT\<rparr>) x)\<lparr>py_main := M_join\<rparr>"

text \<open>The thread ends at a cancellation point: the condition wait or the sleep. Then everything is released.\<close>

definition cleanup_join :: "'r trig_env \<Rightarrow> addr \<Rightarrow> 'r ptrig_sys \<Rightarrow> 'r ptrig_sys option" where
  "cleanup_join E b x = do {
     s \<leftarrow> common_cleanup (te_ut E) b (py_store x);
     Some (x\<lparr>py_inf := None, py_store := s, py_pc := T_exit, py_main := M_done\<rparr>) }"

text \<open>The interleavings. By \<open>p_fail\<close> the clock or the sleep fails (a signal is enough) and the thread ends.\<close>

inductive ptrig_step :: "'r trig_env \<Rightarrow> addr \<Rightarrow> 'r ptrig_sys \<Rightarrow> 'r ptrig_sys \<Rightarrow> bool" for E b where
  p_thread: "thread_enabled x \<Longrightarrow> thread_step E b x = Some y \<Longrightarrow> ptrig_step E b x y"
| p_fail: "py_pc x \<in> {T_time, T_sleep} \<Longrightarrow> ptrig_step E b x (x\<lparr>py_pc := T_exit\<rparr>)"
| p_config: "py_main x = M_idle \<Longrightarrow> start_config E b x = Some y \<Longrightarrow> ptrig_step E b x y"
| p_signal: "py_main x = M_signal \<Longrightarrow> mutex_free x \<Longrightarrow> ptrig_step E b x (start_signal x)"
| p_stop: "py_main x = M_idle \<Longrightarrow> mutex_free x \<Longrightarrow> ptrig_step E b x (stop_request x)"
| p_poll: "py_main x = M_poll n \<Longrightarrow> stop_poll b n x = Some y \<Longrightarrow> ptrig_step E b x y"
| p_cancel: "py_main x = M_idle \<Longrightarrow> ptrig_step E b x (cleanup_cancel x)"
| p_join: "py_main x = M_join \<Longrightarrow> py_pc x \<in> {T_wait, T_sleep, T_exit} \<Longrightarrow> cleanup_join E b x = Some y \<Longrightarrow> ptrig_step E b x y"

inductive_cases ptrig_stepE: "ptrig_step E b x y"

text \<open>The thread's next step is undefined.\<close>

definition thread_undefined :: "'r trig_env \<Rightarrow> addr \<Rightarrow> 'r ptrig_sys \<Rightarrow> bool" where
  "thread_undefined E b x \<longleftrightarrow> thread_enabled x \<and> thread_step E b x = None"

text \<open>The system after a successful \<open>ptrig_init\<close>.\<close>

definition ptrig_begin :: "ptrig_inf \<Rightarrow> 'r trig_world ubx \<Rightarrow> 'r ptrig_sys" where
  "ptrig_begin i s = \<lparr>py_inf = Some i, py_store = s, py_pc = T_start, py_period = zero_ts, py_next = zero_ts, py_main = M_idle\<rparr>"

section \<open>The handshake\<close>

definition running :: "thread_pc set" where
  "running = {T_time, T_read, T_trigger, T_next, T_stop, T_sleep}"

text \<open>What \<open>ptrig_init\<close> leaves.\<close>

definition ptrig_fresh :: "ptrig_inf \<Rightarrow> bool" where
  "ptrig_fresh i \<longleftrightarrow> pi_mutex i = None \<and> pi_state i \<noteq> block_state32 BLOCK_STATE_ACTIVE \<and> pi_thread_state i = THREAD_INACTIVE \<and>
     int (length (pi_chains i)) = pi_num_chains i \<and> 0 \<le> pi_actchain i \<and> pi_actchain i < pi_num_chains i"

definition inf_inv :: "thread_pc \<Rightarrow> main_pc \<Rightarrow> ptrig_inf \<Rightarrow> bool" where
  "inf_inv pc m i \<longleftrightarrow> (pi_mutex i = Some Thr \<longleftrightarrow> pc = T_check) \<and> pi_mutex i \<noteq> Some Main \<and>
     (pc \<in> running \<longrightarrow> pi_thread_state i = THREAD_ACTIVE) \<and>
     (\<forall>n. m = M_poll n \<longrightarrow> pi_state i \<noteq> block_state32 BLOCK_STATE_ACTIVE) \<and>
     int (length (pi_chains i)) = pi_num_chains i \<and> 0 \<le> pi_actchain i \<and> pi_actchain i < pi_num_chains i"

definition ptrig_inv :: "'r ptrig_sys \<Rightarrow> bool" where
  "ptrig_inv x \<longleftrightarrow> (\<forall>i. py_inf x = Some i \<longrightarrow> inf_inv (py_pc x) (py_main x) i)"

lemma state32_neq: "block_state32 BLOCK_STATE_INACTIVE \<noteq> block_state32 BLOCK_STATE_ACTIVE"
  "block_state32 BLOCK_STATE_PREINIT \<noteq> block_state32 BLOCK_STATE_ACTIVE" "THREAD_ACTIVE \<noteq> THREAD_INACTIVE"
  by (simp_all add: block_state32_def block_states THREAD_ACTIVE_def THREAD_INACTIVE_def)

lemma ptrig_begin_inv: "ptrig_fresh i \<Longrightarrow> ptrig_inv (ptrig_begin i s)"
  by (auto simp: ptrig_inv_def ptrig_begin_def inf_inv_def ptrig_fresh_def running_def)

lemma config_chains_length: "common_config_chains E b cs s = Some (r, cs', s') \<Longrightarrow> length cs' = length cs"
  by (auto simp: common_config_chains_def simp del: config_loop.simps split: if_splits dest!: config_loop_length)

text \<open>What a step of the thread does to the private data, for each place.\<close>

lemma thread_check_step:
  assumes "thread_step E b x = Some y" "py_pc x = T_check" "py_inf x = Some i"
  shows "py_main y = py_main x" "pi_state i \<noteq> block_state32 BLOCK_STATE_ACTIVE \<Longrightarrow> py_pc y = T_wait \<and> py_inf y = Some (i\<lparr>pi_thread_state := THREAD_INACTIVE, pi_mutex := None\<rparr>)"
    "pi_state i = block_state32 BLOCK_STATE_ACTIVE \<Longrightarrow> py_pc y = T_time \<and> py_inf y = Some (i\<lparr>pi_thread_state := THREAD_ACTIVE, pi_mutex := None\<rparr>)"
  using assms by (auto simp: thread_step_def Let_def split: if_splits)

lemma thread_read_step:
  assumes "thread_step E b x = Some y" "py_pc x = T_read" "py_inf x = Some i"
  obtains act s where "common_read_actchain E b (pi_p_actchain i) (pi_num_chains i) (pi_actchain i) (py_store x) = Some (act, s)"
    "y = x\<lparr>py_inf := Some (i\<lparr>pi_actchain := act\<rparr>), py_store := s, py_pc := T_trigger\<rparr>"
  using assms by (auto simp: thread_step_def)

lemma thread_trigger_step:
  assumes "thread_step E b x = Some y" "py_pc x = T_trigger" "py_inf x = Some i"
  obtains c s where "y = x\<lparr>py_inf := Some (i\<lparr>pi_chains := (pi_chains i)[nat (pi_actchain i) := c]\<rparr>), py_store := s, py_pc := T_next\<rparr>"
  using assms by (auto simp: thread_step_def Let_def split: if_splits prod.splits)

lemma thread_next_step:
  assumes "thread_step E b x = Some y" "py_pc x = T_next" "py_inf x = Some i"
  shows "py_main y = py_main x \<and> (\<exists>n. py_inf y = Some (i\<lparr>pi_autostop := n\<rparr>)) \<and> (py_pc y = T_stop \<or> py_pc y = T_sleep)"
proof -
  have keep: "\<exists>n. i = i\<lparr>pi_autostop := n\<rparr>" by (rule exI [of _ "pi_autostop i"]) simp
  show ?thesis
  proof (cases "pi_autostop i > 0")
    case False
    with assms keep show ?thesis by (auto simp: thread_step_def)
  next
    case True
    with assms show ?thesis by (cases "pi_autostop i = 1") (auto simp: thread_step_def Let_def)
  qed
qed

lemma thread_stop_step:
  assumes "thread_step E b x = Some y" "py_pc x = T_stop" "py_inf x = Some i"
  shows "py_main y = py_main x \<and> py_inf y = Some (i\<lparr>pi_state := block_state32 BLOCK_STATE_INACTIVE\<rparr>) \<and> py_pc y = T_lock"
  using assms by (auto simp: thread_step_def)

lemma thread_step_inv:
  assumes "ptrig_inv x" "thread_enabled x" "thread_step E b x = Some y"
  shows "ptrig_inv y"
proof -
  from assms(3) obtain i where i: "py_inf x = Some i" by (auto simp: thread_step_def)
  with assms(1) have inv: "inf_inv (py_pc x) (py_main x) i" by (simp add: ptrig_inv_def)
  show ?thesis
  proof (cases "py_pc x")
    case T_check
    from inv T_check thread_check_step [OF assms(3) T_check i] show ?thesis
      by (cases "pi_state i = block_state32 BLOCK_STATE_ACTIVE") (auto simp: ptrig_inv_def inf_inv_def running_def)
  next
    case T_read
    from thread_read_step [OF assms(3) T_read i] obtain act s1
      where a: "common_read_actchain E b (pi_p_actchain i) (pi_num_chains i) (pi_actchain i) (py_store x) = Some (act, s1)"
      "y = x\<lparr>py_inf := Some (i\<lparr>pi_actchain := act\<rparr>), py_store := s1, py_pc := T_trigger\<rparr>" by blast
    have "0 \<le> act \<and> act < pi_num_chains i" using read_actchain_range [OF a(1)] inv by (simp add: inf_inv_def)
    with inv T_read show ?thesis by (auto simp: a(2) ptrig_inv_def inf_inv_def running_def)
  next
    case T_trigger
    from thread_trigger_step [OF assms(3) T_trigger i] obtain c s1
      where y: "y = x\<lparr>py_inf := Some (i\<lparr>pi_chains := (pi_chains i)[nat (pi_actchain i) := c]\<rparr>), py_store := s1, py_pc := T_next\<rparr>" .
    from inv T_trigger show ?thesis by (simp add: y ptrig_inv_def inf_inv_def running_def)
  next
    case T_next
    from thread_next_step [OF assms(3) T_next i] inv T_next show ?thesis
      by (auto simp: ptrig_inv_def inf_inv_def running_def)
  next
    case T_stop
    from thread_stop_step [OF assms(3) T_stop i] inv T_stop show ?thesis
      by (auto simp: ptrig_inv_def inf_inv_def running_def state32_neq)
  next
    case T_exit
    with assms(1,3) i show ?thesis by (simp add: thread_step_def)
  next
    case T_time
    with assms(3) i have "py_inf y = Some i \<and> py_pc y = T_read \<and> py_main y = py_main x" by (auto simp: thread_step_def split: prod.splits)
    with inv T_time show ?thesis by (simp add: ptrig_inv_def inf_inv_def running_def)
  next
    case T_sleep
    with assms(3) i have y: "y = x\<lparr>py_pc := T_lock\<rparr>" by (simp add: thread_step_def)
    from inv T_sleep i show ?thesis by (simp add: y ptrig_inv_def inf_inv_def running_def)
  next
    case T_start
    with assms(3) i obtain pd where y: "y = x\<lparr>py_period := pd, py_pc := T_lock\<rparr>" by (auto simp: thread_step_def)
    from inv T_start i show ?thesis by (simp add: y ptrig_inv_def inf_inv_def running_def)
  next
    case T_lock
    with assms(3) i have y: "y = x\<lparr>py_inf := Some (i\<lparr>pi_mutex := Some Thr\<rparr>), py_pc := T_check\<rparr>" by (simp add: thread_step_def)
    from inv T_lock i show ?thesis by (simp add: y ptrig_inv_def inf_inv_def running_def)
  next
    case T_wait
    with assms(3) i have y: "y = x\<lparr>py_inf := Some (i\<lparr>pi_mutex := Some Thr\<rparr>), py_pc := T_check\<rparr>" by (simp add: thread_step_def)
    from inv T_wait i show ?thesis by (simp add: y ptrig_inv_def inf_inv_def running_def)
  qed
qed

lemma start_configE:
  assumes "start_config E b x = Some y"
  obtains i cs s m where "py_inf x = Some i" "length cs = length (pi_chains i)" "m = M_idle \<or> m = M_signal"
    "y = x\<lparr>py_inf := Some (i\<lparr>pi_chains := cs\<rparr>), py_store := s, py_main := m\<rparr>"
proof -
  from assms obtain i r cs s where i: "py_inf x = Some i" and c: "common_config_chains E b (pi_chains i) (py_store x) = Some (r, cs, s)"
    and y: "y = x\<lparr>py_inf := Some (i\<lparr>pi_chains := cs\<rparr>), py_store := s, py_main := (if r \<noteq> 0 then M_idle else M_signal)\<rparr>"
    by (auto simp: start_config_def)
  show thesis by (rule that [OF i config_chains_length [OF c] _ y]) simp
qed

lemma stop_pollE:
  assumes "stop_poll b n x = Some y"
  obtains i where "py_inf x = Some i" "pi_thread_state i = THREAD_INACTIVE" "y = x\<lparr>py_main := M_idle\<rparr>"
  | i where "py_inf x = Some i" "pi_thread_state i \<noteq> THREAD_INACTIVE" "n > 0" "y = x\<lparr>py_main := M_poll (n - 1)\<rparr>"
  | i cs where "py_inf x = Some i" "pi_thread_state i \<noteq> THREAD_INACTIVE" "n = 0" "length cs = length (pi_chains i)"
      "y = x\<lparr>py_inf := Some (i\<lparr>pi_chains := cs\<rparr>), py_main := M_idle\<rparr>"
proof -
  from assms obtain i where i: "py_inf x = Some i" by (auto simp: stop_poll_def)
  consider "pi_thread_state i = THREAD_INACTIVE" | "pi_thread_state i \<noteq> THREAD_INACTIVE" "n > 0"
    | "pi_thread_state i \<noteq> THREAD_INACTIVE" "n = 0" by blast
  then show thesis
  proof cases
    case 1
    with assms i have "y = x\<lparr>py_main := M_idle\<rparr>" by (simp add: stop_poll_def)
    from that(1) [OF i 1 this] show thesis .
  next
    case 2
    with assms i have "y = x\<lparr>py_main := M_poll (n - 1)\<rparr>" by (simp add: stop_poll_def)
    from that(2) [OF i 2 this] show thesis .
  next
    case 3
    with assms i obtain cs where "unconfig_list (pi_chains i) = Some cs"
      and y: "y = x\<lparr>py_inf := Some (i\<lparr>pi_chains := cs\<rparr>), py_main := M_idle\<rparr>" by (auto simp: stop_poll_def)
    from unconfig_length [OF this(1)] have "length cs = length (pi_chains i)" by simp
    from that(3) [OF i 3 this y] show thesis .
  qed
qed

lemma ptrig_step_inv:
  assumes "ptrig_step E b x y" "ptrig_inv x"
  shows "ptrig_inv y"
  using assms
proof (cases rule: ptrig_step.cases)
  case p_thread
  with assms(2) thread_step_inv show ?thesis by blast
next
  case p_fail
  with assms(2) show ?thesis by (auto simp: ptrig_inv_def inf_inv_def running_def)
next
  case p_config
  from p_config(2) assms(2) show ?thesis
    by (cases rule: start_configE) (auto simp: ptrig_inv_def inf_inv_def p_config(1))
next
  case p_signal
  with assms(2) show ?thesis by (auto simp: start_signal_def upd_inf_def ptrig_inv_def inf_inv_def)
next
  case p_stop
  with assms(2) show ?thesis by (auto simp: stop_request_def upd_inf_def ptrig_inv_def inf_inv_def state32_neq)
next
  case (p_poll n)
  from p_poll(2) p_poll(1) assms(2) show ?thesis by (cases rule: stop_pollE) (simp_all add: ptrig_inv_def inf_inv_def)
next
  case p_cancel
  with assms(2) show ?thesis by (auto simp: cleanup_cancel_def upd_inf_def ptrig_inv_def inf_inv_def)
next
  case p_join
  then show ?thesis by (auto simp: cleanup_join_def ptrig_inv_def)
qed

lemma ptrig_reach_inv:
  assumes "(ptrig_step E b)\<^sup>*\<^sup>* (ptrig_begin i s) x" "ptrig_fresh i"
  shows "ptrig_inv x"
  using assms(1) by (induction rule: rtranclp_induct) (auto intro: ptrig_begin_inv [OF assms(2)] ptrig_step_inv)

text \<open>Steps in which no start hook signals the thread.\<close>

definition calm_step :: "'r trig_env \<Rightarrow> addr \<Rightarrow> 'r ptrig_sys \<Rightarrow> 'r ptrig_sys \<Rightarrow> bool" where
  "calm_step E b x y \<longleftrightarrow> ptrig_step E b x y \<and> \<not> (py_main x = M_signal \<and> py_main y = M_idle)"

definition quiet :: "'r ptrig_sys \<Rightarrow> bool" where
  "quiet x \<longleftrightarrow> ptrig_inv x \<and> py_pc x \<notin> running \<and> (\<forall>i. py_inf x = Some i \<longrightarrow> pi_state i \<noteq> block_state32 BLOCK_STATE_ACTIVE)"

lemma thread_quiet:
  assumes "thread_step E b x = Some y" "quiet x"
  shows "py_pc y \<notin> running" "py_inf y = Some i \<Longrightarrow> pi_state i \<noteq> block_state32 BLOCK_STATE_ACTIVE"
proof -
  from assms(1) obtain k where k: "py_inf x = Some k" by (auto simp: thread_step_def)
  with assms(2) have st: "pi_state k \<noteq> block_state32 BLOCK_STATE_ACTIVE" and pc: "py_pc x \<notin> running" by (simp_all add: quiet_def)
  have "py_pc y \<notin> running \<and> (\<exists>j. py_inf y = Some j \<and> pi_state j \<noteq> block_state32 BLOCK_STATE_ACTIVE)"
  proof (cases "py_pc x = T_check")
    case True
    from thread_check_step(2) [OF assms(1) True k st] st show ?thesis by (simp add: running_def)
  next
    case False
    with pc have "py_pc x \<in> {T_start, T_lock, T_wait, T_exit}" by (cases "py_pc x") (simp_all add: running_def)
    with assms(1) k st show ?thesis by (auto simp: thread_step_def running_def)
  qed
  then show "py_pc y \<notin> running" "py_inf y = Some i \<Longrightarrow> pi_state i \<noteq> block_state32 BLOCK_STATE_ACTIVE" by auto
qed

lemma calm_quiet:
  assumes "calm_step E b x y" "quiet x"
  shows "quiet y"
proof -
  have st: "ptrig_step E b x y" and ns: "\<not> (py_main x = M_signal \<and> py_main y = M_idle)"
    using assms(1) by (simp_all add: calm_step_def)
  have inv: "ptrig_inv y" using ptrig_step_inv [OF st] assms(2) by (simp add: quiet_def)
  from st show ?thesis
  proof (cases rule: ptrig_step.cases)
    case p_thread
    with inv thread_quiet [OF p_thread(2) assms(2)] show ?thesis by (simp add: quiet_def)
  next
    case p_fail
    with assms(2) show ?thesis by (simp add: quiet_def running_def)
  next
    case p_config
    from p_config(2) inv assms(2) show ?thesis by (cases rule: start_configE) (auto simp: quiet_def)
  next
    case p_signal
    with ns show ?thesis by (simp add: start_signal_def)
  next
    case p_stop
    with inv assms(2) show ?thesis by (auto simp: quiet_def stop_request_def upd_inf_def state32_neq)
  next
    case (p_poll n)
    from p_poll(2) inv assms(2) show ?thesis by (cases rule: stop_pollE) (simp_all add: quiet_def)
  next
    case p_cancel
    with inv assms(2) show ?thesis by (auto simp: quiet_def cleanup_cancel_def upd_inf_def state32_neq)
  next
    case p_join
    with inv show ?thesis by (auto simp: quiet_def cleanup_join_def running_def)
  qed
qed

section \<open>The timeout\<close>

lemma unconfig_nth:
  assumes "unconfig_list cs = Some cs'" "j < length cs" "ch_blk_tstats (cs ! j) = TB xs"
  shows "cs' ! j = (cs ! j)\<lparr>ch_blk_tstats := TB_freed\<rparr>"
  using assms
proof (induction cs arbitrary: cs' j)
  case (Cons c cs)
  then show ?case by (cases j) (auto simp: ubx_chain_cleanup_def)
qed simp

lemma loop_stats_freed:
  assumes "t \<in> set ts" "tg_every t = 0 \<or> cnt mod tg_every t = 0"
  shows "trig_loop_stats E cnt ts i [] ret s = None"
  using assms
proof (induction ts arbitrary: i ret s)
  case (Cons u ts)
  show ?case
  proof (cases "tg_every u = 0")
    case True
    then show ?thesis by (simp add: split_beta)
  next
    case False
    show ?thesis
    proof (cases "cnt mod tg_every u = 0")
      case True
      then show ?thesis unfolding trig_loop_stats.simps by (cases "trig_single_block E u (snd (ubx_gettime E s))")
        (simp_all only: True Let_def split_beta, simp_all add: split_beta)
    next
      case neq: False
      with Cons.prems False have "t \<in> set ts" by auto
      from Cons.IH [OF this Cons.prems(2)] False neq show ?thesis unfolding trig_loop_stats.simps by (simp only: if_False) simp
    qed
  qed
qed simp

lemma trigger_freed:
  assumes "ch_blk_tstats c = TB_freed" "ch_tstats_mode c = TSTATS_PERBLOCK" "ch_skip_first c = 0" "t \<in> set (ch_triggees c)"
    "tg_every t = 0 \<or> ch_every_cnt c mod tg_every t = 0"
  shows "ubx_chain_trigger E c s = None"
  using assms(1-3) loop_stats_freed [OF assms(4,5), of E 0 0]
  by (simp add: ubx_chain_trigger_def trig_stats_perblock_def tstats_modes split: prod.splits)

lemma quiet_reach:
  assumes "(calm_step E b)\<^sup>*\<^sup>* x y" "quiet x"
  shows "quiet y"
  using assms by (induction rule: rtranclp_induct) (auto intro: calm_quiet)

section \<open>Properties\<close>

text \<open>C30: the stop handshake works. Whenever \<open>ptrig_stop\<close> sees the thread inactive in one of its retries, in any
  interleaving of the two threads since the block was initialised, the thread is outside of its triggering loop and stays
  outside, whatever the two threads do, until a start hook signals it again.\<close>

theorem ptrig_stop_quiet:
  assumes "ptrig_fresh i" "(ptrig_step E b)\<^sup>*\<^sup>* (ptrig_begin i s) x" "py_main x = M_poll n"
    "py_inf x = Some j" "pi_thread_state j = THREAD_INACTIVE" "(calm_step E b)\<^sup>*\<^sup>* x y"
  shows "py_pc y \<notin> {T_time, T_read, T_trigger, T_next, T_stop, T_sleep}"
proof -
  from ptrig_reach_inv [OF assms(2,1)] have inv: "ptrig_inv x" .
  with assms(4) have k: "inf_inv (py_pc x) (py_main x) j" by (simp add: ptrig_inv_def)
  have "pi_thread_state j \<noteq> THREAD_ACTIVE" using assms(5) state32_neq(3) by simp
  with k have "py_pc x \<notin> running" by (auto simp: inf_inv_def)
  moreover have "pi_state j \<noteq> block_state32 BLOCK_STATE_ACTIVE" using k assms(3) by (simp add: inf_inv_def)
  ultimately have "quiet x" using inv assms(4) by (simp add: quiet_def)
  from quiet_reach [OF assms(6) this] show ?thesis by (simp add: quiet_def running_def)
qed

definition ptrig_inf1 :: ptrig_inf where
  "ptrig_inf1 = zero_inf\<lparr>pi_chains := [zero_chain], pi_num_chains := 1\<rparr>"

theorem ptrig_stop_quiet_witness:
  "\<exists>x :: unit ptrig_sys. (ptrig_step trig_env1 7)\<^sup>*\<^sup>* (ptrig_begin ptrig_inf1 (trig_node (empty_data 3) None)) x \<and>
     py_main x = M_poll 20 \<and> py_pc x \<notin> {T_time, T_read, T_trigger, T_next, T_stop, T_sleep}"
proof -
  let ?b = "ptrig_begin ptrig_inf1 (trig_node (empty_data 3) None)"
  have f: "ptrig_fresh ptrig_inf1"
    by (simp add: ptrig_fresh_def ptrig_inf1_def zero_inf_def THREAD_INACTIVE_def block_state32_def block_states)
  have "ptrig_step trig_env1 7 ?b (stop_request ?b)"
    by (rule p_stop) (simp_all add: ptrig_begin_def mutex_free_def ptrig_inf1_def zero_inf_def)
  then have r: "(ptrig_step trig_env1 7)\<^sup>*\<^sup>* ?b (stop_request ?b)" by blast
  have m: "py_main (stop_request ?b) = M_poll 20" by (simp add: stop_request_def THREAD_STOP_RETRIES_def)
  obtain j where j: "py_inf (stop_request ?b) = Some j" "pi_thread_state j = THREAD_INACTIVE"
    by (simp add: stop_request_def upd_inf_def ptrig_begin_def ptrig_inf1_def zero_inf_def THREAD_INACTIVE_def)
  from ptrig_stop_quiet [OF f r m j rtranclp.rtrancl_refl] r m show ?thesis by blast
qed

text \<open>C37: the stop timeout. Take a state in which the last retry of \<open>ptrig_stop\<close> finds the thread active and about to
  trigger a chain with statistics per block, its skip count used up and at least one block due, and let this step of the thread be
  defined, before the hook continues as well as if the hook returned at once. What \<open>ptrig_stop\<close> does instead is to free the
  statistics of all chains and nothing else, and this makes the same step of the thread, which is not blocked, undefined: it writes
  to freed memory.\<close>

theorem ptrig_stop_timeout_dangling:
  assumes "py_main x = M_poll 0" "py_pc x = T_trigger" "py_inf x = Some i" "pi_thread_state i = THREAD_ACTIVE"
    "thread_step E b x = Some z" "c = pi_chains i ! nat (pi_actchain i)"
    "ch_blk_tstats c = TB xs" "ch_tstats_mode c = TSTATS_PERBLOCK" "ch_skip_first c = 0" "t \<in> set (ch_triggees c)"
    "ch_every_cnt c mod tg_every t = 0" "stop_poll b 0 x = Some y"
  shows "ptrig_step E b x z \<and> \<not> thread_undefined E b (x\<lparr>py_main := M_idle\<rparr>) \<and>
    (\<exists>cs. unconfig_list (pi_chains i) = Some cs \<and> y = x\<lparr>py_inf := Some (i\<lparr>pi_chains := cs\<rparr>), py_main := M_idle\<rparr> \<and>
       cs ! nat (pi_actchain i) = c\<lparr>ch_blk_tstats := TB_freed\<rparr>) \<and>
    ptrig_step E b x y \<and> thread_undefined E b y"
proof -
  from assms(3,4,12) obtain cs where u: "unconfig_list (pi_chains i) = Some cs"
    and y: "y = x\<lparr>py_inf := Some (i\<lparr>pi_chains := cs\<rparr>), py_main := M_idle\<rparr>" by (auto simp: stop_poll_def state32_neq)
  from assms(2,3,5) have r: "0 \<le> pi_actchain i" "nat (pi_actchain i) < length (pi_chains i)"
    by (auto simp: thread_step_def Let_def split: if_splits)
  from unconfig_nth [OF u r(2)] assms(6,7) have n: "cs ! nat (pi_actchain i) = c\<lparr>ch_blk_tstats := TB_freed\<rparr>" by simp
  have l: "length cs = length (pi_chains i)" using unconfig_length [OF u] by simp
  have "ubx_chain_trigger (te_chain E) (c\<lparr>ch_blk_tstats := TB_freed\<rparr>) (py_store x) = None"
    by (rule trigger_freed [where t = t]) (use assms(8-11) in simp_all)
  with assms(2) r n l have "thread_step E b y = None" by (simp add: y thread_step_def)
  moreover have en: "thread_enabled y" "thread_enabled x" using assms(2) by (simp_all add: y thread_enabled_def)
  moreover have "thread_step E b (x\<lparr>py_main := M_idle\<rparr>) \<noteq> None"
    using assms(2,3,5) by (auto simp: thread_step_def Let_def split: if_splits)
  ultimately show ?thesis using p_poll [OF assms(1,12)] p_thread [OF en(2) assms(5)] u n y by (simp add: thread_undefined_def)
qed

definition busy_chain :: ubx_chain where
  "busy_chain = idle_chain\<lparr>ch_tstats_mode := TSTATS_PERBLOCK, ch_triggees := [\<lparr>tg_b = Some 8, tg_every = 1, tg_num_steps = 1\<rparr>],
     ch_blk_tstats := TB [tstat_init2 ''c'' (Some ''chain0'')]\<rparr>"

text \<open>The thread is about to step the active block 8 when the last retry is over.\<close>

definition busy_sys :: "unit ptrig_sys" where
  "busy_sys = (ptrig_begin (ptrig_inf1\<lparr>pi_chains := [busy_chain], pi_thread_state := THREAD_ACTIVE\<rparr>)
     ((trig_node (empty_data 3) None)\<lparr>blks := [7 \<mapsto> trig_blk, 8 \<mapsto> pipe_blk ''c'' [] (Ops_comp None 0)]\<rparr>))
       \<lparr>py_pc := T_trigger, py_main := M_poll 0\<rparr>"

lemma busy_trigger:
  assumes "blks s 8 = Some (pipe_blk ''c'' [] (Ops_comp None 0))"
  shows "\<exists>c. ubx_chain_trigger (te_chain trig_env1) busy_chain s = Some (0, c, s)"
proof -
  have g: "ubx_gettime (te_chain trig_env1) t = (\<lparr>sec = 0, nsec = 0\<rparr>, t)" for t :: "unit trig_world ubx"
    by (simp add: ubx_gettime_def trig_env1_def)
  have st: "trig_single_block (te_chain trig_env1) \<lparr>tg_b = Some 8, tg_every = 1, tg_num_steps = 1\<rparr> s = Some (0, s)"
    using assms by (simp add: trig_single_block_def ubx_cblock_step_def pipe_blk_def inst_blk_def hooked_blk_def mk_blk_def
        BLOCK_TYPE_COMPUTATION_def)
  have up: "\<exists>u. tstat_update (tstat_init2 k n) \<lparr>sec = 0, nsec = 0\<rparr> \<lparr>sec = 0, nsec = 0\<rparr> = Some u" for k n
  proof -
    have "ubx_ts_sub \<lparr>sec = 0, nsec = 0\<rparr> \<lparr>sec = 0, nsec = 0\<rparr> = Some \<lparr>sec = 0, nsec = 0\<rparr>"
      "ubx_ts_add \<lparr>sec = 0, nsec = 0\<rparr> \<lparr>sec = 0, nsec = 0\<rparr> = Some \<lparr>sec = 0, nsec = 0\<rparr>" by code_simp+
    then show ?thesis by (simp add: tstat_update_def tstat_init2_def Let_def)
  qed
  from up obtain u1 where u1: "tstat_update (tstat_init2 ''c'' (Some ''chain0'')) \<lparr>sec = 0, nsec = 0\<rparr> \<lparr>sec = 0, nsec = 0\<rparr> = Some u1" by blast
  from up obtain u2 where u2: "tstat_update (tstat_init2 ''#total#'' (Some ''chain0'')) \<lparr>sec = 0, nsec = 0\<rparr> \<lparr>sec = 0, nsec = 0\<rparr> = Some u2" by blast
  show ?thesis
    by (simp add: ubx_chain_trigger_def trig_stats_perblock_def trig_finish_def busy_chain_def idle_chain_def zero_chain_def tstats_modes
        g st u1 u2 Let_def)
qed

theorem ptrig_stop_timeout_dangling_witness:
  "\<exists>y z. ptrig_step trig_env1 7 busy_sys z \<and> \<not> thread_undefined trig_env1 7 busy_sys \<and> ptrig_step trig_env1 7 busy_sys y \<and>
     thread_undefined trig_env1 7 y"
proof -
  have log: "ubx_block_log trig_blk t = Some ()" for t :: "unit trig_world ubx" by (simp add: ubx_block_log_def trig_blk)
  define i where "i = ptrig_inf1\<lparr>pi_chains := [busy_chain], pi_thread_state := THREAD_ACTIVE\<rparr>"
  have i: "pi_chains i = [busy_chain]" "pi_thread_state i = THREAD_ACTIVE" "pi_actchain i = 0"
    by (simp_all add: i_def ptrig_inf1_def zero_inf_def)
  have x: "py_main busy_sys = M_poll 0" "py_pc busy_sys = T_trigger" "py_inf busy_sys = Some i"
    "blks (py_store busy_sys) = [7 \<mapsto> trig_blk, 8 \<mapsto> pipe_blk ''c'' [] (Ops_comp None 0)]"
    by (simp_all add: busy_sys_def ptrig_begin_def i_def)
  have c: "ch_blk_tstats busy_chain = TB [tstat_init2 ''c'' (Some ''chain0'')]" "ch_tstats_mode busy_chain = TSTATS_PERBLOCK"
    "ch_skip_first busy_chain = 0" "\<lparr>tg_b = Some 8, tg_every = 1, tg_num_steps = 1\<rparr> \<in> set (ch_triggees busy_chain)"
    by (simp_all add: busy_chain_def idle_chain_def zero_chain_def)
  have "\<exists>z. thread_step trig_env1 7 busy_sys = Some z"
    using busy_trigger [of "py_store busy_sys"] by (auto simp: thread_step_def x i)
  then obtain z where z: "thread_step trig_env1 7 busy_sys = Some z" ..
  have "\<exists>y. stop_poll 7 0 busy_sys = Some y"
    using log c by (simp add: stop_poll_def x i state32_neq ubx_chain_cleanup_def)
  then obtain y where y: "stop_poll 7 0 busy_sys = Some y" ..
  have b: "busy_chain = pi_chains i ! nat (pi_actchain i)" by (simp add: i)
  have e: "ch_every_cnt busy_chain mod tg_every \<lparr>tg_b = Some 8, tg_every = 1, tg_num_steps = 1\<rparr> = 0" by simp
  from ptrig_stop_timeout_dangling [OF x(1-3) i(2) z b c e y] z show ?thesis
    by (intro exI [of _ y] exI [of _ z]) (simp add: thread_undefined_def)
qed

end
