(* ===== verification/Ubx_Mqueue.thy ===== *)
theory Ubx_Mqueue
  imports Ubx_Trig
begin

text \<open>
  The interaction block \<open>ubx/mqueue\<close>, \<^verbatim>\<open>std_blocks/mqueue/mqueue.c\<close>: samples travel between blocks, also of
  different processes, through a POSIX message queue. The message queues of the operating system are a parameter restricted by the
  locale \<open>mq_laws\<close>. The lemmas show that the block obeys the contract \<open>io_hooks\<close> and that two blocks on one queue
  are a first-in first-out pipe that refuses new samples when it is full.
\<close>

section \<open>Message queues\<close>

text \<open>
  \<open>mq_open\<close> with the name, whether \<open>O_NONBLOCK\<close> is given, and the maximal number and size of messages;
  \<open>mq_close\<close>, \<open>mq_unlink\<close>, \<open>mq_send\<close> of the first bytes of a buffer and \<open>mq_receive\<close> into a buffer of
  a size. \<open>Inl\<close> is the error number.
\<close>

record 'm mq_lib =
  mq_open :: "string \<Rightarrow> bool \<Rightarrow> int \<Rightarrow> int \<Rightarrow> 'm \<Rightarrow> (int + int) \<times> 'm"
  mq_close :: "int \<Rightarrow> 'm \<Rightarrow> (int + unit) \<times> 'm"
  mq_unlink :: "string \<Rightarrow> 'm \<Rightarrow> (int + unit) \<times> 'm"
  mq_send :: "int \<Rightarrow> nat \<Rightarrow> u8 list \<Rightarrow> 'm \<Rightarrow> (int + unit) \<times> 'm"
  mq_receive :: "int \<Rightarrow> nat \<Rightarrow> 'm \<Rightarrow> (int + u8 list) \<times> 'm"

definition ENOENT :: int where "ENOENT = 2"
definition EAGAIN :: int where "EAGAIN = 11"
definition EINVAL :: int where "EINVAL = 22"
definition EMSGSIZE :: int where "EMSGSIZE = 90"

lemmas errnos = ENOENT_def EAGAIN_def EINVAL_def EMSGSIZE_def

text \<open>
  What POSIX promises for messages of one priority. Descriptor \<open>d\<close> refers to queue \<open>q\<close> and is non-blocking if
  \<open>desc m d = Some (q, True)\<close>; \<open>cont\<close> are the messages of a queue, oldest first, \<open>lim\<close> its maximal number and
  size of messages, \<open>named\<close> the queue of a name. Opening an existing queue ignores the requested limits.
\<close>

locale mq_laws =
  fixes M :: "'m mq_lib" and mok :: "'m \<Rightarrow> bool" and desc :: "'m \<Rightarrow> int \<Rightarrow> (nat \<times> bool) option"
    and cont :: "'m \<Rightarrow> nat \<Rightarrow> u8 list list" and lim :: "'m \<Rightarrow> nat \<Rightarrow> nat \<times> nat" and named :: "'m \<Rightarrow> string \<Rightarrow> nat option"
  assumes send_law: "mok m \<Longrightarrow> desc m d = Some (q, True) \<Longrightarrow> n \<le> length bs \<Longrightarrow> mq_send M d n bs m = (r, m') \<Longrightarrow>
      mok m' \<and> desc m' = desc m \<and> lim m' = lim m \<and> named m' = named m \<and>
      (if n > snd (lim m q) then r = Inl EMSGSIZE \<and> cont m' = cont m
       else if length (cont m q) \<ge> fst (lim m q) then r = Inl EAGAIN \<and> cont m' = cont m
       else r = Inr () \<and> cont m' = (cont m)(q := cont m q @ [take n bs]))"
    and receive_law: "mok m \<Longrightarrow> desc m d = Some (q, True) \<Longrightarrow> mq_receive M d n m = (x, m') \<Longrightarrow>
      mok m' \<and> desc m' = desc m \<and> lim m' = lim m \<and> named m' = named m \<and>
      (if n < snd (lim m q) then x = Inl EMSGSIZE \<and> cont m' = cont m
       else case cont m q of [] \<Rightarrow> x = Inl EAGAIN \<and> cont m' = cont m
         | y # ys \<Rightarrow> x = Inr y \<and> cont m' = (cont m)(q := ys))"
    and open_law: "mok m \<Longrightarrow> mq_open M nm nb k sz m = (z, m') \<Longrightarrow>
      mok m' \<and> (case z of Inl e \<Rightarrow> desc m' = desc m \<and> lim m' = lim m \<and> named m' = named m \<and> cont m' = cont m
        | Inr d \<Rightarrow> 0 \<le> d \<and> desc m d = None \<and> (\<exists>q. desc m' = (desc m)(d \<mapsto> (q, nb)) \<and> named m' = (named m)(nm \<mapsto> q) \<and>
            (case named m nm of Some p \<Rightarrow> q = p \<and> lim m' = lim m \<and> cont m' = cont m
             | None \<Rightarrow> 0 < k \<and> 0 < sz \<and> q \<notin> ran (named m) \<and> q \<notin> fst ` ran (desc m) \<and>
                 lim m' = (lim m)(q := (nat k, nat sz)) \<and> cont m' = (cont m)(q := []))))"

subsection \<open>An instance\<close>

record mqs =
  qs_desc :: "int \<Rightarrow> (nat \<times> bool) option"
  qs_named :: "string \<Rightarrow> nat option"
  qs_cont :: "nat \<Rightarrow> u8 list list"
  qs_lim :: "nat \<Rightarrow> nat \<times> nat"
  qs_nextq :: nat
  qs_nextd :: int

definition mqs_ok :: "mqs \<Rightarrow> bool" where
  "mqs_ok m \<longleftrightarrow> 0 \<le> qs_nextd m \<and> (\<forall>d \<ge> qs_nextd m. qs_desc m d = None) \<and> (\<forall>nm q. qs_named m nm = Some q \<longrightarrow> q < qs_nextq m) \<and>
     (\<forall>d q nb. qs_desc m d = Some (q, nb) \<longrightarrow> q < qs_nextq m)"

definition ref_open :: "string \<Rightarrow> bool \<Rightarrow> int \<Rightarrow> int \<Rightarrow> mqs \<Rightarrow> (int + int) \<times> mqs" where
  "ref_open nm nb k sz m =
     (let d = qs_nextd m in
      case qs_named m nm of
        Some q \<Rightarrow> (Inr d, m\<lparr>qs_desc := (qs_desc m)(d \<mapsto> (q, nb)), qs_nextd := d + 1\<rparr>)
      | None \<Rightarrow>
          if k \<le> 0 \<or> sz \<le> 0 then (Inl EINVAL, m)
          else (Inr d, m\<lparr>qs_desc := (qs_desc m)(d \<mapsto> (qs_nextq m, nb)), qs_named := (qs_named m)(nm \<mapsto> qs_nextq m),
            qs_cont := (qs_cont m)(qs_nextq m := []), qs_lim := (qs_lim m)(qs_nextq m := (nat k, nat sz)),
            qs_nextq := qs_nextq m + 1, qs_nextd := d + 1\<rparr>))"

definition ref_send :: "int \<Rightarrow> nat \<Rightarrow> u8 list \<Rightarrow> mqs \<Rightarrow> (int + unit) \<times> mqs" where
  "ref_send d n bs m =
     (case qs_desc m d of
        None \<Rightarrow> (Inl EINVAL, m)
      | Some (q, nb) \<Rightarrow>
          if n > snd (qs_lim m q) then (Inl EMSGSIZE, m)
          else if length (qs_cont m q) \<ge> fst (qs_lim m q) then (Inl EAGAIN, m)
          else (Inr (), m\<lparr>qs_cont := (qs_cont m)(q := qs_cont m q @ [take n bs])\<rparr>))"

definition ref_receive :: "int \<Rightarrow> nat \<Rightarrow> mqs \<Rightarrow> (int + u8 list) \<times> mqs" where
  "ref_receive d n m =
     (case qs_desc m d of
        None \<Rightarrow> (Inl EINVAL, m)
      | Some (q, nb) \<Rightarrow>
          if n < snd (qs_lim m q) then (Inl EMSGSIZE, m)
          else (case qs_cont m q of [] \<Rightarrow> (Inl EAGAIN, m)
            | x # xs \<Rightarrow> (Inr x, m\<lparr>qs_cont := (qs_cont m)(q := xs)\<rparr>)))"

definition ref_unlink :: "string \<Rightarrow> mqs \<Rightarrow> (int + unit) \<times> mqs" where
  "ref_unlink nm m =
     (case qs_named m nm of None \<Rightarrow> (Inl ENOENT, m) | Some _ \<Rightarrow> (Inr (), m\<lparr>qs_named := (qs_named m)(nm := None)\<rparr>))"

definition mq_ref :: "mqs mq_lib" where
  "mq_ref = \<lparr>mq_open = ref_open, mq_close = (\<lambda>d m. (Inr (), m\<lparr>qs_desc := (qs_desc m)(d := None)\<rparr>)), mq_unlink = ref_unlink,
     mq_send = ref_send, mq_receive = ref_receive\<rparr>"

lemma ref_open_ok:
  assumes "mqs_ok m" "ref_open nm nb k sz m = (r, m')"
  shows "mqs_ok m' \<and> (case r of Inl e \<Rightarrow> m' = m
    | Inr d \<Rightarrow> 0 \<le> d \<and> qs_desc m d = None \<and> (\<exists>q. qs_desc m' = (qs_desc m)(d \<mapsto> (q, nb)) \<and> qs_named m' = (qs_named m)(nm \<mapsto> q) \<and>
        (case qs_named m nm of Some p \<Rightarrow> q = p \<and> qs_lim m' = qs_lim m \<and> qs_cont m' = qs_cont m
         | None \<Rightarrow> 0 < k \<and> 0 < sz \<and> q \<notin> ran (qs_named m) \<and> q \<notin> fst ` ran (qs_desc m) \<and>
             qs_lim m' = (qs_lim m)(q := (nat k, nat sz)) \<and> qs_cont m' = (qs_cont m)(q := []))))"
proof (cases "qs_named m nm")
  case (Some q)
  with assms show ?thesis
    by (auto simp: ref_open_def mqs_ok_def Let_def fun_upd_idem split: if_splits) blast
next
  case None
  from assms(1) have fr: "qs_nextq m \<notin> ran (qs_named m)" "qs_nextq m \<notin> fst ` ran (qs_desc m)"
    by (auto simp: mqs_ok_def ran_def) blast
  show ?thesis
  proof (cases "k \<le> 0 \<or> sz \<le> 0")
    case True
    with None assms show ?thesis by (auto simp: ref_open_def Let_def)
  next
    case False
    have up: "mqs_ok (m\<lparr>qs_desc := (qs_desc m)(qs_nextd m \<mapsto> (qs_nextq m, nb)), qs_named := (qs_named m)(nm \<mapsto> qs_nextq m),
            qs_cont := c, qs_lim := l, qs_nextq := qs_nextq m + 1, qs_nextd := qs_nextd m + 1\<rparr>)" for c l
      using assms(1) by (auto simp: mqs_ok_def less_Suc_eq)
    have "0 \<le> qs_nextd m" "qs_desc m (qs_nextd m) = None" using assms(1) by (simp_all add: mqs_ok_def)
    with False None assms(2) fr up show ?thesis by (auto simp: ref_open_def Let_def)
  qed
qed

interpretation ref_mq: mq_laws mq_ref mqs_ok qs_desc qs_cont qs_lim qs_named
proof (unfold_locales, goal_cases)
  case (1 m d q n bs r m')
  then show ?case by (auto simp: mq_ref_def ref_send_def mqs_ok_def split: if_splits) blast
next
  case (2 m d q n r m')
  then show ?case by (auto simp: mq_ref_def ref_receive_def mqs_ok_def split: if_splits list.splits) blast
next
  case (3 m nm nb k sz r m')
  then show ?case using ref_open_ok [of m nm nb k sz r m'] by (auto simp: mq_ref_def split: sum.splits)
qed

section \<open>The block\<close>

text \<open>\<open>struct mqueue_info\<close>; \<open>mq_id\<close> is only used in \<open>mqueue_init\<close>.\<close>

record mqueue_info =
  mi_mqd :: int
  mi_mq_name :: string
  mi_type :: ptr
  mi_data_len :: int
  mi_buffer_len :: int
  mi_unlink :: int
  mi_cnt_send_err :: u64
  mi_cnt_recv_err :: u64

text \<open>The private data of the blocks, the message queues, and \<open>errno\<close>, which only a failing call sets.\<close>

record 'm mq_world =
  mw_info :: "addr \<Rightarrow> mqueue_info option"
  mw_sys :: 'm
  mw_errno :: int

definition set_mi :: "addr \<Rightarrow> mqueue_info option \<Rightarrow> 'm mq_world ubx \<Rightarrow> 'm mq_world ubx" where
  "set_mi i x s = s\<lparr>world := (world s)\<lparr>mw_info := (mw_info (world s))(i := x)\<rparr>\<rparr>"

text \<open>The state after a call of a message queue function.\<close>

definition sys_ret :: "(int + 'a) \<times> 'm \<Rightarrow> 'm mq_world \<Rightarrow> 'm mq_world" where
  "sys_ret rm w = w\<lparr>mw_sys := snd rm, mw_errno := (case fst rm of Inl e \<Rightarrow> e | Inr _ \<Rightarrow> mw_errno w)\<rparr>"

definition NAME_MAX :: nat where "NAME_MAX = 255"

text \<open>\<open>%li\<close>\<close>

definition dec_long :: "int \<Rightarrow> string" where
  "dec_long n = (if n < 0 then CHR ''-'' # dec (nat (- n)) else dec (nat n))"

text \<open>The string that is printed into \<open>mq_name\<close>.\<close>

definition mq_full_name :: "string \<Rightarrow> int \<Rightarrow> string \<Rightarrow> string" where
  "mq_full_name hexhash data_len mq_id = ''/ubx_'' @ hexhash @ ''_'' @ dec_long data_len @ ''_'' @ mq_id"

text \<open>The label \<open>out_free_info\<close>: the private data is released and \<open>ret\<close> returned.\<close>

definition mq_fail :: "addr \<Rightarrow> int \<Rightarrow> 'm mq_world ubx \<Rightarrow> (int \<times> 'm mq_world ubx) option" where
  "mq_fail i ret s = do { blk \<leftarrow> blks s i; _ \<leftarrow> ubx_block_log blk s; Some (ret, set_mi i None s) }"

definition mq_do_open ::
  "'m mq_lib \<Rightarrow> addr \<Rightarrow> int \<Rightarrow> mqueue_info \<Rightarrow> bool \<Rightarrow> int \<Rightarrow> 'm mq_world ubx \<Rightarrow> (int \<times> 'm mq_world ubx) option" where
  "mq_do_open M i ret mi nb msgsize s =
     (let r = mq_open M (mi_mq_name mi) nb (mi_buffer_len mi) msgsize (mw_sys (world s));
          s = s\<lparr>world := sys_ret r (world s)\<rparr>
      in (case fst r of
            Inl e \<Rightarrow> mq_fail i ret s
          | Inr d \<Rightarrow> if d < 0 then mq_fail i ret s else Some (0, set_mi i (Some (mi\<lparr>mi_mqd := d\<rparr>)) s)))"

text \<open>The last part of \<open>mqueue_init\<close>: the blocking mode, and the queue is opened. From here \<open>ret\<close> is what
  \<open>snprintf\<close> returned, the length of the whole name.\<close>

definition mqueue_open ::
  "ut_lib \<Rightarrow> 'm mq_lib \<Rightarrow> addr \<Rightarrow> string \<Rightarrow> mqueue_info \<Rightarrow> int \<Rightarrow> 'm mq_world ubx \<Rightarrow> (int \<times> 'm mq_world ubx) option" where
  "mqueue_open U M i name mi msgsize s = do {
     let ret = int (length name);
     let mi = mi\<lparr>mi_mq_name := snprintf (NAME_MAX + 1) name\<rparr>;
     (len, p, s) \<leftarrow> getptr U ''uint32'' ''uint32_t'' i ''blocking'' s;
     if len < 0 then mq_fail i ret s
     else do {
       v \<leftarrow> (if len > 0 then load_u32 p s else Some 0);
       blk \<leftarrow> blks s i;
       _ \<leftarrow> ubx_block_log blk s;
       mq_do_open M i ret mi (v = 0) msgsize s } }"

text \<open>From the type name to the name of the queue. \<open>mq_id\<close> is the pointer to the value of the config.\<close>

definition mqueue_name ::
  "ut_lib \<Rightarrow> 'm mq_lib \<Rightarrow> addr \<Rightarrow> ptr \<Rightarrow> int \<Rightarrow> int \<Rightarrow> 'm mq_world ubx \<Rightarrow> (int \<times> 'm mq_world ubx) option" where
  "mqueue_name U M i mq_id buffer_len data_len s = do {
     (len, p, s) \<leftarrow> getptr U ''char'' ''char'' i ''type_name'' s;
     if len < 0 then mq_fail i (-1) s
     else do {
       type_name \<leftarrow> load_string p s;
       blk \<leftarrow> blks s i;
       if \<not> b_nd blk then None
       else (case ubx_type_get U s (Some type_name) of
           None \<Rightarrow> mq_fail i EINVALID_CONFIG s
         | Some t \<Rightarrow> do {
             ty \<leftarrow> typs s t;
             r \<leftarrow> getptr U ''uint32'' ''uint32_t'' i ''unlink'' s;
             (unlink, s) \<leftarrow> cfg_or load_u32 1 r;
             msgsize \<leftarrow> long_chk (data_len * t_size ty);
             if msgsize \<le> 0 then mq_fail i (-1) s
             else do {
               mid \<leftarrow> load_string mq_id s;
               mqueue_open U M i (mq_full_name (ubx_type_hashstr ty) data_len mid)
                 \<lparr>mi_mqd = 0, mi_mq_name = '''', mi_type = Some t, mi_data_len = data_len, mi_buffer_len = buffer_len,
                  mi_unlink = unlink, mi_cnt_send_err = 0, mi_cnt_recv_err = 0\<rparr> msgsize s } }) } }"

definition mqueue_init :: "ut_lib \<Rightarrow> 'm mq_lib \<Rightarrow> addr \<Rightarrow> 'm mq_world ubx \<Rightarrow> (int \<times> 'm mq_world ubx) option" where
  "mqueue_init U M i s = do {
     blk \<leftarrow> blks s i;
     let (ok, s) = mem_alloc s;
     if \<not> ok then do { _ \<leftarrow> ubx_block_log blk s; Some (EOUTOFMEM, set_mi i None s) }
     else do {
       (len, mq_id, s) \<leftarrow> getptr U ''char'' ''char'' i ''mq_id'' s;
       if len < 0 then mq_fail i (-1) s
       else do {
         (len, p, s) \<leftarrow> getptr U ''long'' ''long'' i ''buffer_len'' s;
         if len < 0 then mq_fail i (-1) s
         else do {
           buffer_len \<leftarrow> load_long p s;
           if buffer_len = 0 then mq_fail i EINVALID_CONFIG s
           else do {
             (len, p, s) \<leftarrow> getptr U ''long'' ''long'' i ''data_len'' s;
             if len < 0 then mq_fail i (-1) s
             else do {
               data_len \<leftarrow> (if len > 0 then load_long p s else Some 1);
               mqueue_name U M i mq_id buffer_len data_len s } } } } } }"

definition mqueue_cleanup :: "'m mq_lib \<Rightarrow> addr \<Rightarrow> 'm mq_world ubx \<Rightarrow> 'm mq_world ubx option" where
  "mqueue_cleanup M i s = do {
     blk \<leftarrow> blks s i;
     mi \<leftarrow> mw_info (world s) i;
     let r = mq_close M (mi_mqd mi) (mw_sys (world s));
     let s = s\<lparr>world := sys_ret r (world s)\<rparr>;
     _ \<leftarrow> (case fst r of Inl e \<Rightarrow> ubx_block_log blk s | Inr _ \<Rightarrow> Some ());
     if mi_unlink mi \<noteq> 0 then do {
       _ \<leftarrow> ubx_block_log blk s;
       let r = mq_unlink M (mi_mq_name mi) (mw_sys (world s));
       let s = s\<lparr>world := sys_ret r (world s)\<rparr>;
       _ \<leftarrow> (case fst r of Inl e \<Rightarrow> if e \<noteq> ENOENT then ubx_block_log blk s else Some () | Inr _ \<Rightarrow> Some ());
       Some (set_mi i None s) }
     else Some (set_mi i None s) }"

text \<open>An \<open>int\<close> that is passed as a \<open>size_t\<close>.\<close>

definition size_arg :: "int \<Rightarrow> nat" where
  "size_arg n = unat (word_of_int n :: 64 word)"

definition mqueue_read :: "'m mq_lib \<Rightarrow> addr \<Rightarrow> addr \<Rightarrow> 'm mq_world ubx \<Rightarrow> (int \<times> 'm mq_world ubx) option" where
  "mqueue_read M i d s = do {
     blk \<leftarrow> blks s i;
     if b_state blk \<noteq> BLOCK_STATE_ACTIVE then do { _ \<leftarrow> ubx_block_log blk s; Some (-1, s) }
     else do {
       mi \<leftarrow> mw_info (world s) i;
       dat \<leftarrow> dats s d;
       sz \<leftarrow> data_size (Some d) s;
       let r = mq_receive M (mi_mqd mi) (size_arg (c_int sz)) (mw_sys (world s));
       let s = s\<lparr>world := sys_ret r (world s)\<rparr>;
       let ret = (case fst r of Inl e \<Rightarrow> -1 | Inr bs \<Rightarrow> c_int (int (length bs)));
       s \<leftarrow> (case fst r of Inl e \<Rightarrow> Some s | Inr bs \<Rightarrow> do {
              dst \<leftarrow> buf_bytes (d_data dat);
              new \<leftarrow> memcpy dst bs (int (length bs));
              Some (s\<lparr>dats := (dats s)(d \<mapsto> dat\<lparr>d_data := Buf new\<rparr>)\<rparr>) });
       if ret \<le> 0 \<and> mw_errno (world s) \<noteq> EAGAIN then do {
         _ \<leftarrow> ubx_block_log blk s;
         Some (ret, set_mi i (Some (mi\<lparr>mi_cnt_recv_err := mi_cnt_recv_err mi + 1\<rparr>)) s) }
       else if ret \<le> 0 then Some (0, s)
       else do {
         t \<leftarrow> d_type dat; ty \<leftarrow> typs s t;
         if t_size ty = 0 then None else Some (ret div t_size ty, s) } } }"

definition mqueue_write :: "'m mq_lib \<Rightarrow> addr \<Rightarrow> addr \<Rightarrow> 'm mq_world ubx \<Rightarrow> 'm mq_world ubx option" where
  "mqueue_write M i d s = do {
     blk \<leftarrow> blks s i;
     if b_state blk \<noteq> BLOCK_STATE_ACTIVE then do { _ \<leftarrow> ubx_block_log blk s; Some s }
     else do {
       mi \<leftarrow> mw_info (world s) i;
       dat \<leftarrow> dats s d;
       if mi_type mi \<noteq> d_type dat then do { t \<leftarrow> d_type dat; _ \<leftarrow> typs s t; _ \<leftarrow> ubx_block_log blk s; Some s }
       else do {
         sz \<leftarrow> data_size (Some d) s;
         src \<leftarrow> buf_bytes (d_data dat);
         let n = size_arg (c_int sz);
         let r = mq_send M (mi_mqd mi) n src (mw_sys (world s));
         let s = s\<lparr>world := sys_ret r (world s)\<rparr>;
         case fst r of
           Inr _ \<Rightarrow> if n > length src then None else Some s
         | Inl e \<Rightarrow> do {
             let s = set_mi i (Some (mi\<lparr>mi_cnt_send_err := mi_cnt_send_err mi + 1\<rparr>)) s;
             _ \<leftarrow> (if e \<noteq> EAGAIN then ubx_block_log blk s else Some ());
             Some s } } } }"

text \<open>The hooks of a node whose interaction blocks are all of this type.\<close>

definition mqueue_hooks :: "ut_lib \<Rightarrow> 'm mq_lib \<Rightarrow> 'm mq_world hooks \<Rightarrow> 'm mq_world hooks" where
  "mqueue_hooks U M H = H\<lparr>hk_init := (\<lambda>f. mqueue_init U M), hk_cleanup := (\<lambda>f. mqueue_cleanup M),
     hk_read := (\<lambda>f. mqueue_read M), hk_write := (\<lambda>f. mqueue_write M)\<rparr>"

section \<open>The block in the framework\<close>

text \<open>What a read and a write do, as functions of the sample and the world, for samples that fill a message.\<close>

definition mq_rd :: "'m mq_lib \<Rightarrow> int \<Rightarrow> 'm mq_world reader" where
  "mq_rd M sz i dat w =
     (case mw_info w i of
        None \<Rightarrow> (0, dat, w)
      | Some mi \<Rightarrow>
          let r = mq_receive M (mi_mqd mi) (length (sample_bytes dat)) (mw_sys w)
          in (case fst r of Inl e \<Rightarrow> (0, dat, sys_ret r w)
              | Inr bs \<Rightarrow> (int (length bs) div sz, dat\<lparr>d_data := Buf bs\<rparr>, sys_ret r w)))"

definition mq_wr :: "'m mq_lib \<Rightarrow> addr \<Rightarrow> ubx_data \<Rightarrow> 'm mq_world \<Rightarrow> 'm mq_world" where
  "mq_wr M i dat w =
     (case mw_info w i of
        None \<Rightarrow> w
      | Some mi \<Rightarrow>
          let r = mq_send M (mi_mqd mi) (length (sample_bytes dat)) (sample_bytes dat) (mw_sys w); w = sys_ret r w
          in (case fst r of
                Inl e \<Rightarrow> w\<lparr>mw_info := (mw_info w)(i \<mapsto> mi\<lparr>mi_cnt_send_err := mi_cnt_send_err mi + 1\<rparr>)\<rparr>
              | Inr _ \<Rightarrow> w))"

text \<open>Active blocks \<open>own\<close> with open non-blocking queues of messages of exactly \<open>n\<close> elements of type \<open>t\<close>.\<close>

definition mq_info_ok ::
  "('m \<Rightarrow> int \<Rightarrow> (nat \<times> bool) option) \<Rightarrow> ('m \<Rightarrow> nat \<Rightarrow> u8 list list) \<Rightarrow> ('m \<Rightarrow> nat \<Rightarrow> nat \<times> nat) \<Rightarrow> addr \<Rightarrow> nat \<Rightarrow> 'm \<Rightarrow>
     mqueue_info \<Rightarrow> bool" where
  "mq_info_ok desc cont lim t k m mi \<longleftrightarrow> mi_type mi = Some t \<and>
     (\<exists>q. desc m (mi_mqd mi) = Some (q, True) \<and> snd (lim m q) = k \<and> (\<forall>x \<in> set (cont m q). length x = k))"

definition mq_ok ::
  "('m \<Rightarrow> bool) \<Rightarrow> ('m \<Rightarrow> int \<Rightarrow> (nat \<times> bool) option) \<Rightarrow> ('m \<Rightarrow> nat \<Rightarrow> u8 list list) \<Rightarrow> ('m \<Rightarrow> nat \<Rightarrow> nat \<times> nat) \<Rightarrow>
     addr set \<Rightarrow> addr \<Rightarrow> int \<Rightarrow> int \<Rightarrow> 'm mq_world ubx \<Rightarrow> bool" where
  "mq_ok mok desc cont lim own t sz n s \<longleftrightarrow> node_ok s \<and> 0 < n \<and> 0 < sz \<and> n * sz < 2 ^ 31 \<and>
     (\<exists>ty. typs s t = Some ty \<and> t_size ty = sz) \<and> mok (mw_sys (world s)) \<and>
     (\<forall>i \<in> own. (\<exists>blk. blks s i = Some blk \<and> b_state blk = BLOCK_STATE_ACTIVE \<and> read_fun blk \<noteq> None \<and> write_fun blk \<noteq> None) \<and>
        (\<exists>mi. mw_info (world s) i = Some mi \<and> mq_info_ok desc cont lim t (nat (n * sz)) (mw_sys (world s)) mi))"

lemma mq_okD:
  assumes "mq_ok mok desc cont lim own t sz n s"
  shows "node_ok s" "0 < n" "0 < sz" "n * sz < 2 ^ 31" "\<exists>ty. typs s t = Some ty \<and> t_size ty = sz" "mok (mw_sys (world s))"
    "i \<in> own \<Longrightarrow> \<exists>blk f g. blks s i = Some blk \<and> b_state blk = BLOCK_STATE_ACTIVE \<and> read_fun blk = Some f \<and> write_fun blk = Some g"
    "i \<in> own \<Longrightarrow> \<exists>mi q. mw_info (world s) i = Some mi \<and> mi_type mi = Some t \<and> desc (mw_sys (world s)) (mi_mqd mi) = Some (q, True) \<and>
      snd (lim (mw_sys (world s)) q) = nat (n * sz) \<and> (\<forall>x \<in> set (cont (mw_sys (world s)) q). length x = nat (n * sz))"
proof -
  from assms show "node_ok s" "0 < n" "0 < sz" "n * sz < 2 ^ 31" "\<exists>ty. typs s t = Some ty \<and> t_size ty = sz" "mok (mw_sys (world s))"
    by (simp_all add: mq_ok_def)
  assume i: "i \<in> own"
  with assms obtain blk where "blks s i = Some blk" "b_state blk = BLOCK_STATE_ACTIVE" "read_fun blk \<noteq> None" "write_fun blk \<noteq> None"
    unfolding mq_ok_def by blast
  then show "\<exists>blk f g. blks s i = Some blk \<and> b_state blk = BLOCK_STATE_ACTIVE \<and> read_fun blk = Some f \<and> write_fun blk = Some g" by blast
  from assms i show "\<exists>mi q. mw_info (world s) i = Some mi \<and> mi_type mi = Some t \<and> desc (mw_sys (world s)) (mi_mqd mi) = Some (q, True) \<and>
      snd (lim (mw_sys (world s)) q) = nat (n * sz) \<and> (\<forall>x \<in> set (cont (mw_sys (world s)) q). length x = nat (n * sz))"
    unfolding mq_ok_def mq_info_ok_def by blast
qed

text \<open>Steps that keep the invariant: only counters, statistics and messages of the right length change.\<close>

lemma mq_ok_step:
  assumes "mq_ok mok desc cont lim own t sz n s" "stat_frame s s'" "node_ok s'"
    and "\<And>i. map_option (\<lambda>mi. (mi_mqd mi, mi_type mi)) (mw_info (world s') i) =
      map_option (\<lambda>mi. (mi_mqd mi, mi_type mi)) (mw_info (world s) i)"
    and "m = mw_sys (world s)" "m' = mw_sys (world s')" "mok m'" "desc m' = desc m" "lim m' = lim m"
    and "\<And>q. \<forall>x \<in> set (cont m q). length x = nat (n * sz) \<Longrightarrow> snd (lim m q) = nat (n * sz) \<Longrightarrow> \<forall>x \<in> set (cont m' q). length x = nat (n * sz)"
  shows "mq_ok mok desc cont lim own t sz n s'"
proof -
  have p: "typs s' = typs s" using assms(2) by (simp add: stat_frame_def)
  have b: "\<exists>blk. blks s' i = Some blk \<and> b_state blk = BLOCK_STATE_ACTIVE \<and> read_fun blk \<noteq> None \<and> write_fun blk \<noteq> None" if "i \<in> own" for i
  proof -
    from mq_okD(7) [OF assms(1) that] obtain blk f g where
      "blks s i = Some blk" "b_state blk = BLOCK_STATE_ACTIVE" "read_fun blk = Some f" "write_fun blk = Some g" by blast
    with stat_frame_block [OF assms(2), of i] show ?thesis by auto
  qed
  have w: "\<exists>mi. mw_info (world s') i = Some mi \<and> mq_info_ok desc cont lim t (nat (n * sz)) (mw_sys (world s')) mi" if "i \<in> own" for i
  proof -
    from mq_okD(8) [OF assms(1) that] obtain mi q where mi: "mw_info (world s) i = Some mi" "mi_type mi = Some t"
      "desc m (mi_mqd mi) = Some (q, True)" "snd (lim m q) = nat (n * sz)" "\<forall>x \<in> set (cont m q). length x = nat (n * sz)"
      unfolding assms(5) by blast
    from assms(4) [of i] mi(1) obtain mi' where mi': "mw_info (world s') i = Some mi'" "mi_mqd mi' = mi_mqd mi" "mi_type mi' = mi_type mi" by auto
    have "mq_info_ok desc cont lim t (nat (n * sz)) (mw_sys (world s')) mi'"
      unfolding mq_info_ok_def assms(6) [symmetric]
      using mi mi' assms(8,9,10) by auto
    with mi'(1) show ?thesis by blast
  qed
  from mq_okD(1-6) [OF assms(1)] b w assms(3,6,7) p show ?thesis by (simp add: mq_ok_def)
qed

lemma set_mi_simps [simp]:
  "world (set_mi i x s) = (world s)\<lparr>mw_info := (mw_info (world s))(i := x)\<rparr>" "blks (set_mi i x s) = blks s"
  "prts (set_mi i x s) = prts s" "dats (set_mi i x s) = dats s" "typs (set_mi i x s) = typs s" "nd_types (set_mi i x s) = nd_types s"
  by (simp_all add: set_mi_def)

lemma sys_ret_simps [simp]: "mw_info (sys_ret r w) = mw_info w" "mw_sys (sys_ret r w) = snd r"
  by (simp_all add: sys_ret_def)

lemma world_frame: "stat_frame s (s\<lparr>world := w\<rparr>)" "stat_frame s (set_mi i x s)"
  by (simp_all add: stat_frame_def set_mi_def)

lemma node_ok_world [simp]: "node_ok (s\<lparr>world := w\<rparr>) = node_ok s" "node_ok (set_mi i x s) = node_ok s"
  by (simp_all add: node_ok_def set_mi_def)

lemma c_int_small: "0 \<le> k \<Longrightarrow> k < 2 ^ 31 \<Longrightarrow> c_int k = k"
  by (simp add: c_int_def signed_of_int signed_take_bit_int_eq_self)

lemma size_arg_int: "0 \<le> k \<Longrightarrow> k < 2 ^ 31 \<Longrightarrow> size_arg (c_int k) = nat k"
proof -
  assume k: "0 \<le> k" "k < 2 ^ 31"
  then have "c_int k = k" by (rule c_int_small)
  moreover have "uint (word_of_int k :: 64 word) = k" using k by (simp add: uint_word_of_int)
  ultimately show ?thesis by (simp add: size_arg_def unat_eq_nat_uint)
qed

lemma sample_size:
  assumes "dats s d = Some dat" "fits t sz n dat" "typs s t = Some ty" "t_size ty = sz" "0 < n" "0 < sz" "n * sz < 2 ^ 31"
  shows "data_size (Some d) s = Some (n * sz)" "size_arg (c_int (n * sz)) = nat (n * sz)" "length (sample_bytes dat) = nat (n * sz)"
    "d_data dat = Buf (sample_bytes dat)"
proof -
  have "0 < n * sz" using assms(5,6) by simp
  with assms(7) have "in_long (n * sz)" by (simp add: in_long_def LONG_MAX_def)
  with assms show "data_size (Some d) s = Some (n * sz)" by (simp add: data_size_def fits_def)
  show "size_arg (c_int (n * sz)) = nat (n * sz)" using assms(5-7) by (simp add: size_arg_int)
  from fits_bytes [OF assms(2)] show "length (sample_bytes dat) = nat (n * sz)" "d_data dat = Buf (sample_bytes dat)" by simp_all
qed

lemma log_dats: "dats s' = dats s \<Longrightarrow> ubx_block_log blk s' = ubx_block_log blk s"
  by (simp add: ubx_block_log_def split: option.split)

context mq_laws
begin

abbreviation mqok where "mqok \<equiv> mq_ok mok desc cont lim"

lemma mqueue_write_ok:
  assumes ok: "mqok own t sz n s" and i: "i \<in> own" and d: "dats s d = Some dat" and fit: "fits t sz n dat"
  shows "\<exists>s'. mqueue_write M i d s = Some s' \<and> stat_frame s s' \<and> dats s' = dats s \<and> world s' = mq_wr M i dat (world s) \<and>
    mqok own t sz n s'"
proof -
  note D = mq_okD [OF ok]
  from D(7) [OF i] obtain blk where b: "blks s i = Some blk" "b_state blk = BLOCK_STATE_ACTIVE" by blast
  from D(8) [OF i] obtain mi q where mi: "mw_info (world s) i = Some mi" "mi_type mi = Some t"
    "desc (mw_sys (world s)) (mi_mqd mi) = Some (q, True)" "snd (lim (mw_sys (world s)) q) = nat (n * sz)" by blast
  from D(5) obtain ty where ty: "typs s t = Some ty" "t_size ty = sz" by blast
  note S = sample_size [OF d fit ty D(2-4)]
  obtain r m where r: "mq_send M (mi_mqd mi) (nat (n * sz)) (sample_bytes dat) (mw_sys (world s)) = (r, m)"
    by (cases "mq_send M (mi_mqd mi) (nat (n * sz)) (sample_bytes dat) (mw_sys (world s))")
  have "nat (n * sz) \<le> length (sample_bytes dat)" using S(3) by simp
  note L = send_law [OF D(6) mi(3) this r]
  have log: "ubx_block_log blk s' = Some ()" if "dats s' = dats s" for s' :: "'m mq_world ubx"
    using node_ok_log(2) [OF D(1) b(1)] log_dats [OF that] by simp
  have td: "d_type dat = Some t" using fit by (simp add: fits_def)
  let ?w = "mq_wr M i dat (world s)"
  have w: "mw_sys ?w = m" "map_option (\<lambda>mi. (mi_mqd mi, mi_type mi)) (mw_info ?w j) =
      map_option (\<lambda>mi. (mi_mqd mi, mi_type mi)) (mw_info (world s) j)" for j
    using r mi(1) S(3) by (auto simp: mq_wr_def Let_def split: sum.splits)
  have "mqueue_write M i d s = Some (s\<lparr>world := ?w\<rparr>)"
  proof (cases r)
    case (Inl e)
    with r mi td S b d show ?thesis by (simp add: mqueue_write_def mq_wr_def buf_bytes_def Let_def log set_mi_def)
  next
    case (Inr u)
    with r mi td S b d show ?thesis by (simp add: mqueue_write_def mq_wr_def buf_bytes_def Let_def)
  qed
  moreover have "mqok own t sz n (s\<lparr>world := ?w\<rparr>)"
  proof (rule mq_ok_step [OF ok world_frame(1) _ _ refl refl])
    show "node_ok (s\<lparr>world := ?w\<rparr>)" using D(1) by simp
    fix p assume "\<forall>x \<in> set (cont (mw_sys (world s)) p). length x = nat (n * sz)"
    with L w S(3) show "\<forall>x \<in> set (cont (mw_sys (world (s\<lparr>world := ?w\<rparr>))) p). length x = nat (n * sz)"
      by (auto split: if_splits)
  qed (use L w in auto)
  ultimately show ?thesis using world_frame(1) [of s ?w] by (intro exI [of _ "s\<lparr>world := ?w\<rparr>"]) simp
qed

lemma mqueue_read_ok:
  assumes ok: "mqok own t sz n s" and i: "i \<in> own" and d: "dats s d = Some dat" and fit: "fits t sz n dat"
    and rd: "mq_rd M sz i dat (world s) = (x, dat', w')"
  shows "\<exists>s'. mqueue_read M i d s = Some (x, s') \<and> stat_frame s s' \<and> dats s' = (dats s)(d \<mapsto> dat') \<and> world s' = w' \<and>
    mqok own t sz n s' \<and> fits t sz n dat'"
proof -
  note D = mq_okD [OF ok]
  from D(7) [OF i] obtain blk where b: "blks s i = Some blk" "b_state blk = BLOCK_STATE_ACTIVE" by blast
  from D(8) [OF i] obtain mi q where mi: "mw_info (world s) i = Some mi" "mi_type mi = Some t"
    "desc (mw_sys (world s)) (mi_mqd mi) = Some (q, True)" "snd (lim (mw_sys (world s)) q) = nat (n * sz)"
    "\<forall>x \<in> set (cont (mw_sys (world s)) q). length x = nat (n * sz)" by blast
  from D(5) obtain ty where ty: "typs s t = Some ty" "t_size ty = sz" by blast
  note S = sample_size [OF d fit ty D(2-4)]
  have pos: "0 < n * sz" using D(2,3) by simp
  then have ci: "c_int (n * sz) = n * sz" using D(4) by (intro c_int_small) simp_all
  obtain r m where r: "mq_receive M (mi_mqd mi) (nat (n * sz)) (mw_sys (world s)) = (r, m)"
    by (cases "mq_receive M (mi_mqd mi) (nat (n * sz)) (mw_sys (world s))")
  note L = receive_law [OF D(6) mi(3) r]
  have td: "d_type dat = Some t" using fit by (simp add: fits_def)
  let ?s' = "s\<lparr>world := w', dats := (dats s)(d \<mapsto> dat')\<rparr>"
  have "mqueue_read M i d s = Some (x, ?s') \<and> mw_info w' = mw_info (world s) \<and> mw_sys w' = m \<and> fits t sz n dat'"
  proof (cases "cont (mw_sys (world s)) q")
    case Nil
    with L mi(4) have e: "r = Inl EAGAIN" by simp
    with rd mi(1) S(3) r have x: "x = 0" "dat' = dat" "w' = sys_ret (r, m) (world s)" by (auto simp: mq_rd_def Let_def)
    have "s\<lparr>world := w', dats := (dats s)(d \<mapsto> dat)\<rparr> = s\<lparr>world := w'\<rparr>" using d by (simp add: fun_upd_idem)
    with e x r mi(1) S b d fit show ?thesis by (simp add: mqueue_read_def Let_def sys_ret_def)
  next
    case (Cons bs q')
    with L mi(4) have e: "r = Inr bs" by simp
    have len: "length bs = nat (n * sz)" using mi(5) Cons by simp
    with rd mi(1) S(3) r e pos have x: "x = n * sz div sz" "dat' = dat\<lparr>d_data := Buf bs\<rparr>" "w' = sys_ret (r, m) (world s)"
      by (auto simp: mq_rd_def Let_def)
    have c: "memcpy (sample_bytes dat) bs (int (length bs)) = Some bs" using len S(3) by (simp add: memcpy_def)
    have f: "fits t sz n dat'" using fit len by (simp add: x(2) fits_def)
    have l: "int (length bs) = n * sz" using len pos by simp
    from e x r mi(1) S b d td ty c f ci pos l D(3) show ?thesis
      by (simp add: mqueue_read_def Let_def sys_ret_def buf_bytes_def)
  qed
  moreover have fr: "stat_frame s ?s'" by (simp add: stat_frame_def)
  moreover have "mqok own t sz n ?s'"
  proof (rule mq_ok_step [OF ok fr _ _ refl refl])
    show "node_ok ?s'" using D(1) fr by (rule node_ok_frame) (use d in auto)
    fix p assume "\<forall>x \<in> set (cont (mw_sys (world s)) p). length x = nat (n * sz)"
    with L calculation(1) show "\<forall>x \<in> set (cont (mw_sys (world ?s')) p). length x = nat (n * sz)"
      by (auto split: if_splits list.splits)
  qed (use L calculation(1) in auto)
  ultimately show ?thesis by (intro exI [of _ ?s']) simp
qed

lemma mqueue_io_hooks:
  "io_hooks (mqueue_hooks U M H) own (mqok own t sz n) (fits t sz n) (mq_rd M sz) (mq_wr M)"
proof
  fix s s' :: "'m mq_world ubx"
  assume a: "mqok own t sz n s" "stat_frame s s'" "node_ok s'" "world s' = world s"
  show "mqok own t sz n s'"
    by (rule mq_ok_step [OF a(1-3) _ refl refl]) (simp_all add: a(4) mq_okD(6) [OF a(1)])
next
  fix s :: "'m mq_world ubx" and ib
  assume "mqok own t sz n s" "ib \<in> own"
  then show "\<exists>blk f g. blks s ib = Some blk \<and> read_fun blk = Some f \<and> write_fun blk = Some g" using mq_okD(7) by blast
next
  fix s :: "'m mq_world ubx" and ib d dat blk f
  assume "mqok own t sz n s" "ib \<in> own" "dats s d = Some dat" "fits t sz n dat"
  note ok = this
  from mqueue_write_ok [OF ok]
  show "\<exists>s'. hk_write (mqueue_hooks U M H) f ib d s = Some s' \<and> stat_frame s s' \<and> dats s' = dats s \<and>
    world s' = mq_wr M ib dat (world s) \<and> mqok own t sz n s'"
    by (simp add: mqueue_hooks_def)
  fix r dat' w' assume "mq_rd M sz ib dat (world s) = (r, dat', w')"
  from mqueue_read_ok [OF ok this]
  show "\<exists>s'. hk_read (mqueue_hooks U M H) f ib d s = Some (r, s') \<and> stat_frame s s' \<and> dats s' = (dats s)(d \<mapsto> dat') \<and>
    world s' = w' \<and> mqok own t sz n s' \<and> fits t sz n dat'"
    by (simp add: mqueue_hooks_def)
qed (rule mq_okD(1))

end

interpretation mqio: io_hooks "mqueue_hooks ut_ref mq_ref H" own "mq_ok mqs_ok qs_desc qs_cont qs_lim own t sz n" "fits t sz n"
  "mq_rd mq_ref sz" "mq_wr mq_ref"
  by (rule ref_mq.mqueue_io_hooks)

section \<open>Two blocks on one queue\<close>

text \<open>The abstract specification: a bounded queue that refuses new samples when it is full.\<close>

definition refuse_write :: "nat \<Rightarrow> 'a \<Rightarrow> 'a list \<Rightarrow> 'a list" where
  "refuse_write cap x xs = (if length xs < cap then xs @ [x] else xs)"

fun refuse_run :: "nat \<Rightarrow> int \<Rightarrow> pipe_op list \<Rightarrow> u8 list list \<Rightarrow> (int \<times> u8 list) list" where
  "refuse_run cap n [] q = []"
| "refuse_run cap n (Put bs # ops) q = refuse_run cap n ops (refuse_write cap bs q)"
| "refuse_run cap n (Get val # ops) q =
     (case q of [] \<Rightarrow> (0, val) # refuse_run cap n ops [] | x # q \<Rightarrow> (n, x) # refuse_run cap n ops q)"

text \<open>The out-port \<open>po\<close> is connected to the iblock \<open>i\<close>, the in-port \<open>pi\<close> to \<open>j\<close>.\<close>

definition link_ok :: "ut_lib \<Rightarrow> string \<Rightarrow> addr \<Rightarrow> int \<Rightarrow> addr \<Rightarrow> addr \<Rightarrow> addr \<Rightarrow> addr \<Rightarrow> 'w ubx \<Rightarrow> bool" where
  "link_ok U tn t n po pi i j s \<longleftrightarrow> ut_find U (nd_types s) tn = Some t \<and>
     (\<exists>prt. prts s po = Some prt \<and> p_out_type prt = Some t \<and> n \<le> p_out_data_len prt \<and> p_out_interaction prt = Some [i]) \<and>
     (\<exists>prt. prts s pi = Some prt \<and> p_in_type prt = Some t \<and> n \<le> p_in_data_len prt \<and> p_in_interaction prt = Some [j])"

lemma link_ok_frame: "link_ok U tn t n po pi i j s \<Longrightarrow> stat_frame s s' \<Longrightarrow> link_ok U tn t n po pi i j s'"
  by (simp add: link_ok_def stat_frame_def)

text \<open>The blocks \<open>i\<close> and \<open>j\<close> have the queue \<open>q\<close> open.\<close>

definition both_on :: "('m \<Rightarrow> int \<Rightarrow> (nat \<times> bool) option) \<Rightarrow> addr \<Rightarrow> addr \<Rightarrow> nat \<Rightarrow> 'm mq_world \<Rightarrow> bool" where
  "both_on desc i j q w \<longleftrightarrow> (\<forall>k \<in> {i, j}. \<exists>mi. mw_info w k = Some mi \<and> desc (mw_sys w) (mi_mqd mi) = Some (q, True))"

context mq_laws
begin

lemma mq_wr_queue:
  assumes "both_on desc i j q w" "mok (mw_sys w)" "snd (lim (mw_sys w) q) = length (sample_bytes dat)" "w' = mq_wr M i dat w"
  shows "both_on desc i j q w' \<and> lim (mw_sys w') = lim (mw_sys w) \<and>
    cont (mw_sys w') q = refuse_write (fst (lim (mw_sys w) q)) (sample_bytes dat) (cont (mw_sys w) q)"
proof -
  from assms(1) obtain mi mj where mi: "mw_info w i = Some mi" "desc (mw_sys w) (mi_mqd mi) = Some (q, True)"
    "mw_info w j = Some mj" "desc (mw_sys w) (mi_mqd mj) = Some (q, True)" unfolding both_on_def by blast
  obtain r m where r: "mq_send M (mi_mqd mi) (length (sample_bytes dat)) (sample_bytes dat) (mw_sys w) = (r, m)"
    by (cases "mq_send M (mi_mqd mi) (length (sample_bytes dat)) (sample_bytes dat) (mw_sys w)")
  note L = send_law [OF assms(2) mi(2) order_refl r]
  have s: "mw_sys w' = m" using r mi(1) by (simp add: assms(4) mq_wr_def Let_def split: sum.split)
  have d: "map_option mi_mqd (mw_info w' k) = map_option mi_mqd (mw_info w k)" for k
    using r mi(1) by (simp add: assms(4) mq_wr_def Let_def split: sum.split)
  from d [of i] d [of j] mi obtain mi' mj' where "mw_info w' i = Some mi'" "mi_mqd mi' = mi_mqd mi"
    "mw_info w' j = Some mj'" "mi_mqd mj' = mi_mqd mj" by auto
  with L mi s have "both_on desc i j q w'" by (simp add: both_on_def)
  with L assms(3) s show ?thesis by (auto simp: refuse_write_def split: if_splits)
qed

lemma mq_rd_queue:
  assumes "both_on desc i j q w" "mok (mw_sys w)" "snd (lim (mw_sys w) q) = length (sample_bytes dat)" "0 < sz"
    "\<forall>x \<in> set (cont (mw_sys w) q). length x = nat (n * sz)" "0 < n" "mq_rd M sz j dat w = (r, dat', w')"
  shows "both_on desc i j q w' \<and> lim (mw_sys w') = lim (mw_sys w) \<and> cont (mw_sys w') q = tl (cont (mw_sys w) q) \<and>
    (case cont (mw_sys w) q of [] \<Rightarrow> r = 0 \<and> dat' = dat
     | x # _ \<Rightarrow> r = n \<and> x = sample_bytes dat' \<and> d_data dat' = Buf (sample_bytes dat'))"
proof -
  from assms(1) obtain mi mj where mi: "mw_info w i = Some mi" "desc (mw_sys w) (mi_mqd mi) = Some (q, True)"
    "mw_info w j = Some mj" "desc (mw_sys w) (mi_mqd mj) = Some (q, True)" unfolding both_on_def by blast
  obtain x m where x: "mq_receive M (mi_mqd mj) (length (sample_bytes dat)) (mw_sys w) = (x, m)"
    by (cases "mq_receive M (mi_mqd mj) (length (sample_bytes dat)) (mw_sys w)")
  note L = receive_law [OF assms(2) mi(4) x]
  have w: "mw_info w' = mw_info w" "mw_sys w' = m" using assms(7) x mi(3) by (auto simp: mq_rd_def Let_def split: sum.splits)
  have b: "both_on desc i j q w'" using L mi w by (simp add: both_on_def)
  have pos: "0 < n * sz" using assms(4,6) by simp
  show ?thesis
  proof (cases "cont (mw_sys w) q")
    case Nil
    with L assms(3,7) x mi(3) b w show ?thesis by (auto simp: mq_rd_def Let_def)
  next
    case (Cons y ys)
    then have "int (length y) = n * sz" using assms(5) pos by simp
    with Cons L assms(3,4,7) x mi(3) b w show ?thesis by (auto simp: mq_rd_def Let_def sample_bytes_def)
  qed
qed

lemma mq_pipe_ok:
  assumes "mqok own t sz n s" "i \<in> own" "j \<in> own" "link_ok U tn t n po pi i j s" "both_on desc i j q (world s)"
    "\<forall>x \<in> set ops. length (op_bytes x) = nat (n * sz)"
  shows "\<exists>s'. pipe_run U (mqueue_hooks U M H) tn po pi n ops s =
      Some (refuse_run (fst (lim (mw_sys (world s)) q)) n ops (cont (mw_sys (world s)) q), s') \<and> mqok own t sz n s'"
  using assms(1,4-6)
proof (induction ops arbitrary: s)
  case Nil
  then show ?case by simp
next
  case (Cons x ops)
  note io = mqueue_io_hooks [of U H own t sz n]
  note D = mq_okD [OF Cons.prems(1)]
  from Cons.prems(2) obtain po' pi' where p: "prts s po = Some po'" "p_out_type po' = Some t" "n \<le> p_out_data_len po'"
    "p_out_interaction po' = Some [i]" "prts s pi = Some pi'" "p_in_type pi' = Some t" "n \<le> p_in_data_len pi'"
    "p_in_interaction pi' = Some [j]" and tn: "ut_find U (nd_types s) tn = Some t" unfolding link_ok_def by blast
  have act: "active s [k] = [k]" if "k \<in> own" for k using D(7) [OF that] by (auto simp: active_def)
  from D(8) [OF assms(2)] Cons.prems(3) have q: "snd (lim (mw_sys (world s)) q) = nat (n * sz)"
    "\<forall>x \<in> set (cont (mw_sys (world s)) q). length x = nat (n * sz)" by (auto simp: both_on_def)
  have ops: "\<forall>x \<in> set ops. length (op_bytes x) = nat (n * sz)" using Cons.prems(4) by simp
  have fit: "fits t sz n (local_data (Some t) n (op_bytes x))" using Cons.prems(4) by (simp add: fits_def local_data_def)
  have sb: "sample_bytes (local_data (Some t) n (op_bytes x)) = op_bytes x" by (simp add: sample_bytes_def local_data_def)
  have sl: "snd (lim (mw_sys (world s)) q) = length (sample_bytes (local_data (Some t) n (op_bytes x)))"
    using q(1) sb Cons.prems(4) by simp
  show ?case
  proof (cases x)
    case (Put bs)
    let ?dat = "local_data (Some t) n bs"
    from fit Put have fit': "fits t sz n ?dat" by simp
    have own: "set [i] \<subseteq> own" using assms(2) by simp
    from io_hooks.write_array_ok [OF io Cons.prems(1) p(1,2) tn p(3) fit' p(4) own, where fn = "''write''"] act [OF assms(2)] obtain s1 where
      s1: "write_array U (mqueue_hooks U M H) ''write'' tn (Some po) bs n s = Some (0, s1)" "stat_frame s s1"
        "mqok own t sz n s1" "world s1 = mq_wr M i ?dat (world s)"
      by auto
    from mq_wr_queue [OF Cons.prems(3) D(6) sl [unfolded Put op_bytes.simps] s1(4)] sb Put
    have w: "both_on desc i j q (world s1)" "lim (mw_sys (world s1)) = lim (mw_sys (world s))"
      "cont (mw_sys (world s1)) q = refuse_write (fst (lim (mw_sys (world s)) q)) bs (cont (mw_sys (world s)) q)" by simp_all
    from Cons.IH [OF s1(3) link_ok_frame [OF Cons.prems(2) s1(2)] w(1) ops] s1(1) w(2,3) Put show ?thesis by auto
  next
    case (Get val)
    let ?dat = "local_data (Some t) n val"
    from fit Get have fit': "fits t sz n ?dat" by simp
    have own: "set [j] \<subseteq> own" using assms(3) by simp
    obtain r dat' w' where cr: "mq_rd M sz j ?dat (world s) = (r, dat', w')" by (metis prod_cases3)
    from mq_rd_queue [OF Cons.prems(3) D(6) sl [unfolded Get op_bytes.simps] D(3) q(2) D(2) cr]
    have w: "both_on desc i j q w'" "lim (mw_sys w') = lim (mw_sys (world s))" "cont (mw_sys w') q = tl (cont (mw_sys (world s)) q)"
      "case cont (mw_sys (world s)) q of [] \<Rightarrow> r = 0 \<and> dat' = ?dat
       | x # _ \<Rightarrow> r = n \<and> x = sample_bytes dat' \<and> d_data dat' = Buf (sample_bytes dat')" by auto
    have "n * 1 \<le> n * sz" using D(2,3) by (intro mult_left_mono) simp_all
    then have "n < 2 ^ 31" using D(4) by linarith
    then have "c_int n = n" using D(2) by (intro c_int_small) simp_all
    then have cr': "c_int r = r" using w(4) by (auto simp: c_int_def split: list.splits)
    have ask: "ask (mq_rd M sz) (active s [j]) 0 ?dat (world s) = (r, dat', w')"
      using cr cr' by (simp add: act [OF assms(3)])
    have bs: "d_data dat' = Buf (sample_bytes dat')"
    proof (cases "cont (mw_sys (world s)) q")
      case Nil
      with w(4) have "dat' = ?dat" by simp
      then show ?thesis by (simp add: sample_bytes_def local_data_def)
    next
      case (Cons y ys)
      with w(4) show ?thesis by simp
    qed
    from io_hooks.read_array_ok [OF io Cons.prems(1) p(5,6) tn p(7) fit' D(2) p(8) own ask bs, where fn = "''read''"] obtain s1 where
      s1: "read_array U (mqueue_hooks U M H) ''read'' tn (Some pi) val n s = Some (r, sample_bytes dat', s1)" "stat_frame s s1"
        "mqok own t sz n s1" "world s1 = w'" by auto
    from Cons.IH [OF s1(3) link_ok_frame [OF Cons.prems(2) s1(2)] w(1) [folded s1(4)] ops] obtain s' where
      s': "pipe_run U (mqueue_hooks U M H) tn po pi n ops s1 =
        Some (refuse_run (fst (lim (mw_sys w') q)) n ops (cont (mw_sys w') q), s')" "mqok own t sz n s'"
      unfolding s1(4) by blast
    show ?thesis
    proof (cases "cont (mw_sys (world s)) q")
      case Nil
      with w(4) have e: "r = 0" "sample_bytes dat' = val" using sb Get by simp_all
      from s1(1) s' Get w(2,3) Nil show ?thesis by (simp add: e)
    next
      case (Cons y ys)
      with w(4) have e: "r = n" "sample_bytes dat' = y" by simp_all
      from s1(1) s' Get w(2,3) Cons show ?thesis by (simp add: e)
    qed
  qed
qed

end

section \<open>Initialisation\<close>

text \<open>The buffer of a config of the block, none if it is not set; what initialising has to take from the configs: the id, the
  lengths, the type and whether to unlink, with their default values, and whether the queue is to be non-blocking.\<close>

definition cfg_ptr :: "addr \<Rightarrow> string \<Rightarrow> 'w ubx \<Rightarrow> ptr" where
  "cfg_ptr i name s = (case ubx_config_get_data_ptr (Some i) (Some name) s of Some (len, p) \<Rightarrow> p | None \<Rightarrow> None)"

definition cfg_is :: "(ptr \<Rightarrow> 'w ubx \<Rightarrow> int option) \<Rightarrow> int \<Rightarrow> addr \<Rightarrow> string \<Rightarrow> 'w ubx \<Rightarrow> int \<Rightarrow> bool" where
  "cfg_is load dflt i name s v \<longleftrightarrow>
     (if cfg_ptr i name s = None then v = dflt else load (cfg_ptr i name s) s = Some v)"

definition mq_configured :: "ut_lib \<Rightarrow> addr \<Rightarrow> 'w ubx \<Rightarrow> string \<Rightarrow> mqueue_info \<Rightarrow> bool" where
  "mq_configured U i s mid mi \<longleftrightarrow>
     load_string (cfg_ptr i ''mq_id'' s) s = Some mid \<and>
     load_long (cfg_ptr i ''buffer_len'' s) s = Some (mi_buffer_len mi) \<and>
     cfg_is load_long 1 i ''data_len'' s (mi_data_len mi) \<and>
     (\<exists>tn. load_string (cfg_ptr i ''type_name'' s) s = Some tn \<and> ubx_type_get U s (Some tn) = mi_type mi) \<and>
     cfg_is load_u32 1 i ''unlink'' s (mi_unlink mi) \<and> mi_cnt_send_err mi = 0 \<and> mi_cnt_recv_err mi = 0"

definition mq_nonblocking :: "addr \<Rightarrow> 'w ubx \<Rightarrow> bool" where
  "mq_nonblocking i s \<longleftrightarrow> cfg_is load_u32 0 i ''blocking'' s 0"

definition same_cfgs :: "'w ubx \<Rightarrow> 'w ubx \<Rightarrow> bool" where
  "same_cfgs s s' \<longleftrightarrow> blks s' = blks s \<and> cfgs s' = cfgs s \<and> dats s' = dats s \<and> typs s' = typs s \<and> nd_types s' = nd_types s \<and>
     world s' = world s"

lemma same_cfgs_trans: "same_cfgs s1 s2 \<Longrightarrow> same_cfgs s2 s3 \<Longrightarrow> same_cfgs s1 s3"
  by (simp add: same_cfgs_def)

lemma config_find_same: "same_cfgs s s' \<Longrightarrow> config_find s' cs n = config_find s cs n"
  by (induction cs) (simp_all add: same_cfgs_def cong: if_cong)

lemma same_cfgs_eqs:
  assumes "same_cfgs s s'"
  shows "cfg_ptr i name s' = cfg_ptr i name s" "load_string p s' = load_string p s" "load_long p s' = load_long p s"
    "load_u32 p s' = load_u32 p s" "ubx_type_get U s' tn = ubx_type_get U s tn"
proof -
  have "ubx_config_get_data_ptr (Some i) (Some name) s' = ubx_config_get_data_ptr (Some i) (Some name) s"
    using assms config_find_same [OF assms]
    by (simp add: ubx_config_get_data_ptr_def ubx_config_get_data_def ubx_config_get_def same_cfgs_def cong: option.case_cong)
  then show "cfg_ptr i name s' = cfg_ptr i name s" by (simp add: cfg_ptr_def)
qed (use assms in \<open>simp_all add: same_cfgs_def load_string_def load_long_def load_u64_def load_u32_def load_bytes_def ubx_type_get_def cong: option.case_cong\<close>)

lemma same_cfgs_spec:
  assumes "same_cfgs s s'"
  shows "mq_configured U i s' mid mi = mq_configured U i s mid mi" "mq_nonblocking i s' = mq_nonblocking i s"
  by (simp_all add: mq_configured_def mq_nonblocking_def cfg_is_def same_cfgs_eqs [OF assms])

text \<open>What a successful initialisation leaves: an open queue under the name made of the type, the length and the id, which is
  new and empty, or the one that existed under this name, with its messages and limits.\<close>

definition mq_opened ::
  "('m \<Rightarrow> int \<Rightarrow> (nat \<times> bool) option) \<Rightarrow> ('m \<Rightarrow> nat \<Rightarrow> u8 list list) \<Rightarrow> ('m \<Rightarrow> nat \<Rightarrow> nat \<times> nat) \<Rightarrow> ('m \<Rightarrow> string \<Rightarrow> nat option) \<Rightarrow>
     'm \<Rightarrow> 'm \<Rightarrow> ubx_type \<Rightarrow> string \<Rightarrow> bool \<Rightarrow> mqueue_info \<Rightarrow> bool" where
  "mq_opened desc cont lim named m m' ty mid nb mi \<longleftrightarrow>
     mi_mq_name mi = take NAME_MAX (mq_full_name (ubx_type_hashstr ty) (mi_data_len mi) mid) \<and>
     (\<exists>q. desc m' = (desc m)(mi_mqd mi \<mapsto> (q, nb)) \<and> desc m (mi_mqd mi) = None \<and> named m' = (named m)(mi_mq_name mi \<mapsto> q) \<and>
        (case named m (mi_mq_name mi) of
           Some p \<Rightarrow> p = q \<and> cont m' = cont m \<and> lim m' = lim m
         | None \<Rightarrow> 0 < mi_buffer_len mi \<and> cont m' = (cont m)(q := []) \<and>
             lim m' = (lim m)(q := (nat (mi_buffer_len mi), nat (mi_data_len mi * t_size ty)))))"

definition mq_same ::
  "('m \<Rightarrow> int \<Rightarrow> (nat \<times> bool) option) \<Rightarrow> ('m \<Rightarrow> nat \<Rightarrow> u8 list list) \<Rightarrow> ('m \<Rightarrow> nat \<Rightarrow> nat \<times> nat) \<Rightarrow> ('m \<Rightarrow> string \<Rightarrow> nat option) \<Rightarrow>
     'm \<Rightarrow> 'm \<Rightarrow> bool" where
  "mq_same desc cont lim named m m' \<longleftrightarrow> desc m' = desc m \<and> cont m' = cont m \<and> lim m' = lim m \<and> named m' = named m"

lemma mq_failD: "mq_fail i e s = Some (r, s') \<Longrightarrow> r = e \<and> mw_info (world s') i = None \<and> mw_sys (world s') = mw_sys (world s)"
  by (auto simp: mq_fail_def)

lemma getptr_same: "getptr U suf tn b name s = Some (len, p, s') \<Longrightarrow> same_cfgs s s'"
  by (auto simp: getptr_def set_static_def same_cfgs_def)

lemma cfg_type_check_neg: "cfg_type_check U tn k b name s = Some (Inl r, k') \<Longrightarrow> r < 0"
proof -
  assume a: "cfg_type_check U tn k b name s = Some (Inl r, k')"
  then obtain c ba blk where c: "ubx_config_get b name s = Some c" "b = Some ba" "blks s ba = Some blk"
    by (auto simp: cfg_type_check_def bind_Some_iff)
  show "r < 0"
  proof (cases c)
    case None
    with a c show ?thesis by (auto simp: cfg_type_check_def bind_Some_iff EINVALID_CONFIG_def)
  next
    case (Some x)
    with a c obtain cfg where cfg: "cfgs s x = Some cfg" "c_type cfg \<noteq> k" "b_nd blk"
      by (auto simp: cfg_type_check_def bind_Some_iff split: if_splits)
    from a c Some cfg show ?thesis
      by (cases "ubx_type_get U s (Some tn)")
        (auto simp: cfg_type_check_def bind_Some_iff EINVALID_TYPE_def ETYPE_MISMATCH_def split: if_splits)
  qed
qed

lemma getptr_cfg_ptr:
  assumes "getptr U suf tn b name s = Some (len, p, s')" "0 \<le> len"
  shows "p = cfg_ptr b name s \<and> (p \<noteq> None \<longleftrightarrow> 0 < len)"
proof -
  from assms(1) obtain k where k: "cfg_getptr U tn (static_type s (''cfg_getptr_'' @ suf)) (Some b) (Some name) s = Some (len, p, k)"
    by (auto simp: getptr_def bind_Some_iff)
  then obtain x where x: "cfg_type_check U tn (static_type s (''cfg_getptr_'' @ suf)) (Some b) (Some name) s = Some x"
    by (auto simp: cfg_getptr_def bind_Some_iff)
  obtain y k2 where xy: "x = (y, k2)" by (cases x)
  have d: "ubx_config_get_data_ptr (Some b) (Some name) s = Some (len, p)"
  proof (cases y)
    case (Inl e)
    with k x xy assms(2) cfg_type_check_neg [OF x [unfolded xy Inl]] show ?thesis by (simp add: cfg_getptr_def)
  next
    case (Inr a)
    with k x xy show ?thesis by (auto simp: cfg_getptr_def bind_Some_iff)
  qed
  then have "p \<noteq> None \<longleftrightarrow> 0 < len"
    by (auto simp: ubx_config_get_data_ptr_def bind_Some_iff EINVALID_CONFIG_def split: option.splits if_splits)
  with d show ?thesis by (simp add: cfg_ptr_def)
qed

lemma cfg_or_is:
  assumes "getptr U suf tn b name s = Some (len, p, s1)" "cfg_or load dflt (len, p, s1) = Some (v, s2)" "load p s1 = load p s"
  shows "s2 = s1 \<and> cfg_is load dflt b name s v"
  using getptr_cfg_ptr [OF assms(1)] assms(2,3) by (auto simp: cfg_or_def cfg_is_def split: if_splits)

lemma mq_full_name_length: "0 < length (mq_full_name h n mid)"
  by (simp add: mq_full_name_def)

context mq_laws
begin

abbreviation opened where "opened \<equiv> mq_opened desc cont lim named"
abbreviation same_queues where "same_queues \<equiv> mq_same desc cont lim named"

text \<open>The result of the hook from here on.\<close>

definition init_res :: "ut_lib \<Rightarrow> addr \<Rightarrow> 'm mq_world ubx \<Rightarrow> int \<Rightarrow> 'm mq_world ubx \<Rightarrow> bool" where
  "init_res U i s r s' \<longleftrightarrow>
     (if r = 0 then \<exists>mi t ty mid. mw_info (world s') i = Some mi \<and> mi_type mi = Some t \<and> typs s t = Some ty \<and>
        mq_configured U i s mid mi \<and> opened (mw_sys (world s)) (mw_sys (world s')) ty mid (mq_nonblocking i s) mi
      else mw_info (world s') i = None \<and> same_queues (mw_sys (world s)) (mw_sys (world s')))"

lemma init_res_fail: "mq_fail i e s1 = Some (r, s') \<Longrightarrow> e \<noteq> 0 \<Longrightarrow> same_cfgs s s1 \<Longrightarrow> init_res U i s r s'"
  using mq_failD [of i e s1 r s'] by (simp add: init_res_def mq_same_def same_cfgs_def)

lemma init_res_world: "init_res U i s1 r s' \<Longrightarrow> same_cfgs s s1 \<Longrightarrow> init_res U i s r s'"
  by (simp only: init_res_def same_cfgs_spec) (simp only: same_cfgs_def)

lemma mqueue_open_res:
  assumes "mqueue_open U M i (mq_full_name (ubx_type_hashstr ty) (mi_data_len mi) mid) mi msgsize s = Some (r, s')"
    "mi_type mi = Some t" "typs s t = Some ty" "mok (mw_sys (world s))"
    "msgsize = mi_data_len mi * t_size ty" "mq_configured U i s mid mi"
  shows "init_res U i s r s'"
proof -
  let ?nm = "mq_full_name (ubx_type_hashstr ty) (mi_data_len mi) mid"
  define mj where "mj = mi\<lparr>mi_mq_name := snprintf (NAME_MAX + 1) ?nm\<rparr>"
  then have mj: "mi_buffer_len mj = mi_buffer_len mi" "mi_data_len mj = mi_data_len mi" "mi_type mj = mi_type mi"
    "mi_mq_name mj = take NAME_MAX ?nm" by (simp_all add: snprintf_def)
  from assms(6) mj_def have cf: "mq_configured U i s mid (mj\<lparr>mi_mqd := d\<rparr>)" for d by (simp add: mq_configured_def)
  from assms(1) obtain len p s1 where g: "getptr U ''uint32'' ''uint32_t'' i ''blocking'' s = Some (len, p, s1)"
    by (cases "getptr U ''uint32'' ''uint32_t'' i ''blocking'' s") (auto simp: mqueue_open_def Let_def)
  note sm = getptr_same [OF g]
  note w = sm [unfolded same_cfgs_def]
  have pos: "int (length ?nm) \<noteq> 0" using mq_full_name_length by simp
  show ?thesis
  proof (cases "len < 0")
    case True
    with assms(1) g have "mq_fail i (int (length ?nm)) s1 = Some (r, s')" by (simp add: mqueue_open_def)
    from init_res_fail [OF this pos sm] show ?thesis .
  next
    case False
    with assms(1) g obtain v :: int where v: "(if len > 0 then load_u32 p s1 else Some 0) = Some v"
      "mq_do_open M i (int (length ?nm)) mj (v = 0) msgsize s1 = Some (r, s')"
      by (auto simp: mqueue_open_def Let_def mj_def bind_Some_iff)
    have "cfg_is load_u32 0 i ''blocking'' s v"
      using cfg_or_is [OF g, of load_u32 0 v s1] v(1) False same_cfgs_eqs(4) [OF sm] by (auto simp: cfg_or_def split: if_splits)
    then have nb: "mq_nonblocking i s \<longleftrightarrow> v = 0" by (auto simp: mq_nonblocking_def cfg_is_def split: if_splits)
    obtain x m where x: "mq_open M (mi_mq_name mj) (v = 0) (mi_buffer_len mj) msgsize (mw_sys (world s1)) = (x, m)"
      by (cases "mq_open M (mi_mq_name mj) (v = 0) (mi_buffer_len mj) msgsize (mw_sys (world s1))")
    have ok: "mok (mw_sys (world s1))" using assms(4) w by simp
    note L = open_law [OF ok x]
    show ?thesis
    proof (cases x)
      case (Inl e)
      with v x have f: "mq_fail i (int (length ?nm)) (s1\<lparr>world := sys_ret (x, m) (world s1)\<rparr>) = Some (r, s')"
        by (simp add: mq_do_open_def)
      from mq_failD [OF f] pos L Inl w show ?thesis by (simp add: init_res_def mq_same_def)
    next
      case (Inr d)
      with L have d: "\<not> d < 0" by simp
      with v x Inr have e: "r = 0" "s' = set_mi i (Some (mj\<lparr>mi_mqd := d\<rparr>)) (s1\<lparr>world := sys_ret (x, m) (world s1)\<rparr>)"
        by (simp_all add: mq_do_open_def)
      from L Inr have "opened (mw_sys (world s)) m ty mid (mq_nonblocking i s) (mj\<lparr>mi_mqd := d\<rparr>)"
        using w mj(4) by (auto simp: mq_opened_def mj(1,2) assms(5) nb split: option.splits)
      with cf assms(2,3) w mj(3) show ?thesis by (simp add: init_res_def e) blast
    qed
  qed
qed

lemma mqueue_name_res:
  assumes "mqueue_name U M i (cfg_ptr i ''mq_id'' s) buffer_len data_len s = Some (r, s')" "mok (mw_sys (world s))"
    "load_long (cfg_ptr i ''buffer_len'' s) s = Some buffer_len" "cfg_is load_long 1 i ''data_len'' s data_len"
  shows "init_res U i s r s'"
proof -
  have e: "EINVALID_CONFIG \<noteq> 0" by (simp add: EINVALID_CONFIG_def)
  from assms(1) obtain len p s1 where g: "getptr U ''char'' ''char'' i ''type_name'' s = Some (len, p, s1)"
    by (cases "getptr U ''char'' ''char'' i ''type_name'' s") (auto simp: mqueue_name_def)
  note sm = getptr_same [OF g]
  show ?thesis
  proof (cases "len < 0")
    case True
    with assms(1) g have "mq_fail i (-1) s1 = Some (r, s')" by (simp add: mqueue_name_def)
    then show ?thesis by (rule init_res_fail) (simp_all add: sm)
  next
    case False
    with assms(1) g obtain tn blk where tn: "load_string p s1 = Some tn" "blks s1 i = Some blk" "b_nd blk"
      by (auto simp: mqueue_name_def split: if_splits)
    show ?thesis
    proof (cases "ubx_type_get U s1 (Some tn)")
      case None
      with assms(1) g False tn have "mq_fail i EINVALID_CONFIG s1 = Some (r, s')" by (simp add: mqueue_name_def)
      then show ?thesis by (rule init_res_fail) (simp_all add: sm e)
    next
      case (Some t)
      with assms(1) g False tn obtain ty x unl s2 where
        x: "typs s1 t = Some ty" "getptr U ''uint32'' ''uint32_t'' i ''unlink'' s1 = Some x" "cfg_or load_u32 1 x = Some (unl, s2)"
        by (auto simp: mqueue_name_def)
      obtain l2 p2 s3 where xs: "x = (l2, p2, s3)" by (cases x)
      note g2 = x(2) [unfolded xs]
      note sm3 = getptr_same [OF g2]
      from cfg_or_is [OF g2 x(3) [unfolded xs] same_cfgs_eqs(4) [OF sm3]]
      have s2: "s2 = s3" and unl: "cfg_is load_u32 1 i ''unlink'' s1 unl" by simp_all
      with sm3 have sm2: "same_cfgs s1 s2" by simp
      note smm = same_cfgs_trans [OF sm sm2]
      let ?sz = "data_len * t_size ty"
      from assms(1) g False tn Some x have lc: "in_long ?sz" by (auto simp: mqueue_name_def bind_Some_iff)
      show ?thesis
      proof (cases "?sz \<le> 0")
        case True
        with assms(1) g False tn Some x lc have "mq_fail i (-1) s2 = Some (r, s')" by (simp add: mqueue_name_def long_chk_in_long)
        then show ?thesis by (rule init_res_fail) (simp_all add: smm)
      next
        case ok: False
        define mi where "mi = \<lparr>mi_mqd = 0, mi_mq_name = [], mi_type = Some t, mi_data_len = data_len, mi_buffer_len = buffer_len,
                  mi_unlink = unl, mi_cnt_send_err = 0, mi_cnt_recv_err = 0\<rparr>"
        from ok assms(1) g False tn Some x lc obtain mid where mid: "load_string (cfg_ptr i ''mq_id'' s) s2 = Some mid"
          "mqueue_open U M i (mq_full_name (ubx_type_hashstr ty) (mi_data_len mi) mid) mi ?sz s2 = Some (r, s')"
          by (auto simp: mqueue_name_def mi_def long_chk_in_long)
        have "p = cfg_ptr i ''type_name'' s" using getptr_cfg_ptr [OF g] False by simp
        with tn(1) Some unl assms(3,4) mid(1) have "mq_configured U i s mid mi"
          by (auto simp: mq_configured_def mi_def cfg_is_def same_cfgs_eqs [OF sm] same_cfgs_eqs [OF smm] split: if_splits)
        with same_cfgs_spec(1) [OF smm] have cf: "mq_configured U i s2 mid mi" by simp
        have "mi_type mi = Some t" "typs s2 t = Some ty" "mok (mw_sys (world s2))" "?sz = mi_data_len mi * t_size ty"
          using x(1) smm sm2 assms(2) by (simp_all add: mi_def same_cfgs_def)
        from mqueue_open_res [OF mid(2) this cf] have "init_res U i s2 r s'" .
        then show ?thesis by (rule init_res_world) (rule smm)
      qed
    qed
  qed
qed

text \<open>The rest of the hook after the id was looked up.\<close>

lemma mqueue_lens_res:
  assumes "(do {
       (len, p, s) \<leftarrow> getptr U ''long'' ''long'' i ''data_len'' s;
       if len < 0 then mq_fail i (-1) s
       else do {
         data_len \<leftarrow> (if len > 0 then load_long p s else Some 1);
         mqueue_name U M i mq_id bl data_len s } }) = Some (r, s')"
    "mok (mw_sys (world s))" "mq_id = cfg_ptr i ''mq_id'' s" "load_long (cfg_ptr i ''buffer_len'' s) s = Some bl"
  shows "init_res U i s r s'"
proof -
  from assms(1) obtain l p s3 where g: "getptr U ''long'' ''long'' i ''data_len'' s = Some (l, p, s3)"
    by (auto simp: bind_Some_iff)
  note sm = getptr_same [OF g]
  show ?thesis
  proof (cases "l < 0")
    case True
    with assms(1) g show ?thesis by (intro init_res_fail [of i "-1" s3]) (simp_all add: sm)
  next
    case False
    with assms(1) g obtain dl where dl: "(if l > 0 then load_long p s3 else Some 1) = Some dl" "mqueue_name U M i mq_id bl dl s3 = Some (r, s')"
      by (auto simp: bind_Some_iff)
    have "cfg_is load_long 1 i ''data_len'' s dl"
      using cfg_or_is [OF g, of load_long 1 dl s3] dl(1) False same_cfgs_eqs(3) [OF sm] by (auto simp: cfg_or_def split: if_splits)
    then have "cfg_is load_long 1 i ''data_len'' s3 dl" by (simp add: cfg_is_def same_cfgs_eqs [OF sm])
    moreover have "mok (mw_sys (world s3))" using assms(2) sm by (simp add: same_cfgs_def)
    ultimately have "init_res U i s3 r s'"
      using mqueue_name_res [of U i s3 bl dl r s'] dl(2) assms(3,4) by (simp add: same_cfgs_eqs [OF sm])
    then show ?thesis by (rule init_res_world) (rule sm)
  qed
qed

lemma mqueue_init_res:
  assumes "mqueue_init U M i s = Some (r, s')" "mok (mw_sys (world s))"
  shows "init_res U i s r s'"
proof -
  have e: "EINVALID_CONFIG \<noteq> 0" "EOUTOFMEM \<noteq> 0" by (simp_all add: EINVALID_CONFIG_def EOUTOFMEM_def)
  obtain ok s0 where m: "mem_alloc s = (ok, s0)" by (cases "mem_alloc s")
  then have sm0: "same_cfgs s s0" by (auto simp: mem_alloc_def same_cfgs_def split: list.splits)
  show ?thesis
  proof (cases ok)
    case False
    with assms(1) m e sm0 show ?thesis by (auto simp: mqueue_init_def init_res_def mq_same_def same_cfgs_def)
  next
    case True
    with assms(1) m obtain l1 mq_id s1 where g1: "getptr U ''char'' ''char'' i ''mq_id'' s0 = Some (l1, mq_id, s1)"
      by (auto simp: mqueue_init_def bind_Some_iff)
    note sm1 = same_cfgs_trans [OF sm0 getptr_same [OF g1]]
    show ?thesis
    proof (cases "l1 < 0")
      case True
      with assms(1) m \<open>ok\<close> g1 show ?thesis by (intro init_res_fail [of i "-1" s1]) (auto simp: mqueue_init_def sm1)
    next
      case l1: False
      with assms(1) m \<open>ok\<close> g1 obtain l2 p2 s2 where g2: "getptr U ''long'' ''long'' i ''buffer_len'' s1 = Some (l2, p2, s2)"
        by (auto simp: mqueue_init_def bind_Some_iff)
      note sm2 = same_cfgs_trans [OF sm1 getptr_same [OF g2]]
      show ?thesis
      proof (cases "l2 < 0")
        case True
        with assms(1) m \<open>ok\<close> g1 g2 l1 show ?thesis by (intro init_res_fail [of i "-1" s2]) (auto simp: mqueue_init_def sm2)
      next
        case l2: False
        with assms(1) m \<open>ok\<close> g1 g2 l1 obtain bl where bl: "load_long p2 s2 = Some bl" by (auto simp: mqueue_init_def bind_Some_iff)
        show ?thesis
        proof (cases "bl = 0")
          case True
          with assms(1) m \<open>ok\<close> g1 g2 l1 l2 bl show ?thesis
            by (intro init_res_fail [of i EINVALID_CONFIG s2]) (auto simp: mqueue_init_def sm2 e)
        next
          case nz: False
          have p: "mq_id = cfg_ptr i ''mq_id'' s2" "p2 = cfg_ptr i ''buffer_len'' s2"
            using getptr_cfg_ptr [OF g1] getptr_cfg_ptr [OF g2] l1 l2
            by (simp_all add: same_cfgs_eqs [OF sm0] same_cfgs_eqs [OF sm1] same_cfgs_eqs [OF sm2])
          have "init_res U i s2 r s'"
          proof (rule mqueue_lens_res)
            show "mok (mw_sys (world s2))" using assms(2) sm2 by (simp add: same_cfgs_def)
            show "load_long (cfg_ptr i ''buffer_len'' s2) s2 = Some bl" using bl p(2) by simp
          qed (use assms(1) m \<open>ok\<close> g1 g2 l1 l2 bl nz p(1) in \<open>simp_all add: mqueue_init_def\<close>)
          then show ?thesis by (rule init_res_world) (rule sm2)
        qed
      qed
    qed
  qed
qed

end

section \<open>A node with two message queue blocks\<close>

text \<open>The iblocks 5 and 8 have the queue 0 open, which holds one integer; writer 4 is connected to 5, reader 6 to 8.\<close>

definition mq_info1 :: "int \<Rightarrow> mqueue_info" where
  "mq_info1 d = \<lparr>mi_mqd = d, mi_mq_name = ''/q'', mi_type = Some 1, mi_data_len = 1, mi_buffer_len = 1, mi_unlink = 1,
     mi_cnt_send_err = 0, mi_cnt_recv_err = 0\<rparr>"

definition mq_sys1 :: mqs where
  "mq_sys1 = \<lparr>qs_desc = [0 \<mapsto> (0, True), 1 \<mapsto> (0, True)], qs_named = [''/q'' \<mapsto> 0], qs_cont = (\<lambda>_. []), qs_lim = (\<lambda>_. (1, 4)),
     qs_nextq = 1, qs_nextd = 2\<rparr>"

definition mq_node :: "mqs mq_world ubx" where
  "mq_node = \<lparr>nd_name = ''n'', nd_blocks = [], nd_types = [(''int'', 1)], nd_modules = [], nd_cur_seqid = 0,
     nd_attrs = 0, nd_loglevel = 6,
     blks = [4 \<mapsto> pipe_blk ''w'' [10] (Ops_comp None 0), 5 \<mapsto> pipe_blk ''o'' [] (Ops_inter (Some 1) (Some 2) 0 0),
       6 \<mapsto> pipe_blk ''r'' [11] (Ops_comp None 0), 8 \<mapsto> pipe_blk ''i'' [] (Ops_inter (Some 1) (Some 2) 0 0)],
     prts = [10 \<mapsto> wire 4 None (Some 1) None (Some [5]), 11 \<mapsto> wire 6 (Some 1) None (Some [8]) None],
     cfgs = Map.empty, typs = [1 \<mapsto> mk_type ''int'' 4], dats = Map.empty, mods = Map.empty,
     static_type = (\<lambda>_. None), next_addr = 100, oom = [],
     world = \<lparr>mw_info = [5 \<mapsto> mq_info1 0, 8 \<mapsto> mq_info1 1], mw_sys = mq_sys1, mw_errno = 0\<rparr>\<rparr>"

lemma mq_node_simps:
  "blks mq_node 5 = Some (pipe_blk ''o'' [] (Ops_inter (Some 1) (Some 2) 0 0))"
  "blks mq_node 8 = Some (pipe_blk ''i'' [] (Ops_inter (Some 1) (Some 2) 0 0))"
  "typs mq_node 1 = Some (mk_type ''int'' 4)" "typs mq_node (Suc 0) = Some (mk_type ''int'' 4)" "mw_info (world mq_node) 5 = Some (mq_info1 0)"
  "mw_info (world mq_node) 8 = Some (mq_info1 1)" "mw_sys (world mq_node) = mq_sys1"
  by (simp_all add: mq_node_def)

lemma mq_node_ok: "mq_ok mqs_ok qs_desc qs_cont qs_lim {5, 8} 1 4 1 mq_node"
proof -
  have "node_ok mq_node"
    by (auto simp: node_ok_def mq_node_def fresh_from_def pipe_node_blk wire_def split: if_splits)
  moreover have "mqs_ok mq_sys1" by (auto simp: mqs_ok_def mq_sys1_def split: if_splits)
  moreover have "mq_info_ok qs_desc qs_cont qs_lim 1 4 mq_sys1 (mq_info1 0)" "mq_info_ok qs_desc qs_cont qs_lim 1 4 mq_sys1 (mq_info1 1)"
    by (simp_all add: mq_info_ok_def mq_sys1_def mq_info1_def)
  ultimately show ?thesis
    by (simp add: mq_ok_def mq_node_simps mk_type_def read_fun_def write_fun_def pipe_node_blk)
qed

lemma mq_node_link: "link_ok ut_ref ''int'' 1 1 10 11 5 8 mq_node"
  by (simp add: link_ok_def mq_node_def wire_def)

lemma mq_node_both: "both_on qs_desc 5 8 0 (world mq_node)"
  by (simp add: both_on_def mq_node_simps mq_info1_def mq_sys1_def)

text \<open>A node whose block 5 is to be initialised.\<close>

definition mq_cfg :: "string \<Rightarrow> addr \<Rightarrow> addr \<Rightarrow> ubx_config" where
  "mq_cfg n t v = \<lparr>c_name = n, c_doc = None, c_attrs = 0, c_block = 5, c_type = Some t, c_value = Some v, c_min = 0, c_max = 1\<rparr>"

definition mq_init_blk :: ubx_block where
  "mq_init_blk = (pipe_blk ''o'' [] (Ops_inter (Some 1) (Some 2) 0 0))\<lparr>b_configs := [30, 31, 32, 33, 34, 35]\<rparr>"

definition mq_init_node :: "mqs mq_world ubx" where
  "mq_init_node = mq_node\<lparr>nd_types := [(''int'', 1), (''uint32_t'', 2), (''char'', 3), (''long'', 4)],
     blks := [5 \<mapsto> mq_init_blk],
     cfgs := [30 \<mapsto> mq_cfg ''mq_id'' 3 40, 31 \<mapsto> mq_cfg ''type_name'' 3 41, 32 \<mapsto> mq_cfg ''data_len'' 4 42,
       33 \<mapsto> mq_cfg ''buffer_len'' 4 43, 34 \<mapsto> mq_cfg ''blocking'' 2 44, 35 \<mapsto> mq_cfg ''unlink'' 2 44],
     dats := [40 \<mapsto> local_data (Some 3) 2 [97, 0], 41 \<mapsto> local_data (Some 3) 4 [105, 110, 116, 0],
       42 \<mapsto> (local_data (Some 4) 0 [])\<lparr>d_data := Buf_null\<rparr>, 43 \<mapsto> local_data (Some 4) 1 [3, 0, 0, 0, 0, 0, 0, 0],
       44 \<mapsto> (local_data (Some 2) 0 [])\<lparr>d_data := Buf_null\<rparr>],
     world := \<lparr>mw_info = Map.empty, mw_sys = mq_sys1, mw_errno = 0\<rparr>\<rparr>"

lemma mq_init_blk: "b_nd mq_init_blk" "b_configs mq_init_blk = [30, 31, 32, 33, 34, 35]" "b_loglevel mq_init_blk = None"
  by (simp_all add: mq_init_blk_def pipe_blk_def inst_blk_def hooked_blk_def mk_blk_def)

definition in_mq_init :: "mqs mq_world ubx \<Rightarrow> bool" where
  "in_mq_init s \<longleftrightarrow> blks s 5 = Some mq_init_blk \<and> nd_types s = nd_types mq_init_node \<and> cfgs s = cfgs mq_init_node \<and>
     dats s = dats mq_init_node \<and> typs s = typs mq_init_node"

lemma in_mq_init_static [simp]: "in_mq_init (set_static fn t s) = in_mq_init s"
  by (simp add: in_mq_init_def set_static_def)

lemma mq_init_objs:
  "cfgs mq_init_node 30 = Some (mq_cfg ''mq_id'' 3 40)" "cfgs mq_init_node 31 = Some (mq_cfg ''type_name'' 3 41)"
  "cfgs mq_init_node 32 = Some (mq_cfg ''data_len'' 4 42)" "cfgs mq_init_node 33 = Some (mq_cfg ''buffer_len'' 4 43)"
  "cfgs mq_init_node 34 = Some (mq_cfg ''blocking'' 2 44)" "cfgs mq_init_node 35 = Some (mq_cfg ''unlink'' 2 44)"
  "dats mq_init_node 40 = Some (local_data (Some 3) 2 [97, 0])" "dats mq_init_node 41 = Some (local_data (Some 3) 4 [105, 110, 116, 0])"
  "dats mq_init_node 42 = Some ((local_data (Some 4) 0 [])\<lparr>d_data := Buf_null\<rparr>)"
  "dats mq_init_node 43 = Some (local_data (Some 4) 1 [3, 0, 0, 0, 0, 0, 0, 0])"
  "dats mq_init_node 44 = Some ((local_data (Some 2) 0 [])\<lparr>d_data := Buf_null\<rparr>)"
  "nd_types mq_init_node = [(''int'', 1), (''uint32_t'', 2), (''char'', 3), (''long'', 4)]"
  "typs mq_init_node 1 = Some (mk_type ''int'' 4)" "typs mq_init_node (Suc 0) = Some (mk_type ''int'' 4)"
  by (simp_all add: mq_init_node_def mq_node_simps)

lemma mq_init_find:
  assumes "in_mq_init s"
  shows "config_find s [30, 31, 32, 33, 34, 35] ''mq_id'' = Some (Some 30)"
    "config_find s [30, 31, 32, 33, 34, 35] ''type_name'' = Some (Some 31)"
    "config_find s [30, 31, 32, 33, 34, 35] ''data_len'' = Some (Some 32)"
    "config_find s [30, 31, 32, 33, 34, 35] ''buffer_len'' = Some (Some 33)"
    "config_find s [30, 31, 32, 33, 34, 35] ''blocking'' = Some (Some 34)"
    "config_find s [30, 31, 32, 33, 34, 35] ''unlink'' = Some (Some 35)"
  using assms by (simp_all add: in_mq_init_def mq_init_objs mq_cfg_def strncmp_eq_def UBX_CONFIG_NAME_MAXLEN_def)

lemma mq_init_getptr:
  assumes "in_mq_init s"
  shows "getptr ut_ref ''char'' ''char'' 5 ''mq_id'' s = Some (2, Some 40, set_static ''cfg_getptr_char'' (Some 3) s)"
    "getptr ut_ref ''char'' ''char'' 5 ''type_name'' s = Some (4, Some 41, set_static ''cfg_getptr_char'' (Some 3) s)"
    "getptr ut_ref ''long'' ''long'' 5 ''data_len'' s = Some (0, None, set_static ''cfg_getptr_long'' (Some 4) s)"
    "getptr ut_ref ''long'' ''long'' 5 ''buffer_len'' s = Some (1, Some 43, set_static ''cfg_getptr_long'' (Some 4) s)"
    "getptr ut_ref ''uint32'' ''uint32_t'' 5 ''blocking'' s = Some (0, None, set_static ''cfg_getptr_uint32'' (Some 2) s)"
    "getptr ut_ref ''uint32'' ''uint32_t'' 5 ''unlink'' s = Some (0, None, set_static ''cfg_getptr_uint32'' (Some 2) s)"
proof -
  note s = assms [unfolded in_mq_init_def]
  note e = getptr_eval [where s = s and b = 5 and blk = mq_init_blk and U = ut_ref]
  note simps = mq_init_objs mq_init_blk mq_cfg_def local_data_def mq_init_find [OF assms]
  show "getptr ut_ref ''char'' ''char'' 5 ''mq_id'' s = Some (2, Some 40, set_static ''cfg_getptr_char'' (Some 3) s)"
    using e [where c = 30 and tn = "''char''" and t = 3] s by (simp add: simps del: config_find.simps)
  show "getptr ut_ref ''char'' ''char'' 5 ''type_name'' s = Some (4, Some 41, set_static ''cfg_getptr_char'' (Some 3) s)"
    using e [where c = 31 and tn = "''char''" and t = 3] s by (simp add: simps del: config_find.simps)
  show "getptr ut_ref ''long'' ''long'' 5 ''data_len'' s = Some (0, None, set_static ''cfg_getptr_long'' (Some 4) s)"
    using e [where c = 32 and tn = "''long''" and t = 4] s by (simp add: simps del: config_find.simps)
  show "getptr ut_ref ''long'' ''long'' 5 ''buffer_len'' s = Some (1, Some 43, set_static ''cfg_getptr_long'' (Some 4) s)"
    using e [where c = 33 and tn = "''long''" and t = 4] s by (simp add: simps del: config_find.simps)
  show "getptr ut_ref ''uint32'' ''uint32_t'' 5 ''blocking'' s = Some (0, None, set_static ''cfg_getptr_uint32'' (Some 2) s)"
    using e [where c = 34 and tn = "''uint32_t''" and t = 2] s by (simp add: simps del: config_find.simps)
  show "getptr ut_ref ''uint32'' ''uint32_t'' 5 ''unlink'' s = Some (0, None, set_static ''cfg_getptr_uint32'' (Some 2) s)"
    using e [where c = 35 and tn = "''uint32_t''" and t = 2] s by (simp add: simps del: config_find.simps)
qed

lemma mq_init_loads:
  assumes "in_mq_init s"
  shows "load_long (Some 43) s = Some 3" "load_string (Some 41) s = Some ''int''" "load_string (Some 40) s = Some ''a''"
proof -
  have ch: "char_of (105 :: nat) = CHR ''i''" "char_of (110 :: nat) = CHR ''n''" "char_of (116 :: nat) = CHR ''t''"
    "char_of (97 :: nat) = CHR ''a''" by code_simp+
  show "load_long (Some 43) s = Some 3" "load_string (Some 41) s = Some ''int''" "load_string (Some 40) s = Some ''a''"
    using assms by (simp_all add: in_mq_init_def load_long_def load_u64_def load_bytes_def load_string_def mq_init_objs local_data_def le_word_def ch)
qed

lemma mq_init_node_init: "\<exists>s'. mqueue_init ut_ref mq_ref 5 mq_init_node = Some (0, s')"
proof -
  have m: "mem_alloc mq_init_node = (True, mq_init_node)" by (simp add: mem_alloc_def mq_init_node_def mq_node_def)
  have ini: "in_mq_init mq_init_node" "blks mq_init_node 5 = Some mq_init_blk"
    by (simp_all add: in_mq_init_def) (simp_all add: mq_init_node_def)
  note l = mq_init_loads
  have ty: "typs s 1 = Some (mk_type ''int'' 4)" "ubx_type_get ut_ref s (Some ''int'') = Some 1" "blks s 5 = Some mq_init_blk"
    if "in_mq_init s" for s
    using that by (simp_all add: in_mq_init_def ubx_type_get_def mq_init_objs)
  have op: "\<exists>s'. mq_do_open mq_ref 5 k mi nb 4 s = Some (0, s')" if "mi_buffer_len mi = 3" "mqs_ok (mw_sys (world s))" for k mi nb s
  proof -
    obtain x m where x: "ref_open (mi_mq_name mi) nb 3 4 (mw_sys (world s)) = (x, m)"
      by (cases "ref_open (mi_mq_name mi) nb 3 4 (mw_sys (world s))")
    then have "\<exists>d. x = Inr d \<and> 0 \<le> d" using that(2) by (auto simp: ref_open_def Let_def mqs_ok_def split: option.splits)
    with x that(1) show ?thesis by (auto simp: mq_do_open_def Let_def mq_ref_def)
  qed
  have sys: "mw_sys (world (set_static fn t s)) = mw_sys (world s)" for fn t and s :: "mqs mq_world ubx" by (simp add: set_static_def)
  have ok: "mqs_ok (mw_sys (world mq_init_node))"
    by (auto simp: mq_init_node_def mqs_ok_def mq_sys1_def split: if_splits)
  have open1: "\<exists>s'. mqueue_open ut_ref mq_ref 5 nm mi 4 s = Some (0, s')" if "in_mq_init s" "mi_buffer_len mi = 3" "mqs_ok (mw_sys (world s))" for nm mi s
    using that ty [of "set_static ''cfg_getptr_uint32'' (Some 2) s"] op [of "mi\<lparr>mi_mq_name := snprintf (NAME_MAX + 1) nm\<rparr>" "set_static ''cfg_getptr_uint32'' (Some 2) s"]
    by (simp add: mqueue_open_def Let_def mq_init_getptr(5) [OF that(1)] ubx_block_log_def mq_init_blk sys)
  have name: "\<exists>s'. mqueue_name ut_ref mq_ref 5 (Some 40) 3 1 s = Some (0, s')" if "in_mq_init s" "mqs_ok (mw_sys (world s))" for s
  proof -
    let ?s1 = "set_static ''cfg_getptr_char'' (Some 3) s" and ?s2 = "set_static ''cfg_getptr_uint32'' (Some 2) (set_static ''cfg_getptr_char'' (Some 3) s)"
    have i: "in_mq_init ?s1" "in_mq_init ?s2" using that(1) by simp_all
    show ?thesis
      using open1 [OF i(2)] that(2) ty [OF i(1)]
      by (simp add: mqueue_name_def mq_init_getptr(2) [OF that(1)] mq_init_getptr(6) [OF i(1)] l(2) [OF i(1)] l(3) [OF i(2)] mq_init_blk
          cfg_or_def mk_type_def sys long_chk_def in_long_def LONG_MAX_def)
  qed
  show ?thesis
    using m ini ok by (simp add: mqueue_init_def mq_init_getptr(1,3,4) l name sys)
qed

text \<open>The values of its configs.\<close>

lemma mq_init_values:
  "mq_configured ut_ref 5 mq_init_node mid mi \<longleftrightarrow> mid = ''a'' \<and> mi_buffer_len mi = 3 \<and> mi_data_len mi = 1 \<and> mi_type mi = Some 1 \<and>
     mi_unlink mi = 1 \<and> mi_cnt_send_err mi = 0 \<and> mi_cnt_recv_err mi = 0"
  "mq_nonblocking 5 mq_init_node"
proof -
  have ini: "in_mq_init mq_init_node" by (simp add: in_mq_init_def) (simp add: mq_init_node_def)
  note g = mq_init_getptr [OF ini, THEN getptr_cfg_ptr]
  have p: "cfg_ptr 5 ''mq_id'' mq_init_node = Some 40" "cfg_ptr 5 ''type_name'' mq_init_node = Some 41"
    "cfg_ptr 5 ''data_len'' mq_init_node = None" "cfg_ptr 5 ''buffer_len'' mq_init_node = Some 43"
    "cfg_ptr 5 ''blocking'' mq_init_node = None" "cfg_ptr 5 ''unlink'' mq_init_node = None"
    using g by simp_all
  have l: "load_long (Some 43) mq_init_node = Some 3" "load_string (Some 41) mq_init_node = Some ''int''"
    "load_string (Some 40) mq_init_node = Some ''a''" by (rule mq_init_loads [OF ini])+
  have t: "ubx_type_get ut_ref mq_init_node (Some ''int'') = Some 1" by (simp add: ubx_type_get_def mq_init_objs)
  show "mq_configured ut_ref 5 mq_init_node mid mi \<longleftrightarrow> mid = ''a'' \<and> mi_buffer_len mi = 3 \<and> mi_data_len mi = 1 \<and> mi_type mi = Some 1 \<and>
     mi_unlink mi = 1 \<and> mi_cnt_send_err mi = 0 \<and> mi_cnt_recv_err mi = 0"
    by (auto simp: mq_configured_def cfg_is_def p l t)
  show "mq_nonblocking 5 mq_init_node" by (simp add: mq_nonblocking_def cfg_is_def p)
qed

section \<open>Properties\<close>

text \<open>C14: two blocks with the same message queue open, non-blocking, are a first-in first-out pipe between the ports connected
  to them: for every sequence of writes to the out-port and reads from the in-port all calls are defined, all writes report success,
  and the reads return exactly what a bounded queue returns that refuses new samples when it is full, starting with the messages the
  queue holds.\<close>

theorem mqueue_pipe:
  assumes "mq_laws M mok desc cont lim named" "mq_ok mok desc cont lim own t sz n s" "i \<in> own" "j \<in> own"
    "link_ok U tn t n po pi i j s" "both_on desc i j q (world s)" "\<forall>x \<in> set ops. length (op_bytes x) = nat (n * sz)"
  shows "\<exists>s'. pipe_run U (mqueue_hooks U M H) tn po pi n ops s =
    Some (refuse_run (fst (lim (mw_sys (world s)) q)) n ops (cont (mw_sys (world s)) q), s')"
  using mq_laws.mq_pipe_ok [OF assms, of H] by blast

theorem mqueue_pipe_witness:
  "\<exists>s'. pipe_run ut_ref (mqueue_hooks ut_ref mq_ref no_hooks) ''int'' 10 11 1
     [Get [9, 9, 9, 9], Put [1, 0, 0, 0], Put [2, 0, 0, 0], Get [9, 9, 9, 9]] mq_node = Some ([(0, [9, 9, 9, 9]), (1, [1, 0, 0, 0])], s')"
  using mqueue_pipe [OF ref_mq.mq_laws_axioms mq_node_ok _ _ mq_node_link mq_node_both,
      of "[Get [9, 9, 9, 9], Put [1, 0, 0, 0], Put [2, 0, 0, 0], Get [9, 9, 9, 9]]" no_hooks]
  by (simp add: mq_node_simps mq_sys1_def refuse_write_def)

text \<open>C15: initialising a message queue block, whatever its configuration and memory, when it does not run into undefined
  behaviour. On success the private data has the lengths, the type and the unlink flag of the configs, with the default values of
  those that are not set, and the queue is open, for non-blocking use exactly if the config blocking is unset or zero. The name of
  the queue is made of the hash of the configured type, the length and the configured id, cut to 255 characters; the queue is
  a new, empty one with the configured number of messages of the size of a sample, or the existing one of this name with its
  messages and limits unchanged, and no other descriptor, name or queue is touched. On failure the private data is released and no
  queue or descriptor has changed.\<close>

theorem mqueue_init_opens:
  assumes "mq_laws M mok desc cont lim named" "mok (mw_sys (world s))" "mqueue_init U M i s = Some (r, s')"
  shows "if r = 0 then \<exists>mi t ty mid. mw_info (world s') i = Some mi \<and> mi_type mi = Some t \<and> typs s t = Some ty \<and>
        mq_configured U i s mid mi \<and>
        mq_opened desc cont lim named (mw_sys (world s)) (mw_sys (world s')) ty mid (mq_nonblocking i s) mi
      else mw_info (world s') i = None \<and> mq_same desc cont lim named (mw_sys (world s)) (mw_sys (world s'))"
  using mq_laws.mqueue_init_res [OF assms(1,3,2)] mq_laws.init_res_def [OF assms(1)] by simp

theorem mqueue_init_opens_witness:
  "\<exists>s' mi. mqueue_init ut_ref mq_ref 5 mq_init_node = Some (0, s') \<and> mw_info (world s') 5 = Some mi \<and>
     mi_type mi = Some 1 \<and> mi_data_len mi = 1 \<and> mi_buffer_len mi = 3 \<and> mi_unlink mi = 1 \<and>
     mi_mq_name mi = take NAME_MAX (mq_full_name (ubx_type_hashstr (mk_type ''int'' 4)) 1 ''a'') \<and>
     mq_nonblocking 5 mq_init_node \<and>
     mq_opened qs_desc qs_cont qs_lim qs_named (mw_sys (world mq_init_node)) (mw_sys (world s')) (mk_type ''int'' 4) ''a'' True mi"
proof -
  from mq_init_node_init obtain s' where i: "mqueue_init ut_ref mq_ref 5 mq_init_node = Some (0, s')" ..
  have ok: "mqs_ok (mw_sys (world mq_init_node))"
    by (auto simp: mq_init_node_def mqs_ok_def mq_sys1_def split: if_splits)
  from mqueue_init_opens [OF ref_mq.mq_laws_axioms ok i] obtain mi t ty mid where mi: "mw_info (world s') 5 = Some mi"
    "mi_type mi = Some t" "typs mq_init_node t = Some ty" "mq_configured ut_ref 5 mq_init_node mid mi"
    "mq_opened qs_desc qs_cont qs_lim qs_named (mw_sys (world mq_init_node)) (mw_sys (world s')) ty mid (mq_nonblocking 5 mq_init_node) mi"
    by auto
  from mi(2-4) have v: "mid = ''a''" "mi_buffer_len mi = 3" "mi_data_len mi = 1" "t = 1" "mi_unlink mi = 1" "ty = mk_type ''int'' 4"
    by (auto simp: mq_init_values mq_init_objs)
  from mi(5) have "mi_mq_name mi = take NAME_MAX (mq_full_name (ubx_type_hashstr ty) (mi_data_len mi) mid)" by (simp add: mq_opened_def)
  with i mi v mq_init_values(2) show ?thesis by auto
qed

end
