(* ===== verification/Ubx_Proto.thy ===== *)
theory Ubx_Proto
  imports Ubx_Core
begin

text \<open>
  From the prototype tables of a module to an instance: what \<open>ubx_block_register\<close> and \<open>ubx_block_create\<close> together give.
  The hooks of the blocks look their ports and configs up by name and rely on finding them (many assert it); the lemmas show that an
  instance has all ports and configs of the table of its prototype under their names, with the types of the table.
\<close>

section \<open>Names\<close>

text \<open>The names of lists of ports and configs, and names that \<open>strncmp\<close> tells apart from all earlier ones.\<close>

definition port_names :: "'w ubx \<Rightarrow> addr list \<Rightarrow> string list" where
  "port_names s ps = map (\<lambda>p. p_name (the (prts s p))) ps"

definition cfg_names :: "'w ubx \<Rightarrow> addr list \<Rightarrow> string list" where
  "cfg_names s cs = map (\<lambda>c. c_name (the (cfgs s c))) cs"

definition apart :: "nat \<Rightarrow> string list \<Rightarrow> bool" where
  "apart n = sorted_wrt (\<lambda>x y. \<not> strncmp_eq x y n)"

lemma apart_snoc: "apart n (xs @ [x]) \<longleftrightarrow> apart n xs \<and> (\<forall>y \<in> set xs. \<not> strncmp_eq y x n)"
  by (simp add: apart_def sorted_wrt_append)

lemma apart_nth: "apart n xs \<Longrightarrow> j < i \<Longrightarrow> i < length xs \<Longrightarrow> \<not> strncmp_eq (xs ! j) (xs ! i) n"
  by (simp add: apart_def sorted_wrt_iff_nth_less)

lemma port_find_none: "port_find s ps n = Some None \<Longrightarrow> \<forall>x \<in> set (port_names s ps). \<not> strncmp_eq x n 39"
  by (induction ps) (auto simp: port_names_def UBX_PORT_NAME_MAXLEN_def split: if_splits)

lemma config_find_none: "config_find s cs n = Some None \<Longrightarrow> \<forall>x \<in> set (cfg_names s cs). \<not> strncmp_eq x n 39"
  by (induction cs) (auto simp: cfg_names_def UBX_CONFIG_NAME_MAXLEN_def split: if_splits)

lemma port_find_nth:
  assumes "\<forall>p \<in> set ps. prts s p \<noteq> None" "apart 39 (port_names s ps)" "i < length ps" "port_names s ps ! i = n"
  shows "port_find s ps n = Some (Some (ps ! i))"
  using assms
proof (induction ps arbitrary: i)
  case (Cons p ps)
  from Cons.prems(1) obtain q where q: "prts s p = Some q" by auto
  show ?case
  proof (cases i)
    case 0
    with q Cons.prems(4) show ?thesis by (simp add: port_names_def strncmp_eq_def)
  next
    case (Suc j)
    have "\<not> strncmp_eq (p_name q) n 39"
      using apart_nth [OF Cons.prems(2), of 0 i] Cons.prems(3,4) Suc q by (simp add: port_names_def)
    with q Cons.IH [of j] Cons.prems Suc show ?thesis
      by (simp add: port_names_def apart_def UBX_PORT_NAME_MAXLEN_def)
  qed
qed simp

lemma config_find_nth:
  assumes "\<forall>c \<in> set cs. cfgs s c \<noteq> None" "apart 39 (cfg_names s cs)" "i < length cs" "cfg_names s cs ! i = n"
  shows "config_find s cs n = Some (Some (cs ! i))"
  using assms
proof (induction cs arbitrary: i)
  case (Cons c cs)
  from Cons.prems(1) obtain q where q: "cfgs s c = Some q" by auto
  show ?case
  proof (cases i)
    case 0
    with q Cons.prems(4) show ?thesis by (simp add: cfg_names_def strncmp_eq_def)
  next
    case (Suc j)
    have "\<not> strncmp_eq (c_name q) n 39"
      using apart_nth [OF Cons.prems(2), of 0 i] Cons.prems(3,4) Suc q by (simp add: cfg_names_def)
    with q Cons.IH [of j] Cons.prems Suc show ?thesis
      by (simp add: cfg_names_def apart_def UBX_CONFIG_NAME_MAXLEN_def)
  qed
qed simp

section \<open>Registering\<close>

text \<open>The port or config of block \<open>b\<close> made from an entry of a table.\<close>

definition reg_port :: "ut_lib \<Rightarrow> 'w ubx \<Rightarrow> addr \<Rightarrow> ubx_proto_port \<Rightarrow> addr \<Rightarrow> bool" where
  "reg_port U s b p a \<longleftrightarrow> length (pp_name p) \<le> 39 \<and>
     (\<exists>it ot. resolve_type U s (pp_in_type_name p) = Inr it \<and> resolve_type U s (pp_out_type_name p) = Inr ot \<and>
       prts s a = Some (new_port b (pp_name p) (pp_doc p) (pp_attrs p OR PORT_ATTR_CLONED) it (pp_in_data_len p) ot (pp_out_data_len p)))"

definition reg_cfg :: "ut_lib \<Rightarrow> 'w ubx \<Rightarrow> addr \<Rightarrow> ubx_proto_config \<Rightarrow> addr \<Rightarrow> bool" where
  "reg_cfg U s b c a \<longleftrightarrow> length (pc_name c) \<le> 39 \<and>
     (\<exists>t v. ubx_type_get U s (pc_type_name c) = Some t \<and>
       cfgs s a = Some (new_cfg b (pc_name c) (pc_doc c) (Some t) (pc_min c) (pc_max c) (pc_attrs c OR CONFIG_ATTR_CLONED) v))"

lemma type_get_same: "nd_types s' = nd_types s \<Longrightarrow> ubx_type_get U s' x = ubx_type_get U s x"
  by (simp add: ubx_type_get_def split: option.split)

lemma resolve_type_same: "nd_types s' = nd_types s \<Longrightarrow> resolve_type U s' x = resolve_type U s x"
  by (simp add: resolve_type_def type_get_same [of s' s] split: option.split)

lemma reg_port_mono:
  assumes "prts s \<subseteq>\<^sub>m prts s'" "nd_types s' = nd_types s" "reg_port U s b p a"
  shows "reg_port U s' b p a"
proof -
  from assms(3) obtain it ot where "resolve_type U s (pp_in_type_name p) = Inr it" "resolve_type U s (pp_out_type_name p) = Inr ot"
    "length (pp_name p) \<le> 39"
    and a: "prts s a = Some (new_port b (pp_name p) (pp_doc p) (pp_attrs p OR PORT_ATTR_CLONED) it (pp_in_data_len p) ot (pp_out_data_len p))"
    unfolding reg_port_def by blast
  with map_leD [OF assms(1) a] show ?thesis by (simp add: reg_port_def resolve_type_same [OF assms(2)])
qed

lemma reg_cfg_mono:
  assumes "cfgs s \<subseteq>\<^sub>m cfgs s'" "nd_types s' = nd_types s" "reg_cfg U s b c a"
  shows "reg_cfg U s' b c a"
proof -
  from assms(3) obtain t v where "ubx_type_get U s (pc_type_name c) = Some t" "length (pc_name c) \<le> 39"
    and a: "cfgs s a = Some (new_cfg b (pc_name c) (pc_doc c) (Some t) (pc_min c) (pc_max c) (pc_attrs c OR CONFIG_ATTR_CLONED) v)"
    unfolding reg_cfg_def by blast
  then show ?thesis unfolding reg_cfg_def type_get_same [OF assms(2)] using map_leD [OF assms(1) a] by blast
qed

lemma map_le_the: "m \<subseteq>\<^sub>m m' \<Longrightarrow> m x \<noteq> None \<Longrightarrow> m' x = m x"
  by (metis domIff map_le_def)

lemma port_names_mono: "prts s \<subseteq>\<^sub>m prts s' \<Longrightarrow> \<forall>p \<in> set ps. prts s p \<noteq> None \<Longrightarrow> port_names s' ps = port_names s ps"
  by (induction ps) (simp_all add: port_names_def map_le_the)

lemma cfg_names_mono: "cfgs s \<subseteq>\<^sub>m cfgs s' \<Longrightarrow> \<forall>c \<in> set cs. cfgs s c \<noteq> None \<Longrightarrow> cfg_names s' cs = cfg_names s cs"
  by (induction cs) (simp_all add: cfg_names_def map_le_the)

lemma port_add_inv:
  assumes "ubx_port_add U (Some b) (Some n) doc attrs itn il otn ol s = Some (0, s')" "blks s b = Some blk"
  obtains it ot where "resolve_type U s itn = Inr it" "resolve_type U s otn = Inr ot"
    "ubx_port_add_t U b n doc attrs it il ot ol s = Some (0, s')"
proof -
  have e: "EINVALID_TYPE \<noteq> 0" by (simp add: EINVALID_TYPE_def)
  show thesis
  proof (cases "resolve_type U s itn")
    case (Inl u)
    with assms e show thesis by (auto simp: ubx_port_add_def split: if_splits)
  next
    case it: (Inr it)
    show thesis
    proof (cases "resolve_type U s otn")
      case (Inl u)
      with assms e it show thesis by (auto simp: ubx_port_add_def split: if_splits)
    next
      case (Inr ot)
      with assms it show thesis by (intro that [OF it Inr]) (auto simp: ubx_port_add_def split: if_splits)
    qed
  qed
qed

lemma port_add_t_found:
  assumes "ubx_port_add_t U b n doc attrs it il ot ol s = Some (0, s')" "blks s b = Some blk"
  shows "port_find s (b_ports blk) n = Some None"
  using assms by (auto simp: ubx_port_add_t_def ubx_port_get_def EENTEXISTS_def split: if_splits option.splits)

context ut_laws
begin

lemma port_add_t_step:
  assumes wf: "core_wf s" and b: "blks s b = Some blk"
    and add: "ubx_port_add_t U b n doc attrs it il ot ol s = Some (0, s1)"
  shows "core_wf s1" "blks s1 b = Some (blk\<lparr>b_ports := b_ports blk @ [next_addr s]\<rparr>)" "cfgs s1 = cfgs s" "nd_types s1 = nd_types s"
    "prts s1 = (prts s)(next_addr s \<mapsto> new_port b n doc attrs it il ot ol)" "prts s \<subseteq>\<^sub>m prts s1" "length n \<le> 39"
    "port_names s1 (b_ports blk @ [next_addr s]) = port_names s (b_ports blk) @ [n]"
proof -
  let ?a = "next_addr s"
  note bw = core_wfD(3) [OF wf b]
  have fr: "fresh_from ?a (prts s)" using wf by (simp add: core_wf_def)
  then have "?a \<notin> set (b_ports blk)" using bw by (auto simp: blk_wf_def fresh_from_def)
  then have ap: "dl_append U (b_ports blk) ?a = b_ports blk @ [?a]" using bw by (simp add: append_law blk_wf_def)
  from add b show t: "prts s1 = (prts s)(?a \<mapsto> new_port b n doc attrs it il ot ol)" "cfgs s1 = cfgs s" "nd_types s1 = nd_types s"
    "blks s1 b = Some (blk\<lparr>b_ports := b_ports blk @ [?a]\<rparr>)" "length n \<le> 39"
    by (cases rule: port_add_t_cases; simp add: ap)+
  show le: "prts s \<subseteq>\<^sub>m prts s1" using fresh_map_le [OF fr order_refl] t(1) by simp
  have live: "\<forall>p \<in> set (b_ports blk). prts s p \<noteq> None" using bw by (auto simp: blk_wf_def)
  show "port_names s1 (b_ports blk @ [?a]) = port_names s (b_ports blk) @ [n]"
    using port_names_mono [OF le live] t(1,5) by (simp add: port_names_def new_port_def UBX_PORT_NAME_MAXLEN_def)
  show "core_wf s1" using port_add_t_wf [OF wf b add] by blast
qed

lemma config_add_t_step:
  assumes wf: "core_wf s" and b: "blks s b = Some blk"
    and add: "ubx_config_add_t U b n doc (Some ta) mn mx attrs s = Some (0, s1)"
  shows "core_wf s1" "blks s1 b = Some (blk\<lparr>b_configs := b_configs blk @ [next_addr s]\<rparr>)" "prts s1 = prts s" "nd_types s1 = nd_types s"
    "\<exists>v. cfgs s1 = (cfgs s)(next_addr s \<mapsto> new_cfg b n doc (Some ta) mn mx attrs v)" "cfgs s \<subseteq>\<^sub>m cfgs s1" "length n \<le> 39"
    "cfg_names s1 (b_configs blk @ [next_addr s]) = cfg_names s (b_configs blk) @ [n]"
proof -
  let ?a = "next_addr s"
  note bw = core_wfD(3) [OF wf b]
  have fr: "fresh_from ?a (cfgs s)" using wf by (auto simp: core_wf_def rc_inv_def)
  then have "?a \<notin> set (b_configs blk)" using bw by (auto simp: blk_wf_def fresh_from_def)
  then have ap: "dl_append U (b_configs blk) ?a = b_configs blk @ [?a]" using bw by (simp add: append_law blk_wf_def)
  from add b obtain v where v: "cfgs s1 = (cfgs s)(?a \<mapsto> new_cfg b n doc (Some ta) mn mx attrs v)"
    and t: "prts s1 = prts s" "nd_types s1 = nd_types s" "blks s1 b = Some (blk\<lparr>b_configs := b_configs blk @ [?a]\<rparr>)" "length n \<le> 39"
    by (cases rule: config_add_t_cases) (auto simp: ap EENTEXISTS_def EOUTOFMEM_def EINVALID_CONFIG_def)
  from v show "\<exists>v. cfgs s1 = (cfgs s)(?a \<mapsto> new_cfg b n doc (Some ta) mn mx attrs v)" by blast
  from t show "prts s1 = prts s" "nd_types s1 = nd_types s" "blks s1 b = Some (blk\<lparr>b_configs := b_configs blk @ [?a]\<rparr>)" "length n \<le> 39"
    by blast+
  show le: "cfgs s \<subseteq>\<^sub>m cfgs s1" using fresh_map_le [OF fr order_refl] v by simp
  have live: "\<forall>c \<in> set (b_configs blk). cfgs s c \<noteq> None" using bw by (auto simp: blk_wf_def)
  show "cfg_names s1 (b_configs blk @ [?a]) = cfg_names s (b_configs blk) @ [n]"
    using cfg_names_mono [OF le live] v t(4) by (simp add: cfg_names_def new_cfg_def UBX_CONFIG_NAME_MAXLEN_def)
  show "core_wf s1" using config_add_t_wf [OF wf b add] by blast
qed

lemma register_ports_table:
  assumes "core_wf s" "blks s b = Some blk" "register_ports U b ps s = Some (0, s')" "apart 39 (port_names s (b_ports blk))"
  shows "\<exists>qs. blks s' b = Some (blk\<lparr>b_ports := b_ports blk @ qs\<rparr>) \<and> list_all2 (reg_port U s' b) ps qs \<and> cfgs s' = cfgs s \<and>
    prts s \<subseteq>\<^sub>m prts s' \<and> nd_types s' = nd_types s \<and> apart 39 (port_names s' (b_ports blk @ qs))"
  using assms
proof (induction ps arbitrary: s blk)
  case Nil
  then show ?case by (auto intro!: exI [of _ "[]"])
next
  case (Cons p ps)
  let ?a = "next_addr s"
  from Cons.prems(3) obtain s1 where add: "ubx_port_add U (Some b) (Some (pp_name p)) (pp_doc p) (pp_attrs p OR PORT_ATTR_CLONED)
      (pp_in_type_name p) (pp_in_data_len p) (pp_out_type_name p) (pp_out_data_len p) s = Some (0, s1)"
    "register_ports U b ps s1 = Some (0, s')" by (auto split: if_splits)
  from port_add_inv [OF add(1) Cons.prems(2)] obtain it ot where ty: "resolve_type U s (pp_in_type_name p) = Inr it"
    "resolve_type U s (pp_out_type_name p) = Inr ot" and addt: "ubx_port_add_t U b (pp_name p) (pp_doc p) (pp_attrs p OR PORT_ATTR_CLONED)
      it (pp_in_data_len p) ot (pp_out_data_len p) s = Some (0, s1)" by blast
  note none = port_find_none [OF port_add_t_found [OF addt Cons.prems(2)]]
  note t = port_add_t_step [OF Cons.prems(1,2) addt]
  have ok: "apart 39 (port_names s1 (b_ports (blk\<lparr>b_ports := b_ports blk @ [?a]\<rparr>)))"
    using none Cons.prems(4) t(8) by (simp add: apart_snoc)
  from Cons.IH [OF t(1,2) add(2) ok] obtain qs where
    qs: "blks s' b = Some (blk\<lparr>b_ports := b_ports blk @ ?a # qs\<rparr>)" "list_all2 (reg_port U s' b) ps qs" "cfgs s' = cfgs s"
      "prts s1 \<subseteq>\<^sub>m prts s'" "nd_types s' = nd_types s1" "apart 39 (port_names s' (b_ports blk @ ?a # qs))" using t(3) by auto
  have "reg_port U s1 b p ?a" using ty t by (simp add: reg_port_def resolve_type_same [OF t(4)])
  from reg_port_mono [OF qs(4,5) this] qs map_le_trans [OF t(6) qs(4)] t(4) show ?case by (intro exI [of _ "?a # qs"]) simp
qed

lemma config_add2_inv:
  assumes "ubx_config_add2 U (Some b) (Some n) doc tn mn mx attrs s = Some (0, s')" "blks s b = Some blk"
  obtains ta where "ubx_type_get U s tn = Some ta" "ubx_config_add_t U b n doc (Some ta) mn mx attrs s = Some (0, s')"
    "config_find s (b_configs blk) n = Some None"
proof -
  from assms obtain ta where ty: "ubx_type_get U s tn = Some ta" and t: "ubx_config_add_t U b n doc (Some ta) mn mx attrs s = Some (0, s')"
    by (cases rule: config_add2_cases) auto
  from t assms(2) have "config_find s (b_configs blk) n = Some None"
    by (cases rule: config_add_t_cases) (auto simp: assms(2) ubx_config_get_def EENTEXISTS_def EOUTOFMEM_def EINVALID_CONFIG_def)
  with ty t show thesis by (rule that)
qed

lemma register_configs_table:
  assumes "core_wf s" "blks s b = Some blk" "register_configs U b cs s = Some (0, s')" "apart 39 (cfg_names s (b_configs blk))"
  shows "\<exists>ds. blks s' b = Some (blk\<lparr>b_configs := b_configs blk @ ds\<rparr>) \<and> list_all2 (reg_cfg U s' b) cs ds \<and> prts s' = prts s \<and>
    cfgs s \<subseteq>\<^sub>m cfgs s' \<and> nd_types s' = nd_types s \<and> apart 39 (cfg_names s' (b_configs blk @ ds))"
  using assms
proof (induction cs arbitrary: s blk)
  case Nil
  then show ?case by (auto intro!: exI [of _ "[]"])
next
  case (Cons c cs)
  let ?a = "next_addr s"
  from Cons.prems(3) obtain s1 where add: "ubx_config_add2 U (Some b) (Some (pc_name c)) (pc_doc c) (pc_type_name c)
      (pc_min c) (pc_max c) (pc_attrs c OR CONFIG_ATTR_CLONED) s = Some (0, s1)"
    "register_configs U b cs s1 = Some (0, s')" by (auto split: if_splits)
  from config_add2_inv [OF add(1) Cons.prems(2)] obtain ta where ty: "ubx_type_get U s (pc_type_name c) = Some ta"
    and addt: "ubx_config_add_t U b (pc_name c) (pc_doc c) (Some ta) (pc_min c) (pc_max c) (pc_attrs c OR CONFIG_ATTR_CLONED) s = Some (0, s1)"
    and find: "config_find s (b_configs blk) (pc_name c) = Some None" by blast
  note none = config_find_none [OF find]
  note t = config_add_t_step [OF Cons.prems(1,2) addt]
  have ok: "apart 39 (cfg_names s1 (b_configs (blk\<lparr>b_configs := b_configs blk @ [?a]\<rparr>)))"
    using none Cons.prems(4) t(8) by (simp add: apart_snoc)
  from Cons.IH [OF t(1,2) add(2) ok] obtain ds where
    ds: "blks s' b = Some (blk\<lparr>b_configs := b_configs blk @ ?a # ds\<rparr>)" "list_all2 (reg_cfg U s' b) cs ds" "prts s' = prts s"
      "cfgs s1 \<subseteq>\<^sub>m cfgs s'" "nd_types s' = nd_types s1" "apart 39 (cfg_names s' (b_configs blk @ ?a # ds))" using t(3) by auto
  have "reg_cfg U s1 b c ?a" using ty t(5,7) unfolding reg_cfg_def type_get_same [OF t(4)] by (clarsimp, blast)
  from reg_cfg_mono [OF ds(4,5) this] ds map_le_trans [OF t(6) ds(4)] t(4) show ?case by (intro exI [of _ "?a # ds"]) simp
qed

text \<open>The steps of a registration that succeeds.\<close>

lemma block_register_inv:
  assumes wf: "core_wf s" and r: "ubx_block_register U prot s = Some (0, s')"
  obtains mok q s3 s4 s5 where
    "s3 = s\<lparr>next_addr := Suc (next_addr s), oom := q, blks := (blks s)(next_addr s \<mapsto> register_new prot mok)\<rparr>"
    "register_ports U (next_addr s) (pb_ports prot) s3 = Some (0, s4)"
    "register_configs U (next_addr s) (pb_configs prot) s4 = Some (0, s5)" "block_register_t U (next_addr s) s5 = Some (0, s')"
    "core_wf s3" "core_wf s4" "core_wf s5" "nd_blocks s5 = nd_blocks s" "\<not> length (pb_name prot) > UBX_BLOCK_NAME_MAXLEN"
proof (cases s rule: calloc_cases)
  case fail
  with r show thesis by (simp add: ubx_block_register_def EOUTOFMEM_def)
next
  case c: ok
  let ?a = "next_addr s" and ?s1 = "s\<lparr>next_addr := Suc (next_addr s), oom := tl (oom s)\<rparr>"
  have len: "\<not> length (pb_name prot) > UBX_BLOCK_NAME_MAXLEN"
    using r c by (auto simp: ubx_block_register_def EINVALID_BLOCK_def)
  obtain mok q where m: "(if pb_meta_data prot = None then (True, ?s1) else mem_alloc ?s1) =
      (mok, s\<lparr>next_addr := Suc ?a, oom := q\<rparr>)"
    by (cases "pb_meta_data prot = None") (simp_all add: mem_alloc_def)
  let ?s3 = "s\<lparr>next_addr := Suc ?a, oom := q, blks := (blks s)(?a \<mapsto> register_new prot mok)\<rparr>"
  from r c len m have r: "(do {
            (ret, s) \<leftarrow> register_ports U ?a (pb_ports prot) ?s3;
            if ret \<noteq> 0 then do { s \<leftarrow> ubx_block_free U ?a s; Some (ret, s) }
            else do {
              (ret, s) \<leftarrow> register_configs U ?a (pb_configs prot) s;
              if ret \<noteq> 0 then do { s \<leftarrow> ubx_block_free U ?a s; Some (ret, s) }
              else block_register_t U ?a s } }) = Some (0, s')"
    by (simp add: ubx_block_register_def Let_def)
  have wf3: "core_wf ?s3" using core_wf_new_blk [OF wf, of "register_new prot mok" q] by (simp add: register_new_def)
  from r obtain s4 where s4: "register_ports U ?a (pb_ports prot) ?s3 = Some (0, s4)" by (auto split: if_splits)
  with r obtain s5 where s5: "register_configs U ?a (pb_configs prot) s4 = Some (0, s5)" by (auto split: if_splits)
  from r s4 s5 have t: "block_register_t U ?a s5 = Some (0, s')" by simp
  note w4 = register_ports_wf [OF wf3 s4]
  with register_configs_wf [OF _ s5] have w5: "core_wf s4" "core_wf s5" "nd_blocks s5 = nd_blocks s" by (auto simp: grow_def)
  show thesis by (rule that [OF refl s4 s5 t wf3 w5 len])
qed

lemma block_register_table:
  assumes wf: "core_wf s" and r: "ubx_block_register U prot s = Some (0, s')"
  shows "core_wf s' \<and> (pb_type prot = BLOCK_TYPE_COMPUTATION \<or> pb_type prot = BLOCK_TYPE_INTERACTION) \<and> nd_types s' = nd_types s \<and>
    (\<exists>a ps cs. (\<forall>m. ubx_block_get U s' (Some m) = (if m = pb_name prot then Some a else ubx_block_get U s (Some m))) \<and>
    list_all2 (reg_port U s' a) (pb_ports prot) ps \<and> list_all2 (reg_cfg U s' a) (pb_configs prot) cs \<and>
    apart 39 (port_names s' ps) \<and> apart 39 (cfg_names s' cs) \<and>
    (\<exists>m. blks s' a = Some ((register_new prot m)\<lparr>b_ports := ps, b_configs := cs, b_nd := True\<rparr>)))"
proof -
  let ?a = "next_addr s"
  from block_register_inv [OF assms] obtain mok q s3 s4 s5 where
    s3: "s3 = s\<lparr>next_addr := Suc ?a, oom := q, blks := (blks s)(?a \<mapsto> register_new prot mok)\<rparr>"
    and s4: "register_ports U ?a (pb_ports prot) s3 = Some (0, s4)"
    and s5: "register_configs U ?a (pb_configs prot) s4 = Some (0, s5)" and t: "block_register_t U ?a s5 = Some (0, s')"
    and wf3: "core_wf s3" and w4: "core_wf s4" and w5: "core_wf s5" and nb: "nd_blocks s5 = nd_blocks s"
    and len: "\<not> length (pb_name prot) > UBX_BLOCK_NAME_MAXLEN" .
  have b3: "blks s3 ?a = Some (register_new prot mok)" "nd_types s3 = nd_types s" by (simp_all add: s3)
  from register_ports_table [OF wf3 b3(1) s4] obtain ps where
    ps: "blks s4 ?a = Some ((register_new prot mok)\<lparr>b_ports := ps\<rparr>)" "list_all2 (reg_port U s4 ?a) (pb_ports prot) ps"
      "apart 39 (port_names s4 ps)" "nd_types s4 = nd_types s" using b3(2) by (auto simp: register_new_def port_names_def apart_def)
  from register_configs_table [OF w4 ps(1) s5] obtain cs where
    cs: "blks s5 ?a = Some ((register_new prot mok)\<lparr>b_ports := ps, b_configs := cs\<rparr>)" "list_all2 (reg_cfg U s5 ?a) (pb_configs prot) cs"
      "prts s5 = prts s4" "nd_types s5 = nd_types s4" "apart 39 (cfg_names s5 cs)" by (auto simp: register_new_def cfg_names_def apart_def)
  define x where x: "x = (register_new prot mok)\<lparr>b_ports := ps, b_configs := cs, b_nd := True\<rparr>"
  have nm: "b_name (register_new prot mok) = pb_name prot" using len by (simp add: register_new_def strncpy_def)
  have t': "ut_find U (nd_blocks s5) (pb_name prot) = None" "s' = s5\<lparr>nd_blocks := ut_add U (nd_blocks s5) (pb_name prot) ?a,
      blks := (blks s5)(?a \<mapsto> x)\<rparr>"
    using t cs(1) nm by (auto simp: block_register_t_def x split: if_splits)
  have "?a \<notin> set (elems (nd_blocks s5))"
    using fresh_addr(2) [OF wf] nb by simp
  note add = add_ok(2) [OF core_wfD(1) [OF w5] t'(1) this]
  from nb have get: "\<forall>m. ubx_block_get U s' (Some m) = (if m = pb_name prot then Some ?a else ubx_block_get U s (Some m))"
    using add by (simp add: ubx_block_get_def t'(2))
  have ty: "nd_types s' = nd_types s" using ps(4) cs(4) by (simp add: t'(2))
  have "list_all2 (reg_port U s' ?a) (pb_ports prot) ps"
    using ps(2) by (rule list.rel_mono_strong) (auto intro!: reg_port_mono [of s4] simp: t'(2) cs(3,4))
  moreover have "list_all2 (reg_cfg U s' ?a) (pb_configs prot) cs"
    using cs(2) by (rule list.rel_mono_strong) (auto intro!: reg_cfg_mono [of s5] simp: t'(2))
  moreover have "port_names s' ps = port_names s4 ps" "cfg_names s' cs = cfg_names s5 cs"
    by (simp_all add: port_names_def cfg_names_def t'(2) cs(3))
  moreover have "blks s' ?a = Some x" by (simp add: t'(2))
  moreover have "core_wf s'" using assms by (rule block_register_wf)
  moreover have "pb_type prot = BLOCK_TYPE_COMPUTATION \<or> pb_type prot = BLOCK_TYPE_INTERACTION"
    using t cs(1) by (auto simp: block_register_t_def ubx_block_check_def register_new_def EINVALID_BLOCK_def split: if_splits)
  ultimately show ?thesis using get ty ps(3) cs(5) unfolding x by metis
qed

end

section \<open>Nothing leaks\<close>

text \<open>From \<open>s\<close> to \<open>s'\<close> block \<open>b\<close> has got new ports and configs, and nothing else was allocated.\<close>

definition adds :: "addr \<Rightarrow> 'w ubx \<Rightarrow> 'w ubx \<Rightarrow> bool" where
  "adds b s s' \<longleftrightarrow> nd_blocks s' = nd_blocks s \<and> nd_types s' = nd_types s \<and> (\<forall>ext. rc_inv s ext \<longrightarrow> rc_inv s' ext) \<and>
     (\<exists>blk ps cs. blks s b = Some blk \<and> blks s' = (blks s)(b \<mapsto> blk\<lparr>b_ports := b_ports blk @ ps, b_configs := b_configs blk @ cs\<rparr>) \<and>
       (\<forall>p \<in> set ps. prts s p = None) \<and> (\<forall>p. p \<notin> set ps \<longrightarrow> prts s' p = prts s p) \<and>
       (\<forall>c \<in> set cs. cfgs s c = None) \<and> (\<forall>c. c \<notin> set cs \<longrightarrow> cfgs s' c = cfgs s c))"

lemma adds_refl: "blks s b = Some blk \<Longrightarrow> adds b s s"
  by (auto simp: adds_def fun_upd_idem intro!: exI [of _ "[]"])

lemma off_trans:
  assumes "\<forall>x \<in> A. f x = None" "\<forall>x. x \<notin> A \<longrightarrow> g x = f x" "\<forall>x \<in> B. g x = None" "\<forall>x. x \<notin> B \<longrightarrow> h x = g x"
  shows "\<forall>x \<in> A \<union> B. f x = None" "\<forall>x. x \<notin> A \<union> B \<longrightarrow> h x = f x"
  using assms by (metis Un_iff) (simp add: assms)

lemma adds_trans:
  assumes "adds b s t" "adds b t u"
  shows "adds b s u"
proof -
  from assms(1) obtain blk ps cs where 1: "blks s b = Some blk"
    "blks t = (blks s)(b \<mapsto> blk\<lparr>b_ports := b_ports blk @ ps, b_configs := b_configs blk @ cs\<rparr>)"
    "\<forall>p \<in> set ps. prts s p = None" "\<forall>p. p \<notin> set ps \<longrightarrow> prts t p = prts s p"
    "\<forall>c \<in> set cs. cfgs s c = None" "\<forall>c. c \<notin> set cs \<longrightarrow> cfgs t c = cfgs s c" by (auto simp: adds_def)
  from assms(2) obtain blk' qs ds where 2: "blks t b = Some blk'"
    "blks u = (blks t)(b \<mapsto> blk'\<lparr>b_ports := b_ports blk' @ qs, b_configs := b_configs blk' @ ds\<rparr>)"
    "\<forall>p \<in> set qs. prts t p = None" "\<forall>p. p \<notin> set qs \<longrightarrow> prts u p = prts t p"
    "\<forall>c \<in> set ds. cfgs t c = None" "\<forall>c. c \<notin> set ds \<longrightarrow> cfgs u c = cfgs t c" by (auto simp: adds_def)
  have p: "\<forall>p \<in> set (ps @ qs). prts s p = None" "\<forall>p. p \<notin> set (ps @ qs) \<longrightarrow> prts u p = prts s p"
    using off_trans [OF 1(3,4) 2(3,4)] by (simp_all only: set_append)
  have c: "\<forall>c \<in> set (cs @ ds). cfgs s c = None" "\<forall>c. c \<notin> set (cs @ ds) \<longrightarrow> cfgs u c = cfgs s c"
    using off_trans [OF 1(5,6) 2(5,6)] by (simp_all only: set_append)
  have b': "blk' = blk\<lparr>b_ports := b_ports blk @ ps, b_configs := b_configs blk @ cs\<rparr>" using 1(2) 2(1) by simp
  have "blks u = (blks s)(b \<mapsto> blk\<lparr>b_ports := b_ports blk @ (ps @ qs), b_configs := b_configs blk @ (cs @ ds)\<rparr>)"
    by (simp add: 2(2) 1(2) b')
  moreover have "nd_blocks u = nd_blocks s" "nd_types u = nd_types s" "\<forall>ext. rc_inv s ext \<longrightarrow> rc_inv u ext"
    using assms by (simp_all add: adds_def)
  ultimately show ?thesis using p c 1(1) unfolding adds_def by blast
qed

context ut_laws
begin

lemma port_add_t_adds:
  assumes "core_wf s" "ubx_port_add_t U b n doc attrs it il ot ol s = Some (0, s1)"
  shows "adds b s s1"
proof -
  from assms(2) obtain blk where b: "blks s b = Some blk" by (auto simp: ubx_port_add_t_def)
  let ?a = "next_addr s"
  have fr: "fresh_from ?a (prts s)" using assms(1) by (simp add: core_wf_def)
  from assms(2) b show ?thesis
  proof (cases rule: port_add_t_cases)
    case (ok q)
    have "?a \<notin> set (b_ports blk)" using core_wfD(3) [OF assms(1) b] fr by (auto simp: blk_wf_def fresh_from_def)
    then have ap: "dl_append U (b_ports blk) ?a = b_ports blk @ [?a]"
      using core_wfD(3) [OF assms(1) b] by (simp add: append_law blk_wf_def)
    have "rc_inv s1 ext" if "rc_inv s ext" for ext by (rule rc_inv_cong [OF that]) (simp_all add: ok)
    moreover have "blks s1 = (blks s)(b \<mapsto> blk\<lparr>b_ports := b_ports blk @ [?a], b_configs := b_configs blk @ []\<rparr>)"
      by (simp add: ok ap)
    moreover have "\<forall>p \<in> set [?a]. prts s p = None" "\<forall>p. p \<notin> set [?a] \<longrightarrow> prts s1 p = prts s p"
      using fr by (simp_all add: ok fresh_from_def)
    ultimately show ?thesis unfolding adds_def using b ok
      by (intro conjI exI [of _ blk] exI [of _ "[?a]"] exI [of _ "[]"]) auto
  qed auto
qed

lemma config_add_t_adds:
  assumes "core_wf s" "ubx_config_add_t U b n doc (Some ta) mn mx attrs s = Some (0, s1)"
  shows "adds b s s1"
proof -
  from assms(2) obtain blk where b: "blks s b = Some blk" by (auto simp: ubx_config_add_t_def)
  let ?a = "next_addr s"
  have fr: "fresh_from ?a (cfgs s)" using assms(1) by (auto simp: core_wf_def rc_inv_def)
  note rc = rc_inv_config_add_t [OF _ b assms(2)]
  from assms(2) b show ?thesis
  proof (cases rule: config_add_t_cases)
    case (ok k q v D)
    have "?a \<notin> set (b_configs blk)" using core_wfD(3) [OF assms(1) b] fr by (auto simp: blk_wf_def fresh_from_def)
    then have ap: "dl_append U (b_configs blk) ?a = b_configs blk @ [?a]"
      using core_wfD(3) [OF assms(1) b] by (simp add: append_law blk_wf_def)
    have "blks s1 = (blks s)(b \<mapsto> blk\<lparr>b_ports := b_ports blk @ [], b_configs := b_configs blk @ [?a]\<rparr>)"
      by (simp add: ok(5) ap)
    moreover have "\<forall>c \<in> set [?a]. cfgs s c = None" "\<forall>c. c \<notin> set [?a] \<longrightarrow> cfgs s1 c = cfgs s c"
      using fr by (simp_all add: ok(5) fresh_from_def)
    moreover have "prts s1 = prts s" "nd_blocks s1 = nd_blocks s" "nd_types s1 = nd_types s" by (simp_all add: ok(5))
    ultimately show ?thesis unfolding adds_def using b rc
      by (intro conjI exI [of _ blk] exI [of _ "[?a]"] exI [of _ "[]"]) auto
  qed (auto simp: EENTEXISTS_def EOUTOFMEM_def EINVALID_CONFIG_def)
qed

lemma register_ports_adds:
  assumes "core_wf s" "blks s b = Some blk" "register_ports U b ps s = Some (0, s')"
  shows "adds b s s'"
  using assms
proof (induction ps arbitrary: s blk)
  case (Cons p ps)
  from Cons.prems(3) obtain s1 where add: "ubx_port_add U (Some b) (Some (pp_name p)) (pp_doc p) (pp_attrs p OR PORT_ATTR_CLONED)
      (pp_in_type_name p) (pp_in_data_len p) (pp_out_type_name p) (pp_out_data_len p) s = Some (0, s1)"
    "register_ports U b ps s1 = Some (0, s')" by (auto split: if_splits)
  from port_add_inv [OF add(1) Cons.prems(2)] obtain it ot where
    addt: "ubx_port_add_t U b (pp_name p) (pp_doc p) (pp_attrs p OR PORT_ATTR_CLONED)
      it (pp_in_data_len p) ot (pp_out_data_len p) s = Some (0, s1)" by blast
  note t = port_add_t_step [OF Cons.prems(1,2) addt]
  from port_add_t_adds [OF Cons.prems(1) addt] Cons.IH [OF t(1,2) add(2)] show ?case by (rule adds_trans)
qed (auto intro: adds_refl)

lemma register_configs_adds:
  assumes "core_wf s" "blks s b = Some blk" "register_configs U b cs s = Some (0, s')"
  shows "adds b s s'"
  using assms
proof (induction cs arbitrary: s blk)
  case (Cons c cs)
  from Cons.prems(3) obtain s1 where add: "ubx_config_add2 U (Some b) (Some (pc_name c)) (pc_doc c) (pc_type_name c)
      (pc_min c) (pc_max c) (pc_attrs c OR CONFIG_ATTR_CLONED) s = Some (0, s1)"
    "register_configs U b cs s1 = Some (0, s')" by (auto split: if_splits)
  from config_add2_inv [OF add(1) Cons.prems(2)] obtain ta where
    addt: "ubx_config_add_t U b (pc_name c) (pc_doc c) (Some ta) (pc_min c) (pc_max c) (pc_attrs c OR CONFIG_ATTR_CLONED) s = Some (0, s1)"
    by blast
  note t = config_add_t_step [OF Cons.prems(1,2) addt]
  from config_add_t_adds [OF Cons.prems(1) addt] Cons.IH [OF t(1,2) add(2)] show ?case by (rule adds_trans)
qed (auto intro: adds_refl)

lemma clone_ports_adds:
  assumes "core_wf s" "blks s b = Some blk" "clone_ports U b ps s = Some (0, s')"
  shows "adds b s s'"
  using assms
proof (induction ps arbitrary: s blk)
  case (Cons p ps)
  from Cons.prems(3) obtain q where q: "prts s p = Some q" by auto
  with Cons.prems(3) obtain s1 where
    add: "ubx_port_add_t U b (p_name q) None (p_attrs q OR PORT_ATTR_CLONED) (p_in_type q) (p_in_data_len q) (p_out_type q)
      (p_out_data_len q) s = Some (0, s1)" "clone_ports U b ps s1 = Some (0, s')" by (auto split: if_splits)
  note t = port_add_t_step [OF Cons.prems(1,2) add(1)]
  from port_add_t_adds [OF Cons.prems(1) add(1)] Cons.IH [OF t(1,2) add(2)] show ?case by (rule adds_trans)
qed (auto intro: adds_refl)

lemma clone_configs_adds:
  assumes "core_wf s" "blks s b = Some blk" "\<forall>c \<in> set cs. \<exists>q. cfgs s c = Some q \<and> c_type q \<noteq> None"
    "clone_configs U b cs s = Some (0, s')"
  shows "adds b s s'"
  using assms
proof (induction cs arbitrary: s blk)
  case (Cons c cs)
  from Cons.prems(3) obtain q ta where q: "cfgs s c = Some q" "c_type q = Some ta" by auto
  with Cons.prems(4) obtain s1 where
    add: "ubx_config_add_t U b (c_name q) None (Some ta) (c_min q) (c_max q) (c_attrs q OR CONFIG_ATTR_CLONED) s = Some (0, s1)"
      "clone_configs U b cs s1 = Some (0, s')" by (auto split: if_splits)
  note t = config_add_t_step [OF Cons.prems(1,2) add(1)]
  have "\<forall>c \<in> set cs. \<exists>q. cfgs s1 c = Some q \<and> c_type q \<noteq> None" using Cons.prems(3) map_leD [OF t(6)] by fastforce
  from config_add_t_adds [OF Cons.prems(1) add(1)] Cons.IH [OF t(1,2) this add(2)] show ?case by (rule adds_trans)
qed (auto intro: adds_refl)

end

section \<open>Success\<close>

text \<open>When no allocation fails the additions succeed for new names that fit, of known types.\<close>

lemma port_find_absent:
  "\<forall>p \<in> set ps. prts s p \<noteq> None \<Longrightarrow> \<forall>x \<in> set (port_names s ps). \<not> strncmp_eq x n 39 \<Longrightarrow> port_find s ps n = Some None"
  by (induction ps) (auto simp: port_names_def UBX_PORT_NAME_MAXLEN_def)

lemma config_find_absent:
  "\<forall>c \<in> set cs. cfgs s c \<noteq> None \<Longrightarrow> \<forall>x \<in> set (cfg_names s cs). \<not> strncmp_eq x n 39 \<Longrightarrow> config_find s cs n = Some None"
  by (induction cs) (auto simp: cfg_names_def UBX_CONFIG_NAME_MAXLEN_def)

lemma calloc_ok: "oom s = [] \<Longrightarrow> calloc s = (Some (next_addr s), s\<lparr>next_addr := Suc (next_addr s)\<rparr>)"
  by (simp add: calloc_def)

lemma port_add_t_ok:
  assumes "oom s = []" "blks s b = Some blk" "port_find s (b_ports blk) n = Some None" "length n \<le> 39"
  shows "\<exists>s'. ubx_port_add_t U b n doc attrs it il ot ol s = Some (0, s') \<and> oom s' = []"
  using assms by (simp add: ubx_port_add_t_def ubx_port_get_def calloc_ok mem_alloc_def UBX_PORT_NAME_MAXLEN_def Let_def)

lemma config_add_t_ok:
  assumes "oom s = []" "blks s b = Some blk" "config_find s (b_configs blk) n = Some None" "length n \<le> 39" "mn \<le> cfg_max mn mx"
  shows "\<exists>s'. ubx_config_add_t U b n doc (Some ta) mn mx attrs s = Some (0, s') \<and> oom s' = []"
proof -
  have "\<not> cfg_max mn mx < mn" using assms(5) by simp
  with assms show ?thesis
    by (simp add: ubx_config_add_t_def ubx_config_get_def calloc_ok mem_alloc_def UBX_CONFIG_NAME_MAXLEN_def Let_def
        ubx_data_alloc_t_def)
qed

lemma port_names_Cons: "prts s p = Some q \<Longrightarrow> port_names s (p # ps) = p_name q # port_names s ps"
  by (simp add: port_names_def)

lemma cfg_names_Cons: "cfgs s c = Some q \<Longrightarrow> cfg_names s (c # cs) = c_name q # cfg_names s cs"
  by (simp add: cfg_names_def)

text \<open>A port or config table that can be registered.\<close>

definition port_ok :: "ut_lib \<Rightarrow> 'w ubx \<Rightarrow> ubx_proto_port \<Rightarrow> bool" where
  "port_ok U s p \<longleftrightarrow> length (pp_name p) \<le> 39 \<and> resolve_type U s (pp_in_type_name p) \<noteq> Inl () \<and> resolve_type U s (pp_out_type_name p) \<noteq> Inl ()"

definition config_ok :: "ut_lib \<Rightarrow> 'w ubx \<Rightarrow> ubx_proto_config \<Rightarrow> bool" where
  "config_ok U s c \<longleftrightarrow> length (pc_name c) \<le> 39 \<and> ubx_type_get U s (pc_type_name c) \<noteq> None \<and> pc_min c \<le> cfg_max (pc_min c) (pc_max c)"

lemma table_ok_same:
  assumes "nd_types s' = nd_types s"
  shows "port_ok U s' p = port_ok U s p" "config_ok U s' c = config_ok U s c"
  by (simp_all add: port_ok_def config_ok_def resolve_type_same [OF assms] type_get_same [OF assms])

context ut_laws
begin

lemma register_ports_ok:
  assumes "core_wf s" "blks s b = Some blk" "b_nd blk" "oom s = []" "apart 39 (port_names s (b_ports blk) @ map pp_name ps)"
    "\<forall>p \<in> set ps. port_ok U s p"
  shows "\<exists>s'. register_ports U b ps s = Some (0, s') \<and> oom s' = []"
  using assms
proof (induction ps arbitrary: s blk)
  case (Cons p ps)
  let ?a = "next_addr s"
  from Cons.prems(6) obtain it ot where ty: "resolve_type U s (pp_in_type_name p) = Inr it" "resolve_type U s (pp_out_type_name p) = Inr ot"
    and len: "length (pp_name p) \<le> 39"
    by (cases "resolve_type U s (pp_in_type_name p)"; cases "resolve_type U s (pp_out_type_name p)") (auto simp: port_ok_def)
  have live: "\<forall>p \<in> set (b_ports blk). prts s p \<noteq> None" using core_wfD(3) [OF Cons.prems(1,2)] by (auto simp: blk_wf_def)
  have "port_find s (b_ports blk) (pp_name p) = Some None"
    using Cons.prems(5) by (intro port_find_absent [OF live]) (auto simp: apart_def sorted_wrt_append)
  from port_add_t_ok [OF Cons.prems(4,2) this len] obtain s1 where
    s1: "ubx_port_add_t U b (pp_name p) (pp_doc p) (pp_attrs p OR PORT_ATTR_CLONED) it (pp_in_data_len p) ot (pp_out_data_len p) s = Some (0, s1)"
      "oom s1 = []" by blast
  then have add: "ubx_port_add U (Some b) (Some (pp_name p)) (pp_doc p) (pp_attrs p OR PORT_ATTR_CLONED)
      (pp_in_type_name p) (pp_in_data_len p) (pp_out_type_name p) (pp_out_data_len p) s = Some (0, s1)"
    using ty Cons.prems(2,3) by (simp add: ubx_port_add_def)
  note t = port_add_t_step [OF Cons.prems(1,2) s1(1)]
  have "apart 39 (port_names s1 (b_ports (blk\<lparr>b_ports := b_ports blk @ [?a]\<rparr>)) @ map pp_name ps)"
    using Cons.prems(5) t(8) by simp
  from Cons.IH [OF t(1,2) _ s1(2) this] Cons.prems(3,6) table_ok_same [OF t(4)] add show ?case by simp
qed simp

lemma register_configs_ok:
  assumes "core_wf s" "blks s b = Some blk" "b_nd blk" "oom s = []" "apart 39 (cfg_names s (b_configs blk) @ map pc_name cs)"
    "\<forall>c \<in> set cs. config_ok U s c"
  shows "\<exists>s'. register_configs U b cs s = Some (0, s') \<and> oom s' = []"
  using assms
proof (induction cs arbitrary: s blk)
  case (Cons c cs)
  let ?a = "next_addr s"
  from Cons.prems(6) obtain ta where ty: "ubx_type_get U s (pc_type_name c) = Some ta"
    and len: "length (pc_name c) \<le> 39" "pc_min c \<le> cfg_max (pc_min c) (pc_max c)" by (auto simp: config_ok_def)
  have live: "\<forall>c \<in> set (b_configs blk). cfgs s c \<noteq> None" using core_wfD(3) [OF Cons.prems(1,2)] by (auto simp: blk_wf_def)
  have "config_find s (b_configs blk) (pc_name c) = Some None"
    using Cons.prems(5) by (intro config_find_absent [OF live]) (auto simp: apart_def sorted_wrt_append)
  from config_add_t_ok [OF Cons.prems(4,2) this len] obtain s1 where
    s1: "ubx_config_add_t U b (pc_name c) (pc_doc c) (Some ta) (pc_min c) (pc_max c) (pc_attrs c OR CONFIG_ATTR_CLONED) s = Some (0, s1)"
      "oom s1 = []" by blast
  then have add: "ubx_config_add2 U (Some b) (Some (pc_name c)) (pc_doc c) (pc_type_name c)
      (pc_min c) (pc_max c) (pc_attrs c OR CONFIG_ATTR_CLONED) s = Some (0, s1)"
    using ty Cons.prems(2,3) by (simp add: ubx_config_add2_def)
  note t = config_add_t_step [OF Cons.prems(1,2) s1(1)]
  have "apart 39 (cfg_names s1 (b_configs (blk\<lparr>b_configs := b_configs blk @ [?a]\<rparr>)) @ map pc_name cs)"
    using Cons.prems(5) t(8) by simp
  from Cons.IH [OF t(1,2) _ s1(2) this] Cons.prems(3,6) table_ok_same [OF t(4)] add show ?case by simp
qed simp

lemma clone_ports_ok:
  assumes "core_wf s" "blks s b = Some blk" "oom s = []" "\<forall>p \<in> set ps. prts s p \<noteq> None"
    "apart 39 (port_names s (b_ports blk) @ port_names s ps)" "\<forall>x \<in> set (port_names s ps). length x \<le> 39"
  shows "\<exists>s'. clone_ports U b ps s = Some (0, s') \<and> oom s' = []"
  using assms
proof (induction ps arbitrary: s blk)
  case (Cons p ps)
  let ?a = "next_addr s"
  from Cons.prems(4) obtain q where q: "prts s p = Some q" by auto
  have live: "\<forall>p \<in> set (b_ports blk). prts s p \<noteq> None" using core_wfD(3) [OF Cons.prems(1,2)] by (auto simp: blk_wf_def)
  have "port_find s (b_ports blk) (p_name q) = Some None"
    using Cons.prems(5) q by (intro port_find_absent [OF live]) (auto simp: apart_def sorted_wrt_append port_names_def)
  moreover have "length (p_name q) \<le> 39" using Cons.prems(6) q by (simp add: port_names_def)
  ultimately obtain s1 where
    s1: "ubx_port_add_t U b (p_name q) None (p_attrs q OR PORT_ATTR_CLONED) (p_in_type q) (p_in_data_len q) (p_out_type q)
      (p_out_data_len q) s = Some (0, s1)" "oom s1 = []" using port_add_t_ok [OF Cons.prems(3,2)] by blast
  note t = port_add_t_step [OF Cons.prems(1,2) s1(1)]
  have live': "\<forall>p \<in> set ps. prts s p \<noteq> None" using Cons.prems(4) by simp
  note nm = port_names_mono [OF t(6) live']
  have "\<forall>p \<in> set ps. prts s1 p \<noteq> None" using live' t(5) by simp
  moreover have "apart 39 (port_names s1 (b_ports (blk\<lparr>b_ports := b_ports blk @ [?a]\<rparr>)) @ port_names s1 ps)"
    using Cons.prems(5) t(8) nm port_names_Cons [of s p q ps, OF q] by simp
  ultimately obtain s2 where "clone_ports U b ps s1 = Some (0, s2)" "oom s2 = []"
    using Cons.IH [OF t(1,2) s1(2)] Cons.prems(6) nm by (auto simp: port_names_def)
  with q s1 show ?case by simp
qed simp

lemma clone_configs_ok:
  assumes "core_wf s" "blks s b = Some blk" "oom s = []"
    "\<forall>c \<in> set cs. \<exists>q. cfgs s c = Some q \<and> c_type q \<noteq> None \<and> c_min q \<le> cfg_max (c_min q) (c_max q)"
    "apart 39 (cfg_names s (b_configs blk) @ cfg_names s cs)" "\<forall>x \<in> set (cfg_names s cs). length x \<le> 39"
  shows "\<exists>s'. clone_configs U b cs s = Some (0, s') \<and> oom s' = []"
  using assms
proof (induction cs arbitrary: s blk)
  case (Cons c cs)
  let ?a = "next_addr s"
  from Cons.prems(4) obtain q ta where q: "cfgs s c = Some q" "c_type q = Some ta" "c_min q \<le> cfg_max (c_min q) (c_max q)" by auto
  have live: "\<forall>c \<in> set (b_configs blk). cfgs s c \<noteq> None" using core_wfD(3) [OF Cons.prems(1,2)] by (auto simp: blk_wf_def)
  have "config_find s (b_configs blk) (c_name q) = Some None"
    using Cons.prems(5) q by (intro config_find_absent [OF live]) (auto simp: apart_def sorted_wrt_append cfg_names_def)
  moreover have "length (c_name q) \<le> 39" using Cons.prems(6) q by (simp add: cfg_names_def)
  ultimately obtain s1 where
    s1: "ubx_config_add_t U b (c_name q) None (Some ta) (c_min q) (c_max q) (c_attrs q OR CONFIG_ATTR_CLONED) s = Some (0, s1)"
      "oom s1 = []" using config_add_t_ok [OF Cons.prems(3,2) _ _ q(3)] by blast
  note t = config_add_t_step [OF Cons.prems(1,2) s1(1)]
  have live': "\<forall>c \<in> set cs. cfgs s c \<noteq> None" using Cons.prems(4) by fastforce
  note nm = cfg_names_mono [OF t(6) live']
  have "\<forall>c \<in> set cs. \<exists>q. cfgs s1 c = Some q \<and> c_type q \<noteq> None \<and> c_min q \<le> cfg_max (c_min q) (c_max q)"
    using Cons.prems(4) map_leD [OF t(6)] by fastforce
  moreover have "apart 39 (cfg_names s1 (b_configs (blk\<lparr>b_configs := b_configs blk @ [?a]\<rparr>)) @ cfg_names s1 cs)"
    using Cons.prems(5) t(8) nm cfg_names_Cons [of s c q cs, OF q(1)] by simp
  ultimately obtain s2 where "clone_configs U b cs s1 = Some (0, s2)" "oom s2 = []"
    using Cons.IH [OF t(1,2) s1(2)] Cons.prems(6) nm by (auto simp: cfg_names_def)
  with q s1 show ?case by simp
qed simp

end

text \<open>A prototype that a node can register: names that fit and \<open>strncmp\<close> tells apart, known types, possible ranges, a block type.\<close>

definition proto_ok :: "ut_lib \<Rightarrow> 'w ubx \<Rightarrow> ubx_proto_block \<Rightarrow> bool" where
  "proto_ok U s prot \<longleftrightarrow> length (pb_name prot) \<le> 63 \<and>
     (pb_type prot = BLOCK_TYPE_COMPUTATION \<or> pb_type prot = BLOCK_TYPE_INTERACTION) \<and>
     apart 39 (map pp_name (pb_ports prot)) \<and> apart 39 (map pc_name (pb_configs prot)) \<and>
     (\<forall>p \<in> set (pb_ports prot). port_ok U s p) \<and> (\<forall>c \<in> set (pb_configs prot). config_ok U s c)"

context ut_laws
begin

lemma block_register_ok:
  assumes wf: "core_wf s" and o: "oom s = []" and ok: "proto_ok U s prot" and new: "ubx_block_get U s (Some (pb_name prot)) = None"
  shows "\<exists>s'. ubx_block_register U prot s = Some (0, s') \<and> oom s' = []"
proof -
  let ?a = "next_addr s"
  let ?s3 = "s\<lparr>next_addr := Suc ?a, oom := [], blks := (blks s)(?a \<mapsto> register_new prot True)\<rparr>"
  have al: "calloc s = (Some ?a, s\<lparr>next_addr := Suc ?a, oom := []\<rparr>)" using o by (simp add: calloc_def)
  have e: "ubx_block_register U prot s = (do {
            (ret, s) \<leftarrow> register_ports U ?a (pb_ports prot) ?s3;
            if ret \<noteq> 0 then do { s \<leftarrow> ubx_block_free U ?a s; Some (ret, s) }
            else do {
              (ret, s) \<leftarrow> register_configs U ?a (pb_configs prot) s;
              if ret \<noteq> 0 then do { s \<leftarrow> ubx_block_free U ?a s; Some (ret, s) }
              else block_register_t U ?a s } })"
    using ok al by (simp add: ubx_block_register_def mem_alloc_def proto_ok_def Let_def UBX_BLOCK_NAME_MAXLEN_def)
  have b3: "blks ?s3 ?a = Some (register_new prot True)" by simp
  have wf3: "core_wf ?s3" using core_wf_new_blk [OF wf, of "register_new prot True" "[]"] by (simp add: register_new_def)
  have rn: "b_ports (register_new prot True) = []" "b_configs (register_new prot True) = []" "b_nd (register_new prot True)"
    by (simp_all add: register_new_def)
  have same: "nd_types ?s3 = nd_types s" by simp
  have "\<forall>p \<in> set (pb_ports prot). port_ok U ?s3 p" unfolding table_ok_same [OF same] using ok by (simp add: proto_ok_def)
  from register_ports_ok [OF wf3 b3 rn(3) _ _ this] ok rn(1) obtain s4 where
    s4: "register_ports U ?a (pb_ports prot) ?s3 = Some (0, s4)" "oom s4 = []"
    by (auto simp: proto_ok_def port_names_def)
  from register_ports_table [OF wf3 b3 s4(1)] obtain ps where
    ps: "blks s4 ?a = Some ((register_new prot True)\<lparr>b_ports := ps\<rparr>)" "nd_types s4 = nd_types s"
    by (auto simp: register_new_def port_names_def apart_def)
  from register_ports_wf [OF wf3 s4(1)] have w4: "core_wf s4" by blast
  from register_configs_ok [OF w4 ps(1), of "pb_configs prot"] ok s4 obtain s5 where
    s5: "register_configs U ?a (pb_configs prot) s4 = Some (0, s5)" "oom s5 = []"
    by (auto simp: register_new_def proto_ok_def cfg_names_def table_ok_same [OF ps(2)])
  from register_configs_table [OF w4 ps(1) s5(1)] obtain cs where
    cs: "blks s5 ?a = Some ((register_new prot True)\<lparr>b_ports := ps, b_configs := cs\<rparr>)"
    by (auto simp: register_new_def cfg_names_def apart_def)
  have "nd_blocks s5 = nd_blocks s" using register_ports_wf [OF wf3 s4(1)] register_configs_wf [OF w4 s5(1)] by (auto simp: grow_def)
  then obtain s' where "block_register_t U ?a s5 = Some (0, s')" "oom s' = []"
    using cs ok new s5(2) by (auto simp: block_register_t_def ubx_block_check_def register_new_def proto_ok_def ubx_block_get_def
        UBX_BLOCK_NAME_MAXLEN_def)
  with e s4 s5 show ?thesis by simp
qed

lemma block_create_ok:
  assumes wf: "core_wf s" and o: "oom s = []" and n: "length n \<le> 63"
    and prot: "ubx_block_get U s (Some type) = Some prot" "blks s prot = Some pb" and new: "ubx_block_get U s (Some n) = None"
    and ty: "b_type pb = BLOCK_TYPE_COMPUTATION \<or> b_type pb = BLOCK_TYPE_INTERACTION"
    and ps: "apart 39 (port_names s (b_ports pb))" "\<forall>x \<in> set (port_names s (b_ports pb)). length x \<le> 39"
    and cs: "apart 39 (cfg_names s (b_configs pb))" "\<forall>x \<in> set (cfg_names s (b_configs pb)). length x \<le> 39"
      "\<forall>c \<in> set (b_configs pb). \<forall>q. cfgs s c = Some q \<longrightarrow> c_min q \<le> cfg_max (c_min q) (c_max q)"
  shows "\<exists>a s'. ubx_block_create U type (Some n) s = Some (Some a, s') \<and> oom s' = []"
proof -
  let ?a = "next_addr s" and ?nb = "clone_new prot n pb"
  let ?s2 = "s\<lparr>next_addr := Suc ?a, oom := [], blks := (blks s)(?a \<mapsto> ?nb)\<rparr>"
  have al: "calloc s = (Some ?a, s\<lparr>next_addr := Suc ?a, oom := []\<rparr>)" using o by (simp add: calloc_def)
  note bw = core_wfD(3) [OF wf prot(2)]
  have wf2: "core_wf ?s2" using core_wf_new_blk [OF wf, of ?nb "[]"] by (simp add: clone_new_def)
  have b2: "blks ?s2 ?a = Some ?nb" by simp
  have live: "\<forall>c \<in> set (b_configs pb). \<exists>q. cfgs ?s2 c = Some q \<and> c_type q \<noteq> None" "\<forall>p \<in> set (b_ports pb). prts ?s2 p \<noteq> None"
    using bw by (auto simp: blk_wf_def)
  have "\<forall>c \<in> set (b_configs pb). \<exists>q. cfgs ?s2 c = Some q \<and> c_type q \<noteq> None \<and> c_min q \<le> cfg_max (c_min q) (c_max q)"
    using live(1) cs(3) by fastforce
  from clone_configs_ok [OF wf2 b2 _ this] cs(1,2) obtain s3 where
    s3: "clone_configs U ?a (b_configs pb) ?s2 = Some (0, s3)" "oom s3 = []" by (auto simp: cfg_names_def clone_new_def)
  from clone_configs_wf [OF wf2 b2 live(1) s3(1)] have w3: "core_wf s3" "nd_blocks s3 = nd_blocks s" by (auto simp: grow_def)
  from clone_configs_copy [OF wf2 b2 live(1) s3(1)] obtain ds where
    c3: "blks s3 ?a = Some (?nb\<lparr>b_configs := ds\<rparr>)" "prts s3 = prts s" by (auto simp: clone_new_def)
  from clone_ports_ok [OF w3(1) c3(1) s3(2), of "b_ports pb"] live(2) ps c3(2) obtain s4 where
    s4: "clone_ports U ?a (b_ports pb) s3 = Some (0, s4)" "oom s4 = []" by (auto simp: port_names_def clone_new_def)
  from clone_ports_wf [OF w3(1) c3(1) s4(1)] w3(2) have w4: "nd_blocks s4 = nd_blocks s" by (auto simp: grow_def)
  from clone_ports_copy [OF w3(1) c3(1) _ s4(1)] live(2) c3(2) obtain es where
    c4: "blks s4 ?a = Some (?nb\<lparr>b_configs := ds, b_ports := es\<rparr>)" by (auto simp: clone_new_def)
  have "ubx_block_clone U prot n s = Some (Some ?a, s4)" using block_clone_do [OF prot(2) al, where name = n] s3 s4 by simp
  moreover obtain s' where "block_register_t U ?a s4 = Some (0, s')" "oom s' = []"
    using c4 w4 ty n new s4(2) by (auto simp: block_register_t_def ubx_block_check_def clone_new_def ubx_block_get_def
        UBX_BLOCK_NAME_MAXLEN_def)
  ultimately show ?thesis using prot new by (auto simp: ubx_block_create_def ubx_block_get_def)
qed

end

text \<open>From \<open>s\<close> to \<open>t\<close> a block \<open>a\<close> with its ports, configs and values was added under the name \<open>m\<close>, and nothing else.\<close>

definition extends_by :: "string \<Rightarrow> addr \<Rightarrow> ubx_block \<Rightarrow> 'w ubx \<Rightarrow> 'w ubx \<Rightarrow> bool" where
  "extends_by m a blk s t \<longleftrightarrow> nd_blocks t = nd_blocks s @ [(m, a)] \<and> nd_types t = nd_types s \<and> blks s a = None \<and> blks t = (blks s)(a \<mapsto> blk) \<and>
     (\<forall>p \<in> set (b_ports blk). prts s p = None) \<and> (\<forall>p. p \<notin> set (b_ports blk) \<longrightarrow> prts t p = prts s p) \<and>
     (\<forall>c \<in> set (b_configs blk). cfgs s c = None) \<and> (\<forall>c. c \<notin> set (b_configs blk) \<longrightarrow> cfgs t c = cfgs s c) \<and>
     (\<forall>ext. rc_inv s ext \<longrightarrow> rc_inv t ext)"

lemma extends_by_adds:
  assumes "adds a s0 s1" "blks s0 = (blks s)(a \<mapsto> nb)" "blks s a = None" "prts s0 = prts s" "cfgs s0 = cfgs s" "nd_blocks s0 = nd_blocks s" "nd_types s0 = nd_types s"
    "b_ports nb = []" "b_configs nb = []" "\<forall>ext. rc_inv s ext \<longrightarrow> rc_inv s0 ext"
    "t = s1\<lparr>nd_blocks := nd_blocks s @ [(m, a)], blks := (blks s1)(a \<mapsto> blk)\<rparr>" "blks s1 a = Some bx" "b_ports blk = b_ports bx" "b_configs blk = b_configs bx"
  shows "extends_by m a blk s t"
proof -
  from assms(1) obtain bb ps cs where a: "blks s0 a = Some bb" "nd_blocks s1 = nd_blocks s0"
    "blks s1 = (blks s0)(a \<mapsto> bb\<lparr>b_ports := b_ports bb @ ps, b_configs := b_configs bb @ cs\<rparr>)"
    "\<forall>p \<in> set ps. prts s0 p = None" "\<forall>p. p \<notin> set ps \<longrightarrow> prts s1 p = prts s0 p"
    "\<forall>c \<in> set cs. cfgs s0 c = None" "\<forall>c. c \<notin> set cs \<longrightarrow> cfgs s1 c = cfgs s0 c" "\<forall>ext. rc_inv s0 ext \<longrightarrow> rc_inv s1 ext"
    unfolding adds_def by blast
  have bb: "bb = nb" using a(1) assms(2) by simp
  have l: "b_ports blk = ps" "b_configs blk = cs" using a(3) assms(8,9,12-14) by (auto simp: bb)
  have "rc_inv t ext" if "rc_inv s ext" for ext
  proof -
    from that assms(10) a(8) have "rc_inv s1 ext" by blast
    then show ?thesis by (rule rc_inv_cong) (simp_all add: assms(11))
  qed
  moreover have "nd_types s1 = nd_types s0" using assms(1) by (simp add: adds_def)
  ultimately show ?thesis using a assms(3-7) unfolding extends_by_def l
    by (simp add: assms(2,11))
qed

context ut_laws
begin

lemma register_extends:
  assumes wf: "core_wf s" and r: "ubx_block_register U prot s = Some (0, s')"
  shows "\<exists>a blk. extends_by (pb_name prot) a blk s s' \<and> core_wf s'"
proof -
  let ?a = "next_addr s"
  from block_register_inv [OF assms] obtain mok q s3 s4 s5 where
    s3: "s3 = s\<lparr>next_addr := Suc ?a, oom := q, blks := (blks s)(?a \<mapsto> register_new prot mok)\<rparr>"
    and s4: "register_ports U ?a (pb_ports prot) s3 = Some (0, s4)"
    and s5: "register_configs U ?a (pb_configs prot) s4 = Some (0, s5)" and t: "block_register_t U ?a s5 = Some (0, s')"
    and wf3: "core_wf s3" and w4: "core_wf s4" and w5: "core_wf s5" and nb: "nd_blocks s5 = nd_blocks s"
    and len: "\<not> length (pb_name prot) > UBX_BLOCK_NAME_MAXLEN" .
  have b3: "blks s3 ?a = Some (register_new prot mok)" by (simp add: s3)
  note a4 = register_ports_adds [OF wf3 b3 s4]
  then obtain b4 where b4: "blks s4 ?a = Some b4" by (auto simp: adds_def)
  note ad = adds_trans [OF a4 register_configs_adds [OF w4 b4 s5]]
  then obtain ps cs where b5: "blks s5 ?a = Some ((register_new prot mok)\<lparr>b_ports := ps, b_configs := cs\<rparr>)"
    using b3 by (auto simp: adds_def register_new_def)
  have nm: "b_name ((register_new prot mok)\<lparr>b_ports := ps, b_configs := cs\<rparr>) = pb_name prot" using len by (simp add: register_new_def)
  have f: "ut_find U (nd_blocks s) (pb_name prot) = None"
    and s': "s' = s5\<lparr>nd_blocks := ut_add U (nd_blocks s) (pb_name prot) ?a,
      blks := (blks s5)(?a \<mapsto> ((register_new prot mok)\<lparr>b_ports := ps, b_configs := cs\<rparr>)\<lparr>b_nd := True\<rparr>)\<rparr>"
    using t b5 nb nm by (auto simp: block_register_t_def split: if_splits)
  have ap: "ut_add U (nd_blocks s) (pb_name prot) ?a = nd_blocks s @ [(pb_name prot, ?a)]"
    using f fresh_addr(2) [OF wf] core_wfD(1) [OF wf] by (simp add: add_law find_None)
  have rc: "\<forall>ext. rc_inv s ext \<longrightarrow> rc_inv s3 ext" by (auto intro: rc_inv_cong simp: s3)
  have "extends_by (pb_name prot) ?a (((register_new prot mok)\<lparr>b_ports := ps, b_configs := cs\<rparr>)\<lparr>b_nd := True\<rparr>) s s'"
    by (rule extends_by_adds [OF ad, where nb = "register_new prot mok" and bx = "(register_new prot mok)\<lparr>b_ports := ps, b_configs := cs\<rparr>"])
      (use fresh_addr(1) [OF wf] rc b5 s' ap in \<open>simp_all add: s3 register_new_def\<close>)
  with block_register_wf [OF wf r] show ?thesis by blast
qed

lemma unregister_undo:
  assumes wf: "core_wf t" and x: "extends_by m a blk s t"
  shows "\<exists>s'. ubx_block_unregister U m t = Some (0, s') \<and> core_wf s' \<and> (\<forall>ext. rc_inv t ext \<longrightarrow> rc_inv s' ext) \<and>
    nd_blocks s' = nd_blocks s \<and> blks s' = blks s \<and> prts s' = prts s \<and> cfgs s' = cfgs s \<and> nd_types s' = nd_types s"
proof -
  from x have b: "blks t a = Some blk" and m: "(m, a) \<in> set (nd_blocks t)" by (simp_all add: extends_by_def)
  from block_unregister_wf [OF wf m] obtain s' where
    u: "ubx_block_unregister U m t = Some (0, s')" "core_wf s'" "nd_blocks s' = filter (\<lambda>e. fst e \<noteq> m) (nd_blocks t)"
      "blks s' = (blks t)(a := None)" "heap_only (t\<lparr>nd_blocks := filter (\<lambda>e. fst e \<noteq> m) (nd_blocks t)\<rparr>) s'" by blast
  have f: "ut_find U (nd_blocks t) m = Some a" using m core_wfD(1) [OF wf] by (simp add: find_iff)
  let ?t1 = "t\<lparr>nd_blocks := ut_del U (nd_blocks t) a\<rparr>"
  have fr: "ubx_block_free U a ?t1 = Some s'" using u(1) f b by (auto simp: ubx_block_unregister_def)
  have rc: "rc_inv s' ext \<and> cfgs s' = (\<lambda>c. if c \<in> set (b_configs blk) then None else cfgs t c) \<and>
      prts s' = (\<lambda>p. if p \<in> set (b_ports blk) then None else prts t p)" if r: "rc_inv t ext" for ext
  proof -
    have "rc_inv ?t1 ext" using r by (rule rc_inv_cong) simp_all
    from block_free_ok [OF this, of a blk] b core_wfD(3) [OF wf b] fr show ?thesis by auto
  qed
  from wf obtain ext0 where "rc_inv t ext0" by (auto simp: core_wf_def)
  note e = rc [OF this]
  have "htab_ok (nd_blocks t)" by (rule core_wfD(1) [OF wf])
  then have "filter (\<lambda>e. fst e \<noteq> m) (nd_blocks t) = nd_blocks s"
    using x by (auto simp: extends_by_def htab_ok_def keys_def filter_id_conv)
  moreover have "cfgs s' = cfgs s" "prts s' = prts s"
    using x e by (auto simp: extends_by_def fun_eq_iff)
  moreover have "blks s' = blks s" using x u(4) by (auto simp: extends_by_def fun_eq_iff)
  moreover have "nd_types s' = nd_types s" using x heap_onlyD(4) [OF u(5)] by (simp add: extends_by_def)
  ultimately show ?thesis using u rc by simp
qed

end

context ut_laws
begin

lemma clone_adds:
  assumes wf: "core_wf s" and pb: "blks s prot = Some pb" and r: "ubx_block_clone U prot n s = Some (Some a, s')"
  shows "\<exists>k q. a = next_addr s \<and> k = Suc a \<and> core_wf s' \<and>
    adds a (s\<lparr>next_addr := k, oom := q, blks := (blks s)(a \<mapsto> clone_new prot n pb)\<rparr>) s'"
proof (cases s rule: calloc_cases)
  case fail
  with r pb show ?thesis by (auto simp: ubx_block_clone_def split: if_splits)
next
  case c: ok
  let ?a = "next_addr s" and ?nb = "clone_new prot n pb"
  let ?s2 = "s\<lparr>next_addr := Suc ?a, oom := tl (oom s), blks := (blks s)(?a \<mapsto> ?nb)\<rparr>"
  note r = r [unfolded block_clone_do [OF pb c]]
  have wf2: "core_wf ?s2" using core_wf_new_blk [OF wf, of ?nb "tl (oom s)"] by (simp add: clone_new_def)
  have b2: "blks ?s2 ?a = Some ?nb" by simp
  have live: "\<forall>c \<in> set (b_configs pb). \<exists>q. cfgs ?s2 c = Some q \<and> c_type q \<noteq> None"
    using core_wfD(3) [OF wf pb] by (auto simp: blk_wf_def)
  from r obtain s3 where s3: "clone_configs U ?a (b_configs pb) ?s2 = Some (0, s3)" by (auto split: if_splits)
  from clone_configs_wf [OF wf2 b2 live s3] have w3: "core_wf s3" by blast
  note a3 = clone_configs_adds [OF wf2 b2 live s3]
  then obtain b3 where b3: "blks s3 ?a = Some b3" by (auto simp: adds_def)
  from r s3 have s4: "clone_ports U ?a (b_ports pb) s3 = Some (0, s')" and a: "a = ?a" by (auto split: if_splits)
  from adds_trans [OF a3 clone_ports_adds [OF w3 b3 s4]] clone_ports_wf [OF w3 b3 s4] a show ?thesis by blast
qed

lemma create_extends:
  assumes wf: "core_wf s" and r: "ubx_block_create U type (Some n) s = Some (Some a, s')" and n: "length n \<le> 63"
    and prot: "ubx_block_get U s (Some type) = Some prot" "blks s prot = Some pb"
    and ty: "b_type pb = BLOCK_TYPE_COMPUTATION \<or> b_type pb = BLOCK_TYPE_INTERACTION"
  shows "\<exists>blk. extends_by n a blk s s' \<and> core_wf s' \<and> b_prototype blk = Some prot \<and> b_state blk = BLOCK_STATE_PREINIT"
proof -
  have f: "ut_find U (nd_blocks s) type = Some prot" using prot(1) by (simp add: ubx_block_get_def)
  from r f prot(2) have nx: "ut_find U (nd_blocks s) n = None" by (auto simp: ubx_block_create_def split: if_splits)
  from r f prot(2) nx obtain b s1 r2 s2 where s1: "ubx_block_clone U prot n s = Some (Some b, s1)"
    and s2: "block_register_t U b s1 = Some (r2, s2)" and a: "a = b"
      "if r2 \<noteq> 0 then ubx_block_free U b s2 = Some s' else s' = s2"
    by (auto simp: ubx_block_create_def split: option.splits if_splits)
  let ?nb = "clone_new prot n pb"
  from clone_adds [OF wf prot(2) s1] a(1) obtain k q where k: "a = next_addr s"
    and ad: "adds a (s\<lparr>next_addr := k, oom := q, blks := (blks s)(a \<mapsto> ?nb)\<rparr>) s1" and kk: "k = Suc a" by blast
  then obtain ps cs where b1: "blks s1 a = Some (?nb\<lparr>b_ports := ps, b_configs := cs\<rparr>)" "nd_blocks s1 = nd_blocks s"
    by (auto simp: adds_def)
  have nm: "b_name (?nb\<lparr>b_ports := ps, b_configs := cs\<rparr>) = n" using n by (simp add: clone_new_def UBX_BLOCK_NAME_MAXLEN_def)
  have s': "s' = s1\<lparr>nd_blocks := ut_add U (nd_blocks s) n a,
      blks := (blks s1)(a \<mapsto> (?nb\<lparr>b_ports := ps, b_configs := cs\<rparr>)\<lparr>b_nd := True\<rparr>)\<rparr>"
    using s2 a b1 nm nx ty by (auto simp: block_register_t_def ubx_block_check_def clone_new_def)
  have ap: "ut_add U (nd_blocks s) n a = nd_blocks s @ [(n, a)]"
    using nx fresh_addr(2) [OF wf] core_wfD(1) [OF wf] by (simp add: add_law find_None k)
  have rc: "\<forall>ext. rc_inv s ext \<longrightarrow> rc_inv (s\<lparr>next_addr := k, oom := q, blks := (blks s)(a \<mapsto> ?nb)\<rparr>) ext"
    by (auto intro: rc_inv_cong simp: kk k)
  have "extends_by n a ((?nb\<lparr>b_ports := ps, b_configs := cs\<rparr>)\<lparr>b_nd := True\<rparr>) s s'"
    by (rule extends_by_adds [OF ad, where nb = ?nb and bx = "?nb\<lparr>b_ports := ps, b_configs := cs\<rparr>"])
      (use fresh_addr(1) [OF wf] rc b1 s' ap in \<open>simp_all add: k clone_new_def\<close>)
  moreover have "core_wf s'" using block_create_wf [OF wf r] by blast
  moreover have "b_prototype ((?nb\<lparr>b_ports := ps, b_configs := cs\<rparr>)\<lparr>b_nd := True\<rparr>) = Some prot"
    "b_state ((?nb\<lparr>b_ports := ps, b_configs := cs\<rparr>)\<lparr>b_nd := True\<rparr>) = BLOCK_STATE_PREINIT" by (simp_all add: clone_new_def)
  ultimately show ?thesis by blast
qed

end

text \<open>The same objects are live, and the values are referenced as often. (The allocator may have moved on.)\<close>

definition same_store :: "'w ubx \<Rightarrow> 'w ubx \<Rightarrow> bool" where
  "same_store s t \<longleftrightarrow> nd_blocks t = nd_blocks s \<and> nd_types t = nd_types s \<and> blks t = blks s \<and> prts t = prts s \<and> cfgs t = cfgs s \<and>
     (\<forall>d. map_option d_refcnt (dats t d) = map_option d_refcnt (dats s d))"

lemma rc_inv_same:
  assumes "rc_inv s ext" "rc_inv t ext" "cfgs t = cfgs s"
  shows "map_option d_refcnt (dats t d) = map_option d_refcnt (dats s d)"
proof -
  from assms have "rc_fun (dats s) (nrefs (cfgs s) ext)" "rc_fun (dats t) (nrefs (cfgs s) ext)" by (simp_all add: rc_inv_def)
  then show ?thesis unfolding rc_fun_def
    by (auto dest!: spec [of _ d] split: option.splits)
qed

section \<open>Instances\<close>

text \<open>The port and the config of an instance made from an entry of the tables of its prototype.\<close>

definition inst_port :: "ut_lib \<Rightarrow> 'w ubx \<Rightarrow> addr \<Rightarrow> ubx_proto_port \<Rightarrow> ubx_port \<Rightarrow> bool" where
  "inst_port U s a p q \<longleftrightarrow> p_name q = pp_name p \<and> p_block q = a \<and> p_attrs q = (pp_attrs p OR PORT_ATTR_CLONED) \<and>
     resolve_type U s (pp_in_type_name p) = Inr (p_in_type q) \<and> resolve_type U s (pp_out_type_name p) = Inr (p_out_type q) \<and>
     p_in_data_len q = (if pp_in_data_len p = 0 then 1 else pp_in_data_len p) \<and>
     p_out_data_len q = (if pp_out_data_len p = 0 then 1 else pp_out_data_len p) \<and>
     p_in_interaction q = None \<and> p_out_interaction q = None"

definition inst_cfg :: "ut_lib \<Rightarrow> 'w ubx \<Rightarrow> addr \<Rightarrow> ubx_proto_config \<Rightarrow> ubx_config \<Rightarrow> bool" where
  "inst_cfg U s a c q \<longleftrightarrow> c_name q = pc_name c \<and> c_block q = a \<and> c_attrs q = (pc_attrs c OR CONFIG_ATTR_CLONED) \<and>
     c_type q \<noteq> None \<and> c_type q = ubx_type_get U s (pc_type_name c) \<and>
     c_min q = pc_min c \<and> c_max q = cfg_max (pc_min c) (pc_max c)"

lemma cfg_max_idem: "cfg_max mn (cfg_max mn mx) = cfg_max mn mx"
  by (simp add: cfg_max_def)

lemma copied_reg_port:
  assumes "reg_port U s b p x" "copied_port s s' a x y"
  shows "\<exists>q. prts s' y = Some q \<and> inst_port U s a p q"
proof -
  from assms(1) obtain it ot where "resolve_type U s (pp_in_type_name p) = Inr it" "resolve_type U s (pp_out_type_name p) = Inr ot"
    "length (pp_name p) \<le> 39"
    "prts s x = Some (new_port b (pp_name p) (pp_doc p) (pp_attrs p OR PORT_ATTR_CLONED) it (pp_in_data_len p) ot (pp_out_data_len p))"
    unfolding reg_port_def by blast
  with assms(2) show ?thesis
    by (auto simp: copied_port_def inst_port_def new_port_def UBX_PORT_NAME_MAXLEN_def or.assoc)
qed

lemma copied_reg_cfg:
  assumes "reg_cfg U s b c x" "copied_cfg s s' a x y"
  shows "\<exists>q. cfgs s' y = Some q \<and> inst_cfg U s a c q"
  using assms by (auto simp: reg_cfg_def copied_cfg_def inst_cfg_def cfg_max_idem or.assoc)

lemma inst_port_names:
  "list_all2 (reg_port U s b) ps rs \<Longrightarrow> list_all2 (copied_port s s' a) rs qs \<Longrightarrow>
     port_names s rs = map pp_name ps \<and> port_names s' qs = map pp_name ps"
proof (induction ps rs arbitrary: qs rule: list_all2_induct)
  case (Cons p ps r rs)
  from Cons.prems obtain q qs' where q: "qs = q # qs'" "copied_port s s' a r q" "list_all2 (copied_port s s' a) rs qs'"
    by (auto simp: list_all2_Cons1)
  with copied_reg_port [OF Cons.hyps(1) q(2)] Cons.IH [OF q(3)] Cons.hyps(1) show ?case
    by (auto simp: port_names_def inst_port_def reg_port_def new_port_def UBX_PORT_NAME_MAXLEN_def)
qed (simp add: port_names_def)

lemma inst_cfg_names:
  "list_all2 (reg_cfg U s b) cs ds \<Longrightarrow> list_all2 (copied_cfg s s' a) ds es \<Longrightarrow>
     cfg_names s ds = map pc_name cs \<and> cfg_names s' es = map pc_name cs"
proof (induction cs ds arbitrary: es rule: list_all2_induct)
  case (Cons c cs r rs)
  from Cons.prems obtain q qs' where q: "es = q # qs'" "copied_cfg s s' a r q" "list_all2 (copied_cfg s s' a) rs qs'"
    by (auto simp: list_all2_Cons1)
  with copied_reg_cfg [OF Cons.hyps(1) q(2)] Cons.IH [OF q(3)] Cons.hyps(1) show ?case
    by (auto simp: cfg_names_def inst_cfg_def reg_cfg_def)
qed (simp add: cfg_names_def)

text \<open>An instance is found under its name and finds its ports and configs under theirs.\<close>

lemma instance_lookup:
  assumes U: "ut_laws U" and wf: "core_wf s" and n: "length n \<le> 63"
    and reg: "ubx_block_register U prot s = Some (0, s1)"
    and cre: "ubx_block_create U (pb_name prot) (Some n) s1 = Some (Some a, s2)"
  shows "ubx_block_get U s2 (Some n) = Some a \<and>
    (\<exists>blk. blks s2 a = Some blk \<and> length (b_ports blk) = length (pb_ports prot) \<and> length (b_configs blk) = length (pb_configs prot)) \<and>
    (\<forall>i < length (pb_ports prot). \<exists>x q. ubx_port_get (Some a) (Some (pp_name (pb_ports prot ! i))) s2 = Some (Some x) \<and>
       prts s2 x = Some q \<and> inst_port U s1 a (pb_ports prot ! i) q) \<and>
    (\<forall>i < length (pb_configs prot). \<exists>x q. ubx_config_get (Some a) (Some (pc_name (pb_configs prot ! i))) s2 = Some (Some x) \<and>
       cfgs s2 x = Some q \<and> inst_cfg U s1 a (pb_configs prot ! i) q)"
proof -
  from ut_laws.block_register_table [OF U wf reg] obtain b ps cs m where
    get: "\<forall>m. ubx_block_get U s1 (Some m) = (if m = pb_name prot then Some b else ubx_block_get U s (Some m))" and ps: "list_all2 (reg_port U s1 b) (pb_ports prot) ps"
    and cs: "list_all2 (reg_cfg U s1 b) (pb_configs prot) cs"
    and ap: "apart 39 (port_names s1 ps)" "apart 39 (cfg_names s1 cs)"
    and pb: "blks s1 b = Some ((register_new prot m)\<lparr>b_ports := ps, b_configs := cs, b_nd := True\<rparr>)"
    and w1: "core_wf s1" and ty: "pb_type prot = BLOCK_TYPE_COMPUTATION \<or> pb_type prot = BLOCK_TYPE_INTERACTION"
    by (elim conjE exE) (rule that)
  have "b_type ((register_new prot m)\<lparr>b_ports := ps, b_configs := cs, b_nd := True\<rparr>) = BLOCK_TYPE_COMPUTATION \<or>
    b_type ((register_new prot m)\<lparr>b_ports := ps, b_configs := cs, b_nd := True\<rparr>) = BLOCK_TYPE_INTERACTION"
    using ty by (simp add: register_new_def)
  moreover have "ubx_block_get U s1 (Some (pb_name prot)) = Some b" using get by simp
  ultimately have spec: "\<forall>m. ubx_block_get U s2 (Some m) = (if m = n then Some a else ubx_block_get U s1 (Some m))"
    "\<exists>ps' cs' blk. blks s2 a = Some blk \<and> b_ports blk = ps' \<and> b_configs blk = cs' \<and>
      list_all2 (copied_port s1 s2 a) (b_ports ((register_new prot m)\<lparr>b_ports := ps, b_configs := cs, b_nd := True\<rparr>)) ps' \<and>
      list_all2 (copied_cfg s1 s2 a) (b_configs ((register_new prot m)\<lparr>b_ports := ps, b_configs := cs, b_nd := True\<rparr>)) cs'"
    using block_create_spec [OF U w1 cre n _ pb] by (blast, metis (no_types, lifting) ubx_block.select_convs(6,7))
  then obtain ps' cs' blk where
    sp: "\<forall>m. ubx_block_get U s2 (Some m) = (if m = n then Some a else ubx_block_get U s1 (Some m))"
      "blks s2 a = Some blk" "b_ports blk = ps'" "b_configs blk = cs'"
      "list_all2 (copied_port s1 s2 a) ps ps'" "list_all2 (copied_cfg s1 s2 a) cs cs'"
    by auto
  from inst_port_names [OF ps sp(5)] ap(1) have pn: "apart 39 (port_names s2 ps')" "port_names s2 ps' = map pp_name (pb_ports prot)" by auto
  from inst_cfg_names [OF cs sp(6)] ap(2) have cn: "apart 39 (cfg_names s2 cs')" "cfg_names s2 cs' = map pc_name (pb_configs prot)" by auto
  have len: "length ps' = length (pb_ports prot)" "length ps = length (pb_ports prot)"
      "length cs' = length (pb_configs prot)" "length cs = length (pb_configs prot)"
    using list_all2_lengthD [OF ps] list_all2_lengthD [OF sp(5)] list_all2_lengthD [OF cs] list_all2_lengthD [OF sp(6)] by simp_all
  have P: "\<exists>q. prts s2 (ps' ! i) = Some q \<and> inst_port U s1 a (pb_ports prot ! i) q" if "i < length (pb_ports prot)" for i
    using copied_reg_port [OF list_all2_nthD [OF ps that] list_all2_nthD [OF sp(5)]] that len by simp
  have C: "\<exists>q. cfgs s2 (cs' ! i) = Some q \<and> inst_cfg U s1 a (pb_configs prot ! i) q" if "i < length (pb_configs prot)" for i
    using copied_reg_cfg [OF list_all2_nthD [OF cs that] list_all2_nthD [OF sp(6)]] that len by simp
  have lp: "\<forall>p \<in> set ps'. prts s2 p \<noteq> None" using P len(1) by (fastforce simp: in_set_conv_nth)
  have lc: "\<forall>c \<in> set cs'. cfgs s2 c \<noteq> None" using C len(3) by (fastforce simp: in_set_conv_nth)
  have "ubx_port_get (Some a) (Some (pp_name (pb_ports prot ! i))) s2 = Some (Some (ps' ! i))" if "i < length (pb_ports prot)" for i
    using port_find_nth [OF lp pn(1), of i] that len sp(2,3) pn(2) by (simp add: ubx_port_get_def)
  moreover have "ubx_config_get (Some a) (Some (pc_name (pb_configs prot ! i))) s2 = Some (Some (cs' ! i))" if "i < length (pb_configs prot)" for i
    using config_find_nth [OF lc cn(1), of i] that len sp(2,4) cn(2) by (simp add: ubx_config_get_def)
  ultimately show ?thesis using sp(1-4) len P C by simp
qed

lemma instance_create:
  assumes U: "ut_laws U" and wf: "core_wf s" and o: "oom s = []" and ok: "proto_ok U s prot" and n: "length n \<le> 63" "n \<noteq> pb_name prot"
    and new: "ubx_block_get U s (Some (pb_name prot)) = None" "ubx_block_get U s (Some n) = None"
  shows "\<exists>s1 a s2. ubx_block_register U prot s = Some (0, s1) \<and> nd_types s1 = nd_types s \<and>
    ubx_block_create U (pb_name prot) (Some n) s1 = Some (Some a, s2)"
proof -
  from ut_laws.block_register_ok [OF U wf o ok new(1)] obtain s1 where
    s1: "ubx_block_register U prot s = Some (0, s1)" "oom s1 = []" by blast
  from ut_laws.block_register_table [OF U wf s1(1)] obtain b ps cs m where
    get: "\<forall>m. ubx_block_get U s1 (Some m) = (if m = pb_name prot then Some b else ubx_block_get U s (Some m))"
    and ps: "list_all2 (reg_port U s1 b) (pb_ports prot) ps" and cs: "list_all2 (reg_cfg U s1 b) (pb_configs prot) cs"
    and ap: "apart 39 (port_names s1 ps)" "apart 39 (cfg_names s1 cs)" and t: "nd_types s1 = nd_types s"
    and pb: "blks s1 b = Some ((register_new prot m)\<lparr>b_ports := ps, b_configs := cs, b_nd := True\<rparr>)" and w1: "core_wf s1"
    by (elim conjE exE) (rule that)
  have "\<forall>x \<in> set (port_names s1 ps). length x \<le> 39"
    using ps by (induction rule: list_all2_induct) (auto simp: port_names_def reg_port_def new_port_def UBX_PORT_NAME_MAXLEN_def)
  moreover have "\<forall>x \<in> set (cfg_names s1 cs). length x \<le> 39"
    using cs by (induction rule: list_all2_induct) (auto simp: cfg_names_def reg_cfg_def)
  moreover have "c_min q \<le> cfg_max (c_min q) (c_max q)" if "c \<in> set cs" "cfgs s1 c = Some q" for c q
  proof -
    from that(1) obtain i where i: "i < length cs" "c = cs ! i" by (auto simp: in_set_conv_nth)
    with list_all2_lengthD [OF cs] have i': "i < length (pb_configs prot)" by simp
    with ok have "config_ok U s (pb_configs prot ! i)" by (simp add: proto_ok_def)
    with list_all2_nthD [OF cs i'] i that(2) show ?thesis by (auto simp: reg_cfg_def config_ok_def cfg_max_idem)
  qed
  moreover have "b_type ((register_new prot m)\<lparr>b_ports := ps, b_configs := cs, b_nd := True\<rparr>) = BLOCK_TYPE_COMPUTATION \<or>
    b_type ((register_new prot m)\<lparr>b_ports := ps, b_configs := cs, b_nd := True\<rparr>) = BLOCK_TYPE_INTERACTION"
    using ok by (simp add: register_new_def proto_ok_def)
  moreover have "ubx_block_get U s1 (Some n) = None" "ubx_block_get U s1 (Some (pb_name prot)) = Some b" using get n(2) new(2) by simp_all
  ultimately obtain a s2 where "ubx_block_create U (pb_name prot) (Some n) s1 = Some (Some a, s2)"
    using ut_laws.block_create_ok [OF U w1 s1(2) n(1) _ pb, of "pb_name prot"] ap by auto
  with s1 t show ?thesis by blast
qed

section \<open>Properties\<close>

text \<open>C8: when no allocation fails, a prototype whose tables are sound can be registered and an instance created from it, both under
  names not in use. The instance is found under its name, and each entry of the port and config tables gives a port or config of
  the instance that is found under its name, belongs to it, and has the types of the table as the node resolves them, the length of the
  table (1 for 0), and for a config the range of the table; no port is connected.\<close>

theorem prototype_instance:
  assumes "ut_laws U" "core_wf s" "oom s = []" "proto_ok U s prot" "length n \<le> 63" "n \<noteq> pb_name prot"
    "ubx_block_get U s (Some (pb_name prot)) = None" "ubx_block_get U s (Some n) = None"
  shows "\<exists>s1 a s2. ubx_block_register U prot s = Some (0, s1) \<and> ubx_block_create U (pb_name prot) (Some n) s1 = Some (Some a, s2) \<and>
    ubx_block_get U s2 (Some n) = Some a \<and>
    (\<exists>blk. blks s2 a = Some blk \<and> length (b_ports blk) = length (pb_ports prot) \<and> length (b_configs blk) = length (pb_configs prot)) \<and>
    (\<forall>i < length (pb_ports prot). \<exists>x q. ubx_port_get (Some a) (Some (pp_name (pb_ports prot ! i))) s2 = Some (Some x) \<and>
       prts s2 x = Some q \<and> inst_port U s a (pb_ports prot ! i) q) \<and>
    (\<forall>i < length (pb_configs prot). \<exists>x q. ubx_config_get (Some a) (Some (pc_name (pb_configs prot ! i))) s2 = Some (Some x) \<and>
       cfgs s2 x = Some q \<and> inst_cfg U s a (pb_configs prot ! i) q)"
proof -
  from instance_create [OF assms] obtain s1 a s2 where
    c: "ubx_block_register U prot s = Some (0, s1)" "nd_types s1 = nd_types s"
      "ubx_block_create U (pb_name prot) (Some n) s1 = Some (Some a, s2)" by blast
  have "inst_port U s1 a = inst_port U s a" "inst_cfg U s1 a = inst_cfg U s a"
    by (simp_all add: inst_port_def inst_cfg_def resolve_type_same [OF c(2)] type_get_same [OF c(2)] fun_eq_iff)
  with instance_lookup [OF assms(1,2,5) c(1,3)] c show ?thesis by (intro exI [of _ s1] exI [of _ a] exI [of _ s2]) simp
qed

definition proto_node :: "unit ubx" where
  "proto_node = \<lparr>nd_name = ''n'', nd_blocks = [], nd_types = [(''int'', 5)], nd_modules = [], nd_cur_seqid = 1,
     nd_attrs = 0, nd_loglevel = 6, blks = Map.empty, prts = Map.empty, cfgs = Map.empty,
     typs = [5 \<mapsto> \<lparr>t_name = Some ''int'', t_class = 1, t_size = 4, t_nd = True, t_seqid = 0, t_hash = []\<rparr>],
     dats = Map.empty, mods = Map.empty, static_type = (\<lambda>_. None), next_addr = 100, oom = [], world = ()\<rparr>"

definition demo_proto :: ubx_proto_block where
  "demo_proto = \<lparr>pb_name = ''demo'', pb_meta_data = Some ''{}'', pb_attrs = 0, pb_type = BLOCK_TYPE_COMPUTATION,
     pb_configs = [\<lparr>pc_name = ''k'', pc_type_name = Some ''int'', pc_attrs = 0, pc_min = 1, pc_max = 0, pc_doc = None\<rparr>],
     pb_ports = [\<lparr>pp_name = ''in'', pp_attrs = 0, pp_out_type_name = None, pp_out_data_len = 0,
          pp_in_type_name = Some ''int'', pp_in_data_len = 3, pp_doc = Some ''d''\<rparr>,
        \<lparr>pp_name = ''out'', pp_attrs = 0, pp_out_type_name = Some ''int'', pp_out_data_len = 0,
          pp_in_type_name = None, pp_in_data_len = 0, pp_doc = None\<rparr>],
     pb_init = None, pb_start = None, pb_stop = None, pb_cleanup = None, pb_step = None, pb_read = None, pb_write = None\<rparr>"

lemma proto_node_wf: "core_wf proto_node"
proof -
  have "rc_inv proto_node (\<lambda>_. 0)"
    by (simp add: rc_inv_def proto_node_def fresh_from_def rc_fun_def no_dangling_def nrefs_def vrefs_def)
  then show ?thesis by (auto simp: core_wf_def proto_node_def fresh_from_def tab_wf_def htab_ok_def keys_def elems_def)
qed

lemma one_le_max: "(1 :: u16) \<le> CONFIG_LEN_MAX"
  by code_simp

lemma demo_proto_ok: "proto_ok ut_ref proto_node demo_proto"
  by (simp add: one_le_max proto_ok_def demo_proto_def apart_def strncmp_eq_def port_ok_def config_ok_def resolve_type_def ubx_type_get_def
      proto_node_def cfg_max_def eval_nat_numeral)

theorem prototype_instance_witness:
  "\<exists>s1 a s2 x q. ubx_block_register ut_ref demo_proto proto_node = Some (0, s1) \<and>
     ubx_block_create ut_ref ''demo'' (Some ''d1'') s1 = Some (Some a, s2) \<and>
     ubx_port_get (Some a) (Some ''in'') s2 = Some (Some x) \<and> prts s2 x = Some q \<and> p_in_type q = Some 5 \<and> p_in_data_len q = 3"
proof -
  have n: "ubx_block_get ut_ref proto_node (Some (pb_name demo_proto)) = None" "ubx_block_get ut_ref proto_node (Some ''d1'') = None"
    "length ''d1'' \<le> 63" "''d1'' \<noteq> pb_name demo_proto" "oom proto_node = []"
    by (simp_all add: ubx_block_get_def proto_node_def demo_proto_def)
  have p: "(0::nat) < length (pb_ports demo_proto)" "pb_name demo_proto = ''demo''" "pp_name (pb_ports demo_proto ! 0) = ''in''"
    by (simp_all add: demo_proto_def)
  have i: "p_in_type q = Some 5 \<and> p_in_data_len q = 3" if "inst_port ut_ref proto_node a (pb_ports demo_proto ! 0) q" for a q
    using that by (auto simp: inst_port_def demo_proto_def resolve_type_def ubx_type_get_def proto_node_def)
  from prototype_instance [OF ref.ut_laws_axioms proto_node_wf n(5) demo_proto_ok n(3,4,1,2)] obtain s1 a s2 where
    s: "ubx_block_register ut_ref demo_proto proto_node = Some (0, s1)" "ubx_block_create ut_ref ''demo'' (Some ''d1'') s1 = Some (Some a, s2)"
    and ports: "\<forall>i < length (pb_ports demo_proto). \<exists>x q. ubx_port_get (Some a) (Some (pp_name (pb_ports demo_proto ! i))) s2 = Some (Some x) \<and>
       prts s2 x = Some q \<and> inst_port ut_ref proto_node a (pb_ports demo_proto ! i) q"
    unfolding p(2) by blast
  from ports p(1,3) i obtain x q where "ubx_port_get (Some a) (Some ''in'') s2 = Some (Some x)" "prts s2 x = Some q"
    "p_in_type q = Some 5" "p_in_data_len q = 3" by metis
  with s show ?thesis by blast
qed

text \<open>C9: nothing leaks: removing an instance undoes creating it and unregistering a prototype undoes registering it. The block table is as
  before, every port, config and block that was allocated on the way is freed and no other, and the values are referenced as often as
  before; what was there before is not touched. This holds whatever allocations failed on the way, as long as the operations report
  success.\<close>

theorem prototype_no_leak:
  assumes U: "ut_laws U" and wf: "core_wf s" and n: "length n \<le> 63"
    and reg: "ubx_block_register U prot s = Some (0, s1)"
    and cre: "ubx_block_create U (pb_name prot) (Some n) s1 = Some (Some a, s2)"
  shows "\<exists>s3 s4. ubx_block_rm U (Some n) s2 = Some (0, s3) \<and> same_store s1 s3 \<and>
    ubx_block_unregister U (pb_name prot) s3 = Some (0, s4) \<and> same_store s s4 \<and> core_wf s4"
proof -
  from ut_laws.register_extends [OF U wf reg] obtain b blk where x1: "extends_by (pb_name prot) b blk s s1" and w1: "core_wf s1" by blast
  from ut_laws.block_register_table [OF U wf reg] obtain b' pb where
    get: "ubx_block_get U s1 (Some (pb_name prot)) = Some b'" and pb: "blks s1 b' = Some pb" and t1: "nd_types s1 = nd_types s"
    and ty: "b_type pb = BLOCK_TYPE_COMPUTATION \<or> b_type pb = BLOCK_TYPE_INTERACTION"
    by (auto simp: register_new_def)
  from ut_laws.create_extends [OF U w1 cre n get pb ty] obtain ib where x2: "extends_by n a ib s1 s2" and w2: "core_wf s2"
    and inst: "b_prototype ib = Some b'" "b_state ib = BLOCK_STATE_PREINIT" by blast
  from wf obtain ext where rc: "rc_inv s ext" by (auto simp: core_wf_def)
  with x1 have rc1: "rc_inv s1 ext" by (simp add: extends_by_def)
  with x2 have rc2: "rc_inv s2 ext" by (simp add: extends_by_def)
  from ut_laws.unregister_undo [OF U w2 x2] obtain s3 where
    s3: "ubx_block_unregister U n s2 = Some (0, s3)" "core_wf s3" "\<forall>ext. rc_inv s2 ext \<longrightarrow> rc_inv s3 ext" "nd_blocks s3 = nd_blocks s1"
      "blks s3 = blks s1" "prts s3 = prts s1" "cfgs s3 = cfgs s1" "nd_types s3 = nd_types s1" by blast
  have "ut_find U (nd_blocks s2) n = Some a"
    using ut_laws.find_iff [OF U core_wfD(1) [OF w2]] x2 by (simp add: extends_by_def)
  then have rm: "ubx_block_rm U (Some n) s2 = Some (0, s3)"
    using x2 inst s3(1) by (auto simp: ubx_block_rm_def ubx_block_get_def extends_by_def)
  have "\<forall>ext. rc_inv s ext \<longrightarrow> rc_inv s3 ext" using x1 x2 s3(3) by (simp add: extends_by_def)
  then have x3: "extends_by (pb_name prot) b blk s s3" using x1 s3 unfolding extends_by_def by simp
  from ut_laws.unregister_undo [OF U s3(2) x3] obtain s4 where
    s4: "ubx_block_unregister U (pb_name prot) s3 = Some (0, s4)" "core_wf s4" "\<forall>ext. rc_inv s3 ext \<longrightarrow> rc_inv s4 ext" "nd_blocks s4 = nd_blocks s"
      "blks s4 = blks s" "prts s4 = prts s" "cfgs s4 = cfgs s" "nd_types s4 = nd_types s" by blast
  from rc2 s3(3) s4(3) have rc3: "rc_inv s3 ext" "rc_inv s4 ext" by blast+
  have "same_store s1 s3" using s3 rc_inv_same [OF rc1 rc3(1) s3(7)] by (simp add: same_store_def)
  moreover have "same_store s s4" using s4 rc_inv_same [OF rc rc3(2) s4(7)] by (simp add: same_store_def)
  ultimately show ?thesis using rm s4 by blast
qed

theorem prototype_no_leak_witness:
  "\<exists>s1 a s2 s3 s4. ubx_block_register ut_ref demo_proto proto_node = Some (0, s1) \<and>
     ubx_block_create ut_ref ''demo'' (Some ''d1'') s1 = Some (Some a, s2) \<and> ubx_block_rm ut_ref (Some ''d1'') s2 = Some (0, s3) \<and>
     ubx_block_unregister ut_ref ''demo'' s3 = Some (0, s4) \<and> same_store proto_node s4"
proof -
  have n: "ubx_block_get ut_ref proto_node (Some (pb_name demo_proto)) = None" "ubx_block_get ut_ref proto_node (Some ''d1'') = None"
    "length ''d1'' \<le> 63" "''d1'' \<noteq> pb_name demo_proto" "oom proto_node = []" "pb_name demo_proto = ''demo''"
    by (simp_all add: ubx_block_get_def proto_node_def demo_proto_def)
  from instance_create [OF ref.ut_laws_axioms proto_node_wf n(5) demo_proto_ok n(3,4,1,2)] obtain s1 a s2 where
    s: "ubx_block_register ut_ref demo_proto proto_node = Some (0, s1)"
      "ubx_block_create ut_ref (pb_name demo_proto) (Some ''d1'') s1 = Some (Some a, s2)" by blast
  from prototype_no_leak [OF ref.ut_laws_axioms proto_node_wf n(3) s] s show ?thesis unfolding n(6) by blast
qed

end
