(* ===== verification/Ubx_Modules.thy ===== *)
theory Ubx_Modules
  imports Ubx_Proto
begin

text \<open>
  The modules that ship with the framework: the type descriptions of \<^verbatim>\<open>std_types\<close>, the prototype tables of the blocks
  of \<^verbatim>\<open>std_blocks\<close>, and the init and cleanup functions that register them. The data of a loaded module is at a base address
  the dynamic linker chose, and \<open>fp\<close> maps the functions of the module to their addresses. The lemmas show that loading and
  unloading the type modules is a round trip and that every table is sound: its blocks can be registered and instantiated.
\<close>

section \<open>Types\<close>

definition TYPE_CLASS_BASIC :: u32 where "TYPE_CLASS_BASIC = 1"
definition TYPE_CLASS_STRUCT :: u32 where "TYPE_CLASS_STRUCT = 2"

text \<open>The macros \<open>def_basic_ctype\<close> and \<open>def_struct_type\<close>: name, class and size; the other fields of a static object are zero.\<close>

definition def_basic_ctype :: "string \<Rightarrow> int \<Rightarrow> ubx_type" where
  "def_basic_ctype n sz = \<lparr>t_name = Some n, t_class = TYPE_CLASS_BASIC, t_size = sz, t_nd = False, t_seqid = 0, t_hash = replicate 17 0\<rparr>"

definition def_struct_type :: "string \<Rightarrow> int \<Rightarrow> ubx_type" where
  "def_struct_type n sz = \<lparr>t_name = Some n, t_class = TYPE_CLASS_STRUCT, t_size = sz, t_nd = False, t_seqid = 0, t_hash = replicate 17 0\<rparr>"

text \<open>The sizes are those of a 64-bit target. \<open>struct ubx_tstat\<close> holds 64 characters, three timespecs and a counter.\<close>

definition basic_types :: "ubx_type list" where
  "basic_types = [
     def_basic_ctype ''char'' 1, def_basic_ctype ''unsigned char'' 1, def_basic_ctype ''signed char'' 1,
     def_basic_ctype ''short'' 2, def_basic_ctype ''unsigned short'' 2, def_basic_ctype ''signed short'' 2,
     def_basic_ctype ''int'' 4, def_basic_ctype ''unsigned int'' 4, def_basic_ctype ''signed int'' 4,
     def_basic_ctype ''long'' 8, def_basic_ctype ''unsigned long'' 8, def_basic_ctype ''signed long'' 8,
     def_basic_ctype ''long long'' 8, def_basic_ctype ''unsigned long long'' 8, def_basic_ctype ''signed long long'' 8,
     def_basic_ctype ''float'' 4, def_basic_ctype ''double'' 8,
     def_basic_ctype ''size_t'' 8,
     def_basic_ctype ''int8_t'' 1, def_basic_ctype ''int16_t'' 2, def_basic_ctype ''int32_t'' 4, def_basic_ctype ''int64_t'' 8,
     def_basic_ctype ''uint8_t'' 1, def_basic_ctype ''uint16_t'' 2, def_basic_ctype ''uint32_t'' 4, def_basic_ctype ''uint64_t'' 8,
     def_struct_type ''struct ubx_tstat'' 120, def_struct_type ''struct ubx_triggee'' 16]"

definition test_types :: "ubx_type list" where
  "test_types = [
     def_basic_ctype ''char[50]'' 50,
     def_struct_type ''struct test_trig_conf'' 68,
     def_struct_type ''struct kdl_vector'' 24,
     def_struct_type ''struct kdl_rotation'' 72,
     def_struct_type ''struct kdl_frame'' 96]"

definition ptrig_types :: "ubx_type list" where
  "ptrig_types = [def_struct_type ''struct ptrig_period'' 16]"

text \<open>The loop of the init functions, which does not look at the result, and the loop of the cleanup functions.\<close>

fun types_register :: "ut_lib \<Rightarrow> addr list \<Rightarrow> 'w ubx \<Rightarrow> 'w ubx option" where
  "types_register U [] s = Some s"
| "types_register U (a # as) s = do { (_, s) \<leftarrow> ubx_type_register U (Some a) s; types_register U as s }"

fun types_unregister :: "ut_lib \<Rightarrow> string list \<Rightarrow> 'w ubx \<Rightarrow> 'w ubx" where
  "types_unregister U [] s = s"
| "types_unregister U (n # ns) s = types_unregister U ns (snd (ubx_type_unregister U n s))"

text \<open>The addresses of the elements of a static array of types and their names, which nobody writes.\<close>

definition table_addrs :: "addr \<Rightarrow> ubx_type list \<Rightarrow> addr list" where
  "table_addrs base tab = map ((+) base) [0..<length tab]"

definition table_names :: "ubx_type list \<Rightarrow> string list" where
  "table_names tab = map (\<lambda>t. the (t_name t)) tab"

definition stdtypes_init :: "ut_lib \<Rightarrow> addr \<Rightarrow> 'w ubx \<Rightarrow> (int \<times> 'w ubx) option" where
  "stdtypes_init U base s = do { s \<leftarrow> types_register U (table_addrs base basic_types) s; Some (0, s) }"

definition stdtypes_cleanup :: "ut_lib \<Rightarrow> 'w ubx \<Rightarrow> 'w ubx option" where
  "stdtypes_cleanup U s = Some (types_unregister U (table_names basic_types) s)"

definition testtypes_init :: "ut_lib \<Rightarrow> addr \<Rightarrow> 'w ubx \<Rightarrow> (int \<times> 'w ubx) option" where
  "testtypes_init U base s = do { s \<leftarrow> types_register U (table_addrs base test_types) s; Some (0, s) }"

definition testtypes_cleanup :: "ut_lib \<Rightarrow> 'w ubx \<Rightarrow> 'w ubx option" where
  "testtypes_cleanup U s = Some (types_unregister U (table_names test_types) s)"

section \<open>Prototype tables\<close>

text \<open>Entries of the tables; the fields an initialiser does not name are zero.\<close>

definition in_entry :: "string \<Rightarrow> string \<Rightarrow> string \<Rightarrow> ubx_proto_port" where
  "in_entry n t d = \<lparr>pp_name = n, pp_attrs = 0, pp_out_type_name = None, pp_out_data_len = 0, pp_in_type_name = Some t,
     pp_in_data_len = 0, pp_doc = Some d\<rparr>"

definition out_entry :: "string \<Rightarrow> string \<Rightarrow> int \<Rightarrow> string \<Rightarrow> ubx_proto_port" where
  "out_entry n t len d = \<lparr>pp_name = n, pp_attrs = 0, pp_out_type_name = Some t, pp_out_data_len = len, pp_in_type_name = None,
     pp_in_data_len = 0, pp_doc = Some d\<rparr>"

definition cfg_entry :: "string \<Rightarrow> string \<Rightarrow> u16 \<Rightarrow> u16 \<Rightarrow> string option \<Rightarrow> ubx_proto_config" where
  "cfg_entry n t mn mx d = \<lparr>pc_name = n, pc_type_name = Some t, pc_attrs = 0, pc_min = mn, pc_max = mx, pc_doc = d\<rparr>"

definition BLOCK_ATTR_TRIGGER :: u32 where "BLOCK_ATTR_TRIGGER = 1"
definition BLOCK_ATTR_ACTIVE :: u32 where "BLOCK_ATTR_ACTIVE = 2"

subsection \<open>\<^verbatim>\<open>trig.c\<close>\<close>

definition trig_meta :: string where
  "trig_meta = ''{ doc='simple, activity-less trigger',  realtime=true,}''"

definition trig_ports :: "ubx_proto_port list" where
  "trig_ports = [
     in_entry ''active_chain'' ''int'' ''switch the active trigger chain'',
     out_entry ''tstats'' ''struct ubx_tstat'' 0 ''timing statistics (if enabled)'']"

definition trig_config :: "ubx_proto_config list" where
  "trig_config = [
     cfg_entry ''num_chains'' ''int'' 0 1 (Some ''number of trigger chains. def: 1''),
     cfg_entry ''tstats_mode'' ''int'' 0 1 (Some ''0: off (def), 1: global only, 2: per block''),
     cfg_entry ''tstats_profile_path'' ''char'' 0 0 (Some ''directory to write the timing stats file to''),
     cfg_entry ''tstats_output_rate'' ''double'' 0 1 (Some ''throttle output on tstats port''),
     cfg_entry ''tstats_skip_first'' ''int'' 0 1 (Some ''skip N steps before acquiring stats''),
     cfg_entry ''loglevel'' ''int'' 0 0 None]"

definition trig_comp :: "(string \<Rightarrow> fptr) \<Rightarrow> ubx_proto_block" where
  "trig_comp fp = \<lparr>pb_name = ''ubx/trig'', pb_meta_data = Some trig_meta, pb_attrs = BLOCK_ATTR_TRIGGER,
     pb_type = BLOCK_TYPE_COMPUTATION, pb_configs = trig_config, pb_ports = trig_ports,
     pb_init = Some (fp ''trig_init''), pb_start = Some (fp ''trig_start''), pb_stop = Some (fp ''trig_stop''),
     pb_cleanup = Some (fp ''trig_cleanup''), pb_step = Some (fp ''trig_step''), pb_read = None, pb_write = None\<rparr>"

definition trig_mod_init :: "ut_lib \<Rightarrow> (string \<Rightarrow> fptr) \<Rightarrow> 'w ubx \<Rightarrow> (int \<times> 'w ubx) option" where
  "trig_mod_init U fp s = ubx_block_register U (trig_comp fp) s"

definition mod_unregister :: "ut_lib \<Rightarrow> string \<Rightarrow> 'w ubx \<Rightarrow> 'w ubx option" where
  "mod_unregister U n s = map_option snd (ubx_block_unregister U n s)"

definition trig_mod_cleanup :: "ut_lib \<Rightarrow> 'w ubx \<Rightarrow> 'w ubx option" where
  "trig_mod_cleanup U s = mod_unregister U ''ubx/trig'' s"

subsection \<open>\<^verbatim>\<open>ptrig.c\<close>\<close>

definition ptrig_ports :: "ubx_proto_port list" where
  "ptrig_ports = [
     in_entry ''active_chain'' ''int'' ''switch the active trigger chain'',
     out_entry ''tstats'' ''struct ubx_tstat'' 0 ''out port for timing statistics'',
     in_entry ''shutdown'' ''int'' ''input port for stopping ptrig'']"

definition ptrig_config :: "ubx_proto_config list" where
  "ptrig_config = [
     cfg_entry ''period'' ''struct ptrig_period'' 0 0 (Some ''trigger period in { sec, ns }''),
     cfg_entry ''stacksize'' ''size_t'' 0 0 (Some ''stacksize as per pthread_attr_setstacksize(3)''),
     cfg_entry ''sched_priority'' ''int'' 0 0 (Some ''pthread priority''),
     cfg_entry ''sched_policy'' ''char'' 0 0 (Some ''pthread scheduling policy''),
     cfg_entry ''affinity'' ''int'' 0 0 (Some ''list of CPUs to set the pthread CPU affinity to''),
     cfg_entry ''thread_name'' ''char'' 0 0 (Some ''thread name (for dbg), default is block name''),
     cfg_entry ''autostop_steps'' ''int64_t'' 0 1 (Some ''if set and > 0, block stops itself after X steps''),
     cfg_entry ''num_chains'' ''int'' 0 1 (Some ''number of trigger chains (def: 1)''),
     cfg_entry ''tstats_mode'' ''int'' 0 1 (Some ''0: off (def), 1: global only, 2: per block''),
     cfg_entry ''tstats_profile_path'' ''char'' 0 0 (Some ''directory to write the timing stats file to''),
     cfg_entry ''tstats_output_rate'' ''double'' 0 1 (Some ''throttle output on tstats port''),
     cfg_entry ''tstats_skip_first'' ''int'' 0 1 (Some ''skip N steps before acquiring stats''),
     cfg_entry ''loglevel'' ''int'' 0 0 None]"

definition ptrig_comp :: "(string \<Rightarrow> fptr) \<Rightarrow> ubx_proto_block" where
  "ptrig_comp fp = \<lparr>pb_name = ''ubx/ptrig'', pb_meta_data = Some ''{ doc='pthread based trigger',  realtime=true,}'',
     pb_attrs = BLOCK_ATTR_TRIGGER OR BLOCK_ATTR_ACTIVE,
     pb_type = BLOCK_TYPE_COMPUTATION, pb_configs = ptrig_config, pb_ports = ptrig_ports,
     pb_init = Some (fp ''ptrig_init''), pb_start = Some (fp ''ptrig_start''), pb_stop = Some (fp ''ptrig_stop''),
     pb_cleanup = Some (fp ''ptrig_cleanup''), pb_step = None, pb_read = None, pb_write = None\<rparr>"

text \<open>The types are registered first; the first failure ends the init function.\<close>

fun types_register_all :: "ut_lib \<Rightarrow> addr list \<Rightarrow> 'w ubx \<Rightarrow> (int \<times> 'w ubx) option" where
  "types_register_all U [] s = Some (0, s)"
| "types_register_all U (a # as) s = do {
     (ret, s) \<leftarrow> ubx_type_register U (Some a) s;
     if ret \<noteq> 0 then Some (ret, s) else types_register_all U as s }"

definition ptrig_mod_init :: "ut_lib \<Rightarrow> (string \<Rightarrow> fptr) \<Rightarrow> addr \<Rightarrow> 'w ubx \<Rightarrow> (int \<times> 'w ubx) option" where
  "ptrig_mod_init U fp base s = do {
     (ret, s) \<leftarrow> types_register_all U (table_addrs base ptrig_types) s;
     if ret \<noteq> 0 then Some (ret, s) else ubx_block_register U (ptrig_comp fp) s }"

definition ptrig_mod_cleanup :: "ut_lib \<Rightarrow> 'w ubx \<Rightarrow> 'w ubx option" where
  "ptrig_mod_cleanup U s = mod_unregister U ''ubx/ptrig'' (types_unregister U (table_names ptrig_types) s)"

subsection \<open>\<^verbatim>\<open>lfds_cyclic.c\<close> and \<^verbatim>\<open>mqueue.c\<close>\<close>

definition cyclic_meta :: string where
  "cyclic_meta = ''{ doc='High performance scalable, lock-free cyclic, buffered in process communication  description=[['' @
     [CHR 0x09, CHR 0x09] @ '' This version is stongly typed and should be preferred                This microblx iblock is based on based on liblfds'' @
     ''                ringbuffer (v0.6.1.1) (www.liblfds.org)]],  version=0.01,  hard_real_time=true,}''"

definition cyclic_config :: "ubx_proto_config list" where
  "cyclic_config = [
     cfg_entry ''type_name'' ''char'' 1 0 (Some ''name of registered microblx type to transport''),
     cfg_entry ''data_len'' ''uint32_t'' 0 1 (Some ''array length (multiplier) of data (default: 1)''),
     cfg_entry ''buffer_len'' ''uint32_t'' 0 1 (Some ''max number of data elements the buffer shall hold''),
     cfg_entry ''allow_partial'' ''int'' 0 1 (Some ''allow msgs with len<data_len. def: 0 (no)''),
     cfg_entry ''loglevel_overruns'' ''int'' 0 1 (Some ''loglevel for reporting overflows (default: NOTICE, -1 to disable)'')]"

definition cyclic_ports :: "ubx_proto_port list" where
  "cyclic_ports = [
     out_entry ''overruns'' ''unsigned long'' 0 ''Number of buffer overruns. Value is output only upon change.'']"

definition cyclic_comp :: "(string \<Rightarrow> fptr) \<Rightarrow> ubx_proto_block" where
  "cyclic_comp fp = \<lparr>pb_name = ''ubx/lfds_cyclic'', pb_meta_data = Some cyclic_meta, pb_attrs = 0,
     pb_type = BLOCK_TYPE_INTERACTION, pb_configs = cyclic_config, pb_ports = cyclic_ports,
     pb_init = Some (fp ''cyclic_init''), pb_start = None, pb_stop = None, pb_cleanup = Some (fp ''cyclic_cleanup''),
     pb_step = None, pb_read = Some (fp ''cyclic_read''), pb_write = Some (fp ''cyclic_write'')\<rparr>"

definition cyclic_mod_init :: "ut_lib \<Rightarrow> (string \<Rightarrow> fptr) \<Rightarrow> 'w ubx \<Rightarrow> (int \<times> 'w ubx) option" where
  "cyclic_mod_init U fp s = ubx_block_register U (cyclic_comp fp) s"

definition cyclic_mod_cleanup :: "ut_lib \<Rightarrow> 'w ubx \<Rightarrow> 'w ubx option" where
  "cyclic_mod_cleanup U s = mod_unregister U ''ubx/lfds_cyclic'' s"

text \<open>\<open>NAME_MAX\<close> is 255.\<close>

definition mqueue_config :: "ubx_proto_config list" where
  "mqueue_config = [
     cfg_entry ''mq_id'' ''char'' 1 255 (Some ''mqueue base id''),
     cfg_entry ''type_name'' ''char'' 1 0 (Some ''name of registered microblx type to transport''),
     cfg_entry ''data_len'' ''long'' 0 1 (Some ''array length (multiplier) of data (default: 1)''),
     cfg_entry ''buffer_len'' ''long'' 1 1 (Some ''max number of data elements the buffer shall hold''),
     cfg_entry ''blocking'' ''uint32_t'' 0 1 (Some ''enable blocking mode (def: 0)''),
     cfg_entry ''unlink'' ''uint32_t'' 0 1 (Some ''call mq_unlink in cleanup (def: 1 (yes)'')]"

definition mqueue_comp :: "(string \<Rightarrow> fptr) \<Rightarrow> ubx_proto_block" where
  "mqueue_comp fp = \<lparr>pb_name = ''ubx/mqueue'', pb_meta_data = Some ''{ doc='POSIX mqueue interaction',  realtime=true,}'',
     pb_attrs = 0, pb_type = BLOCK_TYPE_INTERACTION, pb_configs = mqueue_config, pb_ports = [],
     pb_init = Some (fp ''mqueue_init''), pb_start = None, pb_stop = None, pb_cleanup = Some (fp ''mqueue_cleanup''),
     pb_step = None, pb_read = Some (fp ''mqueue_read''), pb_write = Some (fp ''mqueue_write'')\<rparr>"

definition mqueue_mod_init :: "ut_lib \<Rightarrow> (string \<Rightarrow> fptr) \<Rightarrow> 'w ubx \<Rightarrow> (int \<times> 'w ubx) option" where
  "mqueue_mod_init U fp s = ubx_block_register U (mqueue_comp fp) s"

definition mqueue_mod_cleanup :: "ut_lib \<Rightarrow> 'w ubx \<Rightarrow> 'w ubx option" where
  "mqueue_mod_cleanup U s = mod_unregister U ''ubx/mqueue'' s"

subsection \<open>Constant values: \<^verbatim>\<open>const.c\<close>, compiled twice\<close>

definition const_config :: "ubx_proto_config list" where
  "const_config = [
     cfg_entry ''type_name'' ''char'' 0 0 (Some ''ubx type name of the value to output''),
     cfg_entry ''data_len'' ''long'' 0 1 (Some ''data length of the value to output'')]"

definition const_comp :: "bool \<Rightarrow> (string \<Rightarrow> fptr) \<Rightarrow> ubx_proto_block" where
  "const_comp iblock fp = \<lparr>pb_name = (if iblock then ''ubx/iconst'' else ''ubx/cconst''),
     pb_meta_data = Some (if iblock then ''{ doc='const value i-block', realtime=true }'' else ''{ doc='const value c-block', realtime=true }''),
     pb_attrs = 0, pb_type = (if iblock then BLOCK_TYPE_INTERACTION else BLOCK_TYPE_COMPUTATION),
     pb_configs = const_config, pb_ports = [],
     pb_init = Some (fp ''const_init''), pb_start = Some (fp ''const_start''), pb_stop = None, pb_cleanup = Some (fp ''const_cleanup''),
     pb_step = (if iblock then None else Some (fp ''const_step'')), pb_read = (if iblock then Some (fp ''const_read'') else None),
     pb_write = None\<rparr>"

definition const_mod_init :: "bool \<Rightarrow> ut_lib \<Rightarrow> (string \<Rightarrow> fptr) \<Rightarrow> 'w ubx \<Rightarrow> (int \<times> 'w ubx) option" where
  "const_mod_init iblock U fp s = ubx_block_register U (const_comp iblock fp) s"

definition const_mod_cleanup :: "bool \<Rightarrow> ut_lib \<Rightarrow> 'w ubx \<Rightarrow> 'w ubx option" where
  "const_mod_cleanup iblock U s = mod_unregister U (if iblock then ''ubx/iconst'' else ''ubx/cconst'') s"

subsection \<open>Signal blocks: \<^verbatim>\<open>saturation.c\<close>, \<^verbatim>\<open>ramp.c\<close>, \<^verbatim>\<open>pid.c\<close>, \<^verbatim>\<open>math_double.c\<close>, \<^verbatim>\<open>rand.c\<close>\<close>

text \<open>\<open>SAT_T\<close> is \<open>double\<close> in every library: the build defines \<open>SATURATION_..._T\<close>, the source tests \<open>SAT_..._T\<close> and
  defines \<open>SAT_DOUBLE_T\<close> itself.\<close>

definition sat_config :: "ubx_proto_config list" where
  "sat_config = [
     cfg_entry ''data_len'' ''long'' 0 0 (Some ''data array length''),
     cfg_entry ''lower_limits'' ''double'' 0 0 (Some ''saturation lower limits''),
     cfg_entry ''upper_limits'' ''double'' 0 0 (Some ''saturation upper limits'')]"

definition sat_ports :: "ubx_proto_port list" where
  "sat_ports = [
     in_entry ''in'' ''double'' ''input signal to saturate'',
     out_entry ''out'' ''double'' 0 ''saturated output signal'']"

definition sat_block :: "(string \<Rightarrow> fptr) \<Rightarrow> ubx_proto_block" where
  "sat_block fp = \<lparr>pb_name = ''ubx/saturation_double'', pb_meta_data = Some ''double saturation block'',
     pb_attrs = 0, pb_type = BLOCK_TYPE_COMPUTATION, pb_configs = sat_config, pb_ports = sat_ports,
     pb_init = Some (fp ''sat_init''), pb_start = None, pb_stop = None, pb_cleanup = Some (fp ''sat_cleanup''),
     pb_step = Some (fp ''sat_step''), pb_read = None, pb_write = None\<rparr>"

definition sat_mod_init :: "ut_lib \<Rightarrow> (string \<Rightarrow> fptr) \<Rightarrow> 'w ubx \<Rightarrow> (int \<times> 'w ubx) option" where
  "sat_mod_init U fp s = ubx_block_register U (sat_block fp) s"

definition sat_mod_cleanup :: "ut_lib \<Rightarrow> 'w ubx \<Rightarrow> 'w ubx option" where
  "sat_mod_cleanup U s = mod_unregister U ''ubx/saturation_double'' s"

text \<open>\<open>tn\<close> is \<open>RAMP_T\<close> and \<open>bn\<close> is \<open>BLOCK_NAME\<close>: one library per type.\<close>

definition ramp_config :: "string \<Rightarrow> ubx_proto_config list" where
  "ramp_config tn = [
     cfg_entry ''start'' tn 0 0 (Some ''ramp starting value (def 0)''),
     cfg_entry ''slope'' tn 0 0 (Some ''rate of change (def: 1)''),
     cfg_entry ''data_len'' ''long'' 0 0 (Some ''length of output data (def: 1)'')]"

definition ramp_ports :: "string \<Rightarrow> ubx_proto_port list" where
  "ramp_ports tn = [out_entry ''out'' tn 1 ''ramp generator output'']"

definition ramp_block :: "string \<Rightarrow> string \<Rightarrow> (string \<Rightarrow> fptr) \<Rightarrow> ubx_proto_block" where
  "ramp_block tn bn fp = \<lparr>pb_name = ''ubx/ramp_'' @ bn, pb_meta_data = Some '' { doc='Ramp generator block',   realtime=true,}'',
     pb_attrs = 0, pb_type = BLOCK_TYPE_COMPUTATION, pb_configs = ramp_config tn, pb_ports = ramp_ports tn,
     pb_init = Some (fp ''ramp_init''), pb_start = Some (fp ''ramp_start''), pb_stop = None, pb_cleanup = Some (fp ''ramp_cleanup''),
     pb_step = Some (fp ''ramp_step''), pb_read = None, pb_write = None\<rparr>"

definition ramp_mod_init :: "string \<Rightarrow> string \<Rightarrow> ut_lib \<Rightarrow> (string \<Rightarrow> fptr) \<Rightarrow> 'w ubx \<Rightarrow> (int \<times> 'w ubx) option" where
  "ramp_mod_init tn bn U fp s = do {
     (ret, s) \<leftarrow> ubx_block_register U (ramp_block tn bn fp) s;
     Some (if ret \<noteq> 0 then - 1 else 0, s) }"

definition ramp_mod_cleanup :: "string \<Rightarrow> ut_lib \<Rightarrow> 'w ubx \<Rightarrow> 'w ubx option" where
  "ramp_mod_cleanup bn U s = mod_unregister U (''ubx/ramp_'' @ bn) s"

text \<open>The libraries that are built: type and block name.\<close>

definition ramp_libs :: "(string \<times> string) list" where
  "ramp_libs = [(''float'', ''float''), (''double'', ''double''), (''uint8_t'', ''uint8''), (''uint16_t'', ''uint16''),
     (''uint32_t'', ''uint32''), (''uint64_t'', ''uint64''), (''int8_t'', ''int8''), (''int16_t'', ''int16''),
     (''int32_t'', ''int32''), (''int64_t'', ''int64'')]"

definition pid_config :: "ubx_proto_config list" where
  "pid_config = [
     cfg_entry ''Kp'' ''double'' 0 0 (Some ''P-gain (def: 0)''),
     cfg_entry ''Ki'' ''double'' 0 0 (Some ''I-gain (def: 0)''),
     cfg_entry ''Kd'' ''double'' 0 0 (Some ''D-gain (def: 0)''),
     cfg_entry ''data_len'' ''long'' 0 0 (Some ''length of signal array (def: 1)'')]"

definition pid_ports :: "ubx_proto_port list" where
  "pid_ports = [
     (in_entry ''msr'' ''double'' ''measured input signal'')\<lparr>pp_in_data_len := 1\<rparr>,
     (in_entry ''des'' ''double'' ''desired input signal'')\<lparr>pp_in_data_len := 1\<rparr>,
     out_entry ''out'' ''double'' 1 ''controller output'']"

definition pid_block :: "(string \<Rightarrow> fptr) \<Rightarrow> ubx_proto_block" where
  "pid_block fp = \<lparr>pb_name = ''ubx/pid'', pb_meta_data = Some ('' { doc='' @ [CHR 0x27, CHR 0x27] @ '',   realtime=true,}''),
     pb_attrs = 0, pb_type = BLOCK_TYPE_COMPUTATION, pb_configs = pid_config, pb_ports = pid_ports,
     pb_init = Some (fp ''pid_init''), pb_start = None, pb_stop = None, pb_cleanup = Some (fp ''pid_cleanup''),
     pb_step = Some (fp ''pid_step''), pb_read = None, pb_write = None\<rparr>"

definition pid_mod_init :: "ut_lib \<Rightarrow> (string \<Rightarrow> fptr) \<Rightarrow> 'w ubx \<Rightarrow> (int \<times> 'w ubx) option" where
  "pid_mod_init U fp s = do {
     (ret, s) \<leftarrow> ubx_block_register U (pid_block fp) s;
     Some (if ret \<noteq> 0 then - 1 else 0, s) }"

definition pid_mod_cleanup :: "ut_lib \<Rightarrow> 'w ubx \<Rightarrow> 'w ubx option" where
  "pid_mod_cleanup U s = mod_unregister U ''ubx/pid'' s"

text \<open>The port \<open>x\<close> is an input port, but its length is given as \<open>out_data_len\<close>.\<close>

definition math_config :: "ubx_proto_config list" where
  "math_config = [
     cfg_entry ''func'' ''char'' 1 0 (Some ''math function to compute''),
     cfg_entry ''data_len'' ''long'' 0 0 (Some ''length of output data (def: 1)''),
     cfg_entry ''mul'' ''double'' 0 0 (Some ''optional factor to multiply with y (def: 1)''),
     cfg_entry ''add'' ''double'' 0 0 (Some ''optional offset to add to y after mul (def: 0)'')]"

definition math_ports :: "ubx_proto_port list" where
  "math_ports = [
     (in_entry ''x'' ''double'' ''math input'')\<lparr>pp_out_data_len := 1\<rparr>,
     out_entry ''y'' ''double'' 1 ''math output'']"

definition math_block :: "(string \<Rightarrow> fptr) \<Rightarrow> ubx_proto_block" where
  "math_block fp = \<lparr>pb_name = ''ubx/math_double'', pb_meta_data = Some '' { doc='math functions from math.h',   realtime=true,}'',
     pb_attrs = 0, pb_type = BLOCK_TYPE_COMPUTATION, pb_configs = math_config, pb_ports = math_ports,
     pb_init = Some (fp ''math_init''), pb_start = None, pb_stop = None, pb_cleanup = Some (fp ''math_cleanup''),
     pb_step = Some (fp ''math_step''), pb_read = None, pb_write = None\<rparr>"

definition math_mod_init :: "ut_lib \<Rightarrow> (string \<Rightarrow> fptr) \<Rightarrow> 'w ubx \<Rightarrow> (int \<times> 'w ubx) option" where
  "math_mod_init U fp s = ubx_block_register U (math_block fp) s"

definition math_mod_cleanup :: "ut_lib \<Rightarrow> 'w ubx \<Rightarrow> 'w ubx option" where
  "math_mod_cleanup U s = mod_unregister U ''ubx/math_double'' s"

text \<open>\<open>RAND_T\<close> and the block name of the four libraries.\<close>

definition rand_libs :: "(string \<times> string) list" where
  "rand_libs = [(''float'', ''ubx/rand_float''), (''double'', ''ubx/rand_double''), (''uint32_t'', ''ubx/rand_uint32''),
     (''int32_t'', ''ubx/rand_int32'')]"

definition rand_config :: "ubx_proto_config list" where
  "rand_config = [cfg_entry ''seed'' ''long'' 0 0 (Some ''seed to initialize with'')]"

definition rand_ports :: "string \<Rightarrow> ubx_proto_port list" where
  "rand_ports tn = [out_entry ''out'' tn 1 ''rand generator output'']"

definition rand_block :: "string \<Rightarrow> string \<Rightarrow> (string \<Rightarrow> fptr) \<Rightarrow> ubx_proto_block" where
  "rand_block tn bn fp = \<lparr>pb_name = bn, pb_meta_data = Some ('' { doc='' @ [CHR 0x27] @ tn @ '' random number generator block',   realtime=true,}''),
     pb_attrs = 0, pb_type = BLOCK_TYPE_COMPUTATION, pb_configs = rand_config, pb_ports = rand_ports tn,
     pb_init = Some (fp ''rand_init''), pb_start = None, pb_stop = None, pb_cleanup = Some (fp ''rand_cleanup''),
     pb_step = Some (fp ''rand_step''), pb_read = None, pb_write = None\<rparr>"

definition rand_mod_init :: "string \<Rightarrow> string \<Rightarrow> ut_lib \<Rightarrow> (string \<Rightarrow> fptr) \<Rightarrow> 'w ubx \<Rightarrow> (int \<times> 'w ubx) option" where
  "rand_mod_init tn bn U fp s = ubx_block_register U (rand_block tn bn fp) s"

definition rand_mod_cleanup :: "string \<Rightarrow> ut_lib \<Rightarrow> 'w ubx \<Rightarrow> 'w ubx option" where
  "rand_mod_cleanup bn U s = mod_unregister U bn s"

subsection \<open>\<^verbatim>\<open>simple_fifo.c\<close>, \<^verbatim>\<open>hexdump.c\<close>\<close>

definition fifometa :: string where
  "fifometa = ''{ doc='a FIFO buffered, in-process interaction.',  description=[[This FIFO interaction serves as an example interaction.'' @
     ''               Although functional, it does not scale well to multiple               reader/writers. For that case, the lfds_* versions should'' @
     ''               be preferred.]],  realtime=false,}''"

definition fifo_config :: "ubx_proto_config list" where
  "fifo_config = [cfg_entry ''fifo_size'' ''uint32_t'' 0 0 None, cfg_entry ''overrun_policy'' ''uint32_t'' 0 0 None]"

definition fifo_comp :: "(string \<Rightarrow> fptr) \<Rightarrow> ubx_proto_block" where
  "fifo_comp fp = \<lparr>pb_name = ''ubx/simple_fifo'', pb_meta_data = Some fifometa,
     pb_attrs = 0, pb_type = BLOCK_TYPE_INTERACTION, pb_configs = fifo_config, pb_ports = [],
     pb_init = Some (fp ''fifo_init''), pb_start = None, pb_stop = None, pb_cleanup = Some (fp ''fifo_cleanup''),
     pb_step = None, pb_read = Some (fp ''fifo_read''), pb_write = Some (fp ''fifo_write'')\<rparr>"

definition fifo_mod_init :: "ut_lib \<Rightarrow> (string \<Rightarrow> fptr) \<Rightarrow> 'w ubx \<Rightarrow> (int \<times> 'w ubx) option" where
  "fifo_mod_init U fp s = ubx_block_register U (fifo_comp fp) s"

definition fifo_mod_cleanup :: "ut_lib \<Rightarrow> 'w ubx \<Rightarrow> 'w ubx option" where
  "fifo_mod_cleanup U s = mod_unregister U ''ubx/simple_fifo'' s"

definition hexdump_comp :: "(string \<Rightarrow> fptr) \<Rightarrow> ubx_proto_block" where
  "hexdump_comp fp = \<lparr>pb_name = ''ubx/hexdump'', pb_meta_data = Some ''{ doc='hexdump interaction',  realtime=false,}'',
     pb_attrs = 0, pb_type = BLOCK_TYPE_INTERACTION, pb_configs = [], pb_ports = [],
     pb_init = None, pb_start = None, pb_stop = None, pb_cleanup = None,
     pb_step = None, pb_read = None, pb_write = Some (fp ''hexdump_write'')\<rparr>"

definition hexdump_mod_init :: "ut_lib \<Rightarrow> (string \<Rightarrow> fptr) \<Rightarrow> 'w ubx \<Rightarrow> (int \<times> 'w ubx) option" where
  "hexdump_mod_init U fp s = ubx_block_register U (hexdump_comp fp) s"

definition hexdump_mod_cleanup :: "ut_lib \<Rightarrow> 'w ubx \<Rightarrow> 'w ubx option" where
  "hexdump_mod_cleanup U s = mod_unregister U ''ubx/hexdump'' s"

subsection \<open>\<^verbatim>\<open>threshold.c\<close>\<close>

definition thres_event_type :: "ubx_type list" where
  "thres_event_type = [def_struct_type ''struct thres_event'' 24]"

definition thres_config :: "ubx_proto_config list" where
  "thres_config = [
     cfg_entry ''threshold'' ''double'' 1 1 (Some ''threshold to check''),
     cfg_entry ''loglevel'' ''int'' 0 0 None]"

definition thres_ports :: "ubx_proto_port list" where
  "thres_ports = [
     in_entry ''in'' ''double'' ''input signal to compare'',
     out_entry ''state'' ''int'' 0 ''1 if above threshold, 0 if below'',
     out_entry ''event'' ''struct thres_event'' 0 ''threshold crossing events'']"

definition thres_comp :: "(string \<Rightarrow> fptr) \<Rightarrow> ubx_proto_block" where
  "thres_comp fp = \<lparr>pb_name = ''ubx/threshold'', pb_meta_data = Some ''{ doc='A minimal block that checks whether its input is above a threshold' }'',
     pb_attrs = 0, pb_type = BLOCK_TYPE_COMPUTATION, pb_configs = thres_config, pb_ports = thres_ports,
     pb_init = Some (fp ''thres_init''), pb_start = None, pb_stop = None, pb_cleanup = Some (fp ''thres_cleanup''),
     pb_step = Some (fp ''thres_step''), pb_read = None, pb_write = None\<rparr>"

definition thres_module_init :: "ut_lib \<Rightarrow> (string \<Rightarrow> fptr) \<Rightarrow> addr \<Rightarrow> 'w ubx \<Rightarrow> (int \<times> 'w ubx) option" where
  "thres_module_init U fp base s = do {
     (r, s) \<leftarrow> ubx_type_register U (Some base) s;
     if r \<noteq> 0 then Some (- 1, s)
     else do {
       (r, s) \<leftarrow> ubx_block_register U (thres_comp fp) s;
       Some (if r \<noteq> 0 then - 1 else 0, s) } }"

definition thres_module_cleanup :: "ut_lib \<Rightarrow> 'w ubx \<Rightarrow> 'w ubx option" where
  "thres_module_cleanup U s = mod_unregister U ''ubx/threshold'' (types_unregister U (table_names thres_event_type) s)"

section \<open>The tables are sound\<close>

definition std_protos :: "(string \<Rightarrow> fptr) \<Rightarrow> ubx_proto_block list" where
  "std_protos fp = [ptrig_comp fp, thres_comp fp, trig_comp fp, cyclic_comp fp, mqueue_comp fp, const_comp True fp, const_comp False fp,
     sat_block fp, pid_block fp, math_block fp, fifo_comp fp, hexdump_comp fp] @
     map (\<lambda>(tn, bn). ramp_block tn bn fp) ramp_libs @ map (\<lambda>(tn, bn). rand_block tn bn fp) rand_libs"

text \<open>What a table must satisfy by itself, and the types it refers to.\<close>

definition proto_static :: "ubx_proto_block \<Rightarrow> bool" where
  "proto_static p \<longleftrightarrow> length (pb_name p) \<le> 63 \<and> (pb_type p = BLOCK_TYPE_COMPUTATION \<or> pb_type p = BLOCK_TYPE_INTERACTION) \<and>
     distinct (map pp_name (pb_ports p)) \<and> (\<forall>n \<in> set (map pp_name (pb_ports p)). length n \<le> 39) \<and>
     distinct (map pc_name (pb_configs p)) \<and> (\<forall>n \<in> set (map pc_name (pb_configs p)). length n \<le> 39) \<and>
     (\<forall>c \<in> set (pb_configs p). pc_type_name c \<noteq> None \<and> (pc_min c = 0 \<or> pc_max c = 0 \<or> pc_max c = 1 \<and> pc_min c = 1 \<or> pc_max c = 255 \<and> pc_min c = 1))"

definition proto_types :: "ubx_proto_block \<Rightarrow> string list" where
  "proto_types p = List.map_filter pp_in_type_name (pb_ports p) @ List.map_filter pp_out_type_name (pb_ports p) @
     List.map_filter pc_type_name (pb_configs p)"

lemma proto_typesI:
  "q \<in> set (pb_ports p) \<Longrightarrow> pp_in_type_name q = Some t \<Longrightarrow> t \<in> set (proto_types p)"
  "q \<in> set (pb_ports p) \<Longrightarrow> pp_out_type_name q = Some t \<Longrightarrow> t \<in> set (proto_types p)"
  "c \<in> set (pb_configs p) \<Longrightarrow> pc_type_name c = Some t \<Longrightarrow> t \<in> set (proto_types p)"
  by (force simp: proto_types_def List.map_filter_def)+

lemma apart_distinct: "\<forall>x \<in> set xs. length x \<le> n \<Longrightarrow> distinct xs \<Longrightarrow> apart n xs"
  by (induction xs) (auto simp: apart_def strncmp_eq_short)

lemma cfg_range_ok:
  "mn = 0 \<or> mx = 0 \<or> mx = 1 \<and> mn = 1 \<or> mx = 255 \<and> mn = 1 \<Longrightarrow> mn \<le> cfg_max mn mx"
proof -
  have "x \<le> CONFIG_LEN_MAX" for x :: u16
  proof -
    have "CONFIG_LEN_MAX = (- 1 :: u16)" by (simp add: CONFIG_LEN_MAX_def)
    then show ?thesis by (metis word_n1_ge)
  qed
  moreover have "(1 :: u16) \<le> 255" by code_simp
  ultimately show "mn = 0 \<or> mx = 0 \<or> mx = 1 \<and> mn = 1 \<or> mx = 255 \<and> mn = 1 \<Longrightarrow> mn \<le> cfg_max mn mx"
    by (auto simp: cfg_max_def word_gt_0)
qed

lemma static_proto_ok:
  assumes st: "proto_static p" and ty: "\<forall>t \<in> set (proto_types p). ubx_type_get U s (Some t) \<noteq> None"
  shows "proto_ok U s p"
proof -
  have r: "resolve_type U s o1 \<noteq> Inl ()" if "\<And>t. o1 = Some t \<Longrightarrow> t \<in> set (proto_types p)" for o1
  proof (cases o1)
    case (Some t)
    with that ty obtain a where "ubx_type_get U s (Some t) = Some a" by blast
    with Some show ?thesis by (simp add: resolve_type_def)
  qed (simp add: resolve_type_def)
  have "resolve_type U s (pp_in_type_name q) \<noteq> Inl ()" "resolve_type U s (pp_out_type_name q) \<noteq> Inl ()" if "q \<in> set (pb_ports p)" for q
    using proto_typesI(1,2) [OF that] by (auto intro!: r)
  moreover have "config_ok U s c" if c: "c \<in> set (pb_configs p)" for c
  proof -
    from st c obtain t where "pc_type_name c = Some t" by (auto simp: proto_static_def)
    with ty proto_typesI(3) [OF c] have "ubx_type_get U s (pc_type_name c) \<noteq> None" by auto
    with st c cfg_range_ok [of "pc_min c" "pc_max c"] show ?thesis by (auto simp: config_ok_def proto_static_def)
  qed
  ultimately show ?thesis
    using st by (auto simp: proto_ok_def proto_static_def port_ok_def intro!: apart_distinct)
qed

lemmas entry_defs = in_entry_def out_entry_def cfg_entry_def

lemma std_static_1:
  "proto_static (trig_comp fp)" "proto_static (ptrig_comp fp)" "proto_static (cyclic_comp fp)" "proto_static (mqueue_comp fp)"
  by (simp_all add: proto_static_def trig_comp_def trig_ports_def trig_config_def ptrig_comp_def ptrig_ports_def ptrig_config_def
      cyclic_comp_def cyclic_ports_def cyclic_config_def mqueue_comp_def mqueue_config_def entry_defs)

lemma std_static_2:
  "proto_static (const_comp ib fp)" "proto_static (sat_block fp)" "proto_static (pid_block fp)" "proto_static (math_block fp)"
  "proto_static (fifo_comp fp)" "proto_static (hexdump_comp fp)" "proto_static (thres_comp fp)"
  by (simp_all add: proto_static_def const_comp_def const_config_def sat_block_def sat_ports_def sat_config_def pid_block_def pid_ports_def
      pid_config_def math_block_def math_ports_def math_config_def fifo_comp_def fifo_config_def hexdump_comp_def thres_comp_def
      thres_ports_def thres_config_def entry_defs)

lemma ramp_static: "length bn \<le> 20 \<Longrightarrow> proto_static (ramp_block tn bn fp)"
  by (simp add: proto_static_def ramp_block_def ramp_ports_def ramp_config_def entry_defs)

lemma rand_static: "length bn \<le> 63 \<Longrightarrow> proto_static (rand_block tn bn fp)"
  by (simp add: proto_static_def rand_block_def rand_ports_def rand_config_def entry_defs)

lemma std_static: "p \<in> set (std_protos fp) \<Longrightarrow> proto_static p"
  by (auto simp: std_protos_def ramp_libs_def rand_libs_def std_static_1 std_static_2 ramp_static rand_static)

text \<open>The types all tables together refer to: those of \<open>stdtypes\<close> and of the modules themselves.\<close>

definition std_type_names :: "string list" where
  "std_type_names = table_names (basic_types @ ptrig_types @ thres_event_type)"

lemma std_names: "std_type_names =
  [''char'', ''unsigned char'', ''signed char'', ''short'', ''unsigned short'', ''signed short'', ''int'', ''unsigned int'',
   ''signed int'', ''long'', ''unsigned long'', ''signed long'', ''long long'', ''unsigned long long'', ''signed long long'',
   ''float'', ''double'', ''size_t'', ''int8_t'', ''int16_t'', ''int32_t'', ''int64_t'', ''uint8_t'', ''uint16_t'', ''uint32_t'',
   ''uint64_t'', ''struct ubx_tstat'', ''struct ubx_triggee'', ''struct ptrig_period'', ''struct thres_event'']"
  by (simp add: std_type_names_def table_names_def basic_types_def ptrig_types_def thres_event_type_def def_basic_ctype_def def_struct_type_def)

lemma std_types_1:
  "set (proto_types (trig_comp fp)) \<subseteq> set std_type_names" "set (proto_types (ptrig_comp fp)) \<subseteq> set std_type_names"
  "set (proto_types (cyclic_comp fp)) \<subseteq> set std_type_names" "set (proto_types (mqueue_comp fp)) \<subseteq> set std_type_names"
  unfolding std_names
  by (simp_all add: proto_types_def trig_comp_def trig_ports_def trig_config_def ptrig_comp_def ptrig_ports_def ptrig_config_def
      cyclic_comp_def cyclic_ports_def cyclic_config_def mqueue_comp_def mqueue_config_def entry_defs List.map_filter_simps)

lemma std_types_2:
  "set (proto_types (const_comp ib fp)) \<subseteq> set std_type_names" "set (proto_types (sat_block fp)) \<subseteq> set std_type_names"
  "set (proto_types (pid_block fp)) \<subseteq> set std_type_names" "set (proto_types (math_block fp)) \<subseteq> set std_type_names"
  "set (proto_types (fifo_comp fp)) \<subseteq> set std_type_names" "set (proto_types (hexdump_comp fp)) \<subseteq> set std_type_names"
  "set (proto_types (thres_comp fp)) \<subseteq> set std_type_names"
  unfolding std_names
  by (simp_all add: proto_types_def const_comp_def const_config_def sat_block_def sat_ports_def sat_config_def pid_block_def pid_ports_def
      pid_config_def math_block_def math_ports_def math_config_def fifo_comp_def fifo_config_def hexdump_comp_def thres_comp_def
      thres_ports_def thres_config_def entry_defs List.map_filter_simps)

lemma ramp_types: "tn \<in> set std_type_names \<Longrightarrow> set (proto_types (ramp_block tn bn fp)) \<subseteq> set std_type_names"
  by (simp add: proto_types_def ramp_block_def ramp_ports_def ramp_config_def entry_defs List.map_filter_simps) (simp add: std_names)

lemma rand_types: "tn \<in> set std_type_names \<Longrightarrow> set (proto_types (rand_block tn bn fp)) \<subseteq> set std_type_names"
  by (simp add: proto_types_def rand_block_def rand_ports_def rand_config_def entry_defs List.map_filter_simps) (simp add: std_names)

lemma lib_types: "(tn, bn) \<in> set ramp_libs \<union> set rand_libs \<Longrightarrow> tn \<in> set std_type_names"
  by (auto simp: ramp_libs_def rand_libs_def std_names)

lemma std_types:
  assumes "p \<in> set (std_protos fp)"
  shows "set (proto_types p) \<subseteq> set std_type_names"
proof -
  from assms consider "p \<in> {trig_comp fp, ptrig_comp fp, cyclic_comp fp, mqueue_comp fp}"
    | "p \<in> {const_comp True fp, const_comp False fp, sat_block fp, pid_block fp, math_block fp, fifo_comp fp, hexdump_comp fp, thres_comp fp}"
    | tn bn where "(tn, bn) \<in> set ramp_libs" "p = ramp_block tn bn fp" | tn bn where "(tn, bn) \<in> set rand_libs" "p = rand_block tn bn fp"
    unfolding std_protos_def by auto
  then show ?thesis
  proof cases
    case 1
    with std_types_1 [where fp = fp] show ?thesis by blast
  next
    case 2
    with std_types_2 [where fp = fp] show ?thesis by blast
  next
    case (3 tn bn)
    with ramp_types [OF lib_types] show ?thesis by blast
  next
    case (4 tn bn)
    with rand_types [OF lib_types] show ?thesis by blast
  qed
qed

section \<open>Registering a table of types\<close>

text \<open>An object of a static array as registering it leaves it.\<close>

definition registered :: "ubx_type \<Rightarrow> u64 \<Rightarrow> ubx_type" where
  "registered t q = t\<lparr>t_seqid := q, t_nd := True, t_hash := rfc_md5 (bytes_of_string (the (t_name t)))\<rparr>"

text \<open>The static array of a loaded module is at \<open>base\<close>, and the node knows none of its types.\<close>

definition table_at :: "'w ubx \<Rightarrow> addr \<Rightarrow> ubx_type list \<Rightarrow> bool" where
  "table_at s base tab \<longleftrightarrow> (\<forall>i < length tab. typs s (base + i) = Some (tab ! i))"

definition table_static :: "ubx_type list \<Rightarrow> bool" where
  "table_static tab \<longleftrightarrow> distinct (table_names tab) \<and> (\<forall>t \<in> set tab. \<exists>n. t_name t = Some n \<and> length n \<le> 63)"

definition types_inv :: "'w ubx \<Rightarrow> bool" where
  "types_inv s \<longleftrightarrow> types_ok (nd_types s) (typs s) (nd_cur_seqid s)"

lemma table_names_Cons [simp]: "table_names [] = []" "table_names (t # ts) = the (t_name t) # table_names ts"
  by (simp_all add: table_names_def)

lemma length_table [simp]: "length (table_names ts) = length ts" "length (table_addrs base ts) = length ts"
  by (simp_all add: table_names_def table_addrs_def)

lemma nth_table_addrs [simp]: "i < length ts \<Longrightarrow> table_addrs base ts ! i = base + i"
  by (simp add: table_addrs_def)

lemma table_addrs_Cons: "table_addrs base (t # ts) = base # table_addrs (Suc base) ts"
  by (rule nth_equalityI) (auto simp: nth_Cons split: nat.splits)

lemma table_addrs_Nil [simp]: "table_addrs base [] = []"
  by (simp add: table_addrs_def)

lemma mem_table_addrs: "a \<in> set (table_addrs base ts) \<longleftrightarrow> (\<exists>i < length ts. a = base + i)"
  by (auto simp: table_addrs_def image_iff intro: exI [of _ "a - base"])

lemma table_static_Cons: "table_static (t # ts) \<longleftrightarrow> table_static ts \<and> the (t_name t) \<notin> set (table_names ts) \<and>
    (\<exists>n. t_name t = Some n \<and> length n \<le> 63)"
  by (auto simp: table_static_def)

lemma table_at_Cons: "table_at s base (t # ts) \<longleftrightarrow> typs s base = Some t \<and> table_at s (Suc base) ts"
  by (auto simp: table_at_def All_less_Suc2)

context ut_laws
begin

lemma register_one:
  assumes inv: "types_inv s" and t: "typs s a = Some t" "t_name t = Some n" "length n \<le> 63" "n \<notin> set (keys (nd_types s))"
    and q: "unat (nd_cur_seqid s) + 1 < 2 ^ 64"
  shows "\<exists>s'. ubx_type_register U (Some a) s = Some (0, s') \<and> types_inv s' \<and>
    s' = s\<lparr>nd_cur_seqid := nd_cur_seqid s + 1, typs := (typs s)(a \<mapsto> registered t (nd_cur_seqid s)), nd_types := nd_types s @ [(n, a)]\<rparr>"
proof -
  have "unat (- 1 :: u64) = 2 ^ 64 - 1" by (simp add: unsigned_minus_1_eq_mask mask_eq_exp_minus_1)
  with q have "nd_cur_seqid s \<noteq> - 1" by auto
  with register_ok inv have "types_inv s'" if "ubx_type_register U (Some a) s = Some (0, s')" for s'
    using that unfolding types_inv_def by blast
  with register_spec [OF inv [unfolded types_inv_def] t(1,2)] t show ?thesis by (simp add: registered_def)
qed

lemma types_register_spec:
  assumes "types_inv s" "table_at s base tab" "table_static tab" "set (table_names tab) \<inter> set (keys (nd_types s)) = {}"
    "unat (nd_cur_seqid s) + length tab < 2 ^ 64"
  shows "\<exists>s'. types_register U (table_addrs base tab) s = Some s' \<and> types_inv s' \<and>
    s' = s\<lparr>nd_cur_seqid := nd_cur_seqid s + of_nat (length tab), typs := typs s',
      nd_types := nd_types s @ zip (table_names tab) (table_addrs base tab)\<rparr> \<and>
    (\<forall>i < length tab. typs s' (base + i) = Some (registered (tab ! i) (nd_cur_seqid s + of_nat i))) \<and>
    (\<forall>a. a \<notin> set (table_addrs base tab) \<longrightarrow> typs s' a = typs s a)"
  using assms
proof (induction tab arbitrary: base s)
  case (Cons t ts)
  from Cons.prems(3) obtain n where n: "t_name t = Some n" "length n \<le> 63" "n \<notin> set (table_names ts)"
    by (auto simp: table_static_Cons)
  from Cons.prems(2) have t: "typs s base = Some t" "table_at s (Suc base) ts" by (simp_all add: table_at_Cons)
  from register_one [OF Cons.prems(1) t(1) n(1,2)] Cons.prems(4,5) n obtain s1 where
    s1: "ubx_type_register U (Some base) s = Some (0, s1)" "types_inv s1"
    "s1 = s\<lparr>nd_cur_seqid := nd_cur_seqid s + 1, typs := (typs s)(base \<mapsto> registered t (nd_cur_seqid s)), nd_types := nd_types s @ [(n, base)]\<rparr>"
    by auto
  have at: "table_at s1 (Suc base) ts" using t(2) s1(3) by (simp add: table_at_def)
  have u: "unat (nd_cur_seqid s1) = Suc (unat (nd_cur_seqid s))"
    using Cons.prems(5) by (simp add: s1(3) unat_word_ariths)
  from Cons.IH [OF s1(2) at] Cons.prems(3-5) n u s1(3) obtain s2 where
    s2: "types_register U (table_addrs (Suc base) ts) s1 = Some s2" "types_inv s2"
      "s2 = s1\<lparr>nd_cur_seqid := nd_cur_seqid s1 + of_nat (length ts), typs := typs s2,
        nd_types := nd_types s1 @ zip (table_names ts) (table_addrs (Suc base) ts)\<rparr>"
      "\<forall>i < length ts. typs s2 (Suc base + i) = Some (registered (ts ! i) (nd_cur_seqid s1 + of_nat i))"
      "\<forall>a. a \<notin> set (table_addrs (Suc base) ts) \<longrightarrow> typs s2 a = typs s1 a"
    by (auto simp: table_static_Cons)
  have new: "nd_cur_seqid s2 = nd_cur_seqid s + of_nat (length (t # ts))"
    "nd_types s2 = nd_types s @ zip (table_names (t # ts)) (table_addrs base (t # ts))"
    using arg_cong [OF s2(3), of nd_cur_seqid] arg_cong [OF s2(3), of nd_types] n(1) by (simp_all add: s1(3) table_addrs_Cons)
  have "s2 = s\<lparr>nd_cur_seqid := nd_cur_seqid s2, typs := typs s2, nd_types := nd_types s2\<rparr>"
    by (subst s2(3)) (simp add: s1(3) new table_addrs_Cons n(1))
  moreover have "typs s2 (base + i) = Some (registered ((t # ts) ! i) (nd_cur_seqid s + of_nat i))" if "i < Suc (length ts)" for i
  proof (cases i)
    case 0
    with s2(5) s1(3) show ?thesis by (auto simp: mem_table_addrs)
  next
    case (Suc j)
    with s2(4) that s1(3) show ?thesis by (simp add: add.assoc)
  qed
  moreover have "\<forall>a. a \<notin> set (table_addrs base (t # ts)) \<longrightarrow> typs s2 a = typs s a" using s2(5) s1(3) by (simp add: table_addrs_Cons)
  ultimately show ?case using s1(1) s2(1,2) new by (intro exI [of _ s2]) (simp add: table_addrs_Cons)
qed simp

lemma types_unregister_spec:
  "htab_ok (nd_types s) \<Longrightarrow> types_unregister U ns s = s\<lparr>nd_types := filter (\<lambda>e. fst e \<notin> set ns) (nd_types s)\<rparr>"
proof (induction ns arbitrary: s)
  case (Cons n ns)
  then show ?case by (simp add: unregister_spec conj_commute)
qed simp

end

end
