(* ===== verification/Ubx_Boot.thy ===== *)
theory Ubx_Boot
  imports Ubx_Modules
begin

text \<open>
  Loading the standard modules. A loaded library registers the types of its table and a prototype; the lemmas show
  that what \<^verbatim>\<open>Ubx_Modules\<close> models does exactly that, and that loading all of them into a node and cleaning
  up the node again works.
\<close>

section \<open>What registering a block leaves alone\<close>

definition same_reg :: "'w ubx \<Rightarrow> 'w ubx \<Rightarrow> bool" where
  "same_reg s s' \<longleftrightarrow> nd_types s' = nd_types s \<and> typs s' = typs s \<and> nd_cur_seqid s' = nd_cur_seqid s \<and> same_mods s s' \<and>
     next_addr s \<le> next_addr s' \<and> world s' = world s"

definition states_ok :: "'w ubx \<Rightarrow> bool" where
  "states_ok s \<longleftrightarrow> (\<forall>a \<in> set (elems (nd_blocks s)). states s a = Some BLOCK_STATE_PREINIT)"

lemma states_ok_same: "nd_blocks s' = nd_blocks s \<Longrightarrow> blks s' = blks s \<Longrightarrow> states_ok s' = states_ok s"
  by (simp add: states_ok_def states_def)

lemma same_reg_refl [simp]: "same_reg s s"
  by (simp add: same_reg_def)

lemma same_reg_trans: "same_reg s t \<Longrightarrow> same_reg t u \<Longrightarrow> same_reg s u"
  by (auto simp: same_reg_def same_mods_def)

lemma register_ports_same:
  "register_ports U b ps s = Some (0, s') \<Longrightarrow> blks s b = Some blk \<Longrightarrow> same_reg s s' \<and> (\<exists>blk'. blks s' b = Some blk')"
proof (induction ps arbitrary: s blk)
  case (Cons p ps)
  from Cons.prems(1) obtain s1 where s1: "ubx_port_add U (Some b) (Some (pp_name p)) (pp_doc p) (pp_attrs p OR PORT_ATTR_CLONED)
      (pp_in_type_name p) (pp_in_data_len p) (pp_out_type_name p) (pp_out_data_len p) s = Some (0, s1)"
    "register_ports U b ps s1 = Some (0, s')" by (auto split: if_splits)
  from port_add_inv [OF s1(1) Cons.prems(2)] obtain it ot where t: "ubx_port_add_t U b (pp_name p) (pp_doc p)
      (pp_attrs p OR PORT_ATTR_CLONED) it (pp_in_data_len p) ot (pp_out_data_len p) s = Some (0, s1)" .
  from t Cons.prems(2) have "same_reg s s1 \<and> (\<exists>blk'. blks s1 b = Some blk')"
    by (cases rule: port_add_t_cases) (auto simp: same_reg_def same_mods_def)
  with Cons.IH [OF s1(2)] same_reg_trans show ?case by blast
qed simp

context ut_laws
begin

lemma register_configs_same:
  "register_configs U b cs s = Some (0, s') \<Longrightarrow> blks s b = Some blk \<Longrightarrow> same_reg s s' \<and> (\<exists>blk'. blks s' b = Some blk')"
proof (induction cs arbitrary: s blk)
  case (Cons c cs)
  from Cons.prems(1) obtain s1 where s1: "ubx_config_add2 U (Some b) (Some (pc_name c)) (pc_doc c) (pc_type_name c)
      (pc_min c) (pc_max c) (pc_attrs c OR CONFIG_ATTR_CLONED) s = Some (0, s1)"
    "register_configs U b cs s1 = Some (0, s')" by (auto split: if_splits)
  from config_add2_inv [OF s1(1) Cons.prems(2)] obtain ta where t: "ubx_config_add_t U b (pc_name c) (pc_doc c) (Some ta)
      (pc_min c) (pc_max c) (pc_attrs c OR CONFIG_ATTR_CLONED) s = Some (0, s1)" .
  from t Cons.prems(2) have "same_reg s s1 \<and> (\<exists>blk'. blks s1 b = Some blk')"
  proof (cases rule: config_add_t_cases)
    case (ok k q v D)
    from ok(6) have "next_addr s \<le> k" by auto
    with ok show ?thesis by (simp add: same_reg_def same_mods_def)
  qed (auto simp: EENTEXISTS_def EOUTOFMEM_def EINVALID_CONFIG_def)
  with Cons.IH [OF s1(2)] same_reg_trans show ?case by blast
qed simp

lemma block_register_same:
  assumes wf: "core_wf s" and r: "ubx_block_register U prot s = Some (0, s')"
  shows "same_reg s s'"
proof -
  from block_register_inv [OF assms] obtain mok q s3 s4 s5 where
    s3: "s3 = s\<lparr>next_addr := Suc (next_addr s), oom := q, blks := (blks s)(next_addr s \<mapsto> register_new prot mok)\<rparr>"
    and s4: "register_ports U (next_addr s) (pb_ports prot) s3 = Some (0, s4)"
    and s5: "register_configs U (next_addr s) (pb_configs prot) s4 = Some (0, s5)"
    and t: "block_register_t U (next_addr s) s5 = Some (0, s')" .
  have "same_reg s s3" by (simp add: s3 same_reg_def same_mods_def)
  moreover from register_ports_same [OF s4, of "register_new prot mok"] have "same_reg s3 s4" "\<exists>b. blks s4 (next_addr s) = Some b"
    by (simp_all add: s3)
  moreover from this(2) register_configs_same [OF s5] have "same_reg s4 s5" by blast
  moreover from t have "same_reg s5 s'" by (auto simp: block_register_t_def same_reg_def same_mods_def split: if_splits)
  ultimately show ?thesis using same_reg_trans by blast
qed

text \<open>A sound prototype whose types the node knows is registered when memory suffices.\<close>

lemma block_register_std:
  assumes wf: "core_wf s" and o: "oom s = []" and st: "proto_static p" and h: "htab_ok (nd_types s)"
    and ty: "set (proto_types p) \<subseteq> set (keys (nd_types s))" and new: "pb_name p \<notin> set (keys (nd_blocks s))"
  shows "\<exists>s' a. ubx_block_register U p s = Some (0, s') \<and> core_wf s' \<and> oom s' = [] \<and> same_reg s s' \<and>
    nd_blocks s' = nd_blocks s @ [(pb_name p, a)] \<and> (states_ok s \<longrightarrow> states_ok s')"
proof -
  have "\<forall>t \<in> set (proto_types p). ubx_type_get U s (Some t) \<noteq> None"
    using ty find_None [OF h] by (auto simp: ubx_type_get_def)
  note ok = static_proto_ok [OF st this]
  have "ubx_block_get U s (Some (pb_name p)) = None"
    using new core_wfD(1) [OF wf] by (simp add: ubx_block_get_def find_None)
  from block_register_ok [OF wf o ok this] obtain s' where s': "ubx_block_register U p s = Some (0, s')" "oom s' = []" by blast
  from register_extends [OF wf s'(1)] obtain a blk where x: "extends_by (pb_name p) a blk s s'" "core_wf s'" by blast
  from block_register_table [OF wf s'(1)] obtain a' ps cs m where
    t: "ubx_block_get U s' (Some (pb_name p)) = Some a'"
    "blks s' a' = Some ((register_new p m)\<lparr>b_ports := ps, b_configs := cs, b_nd := True\<rparr>)" by auto
  have "ut_find U (nd_blocks s') (pb_name p) = Some a" using x find_iff [OF core_wfD(1) [OF x(2)]] by (simp add: extends_by_def)
  then have "a' = a" using t(1) by (simp add: ubx_block_get_def)
  then have "states s' a = Some BLOCK_STATE_PREINIT" using t(2) by (simp add: states_def register_new_def)
  moreover have "states s' x = states s x" if "x \<noteq> a" for x using x(1) that by (simp add: extends_by_def states_def)
  moreover have "set (elems (nd_blocks s')) = insert a (set (elems (nd_blocks s)))" using x(1) by (simp add: extends_by_def)
  ultimately have "states_ok s \<longrightarrow> states_ok s'" unfolding states_ok_def by (metis insert_iff)
  with s' x block_register_same [OF wf s'(1)] show ?thesis by (auto simp: extends_by_def)
qed

end
section \<open>Libraries\<close>

text \<open>A library: its file, its module functions, the static array of its types with its address, and its prototype.\<close>

record 'w std_lib =
  sl_path :: string
  sl_init :: "'w ubx \<Rightarrow> (int \<times> 'w ubx) option"
  sl_cleanup :: "'w ubx \<Rightarrow> 'w ubx option"
  sl_base :: addr
  sl_types :: "ubx_type list"
  sl_proto :: "ubx_proto_block option"

definition lib_blocks :: "'w std_lib \<Rightarrow> string list" where
  "lib_blocks L = (case sl_proto L of None \<Rightarrow> [] | Some p \<Rightarrow> [pb_name p])"

definition mk_lib :: "string \<Rightarrow> ('w ubx \<Rightarrow> (int \<times> 'w ubx) option) \<Rightarrow> ('w ubx \<Rightarrow> 'w ubx option) \<Rightarrow> ubx_proto_block \<Rightarrow> 'w std_lib" where
  "mk_lib f i c p = \<lparr>sl_path = f, sl_init = i, sl_cleanup = c, sl_base = 0, sl_types = [], sl_proto = Some p\<rparr>"

text \<open>The libraries with types, whose arrays the linker placed at \<open>b\<close>, \<open>bp\<close> and \<open>bt\<close>, and those with blocks only.\<close>

definition type_libs :: "ut_lib \<Rightarrow> (string \<Rightarrow> fptr) \<Rightarrow> addr \<Rightarrow> addr \<Rightarrow> addr \<Rightarrow> 'w std_lib list" where
  "type_libs U fp b bp bt =
     [\<lparr>sl_path = ''stdtypes.so'', sl_init = stdtypes_init U b, sl_cleanup = stdtypes_cleanup U,
        sl_base = b, sl_types = basic_types, sl_proto = None\<rparr>,
      \<lparr>sl_path = ''ptrig.so'', sl_init = ptrig_mod_init U fp bp, sl_cleanup = ptrig_mod_cleanup U,
        sl_base = bp, sl_types = ptrig_types, sl_proto = Some (ptrig_comp fp)\<rparr>,
      \<lparr>sl_path = ''threshold.so'', sl_init = thres_module_init U fp bt, sl_cleanup = thres_module_cleanup U,
        sl_base = bt, sl_types = thres_event_type, sl_proto = Some (thres_comp fp)\<rparr>]"

definition block_libs :: "ut_lib \<Rightarrow> (string \<Rightarrow> fptr) \<Rightarrow> 'w std_lib list" where
  "block_libs U fp =
     [mk_lib ''trig.so'' (trig_mod_init U fp) (trig_mod_cleanup U) (trig_comp fp),
      mk_lib ''lfds_cyclic.so'' (cyclic_mod_init U fp) (cyclic_mod_cleanup U) (cyclic_comp fp),
      mk_lib ''mqueue.so'' (mqueue_mod_init U fp) (mqueue_mod_cleanup U) (mqueue_comp fp),
      mk_lib ''iconst.so'' (const_mod_init True U fp) (const_mod_cleanup True U) (const_comp True fp),
      mk_lib ''cconst.so'' (const_mod_init False U fp) (const_mod_cleanup False U) (const_comp False fp),
      mk_lib ''saturation_double.so'' (sat_mod_init U fp) (sat_mod_cleanup U) (sat_block fp),
      mk_lib ''pid.so'' (pid_mod_init U fp) (pid_mod_cleanup U) (pid_block fp),
      mk_lib ''math_double.so'' (math_mod_init U fp) (math_mod_cleanup U) (math_block fp),
      mk_lib ''simple_fifo.so'' (fifo_mod_init U fp) (fifo_mod_cleanup U) (fifo_comp fp),
      mk_lib ''hexdump.so'' (hexdump_mod_init U fp) (hexdump_mod_cleanup U) (hexdump_comp fp)] @
     map (\<lambda>(tn, bn). mk_lib (''ramp_'' @ bn @ ''.so'') (ramp_mod_init tn bn U fp) (ramp_mod_cleanup bn U) (ramp_block tn bn fp)) ramp_libs @
     map (\<lambda>(tn, bn). mk_lib (drop 4 bn @ ''.so'') (rand_mod_init tn bn U fp) (rand_mod_cleanup bn U) (rand_block tn bn fp)) rand_libs"

definition std_libs :: "ut_lib \<Rightarrow> (string \<Rightarrow> fptr) \<Rightarrow> addr \<Rightarrow> addr \<Rightarrow> addr \<Rightarrow> 'w std_lib list" where
  "std_libs U fp b bp bt = type_libs U fp b bp bt @ block_libs U fp"

section \<open>The contract of a library\<close>

text \<open>What a library needs to be loaded and what loading it does.\<close>

definition lib_static :: "string list \<Rightarrow> string list \<Rightarrow> 'w std_lib \<Rightarrow> bool" where
  "lib_static ts bs L \<longleftrightarrow> table_static (sl_types L) \<and> set (table_names (sl_types L)) \<inter> set ts = {} \<and>
     (\<forall>p. sl_proto L = Some p \<longrightarrow> proto_static p \<and> set (proto_types p) \<subseteq> set ts \<union> set (table_names (sl_types L)) \<and> pb_name p \<notin> set bs)"

definition lib_ready :: "'w std_lib \<Rightarrow> 'w ubx \<Rightarrow> bool" where
  "lib_ready L s \<longleftrightarrow> core_wf s \<and> states_ok s \<and> types_inv s \<and> oom s = [] \<and> lib_static (keys (nd_types s)) (keys (nd_blocks s)) L \<and>
     table_at s (sl_base L) (sl_types L) \<and> unat (nd_cur_seqid s) + length (sl_types L) < 2 ^ 64"

definition lib_done :: "'w std_lib \<Rightarrow> 'w ubx \<Rightarrow> 'w ubx \<Rightarrow> bool" where
  "lib_done L s s' \<longleftrightarrow> core_wf s' \<and> states_ok s' \<and> types_inv s' \<and> oom s' = [] \<and> same_mods s s' \<and> next_addr s \<le> next_addr s' \<and>
     keys (nd_types s') = keys (nd_types s) @ table_names (sl_types L) \<and> keys (nd_blocks s') = keys (nd_blocks s) @ lib_blocks L \<and>
     nd_cur_seqid s' = nd_cur_seqid s + of_nat (length (sl_types L)) \<and>
     (\<forall>a. a \<notin> set (table_addrs (sl_base L) (sl_types L)) \<longrightarrow> typs s' a = typs s a)"

definition lib_ok :: "'w std_lib \<Rightarrow> bool" where
  "lib_ok L \<longleftrightarrow> (\<forall>s. lib_ready L s \<longrightarrow> (\<exists>s'. sl_init L s = Some (0, s') \<and> lib_done L s s')) \<and>
     (\<forall>s. core_wf s \<longrightarrow> (\<exists>s'. sl_cleanup L s = Some s' \<and> core_wf s' \<and> same_mods s s' \<and>
        nd_blocks s' = filter (\<lambda>e. fst e \<notin> set (lib_blocks L)) (nd_blocks s) \<and>
        (htab_ok (nd_types s) \<longrightarrow> nd_types s' = filter (\<lambda>e. fst e \<notin> set (table_names (sl_types L))) (nd_types s))))"

lemma types_inv_table: "types_inv s \<Longrightarrow> htab_ok (nd_types s)"
  by (simp add: types_inv_def types_okD(1))

lemma types_inv_same: "nd_types s' = nd_types s \<Longrightarrow> typs s' = typs s \<Longrightarrow> nd_cur_seqid s' = nd_cur_seqid s \<Longrightarrow> types_inv s' = types_inv s"
  by (simp add: types_inv_def)

lemma core_wf_types: "core_wf (s\<lparr>nd_cur_seqid := q, typs := ty, nd_types := tab\<rparr>) = core_wf s"
proof -
  have "rc_inv (s\<lparr>nd_cur_seqid := q, typs := ty, nd_types := tab\<rparr>) ext = rc_inv s ext" for ext by (auto simp: rc_inv_def)
  then show ?thesis by (simp add: core_wf_def)
qed

lemma keys_zip [simp]: "length xs = length ys \<Longrightarrow> keys (zip xs ys) = xs"
  by (simp add: keys_def)

context ut_laws
begin

lemma types_unregister_frame: "\<exists>tab. types_unregister U ns s = s\<lparr>nd_types := tab\<rparr>"
proof (induction ns arbitrary: s)
  case Nil
  show ?case by (intro exI [of _ "nd_types s"]) simp
next
  case (Cons n ns)
  have "snd (ubx_type_unregister U n s) = s\<lparr>nd_types := nd_types (snd (ubx_type_unregister U n s))\<rparr>"
    by (simp add: ubx_type_unregister_def split: option.split)
  then obtain t where "snd (ubx_type_unregister U n s) = s\<lparr>nd_types := t\<rparr>" by blast
  with Cons.IH [of "s\<lparr>nd_types := t\<rparr>"] show ?case by auto
qed

lemma mod_unregister_ok:
  assumes "core_wf s"
  shows "\<exists>s'. mod_unregister U n s = Some s' \<and> core_wf s' \<and> same_mods s s' \<and> nd_blocks s' = filter (\<lambda>e. fst e \<noteq> n) (nd_blocks s) \<and>
    nd_types s' = nd_types s"
proof (cases "n \<in> set (keys (nd_blocks s))")
  case True
  then obtain a where "(n, a) \<in> set (nd_blocks s)" by (auto simp: keys_def)
  from block_unregister_wf [OF assms this] show ?thesis by (auto simp: heap_only_def same_mods_def mod_unregister_def)
next
  case False
  then have "filter (\<lambda>e. fst e \<noteq> n) (nd_blocks s) = nd_blocks s" by (auto simp: keys_def intro!: filter_True)
  with False find_None [OF core_wfD(1) [OF assms], of n] assms show ?thesis
    by (simp add: ubx_block_unregister_def mod_unregister_def)
qed

lemma unregister_both_ok:
  assumes "core_wf s"
  shows "\<exists>s'. mod_unregister U n (types_unregister U ns s) = Some s' \<and> core_wf s' \<and> same_mods s s' \<and>
    nd_blocks s' = filter (\<lambda>e. fst e \<noteq> n) (nd_blocks s) \<and>
    (htab_ok (nd_types s) \<longrightarrow> nd_types s' = filter (\<lambda>e. fst e \<notin> set ns) (nd_types s))"
proof -
  obtain tab where t: "types_unregister U ns s = s\<lparr>nd_types := tab\<rparr>" using types_unregister_frame by blast
  have ty: "tab = filter (\<lambda>e. fst e \<notin> set ns) (nd_types s)" if "htab_ok (nd_types s)"
    using types_unregister_spec [OF that, of ns] arg_cong [OF t, of nd_types] by simp
  have "core_wf (s\<lparr>nd_types := tab\<rparr>)" using core_wf_types [where s = s and q = "nd_cur_seqid s" and ty = "typs s" and tab = tab] assms by simp
  from mod_unregister_ok [OF this, of n] ty show ?thesis by (auto simp: t same_mods_def)
qed

text \<open>Libraries that only register a prototype.\<close>

lemma mk_lib_ok:
  assumes i: "\<And>s s'. ubx_block_register U p s = Some (0, s') \<Longrightarrow> i s = Some (0, s')" and c: "\<And>s. c s = mod_unregister U (pb_name p) s"
  shows "lib_ok (mk_lib f i c p)"
proof -
  have "\<exists>s'. i s = Some (0, s') \<and> lib_done (mk_lib f i c p) s s'" if r: "lib_ready (mk_lib f i c p) s" for s
  proof -
    from r have "\<exists>s' a. ubx_block_register U p s = Some (0, s') \<and> core_wf s' \<and> oom s' = [] \<and> same_reg s s' \<and>
        nd_blocks s' = nd_blocks s @ [(pb_name p, a)] \<and> (states_ok s \<longrightarrow> states_ok s')"
      by (intro block_register_std) (auto simp: lib_ready_def lib_static_def mk_lib_def types_inv_table)
    then obtain s' a where s': "ubx_block_register U p s = Some (0, s')" "core_wf s'" "oom s' = []" "same_reg s s'"
      "nd_blocks s' = nd_blocks s @ [(pb_name p, a)]" "states_ok s \<longrightarrow> states_ok s'" by blast
    with i [OF s'(1)] r types_inv_same [of s' s] show ?thesis
      by (intro exI [of _ s']) (simp add: lib_done_def lib_ready_def mk_lib_def lib_blocks_def same_reg_def)
  qed
  moreover have "\<exists>s'. c s = Some s' \<and> core_wf s' \<and> same_mods s s' \<and> nd_blocks s' = filter (\<lambda>e. fst e \<noteq> pb_name p) (nd_blocks s) \<and>
      nd_types s' = nd_types s" if "core_wf s" for s
    using mod_unregister_ok [OF that] by (simp add: c)
  ultimately show ?thesis by (auto simp: lib_ok_def mk_lib_def lib_blocks_def table_names_def)
qed

end

section \<open>The standard libraries obey the contract\<close>

lemmas mod_init_defs = trig_mod_init_def cyclic_mod_init_def mqueue_mod_init_def const_mod_init_def sat_mod_init_def pid_mod_init_def
  math_mod_init_def fifo_mod_init_def hexdump_mod_init_def ramp_mod_init_def rand_mod_init_def

lemmas mod_cleanup_defs = trig_mod_cleanup_def cyclic_mod_cleanup_def mqueue_mod_cleanup_def const_mod_cleanup_def sat_mod_cleanup_def
  pid_mod_cleanup_def math_mod_cleanup_def fifo_mod_cleanup_def hexdump_mod_cleanup_def ramp_mod_cleanup_def rand_mod_cleanup_def

lemma proto_names [simp]:
  "pb_name (trig_comp fp) = ''ubx/trig''" "pb_name (ptrig_comp fp) = ''ubx/ptrig''" "pb_name (cyclic_comp fp) = ''ubx/lfds_cyclic''"
  "pb_name (mqueue_comp fp) = ''ubx/mqueue''" "pb_name (const_comp ib fp) = (if ib then ''ubx/iconst'' else ''ubx/cconst'')"
  "pb_name (sat_block fp) = ''ubx/saturation_double''" "pb_name (pid_block fp) = ''ubx/pid''" "pb_name (math_block fp) = ''ubx/math_double''"
  "pb_name (fifo_comp fp) = ''ubx/simple_fifo''" "pb_name (hexdump_comp fp) = ''ubx/hexdump''" "pb_name (thres_comp fp) = ''ubx/threshold''"
  "pb_name (ramp_block tn bn fp) = ''ubx/ramp_'' @ bn" "pb_name (rand_block tn bn fp) = bn"
  by (simp_all add: trig_comp_def ptrig_comp_def cyclic_comp_def mqueue_comp_def const_comp_def sat_block_def pid_block_def math_block_def
      fifo_comp_def hexdump_comp_def thres_comp_def ramp_block_def rand_block_def)

context ut_laws
begin

lemma block_libs_ok: "L \<in> set (block_libs U fp) \<Longrightarrow> lib_ok L"
  unfolding block_libs_def
  by (auto simp: mod_cleanup_defs mod_init_defs intro!: mk_lib_ok)

lemma stdtypes_ok: "lib_ok (\<lparr>sl_path = f, sl_init = stdtypes_init U b, sl_cleanup = stdtypes_cleanup U, sl_base = b, sl_types = basic_types,
    sl_proto = None\<rparr> :: 'v std_lib)" (is "lib_ok ?L")
proof -
  have "\<exists>s'. stdtypes_init U b s = Some (0, s') \<and> lib_done ?L s s'" if r: "lib_ready ?L s" for s :: "'v ubx"
  proof -
    from r have "types_inv s" "table_at s b basic_types" "table_static basic_types"
      "set (table_names basic_types) \<inter> set (keys (nd_types s)) = {}" "unat (nd_cur_seqid s) + length basic_types < 2 ^ 64"
      by (simp_all add: lib_ready_def lib_static_def)
    from types_register_spec [OF this] obtain s' where s': "types_register U (table_addrs b basic_types) s = Some s'" "types_inv s'"
      "s' = s\<lparr>nd_cur_seqid := nd_cur_seqid s + of_nat (length basic_types), typs := typs s',
        nd_types := nd_types s @ zip (table_names basic_types) (table_addrs b basic_types)\<rparr>"
      "\<forall>a. a \<notin> set (table_addrs b basic_types) \<longrightarrow> typs s' a = typs s a" by blast
    have fields: "core_wf s' = core_wf s" "oom s' = oom s" "same_mods s s'" "next_addr s' = next_addr s" "nd_blocks s' = nd_blocks s" "states_ok s' = states_ok s"
      "nd_cur_seqid s' = nd_cur_seqid s + of_nat (length basic_types)"
      "nd_types s' = nd_types s @ zip (table_names basic_types) (table_addrs b basic_types)"
      by (subst s'(3), simp add: core_wf_types same_mods_def states_ok_def states_def)+
    with s' r show ?thesis by (simp add: stdtypes_init_def lib_done_def lib_ready_def lib_blocks_def)
  qed
  moreover have "\<exists>s'. stdtypes_cleanup U s = Some s' \<and> core_wf s' \<and> same_mods s s' \<and> nd_blocks s' = nd_blocks s \<and>
      (htab_ok (nd_types s) \<longrightarrow> nd_types s' = filter (\<lambda>e. fst e \<notin> set (table_names basic_types)) (nd_types s))" if "core_wf s" for s :: "'v ubx"
  proof -
    obtain tab where t: "types_unregister U (table_names basic_types) s = s\<lparr>nd_types := tab\<rparr>" using types_unregister_frame by blast
    have "tab = filter (\<lambda>e. fst e \<notin> set (table_names basic_types)) (nd_types s)" if "htab_ok (nd_types s)"
      using types_unregister_spec [OF that, of "table_names basic_types"] arg_cong [OF t, of nd_types] by simp
    with t that core_wf_types [where s = s and q = "nd_cur_seqid s" and ty = "typs s" and tab = tab] show ?thesis
      by (simp add: stdtypes_cleanup_def same_mods_def)
  qed
  ultimately show ?thesis by (simp add: lib_ok_def lib_blocks_def)
qed

text \<open>A library with one type and one prototype.\<close>

lemma one_type_ok:
  assumes i: "\<And>s s1 s2. ubx_type_register U (Some b) s = Some (0, s1) \<Longrightarrow> ubx_block_register U p s1 = Some (0, s2) \<Longrightarrow> i s = Some (0, s2)"
    and c: "\<And>s. c s = mod_unregister U (pb_name p) (types_unregister U (table_names [t]) s)"
  shows "lib_ok \<lparr>sl_path = f, sl_init = i, sl_cleanup = c, sl_base = b, sl_types = [t], sl_proto = Some p\<rparr>" (is "lib_ok ?L")
proof -
  have "\<exists>s'. i s = Some (0, s') \<and> lib_done ?L s s'" if r: "lib_ready ?L s" for s
  proof -
    from r obtain n where n: "t_name t = Some n" "length n \<le> 63" "n \<notin> set (keys (nd_types s))"
      by (auto simp: lib_ready_def lib_static_def table_static_Cons)
    from r have st: "core_wf s" "types_inv s" "oom s = []" "typs s b = Some t" "unat (nd_cur_seqid s) + 1 < 2 ^ 64" "proto_static p"
      "set (proto_types p) \<subseteq> insert n (set (keys (nd_types s)))" "pb_name p \<notin> set (keys (nd_blocks s))"
      using n by (auto simp: lib_ready_def lib_static_def table_at_def)
    from register_one [OF st(2,4) n st(5)] obtain s1 where s1: "ubx_type_register U (Some b) s = Some (0, s1)" "types_inv s1"
      "s1 = s\<lparr>nd_cur_seqid := nd_cur_seqid s + 1, typs := (typs s)(b \<mapsto> registered t (nd_cur_seqid s)), nd_types := nd_types s @ [(n, b)]\<rparr>"
      by blast
    have "states_ok s1" using r by (simp add: lib_ready_def s1(3) states_ok_def states_def)
    have f1: "core_wf s1" "oom s1 = []" "htab_ok (nd_types s1)" "nd_blocks s1 = nd_blocks s" "set (proto_types p) \<subseteq> set (keys (nd_types s1))"
      using st types_inv_table [OF s1(2)] by (auto simp: s1(3) core_wf_types)
    from block_register_std [OF f1(1,2) st(6) f1(3,5)] st(8) f1(4) obtain s2 a where
      s2: "ubx_block_register U p s1 = Some (0, s2)" "core_wf s2" "oom s2 = []" "same_reg s1 s2"
      "nd_blocks s2 = nd_blocks s @ [(pb_name p, a)]" "states_ok s2" using \<open>states_ok s1\<close> by auto
    from types_inv_same [of s2 s1] s2(4) s1(2) have "types_inv s2" by (simp add: same_reg_def)
    with i [OF s1(1) s2(1)] s1(3) s2 n show ?thesis
      by (intro exI [of _ s2]) (simp add: lib_done_def lib_blocks_def same_reg_def same_mods_def table_addrs_def)
  qed
  moreover have "\<exists>s'. c s = Some s' \<and> core_wf s' \<and> same_mods s s' \<and> nd_blocks s' = filter (\<lambda>e. fst e \<noteq> pb_name p) (nd_blocks s) \<and>
      (htab_ok (nd_types s) \<longrightarrow> nd_types s' = filter (\<lambda>e. fst e \<notin> set (table_names [t])) (nd_types s))"
    if "core_wf s" for s
    unfolding c by (rule unregister_both_ok [OF that])
  ultimately show ?thesis by (simp add: lib_ok_def lib_blocks_def)
qed

lemma ptrig_lib_ok: "lib_ok \<lparr>sl_path = f, sl_init = ptrig_mod_init U fp b, sl_cleanup = ptrig_mod_cleanup U, sl_base = b,
    sl_types = ptrig_types, sl_proto = Some (ptrig_comp fp)\<rparr>"
  unfolding ptrig_types_def
  by (rule one_type_ok) (auto simp: ptrig_mod_init_def ptrig_types_def ptrig_mod_cleanup_def table_addrs_Cons)

lemma thres_lib_ok: "lib_ok \<lparr>sl_path = f, sl_init = thres_module_init U fp b, sl_cleanup = thres_module_cleanup U, sl_base = b,
    sl_types = thres_event_type, sl_proto = Some (thres_comp fp)\<rparr>"
  unfolding thres_event_type_def
  by (rule one_type_ok) (auto simp: thres_module_init_def thres_event_type_def thres_module_cleanup_def)

lemma std_libs_ok: "L \<in> set (std_libs U fp b bp bt) \<Longrightarrow> lib_ok L"
  unfolding std_libs_def type_libs_def using block_libs_ok stdtypes_ok ptrig_lib_ok thres_lib_ok by auto

end

section \<open>The dynamic linker\<close>

fun lib_index :: "string \<Rightarrow> 'w std_lib list \<Rightarrow> nat option" where
  "lib_index f [] = None"
| "lib_index f (L # Ls) = (if sl_path L = f then Some 0 else map_option Suc (lib_index f Ls))"

text \<open>An environment with these libraries: the handle of a library is its number, and all its symbols resolve.\<close>

definition lib_env :: "'w std_lib list \<Rightarrow> 'w mod_env" where
  "lib_env Ls = \<lparr>dl_open = (\<lambda>f w. (lib_index f Ls, w)), dl_sym = (\<lambda>h n. Some h), dl_close = (\<lambda>h w. w),
     mod_init = (\<lambda>f s. if f < length Ls then sl_init (Ls ! f) s else Some (- 1, s)),
     mod_cleanup = (\<lambda>f s. if f < length Ls then sl_cleanup (Ls ! f) s else Some s)\<rparr>"

text \<open>What a launch script does: load one module after the other, until one fails.\<close>

fun load_all :: "ut_lib \<Rightarrow> 'w mod_env \<Rightarrow> string list \<Rightarrow> 'w ubx \<Rightarrow> (int \<times> 'w ubx) option" where
  "load_all U M [] s = Some (0, s)"
| "load_all U M (f # fs) s = do {
     (ret, s) \<leftarrow> ubx_module_load U M f s;
     if ret \<noteq> 0 then Some (ret, s) else load_all U M fs s }"

lemma lib_index_nth: "distinct (map sl_path Ls) \<Longrightarrow> i < length Ls \<Longrightarrow> lib_index (sl_path (Ls ! i)) Ls = Some i"
proof (induction Ls arbitrary: i)
  case (Cons L Ls)
  then show ?case by (cases i) auto
qed simp

text \<open>The libraries fit together: each finds the types it needs, and no name is used twice.\<close>

fun libs_sound :: "string list \<Rightarrow> string list \<Rightarrow> 'w std_lib list \<Rightarrow> bool" where
  "libs_sound ts bs [] \<longleftrightarrow> True"
| "libs_sound ts bs (L # Ls) \<longleftrightarrow> lib_static ts bs L \<and> libs_sound (ts @ table_names (sl_types L)) (bs @ lib_blocks L) Ls"

definition lib_mem :: "'w std_lib \<Rightarrow> addr set" where
  "lib_mem L = set (table_addrs (sl_base L) (sl_types L))"

definition boot_inv :: "'w ubx \<Rightarrow> bool" where
  "boot_inv s \<longleftrightarrow> core_wf s \<and> states_ok s \<and> types_inv s \<and> oom s = [] \<and> mods_wf s \<and> fresh_from (next_addr s) (mods s)"

lemma core_wf_new_mod:
  assumes "core_wf s"
  shows "core_wf (s\<lparr>next_addr := Suc (next_addr s), oom := q, world := w, mods := m\<rparr>)"
proof -
  have "rc_inv (t\<lparr>mods := m\<rparr>) ext = rc_inv t ext" for t :: "'a ubx" and ext by (auto simp: rc_inv_def)
  then have "core_wf (t\<lparr>mods := m\<rparr>) = core_wf t" for t :: "'a ubx" by (simp add: core_wf_def)
  moreover from core_wf_alloc [OF assms, of "Suc (next_addr s)" q] have "core_wf (s\<lparr>next_addr := Suc (next_addr s), oom := q\<rparr>)" by simp
  ultimately show ?thesis by (simp add: core_wf_world)
qed

context ut_laws
begin

lemma load_one:
  assumes inv: "boot_inv s" and i: "i < length Ls" "lib_ok (Ls ! i)" "distinct (map sl_path Ls)"
    and r: "lib_static (keys (nd_types s)) (keys (nd_blocks s)) (Ls ! i)" "table_at s (sl_base (Ls ! i)) (sl_types (Ls ! i))"
      "unat (nd_cur_seqid s) + length (sl_types (Ls ! i)) < 2 ^ 64"
    and new: "sl_path (Ls ! i) \<notin> set (keys (nd_modules s))"
  shows "\<exists>s' m. ubx_module_load U (lib_env Ls) (sl_path (Ls ! i)) s = Some (0, s') \<and> boot_inv s' \<and>
    keys (nd_modules s') = keys (nd_modules s) @ [sl_path (Ls ! i)] \<and>
    nd_modules s' = nd_modules s @ [(sl_path (Ls ! i), next_addr s)] \<and>
    mods s' = (mods s)(next_addr s \<mapsto> m) \<and> m_cleanup m = i \<and>
    keys (nd_types s') = keys (nd_types s) @ table_names (sl_types (Ls ! i)) \<and>
    keys (nd_blocks s') = keys (nd_blocks s) @ lib_blocks (Ls ! i) \<and>
    nd_cur_seqid s' = nd_cur_seqid s + of_nat (length (sl_types (Ls ! i))) \<and>
    (\<forall>a. a \<notin> lib_mem (Ls ! i) \<longrightarrow> typs s' a = typs s a)"
proof -
  let ?L = "Ls ! i" and ?f = "sl_path (Ls ! i)" and ?a = "next_addr s" and ?M = "lib_env Ls"
  let ?m = "\<lparr>m_id = ?f, m_handle = i, m_init = i, m_cleanup = i, m_spdx = Some i\<rparr>"
  let ?s2 = "s\<lparr>next_addr := Suc ?a, oom := [], world := world s, mods := (mods s)(?a \<mapsto> ?m)\<rparr>"
  from inv have wf: "core_wf s" "types_inv s" "oom s = []" "mods_wf s" "fresh_from ?a (mods s)" "states_ok s" by (simp_all add: boot_inv_def)
  have h: "htab_ok (nd_modules s)" using wf(4) by (simp add: mods_wf_def)
  have nf: "ut_find U (nd_modules s) ?f = None" using find_None [OF h] new by simp
  have "mods s ?a = None" using wf(5) by (simp add: fresh_from_def)
  then have na: "?a \<notin> set (elems (nd_modules s))" using wf(4) by (auto simp: mods_wf_def elems_def)
  have "types_inv ?s2" "states_ok ?s2" using wf(2,6) by (simp_all add: types_inv_def states_ok_def states_def)
  then have "lib_ready ?L ?s2"
    using core_wf_new_mod [OF wf(1), where q = "[]" and w = "world s"] r by (simp add: lib_ready_def table_at_def)
  with i(2) obtain s3 where s3: "sl_init ?L ?s2 = Some (0, s3)" "lib_done ?L ?s2 s3" unfolding lib_ok_def by blast
  let ?s4 = "s3\<lparr>nd_modules := nd_modules s @ [(?f, ?a)]\<rparr>"
  have m3: "nd_modules s3 = nd_modules s" "mods s3 = (mods s)(?a \<mapsto> ?m)" "?a < next_addr s3"
    using s3(2) by (simp_all add: lib_done_def same_mods_def)
  have "ubx_module_load U ?M ?f s = Some (0, ?s4)"
    using nf wf(3) s3(1) i(1) lib_index_nth [OF i(3,1)] add_law [OF h new na] m3
    by (simp add: ubx_module_load_def calloc_def mem_alloc_def lib_env_def load_fail_close_def)
  moreover have "core_wf ?s4"
  proof -
    have "rc_inv ?s4 ext = rc_inv s3 ext" for ext by (auto simp: rc_inv_def)
    with s3(2) show ?thesis by (simp add: core_wf_def lib_done_def)
  qed
  then have "boot_inv ?s4"
    using s3(2) wf(4,5) m3 na h new
    by (auto simp: boot_inv_def lib_done_def types_inv_def mods_wf_def fresh_from_def states_ok_def states_def)
  ultimately show ?thesis
    using s3(2) m3 by (intro exI [of _ ?s4] exI [of _ ?m]) (simp add: lib_done_def lib_mem_def)
qed

end

section \<open>Loading all of them\<close>

definition libs_mem :: "'w ubx \<Rightarrow> 'w std_lib list \<Rightarrow> bool" where
  "libs_mem s Ls \<longleftrightarrow> (\<forall>L \<in> set Ls. table_at s (sl_base L) (sl_types L)) \<and> sorted_wrt (\<lambda>A B. lib_mem A \<inter> lib_mem B = {}) Ls"

definition all_types :: "'w std_lib list \<Rightarrow> string list" where
  "all_types Ls = concat (map (\<lambda>L. table_names (sl_types L)) Ls)"

definition all_blocks :: "'w std_lib list \<Rightarrow> string list" where
  "all_blocks Ls = concat (map lib_blocks Ls)"

lemma all_Cons [simp]: "all_types (L # Ls) = table_names (sl_types L) @ all_types Ls" "all_blocks (L # Ls) = lib_blocks L @ all_blocks Ls"
  "all_types [] = []" "all_blocks [] = []"
  by (simp_all add: all_types_def all_blocks_def)

lemma libs_mem_Cons:
  assumes "libs_mem s (L # Ls)" "\<forall>a. a \<notin> lib_mem L \<longrightarrow> typs s' a = typs s a"
  shows "libs_mem s' Ls"
proof -
  have "table_at s' (sl_base A) (sl_types A)" if A: "A \<in> set Ls" for A
  proof -
    from assms(1) A have d: "lib_mem L \<inter> lib_mem A = {}" "table_at s (sl_base A) (sl_types A)" by (auto simp: libs_mem_def)
    have "typs s' (sl_base A + i) = typs s (sl_base A + i)" if "i < length (sl_types A)" for i
    proof -
      from that have "sl_base A + i \<in> lib_mem A" by (auto simp: lib_mem_def mem_table_addrs)
      with d(1) assms(2) show ?thesis by blast
    qed
    with d(2) show ?thesis by (simp add: table_at_def)
  qed
  with assms(1) show ?thesis by (simp add: libs_mem_def)
qed

text \<open>The entries of the module table, each with the number of its library.\<close>

definition mod_entry :: "'w ubx \<Rightarrow> string \<times> addr \<Rightarrow> string \<Rightarrow> nat \<Rightarrow> bool" where
  "mod_entry s e f i \<longleftrightarrow> fst e = f \<and> (\<exists>m. mods s (snd e) = Some m \<and> m_cleanup m = i)"

context ut_laws
begin

lemma load_suffix:
  assumes "boot_inv s" "Ls = d @ es" "\<forall>L \<in> set Ls. lib_ok L" "distinct (map sl_path Ls)"
    "libs_sound (keys (nd_types s)) (keys (nd_blocks s)) es" "libs_mem s es"
    "unat (nd_cur_seqid s) + length (all_types es) < 2 ^ 64" "keys (nd_modules s) = map sl_path d"
    "list_all2 (\<lambda>e i. mod_entry s e (sl_path (Ls ! i)) i) (nd_modules s) [0..<length d]"
  shows "\<exists>s'. load_all U (lib_env Ls) (map sl_path es) s = Some (0, s') \<and> boot_inv s' \<and>
    keys (nd_types s') = keys (nd_types s) @ all_types es \<and> keys (nd_blocks s') = keys (nd_blocks s) @ all_blocks es \<and>
    list_all2 (\<lambda>e i. mod_entry s' e (sl_path (Ls ! i)) i) (nd_modules s') [0..<length Ls]"
  using assms
proof (induction es arbitrary: s d)
  case (Cons L es)
  let ?i = "length d"
  have i: "?i < length Ls" "Ls ! ?i = L" using Cons.prems(2) by simp_all
  from Cons.prems(6) have at: "table_at s (sl_base L) (sl_types L)" by (simp add: libs_mem_def)
  have "sl_path L \<notin> set (keys (nd_modules s))" using Cons.prems(2,4,8) by auto
  with load_one [OF Cons.prems(1) i(1) _ Cons.prems(4)] Cons.prems(2,3,5,7) at i(2) obtain s1 m where
    s1: "ubx_module_load U (lib_env Ls) (sl_path L) s = Some (0, s1)" "boot_inv s1" "keys (nd_modules s1) = keys (nd_modules s) @ [sl_path L]"
      "nd_modules s1 = nd_modules s @ [(sl_path L, next_addr s)]" "mods s1 = (mods s)(next_addr s \<mapsto> m)" "m_cleanup m = ?i"
      "keys (nd_types s1) = keys (nd_types s) @ table_names (sl_types L)" "keys (nd_blocks s1) = keys (nd_blocks s) @ lib_blocks L"
      "nd_cur_seqid s1 = nd_cur_seqid s + of_nat (length (sl_types L))" "\<forall>a. a \<notin> lib_mem L \<longrightarrow> typs s1 a = typs s a"
    by auto
  have q: "unat (nd_cur_seqid s1) = unat (nd_cur_seqid s) + length (sl_types L)"
    using Cons.prems(7) s1(9) by (simp add: unat_word_ariths unat_of_nat)
  have "mods s (next_addr s) = None" using Cons.prems(1) by (simp add: boot_inv_def fresh_from_def)
  then have "mod_entry s1 e f j" if "mod_entry s e f j" for e f j
    using that s1(5) by (auto simp: mod_entry_def)
  with Cons.prems(9) have "list_all2 (\<lambda>e i. mod_entry s1 e (sl_path (Ls ! i)) i) (nd_modules s) [0..<length d]"
    by (auto elim: list_all2_mono)
  then have ent: "list_all2 (\<lambda>e i. mod_entry s1 e (sl_path (Ls ! i)) i) (nd_modules s1) [0..<length (d @ [L])]"
    using list_all2_appendI [of "\<lambda>e i. mod_entry s1 e (sl_path (Ls ! i)) i" "nd_modules s" "[0..<?i]" "[(sl_path L, next_addr s)]" "[?i]"]
      s1(4-6) i(2) by (simp add: mod_entry_def)
  from Cons.IH [of s1 "d @ [L]"] s1 ent libs_mem_Cons [OF Cons.prems(6) s1(10)] Cons.prems(2-5,7,8) q obtain s' where
    "load_all U (lib_env Ls) (map sl_path es) s1 = Some (0, s')" "boot_inv s'" "keys (nd_types s') = keys (nd_types s1) @ all_types es"
    "keys (nd_blocks s') = keys (nd_blocks s1) @ all_blocks es"
    "list_all2 (\<lambda>e i. mod_entry s' e (sl_path (Ls ! i)) i) (nd_modules s') [0..<length Ls]" by auto
  with s1 show ?case by (intro exI [of _ s']) simp
qed simp

end

text \<open>The prototypes a cleanup function owns, and the contract of the node (\<open>node_laws\<close>).\<close>

definition lib_owns :: "'w std_lib list \<Rightarrow> nat \<Rightarrow> string set" where
  "lib_owns Ls f = (if f < length Ls then set (lib_blocks (Ls ! f)) else {})"

lemma lib_node_laws:
  fixes H :: "'v hooks"
  assumes H: "framed_hooks U H" and ok: "\<forall>L \<in> set Ls. lib_ok L"
  shows "node_laws U H (lib_env Ls) (lib_owns Ls)"
proof (intro node_laws.intro H node_laws_axioms.intro)
  fix s :: "'v ubx" and f assume s: "core_wf s"
  show "\<exists>s'. mod_cleanup (lib_env Ls) f s = Some s' \<and> core_wf s' \<and> same_mods s s' \<and>
      nd_blocks s' = filter (\<lambda>e. fst e \<notin> lib_owns Ls f) (nd_blocks s)"
  proof (cases "f < length Ls")
    case True
    then have "lib_ok (Ls ! f)" using ok by simp
    with s True show ?thesis by (fastforce simp: lib_ok_def lib_env_def lib_owns_def)
  qed (simp add: s lib_env_def lib_owns_def)
qed

text \<open>The types it owns.\<close>

definition lib_towns :: "'w std_lib list \<Rightarrow> nat \<Rightarrow> string set" where
  "lib_towns Ls f = (if f < length Ls then set (table_names (sl_types (Ls ! f))) else {})"

lemma lib_type_law:
  fixes Ls :: "'v std_lib list"
  assumes ok: "\<forall>L \<in> set Ls. lib_ok L"
  shows "type_law (lib_env Ls) (lib_towns Ls)"
  unfolding type_law_def
proof (intro allI impI, elim conjE)
  fix f and s s' :: "'v ubx"
  assume s: "core_wf s" "htab_ok (nd_types s)" "mod_cleanup (lib_env Ls) f s = Some s'"
  show "nd_types s' = filter (\<lambda>e. fst e \<notin> lib_towns Ls f) (nd_types s)"
  proof (cases "f < length Ls")
    case True
    then have "lib_ok (Ls ! f)" using ok by simp
    with s True show ?thesis by (fastforce simp: lib_ok_def lib_env_def lib_towns_def)
  qed (use s in \<open>simp add: lib_env_def lib_towns_def\<close>)
qed

section \<open>The standard libraries fit together\<close>

lemma libs_sound_append:
  "libs_sound ts bs (As @ Bs) \<longleftrightarrow> libs_sound ts bs As \<and> libs_sound (ts @ all_types As) (bs @ all_blocks As) Bs"
  by (induction As arbitrary: ts bs) auto

lemma libs_sound_blocks:
  assumes "\<forall>L \<in> set Ls. sl_types L = [] \<and> (\<exists>p. sl_proto L = Some p \<and> proto_static p \<and> set (proto_types p) \<subseteq> set ts)"
    "distinct (all_blocks Ls)" "set bs \<inter> set (all_blocks Ls) = {}"
  shows "libs_sound ts bs Ls"
  using assms
proof (induction Ls arbitrary: bs)
  case (Cons L Ls)
  then obtain p where p: "sl_proto L = Some p" "proto_static p" "set (proto_types p) \<subseteq> set ts" "sl_types L = []" by auto
  have "libs_sound ts (bs @ [pb_name p]) Ls" using Cons.prems p by (intro Cons.IH) (auto simp: lib_blocks_def)
  with p Cons.prems show ?case by (simp add: lib_static_def table_static_def lib_blocks_def)
qed simp

lemma mk_lib_simps [simp]: "sl_types (mk_lib f i c p) = []" "sl_proto (mk_lib f i c p) = Some p" "sl_path (mk_lib f i c p) = f"
  "lib_blocks (mk_lib f i c p) = [pb_name p]"
  by (simp_all add: mk_lib_def lib_blocks_def)

lemma block_libs_blocks: "all_blocks (block_libs U fp) =
  [''ubx/trig'', ''ubx/lfds_cyclic'', ''ubx/mqueue'', ''ubx/iconst'', ''ubx/cconst'', ''ubx/saturation_double'', ''ubx/pid'',
   ''ubx/math_double'', ''ubx/simple_fifo'', ''ubx/hexdump'', ''ubx/ramp_float'', ''ubx/ramp_double'', ''ubx/ramp_uint8'',
   ''ubx/ramp_uint16'', ''ubx/ramp_uint32'', ''ubx/ramp_uint64'', ''ubx/ramp_int8'', ''ubx/ramp_int16'', ''ubx/ramp_int32'',
   ''ubx/ramp_int64'', ''ubx/rand_float'', ''ubx/rand_double'', ''ubx/rand_uint32'', ''ubx/rand_int32'']"
  by (simp add: block_libs_def ramp_libs_def rand_libs_def)

lemma type_libs_names: "all_types (type_libs U fp b bp bt) = std_type_names" "all_blocks (type_libs U fp b bp bt) = [''ubx/ptrig'', ''ubx/threshold'']"
  by (simp_all add: type_libs_def lib_blocks_def std_type_names_def table_names_def)

lemma block_libs_protos:
  assumes "L \<in> set (block_libs U fp)"
  shows "\<exists>p \<in> set (std_protos fp). sl_proto L = Some p \<and> sl_types L = []"
proof -
  have "map sl_proto (block_libs U fp) = map Some (drop 2 (std_protos fp))"
    by (simp add: block_libs_def std_protos_def case_prod_beta comp_def)
  then have "sl_proto L \<in> Some ` set (drop 2 (std_protos fp))" using assms by (metis image_eqI list.set_map)
  moreover have "\<forall>L \<in> set (block_libs U fp). sl_types L = []" by (simp add: block_libs_def ball_Un case_prod_beta)
  ultimately show ?thesis using assms in_set_dropD by fastforce
qed

lemma std_table_static: "table_static basic_types" "table_static ptrig_types" "table_static thres_event_type"
  by (simp_all add: table_static_def table_names_def basic_types_def ptrig_types_def thres_event_type_def def_basic_ctype_def def_struct_type_def)

lemma ptrig_proto_types: "set (proto_types (ptrig_comp fp)) \<subseteq> set (table_names (basic_types @ ptrig_types))"
  by (simp add: proto_types_def ptrig_comp_def ptrig_ports_def ptrig_config_def entry_defs List.map_filter_simps table_names_def basic_types_def
      ptrig_types_def def_basic_ctype_def def_struct_type_def)

lemma type_libs_sound: "libs_sound [] [] (type_libs U fp b bp bt)"
proof -
  have d: "distinct std_type_names" by (simp add: std_names)
  then have dd: "set (table_names ptrig_types) \<inter> set (table_names basic_types) = {}"
    "set (table_names thres_event_type) \<inter> (set (table_names basic_types) \<union> set (table_names ptrig_types)) = {}"
    by (auto simp: std_type_names_def table_names_def)
  have st: "set std_type_names = set (table_names basic_types) \<union> set (table_names ptrig_types) \<union> set (table_names thres_event_type)"
    by (auto simp: std_type_names_def table_names_def)
  have pt: "set (proto_types (ptrig_comp fp)) \<subseteq> set (table_names basic_types) \<union> set (table_names ptrig_types)"
    using ptrig_proto_types [of fp] by (simp add: table_names_def)
  have th: "set (proto_types (thres_comp fp)) \<subseteq> set (table_names basic_types) \<union> set (table_names ptrig_types) \<union> set (table_names thres_event_type)"
    using std_types_2(7) [of fp] st by simp
  show ?thesis
    using dd pt th std_table_static std_static_1(2) [of fp] std_static_2(7) [of fp]
    by (simp add: type_libs_def lib_static_def lib_blocks_def)
qed

lemma std_libs_sound: "libs_sound [] [] (std_libs U fp b bp bt :: 'v std_lib list)"
proof -
  have "libs_sound std_type_names [''ubx/ptrig'', ''ubx/threshold''] (block_libs U fp :: 'v std_lib list)"
  proof (rule libs_sound_blocks)
    show "distinct (all_blocks (block_libs U fp))" "set [''ubx/ptrig'', ''ubx/threshold''] \<inter> set (all_blocks (block_libs U fp)) = {}"
      by (simp_all add: block_libs_blocks)
    show "\<forall>L \<in> set (block_libs U fp :: 'v std_lib list). sl_types L = [] \<and>
        (\<exists>p. sl_proto L = Some p \<and> proto_static p \<and> set (proto_types p) \<subseteq> set std_type_names)"
    proof
      fix L :: "'v std_lib" assume "L \<in> set (block_libs U fp)"
      from block_libs_protos [OF this] obtain p where "p \<in> set (std_protos fp)" "sl_proto L = Some p" "sl_types L = []" by blast
      with std_static [OF this(1)] std_types [OF this(1)]
      show "sl_types L = [] \<and> (\<exists>p. sl_proto L = Some p \<and> proto_static p \<and> set (proto_types p) \<subseteq> set std_type_names)" by blast
    qed
  qed
  with type_libs_sound show ?thesis by (simp add: std_libs_def libs_sound_append type_libs_names)
qed

lemma std_paths: "distinct (map sl_path (std_libs U fp b bp bt))"
  by (simp add: std_libs_def type_libs_def block_libs_def ramp_libs_def rand_libs_def)

lemma all_append: "all_types (As @ Bs) = all_types As @ all_types Bs" "all_blocks (Cs @ Ds) = all_blocks Cs @ all_blocks Ds"
  by (simp_all add: all_types_def all_blocks_def)

lemma std_all_types: "all_types (std_libs U fp b bp bt) = std_type_names"
proof -
  have "all_types (block_libs U fp) = []" using block_libs_protos by (force simp: all_types_def)
  then show ?thesis by (simp add: std_libs_def all_append type_libs_names)
qed

lemma std_all_blocks: "all_blocks (std_libs U fp b bp bt) = map pb_name (std_protos fp)"
  by (simp add: std_libs_def all_append type_libs_names block_libs_blocks std_protos_def ramp_libs_def rand_libs_def)

interpretation stdnode: node_laws ut_ref "trace_hooks pol" "lib_env (std_libs ut_ref fp b bp bt)" "lib_owns (std_libs ut_ref fp b bp bt :: trace std_lib list)"
  by (rule lib_node_laws) (auto intro: traced.framed_hooks_axioms ref.std_libs_ok)

section \<open>Properties\<close>

text \<open>C5: the standard modules work together: in an empty node whose hooks keep to their frame, when memory suffices, loading
  \<^verbatim>\<open>stdtypes\<close> and the 26 block modules one after the other succeeds; then the node knows every type and every prototype of the
  tables; and cleaning up the node terminates without undefined behaviour and leaves it without blocks, modules and types, with the
  sequence number reset.\<close>

theorem std_modules_lifecycle:
  fixes s :: "'v ubx"
  assumes "framed_hooks U H" "boot_inv s" "nd_blocks s = []" "nd_types s = []" "nd_modules s = []" "nd_cur_seqid s = 0"
    "libs_mem s (std_libs U fp b bp bt)"
  shows "\<exists>s1 s2. load_all U (lib_env (std_libs U fp b bp bt)) (map sl_path (std_libs U fp b bp bt :: 'v std_lib list)) s = Some (0, s1) \<and>
    (\<forall>p \<in> set (std_protos fp). ubx_block_get U s1 (Some (pb_name p)) \<noteq> None) \<and>
    (\<forall>t \<in> set (basic_types @ ptrig_types @ thres_event_type). ubx_type_get U s1 (t_name t) \<noteq> None) \<and>
    ubx_node_cleanup U H (lib_env (std_libs U fp b bp bt)) s1 = Some s2 \<and> nd_blocks s2 = [] \<and> nd_modules s2 = [] \<and>
    nd_types s2 = [] \<and> nd_cur_seqid s2 = 0"
proof -
  let ?Ls = "std_libs U fp b bp bt :: 'v std_lib list"
  note U = framed_hooks.axioms(1) [OF assms(1)]
  have ok: "\<forall>L \<in> set ?Ls. lib_ok L" using ut_laws.std_libs_ok [OF U] by blast
  have n: "length std_type_names < 2 ^ 64" by (simp add: std_names)
  note sound = std_libs_sound [where U = U and fp = fp and b = b and bp = bp and bt = bt and ?'v = 'v]
  from ut_laws.load_suffix [OF U assms(2) _ ok std_paths, of "[]" ?Ls] sound n assms(3-7) obtain s1 where
    s1: "load_all U (lib_env ?Ls) (map sl_path ?Ls) s = Some (0, s1)" "boot_inv s1" "keys (nd_types s1) = std_type_names"
      "keys (nd_blocks s1) = map pb_name (std_protos fp)"
      "list_all2 (\<lambda>e i. mod_entry s1 e (sl_path (?Ls ! i)) i) (nd_modules s1) [0..<length ?Ls]"
    by (auto simp: std_all_types std_all_blocks)
  have inv: "core_wf s1" "mods_wf s1" "htab_ok (nd_types s1)" "htab_ok (nd_blocks s1)"
    using s1(2) types_inv_table core_wfD(1) by (auto simp: boot_inv_def)
  have own: "\<exists>x \<in> set (nd_modules s1). fst e \<in> mod_owns (lib_owns ?Ls) s1 x" if "e \<in> set (nd_blocks s1)" for e
  proof -
    have "fst e \<in> set (all_blocks ?Ls)" using that s1(4) unfolding std_all_blocks by (metis image_eqI keys_def list.set_map)
    then obtain L where "L \<in> set ?Ls" "fst e \<in> set (lib_blocks L)" by (auto simp: all_blocks_def)
    then obtain i where i: "i < length ?Ls" "fst e \<in> set (lib_blocks (?Ls ! i))" by (metis in_set_conv_nth)
    with list_all2_nthD2 [OF s1(5)] have "mod_entry s1 (nd_modules s1 ! i) (sl_path (?Ls ! i)) i" by force
    then have "fst e \<in> mod_owns (lib_owns ?Ls) s1 (nd_modules s1 ! i)" using i by (auto simp: mod_entry_def mod_owns_def lib_owns_def)
    moreover have "i < length (nd_modules s1)" using i(1) list_all2_lengthD [OF s1(5)] by simp
    ultimately show ?thesis using nth_mem by blast
  qed
  have town: "\<exists>x \<in> set (nd_modules s1). fst e \<in> mod_owns (lib_towns ?Ls) s1 x" if "e \<in> set (nd_types s1)" for e
  proof -
    have "fst e \<in> set (all_types ?Ls)" using that s1(3) unfolding std_all_types by (metis image_eqI keys_def list.set_map)
    then obtain L where "L \<in> set ?Ls" "fst e \<in> set (table_names (sl_types L))" by (auto simp: all_types_def)
    then obtain i where i: "i < length ?Ls" "fst e \<in> set (table_names (sl_types (?Ls ! i)))" by (metis in_set_conv_nth)
    with list_all2_nthD2 [OF s1(5)] have "mod_entry s1 (nd_modules s1 ! i) (sl_path (?Ls ! i)) i" by force
    then have "fst e \<in> mod_owns (lib_towns ?Ls) s1 (nd_modules s1 ! i)" using i by (auto simp: mod_entry_def mod_owns_def lib_towns_def)
    moreover have "i < length (nd_modules s1)" using i(1) list_all2_lengthD [OF s1(5)] by simp
    ultimately show ?thesis using nth_mem by blast
  qed
  from s1(2) have st: "\<forall>a \<in> set (elems (nd_blocks s1)). states s1 a = Some BLOCK_STATE_PREINIT" by (simp add: boot_inv_def states_ok_def)
  have "Some BLOCK_STATE_PREINIT \<in> Some ` range lc_code" by (metis lc_code_sel(1) rangeI imageI)
  with st have "\<forall>a \<in> set (elems (nd_blocks s1)). states s1 a \<in> Some ` range lc_code" by metis
  from node_laws.node_cleanup_all [OF lib_node_laws [OF assms(1) ok] inv(1,2) this, of "lib_towns ?Ls"] own lib_type_law [OF ok] inv(3) st
  obtain s2 where s2: "ubx_node_cleanup U H (lib_env ?Ls) s1 = Some s2" "nd_blocks s2 = []" "nd_modules s2 = []" "nd_cur_seqid s2 = 0"
    "nd_types s2 = filter (\<lambda>e. \<forall>x \<in> set (nd_modules s1). fst e \<notin> mod_owns (lib_towns ?Ls) s1 x) (nd_types s1)" by blast
  moreover from town have "nd_types s2 = []" unfolding s2(5) by (auto simp: filter_empty_conv)
  moreover have "ubx_block_get U s1 (Some (pb_name p)) \<noteq> None" if "p \<in> set (std_protos fp)" for p
    using that s1(4) ut_laws.find_None [OF U inv(4)] by (simp add: ubx_block_get_def)
  moreover have "ubx_type_get U s1 (t_name t) \<noteq> None" if t: "t \<in> set (basic_types @ ptrig_types @ thres_event_type)" for t
  proof -
    from t std_table_static obtain n where n: "t_name t = Some n" by (auto simp: table_static_def)
    with t have "n \<in> set std_type_names" by (force simp: std_type_names_def table_names_def)
    with n s1(3) ut_laws.find_None [OF U inv(3)] show ?thesis by (simp add: ubx_type_get_def)
  qed
  ultimately show ?thesis using s1(1) by blast
qed

text \<open>An empty node of a process in which the arrays of the modules are at 1000, 2000 and 3000.\<close>

definition boot_node :: "trace ubx" where
  "boot_node = \<lparr>nd_name = ''n'', nd_blocks = [], nd_types = [], nd_modules = [], nd_cur_seqid = 0,
     nd_attrs = 0, nd_loglevel = 6, blks = Map.empty, prts = Map.empty, cfgs = Map.empty,
     typs = (\<lambda>a. if 1000 \<le> a \<and> a < 1028 then Some (basic_types ! (a - 1000)) else if a = 2000 then Some (ptrig_types ! 0)
        else if a = 3000 then Some (thres_event_type ! 0) else None),
     dats = Map.empty, mods = Map.empty, static_type = (\<lambda>_. None), next_addr = 10000, oom = [], world = []\<rparr>"

lemma boot_node_inv: "boot_inv boot_node"
proof -
  have "rc_inv boot_node (\<lambda>_. 0)"
    by (simp add: rc_inv_def boot_node_def fresh_from_def rc_fun_def no_dangling_def nrefs_def vrefs_def)
  then have "core_wf boot_node" by (auto simp: core_wf_def boot_node_def fresh_from_def tab_wf_def htab_ok_def keys_def elems_def)
  then show ?thesis by (simp add: boot_inv_def states_ok_def types_inv_def mods_wf_def boot_node_def fresh_from_def)
qed

lemma length_tables: "length basic_types = 28" "length ptrig_types = 1" "length thres_event_type = 1"
  by (simp_all add: basic_types_def ptrig_types_def thres_event_type_def)

lemma boot_node_mem: "libs_mem boot_node (std_libs U fp 1000 2000 3000)"
proof -
  let ?R = "\<lambda>A B :: trace std_lib. lib_mem A \<inter> lib_mem B = {}"
  have e: "table_at boot_node (sl_base L) (sl_types L)" "lib_mem L = {}" if "L \<in> set (block_libs U fp)" for L :: "trace std_lib"
    using block_libs_protos [OF that] by (auto simp: table_at_def lib_mem_def)
  have at: "table_at boot_node 1000 basic_types" "table_at boot_node 2000 ptrig_types" "table_at boot_node 3000 thres_event_type"
    by (auto simp: table_at_def boot_node_def length_tables)
  have "sorted_wrt ?R (type_libs U fp 1000 2000 3000)"
    by (simp add: type_libs_def lib_mem_def) (auto simp: mem_table_addrs length_tables)
  moreover have "sorted_wrt ?R (block_libs U fp)" by (rule sorted_wrt_mono_rel [OF _ sorted_wrt_true]) (simp add: e(2))
  ultimately have "sorted_wrt ?R (std_libs U fp 1000 2000 3000)" by (auto simp: std_libs_def sorted_wrt_append e(2))
  moreover have "table_at boot_node (sl_base L) (sl_types L)" if "L \<in> set (type_libs U fp 1000 2000 3000)" for L :: "trace std_lib"
    using that at by (auto simp: type_libs_def)
  ultimately show ?thesis using e(1) by (auto simp: libs_mem_def std_libs_def)
qed

theorem std_modules_lifecycle_witness:
  "\<exists>s1 s2. load_all ut_ref (lib_env (std_libs ut_ref (\<lambda>_. 0) 1000 2000 3000)) (map sl_path (std_libs ut_ref (\<lambda>_. 0) 1000 2000 3000 :: trace std_lib list))
       boot_node = Some (0, s1) \<and> ubx_block_get ut_ref s1 (Some ''ubx/ptrig'') \<noteq> None \<and>
     ubx_node_cleanup ut_ref (trace_hooks (\<lambda>_. 0)) (lib_env (std_libs ut_ref (\<lambda>_. 0) 1000 2000 3000)) s1 = Some s2 \<and> nd_blocks s2 = [] \<and>
     nd_types s2 = []"
proof -
  have "ptrig_comp (\<lambda>_. 0) \<in> set (std_protos (\<lambda>_. 0))" by (simp add: std_protos_def)
  with std_modules_lifecycle [OF traced.framed_hooks_axioms boot_node_inv _ _ _ _ boot_node_mem, of "\<lambda>_. 0" "\<lambda>_. 0"] show ?thesis by (fastforce simp: boot_node_def)
qed

text \<open>C22: loading and unloading the standard types is a round trip: when no module took one of the names, the init function registers all 28
  types under consecutive sequence numbers, each found under its name with the digest of the name, and no other lookup changes; the cleanup
  function then restores the type table.\<close>

theorem stdtypes_roundtrip:
  assumes U: "ut_laws U" and inv: "types_inv s" and at: "table_at s base basic_types"
    and new: "\<forall>t \<in> set basic_types. ubx_type_get U s (t_name t) = None" and q: "unat (nd_cur_seqid s) + 28 < 2 ^ 64"
  shows "\<exists>s1 s2. stdtypes_init U base s = Some (0, s1) \<and>
    (\<forall>i < 28. ubx_type_get U s1 (t_name (basic_types ! i)) = Some (base + i) \<and>
       typs s1 (base + i) = Some (registered (basic_types ! i) (nd_cur_seqid s + of_nat i))) \<and>
    (\<forall>n. n \<notin> t_name ` set basic_types \<longrightarrow> ubx_type_get U s1 n = ubx_type_get U s n) \<and>
    stdtypes_cleanup U s1 = Some s2 \<and> nd_types s2 = nd_types s"
proof -
  have st: "\<exists>n. t_name t = Some n" if "t \<in> set basic_types" for t
    using that std_table_static(1) by (auto simp: table_static_def)
  have names: "set (table_names basic_types) \<inter> set (keys (nd_types s)) = {}"
    using new st ut_laws.find_None [OF U types_inv_table [OF inv]]
    by (fastforce simp: table_names_def ubx_type_get_def)
  from ut_laws.types_register_spec [OF U inv at std_table_static(1) names] q obtain s1 where
    s1: "types_register U (table_addrs base basic_types) s = Some s1" "types_inv s1"
      "\<forall>i < length basic_types. typs s1 (base + i) = Some (registered (basic_types ! i) (nd_cur_seqid s + of_nat i))"
    and e: "s1 = s\<lparr>nd_cur_seqid := nd_cur_seqid s + of_nat (length basic_types), typs := typs s1,
        nd_types := nd_types s @ zip (table_names basic_types) (table_addrs base basic_types)\<rparr>"
    by (auto simp: length_tables)
  have nt: "nd_types s1 = nd_types s @ zip (table_names basic_types) (table_addrs base basic_types)" by (subst e) simp
  note h = types_inv_table [OF s1(2)] types_inv_table [OF inv]
  note find = ut_laws.find_iff [OF U h(1)]
  have "ubx_type_get U s1 (t_name (basic_types ! i)) = Some (base + i)" if i: "i < 28" for i
  proof -
    obtain n where n: "t_name (basic_types ! i) = Some n" using st i by (metis length_tables(1) nth_mem)
    with i have "table_names basic_types ! i = n" by (simp add: table_names_def length_tables)
    with i have "(n, base + i) \<in> set (nd_types s1)" by (auto simp: nt in_set_zip length_tables intro!: bexI exI [of _ i])
    with find n show ?thesis by (simp add: ubx_type_get_def)
  qed
  moreover have "ubx_type_get U s1 n = ubx_type_get U s n" if n: "n \<notin> t_name ` set basic_types" for n
  proof (cases n)
    case (Some m)
    with n st have "m \<notin> set (table_names basic_types)" by (force simp: table_names_def)
    then have "map_of (zip (table_names basic_types) (table_addrs base basic_types)) m = None" by simp
    with Some show ?thesis by (simp add: ubx_type_get_def ut_laws.find_law [OF U h(1) [unfolded nt]] ut_laws.find_law [OF U h(2)] nt map_add_def split: option.split)
  qed (simp add: ubx_type_get_def)
  moreover have "filter (\<lambda>e. fst e \<notin> set (table_names basic_types)) (nd_types s1) = nd_types s"
  proof -
    have "filter (\<lambda>e. fst e \<notin> set (table_names basic_types)) (nd_types s) = nd_types s"
      using names by (intro filter_True) (auto simp: keys_def)
    moreover have "filter (\<lambda>e. fst e \<notin> set (table_names basic_types)) (zip (table_names basic_types) (table_addrs base basic_types)) = []"
      by (auto simp: filter_empty_conv dest: set_zip_leftD)
    ultimately show ?thesis by (simp add: nt)
  qed
  ultimately show ?thesis
    using s1(1,3) ut_laws.types_unregister_spec [OF U h(1), of "table_names basic_types"]
    by (simp add: stdtypes_init_def stdtypes_cleanup_def length_tables)
qed

theorem stdtypes_roundtrip_witness:
  "\<exists>s1 s2. stdtypes_init ut_ref 1000 boot_node = Some (0, s1) \<and> ubx_type_get ut_ref s1 (Some ''double'') = Some 1016 \<and>
     stdtypes_cleanup ut_ref s1 = Some s2 \<and> nd_types s2 = []"
proof -
  have "types_inv boot_node" using boot_node_inv by (simp add: boot_inv_def)
  moreover have "table_at boot_node 1000 basic_types" by (auto simp: table_at_def boot_node_def length_tables)
  moreover have "ubx_type_get ut_ref boot_node n = None" "unat (nd_cur_seqid boot_node) + 28 < 2 ^ 64" "nd_types boot_node = []" for n
    by (simp_all add: boot_node_def ubx_type_get_def split: option.split)
  moreover have "t_name (basic_types ! 16) = Some ''double''" by (simp add: basic_types_def def_basic_ctype_def)
  ultimately show ?thesis
    using stdtypes_roundtrip [OF ref.ut_laws_axioms, of boot_node 1000] by (fastforce dest!: spec [of _ "16 :: nat"])
qed

text \<open>The init function does not look at the results: when another module registered a type of the same name before, it reports success,
  and its cleanup function unregisters the type of the other module.\<close>

lemma stdtypes_takes_over:
  assumes U: "ut_laws U" and inv: "types_inv s" and t: "typs s base = Some (basic_types ! 0)" and other: "(''char'', a) \<in> set (nd_types s)"
  shows "ubx_type_register U (Some base) s = Some (EALREADY_REGISTERED, s) \<and>
    (\<exists>s'. stdtypes_cleanup U s = Some s' \<and> (''char'', a) \<notin> set (nd_types s'))"
proof -
  have n: "t_name (basic_types ! 0) = Some ''char''" "''char'' \<in> set (table_names basic_types)"
    by (simp_all add: basic_types_def def_basic_ctype_def)
  have k: "''char'' \<in> set (keys (nd_types s))" using other by (force simp: keys_def)
  have "ubx_type_register U (Some base) s = Some (EALREADY_REGISTERED, s)"
    using ut_laws.register_spec [OF U inv [unfolded types_inv_def] t n(1)] k by simp
  moreover have "\<exists>s'. stdtypes_cleanup U s = Some s' \<and> (''char'', a) \<notin> set (nd_types s')"
    using ut_laws.types_unregister_spec [OF U types_inv_table [OF inv], of "table_names basic_types"] n(2)
    by (simp add: stdtypes_cleanup_def)
  ultimately show ?thesis ..
qed

end
