(* ===== verification/Ubx_Double.thy ===== *)
theory Ubx_Double
  imports Ubx_Prelude
begin

text \<open>
  The type \<open>double\<close> of C on the platforms of the program: the binary64 format of IEEE 754, with its comparison, and addition,
  subtraction and multiplication rounded to the nearest value, ties to even. Every operation is executable; on integers below
  \<open>2 ^ 53\<close> they are exact.
\<close>

section \<open>Values of type \<open>double\<close>\<close>

text \<open>A \<open>double\<close> is its bit pattern: sign, 11 bits of exponent, 52 of fraction. The comparison of IEEE 754 orders all values but
  the NaNs, which compare with nothing; the two zeros are equal.\<close>

datatype dbl = Dbl (dbits: u64)

definition dbl_mag :: "dbl \<Rightarrow> u64" where
  "dbl_mag x = take_bit 63 (dbits x)"

definition is_nan :: "dbl \<Rightarrow> bool" where
  "is_nan x \<longleftrightarrow> dbl_mag x > 0x7FF0000000000000"

definition dbl_key :: "dbl \<Rightarrow> int" where
  "dbl_key x = (if bit (dbits x) 63 then - uint (dbl_mag x) else uint (dbl_mag x))"

instantiation dbl :: ord
begin

definition less_dbl :: "dbl \<Rightarrow> dbl \<Rightarrow> bool" where
  "x < y \<longleftrightarrow> \<not> is_nan x \<and> \<not> is_nan y \<and> dbl_key x < dbl_key y"

definition less_eq_dbl :: "dbl \<Rightarrow> dbl \<Rightarrow> bool" where
  "x \<le> y \<longleftrightarrow> \<not> is_nan x \<and> \<not> is_nan y \<and> dbl_key x \<le> dbl_key y"

instance ..

end

instantiation dbl :: zero
begin

definition zero_dbl :: dbl where "0 = Dbl 0"

instance ..

end

lemma dbl_less_le: "(x :: dbl) < y \<Longrightarrow> x \<le> y" "(x :: dbl) \<le> y \<Longrightarrow> y \<le> z \<Longrightarrow> x \<le> z" "(x :: dbl) < y \<Longrightarrow> \<not> y \<le> x"
  "\<not> is_nan x \<Longrightarrow> \<not> is_nan y \<Longrightarrow> x \<le> y \<or> y < x" "\<not> is_nan x \<Longrightarrow> x \<le> x"
  by (auto simp: less_dbl_def less_eq_dbl_def)

lemma nan_compares: "is_nan x \<Longrightarrow> \<not> x < y \<and> \<not> y < x \<and> \<not> x \<le> y \<and> \<not> y \<le> x"
  by (simp add: less_dbl_def less_eq_dbl_def)

section \<open>Arithmetic\<close>

text \<open>A finite value is \<open>(-1) ^ s * m * 2 ^ (e - 1075)\<close>, with sign \<open>s\<close>, significand \<open>m < 2 ^ 53\<close> and exponent \<open>e\<close>
  from \<open>1\<close> to \<open>2046\<close>.\<close>

definition dbl_neg :: "dbl \<Rightarrow> bool" where
  "dbl_neg x = bit (dbits x) 63"

definition dbl_expo :: "dbl \<Rightarrow> nat" where
  "dbl_expo x = unat (dbl_mag x) div 2 ^ 52"

definition dbl_fin :: "dbl \<Rightarrow> bool" where
  "dbl_fin x \<longleftrightarrow> dbl_expo x < 2047"

definition dbl_inf :: "dbl \<Rightarrow> bool" where
  "dbl_inf x \<longleftrightarrow> unat (dbl_mag x) = 2047 * 2 ^ 52"

definition dbl_man :: "dbl \<Rightarrow> nat" where
  "dbl_man x = (if dbl_expo x = 0 then 0 else 2 ^ 52) + unat (dbl_mag x) mod 2 ^ 52"

definition dbl_e :: "dbl \<Rightarrow> nat" where
  "dbl_e x = max 1 (dbl_expo x)"

definition mk_dbl :: "bool \<Rightarrow> nat \<Rightarrow> dbl" where
  "mk_dbl s mag = Dbl (of_nat (mag + (if s then 2 ^ 63 else 0)))"

definition inf_mag :: nat where
  "inf_mag = 2047 * 2 ^ 52"

text \<open>The number of binary digits, and \<open>m / 2 ^ k\<close> rounded to nearest, ties to even.\<close>

fun nlen :: "nat \<Rightarrow> nat" where
  "nlen n = (if n = 0 then 0 else Suc (nlen (n div 2)))"

declare nlen.simps [simp del]

definition rne :: "nat \<Rightarrow> nat \<Rightarrow> nat" where
  "rne m k = (let q = m div 2 ^ k; r = m mod 2 ^ k in if 2 * r > 2 ^ k \<or> 2 * r = 2 ^ k \<and> odd q then Suc q else q)"

text \<open>The double nearest to \<open>m * 2 ^ (e - 1075)\<close>: at most 53 digits are kept, fewer for subnormal results; a significand that
  is rounded up to \<open>2 ^ 53\<close> carries into the exponent, and what is too large becomes infinite.\<close>

definition dbl_round :: "bool \<Rightarrow> nat \<Rightarrow> int \<Rightarrow> dbl" where
  "dbl_round s m e = (if m = 0 then mk_dbl s 0
     else (let e' = max 1 (e + int (nlen m) - 53);
               m' = (if e' \<le> e then m * 2 ^ nat (e - e') else rne m (nat (e' - e)))
           in mk_dbl s (min inf_mag (nat (e' - 1) * 2 ^ 52 + m'))))"

definition dbl_sig :: "dbl \<Rightarrow> int" where
  "dbl_sig x = (if dbl_neg x then - int (dbl_man x) else int (dbl_man x))"

text \<open>Addition; \<open>nan\<close> is the NaN that is returned when there is no other result.\<close>

definition dbl_sum :: "dbl \<Rightarrow> dbl \<Rightarrow> dbl \<Rightarrow> dbl" where
  "dbl_sum nan x y =
     (if is_nan x \<or> is_nan y then nan
      else if dbl_inf x then (if dbl_inf y \<and> dbl_neg x \<noteq> dbl_neg y then nan else x)
      else if dbl_inf y then y
      else let e = min (dbl_e x) (dbl_e y); i = dbl_sig x * 2 ^ (dbl_e x - e) + dbl_sig y * 2 ^ (dbl_e y - e)
        in if i = 0 then mk_dbl (dbl_neg x \<and> dbl_neg y) 0 else dbl_round (i < 0) (nat \<bar>i\<bar>) (int e))"

definition dbl_minus :: "dbl \<Rightarrow> dbl" where
  "dbl_minus x = mk_dbl (\<not> dbl_neg x) (unat (dbl_mag x))"

text \<open>IEEE 754 leaves the sign and payload of a NaN result to the processor: a function \<open>N\<close> of the operands.\<close>

type_synonym nan_rule = "dbl \<Rightarrow> dbl \<Rightarrow> dbl"

definition dbl_add :: "nan_rule \<Rightarrow> dbl \<Rightarrow> dbl \<Rightarrow> dbl" where
  "dbl_add N x y = dbl_sum (N x y) x y"

definition dbl_sub :: "nan_rule \<Rightarrow> dbl \<Rightarrow> dbl \<Rightarrow> dbl" where
  "dbl_sub N x y = dbl_sum (N x y) x (dbl_minus y)"

definition dbl_mul :: "nan_rule \<Rightarrow> dbl \<Rightarrow> dbl \<Rightarrow> dbl" where
  "dbl_mul N x y =
     (let s = (dbl_neg x \<noteq> dbl_neg y)
      in if is_nan x \<or> is_nan y then N x y
         else if dbl_inf x \<or> dbl_inf y then (if dbl_man x = 0 \<or> dbl_man y = 0 then N x y else mk_dbl s inf_mag)
         else dbl_round s (dbl_man x * dbl_man y) (int (dbl_e x) + int (dbl_e y) - 1075))"

section \<open>Exact results\<close>

lemma mk_dbl_sel:
  assumes "mag < 2 ^ 63"
  shows "dbl_neg (mk_dbl s mag) = s" "unat (dbl_mag (mk_dbl s mag)) = mag"
proof -
  have "mag + (if s then 2 ^ 63 else 0) < 2 ^ 64" using assms by simp
  then have u: "unat (dbits (mk_dbl s mag)) = mag + (if s then 2 ^ 63 else 0)"
    by (simp only: mk_dbl_def dbl.sel unat_of_nat) (simp add: take_bit_eq_mod)
  have "bit (dbits (mk_dbl s mag)) 63 = bit (unat (dbits (mk_dbl s mag))) 63" by (simp add: bit_unsigned_iff)
  also have "\<dots> = s"
  proof (cases s)
    case True
    have "(mag + 2 ^ 63) div 2 ^ 63 = mag div 2 ^ 63 + 1" by (rule div_add_self2) simp
    with True assms u show ?thesis by (simp only: bit_iff_odd) simp
  qed (use assms u in \<open>simp add: bit_iff_odd\<close>)
  finally show "dbl_neg (mk_dbl s mag) = s" by (simp add: dbl_neg_def)
  from u show "unat (dbl_mag (mk_dbl s mag)) = mag" using assms
    by (simp add: dbl_mag_def take_bit_eq_mod unat_mod_distrib unsigned_take_bit_eq)
qed

lemma dbl_mag_less: "unat (dbl_mag x) < 2 ^ 63"
  using take_bit_nat_less_exp [of 63 "unat (dbits x)"] by (simp add: dbl_mag_def unsigned_take_bit_eq)

lemma dbl_minus_sel [simp]:
  "dbl_neg (dbl_minus x) = (\<not> dbl_neg x)" "dbl_mag (dbl_minus x) = dbl_mag x" "dbl_expo (dbl_minus x) = dbl_expo x"
  "dbl_fin (dbl_minus x) = dbl_fin x" "dbl_e (dbl_minus x) = dbl_e x" "dbl_sig (dbl_minus x) = - dbl_sig x"
proof -
  show n: "dbl_neg (dbl_minus x) = (\<not> dbl_neg x)" and m: "dbl_mag (dbl_minus x) = dbl_mag x"
    using mk_dbl_sel [OF dbl_mag_less] by (simp_all add: dbl_minus_def word_unat_eq_iff)
  from m show e: "dbl_expo (dbl_minus x) = dbl_expo x" by (simp add: dbl_expo_def)
  from e show "dbl_fin (dbl_minus x) = dbl_fin x" "dbl_e (dbl_minus x) = dbl_e x" by (simp_all add: dbl_fin_def dbl_e_def)
  from e m n show "dbl_sig (dbl_minus x) = - dbl_sig x" by (simp add: dbl_sig_def dbl_man_def)
qed

lemma nlen_0 [simp]: "nlen 0 = 0"
  by (simp add: nlen.simps)

lemma nlen_double: "0 < n \<Longrightarrow> nlen (2 * n) = Suc (nlen n)"
  by (simp add: nlen.simps [of "2 * n"])

lemma half_bounds: "a \<le> n div 2 \<Longrightarrow> n div 2 < 2 * a \<Longrightarrow> 2 * a \<le> n \<and> n < 4 * (a :: nat)"
  by linarith

lemma nlen_bounds: "0 < n \<Longrightarrow> 0 < nlen n \<and> 2 ^ (nlen n - 1) \<le> n \<and> n < 2 ^ nlen n"
proof (induction n rule: nlen.induct)
  case (1 n)
  show ?case
  proof (cases "n div 2 = 0")
    case True
    with "1.prems" have "n = 1" by auto
    then show ?thesis by (simp add: nlen.simps)
  next
    case False
    with 1 have IH: "0 < nlen (n div 2)" "2 ^ (nlen (n div 2) - 1) \<le> n div 2" "n div 2 < 2 ^ nlen (n div 2)" by auto
    have "nlen n = Suc (nlen (n div 2))" using "1.prems" by (simp add: nlen.simps [of n])
    moreover obtain k where "nlen (n div 2) = Suc k" using IH(1) by (cases "nlen (n div 2)") auto
    ultimately show ?thesis using IH(2,3) half_bounds by simp
  qed
qed

lemma rne_double: "0 < k \<Longrightarrow> rne (2 * m) k = rne m (k - 1)"
  by (cases k) (simp_all add: rne_def Let_def mult_mod_right [symmetric])

lemma rne_0: "rne m 0 = m"
  by (simp add: rne_def)

text \<open>Rounding depends on the value only, not on how it is split into significand and exponent.\<close>

lemma dbl_round_double: "dbl_round s (2 * m) e = dbl_round s m (e + 1)"
proof (cases "m = 0")
  case False
  define e' where "e' = max 1 (e + 1 + int (nlen m) - 53)"
  have "(if e' \<le> e then 2 * m * 2 ^ nat (e - e') else rne (2 * m) (nat (e' - e))) =
      (if e' \<le> e + 1 then m * 2 ^ nat (e + 1 - e') else rne m (nat (e' - (e + 1))))"
  proof (cases "e' \<le> e")
    case True
    then have "nat (e + 1 - e') = Suc (nat (e - e'))" by simp
    with True show ?thesis by simp
  next
    case F: False
    then have k: "nat (e' - (e + 1)) = nat (e' - e) - 1" by simp
    show ?thesis
    proof (cases "e' = e + 1")
      case True
      then show ?thesis using rne_double [of 1 m] by (simp add: rne_0)
    next
      case False
      with F k rne_double [of "nat (e' - e)" m] show ?thesis by simp
    qed
  qed
  moreover have "max 1 (e + int (nlen (2 * m)) - 53) = e'" using False by (simp add: e'_def nlen_double)
  ultimately show ?thesis using False by (simp only: dbl_round_def Let_def e'_def) simp
qed (simp add: dbl_round_def)

lemma dbl_round_shift: "dbl_round s (m * 2 ^ j) e = dbl_round s m (e + int j)"
proof (induction j arbitrary: e)
  case (Suc j)
  have "m * 2 ^ Suc j = 2 * (m * 2 ^ j)" by simp
  then have "dbl_round s (m * 2 ^ Suc j) e = dbl_round s (m * 2 ^ j) (e + 1)" by (simp only: dbl_round_double)
  with Suc.IH [of "e + 1"] show ?case by (simp add: add.assoc)
qed simp

lemma dbl_round_eq:
  assumes "m * 2 ^ p = n * 2 ^ q" "e - int p = f - int q"
  shows "dbl_round s m e = dbl_round s n f"
proof (cases "p \<le> q")
  case True
  then have "m * 2 ^ p = n * 2 ^ (q - p) * 2 ^ p" using assms(1) by (simp flip: power_add mult.assoc add: mult.assoc)
  then have "m = n * 2 ^ (q - p)" by simp
  moreover have "e + int (q - p) = f" using assms(2) True by simp
  ultimately show ?thesis by (simp only: dbl_round_shift)
next
  case False
  then have "n * 2 ^ q = m * 2 ^ (p - q) * 2 ^ q" using assms(1) by (simp flip: power_add mult.assoc add: mult.assoc)
  then have "n = m * 2 ^ (p - q)" by simp
  moreover have "f + int (p - q) = e" using assms(2) False by simp
  ultimately show ?thesis by (simp only: dbl_round_shift)
qed

text \<open>A value that is the integer \<open>i\<close>; for \<open>0\<close> there are two.\<close>

definition dbl_is :: "dbl \<Rightarrow> int \<Rightarrow> bool" where
  "dbl_is x i \<longleftrightarrow> dbl_fin x \<and> dbl_sig x * 2 ^ (dbl_e x - 1) = i * 2 ^ 1074"

lemma dbl_is_zero: "dbl_is (mk_dbl s 0) 0"
  by (simp add: dbl_is_def dbl_fin_def dbl_expo_def dbl_sig_def dbl_man_def mk_dbl_sel)

text \<open>How a value of at most 53 digits is represented.\<close>

lemma dbl_round_repr:
  assumes "0 < n" "n < 2 ^ 53" "53 \<le> e" "e < 2000" "k = 53 - nlen n" "r = dbl_round s n (int e)"
  shows "k < 53" "2 ^ 52 \<le> n * 2 ^ k" "n * 2 ^ k < 2 ^ 53" "dbl_neg r = s" "unat (dbl_mag r) = (e - k - 1) * 2 ^ 52 + n * 2 ^ k"
    "dbl_expo r = e - k" "dbl_man r = n * 2 ^ k"
proof -
  have b: "0 < nlen n" "2 ^ (nlen n - 1) \<le> n" "n < 2 ^ nlen n" using nlen_bounds [of n] assms(1) by auto
  have "(2 :: nat) ^ (nlen n - 1) < 2 ^ 53" using b(2) assms(2) by (rule le_less_trans)
  then have "nlen n - 1 < 53" by (rule power_less_imp_less_exp [rotated]) simp
  then have l: "nlen n \<le> 53" by simp
  have nl: "nlen n = 53 - k" "k < 53" using b(1) l by (simp_all add: assms(5))
  then show "k < 53" by simp
  let ?m = "n * 2 ^ k" and ?E = "e - k"
  show m1: "2 ^ 52 \<le> ?m"
  proof -
    have "(2 :: nat) ^ 52 = 2 ^ (nlen n - 1) * 2 ^ k" using nl by (simp flip: power_add)
    also have "\<dots> \<le> ?m" using b(2) by simp
    finally show ?thesis .
  qed
  show m2: "?m < 2 ^ 53"
  proof -
    have "?m < 2 ^ nlen n * 2 ^ k" using b(3) by simp
    also have "\<dots> = 2 ^ 53" using nl by (simp flip: power_add)
    finally show ?thesis .
  qed
  let ?mag = "(?E - 1) * 2 ^ 52 + ?m"
  have E: "0 < ?E" "?E < 2000" "int ?E = int e - int k" using nl assms(3,4) by simp_all
  have e': "max 1 (int e + int (nlen n) - 53) = int ?E" using nl E by simp
  have r: "r = mk_dbl s (min inf_mag ?mag)"
    using assms(1) nl E by (simp only: assms(6) dbl_round_def Let_def e') (simp add: nat_diff_distrib)
  have mag: "?mag div 2 ^ 52 = ?E" "?mag mod 2 ^ 52 = ?m - 2 ^ 52"
  proof -
    have "?mag = (?E - 1 + 1) * 2 ^ 52 + (?m - 2 ^ 52)" using m1 by (simp add: algebra_simps)
    also have "?E - 1 + 1 = ?E" using E(1) by simp
    finally have "?mag = ?E * 2 ^ 52 + (?m - 2 ^ 52)" .
    moreover have "?m - 2 ^ 52 < 2 ^ 52" using m2 by simp
    ultimately show "?mag div 2 ^ 52 = ?E" "?mag mod 2 ^ 52 = ?m - 2 ^ 52" by simp_all
  qed
  have "?mag < 2047 * 2 ^ 52" using m2 E(2) by simp
  then have m: "min inf_mag ?mag = ?mag" "?mag < 2 ^ 63" by (simp_all add: inf_mag_def)
  show u: "dbl_neg r = s" "unat (dbl_mag r) = ?mag" by (simp_all only: r m(1) mk_dbl_sel [OF m(2)])
  show x: "dbl_expo r = ?E" by (simp only: dbl_expo_def u(2) mag)
  show "dbl_man r = ?m" using m1 E(1) by (simp only: dbl_man_def x u(2) mag) simp
qed

lemma dbl_round_is:
  assumes "n < 2 ^ 53"
  shows "dbl_is (dbl_round s n 1075) (if s then - int n else int n)"
proof (cases "n = 0")
  case False
  define k where "k = 53 - nlen n"
  define r where "r = dbl_round s n 1075"
  have "r = dbl_round s n (int 1075)" by (simp add: r_def)
  note x = dbl_round_repr [OF _ assms _ _ k_def this, simplified False]
  have x: "k < 53" "dbl_neg r = s" "dbl_expo r = 1075 - k" "dbl_man r = n * 2 ^ k" using x(1,4,6,7) False by simp_all
  have "n * 2 ^ k * 2 ^ (1075 - k - 1) = n * 2 ^ 1074" using x(1) by (simp add: mult.assoc flip: power_add)
  then have "int (n * 2 ^ k * 2 ^ (1075 - k - 1)) = int (n * 2 ^ 1074)" by (rule arg_cong)
  then have "int n * 2 ^ k * 2 ^ (1075 - k - 1) = int n * 2 ^ 1074" by (simp only: of_nat_mult of_nat_power of_nat_numeral)
  moreover have "dbl_sig r = (if s then - int n * 2 ^ k else int n * 2 ^ k)" by (simp only: dbl_sig_def x) simp
  moreover have "dbl_e r = 1075 - k" "dbl_fin r" using x(1) by (simp_all add: dbl_e_def dbl_fin_def x(3))
  ultimately have "dbl_is r (if s then - int n else int n)" by (cases s) (simp_all only: dbl_is_def if_True if_False simp_thms mult_minus_left)
  then show ?thesis by (simp only: r_def)
qed (simp add: dbl_round_def dbl_is_zero)

text \<open>Nonnegative values below \<open>1\<close>.\<close>

lemma dbl_round_unit:
  assumes "n < 2 ^ 53" "n < 2 ^ p" "p \<le> 1000"
  shows "Dbl 0 \<le> dbl_round False n (1075 - int p)" "dbl_round False n (1075 - int p) < Dbl 0x3FF0000000000000"
proof -
  have one: "dbl_key (Dbl 0x3FF0000000000000) = 1023 * 2 ^ 52" "dbl_key (Dbl 0) = 0" "\<not> is_nan (Dbl 0)" "\<not> is_nan (Dbl 0x3FF0000000000000)"
    by (simp_all add: dbl_key_def dbl_mag_def is_nan_def)
  define r where "r = dbl_round False n (1075 - int p)"
  have "\<not> dbl_neg r \<and> unat (dbl_mag r) < 1023 * 2 ^ 52"
  proof (cases "n = 0")
    case True
    then have "r = mk_dbl False 0" by (simp add: r_def dbl_round_def)
    then show ?thesis by (simp add: mk_dbl_sel)
  next
    case False
    define k where "k = 53 - nlen n"
    have e: "1075 - int p = int (1075 - p)" using assms(3) by simp
    have rr: "r = dbl_round False n (int (1075 - p))" by (simp only: r_def e)
    have h: "0 < n" "53 \<le> 1075 - p" "1075 - p < 2000" using False assms(3) by simp_all
    note x = dbl_round_repr [OF h(1) assms(1) h(2,3) k_def rr]
    have b: "2 ^ (nlen n - 1) \<le> n" "0 < nlen n" using nlen_bounds [of n] False by auto
    have "(2 :: nat) ^ (nlen n - 1) < 2 ^ p" using b(1) assms(2) by (rule le_less_trans)
    then have "nlen n - 1 < p" by (rule power_less_imp_less_exp [rotated]) simp
    then have "1075 - p - k - 1 \<le> 1021" using b(2) by (simp add: k_def)
    then have "(1075 - p - k - 1) * 2 ^ 52 \<le> 1021 * 2 ^ 52" by (rule mult_right_mono) simp
    then have "unat (dbl_mag r) < 1021 * 2 ^ 52 + 2 ^ 53" using x(3,5) by linarith
    with x(4) show ?thesis by simp
  qed
  then have m: "\<not> dbl_neg r" "unat (dbl_mag r) < 1023 * 2 ^ 52" by blast+
  then have "int (unat (dbl_mag r)) < int (1023 * 2 ^ 52)" by (simp only: of_nat_less_iff)
  then have "uint (dbl_mag r) < 1023 * 2 ^ 52" by simp
  then have "dbl_key r < 1023 * 2 ^ 52" "0 \<le> dbl_key r" using m(1) by (simp_all add: dbl_key_def dbl_neg_def)
  moreover have "\<not> is_nan r" using m(2) by (simp add: is_nan_def word_less_nat_alt)
  ultimately show "Dbl 0 \<le> dbl_round False n (1075 - int p)" "dbl_round False n (1075 - int p) < Dbl 0x3FF0000000000000"
    using one by (simp_all add: less_eq_dbl_def less_dbl_def flip: r_def)
qed

lemma dbl_fin_cases:
  assumes "dbl_fin x"
  shows "\<not> is_nan x" "\<not> dbl_inf x"
proof -
  have "unat (dbl_mag x) < 2047 * 2 ^ 52" using assms by (simp add: dbl_fin_def dbl_expo_def less_mult_imp_div_less div_less_iff_less_mult)
  then show "\<not> is_nan x" "\<not> dbl_inf x" by (simp_all add: is_nan_def dbl_inf_def word_less_nat_alt)
qed

lemma dbl_round_is_int:
  assumes "int m * 2 ^ p = \<bar>i\<bar> * 2 ^ q" "e - int p = 1075 - int q" "\<bar>i\<bar> < 2 ^ 53" "i < 0 \<Longrightarrow> s" "i > 0 \<Longrightarrow> \<not> s"
  shows "dbl_is (dbl_round s m e) i"
proof -
  have "int (m * 2 ^ p) = int (nat \<bar>i\<bar> * 2 ^ q)" using assms(1) by simp
  then have "m * 2 ^ p = nat \<bar>i\<bar> * 2 ^ q" by (simp only: of_nat_eq_iff)
  then have "dbl_round s m e = dbl_round s (nat \<bar>i\<bar>) 1075" using assms(2) by (rule dbl_round_eq)
  moreover have "nat \<bar>i\<bar> < 2 ^ 53" using assms(3) by simp
  ultimately have "dbl_is (dbl_round s m e) (if s then - \<bar>i\<bar> else \<bar>i\<bar>)" using dbl_round_is [of "nat \<bar>i\<bar>" s]
    by (simp only: int_nat_eq abs_ge_zero if_True)
  moreover have "(if s then - \<bar>i\<bar> else \<bar>i\<bar>) = i" using assms(4,5) by (cases "i = 0") (auto simp: abs_if)
  ultimately show ?thesis by simp
qed

lemma pow_scaled:
  fixes x y :: int
  assumes "x * 2 ^ p = y * 2 ^ q"
  shows "\<bar>x\<bar> * 2 ^ p = \<bar>y\<bar> * 2 ^ q" "x < 0 \<longleftrightarrow> y < 0" "x > 0 \<longleftrightarrow> y > 0"
  using arg_cong [OF assms, of abs] arg_cong [OF assms, of "\<lambda>z. z < 0"] arg_cong [OF assms, of "\<lambda>z. z > 0"]
  by (simp_all add: abs_mult mult_less_0_iff zero_less_mult_iff)

lemma dbl_is_scaled: "dbl_is x a \<Longrightarrow> dbl_sig x * 2 ^ (dbl_e x - 1) = a * 2 ^ 1074"
  by (simp only: dbl_is_def)

lemma dbl_is_neg:
  assumes "dbl_is x a"
  shows "a < 0 \<Longrightarrow> dbl_neg x" "a > 0 \<Longrightarrow> \<not> dbl_neg x"
  using pow_scaled(2,3) [OF dbl_is_scaled [OF assms]] by (auto simp: dbl_sig_def split: if_splits)

lemma dbl_sum_is:
  assumes x: "dbl_is x a" and y: "dbl_is y b" and ab: "\<bar>a + b\<bar> < 2 ^ 53"
  shows "dbl_is (dbl_sum nan x y) (a + b)"
proof -
  from x y have f: "dbl_fin x" "dbl_fin y" by (simp_all add: dbl_is_def)
  let ?e = "min (dbl_e x) (dbl_e y)"
  define i where "i = dbl_sig x * 2 ^ (dbl_e x - ?e) + dbl_sig y * 2 ^ (dbl_e y - ?e)"
  have e: "1 \<le> ?e" by (simp add: dbl_e_def)
  have p: "2 ^ (dbl_e x - ?e) * 2 ^ (?e - 1) = (2 :: int) ^ (dbl_e x - 1)" "2 ^ (dbl_e y - ?e) * 2 ^ (?e - 1) = (2 :: int) ^ (dbl_e y - 1)"
    using e by (simp_all flip: power_add)
  have i: "i * 2 ^ (?e - 1) = (a + b) * 2 ^ 1074"
    using x y by (simp only: i_def distrib_right mult.assoc p dbl_is_def)
  have sum: "dbl_sum nan x y = (if i = 0 then mk_dbl (dbl_neg x \<and> dbl_neg y) 0 else dbl_round (i < 0) (nat \<bar>i\<bar>) (int ?e))"
    using dbl_fin_cases [OF f(1)] dbl_fin_cases [OF f(2)] by (simp only: dbl_sum_def Let_def i_def) simp
  show ?thesis
  proof (cases "i = 0")
    case True
    with i have "a + b = 0" by simp
    with sum True dbl_is_zero show ?thesis by simp
  next
    case False
    note pow_scaled [OF i]
    moreover have "int ?e - int (?e - 1) = 1075 - int 1074" using e by (simp add: of_nat_diff)
    ultimately have "dbl_is (dbl_round (i < 0) (nat \<bar>i\<bar>) (int ?e)) (a + b)"
      using ab by (intro dbl_round_is_int [of _ "?e - 1" _ 1074]) auto
    with sum False show ?thesis by simp
  qed
qed

lemma dbl_minus_is: "dbl_is x a \<Longrightarrow> dbl_is (dbl_minus x) (- a)"
  by (simp add: dbl_is_def)

lemma dbl_add_is: "dbl_is x a \<Longrightarrow> dbl_is y b \<Longrightarrow> \<bar>a + b\<bar> < 2 ^ 53 \<Longrightarrow> dbl_is (dbl_add N x y) (a + b)"
  unfolding dbl_add_def by (rule dbl_sum_is)

lemma dbl_sub_is: "dbl_is x a \<Longrightarrow> dbl_is y b \<Longrightarrow> \<bar>a - b\<bar> < 2 ^ 53 \<Longrightarrow> dbl_is (dbl_sub N x y) (a - b)"
  unfolding dbl_sub_def using dbl_sum_is [OF _ dbl_minus_is, of x a y b] by simp

lemma dbl_mul_is:
  assumes x: "dbl_is x a" and y: "dbl_is y b" and ab: "\<bar>a * b\<bar> < 2 ^ 53"
  shows "dbl_is (dbl_mul N x y) (a * b)"
proof -
  from x y have f: "dbl_fin x" "dbl_fin y" by (simp_all add: dbl_is_def)
  let ?s = "dbl_neg x \<noteq> dbl_neg y"
  have mul: "dbl_mul N x y = dbl_round ?s (dbl_man x * dbl_man y) (int (dbl_e x) + int (dbl_e y) - 1075)"
    using dbl_fin_cases [OF f(1)] dbl_fin_cases [OF f(2)] by (simp add: dbl_mul_def Let_def)
  have m: "int (dbl_man z) = \<bar>dbl_sig z\<bar>" for z by (simp add: dbl_sig_def)
  note v = pow_scaled(1) [OF dbl_is_scaled [OF x]] pow_scaled(1) [OF dbl_is_scaled [OF y]]
  have "int (dbl_man x * dbl_man y) * 2 ^ (dbl_e x - 1 + (dbl_e y - 1)) = \<bar>a * b\<bar> * 2 ^ (1074 + 1074)"
  proof -
    have "int (dbl_man x * dbl_man y) * 2 ^ (dbl_e x - 1 + (dbl_e y - 1)) =
        (\<bar>dbl_sig x\<bar> * 2 ^ (dbl_e x - 1)) * (\<bar>dbl_sig y\<bar> * 2 ^ (dbl_e y - 1))"
      by (simp only: of_nat_mult m power_add mult_ac)
    also have "\<dots> = \<bar>a * b\<bar> * 2 ^ (1074 + 1074)" by (simp only: v abs_mult power_add mult_ac)
    finally show ?thesis .
  qed
  moreover have "int (dbl_e x) + int (dbl_e y) - 1075 - int (dbl_e x - 1 + (dbl_e y - 1)) = 1075 - int (1074 + 1074)"
    by (simp add: dbl_e_def of_nat_diff)
  moreover note dbl_is_neg [OF x] dbl_is_neg [OF y]
  ultimately show ?thesis unfolding mul
    using ab by (intro dbl_round_is_int [of _ "dbl_e x - 1 + (dbl_e y - 1)" _ "1074 + 1074"]) (auto simp: mult_less_0_iff zero_less_mult_iff)
qed

end
