(* ===== verification/Ubx_Signal.thy ===== *)
theory Ubx_Signal
  imports Ubx_Cyclic Ubx_Double
begin

text \<open>
  What the signal processing blocks of \<^verbatim>\<open>std_blocks\<close> share: private data beside that of the interaction
  blocks, and arrays of doubles in memory. The first of these blocks, \<^verbatim>\<open>std_blocks/saturation/saturation.c\<close>, is modelled here too.
\<close>

section \<open>Private data of computation blocks\<close>

text \<open>The world of a node with computation blocks of one kind: that of its interaction blocks, and the private data of the
  blocks. The hooks of the interaction blocks do not see the latter.\<close>

type_synonym ('w, 'p) blk_world = "'w \<times> (addr \<Rightarrow> 'p option)"

definition with_world :: "'v \<Rightarrow> 'w ubx \<Rightarrow> 'v ubx" where
  "with_world w s = \<lparr>nd_name = nd_name s, nd_blocks = nd_blocks s, nd_types = nd_types s, nd_modules = nd_modules s,
     nd_cur_seqid = nd_cur_seqid s, nd_attrs = nd_attrs s, nd_loglevel = nd_loglevel s, blks = blks s, prts = prts s,
     cfgs = cfgs s, typs = typs s, dats = dats s, mods = mods s, static_type = static_type s, next_addr = next_addr s,
     oom = oom s, world = w\<rparr>"

definition io_part :: "('w, 'p) blk_world ubx \<Rightarrow> 'w ubx" where
  "io_part s = with_world (fst (world s)) s"

definition put_back :: "('w, 'p) blk_world ubx \<Rightarrow> 'w ubx \<Rightarrow> ('w, 'p) blk_world ubx" where
  "put_back s t = with_world (world t, snd (world s)) t"

definition lift_hooks :: "'w hooks \<Rightarrow> ('w, 'p) blk_world hooks" where
  "lift_hooks H = \<lparr>hk_init = (\<lambda>f b s. map_option (map_prod id (put_back s)) (hk_init H f b (io_part s))),
     hk_start = (\<lambda>f b s. map_option (map_prod id (put_back s)) (hk_start H f b (io_part s))),
     hk_stop = (\<lambda>f b s. map_option (put_back s) (hk_stop H f b (io_part s))),
     hk_cleanup = (\<lambda>f b s. map_option (put_back s) (hk_cleanup H f b (io_part s))),
     hk_step = (\<lambda>f b s. map_option (put_back s) (hk_step H f b (io_part s))),
     hk_read = (\<lambda>f b d s. map_option (map_prod id (put_back s)) (hk_read H f b d (io_part s))),
     hk_write = (\<lambda>f b d s. map_option (put_back s) (hk_write H f b d (io_part s)))\<rparr>"

text \<open>\<open>b->private_data\<close>\<close>

definition get_priv :: "addr \<Rightarrow> ('w, 'p) blk_world ubx \<Rightarrow> 'p option" where
  "get_priv b s = snd (world s) b"

definition set_priv :: "addr \<Rightarrow> 'p option \<Rightarrow> ('w, 'p) blk_world ubx \<Rightarrow> ('w, 'p) blk_world ubx" where
  "set_priv b x s = s\<lparr>world := (fst (world s), (snd (world s))(b := x))\<rparr>"

lemma with_world_sel [simp]:
  "nd_name (with_world w s) = nd_name s" "nd_blocks (with_world w s) = nd_blocks s" "nd_types (with_world w s) = nd_types s"
  "nd_modules (with_world w s) = nd_modules s" "nd_cur_seqid (with_world w s) = nd_cur_seqid s" "nd_attrs (with_world w s) = nd_attrs s"
  "nd_loglevel (with_world w s) = nd_loglevel s" "blks (with_world w s) = blks s" "prts (with_world w s) = prts s"
  "cfgs (with_world w s) = cfgs s" "typs (with_world w s) = typs s" "dats (with_world w s) = dats s" "mods (with_world w s) = mods s"
  "static_type (with_world w s) = static_type s" "next_addr (with_world w s) = next_addr s" "oom (with_world w s) = oom s"
  "world (with_world w s) = w"
  by (simp_all add: with_world_def)

lemma with_world_twice [simp]: "with_world w (with_world v s) = with_world w s"
  by (simp add: with_world_def)

lemma with_world_id [simp]: "with_world (world s) s = s"
  by (simp add: with_world_def)

lemma io_part_sel [simp]:
  "blks (io_part s) = blks s" "prts (io_part s) = prts s" "dats (io_part s) = dats s" "typs (io_part s) = typs s"
  "nd_types (io_part s) = nd_types s" "world (io_part s) = fst (world s)" "next_addr (io_part s) = next_addr s"
  by (simp_all add: io_part_def)

lemma put_back_sel [simp]:
  "blks (put_back s t) = blks t" "prts (put_back s t) = prts t" "dats (put_back s t) = dats t" "typs (put_back s t) = typs t"
  "nd_types (put_back s t) = nd_types t" "world (put_back s t) = (world t, snd (world s))" "io_part (put_back s t) = t"
  by (simp_all add: put_back_def io_part_def)

lemma stat_frame_world [simp]:
  "stat_frame (with_world w s) t = stat_frame s t" "stat_frame s (with_world v t) = stat_frame s t"
  by (simp_all add: stat_frame_def)

lemma stat_frame_worlds [simp]: "stat_frame (with_world w s) (with_world v t) = stat_frame s t"
  by (simp add: stat_frame_def)

lemma node_ok_with_world [simp]: "node_ok (with_world w s) = node_ok s"
  by (simp add: node_ok_def)

lemma io_part_priv [simp]: "io_part (set_priv b x s) = io_part s"
  by (simp add: io_part_def set_priv_def with_world_def)

lemma set_priv_sel [simp]:
  "nd_blocks (set_priv b x s) = nd_blocks s" "nd_types (set_priv b x s) = nd_types s" "blks (set_priv b x s) = blks s" "prts (set_priv b x s) = prts s" "cfgs (set_priv b x s) = cfgs s"
  "typs (set_priv b x s) = typs s" "dats (set_priv b x s) = dats s" "next_addr (set_priv b x s) = next_addr s" "oom (set_priv b x s) = oom s"
  "static_type (set_priv b x s) = static_type s" "get_priv a (set_priv b x s) = (if a = b then x else get_priv a s)"
  "world (set_priv b x s) = (fst (world s), (snd (world s))(b := x))" "active (set_priv b x s) ibs = active s ibs"
  by (simp_all add: set_priv_def get_priv_def active_def)

lemma stat_frame_priv [simp]: "stat_frame (set_priv b x s) t = stat_frame s t" "stat_frame s (set_priv b x t) = stat_frame s t"
  by (simp_all add: stat_frame_def)

lemma load_bytes_priv [simp]: "load_bytes p n (set_priv b x s) = load_bytes p n s"
  by (simp add: load_bytes_def)

section \<open>The contract of interaction blocks, with private data\<close>

definition lift_rd :: "'w reader \<Rightarrow> ('w, 'p) blk_world reader" where
  "lift_rd rd ib dat w = (case rd ib dat (fst w) of (r, d, w') \<Rightarrow> (r, d, (w', snd w)))"

definition lift_wr :: "(addr \<Rightarrow> ubx_data \<Rightarrow> 'w \<Rightarrow> 'w) \<Rightarrow> addr \<Rightarrow> ubx_data \<Rightarrow> ('w, 'p) blk_world \<Rightarrow> ('w, 'p) blk_world" where
  "lift_wr wr ib dat w = (wr ib dat (fst w), snd w)"

lemma ask_lift: "ask (lift_rd rd) A ret dat w = (case ask rd A ret dat (fst w) of (r, d, w') \<Rightarrow> (r, d, (w', snd w)))"
proof (induction A arbitrary: ret dat w)
  case (Cons ib A)
  obtain q d1 w1 where q: "rd ib dat (fst w) = (q, d1, w1)" by (metis prod_cases3)
  with Cons.IH [of "c_int q" d1 "(w1, snd w)"] show ?case by (simp add: lift_rd_def)
qed simp

lemma fold_lift: "fold (\<lambda>ib. lift_wr wr ib dat) A w = (fold (\<lambda>ib. wr ib dat) A (fst w), snd w)"
  by (induction A arbitrary: w) (simp_all add: lift_wr_def)

text \<open>The contract as the computation blocks use it: the interaction blocks neither read nor write their private data.\<close>

locale block_io = io_hooks H own iok fits "lift_rd rd" "lift_wr wr"
  for H :: "('w, 'p) blk_world hooks" and own and iok and fits and rd :: "'w reader" and wr :: "addr \<Rightarrow> ubx_data \<Rightarrow> 'w \<Rightarrow> 'w" +
  assumes iok_priv: "iok s \<Longrightarrow> iok (set_priv b x s)"
begin

lemma read_port:
  assumes "iok s" "prts s p = Some prt" "p_in_type prt = Some t" "ut_find U (nd_types s) tn = Some t" "len \<le> p_in_data_len prt"
    "fits (local_data (Some t) len val)" "0 < len" "p_in_interaction prt = Some ibs" "set ibs \<subseteq> own"
    "ask rd (active s ibs) 0 (local_data (Some t) len val) (fst (world s)) = (r, dat', w')" "d_data dat' = Buf bs"
  shows "\<exists>s'. read_array U H fn tn (Some p) val len s = Some (r, bs, s') \<and> stat_frame s s' \<and> dats s' = dats s \<and> iok s' \<and>
    world s' = (w', snd (world s))"
  using read_array_ok [OF assms(1-9), of r dat' "(w', snd (world s))" bs] assms(10,11) by (simp add: ask_lift)

lemma write_port:
  assumes "iok s" "prts s p = Some prt" "p_out_type prt = Some t" "ut_find U (nd_types s) tn = Some t" "len \<le> p_out_data_len prt"
    "fits (local_data (Some t) len val)" "p_out_interaction prt = Some ibs" "set ibs \<subseteq> own"
  shows "\<exists>s'. write_array U H fn tn (Some p) val len s = Some (0, s') \<and> stat_frame s s' \<and> dats s' = dats s \<and> iok s' \<and>
    world s' = (fold (\<lambda>ib. wr ib (local_data (Some t) len val)) (active s ibs) (fst (world s)), snd (world s))"
  using write_array_ok [OF assms] by (simp add: fold_lift)

end

lemma stat_frame_put_back: "stat_frame s (put_back s t) = stat_frame (io_part s) t"
  by (simp add: stat_frame_def put_back_def io_part_def)

text \<open>Any interaction blocks that obey their contract can be combined with private data.\<close>

lemma lift_block_io:
  assumes "io_hooks H own iok fit rd wr"
  shows "block_io (lift_hooks H :: ('w, 'p) blk_world hooks) own (\<lambda>s. iok (io_part s)) fit rd wr"
proof -
  note io = assms
  show ?thesis
  proof (intro block_io.intro io_hooks.intro block_io_axioms.intro)
    fix s :: "('w, 'p) blk_world ubx" assume "iok (io_part s)"
    then show "node_ok s" using io_hooks.inv_node [OF io] by (fastforce simp: io_part_def)
  next
    fix s s' :: "('w, 'p) blk_world ubx" assume s: "iok (io_part s)" "stat_frame s s'" "node_ok s'" "world s' = world s"
    then have "stat_frame (io_part s) (io_part s')" "node_ok (io_part s')" "world (io_part s') = world (io_part s)"
      by (simp_all add: io_part_def)
    with io_hooks.inv_frame [OF io] s(1) show "iok (io_part s')" by blast
  next
    fix s :: "('w, 'p) blk_world ubx" and ib assume "iok (io_part s)" "ib \<in> own"
    from io_hooks.io_block [OF io this]
    show "\<exists>blk f g. blks s ib = Some blk \<and> read_fun blk = Some f \<and> write_fun blk = Some g" by simp
  next
    fix s :: "('w, 'p) blk_world ubx" and ib d dat blk f r dat' w'
    assume a: "iok (io_part s)" "ib \<in> own" "dats s d = Some dat" "fit dat" "blks s ib = Some blk" "read_fun blk = Some f"
      and r: "lift_rd rd ib dat (world s) = (r, dat', w')"
    obtain q d1 w1 where q: "rd ib dat (fst (world s)) = (q, d1, w1)" by (metis prod_cases3)
    with r have e: "q = r" "d1 = dat'" "w' = (w1, snd (world s))" by (simp_all add: lift_rd_def)
    from io_hooks.read_law [OF io a(1,2), of d dat blk f q d1 w1] a q obtain t where
      t: "hk_read H f ib d (io_part s) = Some (q, t)" "stat_frame (io_part s) t" "dats t = (dats s)(d \<mapsto> d1)" "world t = w1" "iok t" "fit d1"
      by auto
    then show "\<exists>s'. hk_read (lift_hooks H) f ib d s = Some (r, s') \<and> stat_frame s s' \<and> dats s' = (dats s)(d \<mapsto> dat') \<and> world s' = w' \<and>
        iok (io_part s') \<and> fit dat'"
      by (intro exI [of _ "put_back s t"]) (simp add: lift_hooks_def e stat_frame_put_back)
  next
    fix s :: "('w, 'p) blk_world ubx" and ib d dat blk f
    assume a: "iok (io_part s)" "ib \<in> own" "dats s d = Some dat" "fit dat" "blks s ib = Some blk" "write_fun blk = Some f"
    from io_hooks.write_law [OF io a(1,2), of d dat blk f] a obtain t where
      t: "hk_write H f ib d (io_part s) = Some t" "stat_frame (io_part s) t" "dats t = dats s" "world t = wr ib dat (fst (world s))" "iok t"
      by auto
    then show "\<exists>s'. hk_write (lift_hooks H) f ib d s = Some s' \<and> stat_frame s s' \<and> dats s' = dats s \<and>
        world s' = lift_wr wr ib dat (world s) \<and> iok (io_part s')"
      by (intro exI [of _ "put_back s t"]) (simp add: lift_hooks_def lift_wr_def stat_frame_put_back)
  next
    fix s :: "('w, 'p) blk_world ubx" and b x assume "iok (io_part s)"
    then show "iok (io_part (set_priv b x s))" by simp
  qed
qed

interpretation cycblk: block_io "lift_hooks (cyclic_hooks ut_ref ring_ref H)" own
  "\<lambda>s. cyc_ok (ring_block_ok ring_ok (\<lambda>q. set (r_all q)) r_queue r_held t sz n) own t sz n (io_part s)" "fits t sz n"
  "cyc_rd ring_ref sz" "cyc_wr ring_ref sz"
  by (rule lift_block_io [OF cyc.io_hooks_axioms])

section \<open>Arrays of doubles in memory\<close>

definition bytes_of_dbls :: "dbl list \<Rightarrow> u8 list" where
  "bytes_of_dbls xs = concat (map (\<lambda>x. bytes_of_u64 (dbits x)) xs)"

fun dbls_of :: "nat \<Rightarrow> u8 list \<Rightarrow> dbl list" where
  "dbls_of 0 bs = []"
| "dbls_of (Suc n) bs = Dbl (of_nat (le_word (take 8 bs))) # dbls_of n (drop 8 bs)"

lemma length_bytes_of_u64 [simp]: "length (bytes_of_u64 w) = 8"
  by (simp add: bytes_of_u64_def)

lemma length_bytes_of_dbls [simp]: "length (bytes_of_dbls xs) = 8 * length xs"
  by (induction xs) (simp_all add: bytes_of_dbls_def)

lemma length_dbls_of [simp]: "length (dbls_of n bs) = n"
  by (induction n arbitrary: bs) simp_all

lemma digits_256:
  fixes n :: nat
  shows "foldr (\<lambda>k m. n div 256 ^ k mod 256 + 256 * m) [j..<j + l] 0 = n div 256 ^ j mod 256 ^ l"
proof (induction l arbitrary: j)
  case (Suc l)
  have "[j..<j + Suc l] = j # [Suc j..<Suc j + l]" by (simp add: upt_rec)
  then have "foldr (\<lambda>k m. n div 256 ^ k mod 256 + 256 * m) [j..<j + Suc l] 0 = n div 256 ^ j mod 256 + 256 * (n div 256 ^ Suc j mod 256 ^ l)"
    using Suc.IH [of "Suc j"] by simp
  also have "n div 256 ^ Suc j = n div 256 ^ j div 256" by (simp only: power_Suc2 div_mult2_eq)
  finally show ?case by (simp add: mod_mult2_eq)
qed simp

lemma le_word_u64: "of_nat (le_word (bytes_of_u64 w)) = w"
proof -
  have u: "unat (ucast (drop_bit (8 * k) w) :: u8) = unat w div 256 ^ k mod 256" for k
    by (simp only: unsigned_ucast_eq unat_drop_bit_eq) (simp add: take_bit_eq_mod drop_bit_eq_div power_mult)
  have "le_word (bytes_of_u64 w) = foldr (\<lambda>k m. unat w div 256 ^ k mod 256 + 256 * m) [0..<0 + 8] 0"
    by (simp add: le_word_def bytes_of_u64_def foldr_map comp_def u)
  also have "\<dots> = unat w" using digits_256 [of "unat w" 0 8] unsigned_less [of w, where ?'a = nat] by simp
  finally show ?thesis by simp
qed

lemma dbls_of_bytes: "dbls_of (length xs) (bytes_of_dbls xs) = xs"
  by (induction xs) (simp_all add: bytes_of_dbls_def le_word_u64)

text \<open>Reading an array of doubles through a pointer.\<close>

definition load_dbls :: "ptr \<Rightarrow> int \<Rightarrow> 'w ubx \<Rightarrow> dbl list option" where
  "load_dbls p n s = (if n \<le> 0 then Some [] else map_option (dbls_of (nat n)) (load_bytes p (8 * nat n) s))"

lemma load_dbls_priv [simp]: "load_dbls p n (set_priv b x s) = load_dbls p n s"
  by (simp add: load_dbls_def)

text \<open>\<open>calloc(n, sizeof(double))\<close>: the argument is converted to \<open>size_t\<close>.\<close>

definition calloc_dbls :: "int \<Rightarrow> 'w ubx \<Rightarrow> dbl list option \<times> 'w ubx" where
  "calloc_dbls n s = (case buf_calloc (unat (word_of_int n :: u64)) 8 s of
     (Buf bs, s) \<Rightarrow> (Some (replicate (unat (word_of_int n :: u64)) 0), s)
   | (_, s) \<Rightarrow> (None, s))"

lemma load_dbls_dats: "dats s' = dats s \<Longrightarrow> load_dbls p n s' = load_dbls p n s"
  by (simp add: load_dbls_def load_bytes_def)

lemma stat_frame_live_log:
  assumes "node_ok s'" "stat_frame s s'" "blks s b = Some blk"
  shows "\<exists>blk'. blks s' b = Some blk' \<and> ubx_block_log blk' s' = Some ()"
proof -
  from stat_frame_live [OF assms(2), of b] assms(3) obtain blk' where "blks s' b = Some blk'" by auto
  with node_ok_log [OF assms(1)] show ?thesis by blast
qed

lemma node_ok_priv [simp]: "node_ok (set_priv b x s) = node_ok s"
  by (simp add: node_ok_def)

lemma block_log_priv [simp]: "ubx_block_log blk (set_priv b x s) = ubx_block_log blk s"
  by (simp add: ubx_block_log_def cong: option.case_cong)

text \<open>A port that is connected to interaction blocks that obey the contract, for samples of \<open>n\<close> elements of type \<open>t\<close>.\<close>

definition in_conn :: "addr set \<Rightarrow> addr \<Rightarrow> int \<Rightarrow> ptr \<Rightarrow> addr list \<Rightarrow> 'w ubx \<Rightarrow> bool" where
  "in_conn own t n p ibs s \<longleftrightarrow> (\<exists>pa prt. p = Some pa \<and> prts s pa = Some prt \<and> p_in_type prt = Some t \<and> n \<le> p_in_data_len prt \<and>
     p_in_interaction prt = Some ibs \<and> set ibs \<subseteq> own)"

definition out_conn :: "addr set \<Rightarrow> addr \<Rightarrow> int \<Rightarrow> ptr \<Rightarrow> addr list \<Rightarrow> 'w ubx \<Rightarrow> bool" where
  "out_conn own t n p ibs s \<longleftrightarrow> (\<exists>pa prt. p = Some pa \<and> prts s pa = Some prt \<and> p_out_type prt = Some t \<and> n \<le> p_out_data_len prt \<and>
     p_out_interaction prt = Some ibs \<and> set ibs \<subseteq> own)"

lemma conn_frame:
  "stat_frame s s' \<Longrightarrow> in_conn own t n p ibs s' = in_conn own t n p ibs s" "stat_frame s s' \<Longrightarrow> out_conn own t n p ibs s' = out_conn own t n p ibs s"
  by (simp_all add: in_conn_def out_conn_def stat_frame_def)

context block_io
begin

lemma read_conn:
  assumes "iok s" "in_conn own t len p ibs s" "ut_find U (nd_types s) tn = Some t" "fits (local_data (Some t) len val)" "0 < len"
    "ask rd (active s ibs) 0 (local_data (Some t) len val) (fst (world s)) = (r, dat', w')" "d_data dat' = Buf bs"
  shows "\<exists>s'. read_array U H fn tn p val len s = Some (r, bs, s') \<and> stat_frame s s' \<and> dats s' = dats s \<and> iok s' \<and>
    world s' = (w', snd (world s))"
  using assms(2) read_port [OF assms(1) _ _ assms(3) _ assms(4,5) _ _ assms(6,7)] unfolding in_conn_def by blast

lemma write_conn:
  assumes "iok s" "out_conn own t len p ibs s" "ut_find U (nd_types s) tn = Some t" "fits (local_data (Some t) len val)"
  shows "\<exists>s'. write_array U H fn tn p val len s = Some (0, s') \<and> stat_frame s s' \<and> dats s' = dats s \<and> iok s' \<and>
    world s' = (fold (\<lambda>ib. wr ib (local_data (Some t) len val)) (active s ibs) (fst (world s)), snd (world s))"
  using assms(2) write_port [OF assms(1) _ _ assms(3) _ assms(4)] unfolding out_conn_def by blast

end


section \<open>Saturation\<close>

text \<open>\<open>struct sat_info\<close>. The pointers to the limits are those of the config values: they stay valid as long as nobody resizes the
  values.\<close>

record sat_info =
  si_data_len :: int
  si_lower_lim :: ptr
  si_upper_lim :: ptr
  si_val :: "dbl list"
  si_pout :: ptr
  si_pin :: ptr

text \<open>An error path that returns without releasing the private data.\<close>

definition keep_priv :: "addr \<Rightarrow> 'p \<Rightarrow> int \<Rightarrow> ('w, 'p) blk_world ubx \<Rightarrow> (int \<times> ('w, 'p) blk_world ubx) option" where
  "keep_priv b bi e s = do {
     blk \<leftarrow> blks s b; _ \<leftarrow> ubx_block_log blk s; Some (e, set_priv b (Some bi) s) }"

definition sat_ports_init :: "addr \<Rightarrow> sat_info \<Rightarrow> ('w, sat_info) blk_world ubx \<Rightarrow> (int \<times> ('w, sat_info) blk_world ubx) option" where
  "sat_ports_init b bi s = do {
     pin \<leftarrow> ubx_port_get (Some b) (Some ''in'') s;
     pout \<leftarrow> ubx_port_get (Some b) (Some ''out'') s;
     let bi = bi\<lparr>si_pin := pin, si_pout := pout\<rparr>;
     pi \<leftarrow> pin;
     (r, s) \<leftarrow> ubx_inport_resize pi (si_data_len bi) s;
     if r \<noteq> 0 then Some (- 1, set_priv b (Some bi) s)
     else do {
       po \<leftarrow> pout;
       (r, s) \<leftarrow> ubx_outport_resize po (si_data_len bi) s;
       Some (if r \<noteq> 0 then - 1 else 0, set_priv b (Some bi) s) } }"

definition sat_init :: "ut_lib \<Rightarrow> addr \<Rightarrow> ('w, sat_info) blk_world ubx \<Rightarrow> (int \<times> ('w, sat_info) blk_world ubx) option" where
  "sat_init U b s = do {
     blk \<leftarrow> blks s b;
     let (ok, s) = mem_alloc s;
     if \<not> ok then do { _ \<leftarrow> ubx_block_log blk s; Some (EOUTOFMEM, set_priv b None s) }
     else do {
       r \<leftarrow> getptr U ''long'' ''long'' b ''data_len'' s;
       (data_len, s) \<leftarrow> cfg_or load_long 1 r;
       (len, lower) \<leftarrow> ubx_config_get_data_ptr (Some b) (Some ''lower_limits'') s;
       let inf = \<lparr>si_data_len = data_len, si_lower_lim = lower, si_upper_lim = None, si_val = [], si_pout = None, si_pin = None\<rparr>;
       if len \<noteq> data_len then keep_priv b inf (- 1) s
       else do {
         (len, upper) \<leftarrow> ubx_config_get_data_ptr (Some b) (Some ''upper_limits'') s;
         let inf = inf\<lparr>si_upper_lim := upper\<rparr>;
         if len \<noteq> data_len then keep_priv b inf (- 1) s
         else (case calloc_dbls data_len s of
             (None, s) \<Rightarrow> do { _ \<leftarrow> ubx_block_log blk s; Some (EOUTOFMEM, set_priv b None s) }
           | (Some val, s) \<Rightarrow> sat_ports_init b (inf\<lparr>si_val := val\<rparr>) s) } } }"

definition sat_cleanup :: "addr \<Rightarrow> ('w, sat_info) blk_world ubx \<Rightarrow> ('w, sat_info) blk_world ubx option" where
  "sat_cleanup b s = do { inf \<leftarrow> get_priv b s; Some (set_priv b None s) }"

text \<open>The body of the loop, for one element.\<close>

definition sat_elem :: "dbl \<Rightarrow> dbl \<Rightarrow> dbl \<Rightarrow> dbl" where
  "sat_elem lower upper v = (let v = (if v > upper then upper else v) in if v < lower then lower else v)"

definition sat_loop :: "dbl list \<Rightarrow> dbl list \<Rightarrow> dbl list \<Rightarrow> dbl list" where
  "sat_loop lower upper val = map (\<lambda>(lo, up, v). sat_elem lo up v) (zip lower (zip upper val))"

definition sat_step :: "ut_lib \<Rightarrow> ('w, sat_info) blk_world hooks \<Rightarrow> addr \<Rightarrow> ('w, sat_info) blk_world ubx \<Rightarrow> ('w, sat_info) blk_world ubx option" where
  "sat_step U H b s = do {
     inf \<leftarrow> get_priv b s;
     (len, bs, s) \<leftarrow> read_array U H ''read_double'' ''double'' (si_pin inf) (bytes_of_dbls (si_val inf)) (si_data_len inf) s;
     let inf = inf\<lparr>si_val := dbls_of (length (si_val inf)) bs\<rparr>;
     let s = set_priv b (Some inf) s;
     blk \<leftarrow> blks s b;
     if len = 0 then do { _ \<leftarrow> ubx_block_log blk s; Some s }
     else if len \<noteq> si_data_len inf then do { _ \<leftarrow> ubx_block_log blk s; Some s }
     else do {
       lower \<leftarrow> load_dbls (si_lower_lim inf) (si_data_len inf) s;
       upper \<leftarrow> load_dbls (si_upper_lim inf) (si_data_len inf) s;
       let inf = inf\<lparr>si_val := sat_loop lower upper (si_val inf)\<rparr>;
       (r, s) \<leftarrow> write_array U H ''write_double'' ''double'' (si_pout inf) (bytes_of_dbls (si_val inf)) (si_data_len inf) (set_priv b (Some inf) s);
       Some s } }"

lemma sat_elem_range:
  assumes "\<not> is_nan v" "lower \<le> upper"
  shows "lower \<le> sat_elem lower upper v" "sat_elem lower upper v \<le> upper" "lower \<le> v \<Longrightarrow> v \<le> upper \<Longrightarrow> sat_elem lower upper v = v"
    "sat_elem lower upper v \<in> {lower, upper, v}" "sat_elem lower upper (sat_elem lower upper v) = sat_elem lower upper v"
  using assms by (auto simp: sat_elem_def Let_def less_dbl_def less_eq_dbl_def)

lemma sat_elem_clamp: "lower \<le> upper \<Longrightarrow> sat_elem lower upper v = (if v < lower then lower else if upper < v then upper else v)"
  by (auto simp: sat_elem_def Let_def less_dbl_def less_eq_dbl_def)

lemma sat_elem_nan: "is_nan v \<Longrightarrow> sat_elem lower upper v = v"
  by (simp add: sat_elem_def nan_compares)

lemma length_sat_loop: "length lower = n \<Longrightarrow> length upper = n \<Longrightarrow> length val = n \<Longrightarrow> length (sat_loop lower upper val) = n"
  by (simp add: sat_loop_def)

lemma nth_sat_loop: "i < length val \<Longrightarrow> length lower = length val \<Longrightarrow> length upper = length val \<Longrightarrow>
    sat_loop lower upper val ! i = sat_elem (lower ! i) (upper ! i) (val ! i)"
  by (simp add: sat_loop_def)

text \<open>The state a saturation block is in after it was initialised and connected.\<close>

definition sat_ready :: "ut_lib \<Rightarrow> addr set \<Rightarrow> addr \<Rightarrow> addr \<Rightarrow> dbl list \<Rightarrow> dbl list \<Rightarrow> addr list \<Rightarrow> addr list \<Rightarrow> sat_info \<Rightarrow>
    ('w, sat_info) blk_world ubx \<Rightarrow> bool" where
  "sat_ready U own b t lower upper ins outs bi s \<longleftrightarrow> (let n = length (si_val bi) in get_priv b s = Some bi \<and> blks s b \<noteq> None \<and>
     si_data_len bi = int n \<and> 0 < n \<and> length lower = n \<and> length upper = n \<and>
     load_dbls (si_lower_lim bi) (int n) s = Some lower \<and> load_dbls (si_upper_lim bi) (int n) s = Some upper \<and>
     ut_find U (nd_types s) ''double'' = Some t \<and> in_conn own t (int n) (si_pin bi) ins s \<and> out_conn own t (int n) (si_pout bi) outs s)"

definition dbl_sample :: "addr \<Rightarrow> dbl list \<Rightarrow> ubx_data" where
  "dbl_sample t xs = local_data (Some t) (int (length xs)) (bytes_of_dbls xs)"

lemma bytes_dbl_sample: "dbl_sample t xs = local_data (Some t) (int (length xs)) (bytes_of_dbls xs)"
  by (simp add: dbl_sample_def)

lemma sat_ready_frame:
  assumes "sat_ready U own b t lower upper ins outs bi s" "stat_frame s s'" "dats s' = dats s" "snd (world s') = snd (world s)"
    "length v = length (si_val bi)"
  shows "sat_ready U own b t lower upper ins outs (bi\<lparr>si_val := v\<rparr>) (set_priv b (Some (bi\<lparr>si_val := v\<rparr>)) s')"
  using assms conn_frame [OF assms(2)] load_dbls_dats [OF assms(3)] stat_frame_live [OF assms(2), of b]
  by (simp add: sat_ready_def Let_def stat_frame_def in_conn_def out_conn_def)

text \<open>A step, as a function of what the interaction blocks deliver.\<close>

lemma sat_step_ok:
  fixes s :: "('w, sat_info) blk_world ubx"
  assumes io: "block_io H own iok fit rd wr" and iok: "iok s" and rdy: "sat_ready U own b t lower upper ins outs bi s"
    and fit: "\<forall>bs. length bs = 8 * length (si_val bi) \<longrightarrow> fit (local_data (Some t) (int (length (si_val bi))) bs)"
    and ask: "ask rd (active s ins) 0 (dbl_sample t (si_val bi)) (fst (world s)) = (r, dat', w')" "d_data dat' = Buf bs"
    and v_def: "v = dbls_of (length (si_val bi)) bs" and out_def: "out = sat_loop lower upper v"
  shows "\<exists>s'. sat_step U H b s = Some s' \<and> iok s' \<and>
      (if r = int (length v)
       then sat_ready U own b t lower upper ins outs (bi\<lparr>si_val := out\<rparr>) s' \<and>
         fst (world s') = fold (\<lambda>ib. wr ib (dbl_sample t out)) (active s outs) w'
       else sat_ready U own b t lower upper ins outs (bi\<lparr>si_val := v\<rparr>) s' \<and> fst (world s') = w')"
proof -
  let ?n = "length (si_val bi)" and ?b1 = "bi\<lparr>si_val := v\<rparr>" and ?b2 = "bi\<lparr>si_val := out\<rparr>"
  note R = rdy [unfolded sat_ready_def Let_def]
  have len: "length lower = ?n" "length upper = ?n" "length v = ?n" "0 < ?n" using R by (simp_all add: v_def)
  have lo: "length out = ?n" using length_sat_loop [OF len(1-3)] by (simp add: out_def)
  note inv = io_hooks.inv_node [OF block_io.axioms(1) [OF io]]
  have "fit (dbl_sample t (si_val bi))" using fit by (simp add: dbl_sample_def)
  with block_io.read_conn [OF io iok, of t "int ?n" "si_pin bi" ins U "''double''" "bytes_of_dbls (si_val bi)" r dat' w' bs "''read_double''"]
    R ask obtain s1 where
    s1: "read_array U H ''read_double'' ''double'' (si_pin bi) (bytes_of_dbls (si_val bi)) (int ?n) s = Some (r, bs, s1)"
      "stat_frame s s1" "dats s1 = dats s" "iok s1" "world s1 = (w', snd (world s))" by (auto simp: dbl_sample_def)
  let ?s2 = "set_priv b (Some ?b1) s1"
  from sat_ready_frame [OF rdy s1(2,3) _ len(3)] s1(5) have r2: "sat_ready U own b t lower upper ins outs ?b1 ?s2" by simp
  have i2: "iok ?s2" using block_io.iok_priv [OF io s1(4)] .
  from R obtain blk where "blks s b = Some blk" by blast
  with stat_frame_live_log [OF inv [OF s1(4)] s1(2)] obtain blk1 where b1: "blks s1 b = Some blk1" "ubx_block_log blk1 s1 = Some ()" by blast
  show ?thesis
  proof (cases "r = int ?n")
    case False
    then have "sat_step U H b s = Some ?s2"
      using R s1(1) b1 by (auto simp: sat_step_def Let_def v_def)
    with False r2 i2 s1(5) len(3) show ?thesis by simp
  next
    case True
    let ?s3 = "set_priv b (Some ?b2) ?s2"
    have i3: "iok ?s3" using block_io.iok_priv [OF io i2] .
    from sat_ready_frame [OF r2 stat_frame_refl, of out] lo len(3) have r3: "sat_ready U own b t lower upper ins outs ?b2 ?s3" by simp
    have "fit (dbl_sample t out)" using fit lo by (simp add: dbl_sample_def)
    with block_io.write_conn [OF io i3, of t "int ?n" "si_pout bi" outs U "''double''" "bytes_of_dbls out" "''write_double''"]
      r3 lo obtain s4 where
      s4: "write_array U H ''write_double'' ''double'' (si_pout bi) (bytes_of_dbls out) (int ?n) ?s3 = Some (0, s4)"
        "stat_frame ?s3 s4" "dats s4 = dats ?s3" "iok s4"
        "world s4 = (fold (\<lambda>ib. wr ib (dbl_sample t out)) (active ?s3 outs) (fst (world ?s3)), snd (world ?s3))"
      by (auto simp: dbl_sample_def sat_ready_def Let_def)
    have "load_dbls (si_lower_lim bi) (int ?n) ?s2 = Some lower" "load_dbls (si_upper_lim bi) (int ?n) ?s2 = Some upper"
      using R load_dbls_dats [OF s1(3)] by simp_all
    then have "sat_step U H b s = Some s4"
      using R s1(1) b1 True s4(1) len(4) by (simp add: sat_step_def Let_def v_def out_def)
    moreover have "sat_ready U own b t lower upper ins outs ?b2 s4"
    proof -
      have "get_priv b s4 = Some ?b2" by (simp add: get_priv_def s4(5))
      with sat_ready_frame [OF r3 s4(2,3), of out] s4(5) lo show ?thesis
        by (simp add: sat_ready_def Let_def in_conn_def out_conn_def)
    qed
    moreover have "active ?s3 outs = active s outs" using active_frame [OF s1(2)] by simp
    ultimately show ?thesis using True s4(4,5) s1(5) len(3) by simp
  qed
qed

text \<open>A node with a saturation block 4 to the range from \<open>0\<close> to \<open>1\<close>, between queue 5, which holds the value \<open>3\<close>, and queue 6.\<close>

definition dbl_queue :: "nat list \<Rightarrow> dbl \<Rightarrow> ring cyclic_info" where
  "dbl_queue q x = pipe_info\<lparr>ci_rbs := \<lparr>r_all = [0], r_queue = q, r_held = None\<rparr>,
     ci_elems := [0 \<mapsto> \<lparr>hd_len = 1, hd_data = bytes_of_dbls [x]\<rparr>]\<rparr>"

definition dbl_node :: "'p \<Rightarrow> (ring cyc_world, 'p) blk_world ubx" where
  "dbl_node bi = with_world ([5 \<mapsto> dbl_queue [0] (Dbl 0x4008000000000000), 6 \<mapsto> dbl_queue [] 0], [4 \<mapsto> bi]) (pipe_node
     \<lparr>nd_types := [(''double'', 1)],
     blks := [4 \<mapsto> pipe_blk ''s'' [10, 11] (Ops_comp None 0), 5 \<mapsto> pipe_blk ''q'' [12] (Ops_inter (Some 1) (Some 2) 0 0),
       6 \<mapsto> pipe_blk ''r'' [12] (Ops_inter (Some 1) (Some 2) 0 0)],
     prts := [10 \<mapsto> wire 4 (Some 1) None (Some [5]) None, 11 \<mapsto> wire 4 None (Some 1) None (Some [6]), 12 \<mapsto> wire 5 None (Some 1) None None],
     typs := [1 \<mapsto> mk_type ''double'' 8],
     dats := [20 \<mapsto> local_data (Some 1) 1 (bytes_of_dbls [0]), 21 \<mapsto> local_data (Some 1) 1 (bytes_of_dbls [Dbl 0x3FF0000000000000])]\<rparr>)"

lemma dbl_queue_ok: "q \<in> {[], [0]} \<Longrightarrow> ring_info_ok 1 8 1 (dbl_queue q x)"
  by (auto simp: ring_block_ok_def dbl_queue_def pipe_info_def ring_ok_def elems_ok_def)

lemma dbl_node_ok: "node_ok (dbl_node bi)"
  by (auto simp: node_ok_def dbl_node_def pipe_node_def fresh_from_def pipe_node_blk wire_def split: if_splits)

lemma dbl_node_cyc: "cyc_ok (ring_info_ok 1 8 1) {5, 6} 1 8 1 (io_part (dbl_node bi))"
proof -
  have n: "node_ok (io_part (dbl_node bi))" using dbl_node_ok by (simp add: io_part_def)
  have "ci_p_overruns (dbl_queue q x) = 12" for q x by (simp add: dbl_queue_def pipe_info_def)
  with n dbl_queue_ok show ?thesis
    by (simp add: cyc_ok_def dbl_node_def in_long_def LONG_MAX_def mk_type_def read_fun_def write_fun_def pipe_node_blk wire_def)
qed

lemma dbl_node_active: "active (dbl_node bi) [5] = [5]" "active (dbl_node bi) [6] = [6]"
  by (simp_all add: active_def dbl_node_def pipe_node_blk)

definition sat_info_ex :: sat_info where
  "sat_info_ex = \<lparr>si_data_len = 1, si_lower_lim = Some 20, si_upper_lim = Some 21, si_val = [0], si_pout = Some 11, si_pin = Some 10\<rparr>"

lemma len_ex: "length (si_val sat_info_ex) = 1" "length (bytes_of_dbls [x]) = 8"
  by (simp_all add: sat_info_ex_def)

lemma load_dbl_node: "d_data dat = Buf (bytes_of_dbls [x]) \<Longrightarrow> dats s d = Some dat \<Longrightarrow> load_dbls (Some d) 1 s = Some [x]"
  using dbls_of_bytes [of "[x]"] by (simp add: load_dbls_def load_bytes_def)

lemma sat_node_ready: "sat_ready ut_ref {5, 6} 4 1 [0] [Dbl 0x3FF0000000000000] [5] [6] sat_info_ex (dbl_node sat_info_ex)"
proof -
  have "load_dbls (Some 20) 1 (dbl_node sat_info_ex) = Some [0]"
    "load_dbls (Some 21) 1 (dbl_node sat_info_ex) = Some [Dbl 0x3FF0000000000000]"
    by (rule load_dbl_node, simp_all add: dbl_node_def local_data_def)+
  then show ?thesis
    by (simp add: sat_ready_def Let_def sat_info_ex_def) (simp add: dbl_node_def get_priv_def in_conn_def out_conn_def wire_def)
qed

section \<open>Properties\<close>

text \<open>C16: a step of a connected saturation block, whatever its interaction blocks do within their contract: it asks the interaction blocks
  of port \<open>in\<close> once, as a port read does. If they deliver a full sample, every interaction block of \<open>out\<close> gets exactly one
  sample, each of whose elements is the input, limited to its range: a number is in the range afterwards, an input in the range is
  passed unchanged, and NaN stays NaN. Otherwise nothing is written.\<close>

theorem sat_step_clamps:
  fixes s :: "('w, sat_info) blk_world ubx"
  assumes "block_io H own iok fit rd wr" "iok s" "sat_ready U own b t lower upper ins outs bi s"
    "\<forall>bs. length bs = 8 * length (si_val bi) \<longrightarrow> fit (local_data (Some t) (int (length (si_val bi))) bs)"
    "ask rd (active s ins) 0 (dbl_sample t (si_val bi)) (fst (world s)) = (r, dat', w')" "d_data dat' = Buf bs"
    and v: "v = dbls_of (length (si_val bi)) bs"
  shows "\<exists>s' out. sat_step U H b s = Some s' \<and> iok s' \<and> length out = length v \<and>
      (\<forall>i < length v. lower ! i \<le> upper ! i \<longrightarrow>
         out ! i = (if v ! i < lower ! i then lower ! i else if upper ! i < v ! i then upper ! i else v ! i) \<and>
         (is_nan (v ! i) \<longrightarrow> out ! i = v ! i) \<and> (\<not> is_nan (v ! i) \<longrightarrow> lower ! i \<le> out ! i \<and> out ! i \<le> upper ! i)) \<and>
      (if r = int (length v)
       then sat_ready U own b t lower upper ins outs (bi\<lparr>si_val := out\<rparr>) s' \<and>
         fst (world s') = fold (\<lambda>ib. wr ib (dbl_sample t out)) (active s outs) w'
       else sat_ready U own b t lower upper ins outs (bi\<lparr>si_val := v\<rparr>) s' \<and> fst (world s') = w')"
proof -
  have len: "length lower = length v" "length upper = length v" using assms(3) by (simp_all add: sat_ready_def Let_def v)
  have "length (sat_loop lower upper v) = length v \<and> (\<forall>i < length v. lower ! i \<le> upper ! i \<longrightarrow>
      sat_loop lower upper v ! i = (if v ! i < lower ! i then lower ! i else if upper ! i < v ! i then upper ! i else v ! i) \<and>
      (is_nan (v ! i) \<longrightarrow> sat_loop lower upper v ! i = v ! i) \<and>
      (\<not> is_nan (v ! i) \<longrightarrow> lower ! i \<le> sat_loop lower upper v ! i \<and> sat_loop lower upper v ! i \<le> upper ! i))"
    using len sat_elem_clamp sat_elem_nan sat_elem_range(1,2) by (simp add: nth_sat_loop length_sat_loop) metis
  with sat_step_ok [OF assms(1-6) v refl] show ?thesis by blast
qed

theorem sat_step_clamps_witness:
  "\<exists>s'. sat_step ut_ref (lift_hooks (cyclic_hooks ut_ref ring_ref no_hooks)) 4 (dbl_node sat_info_ex) = Some s' \<and>
     fst (world s') = cyc_wr ring_ref 8 6 (dbl_sample 1 [Dbl 0x3FF0000000000000])
       ((fst (world (dbl_node sat_info_ex)))(5 \<mapsto> dbl_queue [] (Dbl 0x4008000000000000)))"
proof -
  let ?x = "Dbl 0x4008000000000000" and ?y = "Dbl 0x3FF0000000000000" and ?s = "dbl_node sat_info_ex"
  let ?w = "(fst (world ?s))(5 \<mapsto> dbl_queue [] ?x)"
  have fit: "\<forall>bs. length bs = 8 * length (si_val sat_info_ex) \<longrightarrow>
      fits 1 8 1 (local_data (Some 1) (int (length (si_val sat_info_ex))) bs)"
    by (simp add: fits_def local_data_def len_ex)
  have v: "[?x] = dbls_of (length (si_val sat_info_ex)) (bytes_of_dbls [?x])"
    using dbls_of_bytes [of "[?x]"] by (simp add: len_ex)
  have ask: "ask (cyc_rd ring_ref 8) (active ?s [5]) 0 (dbl_sample 1 (si_val sat_info_ex)) (fst (world ?s)) =
      (1, (dbl_sample 1 [0])\<lparr>d_data := Buf (bytes_of_dbls [?x])\<rparr>, ?w)"
    by (simp add: dbl_node_active sat_info_ex_def)
      (simp add: dbl_node_def cyc_rd_def ci_read_def dbl_queue_def pipe_info_def ring_ref_def dbl_sample_def local_data_def c_int_def)
  from sat_step_clamps [OF cycblk.block_io_axioms dbl_node_cyc sat_node_ready fit ask _ v, of no_hooks]
  obtain s' out where s': "sat_step ut_ref (lift_hooks (cyclic_hooks ut_ref ring_ref no_hooks)) 4 ?s = Some s'"
      "length out = 1" "0 \<le> ?y \<Longrightarrow> out ! 0 = (if ?x < 0 then 0 else if ?y < ?x then ?y else ?x)"
      "fst (world s') = fold (\<lambda>ib. cyc_wr ring_ref 8 ib (dbl_sample 1 out)) (active ?s [6]) ?w"
    by fastforce
  have "out ! 0 = ?y" using s'(3)
    by (simp add: less_dbl_def less_eq_dbl_def zero_dbl_def is_nan_def dbl_mag_def dbl_key_def)
  with s'(2) have "out = [?y]" by (cases out) auto
  with s'(1,4) show ?thesis by (simp add: dbl_node_active)
qed

end
