(* ===== verification/Ubx_Elem.thy ===== *)
theory Ubx_Elem
  imports Ubx_Signal
begin

text \<open>
  The element types the generic blocks are compiled for (\<open>RAMP_T\<close> and the like): how a value lies in memory and how it is
  added to, and arrays of such values that live on the heap. The laws of an element type are the locale \<open>elem_laws\<close>.
\<close>

section \<open>Element types\<close>

text \<open>Addition may be undefined: a signed overflow.\<close>

record 'a elem =
  el_size :: nat
  el_enc :: "'a \<Rightarrow> u8 list"
  el_dec :: "u8 list \<Rightarrow> 'a"
  el_zero :: 'a
  el_add :: "'a \<Rightarrow> 'a \<Rightarrow> 'a option"

definition bytes_of :: "'a elem \<Rightarrow> 'a list \<Rightarrow> u8 list" where
  "bytes_of E xs = concat (map (el_enc E) xs)"

fun elems_of :: "'a elem \<Rightarrow> nat \<Rightarrow> u8 list \<Rightarrow> 'a list" where
  "elems_of E 0 bs = []"
| "elems_of E (Suc n) bs = el_dec E (take (el_size E) bs) # elems_of E n (drop (el_size E) bs)"

lemma length_elems_of [simp]: "length (elems_of E n bs) = n"
  by (induction n arbitrary: bs) simp_all

locale elem_laws =
  fixes E :: "'a elem"
  assumes size_pos: "0 < el_size E"
    and length_enc: "length (el_enc E x) = el_size E"
    and dec_enc: "el_dec E (el_enc E x) = x"
begin

lemma length_bytes_of: "length (bytes_of E xs) = el_size E * length xs"
  by (induction xs) (simp_all add: bytes_of_def length_enc)

lemma elems_of_bytes: "elems_of E (length xs) (bytes_of E xs) = xs"
  by (induction xs) (simp_all add: bytes_of_def length_enc dec_enc)

end

text \<open>\<open>double\<close>, and the integer types. Arithmetic on types narrower than \<open>int\<close> is done on \<open>int\<close> and the result converted
  back, so that only \<open>int32_t\<close> and \<open>int64_t\<close> can overflow; unsigned types wrap around.\<close>

definition double_elem :: "nan_rule \<Rightarrow> dbl elem" where
  "double_elem N = \<lparr>el_size = 8, el_enc = (\<lambda>x. bytes_of_u64 (dbits x)), el_dec = (\<lambda>bs. Dbl (of_nat (le_word bs))), el_zero = 0,
     el_add = (\<lambda>x y. Some (dbl_add N x y))\<rparr>"

definition word_enc :: "'l::len word \<Rightarrow> u8 list" where
  "word_enc w = map (\<lambda>k. ucast (drop_bit (8 * k) w)) [0..<LENGTH('l) div 8]"

definition uint_elem :: "'l::len word elem" where
  "uint_elem = \<lparr>el_size = LENGTH('l) div 8, el_enc = word_enc, el_dec = (\<lambda>bs. of_nat (le_word bs)), el_zero = 0,
     el_add = (\<lambda>x y. Some (x + y))\<rparr>"

definition sint_elem :: "'l::len word elem" where
  "sint_elem = \<lparr>el_size = LENGTH('l) div 8, el_enc = word_enc, el_dec = (\<lambda>bs. of_nat (le_word bs)), el_zero = 0,
     el_add = (\<lambda>x y. if 32 \<le> LENGTH('l) \<and> sint (x + y) \<noteq> sint x + sint y then None else Some (x + y))\<rparr>"

lemma length_word_enc: "length (word_enc (w :: 'l::len word)) = LENGTH('l) div 8"
  by (simp add: word_enc_def)

lemma dvd_pos: "8 dvd LENGTH('l::len) \<Longrightarrow> 0 < LENGTH('l) div 8"
  using len_gt_0 [where ?'a = 'l] by (auto elim!: dvdE simp del: len_gt_0)

lemma le_word_enc:
  fixes w :: "'l::len word"
  assumes "8 dvd LENGTH('l)"
  shows "of_nat (le_word (word_enc w)) = w"
proof -
  let ?n = "LENGTH('l) div 8"
  have u: "unat (ucast (drop_bit (8 * k) w) :: u8) = unat w div 256 ^ k mod 256" for k
    by (simp only: unsigned_ucast_eq unat_drop_bit_eq) (simp add: take_bit_eq_mod drop_bit_eq_div power_mult)
  have "le_word (word_enc w) = foldr (\<lambda>k m. unat w div 256 ^ k mod 256 + 256 * m) [0..<0 + ?n] 0"
    by (simp add: le_word_def word_enc_def foldr_map comp_def u)
  also have "\<dots> = unat w mod 256 ^ ?n" using digits_256 [of "unat w" 0 ?n] by simp
  also have "(256 :: nat) ^ ?n = 2 ^ LENGTH('l)"
  proof -
    have "(256 :: nat) ^ ?n = (2 ^ 8) ^ ?n" by simp
    also have "\<dots> = 2 ^ LENGTH('l)" using assms by (simp only: dvd_mult_div_cancel flip: power_mult)
    finally show ?thesis .
  qed
  also have "unat w mod 2 ^ LENGTH('l) = unat w" using unsigned_less [of w, where ?'a = nat] by simp
  finally show ?thesis by simp
qed

lemma uint_elem_laws: "8 dvd LENGTH('l::len) \<Longrightarrow> elem_laws (uint_elem :: 'l word elem)"
  by (unfold_locales) (auto simp: uint_elem_def le_word_enc length_word_enc dvd_pos)

lemma sint_elem_laws: "8 dvd LENGTH('l::len) \<Longrightarrow> elem_laws (sint_elem :: 'l word elem)"
  by (unfold_locales) (auto simp: sint_elem_def le_word_enc length_word_enc dvd_pos)

interpretation double_el: elem_laws "double_elem N"
  by unfold_locales (simp_all add: double_elem_def le_word_u64)

interpretation u8_el: elem_laws "uint_elem :: u8 elem" by (rule uint_elem_laws) simp
interpretation u16_el: elem_laws "uint_elem :: u16 elem" by (rule uint_elem_laws) simp
interpretation u32_el: elem_laws "uint_elem :: u32 elem" by (rule uint_elem_laws) simp
interpretation u64_el: elem_laws "uint_elem :: u64 elem" by (rule uint_elem_laws) simp
interpretation s8_el: elem_laws "sint_elem :: u8 elem" by (rule sint_elem_laws) simp
interpretation s16_el: elem_laws "sint_elem :: u16 elem" by (rule sint_elem_laws) simp
interpretation s32_el: elem_laws "sint_elem :: u32 elem" by (rule sint_elem_laws) simp
interpretation s64_el: elem_laws "sint_elem :: u64 elem" by (rule sint_elem_laws) simp

text \<open>Characters as bytes.\<close>

definition string_of_bytes :: "u8 list \<Rightarrow> string" where
  "string_of_bytes bs = map (\<lambda>b. char_of (unat b)) bs"

lemma bytes_of_string_nat: "bytes_of_string s = map (\<lambda>c. of_nat (of_char c)) s"
  by (simp add: bytes_of_string_def of_nat_of_char)

lemma string_of_bytes_of_string: "string_of_bytes (bytes_of_string s) = s"
proof -
  have "char_of (unat (of_nat (of_char c) :: u8)) = c" for c
  proof -
    have "(of_char c :: nat) < 256" using of_char_mod_256 [of c, where ?'a = nat] by (metis mod_less_divisor zero_less_numeral)
    then show ?thesis by (simp add: unat_of_nat)
  qed
  then show ?thesis by (simp add: string_of_bytes_def bytes_of_string_nat comp_def)
qed

lemma take_bytes_of_string: "take n (bytes_of_string s) = bytes_of_string (take n s)"
  by (simp add: bytes_of_string_def take_map)

lemma bytes_of_string_nul: "0 \<in> set (bytes_of_string s) \<longleftrightarrow> char_of (0 :: nat) \<in> set s"
proof -
  have "(of_nat (of_char c) :: u8) = 0 \<longleftrightarrow> c = char_of (0 :: nat)" for c
  proof -
    have l: "(of_char c :: nat) < 256" using of_char_mod_256 [of c, where ?'a = nat] by (metis mod_less_divisor zero_less_numeral)
    have "(of_nat (of_char c) :: u8) = 0 \<longleftrightarrow> unat (of_nat (of_char c) :: u8) = 0" by (simp add: unat_eq_0)
    also have "\<dots> \<longleftrightarrow> (of_char c :: nat) = 0" using l by (simp add: unat_of_nat)
    also have "\<dots> \<longleftrightarrow> c = char_of (0 :: nat)" by (metis char_of_char of_char_of mod_0)
    finally show ?thesis .
  qed
  then show ?thesis by (force simp: bytes_of_string_nat)
qed

section \<open>Arrays\<close>

text \<open>A pointer to an array on the heap that nobody else refers to.\<close>

datatype 'a arr = Null | Freed | Arr "'a list"

definition arr_get :: "'a arr \<Rightarrow> 'a list option" where
  "arr_get a = (case a of Arr xs \<Rightarrow> Some xs | _ \<Rightarrow> None)"

definition arr_free :: "'a arr \<Rightarrow> 'a arr option" where
  "arr_free a = (case a of Null \<Rightarrow> Some Null | Freed \<Rightarrow> None | Arr xs \<Rightarrow> Some Freed)"

lemma arr_simps [simp]: "arr_get (Arr xs) = Some xs" "arr_free (Arr xs) = Some Freed"
  by (simp_all add: arr_get_def arr_free_def)

text \<open>\<open>calloc(n, sizeof(T))\<close>: the number is converted to \<open>size_t\<close>.\<close>

definition calloc_arr :: "'a elem \<Rightarrow> int \<Rightarrow> 'w ubx \<Rightarrow> 'a arr \<times> 'w ubx" where
  "calloc_arr E n s = (case buf_calloc (unat (word_of_int n :: u64)) (el_size E) s of
     (Buf bs, s) \<Rightarrow> (Arr (replicate (unat (word_of_int n :: u64)) (el_zero E)), s)
   | (_, s) \<Rightarrow> (Null, s))"

text \<open>Reading \<open>n\<close> elements through a pointer to the value of a config.\<close>

definition load_elems :: "'a elem \<Rightarrow> ptr \<Rightarrow> int \<Rightarrow> 'w ubx \<Rightarrow> 'a list option" where
  "load_elems E p n s = (if n \<le> 0 then Some [] else map_option (elems_of E (nat n)) (load_bytes p (el_size E * nat n) s))"

lemma load_elems_dats: "dats s' = dats s \<Longrightarrow> load_elems E p n s' = load_elems E p n s"
  by (simp add: load_elems_def load_bytes_def)

lemma load_elems_priv [simp]: "load_elems E p n (set_priv b x s) = load_elems E p n s"
  by (simp add: load_elems_def)

text \<open>\<open>a[i] += b[i]\<close> for all elements.\<close>

fun add_loop :: "'a elem \<Rightarrow> 'a list \<Rightarrow> 'a list \<Rightarrow> 'a list option" where
  "add_loop E [] [] = Some []"
| "add_loop E (x # xs) (y # ys) = do { z \<leftarrow> el_add E x y; zs \<leftarrow> add_loop E xs ys; Some (z # zs) }"
| "add_loop E _ _ = None"

fun_cases add_loop_consE: "add_loop E (x # xs) ys = Some zs"

lemma add_loop_Some:
  "add_loop E xs ys = Some zs \<longleftrightarrow> length ys = length xs \<and> length zs = length xs \<and> (\<forall>i < length xs. el_add E (xs ! i) (ys ! i) = Some (zs ! i))"
proof (induction xs arbitrary: ys zs)
  case Nil
  then show ?case by (cases ys) auto
next
  case (Cons x xs)
  show ?case
  proof (cases ys)
    case (Cons y ys')
    with Cons.IH [of ys'] show ?thesis by (cases zs) (auto simp: less_Suc_eq_0_disj all_conj_distrib)
  qed simp
qed

section \<open>Whole samples of doubles\<close>

text \<open>An optional config with the values \<open>k\<close>, through the pointer to it.\<close>

definition gain_is :: "ptr \<Rightarrow> nat \<Rightarrow> 'w ubx \<Rightarrow> dbl list option \<Rightarrow> bool" where
  "gain_is p n s k \<longleftrightarrow> (case k of None \<Rightarrow> p = None | Some xs \<Rightarrow> p \<noteq> None \<and> load_dbls p (int n) s = Some xs)"

lemma gain_length: "gain_is p n s (Some xs) \<Longrightarrow> length xs = n"
  by (auto simp: gain_is_def load_dbls_def split: if_splits)

lemma gain_dats: "dats s' = dats s \<Longrightarrow> gain_is p n s' k = gain_is p n s k"
  using load_dbls_dats [of s' s p "int n"] by (simp add: gain_is_def split: option.split)

lemma gain_priv [simp]: "gain_is p n (set_priv b x s) k = gain_is p n s k"
  by (simp add: gain_is_def split: option.split)

text \<open>Asked for a sample, whatever the buffer held before, the interaction blocks deliver \<open>xs\<close> in full.\<close>

definition delivers :: "'w reader \<Rightarrow> addr \<Rightarrow> addr list \<Rightarrow> 'w \<Rightarrow> dbl list \<Rightarrow> 'w \<Rightarrow> bool" where
  "delivers rd t A w xs w' \<longleftrightarrow> (\<forall>old. length old = length xs \<longrightarrow>
     (\<exists>dat. ask rd A 0 (dbl_sample t old) w = (int (length xs), dat, w') \<and> d_data dat = Buf (bytes_of_dbls xs)))"

context block_io
begin

lemma read_delivered:
  assumes "iok s" "in_conn own t (int n) p ibs s" "ut_find U (nd_types s) ''double'' = Some t" "length old = n" "0 < n"
    "\<forall>bs. length bs = 8 * n \<longrightarrow> fits (local_data (Some t) (int n) bs)"
    "delivers rd t (active s ibs) (fst (world s)) xs w'" "length xs = n"
  shows "\<exists>s'. read_array U H ''read_double'' ''double'' p (bytes_of_dbls old) (int n) s = Some (int n, bytes_of_dbls xs, s') \<and>
    stat_frame s s' \<and> dats s' = dats s \<and> iok s' \<and> world s' = (w', snd (world s))"
proof -
  from assms(4,7,8) obtain dat where a: "ask rd (active s ibs) 0 (dbl_sample t old) (fst (world s)) = (int n, dat, w')"
      "d_data dat = Buf (bytes_of_dbls xs)"
    unfolding delivers_def by metis
  have "fits (local_data (Some t) (int n) (bytes_of_dbls old))" using assms(4,6) by simp
  from read_conn [OF assms(1-3) this, of "int n" dat w' "bytes_of_dbls xs" "''read_double''"] a assms(4,5) show ?thesis
    by (auto simp: dbl_sample_def)
qed

lemma write_sample:
  assumes "iok s" "out_conn own t (int n) p ibs s" "ut_find U (nd_types s) ''double'' = Some t" "length xs = n"
    "\<forall>bs. length bs = 8 * n \<longrightarrow> fits (local_data (Some t) (int n) bs)"
  shows "\<exists>s'. write_array U H ''write_double'' ''double'' p (bytes_of_dbls xs) (int n) s = Some (0, s') \<and> stat_frame s s' \<and>
    dats s' = dats s \<and> iok s' \<and> world s' = (fold (\<lambda>ib. wr ib (dbl_sample t xs)) (active s ibs) (fst (world s)), snd (world s))"
  using write_conn [OF assms(1-3), of "bytes_of_dbls xs" "''write_double''"] assms(4,5) by (auto simp: dbl_sample_def)

end

lemma frame_live: "stat_frame s s' \<Longrightarrow> blks s b \<noteq> None \<Longrightarrow> blks s' b \<noteq> None"
  using stat_frame_live by metis

lemma cyc_delivers:
  assumes "w i = Some (dbl_queue [0] x)"
  shows "delivers (cyc_rd ring_ref 8) t [i] w [x] (w(i \<mapsto> dbl_queue [] x))"
  using assms by (auto simp: delivers_def cyc_rd_def ci_read_def dbl_queue_def pipe_info_def ring_ref_def dbl_sample_def local_data_def c_int_def)

end
