(* ===== verification/Ubx_Ramp.thy ===== *)
theory Ubx_Ramp
  imports Ubx_Elem
begin

text \<open>
  The ramp generator, \<^verbatim>\<open>std_blocks/ramp/ramp.c\<close> and \<^verbatim>\<open>ramp.h\<close>, for every element type it is compiled
  for but \<open>float\<close>. Each step writes the current values and then adds the slope.
\<close>

section \<open>The block\<close>

text \<open>\<open>struct ramp_info\<close>; \<open>rm_out\<close> is the port cache.\<close>

record 'a ramp_info =
  rm_cur :: "'a arr"
  rm_start :: ptr
  rm_slope :: ptr
  rm_data_len :: int
  rm_out :: ptr

type_synonym ('w, 'a) ramp_node = "('w, 'a ramp_info) blk_world ubx"

text \<open>\<open>update_port_cache\<close>\<close>

definition ramp_update_port_cache :: "addr \<Rightarrow> 'a ramp_info \<Rightarrow> ('w, 'a) ramp_node \<Rightarrow> 'a ramp_info option" where
  "ramp_update_port_cache b bi s = do { p \<leftarrow> ubx_port_get (Some b) (Some ''out'') s; Some (bi\<lparr>rm_out := p\<rparr>) }"

text \<open>The error path \<open>out_free\<close> frees the buffer but keeps the pointer, and the private data.\<close>

definition ramp_out_free :: "addr \<Rightarrow> 'a ramp_info \<Rightarrow> ('w, 'a) ramp_node \<Rightarrow> (int \<times> ('w, 'a) ramp_node) option" where
  "ramp_out_free b bi s = do { c \<leftarrow> arr_free (rm_cur bi); Some (- 1, set_priv b (Some (bi\<lparr>rm_cur := c\<rparr>)) s) }"

definition ramp_configs :: "addr \<Rightarrow> 'a ramp_info \<Rightarrow> ('w, 'a) ramp_node \<Rightarrow> (int \<times> ('w, 'a) ramp_node) option" where
  "ramp_configs b bi s = do {
     blk \<leftarrow> blks s b;
     (len, p) \<leftarrow> ubx_config_get_data_ptr (Some b) (Some ''start'') s;
     let bi = bi\<lparr>rm_start := p\<rparr>;
     if len < 0 then ramp_out_free b bi s
     else if len > 0 \<and> len \<noteq> rm_data_len bi then do { _ \<leftarrow> ubx_block_log blk s; ramp_out_free b bi s }
     else do {
       let bi = bi\<lparr>rm_start := (if len = 0 then None else rm_start bi)\<rparr>;
       (len, p) \<leftarrow> ubx_config_get_data_ptr (Some b) (Some ''slope'') s;
       let bi = bi\<lparr>rm_slope := p\<rparr>;
       if len < 0 then ramp_out_free b bi s
       else if len = 0 then do { _ \<leftarrow> ubx_block_log blk s; ramp_out_free b bi s }
       else if len > 0 \<and> len \<noteq> rm_data_len bi then do { _ \<leftarrow> ubx_block_log blk s; ramp_out_free b bi s }
       else Some (0, set_priv b (Some bi) s) } }"

definition ramp_init :: "'a elem \<Rightarrow> ut_lib \<Rightarrow> addr \<Rightarrow> ('w, 'a) ramp_node \<Rightarrow> (int \<times> ('w, 'a) ramp_node) option" where
  "ramp_init E U b s = do {
     blk \<leftarrow> blks s b;
     let (ok, s) = mem_alloc s;
     if \<not> ok then do { _ \<leftarrow> ubx_block_log blk s; Some (EOUTOFMEM, s) }
     else do {
       bi \<leftarrow> ramp_update_port_cache b \<lparr>rm_cur = Null, rm_start = None, rm_slope = None, rm_data_len = 0, rm_out = None\<rparr> s;
       r \<leftarrow> getptr U ''long'' ''long'' b ''data_len'' s;
       if fst r < 0 then Some (- 1, set_priv b (Some bi) (snd (snd r)))
       else do {
         (data_len, s) \<leftarrow> cfg_or load_long 1 r;
         let bi = bi\<lparr>rm_data_len := data_len\<rparr>;
         out \<leftarrow> rm_out bi;
         (r, s) \<leftarrow> ubx_outport_resize out data_len s;
         if r \<noteq> 0 then Some (- 1, set_priv b (Some bi) s)
         else (case calloc_arr E data_len s of (cur, s) \<Rightarrow>
           if cur = Null then do { _ \<leftarrow> ubx_block_log blk s; Some (- 1, set_priv b (Some bi) s) }
           else ramp_configs b (bi\<lparr>rm_cur := cur\<rparr>) s) } } }"

text \<open>\<open>start\<close> copies the start values, if there are any; without them a ramp that is started again goes on where it was.\<close>

definition ramp_start :: "'a elem \<Rightarrow> addr \<Rightarrow> ('w, 'a) ramp_node \<Rightarrow> (int \<times> ('w, 'a) ramp_node) option" where
  "ramp_start E b s = do {
     bi \<leftarrow> get_priv b s;
     if rm_start bi = None then Some (0, s)
     else do {
       cur \<leftarrow> arr_get (rm_cur bi);
       xs \<leftarrow> load_elems E (rm_start bi) (rm_data_len bi) s;
       if length xs > length cur then None
       else Some (0, set_priv b (Some (bi\<lparr>rm_cur := Arr (xs @ drop (length xs) cur)\<rparr>)) s) } }"

definition ramp_cleanup :: "addr \<Rightarrow> ('w, 'a) ramp_node \<Rightarrow> ('w, 'a) ramp_node option" where
  "ramp_cleanup b s = do { bi \<leftarrow> get_priv b s; _ \<leftarrow> arr_free (rm_cur bi); Some (set_priv b None s) }"

text \<open>The index of the loop is an \<open>int\<close>. Each library has its own \<open>write_ramp_array\<close>.\<close>

definition ramp_step :: "'a elem \<Rightarrow> string \<Rightarrow> ut_lib \<Rightarrow> ('w, 'a ramp_info) blk_world hooks \<Rightarrow> addr \<Rightarrow> ('w, 'a) ramp_node \<Rightarrow> ('w, 'a) ramp_node option" where
  "ramp_step E tn U H b s = do {
     bi \<leftarrow> get_priv b s;
     cur \<leftarrow> arr_get (rm_cur bi);
     (r, s) \<leftarrow> write_array U H (''write_ramp '' @ tn) tn (rm_out bi) (bytes_of E cur) (rm_data_len bi) s;
     bi \<leftarrow> get_priv b s;
     if rm_data_len bi > 2147483647 then None
     else do {
       slope \<leftarrow> load_elems E (rm_slope bi) (rm_data_len bi) s;
       xs \<leftarrow> add_loop E (take (nat (rm_data_len bi)) cur) slope;
       Some (set_priv b (Some (bi\<lparr>rm_cur := Arr (xs @ drop (nat (rm_data_len bi)) cur)\<rparr>)) s) } }"

fun ramp_steps :: "'a elem \<Rightarrow> string \<Rightarrow> ut_lib \<Rightarrow> ('w, 'a ramp_info) blk_world hooks \<Rightarrow> addr \<Rightarrow> nat \<Rightarrow> ('w, 'a) ramp_node \<Rightarrow> ('w, 'a) ramp_node option" where
  "ramp_steps E tn U H b 0 s = Some s"
| "ramp_steps E tn U H b (Suc k) s = do { s \<leftarrow> ramp_step E tn U H b s; ramp_steps E tn U H b k s }"

section \<open>What a running ramp writes\<close>

text \<open>A ramp that was initialised and connected.\<close>

definition ramp_ready :: "'a elem \<Rightarrow> string \<Rightarrow> ut_lib \<Rightarrow> addr set \<Rightarrow> addr \<Rightarrow> addr \<Rightarrow> 'a list \<Rightarrow> 'a list \<Rightarrow> addr list \<Rightarrow> ('w, 'a) ramp_node \<Rightarrow> bool" where
  "ramp_ready E tn U own b t cur slope outs s \<longleftrightarrow> (\<exists>bi. get_priv b s = Some bi \<and> rm_cur bi = Arr cur \<and>
     rm_data_len bi = int (length cur) \<and> length cur \<le> 2147483647 \<and> load_elems E (rm_slope bi) (int (length cur)) s = Some slope \<and>
     ut_find U (nd_types s) tn = Some t \<and> out_conn own t (int (length cur)) (rm_out bi) outs s)"

definition sample_of :: "'a elem \<Rightarrow> addr \<Rightarrow> 'a list \<Rightarrow> ubx_data" where
  "sample_of E t xs = local_data (Some t) (int (length xs)) (bytes_of E xs)"

lemma ramp_step_ok:
  fixes s :: "('w, 'a) ramp_node"
  assumes io: "block_io H own iok fit rd wr" and iok: "iok s" and rdy: "ramp_ready E tn U own b t cur slope outs s"
    and fit: "fit (sample_of E t cur)" and add: "add_loop E cur slope = Some xs"
  shows "\<exists>s'. ramp_step E tn U H b s = Some s' \<and> iok s' \<and> ramp_ready E tn U own b t xs slope outs s' \<and>
    active s' outs = active s outs \<and> fst (world s') = fold (\<lambda>ib. wr ib (sample_of E t cur)) (active s outs) (fst (world s))"
proof -
  from rdy obtain bi where bi: "get_priv b s = Some bi" "rm_cur bi = Arr cur" "rm_data_len bi = int (length cur)"
      "length cur \<le> 2147483647" "load_elems E (rm_slope bi) (int (length cur)) s = Some slope" "ut_find U (nd_types s) tn = Some t"
      "out_conn own t (int (length cur)) (rm_out bi) outs s"
    unfolding ramp_ready_def by blast
  have len: "length xs = length cur" using add by (simp add: add_loop_Some)
  from block_io.write_conn [OF io iok bi(7,6), of "bytes_of E cur" "''write_ramp '' @ tn"] fit obtain s1 where
    s1: "write_array U H (''write_ramp '' @ tn) tn (rm_out bi) (bytes_of E cur) (int (length cur)) s = Some (0, s1)"
      "stat_frame s s1" "dats s1 = dats s" "iok s1"
      "world s1 = (fold (\<lambda>ib. wr ib (sample_of E t cur)) (active s outs) (fst (world s)), snd (world s))"
    by (auto simp: sample_of_def)
  let ?bi = "bi\<lparr>rm_cur := Arr xs\<rparr>" and ?s = "set_priv b (Some (bi\<lparr>rm_cur := Arr xs\<rparr>)) s1"
  have p1: "get_priv b s1 = Some bi" using bi(1) s1(5) by (simp add: get_priv_def)
  have ld: "load_elems E (rm_slope bi) (int (length cur)) s1 = Some slope" using bi(5) by (simp add: load_elems_dats [OF s1(3)])
  have "ramp_step E tn U H b s = Some ?s"
    using bi(1-4) s1(1) p1 ld add by (simp add: ramp_step_def)
  moreover have "ramp_ready E tn U own b t xs slope outs ?s"
    using bi(3,4,6,7) ld len s1(2) conn_frame(2) [OF s1(2)] by (simp add: ramp_ready_def stat_frame_def in_conn_def out_conn_def)
  moreover have "active ?s outs = active s outs" using active_frame [OF s1(2)] by simp
  ultimately show ?thesis using block_io.iok_priv [OF io s1(4)] s1(5) by (intro exI [of _ ?s]) simp
qed

lemma ramp_steps_ok:
  fixes s :: "('w, 'a) ramp_node"
  assumes io: "block_io H own iok fit rd wr" and "iok s" and "ramp_ready E tn U own b t (vals 0) slope outs s"
    and "\<forall>j < k. fit (sample_of E t (vals j))" and "\<forall>j < k. add_loop E (vals j) slope = Some (vals (Suc j))"
  shows "\<exists>s'. ramp_steps E tn U H b k s = Some s' \<and> iok s' \<and> ramp_ready E tn U own b t (vals k) slope outs s' \<and>
    fst (world s') = fold (\<lambda>xs w. fold (\<lambda>ib. wr ib (sample_of E t xs)) (active s outs) w) (map vals [0..<k]) (fst (world s))"
  using assms(2-)
proof (induction k arbitrary: s vals)
  case (Suc k)
  have h: "fit (sample_of E t (vals 0))" "add_loop E (vals 0) slope = Some (vals (Suc 0))" using Suc.prems(3,4) by blast+
  from ramp_step_ok [OF io Suc.prems(1,2) h] obtain s1 where
    s1: "ramp_step E tn U H b s = Some s1" "iok s1" "ramp_ready E tn U own b t (vals (Suc 0)) slope outs s1"
      "active s1 outs = active s outs" "fst (world s1) = fold (\<lambda>ib. wr ib (sample_of E t (vals 0))) (active s outs) (fst (world s))"
    by blast
  from Suc.IH [OF s1(2), of "\<lambda>j. vals (Suc j)"] s1(3) Suc.prems(3,4) obtain s' where
    s': "ramp_steps E tn U H b k s1 = Some s'" "iok s'" "ramp_ready E tn U own b t (vals (Suc k)) slope outs s'"
      "fst (world s') = fold (\<lambda>xs w. fold (\<lambda>ib. wr ib (sample_of E t xs)) (active s1 outs) w) (map (\<lambda>j. vals (Suc j)) [0..<k]) (fst (world s1))"
    by auto
  have "map vals [0..<Suc k] = vals 0 # map (\<lambda>j. vals (Suc j)) [0..<k]" by (simp add: map_upt_Suc del: upt_Suc)
  with s1(1,4,5) s' show ?case by (simp del: upt_Suc)
qed simp

text \<open>The values of an unsigned ramp: they wrap around.\<close>

lemma uint_ramp_vals:
  fixes cur slope :: "'l::len word list"
  assumes "length slope = length cur" "vals = (\<lambda>j. map2 (\<lambda>c m. c + of_nat j * m) cur slope)"
  shows "add_loop uint_elem (vals j) slope = Some (vals (Suc j))" "vals 0 = cur"
  using assms by (auto simp: add_loop_Some uint_elem_def algebra_simps intro: nth_equalityI)

text \<open>The values of a \<open>double\<close> ramp, by rounded additions.\<close>

fun dbl_ramp :: "nan_rule \<Rightarrow> dbl \<Rightarrow> dbl \<Rightarrow> nat \<Rightarrow> dbl" where
  "dbl_ramp N c m 0 = c"
| "dbl_ramp N c m (Suc j) = dbl_add N (dbl_ramp N c m j) m"

lemma double_ramp_vals:
  assumes "length slope = length cur" "vals = (\<lambda>j. map2 (\<lambda>c m. dbl_ramp N c m j) cur slope)"
  shows "add_loop (double_elem N) (vals j) slope = Some (vals (Suc j))" "vals 0 = cur"
  using assms by (auto simp: add_loop_Some double_elem_def intro: nth_equalityI)

lemma dbl_ramp_is:
  assumes "dbl_is c i" "dbl_is m d" "\<forall>j \<le> k. \<bar>i + int j * d\<bar> < 2 ^ 53"
  shows "j \<le> k \<Longrightarrow> dbl_is (dbl_ramp N c m j) (i + int j * d)"
proof (induction j)
  case (Suc j)
  have e: "i + int (Suc j) * d = i + int j * d + d" by (simp add: algebra_simps)
  have "\<bar>i + int (Suc j) * d\<bar> < 2 ^ 53" using assms(3) Suc.prems by blast
  moreover have "dbl_is (dbl_ramp N c m j) (i + int j * d)" using Suc by simp
  ultimately show ?case using dbl_add_is [OF _ assms(2)] by (simp only: e dbl_ramp.simps)
qed (use assms(1) in simp)

text \<open>A ramp from \<open>0\<close> with slope \<open>1\<close>, on the node of \<open>Ubx_Signal\<close>.\<close>

definition ramp_ex :: "dbl ramp_info" where
  "ramp_ex = \<lparr>rm_cur = Arr [0], rm_start = None, rm_slope = Some 21, rm_data_len = 1, rm_out = Some 11\<rparr>"

lemma load_elem_ex: "d_data dat = Buf (bytes_of_dbls [x]) \<Longrightarrow> dats s d = Some dat \<Longrightarrow> load_elems (double_elem N) (Some d) 1 s = Some [x]"
  by (simp add: load_elems_def load_bytes_def double_elem_def bytes_of_dbls_def le_word_u64)

lemma ramp_ex_ready: "ramp_ready (double_elem N) ''double'' ut_ref {5, 6} 4 1 [0] [Dbl 0x3FF0000000000000] [6] (dbl_node ramp_ex)"
proof -
  have "load_elems (double_elem N) (Some 21) 1 (dbl_node ramp_ex) = Some [Dbl 0x3FF0000000000000]"
    by (rule load_elem_ex, simp_all add: dbl_node_def local_data_def)
  then show ?thesis
    by (simp add: ramp_ready_def) (simp add: dbl_node_def get_priv_def out_conn_def wire_def ramp_ex_def)
qed

lemma dbl_is_ex: "dbl_is 0 0" "dbl_is (Dbl 0x3FF0000000000000) 1"
  by (simp_all add: dbl_is_def zero_dbl_def dbl_fin_def dbl_expo_def dbl_mag_def dbl_sig_def dbl_neg_def dbl_man_def dbl_e_def)

section \<open>Properties\<close>

text \<open>C18: a connected \<open>double\<close> ramp, stepped any number of times, whatever its interaction blocks do within their contract: step \<open>j\<close> writes
  exactly one sample to every active interaction block of \<open>out\<close>, whose elements are exactly \<open>start + j * slope\<close>, as long as
  these are integers below \<open>2 ^ 53\<close>; nothing is accumulated but the additions, which are exact.\<close>

theorem ramp_writes_exact:
  fixes s :: "('w, dbl) ramp_node"
  assumes "block_io H own iok fit rd wr" "iok s" "ramp_ready (double_elem N) ''double'' U own b t cur slope outs s"
    and fit: "\<forall>xs. length xs = length cur \<longrightarrow> fit (sample_of (double_elem N) t xs)"
    and ints: "\<forall>i < length cur. dbl_is (cur ! i) (a i) \<and> dbl_is (slope ! i) (d i) \<and> (\<forall>j \<le> k. \<bar>a i + int j * d i\<bar> < 2 ^ 53)"
  shows "\<exists>s' samples. ramp_steps (double_elem N) ''double'' U H b k s = Some s' \<and> iok s' \<and> length samples = k \<and>
      (\<forall>j < k. length (samples ! j) = length cur \<and> (\<forall>i < length cur. dbl_is (samples ! j ! i) (a i + int j * d i))) \<and>
      fst (world s') = fold (\<lambda>xs w. fold (\<lambda>ib. wr ib (sample_of (double_elem N) t xs)) (active s outs) w) samples (fst (world s))"
proof -
  from assms(3) have len: "length slope = length cur" by (auto simp: ramp_ready_def load_elems_def split: if_splits)
  define vals where "vals = (\<lambda>j. map2 (\<lambda>c m. dbl_ramp N c m j) cur slope)"
  note v = double_ramp_vals [OF len vals_def]
  have "\<forall>j < k. fit (sample_of (double_elem N) t (vals j))" using fit len by (simp add: vals_def)
  with ramp_steps_ok [OF assms(1,2), of "double_elem N" "''double''" U b t vals slope outs k] assms(3) v obtain s' where
    "ramp_steps (double_elem N) ''double'' U H b k s = Some s'" "iok s'"
    "fst (world s') = fold (\<lambda>xs w. fold (\<lambda>ib. wr ib (sample_of (double_elem N) t xs)) (active s outs) w) (map vals [0..<k]) (fst (world s))"
    by auto
  moreover have "dbl_is (map vals [0..<k] ! j ! i) (a i + int j * d i)" if "j < k" "i < length cur" for i j
    using ints that len dbl_ramp_is [of "cur ! i" "a i" "slope ! i" "d i" k j N] by (simp add: vals_def)
  moreover have "length (map vals [0..<k] ! j) = length cur" if "j < k" for j using that len by (simp add: vals_def)
  ultimately show ?thesis by (intro exI [of _ s'] exI [of _ "map vals [0..<k]"]) simp
qed

theorem ramp_writes_exact_witness:
  "\<exists>s' samples. ramp_steps (double_elem (\<lambda>x y. x)) ''double'' ut_ref (lift_hooks (cyclic_hooks ut_ref ring_ref no_hooks)) 4 3 (dbl_node ramp_ex) = Some s' \<and>
     length samples = 3 \<and> dbl_is (samples ! 2 ! 0) 2 \<and>
     fst (world s') = fold (\<lambda>xs. cyc_wr ring_ref 8 6 (sample_of (double_elem (\<lambda>x y. x)) 1 xs)) samples (fst (world (dbl_node ramp_ex)))"
proof -
  have "fits 1 8 1 (sample_of (double_elem N) 1 xs)" if "length xs = length [0 :: dbl]" for N xs
    using that double_el.length_bytes_of [of N xs] by (simp add: fits_def sample_of_def local_data_def) (simp add: double_elem_def)
  with ramp_writes_exact [OF cycblk.block_io_axioms dbl_node_cyc ramp_ex_ready, of "\<lambda>x y. x" "\<lambda>_. 0" "\<lambda>_. 1" 3 no_hooks]
  obtain s' samples where r:
    "ramp_steps (double_elem (\<lambda>x y. x)) ''double'' ut_ref (lift_hooks (cyclic_hooks ut_ref ring_ref no_hooks)) 4 3 (dbl_node ramp_ex) = Some s'"
    "length samples = 3" "\<forall>j < 3. dbl_is (samples ! j ! 0) (int j)"
    "fst (world s') = fold (\<lambda>xs w. fold (\<lambda>ib. cyc_wr ring_ref 8 ib (sample_of (double_elem (\<lambda>x y. x)) 1 xs)) (active (dbl_node ramp_ex) [6]) w)
       samples (fst (world (dbl_node ramp_ex)))"
    using dbl_is_ex by auto
  from r(3) have "dbl_is (samples ! 2 ! 0) (int 2)" by (rule allE [of _ 2]) simp
  with r show ?thesis by (intro exI [of _ s'] exI [of _ samples]) (simp add: dbl_node_active)
qed

end
