(* ===== verification/Ubx_Pid.thy ===== *)
theory Ubx_Pid
  imports Ubx_Elem
begin

text \<open>
  The PID controller, \<^verbatim>\<open>std_blocks/pid/pid.c\<close> and \<^verbatim>\<open>pid.h\<close>: the hooks, the control law as a function on
  lists of doubles, and its closed form. A loop of the source that computes two arrays at once is two passes here; the arrays are
  disjoint.
\<close>

section \<open>The block\<close>

text \<open>\<open>struct pid_info\<close>, with the port cache. The gains point to config values, or are NULL when these are unset.\<close>

record pid_info =
  pd_data_len :: int
  pd_out :: "dbl arr"
  pd_msr :: "dbl arr"
  pd_des :: "dbl arr"
  pd_err :: "dbl arr"
  pd_err_prev :: "dbl arr"
  pd_integ :: "dbl arr"
  pd_deriv :: "dbl arr"
  pd_has_err_prev :: int
  pd_kp :: ptr
  pd_ki :: ptr
  pd_kd :: ptr
  pd_pmsr :: ptr
  pd_pdes :: ptr
  pd_pout :: ptr

type_synonym 'w pid_node = "('w, pid_info) blk_world ubx"

definition pid_zero :: pid_info where
  "pid_zero = \<lparr>pd_data_len = 0, pd_out = Null, pd_msr = Null, pd_des = Null, pd_err = Null, pd_err_prev = Null, pd_integ = Null,
     pd_deriv = Null, pd_has_err_prev = 0, pd_kp = None, pd_ki = None, pd_kd = None, pd_pmsr = None, pd_pdes = None, pd_pout = None\<rparr>"

definition pid_update_port_cache :: "addr \<Rightarrow> pid_info \<Rightarrow> 'w pid_node \<Rightarrow> pid_info option" where
  "pid_update_port_cache b bi s = do {
     m \<leftarrow> ubx_port_get (Some b) (Some ''msr'') s;
     d \<leftarrow> ubx_port_get (Some b) (Some ''des'') s;
     p \<leftarrow> ubx_port_get (Some b) (Some ''out'') s;
     Some (bi\<lparr>pd_pmsr := m, pd_pdes := d, pd_pout := p\<rparr>) }"

text \<open>Releasing all buffers: \<open>out_err\<close> of the init function, and \<open>pid_cleanup\<close>.\<close>

definition pid_free :: "pid_info \<Rightarrow> pid_info option" where
  "pid_free bi = do {
     a \<leftarrow> arr_free (pd_out bi); let bi = bi\<lparr>pd_out := a\<rparr>;
     a \<leftarrow> arr_free (pd_msr bi); let bi = bi\<lparr>pd_msr := a\<rparr>;
     a \<leftarrow> arr_free (pd_des bi); let bi = bi\<lparr>pd_des := a\<rparr>;
     a \<leftarrow> arr_free (pd_err bi); let bi = bi\<lparr>pd_err := a\<rparr>;
     a \<leftarrow> arr_free (pd_err_prev bi); let bi = bi\<lparr>pd_err_prev := a\<rparr>;
     a \<leftarrow> arr_free (pd_integ bi); let bi = bi\<lparr>pd_integ := a\<rparr>;
     a \<leftarrow> arr_free (pd_deriv bi); let bi = bi\<lparr>pd_deriv := a\<rparr>;
     Some bi }"

definition pid_calloc :: "int \<Rightarrow> 'w ubx \<Rightarrow> dbl arr \<times> 'w ubx" where
  "pid_calloc n s = (case calloc_dbls n s of (Some xs, s) \<Rightarrow> (Arr xs, s) | (None, s) \<Rightarrow> (Null, s))"

definition pid_buffers :: "addr \<Rightarrow> pid_info \<Rightarrow> 'w pid_node \<Rightarrow> (int \<times> 'w pid_node) option" where
  "pid_buffers b bi s = do {
     blk \<leftarrow> blks s b;
     let n = pd_data_len bi;
     let (out, s) = pid_calloc n s;
     let (msr, s) = pid_calloc n s;
     let (des, s) = pid_calloc n s;
     let (err, s) = pid_calloc n s;
     let (err_prev, s) = pid_calloc n s;
     let (integ, s) = pid_calloc n s;
     let (deriv, s) = pid_calloc n s;
     let bi = bi\<lparr>pd_out := out, pd_msr := msr, pd_des := des, pd_err := err, pd_err_prev := err_prev, pd_integ := integ, pd_deriv := deriv\<rparr>;
     if Null \<in> set [out, msr, des, err, err_prev, integ, deriv]
     then do { _ \<leftarrow> ubx_block_log blk s; bi \<leftarrow> pid_free bi; Some (- 1, set_priv b (Some bi) s) }
     else Some (0, set_priv b (Some bi) s) }"

text \<open>A gain: the pointer to its value, when the length is right.\<close>

definition pid_gain :: "ut_lib \<Rightarrow> addr \<Rightarrow> string \<Rightarrow> int \<Rightarrow> 'w pid_node \<Rightarrow> (bool \<times> ptr \<times> 'w pid_node) option" where
  "pid_gain U b name n s = do {
     (len, p, s) \<leftarrow> getptr U ''double'' ''double'' b name s;
     if len < 0 then Some (False, p, s)
     else if len > 0 \<and> len \<noteq> n then do { blk \<leftarrow> blks s b; _ \<leftarrow> ubx_block_log blk s; Some (False, p, s) }
     else Some (True, p, s) }"

definition pid_gains :: "ut_lib \<Rightarrow> addr \<Rightarrow> pid_info \<Rightarrow> 'w pid_node \<Rightarrow> (int \<times> 'w pid_node) option" where
  "pid_gains U b bi s = do {
     (ok, p, s) \<leftarrow> pid_gain U b ''Kp'' (pd_data_len bi) s;
     let bi = bi\<lparr>pd_kp := p\<rparr>;
     if \<not> ok then Some (- 1, set_priv b (Some bi) s)
     else do {
       (ok, p, s) \<leftarrow> pid_gain U b ''Ki'' (pd_data_len bi) s;
       let bi = bi\<lparr>pd_ki := p\<rparr>;
       if \<not> ok then Some (- 1, set_priv b (Some bi) s)
       else do {
         (ok, p, s) \<leftarrow> pid_gain U b ''Kd'' (pd_data_len bi) s;
         let bi = bi\<lparr>pd_kd := p\<rparr>;
         if \<not> ok then Some (- 1, set_priv b (Some bi) s) else pid_buffers b bi s } } }"

definition pid_init :: "ut_lib \<Rightarrow> addr \<Rightarrow> 'w pid_node \<Rightarrow> (int \<times> 'w pid_node) option" where
  "pid_init U b s = do {
     blk \<leftarrow> blks s b;
     let (ok, s) = mem_alloc s;
     if \<not> ok then do { _ \<leftarrow> ubx_block_log blk s; Some (EOUTOFMEM, s) }
     else do {
       bi \<leftarrow> pid_update_port_cache b pid_zero s;
       r \<leftarrow> getptr U ''long'' ''long'' b ''data_len'' s;
       if fst r < 0 then Some (- 1, set_priv b (Some bi) (snd (snd r)))
       else do {
         (data_len, s) \<leftarrow> cfg_or load_long 1 r;
         let bi = bi\<lparr>pd_data_len := data_len\<rparr>;
         m \<leftarrow> pd_pmsr bi;
         (r, s) \<leftarrow> ubx_inport_resize m data_len s;
         if r \<noteq> 0 then Some (- 1, set_priv b (Some bi) s)
         else do {
           d \<leftarrow> pd_pdes bi;
           (r, s) \<leftarrow> ubx_inport_resize d data_len s;
           if r \<noteq> 0 then Some (- 1, set_priv b (Some bi) s)
           else do {
             p \<leftarrow> pd_pout bi;
             (r, s) \<leftarrow> ubx_outport_resize p data_len s;
             if r \<noteq> 0 then Some (- 1, set_priv b (Some bi) s) else pid_gains U b bi s } } } } }"

definition pid_cleanup :: "addr \<Rightarrow> 'w pid_node \<Rightarrow> 'w pid_node option" where
  "pid_cleanup b s = do { bi \<leftarrow> get_priv b s; _ \<leftarrow> pid_free bi; Some (set_priv b None s) }"

text \<open>\<open>for (i = 0; i < n; i++) dst[i] = f(a[i], b[i])\<close>, where \<open>i\<close> is an \<open>int\<close>.\<close>

definition vec_loop :: "int \<Rightarrow> (dbl \<Rightarrow> dbl \<Rightarrow> dbl) \<Rightarrow> dbl list \<Rightarrow> dbl list \<Rightarrow> dbl list \<Rightarrow> dbl list option" where
  "vec_loop n f dst a b =
     (if n > 2147483647 \<or> int (length dst) < n \<or> int (length a) < n \<or> int (length b) < n then None
      else Some (map2 f (take (nat n) a) (take (nat n) b) @ drop (nat n) dst))"

definition pid_compute :: "nan_rule \<Rightarrow> pid_info \<Rightarrow> 'w ubx \<Rightarrow> pid_info option" where
  "pid_compute N bi s = do {
     let n = pd_data_len bi;
     msr \<leftarrow> arr_get (pd_msr bi); des \<leftarrow> arr_get (pd_des bi);
     out \<leftarrow> arr_get (pd_out bi); err \<leftarrow> arr_get (pd_err bi);
     out \<leftarrow> vec_loop n (\<lambda>_ _. 0) out des msr;
     err \<leftarrow> vec_loop n (dbl_sub N) err des msr;
     out \<leftarrow> (if pd_kp bi = None then Some out
       else do { kp \<leftarrow> load_dbls (pd_kp bi) n s; vec_loop n (dbl_mul N) out kp err });
     integ \<leftarrow> arr_get (pd_integ bi);
     (integ, out) \<leftarrow> (if pd_ki bi = None then Some (integ, out)
       else do {
         ki \<leftarrow> load_dbls (pd_ki bi) n s;
         integ \<leftarrow> vec_loop n (dbl_add N) integ integ err;
         q \<leftarrow> vec_loop n (dbl_mul N) integ ki integ;
         out \<leftarrow> vec_loop n (dbl_add N) out out q;
         Some (integ, out) });
     prev \<leftarrow> arr_get (pd_err_prev bi); deriv \<leftarrow> arr_get (pd_deriv bi);
     (deriv, out) \<leftarrow> (if pd_kd bi = None \<or> pd_has_err_prev bi = 0 then Some (deriv, out)
       else do {
         kd \<leftarrow> load_dbls (pd_kd bi) n s;
         deriv \<leftarrow> vec_loop n (dbl_sub N) deriv err prev;
         q \<leftarrow> vec_loop n (dbl_mul N) deriv kd deriv;
         out \<leftarrow> vec_loop n (dbl_add N) out out q;
         Some (deriv, out) });
     Some (bi\<lparr>pd_out := Arr out, pd_err := Arr err, pd_integ := Arr integ, pd_deriv := Arr deriv\<rparr>) }"

text \<open>After the output was written the two error buffers are swapped.\<close>

definition pid_step :: "nan_rule \<Rightarrow> ut_lib \<Rightarrow> ('w, pid_info) blk_world hooks \<Rightarrow> addr \<Rightarrow> 'w pid_node \<Rightarrow> 'w pid_node option" where
  "pid_step N U H b s = do {
     bi \<leftarrow> get_priv b s;
     msr \<leftarrow> arr_get (pd_msr bi);
     (len_msr, bs, s) \<leftarrow> read_array U H ''read_double'' ''double'' (pd_pmsr bi) (bytes_of_dbls msr) (pd_data_len bi) s;
     let bi = bi\<lparr>pd_msr := Arr (dbls_of (length msr) bs)\<rparr>;
     let s = set_priv b (Some bi) s;
     des \<leftarrow> arr_get (pd_des bi);
     (len_des, bs, s) \<leftarrow> read_array U H ''read_double'' ''double'' (pd_pdes bi) (bytes_of_dbls des) (pd_data_len bi) s;
     let bi = bi\<lparr>pd_des := Arr (dbls_of (length des) bs)\<rparr>;
     let s = set_priv b (Some bi) s;
     blk \<leftarrow> blks s b;
     if len_msr < 0 \<or> len_des < 0 then do { _ \<leftarrow> ubx_block_log blk s; Some s }
     else if len_msr = 0 then do { _ \<leftarrow> ubx_block_log blk s; Some s }
     else if len_des = 0 then do { _ \<leftarrow> ubx_block_log blk s; Some s }
     else if len_msr \<noteq> pd_data_len bi then do { _ \<leftarrow> ubx_block_log blk s; Some s }
     else if len_des \<noteq> pd_data_len bi then do { _ \<leftarrow> ubx_block_log blk s; Some s }
     else do {
       bi \<leftarrow> pid_compute N bi s;
       out \<leftarrow> arr_get (pd_out bi);
       (r, s) \<leftarrow> write_array U H ''write_double'' ''double'' (pd_pout bi) (bytes_of_dbls out) (pd_data_len bi) (set_priv b (Some bi) s);
       Some (set_priv b (Some (bi\<lparr>pd_err := pd_err_prev bi, pd_err_prev := pd_err bi, pd_has_err_prev := 1\<rparr>)) s) } }"

section \<open>The control law\<close>

text \<open>Gains that are \<open>None\<close> are unset; \<open>prev\<close> is the error of the previous step, if there was one. The result is the output, the
  integral and the error.\<close>

definition pid_law ::
  "nan_rule \<Rightarrow> dbl list option \<times> dbl list option \<times> dbl list option \<Rightarrow> dbl list \<Rightarrow> dbl list option \<Rightarrow> dbl list \<Rightarrow> dbl list \<Rightarrow>
     dbl list \<times> dbl list \<times> dbl list" where
  "pid_law N g integ prev msr des =
     (case g of (kp, ki, kd) \<Rightarrow>
        let err = map2 (dbl_sub N) des msr;
            integ' = (case ki of None \<Rightarrow> integ | Some k \<Rightarrow> map2 (dbl_add N) integ err);
            out = (case kp of None \<Rightarrow> replicate (length err) 0 | Some k \<Rightarrow> map2 (dbl_mul N) k err);
            out = (case ki of None \<Rightarrow> out | Some k \<Rightarrow> map2 (dbl_add N) out (map2 (dbl_mul N) k integ'));
            out = (case (kd, prev) of (Some k, Some p) \<Rightarrow> map2 (dbl_add N) out (map2 (dbl_mul N) k (map2 (dbl_sub N) err p)) | _ \<Rightarrow> out)
        in (out, integ', err))"

lemma vec_loop_full:
  "length dst = n \<Longrightarrow> length a = n \<Longrightarrow> length b = n \<Longrightarrow> n \<le> 2147483647 \<Longrightarrow> vec_loop (int n) f dst a b = Some (map2 f a b)"
  by (simp add: vec_loop_def)

text \<open>The private data of a running controller of \<open>n\<close> channels.\<close>

definition pid_arrays :: "nat \<Rightarrow> dbl list \<Rightarrow> dbl list option \<Rightarrow> pid_info \<Rightarrow> bool" where
  "pid_arrays n integ prev bi \<longleftrightarrow> (\<exists>out msr des err p deriv. pd_out bi = Arr out \<and> pd_msr bi = Arr msr \<and> pd_des bi = Arr des \<and>
     pd_err bi = Arr err \<and> pd_err_prev bi = Arr p \<and> pd_integ bi = Arr integ \<and> pd_deriv bi = Arr deriv \<and>
     length out = n \<and> length msr = n \<and> length des = n \<and> length err = n \<and> length p = n \<and> length integ = n \<and> length deriv = n \<and>
     (case prev of None \<Rightarrow> pd_has_err_prev bi = 0 | Some q \<Rightarrow> pd_has_err_prev bi \<noteq> 0 \<and> p = q))"

lemma length_pid_law:
  assumes "pid_law N (kp, ki, kd) integ prev msr des = (out, integ', err)" "length msr = n" "length des = n" "length integ = n"
    "\<forall>k. kp = Some k \<longrightarrow> length k = n" "\<forall>k. ki = Some k \<longrightarrow> length k = n" "\<forall>k. kd = Some k \<longrightarrow> length k = n"
    "\<forall>k. prev = Some k \<longrightarrow> length k = n"
  shows "length out = n" "length integ' = n" "length err = n"
  by (cases kp; cases ki; cases kd; cases prev; insert assms; clarsimp simp: pid_law_def Let_def)+

lemma pid_compute_law:
  assumes arr: "pid_arrays n integ prev bi" and n: "pd_data_len bi = int n" "n \<le> 2147483647"
    and io: "pd_msr bi = Arr msr" "pd_des bi = Arr des"
    and g: "gain_is (pd_kp bi) n s kp" "gain_is (pd_ki bi) n s ki" "gain_is (pd_kd bi) n s kd"
    and law: "pid_law N (kp, ki, kd) integ prev msr des = (out, integ', err)"
  shows "\<exists>deriv. pid_compute N bi s = Some (bi\<lparr>pd_out := Arr out, pd_err := Arr err, pd_integ := Arr integ', pd_deriv := Arr deriv\<rparr>) \<and> length deriv = n"
proof -
  from arr io obtain out0 err0 p deriv where a: "pd_out bi = Arr out0" "pd_err bi = Arr err0" "pd_err_prev bi = Arr p"
      "pd_integ bi = Arr integ" "pd_deriv bi = Arr deriv" "length out0 = n" "length msr = n" "length des = n" "length err0 = n" "length p = n"
      "length integ = n" "length deriv = n" "case prev of None \<Rightarrow> pd_has_err_prev bi = 0 | Some q \<Rightarrow> pd_has_err_prev bi \<noteq> 0 \<and> p = q"
    unfolding pid_arrays_def by auto
  have z: "map2 (\<lambda>_ _. 0) des msr = replicate n (0 :: dbl)" using a(7,8) by (intro nth_equalityI) simp_all
  have lg: "length k = n" if "kp = Some k \<or> ki = Some k \<or> kd = Some k" for k using that g gain_length by blast
  show ?thesis
    by (rule exI [of _ "case (kd, prev) of (Some k, Some p) \<Rightarrow> map2 (dbl_sub N) err p | _ \<Rightarrow> deriv"],
        cases kp; cases ki; cases kd; cases prev; insert law a g lg n(2);
        clarsimp simp: pid_compute_def n(1) io vec_loop_full pid_law_def Let_def gain_is_def z)
qed

section \<open>A step\<close>

text \<open>A running controller, connected.\<close>

definition pid_ready ::
  "ut_lib \<Rightarrow> addr set \<Rightarrow> addr \<Rightarrow> addr \<Rightarrow> dbl list option \<times> dbl list option \<times> dbl list option \<Rightarrow> addr list \<times> addr list \<times> addr list \<Rightarrow>
     nat \<Rightarrow> dbl list \<Rightarrow> dbl list option \<Rightarrow> 'w pid_node \<Rightarrow> bool" where
  "pid_ready U own b t g c n integ prev s \<longleftrightarrow> (case (g, c) of ((kp, ki, kd), (msrs, dess, outs)) \<Rightarrow>
     0 < n \<and> n \<le> 2147483647 \<and> blks s b \<noteq> None \<and> ut_find U (nd_types s) ''double'' = Some t \<and>
     (\<exists>bi. get_priv b s = Some bi \<and> pid_arrays n integ prev bi \<and> pd_data_len bi = int n \<and>
       gain_is (pd_kp bi) n s kp \<and> gain_is (pd_ki bi) n s ki \<and> gain_is (pd_kd bi) n s kd \<and>
       in_conn own t (int n) (pd_pmsr bi) msrs s \<and> in_conn own t (int n) (pd_pdes bi) dess s \<and> out_conn own t (int n) (pd_pout bi) outs s))"

lemma pid_arrays_msr: "pid_arrays n integ prev bi \<Longrightarrow> length xs = n \<Longrightarrow> pid_arrays n integ prev (bi\<lparr>pd_msr := Arr xs\<rparr>)"
  by (auto simp: pid_arrays_def split: option.splits)

lemma pid_arrays_des: "pid_arrays n integ prev bi \<Longrightarrow> length xs = n \<Longrightarrow> pid_arrays n integ prev (bi\<lparr>pd_des := Arr xs\<rparr>)"
  by (auto simp: pid_arrays_def split: option.splits)

lemma pid_step_ok:
  fixes s :: "'w pid_node"
  assumes io: "block_io H own iok fit rd wr" and iok: "iok s"
    and rdy: "pid_ready U own b t (kp, ki, kd) (msrs, dess, outs) n integ prev s"
    and fit: "\<forall>bs. length bs = 8 * n \<longrightarrow> fit (local_data (Some t) (int n) bs)"
    and len: "length msr = n" "length des = n"
    and del: "delivers rd t (active s msrs) (fst (world s)) msr w1" "delivers rd t (active s dess) w1 des w2"
    and law: "pid_law N (kp, ki, kd) integ prev msr des = (out, integ', err)"
  shows "\<exists>s'. pid_step N U H b s = Some s' \<and> iok s' \<and> pid_ready U own b t (kp, ki, kd) (msrs, dess, outs) n integ' (Some err) s' \<and>
    (\<forall>A. active s' A = active s A) \<and> fst (world s') = fold (\<lambda>ib. wr ib (dbl_sample t out)) (active s outs) w2"
proof -
  from rdy obtain bi where R: "0 < n" "n \<le> 2147483647" "blks s b \<noteq> None" "ut_find U (nd_types s) ''double'' = Some t"
      "get_priv b s = Some bi" "pid_arrays n integ prev bi" "pd_data_len bi = int n"
      "gain_is (pd_kp bi) n s kp" "gain_is (pd_ki bi) n s ki" "gain_is (pd_kd bi) n s kd"
      "in_conn own t (int n) (pd_pmsr bi) msrs s" "in_conn own t (int n) (pd_pdes bi) dess s" "out_conn own t (int n) (pd_pout bi) outs s"
    unfolding pid_ready_def by auto
  from R(6) obtain m0 d0 where a0: "pd_msr bi = Arr m0" "length m0 = n" "pd_des bi = Arr d0" "length d0 = n" unfolding pid_arrays_def by blast
  from block_io.read_delivered [OF io iok R(11,4) a0(2) R(1) fit del(1) len(1)] obtain s1 where
    s1: "read_array U H ''read_double'' ''double'' (pd_pmsr bi) (bytes_of_dbls m0) (int n) s = Some (int n, bytes_of_dbls msr, s1)"
      "stat_frame s s1" "dats s1 = dats s" "iok s1" "world s1 = (w1, snd (world s))" by blast
  let ?b1 = "bi\<lparr>pd_msr := Arr msr\<rparr>" and ?s1 = "set_priv b (Some (bi\<lparr>pd_msr := Arr msr\<rparr>)) s1"
  have c1: "in_conn own t (int n) (pd_pdes bi) dess ?s1" "ut_find U (nd_types ?s1) ''double'' = Some t" "active ?s1 A = active s A" for A
    using R(4,12) conn_frame(1) [OF s1(2)] active_frame [OF s1(2)] s1(2) by (simp_all add: in_conn_def stat_frame_def)
  from del(2) have d2: "delivers rd t (active ?s1 dess) (fst (world ?s1)) des w2" by (simp only: c1(3)) (simp add: s1(5))
  from block_io.read_delivered [OF io block_io.iok_priv [OF io s1(4)] c1(1,2) a0(4) R(1) fit d2 len(2)] obtain s2 where
    s2: "read_array U H ''read_double'' ''double'' (pd_pdes bi) (bytes_of_dbls d0) (int n) ?s1 = Some (int n, bytes_of_dbls des, s2)"
      "stat_frame ?s1 s2" "dats s2 = dats ?s1" "iok s2" "world s2 = (w2, snd (world ?s1))" by blast
  let ?b2 = "bi\<lparr>pd_msr := Arr msr, pd_des := Arr des\<rparr>" and ?s2 = "set_priv b (Some (bi\<lparr>pd_msr := Arr msr, pd_des := Arr des\<rparr>)) s2"
  have fr2: "stat_frame s ?s2" using stat_frame_trans [OF s1(2), of s2] s2(2) by simp
  have dt2: "dats ?s2 = dats s" using s1(3) s2(3) by simp
  have "pid_arrays n integ prev ?b2" using pid_arrays_des [OF pid_arrays_msr [OF R(6) len(1)] len(2)] by simp
  then obtain deriv where
    comp: "pid_compute N ?b2 ?s2 = Some (?b2\<lparr>pd_out := Arr out, pd_err := Arr err, pd_integ := Arr integ', pd_deriv := Arr deriv\<rparr>)" "length deriv = n"
    using pid_compute_law [of n integ prev ?b2 msr des ?s2 kp ki kd N out integ' err] R(2,7-10) law gain_dats [OF dt2] by auto
  let ?b3 = "?b2\<lparr>pd_out := Arr out, pd_err := Arr err, pd_integ := Arr integ', pd_deriv := Arr deriv\<rparr>"
  let ?s3 = "set_priv b (Some ?b3) ?s2"
  have lo: "length out = n" "length integ' = n" "length err = n"
  proof -
    have "\<forall>k. prev = Some k \<longrightarrow> length k = n" "length integ = n" using R(6) unfolding pid_arrays_def by auto
    then show "length out = n" "length integ' = n" "length err = n"
      using length_pid_law [OF law len] R(8-10) gain_length by (metis (no_types))+
  qed
  have c3: "out_conn own t (int n) (pd_pout bi) outs ?s3" "ut_find U (nd_types ?s3) ''double'' = Some t" "active ?s3 A = active s A" for A
    using R(4,13) conn_frame(2) [OF fr2] active_frame [OF fr2] fr2 by (simp_all add: out_conn_def stat_frame_def)
  have i3: "iok ?s3" by (intro block_io.iok_priv [OF io] s2(4))
  from block_io.write_sample [OF io i3 c3(1,2) lo(1) fit] obtain s4 where
    s4: "write_array U H ''write_double'' ''double'' (pd_pout bi) (bytes_of_dbls out) (int n) ?s3 = Some (0, s4)" "stat_frame ?s3 s4"
      "dats s4 = dats ?s3" "iok s4" "world s4 = (fold (\<lambda>ib. wr ib (dbl_sample t out)) (active ?s3 outs) (fst (world ?s3)), snd (world ?s3))"
    by blast
  let ?b4 = "?b3\<lparr>pd_err := pd_err_prev ?b3, pd_err_prev := pd_err ?b3, pd_has_err_prev := 1\<rparr>"
  let ?s4 = "set_priv b (Some ?b4) s4"
  obtain blk where blk: "blks s2 b = Some blk" using frame_live [OF fr2 R(3)] by auto
  have step: "pid_step N U H b s = Some ?s4"
    using R(1,5,7) a0 s1(1) s2(1) comp s4(1) blk dbls_of_bytes [of msr] dbls_of_bytes [of des] len
    by (simp add: pid_step_def Let_def)
  have fr4: "stat_frame s ?s4" using stat_frame_trans [OF fr2, of s4] s4(2) by simp
  have dt4: "dats ?s4 = dats s" using s4(3) dt2 by simp
  have "pid_arrays n integ' (Some err) ?b4" using R(6) comp(2) lo len unfolding pid_arrays_def by auto
  then have "pid_ready U own b t (kp, ki, kd) (msrs, dess, outs) n integ' (Some err) ?s4"
    using R(1,2,4,7-13) frame_live [OF fr4 R(3)] fr4 gain_dats [OF dt4] conn_frame [OF fr4]
    by (auto simp: pid_ready_def stat_frame_def)
  with step block_io.iok_priv [OF io s4(4)] s4(5) c3(3) s2(5) s1(5) active_frame [OF fr4] show ?thesis
    by (intro exI [of _ ?s4]) simp
qed

section \<open>The closed form\<close>

text \<open>What the gains are when they are integers; an unset gain counts as \<open>0\<close>.\<close>

definition gain_ints :: "nat \<Rightarrow> dbl list option \<Rightarrow> (nat \<Rightarrow> int) \<Rightarrow> bool" where
  "gain_ints n g k \<longleftrightarrow> (case g of None \<Rightarrow> \<forall>i < n. k i = 0 | Some xs \<Rightarrow> length xs = n \<and> (\<forall>i < n. dbl_is (xs ! i) (k i)))"

text \<open>The state of a controller after the errors \<open>es\<close>, the oldest first, each a function of the channel.\<close>

definition err_sum :: "(nat \<Rightarrow> int) list \<Rightarrow> nat \<Rightarrow> int" where
  "err_sum es i = sum_list (map (\<lambda>e. e i) es)"

definition pid_after :: "nat \<Rightarrow> dbl list option \<Rightarrow> (nat \<Rightarrow> int) list \<Rightarrow> dbl list \<Rightarrow> dbl list option \<Rightarrow> bool" where
  "pid_after n ki es integ prev \<longleftrightarrow> length integ = n \<and> (ki \<noteq> None \<longrightarrow> (\<forall>i < n. dbl_is (integ ! i) (err_sum es i))) \<and>
     (case prev of None \<Rightarrow> es = [] | Some p \<Rightarrow> es \<noteq> [] \<and> length p = n \<and> (\<forall>i < n. dbl_is (p ! i) (last es i)))"

text \<open>The textbook law for one channel, and that none of its terms is too large to be exact.\<close>

definition err_diff :: "(nat \<Rightarrow> int) list \<Rightarrow> (nat \<Rightarrow> int) \<Rightarrow> nat \<Rightarrow> int" where
  "err_diff es e i = (if es = [] then 0 else e i - last es i)"

definition pid_out :: "(nat \<Rightarrow> int) \<Rightarrow> (nat \<Rightarrow> int) \<Rightarrow> (nat \<Rightarrow> int) \<Rightarrow> (nat \<Rightarrow> int) list \<Rightarrow> (nat \<Rightarrow> int) \<Rightarrow> nat \<Rightarrow> int" where
  "pid_out kp ki kd es e i = kp i * e i + ki i * (err_sum es i + e i) + kd i * err_diff es e i"

definition pid_small :: "(nat \<Rightarrow> int) \<Rightarrow> (nat \<Rightarrow> int) \<Rightarrow> (nat \<Rightarrow> int) \<Rightarrow> (nat \<Rightarrow> int) list \<Rightarrow> (nat \<Rightarrow> int) \<Rightarrow> nat \<Rightarrow> bool" where
  "pid_small kp ki kd es e i \<longleftrightarrow>
     (\<forall>z \<in> {e i, kp i * e i, err_sum es i + e i, ki i * (err_sum es i + e i), kp i * e i + ki i * (err_sum es i + e i),
            err_diff es e i, kd i * err_diff es e i, pid_out kp ki kd es e i}. \<bar>z\<bar> < 2 ^ 53)"

lemma dbl_is_0 [simp]: "dbl_is 0 0"
  by (simp add: dbl_is_def zero_dbl_def dbl_fin_def dbl_expo_def dbl_mag_def dbl_sig_def dbl_neg_def dbl_man_def dbl_e_def)

lemma pid_law_exact:
  assumes law: "pid_law N (gp, gi, gd) integ prev msr des = (out, integ', err)"
    and g: "gain_ints n gp kp" "gain_ints n gi ki" "gain_ints n gd kd" and aft: "pid_after n gi es integ prev"
    and len: "length msr = n" "length des = n" and m: "\<forall>i < n. dbl_is (msr ! i) (m i)" and d: "\<forall>i < n. dbl_is (des ! i) (d i)"
    and small: "\<forall>i < n. pid_small kp ki kd es (\<lambda>i. d i - m i) i"
  shows "length out = n \<and> (\<forall>i < n. dbl_is (out ! i) (pid_out kp ki kd es (\<lambda>i. d i - m i) i)) \<and>
    pid_after n gi (es @ [\<lambda>i. d i - m i]) integ' (Some err)"
proof -
  let ?e = "\<lambda>i. d i - m i"
  have gl: "\<forall>k. gp = Some k \<longrightarrow> length k = n" "\<forall>k. gi = Some k \<longrightarrow> length k = n" "\<forall>k. gd = Some k \<longrightarrow> length k = n"
      "\<forall>k. prev = Some k \<longrightarrow> length k = n" "length integ = n"
    using g aft by (auto simp: gain_ints_def pid_after_def split: option.splits)
  note L = length_pid_law [OF law len gl(5,1-4)]
  have sm: "\<bar>?e i\<bar> < 2 ^ 53" "\<bar>kp i * ?e i\<bar> < 2 ^ 53" "\<bar>err_sum es i + ?e i\<bar> < 2 ^ 53" "\<bar>ki i * (err_sum es i + ?e i)\<bar> < 2 ^ 53"
      "\<bar>kp i * ?e i + ki i * (err_sum es i + ?e i)\<bar> < 2 ^ 53" "\<bar>err_diff es ?e i\<bar> < 2 ^ 53" "\<bar>kd i * err_diff es ?e i\<bar> < 2 ^ 53"
      "\<bar>pid_out kp ki kd es ?e i\<bar> < 2 ^ 53" if "i < n" for i
    using small that by (simp_all add: pid_small_def)
  have e: "dbl_is (dbl_sub N (des ! i) (msr ! i)) (?e i)" if "i < n" for i
    using dbl_sub_is [of "des ! i" "d i" "msr ! i" "m i"] m d sm(1) that by blast
  have errs: "err ! i = dbl_sub N (des ! i) (msr ! i)" if "i < n" for i
    using law len that by (auto simp: pid_law_def Let_def)
  have ig: "dbl_is (integ' ! i) (err_sum es i + ?e i)" if "i < n" "gi = Some k" for i k
  proof -
    have "integ' ! i = dbl_add N (integ ! i) (err ! i)" using law that len gl(5) by (auto simp: pid_law_def Let_def)
    moreover have "dbl_is (integ ! i) (err_sum es i)" using aft that by (auto simp: pid_after_def)
    ultimately show ?thesis using dbl_add_is [of "integ ! i" "err_sum es i" "err ! i" "?e i" N] e sm(3) errs that by simp
  qed
  have out: "dbl_is (out ! i) (pid_out kp ki kd es ?e i)" if i: "i < n" for i
  proof -
    define o0 where "o0 = (case gp of None \<Rightarrow> 0 | Some k \<Rightarrow> dbl_mul N (k ! i) (err ! i))"
    define o1 where "o1 = (case gi of None \<Rightarrow> o0 | Some k \<Rightarrow> dbl_add N o0 (dbl_mul N (k ! i) (integ' ! i)))"
    have o: "out ! i = (case (gd, prev) of (Some k, Some p) \<Rightarrow> dbl_add N o1 (dbl_mul N (k ! i) (dbl_sub N (err ! i) (p ! i))) | _ \<Rightarrow> o1)"
      by (cases gp; cases gi; cases gd; cases prev; insert law len gl L i; clarsimp simp: pid_law_def Let_def o0_def o1_def)
    have "dbl_is o0 (kp i * ?e i)"
      using g(1) i dbl_mul_is [OF _ e [OF i] sm(2) [OF i]] by (cases gp) (auto simp: o0_def gain_ints_def errs)
    then have o1: "dbl_is o1 (kp i * ?e i + ki i * (err_sum es i + ?e i))"
      using g(2) i dbl_add_is [OF _ dbl_mul_is [OF _ ig [OF i] sm(4) [OF i]] sm(5) [OF i]] by (cases gi) (auto simp: o1_def gain_ints_def)
    show ?thesis
    proof (cases "gd = None \<or> prev = None")
      case True
      with g(3) i aft have "pid_out kp ki kd es ?e i = kp i * ?e i + ki i * (err_sum es i + ?e i)"
        by (auto simp: pid_out_def err_diff_def gain_ints_def pid_after_def)
      with o o1 True show ?thesis by (auto split: option.splits)
    next
      case False
      then obtain k p where kp: "gd = Some k" "prev = Some p" by auto
      then have p: "dbl_is (p ! i) (last es i)" "es \<noteq> []" "dbl_is (k ! i) (kd i)"
        using aft g(3) i by (auto simp: pid_after_def gain_ints_def)
      have "dbl_is (dbl_sub N (err ! i) (p ! i)) (err_diff es ?e i)"
        using dbl_sub_is [OF e [OF i] p(1)] sm(6) [OF i] errs i p(2) by (simp add: err_diff_def)
      from dbl_mul_is [OF p(3) this sm(7) [OF i]] o1 sm(8) [OF i] p(2) o kp show ?thesis
        by (auto simp: pid_out_def intro!: dbl_add_is)
    qed
  qed
  have "pid_after n gi (es @ [?e]) integ' (Some err)"
    using L ig e errs by (auto simp: pid_after_def err_sum_def)
  with L(1) out show ?thesis by blast
qed

text \<open>A proportional controller 4 with gain \<open>1\<close>: queue 5 holds the measured value \<open>3\<close>, queue 6 the desired value \<open>1\<close>, and the output
  goes to queue 6.\<close>

definition pid_ex :: pid_info where
  "pid_ex = \<lparr>pd_data_len = 1, pd_out = Arr [0], pd_msr = Arr [0], pd_des = Arr [0], pd_err = Arr [0], pd_err_prev = Arr [0], pd_integ = Arr [0],
     pd_deriv = Arr [0], pd_has_err_prev = 0, pd_kp = Some 21, pd_ki = None, pd_kd = None, pd_pmsr = Some 10, pd_pdes = Some 13,
     pd_pout = Some 11\<rparr>"

definition pid_node_ex :: "ring cyc_world pid_node" where
  "pid_node_ex = with_world ([5 \<mapsto> dbl_queue [0] (Dbl 0x4008000000000000), 6 \<mapsto> dbl_queue [0] (Dbl 0x3FF0000000000000)], [4 \<mapsto> pid_ex])
     ((dbl_node pid_ex)\<lparr>prts := (prts (dbl_node pid_ex))(13 \<mapsto> wire 4 (Some 1) None (Some [6]) None)\<rparr>)"

lemma pid_node_cyc: "cyc_ok (ring_info_ok 1 8 1) {5, 6} 1 8 1 (io_part pid_node_ex)"
proof -
  have "node_ok (io_part pid_node_ex)"
    by (auto simp: node_ok_def pid_node_ex_def dbl_node_def pipe_node_def fresh_from_def pipe_node_blk wire_def io_part_def split: if_splits)
  moreover have "ci_p_overruns (dbl_queue q x) = 12" for q x by (simp add: dbl_queue_def pipe_info_def)
  ultimately show ?thesis using dbl_queue_ok
    by (simp add: cyc_ok_def pid_node_ex_def dbl_node_def in_long_def LONG_MAX_def mk_type_def read_fun_def write_fun_def pipe_node_blk wire_def)
qed

lemma pid_node_active: "active pid_node_ex [5] = [5]" "active pid_node_ex [6] = [6]"
  by (simp_all add: active_def pid_node_ex_def dbl_node_def pipe_node_blk)

lemma pid_node_ready: "pid_ready ut_ref {5, 6} 4 1 (Some [Dbl 0x3FF0000000000000], None, None) ([5], [6], [6]) 1 [0] None pid_node_ex"
proof -
  have "load_dbls (Some 21) 1 pid_node_ex = Some [Dbl 0x3FF0000000000000]"
    by (rule load_dbl_node, simp_all add: pid_node_ex_def dbl_node_def local_data_def)
  then show ?thesis
    by (simp add: pid_ready_def) (simp add: pid_node_ex_def pid_ex_def dbl_node_def get_priv_def in_conn_def out_conn_def wire_def
      pid_arrays_def gain_is_def)
qed

section \<open>Properties\<close>

text \<open>C17: the PID law. For a connected controller that has processed the errors \<open>es\<close>, whatever its interaction blocks do within
  their contract: if both inputs deliver a sample, the step is defined and writes exactly one sample, which is for each channel
  \<open>Kp * e + Ki * (sum of all errors) + Kd * (e - previous error)\<close>, without the last term in the first step, and with an unset gain
  counting as \<open>0\<close>; afterwards the controller has processed \<open>es\<close> and \<open>e\<close>. The result is exact when all terms are
  integers below \<open>2 ^ 53\<close>.\<close>

theorem pid_step_exact:
  fixes s :: "'w pid_node"
  assumes "block_io H own iok fit rd wr" "iok s" "pid_ready U own b t (gp, gi, gd) (msrs, dess, outs) n integ prev s"
    and "\<forall>bs. length bs = 8 * n \<longrightarrow> fit (local_data (Some t) (int n) bs)"
    and "delivers rd t (active s msrs) (fst (world s)) msr w1" "delivers rd t (active s dess) w1 des w2"
    and "gain_ints n gp kp" "gain_ints n gi ki" "gain_ints n gd kd" "pid_after n gi es integ prev"
    and "length msr = n" "length des = n" "\<forall>i < n. dbl_is (msr ! i) (m i)" "\<forall>i < n. dbl_is (des ! i) (d i)"
    and "\<forall>i < n. pid_small kp ki kd es (\<lambda>i. d i - m i) i"
  shows "\<exists>s' out integ' err. pid_step N U H b s = Some s' \<and> iok s' \<and> length out = n \<and>
      (\<forall>i < n. dbl_is (out ! i) (pid_out kp ki kd es (\<lambda>i. d i - m i) i)) \<and>
      fst (world s') = fold (\<lambda>ib. wr ib (dbl_sample t out)) (active s outs) w2 \<and>
      pid_ready U own b t (gp, gi, gd) (msrs, dess, outs) n integ' (Some err) s' \<and>
      pid_after n gi (es @ [\<lambda>i. d i - m i]) integ' (Some err)"
proof -
  obtain out integ' err where law: "pid_law N (gp, gi, gd) integ prev msr des = (out, integ', err)" by (metis prod_cases3)
  from pid_law_exact [OF law assms(7-15)] pid_step_ok [OF assms(1-4,11,12,5,6) law] show ?thesis by blast
qed

theorem pid_step_exact_witness:
  "\<exists>s' out. pid_step (\<lambda>x y. x) ut_ref (lift_hooks (cyclic_hooks ut_ref ring_ref no_hooks)) 4 pid_node_ex = Some s' \<and>
     length out = 1 \<and> dbl_is (out ! 0) (- 2) \<and>
     fst (world s') = cyc_wr ring_ref 8 6 (dbl_sample 1 out)
       ([5 \<mapsto> dbl_queue [] (Dbl 0x4008000000000000), 6 \<mapsto> dbl_queue [] (Dbl 0x3FF0000000000000)])"
proof -
  let ?x = "Dbl 0x4008000000000000" and ?y = "Dbl 0x3FF0000000000000" and ?w = "fst (world pid_node_ex)"
  have fit: "\<forall>bs. length bs = 8 * 1 \<longrightarrow> fits 1 8 1 (local_data (Some 1) (int 1) bs)" by (simp add: fits_def local_data_def)
  have w: "?w 5 = Some (dbl_queue [0] ?x)" "(?w(5 \<mapsto> dbl_queue [] ?x)) 6 = Some (dbl_queue [0] ?y)" by (simp_all add: pid_node_ex_def)
  have i: "dbl_is ?x 3" "dbl_is ?y 1"
    by (simp_all add: dbl_is_def dbl_fin_def dbl_expo_def dbl_mag_def dbl_sig_def dbl_neg_def dbl_man_def dbl_e_def)
  from pid_step_exact [OF cycblk.block_io_axioms pid_node_cyc pid_node_ready fit, of "[?x]" "?w(5 \<mapsto> dbl_queue [] ?x)" "[?y]"
      "?w(5 \<mapsto> dbl_queue [] ?x, 6 \<mapsto> dbl_queue [] ?y)" "\<lambda>_. 1" "\<lambda>_. 0" "\<lambda>_. 0" "[]" "\<lambda>_. 3" "\<lambda>_. 1" "\<lambda>x y. x" no_hooks]
    cyc_delivers [of ?w 5 ?x 1, OF w(1)] cyc_delivers [of "?w(5 \<mapsto> dbl_queue [] ?x)" 6 ?y 1, OF w(2)] i
  obtain s' out where "pid_step (\<lambda>x y. x) ut_ref (lift_hooks (cyclic_hooks ut_ref ring_ref no_hooks)) 4 pid_node_ex = Some s'"
    "length out = 1" "dbl_is (out ! 0) (- 2)"
    "fst (world s') = fold (\<lambda>ib. cyc_wr ring_ref 8 ib (dbl_sample 1 out)) (active pid_node_ex [6]) (?w(5 \<mapsto> dbl_queue [] ?x, 6 \<mapsto> dbl_queue [] ?y))"
    by (auto simp: pid_node_active gain_ints_def pid_after_def pid_small_def pid_out_def err_sum_def err_diff_def)
  moreover have "?w(5 \<mapsto> dbl_queue [] ?x, 6 \<mapsto> dbl_queue [] ?y) = [5 \<mapsto> dbl_queue [] ?x, 6 \<mapsto> dbl_queue [] ?y]"
    by (auto simp: pid_node_ex_def)
  ultimately show ?thesis by (simp add: pid_node_active) blast
qed

end
