(* ===== verification/Ubx_Math.thy ===== *)
theory Ubx_Math
  imports Ubx_Elem
begin

text \<open>
  The block that applies a function of \<^verbatim>\<open>math.h\<close>, \<^verbatim>\<open>std_blocks/math/math_double.c\<close>. The mathematical
  functions themselves belong to the C library, which does not say how they are rounded: a parameter \<open>libm\<close>, by name.
\<close>

section \<open>The block\<close>

definition MATHFUNC_MAXLEN :: nat where "MATHFUNC_MAXLEN = 16"

text \<open>The names of the table \<open>functions\<close>.\<close>

definition math_functions :: "string list" where
  "math_functions = [''sin'', ''asin'', ''sinh'', ''asinh'', ''cos'', ''acos'', ''cosh'', ''acosh'', ''tan'', ''atan'', ''tanh'', ''atanh'',
     ''cbrt'', ''ceil'', ''erf'', ''erfc'', ''exp'', ''exp2'', ''expm1'', ''fabs'', ''floor'', ''j0'', ''j1'', ''lgamma'',
     ''log'', ''log10'', ''log1p'', ''log2'', ''logb'', ''nearbyint'', ''rint'', ''round'', ''sqrt'', ''tgamma'', ''trunc'', ''y0'', ''y1'']"

text \<open>\<open>strncasecmp\<close> in the C locale, as a test for equality.\<close>

definition to_lower :: "char \<Rightarrow> char" where
  "to_lower c = (let n = of_char c :: nat in if 65 \<le> n \<and> n \<le> 90 then char_of (n + 32) else c)"

definition strncasecmp_eq :: "string \<Rightarrow> string \<Rightarrow> nat \<Rightarrow> bool" where
  "strncasecmp_eq a b n = strncmp_eq (map to_lower a) (map to_lower b) n"

record math_info =
  mt_func :: "string option"
  mt_mul :: ptr
  mt_add :: ptr
  mt_p_x :: ptr
  mt_p_y :: ptr
  mt_data_len :: int

type_synonym 'w math_node = "('w, math_info) blk_world ubx"

fun find_func :: "string \<Rightarrow> string list \<Rightarrow> string option" where
  "find_func func [] = None"
| "find_func func (f # fs) = (if strncasecmp_eq func f MATHFUNC_MAXLEN then Some f else find_func func fs)"

definition parse_func :: "ut_lib \<Rightarrow> addr \<Rightarrow> math_info \<Rightarrow> 'w math_node \<Rightarrow> (int \<times> math_info \<times> 'w math_node) option" where
  "parse_func U b bi s = do {
     (len, p, s) \<leftarrow> getptr U ''char'' ''char'' b ''func'' s;
     if len \<le> 0 then None
     else do {
       func \<leftarrow> load_string p s;
       (case find_func func math_functions of
          Some f \<Rightarrow> Some (0, bi\<lparr>mt_func := Some f\<rparr>, s)
        | None \<Rightarrow> do { blk \<leftarrow> blks s b; _ \<leftarrow> ubx_block_log blk s; Some (- 1, bi, s) }) } }"

text \<open>What \<open>math_init\<close> does after it has looked for the function: \<open>ret\<close> is the result of the search.\<close>

definition math_factors :: "ut_lib \<Rightarrow> addr \<Rightarrow> int \<Rightarrow> math_info \<Rightarrow> 'w math_node \<Rightarrow> (int \<times> 'w math_node) option" where
  "math_factors U b ret bi s = do {
     (len, p, s) \<leftarrow> getptr U ''double'' ''double'' b ''mul'' s;
     let bi = bi\<lparr>mt_mul := p\<rparr>;
     blk \<leftarrow> blks s b;
     if len < 0 then None
     else if len \<noteq> 0 \<and> len \<noteq> mt_data_len bi then do { _ \<leftarrow> ubx_block_log blk s; Some (EINVALID_CONFIG_LEN, set_priv b (Some bi) s) }
     else do {
       (len, p, s) \<leftarrow> getptr U ''double'' ''double'' b ''add'' s;
       let bi = bi\<lparr>mt_add := p\<rparr>;
       if len < 0 then None
       else if len \<noteq> 0 \<and> len \<noteq> mt_data_len bi
       then do { _ \<leftarrow> ubx_block_log blk s; Some (EINVALID_CONFIG_LEN, set_priv b (Some bi) s) }
       else Some (if ret \<noteq> 0 then - 1 else 0, set_priv b (Some bi) s) } }"

definition math_init :: "ut_lib \<Rightarrow> addr \<Rightarrow> 'w math_node \<Rightarrow> (int \<times> 'w math_node) option" where
  "math_init U b s = do {
     blk \<leftarrow> blks s b;
     let (ok, s) = mem_alloc s;
     if \<not> ok then do { _ \<leftarrow> ubx_block_log blk s; Some (EOUTOFMEM, s) }
     else do {
       x \<leftarrow> ubx_port_get (Some b) (Some ''x'') s;
       y \<leftarrow> ubx_port_get (Some b) (Some ''y'') s;
       r \<leftarrow> getptr U ''long'' ''long'' b ''data_len'' s;
       (data_len, s) \<leftarrow> cfg_or load_long 1 r;
       let bi = \<lparr>mt_func = None, mt_mul = None, mt_add = None, mt_p_x = x, mt_p_y = y, mt_data_len = data_len\<rparr>;
       px \<leftarrow> x;
       (r, s) \<leftarrow> ubx_inport_resize px data_len s;
       if r \<noteq> 0 then Some (- 1, set_priv b (Some bi) s)
       else do {
         py \<leftarrow> y;
         (r, s) \<leftarrow> ubx_outport_resize py data_len s;
         if r \<noteq> 0 then Some (- 1, set_priv b (Some bi) s)
         else do {
           (ret, bi, s) \<leftarrow> parse_func U b bi s;
           math_factors U b ret bi s } } } }"

definition math_cleanup :: "addr \<Rightarrow> 'w math_node \<Rightarrow> 'w math_node option" where
  "math_cleanup b s = do { bi \<leftarrow> get_priv b s; Some (set_priv b None s) }"

text \<open>\<open>if (p) for (i = 0; i < n; i++) data[i] = f(data[i], p[i])\<close>\<close>

definition math_apply :: "(dbl \<Rightarrow> dbl \<Rightarrow> dbl) \<Rightarrow> ptr \<Rightarrow> int \<Rightarrow> dbl list \<Rightarrow> 'w ubx \<Rightarrow> dbl list option" where
  "math_apply f p n xs s = (if p = None then Some xs else do { ks \<leftarrow> load_dbls p n s; Some (map2 f xs ks) })"

text \<open>The local array \<open>data\<close> is indeterminate before the read: any contents \<open>stack\<close>; a length that is not positive, or a missing function, is undefined
  behaviour.\<close>

definition math_step ::
  "nan_rule \<Rightarrow> (string \<Rightarrow> dbl \<Rightarrow> dbl) \<Rightarrow> (nat \<Rightarrow> dbl) \<Rightarrow> ut_lib \<Rightarrow> ('w, math_info) blk_world hooks \<Rightarrow> addr \<Rightarrow> 'w math_node \<Rightarrow> 'w math_node option" where
  "math_step N libm stack U H b s = do {
     bi \<leftarrow> get_priv b s;
     let n = mt_data_len bi;
     if n \<le> 0 then None
     else do {
       (len, bs, s) \<leftarrow> read_array U H ''read_double'' ''double'' (mt_p_x bi) (bytes_of_dbls (map stack [0..<nat n])) n s;
       blk \<leftarrow> blks s b;
       if len < 0 then do { _ \<leftarrow> ubx_block_log blk s; Some s }
       else if len = 0 then do { _ \<leftarrow> ubx_block_log blk s; Some s }
       else if len \<noteq> n then do { _ \<leftarrow> ubx_block_log blk s; Some s }
       else do {
         f \<leftarrow> mt_func bi;
         let data = map (libm f) (dbls_of (nat n) bs);
         data \<leftarrow> math_apply (dbl_mul N) (mt_mul bi) n data s;
         data \<leftarrow> math_apply (dbl_add N) (mt_add bi) n data s;
         (r, s) \<leftarrow> write_array U H ''write_double'' ''double'' (mt_p_y bi) (bytes_of_dbls data) n s;
         Some s } } }"

section \<open>What the block computes\<close>

text \<open>The function is found regardless of case, if it is in the table.\<close>

lemma find_func_Some:
  "find_func func fs = Some f \<Longrightarrow> f \<in> set fs \<and> strncasecmp_eq func f MATHFUNC_MAXLEN"
  by (induction fs) (auto split: if_splits)

lemma find_func_None: "find_func func fs = None \<longleftrightarrow> (\<forall>f \<in> set fs. \<not> strncasecmp_eq func f MATHFUNC_MAXLEN)"
  by (induction fs) auto

lemma math_functions_lower: "f \<in> set math_functions \<Longrightarrow> map to_lower f = f \<and> length f \<le> 10"
  by (auto simp: math_functions_def to_lower_def Let_def)

lemma find_func_exact:
  assumes "length func < MATHFUNC_MAXLEN"
  shows "find_func func math_functions = Some f \<longleftrightarrow> f \<in> set math_functions \<and> map to_lower func = f"
proof -
  have eq: "strncasecmp_eq func g MATHFUNC_MAXLEN \<longleftrightarrow> map to_lower func = g" if "g \<in> set math_functions" for g
    using math_functions_lower [OF that] assms by (simp add: strncasecmp_eq_def MATHFUNC_MAXLEN_def strncmp_eq_short)
  show ?thesis
  proof
    assume "find_func func math_functions = Some f"
    with find_func_Some eq show "f \<in> set math_functions \<and> map to_lower func = f" by blast
  next
    assume f: "f \<in> set math_functions \<and> map to_lower func = f"
    with eq find_func_None [of func math_functions] obtain g where "find_func func math_functions = Some g" by fastforce
    with find_func_Some eq f show "find_func func math_functions = Some f" by blast
  qed
qed

text \<open>The samples a block writes: the function, then the optional factors and offsets.\<close>

definition math_law :: "nan_rule \<Rightarrow> (dbl \<Rightarrow> dbl) \<Rightarrow> dbl list option \<Rightarrow> dbl list option \<Rightarrow> dbl list \<Rightarrow> dbl list" where
  "math_law N f mul add xs =
     (let ys = map f xs; ys = (case mul of None \<Rightarrow> ys | Some k \<Rightarrow> map2 (dbl_mul N) ys k)
      in case add of None \<Rightarrow> ys | Some k \<Rightarrow> map2 (dbl_add N) ys k)"

lemma math_apply_gain: "gain_is p n s k \<Longrightarrow> math_apply f p (int n) xs s = Some (case k of None \<Rightarrow> xs | Some ks \<Rightarrow> map2 f xs ks)"
  by (auto simp: math_apply_def gain_is_def split: option.splits)

definition math_ready :: "ut_lib \<Rightarrow> addr set \<Rightarrow> addr \<Rightarrow> addr \<Rightarrow> string \<Rightarrow> dbl list option \<Rightarrow> dbl list option \<Rightarrow> addr list \<Rightarrow> addr list \<Rightarrow> nat \<Rightarrow>
    'w math_node \<Rightarrow> bool" where
  "math_ready U own b t f mul add ins outs n s \<longleftrightarrow> 0 < n \<and> blks s b \<noteq> None \<and> ut_find U (nd_types s) ''double'' = Some t \<and>
     (\<exists>bi. get_priv b s = Some bi \<and> mt_data_len bi = int n \<and> mt_func bi = Some f \<and> gain_is (mt_mul bi) n s mul \<and> gain_is (mt_add bi) n s add \<and>
       in_conn own t (int n) (mt_p_x bi) ins s \<and> out_conn own t (int n) (mt_p_y bi) outs s)"

text \<open>A step of a connected block that is delivered a sample writes the function of it, whatever the stack held, and stays ready.\<close>

lemma math_step_ok:
  fixes s :: "'w math_node"
  assumes io: "block_io H own iok fit rd wr" and iok: "iok s" and rdy: "math_ready U own b t f mul add ins outs n s"
    and fit: "\<forall>bs. length bs = 8 * n \<longrightarrow> fit (local_data (Some t) (int n) bs)"
    and x: "length x = n" "delivers rd t (active s ins) (fst (world s)) x w1"
  shows "\<exists>s'. math_step N libm stack U H b s = Some s' \<and> iok s' \<and> math_ready U own b t f mul add ins outs n s' \<and>
    fst (world s') = fold (\<lambda>ib. wr ib (dbl_sample t (math_law N (libm f) mul add x))) (active s outs) w1"
proof -
  from rdy obtain bi where R: "0 < n" "blks s b \<noteq> None" "ut_find U (nd_types s) ''double'' = Some t" "get_priv b s = Some bi"
      "mt_data_len bi = int n" "mt_func bi = Some f" "gain_is (mt_mul bi) n s mul" "gain_is (mt_add bi) n s add"
      "in_conn own t (int n) (mt_p_x bi) ins s" "out_conn own t (int n) (mt_p_y bi) outs s"
    unfolding math_ready_def by blast
  have l0: "length (map stack [0..<n]) = n" by simp
  from block_io.read_delivered [OF io iok R(9,3) l0 R(1) fit x(2,1)] obtain s1 where
    s1: "read_array U H ''read_double'' ''double'' (mt_p_x bi) (bytes_of_dbls (map stack [0..<n])) (int n) s = Some (int n, bytes_of_dbls x, s1)"
      "stat_frame s s1" "dats s1 = dats s" "iok s1" "world s1 = (w1, snd (world s))" by blast
  let ?y = "math_law N (libm f) mul add x"
  have ly: "length ?y = n" using R(7,8) x(1) by (auto simp: math_law_def Let_def split: option.splits dest!: gain_length)
  have c1: "out_conn own t (int n) (mt_p_y bi) outs s1" "ut_find U (nd_types s1) ''double'' = Some t"
    using R(3,10) conn_frame(2) [OF s1(2)] s1(2) by (simp_all add: stat_frame_def)
  from block_io.write_sample [OF io s1(4) c1 ly fit] obtain s2 where
    s2: "write_array U H ''write_double'' ''double'' (mt_p_y bi) (bytes_of_dbls ?y) (int n) s1 = Some (0, s2)" "stat_frame s1 s2"
      "dats s2 = dats s1" "iok s2" "world s2 = (fold (\<lambda>ib. wr ib (dbl_sample t ?y)) (active s1 outs) (fst (world s1)), snd (world s1))"
    by blast
  obtain blk where blk: "blks s1 b = Some blk" using frame_live [OF s1(2) R(2)] by auto
  note gs = gain_dats [OF s1(3)]
  have "math_step N libm stack U H b s = Some s2"
    using R(1,4-8) s1(1) s2(1) blk math_apply_gain [of "mt_mul bi" n s1 mul] math_apply_gain [of "mt_add bi" n s1 add] dbls_of_bytes [of x] x(1)
    by (simp add: math_step_def Let_def gs math_law_def)
  moreover have fr: "stat_frame s s2" using stat_frame_trans [OF s1(2) s2(2)] .
  moreover have "math_ready U own b t f mul add ins outs n s2"
    using R frame_live [OF fr R(2)] fr gain_dats [of s2 s] s1(3,5) s2(3,5) conn_frame [OF fr]
    by (auto simp: math_ready_def stat_frame_def get_priv_def)
  ultimately show ?thesis using s2(4,5) s1(5) active_frame [OF s1(2)] by auto
qed

end
