(* ===== verification/Ubx_Thres.thy ===== *)
theory Ubx_Thres
  imports Ubx_Elem Ubx_Time
begin

text \<open>
  The example block \<^verbatim>\<open>std_blocks/examples/threshold.c\<close>: it reports on a port whether its input is above a threshold, and
  crossings as events on another. Its three ports have three types: interaction blocks of different types in one node.
\<close>

section \<open>Interaction blocks of different types\<close>

text \<open>A contract still holds when the states are restricted further, by what does not depend on the blocks of the contract.\<close>

lemma io_hooks_also:
  fixes H :: "(addr \<Rightarrow> 'q option) hooks"
  assumes io: "io_hooks H own iok fit rd wr"
    and touch: "\<And>ib dat w a. ib \<in> own \<Longrightarrow> a \<notin> own \<Longrightarrow> wr ib dat w a = w a \<and> snd (snd (rd ib dat w)) a = w a"
    and other: "\<And>s s'. P s \<Longrightarrow> stat_frame s s' \<Longrightarrow> node_ok s' \<Longrightarrow> \<forall>a. a \<notin> own \<longrightarrow> world s' a = world s a \<Longrightarrow> P s'"
  shows "io_hooks H own (\<lambda>s. iok s \<and> P s) fit rd wr"
proof
  fix s s' :: "(addr \<Rightarrow> 'q option) ubx" and ib d dat blk f r dat' w'
  show "iok s \<and> P s \<Longrightarrow> node_ok s" using io_hooks.inv_node [OF io] by blast
  show "iok s \<and> P s \<Longrightarrow> stat_frame s s' \<Longrightarrow> node_ok s' \<Longrightarrow> world s' = world s \<Longrightarrow> iok s' \<and> P s'"
    using io_hooks.inv_frame [OF io, of s s'] other [of s s'] by simp
  show "iok s \<and> P s \<Longrightarrow> ib \<in> own \<Longrightarrow> \<exists>blk f g. blks s ib = Some blk \<and> read_fun blk = Some f \<and> write_fun blk = Some g"
    using io_hooks.io_block [OF io] by blast
  {
    assume a: "iok s \<and> P s" "ib \<in> own" "dats s d = Some dat" "fit dat" "blks s ib = Some blk" "read_fun blk = Some f"
      "rd ib dat (world s) = (r, dat', w')"
    then obtain t where t: "hk_read H f ib d s = Some (r, t)" "stat_frame s t" "dats t = (dats s)(d \<mapsto> dat')" "world t = w'" "iok t" "fit dat'"
      using io_hooks.read_law [OF io] by blast
    have "P t" using other [of s t] a(1,7) t(2,4) io_hooks.inv_node [OF io t(5)] touch [OF a(2), of _ dat "world s"] by simp
    with t show "\<exists>s'. hk_read H f ib d s = Some (r, s') \<and> stat_frame s s' \<and> dats s' = (dats s)(d \<mapsto> dat') \<and> world s' = w' \<and>
        (iok s' \<and> P s') \<and> fit dat'" by blast
  next
    assume a: "iok s \<and> P s" "ib \<in> own" "dats s d = Some dat" "fit dat" "blks s ib = Some blk" "write_fun blk = Some f"
    then obtain t where t: "hk_write H f ib d s = Some t" "stat_frame s t" "dats t = dats s" "world t = wr ib dat (world s)" "iok t"
      using io_hooks.write_law [OF io] by blast
    have "P t" using other [of s t] a(1) t(2,4) io_hooks.inv_node [OF io t(5)] touch [OF a(2), of _ dat "world s"] by simp
    with t show "\<exists>s'. hk_write H f ib d s = Some s' \<and> stat_frame s s' \<and> dats s' = dats s \<and> world s' = wr ib dat (world s) \<and>
        iok s' \<and> P s'" by blast
  }
qed

lemma cyc_touch: "ib \<in> own \<Longrightarrow> a \<notin> own \<Longrightarrow> cyc_wr R sz ib dat w a = w a \<and> snd (snd (cyc_rd R sz ib dat w)) a = w a"
  by (auto simp: cyc_wr_def cyc_rd_def split: option.splits prod.splits)

lemma cyc_ok_other:
  assumes "cyc_ok good own t sz n s" "stat_frame s s'" "node_ok s'" "\<forall>a \<in> own. world s' a = world s a"
  shows "cyc_ok good own t sz n s'"
proof -
  have p: "prts s' = prts s" "typs s' = typs s" using assms(2) by (simp_all add: stat_frame_def)
  have "\<exists>blk. blks s' i = Some blk \<and> read_fun blk \<noteq> None \<and> write_fun blk \<noteq> None" if "i \<in> own" for i
    using cyc_okD(6) [OF assms(1) that] stat_frame_block(2,3) [OF assms(2), of i] by auto
  moreover have "\<exists>bi. world s' i = Some bi \<and> good bi \<and> (\<exists>prt. prts s' (ci_p_overruns bi) = Some prt \<and> p_out_interaction prt = None)"
    if "i \<in> own" for i using cyc_okD(7) [OF assms(1) that] assms(4) p(1) that by auto
  ultimately show ?thesis using cyc_okD(1-5) [OF assms(1)] assms(3) p(2) by (simp add: cyc_ok_def)
qed

text \<open>Queues of two more types do not disturb the contract of a queue.\<close>

lemma cyc_three:
  assumes "own1 \<inter> own2 = {}" "own1 \<inter> own3 = {}"
  shows "block_io (lift_hooks (cyclic_hooks ut_ref ring_ref H) :: (ring cyc_world, 'p) blk_world hooks) own1
    (\<lambda>s. cyc_ok (ring_info_ok t1 sz1 n1) own1 t1 sz1 n1 (io_part s) \<and>
       cyc_ok (ring_info_ok t2 sz2 n2) own2 t2 sz2 n2 (io_part s) \<and> cyc_ok (ring_info_ok t3 sz3 n3) own3 t3 sz3 n3 (io_part s))
    (fits t1 sz1 n1) (cyc_rd ring_ref sz1) (cyc_wr ring_ref sz1)"
proof -
  let ?P = "\<lambda>s. cyc_ok (ring_info_ok t2 sz2 n2) own2 t2 sz2 n2 s \<and> cyc_ok (ring_info_ok t3 sz3 n3) own3 t3 sz3 n3 s"
  have "io_hooks (cyclic_hooks ut_ref ring_ref H) own1 (\<lambda>s. cyc_ok (ring_info_ok t1 sz1 n1) own1 t1 sz1 n1 s \<and> ?P s)
      (fits t1 sz1 n1) (cyc_rd ring_ref sz1) (cyc_wr ring_ref sz1)"
  proof (rule io_hooks_also [OF cyc.io_hooks_axioms cyc_touch])
    fix s s' :: "ring cyc_world ubx"
    assume "?P s" and s: "stat_frame s s'" "node_ok s'" "\<forall>a. a \<notin> own1 \<longrightarrow> world s' a = world s a"
    moreover have "\<forall>a \<in> own2. world s' a = world s a" "\<forall>a \<in> own3. world s' a = world s a" using s(3) assms by blast+
    ultimately show "?P s'" using cyc_ok_other [OF _ s(1,2)] by blast
  qed
  then show ?thesis by (rule lift_block_io)
qed

section \<open>The block\<close>

record thres_info =
  th_threshold :: ptr
  th_state :: int
  th_pin :: ptr
  th_pstate :: ptr
  th_pevent :: ptr

type_synonym 'w thres_node = "('w, thres_info) blk_world ubx"

record thres_event =
  te_dir :: int
  te_ts :: ubx_timespec

text \<open>A failing assertion aborts.\<close>

definition thres_init :: "ut_lib \<Rightarrow> addr \<Rightarrow> 'w thres_node \<Rightarrow> (int \<times> 'w thres_node) option" where
  "thres_init U b s = do {
     blk \<leftarrow> blks s b;
     let (ok, s) = mem_alloc s;
     if \<not> ok then do { _ \<leftarrow> ubx_block_log blk s; Some (EOUTOFMEM, set_priv b None s) }
     else do {
       (len, p, s) \<leftarrow> getptr U ''double'' ''double'' b ''threshold'' s;
       if len \<le> 0 then None
       else do {
         pin \<leftarrow> ubx_port_get (Some b) (Some ''in'') s;
         pstate \<leftarrow> ubx_port_get (Some b) (Some ''state'') s;
         pevent \<leftarrow> ubx_port_get (Some b) (Some ''event'') s;
         if pin = None \<or> pstate = None \<or> pevent = None then None
         else Some (0, set_priv b (Some \<lparr>th_threshold = p, th_state = 0, th_pin = pin, th_pstate = pstate, th_pevent = pevent\<rparr>) s) } } }"

definition thres_cleanup :: "addr \<Rightarrow> 'w thres_node \<Rightarrow> 'w thres_node option" where
  "thres_cleanup b s = do { bi \<leftarrow> get_priv b s; Some (set_priv b None s) }"

definition write_thres_event ::
  "(thres_event \<Rightarrow> u8 list) \<Rightarrow> ut_lib \<Rightarrow> ('w, 'p) blk_world hooks \<Rightarrow> ptr \<Rightarrow> thres_event \<Rightarrow> ('w, 'p) blk_world ubx \<Rightarrow> (int \<times> ('w, 'p) blk_world ubx) option" where
  "write_thres_event enc U H p ev s = write_array U H ''write_thres_event'' ''struct thres_event'' p (enc ev) 1 s"

definition int_bytes :: "int \<Rightarrow> u8 list" where
  "int_bytes i = word_enc (word_of_int i :: u32)"

text \<open>\<open>enc\<close> is the memory layout of the event, \<open>now\<close> what the clock says during the step, \<open>junk\<close> the indeterminate value of the local
  variable \<open>inval\<close>.\<close>

definition thres_step ::
  "(thres_event \<Rightarrow> u8 list) \<Rightarrow> ubx_timespec \<Rightarrow> dbl \<Rightarrow> ut_lib \<Rightarrow> ('w, thres_info) blk_world hooks \<Rightarrow> addr \<Rightarrow> 'w thres_node \<Rightarrow> 'w thres_node option" where
  "thres_step enc now junk U H b s = do {
     bi \<leftarrow> get_priv b s;
     (len, bs, s) \<leftarrow> read_one U H ''double'' (th_pin bi) (bytes_of_dbls [junk]) s;
     blk \<leftarrow> blks s b;
     if len < 0 then do { _ \<leftarrow> ubx_block_log blk s; Some s }
     else if len = 0 then Some s
     else do {
       thr \<leftarrow> load_dbls (th_threshold bi) 1 s;
       let state = (if hd (dbls_of 1 bs) > hd thr then 1 else 0);
       s \<leftarrow> (if state \<noteq> th_state bi
            then do {
              _ \<leftarrow> ubx_block_log blk s;
              (r, s) \<leftarrow> write_thres_event enc U H (th_pevent bi) \<lparr>te_dir = state, te_ts = now\<rparr> s;
              Some s }
            else Some s);
       (r, s) \<leftarrow> write_one U H ''int'' (th_pstate bi) (int_bytes state) s;
       Some (set_priv b (Some (bi\<lparr>th_state := state\<rparr>)) s) } }"

section \<open>Events\<close>

definition thres_ready :: "ut_lib \<Rightarrow> addr set \<times> addr set \<times> addr set \<Rightarrow> addr \<times> addr \<times> addr \<Rightarrow> addr \<Rightarrow> dbl \<Rightarrow> int \<Rightarrow>
    addr list \<times> addr list \<times> addr list \<Rightarrow> 'w thres_node \<Rightarrow> bool" where
  "thres_ready U own t b thr st c s \<longleftrightarrow> (case (own, t, c) of ((od, oi, oe), (td, ti, te), (ins, sts, evs)) \<Rightarrow>
     blks s b \<noteq> None \<and> ut_find U (nd_types s) ''double'' = Some td \<and> ut_find U (nd_types s) ''int'' = Some ti \<and>
     ut_find U (nd_types s) ''struct thres_event'' = Some te \<and>
     (\<exists>bi. get_priv b s = Some bi \<and> th_state bi = st \<and> load_dbls (th_threshold bi) 1 s = Some [thr] \<and>
       in_conn od td 1 (th_pin bi) ins s \<and> out_conn oi ti 1 (th_pstate bi) sts s \<and> out_conn oe te 1 (th_pevent bi) evs s))"

lemma thres_ready_frame:
  assumes "thres_ready U own t b thr st c s" "stat_frame s s'" "dats s' = dats s" "get_priv b s = Some bi" "get_priv b s' = Some (bi\<lparr>th_state := st'\<rparr>)"
  shows "thres_ready U own t b thr st' c s'"
  using assms frame_live [OF assms(2)] load_dbls_dats [OF assms(3)] conn_frame [OF assms(2)]
  by (auto simp: thres_ready_def stat_frame_def)

text \<open>The state the block reports for an input, and the samples it writes.\<close>

definition above :: "dbl \<Rightarrow> dbl \<Rightarrow> int" where
  "above thr x = (if x > thr then 1 else 0)"

definition state_sample :: "addr \<Rightarrow> int \<Rightarrow> ubx_data" where
  "state_sample t st = local_data (Some t) 1 (int_bytes st)"

definition event_sample :: "(thres_event \<Rightarrow> u8 list) \<Rightarrow> addr \<Rightarrow> int \<Rightarrow> ubx_timespec \<Rightarrow> ubx_data" where
  "event_sample enc t dir ts = local_data (Some t) 1 (enc \<lparr>te_dir = dir, te_ts = ts\<rparr>)"

lemma thres_step_ok:
  fixes s :: "'w thres_node"
  assumes io: "block_io H od iok fd rd wd" "block_io H oi iok fi ri wi" "block_io H oe iok fe re we" and iok: "iok s"
    and rdy: "thres_ready U (od, oi, oe) (td, ti, te) b thr st (ins, sts, evs) s"
    and fit: "\<forall>bs. length bs = 8 * 1 \<longrightarrow> fd (local_data (Some td) (int 1) bs)" "\<forall>i. fi (state_sample ti i)" "\<forall>i. fe (event_sample enc te i now)"
    and del: "delivers rd td (active s ins) (fst (world s)) [x] w1"
  shows "\<exists>s'. thres_step enc now junk U H b s = Some s' \<and> iok s' \<and>
    thres_ready U (od, oi, oe) (td, ti, te) b thr (above thr x) (ins, sts, evs) s' \<and>
    fst (world s') = fold (\<lambda>ib. wi ib (state_sample ti (above thr x))) (active s sts)
      (if above thr x = st then w1 else fold (\<lambda>ib. we ib (event_sample enc te (above thr x) now)) (active s evs) w1)"
proof -
  from rdy obtain bi where R: "blks s b \<noteq> None" "ut_find U (nd_types s) ''double'' = Some td" "ut_find U (nd_types s) ''int'' = Some ti"
      "ut_find U (nd_types s) ''struct thres_event'' = Some te" "get_priv b s = Some bi" "th_state bi = st"
      "load_dbls (th_threshold bi) 1 s = Some [thr]" "in_conn od td (int 1) (th_pin bi) ins s" "out_conn oi ti 1 (th_pstate bi) sts s"
      "out_conn oe te 1 (th_pevent bi) evs s"
    unfolding thres_ready_def by auto
  have l: "length [junk] = 1" "length [x] = 1" "(0 :: nat) < 1" by simp_all
  from block_io.read_delivered [OF io(1) iok R(8,2) l(1,3) fit(1) del l(2)] obtain s1 where
    s1: "read_one U H ''double'' (th_pin bi) (bytes_of_dbls [junk]) s = Some (1, bytes_of_dbls [x], s1)"
      "stat_frame s s1" "dats s1 = dats s" "iok s1" "world s1 = (w1, snd (world s))"
    by (auto simp: read_one_def accessor_types_def)
  let ?st = "above thr x"
  from R(1) obtain blk0 where "blks s b = Some blk0" by blast
  with stat_frame_live_log [OF io_hooks.inv_node [OF block_io.axioms(1) [OF io(1)] s1(4)] s1(2)] obtain blk where
    blk: "blks s1 b = Some blk" "ubx_block_log blk s1 = Some ()" by blast
  have types1: "nd_types s1 = nd_types s" using s1(2) by (simp add: stat_frame_def)
  define ev where "ev = (if ?st = st then Some s1 else do { (r, s) \<leftarrow> write_thres_event enc U H (th_pevent bi) \<lparr>te_dir = ?st, te_ts = now\<rparr> s1; Some s })"
  have "\<exists>s2. ev = Some s2 \<and> stat_frame s s2 \<and> dats s2 = dats s \<and> iok s2 \<and> snd (world s2) = snd (world s) \<and>
      fst (world s2) = (if ?st = st then w1 else fold (\<lambda>ib. we ib (event_sample enc te ?st now)) (active s evs) w1)"
  proof (cases "?st = st")
    case True
    with s1 show ?thesis by (simp add: ev_def)
  next
    case False
    have "out_conn oe te 1 (th_pevent bi) evs s1" using R(10) conn_frame(2) [OF s1(2)] by simp
    moreover have "fe (local_data (Some te) 1 (enc \<lparr>te_dir = ?st, te_ts = now\<rparr>))" using fit(3) by (simp add: event_sample_def)
    ultimately show ?thesis
      using block_io.write_conn [OF io(3) s1(4), of te 1 "th_pevent bi" evs U "''struct thres_event''" "enc \<lparr>te_dir = ?st, te_ts = now\<rparr>"
          "''write_thres_event''"] R(4) False s1(3,5) active_frame [OF s1(2), of evs] stat_frame_trans [OF s1(2)]
      by (auto simp: ev_def types1 write_thres_event_def event_sample_def)
  qed
  then obtain s2 where s2: "ev = Some s2" "stat_frame s s2" "dats s2 = dats s" "iok s2" "snd (world s2) = snd (world s)"
      "fst (world s2) = (if ?st = st then w1 else fold (\<lambda>ib. we ib (event_sample enc te ?st now)) (active s evs) w1)" by blast
  have "out_conn oi ti 1 (th_pstate bi) sts s2" using R(9) conn_frame(2) [OF s2(2)] by simp
  moreover have "ut_find U (nd_types s2) ''int'' = Some ti" using R(3) s2(2) by (simp add: stat_frame_def)
  moreover have "fi (local_data (Some ti) 1 (int_bytes ?st))" using fit(2) by (simp add: state_sample_def)
  ultimately obtain s3 where s3: "write_one U H ''int'' (th_pstate bi) (int_bytes ?st) s2 = Some (0, s3)" "stat_frame s2 s3" "dats s3 = dats s2" "iok s3"
      "world s3 = (fold (\<lambda>ib. wi ib (state_sample ti ?st)) (active s2 sts) (fst (world s2)), snd (world s2))"
    using block_io.write_conn [OF io(2) s2(4), of ti 1 "th_pstate bi" sts U "''int''" "int_bytes ?st" "''write_int''"]
    by (auto simp: write_one_def accessor_types_def state_sample_def)
  let ?s = "set_priv b (Some (bi\<lparr>th_state := ?st\<rparr>)) s3"
  have "thres_step enc now junk U H b s = Some ?s"
    using R(5-7) s1(1) blk s2(1) s3(1) load_dbls_dats [OF s1(3), of "th_threshold bi" 1] dbls_of_bytes [of "[x]"]
    by (simp add: thres_step_def Let_def ev_def above_def split: if_splits)
  moreover have fr: "stat_frame s ?s" using stat_frame_trans [OF s2(2) s3(2)] by simp
  moreover have "thres_ready U (od, oi, oe) (td, ti, te) b thr ?st (ins, sts, evs) ?s"
    by (rule thres_ready_frame [OF rdy fr _ R(5)]) (use s2(3) s3(3) in simp_all)
  ultimately show ?thesis using block_io.iok_priv [OF io(1) s3(4)] s3(5) s2(6) active_frame [OF s2(2)] by (intro exI [of _ ?s]) simp
qed

text \<open>A threshold of \<open>1\<close> on the node of \<open>Ubx_Signal\<close>, with queues 7 and 8 for the state and the events.\<close>

definition thres_ex :: thres_info where
  "thres_ex = \<lparr>th_threshold = Some 21, th_state = 0, th_pin = Some 10, th_pstate = Some 14, th_pevent = Some 15\<rparr>"

definition byte_queue :: "addr \<Rightarrow> nat \<Rightarrow> ring cyclic_info" where
  "byte_queue t sz = (dbl_queue [] 0)\<lparr>ci_type := Some t, ci_elems := [0 \<mapsto> \<lparr>hd_len = 1, hd_data = replicate sz 0\<rparr>]\<rparr>"

definition thres_node_ex :: "ring cyc_world thres_node" where
  "thres_node_ex = (let s = dbl_node thres_ex; q = pipe_blk ''q'' [12] (Ops_inter (Some 1) (Some 2) 0 0) in
     with_world ([5 \<mapsto> dbl_queue [0] (Dbl 0x4008000000000000), 7 \<mapsto> byte_queue 2 4, 8 \<mapsto> byte_queue 3 24], [4 \<mapsto> thres_ex])
       (s\<lparr>nd_types := [(''double'', 1), (''int'', 2), (''struct thres_event'', 3)],
          blks := (blks s)(7 \<mapsto> q, 8 \<mapsto> q),
          prts := (prts s)(14 \<mapsto> wire 4 None (Some 2) None (Some [7]), 15 \<mapsto> wire 4 None (Some 3) None (Some [8])),
          typs := [1 \<mapsto> mk_type ''double'' 8, 2 \<mapsto> mk_type ''int'' 4, 3 \<mapsto> mk_type ''struct thres_event'' 24]\<rparr>))"

definition thres_enc :: "thres_event \<Rightarrow> u8 list" where
  "thres_enc ev = int_bytes (te_dir ev) @ replicate 4 0 @ bytes_of_u64 (word_of_int (sec (te_ts ev))) @ bytes_of_u64 (word_of_int (nsec (te_ts ev)))"

lemma thres_node_ok: "node_ok thres_node_ex"
  by (auto simp: node_ok_def thres_node_ex_def Let_def dbl_node_def pipe_node_def fresh_from_def pipe_node_blk wire_def split: if_splits)

lemma byte_queue_ok: "sz = nat i \<Longrightarrow> ring_info_ok t i 1 (byte_queue t sz)"
  by (simp add: ring_block_ok_def byte_queue_def dbl_queue_def pipe_info_def ring_ok_def elems_ok_def)

lemma thres_node_cyc:
  "cyc_ok (ring_info_ok 1 8 1) {5} 1 8 1 (io_part thres_node_ex)" "cyc_ok (ring_info_ok 2 4 1) {7} 2 4 1 (io_part thres_node_ex)"
  "cyc_ok (ring_info_ok 3 24 1) {8} 3 24 1 (io_part thres_node_ex)"
proof -
  have n: "node_ok (io_part thres_node_ex)" using thres_node_ok by (simp add: io_part_def)
  have p: "ci_p_overruns (dbl_queue q x) = 12" "ci_p_overruns (byte_queue t sz) = 12" for q x t sz
    by (simp_all add: dbl_queue_def byte_queue_def pipe_info_def)
  note defs = cyc_ok_def thres_node_ex_def Let_def dbl_node_def in_long_def LONG_MAX_def mk_type_def read_fun_def write_fun_def pipe_node_blk wire_def
  show "cyc_ok (ring_info_ok 1 8 1) {5} 1 8 1 (io_part thres_node_ex)" using n p dbl_queue_ok by (simp add: defs)
  show "cyc_ok (ring_info_ok 2 4 1) {7} 2 4 1 (io_part thres_node_ex)" using n p byte_queue_ok [of 4 4 2] by (simp add: defs)
  show "cyc_ok (ring_info_ok 3 24 1) {8} 3 24 1 (io_part thres_node_ex)" using n p byte_queue_ok [of 24 24 3] by (simp add: defs)
qed

lemma thres_node_ready:
  "thres_ready ut_ref ({5}, {7}, {8}) (1, 2, 3) 4 (Dbl 0x3FF0000000000000) 0 ([5], [7], [8]) thres_node_ex"
proof -
  have "load_dbls (Some 21) 1 thres_node_ex = Some [Dbl 0x3FF0000000000000]"
    by (rule load_dbl_node, simp_all add: thres_node_ex_def Let_def dbl_node_def local_data_def)
  then show ?thesis
    by (simp add: thres_ready_def) (simp add: thres_node_ex_def Let_def thres_ex_def dbl_node_def get_priv_def in_conn_def out_conn_def wire_def)
qed

section \<open>Properties\<close>

text \<open>C19: threshold events are exactly the crossings. For a connected block in state \<open>st\<close>, whatever interaction blocks of three
  different types do within their contracts: when an input \<open>x\<close> is delivered, the new state is \<open>1\<close> if \<open>x\<close> is above the threshold
  and \<open>0\<close> otherwise (also for NaN); every interaction block of \<open>state\<close> gets the new state, and exactly if it differs from the
  old one, those of \<open>event\<close> get one event before, with the new state as direction and the time of the step.\<close>

theorem thres_events_exact:
  fixes s :: "'w thres_node"
  assumes "block_io H od iok fd rd wd" "block_io H oi iok fi ri wi" "block_io H oe iok fe re we" "iok s"
    and "thres_ready U (od, oi, oe) (td, ti, te) b thr st (ins, sts, evs) s"
    and "\<forall>bs. length bs = 8 * 1 \<longrightarrow> fd (local_data (Some td) (int 1) bs)" "\<forall>i. fi (state_sample ti i)" "\<forall>i. fe (event_sample enc te i now)"
    and "delivers rd td (active s ins) (fst (world s)) [x] w1" and "st' = (if x > thr then 1 else 0)"
  shows "\<exists>s'. thres_step enc now junk U H b s = Some s' \<and> iok s' \<and> thres_ready U (od, oi, oe) (td, ti, te) b thr st' (ins, sts, evs) s' \<and>
    fst (world s') = fold (\<lambda>ib. wi ib (state_sample ti st')) (active s sts)
      (if st' = st then w1 else fold (\<lambda>ib. we ib (event_sample enc te st' now)) (active s evs) w1)"
proof -
  have "st' = above thr x" by (simp add: above_def assms(10))
  then show ?thesis by (simp only:) (rule thres_step_ok [OF assms(1-9)])
qed

theorem thres_events_exact_witness:
  "\<exists>s'. thres_step thres_enc \<lparr>sec = 7, nsec = 0\<rparr> 0 ut_ref (lift_hooks (cyclic_hooks ut_ref ring_ref no_hooks)) 4 thres_node_ex = Some s' \<and>
     fst (world s') = cyc_wr ring_ref 4 7 (state_sample 2 1) (cyc_wr ring_ref 24 8 (event_sample thres_enc 3 1 \<lparr>sec = 7, nsec = 0\<rparr>)
       ((fst (world thres_node_ex))(5 \<mapsto> dbl_queue [] (Dbl 0x4008000000000000))))"
proof -
  let ?x = "Dbl 0x4008000000000000" and ?now = "\<lparr>sec = 7, nsec = 0\<rparr>" and ?s = thres_node_ex
  let ?I = "\<lambda>s :: ring cyc_world thres_node. cyc_ok (ring_info_ok 1 8 1) {5} 1 8 1 (io_part s) \<and>
    cyc_ok (ring_info_ok 2 4 1) {7} 2 4 1 (io_part s) \<and> cyc_ok (ring_info_ok 3 24 1) {8} 3 24 1 (io_part s)"
  let ?H = "lift_hooks (cyclic_hooks ut_ref ring_ref no_hooks) :: (ring cyc_world, thres_info) blk_world hooks"
  have io: "block_io ?H {5} ?I (fits 1 8 1) (cyc_rd ring_ref 8) (cyc_wr ring_ref 8)"
      "block_io ?H {7} ?I (fits 2 4 1) (cyc_rd ring_ref 4) (cyc_wr ring_ref 4)"
      "block_io ?H {8} ?I (fits 3 24 1) (cyc_rd ring_ref 24) (cyc_wr ring_ref 24)"
  proof -
    have e: "?I = (\<lambda>s. cyc_ok (ring_info_ok 2 4 1) {7} 2 4 1 (io_part s) \<and> cyc_ok (ring_info_ok 1 8 1) {5} 1 8 1 (io_part s) \<and>
          cyc_ok (ring_info_ok 3 24 1) {8} 3 24 1 (io_part s))"
        "?I = (\<lambda>s. cyc_ok (ring_info_ok 3 24 1) {8} 3 24 1 (io_part s) \<and> cyc_ok (ring_info_ok 1 8 1) {5} 1 8 1 (io_part s) \<and>
          cyc_ok (ring_info_ok 2 4 1) {7} 2 4 1 (io_part s))" by (rule ext, blast)+
    show "block_io ?H {5} ?I (fits 1 8 1) (cyc_rd ring_ref 8) (cyc_wr ring_ref 8)" by (rule cyc_three) simp_all
    show "block_io ?H {7} ?I (fits 2 4 1) (cyc_rd ring_ref 4) (cyc_wr ring_ref 4)" unfolding e(1) by (rule cyc_three) simp_all
    show "block_io ?H {8} ?I (fits 3 24 1) (cyc_rd ring_ref 24) (cyc_wr ring_ref 24)" unfolding e(2) by (rule cyc_three) simp_all
  qed
  have fit: "\<forall>bs. length bs = 8 * 1 \<longrightarrow> fits 1 8 1 (local_data (Some 1) (int 1) bs)" "\<forall>i. fits 2 4 1 (state_sample 2 i)"
      "\<forall>i. fits 3 24 1 (event_sample thres_enc 3 i ?now)"
    by (simp_all add: fits_def local_data_def state_sample_def event_sample_def thres_enc_def int_bytes_def length_word_enc)
  have a: "active ?s [5] = [5]" "active ?s [7] = [7]" "active ?s [8] = [8]"
    by (simp_all add: active_def thres_node_ex_def Let_def dbl_node_def pipe_node_blk)
  have del: "delivers (cyc_rd ring_ref 8) 1 (active ?s [5]) (fst (world ?s)) [?x] ((fst (world ?s))(5 \<mapsto> dbl_queue [] ?x))"
    unfolding a by (rule cyc_delivers) (simp add: thres_node_ex_def Let_def)
  have st: "1 = (if ?x > Dbl 0x3FF0000000000000 then 1 else 0)"
    by (simp add: less_dbl_def is_nan_def dbl_mag_def dbl_key_def)
  have I: "?I ?s" using thres_node_cyc by blast
  from thres_events_exact [OF io I thres_node_ready fit del st] show ?thesis by (auto simp: a)
qed

end
