(* ===== verification/Ubx_Fifo.thy ===== *)
theory Ubx_Fifo
  imports Ubx_Cyclic
begin

text \<open>
  The example interaction block \<^verbatim>\<open>std_blocks/examples/simple_fifo.c\<close>. Its buffer is a list of bytes that may be
  indeterminate, its read and write pointers are offsets into it. It never runs out of bounds, and it never delivers anything.
\<close>

section \<open>The block\<close>

record fifo_info =
  ff_size :: int
  ff_buff :: "u8 option list"
  ff_rdptr :: int
  ff_wrptr :: int
  ff_type :: ptr
  ff_overrun_policy :: u32
  ff_locked :: bool
  ff_overruns :: u64

type_synonym fifo_world = "addr \<Rightarrow> fifo_info option"

definition set_ff :: "addr \<Rightarrow> fifo_info option \<Rightarrow> fifo_world ubx \<Rightarrow> fifo_world ubx" where
  "set_ff i x s = s\<lparr>world := (world s)(i := x)\<rparr>"

definition DROP_NEW :: u32 where "DROP_NEW = 1"
definition DROP_OLD :: u32 where "DROP_OLD = 2"

text \<open>A negative result of the accessor is treated like an unset config. \<open>malloc\<close> leaves the buffer indeterminate.\<close>

definition fifo_alloc :: "addr \<Rightarrow> int \<Rightarrow> fifo_world ubx \<Rightarrow> (int \<times> fifo_world ubx) option" where
  "fifo_alloc i n s = do {
     blk \<leftarrow> blks s i;
     let (ok, s) = mem_alloc s;
     if \<not> ok then do { _ \<leftarrow> ubx_block_log blk s; Some (- 1, set_ff i None s) }
     else Some (0, set_ff i (Some \<lparr>ff_size = n, ff_buff = replicate (nat n) None, ff_rdptr = 0, ff_wrptr = 0, ff_type = None,
            ff_overrun_policy = 0, ff_locked = False, ff_overruns = 0\<rparr>) s) }"

definition fifo_init :: "ut_lib \<Rightarrow> addr \<Rightarrow> fifo_world ubx \<Rightarrow> (int \<times> fifo_world ubx) option" where
  "fifo_init U i s = do {
     blk \<leftarrow> blks s i;
     let (ok, s) = mem_alloc s;
     if \<not> ok then do { _ \<leftarrow> ubx_block_log blk s; Some (- 1, set_ff i None s) }
     else do {
       (len, val, s) \<leftarrow> getptr U ''uint32'' ''uint32_t'' i ''fifo_size'' s;
       n \<leftarrow> (if c_int len > 0 then load_u32 val s else Some 16);
       if n = 0 then do { _ \<leftarrow> ubx_block_log blk s; Some (- 1, set_ff i None s) } else fifo_alloc i n s } }"

definition fifo_cleanup :: "addr \<Rightarrow> fifo_world ubx \<Rightarrow> fifo_world ubx option" where
  "fifo_cleanup i s = do { bbi \<leftarrow> world s i; Some (set_ff i None s) }"

definition empty_space :: "fifo_info \<Rightarrow> int" where
  "empty_space bbi = (if ff_wrptr bbi \<ge> ff_rdptr bbi then ff_size bbi - (ff_wrptr bbi - ff_rdptr bbi) else ff_rdptr bbi - ff_wrptr bbi)"

definition used_space :: "fifo_info \<Rightarrow> int" where
  "used_space bbi = (if ff_wrptr bbi < ff_rdptr bbi then ff_size bbi - (ff_rdptr bbi - ff_wrptr bbi) else ff_wrptr bbi - ff_rdptr bbi)"

text \<open>\<open>memcpy(buff + off, src, n)\<close>\<close>

definition copy_in :: "u8 option list \<Rightarrow> int \<Rightarrow> u8 list \<Rightarrow> int \<Rightarrow> u8 option list option" where
  "copy_in buff off src n =
     (if 0 \<le> n \<and> 0 \<le> off \<and> off + n \<le> int (length buff) \<and> n \<le> int (length src)
      then Some (take (nat off) buff @ map Some (take (nat n) src) @ drop (nat (off + n)) buff) else None)"

text \<open>\<open>memcpy(dst, buff + off, n)\<close>; what it copies must have been written.\<close>

definition copy_out :: "u8 list \<Rightarrow> u8 option list \<Rightarrow> int \<Rightarrow> nat \<Rightarrow> u8 list option" where
  "copy_out dst buff off n =
     (if 0 \<le> off \<and> nat off + n \<le> length buff \<and> n \<le> length dst \<and> None \<notin> set (take n (drop (nat off) buff))
      then Some (map the (take n (drop (nat off) buff)) @ drop n dst) else None)"

text \<open>Making room for \<open>len\<close> bytes: the result says whether to go on.\<close>

definition fifo_overrun :: "addr \<Rightarrow> int \<Rightarrow> fifo_info \<Rightarrow> fifo_world ubx \<Rightarrow> (bool \<times> fifo_info) option" where
  "fifo_overrun i len bbi s =
     (if empty_space bbi < len then do {
        let bbi = bbi\<lparr>ff_overruns := ff_overruns bbi + 1\<rparr>;
        if ff_overrun_policy bbi = DROP_NEW then Some (False, bbi)
        else if ff_overrun_policy bbi = DROP_OLD then do {
          let rd = ff_rdptr bbi + len;
          Some (True, bbi\<lparr>ff_rdptr := (if rd > ff_size bbi then rd - ff_size bbi else rd)\<rparr>) }
        else do { blk \<leftarrow> blks s i; _ \<leftarrow> ubx_block_log blk s; Some (False, bbi) } }
      else Some (True, bbi))"

text \<open>Writing, in up to two chunks.\<close>

definition fifo_store :: "int \<Rightarrow> u8 list \<Rightarrow> fifo_info \<Rightarrow> fifo_info option" where
  "fifo_store len src bbi = do {
     let (len, len2) = (if ff_wrptr bbi > ff_rdptr bbi
       then (let len2 = len - (ff_size bbi - ff_wrptr bbi); len2 = (if len2 > 0 then len2 else 0)
             in (if len2 > 0 then len - len2 else len, len2))
       else (len, 0));
     buff \<leftarrow> copy_in (ff_buff bbi) (ff_wrptr bbi) src len;
     let bbi = bbi\<lparr>ff_buff := buff, ff_wrptr := (if ff_wrptr bbi + len \<ge> ff_size bbi then 0 else ff_wrptr bbi + len)\<rparr>;
     if len2 > 0 then do {
       buff \<leftarrow> copy_in (ff_buff bbi) 0 (drop (nat len) src) len2;
       Some (bbi\<lparr>ff_buff := buff, ff_wrptr := len2\<rparr>) }
     else Some bbi }"

text \<open>A thread that locks the mutex twice never returns.\<close>

definition fifo_write :: "addr \<Rightarrow> addr \<Rightarrow> fifo_world ubx \<Rightarrow> fifo_world ubx option" where
  "fifo_write i msg s = do {
     bbi \<leftarrow> world s i;
     if ff_locked bbi then None
     else do {
       let bbi = bbi\<lparr>ff_locked := True\<rparr>;
       len \<leftarrow> data_size (Some msg) s;
       if len > ff_size bbi
       then do { blk \<leftarrow> blks s i; _ \<leftarrow> ubx_block_log blk s; Some (set_ff i (Some (bbi\<lparr>ff_locked := False\<rparr>)) s) }
       else do {
         dat \<leftarrow> dats s msg;
         let bbi = (if ff_type bbi = None then bbi\<lparr>ff_type := d_type dat\<rparr> else bbi);
         (go, bbi) \<leftarrow> fifo_overrun i len bbi s;
         if \<not> go then Some (set_ff i (Some (bbi\<lparr>ff_locked := False\<rparr>)) s)
         else do {
           src \<leftarrow> buf_bytes (d_data dat);
           bbi \<leftarrow> fifo_store len src bbi;
           Some (set_ff i (Some (bbi\<lparr>ff_locked := False\<rparr>)) s) } } } }"

text \<open>The sizes are of type \<open>unsigned long\<close>. \<open>readsz\<close> is \<open>0\<close> from the start.\<close>

definition fifo_read :: "addr \<Rightarrow> addr \<Rightarrow> fifo_world ubx \<Rightarrow> (int \<times> fifo_world ubx) option" where
  "fifo_read i msg s = do {
     bbi \<leftarrow> world s i;
     if ff_locked bbi then None
     else if ff_rdptr bbi = ff_wrptr bbi then Some (0, s)
     else do {
       dat \<leftarrow> dats s msg;
       if d_type dat \<noteq> ff_type bbi
       then do {
         blk \<leftarrow> blks s i; _ \<leftarrow> ubx_block_log blk s; _ \<leftarrow> get_typename (Some msg) s;
         ta \<leftarrow> ff_type bbi; ty \<leftarrow> typs s ta;
         Some (ETYPE_MISMATCH, s) }
       else do {
         let readsz = (0 :: u64);
         let used = (word_of_int (used_space bbi) :: u64);
         let readsz = (if used < readsz then used else readsz);
         let readsz1 = (if ff_rdptr bbi > ff_wrptr bbi
           then (let readsz2 = readsz - word_of_int (ff_size bbi - ff_wrptr bbi) in readsz - readsz2) else 0);
         dst \<leftarrow> buf_bytes (d_data dat);
         dst \<leftarrow> copy_out dst (ff_buff bbi) (ff_rdptr bbi) (unat readsz1);
         let s = s\<lparr>dats := (dats s)(msg \<mapsto> dat\<lparr>d_data := Buf dst\<rparr>)\<rparr>;
         ta \<leftarrow> ff_type bbi; ty \<leftarrow> typs s ta;
         if t_size ty = 0 then None
         else Some (c_int (uint (readsz div word_of_int (t_size ty))), set_ff i (Some (bbi\<lparr>ff_rdptr := uint readsz1\<rparr>)) s) } } }"

definition fifo_hooks :: "ut_lib \<Rightarrow> fifo_world hooks \<Rightarrow> fifo_world hooks" where
  "fifo_hooks U H = H\<lparr>hk_init := (\<lambda>f i. fifo_init U i), hk_cleanup := (\<lambda>f i. fifo_cleanup i),
     hk_read := (\<lambda>f i d. fifo_read i d), hk_write := (\<lambda>f i d. fifo_write i d)\<rparr>"

section \<open>What the buffer does\<close>

text \<open>
  The invariant: the read pointer never moves, because nothing is ever read, and no policy is ever set. The bytes the block believes
  to hold are those before the write pointer.
\<close>

definition fifo_ok :: "(addr \<Rightarrow> ubx_type option) \<Rightarrow> u8 list \<Rightarrow> fifo_info \<Rightarrow> bool" where
  "fifo_ok T q bbi \<longleftrightarrow> 0 < ff_size bbi \<and> length (ff_buff bbi) = nat (ff_size bbi) \<and> ff_rdptr bbi = 0 \<and>
     0 \<le> ff_wrptr bbi \<and> ff_wrptr bbi < ff_size bbi \<and> \<not> ff_locked bbi \<and> ff_overrun_policy bbi = 0 \<and>
     take (nat (ff_wrptr bbi)) (ff_buff bbi) = map Some q \<and>
     (case ff_type bbi of None \<Rightarrow> ff_wrptr bbi = 0 | Some t \<Rightarrow> \<exists>ty. T t = Some ty \<and> 0 < t_size ty)"

text \<open>A write, on the bytes: what does not fit is dropped, and a buffer that is filled exactly counts as empty.\<close>

definition q_put :: "nat \<Rightarrow> u8 list \<Rightarrow> u8 list \<Rightarrow> u8 list" where
  "q_put cap bs q = (if length q + length bs > cap then q else if length q + length bs = cap then [] else q @ bs)"

text \<open>A sample the block can be given.\<close>

definition sample_ok :: "(addr \<Rightarrow> ubx_type option) \<Rightarrow> ubx_data \<Rightarrow> u8 list \<Rightarrow> bool" where
  "sample_ok T dat bs \<longleftrightarrow> (\<exists>t ty. d_type dat = Some t \<and> T t = Some ty \<and> 0 < t_size ty \<and> 0 \<le> d_len dat \<and>
     in_long (d_len dat * t_size ty) \<and> d_data dat = Buf bs \<and> length bs = nat (d_len dat * t_size ty))"

lemma set_ff_sel [simp]:
  "world (set_ff i x s) = (world s)(i := x)" "dats (set_ff i x s) = dats s" "typs (set_ff i x s) = typs s" "blks (set_ff i x s) = blks s"
  "prts (set_ff i x s) = prts s" "nd_types (set_ff i x s) = nd_types s" "next_addr (set_ff i x s) = next_addr s"
  by (simp_all add: set_ff_def)

lemma set_ff_frame: "stat_frame s (set_ff i x s)" "node_ok (set_ff i x s) = node_ok s"
  by (simp_all add: set_ff_def stat_frame_def node_ok_def)

lemma q_put_length: "length q < cap \<Longrightarrow> length (q_put cap bs q) < cap"
  by (simp add: q_put_def)

lemma fifo_ok_length: "fifo_ok T q bbi \<Longrightarrow> length q = nat (ff_wrptr bbi)"
  by (auto simp: fifo_ok_def dest!: arg_cong [of _ _ length])

lemma fifo_store_ok:
  assumes "fifo_ok T q (bbi\<lparr>ff_locked := False\<rparr>)" "int (length q + length bs) \<le> ff_size bbi"
  shows "\<exists>bbi'. fifo_store (int (length bs)) bs bbi = Some bbi' \<and> ff_type bbi' = ff_type bbi \<and> ff_size bbi' = ff_size bbi \<and>
    (ff_type bbi \<noteq> None \<or> bs = [] \<longrightarrow> fifo_ok T (q_put (nat (ff_size bbi)) bs q) (bbi'\<lparr>ff_locked := False\<rparr>))"
proof -
  have ok: "0 < ff_size bbi" "length (ff_buff bbi) = nat (ff_size bbi)" "ff_rdptr bbi = 0" "0 \<le> ff_wrptr bbi" "ff_wrptr bbi < ff_size bbi"
      "take (nat (ff_wrptr bbi)) (ff_buff bbi) = map Some q"
    using assms(1) by (simp_all add: fifo_ok_def)
  have w: "ff_wrptr bbi = int (length q)" using fifo_ok_length [OF assms(1)] ok(4) by simp
  let ?buff = "take (length q) (ff_buff bbi) @ map Some bs @ drop (length q + length bs) (ff_buff bbi)"
  have st: "fifo_store (int (length bs)) bs bbi =
      Some (bbi\<lparr>ff_buff := ?buff, ff_wrptr := (if int (length q) + int (length bs) \<ge> ff_size bbi then 0 else int (length q) + int (length bs))\<rparr>)"
    using ok assms(2) w by (auto simp: fifo_store_def Let_def copy_in_def nat_add_distrib)
  show ?thesis
    using assms ok w st by (auto simp: fifo_ok_def q_put_def nat_add_distrib split: option.splits)
qed

lemma fifo_write_ok:
  assumes ok: "fifo_ok (typs s) q bbi" and w: "world s i = Some bbi" and n: "node_ok s" "blks s i = Some blk"
    and d: "dats s d = Some dat" "sample_ok (typs s) dat bs"
  shows "\<exists>s' bbi'. fifo_write i d s = Some s' \<and> s' = set_ff i (Some bbi') s \<and> ff_size bbi' = ff_size bbi \<and>
    fifo_ok (typs s) (q_put (nat (ff_size bbi)) bs q) bbi'"
proof -
  from d(2) obtain t ty where t: "d_type dat = Some t" "typs s t = Some ty" "0 < t_size ty" "0 \<le> d_len dat" "in_long (d_len dat * t_size ty)"
      "d_data dat = Buf bs" "length bs = nat (d_len dat * t_size ty)" unfolding sample_ok_def by blast
  have pos: "0 \<le> d_len dat * t_size ty" using t(3,4) by simp
  have size: "data_size (Some d) s = Some (int (length bs))"
    using d(1) t(1,2,5,7) pos by (simp add: data_size_def long_chk_in_long)
  note log = node_ok_log [OF n]
  have lq: "length q = nat (ff_wrptr bbi)" using fifo_ok_length [OF ok] .
  have k: "\<not> ff_locked bbi" "ff_overrun_policy bbi = 0" "ff_rdptr bbi = 0" "0 \<le> ff_wrptr bbi" "ff_wrptr bbi < ff_size bbi"
    using ok by (simp_all add: fifo_ok_def)
  define b1 where "b1 = (if ff_type bbi = None then bbi\<lparr>ff_locked := True, ff_type := Some t\<rparr> else bbi\<lparr>ff_locked := True\<rparr>)"
  have ok1: "fifo_ok (typs s) q (b1\<lparr>ff_locked := False\<rparr>)" using ok t(2,3) by (auto simp: b1_def fifo_ok_def)
  have b1: "ff_size b1 = ff_size bbi" "ff_wrptr b1 = ff_wrptr bbi" "ff_rdptr b1 = 0" "ff_overrun_policy b1 = 0" "ff_type b1 \<noteq> None"
    using k by (simp_all add: b1_def)
  show ?thesis
  proof (cases "int (length bs) > ff_size bbi")
    case True
    then have "nat (ff_size bbi) < length bs" using k(4,5) by (simp add: nat_less_iff)
    then have "q_put (nat (ff_size bbi)) bs q = q" by (simp add: q_put_def)
    moreover have "fifo_write i d s = Some (set_ff i (Some (bbi\<lparr>ff_locked := False\<rparr>)) s)"
      using True w k(1) size n(2) log by (simp add: fifo_write_def)
    moreover have "bbi\<lparr>ff_locked := False\<rparr> = bbi" using k(1) by simp
    ultimately show ?thesis using ok by auto
  next
    case False
    have es: "empty_space b1 = ff_size bbi - int (length q)" using k lq b1 by (simp add: empty_space_def)
    have step: "fifo_write i d s = do {
        (go, bbi) \<leftarrow> fifo_overrun i (int (length bs)) b1 s;
        if \<not> go then Some (set_ff i (Some (bbi\<lparr>ff_locked := False\<rparr>)) s)
        else do { bbi \<leftarrow> fifo_store (int (length bs)) bs bbi; Some (set_ff i (Some (bbi\<lparr>ff_locked := False\<rparr>)) s) } }"
      using False w k(1) size d(1) t(1,6) by (auto simp: fifo_write_def b1_def buf_bytes_def Let_def intro!: arg_cong2 [of _ _ _ _ Option.bind])
    show ?thesis
    proof (cases "length q + length bs > nat (ff_size bbi)")
      case True
      then have "fifo_overrun i (int (length bs)) b1 s = Some (False, b1\<lparr>ff_overruns := ff_overruns b1 + 1\<rparr>)"
        using es k n(2) log b1 by (simp add: fifo_overrun_def DROP_NEW_def DROP_OLD_def)
      moreover have "q_put (nat (ff_size bbi)) bs q = q" using True by (simp add: q_put_def)
      moreover have "fifo_ok (typs s) q (b1\<lparr>ff_overruns := ff_overruns b1 + 1, ff_locked := False\<rparr>)"
        using ok1 by (simp add: fifo_ok_def split: option.splits)
      ultimately show ?thesis using step b1 by auto
    next
      case False
      then have fit: "int (length q + length bs) \<le> ff_size bbi" using k(4,5) by (simp only: not_less le_nat_iff)
      then have "fifo_overrun i (int (length bs)) b1 s = Some (True, b1)" using es by (simp add: fifo_overrun_def)
      moreover obtain b2 where "fifo_store (int (length bs)) bs b1 = Some b2" "ff_size b2 = ff_size b1"
          "fifo_ok (typs s) (q_put (nat (ff_size b1)) bs q) (b2\<lparr>ff_locked := False\<rparr>)"
        using fifo_store_ok [OF ok1, of bs] fit b1(1,5) by auto
      ultimately show ?thesis using step b1 by auto
    qed
  qed
qed

lemma fifo_read_ok:
  assumes ok: "fifo_ok (typs s) q bbi" and w: "world s i = Some bbi" and n: "node_ok s" "blks s i = Some blk"
    and d: "dats s d = Some dat" "sample_ok (typs s) dat bs"
  shows "fifo_read i d s = Some (if q \<noteq> [] \<and> d_type dat \<noteq> ff_type bbi then ETYPE_MISMATCH else 0, s)"
proof -
  from d(2) obtain t ty where t: "d_type dat = Some t" "typs s t = Some ty" "0 < t_size ty" "d_data dat = Buf bs" unfolding sample_ok_def by blast
  have lq: "length q = nat (ff_wrptr bbi)" using fifo_ok_length [OF ok] .
  have k: "\<not> ff_locked bbi" "ff_rdptr bbi = 0" "0 \<le> ff_wrptr bbi" "ff_wrptr bbi < ff_size bbi"
      "ff_type bbi = None \<Longrightarrow> ff_wrptr bbi = 0" "ff_type bbi = Some u \<Longrightarrow> \<exists>ty. typs s u = Some ty \<and> 0 < t_size ty" for u
    using ok by (auto simp: fifo_ok_def split: option.splits)
  have q: "q \<noteq> [] \<longleftrightarrow> ff_wrptr bbi \<noteq> 0" using lq k(3) by auto
  have same: "s\<lparr>dats := (dats s)(d \<mapsto> dat\<lparr>d_data := Buf bs\<rparr>)\<rparr> = s" using d(1) t(4) by (simp add: fun_upd_idem)
  have same2: "set_ff i (Some (bbi\<lparr>ff_rdptr := 0\<rparr>)) s = s" using w k(2) by (simp add: set_ff_def fun_upd_idem)
  show ?thesis
  proof (cases "q = []")
    case True
    then show ?thesis using w k(1,2) q by (simp add: fifo_read_def)
  next
    case ne: False
    then obtain u tu where u: "ff_type bbi = Some u" "typs s u = Some tu" "0 < t_size tu" using k(5,6) q by (cases "ff_type bbi") auto
    show ?thesis
    proof (cases "u = t")
    case False
    then show ?thesis using w k(1,2) q ne d(1) t(1,2) u(1,2) n(2) node_ok_log [OF n]
      by (simp add: fifo_read_def get_typename_def)
  next
    case True
    then show ?thesis using ne w k(1-4) q d(1) t(1,4) u same same2
      by (simp add: fifo_read_def Let_def copy_out_def buf_bytes_def c_int_def)
    qed
  qed
qed

section \<open>Sequences of operations\<close>

datatype fifo_op = F_write (fifo_data: addr) | F_read (fifo_data: addr)

fun fifo_run :: "addr \<Rightarrow> fifo_op list \<Rightarrow> fifo_world ubx \<Rightarrow> (int list \<times> fifo_world ubx) option" where
  "fifo_run i [] s = Some ([], s)"
| "fifo_run i (F_write d # ops) s = do { s \<leftarrow> fifo_write i d s; fifo_run i ops s }"
| "fifo_run i (F_read d # ops) s = do { (r, s) \<leftarrow> fifo_read i d s; (rs, s) \<leftarrow> fifo_run i ops s; Some (r # rs, s) }"

text \<open>The bytes the block believes to hold afterwards.\<close>

fun q_run :: "nat \<Rightarrow> (addr \<Rightarrow> u8 list) \<Rightarrow> fifo_op list \<Rightarrow> u8 list \<Rightarrow> u8 list" where
  "q_run cap bs [] q = q"
| "q_run cap bs (F_write d # ops) q = q_run cap bs ops (q_put cap (bs d) q)"
| "q_run cap bs (F_read d # ops) q = q_run cap bs ops q"

lemma fifo_run_ok:
  assumes "fifo_ok (typs s) q bbi" "world s i = Some bbi" "node_ok s" "blks s i = Some blk"
    and "\<forall>x \<in> set ops. \<exists>dat. dats s (fifo_data x) = Some dat \<and> sample_ok (typs s) dat (bs (fifo_data x))"
  shows "\<exists>rs s' bbi'. fifo_run i ops s = Some (rs, s') \<and> (\<forall>r \<in> set rs. r \<le> 0) \<and> s' = set_ff i (Some bbi') s \<and>
    ff_size bbi' = ff_size bbi \<and> fifo_ok (typs s) (q_run (nat (ff_size bbi)) bs ops q) bbi'"
  using assms
proof (induction ops arbitrary: s q bbi)
  case Nil
  then have "s = set_ff i (Some bbi) s" by (simp add: set_ff_def fun_upd_idem)
  with Nil show ?case by (intro exI [of _ "[]"] exI [of _ s] exI [of _ bbi]) simp
next
  case (Cons x ops)
  show ?case
  proof (cases x)
    case (F_write d)
    with Cons.prems(5) obtain dat where d: "dats s d = Some dat" "sample_ok (typs s) dat (bs d)" by auto
    from fifo_write_ok [OF Cons.prems(1-4) d] obtain b1 where
      b1: "fifo_write i d s = Some (set_ff i (Some b1) s)" "ff_size b1 = ff_size bbi" "fifo_ok (typs s) (q_put (nat (ff_size bbi)) (bs d) q) b1"
      by blast
    have "\<exists>rs s' bbi'. fifo_run i ops (set_ff i (Some b1) s) = Some (rs, s') \<and> (\<forall>r \<in> set rs. r \<le> 0) \<and>
        s' = set_ff i (Some bbi') (set_ff i (Some b1) s) \<and> ff_size bbi' = ff_size b1 \<and>
        fifo_ok (typs (set_ff i (Some b1) s)) (q_run (nat (ff_size b1)) bs ops (q_put (nat (ff_size bbi)) (bs d) q)) bbi'"
      by (rule Cons.IH) (use b1 Cons.prems in \<open>auto simp: set_ff_frame\<close>)
    moreover have "set_ff i x (set_ff i y s) = set_ff i x s" for x y by (simp add: set_ff_def)
    ultimately show ?thesis using b1(1,2) F_write by auto
  next
    case (F_read d)
    with Cons.prems(5) obtain dat where d: "dats s d = Some dat" "sample_ok (typs s) dat (bs d)" by auto
    from Cons.IH [OF Cons.prems(1-4)] Cons.prems(5) fifo_read_ok [OF Cons.prems(1-4) d] F_read show ?thesis by fastforce
  qed
qed

lemma fifo_init_ok:
  assumes "fifo_init U i s = Some (0, s1)"
  shows "\<exists>bbi. world s1 i = Some bbi \<and> fifo_ok (typs s1) [] bbi"
proof -
  obtain ok sa where m: "mem_alloc s = (ok, sa)" by (cases "mem_alloc s")
  with assms obtain len val sb where g: "getptr U ''uint32'' ''uint32_t'' i ''fifo_size'' sa = Some (len, val, sb)"
    by (auto simp: fifo_init_def split: if_split_asm)
  obtain ok' sc where m2: "mem_alloc sb = (ok', sc)" by (cases "mem_alloc sb")
  have pos: "n \<noteq> 0 \<Longrightarrow> load_u32 p s = Some n \<Longrightarrow> 0 < n" for n p and s :: "fifo_world ubx" by (auto simp: load_u32_def)
  have "\<exists>n. 0 < n \<and> fifo_alloc i n sb = Some (0, s1)"
    using assms m g pos by (cases "c_int len > 0") (auto simp: fifo_init_def split: if_split_asm intro: exI [of _ 16])
  then obtain n where n: "0 < n" "fifo_alloc i n sb = Some (0, s1)" by blast
  from n(2) m2 have "s1 = set_ff i (Some \<lparr>ff_size = n, ff_buff = replicate (nat n) None, ff_rdptr = 0, ff_wrptr = 0, ff_type = None,
      ff_overrun_policy = 0, ff_locked = False, ff_overruns = 0\<rparr>) sc" by (auto simp: fifo_alloc_def split: if_split_asm)
  with n(1) show ?thesis by (simp add: fifo_ok_def)
qed

text \<open>A fifo of 8 bytes, and a sample of type \<open>int\<close>.\<close>

definition fifo_blk :: ubx_block where
  "fifo_blk = (pipe_blk ''q'' [] (Ops_inter (Some 1) (Some 2) 0 0))\<lparr>b_configs := [30]\<rparr>"

definition fifo_node :: "fifo_world ubx" where
  "fifo_node = \<lparr>nd_name = ''n'', nd_blocks = [], nd_types = [(''int'', 1), (''uint32_t'', 2)], nd_modules = [], nd_cur_seqid = 0,
     nd_attrs = 0, nd_loglevel = 6, blks = [5 \<mapsto> fifo_blk], prts = Map.empty, cfgs = [30 \<mapsto> init_cfg ''fifo_size'' 2 41],
     typs = [1 \<mapsto> mk_type ''int'' 4, 2 \<mapsto> mk_type ''uint32_t'' 4],
     dats = [40 \<mapsto> local_data (Some 1) 1 [7, 0, 0, 0], 41 \<mapsto> local_data (Some 2) 1 [8, 0, 0, 0]], mods = Map.empty,
     static_type = (\<lambda>_. None), next_addr = 100, oom = [], world = Map.empty\<rparr>"

lemma fifo_node_init:
  "\<exists>s1. fifo_init ut_ref 5 fifo_node = Some (0, s1) \<and> node_ok s1 \<and> blks s1 5 = Some fifo_blk \<and> dats s1 = dats fifo_node \<and> typs s1 = typs fifo_node"
proof -
  have m: "mem_alloc fifo_node = (True, fifo_node)" by (simp add: mem_alloc_def fifo_node_def)
  have b: "b_nd fifo_blk" "b_configs fifo_blk = [30]" "blks fifo_node 5 = Some fifo_blk"
    by (simp_all add: fifo_blk_def pipe_blk_def inst_blk_def hooked_blk_def mk_blk_def fifo_node_def)
  have f: "config_find fifo_node (b_configs fifo_blk) ''fifo_size'' = Some (Some 30)"
    unfolding b(2) by (simp add: fifo_node_def init_cfg_def strncmp_eq_def UBX_CONFIG_NAME_MAXLEN_def)
  have g: "getptr ut_ref ''uint32'' ''uint32_t'' 5 ''fifo_size'' fifo_node = Some (1, Some 41, set_static ''cfg_getptr_uint32'' (Some 2) fifo_node)"
    using getptr_eval [OF b(3,1) f, of "init_cfg ''fifo_size'' 2 41" ut_ref "''uint32_t''" 2 41 "local_data (Some 2) 1 [8, 0, 0, 0]" "''uint32''"]
    by (simp add: fifo_node_def init_cfg_def local_data_def)
  let ?s = "set_static ''cfg_getptr_uint32'' (Some 2) fifo_node"
  have l: "load_u32 (Some 41) ?s = Some 8"
    by (simp add: load_u32_def load_bytes_def set_static_def fifo_node_def local_data_def le_word_def)
  have m2: "mem_alloc ?s = (True, ?s)" by (simp add: mem_alloc_def set_static_def fifo_node_def)
  have n: "node_ok fifo_node"
    by (auto simp: node_ok_def fifo_node_def fresh_from_def fifo_blk_def pipe_blk_def inst_blk_def hooked_blk_def mk_blk_def split: if_splits)
  show ?thesis
    using b(3) m m2 g l n by (auto simp: fifo_init_def fifo_alloc_def c_int_def set_ff_frame node_ok_static) (simp_all add: set_static_def)
qed

section \<open>Properties\<close>

text \<open>C20: after \<open>fifo_init\<close>, any sequence of writes and reads of samples of any registered types is defined: no access leaves
  the buffer, no lock is left behind. The read pointer never moves and the write pointer stays inside the buffer. No read ever returns
  data (a positive length) or changes the reader's sample, because \<open>readsz\<close> is never set; and since no overrun policy is ever set
  either, a sample that does not fit is lost, while one that fits exactly makes the fifo look empty.\<close>

theorem simple_fifo_never_delivers:
  assumes "fifo_init U i s = Some (0, s1)" "node_ok s1" "blks s1 i = Some blk"
    and "\<forall>x \<in> set ops. \<exists>dat. dats s1 (fifo_data x) = Some dat \<and> sample_ok (typs s1) dat (bs (fifo_data x))"
  shows "\<exists>rs s' bbi. fifo_run i ops s1 = Some (rs, s') \<and> (\<forall>r \<in> set rs. r \<le> 0) \<and> dats s' = dats s1 \<and> world s' i = Some bbi \<and>
    ff_rdptr bbi = 0 \<and> 0 \<le> ff_wrptr bbi \<and> ff_wrptr bbi < ff_size bbi \<and> length (ff_buff bbi) = nat (ff_size bbi) \<and> \<not> ff_locked bbi \<and>
    take (nat (ff_wrptr bbi)) (ff_buff bbi) = map Some (q_run (nat (ff_size bbi)) bs ops [])"
proof -
  from fifo_init_ok [OF assms(1)] obtain b0 where "world s1 i = Some b0" "fifo_ok (typs s1) [] b0" by blast
  with fifo_run_ok [OF _ _ assms(2-4)] obtain rs bbi where
    "fifo_run i ops s1 = Some (rs, set_ff i (Some bbi) s1)" "\<forall>r \<in> set rs. r \<le> 0" "ff_size bbi = ff_size b0"
    "fifo_ok (typs s1) (q_run (nat (ff_size b0)) bs ops []) bbi"
    by blast
  then show ?thesis
    by (intro exI [of _ rs] exI [of _ "set_ff i (Some bbi) s1"] exI [of _ bbi]) (simp add: fifo_ok_def)
qed

theorem simple_fifo_never_delivers_witness:
  "\<exists>s1 rs s'. fifo_init ut_ref 5 fifo_node = Some (0, s1) \<and>
     fifo_run 5 [F_write 40, F_read 40, F_write 40, F_read 40] s1 = Some (rs, s') \<and> (\<forall>r \<in> set rs. r \<le> 0)"
proof -
  from fifo_node_init obtain s1 where s1: "fifo_init ut_ref 5 fifo_node = Some (0, s1)" "node_ok s1" "blks s1 5 = Some fifo_blk"
      "dats s1 = dats fifo_node" "typs s1 = typs fifo_node" by blast
  have "dats s1 40 = Some (local_data (Some 1) 1 [7, 0, 0, 0])" "typs s1 1 = Some (mk_type ''int'' 4)"
    unfolding s1(4,5) by (simp_all add: fifo_node_def)
  then have "\<forall>x \<in> set [F_write 40, F_read 40, F_write 40, F_read 40]. \<exists>dat. dats s1 (fifo_data x) = Some dat \<and>
      sample_ok (typs s1) dat [7, 0, 0, 0]"
    by (auto simp: sample_ok_def local_data_def mk_type_def in_long_def LONG_MAX_def)
  from simple_fifo_never_delivers [OF s1(1-3) this] s1(1) show ?thesis by blast
qed

end
