(* ===== verification/Ubx_Const.thy ===== *)
theory Ubx_Const
  imports Ubx_Signal
begin

text \<open>
  The constant value block, \<^verbatim>\<open>std_blocks/const/const.c\<close>, which is compiled twice: as a computation block (\<open>cconst\<close>) that
  writes the value of its config, and as an interaction block (\<open>iconst\<close>, with \<open>BUILD_IBLOCK\<close>) that delivers it.
\<close>

section \<open>The block\<close>

text \<open>\<open>struct const_info\<close>; the field \<open>value\<close> is never used.\<close>

record const_info =
  cn_type :: ptr
  cn_data_len :: int
  cn_data :: ptr
  cn_p_out :: ptr

type_synonym 'w const_node = "('w, const_info) blk_world ubx"

text \<open>The config \<open>value\<close> and, in a computation block, the port \<open>out\<close> are added when the type is known. An error frees the private
  data.\<close>

definition const_add :: "bool \<Rightarrow> ut_lib \<Rightarrow> addr \<Rightarrow> const_info \<Rightarrow> string \<Rightarrow> 'w const_node \<Rightarrow> (int \<times> 'w const_node) option" where
  "const_add ib U b bi type_name s = do {
     (ret, s) \<leftarrow> ubx_config_add U (Some b) (Some ''value'') None (Some type_name) s;
     if ret \<noteq> 0 then Some (ret, set_priv b None s)
     else if ib then Some (0, set_priv b (Some bi) s)
     else do {
       (ret, s) \<leftarrow> ubx_outport_add U (Some b) (Some ''out'') (Some ''const value output port'') 0 (Some type_name) (cn_data_len bi) s;
       if ret \<noteq> 0 then Some (ret, set_priv b None s) else Some (0, set_priv b (Some bi) s) } }"

definition const_init :: "bool \<Rightarrow> ut_lib \<Rightarrow> addr \<Rightarrow> 'w const_node \<Rightarrow> (int \<times> 'w const_node) option" where
  "const_init ib U b s = do {
     blk \<leftarrow> blks s b;
     let (ok, s) = mem_alloc s;
     if \<not> ok then do { _ \<leftarrow> ubx_block_log blk s; Some (EOUTOFMEM, set_priv b None s) }
     else do {
       (len, p, s) \<leftarrow> getptr U ''char'' ''char'' b ''type_name'' s;
       if len < 0 then None
       else if len = 0 then do { _ \<leftarrow> ubx_block_log blk s; Some (EINVALID_CONFIG, set_priv b None s) }
       else do {
         type_name \<leftarrow> load_string p s;
         if \<not> b_nd blk then None
         else (case ubx_type_get U s (Some type_name) of
             None \<Rightarrow> do { _ \<leftarrow> ubx_block_log blk s; Some (EINVALID_CONFIG, set_priv b None s) }
           | Some t \<Rightarrow> do {
               r \<leftarrow> getptr U ''long'' ''long'' b ''data_len'' s;
               (data_len, s) \<leftarrow> cfg_or load_long 1 r;
               const_add ib U b \<lparr>cn_type = Some t, cn_data_len = data_len, cn_data = None, cn_p_out = None\<rparr> type_name s }) } } }"

definition const_start :: "bool \<Rightarrow> addr \<Rightarrow> 'w const_node \<Rightarrow> (int \<times> 'w const_node) option" where
  "const_start ib b s = do {
     bi \<leftarrow> get_priv b s;
     data \<leftarrow> ubx_config_get_data (Some b) (Some ''value'') s;
     let bi = bi\<lparr>cn_data := data\<rparr>;
     d \<leftarrow> data;
     dat \<leftarrow> dats s d;
     if d_len dat \<noteq> cn_data_len bi
     then do { blk \<leftarrow> blks s b; _ \<leftarrow> ubx_block_log blk s; Some (EINVALID_CONFIG_LEN, set_priv b (Some bi) s) }
     else if ib then Some (0, set_priv b (Some bi) s)
     else do {
       p \<leftarrow> ubx_port_get (Some b) (Some ''out'') s;
       if p = None then None else Some (0, set_priv b (Some (bi\<lparr>cn_p_out := p\<rparr>)) s) } }"

text \<open>A reader of another length is told so in the log, and then given as many bytes as it asks for.\<close>

definition const_read :: "addr \<Rightarrow> addr \<Rightarrow> 'w const_node \<Rightarrow> (int \<times> 'w const_node) option" where
  "const_read i d s = do {
     bi \<leftarrow> get_priv i s;
     dat \<leftarrow> dats s d;
     blk \<leftarrow> blks s i;
     if cn_type bi \<noteq> d_type dat
     then do {
       _ \<leftarrow> ubx_block_log blk s;
       ta \<leftarrow> d_type dat; ty \<leftarrow> typs s ta;
       v \<leftarrow> cn_data bi; val \<leftarrow> dats s v; tb \<leftarrow> d_type val; ty' \<leftarrow> typs s tb;
       Some (EINVALID_TYPE, s) }
     else do {
       _ \<leftarrow> (if cn_data_len bi \<noteq> d_len dat then ubx_block_log blk s else Some ());
       v \<leftarrow> cn_data bi;
       val \<leftarrow> dats s v;
       n \<leftarrow> data_size (Some d) s;
       dst \<leftarrow> buf_bytes (d_data dat);
       src \<leftarrow> buf_bytes (d_data val);
       dst \<leftarrow> memcpy dst src n;
       Some (cn_data_len bi, s\<lparr>dats := (dats s)(d \<mapsto> dat\<lparr>d_data := Buf dst\<rparr>)\<rparr>) } }"

definition const_step :: "('w, const_info) blk_world hooks \<Rightarrow> addr \<Rightarrow> 'w const_node \<Rightarrow> 'w const_node option" where
  "const_step H b s = do { bi \<leftarrow> get_priv b s; d \<leftarrow> cn_data bi; port_write H (cn_p_out bi) d s }"

definition const_cleanup :: "bool \<Rightarrow> ut_lib \<Rightarrow> addr \<Rightarrow> 'w const_node \<Rightarrow> 'w const_node option" where
  "const_cleanup ib U b s = do {
     (r, s) \<leftarrow> (if ib then Some (0, s) else ubx_port_rm U (Some b) (Some ''out'') s);
     (r, s) \<leftarrow> ubx_config_rm U (Some b) (Some ''value'') s;
     bi \<leftarrow> get_priv b s;
     Some (set_priv b None s) }"

section \<open>Delivering the value\<close>

text \<open>A computation block that is started with a value of the right length writes exactly that value in each step.\<close>

definition const_ready :: "addr set \<Rightarrow> addr \<Rightarrow> addr list \<Rightarrow> ubx_data \<Rightarrow> 'w const_node \<Rightarrow> bool" where
  "const_ready own b outs dat s \<longleftrightarrow> (\<exists>bi d p prt. get_priv b s = Some bi \<and> cn_data bi = Some d \<and> dats s d = Some dat \<and> cn_p_out bi = Some p \<and>
     prts s p = Some prt \<and> p_out_type prt = d_type dat \<and> d_type dat \<noteq> None \<and> p_out_interaction prt = Some outs \<and> set outs \<subseteq> own)"

lemma const_start_ready:
  assumes "get_priv b s = Some bi" "ubx_config_get_data (Some b) (Some ''value'') s = Some (Some d)" "dats s d = Some dat"
    "d_len dat = cn_data_len bi" "ubx_port_get (Some b) (Some ''out'') s = Some (Some p)" "prts s p = Some prt" "p_out_type prt = d_type dat"
    "d_type dat \<noteq> None" "p_out_interaction prt = Some outs" "set outs \<subseteq> own"
  shows "\<exists>s'. const_start False b s = Some (0, s') \<and> const_ready own b outs dat s' \<and> fst (world s') = fst (world s)"
proof -
  let ?bi = "bi\<lparr>cn_data := Some d, cn_p_out := Some p\<rparr>"
  let ?s = "set_priv b (Some ?bi) s"
  have "const_start False b s = Some (0, ?s)" using assms by (simp add: const_start_def)
  moreover have "const_ready own b outs dat ?s"
    unfolding const_ready_def by (rule exI [of _ ?bi], rule exI [of _ d], rule exI [of _ p], rule exI [of _ prt]) (use assms in simp)
  moreover have "fst (world ?s) = fst (world s)" by simp
  ultimately show ?thesis by blast
qed

lemma const_step_ok:
  assumes io: "block_io H own iok fit rd wr" and "iok s" "const_ready own b outs dat s" "fit dat"
  shows "\<exists>s'. const_step H b s = Some s' \<and> iok s' \<and> const_ready own b outs dat s' \<and>
    fst (world s') = fold (\<lambda>ib. wr ib dat) (active s outs) (fst (world s))"
proof -
  from assms(3) obtain bi d p prt where r: "get_priv b s = Some bi" "cn_data bi = Some d" "dats s d = Some dat" "cn_p_out bi = Some p"
      "prts s p = Some prt" "p_out_type prt = d_type dat" "d_type dat \<noteq> None" "p_out_interaction prt = Some outs" "set outs \<subseteq> own"
    unfolding const_ready_def by blast
  have ty: "p_out_type prt \<noteq> None" "d_type dat = p_out_type prt" using r(6,7) by simp_all
  from io_hooks.port_write_ok [OF block_io.axioms(1) [OF io] assms(2) r(5) ty(1) r(3) ty(2) assms(4) r(8,9)] obtain s' where
    s': "port_write H (Some p) d s = Some s'" "stat_frame s s'" "dats s' = dats s" "iok s'"
      "world s' = fold (\<lambda>ib. lift_wr wr ib dat) (active s outs) (world s)" by blast
  then have w: "world s' = (fold (\<lambda>ib. wr ib dat) (active s outs) (fst (world s)), snd (world s))" by (simp add: fold_lift)
  have "const_ready own b outs dat s'"
    unfolding const_ready_def by (rule exI [of _ bi], rule exI [of _ d], rule exI [of _ p], rule exI [of _ prt])
      (use r s'(2,3) w in \<open>simp add: get_priv_def stat_frame_def\<close>)
  with s'(1,4) w r(1,2,4) show ?thesis by (intro exI [of _ s']) (simp add: const_step_def)
qed

text \<open>Reading an interaction block: the value, an error, or undefined behaviour.\<close>

definition const_holds :: "addr \<Rightarrow> addr \<Rightarrow> int \<Rightarrow> int \<Rightarrow> u8 list \<Rightarrow> 'w const_node \<Rightarrow> bool" where
  "const_holds i t sz n bs s \<longleftrightarrow> node_ok s \<and> blks s i \<noteq> None \<and> 0 < sz \<and> 0 \<le> n \<and> length bs = nat (n * sz) \<and>
     (\<exists>ty. typs s t = Some ty \<and> t_size ty = sz) \<and>
     (\<exists>bi v val. get_priv i s = Some bi \<and> cn_type bi = Some t \<and> cn_data_len bi = n \<and> cn_data bi = Some v \<and> dats s v = Some val \<and>
       d_type val = Some t \<and> d_data val = Buf bs)"

lemma const_read_cases:
  assumes h: "const_holds i t sz n bs s" and d: "dats s d = Some dat" "d_type dat = Some u" "typs s u = Some tu" "d_data dat = Buf old"
    and m: "u = t \<longrightarrow> 0 \<le> d_len dat \<and> in_long (d_len dat * sz) \<and> length old = nat (d_len dat * sz)"
  shows "const_read i d s =
    (if u \<noteq> t then Some (EINVALID_TYPE, s)
     else if d_len dat > n then None
     else Some (n, s\<lparr>dats := (dats s)(d \<mapsto> dat\<lparr>d_data := Buf (take (nat (d_len dat * sz)) bs)\<rparr>)\<rparr>))"
proof -
  from h obtain blk ty bi v val where h: "node_ok s" "blks s i = Some blk" "0 < sz" "0 \<le> n" "length bs = nat (n * sz)" "typs s t = Some ty" "t_size ty = sz"
      "get_priv i s = Some bi" "cn_type bi = Some t" "cn_data_len bi = n" "cn_data bi = Some v" "dats s v = Some val" "d_type val = Some t" "d_data val = Buf bs"
    unfolding const_holds_def by blast
  note log = node_ok_log [OF h(1,2)]
  show ?thesis
  proof (cases "u = t")
    case False
    then show ?thesis using h d log by (simp add: const_read_def)
  next
    case True
    then have size: "data_size (Some d) s = Some (d_len dat * sz)" using d h(6,7) m by (simp add: data_size_def long_chk_in_long)
    have le: "d_len dat * sz \<le> n * sz \<longleftrightarrow> d_len dat \<le> n" using h(3) by simp
    have "memcpy old bs (d_len dat * sz) = (if d_len dat > n then None else Some (take (nat (d_len dat * sz)) bs))"
      using True m h(3-5) le by (auto simp: memcpy_def nat_le_eq_zle not_less)
    with True h d log size show ?thesis by (simp add: const_read_def buf_bytes_def)
  qed
qed

end
