(* ===== verification/Ubx_Rand.thy ===== *)
theory Ubx_Rand
  imports Ubx_Elem
begin

text \<open>
  The random number generators: \<^verbatim>\<open>std_blocks/rand/rand.c\<close>, on the functions \<open>drand48\<close>, \<open>lrand48\<close> and
  \<open>mrand48\<close> of the C library, and the example \<^verbatim>\<open>std_blocks/examples/random.c\<close>, on \<open>random\<close>. The generators are
  one per process: their state is passed along beside the state of the node.
\<close>

section \<open>The generator of the C library\<close>

text \<open>POSIX fixes the generator: 48 bits, \<open>X' = (0x5DEECE66D * X + 0xB) mod 2 ^ 48\<close>.\<close>

type_synonym rand48 = nat

definition rand48_next :: "rand48 \<Rightarrow> rand48" where
  "rand48_next x = (0x5DEECE66D * x + 0xB) mod 2 ^ 48"

text \<open>The high 32 bits become the low 32 bits of the seed, the low 16 bits \<open>0x330E\<close>.\<close>

definition srand48 :: "int \<Rightarrow> rand48" where
  "srand48 seed = nat (seed mod 2 ^ 32) * 2 ^ 16 + 0x330E"

definition drand48 :: "rand48 \<Rightarrow> dbl \<times> rand48" where
  "drand48 x = (let x = rand48_next x in (dbl_round False x (1075 - 48), x))"

definition lrand48 :: "rand48 \<Rightarrow> int \<times> rand48" where
  "lrand48 x = (let x = rand48_next x in (int (x div 2 ^ 17), x))"

definition mrand48 :: "rand48 \<Rightarrow> int \<times> rand48" where
  "mrand48 x = (let x = rand48_next x in (sint (of_nat (x div 2 ^ 16) :: u32), x))"

section \<open>The block \<open>rand\<close>\<close>

record rand_info =
  rn_p_out :: ptr

type_synonym 'w rand_node = "('w, rand_info) blk_world ubx"

definition rand_init :: "ut_lib \<Rightarrow> addr \<Rightarrow> rand48 \<Rightarrow> 'w rand_node \<Rightarrow> (int \<times> rand48 \<times> 'w rand_node) option" where
  "rand_init U b x s = do {
     blk \<leftarrow> blks s b;
     let (ok, s) = mem_alloc s;
     if \<not> ok then do { _ \<leftarrow> ubx_block_log blk s; Some (EOUTOFMEM, x, set_priv b None s) }
     else do {
       r \<leftarrow> getptr U ''long'' ''long'' b ''seed'' s;
       (seed, s) \<leftarrow> cfg_or load_long 0 r;
       p \<leftarrow> ubx_port_get (Some b) (Some ''out'') s;
       if p = None then None else Some (0, srand48 seed, set_priv b (Some \<lparr>rn_p_out = p\<rparr>) s) } }"

definition rand_cleanup :: "addr \<Rightarrow> 'w rand_node \<Rightarrow> 'w rand_node option" where
  "rand_cleanup b s = do { bi \<leftarrow> get_priv b s; Some (set_priv b None s) }"

text \<open>The variants, by the element type: what is drawn, and the accessor it is written with. \<open>cast\<close> is the conversion of a
  \<open>double\<close> to the bytes of a \<open>float\<close>.\<close>

datatype rand_type = R_float | R_double | R_uint32 | R_int32

definition rand_draw :: "(dbl \<Rightarrow> u8 list) \<Rightarrow> rand_type \<Rightarrow> rand48 \<Rightarrow> u8 list \<times> rand48" where
  "rand_draw cast T x =
     (case T of
        R_float \<Rightarrow> (case drand48 x of (v, x) \<Rightarrow> (cast v, x))
      | R_double \<Rightarrow> (case drand48 x of (v, x) \<Rightarrow> (bytes_of_dbls [v], x))
      | R_uint32 \<Rightarrow> (case lrand48 x of (v, x) \<Rightarrow> (word_enc (word_of_int v :: u32), x))
      | R_int32 \<Rightarrow> (case mrand48 x of (v, x) \<Rightarrow> (word_enc (word_of_int v :: u32), x)))"

definition rand_suffix :: "rand_type \<Rightarrow> string" where
  "rand_suffix T = (case T of R_float \<Rightarrow> ''float'' | R_double \<Rightarrow> ''double'' | R_uint32 \<Rightarrow> ''uint32'' | R_int32 \<Rightarrow> ''int32'')"

definition rand_step ::
  "(dbl \<Rightarrow> u8 list) \<Rightarrow> rand_type \<Rightarrow> ut_lib \<Rightarrow> ('w, rand_info) blk_world hooks \<Rightarrow> addr \<Rightarrow> rand48 \<Rightarrow> 'w rand_node \<Rightarrow> (rand48 \<times> 'w rand_node) option" where
  "rand_step cast T U H b x s = do {
     bi \<leftarrow> get_priv b s;
     let (val, x) = rand_draw cast T x;
     (r, s) \<leftarrow> write_one U H (rand_suffix T) (rn_p_out bi) val s;
     Some (x, s) }"

lemma rand48_next_less: "rand48_next x < 2 ^ 48"
  by (simp add: rand48_next_def)

lemma srand48_less: "srand48 seed < 2 ^ 48"
proof -
  have "nat (seed mod 2 ^ 32) < 2 ^ 32" by (simp add: nat_less_iff)
  then have "nat (seed mod 2 ^ 32) * 2 ^ 16 \<le> (2 ^ 32 - 1) * 2 ^ 16" by (intro mult_right_mono) simp_all
  then show ?thesis by (simp add: srand48_def)
qed

text \<open>Different seeds (modulo \<open>2 ^ 32\<close>) start the generator in different states, and the generator is a bijection on its states.\<close>

lemma srand48_inj: "srand48 a = srand48 b \<longleftrightarrow> a mod 2 ^ 32 = b mod 2 ^ 32"
  by (auto simp: srand48_def nat_eq_iff)

lemma rand48_next_inj:
  assumes "x < 2 ^ 48" "y < 2 ^ 48" "rand48_next x = rand48_next y"
  shows "x = y"
proof -
  have "(0x5DEECE66D * int x + 0xB) mod 2 ^ 48 = (0x5DEECE66D * int y + 0xB) mod 2 ^ 48"
    using arg_cong [OF assms(3), of int] by (simp add: rand48_next_def zmod_int)
  then have "2 ^ 48 dvd (0x5DEECE66D * int x + 0xB) - (0x5DEECE66D * int y + 0xB)" by (simp only: mod_eq_dvd_iff)
  then have d: "(2 :: int) ^ 48 dvd 0x5DEECE66D * (int x - int y)" by (simp add: algebra_simps)
  have "coprime (2 :: int) 0x5DEECE66D" by (simp add: coprime_left_2_iff_odd)
  then have "coprime ((2 :: int) ^ 48) 0x5DEECE66D" by (simp only: coprime_power_left_iff) simp
  with d have "(2 :: int) ^ 48 dvd int x - int y" by (simp only: coprime_dvd_mult_right_iff)
  moreover have "\<bar>int x - int y\<bar> < 2 ^ 48" using assms(1,2) by simp
  ultimately have "int x - int y = 0" using zdvd_imp_le [of "2 ^ 48" "\<bar>int x - int y\<bar>"] by (cases "int x - int y = 0") auto
  then show ?thesis by simp
qed

text \<open>\<open>drand48\<close> is in \<open>[0, 1)\<close>, \<open>lrand48\<close> in \<open>[0, 2 ^ 31)\<close>: the result fits the \<open>int32\<close> and \<open>uint32\<close> of the variants.\<close>

lemma drand48_unit: "Dbl 0 \<le> fst (drand48 x)" "fst (drand48 x) < Dbl 0x3FF0000000000000"
proof -
  have n: "rand48_next x < 2 ^ 48" by (rule rand48_next_less)
  then have "rand48_next x < 2 ^ 53" by (rule less_trans) simp
  note u = dbl_round_unit [OF this n]
  show "Dbl 0 \<le> fst (drand48 x)" "fst (drand48 x) < Dbl 0x3FF0000000000000"
    using u by (simp_all add: drand48_def Let_def)
qed

lemma lrand48_range: "0 \<le> fst (lrand48 x) \<and> fst (lrand48 x) < 2 ^ 31"
proof -
  have "rand48_next x < 2 ^ 31 * 2 ^ 17" using rand48_next_less [of x] by simp
  then have "rand48_next x div 2 ^ 17 < 2 ^ 31" by (simp add: div_less_iff_less_mult)
  then have "int (rand48_next x div 2 ^ 17) < int (2 ^ 31)" by (simp only: of_nat_less_iff)
  then show ?thesis by (simp add: lrand48_def Let_def)
qed

section \<open>The block \<open>ubx/random\<close>\<close>

text \<open>The example block draws with \<open>random\<close>, whose algorithm is the library's: a function \<open>random\<close> on a state of its own,
  and \<open>srandom\<close>.\<close>

record random_info =
  ri_min :: u32
  ri_max :: u32

type_synonym 'w rnd_node = "('w, random_info) blk_world ubx"

definition rnd_init :: "addr \<Rightarrow> 'w rnd_node \<Rightarrow> (int \<times> 'w rnd_node) option" where
  "rnd_init b s = do {
     blk \<leftarrow> blks s b;
     let (ok, s) = mem_alloc s;
     if \<not> ok then do { _ \<leftarrow> ubx_block_log blk s; Some (EOUTOFMEM, set_priv b None s) }
     else Some (0, set_priv b (Some \<lparr>ri_min = 0, ri_max = 0\<rparr>) s) }"

definition rnd_cleanup :: "addr \<Rightarrow> 'w rnd_node \<Rightarrow> 'w rnd_node option" where
  "rnd_cleanup b s = do { bi \<leftarrow> get_priv b s; Some (set_priv b None s) }"

definition rnd_range :: "ptr \<Rightarrow> int \<Rightarrow> 'w rnd_node \<Rightarrow> random_info option" where
  "rnd_range p len s =
     (if len = 0 then Some \<lparr>ri_min = 0, ri_max = 2 ^ 31 - 1\<rparr>
      else do {
        xs \<leftarrow> load_elems (uint_elem :: u32 elem) p 2 s;
        Some \<lparr>ri_min = xs ! 0, ri_max = xs ! 1\<rparr> })"

text \<open>\<open>junk\<close> is the value of the uninitialised \<open>seed\<close>. The result of \<open>read_uint\<close> is kept in a \<open>uint32_t\<close>.\<close>

definition rnd_start ::
  "(u32 \<Rightarrow> 'r) \<Rightarrow> ut_lib \<Rightarrow> ('w, random_info) blk_world hooks \<Rightarrow> u32 \<Rightarrow> addr \<Rightarrow> 'r \<Rightarrow> 'w rnd_node \<Rightarrow> (int \<times> 'r \<times> 'w rnd_node) option" where
  "rnd_start srandom U H junk b r s = do {
     bi \<leftarrow> get_priv b s;
     (len, p, s) \<leftarrow> getptr U ''random_config'' ''struct random_config'' b ''min_max_config'' s;
     blk \<leftarrow> blks s b;
     if len < 0 then do { _ \<leftarrow> ubx_block_log blk s; Some (-1, r, s) }
     else do {
       bi \<leftarrow> rnd_range p len s;
       let s = set_priv b (Some bi) s;
       port \<leftarrow> ubx_port_get (Some b) (Some ''seed'') s;
       (n, seed, s) \<leftarrow> read_one U H ''uint'' port (word_enc junk) s;
       blk \<leftarrow> blks s b;
       _ \<leftarrow> ubx_block_log blk s;
       Some (0, if (word_of_int n :: u32) > 0 then srandom (of_nat (le_word seed)) else r, s) } }"

definition rnd_clamp :: "u32 \<Rightarrow> u32 \<Rightarrow> u32 \<Rightarrow> u32 option" where
  "rnd_clamp lo hi v = do {
     v \<leftarrow> (if v > hi then if hi = 0 then None else Some (v mod hi) else Some v);
     if v < lo then if hi = 0 then None else Some ((lo + v) mod hi) else Some v }"

definition rnd_step ::
  "('r \<Rightarrow> nat \<times> 'r) \<Rightarrow> ut_lib \<Rightarrow> ('w, random_info) blk_world hooks \<Rightarrow> addr \<Rightarrow> 'r \<Rightarrow> 'w rnd_node \<Rightarrow> ('r \<times> 'w rnd_node) option" where
  "rnd_step random U H b r s = do {
     bi \<leftarrow> get_priv b s;
     port \<leftarrow> ubx_port_get (Some b) (Some ''rnd'') s;
     let (v, r) = random r;
     rand_val \<leftarrow> rnd_clamp (ri_min bi) (ri_max bi) (of_nat v);
     (n, s) \<leftarrow> write_one U H ''uint'' port (word_enc rand_val) s;
     Some (r, s) }"

text \<open>A value is never above the maximum, and the default range leaves what \<open>random\<close> returns as it is. The minimum is no bound:
  adding it may wrap around the maximum.\<close>

lemma rnd_clamp_le:
  assumes "0 < hi"
  shows "\<exists>v'. rnd_clamp lo hi v = Some v' \<and> v' \<le> hi"
proof -
  have "x mod hi \<le> hi" for x :: u32
    using assms by (simp add: word_le_nat_alt word_less_nat_alt unat_mod less_imp_le)
  with assms show ?thesis by (auto simp: rnd_clamp_def not_less)
qed

lemma rnd_clamp_default: "v < 2 ^ 31 \<Longrightarrow> rnd_clamp 0 (2 ^ 31 - 1) (of_nat v) = Some (of_nat v)"
  by (simp add: rnd_clamp_def word_less_nat_alt unat_of_nat)

lemma rnd_clamp_below_min: "rnd_clamp 8 10 5 = Some 3"
  by (simp add: rnd_clamp_def)

lemma rnd_clamp_zero_max: "rnd_clamp 0 0 v = (if v = 0 then Some 0 else None)"
  by (simp add: rnd_clamp_def word_neq_0_conv)

text \<open>An error of the read is taken for a seed that was read: the generator is seeded with the uninitialised variable.\<close>

lemma rnd_start_seeds_on_error:
  assumes "get_priv b s = Some bi" "getptr U ''random_config'' ''struct random_config'' b ''min_max_config'' s = Some (0, p, s1)"
    "node_ok s1" "blks s1 b = Some blk" "ubx_port_get (Some b) (Some ''seed'') (set_priv b (Some \<lparr>ri_min = 0, ri_max = 2 ^ 31 - 1\<rparr>) s1) = Some port"
    "read_one U H ''uint'' port (word_enc junk) (set_priv b (Some \<lparr>ri_min = 0, ri_max = 2 ^ 31 - 1\<rparr>) s1) = Some (n, word_enc junk, s2)"
    "- (2 ^ 31) \<le> n" "n < 0" "node_ok s2" "blks s2 b = Some blk2"
  shows "rnd_start srandom U H junk b r s = Some (0, srandom junk, s2)"
proof -
  have "(word_of_int n :: u32) \<noteq> 0"
  proof
    assume "(word_of_int n :: u32) = 0"
    then have "2 ^ 32 dvd n" by (simp add: word_of_int_eq_0_iff)
    then obtain k where "n = 2 ^ 32 * k" by (elim dvdE)
    with assms(7,8) show False by simp
  qed
  then have "0 < (word_of_int n :: u32)" by (simp add: word_neq_0_conv)
  with assms node_ok_log [OF assms(3,4)] node_ok_log [OF assms(9,10)] show ?thesis
    by (simp add: rnd_start_def rnd_range_def le_word_enc)
qed

end
