(* ===== verification/Ubx_Hexdump.thy ===== *)
theory Ubx_Hexdump
  imports Ubx_Signal
begin

text \<open>
  The interaction block that dumps what is written to it, \<^verbatim>\<open>std_blocks/hexdump/hexdump.c\<close>. The world is the text printed to
  the standard output so far.
\<close>

definition ascii_rep :: "u8 \<Rightarrow> char" where
  "ascii_rep b = (if b < 32 then CHR ''.'' else char_of (unat b))"

text \<open>The bytes as two hex digits and a space each, a space for each byte that is missing to the width, and the bytes as characters. The
  lengths are of type \<open>unsigned long\<close>.\<close>

definition hexdump :: "u8 list \<Rightarrow> u64 \<Rightarrow> u64 \<Rightarrow> string option" where
  "hexdump buf index width =
     (if unat index > length buf then None
      else (let bs = take (unat index) buf
        in Some (concat (map (\<lambda>b. sprintf_02x b @ '' '') bs) @ replicate (unat width - unat index) (CHR '' '') @ '': '' @
          map ascii_rep bs @ [char_of (10 :: nat)])))"

definition hexdump_write :: "addr \<Rightarrow> addr \<Rightarrow> string ubx \<Rightarrow> string ubx option" where
  "hexdump_write i d s = do {
     typename \<leftarrow> get_typename (Some d) s;
     blk \<leftarrow> blks s i;
     let head = b_name blk @ '' ('' @ (case typename of Some t \<Rightarrow> t | None \<Rightarrow> ''unknown'') @ ''): '';
     dat \<leftarrow> dats s d;
     n \<leftarrow> data_size (Some d) s;
     text \<leftarrow> hexdump (case d_data dat of Buf bs \<Rightarrow> bs | _ \<Rightarrow> []) (word_of_int n) 16;
     Some (s\<lparr>world := world s @ head @ text\<rparr>) }"

section \<open>What is printed\<close>

text \<open>Reading a dump back.\<close>

fun undump :: "nat \<Rightarrow> string \<Rightarrow> u8 list" where
  "undump 0 t = []"
| "undump (Suc n) t = ucast (strtoul16 (take 2 t)) # undump n (drop 3 t)"

lemma sprintf_02x_length [simp]: "length (sprintf_02x b) = 2"
  by (simp add: sprintf_02x_def)

lemma undump_hex: "undump (length bs) (concat (map (\<lambda>b. sprintf_02x b @ '' '') bs) @ t) = bs"
  by (induction bs) (simp_all add: strtoul16_sprintf)

text \<open>The dump shows every byte: it can be read back. A line has one space per missing byte, where a byte takes three characters.\<close>

lemma hexdump_exact:
  assumes "length bs < 2 ^ 63"
  shows "\<exists>text. hexdump bs (word_of_int (int (length bs))) width = Some text \<and> undump (length bs) text = bs \<and>
    length text = 4 * length bs + (unat width - length bs) + 3"
proof -
  have n: "unat (word_of_int (int (length bs)) :: u64) = length bs"
    using assms by (simp add: unat_of_nat)
  have "length (concat (map (\<lambda>b. sprintf_02x b @ '' '') bs)) = 3 * length bs" by (induction bs) simp_all
  with n show ?thesis by (simp add: hexdump_def undump_hex)
qed

text \<open>A sample of a registered type is printed in full behind the names of the block and of the type, and nothing else changes.\<close>

lemma hexdump_write_exact:
  assumes "blks s i = Some blk" "b_name blk = name" "dats s d = Some dat" "d_type dat = Some t" "typs s t = Some ty" "d_data dat = Buf bs"
    "d_len dat * t_size ty = int (length bs)" "length bs < 2 ^ 63"
  shows "\<exists>text. hexdump_write i d s = Some (s\<lparr>world := world s @ name @ '' ('' @ (case t_name ty of Some n \<Rightarrow> n | None \<Rightarrow> ''unknown'') @ ''): '' @ text\<rparr>) \<and>
    undump (length bs) text = bs"
proof -
  have sz: "data_size (Some d) s = Some (int (length bs))" using assms by (simp add: data_size_def long_chk_in_long in_long_def LONG_MAX_def)
  from hexdump_exact [OF assms(8), of 16] obtain out where
    "hexdump bs (word_of_int (int (length bs))) 16 = Some out" "undump (length bs) out = bs" by blast
  with assms sz show ?thesis
    by (intro exI [of _ out]) (auto simp: hexdump_write_def get_typename_def split: option.split)
qed

end
