(* ===== verification/Ubx_Demo.thy ===== *)
theory Ubx_Demo
  imports Ubx_Modules Ubx_Elem
begin

text \<open>
  The example \<^verbatim>\<open>std_blocks/examples/skelleton.c\<close> and the tables of \<^verbatim>\<open>std_blocks/examples/random.c\<close> (its
  hooks are in \<^verbatim>\<open>Ubx_Rand\<close>).
\<close>

section \<open>The tables of \<open>ubx/random\<close>\<close>

definition random_config_type :: "ubx_type list" where
  "random_config_type = [def_struct_type ''struct random_config'' 8]"

definition rnd_config :: "ubx_proto_config list" where
  "rnd_config = [
     cfg_entry ''loglevel'' ''int'' 0 0 None,
     cfg_entry ''min_max_config'' ''struct random_config'' 1 1 None]"

definition rnd_ports :: "ubx_proto_port list" where
  "rnd_ports = [
     (in_entry ''seed'' ''unsigned int'' '''')\<lparr>pp_doc := None\<rparr>,
     (out_entry ''rnd'' ''unsigned int'' 0 '''')\<lparr>pp_doc := None\<rparr>]"

definition random_comp :: "(string \<Rightarrow> fptr) \<Rightarrow> ubx_proto_block" where
  "random_comp fp = \<lparr>pb_name = ''ubx/random'', pb_meta_data = Some ''{ doc='A random number generator function block',  realtime=true,}'',
     pb_attrs = 0, pb_type = BLOCK_TYPE_COMPUTATION, pb_configs = rnd_config, pb_ports = rnd_ports,
     pb_init = Some (fp ''rnd_init''), pb_start = Some (fp ''rnd_start''), pb_stop = None, pb_cleanup = Some (fp ''rnd_cleanup''),
     pb_step = Some (fp ''rnd_step''), pb_read = None, pb_write = None\<rparr>"

definition rnd_module_init :: "ut_lib \<Rightarrow> (string \<Rightarrow> fptr) \<Rightarrow> addr \<Rightarrow> 'w ubx \<Rightarrow> (int \<times> 'w ubx) option" where
  "rnd_module_init U fp base s = do {
     (r, s) \<leftarrow> ubx_type_register U (Some base) s;
     if r \<noteq> 0 then Some (- 1, s) else ubx_block_register U (random_comp fp) s }"

definition rnd_module_cleanup :: "ut_lib \<Rightarrow> 'w ubx \<Rightarrow> 'w ubx option" where
  "rnd_module_cleanup U s = mod_unregister U ''ubx/random'' (types_unregister U (table_names random_config_type) s)"

section \<open>The skeleton block\<close>

definition skel_config :: "ubx_proto_config list" where
  "skel_config = [
     cfg_entry ''foo'' ''struct foo_type'' 0 1 (Some ''foo to output''),
     cfg_entry ''loglevel'' ''int'' 0 0 None]"

definition skel_ports :: "ubx_proto_port list" where
  "skel_ports = [
     in_entry ''in'' ''struct foo_type'' ''just an in foo'',
     out_entry ''out'' ''struct foo_type'' 0 ''just an out foo'']"

definition skel_types :: "ubx_type list" where
  "skel_types = [def_struct_type ''struct foo_type'' 80]"

record skel_info =
  sk_foo :: ptr
  sk_p_in :: ptr
  sk_p_out :: ptr

type_synonym 'w skel_node = "('w, skel_info) blk_world ubx"

definition skel_init :: "ut_lib \<Rightarrow> addr \<Rightarrow> 'w skel_node \<Rightarrow> (int \<times> 'w skel_node) option" where
  "skel_init U b s = do {
     blk \<leftarrow> blks s b;
     let (ok, s) = mem_alloc s;
     if \<not> ok then do { _ \<leftarrow> ubx_block_log blk s; Some (EOUTOFMEM, set_priv b None s) }
     else do {
       (len, foo, s) \<leftarrow> getptr U ''foo_type'' ''struct foo_type'' b ''foo'' s;
       if len \<le> 0 then None
       else do {
         p_out \<leftarrow> ubx_port_get (Some b) (Some ''foo_out'') s;
         if p_out = None then None
         else do {
           p_in \<leftarrow> ubx_port_get (Some b) (Some ''foo_in'') s;
           if p_in = None then None
           else Some (0, set_priv b (Some \<lparr>sk_foo = foo, sk_p_in = p_in, sk_p_out = p_out\<rparr>) s) } } } }"

definition skel_cleanup :: "addr \<Rightarrow> 'w skel_node \<Rightarrow> 'w skel_node option" where
  "skel_cleanup b s = do { bi \<leftarrow> get_priv b s; Some (set_priv b None s) }"

definition skel_start :: "addr \<Rightarrow> 'w skel_node \<Rightarrow> (int \<times> 'w skel_node) option" where
  "skel_start b s = do { blk \<leftarrow> blks s b; _ \<leftarrow> ubx_block_log blk s; Some (0, s) }"

definition skel_stop :: "addr \<Rightarrow> 'w skel_node \<Rightarrow> 'w skel_node option" where
  "skel_stop b s = do { blk \<leftarrow> blks s b; _ \<leftarrow> ubx_block_log blk s; Some s }"

text \<open>\<open>junk\<close> are the 80 bytes of the uninitialised \<open>f\<close>. Without data the config is written to the port that was just read.\<close>

definition skel_step :: "u8 list \<Rightarrow> ut_lib \<Rightarrow> ('w, skel_info) blk_world hooks \<Rightarrow> addr \<Rightarrow> 'w skel_node \<Rightarrow> 'w skel_node option" where
  "skel_step junk U H b s = do {
     bi \<leftarrow> get_priv b s;
     blk \<leftarrow> blks s b;
     _ \<leftarrow> ubx_block_log blk s;
     (len, f, s) \<leftarrow> read_array U H ''read_foo_type'' ''struct foo_type'' (sk_p_in bi) junk 1 s;
     if len = 0 then do {
       foo \<leftarrow> load_bytes (sk_foo bi) 80 s;
       (r, s) \<leftarrow> write_array U H ''write_foo_type'' ''struct foo_type'' (sk_p_in bi) foo 1 s;
       Some s }
     else if len > 0 then do {
       (r, s) \<leftarrow> write_array U H ''write_foo_type'' ''struct foo_type'' (sk_p_out bi) f 1 s;
       Some s }
     else do { blk \<leftarrow> blks s b; _ \<leftarrow> ubx_block_log blk s; Some s } }"

definition skel_comp :: "(string \<Rightarrow> fptr) \<Rightarrow> ubx_proto_block" where
  "skel_comp fp = \<lparr>pb_name = ''ubx/skelleton'', pb_meta_data = Some ''{ doc='an almost empty skelleton block' }'',
     pb_attrs = 0, pb_type = BLOCK_TYPE_COMPUTATION, pb_configs = skel_config, pb_ports = skel_ports,
     pb_init = Some (fp ''skel_init''), pb_start = Some (fp ''skel_start''), pb_stop = Some (fp ''skel_stop''), pb_cleanup = Some (fp ''skel_cleanup''),
     pb_step = Some (fp ''skel_step''), pb_read = None, pb_write = None\<rparr>"

text \<open>Unlike \<open>stdtypes\<close>, the module stops at the first type that cannot be registered. Its cleanup unregisters a block of another
  module.\<close>

definition skel_module_init :: "ut_lib \<Rightarrow> (string \<Rightarrow> fptr) \<Rightarrow> addr \<Rightarrow> 'w ubx \<Rightarrow> (int \<times> 'w ubx) option" where
  "skel_module_init U fp base s = do {
     (r, s) \<leftarrow> ubx_type_register U (Some base) s;
     if r \<noteq> 0 then Some (- 1, s) else ubx_block_register U (skel_comp fp) s }"

definition skel_module_cleanup :: "ut_lib \<Rightarrow> 'w ubx \<Rightarrow> 'w ubx option" where
  "skel_module_cleanup U s = mod_unregister U ''ubx/threshold'' (types_unregister U (table_names skel_types) s)"

section \<open>The tables are sound, the skeleton is not\<close>

lemma demo_static: "proto_static (random_comp fp)" "proto_static (skel_comp fp)"
  by (simp_all add: proto_static_def random_comp_def rnd_config_def rnd_ports_def skel_comp_def skel_config_def skel_ports_def entry_defs)

lemma demo_types:
  "set (proto_types (random_comp fp)) \<subseteq> set (std_type_names @ table_names random_config_type)"
  "set (proto_types (skel_comp fp)) \<subseteq> set (std_type_names @ table_names skel_types)"
  unfolding std_names
  by (simp_all add: proto_types_def random_comp_def rnd_config_def rnd_ports_def skel_comp_def skel_config_def skel_ports_def entry_defs
      random_config_type_def skel_types_def table_names_def def_struct_type_def List.map_filter_simps)

lemma getptr_static: "getptr U suf tn b name s = Some (len, p, s') \<Longrightarrow> \<exists>k. s' = set_static (''cfg_getptr_'' @ suf) k s"
  by (auto simp: getptr_def bind_Some_iff split: prod.splits)

text \<open>The skeleton looks for ports its own table does not have: on a block with the ports of the table, \<open>init\<close> never succeeds.\<close>

lemma skel_init_never:
  assumes b: "blks s b = Some blk" "b_ports blk = [p, q]"
    and P: "prts s p = Some P" "p_name P = pp_name (skel_ports ! 0)" and Q: "prts s q = Some Q" "p_name Q = pp_name (skel_ports ! 1)"
  shows "\<nexists>s'. skel_init U b s = Some (0, s')"
proof
  assume "\<exists>s'. skel_init U b s = Some (0, s')"
  then obtain s' where i: "skel_init U b s = Some (0, s')" by blast
  obtain ok s1 where m: "mem_alloc s = (ok, s1)" by fastforce
  from i obtain len foo s2 po where g: "getptr U ''foo_type'' ''struct foo_type'' b ''foo'' s1 = Some (len, foo, s2)"
      "ubx_port_get (Some b) (Some ''foo_out'') s2 = Some (Some po)"
    by (auto simp: skel_init_def m b(1) bind_Some_iff EOUTOFMEM_def split: if_splits)
  from getptr_static [OF g(1)] obtain k where "s2 = set_static (''cfg_getptr_'' @ ''foo_type'') k s1" by blast
  then have f: "blks s2 = blks s" "prts s2 = prts s" using m by (auto simp: set_static_def mem_alloc_def)
  show False using g(2) b P Q
    by (simp add: ubx_port_get_def f skel_ports_def entry_defs strncmp_eq_def UBX_PORT_NAME_MAXLEN_def)
qed

end
