(* ===== verification/Ubx_Lua.thy ===== *)
theory Ubx_Lua
  imports Ubx_Modules Ubx_Elem
begin

text \<open>
  The block that runs Lua code: \<^verbatim>\<open>std_blocks/luablock/luablock.c\<close>. The Lua library is a parameter, restricted by the
  locale \<open>lua_laws\<close> to what its manual says about the calls the block makes.
\<close>

section \<open>The C interface of Lua\<close>

text \<open>Values as far as C sees them; functions, tables and the like are handles.\<close>

datatype lua_val = LNil | LBool bool | LPtr addr | LStr string | LObj nat

text \<open>
  The functions of the library, on a \<open>lua_State\<close> of type \<open>'L\<close> and the state \<open>'s\<close> of the program, which Lua code can
  change: \<open>lua_push\<close> is \<open>lua_pushlightuserdata\<close>, \<open>lua_pushstring\<close> and \<open>lua_pushnil\<close>; \<open>lua_value\<close> is the value at
  an index, as the tests \<open>lua_isnil\<close> and \<open>lua_isboolean\<close> and the conversion \<open>lua_toboolean\<close> see it; \<open>luaL_newstate\<close> is the
  new state with the standard libraries. \<open>None\<close> is undefined behaviour or, of \<open>luaL_checkstring\<close> and \<open>luaL_optstring\<close>, the
  error that ends the process outside of a protected call.
\<close>

record ('L, 's) lua_lib =
  lua_getglobal :: "string \<Rightarrow> 'L \<Rightarrow> 'L option"
  lua_push :: "lua_val \<Rightarrow> 'L \<Rightarrow> 'L option"
  lua_pop :: "nat \<Rightarrow> 'L \<Rightarrow> 'L option"
  lua_value :: "int \<Rightarrow> 'L \<Rightarrow> lua_val option"
  lua_pcall :: "nat \<Rightarrow> nat \<Rightarrow> 'L \<Rightarrow> 's \<Rightarrow> (int \<times> 'L \<times> 's) option"
  luaL_newstate :: 'L
  luaL_dostring :: "u8 list \<Rightarrow> 'L \<Rightarrow> 's \<Rightarrow> (int \<times> 'L \<times> 's) option"
  luaL_dofile :: "string \<Rightarrow> 'L \<Rightarrow> 's \<Rightarrow> (int \<times> 'L \<times> 's) option"
  luaL_checkstring :: "int \<Rightarrow> 'L \<Rightarrow> string option"
  luaL_optstring :: "int \<Rightarrow> string \<Rightarrow> 'L \<Rightarrow> string option"

text \<open>The results of a call, adjusted to \<open>k\<close> of them.\<close>

definition lua_adjust :: "nat \<Rightarrow> lua_val list \<Rightarrow> lua_val list" where
  "lua_adjust k vs = take k (vs @ replicate k LNil)"

text \<open>
  What the manual says: \<open>stack L\<close> are the values on the stack, top first; \<open>room n L\<close> says that \<open>n\<close> more can be pushed (how
  many fit depends on the library: a fixed number, or any, if the stack grows); \<open>glob\<close> is the value of a global and \<open>run\<close> the
  effect of calling a function, an error value or its results, both on the state \<open>vm L\<close> of the interpreter proper. A protected call
  takes the function and its arguments from the stack and leaves the results or the error value.
\<close>

locale lua_laws =
  fixes V :: "('L, 's) lua_lib" and stack :: "'L \<Rightarrow> lua_val list" and vm :: "'L \<Rightarrow> 'l" and room :: "nat \<Rightarrow> 'L \<Rightarrow> bool"
    and glob :: "string \<Rightarrow> 'l \<Rightarrow> lua_val"
    and run :: "lua_val \<Rightarrow> lua_val list \<Rightarrow> 'l \<Rightarrow> 's \<Rightarrow> ((lua_val + lua_val list) \<times> 'l \<times> 's) option"
  assumes getglobal_law: "room (Suc n) L \<Longrightarrow>
      \<exists>L'. lua_getglobal V name L = Some L' \<and> stack L' = glob name (vm L) # stack L \<and> vm L' = vm L \<and> room n L'"
    and push_law: "room (Suc n) L \<Longrightarrow> \<exists>L'. lua_push V v L = Some L' \<and> stack L' = v # stack L \<and> vm L' = vm L \<and> room n L'"
    and top_law: "stack L = v # st \<Longrightarrow> lua_value V (- 1) L = Some v"
    and pop_law: "k \<le> length (stack L) \<Longrightarrow> room n L \<Longrightarrow>
      \<exists>L'. lua_pop V k L = Some L' \<and> stack L' = drop k (stack L) \<and> vm L' = vm L \<and> room (n + k) L'"
    and call_law: "stack L = rev args @ f # st \<Longrightarrow> run f args (vm L) s = Some (res, l', s') \<Longrightarrow> room n L \<Longrightarrow> k \<le> Suc (length args) \<Longrightarrow>
      \<exists>r L'. lua_pcall V (length args) k L s = Some (r, L', s') \<and> (r \<noteq> 0 \<longleftrightarrow> isl res) \<and> vm L' = l' \<and>
        stack L' = (case res of Inl e \<Rightarrow> e # st | Inr vs \<Rightarrow> rev (lua_adjust k vs) @ st) \<and>
        room (n + Suc (length args) - (if isl res then 1 else k)) L'"

text \<open>The text of a string argument, by its index from the bottom; C uses it up to the first NUL.\<close>

definition no_nul :: "string \<Rightarrow> bool" where
  "no_nul t \<longleftrightarrow> char_of (0 :: nat) \<notin> set t"

locale lua_text_laws = lua_laws V stack vm room glob run
  for V :: "('L, 's) lua_lib" and stack :: "'L \<Rightarrow> lua_val list" and vm :: "'L \<Rightarrow> 'l" and room :: "nat \<Rightarrow> 'L \<Rightarrow> bool"
    and glob :: "string \<Rightarrow> 'l \<Rightarrow> lua_val"
    and run :: "lua_val \<Rightarrow> lua_val list \<Rightarrow> 'l \<Rightarrow> 's \<Rightarrow> ((lua_val + lua_val list) \<times> 'l \<times> 's) option" +
  assumes text_law: "i < length (stack L) \<Longrightarrow> rev (stack L) ! i = LStr t \<Longrightarrow> no_nul t \<Longrightarrow>
      luaL_checkstring V (int i + 1) L = Some t \<and> luaL_optstring V (int i + 1) dflt L = Some t"

subsection \<open>An instance\<close>

text \<open>An interpreter with the given globals and functions whose stack holds at most \<open>cap\<close> values, or any number. Chunks of code do
  nothing.\<close>

record 'l lua_state =
  ls_vm :: 'l
  ls_stack :: "lua_val list"

definition ref_room :: "nat option \<Rightarrow> nat \<Rightarrow> 'l lua_state \<Rightarrow> bool" where
  "ref_room cap n L = (case cap of None \<Rightarrow> True | Some c \<Rightarrow> length (ls_stack L) + n \<le> c)"

definition ref_push :: "nat option \<Rightarrow> lua_val \<Rightarrow> 'l lua_state \<Rightarrow> 'l lua_state option" where
  "ref_push cap v L = (if ref_room cap 1 L then Some (L\<lparr>ls_stack := v # ls_stack L\<rparr>) else None)"

definition ref_value :: "int \<Rightarrow> 'l lua_state \<Rightarrow> lua_val option" where
  "ref_value i L = (let n = length (ls_stack L) in
     if i < 0 \<and> - i \<le> int n then Some (ls_stack L ! nat (- i - 1))
     else if 0 < i \<and> i \<le> int n then Some (rev (ls_stack L) ! (nat i - 1)) else None)"

definition ref_pcall ::
  "(lua_val \<Rightarrow> lua_val list \<Rightarrow> 'l \<Rightarrow> 's \<Rightarrow> ((lua_val + lua_val list) \<times> 'l \<times> 's) option) \<Rightarrow> nat \<Rightarrow> nat \<Rightarrow> 'l lua_state \<Rightarrow> 's \<Rightarrow>
     (int \<times> 'l lua_state \<times> 's) option" where
  "ref_pcall run n k L s =
     (if length (ls_stack L) < n + 1 then None
      else do {
        let rest = drop (n + 1) (ls_stack L);
        (r, l, s) \<leftarrow> run (ls_stack L ! n) (rev (take n (ls_stack L))) (ls_vm L) s;
        case r of
          Inl e \<Rightarrow> Some (2, \<lparr>ls_vm = l, ls_stack = e # rest\<rparr>, s)
        | Inr vs \<Rightarrow> Some (0, \<lparr>ls_vm = l, ls_stack = rev (lua_adjust k vs) @ rest\<rparr>, s) })"

definition ref_text :: "lua_val option \<Rightarrow> string option" where
  "ref_text v = (case v of Some (LStr t) \<Rightarrow> Some (takeWhile (\<lambda>c. c \<noteq> char_of (0 :: nat)) t) | _ \<Rightarrow> None)"

definition lua_ref ::
  "nat option \<Rightarrow> (string \<Rightarrow> 'l \<Rightarrow> lua_val) \<Rightarrow> (lua_val \<Rightarrow> lua_val list \<Rightarrow> 'l \<Rightarrow> 's \<Rightarrow> ((lua_val + lua_val list) \<times> 'l \<times> 's) option) \<Rightarrow> 'l \<Rightarrow>
     ('l lua_state, 's) lua_lib" where
  "lua_ref cap glob run l0 = \<lparr>
     lua_getglobal = (\<lambda>name L. ref_push cap (glob name (ls_vm L)) L), lua_push = ref_push cap,
     lua_pop = (\<lambda>n L. if n \<le> length (ls_stack L) then Some (L\<lparr>ls_stack := drop n (ls_stack L)\<rparr>) else None),
     lua_value = ref_value, lua_pcall = ref_pcall run, luaL_newstate = \<lparr>ls_vm = l0, ls_stack = []\<rparr>,
     luaL_dostring = (\<lambda>c L s. Some (0, L, s)), luaL_dofile = (\<lambda>f L s. Some (0, L, s)),
     luaL_checkstring = (\<lambda>i L. ref_text (ref_value i L)),
     luaL_optstring = (\<lambda>i dflt L. if ref_value i L \<in> {None, Some LNil} then Some dflt else ref_text (ref_value i L))\<rparr>"

lemma ref_text_str: "no_nul t \<Longrightarrow> ref_text (Some (LStr t)) = Some t"
  by (auto simp: ref_text_def no_nul_def takeWhile_eq_all_conv)

lemma ref_call_ok:
  assumes "ls_stack L = rev args @ f # st" "run f args (ls_vm L) s = Some (res, l', s')" "ref_room cap n L" "k \<le> Suc (length args)"
  shows "\<exists>r L'. ref_pcall run (length args) k L s = Some (r, L', s') \<and> (r \<noteq> 0 \<longleftrightarrow> isl res) \<and> ls_vm L' = l' \<and>
    ls_stack L' = (case res of Inl e \<Rightarrow> e # st | Inr vs \<Rightarrow> rev (lua_adjust k vs) @ st) \<and>
    ref_room cap (n + Suc (length args) - (if isl res then 1 else k)) L'"
proof -
  have "(rev args @ f # st) ! length args = f" using nth_append_length [of "rev args" f st] by simp
  with assms show ?thesis
    by (cases res) (auto simp: ref_pcall_def lua_adjust_def ref_room_def Let_def split: option.splits)
qed

interpretation ref_lua: lua_text_laws "lua_ref cap G R l0" ls_stack ls_vm "ref_room cap" G R for cap G R l0
proof (unfold_locales, goal_cases)
  case (5 L args f st s res l' s' n k)
  then show ?case using ref_call_ok [of L args f st R s res l' s' cap n k] by (simp add: lua_ref_def)
next
  case (6 i L t dflt)
  then have "ref_value (int i + 1) L = Some (LStr t)" by (auto simp: ref_value_def Let_def nat_add_distrib)
  with 6(3) show ?case by (simp add: lua_ref_def ref_text_str)
qed (auto simp: lua_ref_def ref_push_def ref_room_def ref_value_def Let_def split: option.splits)

section \<open>The Lua block\<close>

text \<open>\<open>struct luablock_info\<close>; the field \<open>ni\<close> is never used. The hooks run Lua code while they hold \<open>inf\<close>: code that steps or
  cleans up the block it runs in is outside the model.\<close>

record 'l luablock_info =
  lb_L :: "'l option"
  lb_exec_str_buff :: ptr

type_synonym ('w, 'l) lua_node = "('w, 'l luablock_info) blk_world ubx"
type_synonym ('w, 'l) lua_vm = "('l, ('w, 'l) lua_node) lua_lib"

definition predef_hooks :: string where
  "predef_hooks = (let nl = [char_of (10 :: nat)] in
     ''function init(b) return true end'' @ nl @ ''function start(b) return true end'' @ nl @ ''function step(b) end'' @ nl @
     ''function stop(b) end'' @ nl @ ''function cleanup(b) end'' @ nl)"

definition set_L :: "addr \<Rightarrow> 'l \<Rightarrow> ('w, 'l) lua_node \<Rightarrow> ('w, 'l) lua_node option" where
  "set_L b L s = do { inf \<leftarrow> get_priv b s; Some (set_priv b (Some (inf\<lparr>lb_L := Some L\<rparr>)) s) }"

text \<open>A missing function that is not required counts as success. What \<open>lua_pcall\<close> leaves on the stack is only popped if it is a
  Boolean.\<close>

definition call_hook :: "('w, 'l) lua_vm \<Rightarrow> addr \<Rightarrow> string \<Rightarrow> bool \<Rightarrow> bool \<Rightarrow> ('w, 'l) lua_node \<Rightarrow> (int \<times> ('w, 'l) lua_node) option" where
  "call_hook V b fname require_fun require_res s = do {
     inf \<leftarrow> get_priv b s;
     L \<leftarrow> lb_L inf;
     blk \<leftarrow> blks s b;
     L \<leftarrow> lua_getglobal V fname L;
     top \<leftarrow> lua_value V (- 1) L;
     L \<leftarrow> (if top = LNil then lua_pop V 1 L else Some L);
     _ \<leftarrow> (if top = LNil \<and> require_fun then ubx_block_log blk s else Some ());
     if top = LNil \<and> \<not> require_fun then do { s \<leftarrow> set_L b L s; Some (0, s) }
     else do {
       L \<leftarrow> lua_push V (LPtr b) L;
       (r, L, s) \<leftarrow> lua_pcall V 1 (if require_res then 1 else 0) L s;
       blk \<leftarrow> blks s b;
       if r \<noteq> 0 then do { _ \<leftarrow> ubx_block_log blk s; s \<leftarrow> set_L b L s; Some (- 1, s) }
       else if require_res then do {
         v \<leftarrow> lua_value V (- 1) L;
         case v of
           LBool x \<Rightarrow> do { L \<leftarrow> lua_pop V 1 L; s \<leftarrow> set_L b L s; Some (if x then 0 else 1, s) }
         | _ \<Rightarrow> do { _ \<leftarrow> ubx_block_log blk s; s \<leftarrow> set_L b L s; Some (- 1, s) } }
       else do { s \<leftarrow> set_L b L s; Some (0, s) } } }"

text \<open>Running a string or a file, if there is one; a failure is logged.\<close>

definition lua_run :: "addr \<Rightarrow> (('l \<Rightarrow> ('w, 'l) lua_node \<Rightarrow> (int \<times> 'l \<times> ('w, 'l) lua_node) option) option) \<Rightarrow>
    ('w, 'l) lua_node \<Rightarrow> (int \<times> ('w, 'l) lua_node) option" where
  "lua_run b code s = (case code of
     None \<Rightarrow> Some (0, s)
   | Some f \<Rightarrow> do {
       inf \<leftarrow> get_priv b s;
       L \<leftarrow> lb_L inf;
       (r, L, s) \<leftarrow> f L s;
       s \<leftarrow> set_L b L s;
       blk \<leftarrow> blks s b;
       _ \<leftarrow> (if r \<noteq> 0 then ubx_block_log blk s else Some ());
       Some (r, s) })"

definition init_lua_state :: "('w, 'l) lua_vm \<Rightarrow> addr \<Rightarrow> string option \<Rightarrow> string option \<Rightarrow> ('w, 'l) lua_node \<Rightarrow> (int \<times> ('w, 'l) lua_node) option" where
  "init_lua_state V b lua_file lua_str s = do {
     inf \<leftarrow> get_priv b s;
     blk \<leftarrow> blks s b;
     let (ok, s) = mem_alloc s;
     if \<not> ok then do { _ \<leftarrow> ubx_block_log blk s; Some (- 1, set_priv b (Some (inf\<lparr>lb_L := None\<rparr>)) s) }
     else do {
       let s = set_priv b (Some (inf\<lparr>lb_L := Some (luaL_newstate V)\<rparr>)) s;
       (r, s) \<leftarrow> lua_run b (Some (luaL_dostring V (bytes_of_string predef_hooks))) s;
       if r \<noteq> 0 then Some (r, s)
       else do {
         (r, s) \<leftarrow> lua_run b (map_option (luaL_dofile V) lua_file) s;
         if r \<noteq> 0 then Some (r, s)
         else lua_run b (map_option (\<lambda>c. luaL_dostring V (bytes_of_string c)) lua_str) s } } }"

definition EXEC_STR_BUFF_SIZE :: int where "EXEC_STR_BUFF_SIZE = 16 * 1024 * 1024"

text \<open>The value of an optional config of characters.\<close>

definition opt_string :: "int \<Rightarrow> ptr \<Rightarrow> ('w, 'l) lua_node \<Rightarrow> string option option" where
  "opt_string len p s = (if len > 0 then map_option Some (load_string p s) else Some None)"

text \<open>The label \<open>out_free2\<close> releases the data structure, but neither the bytes it points to nor the Lua state.\<close>

definition luablock_free2 :: "addr \<Rightarrow> int \<Rightarrow> ('w, 'l) lua_node \<Rightarrow> (int \<times> ('w, 'l) lua_node) option" where
  "luablock_free2 b ret s = do {
     inf \<leftarrow> get_priv b s; d \<leftarrow> lb_exec_str_buff inf; dat \<leftarrow> dats s d;
     Some (ret, set_priv b None (s\<lparr>dats := (dats s)(d := None)\<rparr>)) }"

definition luablock_init :: "('w, 'l) lua_vm \<Rightarrow> ut_lib \<Rightarrow> addr \<Rightarrow> ('w, 'l) lua_node \<Rightarrow> (int \<times> ('w, 'l) lua_node) option" where
  "luablock_init V U b s = do {
     let ret = - EOUTOFMEM;
     let (ok, s) = mem_alloc s;
     if \<not> ok then Some (ret, s)
     else do {
       let s = set_priv b (Some \<lparr>lb_L = None, lb_exec_str_buff = None\<rparr>) s;
       (len, p, s) \<leftarrow> getptr U ''char'' ''char'' b ''lua_file'' s;
       if len < 0 then Some (ret, set_priv b None s)
       else do {
         lua_file \<leftarrow> opt_string len p s;
         (len, p, s) \<leftarrow> getptr U ''char'' ''char'' b ''lua_str'' s;
         if len < 0 then Some (ret, set_priv b None s)
         else do {
           lua_str \<leftarrow> opt_string len p s;
           blk \<leftarrow> blks s b;
           (d, s) \<leftarrow> ubx_data_alloc U (b_nd blk) (Some ''char'') EXEC_STR_BUFF_SIZE s;
           if d = None then do { _ \<leftarrow> ubx_block_log blk s; Some (ret, set_priv b None s) }
           else do {
             let s = set_priv b (Some \<lparr>lb_L = None, lb_exec_str_buff = d\<rparr>) s;
             (r, s) \<leftarrow> init_lua_state V b lua_file lua_str s;
             if r \<noteq> 0 then luablock_free2 b ret s
             else do {
               (ret, s) \<leftarrow> call_hook V b ''init'' False True s;
               if ret \<noteq> 0 then luablock_free2 b ret s else Some (0, s) } } } } } }"

definition luablock_start :: "('w, 'l) lua_vm \<Rightarrow> addr \<Rightarrow> ('w, 'l) lua_node \<Rightarrow> (int \<times> ('w, 'l) lua_node) option" where
  "luablock_start V b s = call_hook V b ''start'' False True s"

text \<open>The buffer is run as a C string: up to its first NUL, however many characters were read.\<close>

definition c_bytes :: "ptr \<Rightarrow> 'w ubx \<Rightarrow> u8 list option" where
  "c_bytes p s = map_option bytes_of_string (load_string p s)"

definition luablock_step ::
  "('w, 'l) lua_vm \<Rightarrow> ut_lib \<Rightarrow> ('w, 'l luablock_info) blk_world hooks \<Rightarrow> addr \<Rightarrow> ('w, 'l) lua_node \<Rightarrow> ('w, 'l) lua_node option" where
  "luablock_step V U H b s = do {
     inf \<leftarrow> get_priv b s;
     p \<leftarrow> ubx_port_get (Some b) (Some ''exec_str'') s;
     (len, s) \<leftarrow> port_read H p (lb_exec_str_buff inf) s;
     let len = c_int len;
     (ret, s) \<leftarrow> (if len > 0
       then do { code \<leftarrow> c_bytes (lb_exec_str_buff inf) s; lua_run b (Some (luaL_dostring V code)) s }
       else Some (0, s));
     (r, s) \<leftarrow> (if ret \<noteq> 0 then Some (0, s) else call_hook V b ''step'' False False s);
     if len > 0 then do {
       p \<leftarrow> ubx_port_get (Some b) (Some ''exec_str'') s;
       (w, s) \<leftarrow> write_one U H ''int'' p (word_enc (word_of_int ret :: u32)) s;
       Some s }
     else Some s }"

definition luablock_stop :: "('w, 'l) lua_vm \<Rightarrow> addr \<Rightarrow> ('w, 'l) lua_node \<Rightarrow> ('w, 'l) lua_node option" where
  "luablock_stop V b s = do { (r, s) \<leftarrow> call_hook V b ''stop'' False False s; Some s }"

definition luablock_cleanup :: "('w, 'l) lua_vm \<Rightarrow> addr \<Rightarrow> ('w, 'l) lua_node \<Rightarrow> ('w, 'l) lua_node option" where
  "luablock_cleanup V b s = do {
     (r, s) \<leftarrow> call_hook V b ''cleanup'' False False s;
     inf \<leftarrow> get_priv b s;
     L \<leftarrow> lb_L inf;
     d \<leftarrow> lb_exec_str_buff inf;
     s \<leftarrow> ubx_data_free d s;
     Some (set_priv b None s) }"

section \<open>The tables\<close>

definition lua_ports :: "ubx_proto_port list" where
  "lua_ports = [\<lparr>pp_name = ''exec_str'', pp_attrs = 0, pp_out_type_name = Some ''int'', pp_out_data_len = 0,
     pp_in_type_name = Some ''char'', pp_in_data_len = 16777216, pp_doc = None\<rparr>]"

definition lua_conf :: "ubx_proto_config list" where
  "lua_conf = [
     cfg_entry ''lua_file'' ''char'' 0 0 None,
     cfg_entry ''lua_str'' ''char'' 0 0 None,
     cfg_entry ''loglevel'' ''int'' 0 0 None]"

definition lua_comp :: "(string \<Rightarrow> fptr) \<Rightarrow> ubx_proto_block" where
  "lua_comp fp = \<lparr>pb_name = ''ubx/luablock'', pb_meta_data = Some ''{ doc='A generic luajit based block',  realtime=false,}'',
     pb_attrs = 0, pb_type = BLOCK_TYPE_COMPUTATION, pb_configs = lua_conf, pb_ports = lua_ports,
     pb_init = Some (fp ''luablock_init''), pb_start = Some (fp ''luablock_start''), pb_stop = Some (fp ''luablock_stop''),
     pb_cleanup = Some (fp ''luablock_cleanup''), pb_step = Some (fp ''luablock_step''), pb_read = None, pb_write = None\<rparr>"

definition lua_init :: "ut_lib \<Rightarrow> (string \<Rightarrow> fptr) \<Rightarrow> 'w ubx \<Rightarrow> (int \<times> 'w ubx) option" where
  "lua_init U fp s = ubx_block_register U (lua_comp fp) s"

definition lua_cleanup :: "ut_lib \<Rightarrow> 'w ubx \<Rightarrow> 'w ubx option" where
  "lua_cleanup U s = mod_unregister U ''ubx/luablock'' s"

lemma lua_comp_sound: "proto_static (lua_comp fp)" "set (proto_types (lua_comp fp)) \<subseteq> set std_type_names"
  unfolding std_names
  by (simp_all add: proto_static_def proto_types_def lua_comp_def lua_ports_def lua_conf_def entry_defs List.map_filter_simps)

section \<open>What the calls leave on the stack\<close>

definition lua_at :: "addr \<Rightarrow> ptr \<Rightarrow> 'l \<Rightarrow> ('w, 'l) lua_node \<Rightarrow> bool" where
  "lua_at b d L s \<longleftrightarrow> get_priv b s = Some \<lparr>lb_L = Some L, lb_exec_str_buff = d\<rparr>"

lemma set_L_at: "get_priv b s = Some bi \<Longrightarrow> set_L b L s = Some (set_priv b (Some (bi\<lparr>lb_L := Some L\<rparr>)) s)"
  by (simp add: set_L_def)

lemma set_priv_twice [simp]: "set_priv b x (set_priv b y s) = set_priv b x s"
  by (simp add: set_priv_def)

text \<open>
  Outcomes of the Lua function \<open>step\<close>, one per call: it raises an error value or returns. \<open>lua_serves\<close>: nothing is connected to
  \<open>exec_str\<close>, and the coming calls of \<open>step\<close> have the outcomes \<open>os\<close> and leave the block alone.
\<close>

definition lua_serves ::
  "(string \<Rightarrow> 'v \<Rightarrow> lua_val) \<Rightarrow> (lua_val \<Rightarrow> lua_val list \<Rightarrow> 'v \<Rightarrow> ('w, 'l) lua_node \<Rightarrow> ((lua_val + lua_val list) \<times> 'v \<times> ('w, 'l) lua_node) option) \<Rightarrow>
     addr \<Rightarrow> addr \<Rightarrow> (lua_val option list \<Rightarrow> 'v \<Rightarrow> ('w, 'l) lua_node \<Rightarrow> bool) \<Rightarrow> bool" where
  "lua_serves glob run b d good \<longleftrightarrow> (\<forall>os l s. good os l s \<longrightarrow> node_ok s \<and> blks s b \<noteq> None \<and> (\<forall>x. good os l (set_priv b x s)) \<and>
     (\<exists>p prt dat. ubx_port_get (Some b) (Some ''exec_str'') s = Some (Some p) \<and> prts s p = Some prt \<and> port_is_in prt \<and>
        p_in_interaction prt = None \<and> dats s d = Some dat \<and> 0 < d_len dat \<and> p_in_type prt = d_type dat) \<and>
     glob ''step'' l \<noteq> LNil \<and>
     (\<forall>x os'. os = x # os' \<longrightarrow> (\<exists>res l' s'. run (glob ''step'' l) [LPtr b] l s = Some (res, l', s') \<and> good os' l' s' \<and>
        get_priv b s' = get_priv b s \<and> (case x of Some e \<Rightarrow> res = Inl e | None \<Rightarrow> \<exists>vs. res = Inr vs))))"

text \<open>The error values among the outcomes.\<close>

fun lua_errors :: "lua_val option list \<Rightarrow> lua_val list" where
  "lua_errors [] = []"
| "lua_errors (Some e # os) = e # lua_errors os"
| "lua_errors (None # os) = lua_errors os"

fun luablock_steps ::
  "('w, 'l) lua_vm \<Rightarrow> ut_lib \<Rightarrow> ('w, 'l luablock_info) blk_world hooks \<Rightarrow> addr \<Rightarrow> nat \<Rightarrow> ('w, 'l) lua_node \<Rightarrow> ('w, 'l) lua_node option" where
  "luablock_steps V U H b 0 s = Some s"
| "luablock_steps V U H b (Suc n) s = do { s \<leftarrow> luablock_step V U H b s; luablock_steps V U H b n s }"

text \<open>The library in a node with Lua blocks.\<close>

locale lua_node_laws = lua_laws V stack vm room glob run
  for V :: "('w, 'l) lua_vm" and stack :: "'l \<Rightarrow> lua_val list" and vm :: "'l \<Rightarrow> 'v" and room :: "nat \<Rightarrow> 'l \<Rightarrow> bool"
    and glob :: "string \<Rightarrow> 'v \<Rightarrow> lua_val"
    and run :: "lua_val \<Rightarrow> lua_val list \<Rightarrow> 'v \<Rightarrow> ('w, 'l) lua_node \<Rightarrow> ((lua_val + lua_val list) \<times> 'v \<times> ('w, 'l) lua_node) option"
begin

text \<open>A call of a hook without a result leaves the stack as it was, except when it fails: then it leaves the error value.\<close>

lemma call_hook_run:
  assumes "lua_at b d L s" "node_ok s" "blks s b \<noteq> None" "room (Suc (Suc n)) L" "glob f (vm L) \<noteq> LNil"
    "run (glob f (vm L)) [LPtr b] (vm L) s = Some (res, l', s1)" "get_priv b s1 = get_priv b s" "node_ok s1" "blks s1 b \<noteq> None"
  shows "\<exists>L'. call_hook V b f False False s = Some (if isl res then - 1 else 0, set_priv b (Some \<lparr>lb_L = Some L', lb_exec_str_buff = d\<rparr>) s1) \<and>
    vm L' = l' \<and> stack L' = (case res of Inl e \<Rightarrow> e # stack L | Inr vs \<Rightarrow> stack L) \<and> room (Suc (Suc n) - (if isl res then 1 else 0)) L'"
proof -
  from assms obtain blk blk1 where b: "blks s b = Some blk" "blks s1 b = Some blk1" by blast
  note log = node_ok_log [OF assms(8) b(2)]
  from getglobal_law [OF assms(4), of f] obtain L1 where L1: "lua_getglobal V f L = Some L1" "stack L1 = glob f (vm L) # stack L"
    "vm L1 = vm L" "room (Suc n) L1" by blast
  from push_law [OF L1(4), of "LPtr b"] obtain L2 where L2: "lua_push V (LPtr b) L1 = Some L2"
    "stack L2 = rev [LPtr b] @ glob f (vm L) # stack L" "vm L2 = vm L" "room n L2" using L1(2,3) by auto
  have adj: "(case res of Inl e \<Rightarrow> e # stack L | Inr vs \<Rightarrow> rev (lua_adjust 0 vs) @ stack L) =
      (case res of Inl e \<Rightarrow> e # stack L | Inr vs \<Rightarrow> stack L)" by (cases res) (simp_all add: lua_adjust_def)
  from call_law [OF L2(2) _ L2(4), where s = s and res = res and l' = l' and s' = s1 and k = 0] assms(6) L2(3) obtain r L3 where L3: "lua_pcall V 1 0 L2 s = Some (r, L3, s1)"
    "r \<noteq> 0 \<longleftrightarrow> isl res" "vm L3 = l'" "stack L3 = (case res of Inl e \<Rightarrow> e # stack L | Inr vs \<Rightarrow> stack L)"
    "room (Suc (Suc n) - (if isl res then 1 else 0)) L3" unfolding adj [symmetric] by auto
  have "call_hook V b f False False s = Some (if isl res then - 1 else 0, set_priv b (Some \<lparr>lb_L = Some L3, lb_exec_str_buff = d\<rparr>) s1)"
    using assms(1,5,7) b log L1(1) L2(1) L3(1,2) top_law [OF L1(2)] by (simp add: call_hook_def lua_at_def set_L_at)
  with L3(3-5) show ?thesis by blast
qed

text \<open>Steps: the error values of the failing ones stay.\<close>

lemma luablock_step_run:
  assumes sv: "lua_serves glob run b d good" and g: "good (x # os) (vm L) s" and at: "lua_at b (Some d) L s" and room: "room (Suc (Suc n)) L"
  shows "\<exists>L' s'. luablock_step V U H b s = Some s' \<and> good os (vm L') s' \<and> lua_at b (Some d) L' s' \<and>
    stack L' = lua_errors [x] @ stack L \<and> room (Suc (Suc n) - length (lua_errors [x])) L'"
proof -
  note sp = sv [unfolded lua_serves_def, THEN spec, THEN spec, THEN spec, THEN mp]
  note here = sp [OF g]
  from here have f1: "node_ok s" "blks s b \<noteq> None" "glob ''step'' (vm L) \<noteq> LNil" by simp_all
  from here obtain p prt dat where f: "ubx_port_get (Some b) (Some ''exec_str'') s = Some (Some p)"
      "prts s p = Some prt" "port_is_in prt" "p_in_interaction prt = None" "dats s d = Some dat" "0 < d_len dat" "p_in_type prt = d_type dat"
    by blast
  from here obtain res l' s1 where c: "run (glob ''step'' (vm L)) [LPtr b] (vm L) s = Some (res, l', s1)" "good os l' s1"
      "get_priv b s1 = get_priv b s" "case x of Some e \<Rightarrow> res = Inl e | None \<Rightarrow> \<exists>vs. res = Inr vs" by blast
  from sp [OF c(2)] have s1: "node_ok s1" "blks s1 b \<noteq> None" "\<And>y. good os l' (set_priv b y s1)" by simp_all
  have rd: "port_read H (Some p) (Some d) s = Some (0, s)" using f(2-7) by (simp add: port_read_def)
  have step: "luablock_step V U H b s = map_option snd (call_hook V b ''step'' False False s)"
    using at f(1) rd by (cases "call_hook V b ''step'' False False s") (auto simp: luablock_step_def lua_at_def c_int_def)
  from call_hook_run [OF at f1(1,2) room f1(3) c(1,3) s1(1,2)] obtain L' where L':
    "call_hook V b ''step'' False False s = Some (if isl res then - 1 else 0, set_priv b (Some \<lparr>lb_L = Some L', lb_exec_str_buff = Some d\<rparr>) s1)"
    "vm L' = l'" "stack L' = (case res of Inl e \<Rightarrow> e # stack L | Inr vs \<Rightarrow> stack L)" "room (Suc (Suc n) - (if isl res then 1 else 0)) L'"
    by blast
  let ?s' = "set_priv b (Some \<lparr>lb_L = Some L', lb_exec_str_buff = Some d\<rparr>) s1"
  have "luablock_step V U H b s = Some ?s'" "good os (vm L') ?s'" "lua_at b (Some d) L' ?s'"
    using step L'(1,2) s1(3) by (simp_all add: lua_at_def)
  moreover have "stack L' = lua_errors [x] @ stack L \<and> room (Suc (Suc n) - length (lua_errors [x])) L'"
    using c(4) L'(3,4) by (cases x) auto
  ultimately show ?thesis by blast
qed

lemma luablock_steps_run:
  assumes "lua_serves glob run b d good" "good os (vm L) s" "lua_at b (Some d) L s" "room (length (lua_errors os) + 2 + n) L"
  shows "\<exists>L' s'. luablock_steps V U H b (length os) s = Some s' \<and> lua_at b (Some d) L' s' \<and> stack L' = rev (lua_errors os) @ stack L"
  using assms(2-4)
proof (induction os arbitrary: L s n)
  case (Cons x os)
  have "room (Suc (Suc (length (lua_errors (x # os)) + n))) L" using Cons.prems(3) by simp
  from luablock_step_run [OF assms(1) Cons.prems(1,2) this, of U H] obtain L1 s1 where s1: "luablock_step V U H b s = Some s1"
    "good os (vm L1) s1" "lua_at b (Some d) L1 s1" "stack L1 = lua_errors [x] @ stack L"
    "room (Suc (Suc (length (lua_errors (x # os)) + n)) - length (lua_errors [x])) L1" by blast
  have "room (length (lua_errors os) + 2 + n) L1" using s1(5) by (cases x) simp_all
  from Cons.IH [OF s1(2,3) this] s1(1,4) show ?case by (cases x) auto
qed auto

end

interpretation ref_node: lua_node_laws "lua_ref cap G R l0" ls_stack ls_vm "ref_room cap" G R for cap G R l0
  by unfold_locales

section \<open>A node with a failing Lua block\<close>

text \<open>Block 4; the state of the interpreter is the list of the outcomes of \<open>step\<close> to come.\<close>

type_synonym ex_node = "(ring cyc_world, lua_val option list lua_state) lua_node"

definition ex_run :: "lua_val \<Rightarrow> lua_val list \<Rightarrow> lua_val option list \<Rightarrow> ex_node \<Rightarrow> ((lua_val + lua_val list) \<times> lua_val option list \<times> ex_node) option" where
  "ex_run f args l s = (case l of [] \<Rightarrow> Some (Inr [], [], s) | Some e # l \<Rightarrow> Some (Inl e, l, s) | None # l \<Rightarrow> Some (Inr [], l, s))"

definition lua_vm_ex :: "(ring cyc_world, lua_val option list lua_state) lua_vm" where
  "lua_vm_ex = lua_ref None (\<lambda>name l. LObj 0) ex_run []"

definition lua_node_ex :: "lua_val option list \<Rightarrow> ex_node" where
  "lua_node_ex os = with_world ([5 \<mapsto> pipe_info], [4 \<mapsto> \<lparr>lb_L = Some \<lparr>ls_vm = os, ls_stack = []\<rparr>, lb_exec_str_buff = Some 20\<rparr>]) (pipe_node
     \<lparr>prts := (prts pipe_node)(10 \<mapsto> (wire 4 (Some 1) None None None)\<lparr>p_name := ''exec_str''\<rparr>)\<rparr>)"

lemma lua_node_ok: "node_ok (lua_node_ex os)"
  by (auto simp: node_ok_def lua_node_ex_def pipe_node_def fresh_from_def pipe_node_blk wire_def split: if_splits)

lemma ubx_port_get_priv [simp]: "ubx_port_get (Some a) (Some name) (set_priv b x s) = ubx_port_get (Some a) (Some name) s"
proof -
  have "port_find (set_priv b x s) ps name = port_find s ps name" for ps
  proof (induction ps)
    case (Cons a ps)
    then show ?case by (cases "prts s a") simp_all
  qed simp
  then show ?thesis by (simp add: ubx_port_get_def)
qed

lemma lua_ex_serves: "lua_serves (\<lambda>name l. LObj 0) ex_run 4 20 (\<lambda>os l s. l = os \<and> (\<exists>x. s = set_priv 4 x (lua_node_ex l0)))"
proof -
  have n: "node_ok (lua_node_ex l0)" by (rule lua_node_ok)
  have b: "blks (lua_node_ex l0) 4 = Some (pipe_blk ''w'' [10] (Ops_comp None 0))" by (simp add: lua_node_ex_def pipe_node_def)
  have p: "ubx_port_get (Some 4) (Some ''exec_str'') (lua_node_ex l0) = Some (Some 10)"
    "prts (lua_node_ex l0) 10 = Some ((wire 4 (Some 1) None None None)\<lparr>p_name := ''exec_str''\<rparr>)"
    "dats (lua_node_ex l0) 20 = Some (local_data (Some 1) 1 [7, 0, 0, 0])"
    by (simp_all add: ubx_port_get_def) (simp_all add: lua_node_ex_def pipe_node_def pipe_blk_def wire_def strncmp_eq_def)
  have "port_is_in ((wire 4 (Some 1) None None None)\<lparr>p_name := ''exec_str''\<rparr>)" by (simp add: port_is_in_def wire_def)
  with n b p show ?thesis by (auto simp: lua_serves_def ex_run_def wire_def local_data_def split: option.splits)
qed

section \<open>Properties\<close>

text \<open>C38: what a Lua block leaves on the stack of its interpreter. For every library that obeys the laws, every sequence of outcomes
  of the Lua function \<open>step\<close>, errors and normal returns in any order, and a block with nothing connected to its port, the steps are
  defined as long as the stack has room for the error values and two more, and then the stack holds exactly what it held before and on
  top of it the error value of every failing step, the last one first: a step that returns leaves nothing, and what a failing step leaves
  no later step removes.\<close>

theorem luablock_step_leaks:
  assumes "lua_laws V stack vm room glob run" "lua_serves glob run b d good" "good os (vm L) s" "lua_at b (Some d) L s"
    "room (length (lua_errors os) + 2) L"
  shows "\<exists>L' s'. luablock_steps V U H b (length os) s = Some s' \<and> lua_at b (Some d) L' s' \<and> stack L' = rev (lua_errors os) @ stack L"
  using lua_node_laws.luablock_steps_run [OF lua_node_laws.intro [OF assms(1)] assms(2-4), of 0 U H] assms(5) by simp

theorem luablock_step_leaks_witness:
  "\<exists>L' s'. luablock_steps lua_vm_ex ut_ref no_hooks 4 3 (lua_node_ex [Some (LStr ''a''), None, Some (LStr ''b'')]) = Some s' \<and>
     lua_at 4 (Some 20) L' s' \<and> ls_stack L' = [LStr ''b'', LStr ''a'']"
proof -
  let ?os = "[Some (LStr ''a''), None, Some (LStr ''b'')]"
  let ?s = "lua_node_ex ?os" and ?L = "\<lparr>ls_vm = ?os, ls_stack = []\<rparr>"
  have at: "lua_at 4 (Some 20) ?L ?s" by (simp add: lua_at_def get_priv_def lua_node_ex_def)
  have good: "?os = ls_vm ?L \<and> (\<exists>x. ?s = set_priv 4 x ?s)"
    by (rule conjI, simp) (rule exI [of _ "get_priv 4 ?s"], simp add: set_priv_def get_priv_def)
  have laws: "lua_laws lua_vm_ex ls_stack ls_vm (ref_room None) (\<lambda>name l. LObj 0) ex_run"
    unfolding lua_vm_ex_def by (rule ref_lua.lua_laws_axioms)
  have "ref_room None (length (lua_errors ?os) + 2) ?L" by (simp add: ref_room_def)
  from luablock_step_leaks [OF laws lua_ex_serves [of ?os] _ at this, of ut_ref no_hooks] good
  show ?thesis by (simp add: eval_nat_numeral del: luablock_steps.simps)
qed

end
