(* ===== verification/Ubx_Webif.thy ===== *)
theory Ubx_Webif
  imports Ubx_Lua Ubx_Trig
begin

text \<open>
  The web interface block, \<^verbatim>\<open>std_blocks/webif/webif.c\<close>: it answers the requests the web server \<open>mongoose\<close> hands to it by
  calling the Lua function \<open>request_handler\<close>. The server and the interpreter are parameters.
\<close>

section \<open>The block\<close>

text \<open>\<open>struct webif_info\<close>, without its constant fields: the mutex is uninitialised, free or locked; \<open>wi_ctx\<close> says whether the server
  runs.\<close>

record 'l webif_info =
  wi_L :: "'l option"
  wi_mutex :: "bool option"
  wi_ctx :: bool

type_synonym ('w, 'l) web_node = "('w, 'l webif_info) blk_world ubx"
type_synonym ('w, 'l) web_vm = "('l, ('w, 'l) web_node) lua_lib"

text \<open>What the environment does: whether the mutex can be initialised and locked and the server started on a port; the embedded Lua code
  (a generated file); the pointers to the node and to the request as Lua sees them.\<close>

record web_env =
  we_mutex_init_ok :: bool
  we_lock_ok :: bool
  we_start_ok :: "string \<Rightarrow> bool"
  we_webif_lua :: "u8 list"
  we_nd :: lua_val
  we_request :: lua_val

text \<open>A request: its URI, and the body \<open>mg_read\<close> delivers into a buffer of 1024 bytes, or its error.\<close>

record mg_request =
  mr_uri :: string
  mr_post :: "string option"

text \<open>Initialising a mutex again is undefined.\<close>

definition init_lua :: "web_env \<Rightarrow> ('w, 'l) web_vm \<Rightarrow> addr \<Rightarrow> ('w, 'l) web_node \<Rightarrow> (int \<times> ('w, 'l) web_node) option" where
  "init_lua E V b s = do {
     wi \<leftarrow> get_priv b s;
     blk \<leftarrow> blks s b;
     if wi_mutex wi \<noteq> None then None
     else if \<not> we_mutex_init_ok E then do { _ \<leftarrow> ubx_block_log blk s; Some (- 1, s) }
     else do {
       let wi = wi\<lparr>wi_mutex := Some False\<rparr>;
       let (ok, s) = mem_alloc s;
       if \<not> ok then do { _ \<leftarrow> ubx_block_log blk s; Some (- 1, set_priv b (Some (wi\<lparr>wi_L := None\<rparr>)) s) }
       else do {
         (r, L, s) \<leftarrow> luaL_dostring V (we_webif_lua E) (luaL_newstate V) (set_priv b (Some wi) s);
         wi \<leftarrow> get_priv b s;
         blk \<leftarrow> blks s b;
         _ \<leftarrow> (if r \<noteq> 0 then ubx_block_log blk s else Some ());
         Some (r, set_priv b (Some (wi\<lparr>wi_L := Some L\<rparr>)) s) } } }"

text \<open>The answer: status line, headers, an empty line and the body.\<close>

definition http_reply :: "string \<Rightarrow> string \<Rightarrow> string" where
  "http_reply mime_type res = (let crlf = [char_of (13 :: nat), char_of (10 :: nat)] in
     ''HTTP/1.1 200 OK'' @ crlf @ ''Content-Type: '' @ mime_type @ crlf @ ''Content-Length: '' @ dec (length res) @ crlf @ crlf @ res)"

definition web_unlock :: "addr \<Rightarrow> ('w, 'l) web_node \<Rightarrow> ('w, 'l) web_node option" where
  "web_unlock b s = do { wi \<leftarrow> get_priv b s; Some (set_priv b (Some (wi\<lparr>wi_mutex := Some False\<rparr>)) s) }"

text \<open>Closing the Lua state and starting anew, with the mutex held.\<close>

definition web_reload :: "web_env \<Rightarrow> ('w, 'l) web_vm \<Rightarrow> addr \<Rightarrow> ('w, 'l) web_node \<Rightarrow> (string option \<times> ('w, 'l) web_node) option" where
  "web_reload E V b s = do {
     wi \<leftarrow> get_priv b s;
     L \<leftarrow> wi_L wi;
     (r, s) \<leftarrow> init_lua E V b (set_priv b (Some (wi\<lparr>wi_L := None\<rparr>)) s);
     s \<leftarrow> web_unlock b s;
     Some (Some (http_reply ''text/html'' ''reloaded, <a href=\"./\">continue</a>''), s) }"

text \<open>The results of the handler are addressed from the bottom of the stack.\<close>

definition web_call :: "web_env \<Rightarrow> ('w, 'l) web_vm \<Rightarrow> addr \<Rightarrow> mg_request \<Rightarrow> ('w, 'l) web_node \<Rightarrow> (string option \<times> ('w, 'l) web_node) option" where
  "web_call E V b req s = do {
     wi \<leftarrow> get_priv b s;
     L \<leftarrow> wi_L wi;
     L \<leftarrow> lua_getglobal V ''request_handler'' L;
     L \<leftarrow> lua_push V (we_nd E) L;
     L \<leftarrow> lua_push V (we_request E) L;
     L \<leftarrow> lua_push V (case mr_post req of Some t \<Rightarrow> if t = [] then LNil else LStr t | None \<Rightarrow> LNil) L;
     (r, L, s) \<leftarrow> lua_pcall V 3 2 L s;
     wi \<leftarrow> get_priv b s;
     blk \<leftarrow> blks s b;
     if r \<noteq> 0 then do {
       _ \<leftarrow> ubx_block_log blk s;
       s \<leftarrow> web_unlock b (set_priv b (Some (wi\<lparr>wi_L := Some L\<rparr>)) s);
       Some (None, s) }
     else do {
       res \<leftarrow> luaL_checkstring V 1 L;
       mime_type \<leftarrow> luaL_optstring V 2 ''text/html'' L;
       L \<leftarrow> lua_pop V 2 L;
       s \<leftarrow> web_unlock b (set_priv b (Some (wi\<lparr>wi_L := Some L\<rparr>)) s);
       Some (Some (http_reply mime_type res), s) } }"

text \<open>The handler always returns 1: what matters is the reply that is sent, if any. A thread that locks the mutex twice never
  returns.\<close>

definition begin_request_handler ::
  "web_env \<Rightarrow> ('w, 'l) web_vm \<Rightarrow> addr \<Rightarrow> mg_request \<Rightarrow> ('w, 'l) web_node \<Rightarrow> (string option \<times> ('w, 'l) web_node) option" where
  "begin_request_handler E V b req s = do {
     wi \<leftarrow> get_priv b s;
     blk \<leftarrow> blks s b;
     if wi_mutex wi \<noteq> Some False then None
     else if \<not> we_lock_ok E then do { _ \<leftarrow> ubx_block_log blk s; Some (None, s) }
     else do {
       let s = set_priv b (Some (wi\<lparr>wi_mutex := Some True\<rparr>)) s;
       if mr_uri req = ''/reload'' then do { _ \<leftarrow> ubx_block_log blk s; web_reload E V b s }
       else web_call E V b req s } }"

definition wi_init :: "web_env \<Rightarrow> ('w, 'l) web_vm \<Rightarrow> addr \<Rightarrow> ('w, 'l) web_node \<Rightarrow> (int \<times> ('w, 'l) web_node) option" where
  "wi_init E V b s = do {
     let (ok, s) = mem_alloc s;
     if \<not> ok then Some (- EOUTOFMEM, s)
     else do {
       (r, s) \<leftarrow> init_lua E V b (set_priv b (Some \<lparr>wi_L = None, wi_mutex = None, wi_ctx = False\<rparr>) s);
       if r \<noteq> 0 then Some (- EOUTOFMEM, set_priv b None s) else Some (0, s) } }"

definition wi_cleanup :: "addr \<Rightarrow> ('w, 'l) web_node \<Rightarrow> ('w, 'l) web_node option" where
  "wi_cleanup b s = do {
     wi \<leftarrow> get_priv b s;
     L \<leftarrow> wi_L wi;
     if wi_mutex wi \<noteq> Some False then None else Some (set_priv b None s) }"

definition wi_start :: "web_env \<Rightarrow> ut_lib \<Rightarrow> addr \<Rightarrow> ('w, 'l) web_node \<Rightarrow> (int \<times> ('w, 'l) web_node) option" where
  "wi_start E U b s = do {
     wi \<leftarrow> get_priv b s;
     (len, p, s) \<leftarrow> getptr U ''char'' ''char'' b ''port'' s;
     if len < 0 then Some (- 1, s)
     else do {
       port_num \<leftarrow> (if len > 0 then load_string p s else Some ''8080'');
       blk \<leftarrow> blks s b;
       _ \<leftarrow> ubx_block_log blk s;
       let s = set_priv b (Some (wi\<lparr>wi_ctx := we_start_ok E port_num\<rparr>)) s;
       if we_start_ok E port_num then Some (0, s) else do { _ \<leftarrow> ubx_block_log blk s; Some (- 1, s) } } }"

definition wi_stop :: "addr \<Rightarrow> ('w, 'l) web_node \<Rightarrow> ('w, 'l) web_node option" where
  "wi_stop b s = do { wi \<leftarrow> get_priv b s; if wi_ctx wi then Some (set_priv b (Some (wi\<lparr>wi_ctx := False\<rparr>)) s) else None }"

definition webif_conf :: "ubx_proto_config list" where
  "webif_conf = [cfg_entry ''port'' ''char'' 0 0 (Some ''Port to listen on (default: 8080)'')]"

definition webif_comp :: "(string \<Rightarrow> fptr) \<Rightarrow> ubx_proto_block" where
  "webif_comp fp = \<lparr>pb_name = ''ubx/webif'', pb_meta_data = Some ''{ doc='A microblx webinterface',  realtime=false,}'',
     pb_attrs = BLOCK_ATTR_ACTIVE, pb_type = BLOCK_TYPE_COMPUTATION, pb_configs = webif_conf, pb_ports = [],
     pb_init = Some (fp ''wi_init''), pb_start = Some (fp ''wi_start''), pb_stop = Some (fp ''wi_stop''), pb_cleanup = Some (fp ''wi_cleanup''),
     pb_step = None, pb_read = None, pb_write = None\<rparr>"

definition webif_init :: "ut_lib \<Rightarrow> (string \<Rightarrow> fptr) \<Rightarrow> 'w ubx \<Rightarrow> (int \<times> 'w ubx) option" where
  "webif_init U fp s = ubx_block_register U (webif_comp fp) s"

definition webif_cleanup :: "ut_lib \<Rightarrow> 'w ubx \<Rightarrow> 'w ubx option" where
  "webif_cleanup U s = mod_unregister U ''ubx/webif'' s"

lemma webif_comp_sound: "proto_static (webif_comp fp)" "set (proto_types (webif_comp fp)) \<subseteq> set std_type_names"
  unfolding std_names
  by (simp_all add: proto_static_def proto_types_def webif_comp_def webif_conf_def entry_defs List.map_filter_simps)

section \<open>What is answered\<close>

text \<open>Outcomes of the Lua function, one per request: an error with its message, or a body and its type. The replies, given the messages that are
  still on the stack, bottom first: without any, the body and its type; the first two values of the stack otherwise.\<close>

fun web_spec :: "string list \<Rightarrow> (string + string \<times> string) list \<Rightarrow> string option list" where
  "web_spec ms [] = []"
| "web_spec ms (Inl m # os) = None # web_spec (ms @ [m]) os"
| "web_spec [] (Inr (body, mime) # os) = Some (http_reply mime body) # web_spec [] os"
| "web_spec [m] (Inr (body, mime) # os) = Some (http_reply body m) # web_spec [m] os"
| "web_spec (m # m' # ms) (Inr (body, mime) # os) = Some (http_reply m' m) # web_spec (m # m' # ms) os"

definition web_result :: "string + string \<times> string \<Rightarrow> lua_val + lua_val list" where
  "web_result x = (case x of Inl m \<Rightarrow> Inl (LStr m) | Inr (body, mime) \<Rightarrow> Inr [LStr body, LStr mime])"

text \<open>The Lua function answers the coming requests with the outcomes \<open>os\<close> and leaves the block alone.\<close>

definition web_serves ::
  "(string \<Rightarrow> 'v \<Rightarrow> lua_val) \<Rightarrow> (lua_val \<Rightarrow> lua_val list \<Rightarrow> 'v \<Rightarrow> ('w, 'l) web_node \<Rightarrow> ((lua_val + lua_val list) \<times> 'v \<times> ('w, 'l) web_node) option) \<Rightarrow>
     addr \<Rightarrow> ((string + string \<times> string) list \<Rightarrow> 'v \<Rightarrow> ('w, 'l) web_node \<Rightarrow> bool) \<Rightarrow> bool" where
  "web_serves glob run b good \<longleftrightarrow> (\<forall>os l s. good os l s \<longrightarrow> node_ok s \<and> blks s b \<noteq> None \<and> (\<forall>x. good os l (set_priv b x s)) \<and>
     (\<forall>x os' args. os = x # os' \<longrightarrow> (\<exists>l' s'. run (glob ''request_handler'' l) args l s = Some (web_result x, l', s') \<and>
        good os' l' s' \<and> get_priv b s' = get_priv b s)))"

definition outcome_text :: "string + string \<times> string \<Rightarrow> bool" where
  "outcome_text x = (case x of Inl m \<Rightarrow> no_nul m | Inr (body, mime) \<Rightarrow> no_nul body \<and> no_nul mime)"

fun web_run :: "web_env \<Rightarrow> ('w, 'l) web_vm \<Rightarrow> addr \<Rightarrow> mg_request list \<Rightarrow> ('w, 'l) web_node \<Rightarrow> (string option list \<times> ('w, 'l) web_node) option" where
  "web_run E V b [] s = Some ([], s)"
| "web_run E V b (req # reqs) s = do {
     (r, s) \<leftarrow> begin_request_handler E V b req s;
     (rs, s) \<leftarrow> web_run E V b reqs s;
     Some (r # rs, s) }"

definition web_at :: "addr \<Rightarrow> 'l \<Rightarrow> ('w, 'l) web_node \<Rightarrow> bool" where
  "web_at b L s \<longleftrightarrow> (\<exists>ctx. get_priv b s = Some \<lparr>wi_L = Some L, wi_mutex = Some False, wi_ctx = ctx\<rparr>)"

text \<open>The library in a node with web interfaces.\<close>

locale web_laws = lua_text_laws V stack vm room glob run
  for V :: "('w, 'l) web_vm" and stack :: "'l \<Rightarrow> lua_val list" and vm :: "'l \<Rightarrow> 'v" and room :: "nat \<Rightarrow> 'l \<Rightarrow> bool"
    and glob :: "string \<Rightarrow> 'v \<Rightarrow> lua_val"
    and run :: "lua_val \<Rightarrow> lua_val list \<Rightarrow> 'v \<Rightarrow> ('w, 'l) web_node \<Rightarrow> ((lua_val + lua_val list) \<times> 'v \<times> ('w, 'l) web_node) option"
begin

text \<open>What the code takes from the bottom of the stack when it holds the messages and two results.\<close>

lemma web_results:
  assumes "stack L = rev (map LStr ms @ [LStr body, LStr mime])" "\<forall>m \<in> set ms. no_nul m" "no_nul body" "no_nul mime"
  shows "\<exists>res ty. luaL_checkstring V 1 L = Some res \<and> luaL_optstring V 2 d L = Some ty \<and>
    (\<forall>os. web_spec ms (Inr (body, mime) # os) = Some (http_reply ty res) # web_spec ms os)"
proof -
  have r: "rev (stack L) = map LStr (ms @ [body, mime])" using assms(1) by simp
  note t = text_law [of 0 L, unfolded r] text_law [of 1 L _ d, unfolded r]
  consider "ms = []" | m where "ms = [m]" | m m' ms' where "ms = m # m' # ms'" by (cases ms; cases "tl ms") auto
  then show ?thesis by cases (use t assms in auto)
qed

lemma web_pushes:
  assumes "room (n + 4) L"
  shows "\<exists>L1 L2 L3 L4. lua_getglobal V f L = Some L1 \<and> lua_push V x L1 = Some L2 \<and> lua_push V y L2 = Some L3 \<and> lua_push V z L3 = Some L4 \<and>
    stack L4 = rev [x, y, z] @ glob f (vm L) # stack L \<and> vm L4 = vm L \<and> room n L4"
proof -
  have "room (Suc (Suc (Suc (Suc n)))) L" using assms by (simp add: eval_nat_numeral)
  from getglobal_law [OF this, of f] obtain L1 where L1: "lua_getglobal V f L = Some L1" "stack L1 = glob f (vm L) # stack L"
    "vm L1 = vm L" "room (Suc (Suc (Suc n))) L1" by blast
  from push_law [OF L1(4), of x] obtain L2 where L2: "lua_push V x L1 = Some L2" "stack L2 = x # stack L1" "vm L2 = vm L1" "room (Suc (Suc n)) L2" by blast
  from push_law [OF L2(4), of y] obtain L3 where L3: "lua_push V y L2 = Some L3" "stack L3 = y # stack L2" "vm L3 = vm L2" "room (Suc n) L3" by blast
  from push_law [OF L3(4), of z] obtain L4 where L4: "lua_push V z L3 = Some L4" "stack L4 = z # stack L3" "vm L4 = vm L3" "room n L4" by blast
  from L1 L2 L3 L4 show ?thesis by simp
qed

lemma web_request:
  assumes w: "web_serves glob run b good" and g: "good (x # os) (vm L) s" and at: "web_at b L s" and st: "stack L = rev (map LStr ms)"
    and lock: "we_lock_ok E" and uri: "mr_uri req \<noteq> ''/reload''" and tx: "outcome_text x" "\<forall>m \<in> set ms. no_nul m" and room: "room (n + 4) L"
    and msd: "ms' = ms @ (case x of Inl m \<Rightarrow> [m] | Inr y \<Rightarrow> [])"
  shows "\<exists>L' s' r. begin_request_handler E V b req s = Some (r, s') \<and> good os (vm L') s' \<and> web_at b L' s' \<and>
    stack L' = rev (map LStr ms') \<and> room (n + 4 - (if isl x then 1 else 0)) L' \<and> (\<forall>os. web_spec ms (x # os) = r # web_spec ms' os)"
proof -
  let ?f = "glob ''request_handler'' (vm L)"
  let ?p = "case mr_post req of Some t \<Rightarrow> if t = [] then LNil else LStr t | None \<Rightarrow> LNil"
  obtain ctx where p: "get_priv b s = Some \<lparr>wi_L = Some L, wi_mutex = Some False, wi_ctx = ctx\<rparr>" using at by (auto simp: web_at_def)
  define t where "t = set_priv b (Some \<lparr>wi_L = Some L, wi_mutex = Some True, wi_ctx = ctx\<rparr>) s"
  note serve = w [unfolded web_serves_def, rule_format]
  have n: "node_ok s" "blks s b \<noteq> None" "good (x # os) (vm L) t" using serve [OF g] by (simp_all add: t_def)
  then obtain blk where blk: "blks s b = Some blk" by blast
  from serve [OF n(3)] obtain l' s1 where c: "run ?f [we_nd E, we_request E, ?p] (vm L) t = Some (web_result x, l', s1)" "good os l' s1"
      "get_priv b s1 = get_priv b t" by blast
  have s1: "node_ok s1" "blks s1 b \<noteq> None" "\<And>x. good os l' (set_priv b x s1)" using serve [OF c(2)] by simp_all
  then obtain blk1 where blk1: "blks s1 b = Some blk1" by blast
  note log = node_ok_log(2) [OF s1(1) blk1]
  have h: "begin_request_handler E V b req s = web_call E V b req t"
    using p blk lock uri by (simp add: begin_request_handler_def t_def)
  have pr: "get_priv b s1 = Some \<lparr>wi_L = Some L, wi_mutex = Some True, wi_ctx = ctx\<rparr>" using c(3) by (simp add: t_def)
  from web_pushes [OF room, of "''request_handler''" "we_nd E" "we_request E" ?p] obtain L1 L2 L3 L4 where
    P: "lua_getglobal V ''request_handler'' L = Some L1" "lua_push V (we_nd E) L1 = Some L2" "lua_push V (we_request E) L2 = Some L3"
      "lua_push V ?p L3 = Some L4" "stack L4 = rev [we_nd E, we_request E, ?p] @ ?f # stack L" "vm L4 = vm L" "room n L4" by blast
  from call_law [OF P(5) _ P(7), where s = t and res = "web_result x" and l' = l' and s' = s1 and k = 2] c(1) P(6) obtain r L5 where
    C: "lua_pcall V 3 2 L4 t = Some (r, L5, s1)" "r \<noteq> 0 \<longleftrightarrow> isl (web_result x)" "vm L5 = l'"
      "stack L5 = (case web_result x of Inl e \<Rightarrow> e # stack L | Inr vs \<Rightarrow> rev (lua_adjust 2 vs) @ stack L)"
      "room (n + 4 - (if isl (web_result x) then 1 else 2)) L5" by (auto simp: eval_nat_numeral)
  let ?s' = "\<lambda>L'. set_priv b (Some \<lparr>wi_L = Some L', wi_mutex = Some False, wi_ctx = ctx\<rparr>) s1"
  show ?thesis
  proof (cases x)
    case (Inl m)
    then have x: "web_result x = Inl (LStr m)" by (simp add: web_result_def)
    have "web_call E V b req t = Some (None, ?s' L5)"
      using P(1-4) C(1,2) x pr blk1 log by (simp add: web_call_def t_def web_unlock_def)
    moreover have "stack L5 = rev (map LStr ms')" "room (n + 4 - 1) L5" using C(4,5) x st msd Inl by simp_all
    ultimately show ?thesis using h s1(3) C(3) Inl msd by (auto simp: web_at_def)
  next
    case (Inr y)
    obtain body mime where y: "y = (body, mime)" by (cases y)
    then have x: "web_result x = Inr [LStr body, LStr mime]" by (simp add: web_result_def Inr)
    have ms': "ms' = ms" using msd Inr by simp
    from tx(1) have nn: "no_nul body" "no_nul mime" by (simp_all add: outcome_text_def Inr y)
    have S: "stack L5 = rev (map LStr ms @ [LStr body, LStr mime])" using C(4) x st by (simp add: lua_adjust_def)
    from web_results [OF S tx(2) nn, of "''text/html''"] obtain res ty where r: "luaL_checkstring V 1 L5 = Some res"
      "luaL_optstring V 2 ''text/html'' L5 = Some ty" "\<And>os. web_spec ms (Inr (body, mime) # os) = Some (http_reply ty res) # web_spec ms os"
      by blast
    have "2 \<le> length (stack L5)" by (simp add: S)
    from pop_law [OF this C(5)] x obtain L6 where L6: "lua_pop V 2 L5 = Some L6" "stack L6 = drop 2 (stack L5)" "vm L6 = vm L5"
      "room (n + 4) L6" by (auto simp: eval_nat_numeral)
    have "web_call E V b req t = Some (Some (http_reply ty res), ?s' L6)"
      using P(1-4) C(1,2) x pr blk1 r(1,2) L6(1) by (simp add: web_call_def t_def web_unlock_def)
    moreover have "stack L6 = rev (map LStr ms')" using L6(2) S ms' by simp
    ultimately show ?thesis using h s1(3) C(3) L6(3,4) Inr y r(3) ms' by (auto simp: web_at_def)
  qed
qed

lemma web_run_ok:
  assumes w: "web_serves glob run b good" and lock: "we_lock_ok E"
    and "good os (vm L) s" "web_at b L s" "stack L = rev (map LStr ms)" "length reqs = length os" "\<forall>q \<in> set reqs. mr_uri q \<noteq> ''/reload''"
    and "\<forall>x \<in> set os. outcome_text x" "\<forall>m \<in> set ms. no_nul m" "room (length (filter isl os) + n + 4) L"
  shows "\<exists>s'. web_run E V b reqs s = Some (web_spec ms os, s')"
  using assms(3-)
proof (induction os arbitrary: L s ms reqs n)
  case (Cons x os)
  from Cons.prems(4,5) obtain q qs where q: "reqs = q # qs" "mr_uri q \<noteq> ''/reload''" "length qs = length os" by (cases reqs) auto
  define ms' where "ms' = ms @ (case x of Inl m \<Rightarrow> [m] | Inr y \<Rightarrow> [])"
  have tx: "outcome_text x" using Cons.prems(6) by simp
  from web_request [OF w Cons.prems(1-3) lock q(2) tx Cons.prems(7,8) ms'_def] obtain L' s' a where
    s': "begin_request_handler E V b q s = Some (a, s')" "good os (vm L') s'" "web_at b L' s'" "stack L' = rev (map LStr ms')"
      "room (length (filter isl (x # os)) + n + 4 - (if isl x then 1 else 0)) L'" "\<And>os. web_spec ms (x # os) = a # web_spec ms' os" by blast
  have nn: "\<forall>m \<in> set ms'. no_nul m" using Cons.prems(7) tx by (cases x) (auto simp: outcome_text_def ms'_def)
  have rm: "room (length (filter isl os) + n + 4) L'" using s'(5) by (cases x) (simp_all add: ac_simps)
  from Cons.prems(5,6) q(1) have "\<forall>q \<in> set qs. mr_uri q \<noteq> ''/reload''" "\<forall>x \<in> set os. outcome_text x" by simp_all
  from Cons.IH [OF s'(2-4) q(3) this nn rm] s'(1,6) q(1) show ?case by auto
qed simp

end

interpretation ref_web: web_laws "lua_ref cap G R l0" ls_stack ls_vm "ref_room cap" G R for cap G R l0
  by unfold_locales

text \<open>A request to reload initialises a mutex that is locked.\<close>

lemma init_lua_twice: "get_priv b s = Some wi \<Longrightarrow> wi_mutex wi \<noteq> None \<Longrightarrow> init_lua E V b s = None"
  by (cases "blks s b") (simp_all add: init_lua_def)

lemma web_reload_locked: "get_priv b s = Some wi \<Longrightarrow> wi_mutex wi \<noteq> None \<Longrightarrow> web_reload E V b s = None"
  by (cases "wi_L wi") (simp_all add: web_reload_def init_lua_twice)

lemma web_reload_undefined:
  assumes "web_at b L s" "we_lock_ok E" "mr_uri req = ''/reload''"
  shows "begin_request_handler E V b req s = None"
proof (cases "blks s b")
  case (Some blk)
  from assms(1) obtain wi where "get_priv b s = Some wi" "wi_mutex wi = Some False" by (auto simp: web_at_def)
  moreover have "web_reload E V b (set_priv b (Some (wi\<lparr>wi_mutex := Some True\<rparr>)) s) = None" for wi
    by (rule web_reload_locked [of _ _ "wi\<lparr>wi_mutex := Some True\<rparr>"]) simp_all
  ultimately show ?thesis using Some assms(2,3) by (cases "ubx_block_log blk s") (simp_all add: begin_request_handler_def ubx_block_log_def split: option.splits)
qed (simp add: begin_request_handler_def bind_eq_None_conv)

section \<open>Properties\<close>

text \<open>C39: a request is answered with the body and the type its Lua handler returns only as long as no handler has failed. The message of
  the first failure stays at the bottom of the stack, where the results of all later requests are looked for: from then on the answer is
  that message, with the body (or the message of the second failure) as its type. This holds for every library that obeys the laws, for
  all sequences of requests, other than for reloading, whose messages fit on the stack of the interpreter.\<close>

theorem web_replies:
  assumes "lua_text_laws V stack vm room glob run" "web_serves glob run b good" "we_lock_ok E" "good os (vm L) s" "web_at b L s" "stack L = []"
    "length reqs = length os" "\<forall>q \<in> set reqs. mr_uri q \<noteq> ''/reload''" "\<forall>x \<in> set os. outcome_text x"
    "room (length (filter isl os) + 4) L"
  shows "\<exists>s'. web_run E V b reqs s = Some (web_spec [] os, s')"
  using web_laws.web_run_ok [OF web_laws.intro [OF assms(1)] assms(2-5), of "[]" reqs 0] assms(6-) by simp

type_synonym ex_web = "(ring cyc_world, (string + string \<times> string) list lua_state) web_node"

definition web_ex_run ::
  "lua_val \<Rightarrow> lua_val list \<Rightarrow> (string + string \<times> string) list \<Rightarrow> ex_web \<Rightarrow> ((lua_val + lua_val list) \<times> (string + string \<times> string) list \<times> ex_web) option" where
  "web_ex_run f args l s = Some (case l of [] \<Rightarrow> (Inl (LStr []), [], s) | x # l \<Rightarrow> (web_result x, l, s))"

definition web_vm_ex :: "(ring cyc_world, (string + string \<times> string) list lua_state) web_vm" where
  "web_vm_ex = lua_ref None (\<lambda>name l. LObj 0) web_ex_run []"

definition web_env_ex :: web_env where
  "web_env_ex = \<lparr>we_mutex_init_ok = True, we_lock_ok = True, we_start_ok = (\<lambda>p. True), we_webif_lua = [], we_nd = LPtr 1, we_request = LPtr 2\<rparr>"

definition web_node_ex :: "(string + string \<times> string) list \<Rightarrow> ex_web" where
  "web_node_ex l = with_world ([5 \<mapsto> pipe_info],
     [4 \<mapsto> \<lparr>wi_L = Some \<lparr>ls_vm = l, ls_stack = []\<rparr>, wi_mutex = Some False, wi_ctx = True\<rparr>]) pipe_node"

lemma web_serves_ex: "web_serves (\<lambda>name l. LObj 0) web_ex_run 4 (\<lambda>os l s. l = os \<and> (\<exists>x. s = set_priv 4 x (web_node_ex l0)))"
proof -
  have "node_ok (web_node_ex l0)" using pipe_node_ok by (simp add: web_node_ex_def)
  moreover have "blks (web_node_ex l0) 4 \<noteq> None" by (simp add: web_node_ex_def pipe_node_def)
  ultimately show ?thesis by (auto simp: web_serves_def web_ex_run_def)
qed

theorem web_replies_witness:
  "\<exists>s'. web_run web_env_ex web_vm_ex 4 (replicate 3 \<lparr>mr_uri = ''/'', mr_post = None\<rparr>)
      (web_node_ex [Inr (''ok'', ''text/plain''), Inl ''failed'', Inr (''ok'', ''text/plain'')]) =
    Some ([Some (http_reply ''text/plain'' ''ok''), None, Some (http_reply ''ok'' ''failed'')], s')"
proof -
  let ?os = "[Inr (''ok'', ''text/plain''), Inl ''failed'', Inr (''ok'', ''text/plain'')] :: (string + string \<times> string) list"
  let ?s = "web_node_ex ?os" and ?L = "\<lparr>ls_vm = ?os, ls_stack = []\<rparr>"
  have good: "?os = ls_vm ?L \<and> (\<exists>x. ?s = set_priv 4 x ?s)"
    by (rule conjI, simp) (rule exI [of _ "get_priv 4 ?s"], simp add: set_priv_def get_priv_def)
  have at: "web_at 4 ?L ?s" unfolding web_at_def by (rule exI [of _ True]) (simp add: get_priv_def web_node_ex_def)
  have tx: "\<forall>x \<in> set ?os. outcome_text x" by (simp add: outcome_text_def no_nul_def char_of_def)
  have laws: "lua_text_laws web_vm_ex ls_stack ls_vm (ref_room None) (\<lambda>name l. LObj 0) web_ex_run"
    unfolding web_vm_ex_def by (rule ref_lua.lua_text_laws_axioms)
  have ok: "we_lock_ok web_env_ex" "ls_stack ?L = []" "ref_room None (length (filter isl ?os) + 4) ?L"
    by (simp_all add: web_env_ex_def ref_room_def)
  have "\<exists>s'. web_run web_env_ex web_vm_ex 4 (replicate 3 \<lparr>mr_uri = ''/'', mr_post = None\<rparr>) ?s = Some (web_spec [] ?os, s')"
    by (rule web_replies [OF laws web_serves_ex [of ?os] ok(1), where os = ?os and L = ?L and s = ?s])
      (use good at tx ok in simp_all)
  then show ?thesis by simp
qed

end
