(* ===== verification/Ubx_Logview.thy ===== *)
theory Ubx_Logview
  imports Ubx_Rtlog Ubx_Mqueue Ubx_Elem
begin

text \<open>
  From a log call to the terminal: the messages of \<^verbatim>\<open>libubx/rtlog.c\<close>, attaching to the log in \<^verbatim>\<open>libubx/rtlog_client.c\<close>, and
  the viewer \<^verbatim>\<open>tools/ubx-log.c\<close>. The kernel's answers are arguments, printed text is a result.
\<close>

section \<open>Messages\<close>

text \<open>\<open>struct ubx_log_msg\<close>, with its two character arrays of 64 and 128 bytes.\<close>

definition UBX_LOG_MSG_MAXLEN :: nat where "UBX_LOG_MSG_MAXLEN = 127"

record ubx_log_msg =
  lm_level :: int
  lm_ts :: ubx_timespec
  lm_src :: "u8 list"
  lm_msg :: "u8 list"

text \<open>\<open>strncpy\<close> and \<open>vsnprintf\<close> into an array that holds \<open>dst\<close>.\<close>

definition strncpy_bytes :: "nat \<Rightarrow> string \<Rightarrow> u8 list \<Rightarrow> u8 list" where
  "strncpy_bytes n src dst = (let bs = take n (bytes_of_string src) in bs @ replicate (n - length bs) 0 @ drop n dst)"

definition vsnprintf_bytes :: "nat \<Rightarrow> string \<Rightarrow> u8 list \<Rightarrow> u8 list" where
  "vsnprintf_bytes n t dst = (let bs = take (n - 1) (bytes_of_string t) in bs @ [0] @ drop (length bs + 1) dst)"

text \<open>\<open>__ubx_log\<close>: \<open>t\<close> is the formatted text, \<open>junk\<close> what the uninitialised local \<open>msg\<close> holds.\<close>

definition ubx_log_format :: "int \<Rightarrow> ubx_timespec \<Rightarrow> string \<Rightarrow> string \<Rightarrow> ubx_log_msg \<Rightarrow> ubx_log_msg" where
  "ubx_log_format level now src t junk = \<lparr>lm_level = level, lm_ts = now,
     lm_src = strncpy_bytes UBX_BLOCK_NAME_MAXLEN src (lm_src junk), lm_msg = vsnprintf_bytes UBX_LOG_MSG_MAXLEN t (lm_msg junk)\<rparr>"

text \<open>A string in an array without NUL is read beyond its end.\<close>

definition field_text :: "u8 list \<Rightarrow> string option" where
  "field_text f = (if 0 \<in> set f then Some (string_of_bytes (takeWhile (\<lambda>b. b \<noteq> 0) f)) else None)"

text \<open>The log function of the node gets the message. Without one the text goes to the standard error.\<close>

definition rt_ubx_log ::
  "(ubx_log_msg \<Rightarrow> 's \<Rightarrow> 's option) option \<Rightarrow> int \<Rightarrow> ubx_timespec \<Rightarrow> string \<Rightarrow> string \<Rightarrow> ubx_log_msg \<Rightarrow> 's \<Rightarrow> (string \<times> 's) option" where
  "rt_ubx_log log level now src t junk s =
     (let msg = ubx_log_format level now src t junk in
      case log of
        None \<Rightarrow> do {
          a \<leftarrow> field_text (lm_src msg); m \<leftarrow> field_text (lm_msg msg);
          Some (''ERROR: rtlog: node->log is NULL (msg: '' @ a @ '': '' @ m @ '')'' @ [char_of (10 :: nat)], s) }
      | Some f \<Rightarrow> do { s \<leftarrow> f msg s; Some ('''', s) })"

text \<open>The macro \<open>ubx_log\<close>.\<close>

definition ubx_log ::
  "int \<Rightarrow> (ubx_log_msg \<Rightarrow> 's \<Rightarrow> 's option) option \<Rightarrow> int \<Rightarrow> ubx_timespec \<Rightarrow> string \<Rightarrow> string \<Rightarrow> ubx_log_msg \<Rightarrow> 's \<Rightarrow> (string \<times> 's) option" where
  "ubx_log nd_level log level now src t junk s = (if level \<le> nd_level then rt_ubx_log log level now src t junk s else Some ('''', s))"

text \<open>The layout of a message in a frame; \<open>pad\<close> are the four bytes of padding behind the level.\<close>

definition log_msg_bytes :: "u8 list \<Rightarrow> ubx_log_msg \<Rightarrow> u8 list" where
  "log_msg_bytes pad m = word_enc (word_of_int (lm_level m) :: u32) @ pad @ word_enc (word_of_int (sec (lm_ts m)) :: u64) @
     word_enc (word_of_int (nsec (lm_ts m)) :: u64) @ lm_src m @ lm_msg m"

definition log_msg_of :: "u8 list \<Rightarrow> ubx_log_msg" where
  "log_msg_of bs = \<lparr>lm_level = sint (of_nat (le_word (take 4 bs)) :: u32),
     lm_ts = \<lparr>sec = sint (of_nat (le_word (take 8 (drop 8 bs))) :: u64), nsec = sint (of_nat (le_word (take 8 (drop 16 bs))) :: u64)\<rparr>,
     lm_src = take 64 (drop 24 bs), lm_msg = take 128 (drop 88 bs)\<rparr>"

text \<open>The logger that prints.\<close>

definition loglevel_str :: "string list" where
  "loglevel_str = [''EMERG'', ''ALERT'', ''CRIT'', ''ERROR'', ''WARN'', ''NOTICE'', ''INFO'', ''DEBUG'']"

definition level_name :: "int \<Rightarrow> string" where
  "level_name l = (if l > 7 \<or> l < 0 then ''INVALID'' else loglevel_str ! nat l)"

text \<open>\<open>%06li\<close>\<close>

definition dec_06 :: "int \<Rightarrow> string" where
  "dec_06 n = (let d = dec (nat \<bar>n\<bar>); sgn = (if n < 0 then ''-'' else '''') in
     sgn @ replicate (6 - length sgn - length d) (CHR ''0'') @ d)"

definition ts_text :: "ubx_timespec \<Rightarrow> string" where
  "ts_text ts = ''['' @ dec_long (sec ts) @ ''.'' @ dec_06 (nsec ts sdiv 1000) @ '']''"

definition ubx_log_simple :: "string \<Rightarrow> ubx_log_msg \<Rightarrow> (bool \<times> string) option" where
  "ubx_log_simple nd_name' msg = do {
     src \<leftarrow> field_text (lm_src msg);
     t \<leftarrow> field_text (lm_msg msg);
     Some (lm_level msg \<le> 4, ts_text (lm_ts msg) @ '' '' @ level_name (lm_level msg) @ '' '' @ nd_name' @ ''.'' @ src @ '': '' @ t @
       [char_of (10 :: nat)]) }"

text \<open>\<open>ubx_log_cleanup\<close>: the node has no log function any more and the segment is unmapped.\<close>

definition ubx_log_cleanup ::
  "(ubx_log_msg \<Rightarrow> 's \<Rightarrow> 's option) option \<times> log_shm_inf option \<Rightarrow> (ubx_log_msg \<Rightarrow> 's \<Rightarrow> 's option) option \<times> log_shm_inf option" where
  "ubx_log_cleanup nd = (None, None)"

section \<open>Attaching to the log\<close>

text \<open>Error numbers of the kernel.\<close>

definition ENOENT :: int where "ENOENT = 2"
definition EAGAIN :: int where "EAGAIN = 11"
definition ENAMETOOLONG :: int where "ENAMETOOLONG = 36"

text \<open>What \<open>stat\<close>, \<open>shm_open\<close> and \<open>mmap\<close> return: an error number or the size and the contents of the file. The size is kept in
  an \<open>int\<close>. The second result of \<open>logc_attach\<close> tells whether a descriptor has been opened: it stays open when \<open>mmap\<close> fails.\<close>

record attach_env =
  ae_stat :: "int + int"
  ae_shm_open :: "int + unit"
  ae_mmap :: "int + log_buf"

definition get_shm_file_size :: "int + int \<Rightarrow> int + int" where
  "get_shm_file_size r = map_sum id c_int r"

definition logc_attach :: "attach_env \<Rightarrow> (int + logc_info) \<times> bool" where
  "logc_attach e =
     (case get_shm_file_size (ae_stat e) of
        Inl err \<Rightarrow> (Inl err, False)
      | Inr sz \<Rightarrow> (case ae_shm_open e of
          Inl err \<Rightarrow> (Inl err, False)
        | Inr _ \<Rightarrow> (case ae_mmap e of
            Inl err \<Rightarrow> (Inl err, True)
          | Inr b \<Rightarrow> (Inr (logc_init sz sizeof_log_msg b), True))))"

section \<open>The viewer\<close>

text \<open>\<open>log_data\<close>: the line of a message. With colours, the colour is looked up without checking the level.\<close>

definition esc :: "string \<Rightarrow> string" where "esc n = char_of (27 :: nat) # ''['' @ n @ ''m''"

definition loglevel_color :: "string list" where
  "loglevel_color = map esc [''31'', ''31'', ''31'', ''31'', ''33'', ''36'', ''37'', ''35'']"

definition loglevel_colour :: "int \<Rightarrow> string option" where
  "loglevel_colour l = (if 0 \<le> l \<and> l < int (length loglevel_color) then Some (loglevel_color ! nat l) else None)"

definition log_line :: "bool \<Rightarrow> ubx_log_msg \<Rightarrow> string option" where
  "log_line color msg = (if color then do {
       src \<leftarrow> field_text (lm_src msg); c \<leftarrow> loglevel_colour (lm_level msg); t \<leftarrow> field_text (lm_msg msg);
       Some (esc ''32'' @ ts_text (lm_ts msg) @ '' '' @ esc ''33'' @ src @ '' '' @ c @ level_name (lm_level msg) @ '': '' @ t @
         [char_of (10 :: nat)] @ esc ''0'') }
     else do {
       src \<leftarrow> field_text (lm_src msg); t \<leftarrow> field_text (lm_msg msg);
       Some (ts_text (lm_ts msg) @ '' '' @ src @ '' '' @ level_name (lm_level msg) @ '': '' @ t @ [char_of (10 :: nat)]) })"

definition log_data :: "bool \<Rightarrow> logc_info \<Rightarrow> log_buf \<Rightarrow> (string \<times> logc_info) option" where
  "log_data color lc b = (case logc_read_frame lc b of
     (NEW_DATA, Some o', lc') \<Rightarrow> do {
       f \<leftarrow> logc_frame_bytes lc b o';
       line \<leftarrow> log_line color (log_msg_of f);
       Some (line, lc') }
   | (_, _, lc') \<Rightarrow> Some ('''', lc'))"

definition errc :: "bool \<Rightarrow> string \<Rightarrow> string" where
  "errc color t = (if color then esc ''31'' else '''') @ t @ (if color then esc ''0'' else '''')"

definition sep_line :: "bool \<Rightarrow> string" where
  "sep_line color = (if color then esc ''35'' else '''') @ replicate 80 (CHR ''-'') @ [char_of (10 :: nat)] @ (if color then esc ''0'' else '''')"

text \<open>\<open>start_inotify\<close>: the error numbers of \<open>inotify_init1\<close> and \<open>inotify_add_watch\<close>, if they fail; the second result tells
  whether the descriptor is open.\<close>

definition start_inotify :: "int option \<Rightarrow> int option \<Rightarrow> int \<times> bool" where
  "start_inotify init watch = (case init of Some err \<Rightarrow> (- err, False)
     | None \<Rightarrow> (case watch of Some err \<Rightarrow> (- err, False) | None \<Rightarrow> (0, True)))"

text \<open>
  \<open>check_inotify\<close> walks the events in the bytes that \<open>read\<close> has put into \<open>inbuf\<close>: a watch, the mask, a cookie and the length of
  the name, four bytes each, and the name. \<open>strncmp\<close> with the length of the file's name compares the beginning of the name only.
\<close>

definition IN_MODIFY :: u32 where "IN_MODIFY = 2"
definition IN_CREATE :: u32 where "IN_CREATE = 256"
definition LOG_SHM_FILENAME :: string where "LOG_SHM_FILENAME = ''rtlog.logshm''"

fun strncmp_eq :: "u8 list \<Rightarrow> u8 list \<Rightarrow> bool option" where
  "strncmp_eq [] bs = Some True"
| "strncmp_eq (f # fs) [] = None"
| "strncmp_eq (f # fs) (b # bs) = (if f = b then strncmp_eq fs bs else Some False)"

definition rd_u32 :: "u8 list \<Rightarrow> nat \<Rightarrow> u32 option" where
  "rd_u32 buf p = map_option (\<lambda>bs. of_nat (le_word bs)) (mem_read buf p 4)"

function check_events :: "u8 list \<Rightarrow> u32 \<Rightarrow> u8 list \<Rightarrow> nat \<Rightarrow> nat \<Rightarrow> int option" where
  "check_events file want buf nr p =
     (if nr \<le> p then Some 0
      else (case strncmp_eq file (drop (p + 16) buf) of
          None \<Rightarrow> None
        | Some same \<Rightarrow> (case rd_u32 buf (p + 4) of
            None \<Rightarrow> None
          | Some m \<Rightarrow>
              if same \<and> m AND want \<noteq> 0 then Some 1
              else (case rd_u32 buf (p + 12) of
                  None \<Rightarrow> None
                | Some len \<Rightarrow> check_events file want buf nr (p + (16 + unat len))))))"
  by pat_completeness auto

termination by (relation "measure (\<lambda>(_, _, _, nr, p). nr - p)") auto

declare check_events.simps [simp del]

type_synonym ino_read = "int + nat \<times> u8 list"

definition check_inotify :: "u32 \<Rightarrow> ino_read \<Rightarrow> int option" where
  "check_inotify want r = (case r of Inl err \<Rightarrow> Some (- err)
     | Inr (nr, buf) \<Rightarrow> check_events (bytes_of_string LOG_SHM_FILENAME) want buf nr 0)"

text \<open>\<open>lc_init\<close>. Its loops go on as long as the kernel has answers, and the lists of answers bound them. The two structures are
  null, allocated or freed.\<close>

datatype ptr_st = PNull | PLive | PFreed

definition free_ptr :: "ptr_st \<Rightarrow> ptr_st option" where
  "free_ptr p = (case p of PNull \<Rightarrow> Some PNull | PLive \<Rightarrow> Some PFreed | PFreed \<Rightarrow> None)"

datatype 'a run = Waits | Undef | Done 'a

record lc_env =
  le_calloc_lc :: bool
  le_calloc_ui :: bool
  le_start1 :: "int option \<times> int option"
  le_tries :: "(attach_env \<times> ino_read list) list"
  le_start2 :: "int option \<times> int option"

record lc_state =
  ls_lcinf :: ptr_st
  ls_uininf :: ptr_st
  ls_infd :: bool
  ls_fds :: nat
  ls_conn :: "logc_info option"

fun wait_shm :: "ino_read list \<Rightarrow> int run" where
  "wait_shm [] = Waits"
| "wait_shm (r # rs) = (case check_inotify IN_CREATE r of
     None \<Rightarrow> Undef
   | Some d \<Rightarrow> if d < 0 then Done d else if d = 0 then wait_shm rs else Done d)"

text \<open>The number is that of descriptors left open by attempts that have failed.\<close>

fun attach_loop :: "(attach_env \<times> ino_read list) list \<Rightarrow> nat \<Rightarrow> ((int + logc_info) \<times> nat) run" where
  "attach_loop [] k = Waits"
| "attach_loop ((e, rs) # es) k = (case logc_attach e of
     (Inr lc, _) \<Rightarrow> Done (Inr lc, k)
   | (Inl err, fd) \<Rightarrow>
       let k = (if fd then k + 1 else k) in
       if err = ENAMETOOLONG then Done (Inl err, k)
       else if err = ENOENT then (case wait_shm rs of
           Waits \<Rightarrow> Waits
         | Undef \<Rightarrow> Undef
         | Done d \<Rightarrow> if d < 0 then Done (Inl d, k) else attach_loop es k)
       else attach_loop es k)"

definition lc_init :: "lc_env \<Rightarrow> (int \<times> lc_state) run" where
  "lc_init e =
     (if \<not> le_calloc_lc e then Done (EOUTOFMEM, \<lparr>ls_lcinf = PNull, ls_uininf = PNull, ls_infd = False, ls_fds = 0, ls_conn = None\<rparr>)
      else if \<not> le_calloc_ui e
        then Done (EOUTOFMEM, \<lparr>ls_lcinf = PFreed, ls_uininf = PNull, ls_infd = False, ls_fds = 0, ls_conn = None\<rparr>)
      else let (ret, fd) = start_inotify (fst (le_start1 e)) (snd (le_start1 e)) in
        if ret < 0 then Done (ret, \<lparr>ls_lcinf = PFreed, ls_uininf = PFreed, ls_infd = fd, ls_fds = 0, ls_conn = None\<rparr>)
        else (case attach_loop (le_tries e) 0 of
          Waits \<Rightarrow> Waits
        | Undef \<Rightarrow> Undef
        | Done (Inl err, k) \<Rightarrow>
            if err = ENAMETOOLONG
            then Done (err, \<lparr>ls_lcinf = PFreed, ls_uininf = PFreed, ls_infd = False, ls_fds = k, ls_conn = None\<rparr>)
            else Done (err, \<lparr>ls_lcinf = PLive, ls_uininf = PLive, ls_infd = fd, ls_fds = k, ls_conn = None\<rparr>)
        | Done (Inr lc, k) \<Rightarrow>
            let (ret, fd) = start_inotify (fst (le_start2 e)) (snd (le_start2 e)) in
            if ret \<noteq> 0 then Done (ret, \<lparr>ls_lcinf = PFreed, ls_uininf = PLive, ls_infd = fd, ls_fds = k + 1, ls_conn = Some lc\<rparr>)
            else Done (0, \<lparr>ls_lcinf = PLive, ls_uininf = PLive, ls_infd = fd, ls_fds = k + 1, ls_conn = Some lc\<rparr>)))"

text \<open>What one round of the main loop sees: the events, the attempts to reopen the log (the one with \<open>n\<close> more to go), and the log
  at the three points of time at which it is looked at; a key.\<close>

record view_in =
  vi_ino :: ino_read
  vi_tries :: "nat \<Rightarrow> attach_env"
  vi_old :: log_buf
  vi_has :: log_buf
  vi_read :: log_buf
  vi_key :: "char option"
  vi_strerror :: string

primrec reopen :: "nat \<Rightarrow> (nat \<Rightarrow> attach_env) \<Rightarrow> int \<Rightarrow> int + logc_info" where
  "reopen 0 tries ret = Inl ret"
| "reopen (Suc n) tries ret = (case fst (logc_attach (tries n)) of Inr lc \<Rightarrow> Inr lc | Inl err \<Rightarrow> reopen n tries err)"

definition check_new_shm :: "bool \<Rightarrow> bool \<Rightarrow> view_in \<Rightarrow> logc_info \<Rightarrow> (string \<times> (int + logc_info)) option" where
  "check_new_shm color show_old i lc = (case check_inotify (IN_CREATE OR IN_MODIFY) (vi_ino i) of
     None \<Rightarrow> None
   | Some ret \<Rightarrow>
       if ret = 0 \<or> ret = - EAGAIN then Some ('''', Inr lc)
       else if ret = 1 then
         (let msg = errc color (''ubx log shm recreation/truncation detected - reopening'' @ [char_of (10 :: nat)]) in
          case reopen 11 (vi_tries i) ret of
            Inl err \<Rightarrow> Some (msg @ ''logc_init failed reinitialize'' @ [char_of (10 :: nat)], Inl err)
          | Inr lc \<Rightarrow> Some (msg, Inr (if show_old then logc_seek_to_oldest lc (vi_old i) else lc)))
       else Some (''error '' @ dec_long ret @ '' ocurred checking inotify: '' @ vi_strerror i @ [char_of (10 :: nat)], Inl ret))"

datatype viewer = Viewing logc_info | Exits int

definition viewer_round :: "bool \<Rightarrow> bool \<Rightarrow> view_in \<Rightarrow> logc_info \<Rightarrow> (string \<times> string \<times> viewer) option" where
  "viewer_round color show_old i lc = (case check_new_shm color show_old i lc of
     None \<Rightarrow> None
   | Some (err, Inl ret) \<Rightarrow> Some ('''', err, Exits ret)
   | Some (err, Inr lc) \<Rightarrow> (case logc_has_data lc (vi_has i) of
       NO_DATA \<Rightarrow> Some ('''', err @ (if vi_key i = Some (char_of (10 :: nat)) then sep_line color else ''''), Viewing lc)
     | NEW_DATA \<Rightarrow> do { (out, lc) \<leftarrow> log_data color lc (vi_read i); Some (out, err, Viewing lc) }
     | OVERRUN \<Rightarrow> Some ('''', err @ errc color (''OVERRUN - reset read side'' @ [char_of (10 :: nat)]), Viewing (logc_reset_read lc (vi_read i)))
     | ERROR \<Rightarrow> Some ('''', err @ errc color (''ERROR checking for data'' @ [char_of (10 :: nat)]), Viewing (logc_reset_read lc (vi_read i)))))"

fun viewer_loop :: "bool \<Rightarrow> bool \<Rightarrow> view_in list \<Rightarrow> logc_info \<Rightarrow> (string \<times> string \<times> viewer) option" where
  "viewer_loop color show_old [] lc = Some ('''', '''', Viewing lc)"
| "viewer_loop color show_old (i # is) lc = (case viewer_round color show_old i lc of
     None \<Rightarrow> None
   | Some (out, err, Exits ret) \<Rightarrow> Some (out, err, Exits ret)
   | Some (out, err, Viewing lc) \<Rightarrow> do { (out', err', v) \<leftarrow> viewer_loop color show_old is lc; Some (out @ out', err @ err', v) })"

text \<open>\<open>main\<close>: the options, and what is printed until the program exits, or so far.\<close>

fun viewer_opts :: "char list \<Rightarrow> bool \<times> bool \<Rightarrow> (bool \<times> bool) option" where
  "viewer_opts [] o' = Some o'"
| "viewer_opts (c # cs) (color, show_old) =
     (if c = CHR ''N'' then viewer_opts cs (False, show_old)
      else if c = CHR ''O'' then viewer_opts cs (color, False)
      else None)"

definition lc_free :: "lc_state \<Rightarrow> lc_state option" where
  "lc_free s = do { a \<leftarrow> free_ptr (ls_lcinf s); b \<leftarrow> free_ptr (ls_uininf s); Some (s\<lparr>ls_lcinf := a, ls_uininf := b\<rparr>) }"

definition viewer_main :: "char list \<Rightarrow> bool \<Rightarrow> lc_env \<Rightarrow> log_buf \<Rightarrow> view_in list \<Rightarrow> (string \<times> string \<times> int option) run" where
  "viewer_main opts calloc_ok e b is = (case viewer_opts opts (True, True) of
     None \<Rightarrow> Done ('''', '''', Some 1)
   | Some (color, show_old) \<Rightarrow>
       if \<not> calloc_ok then Done ('''', '''', Some EOUTOFMEM)
       else (case lc_init e of
         Waits \<Rightarrow> Waits
       | Undef \<Rightarrow> Undef
       | Done (ret, s) \<Rightarrow> (case ls_conn s of
           Some lc \<Rightarrow>
             if ret \<noteq> 0 then (case lc_free s of None \<Rightarrow> Undef | Some _ \<Rightarrow> Done ('''', '''', Some ret))
             else (case viewer_loop color show_old is (if show_old then logc_seek_to_oldest lc b else lc) of
               None \<Rightarrow> Undef
             | Some (out, err, Viewing _) \<Rightarrow> Done (out, err, None)
             | Some (out, err, Exits ret) \<Rightarrow> (case lc_free s of None \<Rightarrow> Undef | Some _ \<Rightarrow> Done (out, err, Some ret)))
         | None \<Rightarrow> (case lc_free s of None \<Rightarrow> Undef | Some _ \<Rightarrow> Done ('''', '''', Some ret)))))"

section \<open>Messages through the log\<close>

text \<open>A call of the log macro, with what the uninitialised parts of the message hold.\<close>

record log_call =
  lg_level :: int
  lg_ts :: ubx_timespec
  lg_src :: string
  lg_text :: string
  lg_junk :: ubx_log_msg
  lg_pad :: "u8 list"

definition call_msg :: "log_call \<Rightarrow> ubx_log_msg" where
  "call_msg c = ubx_log_format (lg_level c) (lg_ts c) (lg_src c) (lg_text c) (lg_junk c)"

definition call_ok :: "log_call \<Rightarrow> bool" where
  "call_ok c \<longleftrightarrow> 0 \<le> lg_level c \<and> lg_level c \<le> 7 \<and> sec (lg_ts c) \<in> {- (2 ^ 63)..<2 ^ 63} \<and> nsec (lg_ts c) \<in> {- (2 ^ 63)..<2 ^ 63} \<and>
     length (lg_src c) < UBX_BLOCK_NAME_MAXLEN \<and> char_of (0 :: nat) \<notin> set (lg_src c) \<and> char_of (0 :: nat) \<notin> set (lg_text c) \<and>
     length (lm_src (lg_junk c)) = 64 \<and> length (lm_msg (lg_junk c)) = 128 \<and> length (lg_pad c) = 4"

definition call_line :: "bool \<Rightarrow> log_call \<Rightarrow> string" where
  "call_line color c = (let t = take 126 (lg_text c); nl = [char_of (10 :: nat)]; lv = loglevel_str ! nat (lg_level c) in
     if color then esc ''32'' @ ts_text (lg_ts c) @ '' '' @ esc ''33'' @ lg_src c @ '' '' @ loglevel_color ! nat (lg_level c) @ lv @ '': '' @ t @ nl @ esc ''0''
     else ts_text (lg_ts c) @ '' '' @ lg_src c @ '' '' @ lv @ '': '' @ t @ nl)"

definition log_to_shm :: "int \<Rightarrow> log_call \<Rightarrow> log_shm_inf \<Rightarrow> log_shm_inf option" where
  "log_to_shm nd_level c w = map_option snd (ubx_log nd_level (Some (\<lambda>m w. ubx_log_shm w (log_msg_bytes (lg_pad c) m)))
     (lg_level c) (lg_ts c) (lg_src c) (lg_text c) (lg_junk c) w)"

fun log_all :: "int \<Rightarrow> log_call list \<Rightarrow> log_shm_inf \<Rightarrow> log_shm_inf option" where
  "log_all nd_level [] w = Some w"
| "log_all nd_level (c # cs) w = do { w \<leftarrow> log_to_shm nd_level c w; log_all nd_level cs w }"

lemma field_text_nul:
  assumes "char_of (0 :: nat) \<notin> set s"
  shows "field_text (bytes_of_string s @ 0 # r) = Some s"
proof -
  have "0 \<notin> set (bytes_of_string s)" using assms by (simp only: bytes_of_string_nul not_False_eq_True)
  then have "takeWhile (\<lambda>b. b \<noteq> 0) (bytes_of_string s @ 0 # r) = bytes_of_string s"
    by (subst takeWhile_append2) (auto simp del: bytes_of_string_nul)
  then show ?thesis by (simp add: field_text_def string_of_bytes_of_string)
qed

lemma field_text_strncpy:
  assumes "length t < n" "char_of (0 :: nat) \<notin> set t"
  shows "field_text (strncpy_bytes n t dst) = Some t"
proof -
  from assms(1) have "replicate (n - length t) 0 = (0 :: u8) # replicate (n - length t - 1) 0"
    by (cases "n - length t") auto
  then have "strncpy_bytes n t dst = bytes_of_string t @ 0 # (replicate (n - length t - 1) 0 @ drop n dst)"
    using assms(1) by (simp add: strncpy_bytes_def Let_def)
  then show ?thesis using field_text_nul [OF assms(2)] by simp
qed

lemma field_text_vsnprintf:
  assumes "char_of (0 :: nat) \<notin> set t"
  shows "field_text (vsnprintf_bytes n t dst) = Some (take (n - 1) t)"
proof -
  have "char_of (0 :: nat) \<notin> set (take (n - 1) t)" using assms in_set_takeD by fast
  then show ?thesis 
    by (simp only: vsnprintf_bytes_def Let_def take_bytes_of_string append.simps append_assoc field_text_nul not_False_eq_True)
qed

lemma length_strncpy_bytes: "n \<le> length dst \<Longrightarrow> length (strncpy_bytes n t dst) = length dst"
  by (simp add: strncpy_bytes_def Let_def)

lemma length_vsnprintf_bytes: "0 < n \<Longrightarrow> n \<le> length dst \<Longrightarrow> length (vsnprintf_bytes n t dst) = length dst"
  by (simp add: vsnprintf_bytes_def Let_def min_def)

lemma length_log_msg_bytes:
  "length pad = 4 \<Longrightarrow> length (lm_src m) = 64 \<Longrightarrow> length (lm_msg m) = 128 \<Longrightarrow> length (log_msg_bytes pad m) = 216"
  by (simp add: log_msg_bytes_def length_word_enc)

lemma sint_word_of_int: "x \<in> {- (2 ^ (LENGTH('l) - 1))..<2 ^ (LENGTH('l) - 1)} \<Longrightarrow> sint (word_of_int x :: 'l::len word) = x"
  by (simp add: sint_uint uint_word_of_int_eq signed_take_bit_take_bit signed_take_bit_int_eq_self)

lemma log_msg_of_bytes:
  assumes "lm_level m \<in> {- (2 ^ 31)..<2 ^ 31}" "sec (lm_ts m) \<in> {- (2 ^ 63)..<2 ^ 63}" "nsec (lm_ts m) \<in> {- (2 ^ 63)..<2 ^ 63}"
    and l: "length pad = 4" "length (lm_src m) = 64" "length (lm_msg m) = 128"
  shows "log_msg_of (log_msg_bytes pad m) = m"
proof -
  have e: "length (word_enc (w :: u32)) = 4" "length (word_enc (v :: u64)) = 8" for w v by (simp_all add: length_word_enc)
  have s: "sint (word_of_int (lm_level m) :: u32) = lm_level m" "sint (word_of_int (sec (lm_ts m)) :: u64) = sec (lm_ts m)"
    "sint (word_of_int (nsec (lm_ts m)) :: u64) = nsec (lm_ts m)"
    using assms(1-3) by (simp_all add: sint_word_of_int)
  have d: "(of_nat (le_word (word_enc w)) :: u32) = w" "(of_nat (le_word (word_enc v)) :: u64) = v" for w v
    by (simp_all add: le_word_enc)
  show ?thesis by (simp add: log_msg_of_def log_msg_bytes_def e l d s)
qed

lemma call_msg_line:
  assumes ok: "call_ok c"
  shows "length (log_msg_bytes (lg_pad c) (call_msg c)) = 216"
    and "log_line color (log_msg_of (log_msg_bytes (lg_pad c) (call_msg c))) = Some (call_line color c)"
proof -
  note o = ok [unfolded call_ok_def]
  have l: "length (lm_src (call_msg c)) = 64" "length (lm_msg (call_msg c)) = 128"
    using o by (simp_all add: call_msg_def ubx_log_format_def length_strncpy_bytes length_vsnprintf_bytes UBX_BLOCK_NAME_MAXLEN_def UBX_LOG_MSG_MAXLEN_def)
  then show "length (log_msg_bytes (lg_pad c) (call_msg c)) = 216" using o by (simp add: length_log_msg_bytes)
  have "log_msg_of (log_msg_bytes (lg_pad c) (call_msg c)) = call_msg c"
    by (rule log_msg_of_bytes) (use o l in \<open>simp_all add: call_msg_def ubx_log_format_def\<close>)
  moreover have "field_text (lm_src (call_msg c)) = Some (lg_src c)" "field_text (lm_msg (call_msg c)) = Some (take 126 (lg_text c))"
    using o by (simp_all add: call_msg_def ubx_log_format_def field_text_strncpy field_text_vsnprintf UBX_LOG_MSG_MAXLEN_def)
  moreover have "lm_level (call_msg c) = lg_level c" "lm_ts (call_msg c) = lg_ts c" by (simp_all add: call_msg_def ubx_log_format_def)
  moreover have "loglevel_colour (lg_level c) = Some (loglevel_color ! nat (lg_level c))"
    using o by (simp add: loglevel_colour_def loglevel_color_def)
  ultimately show "log_line color (log_msg_of (log_msg_bytes (lg_pad c) (call_msg c))) = Some (call_line color c)"
    using o by (simp add: log_line_def call_line_def Let_def level_name_def)
qed

lemma ubx_log_shm_defined:
  assumes "log_inv s" "length msg = 216"
  shows "\<exists>w. ubx_log_shm (sys_w s) msg = Some w"
proof -
  from assms(1) have "unat (off (lb_w (inf_buf (sys_w s)))) + length msg \<le> length (lb_data (inf_buf (sys_w s)))"
    using slot_bound [of "lb_w (inf_buf (sys_w s))"] assms(2) by (simp add: log_inv_def geom_w_def)
  then show ?thesis by (simp add: ubx_log_shm_def mem_write_def)
qed

lemma log_to_shm_eq:
  "log_to_shm nd_level c w = (if lg_level c \<le> nd_level then ubx_log_shm w (log_msg_bytes (lg_pad c) (call_msg c)) else Some w)"
  by (cases "ubx_log_shm w (log_msg_bytes (lg_pad c) (call_msg c))")
    (simp_all add: log_to_shm_def ubx_log_def rt_ubx_log_def call_msg_def Let_def)

abbreviation logged :: "int \<Rightarrow> log_call list \<Rightarrow> log_call list" where
  "logged nd_level cs \<equiv> filter (\<lambda>c. lg_level c \<le> nd_level) cs"

abbreviation call_bytes :: "log_call \<Rightarrow> u8 list" where
  "call_bytes c \<equiv> log_msg_bytes (lg_pad c) (call_msg c)"

lemma log_all_reach:
  assumes "log_reach s" "length (hist s) + length (logged nd_level cs) < pos_limit" "\<forall>c \<in> set cs. call_ok c"
  shows "\<exists>s'. log_all nd_level cs (sys_w s) = Some (sys_w s') \<and> log_reach s' \<and> sys_r s' = sys_r s \<and>
    hist s' = hist s @ map call_bytes (logged nd_level cs)"
  using assms
proof (induction cs arbitrary: s)
  case (Cons c cs)
  show ?case
  proof (cases "lg_level c \<le> nd_level")
    case True
    have len: "length (call_bytes c) = 216" using Cons.prems(3) by (simp add: call_msg_line)
    from Cons.prems(2) have "length (hist s) < pos_limit" by simp
    with ubx_log_shm_defined [OF log_reach_inv [OF Cons.prems(1)] len] obtain w where
      w: "ubx_log_shm (sys_w s) (call_bytes c) = Some w" by blast
    let ?s = "s\<lparr>sys_w := w, hist := hist s @ [call_bytes c]\<rparr>"
    have "log_reach ?s" by (rule lr_step [OF Cons.prems(1) ls_write]) (simp_all add: len w log_sizes)
    from Cons.IH [OF this] Cons.prems(2,3) True obtain s' where
      "log_all nd_level cs w = Some (sys_w s')" "log_reach s'" "sys_r s' = sys_r s"
      "hist s' = hist s @ call_bytes c # map call_bytes (logged nd_level cs)" by auto
    then show ?thesis using True w by (auto simp: log_to_shm_eq)
  next
    case False
    with Cons.IH [OF Cons.prems(1)] Cons.prems(2,3) show ?thesis by (simp add: log_to_shm_eq)
  qed
qed auto

text \<open>A round in which nothing happens but logging.\<close>

definition quiet :: "log_buf \<Rightarrow> view_in" where
  "quiet b = \<lparr>vi_ino = Inl EAGAIN, vi_tries = (\<lambda>n. \<lparr>ae_stat = Inl ENOENT, ae_shm_open = Inl ENOENT, ae_mmap = Inl ENOENT\<rparr>),
     vi_old = b, vi_has = b, vi_read = b, vi_key = None, vi_strerror = ''''\<rparr>"

lemma quiet_check: "check_new_shm color show_old (quiet b) lc = Some ('''', Inr lc)"
  by (simp add: check_new_shm_def quiet_def check_inotify_def)

lemma viewer_round_new:
  assumes inv: "log_inv s" and new: "logc_has_data (sys_r s) (inf_buf (sys_w s)) = NEW_DATA"
    and c: "hist s ! pos (lc_r (sys_r s)) = call_bytes c" "call_ok c"
  shows "viewer_round color show_old (quiet (inf_buf (sys_w s))) (sys_r s) =
    Some (call_line color c, '''', Viewing ((sys_r s)\<lparr>lc_r := slot_advance (lc_r (sys_r s))\<rparr>))"
proof -
  let ?b = "inf_buf (sys_w s)" and ?r = "sys_r s"
  have g: "geom_r ?r" using inv by (simp add: log_inv_def)
  have "pos (lc_r ?r) < length (hist s)" "length (hist s) \<le> pos (lc_r ?r) + 9999"
    using new log_inv_status [OF inv] inv by (auto simp: log_inv_def split: if_splits)
  then have f: "logc_frame_bytes ?r ?b (off (lc_r ?r)) = Some (call_bytes c)"
    using logc_frame_bytes_slot [OF inv] c(1) by simp
  have rd: "logc_read_frame ?r ?b = (NEW_DATA, Some (off (lc_r ?r)), ?r\<lparr>lc_r := slot_advance (lc_r ?r)\<rparr>)"
    using logc_read_frame_new [OF g] new by simp
  have "log_data color ?r ?b = Some (call_line color c, ?r\<lparr>lc_r := slot_advance (lc_r ?r)\<rparr>)"
    unfolding log_data_def rd using f call_msg_line(2) [OF c(2)] by simp
  then show ?thesis using new by (simp add: viewer_round_def quiet_check) (simp add: quiet_def)
qed

lemma viewer_loop_pending:
  assumes "log_inv s" "length (hist s) < pos_limit" "drop (pos (lc_r (sys_r s))) (hist s) = map call_bytes cs" "length cs < 9999"
    "\<forall>c \<in> set cs. call_ok c"
  shows "\<exists>r. viewer_loop color show_old (replicate (length cs) (quiet (inf_buf (sys_w s)))) (sys_r s) =
      Some (concat (map (call_line color) cs), '''', Viewing r) \<and> logc_has_data r (inf_buf (sys_w s)) = NO_DATA"
  using assms
proof (induction cs arbitrary: s)
  case Nil
  with log_inv_status [OF Nil.prems(1)] show ?case by (simp add: log_inv_def)
next
  case (Cons c cs)
  let ?r = "lc_r (sys_r s)"
  let ?s = "s\<lparr>sys_r := (sys_r s)\<lparr>lc_r := slot_advance ?r\<rparr>, got := got s @ [hist s ! pos ?r]\<rparr>"
  from Cons.prems(3) have lt: "pos ?r < length (hist s)" by (metis drop_all leI list.distinct(1) list.simps(9))
  from Cons.prems(3) have "length (drop (pos ?r) (hist s)) = Suc (length cs)" by simp
  with Cons.prems(4) have "length (hist s) - pos ?r < 9999" by simp
  with lt log_inv_status [OF Cons.prems(1)] have new: "logc_has_data (sys_r s) (inf_buf (sys_w s)) = NEW_DATA" by simp
  have dr: "hist s ! pos ?r = call_bytes c" "drop (pos ?r + 1) (hist s) = map call_bytes cs"
    using Cons.prems(3) lt by (simp_all add: Cons_nth_drop_Suc [symmetric])
  note step = log_inv_read [OF Cons.prems(1,2) new]
  have ok: "call_ok c" using Cons.prems(5) by simp
  have "\<exists>r. viewer_loop color show_old (replicate (length cs) (quiet (inf_buf (sys_w ?s)))) (sys_r ?s) =
      Some (concat (map (call_line color) cs), '''', Viewing r) \<and> logc_has_data r (inf_buf (sys_w ?s)) = NO_DATA"
    by (rule Cons.IH) (use step dr Cons.prems in simp_all)
  then show ?case using viewer_round_new [OF Cons.prems(1) new dr(1) ok] by auto
qed

text \<open>C26: what is logged is what the viewer shows. In every reachable state of the log whose reader has caught up, take any calls of
  the log macro with levels from EMERG to DEBUG, names shorter than the field, texts without NUL, and whatever the uninitialised
  bytes of the messages hold. As long as the messages that pass the node's log level fit into the ring, writing them succeeds, and
  the viewer then prints, with or without colours, exactly one line for each of them, in order, with the text cut at 126
  characters, and has no data left. Messages below the level leave no trace.\<close>

theorem viewer_shows_log:
  assumes "log_reach s" "pos (lc_r (sys_r s)) = length (hist s)" "length (hist s) + length (logged nd_level cs) < pos_limit"
    "length (logged nd_level cs) < 9999" "\<forall>c \<in> set cs. call_ok c"
  shows "\<exists>w r. log_all nd_level cs (sys_w s) = Some w \<and>
    viewer_loop color show_old (replicate (length (logged nd_level cs)) (quiet (inf_buf w))) (sys_r s) =
      Some (concat (map (call_line color) (logged nd_level cs)), '''', Viewing r) \<and>
    logc_has_data r (inf_buf w) = NO_DATA"
proof -
  obtain s' where s': "log_all nd_level cs (sys_w s) = Some (sys_w s')" "log_reach s'" "sys_r s' = sys_r s"
    "hist s' = hist s @ map call_bytes (logged nd_level cs)" using log_all_reach [OF assms(1,3,5)] by blast
  then have lim: "length (hist s') < pos_limit" using assms(3) by simp
  have dr: "drop (pos (lc_r (sys_r s'))) (hist s') = map call_bytes (logged nd_level cs)" using s' assms(2) by simp
  have "\<forall>c \<in> set (logged nd_level cs). call_ok c" using assms(5) by simp
  from viewer_loop_pending [OF log_reach_inv [OF s'(2) lim] lim dr assms(4) this, of color show_old] s'(1,3)
  show ?thesis by auto
qed

theorem viewer_shows_log_witness:
  "\<exists>cs w r. length cs = 2 \<and> log_all 6 cs (sys_w log_start) = Some w \<and>
    viewer_loop False True [quiet (inf_buf w)] (sys_r log_start) = Some (''[12.000345] node INFO: hello'' @ [char_of (10 :: nat)], '''', Viewing r) \<and>
    logc_has_data r (inf_buf w) = NO_DATA"
proof -
  define j where "j = \<lparr>lm_level = 0, lm_ts = \<lparr>sec = 0, nsec = 0\<rparr>, lm_src = replicate 64 7, lm_msg = replicate 128 7\<rparr>"
  define c where "c = \<lparr>lg_level = 6, lg_ts = \<lparr>sec = 12, nsec = 345678\<rparr>, lg_src = ''node'', lg_text = ''hello'', lg_junk = j, lg_pad = replicate 4 7\<rparr>"
  define d where "d = c\<lparr>lg_level := 7\<rparr>"
  have nul: "char_of (0 :: nat) = CHR 0x00" by code_simp
  have start: "pos (lc_r (sys_r log_start)) = length (hist log_start)" "hist log_start = []"
    by (simp_all add: log_start_def pos_def ubx_log_init_def fresh_shm_def log_shm_size_val logc_init_def logc_reset_read_def shm_resize_def)
  have l: "logged 6 [d, c] = [c]" by (simp add: c_def d_def)
  have ok: "\<forall>c \<in> set [d, c]. call_ok c" by (simp add: call_ok_def c_def d_def j_def UBX_BLOCK_NAME_MAXLEN_def nul)
  have line: "call_line False c = ''[12.000345] node INFO: hello'' @ [char_of (10 :: nat)]"
  proof -
    have "ts_text \<lparr>sec = 12, nsec = 345678\<rparr> = ''[12.000345]''" by code_simp
    then show ?thesis by (simp add: call_line_def c_def loglevel_str_def)
  qed
  from viewer_shows_log [OF lr_start start(1) _ _ ok, of 6 False True] l line start(2)
  obtain w r where "log_all 6 [d, c] (sys_w log_start) = Some w"
    "viewer_loop False True [quiet (inf_buf w)] (sys_r log_start) = Some (''[12.000345] node INFO: hello'' @ [char_of (10 :: nat)], '''', Viewing r)"
    "logc_has_data r (inf_buf w) = NO_DATA"
    by (auto simp: pos_limit_def)
  then show ?thesis by (intro exI [of _ "[d, c]"] exI [of _ w] exI [of _ r]) simp
qed

section \<open>Where the code goes wrong\<close>

text \<open>A name of the longest admissible length fills the field: reading it as a string leaves the array when the byte behind it is not
  zero by chance.\<close>

lemma longest_name_unterminated:
  assumes "length src = UBX_BLOCK_NAME_MAXLEN" "char_of (0 :: nat) \<notin> set src" "length (lm_src junk) = 64" "lm_src junk ! 63 \<noteq> 0"
  shows "field_text (lm_src (ubx_log_format level now src t junk)) = None"
proof -
  have "drop 63 (lm_src junk) = [lm_src junk ! 63]" using assms(3) by (simp add: Cons_nth_drop_Suc [symmetric])
  then have "lm_src (ubx_log_format level now src t junk) = bytes_of_string src @ [lm_src junk ! 63]"
    using assms(1) by (simp add: ubx_log_format_def strncpy_bytes_def Let_def UBX_BLOCK_NAME_MAXLEN_def)
  moreover have "0 \<notin> set (bytes_of_string src)" using assms(2) by (simp only: bytes_of_string_nul not_False_eq_True)
  ultimately show ?thesis using assms(4) by (auto simp: field_text_def)
qed

text \<open>A level that is not one of the eight is printed as INVALID without colours and read beyond the table with them.\<close>

lemma invalid_level:
  assumes "lm_level m < 0 \<or> 7 < lm_level m" "field_text (lm_src m) = Some a" "field_text (lm_msg m) = Some t"
  shows "log_line True m = None"
    and "log_line False m = Some (ts_text (lm_ts m) @ '' '' @ a @ '' INVALID: '' @ t @ [char_of (10 :: nat)])"
  using assms by (auto simp: log_line_def loglevel_colour_def loglevel_color_def level_name_def)

text \<open>The error paths of \<open>lc_init\<close> free the structures and leave the pointers, which \<open>main\<close> frees again.\<close>

lemma start_inotify_errno: "start_inotify (Some err) w = (- err, False)"
  by (simp add: start_inotify_def)

lemma viewer_main_double_free:
  assumes "viewer_opts opts (True, True) = Some (color, show_old)" "le_calloc_lc e"
    and "\<not> le_calloc_ui e \<or> (\<exists>err. fst (le_start1 e) = Some err \<and> 0 < err)"
  shows "viewer_main opts True e b is = Undef"
  using assms
  by (cases "le_calloc_ui e")
    (auto simp: viewer_main_def lc_init_def lc_free_def free_ptr_def start_inotify_errno)

text \<open>Waiting for the writer to size a new log costs a descriptor in every attempt: \<open>mmap\<close> of an empty file fails.\<close>

lemma attach_loop_leaks:
  assumes "logc_attach e = (Inl err, True)" "err \<noteq> ENOENT" "err \<noteq> ENAMETOOLONG"
  shows "attach_loop (replicate n (e, []) @ es) k = attach_loop es (k + n)"
  using assms by (induction n arbitrary: k) (simp_all add: Let_def)

text \<open>Reopening tries eleven times, and fails only when all attempts do.\<close>

lemma reopen_succeeds: "(\<exists>lc. reopen n tries ret = Inr lc) \<longleftrightarrow> (\<exists>i < n. \<exists>lc. fst (logc_attach (tries i)) = Inr lc)"
  by (induction n arbitrary: ret) (auto simp: less_Suc_eq split: sum.splits)

lemma viewer_reopens:
  assumes "check_inotify (IN_CREATE OR IN_MODIFY) (vi_ino i) = Some 1"
  shows "(\<exists>err lc'. check_new_shm color False i lc = Some (err, Inr lc')) \<longleftrightarrow> (\<exists>k < 11. \<exists>lc'. fst (logc_attach (vi_tries i k)) = Inr lc')"
  unfolding reopen_succeeds [of 11 "vi_tries i" 1, symmetric]
  using assms by (auto simp: check_new_shm_def EAGAIN_def Let_def simp del: reopen.simps split: sum.splits)

text \<open>Attaching afresh puts the reader at the write position: the viewer shows nothing that was logged before, unless asked to.\<close>

lemma reset_no_data: "logc_has_data (logc_reset_read lg b) b = NO_DATA"
  by (simp add: logc_reset_read_def logc_has_data_def)

lemma attach_at_end:
  assumes "logc_attach e = (Inr lc, fd)" "ae_mmap e = Inr b"
  shows "logc_has_data lc b = NO_DATA"
  using assms
  by (cases "get_shm_file_size (ae_stat e)"; cases "ae_shm_open e") (auto simp: logc_attach_def logc_init_def reset_no_data)

text \<open>The viewer that has connected has both structures and an open descriptor for events.\<close>

lemma attach_loop_error: "attach_loop es k = Done (Inl err, k') \<Longrightarrow> err \<noteq> 0"
proof (induction es arbitrary: k)
  case (Cons p es)
  obtain e rs r fd where p: "p = (e, rs)" and a: "logc_attach e = (r, fd)" by (metis surj_pair)
  show ?case
  proof (cases r)
    case (Inl err')
    then show ?thesis using Cons p a
      by (cases "wait_shm rs") (auto simp: Let_def ENAMETOOLONG_def ENOENT_def split: if_splits)
  qed (use Cons p a in simp)
qed simp

lemma lc_init_connected:
  assumes "lc_init e = Done (0, st)" "\<forall>err \<in> set_option (fst (le_start1 e)) \<union> set_option (snd (le_start1 e)). 0 < err"
    "\<forall>err \<in> set_option (fst (le_start2 e)) \<union> set_option (snd (le_start2 e)). 0 < err"
  shows "ls_lcinf st = PLive \<and> ls_uininf st = PLive \<and> ls_infd st \<and> (\<exists>lc. ls_conn st = Some lc) \<and> (\<exists>st'. lc_free st = Some st')"
  using assms attach_loop_error
  by (auto simp: lc_init_def start_inotify_def lc_free_def free_ptr_def EOUTOFMEM_def split: if_splits option.splits run.splits sum.splits prod.splits)

end
