(* ===== verification/Spec2Isabelle.thy ===== *)
theory Spec2Isabelle
  imports Ubx_Rtlog Ubx_Ptrig Ubx_Mqueue Ubx_Boot Ubx_Signal Ubx_Ramp Ubx_Pid Ubx_Math Ubx_Thres Ubx_Fifo Ubx_Const Ubx_Rand
    Ubx_Hexdump Ubx_Demo Ubx_Webif Ubx_Logview
begin

text \<open>
  Verification library of microblx, a framework for real-time function blocks in C
  (\<^verbatim>\<open>src/libubx\<close>, \<^verbatim>\<open>src/std_blocks\<close>).

  \<^bold>\<open>The program.\<close> A node holds three hash tables: types, modules and blocks. A module is a shared
  library whose init function registers types and block prototypes. Blocks are created by cloning a prototype; they
  own typed, reference counted configurations and typed ports, and go through a life cycle (preinit, inactive, active)
  whose transitions call the hooks of the block. Computation blocks are stepped by trigger blocks and exchange data
  through interaction blocks, to which their ports are connected. Messages are logged through a lock-free
  shared-memory ring buffer that other processes read. Types are identified by the MD5 digest of their name.

  \<^bold>\<open>Theories.\<close>
  \<^item> \<^verbatim>\<open>Ubx_Prelude\<close>: machine types, signed arithmetic with undefined overflow, C strings, lemma collections.
  \<^item> \<^verbatim>\<open>Ubx_Time\<close>: \<^verbatim>\<open>libubx/ubx_time.c\<close>. Normalisation, sum, difference, comparison and conversion of
    \<open>struct timespec\<close> values are exact, with the ranges in which the C arithmetic does not overflow.
  \<^item> \<^verbatim>\<open>Ubx_Rtlog\<close>: \<^verbatim>\<open>libubx/rtlog.c\<close> and \<^verbatim>\<open>libubx/rtlog_client.c\<close>. Writer and reader of the log
    ring; the reader's status is exact in every reachable state and frames are read in order.
  \<^item> \<^verbatim>\<open>Ubx_Types\<close>: the structs of \<^verbatim>\<open>libubx/ubx_types.h\<close> as records, objects in an explicit store.
  \<^item> \<^verbatim>\<open>Ubx_MD5\<close>: \<^verbatim>\<open>libubx/md5.c\<close>, proved equal to RFC 1321.
  \<^item> \<^verbatim>\<open>Ubx_Ut\<close>: the contract of the external container macros \<open>uthash\<close> and \<open>utlist\<close> (locale
    \<open>ut_laws\<close>) and the loop \<open>HASH_ITER\<close>.
  \<^item> \<^verbatim>\<open>Ubx_Typereg\<close>, \<^verbatim>\<open>Ubx_Data\<close>, \<^verbatim>\<open>Ubx_Config\<close>, \<^verbatim>\<open>Ubx_Port\<close>, \<^verbatim>\<open>Ubx_Block\<close>,
    \<^verbatim>\<open>Ubx_Node\<close>: the groups of functions of \<^verbatim>\<open>libubx/ubx.c\<close> (the config accessors of
    \<^verbatim>\<open>libubx/typemacros.h\<close> are with the configs). \<^verbatim>\<open>Ubx_Wf\<close>: the invariant of the core they share.
  \<^item> \<^verbatim>\<open>Ubx_Core\<close>: every operation preserves the invariant; what creating a block gives.
  \<^item> \<^verbatim>\<open>Ubx_Proto\<close>: from the tables of a prototype to an instance, which has every port and config of the tables; registering,
    creating, removing and unregistering leak nothing.
  \<^item> \<^verbatim>\<open>Ubx_Rw\<close>: reading and writing ports (\<open>__port_read\<close>, \<open>__port_write\<close>), the typed accessors
    of \<^verbatim>\<open>libubx/typemacros.h\<close> and \<^verbatim>\<open>libubx/accessors.c\<close>, and the contract of interaction blocks they
    rely on (locale \<open>io_hooks\<close>).
  \<^item> \<^verbatim>\<open>Ubx_Cyclic\<close>: \<^verbatim>\<open>std_blocks/lfds_buffers/lfds_cyclic.c\<close>, the buffered interaction block, on top of
    the external ring buffer \<open>liblfds\<close> (locale \<open>ring_laws\<close>). It refines a bounded queue, obeys \<open>io_hooks\<close>,
    and a connection through it is a first-in first-out pipe between the accessors of two blocks.
  \<^item> \<^verbatim>\<open>Ubx_Tstat\<close>, \<^verbatim>\<open>Ubx_Chain\<close>: \<^verbatim>\<open>libubx/trig_utils.c\<close>. Timing statistics are exact; a
    trigger steps exactly the blocks that are due, in every statistics mode (locale \<open>chain_laws\<close>: what a chain relies on).
  \<^item> \<^verbatim>\<open>Ubx_Trig\<close>: the trigger block, \<^verbatim>\<open>std_blocks/trig/trig.c\<close> and \<^verbatim>\<open>common.c\<close>. The active
    chain is always in range; what the statistics file holds; what a second start does.
  \<^item> \<^verbatim>\<open>Ubx_Ptrig\<close>: the periodic trigger block, \<^verbatim>\<open>std_blocks/trig/ptrig.c\<close>. Its thread and its
    hooks are the step relation \<open>ptrig_step\<close>: a stopped block does not trigger; a stop that times out
    frees statistics the thread may be about to use.
  \<^item> \<^verbatim>\<open>Ubx_Mqueue\<close>: the block \<^verbatim>\<open>std_blocks/mqueue/mqueue.c\<close> on POSIX message queues
    (locale \<open>mq_laws\<close>). It obeys \<open>io_hooks\<close>, and two blocks on one queue are a pipe between their ports.
  \<^item> \<^verbatim>\<open>Ubx_Modules\<close>, \<^verbatim>\<open>Ubx_Boot\<close>: \<^verbatim>\<open>std_types\<close> and the prototype tables and module functions of
    \<^verbatim>\<open>std_blocks\<close>. Every table is sound; loading the standard modules into a node succeeds, and cleaning the node up empties it
    again (an interpretation of \<open>node_laws\<close>).
  \<^item> \<^verbatim>\<open>Ubx_Signal\<close>: what the signal blocks share (private data beside that of the interaction blocks, locale
    \<open>block_io\<close>; values of type \<open>double\<close>), and \<^verbatim>\<open>std_blocks/saturation/saturation.c\<close>.
  \<^item> \<^verbatim>\<open>Ubx_Double\<close>: IEEE 754 \<open>double\<close> values as 64 bits, with comparison, addition, subtraction and multiplication
    rounded to nearest even; the operations are exact on integers below \<open>2 ^ 53\<close>.
  \<^item> \<^verbatim>\<open>Ubx_Elem\<close>: the element types generic blocks are compiled for (locale \<open>elem_laws\<close>, interpreted for every type
    but \<open>float\<close>), arrays on the heap, and reading and writing whole samples.
  \<^item> \<^verbatim>\<open>Ubx_Ramp\<close>, \<^verbatim>\<open>Ubx_Pid\<close>, \<^verbatim>\<open>Ubx_Math\<close>, \<^verbatim>\<open>Ubx_Thres\<close>,
    \<^verbatim>\<open>Ubx_Const\<close>, \<^verbatim>\<open>Ubx_Rand\<close>: the blocks of these names in \<^verbatim>\<open>std_blocks\<close>, from \<open>init\<close> to
    \<open>cleanup\<close>. What a step writes through any interaction blocks that obey \<open>block_io\<close>: a ramp, the PID law, a function of
    the input, the threshold crossings, the value of a config; what the random generators return.
  \<^item> \<^verbatim>\<open>Ubx_Fifo\<close>: \<^verbatim>\<open>std_blocks/examples/simple_fifo.c\<close>. Its accesses stay inside the buffer, but no read delivers.
  \<^item> \<^verbatim>\<open>Ubx_Hexdump\<close>: \<^verbatim>\<open>std_blocks/hexdump/hexdump.c\<close>; the dump shows every byte. \<^verbatim>\<open>Ubx_Demo\<close>:
    \<^verbatim>\<open>skelleton.c\<close>, whose \<open>init\<close> cannot succeed, and the tables of \<^verbatim>\<open>random.c\<close>.
  \<^item> \<^verbatim>\<open>Ubx_Lua\<close>: the laws of the Lua library, and \<^verbatim>\<open>std_blocks/luablock/luablock.c\<close>: what the
    steps of a block leave on the stack of its interpreter. \<^verbatim>\<open>Ubx_Webif\<close>: \<^verbatim>\<open>std_blocks/webif/webif.c\<close>: what requests are answered with.
  \<^item> \<^verbatim>\<open>Ubx_Logview\<close>: the messages of \<^verbatim>\<open>libubx/rtlog.c\<close>, attaching in \<^verbatim>\<open>libubx/rtlog_client.c\<close>, and the viewer
    \<^verbatim>\<open>tools/ubx-log.c\<close>. What is logged is what the viewer prints; what its error paths do.

  \<^bold>\<open>Conventions.\<close> A definition carries the name of the C function it models; a helper that models a
  static function or a loop has a name of its own. An operation that can execute undefined behaviour (NULL or dangling
  pointers, signed overflow, out of bounds, a failing assertion) returns an option whose \<open>None\<close> is exactly that; a theorem that says
  \<open>= Some r\<close> therefore shows that the behaviour is defined. Negative return values are the error codes of the
  source. Memory allocation may fail at any point: the field \<open>oom\<close> of the state says which of the coming
  allocations fail, and the theorems hold for all its values. Strings are lists of the characters before the
  terminating NUL. Hooks and module functions are parameters that transform the whole state. Loops over lists are
  structural recursion; \<open>HASH_ITER\<close>, whose body may change the table, is a partial function whose
  termination is proved where it is used. No fuel is used.

  \<^bold>\<open>External code.\<close> \<open>uthash\<close>/\<open>utlist\<close> are the record \<open>ut_lib\<close>, restricted by the laws
  \<open>ut_laws\<close>, and the ring buffer of \<open>liblfds\<close> is the record \<open>rb_lib\<close> with the laws \<open>ring_laws\<close>,
  POSIX message queues the record \<open>mq_lib\<close> with \<open>mq_laws\<close>, and the Lua library the record \<open>lua_lib\<close> with \<open>lua_laws\<close>,
  which leave open how many values fit on the stack of an interpreter; an instance satisfies each. The dynamic linker is the record \<open>mod_env\<close>; the clock, \<open>fopen\<close>, the memory layout of
  structs that travel as bytes and the conversion of a \<open>double\<close> are fields of \<open>chain_env\<close> and \<open>trig_env\<close>;
  the results of \<open>shm_open\<close>, \<open>mmap\<close>, \<open>prctl\<close> and \<open>mlockall\<close> are environment records, the web server \<open>mongoose\<close>
  is the record \<open>web_env\<close>. The functions of \<open>libm\<close>,
  the generator behind \<open>random\<close>, the conversion of a \<open>double\<close> to \<open>float\<close> and the NaN that an operation on
  \<open>double\<close> returns are arguments of the definitions that use them, as are the values of uninitialised variables.

  \<^bold>\<open>Not modelled.\<close> The vendored web server (\<^verbatim>\<open>std_blocks/webif/mongoose.c\<close>), the Lua interpreter,
  the programs and generated blocks under \<^verbatim>\<open>examples\<close>, and reading clocks, which are I/O or third-party code; arithmetic on \<open>float\<close>; fused
  multiply-add, which a compiler may use for \<open>a += b * c\<close>; the texts the blocks log (the
  pointers a log macro follows are modelled where they can be invalid). Pointers to the values of configs that a block keeps are read again in
  each step, but a config that is resized meanwhile is outside the model. In \<^verbatim>\<open>Ubx_Ptrig\<close> a trigger of the chain and the report of the statistics are single steps. Concurrency of the log ring is modelled as interleaving of whole writer and
  reader operations. A chain is passed by value to the blocks it steps: a block that changes the chain that is stepping it, or
  the config it is read from, is outside the model.
\<close>

end
